(* ===== verification/Mumu_Prelude.thy ===== *)
theory Mumu_Prelude
  imports Main "HOL-Library.Word" "HOL-Library.Monad_Syntax"
begin

text \<open>
  Shared vocabulary of the development.

  \<^item> Machine types: \<open>u8\<close> is \<^verbatim>\<open>unsigned char\<close> / \<^verbatim>\<open>uint8_t\<close>, \<open>u32\<close> is \<^verbatim>\<open>uint32_t\<close>, \<open>u64\<close> is
    \<^verbatim>\<open>uint64_t\<close> and the \<^verbatim>\<open>unsigned long\<close> of the LP64 targets.
  \<^item> Memory: a C array or \<^verbatim>\<open>malloc\<close>ed block is the list of its elements. Every access that the
    code makes by pointer arithmetic goes through \<open>rd\<close>, \<open>wr\<close>, \<open>mem_read\<close>, \<open>mem_write\<close>, which
    return \<open>None\<close> when the access leaves the object. A model that returns \<open>None\<close> is a run of the
    C code with no defined result: it reads or writes out of bounds, or it never returns.
  \<^item> Bit fields: \<open>bf_get\<close> and \<open>bf_set\<close> read and write \<open>w\<close> bits at bit position \<open>sh\<close> of a byte,
    the layout that the little-endian branch of \<^verbatim>\<open>src/src/ts.h\<close> declares.
  \<^item> \<open>HILO\<close> is the macro of the same name in \<^verbatim>\<open>src/src/ts.h\<close>.
\<close>

unbundle bit_operations_syntax

type_synonym u8 = "8 word"
type_synonym u32 = "32 word"
type_synonym u64 = "64 word"

named_theorems mem_simps "checked memory accesses that are in bounds"
named_theorems len_simps "lengths of buffers after an operation"

section \<open>Checked memory\<close>

definition rd :: "'a list \<Rightarrow> nat \<Rightarrow> 'a option" where
  "rd b i = (if i < length b then Some (b ! i) else None)"

definition wr :: "'a list \<Rightarrow> nat \<Rightarrow> 'a \<Rightarrow> 'a list option" where
  "wr b i x = (if i < length b then Some (b[i := x]) else None)"

definition mem_read :: "'a list \<Rightarrow> nat \<Rightarrow> nat \<Rightarrow> 'a list option" where
  "mem_read b off n = (if off + n \<le> length b then Some (take n (drop off b)) else None)"

definition mem_write :: "'a list \<Rightarrow> nat \<Rightarrow> 'a list \<Rightarrow> 'a list option" where
  "mem_write b off xs =
     (if off + length xs \<le> length b
      then Some (take off b @ xs @ drop (off + length xs) b) else None)"

lemma rd_in [mem_simps]: "i < length b \<Longrightarrow> rd b i = Some (b ! i)"
  by (simp add: rd_def)

lemma rd_out: "length b \<le> i \<Longrightarrow> rd b i = None"
  by (simp add: rd_def)

lemma rd_Some_iff: "rd b i = Some x \<longleftrightarrow> i < length b \<and> x = b ! i"
  by (auto simp: rd_def)

lemma wr_in [mem_simps]: "i < length b \<Longrightarrow> wr b i x = Some (b[i := x])"
  by (simp add: wr_def)

lemma wr_Some_iff: "wr b i x = Some b' \<longleftrightarrow> i < length b \<and> b' = b[i := x]"
  by (auto simp: wr_def)

lemma mem_read_in [mem_simps]:
  "off + n \<le> length b \<Longrightarrow> mem_read b off n = Some (take n (drop off b))"
  by (simp add: mem_read_def)

lemma mem_read_Some_iff:
  "mem_read b off n = Some xs \<longleftrightarrow> off + n \<le> length b \<and> xs = take n (drop off b)"
  by (auto simp: mem_read_def)

lemma mem_read_length [len_simps]: "mem_read b off n = Some xs \<Longrightarrow> length xs = n"
  by (auto simp: mem_read_def split: if_splits)

lemma mem_write_in [mem_simps]:
  "off + length xs \<le> length b \<Longrightarrow>
   mem_write b off xs = Some (take off b @ xs @ drop (off + length xs) b)"
  by (simp add: mem_write_def)

lemma mem_write_Some_iff:
  "mem_write b off xs = Some b' \<longleftrightarrow>
     off + length xs \<le> length b \<and> b' = take off b @ xs @ drop (off + length xs) b"
  by (auto simp: mem_write_def)

lemma mem_write_length [len_simps]: "mem_write b off xs = Some b' \<Longrightarrow> length b' = length b"
  by (auto simp: mem_write_def split: if_splits)

lemma mem_write_prefix:
  "mem_write b off xs = Some b' \<Longrightarrow> take (off + length xs) b' = take off b @ xs"
  by (auto simp: mem_write_def split: if_splits)

lemma mem_write_nth_before:
  "mem_write b off xs = Some b' \<Longrightarrow> i < off \<Longrightarrow> b' ! i = b ! i"
  by (auto simp: mem_write_def nth_append split: if_splits)

section \<open>Bit fields\<close>

definition bf_get :: "u8 \<Rightarrow> nat \<Rightarrow> nat \<Rightarrow> u8" where
  "bf_get b sh w = take_bit w (drop_bit sh b)"

definition bf_set :: "u8 \<Rightarrow> nat \<Rightarrow> nat \<Rightarrow> u8 \<Rightarrow> u8" where
  "bf_set b sh w v =
     (b AND NOT (push_bit sh (mask w))) OR push_bit sh (take_bit w v)"

lemma bit_bf_get: "bit (bf_get b sh w) n \<longleftrightarrow> n < w \<and> bit b (sh + n)"
  by (auto simp: bf_get_def bit_take_bit_iff bit_drop_bit_eq)

lemma bit_bf_set:
  "n < 8 \<Longrightarrow> bit (bf_set b sh w v) n \<longleftrightarrow>
     (if sh \<le> n \<and> n < sh + w then bit v (n - sh) else bit b n)"
  by (auto simp: bf_set_def bit_or_iff bit_and_iff bit_not_iff bit_push_bit_iff
        bit_mask_iff bit_take_bit_iff)

lemma bf_get_set_same:
  assumes "sh + w \<le> 8"
  shows "bf_get (bf_set b sh w v) sh w = take_bit w v"
proof (rule bit_word_eqI)
  fix n assume "n < LENGTH(8)"
  show "bit (bf_get (bf_set b sh w v) sh w) n = bit (take_bit w v) n"
    using assms by (cases "n < w") (auto simp: bit_bf_get bit_bf_set bit_take_bit_iff)
qed

lemma bf_get_set_other:
  assumes "sh + w \<le> 8" "sh' + w' \<le> 8" "sh' + w' \<le> sh \<or> sh + w \<le> sh'"
  shows "bf_get (bf_set b sh w v) sh' w' = bf_get b sh' w'"
proof (rule bit_word_eqI)
  fix n assume "n < LENGTH(8)"
  show "bit (bf_get (bf_set b sh w v) sh' w') n = bit (bf_get b sh' w') n"
    using assms by (cases "n < w'") (auto simp: bit_bf_get bit_bf_set)
qed

lemma bf_get_bound: "unat (bf_get b sh w) < 2 ^ w"
proof -
  have "bf_get b sh w = take_bit w (bf_get b sh w)" by (simp add: bf_get_def)
  then have "unat (bf_get b sh w) = take_bit w (unat (bf_get b sh w))"
    by (metis unsigned_take_bit_eq)
  then show ?thesis by (metis take_bit_nat_less_exp)
qed

lemma bit_word_of_nat: "bit (word_of_nat m :: 'a::len word) n \<longleftrightarrow> n < LENGTH('a) \<and> bit m n"
  by (metis bit_word_of_int_iff of_int_of_nat_eq bit_of_nat_iff_bit)

lemma take_bit_bf_get [simp]: "take_bit w (bf_get b sh w) = bf_get b sh w"
  by (simp add: bf_get_def)

lemma bf_get_mod_2 [simp]: "bf_get b sh (Suc 0) mod 2 = bf_get b sh (Suc 0)"
  using take_bit_bf_get [of "Suc 0" b sh] by (simp del: take_bit_bf_get)

lemma unat_u8_lt: "unat (b :: u8) < 256"
  using unsigned_less [of b, where ?'a = nat] by simp

section \<open>Two-byte fields\<close>

definition HILO :: "u8 \<Rightarrow> u8 \<Rightarrow> nat" where
  "HILO hi lo = (push_bit 8 (unat hi) OR unat lo)"

lemma HILO_eq: "HILO hi lo = unat hi * 256 + unat lo"
proof -
  have "push_bit 8 (unat hi) AND unat lo = 0"
  proof (rule bit_eqI)
    fix n
    show "bit (push_bit 8 (unat hi) AND unat lo) n = bit (0::nat) n"
      using bit_imp_le_length [of lo n]
      by (auto simp: bit_and_iff bit_push_bit_iff bit_unsigned_iff)
  qed
  then show ?thesis
    using disjunctive_add_eq_or [of "push_bit 8 (unat hi)" "unat lo"]
    by (simp add: HILO_def push_bit_eq_mult)
qed

lemma HILO_bound: "unat hi < 2 ^ k \<Longrightarrow> HILO hi lo < 2 ^ (k + 8)"
proof -
  assume "unat hi < 2 ^ k"
  then have "unat hi + 1 \<le> 2 ^ k" by simp
  then have "(unat hi + 1) * 256 \<le> 2 ^ k * 256" by simp
  then show ?thesis
    using unat_u8_lt [of lo] by (simp add: HILO_eq power_add)
qed

lemma HILO_get4: "HILO (bf_get b 0 4) lo < 4096"
  using HILO_bound [OF bf_get_bound [of b 0 4], of lo] by simp

lemma HILO_get5: "HILO (bf_get b 0 5) lo < 8192"
  using HILO_bound [OF bf_get_bound [of b 0 5], of lo] by simp

lemma HILO_u16: "HILO hi lo < 65536"
  using unat_u8_lt [of hi] unat_u8_lt [of lo] by (simp add: HILO_eq)

section \<open>Lists\<close>

lemma filter_sum_list_remove:
  "sum_list (map f (filter P xs)) \<le> sum_list (map (f :: 'a \<Rightarrow> nat) xs)"
  by (induction xs) auto

end
