(* ===== verification/Crc.thy ===== *)
theory Crc
  imports Mumu_Prelude
begin

text \<open>
  The MPEG-2 CRC-32 of \<^verbatim>\<open>src/src/crc32.c\<close> and the two loops that use its table: the one of
  \<^verbatim>\<open>ts_check_raw_crc32\<close> (\<^verbatim>\<open>src/src/ts.c\<close>) on a \<^verbatim>\<open>uint32_t\<close>, and the one of the table rewriters
  (\<^verbatim>\<open>rewrite_pat.c\<close>, \<^verbatim>\<open>rewrite_sdt.c\<close>, \<^verbatim>\<open>rewrite_pmt.c\<close>), which runs on an \<^verbatim>\<open>unsigned long\<close>,
  64 bits wide on the LP64 targets.

  The lemmas show that the table is eight steps of the serial division by the generator
  polynomial 0x04c11db7, that a message followed by its big-endian CRC leaves the register at
  zero whatever the width of the register, and that the check detects every change confined to
  four adjacent bytes.
\<close>

section \<open>The table and the byte step\<close>

definition crc32_table :: "u32 list" where
  "crc32_table = [
     0x00000000, 0x04c11db7, 0x09823b6e, 0x0d4326d9, 0x130476dc,
     0x17c56b6b, 0x1a864db2, 0x1e475005, 0x2608edb8, 0x22c9f00f,
     0x2f8ad6d6, 0x2b4bcb61, 0x350c9b64, 0x31cd86d3, 0x3c8ea00a,
     0x384fbdbd, 0x4c11db70, 0x48d0c6c7, 0x4593e01e, 0x4152fda9,
     0x5f15adac, 0x5bd4b01b, 0x569796c2, 0x52568b75, 0x6a1936c8,
     0x6ed82b7f, 0x639b0da6, 0x675a1011, 0x791d4014, 0x7ddc5da3,
     0x709f7b7a, 0x745e66cd, 0x9823b6e0, 0x9ce2ab57, 0x91a18d8e,
     0x95609039, 0x8b27c03c, 0x8fe6dd8b, 0x82a5fb52, 0x8664e6e5,
     0xbe2b5b58, 0xbaea46ef, 0xb7a96036, 0xb3687d81, 0xad2f2d84,
     0xa9ee3033, 0xa4ad16ea, 0xa06c0b5d, 0xd4326d90, 0xd0f37027,
     0xddb056fe, 0xd9714b49, 0xc7361b4c, 0xc3f706fb, 0xceb42022,
     0xca753d95, 0xf23a8028, 0xf6fb9d9f, 0xfbb8bb46, 0xff79a6f1,
     0xe13ef6f4, 0xe5ffeb43, 0xe8bccd9a, 0xec7dd02d, 0x34867077,
     0x30476dc0, 0x3d044b19, 0x39c556ae, 0x278206ab, 0x23431b1c,
     0x2e003dc5, 0x2ac12072, 0x128e9dcf, 0x164f8078, 0x1b0ca6a1,
     0x1fcdbb16, 0x018aeb13, 0x054bf6a4, 0x0808d07d, 0x0cc9cdca,
     0x7897ab07, 0x7c56b6b0, 0x71159069, 0x75d48dde, 0x6b93dddb,
     0x6f52c06c, 0x6211e6b5, 0x66d0fb02, 0x5e9f46bf, 0x5a5e5b08,
     0x571d7dd1, 0x53dc6066, 0x4d9b3063, 0x495a2dd4, 0x44190b0d,
     0x40d816ba, 0xaca5c697, 0xa864db20, 0xa527fdf9, 0xa1e6e04e,
     0xbfa1b04b, 0xbb60adfc, 0xb6238b25, 0xb2e29692, 0x8aad2b2f,
     0x8e6c3698, 0x832f1041, 0x87ee0df6, 0x99a95df3, 0x9d684044,
     0x902b669d, 0x94ea7b2a, 0xe0b41de7, 0xe4750050, 0xe9362689,
     0xedf73b3e, 0xf3b06b3b, 0xf771768c, 0xfa325055, 0xfef34de2,
     0xc6bcf05f, 0xc27dede8, 0xcf3ecb31, 0xcbffd686, 0xd5b88683,
     0xd1799b34, 0xdc3abded, 0xd8fba05a, 0x690ce0ee, 0x6dcdfd59,
     0x608edb80, 0x644fc637, 0x7a089632, 0x7ec98b85, 0x738aad5c,
     0x774bb0eb, 0x4f040d56, 0x4bc510e1, 0x46863638, 0x42472b8f,
     0x5c007b8a, 0x58c1663d, 0x558240e4, 0x51435d53, 0x251d3b9e,
     0x21dc2629, 0x2c9f00f0, 0x285e1d47, 0x36194d42, 0x32d850f5,
     0x3f9b762c, 0x3b5a6b9b, 0x0315d626, 0x07d4cb91, 0x0a97ed48,
     0x0e56f0ff, 0x1011a0fa, 0x14d0bd4d, 0x19939b94, 0x1d528623,
     0xf12f560e, 0xf5ee4bb9, 0xf8ad6d60, 0xfc6c70d7, 0xe22b20d2,
     0xe6ea3d65, 0xeba91bbc, 0xef68060b, 0xd727bbb6, 0xd3e6a601,
     0xdea580d8, 0xda649d6f, 0xc423cd6a, 0xc0e2d0dd, 0xcda1f604,
     0xc960ebb3, 0xbd3e8d7e, 0xb9ff90c9, 0xb4bcb610, 0xb07daba7,
     0xae3afba2, 0xaafbe615, 0xa7b8c0cc, 0xa379dd7b, 0x9b3660c6,
     0x9ff77d71, 0x92b45ba8, 0x9675461f, 0x8832161a, 0x8cf30bad,
     0x81b02d74, 0x857130c3, 0x5d8a9099, 0x594b8d2e, 0x5408abf7,
     0x50c9b640, 0x4e8ee645, 0x4a4ffbf2, 0x470cdd2b, 0x43cdc09c,
     0x7b827d21, 0x7f436096, 0x7200464f, 0x76c15bf8, 0x68860bfd,
     0x6c47164a, 0x61043093, 0x65c52d24, 0x119b4be9, 0x155a565e,
     0x18197087, 0x1cd86d30, 0x029f3d35, 0x065e2082, 0x0b1d065b,
     0x0fdc1bec, 0x3793a651, 0x3352bbe6, 0x3e119d3f, 0x3ad08088,
     0x2497d08d, 0x2056cd3a, 0x2d15ebe3, 0x29d4f654, 0xc5a92679,
     0xc1683bce, 0xcc2b1d17, 0xc8ea00a0, 0xd6ad50a5, 0xd26c4d12,
     0xdf2f6bcb, 0xdbee767c, 0xe3a1cbc1, 0xe760d676, 0xea23f0af,
     0xeee2ed18, 0xf0a5bd1d, 0xf464a0aa, 0xf9278673, 0xfde69bc4,
     0x89b8fd09, 0x8d79e0be, 0x803ac667, 0x84fbdbd0, 0x9abc8bd5,
     0x9e7d9662, 0x933eb0bb, 0x97ffad0c, 0xafb010b1, 0xab710d06,
     0xa6322bdf, 0xa2f33668, 0xbcb4666d, 0xb8757bda, 0xb5365d03,
     0xb1f740b4]"

definition crc32_step :: "u32 \<Rightarrow> u8 \<Rightarrow> u32" where
  "crc32_step crc d =
     push_bit 8 crc XOR crc32_table ! unat ((drop_bit 24 crc XOR ucast d) AND 0xff)"

definition crc32_run :: "u32 \<Rightarrow> u8 list \<Rightarrow> u32" where
  "crc32_run crc ds = foldl crc32_step crc ds"

definition crc32_step64 :: "u64 \<Rightarrow> u8 \<Rightarrow> u64" where
  "crc32_step64 crc d =
     push_bit 8 crc XOR ucast (crc32_table ! unat ((drop_bit 24 crc XOR ucast d) AND 0xff))"

definition crc32_run64 :: "u64 \<Rightarrow> u8 list \<Rightarrow> u64" where
  "crc32_run64 crc ds = foldl crc32_step64 crc ds"

text \<open>The four bytes a rewriter appends: \<^verbatim>\<open>(crc32>>24) & 0xff\<close> and so on.\<close>

definition crc32_bytes :: "u32 \<Rightarrow> u8 list" where
  "crc32_bytes crc = [ucast ((drop_bit 24 crc) AND 0xff), ucast ((drop_bit 16 crc) AND 0xff),
                      ucast ((drop_bit 8 crc) AND 0xff), ucast (crc AND 0xff)]"

definition crc32_bytes64 :: "u64 \<Rightarrow> u8 list" where
  "crc32_bytes64 crc = [ucast ((drop_bit 24 crc) AND 0xff), ucast ((drop_bit 16 crc) AND 0xff),
                        ucast ((drop_bit 8 crc) AND 0xff), ucast (crc AND 0xff)]"

section \<open>The serial division\<close>

definition crc_bit :: "u32 \<Rightarrow> u32" where
  "crc_bit x = (if bit x 31 then push_bit 1 x XOR 0x04c11db7 else push_bit 1 x)"

definition crc_byte :: "u32 \<Rightarrow> u32" where
  "crc_byte x = (crc_bit ^^ 8) x"

lemma crc_bit_alt: "crc_bit x = push_bit 1 x XOR (if bit x 31 then 0x04c11db7 else 0)"
  by (simp add: crc_bit_def)

lemma crc_bit_xor: "crc_bit (x XOR y) = crc_bit x XOR crc_bit y"
  by (auto simp: crc_bit_alt bit_xor_iff ac_simps)

lemma crc_bit_0: "crc_bit 0 = 0"
  by (simp add: crc_bit_def)

lemma crc_bit_eq_0: "crc_bit x = 0 \<Longrightarrow> x = 0"
proof -
  assume 0: "crc_bit x = 0"
  have "bit (crc_bit x) 0 \<longleftrightarrow> bit x 31"
    by (simp add: crc_bit_alt bit_xor_iff bit_push_bit_iff del: push_bit_of_Suc_0 One_nat_def push_bit_Suc)
  with 0 have n31: "\<not> bit x 31" by simp
  with 0 have p: "push_bit 1 x = 0" by (simp add: crc_bit_def)
  show "x = 0"
  proof (rule bit_word_eqI)
    fix n assume "n < LENGTH(32)"
    show "bit x n = bit (0 :: u32) n"
    proof (cases "n = 31")
      case True then show ?thesis using n31 by simp
    next
      case False
      with \<open>n < LENGTH(32)\<close> have "bit (push_bit 1 x) (Suc n) = bit x n"
        by (simp only: bit_push_bit_iff) simp
      then show ?thesis by (simp only: p) simp
    qed
  qed
qed

lemma crc_bits_xor: "(crc_bit ^^ n) (x XOR y) = (crc_bit ^^ n) x XOR (crc_bit ^^ n) y"
  by (induction n) (simp_all add: crc_bit_xor)

lemma crc_bits_eq_0: "(crc_bit ^^ n) x = 0 \<Longrightarrow> x = 0"
  by (induction n) (auto dest: crc_bit_eq_0)

lemma xor_eq_0_word: "x XOR y = 0 \<longleftrightarrow> x = (y :: 'a::len word)"
  by (metis xor.assoc xor_self_eq xor.right_neutral xor.left_neutral)

lemma xor_right_cancel: "a XOR p = b XOR p \<Longrightarrow> a = (b :: 'a::len word)"
proof -
  assume "a XOR p = b XOR p"
  then have "(a XOR p) XOR p = (b XOR p) XOR p" by simp
  then show "a = b" by (simp add: xor.assoc)
qed

lemma crc_bits_inj: "(crc_bit ^^ n) x = (crc_bit ^^ n) y \<Longrightarrow> x = y"
  by (metis crc_bits_xor crc_bits_eq_0 xor_eq_0_word)

lemma crc_bits_low:
  "k \<le> 32 \<Longrightarrow> (\<And>n. 32 - k \<le> n \<Longrightarrow> \<not> bit x n) \<Longrightarrow> (crc_bit ^^ k) x = push_bit k x"
proof (induction k)
  case 0 then show ?case by simp
next
  case (Suc k)
  have "(crc_bit ^^ k) x = push_bit k x"
    using Suc.prems by (intro Suc.IH) auto
  moreover have "\<not> bit (push_bit k x) 31"
    using Suc.prems by (auto simp: bit_push_bit_iff)
  ultimately have "crc_bit ((crc_bit ^^ k) x) = push_bit 1 (push_bit k x)"
    by (simp only: crc_bit_def if_False)
  then show ?case by (simp only: funpow.simps o_apply push_bit_push_bit) simp
qed

primrec xor_doubling :: "u32 list \<Rightarrow> u32 list \<Rightarrow> u32 list" where
  "xor_doubling t [] = t"
| "xor_doubling t (c # cs) = xor_doubling (t @ map (\<lambda>x. x XOR c) t) cs"

lemma crc32_table_doubling:
  "crc32_table = xor_doubling [0]
     [0x04c11db7, 0x09823b6e, 0x130476dc, 0x2608edb8, 0x4c11db70, 0x9823b6e0, 0x34867077, 0x690ce0ee]"
  by (simp add: crc32_table_def)

lemma crc_byte_unfold:
  "crc_byte x = crc_bit (crc_bit (crc_bit (crc_bit (crc_bit (crc_bit (crc_bit (crc_bit x)))))))"
  by (simp add: crc_byte_def numeral_eq_Suc)

lemma crc_byte_basis:
  "map (\<lambda>i. crc_byte (push_bit (24 + i) 1)) [0, 1, 2, 3, 4, 5, 6, 7] =
     [0x04c11db7, 0x09823b6e, 0x130476dc, 0x2608edb8, 0x4c11db70, 0x9823b6e0, 0x34867077, 0x690ce0ee]"
  by (simp add: crc_byte_unfold crc_bit_def)

lemma word_of_nat_split:
  assumes "2 ^ j \<le> i" "i < 2 ^ Suc j"
  shows "(word_of_nat i :: u32) = word_of_nat (i - 2 ^ j) XOR push_bit j 1"
proof -
  have "(word_of_nat (i - 2 ^ j) :: u32) AND push_bit j 1 = 0"
  proof (rule bit_word_eqI)
    fix n assume "n < LENGTH(32)"
    have "i - 2 ^ j < 2 ^ j" using assms by simp
    then have "\<not> bit (i - 2 ^ j) j"
      by (metis bit_iff_odd div_less even_zero)
    then show "bit ((word_of_nat (i - 2 ^ j) :: u32) AND push_bit j 1) n = bit (0 :: u32) n"
      by (auto simp: bit_and_iff bit_exp_iff bit_word_of_nat)
  qed
  then have "word_of_nat (i - 2 ^ j) XOR push_bit j (1 :: u32) = word_of_nat (i - 2 ^ j) + push_bit j 1"
    by (simp add: disjunctive_add_eq_xor)
  also have "\<dots> = word_of_nat (i - 2 ^ j + 2 ^ j)"
    by (simp add: push_bit_eq_mult)
  finally show ?thesis using assms by simp
qed

lemma xor_doubling_spec:
  "(\<And>i. i < 2 ^ j \<Longrightarrow> t ! i = crc_byte (push_bit 24 (word_of_nat i))) \<Longrightarrow> length t = 2 ^ j \<Longrightarrow>
   cs = map (\<lambda>i. crc_byte (push_bit (24 + i) 1)) [j..<j + length cs] \<Longrightarrow>
   i < 2 ^ (j + length cs) \<Longrightarrow>
   xor_doubling t cs ! i = crc_byte (push_bit 24 (word_of_nat i))"
proof (induction cs arbitrary: t j)
  case Nil then show ?case by simp
next
  case (Cons c cs)
  have c: "c = crc_byte (push_bit (24 + j) 1)"
    and cs: "cs = map (\<lambda>i. crc_byte (push_bit (24 + i) 1)) [Suc j..<Suc j + length cs]"
    using Cons.prems(3) by (simp_all add: upt_conv_Cons del: upt_Suc)
  have "(t @ map (\<lambda>x. x XOR c) t) ! k = crc_byte (push_bit 24 (word_of_nat k))"
    if k: "k < 2 ^ Suc j" for k
  proof (cases "k < 2 ^ j")
    case True then show ?thesis using Cons.prems(1,2) by (simp add: nth_append)
  next
    case False
    then have "k - 2 ^ j < 2 ^ j" using k by simp
    then have "(t @ map (\<lambda>x. x XOR c) t) ! k = crc_byte (push_bit 24 (word_of_nat (k - 2 ^ j))) XOR c"
      using False Cons.prems(1,2) by (simp add: nth_append)
    also have "\<dots> = crc_byte (push_bit 24 (word_of_nat (k - 2 ^ j) XOR push_bit j 1))"
      by (simp only: c crc_byte_def crc_bits_xor push_bit_xor push_bit_push_bit)
    also have "\<dots> = crc_byte (push_bit 24 (word_of_nat k))"
      using word_of_nat_split [of j k] False k by simp
    finally show ?thesis .
  qed
  then show ?case
    using Cons.IH [of "Suc j" "t @ map (\<lambda>x. x XOR c) t"] cs Cons.prems(2,4) by simp
qed

lemma crc32_table_nth:
  "i < 256 \<Longrightarrow> crc32_table ! i = crc_byte (push_bit 24 (word_of_nat i))"
  unfolding crc32_table_doubling
  by (rule xor_doubling_spec [of 0])
     (use crc_byte_basis in \<open>simp_all add: upt_rec crc_byte_def crc_bit_0 numeral_eq_Suc\<close>)

section \<open>What a byte step computes\<close>

lemma crc_byte_xor: "crc_byte (x XOR y) = crc_byte x XOR crc_byte y"
  by (simp add: crc_byte_def crc_bits_xor)

lemma crc_byte_low: "(\<And>n. 24 \<le> n \<Longrightarrow> \<not> bit x n) \<Longrightarrow> crc_byte x = push_bit 8 x"
  by (simp add: crc_byte_def crc_bits_low)

lemma u32_split: "(c :: u32) = push_bit 24 (drop_bit 24 c) XOR take_bit 24 c"
  by (rule bit_word_eqI) (auto simp: bit_xor_iff bit_push_bit_iff bit_take_bit_iff bit_drop_bit_eq)

lemma byte_index_lt: "unat ((x :: u32) AND 0xff) < 256"
proof -
  have "x AND 0xff = take_bit 8 x"
    by (simp add: take_bit_eq_mask mask_numeral)
  then have "unat (x AND 0xff) = take_bit 8 (unat x)"
    by (simp only: unsigned_take_bit_eq)
  then show ?thesis using take_bit_nat_less_exp [of 8 "unat x"] by simp
qed

theorem crc32_step_serial:
  "crc32_step crc d = crc_byte (crc XOR push_bit 24 (ucast d))"
proof -
  define h where "h = drop_bit 24 crc XOR (ucast d :: u32)"
  have ff: "(0xff :: u32) = mask 8" by (simp add: mask_eq_exp_minus_1)
  have m: "h AND 0xff = h"
  proof (rule bit_word_eqI)
    fix n assume "n < LENGTH(32)"
    show "bit (h AND 0xff) n = bit h n"
      unfolding ff
      using bit_imp_le_length [of d n] bit_imp_le_length [of crc "24 + n"]
      by (auto simp: h_def bit_and_iff bit_xor_iff bit_drop_bit_eq bit_ucast_iff bit_mask_iff)
  qed
  have "crc XOR push_bit 24 (ucast d) = push_bit 24 h XOR take_bit 24 crc"
    by (subst u32_split [of crc]) (simp add: h_def ac_simps)
  then have "crc_byte (crc XOR push_bit 24 (ucast d)) = crc_byte (push_bit 24 h) XOR push_bit 8 (take_bit 24 crc)"
    by (simp add: crc_byte_xor crc_byte_low bit_take_bit_iff)
  moreover have "push_bit 8 (take_bit 24 crc) = push_bit 8 crc"
    by (rule bit_word_eqI) (auto simp: bit_push_bit_iff bit_take_bit_iff)
  moreover have "crc32_table ! unat (h AND 0xff) = crc_byte (push_bit 24 h)"
    using crc32_table_nth [OF byte_index_lt [of h]] by (simp add: m)
  ultimately show ?thesis
    unfolding crc32_step_def h_def [symmetric] by (simp add: xor.commute)
qed

lemma crc32_step_inj: "crc32_step c d = crc32_step c' d \<Longrightarrow> c = c'"
  unfolding crc32_step_serial crc_byte_def
  by (drule crc_bits_inj) (rule xor_right_cancel)

lemma crc32_run_simps [simp]:
  "crc32_run c [] = c"
  "crc32_run c (d # ds) = crc32_run (crc32_step c d) ds"
  by (simp_all add: crc32_run_def)

lemma crc32_run_append: "crc32_run c (xs @ ys) = crc32_run (crc32_run c xs) ys"
  by (simp add: crc32_run_def)

lemma crc32_run_inj: "crc32_run c ds = crc32_run c' ds \<Longrightarrow> c = c'"
  by (induction ds arbitrary: c c') (auto dest: crc32_step_inj)

section \<open>The residue of a message followed by its CRC\<close>

lemma crc32_step_top: "d = ucast (drop_bit 24 c) \<Longrightarrow> crc32_step c d = push_bit 8 c"
proof -
  assume "d = ucast (drop_bit 24 c)"
  have "(ucast d :: u32) = drop_bit 24 c"
  proof (rule bit_word_eqI)
    fix n assume "n < LENGTH(32)"
    show "bit (ucast d :: u32) n = bit (drop_bit 24 c) n"
      using bit_imp_le_length [of c "24 + n"]
      by (auto simp: \<open>d = _\<close> bit_ucast_iff bit_drop_bit_eq)
  qed
  then show ?thesis by (simp add: crc32_step_def crc32_table_def)
qed

lemma crc32_bytes_alt:
  "crc32_bytes c = [ucast (drop_bit 24 c), ucast (drop_bit 24 (push_bit 8 c)),
                    ucast (drop_bit 24 (push_bit 16 c)), ucast (drop_bit 24 (push_bit 24 c))]"
proof -
  have ff: "(0xff :: u32) = mask 8" by (simp add: mask_eq_exp_minus_1)
  show ?thesis
    unfolding crc32_bytes_def ff
    by (auto intro!: bit_word_eqI simp: bit_ucast_iff bit_drop_bit_eq bit_and_iff bit_mask_iff bit_push_bit_iff)
qed

lemma crc32_run_own_bytes: "crc32_run c (crc32_bytes c) = 0"
proof -
  have "push_bit 32 c = 0" by (rule bit_word_eqI) (simp add: bit_push_bit_iff)
  moreover have "crc32_step c (ucast (drop_bit 24 c)) = push_bit 8 c"
    by (rule crc32_step_top) simp
  moreover have "crc32_step (push_bit 8 c) (ucast (drop_bit 24 (push_bit 8 c))) = push_bit 16 c"
    by (subst crc32_step_top) simp_all
  moreover have "crc32_step (push_bit 16 c) (ucast (drop_bit 24 (push_bit 16 c))) = push_bit 24 c"
    by (subst crc32_step_top) simp_all
  moreover have "crc32_step (push_bit 24 c) (ucast (drop_bit 24 (push_bit 24 c))) = push_bit 32 c"
    by (subst crc32_step_top) simp_all
  ultimately show ?thesis by (simp only: crc32_bytes_alt crc32_run_simps)
qed

lemma crc32_bytes64_ucast: "crc32_bytes64 c = crc32_bytes (ucast c)"
proof -
  have ff: "(0xff :: u64) = mask 8" "(0xff :: u32) = mask 8" by (simp_all add: mask_eq_exp_minus_1)
  show ?thesis
    unfolding crc32_bytes64_def crc32_bytes_def ff
    by (auto intro!: bit_word_eqI simp: bit_ucast_iff bit_drop_bit_eq bit_and_iff bit_mask_iff)
qed

text \<open>
  Both loops are instances of one interface: a register whose low 32 bits follow
  \<open>crc32_step\<close>, whatever the bits above hold.
\<close>

locale crc_engine =
  fixes step :: "'c \<Rightarrow> u8 \<Rightarrow> 'c"
    and low :: "'c \<Rightarrow> u32"
    and bytes :: "'c \<Rightarrow> u8 list"
  assumes low_step: "low (step c d) = crc32_step (low c) d"
    and bytes_low: "bytes c = crc32_bytes (low c)"
begin

lemma low_run: "low (foldl step c ds) = crc32_run (low c) ds"
  by (induction ds arbitrary: c) (simp_all add: low_step)

lemma residue: "crc32_run (low c) (ds @ bytes (foldl step c ds)) = 0"
  by (simp add: crc32_run_append bytes_low low_run crc32_run_own_bytes)

lemma length_bytes: "length (bytes c) = 4"
  by (simp add: bytes_low crc32_bytes_def)

end

interpretation crc32: crc_engine crc32_step "\<lambda>c. c" crc32_bytes
  by unfold_locales simp_all

lemma crc32_step64_low: "ucast (crc32_step64 c d) = crc32_step (ucast c) d"
proof -
  have ff: "(0xff :: u64) = mask 8" "(0xff :: u32) = mask 8" by (simp_all add: mask_eq_exp_minus_1)
  have i64: "unat ((x :: u64) AND mask 8) = unat (ucast x :: u8)" for x
    by (simp add: unsigned_ucast_eq unsigned_take_bit_eq flip: take_bit_eq_mask)
  have i32: "unat ((x :: u32) AND mask 8) = unat (ucast x :: u8)" for x
    by (simp add: unsigned_ucast_eq unsigned_take_bit_eq flip: take_bit_eq_mask)
  have "(ucast (drop_bit 24 c XOR ucast d :: u64) :: u8) = ucast (drop_bit 24 (ucast c) XOR ucast d :: u32)"
    by (rule bit_word_eqI) (auto simp: bit_ucast_iff bit_drop_bit_eq bit_xor_iff)
  then show ?thesis
    unfolding crc32_step64_def crc32_step_def ff i64 i32
    by (auto intro!: bit_word_eqI simp: bit_ucast_iff bit_xor_iff bit_push_bit_iff)
qed

interpretation crc64: crc_engine crc32_step64 ucast crc32_bytes64
  by unfold_locales (simp_all add: crc32_step64_low crc32_bytes64_ucast)

section \<open>Errors the check detects\<close>

primrec be_word :: "u8 list \<Rightarrow> u32" where
  "be_word [] = 0"
| "be_word (d # ds) = push_bit 24 (ucast d) XOR drop_bit 8 (be_word ds)"

lemma be_word_low: "length ds \<le> 4 \<Longrightarrow> n < 32 - 8 * length ds \<Longrightarrow> \<not> bit (be_word ds) n"
proof (induction ds arbitrary: n)
  case (Cons d ds)
  then have "\<not> bit (be_word ds) (8 + n)"
    by (intro Cons.IH) auto
  then show ?case using Cons.prems by (auto simp: bit_xor_iff bit_push_bit_iff bit_drop_bit_eq)
qed simp

lemma be_word_inj:
  "length xs = length ys \<Longrightarrow> length xs \<le> 4 \<Longrightarrow> be_word xs = be_word ys \<Longrightarrow> xs = ys"
proof (induction xs ys rule: list_induct2)
  case (Cons x xs y ys)
  have eq: "bit (be_word (x # xs)) n = bit (be_word (y # ys)) n" for n
    using Cons.prems by simp
  have "x = y"
  proof (rule bit_word_eqI)
    fix n assume "n < LENGTH(8)"
    moreover have "\<not> bit (be_word zs) (32 + n)" for zs
      using bit_imp_le_length [of "be_word zs" "32 + n"] by auto
    ultimately show "bit x n = bit y n"
      using eq [of "24 + n"]
      by (auto simp: bit_xor_iff bit_push_bit_iff bit_drop_bit_eq bit_ucast_iff)
  qed
  moreover have "be_word xs = be_word ys"
  proof (rule bit_word_eqI)
    fix n assume n: "n < LENGTH(32)"
    show "bit (be_word xs) n = bit (be_word ys) n"
    proof (cases "n < 8")
      case True
      then show ?thesis using Cons.prems(1) Cons.hyps by (simp add: be_word_low)
    next
      case False
      then show ?thesis using eq [of "n - 8"] n
        by (auto simp: bit_xor_iff bit_push_bit_iff bit_drop_bit_eq)
    qed
  qed
  ultimately show ?case using Cons by simp
qed simp

lemma crc32_run_word:
  "length ds \<le> 4 \<Longrightarrow> crc32_run c ds = (crc_byte ^^ length ds) (c XOR be_word ds)"
proof (induction ds arbitrary: c)
  case (Cons d ds)
  have low: "\<not> bit (be_word ds) n" if "n < 8" for n
    using Cons.prems that by (intro be_word_low) auto
  have "push_bit 8 (drop_bit 8 (be_word ds)) = be_word ds"
  proof (rule bit_word_eqI)
    fix n assume "n < LENGTH(32)"
    then show "bit (push_bit 8 (drop_bit 8 (be_word ds))) n = bit (be_word ds) n"
      by (cases "n < 8") (simp_all add: bit_push_bit_iff bit_drop_bit_eq low)
  qed
  moreover have "crc_byte (drop_bit 8 (be_word ds)) = push_bit 8 (drop_bit 8 (be_word ds))"
    using bit_imp_le_length [of "be_word ds"]
    by (intro crc_byte_low) (fastforce simp: bit_drop_bit_eq)
  ultimately have "crc32_step c d XOR be_word ds = crc_byte (c XOR be_word (d # ds))"
    by (simp only: crc32_step_serial be_word.simps crc_byte_xor xor.assoc)
  moreover have "crc32_run c (d # ds) = (crc_byte ^^ length ds) (crc32_step c d XOR be_word ds)"
    using Cons by simp
  ultimately show ?case by (simp add: funpow_swap1)
qed simp

lemma crc_bytes_inj: "(crc_byte ^^ n) x = (crc_byte ^^ n) y \<Longrightarrow> x = y"
  by (induction n) (auto simp: crc_byte_def dest: crc_bits_inj)

lemma crc32_run_burst:
  assumes "length b = length b'" "length b \<le> 4" "b \<noteq> b'"
  shows "crc32_run c (p @ b @ q) \<noteq> crc32_run c (p @ b' @ q)"
proof
  assume "crc32_run c (p @ b @ q) = crc32_run c (p @ b' @ q)"
  then have "crc32_run (crc32_run c p) b = crc32_run (crc32_run c p) b'"
    by (simp add: crc32_run_append) (rule crc32_run_inj)
  with assms(1,2) have "be_word b = be_word b'"
    by (auto simp: crc32_run_word xor.commute dest!: crc_bytes_inj intro: xor_right_cancel)
  with assms show False using be_word_inj by blast
qed

end
