(* ===== verification/Ts_Headers.thy ===== *)
theory Ts_Headers
  imports Mumu_Prelude
begin

text \<open>
  The packed structures of \<^verbatim>\<open>src/src/ts.h\<close> (little-endian branch). The code never builds them: it
  casts a \<^verbatim>\<open>char *\<close> into a buffer to a structure pointer and reads or assigns fields in place.
  Here each structure is a record whose fields have the names of the C fields (unnamed reserved
  bits are \<open>rsv_<byte>_<bit>\<close>), with

  \<^item> \<open><struct>_of\<close>: the record read at the head of a buffer,
  \<^item> \<open><struct>_bytes\<close>: the bytes it occupies, so that assigning a field in place is reading,
    updating the record and writing the bytes back,
  \<^item> \<open><struct>_norm\<close>: the record with each field cut to its declared width, what an assignment
    through the bit-field keeps of the value.

  \<open>c_struct\<close> is the contract between the three; it is interpreted for every structure, and gives
  the lemmas on reading back what was written and on leaving the rest of the buffer alone.
  Checked access at an offset is \<open>struct_at\<close> and \<open>struct_put\<close>.
\<close>

section \<open>Bit-field groups\<close>

primrec bf_pack :: "(nat \<times> u8) list \<Rightarrow> u8" where
  "bf_pack [] = 0"
| "bf_pack (wv # fs) = (take_bit (fst wv) (snd wv) OR push_bit (fst wv) (bf_pack fs))"

lemma bit_bf_pack_Cons:
  "n < 8 \<Longrightarrow> bit (bf_pack ((w, v) # fs)) n = (if n < w then bit v n else bit (bf_pack fs) (n - w))"
  by (auto simp: bit_or_iff bit_take_bit_iff bit_push_bit_iff)

lemma bf_get_pack_head:
  "w \<le> 8 \<Longrightarrow> bf_get (bf_pack ((w, v) # fs)) 0 w = take_bit w v"
  by (rule bit_word_eqI) (auto simp: bit_bf_get bit_bf_pack_Cons bit_take_bit_iff simp del: bf_pack.simps)

lemma bf_get_pack_tail:
  "w \<le> s \<Longrightarrow> s + w' \<le> 8 \<Longrightarrow>
   bf_get (bf_pack ((w, v) # fs)) s w' = bf_get (bf_pack fs) (s - w) w'"
  by (rule bit_word_eqI) (auto simp: bit_bf_get bit_bf_pack_Cons simp del: bf_pack.simps)

lemma bf_pack_join:
  "s' = s + w \<Longrightarrow>
   bf_pack ((w, bf_get b s w) # (w', bf_get b s' w') # fs) = bf_pack ((w + w', bf_get b s (w + w')) # fs)"
proof (rule bit_word_eqI)
  fix n assume s': "s' = s + w" and "n < LENGTH(8)"
  then show "bit (bf_pack ((w, bf_get b s w) # (w', bf_get b s' w') # fs)) n =
             bit (bf_pack ((w + w', bf_get b s (w + w')) # fs)) n"
    by (auto simp: bit_bf_pack_Cons bit_bf_get simp del: bf_pack.simps)
qed

lemma bf_get_whole: "w = 8 \<Longrightarrow> bf_get b 0 w = b"
  by (rule bit_word_eqI) (auto simp: bit_bf_get)

lemma bf_pack_whole: "w = 8 \<Longrightarrow> bf_pack [(w, b)] = b"
  by (rule bit_word_eqI) (auto simp: bit_bf_pack_Cons simp del: bf_pack.simps)

text \<open>An array member holds exactly its declared number of bytes.\<close>

definition c_array :: "nat \<Rightarrow> u8 list \<Rightarrow> u8 list" where
  "c_array n xs = take n (xs @ replicate n 0)"

lemma length_c_array [simp]: "length (c_array n xs) = n"
  by (simp add: c_array_def)

lemma c_array_exact: "length xs = n \<Longrightarrow> c_array n xs = xs"
  by (simp add: c_array_def)

lemma take_conv_nth: "n \<le> length b \<Longrightarrow> take n b = map ((!) b) [0..<n]"
  by (rule nth_equalityI) auto

lemma take_drop_conv_nth: "k + n \<le> length b \<Longrightarrow> take n (drop k b) = map ((!) b) [k..<k + n]"
  by (rule nth_equalityI) auto

lemma upt_from_0: "[0..<numeral n] = 0 # [Suc 0..<numeral n]"
  by (simp add: upt_conv_Cons)

lemma upt_from_1: "[Suc 0..<numeral n] = (if Suc 0 < numeral n then Suc 0 # [2..<numeral n] else [])"
  by (simp add: upt_conv_Cons numeral_2_eq_2)

lemmas struct_simps =
  bf_get_pack_head bf_get_pack_tail bf_pack_join bf_get_whole bf_pack_whole
  c_array_exact nth_append take_conv_nth take_drop_conv_nth upt_rec

declare bf_pack.simps [simp del]

section \<open>The contract of a packed structure\<close>

definition struct_at :: "nat \<Rightarrow> (u8 list \<Rightarrow> 'r) \<Rightarrow> u8 list \<Rightarrow> nat \<Rightarrow> 'r option" where
  "struct_at len dec buf off = (if off + len \<le> length buf then Some (dec (drop off buf)) else None)"

definition struct_put :: "('r \<Rightarrow> u8 list) \<Rightarrow> u8 list \<Rightarrow> nat \<Rightarrow> 'r \<Rightarrow> u8 list option" where
  "struct_put enc buf off r = mem_write buf off (enc r)"

locale c_struct =
  fixes len :: nat
    and dec :: "u8 list \<Rightarrow> 'r"
    and enc :: "'r \<Rightarrow> u8 list"
    and norm :: "'r \<Rightarrow> 'r"
  assumes len_enc: "length (enc r) = len"
    and enc_dec: "len \<le> length b \<Longrightarrow> enc (dec b) = take len b"
    and dec_enc: "dec (enc r @ rest) = norm r"
    and dec_cong: "len \<le> length b \<Longrightarrow> dec (take len b) = dec b"
begin

lemma at_in [simp]: "off + len \<le> length buf \<Longrightarrow> struct_at len dec buf off = Some (dec (drop off buf))"
  by (simp add: struct_at_def)

lemma at_Some_iff:
  "struct_at len dec buf off = Some r \<longleftrightarrow> off + len \<le> length buf \<and> r = dec (drop off buf)"
  by (auto simp: struct_at_def)

lemma put_in:
  "off + len \<le> length buf \<Longrightarrow>
   struct_put enc buf off r = Some (take off buf @ enc r @ drop (off + len) buf)"
  by (simp add: struct_put_def mem_write_def len_enc)

lemma put_length: "struct_put enc buf off r = Some buf' \<Longrightarrow> length buf' = length buf"
  by (auto simp: struct_put_def len_simps)

lemma at_put:
  assumes "struct_put enc buf off r = Some buf'"
  shows "struct_at len dec buf' off = Some (norm r)"
proof -
  have "off + len \<le> length buf" and "buf' = take off buf @ enc r @ drop (off + len) buf"
    using assms by (auto simp: struct_put_def mem_write_def len_enc split: if_splits)
  then show ?thesis by (simp add: struct_at_def len_enc dec_enc)
qed

lemma put_at:
  assumes "struct_at len dec buf off = Some r"
  shows "struct_put enc buf off r = Some buf"
proof -
  have "off + len \<le> length buf" "r = dec (drop off buf)"
    using assms by (auto simp: at_Some_iff)
  moreover from this have "take off buf @ take len (drop off buf) @ drop (off + len) buf = buf"
    by (metis append.assoc append_take_drop_id take_add)
  ultimately show ?thesis by (simp add: put_in enc_dec)
qed

end

section \<open>The structures\<close>

subsection \<open>pat_t\<close>

definition PAT_LEN :: nat where "PAT_LEN = 8"

record pat_t =
  table_id :: "u8"
  section_length_hi :: "u8"
  rsv_1_4 :: "u8"
  dummy :: "u8"
  section_syntax_indicator :: "u8"
  section_length_lo :: "u8"
  transport_stream_id_hi :: "u8"
  transport_stream_id_lo :: "u8"
  current_next_indicator :: "u8"
  version_number :: "u8"
  rsv_5_6 :: "u8"
  section_number :: "u8"
  last_section_number :: "u8"

definition pat_of :: "u8 list \<Rightarrow> pat_t" where
  "pat_of b = \<lparr>
     pat_t.table_id = b ! 0,
     pat_t.section_length_hi = bf_get (b ! 1) 0 4,
     pat_t.rsv_1_4 = bf_get (b ! 1) 4 2,
     pat_t.dummy = bf_get (b ! 1) 6 1,
     pat_t.section_syntax_indicator = bf_get (b ! 1) 7 1,
     pat_t.section_length_lo = b ! 2,
     pat_t.transport_stream_id_hi = b ! 3,
     pat_t.transport_stream_id_lo = b ! 4,
     pat_t.current_next_indicator = bf_get (b ! 5) 0 1,
     pat_t.version_number = bf_get (b ! 5) 1 5,
     pat_t.rsv_5_6 = bf_get (b ! 5) 6 2,
     pat_t.section_number = b ! 6,
     pat_t.last_section_number = b ! 7\<rparr>"

definition pat_norm :: "pat_t \<Rightarrow> pat_t" where
  "pat_norm r = \<lparr>
     pat_t.table_id = pat_t.table_id r,
     pat_t.section_length_hi = take_bit 4 (pat_t.section_length_hi r),
     pat_t.rsv_1_4 = take_bit 2 (pat_t.rsv_1_4 r),
     pat_t.dummy = take_bit 1 (pat_t.dummy r),
     pat_t.section_syntax_indicator = take_bit 1 (pat_t.section_syntax_indicator r),
     pat_t.section_length_lo = pat_t.section_length_lo r,
     pat_t.transport_stream_id_hi = pat_t.transport_stream_id_hi r,
     pat_t.transport_stream_id_lo = pat_t.transport_stream_id_lo r,
     pat_t.current_next_indicator = take_bit 1 (pat_t.current_next_indicator r),
     pat_t.version_number = take_bit 5 (pat_t.version_number r),
     pat_t.rsv_5_6 = take_bit 2 (pat_t.rsv_5_6 r),
     pat_t.section_number = pat_t.section_number r,
     pat_t.last_section_number = pat_t.last_section_number r\<rparr>"

definition pat_bytes :: "pat_t \<Rightarrow> u8 list" where
  "pat_bytes r =
     [pat_t.table_id r,
      bf_pack [(4, pat_t.section_length_hi r), (2, pat_t.rsv_1_4 r), (1, pat_t.dummy r), (1, pat_t.section_syntax_indicator r)],
      pat_t.section_length_lo r,
      pat_t.transport_stream_id_hi r,
      pat_t.transport_stream_id_lo r,
      bf_pack [(1, pat_t.current_next_indicator r), (5, pat_t.version_number r), (2, pat_t.rsv_5_6 r)],
      pat_t.section_number r,
      pat_t.last_section_number r]"

interpretation pat_s: c_struct PAT_LEN pat_of pat_bytes pat_norm
  by (unfold_locales, simp_all add: PAT_LEN_def pat_of_def pat_bytes_def pat_norm_def struct_simps,
      (simp_all add: numeral_eq_Suc)?)

subsection \<open>pat_prog_t\<close>

definition PAT_PROG_LEN :: nat where "PAT_PROG_LEN = 4"

record pat_prog_t =
  program_number_hi :: "u8"
  program_number_lo :: "u8"
  network_pid_hi :: "u8"
  rsv_2_5 :: "u8"
  network_pid_lo :: "u8"

definition pat_prog_of :: "u8 list \<Rightarrow> pat_prog_t" where
  "pat_prog_of b = \<lparr>
     pat_prog_t.program_number_hi = b ! 0,
     pat_prog_t.program_number_lo = b ! 1,
     pat_prog_t.network_pid_hi = bf_get (b ! 2) 0 5,
     pat_prog_t.rsv_2_5 = bf_get (b ! 2) 5 3,
     pat_prog_t.network_pid_lo = b ! 3\<rparr>"

definition pat_prog_norm :: "pat_prog_t \<Rightarrow> pat_prog_t" where
  "pat_prog_norm r = \<lparr>
     pat_prog_t.program_number_hi = pat_prog_t.program_number_hi r,
     pat_prog_t.program_number_lo = pat_prog_t.program_number_lo r,
     pat_prog_t.network_pid_hi = take_bit 5 (pat_prog_t.network_pid_hi r),
     pat_prog_t.rsv_2_5 = take_bit 3 (pat_prog_t.rsv_2_5 r),
     pat_prog_t.network_pid_lo = pat_prog_t.network_pid_lo r\<rparr>"

definition pat_prog_bytes :: "pat_prog_t \<Rightarrow> u8 list" where
  "pat_prog_bytes r =
     [pat_prog_t.program_number_hi r,
      pat_prog_t.program_number_lo r,
      bf_pack [(5, pat_prog_t.network_pid_hi r), (3, pat_prog_t.rsv_2_5 r)],
      pat_prog_t.network_pid_lo r]"

interpretation pat_prog_s: c_struct PAT_PROG_LEN pat_prog_of pat_prog_bytes pat_prog_norm
  by (unfold_locales, simp_all add: PAT_PROG_LEN_def pat_prog_of_def pat_prog_bytes_def pat_prog_norm_def struct_simps,
      (simp_all add: numeral_eq_Suc)?)

subsection \<open>cat_t\<close>

definition CAT_LEN :: nat where "CAT_LEN = 8"

record cat_t =
  table_id :: "u8"
  section_length_hi :: "u8"
  rsv_1_4 :: "u8"
  dummy :: "u8"
  section_syntax_indicator :: "u8"
  section_length_lo :: "u8"
  transport_stream_id_hi :: "u8"
  transport_stream_id_lo :: "u8"
  current_next_indicator :: "u8"
  version_number :: "u8"
  rsv_5_6 :: "u8"
  section_number :: "u8"
  last_section_number :: "u8"

definition cat_of :: "u8 list \<Rightarrow> cat_t" where
  "cat_of b = \<lparr>
     cat_t.table_id = b ! 0,
     cat_t.section_length_hi = bf_get (b ! 1) 0 4,
     cat_t.rsv_1_4 = bf_get (b ! 1) 4 2,
     cat_t.dummy = bf_get (b ! 1) 6 1,
     cat_t.section_syntax_indicator = bf_get (b ! 1) 7 1,
     cat_t.section_length_lo = b ! 2,
     cat_t.transport_stream_id_hi = b ! 3,
     cat_t.transport_stream_id_lo = b ! 4,
     cat_t.current_next_indicator = bf_get (b ! 5) 0 1,
     cat_t.version_number = bf_get (b ! 5) 1 5,
     cat_t.rsv_5_6 = bf_get (b ! 5) 6 2,
     cat_t.section_number = b ! 6,
     cat_t.last_section_number = b ! 7\<rparr>"

definition cat_norm :: "cat_t \<Rightarrow> cat_t" where
  "cat_norm r = \<lparr>
     cat_t.table_id = cat_t.table_id r,
     cat_t.section_length_hi = take_bit 4 (cat_t.section_length_hi r),
     cat_t.rsv_1_4 = take_bit 2 (cat_t.rsv_1_4 r),
     cat_t.dummy = take_bit 1 (cat_t.dummy r),
     cat_t.section_syntax_indicator = take_bit 1 (cat_t.section_syntax_indicator r),
     cat_t.section_length_lo = cat_t.section_length_lo r,
     cat_t.transport_stream_id_hi = cat_t.transport_stream_id_hi r,
     cat_t.transport_stream_id_lo = cat_t.transport_stream_id_lo r,
     cat_t.current_next_indicator = take_bit 1 (cat_t.current_next_indicator r),
     cat_t.version_number = take_bit 5 (cat_t.version_number r),
     cat_t.rsv_5_6 = take_bit 2 (cat_t.rsv_5_6 r),
     cat_t.section_number = cat_t.section_number r,
     cat_t.last_section_number = cat_t.last_section_number r\<rparr>"

definition cat_bytes :: "cat_t \<Rightarrow> u8 list" where
  "cat_bytes r =
     [cat_t.table_id r,
      bf_pack [(4, cat_t.section_length_hi r), (2, cat_t.rsv_1_4 r), (1, cat_t.dummy r), (1, cat_t.section_syntax_indicator r)],
      cat_t.section_length_lo r,
      cat_t.transport_stream_id_hi r,
      cat_t.transport_stream_id_lo r,
      bf_pack [(1, cat_t.current_next_indicator r), (5, cat_t.version_number r), (2, cat_t.rsv_5_6 r)],
      cat_t.section_number r,
      cat_t.last_section_number r]"

interpretation cat_s: c_struct CAT_LEN cat_of cat_bytes cat_norm
  by (unfold_locales, simp_all add: CAT_LEN_def cat_of_def cat_bytes_def cat_norm_def struct_simps,
      (simp_all add: numeral_eq_Suc)?)

subsection \<open>ts_header_t\<close>

definition sizeof_ts_header_t :: nat where "sizeof_ts_header_t = 4"

record ts_header_t =
  sync_byte :: "u8"
  pid_hi :: "u8"
  transport_priority :: "u8"
  payload_unit_start_indicator :: "u8"
  transport_error_indicator :: "u8"
  pid_lo :: "u8"
  continuity_counter :: "u8"
  adaptation_field_control :: "u8"
  transport_scrambling_control :: "u8"

definition ts_header_of :: "u8 list \<Rightarrow> ts_header_t" where
  "ts_header_of b = \<lparr>
     ts_header_t.sync_byte = b ! 0,
     ts_header_t.pid_hi = bf_get (b ! 1) 0 5,
     ts_header_t.transport_priority = bf_get (b ! 1) 5 1,
     ts_header_t.payload_unit_start_indicator = bf_get (b ! 1) 6 1,
     ts_header_t.transport_error_indicator = bf_get (b ! 1) 7 1,
     ts_header_t.pid_lo = b ! 2,
     ts_header_t.continuity_counter = bf_get (b ! 3) 0 4,
     ts_header_t.adaptation_field_control = bf_get (b ! 3) 4 2,
     ts_header_t.transport_scrambling_control = bf_get (b ! 3) 6 2\<rparr>"

definition ts_header_norm :: "ts_header_t \<Rightarrow> ts_header_t" where
  "ts_header_norm r = \<lparr>
     ts_header_t.sync_byte = ts_header_t.sync_byte r,
     ts_header_t.pid_hi = take_bit 5 (ts_header_t.pid_hi r),
     ts_header_t.transport_priority = take_bit 1 (ts_header_t.transport_priority r),
     ts_header_t.payload_unit_start_indicator = take_bit 1 (ts_header_t.payload_unit_start_indicator r),
     ts_header_t.transport_error_indicator = take_bit 1 (ts_header_t.transport_error_indicator r),
     ts_header_t.pid_lo = ts_header_t.pid_lo r,
     ts_header_t.continuity_counter = take_bit 4 (ts_header_t.continuity_counter r),
     ts_header_t.adaptation_field_control = take_bit 2 (ts_header_t.adaptation_field_control r),
     ts_header_t.transport_scrambling_control = take_bit 2 (ts_header_t.transport_scrambling_control r)\<rparr>"

definition ts_header_bytes :: "ts_header_t \<Rightarrow> u8 list" where
  "ts_header_bytes r =
     [ts_header_t.sync_byte r,
      bf_pack [(5, ts_header_t.pid_hi r), (1, ts_header_t.transport_priority r), (1, ts_header_t.payload_unit_start_indicator r), (1, ts_header_t.transport_error_indicator r)],
      ts_header_t.pid_lo r,
      bf_pack [(4, ts_header_t.continuity_counter r), (2, ts_header_t.adaptation_field_control r), (2, ts_header_t.transport_scrambling_control r)]]"

interpretation ts_header_s: c_struct sizeof_ts_header_t ts_header_of ts_header_bytes ts_header_norm
  by (unfold_locales, simp_all add: sizeof_ts_header_t_def ts_header_of_def ts_header_bytes_def ts_header_norm_def struct_simps,
      (simp_all add: numeral_eq_Suc)?)

subsection \<open>af_header_t\<close>

definition sizeof_af_header_t :: nat where "sizeof_af_header_t = 16"

record af_header_t =
  adaptation_field_length :: "u8"
  discontinuity_indicator :: "u8"
  random_access_indicator :: "u8"
  elementary_stream_priority_indicator :: "u8"
  PCR_flag :: "u8"
  OPCR_flag :: "u8"
  splicing_point_flag :: "u8"
  transport_private_data_flag :: "u8"
  adaptation_field_extension_flag :: "u8"
  PCR :: "u8 list"
  OPCR :: "u8 list"
  splice_countdown :: "u8"
  transport_private_data_length :: "u8"

definition af_header_of :: "u8 list \<Rightarrow> af_header_t" where
  "af_header_of b = \<lparr>
     af_header_t.adaptation_field_length = b ! 0,
     af_header_t.discontinuity_indicator = bf_get (b ! 1) 0 1,
     af_header_t.random_access_indicator = bf_get (b ! 1) 1 1,
     af_header_t.elementary_stream_priority_indicator = bf_get (b ! 1) 2 1,
     af_header_t.PCR_flag = bf_get (b ! 1) 3 1,
     af_header_t.OPCR_flag = bf_get (b ! 1) 4 1,
     af_header_t.splicing_point_flag = bf_get (b ! 1) 5 1,
     af_header_t.transport_private_data_flag = bf_get (b ! 1) 6 1,
     af_header_t.adaptation_field_extension_flag = bf_get (b ! 1) 7 1,
     af_header_t.PCR = take 6 (drop 2 b),
     af_header_t.OPCR = take 6 (drop 8 b),
     af_header_t.splice_countdown = b ! 14,
     af_header_t.transport_private_data_length = b ! 15\<rparr>"

definition af_header_norm :: "af_header_t \<Rightarrow> af_header_t" where
  "af_header_norm r = \<lparr>
     af_header_t.adaptation_field_length = af_header_t.adaptation_field_length r,
     af_header_t.discontinuity_indicator = take_bit 1 (af_header_t.discontinuity_indicator r),
     af_header_t.random_access_indicator = take_bit 1 (af_header_t.random_access_indicator r),
     af_header_t.elementary_stream_priority_indicator = take_bit 1 (af_header_t.elementary_stream_priority_indicator r),
     af_header_t.PCR_flag = take_bit 1 (af_header_t.PCR_flag r),
     af_header_t.OPCR_flag = take_bit 1 (af_header_t.OPCR_flag r),
     af_header_t.splicing_point_flag = take_bit 1 (af_header_t.splicing_point_flag r),
     af_header_t.transport_private_data_flag = take_bit 1 (af_header_t.transport_private_data_flag r),
     af_header_t.adaptation_field_extension_flag = take_bit 1 (af_header_t.adaptation_field_extension_flag r),
     af_header_t.PCR = c_array 6 (af_header_t.PCR r),
     af_header_t.OPCR = c_array 6 (af_header_t.OPCR r),
     af_header_t.splice_countdown = af_header_t.splice_countdown r,
     af_header_t.transport_private_data_length = af_header_t.transport_private_data_length r\<rparr>"

definition af_header_bytes :: "af_header_t \<Rightarrow> u8 list" where
  "af_header_bytes r =
     [af_header_t.adaptation_field_length r,
      bf_pack [(1, af_header_t.discontinuity_indicator r), (1, af_header_t.random_access_indicator r), (1, af_header_t.elementary_stream_priority_indicator r), (1, af_header_t.PCR_flag r), (1, af_header_t.OPCR_flag r), (1, af_header_t.splicing_point_flag r), (1, af_header_t.transport_private_data_flag r), (1, af_header_t.adaptation_field_extension_flag r)]] @
     c_array 6 (af_header_t.PCR r) @
     c_array 6 (af_header_t.OPCR r) @
     [af_header_t.splice_countdown r,
      af_header_t.transport_private_data_length r]"

interpretation af_header_s: c_struct sizeof_af_header_t af_header_of af_header_bytes af_header_norm
  by (unfold_locales, simp_all add: sizeof_af_header_t_def af_header_of_def af_header_bytes_def af_header_norm_def struct_simps,
      (simp_all add: numeral_eq_Suc)?)

subsection \<open>pmt_t\<close>

definition PMT_LEN :: nat where "PMT_LEN = 12"

record pmt_t =
  table_id :: "u8"
  section_length_hi :: "u8"
  rsv_1_4 :: "u8"
  dummy :: "u8"
  section_syntax_indicator :: "u8"
  section_length_lo :: "u8"
  program_number_hi :: "u8"
  program_number_lo :: "u8"
  current_next_indicator :: "u8"
  version_number :: "u8"
  rsv_5_6 :: "u8"
  section_number :: "u8"
  last_section_number :: "u8"
  PCR_PID_hi :: "u8"
  rsv_8_5 :: "u8"
  PCR_PID_lo :: "u8"
  program_info_length_hi :: "u8"
  rsv_10_4 :: "u8"
  program_info_length_lo :: "u8"

definition pmt_of :: "u8 list \<Rightarrow> pmt_t" where
  "pmt_of b = \<lparr>
     pmt_t.table_id = b ! 0,
     pmt_t.section_length_hi = bf_get (b ! 1) 0 4,
     pmt_t.rsv_1_4 = bf_get (b ! 1) 4 2,
     pmt_t.dummy = bf_get (b ! 1) 6 1,
     pmt_t.section_syntax_indicator = bf_get (b ! 1) 7 1,
     pmt_t.section_length_lo = b ! 2,
     pmt_t.program_number_hi = b ! 3,
     pmt_t.program_number_lo = b ! 4,
     pmt_t.current_next_indicator = bf_get (b ! 5) 0 1,
     pmt_t.version_number = bf_get (b ! 5) 1 5,
     pmt_t.rsv_5_6 = bf_get (b ! 5) 6 2,
     pmt_t.section_number = b ! 6,
     pmt_t.last_section_number = b ! 7,
     pmt_t.PCR_PID_hi = bf_get (b ! 8) 0 5,
     pmt_t.rsv_8_5 = bf_get (b ! 8) 5 3,
     pmt_t.PCR_PID_lo = b ! 9,
     pmt_t.program_info_length_hi = bf_get (b ! 10) 0 4,
     pmt_t.rsv_10_4 = bf_get (b ! 10) 4 4,
     pmt_t.program_info_length_lo = b ! 11\<rparr>"

definition pmt_norm :: "pmt_t \<Rightarrow> pmt_t" where
  "pmt_norm r = \<lparr>
     pmt_t.table_id = pmt_t.table_id r,
     pmt_t.section_length_hi = take_bit 4 (pmt_t.section_length_hi r),
     pmt_t.rsv_1_4 = take_bit 2 (pmt_t.rsv_1_4 r),
     pmt_t.dummy = take_bit 1 (pmt_t.dummy r),
     pmt_t.section_syntax_indicator = take_bit 1 (pmt_t.section_syntax_indicator r),
     pmt_t.section_length_lo = pmt_t.section_length_lo r,
     pmt_t.program_number_hi = pmt_t.program_number_hi r,
     pmt_t.program_number_lo = pmt_t.program_number_lo r,
     pmt_t.current_next_indicator = take_bit 1 (pmt_t.current_next_indicator r),
     pmt_t.version_number = take_bit 5 (pmt_t.version_number r),
     pmt_t.rsv_5_6 = take_bit 2 (pmt_t.rsv_5_6 r),
     pmt_t.section_number = pmt_t.section_number r,
     pmt_t.last_section_number = pmt_t.last_section_number r,
     pmt_t.PCR_PID_hi = take_bit 5 (pmt_t.PCR_PID_hi r),
     pmt_t.rsv_8_5 = take_bit 3 (pmt_t.rsv_8_5 r),
     pmt_t.PCR_PID_lo = pmt_t.PCR_PID_lo r,
     pmt_t.program_info_length_hi = take_bit 4 (pmt_t.program_info_length_hi r),
     pmt_t.rsv_10_4 = take_bit 4 (pmt_t.rsv_10_4 r),
     pmt_t.program_info_length_lo = pmt_t.program_info_length_lo r\<rparr>"

definition pmt_bytes :: "pmt_t \<Rightarrow> u8 list" where
  "pmt_bytes r =
     [pmt_t.table_id r,
      bf_pack [(4, pmt_t.section_length_hi r), (2, pmt_t.rsv_1_4 r), (1, pmt_t.dummy r), (1, pmt_t.section_syntax_indicator r)],
      pmt_t.section_length_lo r,
      pmt_t.program_number_hi r,
      pmt_t.program_number_lo r,
      bf_pack [(1, pmt_t.current_next_indicator r), (5, pmt_t.version_number r), (2, pmt_t.rsv_5_6 r)],
      pmt_t.section_number r,
      pmt_t.last_section_number r,
      bf_pack [(5, pmt_t.PCR_PID_hi r), (3, pmt_t.rsv_8_5 r)],
      pmt_t.PCR_PID_lo r,
      bf_pack [(4, pmt_t.program_info_length_hi r), (4, pmt_t.rsv_10_4 r)],
      pmt_t.program_info_length_lo r]"

interpretation pmt_s: c_struct PMT_LEN pmt_of pmt_bytes pmt_norm
  by (unfold_locales, simp_all add: PMT_LEN_def pmt_of_def pmt_bytes_def pmt_norm_def struct_simps,
      (simp_all add: numeral_eq_Suc)?)

subsection \<open>pmt_info_t\<close>

definition PMT_INFO_LEN :: nat where "PMT_INFO_LEN = 5"

record pmt_info_t =
  stream_type :: "u8"
  elementary_PID_hi :: "u8"
  rsv_1_5 :: "u8"
  elementary_PID_lo :: "u8"
  ES_info_length_hi :: "u8"
  rsv_3_4 :: "u8"
  ES_info_length_lo :: "u8"

definition pmt_info_of :: "u8 list \<Rightarrow> pmt_info_t" where
  "pmt_info_of b = \<lparr>
     pmt_info_t.stream_type = b ! 0,
     pmt_info_t.elementary_PID_hi = bf_get (b ! 1) 0 5,
     pmt_info_t.rsv_1_5 = bf_get (b ! 1) 5 3,
     pmt_info_t.elementary_PID_lo = b ! 2,
     pmt_info_t.ES_info_length_hi = bf_get (b ! 3) 0 4,
     pmt_info_t.rsv_3_4 = bf_get (b ! 3) 4 4,
     pmt_info_t.ES_info_length_lo = b ! 4\<rparr>"

definition pmt_info_norm :: "pmt_info_t \<Rightarrow> pmt_info_t" where
  "pmt_info_norm r = \<lparr>
     pmt_info_t.stream_type = pmt_info_t.stream_type r,
     pmt_info_t.elementary_PID_hi = take_bit 5 (pmt_info_t.elementary_PID_hi r),
     pmt_info_t.rsv_1_5 = take_bit 3 (pmt_info_t.rsv_1_5 r),
     pmt_info_t.elementary_PID_lo = pmt_info_t.elementary_PID_lo r,
     pmt_info_t.ES_info_length_hi = take_bit 4 (pmt_info_t.ES_info_length_hi r),
     pmt_info_t.rsv_3_4 = take_bit 4 (pmt_info_t.rsv_3_4 r),
     pmt_info_t.ES_info_length_lo = pmt_info_t.ES_info_length_lo r\<rparr>"

definition pmt_info_bytes :: "pmt_info_t \<Rightarrow> u8 list" where
  "pmt_info_bytes r =
     [pmt_info_t.stream_type r,
      bf_pack [(5, pmt_info_t.elementary_PID_hi r), (3, pmt_info_t.rsv_1_5 r)],
      pmt_info_t.elementary_PID_lo r,
      bf_pack [(4, pmt_info_t.ES_info_length_hi r), (4, pmt_info_t.rsv_3_4 r)],
      pmt_info_t.ES_info_length_lo r]"

interpretation pmt_info_s: c_struct PMT_INFO_LEN pmt_info_of pmt_info_bytes pmt_info_norm
  by (unfold_locales, simp_all add: PMT_INFO_LEN_def pmt_info_of_def pmt_info_bytes_def pmt_info_norm_def struct_simps,
      (simp_all add: numeral_eq_Suc)?)

subsection \<open>descr_ca_t\<close>

definition DESCR_CA_LEN :: nat where "DESCR_CA_LEN = 6"

record descr_ca_t =
  descriptor_tag :: "u8"
  descriptor_length :: "u8"
  CA_type_hi :: "u8"
  CA_type_lo :: "u8"
  CA_PID_hi :: "u8"
  reserved :: "u8"
  CA_PID_lo :: "u8"

definition descr_ca_of :: "u8 list \<Rightarrow> descr_ca_t" where
  "descr_ca_of b = \<lparr>
     descr_ca_t.descriptor_tag = b ! 0,
     descr_ca_t.descriptor_length = b ! 1,
     descr_ca_t.CA_type_hi = b ! 2,
     descr_ca_t.CA_type_lo = b ! 3,
     descr_ca_t.CA_PID_hi = bf_get (b ! 4) 0 5,
     descr_ca_t.reserved = bf_get (b ! 4) 5 3,
     descr_ca_t.CA_PID_lo = b ! 5\<rparr>"

definition descr_ca_norm :: "descr_ca_t \<Rightarrow> descr_ca_t" where
  "descr_ca_norm r = \<lparr>
     descr_ca_t.descriptor_tag = descr_ca_t.descriptor_tag r,
     descr_ca_t.descriptor_length = descr_ca_t.descriptor_length r,
     descr_ca_t.CA_type_hi = descr_ca_t.CA_type_hi r,
     descr_ca_t.CA_type_lo = descr_ca_t.CA_type_lo r,
     descr_ca_t.CA_PID_hi = take_bit 5 (descr_ca_t.CA_PID_hi r),
     descr_ca_t.reserved = take_bit 3 (descr_ca_t.reserved r),
     descr_ca_t.CA_PID_lo = descr_ca_t.CA_PID_lo r\<rparr>"

definition descr_ca_bytes :: "descr_ca_t \<Rightarrow> u8 list" where
  "descr_ca_bytes r =
     [descr_ca_t.descriptor_tag r,
      descr_ca_t.descriptor_length r,
      descr_ca_t.CA_type_hi r,
      descr_ca_t.CA_type_lo r,
      bf_pack [(5, descr_ca_t.CA_PID_hi r), (3, descr_ca_t.reserved r)],
      descr_ca_t.CA_PID_lo r]"

interpretation descr_ca_s: c_struct DESCR_CA_LEN descr_ca_of descr_ca_bytes descr_ca_norm
  by (unfold_locales, simp_all add: DESCR_CA_LEN_def descr_ca_of_def descr_ca_bytes_def descr_ca_norm_def struct_simps,
      (simp_all add: numeral_eq_Suc)?)

subsection \<open>sdt_t\<close>

definition SDT_LEN :: nat where "SDT_LEN = 11"

record sdt_t =
  table_id :: "u8"
  section_length_hi :: "u8"
  rsv_1_4 :: "u8"
  section_syntax_indicator :: "u8"
  section_length_lo :: "u8"
  transport_stream_id_hi :: "u8"
  transport_stream_id_lo :: "u8"
  current_next_indicator :: "u8"
  version_number :: "u8"
  rsv_5_6 :: "u8"
  section_number :: "u8"
  last_section_number :: "u8"
  original_network_id_hi :: "u8"
  original_network_id_lo :: "u8"
  rsv_10_0 :: "u8"

definition sdt_of :: "u8 list \<Rightarrow> sdt_t" where
  "sdt_of b = \<lparr>
     sdt_t.table_id = b ! 0,
     sdt_t.section_length_hi = bf_get (b ! 1) 0 4,
     sdt_t.rsv_1_4 = bf_get (b ! 1) 4 3,
     sdt_t.section_syntax_indicator = bf_get (b ! 1) 7 1,
     sdt_t.section_length_lo = b ! 2,
     sdt_t.transport_stream_id_hi = b ! 3,
     sdt_t.transport_stream_id_lo = b ! 4,
     sdt_t.current_next_indicator = bf_get (b ! 5) 0 1,
     sdt_t.version_number = bf_get (b ! 5) 1 5,
     sdt_t.rsv_5_6 = bf_get (b ! 5) 6 2,
     sdt_t.section_number = b ! 6,
     sdt_t.last_section_number = b ! 7,
     sdt_t.original_network_id_hi = b ! 8,
     sdt_t.original_network_id_lo = b ! 9,
     sdt_t.rsv_10_0 = b ! 10\<rparr>"

definition sdt_norm :: "sdt_t \<Rightarrow> sdt_t" where
  "sdt_norm r = \<lparr>
     sdt_t.table_id = sdt_t.table_id r,
     sdt_t.section_length_hi = take_bit 4 (sdt_t.section_length_hi r),
     sdt_t.rsv_1_4 = take_bit 3 (sdt_t.rsv_1_4 r),
     sdt_t.section_syntax_indicator = take_bit 1 (sdt_t.section_syntax_indicator r),
     sdt_t.section_length_lo = sdt_t.section_length_lo r,
     sdt_t.transport_stream_id_hi = sdt_t.transport_stream_id_hi r,
     sdt_t.transport_stream_id_lo = sdt_t.transport_stream_id_lo r,
     sdt_t.current_next_indicator = take_bit 1 (sdt_t.current_next_indicator r),
     sdt_t.version_number = take_bit 5 (sdt_t.version_number r),
     sdt_t.rsv_5_6 = take_bit 2 (sdt_t.rsv_5_6 r),
     sdt_t.section_number = sdt_t.section_number r,
     sdt_t.last_section_number = sdt_t.last_section_number r,
     sdt_t.original_network_id_hi = sdt_t.original_network_id_hi r,
     sdt_t.original_network_id_lo = sdt_t.original_network_id_lo r,
     sdt_t.rsv_10_0 = sdt_t.rsv_10_0 r\<rparr>"

definition sdt_bytes :: "sdt_t \<Rightarrow> u8 list" where
  "sdt_bytes r =
     [sdt_t.table_id r,
      bf_pack [(4, sdt_t.section_length_hi r), (3, sdt_t.rsv_1_4 r), (1, sdt_t.section_syntax_indicator r)],
      sdt_t.section_length_lo r,
      sdt_t.transport_stream_id_hi r,
      sdt_t.transport_stream_id_lo r,
      bf_pack [(1, sdt_t.current_next_indicator r), (5, sdt_t.version_number r), (2, sdt_t.rsv_5_6 r)],
      sdt_t.section_number r,
      sdt_t.last_section_number r,
      sdt_t.original_network_id_hi r,
      sdt_t.original_network_id_lo r,
      sdt_t.rsv_10_0 r]"

interpretation sdt_s: c_struct SDT_LEN sdt_of sdt_bytes sdt_norm
  by (unfold_locales, simp_all add: SDT_LEN_def sdt_of_def sdt_bytes_def sdt_norm_def struct_simps,
      (simp_all add: numeral_eq_Suc)?)

subsection \<open>sdt_descr_t\<close>

definition SDT_DESCR_LEN :: nat where "SDT_DESCR_LEN = 5"

record sdt_descr_t =
  service_id_hi :: "u8"
  service_id_lo :: "u8"
  eit_present_following_flag :: "u8"
  eit_schedule_flag :: "u8"
  rsv_2_2 :: "u8"
  descriptors_loop_length_hi :: "u8"
  free_ca_mode :: "u8"
  running_status :: "u8"
  descriptors_loop_length_lo :: "u8"

definition sdt_descr_of :: "u8 list \<Rightarrow> sdt_descr_t" where
  "sdt_descr_of b = \<lparr>
     sdt_descr_t.service_id_hi = b ! 0,
     sdt_descr_t.service_id_lo = b ! 1,
     sdt_descr_t.eit_present_following_flag = bf_get (b ! 2) 0 1,
     sdt_descr_t.eit_schedule_flag = bf_get (b ! 2) 1 1,
     sdt_descr_t.rsv_2_2 = bf_get (b ! 2) 2 6,
     sdt_descr_t.descriptors_loop_length_hi = bf_get (b ! 3) 0 4,
     sdt_descr_t.free_ca_mode = bf_get (b ! 3) 4 1,
     sdt_descr_t.running_status = bf_get (b ! 3) 5 3,
     sdt_descr_t.descriptors_loop_length_lo = b ! 4\<rparr>"

definition sdt_descr_norm :: "sdt_descr_t \<Rightarrow> sdt_descr_t" where
  "sdt_descr_norm r = \<lparr>
     sdt_descr_t.service_id_hi = sdt_descr_t.service_id_hi r,
     sdt_descr_t.service_id_lo = sdt_descr_t.service_id_lo r,
     sdt_descr_t.eit_present_following_flag = take_bit 1 (sdt_descr_t.eit_present_following_flag r),
     sdt_descr_t.eit_schedule_flag = take_bit 1 (sdt_descr_t.eit_schedule_flag r),
     sdt_descr_t.rsv_2_2 = take_bit 6 (sdt_descr_t.rsv_2_2 r),
     sdt_descr_t.descriptors_loop_length_hi = take_bit 4 (sdt_descr_t.descriptors_loop_length_hi r),
     sdt_descr_t.free_ca_mode = take_bit 1 (sdt_descr_t.free_ca_mode r),
     sdt_descr_t.running_status = take_bit 3 (sdt_descr_t.running_status r),
     sdt_descr_t.descriptors_loop_length_lo = sdt_descr_t.descriptors_loop_length_lo r\<rparr>"

definition sdt_descr_bytes :: "sdt_descr_t \<Rightarrow> u8 list" where
  "sdt_descr_bytes r =
     [sdt_descr_t.service_id_hi r,
      sdt_descr_t.service_id_lo r,
      bf_pack [(1, sdt_descr_t.eit_present_following_flag r), (1, sdt_descr_t.eit_schedule_flag r), (6, sdt_descr_t.rsv_2_2 r)],
      bf_pack [(4, sdt_descr_t.descriptors_loop_length_hi r), (1, sdt_descr_t.free_ca_mode r), (3, sdt_descr_t.running_status r)],
      sdt_descr_t.descriptors_loop_length_lo r]"

interpretation sdt_descr_s: c_struct SDT_DESCR_LEN sdt_descr_of sdt_descr_bytes sdt_descr_norm
  by (unfold_locales, simp_all add: SDT_DESCR_LEN_def sdt_descr_of_def sdt_descr_bytes_def sdt_descr_norm_def struct_simps,
      (simp_all add: numeral_eq_Suc)?)

subsection \<open>eit_t\<close>

definition EIT_LEN :: nat where "EIT_LEN = 14"

record eit_t =
  table_id :: "u8"
  section_length_hi :: "u8"
  rsv_1_4 :: "u8"
  section_syntax_indicator :: "u8"
  section_length_lo :: "u8"
  service_id_hi :: "u8"
  service_id_lo :: "u8"
  current_next_indicator :: "u8"
  version_number :: "u8"
  rsv_5_6 :: "u8"
  section_number :: "u8"
  last_section_number :: "u8"
  transport_stream_id_hi :: "u8"
  transport_stream_id_lo :: "u8"
  original_network_id_hi :: "u8"
  original_network_id_lo :: "u8"
  segment_last_section_number :: "u8"
  segment_last_table_id :: "u8"

definition eit_of :: "u8 list \<Rightarrow> eit_t" where
  "eit_of b = \<lparr>
     eit_t.table_id = b ! 0,
     eit_t.section_length_hi = bf_get (b ! 1) 0 4,
     eit_t.rsv_1_4 = bf_get (b ! 1) 4 3,
     eit_t.section_syntax_indicator = bf_get (b ! 1) 7 1,
     eit_t.section_length_lo = b ! 2,
     eit_t.service_id_hi = b ! 3,
     eit_t.service_id_lo = b ! 4,
     eit_t.current_next_indicator = bf_get (b ! 5) 0 1,
     eit_t.version_number = bf_get (b ! 5) 1 5,
     eit_t.rsv_5_6 = bf_get (b ! 5) 6 2,
     eit_t.section_number = b ! 6,
     eit_t.last_section_number = b ! 7,
     eit_t.transport_stream_id_hi = b ! 8,
     eit_t.transport_stream_id_lo = b ! 9,
     eit_t.original_network_id_hi = b ! 10,
     eit_t.original_network_id_lo = b ! 11,
     eit_t.segment_last_section_number = b ! 12,
     eit_t.segment_last_table_id = b ! 13\<rparr>"

definition eit_norm :: "eit_t \<Rightarrow> eit_t" where
  "eit_norm r = \<lparr>
     eit_t.table_id = eit_t.table_id r,
     eit_t.section_length_hi = take_bit 4 (eit_t.section_length_hi r),
     eit_t.rsv_1_4 = take_bit 3 (eit_t.rsv_1_4 r),
     eit_t.section_syntax_indicator = take_bit 1 (eit_t.section_syntax_indicator r),
     eit_t.section_length_lo = eit_t.section_length_lo r,
     eit_t.service_id_hi = eit_t.service_id_hi r,
     eit_t.service_id_lo = eit_t.service_id_lo r,
     eit_t.current_next_indicator = take_bit 1 (eit_t.current_next_indicator r),
     eit_t.version_number = take_bit 5 (eit_t.version_number r),
     eit_t.rsv_5_6 = take_bit 2 (eit_t.rsv_5_6 r),
     eit_t.section_number = eit_t.section_number r,
     eit_t.last_section_number = eit_t.last_section_number r,
     eit_t.transport_stream_id_hi = eit_t.transport_stream_id_hi r,
     eit_t.transport_stream_id_lo = eit_t.transport_stream_id_lo r,
     eit_t.original_network_id_hi = eit_t.original_network_id_hi r,
     eit_t.original_network_id_lo = eit_t.original_network_id_lo r,
     eit_t.segment_last_section_number = eit_t.segment_last_section_number r,
     eit_t.segment_last_table_id = eit_t.segment_last_table_id r\<rparr>"

definition eit_bytes :: "eit_t \<Rightarrow> u8 list" where
  "eit_bytes r =
     [eit_t.table_id r,
      bf_pack [(4, eit_t.section_length_hi r), (3, eit_t.rsv_1_4 r), (1, eit_t.section_syntax_indicator r)],
      eit_t.section_length_lo r,
      eit_t.service_id_hi r,
      eit_t.service_id_lo r,
      bf_pack [(1, eit_t.current_next_indicator r), (5, eit_t.version_number r), (2, eit_t.rsv_5_6 r)],
      eit_t.section_number r,
      eit_t.last_section_number r,
      eit_t.transport_stream_id_hi r,
      eit_t.transport_stream_id_lo r,
      eit_t.original_network_id_hi r,
      eit_t.original_network_id_lo r,
      eit_t.segment_last_section_number r,
      eit_t.segment_last_table_id r]"

interpretation eit_s: c_struct EIT_LEN eit_of eit_bytes eit_norm
  by (unfold_locales, simp_all add: EIT_LEN_def eit_of_def eit_bytes_def eit_norm_def struct_simps,
      (simp_all add: numeral_eq_Suc)?)

subsection \<open>eit_event_t\<close>

definition EIT_EVENT_LEN :: nat where "EIT_EVENT_LEN = 12"

record eit_event_t =
  event_id_hi :: "u8"
  event_id_lo :: "u8"
  start_time_0 :: "u8"
  start_time_1 :: "u8"
  start_time_2 :: "u8"
  start_time_3 :: "u8"
  start_time_4 :: "u8"
  duration_0 :: "u8"
  duration_1 :: "u8"
  duration_2 :: "u8"
  descriptors_loop_length_hi :: "u8"
  free_ca_mode :: "u8"
  running_status :: "u8"
  descriptors_loop_length_lo :: "u8"

definition eit_event_of :: "u8 list \<Rightarrow> eit_event_t" where
  "eit_event_of b = \<lparr>
     eit_event_t.event_id_hi = b ! 0,
     eit_event_t.event_id_lo = b ! 1,
     eit_event_t.start_time_0 = b ! 2,
     eit_event_t.start_time_1 = b ! 3,
     eit_event_t.start_time_2 = b ! 4,
     eit_event_t.start_time_3 = b ! 5,
     eit_event_t.start_time_4 = b ! 6,
     eit_event_t.duration_0 = b ! 7,
     eit_event_t.duration_1 = b ! 8,
     eit_event_t.duration_2 = b ! 9,
     eit_event_t.descriptors_loop_length_hi = bf_get (b ! 10) 0 4,
     eit_event_t.free_ca_mode = bf_get (b ! 10) 4 1,
     eit_event_t.running_status = bf_get (b ! 10) 5 3,
     eit_event_t.descriptors_loop_length_lo = b ! 11\<rparr>"

definition eit_event_norm :: "eit_event_t \<Rightarrow> eit_event_t" where
  "eit_event_norm r = \<lparr>
     eit_event_t.event_id_hi = eit_event_t.event_id_hi r,
     eit_event_t.event_id_lo = eit_event_t.event_id_lo r,
     eit_event_t.start_time_0 = eit_event_t.start_time_0 r,
     eit_event_t.start_time_1 = eit_event_t.start_time_1 r,
     eit_event_t.start_time_2 = eit_event_t.start_time_2 r,
     eit_event_t.start_time_3 = eit_event_t.start_time_3 r,
     eit_event_t.start_time_4 = eit_event_t.start_time_4 r,
     eit_event_t.duration_0 = eit_event_t.duration_0 r,
     eit_event_t.duration_1 = eit_event_t.duration_1 r,
     eit_event_t.duration_2 = eit_event_t.duration_2 r,
     eit_event_t.descriptors_loop_length_hi = take_bit 4 (eit_event_t.descriptors_loop_length_hi r),
     eit_event_t.free_ca_mode = take_bit 1 (eit_event_t.free_ca_mode r),
     eit_event_t.running_status = take_bit 3 (eit_event_t.running_status r),
     eit_event_t.descriptors_loop_length_lo = eit_event_t.descriptors_loop_length_lo r\<rparr>"

definition eit_event_bytes :: "eit_event_t \<Rightarrow> u8 list" where
  "eit_event_bytes r =
     [eit_event_t.event_id_hi r,
      eit_event_t.event_id_lo r,
      eit_event_t.start_time_0 r,
      eit_event_t.start_time_1 r,
      eit_event_t.start_time_2 r,
      eit_event_t.start_time_3 r,
      eit_event_t.start_time_4 r,
      eit_event_t.duration_0 r,
      eit_event_t.duration_1 r,
      eit_event_t.duration_2 r,
      bf_pack [(4, eit_event_t.descriptors_loop_length_hi r), (1, eit_event_t.free_ca_mode r), (3, eit_event_t.running_status r)],
      eit_event_t.descriptors_loop_length_lo r]"

interpretation eit_event_s: c_struct EIT_EVENT_LEN eit_event_of eit_event_bytes eit_event_norm
  by (unfold_locales, simp_all add: EIT_EVENT_LEN_def eit_event_of_def eit_event_bytes_def eit_event_norm_def struct_simps,
      (simp_all add: numeral_eq_Suc)?)

subsection \<open>nit_t\<close>

definition NIT_LEN :: nat where "NIT_LEN = 10"

record nit_t =
  table_id :: "u8"
  section_length_hi :: "u8"
  rsv_1_4 :: "u8"
  section_syntax_indicator :: "u8"
  section_length_lo :: "u8"
  network_id_hi :: "u8"
  network_id_lo :: "u8"
  current_next_indicator :: "u8"
  version_number :: "u8"
  rsv_5_6 :: "u8"
  section_number :: "u8"
  last_section_number :: "u8"
  network_descriptor_length_hi :: "u8"
  rsv_8_4 :: "u8"
  network_descriptor_length_lo :: "u8"

definition nit_of :: "u8 list \<Rightarrow> nit_t" where
  "nit_of b = \<lparr>
     nit_t.table_id = b ! 0,
     nit_t.section_length_hi = bf_get (b ! 1) 0 4,
     nit_t.rsv_1_4 = bf_get (b ! 1) 4 3,
     nit_t.section_syntax_indicator = bf_get (b ! 1) 7 1,
     nit_t.section_length_lo = b ! 2,
     nit_t.network_id_hi = b ! 3,
     nit_t.network_id_lo = b ! 4,
     nit_t.current_next_indicator = bf_get (b ! 5) 0 1,
     nit_t.version_number = bf_get (b ! 5) 1 5,
     nit_t.rsv_5_6 = bf_get (b ! 5) 6 2,
     nit_t.section_number = b ! 6,
     nit_t.last_section_number = b ! 7,
     nit_t.network_descriptor_length_hi = bf_get (b ! 8) 0 4,
     nit_t.rsv_8_4 = bf_get (b ! 8) 4 4,
     nit_t.network_descriptor_length_lo = b ! 9\<rparr>"

definition nit_norm :: "nit_t \<Rightarrow> nit_t" where
  "nit_norm r = \<lparr>
     nit_t.table_id = nit_t.table_id r,
     nit_t.section_length_hi = take_bit 4 (nit_t.section_length_hi r),
     nit_t.rsv_1_4 = take_bit 3 (nit_t.rsv_1_4 r),
     nit_t.section_syntax_indicator = take_bit 1 (nit_t.section_syntax_indicator r),
     nit_t.section_length_lo = nit_t.section_length_lo r,
     nit_t.network_id_hi = nit_t.network_id_hi r,
     nit_t.network_id_lo = nit_t.network_id_lo r,
     nit_t.current_next_indicator = take_bit 1 (nit_t.current_next_indicator r),
     nit_t.version_number = take_bit 5 (nit_t.version_number r),
     nit_t.rsv_5_6 = take_bit 2 (nit_t.rsv_5_6 r),
     nit_t.section_number = nit_t.section_number r,
     nit_t.last_section_number = nit_t.last_section_number r,
     nit_t.network_descriptor_length_hi = take_bit 4 (nit_t.network_descriptor_length_hi r),
     nit_t.rsv_8_4 = take_bit 4 (nit_t.rsv_8_4 r),
     nit_t.network_descriptor_length_lo = nit_t.network_descriptor_length_lo r\<rparr>"

definition nit_bytes :: "nit_t \<Rightarrow> u8 list" where
  "nit_bytes r =
     [nit_t.table_id r,
      bf_pack [(4, nit_t.section_length_hi r), (3, nit_t.rsv_1_4 r), (1, nit_t.section_syntax_indicator r)],
      nit_t.section_length_lo r,
      nit_t.network_id_hi r,
      nit_t.network_id_lo r,
      bf_pack [(1, nit_t.current_next_indicator r), (5, nit_t.version_number r), (2, nit_t.rsv_5_6 r)],
      nit_t.section_number r,
      nit_t.last_section_number r,
      bf_pack [(4, nit_t.network_descriptor_length_hi r), (4, nit_t.rsv_8_4 r)],
      nit_t.network_descriptor_length_lo r]"

interpretation nit_s: c_struct NIT_LEN nit_of nit_bytes nit_norm
  by (unfold_locales, simp_all add: NIT_LEN_def nit_of_def nit_bytes_def nit_norm_def struct_simps,
      (simp_all add: numeral_eq_Suc)?)

subsection \<open>nit_mid_t\<close>

definition SIZE_NIT_MID :: nat where "SIZE_NIT_MID = 2"

record nit_mid_t =
  transport_stream_loop_length_hi :: "u8"
  rsv_0_4 :: "u8"
  transport_stream_loop_length_lo :: "u8"

definition nit_mid_of :: "u8 list \<Rightarrow> nit_mid_t" where
  "nit_mid_of b = \<lparr>
     nit_mid_t.transport_stream_loop_length_hi = bf_get (b ! 0) 0 4,
     nit_mid_t.rsv_0_4 = bf_get (b ! 0) 4 4,
     nit_mid_t.transport_stream_loop_length_lo = b ! 1\<rparr>"

definition nit_mid_norm :: "nit_mid_t \<Rightarrow> nit_mid_t" where
  "nit_mid_norm r = \<lparr>
     nit_mid_t.transport_stream_loop_length_hi = take_bit 4 (nit_mid_t.transport_stream_loop_length_hi r),
     nit_mid_t.rsv_0_4 = take_bit 4 (nit_mid_t.rsv_0_4 r),
     nit_mid_t.transport_stream_loop_length_lo = nit_mid_t.transport_stream_loop_length_lo r\<rparr>"

definition nit_mid_bytes :: "nit_mid_t \<Rightarrow> u8 list" where
  "nit_mid_bytes r =
     [bf_pack [(4, nit_mid_t.transport_stream_loop_length_hi r), (4, nit_mid_t.rsv_0_4 r)],
      nit_mid_t.transport_stream_loop_length_lo r]"

interpretation nit_mid_s: c_struct SIZE_NIT_MID nit_mid_of nit_mid_bytes nit_mid_norm
  by (unfold_locales, simp_all add: SIZE_NIT_MID_def nit_mid_of_def nit_mid_bytes_def nit_mid_norm_def struct_simps,
      (simp_all add: numeral_eq_Suc)?)

subsection \<open>nit_ts_t\<close>

definition NIT_TS_LEN :: nat where "NIT_TS_LEN = 6"

record nit_ts_t =
  transport_stream_id_hi :: "u8"
  transport_stream_id_lo :: "u8"
  original_network_id_hi :: "u8"
  original_network_id_lo :: "u8"
  transport_descriptors_length_hi :: "u8"
  rsv_4_4 :: "u8"
  transport_descriptors_length_lo :: "u8"

definition nit_ts_of :: "u8 list \<Rightarrow> nit_ts_t" where
  "nit_ts_of b = \<lparr>
     nit_ts_t.transport_stream_id_hi = b ! 0,
     nit_ts_t.transport_stream_id_lo = b ! 1,
     nit_ts_t.original_network_id_hi = b ! 2,
     nit_ts_t.original_network_id_lo = b ! 3,
     nit_ts_t.transport_descriptors_length_hi = bf_get (b ! 4) 0 4,
     nit_ts_t.rsv_4_4 = bf_get (b ! 4) 4 4,
     nit_ts_t.transport_descriptors_length_lo = b ! 5\<rparr>"

definition nit_ts_norm :: "nit_ts_t \<Rightarrow> nit_ts_t" where
  "nit_ts_norm r = \<lparr>
     nit_ts_t.transport_stream_id_hi = nit_ts_t.transport_stream_id_hi r,
     nit_ts_t.transport_stream_id_lo = nit_ts_t.transport_stream_id_lo r,
     nit_ts_t.original_network_id_hi = nit_ts_t.original_network_id_hi r,
     nit_ts_t.original_network_id_lo = nit_ts_t.original_network_id_lo r,
     nit_ts_t.transport_descriptors_length_hi = take_bit 4 (nit_ts_t.transport_descriptors_length_hi r),
     nit_ts_t.rsv_4_4 = take_bit 4 (nit_ts_t.rsv_4_4 r),
     nit_ts_t.transport_descriptors_length_lo = nit_ts_t.transport_descriptors_length_lo r\<rparr>"

definition nit_ts_bytes :: "nit_ts_t \<Rightarrow> u8 list" where
  "nit_ts_bytes r =
     [nit_ts_t.transport_stream_id_hi r,
      nit_ts_t.transport_stream_id_lo r,
      nit_ts_t.original_network_id_hi r,
      nit_ts_t.original_network_id_lo r,
      bf_pack [(4, nit_ts_t.transport_descriptors_length_hi r), (4, nit_ts_t.rsv_4_4 r)],
      nit_ts_t.transport_descriptors_length_lo r]"

interpretation nit_ts_s: c_struct NIT_TS_LEN nit_ts_of nit_ts_bytes nit_ts_norm
  by (unfold_locales, simp_all add: NIT_TS_LEN_def nit_ts_of_def nit_ts_bytes_def nit_ts_norm_def struct_simps,
      (simp_all add: numeral_eq_Suc)?)

subsection \<open>nit_lcn_t\<close>

definition NIT_LCN_LEN :: nat where "NIT_LCN_LEN = 4"

record nit_lcn_t =
  service_id_hi :: "u8"
  service_id_lo :: "u8"
  logical_channel_number_hi :: "u8"
  reserved :: "u8"
  visible_service_flag :: "u8"
  logical_channel_number_lo :: "u8"

definition nit_lcn_of :: "u8 list \<Rightarrow> nit_lcn_t" where
  "nit_lcn_of b = \<lparr>
     nit_lcn_t.service_id_hi = b ! 0,
     nit_lcn_t.service_id_lo = b ! 1,
     nit_lcn_t.logical_channel_number_hi = bf_get (b ! 2) 0 2,
     nit_lcn_t.reserved = bf_get (b ! 2) 2 5,
     nit_lcn_t.visible_service_flag = bf_get (b ! 2) 7 1,
     nit_lcn_t.logical_channel_number_lo = b ! 3\<rparr>"

definition nit_lcn_norm :: "nit_lcn_t \<Rightarrow> nit_lcn_t" where
  "nit_lcn_norm r = \<lparr>
     nit_lcn_t.service_id_hi = nit_lcn_t.service_id_hi r,
     nit_lcn_t.service_id_lo = nit_lcn_t.service_id_lo r,
     nit_lcn_t.logical_channel_number_hi = take_bit 2 (nit_lcn_t.logical_channel_number_hi r),
     nit_lcn_t.reserved = take_bit 5 (nit_lcn_t.reserved r),
     nit_lcn_t.visible_service_flag = take_bit 1 (nit_lcn_t.visible_service_flag r),
     nit_lcn_t.logical_channel_number_lo = nit_lcn_t.logical_channel_number_lo r\<rparr>"

definition nit_lcn_bytes :: "nit_lcn_t \<Rightarrow> u8 list" where
  "nit_lcn_bytes r =
     [nit_lcn_t.service_id_hi r,
      nit_lcn_t.service_id_lo r,
      bf_pack [(2, nit_lcn_t.logical_channel_number_hi r), (5, nit_lcn_t.reserved r), (1, nit_lcn_t.visible_service_flag r)],
      nit_lcn_t.logical_channel_number_lo r]"

interpretation nit_lcn_s: c_struct NIT_LCN_LEN nit_lcn_of nit_lcn_bytes nit_lcn_norm
  by (unfold_locales, simp_all add: NIT_LCN_LEN_def nit_lcn_of_def nit_lcn_bytes_def nit_lcn_norm_def struct_simps,
      (simp_all add: numeral_eq_Suc)?)

subsection \<open>tbl_h_t\<close>

definition TABLE_LEN :: nat where "TABLE_LEN = 8"

record tbl_h_t =
  table_id :: "u8"
  section_length_hi :: "u8"
  rsv_1_4 :: "u8"
  section_syntax_indicator :: "u8"
  section_length_lo :: "u8"
  transport_stream_id_hi :: "u8"
  transport_stream_id_lo :: "u8"
  current_next_indicator :: "u8"
  version_number :: "u8"
  rsv_5_6 :: "u8"
  section_number :: "u8"
  last_section_number :: "u8"

definition tbl_h_of :: "u8 list \<Rightarrow> tbl_h_t" where
  "tbl_h_of b = \<lparr>
     tbl_h_t.table_id = b ! 0,
     tbl_h_t.section_length_hi = bf_get (b ! 1) 0 4,
     tbl_h_t.rsv_1_4 = bf_get (b ! 1) 4 3,
     tbl_h_t.section_syntax_indicator = bf_get (b ! 1) 7 1,
     tbl_h_t.section_length_lo = b ! 2,
     tbl_h_t.transport_stream_id_hi = b ! 3,
     tbl_h_t.transport_stream_id_lo = b ! 4,
     tbl_h_t.current_next_indicator = bf_get (b ! 5) 0 1,
     tbl_h_t.version_number = bf_get (b ! 5) 1 5,
     tbl_h_t.rsv_5_6 = bf_get (b ! 5) 6 2,
     tbl_h_t.section_number = b ! 6,
     tbl_h_t.last_section_number = b ! 7\<rparr>"

definition tbl_h_norm :: "tbl_h_t \<Rightarrow> tbl_h_t" where
  "tbl_h_norm r = \<lparr>
     tbl_h_t.table_id = tbl_h_t.table_id r,
     tbl_h_t.section_length_hi = take_bit 4 (tbl_h_t.section_length_hi r),
     tbl_h_t.rsv_1_4 = take_bit 3 (tbl_h_t.rsv_1_4 r),
     tbl_h_t.section_syntax_indicator = take_bit 1 (tbl_h_t.section_syntax_indicator r),
     tbl_h_t.section_length_lo = tbl_h_t.section_length_lo r,
     tbl_h_t.transport_stream_id_hi = tbl_h_t.transport_stream_id_hi r,
     tbl_h_t.transport_stream_id_lo = tbl_h_t.transport_stream_id_lo r,
     tbl_h_t.current_next_indicator = take_bit 1 (tbl_h_t.current_next_indicator r),
     tbl_h_t.version_number = take_bit 5 (tbl_h_t.version_number r),
     tbl_h_t.rsv_5_6 = take_bit 2 (tbl_h_t.rsv_5_6 r),
     tbl_h_t.section_number = tbl_h_t.section_number r,
     tbl_h_t.last_section_number = tbl_h_t.last_section_number r\<rparr>"

definition tbl_h_bytes :: "tbl_h_t \<Rightarrow> u8 list" where
  "tbl_h_bytes r =
     [tbl_h_t.table_id r,
      bf_pack [(4, tbl_h_t.section_length_hi r), (3, tbl_h_t.rsv_1_4 r), (1, tbl_h_t.section_syntax_indicator r)],
      tbl_h_t.section_length_lo r,
      tbl_h_t.transport_stream_id_hi r,
      tbl_h_t.transport_stream_id_lo r,
      bf_pack [(1, tbl_h_t.current_next_indicator r), (5, tbl_h_t.version_number r), (2, tbl_h_t.rsv_5_6 r)],
      tbl_h_t.section_number r,
      tbl_h_t.last_section_number r]"

interpretation tbl_h_s: c_struct TABLE_LEN tbl_h_of tbl_h_bytes tbl_h_norm
  by (unfold_locales, simp_all add: TABLE_LEN_def tbl_h_of_def tbl_h_bytes_def tbl_h_norm_def struct_simps,
      (simp_all add: numeral_eq_Suc)?)

subsection \<open>descr_terr_delivery_t\<close>

definition sizeof_descr_terr_delivery_t :: nat where "sizeof_descr_terr_delivery_t = 9"

record descr_terr_delivery_t =
  descriptor_tag :: "u8"
  descriptor_length :: "u8"
  frequency_4 :: "u8"
  frequency_3 :: "u8"
  frequency_2 :: "u8"
  frequency_1 :: "u8"
  rsv_6_0 :: "u8"
  MPE_FEC_indicator :: "u8"
  Time_Slicing_indicator :: "u8"
  priority :: "u8"
  bandwidth :: "u8"
  code_rate_HP_stream :: "u8"
  hierarchy_information :: "u8"
  constellation :: "u8"
  other_frequency_flag :: "u8"
  transmission_mode :: "u8"
  guard_interval :: "u8"
  code_rate_LP_stream :: "u8"

definition descr_terr_delivery_of :: "u8 list \<Rightarrow> descr_terr_delivery_t" where
  "descr_terr_delivery_of b = \<lparr>
     descr_terr_delivery_t.descriptor_tag = b ! 0,
     descr_terr_delivery_t.descriptor_length = b ! 1,
     descr_terr_delivery_t.frequency_4 = b ! 2,
     descr_terr_delivery_t.frequency_3 = b ! 3,
     descr_terr_delivery_t.frequency_2 = b ! 4,
     descr_terr_delivery_t.frequency_1 = b ! 5,
     descr_terr_delivery_t.rsv_6_0 = bf_get (b ! 6) 0 2,
     descr_terr_delivery_t.MPE_FEC_indicator = bf_get (b ! 6) 2 1,
     descr_terr_delivery_t.Time_Slicing_indicator = bf_get (b ! 6) 3 1,
     descr_terr_delivery_t.priority = bf_get (b ! 6) 4 1,
     descr_terr_delivery_t.bandwidth = bf_get (b ! 6) 5 3,
     descr_terr_delivery_t.code_rate_HP_stream = bf_get (b ! 7) 0 3,
     descr_terr_delivery_t.hierarchy_information = bf_get (b ! 7) 3 3,
     descr_terr_delivery_t.constellation = bf_get (b ! 7) 6 2,
     descr_terr_delivery_t.other_frequency_flag = bf_get (b ! 8) 0 1,
     descr_terr_delivery_t.transmission_mode = bf_get (b ! 8) 1 2,
     descr_terr_delivery_t.guard_interval = bf_get (b ! 8) 3 2,
     descr_terr_delivery_t.code_rate_LP_stream = bf_get (b ! 8) 5 3\<rparr>"

definition descr_terr_delivery_norm :: "descr_terr_delivery_t \<Rightarrow> descr_terr_delivery_t" where
  "descr_terr_delivery_norm r = \<lparr>
     descr_terr_delivery_t.descriptor_tag = descr_terr_delivery_t.descriptor_tag r,
     descr_terr_delivery_t.descriptor_length = descr_terr_delivery_t.descriptor_length r,
     descr_terr_delivery_t.frequency_4 = descr_terr_delivery_t.frequency_4 r,
     descr_terr_delivery_t.frequency_3 = descr_terr_delivery_t.frequency_3 r,
     descr_terr_delivery_t.frequency_2 = descr_terr_delivery_t.frequency_2 r,
     descr_terr_delivery_t.frequency_1 = descr_terr_delivery_t.frequency_1 r,
     descr_terr_delivery_t.rsv_6_0 = take_bit 2 (descr_terr_delivery_t.rsv_6_0 r),
     descr_terr_delivery_t.MPE_FEC_indicator = take_bit 1 (descr_terr_delivery_t.MPE_FEC_indicator r),
     descr_terr_delivery_t.Time_Slicing_indicator = take_bit 1 (descr_terr_delivery_t.Time_Slicing_indicator r),
     descr_terr_delivery_t.priority = take_bit 1 (descr_terr_delivery_t.priority r),
     descr_terr_delivery_t.bandwidth = take_bit 3 (descr_terr_delivery_t.bandwidth r),
     descr_terr_delivery_t.code_rate_HP_stream = take_bit 3 (descr_terr_delivery_t.code_rate_HP_stream r),
     descr_terr_delivery_t.hierarchy_information = take_bit 3 (descr_terr_delivery_t.hierarchy_information r),
     descr_terr_delivery_t.constellation = take_bit 2 (descr_terr_delivery_t.constellation r),
     descr_terr_delivery_t.other_frequency_flag = take_bit 1 (descr_terr_delivery_t.other_frequency_flag r),
     descr_terr_delivery_t.transmission_mode = take_bit 2 (descr_terr_delivery_t.transmission_mode r),
     descr_terr_delivery_t.guard_interval = take_bit 2 (descr_terr_delivery_t.guard_interval r),
     descr_terr_delivery_t.code_rate_LP_stream = take_bit 3 (descr_terr_delivery_t.code_rate_LP_stream r)\<rparr>"

definition descr_terr_delivery_bytes :: "descr_terr_delivery_t \<Rightarrow> u8 list" where
  "descr_terr_delivery_bytes r =
     [descr_terr_delivery_t.descriptor_tag r,
      descr_terr_delivery_t.descriptor_length r,
      descr_terr_delivery_t.frequency_4 r,
      descr_terr_delivery_t.frequency_3 r,
      descr_terr_delivery_t.frequency_2 r,
      descr_terr_delivery_t.frequency_1 r,
      bf_pack [(2, descr_terr_delivery_t.rsv_6_0 r), (1, descr_terr_delivery_t.MPE_FEC_indicator r), (1, descr_terr_delivery_t.Time_Slicing_indicator r), (1, descr_terr_delivery_t.priority r), (3, descr_terr_delivery_t.bandwidth r)],
      bf_pack [(3, descr_terr_delivery_t.code_rate_HP_stream r), (3, descr_terr_delivery_t.hierarchy_information r), (2, descr_terr_delivery_t.constellation r)],
      bf_pack [(1, descr_terr_delivery_t.other_frequency_flag r), (2, descr_terr_delivery_t.transmission_mode r), (2, descr_terr_delivery_t.guard_interval r), (3, descr_terr_delivery_t.code_rate_LP_stream r)]]"

interpretation descr_terr_delivery_s: c_struct sizeof_descr_terr_delivery_t descr_terr_delivery_of descr_terr_delivery_bytes descr_terr_delivery_norm
  by (unfold_locales, simp_all add: sizeof_descr_terr_delivery_t_def descr_terr_delivery_of_def descr_terr_delivery_bytes_def descr_terr_delivery_norm_def struct_simps,
      (simp_all add: numeral_eq_Suc)?)

subsection \<open>descr_sat_delivery_t\<close>

definition sizeof_descr_sat_delivery_t :: nat where "sizeof_descr_sat_delivery_t = 13"

record descr_sat_delivery_t =
  descriptor_tag :: "u8"
  descriptor_length :: "u8"
  frequency_4 :: "u8"
  frequency_3 :: "u8"
  frequency_2 :: "u8"
  frequency_1 :: "u8"
  orbital_position_hi :: "u8"
  orbital_position_lo :: "u8"
  modulation_type :: "u8"
  modulation_system :: "u8"
  roll_off :: "u8"
  polarization :: "u8"
  west_east_flag :: "u8"
  symbol_rate_12 :: "u8"
  symbol_rate_34 :: "u8"
  symbol_rate_56 :: "u8"
  FEC_inner :: "u8"
  symbol_rate_7 :: "u8"

definition descr_sat_delivery_of :: "u8 list \<Rightarrow> descr_sat_delivery_t" where
  "descr_sat_delivery_of b = \<lparr>
     descr_sat_delivery_t.descriptor_tag = b ! 0,
     descr_sat_delivery_t.descriptor_length = b ! 1,
     descr_sat_delivery_t.frequency_4 = b ! 2,
     descr_sat_delivery_t.frequency_3 = b ! 3,
     descr_sat_delivery_t.frequency_2 = b ! 4,
     descr_sat_delivery_t.frequency_1 = b ! 5,
     descr_sat_delivery_t.orbital_position_hi = b ! 6,
     descr_sat_delivery_t.orbital_position_lo = b ! 7,
     descr_sat_delivery_t.modulation_type = bf_get (b ! 8) 0 2,
     descr_sat_delivery_t.modulation_system = bf_get (b ! 8) 2 1,
     descr_sat_delivery_t.roll_off = bf_get (b ! 8) 3 2,
     descr_sat_delivery_t.polarization = bf_get (b ! 8) 5 2,
     descr_sat_delivery_t.west_east_flag = bf_get (b ! 8) 7 1,
     descr_sat_delivery_t.symbol_rate_12 = b ! 9,
     descr_sat_delivery_t.symbol_rate_34 = b ! 10,
     descr_sat_delivery_t.symbol_rate_56 = b ! 11,
     descr_sat_delivery_t.FEC_inner = bf_get (b ! 12) 0 4,
     descr_sat_delivery_t.symbol_rate_7 = bf_get (b ! 12) 4 4\<rparr>"

definition descr_sat_delivery_norm :: "descr_sat_delivery_t \<Rightarrow> descr_sat_delivery_t" where
  "descr_sat_delivery_norm r = \<lparr>
     descr_sat_delivery_t.descriptor_tag = descr_sat_delivery_t.descriptor_tag r,
     descr_sat_delivery_t.descriptor_length = descr_sat_delivery_t.descriptor_length r,
     descr_sat_delivery_t.frequency_4 = descr_sat_delivery_t.frequency_4 r,
     descr_sat_delivery_t.frequency_3 = descr_sat_delivery_t.frequency_3 r,
     descr_sat_delivery_t.frequency_2 = descr_sat_delivery_t.frequency_2 r,
     descr_sat_delivery_t.frequency_1 = descr_sat_delivery_t.frequency_1 r,
     descr_sat_delivery_t.orbital_position_hi = descr_sat_delivery_t.orbital_position_hi r,
     descr_sat_delivery_t.orbital_position_lo = descr_sat_delivery_t.orbital_position_lo r,
     descr_sat_delivery_t.modulation_type = take_bit 2 (descr_sat_delivery_t.modulation_type r),
     descr_sat_delivery_t.modulation_system = take_bit 1 (descr_sat_delivery_t.modulation_system r),
     descr_sat_delivery_t.roll_off = take_bit 2 (descr_sat_delivery_t.roll_off r),
     descr_sat_delivery_t.polarization = take_bit 2 (descr_sat_delivery_t.polarization r),
     descr_sat_delivery_t.west_east_flag = take_bit 1 (descr_sat_delivery_t.west_east_flag r),
     descr_sat_delivery_t.symbol_rate_12 = descr_sat_delivery_t.symbol_rate_12 r,
     descr_sat_delivery_t.symbol_rate_34 = descr_sat_delivery_t.symbol_rate_34 r,
     descr_sat_delivery_t.symbol_rate_56 = descr_sat_delivery_t.symbol_rate_56 r,
     descr_sat_delivery_t.FEC_inner = take_bit 4 (descr_sat_delivery_t.FEC_inner r),
     descr_sat_delivery_t.symbol_rate_7 = take_bit 4 (descr_sat_delivery_t.symbol_rate_7 r)\<rparr>"

definition descr_sat_delivery_bytes :: "descr_sat_delivery_t \<Rightarrow> u8 list" where
  "descr_sat_delivery_bytes r =
     [descr_sat_delivery_t.descriptor_tag r,
      descr_sat_delivery_t.descriptor_length r,
      descr_sat_delivery_t.frequency_4 r,
      descr_sat_delivery_t.frequency_3 r,
      descr_sat_delivery_t.frequency_2 r,
      descr_sat_delivery_t.frequency_1 r,
      descr_sat_delivery_t.orbital_position_hi r,
      descr_sat_delivery_t.orbital_position_lo r,
      bf_pack [(2, descr_sat_delivery_t.modulation_type r), (1, descr_sat_delivery_t.modulation_system r), (2, descr_sat_delivery_t.roll_off r), (2, descr_sat_delivery_t.polarization r), (1, descr_sat_delivery_t.west_east_flag r)],
      descr_sat_delivery_t.symbol_rate_12 r,
      descr_sat_delivery_t.symbol_rate_34 r,
      descr_sat_delivery_t.symbol_rate_56 r,
      bf_pack [(4, descr_sat_delivery_t.FEC_inner r), (4, descr_sat_delivery_t.symbol_rate_7 r)]]"

interpretation descr_sat_delivery_s: c_struct sizeof_descr_sat_delivery_t descr_sat_delivery_of descr_sat_delivery_bytes descr_sat_delivery_norm
  by (unfold_locales, simp_all add: sizeof_descr_sat_delivery_t_def descr_sat_delivery_of_def descr_sat_delivery_bytes_def descr_sat_delivery_norm_def struct_simps,
      (simp_all add: numeral_eq_Suc)?)

subsection \<open>psip_t\<close>

definition PSIP_HEADER_LEN :: nat where "PSIP_HEADER_LEN = 9"

record psip_t =
  table_id :: "u8"
  section_length_hi :: "u8"
  rsv_1_4 :: "u8"
  private_indicator :: "u8"
  section_syntax_indicator :: "u8"
  section_length_lo :: "u8"
  transport_stream_id_hi :: "u8"
  transport_stream_id_lo :: "u8"
  current_next_indicator :: "u8"
  version_number :: "u8"
  rsv_5_6 :: "u8"
  section_number :: "u8"
  last_section_number :: "u8"
  protocol_version :: "u8"

definition psip_of :: "u8 list \<Rightarrow> psip_t" where
  "psip_of b = \<lparr>
     psip_t.table_id = b ! 0,
     psip_t.section_length_hi = bf_get (b ! 1) 0 4,
     psip_t.rsv_1_4 = bf_get (b ! 1) 4 2,
     psip_t.private_indicator = bf_get (b ! 1) 6 1,
     psip_t.section_syntax_indicator = bf_get (b ! 1) 7 1,
     psip_t.section_length_lo = b ! 2,
     psip_t.transport_stream_id_hi = b ! 3,
     psip_t.transport_stream_id_lo = b ! 4,
     psip_t.current_next_indicator = bf_get (b ! 5) 0 1,
     psip_t.version_number = bf_get (b ! 5) 1 5,
     psip_t.rsv_5_6 = bf_get (b ! 5) 6 2,
     psip_t.section_number = b ! 6,
     psip_t.last_section_number = b ! 7,
     psip_t.protocol_version = b ! 8\<rparr>"

definition psip_norm :: "psip_t \<Rightarrow> psip_t" where
  "psip_norm r = \<lparr>
     psip_t.table_id = psip_t.table_id r,
     psip_t.section_length_hi = take_bit 4 (psip_t.section_length_hi r),
     psip_t.rsv_1_4 = take_bit 2 (psip_t.rsv_1_4 r),
     psip_t.private_indicator = take_bit 1 (psip_t.private_indicator r),
     psip_t.section_syntax_indicator = take_bit 1 (psip_t.section_syntax_indicator r),
     psip_t.section_length_lo = psip_t.section_length_lo r,
     psip_t.transport_stream_id_hi = psip_t.transport_stream_id_hi r,
     psip_t.transport_stream_id_lo = psip_t.transport_stream_id_lo r,
     psip_t.current_next_indicator = take_bit 1 (psip_t.current_next_indicator r),
     psip_t.version_number = take_bit 5 (psip_t.version_number r),
     psip_t.rsv_5_6 = take_bit 2 (psip_t.rsv_5_6 r),
     psip_t.section_number = psip_t.section_number r,
     psip_t.last_section_number = psip_t.last_section_number r,
     psip_t.protocol_version = psip_t.protocol_version r\<rparr>"

definition psip_bytes :: "psip_t \<Rightarrow> u8 list" where
  "psip_bytes r =
     [psip_t.table_id r,
      bf_pack [(4, psip_t.section_length_hi r), (2, psip_t.rsv_1_4 r), (1, psip_t.private_indicator r), (1, psip_t.section_syntax_indicator r)],
      psip_t.section_length_lo r,
      psip_t.transport_stream_id_hi r,
      psip_t.transport_stream_id_lo r,
      bf_pack [(1, psip_t.current_next_indicator r), (5, psip_t.version_number r), (2, psip_t.rsv_5_6 r)],
      psip_t.section_number r,
      psip_t.last_section_number r,
      psip_t.protocol_version r]"

interpretation psip_s: c_struct PSIP_HEADER_LEN psip_of psip_bytes psip_norm
  by (unfold_locales, simp_all add: PSIP_HEADER_LEN_def psip_of_def psip_bytes_def psip_norm_def struct_simps,
      (simp_all add: numeral_eq_Suc)?)

subsection \<open>psip_vct_channel_t\<close>

definition PSIP_VCT_LEN :: nat where "PSIP_VCT_LEN = 32"

record psip_vct_channel_t =
  short_name :: "u8 list"
  major_channel_number_hi4 :: "u8"
  rsv_14_4 :: "u8"
  minor_channel_number_hi :: "u8"
  major_channel_number_lo6 :: "u8"
  minor_channel_number_lo :: "u8"
  modulation_mode :: "u8"
  carrier_frequency :: "u8 list"
  channel_tsid_hi :: "u8"
  channel_tsid_lo :: "u8"
  program_number_hi :: "u8"
  program_number_lo :: "u8"
  rsv_26_0 :: "u8"
  hide_guide :: "u8"
  out_of_band :: "u8"
  path_select :: "u8"
  hidden :: "u8"
  access_controlled :: "u8"
  ETM_location :: "u8"
  service_type :: "u8"
  rsv_27_6 :: "u8"
  source_id_hi :: "u8"
  source_id_lo :: "u8"
  descriptor_length_hi :: "u8"
  rsv_30_2 :: "u8"
  descriptor_length_lo :: "u8"

definition psip_vct_channel_of :: "u8 list \<Rightarrow> psip_vct_channel_t" where
  "psip_vct_channel_of b = \<lparr>
     psip_vct_channel_t.short_name = take 14 (drop 0 b),
     psip_vct_channel_t.major_channel_number_hi4 = bf_get (b ! 14) 0 4,
     psip_vct_channel_t.rsv_14_4 = bf_get (b ! 14) 4 4,
     psip_vct_channel_t.minor_channel_number_hi = bf_get (b ! 15) 0 2,
     psip_vct_channel_t.major_channel_number_lo6 = bf_get (b ! 15) 2 6,
     psip_vct_channel_t.minor_channel_number_lo = b ! 16,
     psip_vct_channel_t.modulation_mode = b ! 17,
     psip_vct_channel_t.carrier_frequency = take 4 (drop 18 b),
     psip_vct_channel_t.channel_tsid_hi = b ! 22,
     psip_vct_channel_t.channel_tsid_lo = b ! 23,
     psip_vct_channel_t.program_number_hi = b ! 24,
     psip_vct_channel_t.program_number_lo = b ! 25,
     psip_vct_channel_t.rsv_26_0 = bf_get (b ! 26) 0 1,
     psip_vct_channel_t.hide_guide = bf_get (b ! 26) 1 1,
     psip_vct_channel_t.out_of_band = bf_get (b ! 26) 2 1,
     psip_vct_channel_t.path_select = bf_get (b ! 26) 3 1,
     psip_vct_channel_t.hidden = bf_get (b ! 26) 4 1,
     psip_vct_channel_t.access_controlled = bf_get (b ! 26) 5 1,
     psip_vct_channel_t.ETM_location = bf_get (b ! 26) 6 2,
     psip_vct_channel_t.service_type = bf_get (b ! 27) 0 6,
     psip_vct_channel_t.rsv_27_6 = bf_get (b ! 27) 6 2,
     psip_vct_channel_t.source_id_hi = b ! 28,
     psip_vct_channel_t.source_id_lo = b ! 29,
     psip_vct_channel_t.descriptor_length_hi = bf_get (b ! 30) 0 2,
     psip_vct_channel_t.rsv_30_2 = bf_get (b ! 30) 2 6,
     psip_vct_channel_t.descriptor_length_lo = b ! 31\<rparr>"

definition psip_vct_channel_norm :: "psip_vct_channel_t \<Rightarrow> psip_vct_channel_t" where
  "psip_vct_channel_norm r = \<lparr>
     psip_vct_channel_t.short_name = c_array 14 (psip_vct_channel_t.short_name r),
     psip_vct_channel_t.major_channel_number_hi4 = take_bit 4 (psip_vct_channel_t.major_channel_number_hi4 r),
     psip_vct_channel_t.rsv_14_4 = take_bit 4 (psip_vct_channel_t.rsv_14_4 r),
     psip_vct_channel_t.minor_channel_number_hi = take_bit 2 (psip_vct_channel_t.minor_channel_number_hi r),
     psip_vct_channel_t.major_channel_number_lo6 = take_bit 6 (psip_vct_channel_t.major_channel_number_lo6 r),
     psip_vct_channel_t.minor_channel_number_lo = psip_vct_channel_t.minor_channel_number_lo r,
     psip_vct_channel_t.modulation_mode = psip_vct_channel_t.modulation_mode r,
     psip_vct_channel_t.carrier_frequency = c_array 4 (psip_vct_channel_t.carrier_frequency r),
     psip_vct_channel_t.channel_tsid_hi = psip_vct_channel_t.channel_tsid_hi r,
     psip_vct_channel_t.channel_tsid_lo = psip_vct_channel_t.channel_tsid_lo r,
     psip_vct_channel_t.program_number_hi = psip_vct_channel_t.program_number_hi r,
     psip_vct_channel_t.program_number_lo = psip_vct_channel_t.program_number_lo r,
     psip_vct_channel_t.rsv_26_0 = take_bit 1 (psip_vct_channel_t.rsv_26_0 r),
     psip_vct_channel_t.hide_guide = take_bit 1 (psip_vct_channel_t.hide_guide r),
     psip_vct_channel_t.out_of_band = take_bit 1 (psip_vct_channel_t.out_of_band r),
     psip_vct_channel_t.path_select = take_bit 1 (psip_vct_channel_t.path_select r),
     psip_vct_channel_t.hidden = take_bit 1 (psip_vct_channel_t.hidden r),
     psip_vct_channel_t.access_controlled = take_bit 1 (psip_vct_channel_t.access_controlled r),
     psip_vct_channel_t.ETM_location = take_bit 2 (psip_vct_channel_t.ETM_location r),
     psip_vct_channel_t.service_type = take_bit 6 (psip_vct_channel_t.service_type r),
     psip_vct_channel_t.rsv_27_6 = take_bit 2 (psip_vct_channel_t.rsv_27_6 r),
     psip_vct_channel_t.source_id_hi = psip_vct_channel_t.source_id_hi r,
     psip_vct_channel_t.source_id_lo = psip_vct_channel_t.source_id_lo r,
     psip_vct_channel_t.descriptor_length_hi = take_bit 2 (psip_vct_channel_t.descriptor_length_hi r),
     psip_vct_channel_t.rsv_30_2 = take_bit 6 (psip_vct_channel_t.rsv_30_2 r),
     psip_vct_channel_t.descriptor_length_lo = psip_vct_channel_t.descriptor_length_lo r\<rparr>"

definition psip_vct_channel_bytes :: "psip_vct_channel_t \<Rightarrow> u8 list" where
  "psip_vct_channel_bytes r =
     c_array 14 (psip_vct_channel_t.short_name r) @
     [bf_pack [(4, psip_vct_channel_t.major_channel_number_hi4 r), (4, psip_vct_channel_t.rsv_14_4 r)],
      bf_pack [(2, psip_vct_channel_t.minor_channel_number_hi r), (6, psip_vct_channel_t.major_channel_number_lo6 r)],
      psip_vct_channel_t.minor_channel_number_lo r,
      psip_vct_channel_t.modulation_mode r] @
     c_array 4 (psip_vct_channel_t.carrier_frequency r) @
     [psip_vct_channel_t.channel_tsid_hi r,
      psip_vct_channel_t.channel_tsid_lo r,
      psip_vct_channel_t.program_number_hi r,
      psip_vct_channel_t.program_number_lo r,
      bf_pack [(1, psip_vct_channel_t.rsv_26_0 r), (1, psip_vct_channel_t.hide_guide r), (1, psip_vct_channel_t.out_of_band r), (1, psip_vct_channel_t.path_select r), (1, psip_vct_channel_t.hidden r), (1, psip_vct_channel_t.access_controlled r), (2, psip_vct_channel_t.ETM_location r)],
      bf_pack [(6, psip_vct_channel_t.service_type r), (2, psip_vct_channel_t.rsv_27_6 r)],
      psip_vct_channel_t.source_id_hi r,
      psip_vct_channel_t.source_id_lo r,
      bf_pack [(2, psip_vct_channel_t.descriptor_length_hi r), (6, psip_vct_channel_t.rsv_30_2 r)],
      psip_vct_channel_t.descriptor_length_lo r]"

interpretation psip_vct_channel_s: c_struct PSIP_VCT_LEN psip_vct_channel_of psip_vct_channel_bytes psip_vct_channel_norm
  by (unfold_locales, simp_all add: PSIP_VCT_LEN_def psip_vct_channel_of_def psip_vct_channel_bytes_def psip_vct_channel_norm_def struct_simps,
      (simp_all add: numeral_eq_Suc)?)

end
