(* ===== verification/Ts_Assembler.thy ===== *)
theory Ts_Assembler
  imports Crc Ts_Headers
begin

text \<open>
  The section assembler of \<^verbatim>\<open>src/src/ts.c\<close>: \<^verbatim>\<open>get_ts_packet\<close> joins the payloads of 188-byte
  transport packets into PSI sections, checks the CRC of each and queues the good ones.

  The state is \<open>mumudvb_ts_packet_t\<close> (\<^verbatim>\<open>src/src/ts.h\<close>); its mutex is left out. A transport
  packet is a list of at least 188 bytes, read with checked accesses. The results are
  \<^item> \<open>get_ts_packet buf pkt = Some (r, pkt')\<close>: the call returns \<open>r\<close> (\<open>buf = None\<close> is the
    \<^verbatim>\<open>NULL\<close> buffer that only pops),
  \<^item> \<open>None\<close>: an access out of bounds.
\<close>

section \<open>State\<close>

definition TS_PACKET_SIZE :: nat where "TS_PACKET_SIZE = 188"
definition MAX_TS_SIZE :: nat where "MAX_TS_SIZE = 4096"
definition TS_HEADER_LEN :: nat where "TS_HEADER_LEN = 5"
definition BYTES_BFR_SEC_LEN :: nat where "BYTES_BFR_SEC_LEN = 3"
definition MAX_FULL_PACKETS :: nat where "MAX_FULL_PACKETS = 15"
definition FULL_BUFFER_SIZE :: nat where "FULL_BUFFER_SIZE = 2 * MAX_TS_SIZE"

lemmas ts_sizes = TS_PACKET_SIZE_def MAX_TS_SIZE_def TS_HEADER_LEN_def BYTES_BFR_SEC_LEN_def
  MAX_FULL_PACKETS_def FULL_BUFFER_SIZE_def

datatype packet_status_t = EMPTY | PARTIAL_HEADER | STARTED | VALID

record mumudvb_ts_packet_t =
  data_full :: "u8 list"
  len_full :: nat
  full_number :: nat
  full_lengths :: "nat list"
  full_buffer_len :: nat
  buffer_full :: "u8 list"
  data_partial :: "u8 list"
  len_partial :: nat
  expected_len_partial :: nat
  status_partial :: packet_status_t
  pid :: nat
  cc :: nat

text \<open>A freshly \<^verbatim>\<open>calloc\<close>ed structure.\<close>

definition empty_ts_packet :: mumudvb_ts_packet_t where
  "empty_ts_packet = \<lparr>
     data_full = replicate MAX_TS_SIZE 0, len_full = 0, full_number = 0,
     full_lengths = replicate MAX_FULL_PACKETS 0, full_buffer_len = 0,
     buffer_full = replicate FULL_BUFFER_SIZE 0, data_partial = replicate MAX_TS_SIZE 0,
     len_partial = 0, expected_len_partial = 0, status_partial = EMPTY, pid = 0, cc = 0\<rparr>"

section \<open>Operations\<close>

text \<open>\<^verbatim>\<open>HILO(tbl_struct->section_length)\<close> through a \<^verbatim>\<open>tbl_h_t *\<close>: the bytes 1 and 2 alone are read.\<close>

definition tbl_section_length :: "u8 list \<Rightarrow> nat \<Rightarrow> nat option" where
  "tbl_section_length buf off = do {
     hi \<leftarrow> rd buf (off + 1);
     lo \<leftarrow> rd buf (off + 2);
     Some (HILO (bf_get hi 0 4) lo)}"

definition ts_move_part_to_full :: "mumudvb_ts_packet_t \<Rightarrow> mumudvb_ts_packet_t option" where
  "ts_move_part_to_full pkt =
     (if full_number pkt \<ge> MAX_FULL_PACKETS then Some pkt
      else if full_buffer_len pkt + len_partial pkt \<ge> FULL_BUFFER_SIZE
      then Some (pkt\<lparr>full_buffer_len := 0, full_number := 0, len_partial := 0,
                     status_partial := EMPTY\<rparr>)
      else do {
        xs \<leftarrow> mem_read (data_partial pkt) 0 (len_partial pkt);
        bf \<leftarrow> mem_write (buffer_full pkt) (full_buffer_len pkt) xs;
        ls \<leftarrow> wr (full_lengths pkt) (full_number pkt) (len_partial pkt);
        Some (pkt\<lparr>buffer_full := bf, full_buffer_len := full_buffer_len pkt + len_partial pkt,
                  full_lengths := ls, full_number := full_number pkt + 1,
                  len_partial := 0, status_partial := EMPTY\<rparr>)})"

definition ts_check_raw_crc32 :: "u8 list \<Rightarrow> bool option" where
  "ts_check_raw_crc32 data = do {
     table_id \<leftarrow> rd data 0;
     if table_id = 0x72 then Some True
     else do {
       sl \<leftarrow> tbl_section_length data 0;
       xs \<leftarrow> mem_read data 0 (sl + BYTES_BFR_SEC_LEN);
       Some (crc32_run 0xffffffff xs = 0)}}"

definition ts_check_crc32 :: "mumudvb_ts_packet_t \<Rightarrow> (bool \<times> mumudvb_ts_packet_t) option" where
  "ts_check_crc32 pkt = do {
     ok \<leftarrow> ts_check_raw_crc32 (data_partial pkt);
     if \<not> ok then Some (False, pkt\<lparr>status_partial := EMPTY, len_partial := 0\<rparr>)
     else Some (True, pkt\<lparr>status_partial := VALID\<rparr>)}"

definition ts_partial_full :: "mumudvb_ts_packet_t \<Rightarrow> bool \<times> mumudvb_ts_packet_t" where
  "ts_partial_full pkt =
     (if len_partial pkt \<ge> expected_len_partial pkt
      then (True, pkt\<lparr>len_partial := expected_len_partial pkt\<rparr>) else (False, pkt))"

datatype start_flag_t = NO_START | START_TS | START_SECTION

text \<open>The branch that starts a section: the packet, the bytes copied and the bytes left.\<close>

definition ts_start_section ::
  "u8 list \<Rightarrow> nat \<Rightarrow> mumudvb_ts_packet_t \<Rightarrow> nat \<Rightarrow> nat \<Rightarrow> nat \<Rightarrow>
   (mumudvb_ts_packet_t \<times> nat \<times> nat) option" where
  "ts_start_section buf off pkt data_left p c =
     (let pkt = pkt\<lparr>cc := c, pid := p\<rparr> in
      if data_left < 3 then do {
        xs \<leftarrow> mem_read buf off data_left;
        d \<leftarrow> mem_write (data_partial pkt) 0 xs;
        Some (pkt\<lparr>status_partial := PARTIAL_HEADER, data_partial := d, len_partial := data_left,
                  expected_len_partial := 0\<rparr>, 0, 0)}
      else do {
        sl \<leftarrow> tbl_section_length buf off;
        let expected = sl + BYTES_BFR_SEC_LEN;
        let copy_len = (if expected < data_left then expected else data_left);
        xs \<leftarrow> mem_read buf off copy_len;
        d \<leftarrow> mem_write (data_partial pkt) 0 xs;
        Some (pkt\<lparr>status_partial := STARTED, expected_len_partial := expected,
                  len_partial := copy_len, data_partial := d\<rparr>, copy_len, data_left - copy_len)})"

text \<open>
  Completing a split header (state \<open>PARTIAL_HEADER\<close>): the boolean is \<open>False\<close> when the C code
  returns early with the partial section dropped.
\<close>

definition ts_complete_header ::
  "u8 list \<Rightarrow> nat \<Rightarrow> mumudvb_ts_packet_t \<Rightarrow> nat \<Rightarrow> (bool \<times> mumudvb_ts_packet_t) option" where
  "ts_complete_header buf off pkt data_left =
     (if status_partial pkt \<noteq> PARTIAL_HEADER then Some (True, pkt)
      else if len_partial pkt \<ge> 3 then Some (False, pkt\<lparr>status_partial := EMPTY\<rparr>)
      else if 3 - len_partial pkt > data_left then Some (False, pkt\<lparr>status_partial := EMPTY\<rparr>)
      else do {
        xs \<leftarrow> mem_read buf off (3 - len_partial pkt);
        d \<leftarrow> mem_write (data_partial pkt) (len_partial pkt) xs;
        sl \<leftarrow> tbl_section_length d 0;
        Some (True, pkt\<lparr>data_partial := d, expected_len_partial := sl + BYTES_BFR_SEC_LEN,
                        status_partial := STARTED\<rparr>)})"

text \<open>Appending to a started section. A negative \<^verbatim>\<open>copy_len\<close> would be a \<^verbatim>\<open>memcpy\<close> of a huge size.\<close>

definition ts_append_data ::
  "u8 list \<Rightarrow> nat \<Rightarrow> mumudvb_ts_packet_t \<Rightarrow> nat \<Rightarrow> nat \<Rightarrow> mumudvb_ts_packet_t option" where
  "ts_append_data buf off pkt data_left c =
     (let copy_len = (if int (len_partial pkt) + int data_left > int (expected_len_partial pkt)
                      then int (expected_len_partial pkt) - int (len_partial pkt) else int data_left);
          copy_len = (if int (len_partial pkt) + copy_len > int MAX_TS_SIZE
                      then int MAX_TS_SIZE - int (len_partial pkt) else copy_len) in
      if copy_len < 0 then None
      else do {
        xs \<leftarrow> mem_read buf off (nat copy_len);
        d \<leftarrow> mem_write (data_partial pkt) (len_partial pkt) xs;
        Some (pkt\<lparr>data_partial := d, len_partial := len_partial pkt + nat copy_len, cc := c\<rparr>)})"

definition ts_continue_section ::
  "u8 list \<Rightarrow> nat \<Rightarrow> mumudvb_ts_packet_t \<Rightarrow> nat \<Rightarrow> nat \<Rightarrow> nat \<Rightarrow> (bool \<times> mumudvb_ts_packet_t) option" where
  "ts_continue_section buf off pkt data_left p c =
     (if status_partial pkt \<noteq> STARTED \<and> status_partial pkt \<noteq> PARTIAL_HEADER
      then Some (False, pkt\<lparr>status_partial := EMPTY\<rparr>)
      else if cc pkt = c then Some (False, pkt)
      else if (cc pkt + 1) mod 16 \<noteq> c then Some (False, pkt\<lparr>status_partial := EMPTY\<rparr>)
      else if pid pkt \<noteq> p then Some (False, pkt\<lparr>status_partial := EMPTY\<rparr>)
      else do {
        (go, pkt) \<leftarrow> ts_complete_header buf off pkt data_left;
        if \<not> go then Some (False, pkt)
        else do {
          pkt \<leftarrow> ts_append_data buf off pkt data_left c;
          Some (True, pkt)}})"

text \<open>The common tail: a full section is checked and queued.\<close>

definition ts_finish_section :: "mumudvb_ts_packet_t \<Rightarrow> mumudvb_ts_packet_t option" where
  "ts_finish_section pkt =
     (let (full, pkt) = ts_partial_full pkt in
      if \<not> full then Some pkt
      else do {
        (ok, pkt) \<leftarrow> ts_check_crc32 pkt;
        if ok then ts_move_part_to_full pkt else Some pkt})"

lemma ts_start_section_left:
  "ts_start_section buf off pkt data_left p c = Some (pkt', copy_len, left) \<Longrightarrow> left = 0 \<or> left < data_left"
  by (auto simp: ts_start_section_def Let_def BYTES_BFR_SEC_LEN_def
      split: if_splits Option.bind_splits)

function add_ts_packet_data ::
  "u8 list \<Rightarrow> nat \<Rightarrow> mumudvb_ts_packet_t \<Rightarrow> nat \<Rightarrow> start_flag_t \<Rightarrow> nat \<Rightarrow> nat \<Rightarrow>
   mumudvb_ts_packet_t option" where
  "add_ts_packet_data buf off pkt data_left start_flag p c =
     (if start_flag = START_TS \<or> start_flag = START_SECTION then
        if start_flag = START_SECTION \<and> rd buf off = None then None
        else if start_flag = START_SECTION \<and> rd buf off = Some 0xff then Some pkt
        else (case ts_start_section buf off pkt data_left p c of
            None \<Rightarrow> None
          | Some (pkt, copy_len, left) \<Rightarrow>
              if status_partial pkt = PARTIAL_HEADER then Some pkt
              else (case ts_finish_section pkt of
                  None \<Rightarrow> None
                | Some pkt \<Rightarrow>
                    if left \<noteq> 0 then add_ts_packet_data buf (off + copy_len) pkt left START_SECTION p c
                    else Some pkt))
      else do {
        (go, pkt) \<leftarrow> ts_continue_section buf off pkt data_left p c;
        if \<not> go then Some pkt
        else if status_partial pkt = PARTIAL_HEADER then Some pkt
        else ts_finish_section pkt})"
  by pat_completeness auto

termination
  by (relation "measure (\<lambda>(buf, off, pkt, data_left, sf, p, c). data_left)")
     (auto dest: ts_start_section_left)

declare add_ts_packet_data.simps [simp del]

text \<open>Handing the oldest full section to the client.\<close>

definition ts_pop_full :: "mumudvb_ts_packet_t \<Rightarrow> (bool \<times> mumudvb_ts_packet_t) option" where
  "ts_pop_full pkt =
     (if full_number pkt > 0 then do {
        len \<leftarrow> rd (full_lengths pkt) 0;
        xs \<leftarrow> mem_read (buffer_full pkt) 0 len;
        d \<leftarrow> mem_write (data_full pkt) 0 xs;
        if full_buffer_len pkt < len then None
        else do {
          let pkt = pkt\<lparr>len_full := len, data_full := d, full_number := full_number pkt - 1,
                        full_buffer_len := full_buffer_len pkt - len\<rparr>;
          if full_number pkt > 0 then do {
            ys \<leftarrow> mem_read (buffer_full pkt) len (full_buffer_len pkt);
            bf \<leftarrow> mem_write (buffer_full pkt) 0 ys;
            ls \<leftarrow> mem_read (full_lengths pkt) 1 (MAX_FULL_PACKETS - 1);
            fl \<leftarrow> mem_write (full_lengths pkt) 0 ls;
            Some (True, pkt\<lparr>buffer_full := bf, full_lengths := fl\<rparr>)}
          else Some (True, pkt)}}
      else Some (False, pkt))"

definition is_pes_start :: "u8 list \<Rightarrow> nat \<Rightarrow> bool option" where
  "is_pes_start buf off = do {
     a \<leftarrow> rd buf off;
     if a \<noteq> 0 then Some False
     else do {
       b \<leftarrow> rd buf (off + 1);
       if b \<noteq> 0 then Some False
       else do {
         c \<leftarrow> rd buf (off + 2);
         Some (c = 1)}}}"

text \<open>The offset of the payload, or \<open>None\<close> inside when the packet is to be ignored.\<close>

definition ts_payload_offset :: "u8 list \<Rightarrow> ts_header_t \<Rightarrow> nat option option" where
  "ts_payload_offset buf header =
     (let offset = TS_HEADER_LEN - 1; af = ts_header_t.adaptation_field_control header in
      do {
        r \<leftarrow> (if af AND 2 \<noteq> 0 then do {
               l \<leftarrow> rd buf offset;
               let offset = offset + unat l + 1;
               if offset \<ge> TS_PACKET_SIZE then Some None else Some (Some offset)}
             else if af AND 1 \<noteq> 0 then do {
               pes \<leftarrow> is_pes_start buf offset;
               Some (if pes then None else Some offset)}
             else Some (Some offset));
        Some (if af = 2 then None else r)})"

definition ts_header_pid :: "ts_header_t \<Rightarrow> nat" where
  "ts_header_pid h = HILO (ts_header_t.pid_hi h) (ts_header_t.pid_lo h)"

text \<open>The part of \<^verbatim>\<open>get_ts_packet\<close> that follows the hand-over: parsing the transport packet.\<close>

definition ts_feed ::
  "u8 list \<Rightarrow> bool \<Rightarrow> mumudvb_ts_packet_t \<Rightarrow> (bool \<times> mumudvb_ts_packet_t) option" where
  "ts_feed buf avail pkt = do {
     header \<leftarrow> struct_at sizeof_ts_header_t ts_header_of buf 0;
     let buf_pid = ts_header_pid header;
     let c = unat (ts_header_t.continuity_counter header);
     po \<leftarrow> ts_payload_offset buf header;
     case po of None \<Rightarrow> Some (full_number pkt > 0, pkt)
     | Some offset \<Rightarrow>
         if ts_header_t.payload_unit_start_indicator header \<noteq> 0 then do {
           pf \<leftarrow> rd buf offset;
           let pointer_field = unat pf;
           let offset = offset + 1;
           if pointer_field \<noteq> 0 \<and> offset + pointer_field > TS_PACKET_SIZE
           then do {
             let pkt = pkt\<lparr>status_partial := EMPTY\<rparr>;
             Some (full_number pkt > 0, pkt)}
           else do {
             pkt \<leftarrow> (if pointer_field \<noteq> 0
                    then add_ts_packet_data buf offset pkt pointer_field NO_START buf_pid c
                    else Some pkt);
             let offset = offset + pointer_field;
             pkt \<leftarrow> add_ts_packet_data buf offset pkt (TS_PACKET_SIZE - offset) START_TS buf_pid c;
             Some (avail, pkt)}}
         else do {
           pkt \<leftarrow> add_ts_packet_data buf offset pkt (TS_PACKET_SIZE - offset) NO_START buf_pid c;
           Some (avail, pkt)}}"

definition get_ts_packet ::
  "u8 list option \<Rightarrow> mumudvb_ts_packet_t \<Rightarrow> (bool \<times> mumudvb_ts_packet_t) option" where
  "get_ts_packet buf0 pkt = do {
     (packet_avail, pkt) \<leftarrow> ts_pop_full pkt;
     case buf0 of None \<Rightarrow> Some (packet_avail, pkt)
     | Some buf \<Rightarrow> ts_feed buf packet_avail pkt}"

text \<open>
  \<^verbatim>\<open>get_ts_begin\<close>: the offset in the packet of its first section, \<open>Some None\<close> for the \<^verbatim>\<open>NULL\<close>
  that says there is none.
\<close>

definition ts_begin_at :: "u8 list \<Rightarrow> ts_header_t \<Rightarrow> nat \<Rightarrow> nat option option" where
  "ts_begin_at b header delta = do {
     let af = ts_header_t.adaptation_field_control header;
     pes \<leftarrow> (if af AND 1 \<noteq> 0 then is_pes_start b delta else Some False);
     if pes then Some None
     else if af = 2 \<or> af = 0 then Some None
     else if ts_header_t.payload_unit_start_indicator header \<noteq> 0 then do {
       pf \<leftarrow> rd b delta;
       if delta + 1 + unat pf > TS_PACKET_SIZE then Some None
       else Some (Some (delta + 1 + unat pf))}
     else Some None}"

definition get_ts_begin :: "u8 list \<Rightarrow> nat option option" where
  "get_ts_begin b = do {
     header \<leftarrow> struct_at sizeof_ts_header_t ts_header_of b 0;
     let delta = TS_HEADER_LEN - 1;
     if ts_header_t.adaptation_field_control header AND 2 \<noteq> 0 then do {
       l \<leftarrow> rd b delta;
       if delta + unat l > TS_PACKET_SIZE then Some None
       else ts_begin_at b header (delta + unat l + 1)}
     else ts_begin_at b header delta}"

section \<open>The queue of full sections\<close>

text \<open>
  The abstract state is the list of queued sections: the bytes of \<open>buffer_full\<close> cut at the
  lengths of \<open>full_lengths\<close>.
\<close>

primrec split_sections :: "nat list \<Rightarrow> 'a list \<Rightarrow> 'a list list" where
  "split_sections [] b = []"
| "split_sections (n # ns) b = take n b # split_sections ns (drop n b)"

definition full_sections :: "mumudvb_ts_packet_t \<Rightarrow> u8 list list" where
  "full_sections pkt = split_sections (take (full_number pkt) (full_lengths pkt)) (buffer_full pkt)"

definition section_ok :: "u8 list \<Rightarrow> bool" where
  "section_ok s \<longleftrightarrow> 3 \<le> length s \<and> length s \<le> MAX_TS_SIZE \<and>
     length s = HILO (bf_get (s ! 1) 0 4) (s ! 2) + BYTES_BFR_SEC_LEN \<and>
     (s ! 0 = 0x72 \<or> crc32_run 0xffffffff s = 0)"

definition ts_bufs :: "mumudvb_ts_packet_t \<Rightarrow> bool" where
  "ts_bufs pkt \<longleftrightarrow> length (data_full pkt) = MAX_TS_SIZE \<and> length (data_partial pkt) = MAX_TS_SIZE \<and>
     length (buffer_full pkt) = FULL_BUFFER_SIZE \<and> length (full_lengths pkt) = MAX_FULL_PACKETS"

definition queue_inv :: "mumudvb_ts_packet_t \<Rightarrow> bool" where
  "queue_inv pkt \<longleftrightarrow> ts_bufs pkt \<and> full_number pkt \<le> MAX_FULL_PACKETS \<and>
     full_buffer_len pkt = sum_list (take (full_number pkt) (full_lengths pkt)) \<and>
     full_buffer_len pkt < FULL_BUFFER_SIZE \<and>
     (\<forall>s \<in> set (full_sections pkt). section_ok s)"

definition partial_expected :: "mumudvb_ts_packet_t \<Rightarrow> nat" where
  "partial_expected pkt =
     HILO (bf_get (data_partial pkt ! 1) 0 4) (data_partial pkt ! 2) + BYTES_BFR_SEC_LEN"

definition partial_inv :: "mumudvb_ts_packet_t \<Rightarrow> bool" where
  "partial_inv pkt \<longleftrightarrow>
     (status_partial pkt = PARTIAL_HEADER \<longrightarrow> len_partial pkt < 3) \<and>
     (status_partial pkt = STARTED \<longrightarrow>
        3 \<le> len_partial pkt \<and> len_partial pkt \<le> MAX_TS_SIZE \<and>
        len_partial pkt < expected_len_partial pkt \<and>
        expected_len_partial pkt = partial_expected pkt)"

definition ts_inv :: "mumudvb_ts_packet_t \<Rightarrow> bool" where
  "ts_inv pkt \<longleftrightarrow> queue_inv pkt \<and> partial_inv pkt"

lemma split_sections_append:
  "split_sections (ns @ ms) b = split_sections ns b @ split_sections ms (drop (sum_list ns) b)"
  by (induction ns arbitrary: b) (simp_all add: add.commute)

lemma split_sections_cong:
  "take (sum_list ns) b = take (sum_list ns) b' \<Longrightarrow> split_sections ns b = split_sections ns b'"
proof (induction ns arbitrary: b b')
  case (Cons n ns)
  have eq: "take (n + sum_list ns) b = take (n + sum_list ns) b'"
    using Cons.prems by simp
  have "take n (take (n + sum_list ns) b) = take n (take (n + sum_list ns) b')"
    by (simp only: eq)
  then have "take n b = take n b'" by simp
  moreover have "drop n (take (n + sum_list ns) b) = drop n (take (n + sum_list ns) b')"
    by (simp only: eq)
  then have "take (sum_list ns) (drop n b) = take (sum_list ns) (drop n b')"
    by (simp add: drop_take)
  ultimately show ?case using Cons.IH [of "drop n b" "drop n b'"] by simp
qed simp

lemma split_sections_lengths:
  "sum_list ns \<le> length b \<Longrightarrow> map length (split_sections ns b) = ns"
  by (induction ns arbitrary: b) auto

lemma split_sections_concat: "concat (split_sections ns b) = take (sum_list ns) b"
  by (induction ns arbitrary: b) (auto simp: take_add)

lemma length_split_sections [simp]: "length (split_sections ns b) = length ns"
  by (induction ns arbitrary: b) auto

lemma full_sections_lengths:
  "queue_inv pkt \<Longrightarrow> map length (full_sections pkt) = take (full_number pkt) (full_lengths pkt)"
  by (auto simp: full_sections_def queue_inv_def ts_bufs_def intro!: split_sections_lengths)

lemma length_full_sections:
  "queue_inv pkt \<Longrightarrow> length (full_sections pkt) = full_number pkt"
  by (auto simp: full_sections_def queue_inv_def ts_bufs_def)

lemma full_sections_more [simp]:
  "full_sections (pkt\<lparr>data_partial := d\<rparr>) = full_sections pkt"
  "full_sections (pkt\<lparr>len_partial := l\<rparr>) = full_sections pkt"
  "full_sections (pkt\<lparr>expected_len_partial := e\<rparr>) = full_sections pkt"
  "full_sections (pkt\<lparr>status_partial := st\<rparr>) = full_sections pkt"
  "full_sections (pkt\<lparr>pid := p\<rparr>) = full_sections pkt"
  "full_sections (pkt\<lparr>cc := c\<rparr>) = full_sections pkt"
  by (simp_all add: full_sections_def)

lemma queue_inv_more [simp]:
  "length d = MAX_TS_SIZE \<Longrightarrow> queue_inv pkt \<Longrightarrow> queue_inv (pkt\<lparr>data_partial := d\<rparr>)"
  "queue_inv (pkt\<lparr>len_partial := l\<rparr>) = queue_inv pkt"
  "queue_inv (pkt\<lparr>expected_len_partial := e\<rparr>) = queue_inv pkt"
  "queue_inv (pkt\<lparr>status_partial := st\<rparr>) = queue_inv pkt"
  "queue_inv (pkt\<lparr>pid := p\<rparr>) = queue_inv pkt"
  "queue_inv (pkt\<lparr>cc := c\<rparr>) = queue_inv pkt"
  by (simp_all add: queue_inv_def ts_bufs_def)

lemma ts_inv_empty: "ts_inv empty_ts_packet"
  by (simp add: ts_inv_def queue_inv_def ts_bufs_def partial_inv_def empty_ts_packet_def
      full_sections_def ts_sizes)

lemma full_sections_empty: "full_sections empty_ts_packet = []"
  by (simp add: full_sections_def empty_ts_packet_def)

subsection \<open>Queueing a section\<close>

lemma ts_move_part_to_full_append:
  assumes inv: "queue_inv pkt" and n: "len_partial pkt \<le> MAX_TS_SIZE"
    and room: "full_number pkt < MAX_FULL_PACKETS"
      "full_buffer_len pkt + len_partial pkt < FULL_BUFFER_SIZE"
    and ok: "section_ok (take (len_partial pkt) (data_partial pkt))"
  shows "\<exists>pkt'. ts_move_part_to_full pkt = Some pkt' \<and> queue_inv pkt' \<and> status_partial pkt' = EMPTY \<and>
     full_sections pkt' = full_sections pkt @ [take (len_partial pkt) (data_partial pkt)]"
proof -
  define s where "s = take (len_partial pkt) (data_partial pkt)"
  define k where "k = full_buffer_len pkt"
  have lens: "length (data_partial pkt) = MAX_TS_SIZE" "length (buffer_full pkt) = FULL_BUFFER_SIZE"
      "length (full_lengths pkt) = MAX_FULL_PACKETS"
    using inv by (simp_all add: queue_inv_def ts_bufs_def)
  have k: "k = sum_list (take (full_number pkt) (full_lengths pkt))"
    using inv by (simp add: queue_inv_def k_def)
  have ls: "length s = len_partial pkt" using n lens by (simp add: s_def)
  define b' where "b' = take k (buffer_full pkt) @ s @ drop (k + length s) (buffer_full pkt)"
  define fl where "fl = (full_lengths pkt)[full_number pkt := len_partial pkt]"
  define pkt' where "pkt' = pkt\<lparr>buffer_full := b', full_buffer_len := k + len_partial pkt,
     full_lengths := fl, full_number := full_number pkt + 1, len_partial := 0, status_partial := EMPTY\<rparr>"
  have eq: "ts_move_part_to_full pkt = Some pkt'"
    using room n lens ls
    by (simp add: ts_move_part_to_full_def mem_simps pkt'_def b'_def fl_def k_def s_def)
  have tk: "take (Suc (full_number pkt)) fl = take (full_number pkt) (full_lengths pkt) @ [len_partial pkt]"
    using room lens by (simp add: fl_def take_Suc_conv_app_nth)
  have "full_sections pkt' = full_sections pkt @ [s]"
  proof -
    have "k \<le> length (buffer_full pkt)" using room lens by (simp add: k_def)
    then have "split_sections (take (full_number pkt) (full_lengths pkt)) b' = full_sections pkt"
      unfolding full_sections_def by (intro split_sections_cong) (simp add: b'_def k)
    moreover have "take (len_partial pkt) (drop k b') = s"
      using \<open>k \<le> length (buffer_full pkt)\<close> by (simp add: b'_def ls)
    ultimately show ?thesis by (simp add: full_sections_def pkt'_def tk split_sections_append flip: k)
  qed
  moreover have "queue_inv pkt'"
    unfolding queue_inv_def calculation
  proof (intro conjI ballI)
    show "ts_bufs pkt'" using inv room lens ls
      by (simp add: queue_inv_def ts_bufs_def pkt'_def b'_def fl_def k_def)
    show "full_buffer_len pkt' = sum_list (take (full_number pkt') (full_lengths pkt'))"
      using tk k by (simp add: pkt'_def)
  next
    fix t assume "t \<in> set (full_sections pkt @ [s])"
    then show "section_ok t" using inv ok by (auto simp: queue_inv_def s_def)
  qed (use room in \<open>simp_all add: pkt'_def k_def\<close>)
  ultimately show ?thesis using eq by (auto simp: pkt'_def s_def)
qed

lemma full_buffer_len_sections:
  "queue_inv pkt \<Longrightarrow> full_buffer_len pkt = sum_list (map length (full_sections pkt))"
  by (simp add: full_sections_lengths) (simp add: queue_inv_def)

lemma ts_check_raw_crc32_section:
  assumes "length d = MAX_TS_SIZE" "e = HILO (bf_get (d ! 1) 0 4) (d ! 2) + BYTES_BFR_SEC_LEN"
    "e \<le> MAX_TS_SIZE"
  shows "ts_check_raw_crc32 d = Some (section_ok (take e d))"
  using assms
  by (auto simp: ts_check_raw_crc32_def tbl_section_length_def mem_simps section_ok_def ts_sizes
      numeral_2_eq_2)

text \<open>
  What adding \<open>n\<close> bytes of payload may do to the packet: the invariant is kept, the section
  handed to the client is left alone, and unless the full buffer overflows the queue only grows,
  by at most \<open>n\<close> bytes.
\<close>

definition queue_extends :: "mumudvb_ts_packet_t \<Rightarrow> mumudvb_ts_packet_t \<Rightarrow> nat \<Rightarrow> bool" where
  "queue_extends pkt pkt' n \<longleftrightarrow>
     (full_buffer_len pkt + n < FULL_BUFFER_SIZE \<longrightarrow>
        (\<exists>new. full_sections pkt' = full_sections pkt @ new \<and> sum_list (map length new) \<le> n))"

definition adds :: "mumudvb_ts_packet_t \<Rightarrow> mumudvb_ts_packet_t \<Rightarrow> nat \<Rightarrow> bool" where
  "adds pkt pkt' n \<longleftrightarrow> ts_inv pkt' \<and> data_full pkt' = data_full pkt \<and> len_full pkt' = len_full pkt \<and>
     queue_extends pkt pkt' n"

lemma adds_same:
  "ts_inv pkt' \<Longrightarrow> data_full pkt' = data_full pkt \<Longrightarrow> len_full pkt' = len_full pkt \<Longrightarrow>
   full_sections pkt' = full_sections pkt \<Longrightarrow> adds pkt pkt' n"
  by (auto simp: adds_def queue_extends_def intro: exI [of _ "[]"])

lemma adds_mono: "adds pkt pkt' n \<Longrightarrow> n \<le> m \<Longrightarrow> adds pkt pkt' m"
  by (fastforce simp: adds_def queue_extends_def)

lemma adds_trans:
  assumes 1: "adds pkt pkt1 n" and 2: "adds pkt1 pkt2 m" and inv: "queue_inv pkt"
  shows "adds pkt pkt2 (n + m)"
proof -
  have "queue_extends pkt pkt2 (n + m)"
    unfolding queue_extends_def
  proof
    assume room: "full_buffer_len pkt + (n + m) < FULL_BUFFER_SIZE"
    then obtain new1 where n1: "full_sections pkt1 = full_sections pkt @ new1"
        "sum_list (map length new1) \<le> n"
      using 1 by (auto simp: adds_def queue_extends_def)
    have "queue_inv pkt1" using 1 by (simp add: adds_def ts_inv_def)
    then have "full_buffer_len pkt1 + m < FULL_BUFFER_SIZE"
      using room n1 inv by (simp add: full_buffer_len_sections)
    then obtain new2 where "full_sections pkt2 = full_sections pkt1 @ new2"
        "sum_list (map length new2) \<le> m"
      using 2 by (auto simp: adds_def queue_extends_def)
    with n1 show "\<exists>new. full_sections pkt2 = full_sections pkt @ new \<and> sum_list (map length new) \<le> n + m"
      by (intro exI [of _ "new1 @ new2"]) simp
  qed
  with 1 2 show ?thesis by (simp add: adds_def)
qed

definition started :: "mumudvb_ts_packet_t \<Rightarrow> bool" where
  "started pkt \<longleftrightarrow> status_partial pkt = STARTED \<and> 3 \<le> len_partial pkt \<and>
     len_partial pkt \<le> MAX_TS_SIZE \<and> len_partial pkt \<le> expected_len_partial pkt \<and>
     expected_len_partial pkt = partial_expected pkt"

lemma ts_finish_partial:
  "len_partial pkt < expected_len_partial pkt \<Longrightarrow> ts_finish_section pkt = Some pkt"
  by (simp add: ts_finish_section_def ts_partial_full_def)

lemma ts_finish_full:
  assumes inv: "queue_inv pkt" and st: "started pkt" and full: "len_partial pkt = expected_len_partial pkt"
  shows "ts_finish_section pkt =
    (if section_ok (take (len_partial pkt) (data_partial pkt))
     then ts_move_part_to_full (pkt\<lparr>status_partial := VALID\<rparr>)
     else Some (pkt\<lparr>status_partial := EMPTY, len_partial := 0\<rparr>))"
proof -
  have "ts_partial_full pkt = (True, pkt)"
    using full by (simp add: ts_partial_full_def)
  moreover have "ts_check_raw_crc32 (data_partial pkt) =
      Some (section_ok (take (len_partial pkt) (data_partial pkt)))"
    using inv st full
    by (intro ts_check_raw_crc32_section)
       (auto simp: queue_inv_def ts_bufs_def started_def partial_expected_def)
  ultimately show ?thesis
    by (simp add: ts_finish_section_def ts_check_crc32_def)
qed

lemma ts_move_part_to_full_frame:
  "ts_move_part_to_full pkt = Some pkt' \<Longrightarrow> data_full pkt' = data_full pkt \<and> len_full pkt' = len_full pkt"
  by (auto simp: ts_move_part_to_full_def split: if_splits Option.bind_splits)

lemma ts_finish_section_adds:
  assumes inv: "queue_inv pkt" and st: "started pkt"
  shows "\<exists>pkt'. ts_finish_section pkt = Some pkt' \<and> adds pkt pkt' (len_partial pkt)"
proof (cases "len_partial pkt < expected_len_partial pkt")
  case True
  then have "ts_inv pkt" using inv st by (auto simp: ts_inv_def partial_inv_def started_def)
  then show ?thesis using True by (auto simp: ts_finish_partial intro: adds_same)
next
  case False
  then have full: "len_partial pkt = expected_len_partial pkt" using st by (simp add: started_def)
  show ?thesis
  proof (cases "section_ok (take (len_partial pkt) (data_partial pkt))")
    case bad: False
    then show ?thesis using inv
      by (auto simp: ts_finish_full [OF inv st full] ts_inv_def partial_inv_def intro!: adds_same)
  next
    case ok: True
    let ?v = "pkt\<lparr>status_partial := VALID\<rparr>"
    have fin: "ts_finish_section pkt = ts_move_part_to_full ?v"
      using ok by (simp add: ts_finish_full [OF inv st full])
    consider (slots) "full_number pkt \<ge> MAX_FULL_PACKETS"
      | (over) "full_number pkt < MAX_FULL_PACKETS"
          "full_buffer_len pkt + len_partial pkt \<ge> FULL_BUFFER_SIZE"
      | (room) "full_number pkt < MAX_FULL_PACKETS"
          "full_buffer_len pkt + len_partial pkt < FULL_BUFFER_SIZE" by linarith
    then show ?thesis
    proof cases
      case slots
      then have "ts_move_part_to_full ?v = Some ?v" by (simp add: ts_move_part_to_full_def)
      then show ?thesis using inv fin
        by (auto simp: ts_inv_def partial_inv_def intro!: adds_same)
    next
      case over
      let ?e = "?v\<lparr>full_buffer_len := 0, full_number := 0, len_partial := 0, status_partial := EMPTY\<rparr>"
      have "ts_move_part_to_full ?v = Some ?e" using over by (simp add: ts_move_part_to_full_def)
      moreover have "ts_inv ?e"
        using inv by (simp add: ts_inv_def queue_inv_def ts_bufs_def partial_inv_def full_sections_def ts_sizes)
      ultimately show ?thesis using fin over by (auto simp: adds_def queue_extends_def)
    next
      case room
      then obtain pkt' where mv: "ts_move_part_to_full ?v = Some pkt'" and "queue_inv pkt'"
          "status_partial pkt' = EMPTY"
          "full_sections pkt' = full_sections pkt @ [take (len_partial pkt) (data_partial pkt)]"
        using ts_move_part_to_full_append [of ?v] inv st ok by (auto simp: started_def)
      then show ?thesis using fin ts_move_part_to_full_frame [OF mv]
        by (auto simp: adds_def queue_extends_def ts_inv_def partial_inv_def)
    qed
  qed
qed

subsection \<open>Starting and continuing a section\<close>

text \<open>\<open>same_queue\<close>: the operation only touched the partial section.\<close>

definition same_queue :: "mumudvb_ts_packet_t \<Rightarrow> mumudvb_ts_packet_t \<Rightarrow> bool" where
  "same_queue pkt pkt' \<longleftrightarrow> queue_inv pkt' \<and> full_sections pkt' = full_sections pkt \<and>
     data_full pkt' = data_full pkt \<and> len_full pkt' = len_full pkt"

lemma same_queue_refl: "queue_inv pkt \<Longrightarrow> same_queue pkt pkt"
  by (simp add: same_queue_def)

lemma adds_same_queue: "same_queue pkt pkt' \<Longrightarrow> partial_inv pkt' \<Longrightarrow> adds pkt pkt' n"
  by (rule adds_same) (auto simp: same_queue_def ts_inv_def)

lemma same_queue_adds:
  assumes "same_queue pkt pkt1" "adds pkt1 pkt2 n" "queue_inv pkt"
  shows "adds pkt pkt2 n"
proof -
  have "full_buffer_len pkt1 = full_buffer_len pkt"
    using assms by (simp add: same_queue_def full_buffer_len_sections)
  then show ?thesis using assms by (simp add: adds_def queue_extends_def same_queue_def)
qed

lemma tbl_section_length_in:
  "off + 3 \<le> length buf \<Longrightarrow>
   tbl_section_length buf off = Some (HILO (bf_get (buf ! (off + 1)) 0 4) (buf ! (off + 2)))"
  by (simp add: tbl_section_length_def mem_simps)

lemma section_length_lt: "HILO (bf_get hi 0 4) lo + BYTES_BFR_SEC_LEN < 4099"
  using HILO_get4 [of hi lo] by (simp add: BYTES_BFR_SEC_LEN_def)

lemma ts_start_section_spec:
  assumes inv: "queue_inv pkt" and b: "off + left \<le> length buf" "left \<le> TS_PACKET_SIZE"
  obtains pkt' copy_len left' where "ts_start_section buf off pkt left p c = Some (pkt', copy_len, left')"
    "same_queue pkt pkt'" "pid pkt' = p" "cc pkt' = c"
    "(left < 3 \<and> status_partial pkt' = PARTIAL_HEADER \<and> len_partial pkt' = left \<and> left' = 0 \<and>
        take left (data_partial pkt') = take left (drop off buf)) \<or>
     (3 \<le> left \<and> started pkt' \<and> len_partial pkt' = copy_len \<and> copy_len + left' = left \<and>
        copy_len = min (expected_len_partial pkt') left \<and>
        expected_len_partial pkt' = HILO (bf_get (buf ! (off + 1)) 0 4) (buf ! (off + 2)) + 3 \<and>
        take copy_len (data_partial pkt') = take copy_len (drop off buf))"
proof (cases "left < 3")
  case True
  have len: "length (data_partial pkt) = MAX_TS_SIZE" using inv by (simp add: queue_inv_def ts_bufs_def)
  let ?d = "take left (drop off buf) @ drop left (data_partial pkt)"
  have "ts_start_section buf off pkt left p c =
      Some (pkt\<lparr>cc := c, pid := p, status_partial := PARTIAL_HEADER, data_partial := ?d, len_partial := left,
                expected_len_partial := 0\<rparr>, 0, 0)"
    using True b len by (simp add: ts_start_section_def mem_simps ts_sizes)
  then show thesis
    using that True b len inv by (simp add: same_queue_def ts_sizes)
next
  case False
  have len: "length (data_partial pkt) = MAX_TS_SIZE" using inv by (simp add: queue_inv_def ts_bufs_def)
  define e where "e = HILO (bf_get (buf ! (off + 1)) 0 4) (buf ! (off + 2)) + BYTES_BFR_SEC_LEN"
  define n where "n = min e left"
  have e3: "3 \<le> e" "n \<le> left" by (simp_all add: e_def BYTES_BFR_SEC_LEN_def n_def)
  have n3: "3 \<le> n" "n \<le> MAX_TS_SIZE" using False e3 b by (simp_all add: n_def ts_sizes)
  define d where "d = take n (drop off buf) @ drop n (data_partial pkt)"
  define pkt' where "pkt' = pkt\<lparr>cc := c, pid := p, status_partial := STARTED, expected_len_partial := e,
      len_partial := n, data_partial := d\<rparr>"
  define sl where "sl = HILO (bf_get (buf ! (off + 1)) 0 4) (buf ! (off + 2))"
  have e_sl: "sl + BYTES_BFR_SEC_LEN = e" by (simp add: e_def sl_def)
  have "tbl_section_length buf off = Some sl"
    using False b by (simp add: tbl_section_length_in sl_def)
  moreover have "(if e < left then e else left) = n" by (simp add: n_def)
  moreover have "mem_write (data_partial pkt) 0 (take n (drop off buf)) = Some d"
    using b len n3 e3 by (simp add: mem_write_in d_def)
  ultimately have "ts_start_section buf off pkt left p c = Some (pkt', n, left - n)"
    using False b e3
    by (simp add: ts_start_section_def mem_simps e_sl pkt'_def split del: if_split)
  moreover have dl: "length d = MAX_TS_SIZE" using b n3 e3 len by (simp add: d_def)
  moreover have "same_queue pkt pkt'" using inv dl by (simp add: same_queue_def pkt'_def)
  moreover have "d ! 1 = buf ! (off + 1)" "d ! 2 = buf ! (off + 2)"
    using n3 e3 b by (simp_all add: d_def nth_append)
  then have "started pkt'"
    using n3 e3 by (simp add: started_def pkt'_def partial_expected_def e_def n_def numeral_2_eq_2)
  ultimately show thesis
    using that [of pkt' n "left - n"] False e3 b
    by (auto simp: pkt'_def n_def d_def e_def BYTES_BFR_SEC_LEN_def)
qed

lemma partial_expected_prefix:
  "3 \<le> n \<Longrightarrow> take n (data_partial pkt') = take n (data_partial pkt) \<Longrightarrow>
   partial_expected pkt' = partial_expected pkt"
proof -
  assume n: "3 \<le> n" and eq: "take n (data_partial pkt') = take n (data_partial pkt)"
  have "take n (data_partial pkt') ! k = take n (data_partial pkt) ! k" for k by (simp add: eq)
  from this [of 1] this [of 2] n show ?thesis by (simp add: partial_expected_def)
qed

lemma ts_append_data_spec:
  assumes inv: "queue_inv pkt" and st: "status_partial pkt = STARTED"
    and le: "len_partial pkt \<le> MAX_TS_SIZE" "len_partial pkt \<le> expected_len_partial pkt"
    and b: "off + left \<le> length buf"
  shows "\<exists>pkt'. ts_append_data buf off pkt left c = Some pkt' \<and> same_queue pkt pkt' \<and>
     status_partial pkt' = STARTED \<and> pid pkt' = pid pkt \<and> cc pkt' = c \<and>
     expected_len_partial pkt' = expected_len_partial pkt \<and>
     len_partial pkt' = min (min (len_partial pkt + left) (expected_len_partial pkt)) MAX_TS_SIZE \<and>
     take (len_partial pkt') (data_partial pkt') =
       take (len_partial pkt) (data_partial pkt) @ take (len_partial pkt' - len_partial pkt) (drop off buf)"
proof -
  have len: "length (data_partial pkt) = MAX_TS_SIZE" using inv by (simp add: queue_inv_def ts_bufs_def)
  define n where "n = min (min (len_partial pkt + left) (expected_len_partial pkt)) MAX_TS_SIZE"
  define k where "k = n - len_partial pkt"
  have n: "n = len_partial pkt + k" "k \<le> left" "n \<le> MAX_TS_SIZE" using le by (auto simp: n_def k_def)
  define d where "d = take (len_partial pkt) (data_partial pkt) @ take k (drop off buf) @ drop n (data_partial pkt)"
  have ic: "(let copy_len = (if int (len_partial pkt) + int left > int (expected_len_partial pkt)
                      then int (expected_len_partial pkt) - int (len_partial pkt) else int left)
         in if int (len_partial pkt) + copy_len > int MAX_TS_SIZE
            then int MAX_TS_SIZE - int (len_partial pkt) else copy_len) = int k"
    using le by (auto simp: k_def n_def Let_def)
  have "mem_write (data_partial pkt) (len_partial pkt) (take k (drop off buf)) = Some d"
    using b n len by (simp add: mem_write_in d_def)
  then have "ts_append_data buf off pkt left c =
      Some (pkt\<lparr>data_partial := d, len_partial := n, cc := c\<rparr>)"
    using ic b n by (simp add: ts_append_data_def Let_def mem_simps split del: if_split)
  moreover have "length d = MAX_TS_SIZE" using len n b by (simp add: d_def)
  moreover have "take n d = take (len_partial pkt) (data_partial pkt) @ take k (drop off buf)"
    using len n b by (simp add: d_def)
  ultimately show ?thesis using inv st n by (simp add: same_queue_def n_def [symmetric])
qed

lemma ts_complete_header_spec:
  assumes inv: "queue_inv pkt" "partial_inv pkt"
    and st: "status_partial pkt = STARTED \<or> status_partial pkt = PARTIAL_HEADER"
    and b: "off + left \<le> length buf"
  shows "\<exists>go pkt'. ts_complete_header buf off pkt left = Some (go, pkt') \<and> same_queue pkt pkt' \<and>
     pid pkt' = pid pkt \<and> cc pkt' = cc pkt \<and> len_partial pkt' = len_partial pkt \<and>
     (if status_partial pkt = STARTED \<or> len_partial pkt + left \<ge> 3
      then go \<and> status_partial pkt' = STARTED \<and> expected_len_partial pkt' = partial_expected pkt' \<and>
           len_partial pkt \<le> expected_len_partial pkt' \<and>
           take (len_partial pkt) (data_partial pkt') = take (len_partial pkt) (data_partial pkt) \<and>
           (status_partial pkt = STARTED \<longrightarrow> data_partial pkt' = data_partial pkt) \<and>
           (status_partial pkt = PARTIAL_HEADER \<longrightarrow> take 3 (data_partial pkt') =
               take 3 (take (len_partial pkt) (data_partial pkt) @ drop off buf))
      else \<not> go \<and> status_partial pkt' = EMPTY)"
proof (cases "status_partial pkt = STARTED")
  case True
  then show ?thesis using inv
    by (auto simp: ts_complete_header_def same_queue_refl partial_inv_def)
next
  case False
  then have ph: "status_partial pkt = PARTIAL_HEADER" using st by simp
  then have l3: "len_partial pkt < 3" using inv by (simp add: partial_inv_def)
  have len: "length (data_partial pkt) = MAX_TS_SIZE" using inv by (simp add: queue_inv_def ts_bufs_def)
  show ?thesis
  proof (cases "len_partial pkt + left \<ge> 3")
    case short: False
    then show ?thesis using ph l3 inv
      by (auto simp: ts_complete_header_def same_queue_def)
  next
    case room: True
    define d where "d = take (len_partial pkt) (data_partial pkt) @ take (3 - len_partial pkt) (drop off buf) @
        drop 3 (data_partial pkt)"
    have w: "mem_write (data_partial pkt) (len_partial pkt) (take (3 - len_partial pkt) (drop off buf)) = Some d"
      using b l3 len room by (simp add: mem_write_in d_def ts_sizes)
    have ld: "length d = MAX_TS_SIZE" using len l3 b room by (simp add: d_def ts_sizes)
    have t3: "take 3 d = take 3 (take (len_partial pkt) (data_partial pkt) @ drop off buf)"
      using len l3 b room by (simp add: d_def ts_sizes)
    have tl: "take (len_partial pkt) d = take (len_partial pkt) (data_partial pkt)"
      using len l3 by (simp add: d_def ts_sizes)
    define pkt' where "pkt' = pkt\<lparr>data_partial := d,
        expected_len_partial := HILO (bf_get (d ! 1) 0 4) (d ! 2) + BYTES_BFR_SEC_LEN,
        status_partial := STARTED\<rparr>"
    have nl: "\<not> left < 3 - len_partial pkt" "off + (3 - len_partial pkt) \<le> length buf"
      using room b by linarith+
    have "ts_complete_header buf off pkt left = Some (True, pkt')"
      using ph l3 w ld nl
      by (simp add: ts_complete_header_def mem_simps tbl_section_length_in ts_sizes pkt'_def
          numeral_2_eq_2)
    moreover have "same_queue pkt pkt'" "partial_expected pkt' = expected_len_partial pkt'"
      using inv ld by (simp_all add: same_queue_def pkt'_def partial_expected_def)
    ultimately show ?thesis
      using ph l3 room t3 tl
      by (intro exI [of _ True] exI [of _ pkt']) (simp add: pkt'_def BYTES_BFR_SEC_LEN_def)
  qed
qed

lemma take_prefix_eq: "take n xs = take n ys \<Longrightarrow> m \<le> n \<Longrightarrow> take m xs = take m ys"
  by (metis min.absorb1 take_take)

lemma ts_append_header:
  assumes "take n d2 = take l d1 @ take (n - l) b" "3 \<le> n" "l \<le> n"
    "l \<ge> 3 \<or> take 3 d1 = take 3 (take l d1 @ b)" "l \<le> length d1"
  shows "take 3 d2 = take 3 d1"
proof -
  have "take 3 (take n d2) = take 3 (take l d1 @ take (n - l) b)" by (simp only: assms(1))
  then have 3: "take 3 d2 = take 3 (take l d1 @ take (n - l) b)" using assms(2) by simp
  show ?thesis
  proof (cases "l \<ge> 3")
    case True then show ?thesis using 3 assms(5) by simp
  next
    case False
    then have "take 3 d1 = take l d1 @ take (3 - l) b" using assms by simp
    then show ?thesis using 3 False assms by simp
  qed
qed

lemma ts_continue_section_spec:
  assumes inv: "ts_inv pkt" and b: "off + left \<le> length buf"
  shows "\<exists>go pkt'. ts_continue_section buf off pkt left p c = Some (go, pkt') \<and> same_queue pkt pkt' \<and>
     (if go then started pkt' else partial_inv pkt')"
proof -
  have qi: "queue_inv pkt" and pi: "partial_inv pkt" using inv by (simp_all add: ts_inv_def)
  consider (no) "status_partial pkt \<noteq> STARTED \<and> status_partial pkt \<noteq> PARTIAL_HEADER"
    | (dup) "status_partial pkt = STARTED \<or> status_partial pkt = PARTIAL_HEADER" "cc pkt = c"
    | (bad) "status_partial pkt = STARTED \<or> status_partial pkt = PARTIAL_HEADER" "cc pkt \<noteq> c"
        "(cc pkt + 1) mod 16 \<noteq> c \<or> pid pkt \<noteq> p"
    | (go) "status_partial pkt = STARTED \<or> status_partial pkt = PARTIAL_HEADER" "cc pkt \<noteq> c"
        "(cc pkt + 1) mod 16 = c" "pid pkt = p"
    by blast
  then show ?thesis
  proof cases
    case no
    then show ?thesis using qi
      by (intro exI [of _ False]) (auto simp: ts_continue_section_def same_queue_def partial_inv_def)
  next
    case dup
    then show ?thesis using qi pi
      by (intro exI [of _ False]) (auto simp: ts_continue_section_def same_queue_def)
  next
    case bad
    then show ?thesis using qi
      by (intro exI [of _ False]) (auto simp: ts_continue_section_def same_queue_def partial_inv_def)
  next
    case go
    have ne: "\<not> (status_partial pkt \<noteq> STARTED \<and> status_partial pkt \<noteq> PARTIAL_HEADER)" using go by blast
    from ts_complete_header_spec [OF qi pi go(1) b] obtain ok pkt1 where
      h: "ts_complete_header buf off pkt left = Some (ok, pkt1)" "same_queue pkt pkt1"
        "len_partial pkt1 = len_partial pkt" and
      ok: "if status_partial pkt = STARTED \<or> len_partial pkt + left \<ge> 3
        then ok \<and> status_partial pkt1 = STARTED \<and> expected_len_partial pkt1 = partial_expected pkt1 \<and>
           len_partial pkt \<le> expected_len_partial pkt1 \<and>
           take (len_partial pkt) (data_partial pkt1) = take (len_partial pkt) (data_partial pkt) \<and>
           (status_partial pkt = PARTIAL_HEADER \<longrightarrow> take 3 (data_partial pkt1) =
               take 3 (take (len_partial pkt) (data_partial pkt) @ drop off buf))
        else \<not> ok \<and> status_partial pkt1 = EMPTY" by (metis (no_types, lifting))
    have e: "ts_continue_section buf off pkt left p c =
       (if \<not> ok then Some (False, pkt1)
        else do { pkt \<leftarrow> ts_append_data buf off pkt1 left c; Some (True, pkt)})"
      unfolding ts_continue_section_def using go(2,3,4) h(1) by (simp only: ne) simp
    show ?thesis
    proof (cases ok)
      case False
      then have "status_partial pkt1 = EMPTY" using ok by (auto split: if_splits)
      then show ?thesis using e h False by (intro exI [of _ False]) (simp add: partial_inv_def)
    next
      case True
      then have 1: "status_partial pkt1 = STARTED" "expected_len_partial pkt1 = partial_expected pkt1"
          "len_partial pkt1 \<le> expected_len_partial pkt1" "status_partial pkt = STARTED \<or> len_partial pkt + left \<ge> 3"
        using ok h by (auto split: if_splits)
      have l: "len_partial pkt1 \<le> MAX_TS_SIZE"
        using h(3) go(1) pi by (auto simp: partial_inv_def ts_sizes)
      have q1: "queue_inv pkt1" using h by (simp add: same_queue_def)
      obtain pkt2 where a: "ts_append_data buf off pkt1 left c = Some pkt2" "same_queue pkt1 pkt2"
          "status_partial pkt2 = STARTED" "expected_len_partial pkt2 = expected_len_partial pkt1"
          "len_partial pkt2 = min (min (len_partial pkt1 + left) (expected_len_partial pkt1)) MAX_TS_SIZE"
          "take (len_partial pkt2) (data_partial pkt2) =
             take (len_partial pkt1) (data_partial pkt1) @ take (len_partial pkt2 - len_partial pkt1) (drop off buf)"
        using ts_append_data_spec [OF q1 1(1) l 1(3) b] by blast
      have "3 \<le> len_partial pkt1 + left"
        using 1(4) h(3) pi by (auto simp: partial_inv_def)
      moreover have "3 \<le> expected_len_partial pkt1"
        using 1(2) by (simp add: partial_expected_def BYTES_BFR_SEC_LEN_def)
      ultimately have "3 \<le> len_partial pkt2" using a by (simp add: ts_sizes)
      moreover have "take 3 (data_partial pkt2) = take 3 (data_partial pkt1)"
      proof (rule ts_append_header [OF a(6) \<open>3 \<le> len_partial pkt2\<close>])
        show "len_partial pkt1 \<le> len_partial pkt2" using a(5) 1(3) l by simp
        show "3 \<le> len_partial pkt1 \<or>
            take 3 (data_partial pkt1) = take 3 (take (len_partial pkt1) (data_partial pkt1) @ drop off buf)"
          using ok True go(1) pi h(3) 1(4) by (auto simp: partial_inv_def split: if_splits)
        show "len_partial pkt1 \<le> length (data_partial pkt1)"
          using l q1 by (simp add: queue_inv_def ts_bufs_def)
      qed
      then have "partial_expected pkt2 = partial_expected pkt1"
        by (rule partial_expected_prefix [rotated]) simp
      ultimately have "started pkt2" using a 1 by (simp add: started_def)
      then show ?thesis using e True a h
        by (intro exI [of _ True]) (auto simp: same_queue_def)
    qed
  qed
qed

lemma ts_finish_started:
  assumes "same_queue pkt pkt1" "started pkt1" "queue_inv pkt" "len_partial pkt1 \<le> n"
  shows "\<exists>pkt'. ts_finish_section pkt1 = Some pkt' \<and> adds pkt pkt' n"
proof -
  have "queue_inv pkt1" using assms(1) by (simp add: same_queue_def)
  from ts_finish_section_adds [OF this assms(2)] show ?thesis
    using same_queue_adds [OF assms(1) _ assms(3)] adds_mono [OF _ assms(4)] by blast
qed

lemma add_ts_packet_data_continue:
  assumes "ts_inv pkt" "off + left \<le> length buf"
  shows "\<exists>pkt'. add_ts_packet_data buf off pkt left NO_START p c = Some pkt' \<and> adds pkt pkt' MAX_TS_SIZE"
proof -
  obtain go pkt1 where c: "ts_continue_section buf off pkt left p c = Some (go, pkt1)"
      "same_queue pkt pkt1" "if go then started pkt1 else partial_inv pkt1"
    using ts_continue_section_spec [OF assms] by blast
  have qi: "queue_inv pkt" using assms by (simp add: ts_inv_def)
  show ?thesis
  proof (cases go)
    case False
    then show ?thesis using c by (auto simp: add_ts_packet_data.simps intro: adds_same_queue)
  next
    case True
    then have st: "started pkt1" using c by simp
    then have "len_partial pkt1 \<le> MAX_TS_SIZE" "status_partial pkt1 \<noteq> PARTIAL_HEADER"
      by (simp_all add: started_def)
    then show ?thesis
      using ts_finish_started [OF c(2) st qi] True c by (auto simp: add_ts_packet_data.simps)
  qed
qed

lemma add_ts_packet_data_start:
  "ts_inv pkt \<Longrightarrow> off + left \<le> length buf \<Longrightarrow> left \<le> TS_PACKET_SIZE \<Longrightarrow>
   f = START_TS \<or> f = START_SECTION \<and> left \<noteq> 0 \<Longrightarrow>
   \<exists>pkt'. add_ts_packet_data buf off pkt left f p c = Some pkt' \<and> adds pkt pkt' left"
proof (induction left arbitrary: off pkt f rule: less_induct)
  case (less left)
  have qi: "queue_inv pkt" using less.prems(1) by (simp add: ts_inv_def)
  show ?case
  proof (cases "f = START_SECTION \<and> rd buf off = Some 0xff")
    case True
    then show ?thesis
      using less.prems(1) by (subst add_ts_packet_data.simps) (auto intro: adds_same)
  next
    case no_stuff: False
    have rdok: "\<not> (f = START_SECTION \<and> rd buf off = None)"
      using less.prems by (auto simp: rd_def)
    obtain pkt1 n left1 where s: "ts_start_section buf off pkt left p c = Some (pkt1, n, left1)"
      "same_queue pkt pkt1" and
      cases: "left < 3 \<and> status_partial pkt1 = PARTIAL_HEADER \<and> len_partial pkt1 = left \<and> left1 = 0 \<or>
        3 \<le> left \<and> started pkt1 \<and> len_partial pkt1 = n \<and> n + left1 = left"
      by (rule ts_start_section_spec [OF qi less.prems(2,3), of p c]) blast
    have unf: "add_ts_packet_data buf off pkt left f p c =
        (if status_partial pkt1 = PARTIAL_HEADER then Some pkt1
         else case ts_finish_section pkt1 of None \<Rightarrow> None
           | Some pkt \<Rightarrow> if left1 \<noteq> 0 then add_ts_packet_data buf (off + n) pkt left1 START_SECTION p c
                        else Some pkt)"
      using less.prems(4) no_stuff rdok s by (subst add_ts_packet_data.simps) auto
    show ?thesis
    proof (cases "left < 3")
      case True
      then have "partial_inv pkt1" "status_partial pkt1 = PARTIAL_HEADER"
        using cases by (auto simp: partial_inv_def)
      then show ?thesis using unf s(2) by (auto intro: adds_same_queue)
    next
      case False
      then have st: "started pkt1" "len_partial pkt1 \<le> n" and n: "n + left1 = left"
        using cases by auto
      then have n3: "3 \<le> n" "status_partial pkt1 \<noteq> PARTIAL_HEADER" by (auto simp: started_def)
      obtain pkt2 where f: "ts_finish_section pkt1 = Some pkt2" "adds pkt pkt2 n"
        using ts_finish_started [OF s(2) st(1) qi st(2)] by blast
      show ?thesis
      proof (cases "left1 = 0")
        case True
        then show ?thesis using unf f n n3 by auto
      next
        case more: False
        have "ts_inv pkt2" using f by (simp add: adds_def)
        then obtain pkt3 where
          "add_ts_packet_data buf (off + n) pkt2 left1 START_SECTION p c = Some pkt3" "adds pkt2 pkt3 left1"
          using less.IH [of left1 pkt2 "off + n" START_SECTION] more n n3 less.prems(2,3) by auto
        then show ?thesis using unf f n n3 more adds_trans [OF f(2) _ qi] by auto
      qed
    qed
  qed
qed

subsection \<open>Handing over a section\<close>

lemma full_sections_Cons:
  assumes "full_sections pkt = s # q" "queue_inv pkt"
  shows "full_number pkt > 0" "full_lengths pkt ! 0 = length s" "length s \<le> full_buffer_len pkt"
    "take (length s) (buffer_full pkt) = s" "full_number pkt = Suc (length q)"
    "section_ok s"
proof -
  show n: "full_number pkt = Suc (length q)" using length_full_sections [OF assms(2)] assms(1) by simp
  then show "full_number pkt > 0" by simp
  have "take (full_number pkt) (full_lengths pkt) = length s # map length q"
    using full_sections_lengths [OF assms(2)] assms(1) by simp
  then show 0: "full_lengths pkt ! 0 = length s"
    using n by (metis nth_Cons_0 nth_take zero_less_Suc)
  show "length s \<le> full_buffer_len pkt"
    using full_buffer_len_sections [OF assms(2)] assms(1) by simp
  show "take (length s) (buffer_full pkt) = s"
    using assms(1) n 0 by (cases "full_lengths pkt") (auto simp: full_sections_def)
  show "section_ok s" using assms by (simp add: queue_inv_def)
qed

lemma ts_pop_full_None: "full_number pkt = 0 \<Longrightarrow> ts_pop_full pkt = Some (False, pkt)"
  by (simp add: ts_pop_full_def)

lemma ts_pop_full_Some:
  assumes q: "full_sections pkt = s # q" and inv: "ts_inv pkt"
  shows "\<exists>pkt'. ts_pop_full pkt = Some (True, pkt') \<and> ts_inv pkt' \<and> full_sections pkt' = q \<and>
     len_full pkt' = length s \<and> take (length s) (data_full pkt') = s"
proof -
  have qi: "queue_inv pkt" and pi: "partial_inv pkt" using inv by (simp_all add: ts_inv_def)
  note c = full_sections_Cons [OF q qi]
  have lens: "length (data_full pkt) = MAX_TS_SIZE" "length (buffer_full pkt) = FULL_BUFFER_SIZE"
      "length (full_lengths pkt) = MAX_FULL_PACKETS" "full_buffer_len pkt < FULL_BUFFER_SIZE"
      "full_number pkt \<le> MAX_FULL_PACKETS"
    using qi by (simp_all add: queue_inv_def ts_bufs_def)
  have ls: "length s \<le> MAX_TS_SIZE" using c(6) by (simp add: section_ok_def)
  define n where "n = length s"
  define d where "d = s @ drop n (data_full pkt)"
  define m where "m = full_buffer_len pkt - n"
  define pkt1 where "pkt1 = pkt\<lparr>len_full := n, data_full := d, full_number := full_number pkt - 1,
     full_buffer_len := m\<rparr>"
  have w: "mem_write (data_full pkt) 0 s = Some d" using ls lens by (simp add: mem_write_in d_def n_def)
  have ld: "length d = MAX_TS_SIZE" using ls lens by (simp add: d_def n_def)
  show ?thesis
  proof (cases "q = []")
    case True
    then have f1: "full_number pkt = 1" using c by simp
    then have "ts_pop_full pkt = Some (True, pkt1)"
      using c lens ls w by (simp add: ts_pop_full_def mem_simps pkt1_def n_def m_def ts_sizes)
    moreover have "m = 0"
      using full_buffer_len_sections [OF qi] q True by (simp add: m_def n_def)
    then have "ts_inv pkt1"
      using pi qi ld lens f1
      by (auto simp: ts_inv_def queue_inv_def ts_bufs_def full_sections_def pkt1_def partial_inv_def
          partial_expected_def)
    ultimately show ?thesis using True f1 by (auto simp: pkt1_def full_sections_def d_def n_def)
  next
    case False
    define b where "b = take m (drop n (buffer_full pkt)) @ drop m (buffer_full pkt)"
    define fl where "fl = drop 1 (full_lengths pkt) @ drop (MAX_FULL_PACKETS - 1) (full_lengths pkt)"
    define pkt2 where "pkt2 = pkt1\<lparr>buffer_full := b, full_lengths := fl\<rparr>"
    have nm: "n + m = full_buffer_len pkt" using c by (simp add: m_def n_def)
    have "mem_write (buffer_full pkt) 0 (take m (drop n (buffer_full pkt))) = Some b"
      using lens nm by (simp add: mem_write_in b_def)
    moreover have "mem_write (full_lengths pkt) 0 (take (MAX_FULL_PACKETS - 1) (drop 1 (full_lengths pkt))) = Some fl"
      using lens by (simp add: mem_write_in fl_def ts_sizes)
    ultimately have "ts_pop_full pkt = Some (True, pkt2)"
      using c lens ls w False nm
      by (simp add: ts_pop_full_def mem_simps pkt1_def pkt2_def n_def [symmetric] m_def [symmetric] ts_sizes)
    moreover have tl: "take (full_number pkt - 1) fl = map length q"
    proof -
      have "take (full_number pkt) (full_lengths pkt) = length s # map length q"
        using full_sections_lengths [OF qi] q by simp
      then have "drop 1 (take (full_number pkt) (full_lengths pkt)) = map length q" by simp
      then have "take (full_number pkt - 1) (drop 1 (full_lengths pkt)) = map length q"
        by (simp add: drop_take)
      then show ?thesis using lens by (simp add: fl_def)
    qed
    moreover have sm: "sum_list (map length q) = m"
      using full_buffer_len_sections [OF qi] q by (simp add: m_def n_def)
    moreover have "full_sections pkt2 = q"
    proof -
      have "split_sections (map length q) b = split_sections (map length q) (drop n (buffer_full pkt))"
        using lens nm sm by (intro split_sections_cong) (simp add: b_def)
      moreover have "split_sections (map length q) (drop n (buffer_full pkt)) = q"
      proof -
        have "take (full_number pkt) (full_lengths pkt) = length s # map length q"
          using full_sections_lengths [OF qi] q by simp
        then show ?thesis using q by (simp add: full_sections_def n_def)
      qed
      ultimately show ?thesis using tl by (simp add: full_sections_def pkt2_def pkt1_def)
    qed
    moreover have "ts_inv pkt2"
      using pi qi ld lens nm tl sm calculation q
      by (auto simp: ts_inv_def queue_inv_def ts_bufs_def pkt2_def pkt1_def partial_inv_def
          partial_expected_def b_def fl_def ts_sizes)
    ultimately show ?thesis by (auto simp: pkt2_def pkt1_def d_def n_def)
  qed
qed

subsection \<open>One call of get_ts_packet\<close>

lemma ts_payload_offset_in:
  assumes "TS_PACKET_SIZE \<le> length buf"
  shows "\<exists>r. ts_payload_offset buf h = Some r \<and> (\<forall>o'. r = Some o' \<longrightarrow> 4 \<le> o' \<and> o' < TS_PACKET_SIZE)"
proof -
  have "\<exists>b. is_pes_start buf 4 = Some b"
    using assms by (auto simp: is_pes_start_def mem_simps ts_sizes)
  then show ?thesis
    using assms by (auto simp: ts_payload_offset_def mem_simps ts_sizes Let_def)
qed

lemma ts_feed_adds:
  assumes inv: "ts_inv pkt" and buf: "TS_PACKET_SIZE \<le> length buf"
  shows "\<exists>r pkt'. ts_feed buf avail pkt = Some (r, pkt') \<and> adds pkt pkt' (MAX_TS_SIZE + TS_PACKET_SIZE)"
proof -
  have qi: "queue_inv pkt" and pi: "partial_inv pkt" using inv by (simp_all add: ts_inv_def)
  define h where "h = ts_header_of buf"
  have hd: "struct_at sizeof_ts_header_t ts_header_of buf 0 = Some h"
    using buf by (simp add: h_def ts_sizes sizeof_ts_header_t_def struct_at_def)
  define p where "p = ts_header_pid h"
  define c where "c = unat (ts_header_t.continuity_counter h)"
  obtain r where r: "ts_payload_offset buf h = Some r"
    and ro: "\<And>o'. r = Some o' \<Longrightarrow> 4 \<le> o' \<and> o' < TS_PACKET_SIZE"
    using ts_payload_offset_in [OF buf, of h] by blast
  have same: "adds pkt pkt n" for n using inv by (auto intro: adds_same)
  show ?thesis
  proof (cases r)
    case None
    then show ?thesis using hd r same by (simp add: ts_feed_def)
  next
    case (Some o')
    then have o': "4 \<le> o'" "o' < TS_PACKET_SIZE" using ro by auto
    show ?thesis
    proof (cases "ts_header_t.payload_unit_start_indicator h = 0")
      case True
      obtain pkt' where "add_ts_packet_data buf o' pkt (TS_PACKET_SIZE - o') NO_START p c = Some pkt'"
          "adds pkt pkt' MAX_TS_SIZE"
        using add_ts_packet_data_continue [OF inv, of o' "TS_PACKET_SIZE - o'" buf] o' buf by auto
      then show ?thesis using hd r Some True
        by (auto simp: ts_feed_def p_def c_def intro: adds_mono)
    next
      case False
      define pf where "pf = unat (buf ! o')"
      have rd: "rd buf o' = Some (buf ! o')" using o' buf by (simp add: mem_simps)
      show ?thesis
      proof (cases "pf \<noteq> 0 \<and> o' + 1 + pf > TS_PACKET_SIZE")
        case bad: True
        have "adds pkt (pkt\<lparr>status_partial := EMPTY\<rparr>) n" for n
          using inv by (intro adds_same) (simp_all add: ts_inv_def partial_inv_def)
        then show ?thesis using hd r Some False rd bad
          by (auto simp: ts_feed_def pf_def [symmetric])
      next
        case good: False
        then have le: "o' + 1 + pf \<le> TS_PACKET_SIZE" using o' by (cases "pf = 0") auto
        obtain pkt1 where 1: "(if pf \<noteq> 0 then add_ts_packet_data buf (o' + 1) pkt pf NO_START p c
             else Some pkt) = Some pkt1" "adds pkt pkt1 MAX_TS_SIZE"
          using add_ts_packet_data_continue [OF inv, of "o' + 1" pf buf p c] le buf same
          by (cases "pf = 0") fastforce+
        then have "ts_inv pkt1" by (simp add: adds_def)
        then obtain pkt2 where 2:
          "add_ts_packet_data buf (o' + 1 + pf) pkt1 (TS_PACKET_SIZE - (o' + 1 + pf)) START_TS p c = Some pkt2"
          "adds pkt1 pkt2 (TS_PACKET_SIZE - (o' + 1 + pf))"
          using add_ts_packet_data_start [of pkt1 "o' + 1 + pf" "TS_PACKET_SIZE - (o' + 1 + pf)" buf START_TS p c]
            le buf by auto
        have "adds pkt pkt2 (MAX_TS_SIZE + TS_PACKET_SIZE)"
          using adds_trans [OF 1(2) 2(2) qi] by (rule adds_mono) simp
        then show ?thesis
          using hd r Some False rd good 1(1) 2(1)
          by (auto simp: ts_feed_def pf_def [symmetric] p_def [symmetric] c_def [symmetric] Let_def)
      qed
    qed
  qed
qed

lemma ts_pop_full_total:
  assumes "ts_inv pkt"
  shows "\<exists>pkt'. ts_pop_full pkt = Some (full_sections pkt \<noteq> [], pkt') \<and> ts_inv pkt' \<and>
     full_sections pkt' = tl (full_sections pkt) \<and>
     (full_sections pkt \<noteq> [] \<longrightarrow> len_full pkt' = length (hd (full_sections pkt)) \<and>
        take (len_full pkt') (data_full pkt') = hd (full_sections pkt))"
proof (cases "full_sections pkt")
  case Nil
  then have "full_number pkt = 0"
    using length_full_sections [of pkt] assms by (simp add: ts_inv_def)
  then show ?thesis using Nil assms by (simp add: ts_pop_full_None)
next
  case (Cons s q)
  then show ?thesis using ts_pop_full_Some [OF Cons assms] by auto
qed

lemma get_ts_packet_total:
  assumes inv: "ts_inv pkt" and buf: "\<forall>b. buf = Some b \<longrightarrow> TS_PACKET_SIZE \<le> length b"
  shows "\<exists>r pkt0 pkt'. ts_pop_full pkt = Some (full_sections pkt \<noteq> [], pkt0) \<and>
     get_ts_packet buf pkt = Some (r, pkt') \<and>
     adds pkt0 pkt' (MAX_TS_SIZE + TS_PACKET_SIZE) \<and>
     full_sections pkt0 = tl (full_sections pkt) \<and> ts_inv pkt0 \<and>
     (full_sections pkt \<noteq> [] \<longrightarrow> len_full pkt' = length (hd (full_sections pkt)) \<and>
        take (len_full pkt') (data_full pkt') = hd (full_sections pkt))"
proof -
  obtain pkt0 where 0: "ts_pop_full pkt = Some (full_sections pkt \<noteq> [], pkt0)" "ts_inv pkt0"
     "full_sections pkt0 = tl (full_sections pkt)"
     "full_sections pkt \<noteq> [] \<longrightarrow> len_full pkt0 = length (hd (full_sections pkt)) \<and>
        take (len_full pkt0) (data_full pkt0) = hd (full_sections pkt)"
    using ts_pop_full_total [OF inv] by blast
  show ?thesis
  proof (cases buf)
    case None
    then show ?thesis using 0 by (auto simp: get_ts_packet_def intro: adds_same)
  next
    case (Some b)
    then obtain r pkt' where 1: "ts_feed b (full_sections pkt \<noteq> []) pkt0 = Some (r, pkt')"
       "adds pkt0 pkt' (MAX_TS_SIZE + TS_PACKET_SIZE)"
      using ts_feed_adds [OF 0(2)] buf by blast
    then have "data_full pkt' = data_full pkt0" "len_full pkt' = len_full pkt0"
      by (simp_all add: adds_def)
    then show ?thesis using 0 1 Some by (auto simp: get_ts_packet_def)
  qed
qed

text \<open>
  C1. For every transport packet of 188 bytes and every state that the assembler can reach, one
  call of \<open>get_ts_packet\<close> returns without an access out of bounds and keeps the invariant: the
  buffers keep their sizes, the queued sections fit the buffer and are each complete and
  CRC-correct, and a section in progress never outgrows its buffer.
\<close>

theorem get_ts_packet_safe:
  assumes "ts_inv pkt" "\<forall>b. buf = Some b \<longrightarrow> TS_PACKET_SIZE \<le> length b"
  shows "\<exists>r pkt'. get_ts_packet buf pkt = Some (r, pkt') \<and> ts_inv pkt'"
  using get_ts_packet_total [OF assms] by (fastforce simp: adds_def)


end
