(* ===== verification/Mumudvb.thy ===== *)
theory Mumudvb
  imports Ts_Assembler
begin

text \<open>
  The shared data of the program, \<^verbatim>\<open>src/src/mumudvb.h\<close>: limits, enumerations, the PID table of a
  channel and the channel itself. Arrays keep their C sizes, so that an index out of range is
  visible; character arrays that hold a C string are HOL strings; mutexes, thread handles and
  socket addresses are left out. \<^verbatim>\<open>int\<close> members that are counters or identifiers and never
  negative are \<open>nat\<close>; the pointer to the first client is a natural number, 0 for \<^verbatim>\<open>NULL\<close>; \<open>pmt_alloc\<close> says that the pointer
  \<open>pmt_packet\<close> is not \<^verbatim>\<open>NULL\<close>; versions, which start at -1, and sockets are \<open>int\<close>.
\<close>

section \<open>Limits\<close>

definition MAX_PIDS :: nat where "MAX_PIDS = 128"
definition MAX_CHANNELS :: nat where "MAX_CHANNELS = 128"
definition MAX_CA_SYSTEMS :: nat where "MAX_CA_SYSTEMS = 32"
definition TS_PADDING_PID :: nat where "TS_PADDING_PID = 8191"
definition TS_SYNC_BYTE :: u8 where "TS_SYNC_BYTE = 0x47"
definition MAX_UDP_SIZE :: nat where "MAX_UDP_SIZE = 1350"
definition MAX_MANDATORY_PID_NUMBER :: nat where "MAX_MANDATORY_PID_NUMBER = 32"
definition MAX_POLL_TRIES :: nat where "MAX_POLL_TRIES = 5"
definition RTP_HEADER_LEN :: nat where "RTP_HEADER_LEN = 12"
definition MAX_EIT_SECTIONS :: nat where "MAX_EIT_SECTIONS = 256"

lemmas mumu_sizes = ts_sizes MAX_PIDS_def MAX_CHANNELS_def MAX_CA_SYSTEMS_def MAX_UDP_SIZE_def
  RTP_HEADER_LEN_def

section \<open>Enumerations\<close>

datatype scrambling_state = FULLY_UNSCRAMBLED | PARTIALLY_UNSCRAMBLED | HIGHLY_SCRAMBLED

datatype cam_ask_state = CAM_NO_ASK | CAM_NEED_ASK | CAM_NEED_UPDATE | CAM_ASKED

datatype option_status_t = OPTION_UNDEFINED | OPTION_OFF | OPTION_ON

datatype mumu_f_t = F_UNDEF | F_USER | F_DETECTED

datatype pid_type_t =
    PID_UNKNOW | PID_PMT | PID_PCR | PID_VIDEO_MPEG1 | PID_VIDEO_MPEG2 | PID_VIDEO_MPEG4_ASP
  | PID_VIDEO_MPEG4_AVC | PID_VIDEO_MPEG4_HEVC | PID_AUDIO_MPEG1 | PID_AUDIO_MPEG2
  | PID_AUDIO_AAC_LATM | PID_AUDIO_AAC_ADTS | PID_AUDIO_ATSC | PID_AUDIO_AC3 | PID_AUDIO_EAC3
  | PID_AUDIO_DTS | PID_AUDIO_AAC | PID_EXTRA_VBIDATA | PID_EXTRA_VBITELETEXT
  | PID_EXTRA_TELETEXT | PID_EXTRA_SUBTITLE | PID_EXTRA_APPLICATION_SIGNALLING | PID_ECM | PID_EMM

datatype chan_status_t = REMOVED | NO_STREAMING | NOT_READY | ALMOST_READY | READY | READY_EXISTING

text \<open>The numeric values, on which the code compares channel states (\<^verbatim>\<open>channel_ready >= READY\<close>).\<close>

primrec chan_status_num :: "chan_status_t \<Rightarrow> int" where
  "chan_status_num REMOVED = -3"
| "chan_status_num NO_STREAMING = -2"
| "chan_status_num NOT_READY = -1"
| "chan_status_num ALMOST_READY = 0"
| "chan_status_num READY = 1"
| "chan_status_num READY_EXISTING = 2"

lemma chan_status_num_inj [simp]: "chan_status_num a = chan_status_num b \<longleftrightarrow> a = b"
  by (cases a; cases b) simp_all

instantiation chan_status_t :: linorder
begin

definition less_eq_chan_status_t :: "chan_status_t \<Rightarrow> chan_status_t \<Rightarrow> bool" where
  "less_eq_chan_status_t a b \<longleftrightarrow> chan_status_num a \<le> chan_status_num b"

definition less_chan_status_t :: "chan_status_t \<Rightarrow> chan_status_t \<Rightarrow> bool" where
  "less_chan_status_t a b \<longleftrightarrow> chan_status_num a < chan_status_num b"

instance
  by standard (auto simp: less_eq_chan_status_t_def less_chan_status_t_def)

end

lemma READY_le: "READY \<le> s \<longleftrightarrow> s = READY \<or> s = READY_EXISTING"
  by (cases s) (simp_all add: less_eq_chan_status_t_def)

lemma less_READY: "s < READY \<longleftrightarrow> s \<noteq> READY \<and> s \<noteq> READY_EXISTING"
  by (cases s) (simp_all add: less_chan_status_t_def)

section \<open>Channels\<close>

record pid_i_t =
  pid_f :: mumu_f_t
  pids :: "nat list"
  pids_type :: "pid_type_t list"
  pids_language :: "string list"
  pids_num_scrambled_packets :: "nat list"
  pids_scrambled :: "bool list"
  num_pids :: nat
  pmt_pid :: nat
  pmt_pid_f :: mumu_f_t
  pcr_pid :: nat

text \<open>The arrays of the PID table have their declared sizes and the count fits them.\<close>

definition pid_i_wf :: "pid_i_t \<Rightarrow> bool" where
  "pid_i_wf p \<longleftrightarrow> length (pids p) = MAX_PIDS \<and> length (pids_type p) = MAX_PIDS \<and>
     length (pids_language p) = MAX_PIDS \<and> length (pids_num_scrambled_packets p) = MAX_PIDS \<and>
     length (pids_scrambled p) = MAX_PIDS \<and> num_pids p \<le> MAX_PIDS"

record mumudvb_channel_t =
  channel_ready :: chan_status_t
  logical_channel_number :: nat
  num_packet :: nat
  num_scrambled_packets :: nat
  has_traffic :: bool
  ratio_scrambled :: nat
  scrambled_channel :: scrambling_state
  user_name :: string
  name :: string
  name_f :: mumu_f_t
  service_name :: string
  pid_i :: pid_i_t
  service_type :: nat
  service_id :: nat
  service_id_f :: mumu_f_t
  need_cam_ask :: cam_ask_state
  need_cam_ask_f :: mumu_f_t
  cam_asking_time :: int
  ca_sys_id :: "nat list"
  free_ca_mode :: nat
  pmt_alloc :: bool
  pmt_packet :: mumudvb_ts_packet_t
  pmt_version :: int
  pmt_need_update :: bool
  autoconf_pmt_need_update :: bool
  need_scam_ask :: cam_ask_state
  rtp :: bool
  buf_with_rtp_header :: "u8 list"
  buf :: "u8 list"
  nb_bytes :: nat
  sent_data :: nat
  rtp_packet_num :: nat
  ip4Out :: string
  ip4Out_f :: mumu_f_t
  portOut :: int
  portOut_f :: mumu_f_t
  socketOut4 :: int
  ip6Out :: string
  ip6Out_f :: mumu_f_t
  socketOut6 :: int
  clients :: nat
  num_clients :: int
  unicast_port :: int
  unicast_port_f :: mumu_f_t
  socketIn :: int
  sap_group :: string
  sap_need_update :: bool
  generated_pmt :: "u8 list"
  pmt_rewrite :: bool
  pmt_part_num :: nat
  pmt_part_count :: nat
  original_pmt :: "u8 list"
  original_pmt_ready :: bool
  generated_pmt_version :: int
  pmt_continuity_counter :: nat
  generated_pat :: "u8 list"
  generated_pat_version :: int
  generated_sdt :: "u8 list"
  generated_sdt_version :: int
  sdt_rewrite_skip :: bool
  eit_section_to_send :: nat
  eit_table_id_to_send :: u8
  eit_cc :: nat

text \<open>The sizes of the byte arrays of a channel.\<close>

definition channel_wf :: "mumudvb_channel_t \<Rightarrow> bool" where
  "channel_wf ch \<longleftrightarrow> pid_i_wf (pid_i ch) \<and>
     length (buf_with_rtp_header ch) = RTP_HEADER_LEN \<and> length (buf ch) = MAX_UDP_SIZE \<and>
     length (generated_pmt ch) = TS_PACKET_SIZE \<and> length (generated_pat ch) = TS_PACKET_SIZE \<and>
     length (generated_sdt ch) = TS_PACKET_SIZE \<and>
     length (original_pmt ch) = TS_PACKET_SIZE * 10 \<and> length (ca_sys_id ch) = MAX_CA_SYSTEMS"

text \<open>A channel of the static array before initialisation: all bytes zero.\<close>

definition zero_pid_i :: pid_i_t where
  "zero_pid_i = \<lparr>
     pid_f = F_UNDEF, pids = replicate MAX_PIDS 0, pids_type = replicate MAX_PIDS PID_UNKNOW,
     pids_language = replicate MAX_PIDS [], pids_num_scrambled_packets = replicate MAX_PIDS 0,
     pids_scrambled = replicate MAX_PIDS False, num_pids = 0, pmt_pid = 0, pmt_pid_f = F_UNDEF,
     pcr_pid = 0\<rparr>"

definition zero_channel :: mumudvb_channel_t where
  "zero_channel = \<lparr>
     channel_ready = ALMOST_READY, logical_channel_number = 0, num_packet = 0,
     num_scrambled_packets = 0, has_traffic = False, ratio_scrambled = 0,
     scrambled_channel = FULLY_UNSCRAMBLED, user_name = [], name = [], name_f = F_UNDEF,
     service_name = [], pid_i = zero_pid_i, service_type = 0, service_id = 0,
     service_id_f = F_UNDEF, need_cam_ask = CAM_NO_ASK, need_cam_ask_f = F_UNDEF,
     cam_asking_time = 0, ca_sys_id = replicate MAX_CA_SYSTEMS 0, free_ca_mode = 0,
     pmt_alloc = False, pmt_packet = empty_ts_packet, pmt_version = 0, pmt_need_update = False,
     autoconf_pmt_need_update = False, need_scam_ask = CAM_NO_ASK, rtp = False,
     buf_with_rtp_header = replicate RTP_HEADER_LEN 0, buf = replicate MAX_UDP_SIZE 0,
     nb_bytes = 0, sent_data = 0, rtp_packet_num = 0, ip4Out = [], ip4Out_f = F_UNDEF,
     portOut = 0, portOut_f = F_UNDEF, socketOut4 = 0, ip6Out = [], ip6Out_f = F_UNDEF,
     socketOut6 = 0, clients = 0, num_clients = 0, unicast_port = 0, unicast_port_f = F_UNDEF, socketIn = 0, sap_group = [], sap_need_update = False,
     generated_pmt = replicate TS_PACKET_SIZE 0, pmt_rewrite = False, pmt_part_num = 0,
     pmt_part_count = 0, original_pmt = replicate (TS_PACKET_SIZE * 10) 0,
     original_pmt_ready = False, generated_pmt_version = 0, pmt_continuity_counter = 0,
     generated_pat = replicate TS_PACKET_SIZE 0, generated_pat_version = 0,
     generated_sdt = replicate TS_PACKET_SIZE 0, generated_sdt_version = 0,
     sdt_rewrite_skip = False, eit_section_to_send = 0, eit_table_id_to_send = 0, eit_cc = 0\<rparr>"

lemma zero_channel_wf: "channel_wf zero_channel"
  by (simp add: channel_wf_def zero_channel_def pid_i_wf_def zero_pid_i_def)

end
