(* ===== verification/Mumu_Strings.thy ===== *)
theory Mumu_Strings
  imports Mumu_Prelude "HOL-Library.Sublist"
begin

text \<open>
  The string functions of \<^verbatim>\<open>src/src/mumudvb_common.c\<close> and the C library functions they call.
  A C string is the list of its characters without the final NUL. Allocation is taken to
  succeed, and \<^verbatim>\<open>int\<close> overflow, undefined in C, is not modelled: numbers are \<open>int\<close>.

  The lemmas show that \<open>string_comput\<close> evaluates a sum of products, and when the replacement loop
  of \<open>mumu_string_replace\<close> returns and what it returns.
\<close>

section \<open>The C library\<close>

definition is_digit :: "char \<Rightarrow> bool" where
  "is_digit c \<longleftrightarrow> 48 \<le> (of_char c :: nat) \<and> (of_char c :: nat) \<le> 57"

definition is_space :: "char \<Rightarrow> bool" where
  "is_space c \<longleftrightarrow> c = CHR '' '' \<or> (9 \<le> (of_char c :: nat) \<and> (of_char c :: nat) \<le> 13)"

primrec atoi_digits :: "int \<Rightarrow> string \<Rightarrow> int" where
  "atoi_digits acc [] = acc"
| "atoi_digits acc (c # cs) =
     (if is_digit c then atoi_digits (acc * 10 + (of_char c - 48)) cs else acc)"

definition atoi :: "string \<Rightarrow> int" where
  "atoi s = (case dropWhile is_space s of
       [] \<Rightarrow> 0
     | c # cs \<Rightarrow> if c = CHR ''-'' then - atoi_digits 0 cs
                else if c = CHR ''+'' then atoi_digits 0 cs
                else atoi_digits 0 (c # cs))"

text \<open>\<^verbatim>\<open>strchr\<close> as the text before the character and the text after it.\<close>

fun split_at_char :: "char \<Rightarrow> string \<Rightarrow> (string \<times> string) option" where
  "split_at_char c [] = None"
| "split_at_char c (d # ds) =
     (if d = c then Some ([], ds)
      else map_option (\<lambda>(a, b). (d # a, b)) (split_at_char c ds))"

text \<open>\<^verbatim>\<open>strstr\<close>: the index of the first occurrence.\<close>

fun strstr :: "string \<Rightarrow> string \<Rightarrow> nat option" where
  "strstr [] pat = (if pat = [] then Some 0 else None)"
| "strstr (c # cs) pat =
     (if prefix pat (c # cs) then Some 0 else map_option Suc (strstr cs pat))"

section \<open>Evaluating sums and products\<close>

lemma split_at_char_length: "split_at_char c s = Some (a, b) \<Longrightarrow> s = a @ c # b \<and> c \<notin> set a"
  by (induction s arbitrary: a) (auto split: if_splits)

lemma split_at_char_None: "split_at_char c s = None \<longleftrightarrow> c \<notin> set s"
  by (induction s) auto

function string_mult :: "string \<Rightarrow> int" where
  "string_mult s =
     (case split_at_char (CHR ''*'') s of
        None \<Rightarrow> atoi s
      | Some (a, b) \<Rightarrow>
          if split_at_char (CHR ''*'') b \<noteq> None then atoi a * string_mult b
          else atoi a * atoi b)"
  by pat_completeness auto
termination by (relation "measure length") (auto dest: split_at_char_length)

function string_comput_str :: "string \<Rightarrow> int" where
  "string_comput_str s =
     (case split_at_char (CHR ''+'') s of
        None \<Rightarrow> string_mult s
      | Some (a, b) \<Rightarrow>
          if split_at_char (CHR ''+'') b \<noteq> None then string_mult a + string_comput_str b
          else string_mult a + string_mult b)"
  by pat_completeness auto
termination by (relation "measure length") (auto dest: split_at_char_length)

definition string_comput :: "string option \<Rightarrow> int" where
  "string_comput s = (case s of None \<Rightarrow> 0 | Some s \<Rightarrow> string_comput_str s)"

declare string_mult.simps [simp del] string_comput_str.simps [simp del]

text \<open>The reference: split at every \<open>+\<close>, split each term at every \<open>*\<close>.\<close>

fun fields :: "char \<Rightarrow> string \<Rightarrow> string list" where
  "fields c [] = [[]]"
| "fields c (d # ds) =
     (if d = c then [] # fields c ds
      else (case fields c ds of [] \<Rightarrow> [[d]] | f # fs \<Rightarrow> (d # f) # fs))"

lemma fields_ne: "fields c s \<noteq> []"
  by (induction s) (auto split: list.splits)

lemma fields_None: "c \<notin> set s \<Longrightarrow> fields c s = [s]"
  by (induction s) auto

lemma fields_append: "c \<notin> set a \<Longrightarrow> fields c (a @ c # b) = a # fields c b"
  by (induction a) auto

lemma string_mult_fields: "string_mult s = prod_list (map atoi (fields (CHR ''*'') s))"
proof (induction s rule: string_mult.induct)
  case (1 s)
  show ?case
  proof (cases "split_at_char (CHR ''*'') s")
    case None
    moreover from this have "CHR ''*'' \<notin> set s" by (simp add: split_at_char_None)
    ultimately show ?thesis by (simp add: string_mult.simps fields_None)
  next
    case (Some ab)
    obtain a b where ab: "ab = (a, b)" by (cases ab)
    have s: "s = a @ CHR ''*'' # b" "CHR ''*'' \<notin> set a"
      using split_at_char_length Some ab by blast+
    show ?thesis
    proof (cases "split_at_char (CHR ''*'') b")
      case None
      then have "string_mult s = atoi a * atoi b" "CHR ''*'' \<notin> set b"
        using Some ab by (simp_all add: string_mult.simps [of s] flip: split_at_char_None)
      then show ?thesis using s by (simp add: fields_append fields_None)
    next
      case (Some r)
      then have "string_mult s = atoi a * string_mult b"
        using \<open>split_at_char (CHR ''*'') s = Some ab\<close> ab by (simp add: string_mult.simps [of s])
      then show ?thesis
        using \<open>split_at_char (CHR ''*'') s = Some ab\<close> Some ab s 1 by (simp add: fields_append)
    qed
  qed
qed

lemma string_comput_str_fields:
  "string_comput_str s = sum_list (map string_mult (fields (CHR ''+'') s))"
proof (induction s rule: string_comput_str.induct)
  case (1 s)
  show ?case
  proof (cases "split_at_char (CHR ''+'') s")
    case None
    moreover from this have "CHR ''+'' \<notin> set s" by (simp add: split_at_char_None)
    ultimately show ?thesis by (simp add: string_comput_str.simps fields_None)
  next
    case (Some ab)
    obtain a b where ab: "ab = (a, b)" by (cases ab)
    have s: "s = a @ CHR ''+'' # b" "CHR ''+'' \<notin> set a"
      using split_at_char_length Some ab by blast+
    show ?thesis
    proof (cases "split_at_char (CHR ''+'') b")
      case None
      then have "string_comput_str s = string_mult a + string_mult b" "CHR ''+'' \<notin> set b"
        using Some ab by (simp_all add: string_comput_str.simps [of s] flip: split_at_char_None)
      then show ?thesis using s by (simp add: fields_append fields_None)
    next
      case (Some r)
      then have "string_comput_str s = string_mult a + string_comput_str b"
        using \<open>split_at_char (CHR ''+'') s = Some ab\<close> ab by (simp add: string_comput_str.simps [of s])
      then show ?thesis
        using \<open>split_at_char (CHR ''+'') s = Some ab\<close> Some ab s 1 by (simp add: fields_append)
    qed
  qed
qed

text \<open>
  \<open>string_comput\<close> evaluates the sum, over the terms between plus signs, of the products of
  the numbers between stars.
\<close>

theorem string_comput_sum_of_products:
  "string_comput (Some s) =
     (\<Sum>t\<leftarrow>fields (CHR ''+'') s. prod_list (map atoi (fields (CHR ''*'') t)))"
proof -
  have "string_mult = (\<lambda>t. prod_list (map atoi (fields (CHR ''*'') t)))"
    by (rule ext) (rule string_mult_fields)
  then show ?thesis by (simp add: string_comput_def string_comput_str_fields)
qed

section \<open>Replacing a pattern\<close>

text \<open>One turn of the loop: the first occurrence is replaced.\<close>

definition replace_once :: "string \<Rightarrow> string \<Rightarrow> string \<Rightarrow> string option" where
  "replace_once s toreplace replacement =
     map_option (\<lambda>i. take i s @ replacement @ drop (i + length toreplace) s) (strstr s toreplace)"

text \<open>The loop, \<open>None\<close> when it does not return.\<close>

partial_function (option) replace_loop :: "string \<Rightarrow> string \<Rightarrow> string \<Rightarrow> string option" where
  "replace_loop s toreplace replacement =
     (case replace_once s toreplace replacement of
        None \<Rightarrow> Some s
      | Some s' \<Rightarrow> replace_loop s' toreplace replacement)"

text \<open>
  The whole function: the new contents of the source buffer and its recorded length, which
  counts the NUL. A buffer that cannot be reallocated cuts the result to its size.
\<close>

definition mumu_string_replace :: "string \<Rightarrow> nat \<Rightarrow> bool \<Rightarrow> string \<Rightarrow> string \<Rightarrow> (string \<times> nat) option" where
  "mumu_string_replace source len can_realloc toreplace replacement =
     (if strstr source toreplace = None then Some (source, len)
      else do {
        tempstring \<leftarrow> replace_loop source toreplace replacement;
        let lengthtempstring = length tempstring + 1;
        Some (if can_realloc then (tempstring, max len lengthtempstring)
              else if lengthtempstring \<le> len then (tempstring, len)
              else (take (len - 1) tempstring, len))})"

lemma strstr_Some: "strstr s p = Some i \<Longrightarrow> \<exists>a b. s = a @ p @ b \<and> length a = i"
proof (induction s arbitrary: i)
  case Nil then show ?case by (auto split: if_splits)
next
  case (Cons c cs)
  show ?case
  proof (cases "prefix p (c # cs)")
    case True
    then show ?thesis using Cons.prems by (auto simp: prefix_def)
  next
    case False
    then obtain j where "strstr cs p = Some j" "i = Suc j" using Cons.prems by auto
    then obtain a b where "cs = a @ p @ b" "length a = j" using Cons.IH by blast
    then show ?thesis using \<open>i = Suc j\<close> by (intro exI [of _ "c # a"] exI [of _ b]) simp
  qed
qed

lemma strstr_None_iff: "strstr s p = None \<longleftrightarrow> \<not> sublist p s"
proof (induction s)
  case Nil then show ?case by auto
next
  case (Cons c cs)
  then show ?case by (simp add: sublist_Cons_right)
qed

lemma replace_once_Some:
  assumes "replace_once s p r = Some s'"
  obtains a b where "s = a @ p @ b" "s' = a @ r @ b"
proof -
  obtain i where i: "strstr s p = Some i" "s' = take i s @ r @ drop (i + length p) s"
    using assms by (auto simp: replace_once_def)
  then obtain a b where "s = a @ p @ b" "length a = i" using strstr_Some by blast
  with i show thesis using that [of a b] by simp
qed

lemma replace_once_None: "replace_once s p r = None \<longleftrightarrow> \<not> sublist p s"
  by (simp add: replace_once_def strstr_None_iff)

lemma replace_loop_returns:
  assumes "c \<in> set p" "c \<notin> set r"
  shows "\<exists>t. replace_loop s p r = Some t \<and> \<not> sublist p t"
proof (induction "count_list s c" arbitrary: s rule: less_induct)
  case less
  show ?case
  proof (cases "replace_once s p r")
    case None
    moreover from this have "\<not> sublist p s" by (simp add: replace_once_None)
    ultimately show ?thesis by (subst replace_loop.simps) simp
  next
    case (Some s')
    then obtain a b where s: "s = a @ p @ b" "s' = a @ r @ b" by (rule replace_once_Some)
    have "count_list p c > 0" using assms(1) by (metis count_list_0_iff gr0I)
    moreover have "count_list r c = 0" using assms(2) by (simp add: count_list_0_iff)
    ultimately have "count_list s' c < count_list s c" by (simp add: s)
    then show ?thesis using less Some by (subst replace_loop.simps) simp
  qed
qed

text \<open>
  The replacement of a pattern that contains a character the replacement lacks (every
  \<open>%\<close>-pattern of the configuration with a plain replacement) always returns, and leaves no
  occurrence of the pattern in the new text.
\<close>

theorem mumu_string_replace_returns:
  assumes "c \<in> set toreplace" "c \<notin> set replacement"
  shows "\<exists>t l. mumu_string_replace source len True toreplace replacement = Some (t, l) \<and>
     \<not> sublist toreplace t \<and> len \<le> l \<and> (t \<noteq> source \<longrightarrow> length t < l)"
proof (cases "strstr source toreplace = None")
  case True
  then show ?thesis by (simp add: mumu_string_replace_def strstr_None_iff)
next
  case False
  obtain t where "replace_loop source toreplace replacement = Some t" "\<not> sublist toreplace t"
    using replace_loop_returns [OF assms] by blast
  then show ?thesis using False by (auto simp: mumu_string_replace_def Let_def)
qed

lemma replace_loop_no_pattern:
  "replace_loop s p r = Some t \<Longrightarrow> sublist p r \<longrightarrow> \<not> sublist p s"
proof (induction rule: replace_loop.raw_induct [rotated 1, consumes 1, case_names 1])
  case (1 f s p r t)
  show ?case
  proof (cases "replace_once s p r")
    case None
    then show ?thesis by (simp add: replace_once_None)
  next
    case (Some s')
    then obtain a b where s': "s' = a @ r @ b" by (rule replace_once_Some)
    have "sublist p r \<longrightarrow> \<not> sublist p s'" using 1 Some by auto
    moreover have "sublist p r \<Longrightarrow> sublist p s'"
      unfolding s' using sublist_order.order.trans [OF _ sublist_appendI [of r a b]] by blast
    ultimately show ?thesis by blast
  qed
qed

text \<open>
  The loop never returns when the pattern occurs in the source and also in its own
  replacement: each turn puts a new occurrence in place of the one it removes. A channel whose
  name contains \<open>%name\<close> does this to every template that uses \<open>%name\<close>.
\<close>

theorem mumu_string_replace_diverges:
  assumes "sublist toreplace source" "sublist toreplace replacement"
  shows "mumu_string_replace source len can_realloc toreplace replacement = None"
proof -
  have "replace_loop source toreplace replacement = None"
    using replace_loop_no_pattern [of source toreplace replacement] assms
    by (cases "replace_loop source toreplace replacement") auto
  moreover have "strstr source toreplace \<noteq> None" using assms by (simp add: strstr_None_iff)
  ultimately show ?thesis by (simp add: mumu_string_replace_def)
qed

theorem mumu_string_replace_returns_witness:
  "\<exists>t l. mumu_string_replace ''ch %name!'' 9 True ''%name'' ''News'' = Some (t, l) \<and>
     \<not> sublist ''%name'' t \<and> 9 \<le> l \<and> (t \<noteq> ''ch %name!'' \<longrightarrow> length t < l)"
  by (rule mumu_string_replace_returns [of "CHR ''%''"]) simp_all

theorem mumu_string_replace_diverges_witness:
  "mumu_string_replace ''%name'' 20 False ''%name'' ''a%nameb'' = None"
  by (rule mumu_string_replace_diverges) (simp_all add: sublist_Cons_right)

section \<open>Decimal output\<close>

text \<open>\<^verbatim>\<open>sprintf\<close> with \<^verbatim>\<open>%u\<close>, and with \<^verbatim>\<open>%d\<close> of a value that is not negative.\<close>

definition digit :: "nat \<Rightarrow> char" where "digit d = char_of (48 + d)"

fun print_u :: "nat \<Rightarrow> string" where
  "print_u n = (if n < 10 then [digit n] else print_u (n div 10) @ [digit (n mod 10)])"

declare print_u.simps [simp del]

lemma of_char_digit: "d < 10 \<Longrightarrow> (of_char (digit d) :: nat) = 48 + d"
  by (simp add: digit_def)

lemma of_char_digit_int: "d < 10 \<Longrightarrow> (of_char (digit d) :: int) = 48 + int d"
  using of_char_digit [of d] by (metis of_nat_add of_nat_numeral of_nat_of_char)

lemma is_digit_digit: "d < 10 \<Longrightarrow> is_digit (digit d)"
  by (simp add: is_digit_def of_char_digit)

lemma print_u_digits: "\<forall>c \<in> set (print_u n). is_digit c"
  by (induction n rule: print_u.induct) (subst print_u.simps, auto simp: is_digit_digit)

lemma print_u_ne [simp]: "print_u n \<noteq> []"
  by (subst print_u.simps) simp

lemma atoi_digits_append:
  "\<forall>c \<in> set a. is_digit c \<Longrightarrow> atoi_digits k (a @ b) = atoi_digits (atoi_digits k a) b"
  by (induction a arbitrary: k) auto

lemma atoi_digits_print_u: "atoi_digits 0 (print_u n) = int n"
proof (induction n rule: print_u.induct)
  case (1 n)
  show ?case
  proof (cases "n < 10")
    case True
    then show ?thesis by (subst print_u.simps) (simp add: is_digit_digit of_char_digit_int)
  next
    case False
    have "int n = int (n div 10) * 10 + int (n mod 10)"
      by (metis div_mult_mod_eq of_nat_add of_nat_mult of_nat_numeral)
    with False 1 show ?thesis
      by (subst print_u.simps)
        (simp add: atoi_digits_append print_u_digits is_digit_digit of_char_digit_int)
  qed
qed

lemma atoi_print_u: "atoi (print_u n) = int n"
proof -
  obtain c cs where c: "print_u n = c # cs" by (cases "print_u n") auto
  then have d: "is_digit c" using print_u_digits [of n] by simp
  then have "\<not> is_space c" "c \<noteq> CHR ''-''" "c \<noteq> CHR ''+''"
    by (auto simp: is_digit_def is_space_def)
  then show ?thesis using c atoi_digits_print_u [of n] by (simp add: atoi_def)
qed

lemma print_u_inj: "print_u m = print_u n \<longleftrightarrow> m = n"
  by (metis atoi_print_u of_nat_eq_iff)

lemma print_u_length: "n < 10 ^ k \<Longrightarrow> 0 < k \<Longrightarrow> length (print_u n) \<le> k"
proof (induction n arbitrary: k rule: print_u.induct)
  case (1 n)
  show ?case
  proof (cases "n < 10")
    case True
    then show ?thesis using 1 by (subst print_u.simps) simp
  next
    case False
    then obtain j where k: "k = Suc j" "0 < j" using 1 by (cases k; cases "k - 1") auto
    then have "n div 10 < 10 ^ j" using 1 by (simp add: less_mult_imp_div_less mult.commute)
    then show ?thesis using False k 1 by (subst print_u.simps) auto
  qed
qed

end
