(* ===== verification/Ts_Reassembly.thy ===== *)
theory Ts_Reassembly
  imports Ts_Assembler
begin

text \<open>
  Two uses of the section assembler of \<^verbatim>\<open>src/src/ts.c\<close>: the reassembly of a section sent in
  several packets, and the loop by which every client drains the queue. \<open>section_client\<close> is the
  contract of the loop body; the clients (PAT, SDT, EIT rewriting and autoconfiguration)
  interpret it.
\<close>

section \<open>Reassembly of a section that spans packets\<close>

text \<open>\<open>collecting pkt s n p c\<close>: the first \<open>n\<close> bytes of the section \<open>s\<close> have been received.\<close>

definition collecting :: "mumudvb_ts_packet_t \<Rightarrow> u8 list \<Rightarrow> nat \<Rightarrow> nat \<Rightarrow> nat \<Rightarrow> bool" where
  "collecting pkt s n p c \<longleftrightarrow> ts_inv pkt \<and> status_partial pkt = STARTED \<and> len_partial pkt = n \<and>
     take n (data_partial pkt) = take n s \<and> expected_len_partial pkt = length s \<and>
     pid pkt = p \<and> cc pkt = c \<and> n < length s"

text \<open>\<open>queued pkt pkt' s\<close>: the section \<open>s\<close> has been added at the end of the queue.\<close>

definition queued :: "mumudvb_ts_packet_t \<Rightarrow> mumudvb_ts_packet_t \<Rightarrow> u8 list \<Rightarrow> bool" where
  "queued pkt pkt' s \<longleftrightarrow> ts_inv pkt' \<and> full_sections pkt' = full_sections pkt @ [s] \<and>
     status_partial pkt' = EMPTY"

definition has_room :: "mumudvb_ts_packet_t \<Rightarrow> nat \<Rightarrow> bool" where
  "has_room pkt n \<longleftrightarrow> full_number pkt < MAX_FULL_PACKETS \<and> full_buffer_len pkt + n < FULL_BUFFER_SIZE"

lemma has_room_same_queue:
  "same_queue pkt pkt' \<Longrightarrow> queue_inv pkt \<Longrightarrow> has_room pkt' n = has_room pkt n"
  using length_full_sections [of pkt] length_full_sections [of pkt']
  by (simp add: has_room_def same_queue_def full_buffer_len_sections)

lemma ts_finish_queues:
  assumes q: "same_queue pkt pkt1" "queue_inv pkt" and st: "started pkt1" and room: "has_room pkt (length s)"
    and s: "len_partial pkt1 = length s" "expected_len_partial pkt1 = length s"
      "take (length s) (data_partial pkt1) = s" "section_ok s"
  shows "\<exists>pkt'. ts_finish_section pkt1 = Some pkt' \<and> queued pkt pkt' s"
proof -
  have q1: "queue_inv pkt1" using q by (simp add: same_queue_def)
  have "ts_finish_section pkt1 = ts_move_part_to_full (pkt1\<lparr>status_partial := VALID\<rparr>)"
    using s by (subst ts_finish_full [OF q1 st]) simp_all
  moreover have "has_room pkt1 (length s)" using room has_room_same_queue [OF q] by simp
  ultimately show ?thesis
    using ts_move_part_to_full_append [of "pkt1\<lparr>status_partial := VALID\<rparr>"] q1 s q st
    by (auto simp: has_room_def started_def queued_def same_queue_def ts_inv_def partial_inv_def)
qed

lemma add_ts_packet_data_stuffing:
  "off < length buf \<Longrightarrow> buf ! off = 0xff \<Longrightarrow>
   add_ts_packet_data buf off pkt left START_SECTION p c = Some pkt"
  by (subst add_ts_packet_data.simps) (simp add: mem_simps)

lemma add_ts_packet_data_new_section:
  assumes inv: "ts_inv pkt" and ok: "section_ok s" and room: "has_room pkt (length s)"
    and b: "off + left \<le> length buf" "left \<le> TS_PACKET_SIZE" "3 \<le> left"
    and payload: "take left (drop off buf) = take left (s @ replicate left 0xff)"
  shows "\<exists>pkt'. add_ts_packet_data buf off pkt left START_TS p c = Some pkt' \<and>
     (if length s \<le> left then queued pkt pkt' s else collecting pkt' s left p c \<and> same_queue pkt pkt')"
proof -
  have qi: "queue_inv pkt" using inv by (simp add: ts_inv_def)
  define k where "k = min (length s) left"
  have nthb: "buf ! (off + i) = (s @ replicate left 0xff) ! i" if "i < left" for i
  proof -
    have "take left (drop off buf) ! i = take left (s @ replicate left 0xff) ! i"
      by (simp only: payload)
    then show ?thesis using that b by (simp only: nth_take) simp
  qed
  have s3: "3 \<le> length s" "length s = HILO (bf_get (s ! 1) 0 4) (s ! 2) + 3"
    using ok by (simp_all add: section_ok_def BYTES_BFR_SEC_LEN_def)
  have sl: "HILO (bf_get (buf ! (off + 1)) 0 4) (buf ! (off + 2)) + 3 = length s"
    using nthb [of 1] nthb [of 2] s3 b by (simp add: nth_append)
  obtain pkt1 n left1 where st: "ts_start_section buf off pkt left p c = Some (pkt1, n, left1)"
      "same_queue pkt pkt1" "started pkt1" "pid pkt1 = p" "cc pkt1 = c" "len_partial pkt1 = n"
      "n + left1 = left" "n = min (length s) left" "expected_len_partial pkt1 = length s"
      "take n (data_partial pkt1) = take n (drop off buf)"
    using ts_start_section_spec [OF qi b(1,2), of p c] b(3) sl
    by (metis (no_types, lifting) linorder_not_less)
  have tk: "take n (data_partial pkt1) = take n s"
    using arg_cong [OF payload, of "take n"] st(8,10) by (simp add: min_absorb1)
  have ph: "status_partial pkt1 \<noteq> PARTIAL_HEADER" using st(3) by (simp add: started_def)
  show ?thesis
  proof (cases "length s \<le> left")
    case True
    then have n: "n = length s" using st(8) by simp
    then obtain pkt2 where f: "ts_finish_section pkt1 = Some pkt2" "queued pkt pkt2 s"
      using ts_finish_queues [OF st(2) qi st(3) room] st tk ok by auto
    have "left1 \<noteq> 0 \<Longrightarrow> add_ts_packet_data buf (off + n) pkt2 left1 START_SECTION p c = Some pkt2"
      using nthb [of n] b n st(7) by (intro add_ts_packet_data_stuffing) (auto simp: nth_append)
    then show ?thesis using st f ph True
      by (subst add_ts_packet_data.simps) auto
  next
    case False
    then have n: "n = left" "left1 = 0" using st(7,8) by auto
    have "ts_finish_section pkt1 = Some pkt1"
      using st False n by (intro ts_finish_partial) simp
    moreover have "collecting pkt1 s left p c"
      using st n tk False
      by (auto simp: collecting_def ts_inv_def same_queue_def started_def partial_inv_def)
    ultimately show ?thesis using st n ph False
      by (subst add_ts_packet_data.simps) auto
  qed
qed

lemma add_ts_packet_data_next:
  assumes col: "collecting pkt s n p c" and ok: "section_ok s" and room: "has_room pkt (length s)"
    and b: "off + left \<le> length buf"
    and payload: "take left (drop off buf) = take left (drop n s @ replicate left 0xff)"
    and c: "c' = (c + 1) mod 16" "c < 16"
  shows "\<exists>pkt'. add_ts_packet_data buf off pkt left NO_START p c' = Some pkt' \<and>
     (if length s \<le> n + left then queued pkt pkt' s else collecting pkt' s (n + left) p c' \<and> same_queue pkt pkt')"
proof -
  have inv: "ts_inv pkt" and st: "status_partial pkt = STARTED" and l: "len_partial pkt = n" "n < length s"
      "take n (data_partial pkt) = take n s" "expected_len_partial pkt = length s" "pid pkt = p" "cc pkt = c"
    using col by (simp_all add: collecting_def)
  have qi: "queue_inv pkt" using inv by (simp add: ts_inv_def)
  have smax: "length s \<le> MAX_TS_SIZE" using ok by (simp add: section_ok_def)
  define k where "k = min (length s) (n + left) - n"
  have "c \<noteq> c'" using c by (auto simp: mod_Suc)
  have pi: "partial_inv pkt" using inv by (simp add: ts_inv_def)
  obtain pkt1 where a: "ts_append_data buf off pkt left c' = Some pkt1" "same_queue pkt pkt1"
      "status_partial pkt1 = STARTED" "pid pkt1 = p" "cc pkt1 = c'" "expected_len_partial pkt1 = length s"
      "len_partial pkt1 = n + k"
      "take (len_partial pkt1) (data_partial pkt1) = take n s @ take k (drop off buf)"
    using ts_append_data_spec [OF qi st _ _ b, of c'] l smax
    by (auto simp: k_def min.commute min.left_commute)
  have k: "k \<le> left" "k \<le> length s - n" by (simp_all add: k_def)
  have "take k (take left (drop off buf)) = take k (take left (drop n s @ replicate left 0xff))"
    by (simp only: payload)
  then have "take k (drop off buf) = take k (drop n s)" using k by (simp add: min_absorb1)
  then have tk: "take (n + k) (data_partial pkt1) = take (n + k) s"
    using a(7,8) by (simp add: take_add)
  have ts: "ts_continue_section buf off pkt left p c' = Some (True, pkt1)"
    using st l c \<open>c \<noteq> c'\<close> a(1)
    by (simp add: ts_continue_section_def ts_complete_header_def)
  have n3: "3 \<le> n" using pi st l by (simp add: partial_inv_def)
  have "partial_expected pkt1 = partial_expected pkt"
    by (rule partial_expected_prefix [OF n3])
       (metis l(3) le_add1 take_prefix_eq tk)
  then have "partial_expected pkt1 = length s"
    using pi st l by (simp add: partial_inv_def)
  then have sd: "started pkt1"
    using a n3 l smax by (auto simp: started_def k_def)
  show ?thesis
  proof (cases "length s \<le> n + left")
    case True
    then have "n + k = length s" using l by (simp add: k_def)
    then obtain pkt2 where "ts_finish_section pkt1 = Some pkt2" "queued pkt pkt2 s"
      using ts_finish_queues [OF a(2) qi sd room] a tk ok by auto
    then show ?thesis using ts sd True
      by (subst add_ts_packet_data.simps) (auto simp: started_def)
  next
    case False
    then have k: "n + k = n + left" by (simp add: k_def)
    have "ts_finish_section pkt1 = Some pkt1"
      using a False k by (intro ts_finish_partial) simp
    moreover have "collecting pkt1 s (n + left) p c'"
      using a tk False k sd
      by (auto simp: collecting_def ts_inv_def same_queue_def started_def partial_inv_def)
    ultimately show ?thesis using ts sd False a
      by (subst add_ts_packet_data.simps) (auto simp: started_def)
  qed
qed

text \<open>
  How a multiplexer sends a section (ISO/IEC 13818-1 2.4.4): a packet with the unit start
  indicator and a zero pointer field, then packets with the next continuity counters, the last
  one stuffed with 0xff.
\<close>

definition psi_header :: "u8 \<Rightarrow> nat \<Rightarrow> nat \<Rightarrow> ts_header_t" where
  "psi_header pusi p c = \<lparr>
     ts_header_t.sync_byte = 0x47, ts_header_t.pid_hi = word_of_nat (p div 256),
     ts_header_t.transport_priority = 0, ts_header_t.payload_unit_start_indicator = pusi,
     ts_header_t.transport_error_indicator = 0, ts_header_t.pid_lo = word_of_nat p,
     ts_header_t.continuity_counter = word_of_nat c, ts_header_t.adaptation_field_control = 1,
     ts_header_t.transport_scrambling_control = 0\<rparr>"

definition stuffed :: "nat \<Rightarrow> u8 list \<Rightarrow> u8 list" where
  "stuffed n s = take n (s @ replicate n 0xff)"

function continuation_packets :: "nat \<Rightarrow> nat \<Rightarrow> u8 list \<Rightarrow> u8 list list" where
  "continuation_packets p c s =
     (if s = [] then []
      else (ts_header_bytes (psi_header 0 p c) @ stuffed 184 s) #
           continuation_packets p ((c + 1) mod 16) (drop 184 s))"
  by pat_completeness auto
termination by (relation "measure (\<lambda>(p, c, s). length s)") auto

declare continuation_packets.simps [simp del]

definition section_packets :: "nat \<Rightarrow> nat \<Rightarrow> u8 list \<Rightarrow> u8 list list" where
  "section_packets p c s =
     (ts_header_bytes (psi_header 1 p c) @ 0 # stuffed 183 s) #
     continuation_packets p ((c + 1) mod 16) (drop 183 s)"

fun feed_packets :: "u8 list list \<Rightarrow> mumudvb_ts_packet_t \<Rightarrow> mumudvb_ts_packet_t option" where
  "feed_packets [] pkt = Some pkt"
| "feed_packets (b # bs) pkt = do { (_, pkt) \<leftarrow> get_ts_packet (Some b) pkt; feed_packets bs pkt}"

definition looks_like_pes :: "u8 list \<Rightarrow> bool" where
  "looks_like_pes payload \<longleftrightarrow> take 3 payload = [0, 0, 1]"

lemma length_stuffed [simp]: "length (stuffed n s) = n"
  by (simp add: stuffed_def)

lemma unat_word_of_nat_small: "n < 256 \<Longrightarrow> unat (word_of_nat n :: u8) = n"
  by (simp add: unat_of_nat take_bit_nat_eq_self)

lemma psi_header_norm:
  assumes "p < 8192" "c < 16" "pusi \<le> 1"
  shows "ts_header_pid (ts_header_norm (psi_header pusi p c)) = p"
    "unat (ts_header_t.continuity_counter (ts_header_norm (psi_header pusi p c))) = c"
    "ts_header_t.adaptation_field_control (ts_header_norm (psi_header pusi p c)) = 1"
    "ts_header_t.payload_unit_start_indicator (ts_header_norm (psi_header pusi p c)) = pusi"
proof -
  have "p div 256 < 32" using assms by simp
  then have "unat (take_bit 5 (word_of_nat (p div 256) :: u8)) = p div 256"
    by (simp add: unsigned_take_bit_eq unat_word_of_nat_small take_bit_nat_eq_self)
  moreover have "unat (word_of_nat p :: u8) = p mod 256"
    by (simp add: unat_of_nat take_bit_eq_mod)
  ultimately show "ts_header_pid (ts_header_norm (psi_header pusi p c)) = p"
    by (simp add: ts_header_pid_def ts_header_norm_def psi_header_def HILO_eq)
  show "unat (ts_header_t.continuity_counter (ts_header_norm (psi_header pusi p c))) = c"
    using assms
    by (simp add: ts_header_norm_def psi_header_def unsigned_take_bit_eq unat_word_of_nat_small
        take_bit_nat_eq_self)
  show "ts_header_t.adaptation_field_control (ts_header_norm (psi_header pusi p c)) = 1"
    by (simp add: ts_header_norm_def psi_header_def)
  have "pusi = 0 \<or> pusi = 1" using assms(3) by (metis antisym_conv2 word_less_1)
  then show "ts_header_t.payload_unit_start_indicator (ts_header_norm (psi_header pusi p c)) = pusi"
    by (auto simp: ts_header_norm_def psi_header_def)
qed

lemma length_ts_header_bytes: "length (ts_header_bytes h) = 4"
  by (simp add: ts_header_bytes_def)

lemma ts_feed_psi:
  assumes p: "p < 8192" "c < 16" "pusi \<le> 1" and len: "length payload = 184"
    and pes: "\<not> looks_like_pes payload"
  defines "buf \<equiv> ts_header_bytes (psi_header pusi p c) @ payload"
  shows "length buf = TS_PACKET_SIZE" "drop 4 buf = payload"
    "pusi = 0 \<Longrightarrow> ts_feed buf avail pkt = do {
       pkt \<leftarrow> add_ts_packet_data buf 4 pkt 184 NO_START p c; Some (avail, pkt)}"
    "pusi = 1 \<Longrightarrow> payload ! 0 = 0 \<Longrightarrow> ts_feed buf avail pkt = do {
       pkt \<leftarrow> add_ts_packet_data buf 5 pkt 183 START_TS p c; Some (avail, pkt)}"
proof -
  define h where "h = ts_header_norm (psi_header pusi p c)"
  show l: "length buf = TS_PACKET_SIZE" and d: "drop 4 buf = payload"
    using len by (simp_all add: buf_def length_ts_header_bytes TS_PACKET_SIZE_def)
  have hd: "struct_at sizeof_ts_header_t ts_header_of buf 0 = Some h"
    using l by (simp add: struct_at_def sizeof_ts_header_t_def TS_PACKET_SIZE_def buf_def h_def
        ts_header_s.dec_enc)
  note hf = psi_header_norm [OF p, folded h_def]
  have nth: "buf ! 4 = payload ! 0" "buf ! 5 = payload ! 1" "buf ! 6 = payload ! 2"
    by (simp_all add: buf_def nth_append length_ts_header_bytes)
  have "take 3 payload = [payload ! 0, payload ! 1, payload ! 2]"
    using len by (simp add: take_conv_nth upt_from_0 upt_from_1)
  then have "\<not> (buf ! 4 = 0 \<and> buf ! 5 = 0 \<and> buf ! 6 = 1)"
    using pes by (simp add: looks_like_pes_def nth)
  then have "is_pes_start buf 4 = Some False"
    using l by (auto simp: is_pes_start_def mem_simps TS_PACKET_SIZE_def)
  then have po: "ts_payload_offset buf h = Some (Some 4)"
    using hf(3) by (simp add: ts_payload_offset_def TS_HEADER_LEN_def)
  show "pusi = 0 \<Longrightarrow> ts_feed buf avail pkt = do {
       pkt \<leftarrow> add_ts_packet_data buf 4 pkt 184 NO_START p c; Some (avail, pkt)}"
    using hd po hf by (simp add: ts_feed_def TS_PACKET_SIZE_def)
  show "pusi = 1 \<Longrightarrow> payload ! 0 = 0 \<Longrightarrow> ts_feed buf avail pkt = do {
       pkt \<leftarrow> add_ts_packet_data buf 5 pkt 183 START_TS p c; Some (avail, pkt)}"
    using hd po hf l by (simp add: ts_feed_def TS_PACKET_SIZE_def mem_simps nth)
qed

lemma get_ts_packet_idle:
  "ts_inv pkt \<Longrightarrow> full_sections pkt = [] \<Longrightarrow>
   get_ts_packet (Some buf) pkt = ts_feed buf False pkt"
  using length_full_sections [of pkt]
  by (simp add: get_ts_packet_def ts_pop_full_None ts_inv_def)

lemma has_room_idle:
  "ts_inv pkt \<Longrightarrow> full_sections pkt = [] \<Longrightarrow> section_ok s \<Longrightarrow> has_room pkt (length s)"
  using length_full_sections [of pkt] full_buffer_len_sections [of pkt]
  by (simp add: has_room_def ts_inv_def section_ok_def ts_sizes)

lemma feed_continuation:
  "collecting pkt s n p c \<Longrightarrow> full_sections pkt = [] \<Longrightarrow> section_ok s \<Longrightarrow> p < 8192 \<Longrightarrow> c < 16 \<Longrightarrow>
   \<forall>b \<in> set (continuation_packets p ((c + 1) mod 16) (drop n s)). \<not> looks_like_pes (drop 4 b) \<Longrightarrow>
   \<exists>pkt'. feed_packets (continuation_packets p ((c + 1) mod 16) (drop n s)) pkt = Some pkt' \<and>
      ts_inv pkt' \<and> full_sections pkt' = [s]"
proof (induction "length s - n" arbitrary: n pkt c rule: less_induct)
  case less
  define c' where "c' = (c + 1) mod 16"
  define b where "b = ts_header_bytes (psi_header 0 p c') @ stuffed 184 (drop n s)"
  have n: "n < length s" using less.prems(1) by (simp add: collecting_def)
  have inv: "ts_inv pkt" using less.prems(1) by (simp add: collecting_def)
  have c': "c' < 16" by (simp add: c'_def)
  have unf: "continuation_packets p c' (drop n s) = b # continuation_packets p ((c' + 1) mod 16) (drop (n + 184) s)"
    using n by (subst continuation_packets.simps) (simp add: b_def add.commute)
  have pes: "\<not> looks_like_pes (stuffed 184 (drop n s))"
    using less.prems(6) unf by (simp add: c'_def b_def length_ts_header_bytes)
  note feed = ts_feed_psi [OF less.prems(4) c' _ length_stuffed pes, of 0, folded b_def, simplified]
  have "take 184 (drop 4 b) = take 184 (drop n s @ replicate 184 0xff)"
    by (simp add: b_def length_ts_header_bytes stuffed_def)
  moreover have "4 + 184 \<le> length b" using feed(1) by (simp add: TS_PACKET_SIZE_def)
  ultimately obtain pkt1 where 1: "add_ts_packet_data b 4 pkt 184 NO_START p c' = Some pkt1"
      "if length s \<le> n + 184 then queued pkt pkt1 s
       else collecting pkt1 s (n + 184) p c' \<and> same_queue pkt pkt1"
    using add_ts_packet_data_next [OF less.prems(1,3) has_room_idle [OF inv less.prems(2,3)], of 4 184 b c']
      less.prems(5) by (auto simp: c'_def)
  have g: "get_ts_packet (Some b) pkt = Some (False, pkt1)"
    using get_ts_packet_idle [OF inv less.prems(2)] feed(3) 1 by simp
  show ?case
  proof (cases "length s \<le> n + 184")
    case True
    then have "continuation_packets p ((c' + 1) mod 16) (drop (n + 184) s) = []"
      by (subst continuation_packets.simps) simp
    then show ?thesis unfolding c'_def [symmetric] using g 1 True unf less.prems(2)
      by (simp add: queued_def)
  next
    case False
    have "full_sections pkt1 = []" using 1 False less.prems(2) by (simp add: same_queue_def)
    moreover have "\<forall>b\<in>set (continuation_packets p ((c' + 1) mod 16) (drop (n + 184) s)).
        \<not> looks_like_pes (drop 4 b)"
      using less.prems(6) unfolding c'_def [symmetric] unf by simp
    moreover have "length s - (n + 184) < length s - n" using n False by linarith
    ultimately obtain pkt' where
      "feed_packets (continuation_packets p ((c' + 1) mod 16) (drop (n + 184) s)) pkt1 = Some pkt'"
      "ts_inv pkt'" "full_sections pkt' = [s]"
      using less.hyps [of "n + 184" pkt1 c'] 1 False n c' less.prems(3,4)
      by auto
    then show ?thesis unfolding c'_def [symmetric] using g unf by simp
  qed
qed

lemma feed_section_packets:
  assumes inv: "ts_inv pkt" "full_sections pkt = []" and ok: "section_ok s"
    and p: "p < 8192" "c < 16"
    and pes: "\<forall>b \<in> set (section_packets p c s). \<not> looks_like_pes (drop 4 b)"
  shows "\<exists>pkt1 pkt2. feed_packets (section_packets p c s) pkt = Some pkt1 \<and>
     get_ts_packet None pkt1 = Some (True, pkt2) \<and>
     take (len_full pkt2) (data_full pkt2) = s \<and> full_sections pkt2 = []"
proof -
  define b where "b = ts_header_bytes (psi_header 1 p c) @ 0 # stuffed 183 s"
  have pes1: "\<not> looks_like_pes (0 # stuffed 183 s)"
    using pes by (simp add: section_packets_def b_def length_ts_header_bytes)
  have len: "length (0 # stuffed 183 s) = 184" by simp
  note feed = ts_feed_psi [OF p _ len pes1, of 1, folded b_def, simplified]
  have "take 183 (drop 5 b) = take 183 (s @ replicate 183 0xff)"
    by (simp add: b_def length_ts_header_bytes stuffed_def)
  moreover have "5 + 183 \<le> length b" using feed(1) by (simp add: TS_PACKET_SIZE_def)
  ultimately obtain pkt1 where 1: "add_ts_packet_data b 5 pkt 183 START_TS p c = Some pkt1"
     "if length s \<le> 183 then queued pkt pkt1 s else collecting pkt1 s 183 p c \<and> same_queue pkt pkt1"
    using add_ts_packet_data_new_section [OF inv(1) ok has_room_idle [OF inv ok], of 5 183 b p c]
    by (auto simp: TS_PACKET_SIZE_def)
  have g: "get_ts_packet (Some b) pkt = Some (False, pkt1)"
    using get_ts_packet_idle [OF inv] feed(4) 1 by simp
  have "\<exists>pkt'. feed_packets (section_packets p c s) pkt = Some pkt' \<and> ts_inv pkt' \<and> full_sections pkt' = [s]"
  proof (cases "length s \<le> 183")
    case True
    then have "continuation_packets p ((c + 1) mod 16) (drop 183 s) = []"
      by (subst continuation_packets.simps) simp
    then show ?thesis using g 1 True inv
      by (simp add: section_packets_def queued_def flip: b_def)
  next
    case False
    then have "collecting pkt1 s 183 p c" "full_sections pkt1 = []"
      using 1 inv by (simp_all add: same_queue_def)
    then show ?thesis
      using feed_continuation [OF _ _ ok p, of pkt1 183] g pes
      by (simp add: section_packets_def flip: b_def)
  qed
  then obtain pkt' where f: "feed_packets (section_packets p c s) pkt = Some pkt'" "ts_inv pkt'"
      "full_sections pkt' = [s]" by blast
  obtain pkt2 where "ts_pop_full pkt' = Some (True, pkt2)" "full_sections pkt2 = []"
      "len_full pkt2 = length s" "take (length s) (data_full pkt2) = s"
    using ts_pop_full_Some [OF f(3,2)] by blast
  with f show ?thesis by (auto simp: get_ts_packet_def)
qed

text \<open>
  C3. Round trip of segmentation and reassembly: a section sent in any number of packets, with
  the continuity counter running modulo 16, is handed to the client unchanged by the calls that
  receive the packets and the next one. The exception is the code's own: a packet whose payload
  starts with the bytes of a PES start code is taken for a PES packet, also when it continues a
  section.
\<close>

theorem section_reassembly:
  assumes inv: "ts_inv pkt" "full_sections pkt = []" and ok: "section_ok s"
    and p: "p < 8192" "c < 16"
    and pes: "\<forall>b \<in> set (section_packets p c s). \<not> looks_like_pes (drop 4 b)"
  shows "\<exists>pkt1 pkt2. feed_packets (section_packets p c s) pkt = Some pkt1 \<and>
     get_ts_packet None pkt1 = Some (True, pkt2) \<and>
     take (len_full pkt2) (data_full pkt2) = s \<and> full_sections pkt2 = []"
  by (rule feed_section_packets [OF assms])

text \<open>
  Known loss: when the packet of a call is ignored (no payload, invalid adaptation field,
  PES start code) the call answers whether further sections are queued, not whether it handed
  one over; the last queued section is taken out of the queue and reported as absent.
\<close>

theorem get_ts_packet_loses_section:
  assumes "ts_inv pkt" "full_sections pkt = [s]" "TS_PACKET_SIZE \<le> length buf"
    and "ts_payload_offset buf (ts_header_of buf) = Some None"
  shows "\<exists>pkt'. get_ts_packet (Some buf) pkt = Some (False, pkt') \<and> full_sections pkt' = []"
proof -
  obtain pkt' where 1: "ts_pop_full pkt = Some (True, pkt')" "full_sections pkt' = []" "ts_inv pkt'"
    using ts_pop_full_Some [OF assms(2,1)] by blast
  then have "full_number pkt' = 0" using length_full_sections [of pkt'] by (simp add: ts_inv_def)
  moreover have "struct_at sizeof_ts_header_t ts_header_of buf 0 = Some (ts_header_of buf)"
    using assms(3) by (simp add: struct_at_def sizeof_ts_header_t_def TS_PACKET_SIZE_def)
  ultimately show ?thesis using 1 assms(4) by (simp add: get_ts_packet_def ts_feed_def)
qed

subsection \<open>Witnesses\<close>

definition sample_section :: "u8 list" where
  "sample_section = (let base = [0x42, 0xf0, 0xc5] @ replicate 193 0x11 in
     base @ crc32_bytes (crc32_run 0xffffffff base))"

lemma sample_section_ok: "section_ok sample_section"
proof -
  have "crc32_run 0xffffffff sample_section = 0"
    by (simp add: sample_section_def Let_def crc32_run_append crc32_run_own_bytes
        del: crc32_run_simps append_Cons)
  moreover have "HILO (bf_get (sample_section ! 1) 0 4) (sample_section ! 2) = 197"
    by (simp add: sample_section_def Let_def HILO_def bf_get_def)
  ultimately show ?thesis
    by (simp add: section_ok_def ts_sizes) (simp add: sample_section_def Let_def crc32_bytes_def)
qed

theorem get_ts_packet_safe_witness:
  "\<exists>r pkt'. get_ts_packet (Some (replicate 188 0x47)) empty_ts_packet = Some (r, pkt') \<and> ts_inv pkt'"
  by (rule get_ts_packet_safe) (simp_all add: ts_inv_empty ts_sizes)


lemma sample_section_no_pes:
  "\<forall>b \<in> set (section_packets 17 3 sample_section). \<not> looks_like_pes (drop 4 b)"
proof -
  have "continuation_packets 17 4 (drop 183 sample_section) =
      [ts_header_bytes (psi_header 0 17 4) @ stuffed 184 (drop 183 sample_section)]"
    by (subst continuation_packets.simps, subst continuation_packets.simps)
       (simp add: sample_section_def Let_def crc32_bytes_def)
  then show ?thesis
    by (simp add: section_packets_def length_ts_header_bytes looks_like_pes_def stuffed_def
        sample_section_def Let_def) (simp add: numeral_3_eq_3)
qed

theorem section_reassembly_witness:
  "\<exists>pkt1 pkt2. feed_packets (section_packets 17 3 sample_section) empty_ts_packet = Some pkt1 \<and>
     get_ts_packet None pkt1 = Some (True, pkt2) \<and>
     take (len_full pkt2) (data_full pkt2) = sample_section \<and> full_sections pkt2 = []"
  by (rule section_reassembly)
     (simp_all add: ts_inv_empty full_sections_empty sample_section_ok sample_section_no_pes)

definition sample_queued :: mumudvb_ts_packet_t where
  "sample_queued = (let s = [0x72, 0x00, 0x00] in
     empty_ts_packet\<lparr>full_number := 1, full_lengths := 3 # replicate 14 0, full_buffer_len := 3,
       buffer_full := s @ replicate 8189 0\<rparr>)"

lemma sample_queued_ok: "full_sections sample_queued = [[0x72, 0, 0]]" "ts_inv sample_queued"
proof -
  have ok: "section_ok [0x72, 0, 0]" by (simp add: section_ok_def ts_sizes HILO_def bf_get_def)
  show fs: "full_sections sample_queued = [[0x72, 0, 0]]"
    by (simp add: full_sections_def sample_queued_def empty_ts_packet_def Let_def)
  have "queue_inv sample_queued"
    unfolding queue_inv_def fs
    by (simp add: ok) (simp add: ts_bufs_def sample_queued_def empty_ts_packet_def Let_def ts_sizes)
  then show "ts_inv sample_queued"
    by (simp add: ts_inv_def partial_inv_def sample_queued_def empty_ts_packet_def Let_def)
qed

theorem get_ts_packet_loses_section_witness:
  "\<exists>pkt'. get_ts_packet (Some ([0x47, 0, 0, 0x20, 183] @ replicate 183 0)) sample_queued = Some (False, pkt') \<and>
     full_sections pkt' = []"
  by (rule get_ts_packet_loses_section [OF sample_queued_ok(2,1)])
     (simp_all add: TS_PACKET_SIZE_def ts_payload_offset_def ts_header_of_def bf_get_def TS_HEADER_LEN_def mem_simps)

section \<open>Draining the queue\<close>

text \<open>
  Every client calls \<^verbatim>\<open>while(get_ts_packet(ts_packet, pkt)) { ts_packet = NULL; ... }\<close>, some with
  a further condition on their own state. The loop ends because each call with \<^verbatim>\<open>NULL\<close> that
  answers yes takes one section out of the queue.
\<close>

lemma ts_pop_full_decreases:
  "ts_pop_full pkt = Some (True, pkt') \<Longrightarrow> full_number pkt' < full_number pkt"
  by (auto simp: ts_pop_full_def Let_def split: if_splits Option.bind_splits)

lemma get_ts_packet_NULL: "get_ts_packet None pkt = ts_pop_full pkt"
  by (simp add: get_ts_packet_def split: Option.bind_split)

function ts_drain ::
  "('s \<Rightarrow> bool) \<Rightarrow> ('s \<Rightarrow> mumudvb_ts_packet_t \<Rightarrow> 's option) \<Rightarrow> mumudvb_ts_packet_t \<Rightarrow> 's \<Rightarrow>
   (mumudvb_ts_packet_t \<times> 's) option" where
  "ts_drain guard body pkt st =
     (if \<not> guard st then Some (pkt, st)
      else case get_ts_packet None pkt of
          None \<Rightarrow> None
        | Some (r, pkt') \<Rightarrow>
            if \<not> r then Some (pkt', st)
            else (case body st pkt' of None \<Rightarrow> None | Some st' \<Rightarrow> ts_drain guard body pkt' st'))"
  by pat_completeness auto
termination
  by (relation "measure (\<lambda>(guard, body, pkt, st). full_number pkt)")
     (auto simp: get_ts_packet_NULL dest: ts_pop_full_decreases)

declare ts_drain.simps [simp del]

definition ts_while ::
  "('s \<Rightarrow> bool) \<Rightarrow> ('s \<Rightarrow> mumudvb_ts_packet_t \<Rightarrow> 's option) \<Rightarrow> u8 list \<Rightarrow> mumudvb_ts_packet_t \<Rightarrow> 's \<Rightarrow>
   (mumudvb_ts_packet_t \<times> 's) option" where
  "ts_while guard body ts_packet pkt st =
     (if \<not> guard st then Some (pkt, st)
      else do {
        (r, pkt) \<leftarrow> get_ts_packet (Some ts_packet) pkt;
        if \<not> r then Some (pkt, st)
        else do {
          st \<leftarrow> body st pkt;
          ts_drain guard body pkt st}})"

definition received_section :: "mumudvb_ts_packet_t \<Rightarrow> u8 list" where
  "received_section pkt = take (len_full pkt) (data_full pkt)"

lemma ts_feed_True: "ts_feed buf avail pkt = Some (True, pkt') \<Longrightarrow> avail \<or> full_number pkt > 0"
  by (auto simp: ts_feed_def Let_def split: Option.bind_splits option.splits if_splits)

lemma section_ok_length: "section_ok s \<Longrightarrow> length s \<le> MAX_TS_SIZE"
  by (simp add: section_ok_def)

lemma get_ts_packet_delivers:
  assumes "ts_inv pkt" "get_ts_packet buf pkt = Some (True, pkt')"
    "\<forall>b. buf = Some b \<longrightarrow> TS_PACKET_SIZE \<le> length b"
  shows "ts_inv pkt' \<and> section_ok (received_section pkt') \<and> length (data_full pkt') = MAX_TS_SIZE \<and>
     len_full pkt' \<le> MAX_TS_SIZE"
proof -
  obtain pkt0 where 0: "ts_pop_full pkt = Some (full_sections pkt \<noteq> [], pkt0)"
     "full_sections pkt0 = tl (full_sections pkt)" "ts_inv pkt0" "ts_inv pkt'"
     "full_sections pkt \<noteq> [] \<longrightarrow> len_full pkt' = length (hd (full_sections pkt)) \<and>
        take (len_full pkt') (data_full pkt') = hd (full_sections pkt)"
    using get_ts_packet_total [OF assms(1,3)] assms(2) by (auto simp: adds_def)
  have "full_sections pkt \<noteq> []"
  proof
    assume n: "full_sections pkt = []"
    then have "full_number pkt0 = 0"
      using 0 length_full_sections [of pkt0] by (simp add: ts_inv_def)
    then show False
      using assms(2) 0(1) n ts_feed_True
      by (cases buf) (fastforce simp: get_ts_packet_def)+
  qed
  then show ?thesis
    using 0 assms(1)
    by (cases "full_sections pkt")
       (auto simp: received_section_def ts_inv_def queue_inv_def ts_bufs_def dest: section_ok_length)
qed

text \<open>
  The contract of a client: on every CRC-correct section its body returns and keeps its
  invariant. It gives, for all clients at once, that the loop returns, whatever is received.
\<close>

locale section_client =
  fixes guard :: "'s \<Rightarrow> bool"
    and body :: "'s \<Rightarrow> mumudvb_ts_packet_t \<Rightarrow> 's option"
    and I :: "'s \<Rightarrow> bool"
  assumes body_ok: "I st \<Longrightarrow> guard st \<Longrightarrow> ts_inv pkt \<Longrightarrow> length (data_full pkt) = MAX_TS_SIZE \<Longrightarrow>
    len_full pkt \<le> MAX_TS_SIZE \<Longrightarrow> section_ok (received_section pkt) \<Longrightarrow> \<exists>st'. body st pkt = Some st' \<and> I st'"
begin

lemma drain_ok:
  "ts_inv pkt \<Longrightarrow> I st \<Longrightarrow>
   \<exists>pkt' st'. ts_drain guard body pkt st = Some (pkt', st') \<and> ts_inv pkt' \<and> I st' \<and>
     (guard st' \<longrightarrow> full_sections pkt' = [])"
proof (induction "full_number pkt" arbitrary: pkt st rule: less_induct)
  case less
  obtain r pkt' where g: "get_ts_packet None pkt = Some (r, pkt')" "ts_inv pkt'"
    using get_ts_packet_safe [of pkt None] less.prems by auto
  show ?case
  proof (cases "guard st \<and> r")
    case True
    then have s: "section_ok (received_section pkt')" "length (data_full pkt') = MAX_TS_SIZE" "len_full pkt' \<le> MAX_TS_SIZE"
      using get_ts_packet_delivers [OF less.prems(1)] g by auto
    then obtain st' where b: "body st pkt' = Some st'" "I st'"
      using body_ok [OF less.prems(2)] True g by blast
    moreover have "full_number pkt' < full_number pkt"
      using g True by (auto simp: get_ts_packet_NULL dest: ts_pop_full_decreases)
    ultimately show ?thesis
      using less.hyps [of pkt' st'] g True by (subst ts_drain.simps) simp
  next
    case False
    have "\<not> r \<longrightarrow> full_sections pkt' = []"
      using ts_pop_full_total [OF less.prems(1)] g by (auto simp: get_ts_packet_NULL)
    then show ?thesis using False g less.prems by (subst ts_drain.simps) auto
  qed
qed

lemma while_ok:
  assumes "ts_inv pkt" "I st" "TS_PACKET_SIZE \<le> length b"
  shows "\<exists>pkt' st'. ts_while guard body b pkt st = Some (pkt', st') \<and> ts_inv pkt' \<and> I st'"
proof -
  obtain r pkt' where g: "get_ts_packet (Some b) pkt = Some (r, pkt')" "ts_inv pkt'"
    using get_ts_packet_safe [of pkt "Some b"] assms by auto
  show ?thesis
  proof (cases "guard st \<and> r")
    case True
    then have "section_ok (received_section pkt')" "length (data_full pkt') = MAX_TS_SIZE" "len_full pkt' \<le> MAX_TS_SIZE"
      using get_ts_packet_delivers [OF assms(1), of "Some b"] g assms(3) by auto
    then obtain st' where "body st pkt' = Some st'" "I st'"
      using body_ok [OF assms(2)] True g by blast
    then show ?thesis using drain_ok [OF g(2)] g True by (fastforce simp: ts_while_def)
  next
    case False
    then show ?thesis using g assms by (auto simp: ts_while_def)
  qed
qed

end

section \<open>A whole section in one packet\<close>

text \<open>The case of the rewriters: any header with payload only, a zero pointer and the section.\<close>

lemma ts_feed_single_queued:
  assumes inv: "ts_inv pkt" "full_sections pkt = []" and ok: "section_ok s" "length s \<le> 183"
    and len: "length b = TS_PACKET_SIZE"
    and h: "ts_header_t.adaptation_field_control (ts_header_of b) = 1"
      "ts_header_t.payload_unit_start_indicator (ts_header_of b) \<noteq> 0"
    and payload: "drop 4 b = 0 # s @ replicate (183 - length s) 0xff"
    and pes: "\<not> (s ! 0 = 0 \<and> s ! 1 = 1)"
  shows "\<exists>pkt1. get_ts_packet (Some b) pkt = Some (False, pkt1) \<and> ts_inv pkt1 \<and> full_sections pkt1 = [s]"
proof -
  have s3: "3 \<le> length s" using ok by (simp add: section_ok_def)
  have nth: "b ! (4 + i) = (0 # s @ replicate (183 - length s) 0xff) ! i" for i
    using arg_cong [OF payload, of "\<lambda>l. l ! i"] len by (simp add: TS_PACKET_SIZE_def)
  have n4: "b ! 4 = 0" "b ! 5 = s ! 0" "b ! 6 = s ! 1"
    using nth [of 0] nth [of 1] nth [of 2] s3 by (auto simp: nth_append)
  have hd: "struct_at sizeof_ts_header_t ts_header_of b 0 = Some (ts_header_of b)"
    using len by (simp add: struct_at_def sizeof_ts_header_t_def TS_PACKET_SIZE_def)
  have "is_pes_start b 4 = Some False"
    using len n4 pes by (auto simp: is_pes_start_def mem_simps TS_PACKET_SIZE_def)
  then have po: "ts_payload_offset b (ts_header_of b) = Some (Some 4)"
    using h(1) by (simp add: ts_payload_offset_def TS_HEADER_LEN_def)
  define p where "p = ts_header_pid (ts_header_of b)"
  define c where "c = unat (ts_header_t.continuity_counter (ts_header_of b))"
  have "drop 5 b = drop 1 (drop 4 b)" by simp
  then have "drop 5 b = s @ replicate (183 - length s) 0xff" by (simp only: payload) simp
  then have "take 183 (drop 5 b) = take 183 (s @ replicate 183 0xff)"
    using ok by simp
  then obtain pkt1 where a: "add_ts_packet_data b 5 pkt 183 START_TS p c = Some pkt1" "queued pkt pkt1 s"
    using add_ts_packet_data_new_section [OF inv(1) ok(1) has_room_idle [OF inv ok(1)], of 5 183 b p c] ok len
    by (auto simp: TS_PACKET_SIZE_def)
  have "ts_feed b False pkt = Some (False, pkt1)"
    using hd po h n4 a(1) len
    by (simp add: ts_feed_def TS_PACKET_SIZE_def mem_simps p_def c_def)
  then have g: "get_ts_packet (Some b) pkt = Some (False, pkt1)"
    using get_ts_packet_idle [OF inv] by simp
  moreover have "full_sections pkt1 = [s]" "ts_inv pkt1" using a(2) inv by (simp_all add: queued_def)
  ultimately show ?thesis by blast
qed

lemma ts_feed_single:
  assumes inv: "ts_inv pkt" "full_sections pkt = []" and ok: "section_ok s" "length s \<le> 183"
    and len: "length b = TS_PACKET_SIZE"
    and h: "ts_header_t.adaptation_field_control (ts_header_of b) = 1"
      "ts_header_t.payload_unit_start_indicator (ts_header_of b) \<noteq> 0"
    and payload: "drop 4 b = 0 # s @ replicate (183 - length s) 0xff"
    and pes: "\<not> (s ! 0 = 0 \<and> s ! 1 = 1)"
  shows "\<exists>pkt1 pkt2. get_ts_packet (Some b) pkt = Some (False, pkt1) \<and>
     get_ts_packet None pkt1 = Some (True, pkt2) \<and> received_section pkt2 = s \<and> full_sections pkt2 = []"
proof -
  obtain pkt1 where g: "get_ts_packet (Some b) pkt = Some (False, pkt1)" and q: "full_sections pkt1 = [s]" "ts_inv pkt1"
    using ts_feed_single_queued [OF assms] by blast
  obtain pkt2 where "ts_pop_full pkt1 = Some (True, pkt2)" "full_sections pkt2 = []"
      "len_full pkt2 = length s" "take (length s) (data_full pkt2) = s"
    using ts_pop_full_Some [OF q] by blast
  with g show ?thesis by (auto simp: get_ts_packet_def received_section_def)
qed

section \<open>The first section of a packet\<close>

text \<open>
  \<^verbatim>\<open>get_ts_begin\<close> accepts an adaptation field length of 184, one more than fits, and looks for a
  PES start code behind it. It is defined when four bytes follow the packet in memory, as they
  do in the card buffer except after its last packet.
\<close>

lemma ts_begin_at_total:
  assumes "TS_PACKET_SIZE + 4 \<le> length b" "d \<le> 189"
  shows "\<exists>r. ts_begin_at b h d = Some r \<and> (\<forall>off. r = Some off \<longrightarrow> off \<le> TS_PACKET_SIZE)"
proof -
  have "\<exists>r. is_pes_start b d = Some r"
    using assms by (auto simp: is_pes_start_def mem_simps TS_PACKET_SIZE_def)
  then obtain r where r: "(if ts_header_t.adaptation_field_control h AND 1 \<noteq> 0 then is_pes_start b d else Some False) = Some r"
    by (cases "ts_header_t.adaptation_field_control h AND 1 = 0") auto
  have rd: "rd b d = Some (b ! d)" using assms by (simp add: mem_simps TS_PACKET_SIZE_def)
  show ?thesis unfolding ts_begin_at_def Let_def r bind.bind_lunit using rd by auto
qed

lemma get_ts_begin_total:
  assumes "TS_PACKET_SIZE + 4 \<le> length b"
  shows "\<exists>r. get_ts_begin b = Some r \<and> (\<forall>off. r = Some off \<longrightarrow> off \<le> TS_PACKET_SIZE)"
proof -
  have hd: "struct_at sizeof_ts_header_t ts_header_of b 0 = Some (ts_header_of b)"
    using assms by (simp add: struct_at_def sizeof_ts_header_t_def TS_PACKET_SIZE_def)
  have "rd b 4 = Some (b ! 4)" using assms by (simp add: mem_simps TS_PACKET_SIZE_def)
  then show ?thesis
    using hd ts_begin_at_total [OF assms, of 4 "ts_header_of b"]
      ts_begin_at_total [OF assms, of "4 + unat (b ! 4) + 1" "ts_header_of b"]
    by (auto simp: get_ts_begin_def TS_HEADER_LEN_def TS_PACKET_SIZE_def)
qed

text \<open>
  Out of bounds: on a packet at the very end of its buffer, \<open>get_ts_begin\<close> reads past the
  end when the adaptation field length is 184, which its test lets through.
\<close>

theorem get_ts_begin_overread:
  assumes "length b = TS_PACKET_SIZE" "b ! 4 = 184"
    and "ts_header_t.adaptation_field_control (ts_header_of b) = 3"
  shows "get_ts_begin b = None"
  using assms
  by (simp add: get_ts_begin_def ts_begin_at_def struct_at_def sizeof_ts_header_t_def TS_PACKET_SIZE_def
      TS_HEADER_LEN_def is_pes_start_def rd_def)

theorem get_ts_begin_overread_witness:
  "get_ts_begin ([0x47, 0x40, 0x00, 0x30, 184] @ replicate 183 0) = None"
  by (rule get_ts_begin_overread)
     (simp_all add: TS_PACKET_SIZE_def ts_header_of_def bf_get_def)

end
