(* ===== verification/Rewrite.thy ===== *)
theory Rewrite
  imports Mumudvb Mumu_Strings Ts_Reassembly
begin

text \<open>
  The state of the table rewriting, \<^verbatim>\<open>src/src/rewrite.h\<close>, and the functions of
  \<^verbatim>\<open>src/src/rewrite.c\<close>: initialisation, the configuration lines and the continuity counter.
  Allocated packet buffers are options, \<open>None\<close> for \<^verbatim>\<open>NULL\<close>; the linked list of EIT packets is a
  list in the order of the links.
\<close>

section \<open>State\<close>

record eit_packet_t =
  service_id :: nat
  table_id :: u8
  version :: int
  needs_update :: bool
  need_others :: bool
  last_section_number :: nat
  sections_stored :: "bool list"
  full_eit_ok :: bool
  full_eit_sections :: "mumudvb_ts_packet_t option list"
  continuity_counter :: nat

record rewrite_parameters_t =
  rewrite_pmt :: option_status_t
  rewrite_pat :: option_status_t
  pat_version :: int
  pat_needs_update :: bool
  full_pat_ok :: bool
  full_pat :: "mumudvb_ts_packet_t option"
  pat_continuity_counter :: nat
  rewrite_sdt :: option_status_t
  sdt_version :: int
  sdt_needs_update :: bool
  sdt_need_others :: bool
  sdt_last_section_number :: nat
  sdt_section_numbers_seen :: "bool list"
  full_sdt_ok :: bool
  full_sdt :: "mumudvb_ts_packet_t option"
  sdt_continuity_counter :: nat
  sdt_force_eit :: option_status_t
  rewrite_eit :: option_status_t
  store_eit :: option_status_t
  eit_version :: int
  eit_needs_update :: bool
  full_eit :: "mumudvb_ts_packet_t option"
  eit_packets :: "eit_packet_t list"

section \<open>Operations\<close>

definition init_rewr_v :: rewrite_parameters_t where
  "init_rewr_v = \<lparr>
     rewrite_pmt = OPTION_UNDEFINED, rewrite_pat = OPTION_UNDEFINED, pat_version = -1,
     pat_needs_update = True, full_pat_ok = False, full_pat = None, pat_continuity_counter = 0,
     rewrite_sdt = OPTION_UNDEFINED, sdt_version = -1, sdt_needs_update = True,
     sdt_need_others = False, sdt_last_section_number = 0,
     sdt_section_numbers_seen = replicate 256 False, full_sdt_ok = False, full_sdt = None,
     sdt_continuity_counter = 0, sdt_force_eit = OPTION_UNDEFINED, rewrite_eit = OPTION_UNDEFINED,
     store_eit = OPTION_UNDEFINED, eit_version = -1, eit_needs_update = False, full_eit = None,
     eit_packets = []\<rparr>"

text \<open>
  The allocations, in the order of the code; \<open>malloc_ok\<close> says which succeed. The result is the
  return value (0 for success) and the parameters.
\<close>

definition rewrite_init ::
  "bool \<times> bool \<times> bool \<Rightarrow> rewrite_parameters_t \<Rightarrow> int \<times> rewrite_parameters_t" where
  "rewrite_init malloc_ok r =
     (let (pat_ok, sdt_ok, eit_ok) = malloc_ok;
          want_pat = (rewrite_pat r = OPTION_ON);
          want_sdt = (rewrite_sdt r = OPTION_ON);
          want_eit = (rewrite_eit r = OPTION_ON \<or> store_eit r = OPTION_ON) in
      if want_pat \<and> \<not> pat_ok then (1, r\<lparr>full_pat := None\<rparr>)
      else let r = (if want_pat then r\<lparr>full_pat := Some empty_ts_packet\<rparr> else r) in
      if want_sdt \<and> \<not> sdt_ok then (1, r\<lparr>full_sdt := None\<rparr>)
      else let r = (if want_sdt then r\<lparr>full_sdt := Some empty_ts_packet\<rparr> else r) in
      if want_eit \<and> \<not> eit_ok then (1, r\<lparr>full_eit := None\<rparr>)
      else let r = (if want_eit then r\<lparr>full_eit := Some empty_ts_packet\<rparr> else r) in (0, r))"

definition option_of_atoi :: "string \<Rightarrow> option_status_t" where
  "option_of_atoi v = (if atoi v \<noteq> 0 then OPTION_ON else OPTION_OFF)"

text \<open>
  A configuration line: \<open>substring\<close> is its first token, \<open>value\<close> what \<^verbatim>\<open>strtok\<close> returns next
  (\<^verbatim>\<open>atoi\<close> of a missing token has no defined result).
\<close>

definition read_rewrite_configuration ::
  "rewrite_parameters_t \<Rightarrow> string \<Rightarrow> string option \<Rightarrow> (int \<times> rewrite_parameters_t) option" where
  "read_rewrite_configuration r substring value =
     (if substring = ''rewrite_pmt''
      then map_option (\<lambda>v. (1, r\<lparr>rewrite_pmt := option_of_atoi v\<rparr>)) value
      else if substring = ''rewrite_pat''
      then map_option (\<lambda>v. (1, r\<lparr>rewrite_pat := option_of_atoi v\<rparr>)) value
      else if substring = ''rewrite_sdt''
      then map_option (\<lambda>v. (1, r\<lparr>rewrite_sdt := option_of_atoi v\<rparr>)) value
      else if substring = ''sort_eit'' \<or> substring = ''rewrite_eit''
      then map_option (\<lambda>v. (1, r\<lparr>rewrite_eit := option_of_atoi v\<rparr>)) value
      else if substring = ''store_eit''
      then map_option (\<lambda>v. (1, r\<lparr>store_eit := option_of_atoi v\<rparr>)) value
      else if substring = ''sdt_force_eit''
      then map_option (\<lambda>v. (1, r\<lparr>sdt_force_eit := option_of_atoi v\<rparr>)) value
      else Some (0, r))"

definition set_continuity_counter :: "u8 list \<Rightarrow> nat \<Rightarrow> u8 list option" where
  "set_continuity_counter b c = do {
     h \<leftarrow> struct_at sizeof_ts_header_t ts_header_of b 0;
     struct_put ts_header_bytes b 0 (h\<lparr>ts_header_t.continuity_counter := word_of_nat c\<rparr>)}"

section \<open>Properties\<close>

text \<open>
  After a successful initialisation every buffer a rewriter will use is allocated and in the
  state the section assembler starts from.
\<close>

definition buffers_ready :: "rewrite_parameters_t \<Rightarrow> bool" where
  "buffers_ready r \<longleftrightarrow>
     (rewrite_pat r = OPTION_ON \<longrightarrow> (\<exists>p. full_pat r = Some p \<and> ts_inv p)) \<and>
     (rewrite_sdt r = OPTION_ON \<longrightarrow> (\<exists>p. full_sdt r = Some p \<and> ts_inv p)) \<and>
     (rewrite_eit r = OPTION_ON \<or> store_eit r = OPTION_ON \<longrightarrow> (\<exists>p. full_eit r = Some p \<and> ts_inv p))"

lemma rewrite_init_ready:
  "rewrite_init ok r = (0, r') \<Longrightarrow> buffers_ready r'"
  by (cases ok) (auto simp: rewrite_init_def buffers_ready_def Let_def ts_inv_empty split: if_splits)

lemma rewrite_init_fails:
  "fst (rewrite_init (a, b, c) r) = 1 \<longleftrightarrow>
     (rewrite_pat r = OPTION_ON \<and> \<not> a) \<or> (rewrite_sdt r = OPTION_ON \<and> \<not> b) \<or>
     ((rewrite_eit r = OPTION_ON \<or> store_eit r = OPTION_ON) \<and> \<not> c)"
  by (auto simp: rewrite_init_def Let_def split: if_splits)

lemma set_continuity_counter_spec:
  assumes "4 \<le> length b"
  shows "\<exists>b'. set_continuity_counter b c = Some b' \<and> length b' = length b \<and> drop 4 b' = drop 4 b \<and>
     ts_header_of b' = (ts_header_of b)\<lparr>ts_header_t.continuity_counter := take_bit 4 (word_of_nat c)\<rparr>"
proof -
  define h where "h = (ts_header_of b)\<lparr>ts_header_t.continuity_counter := word_of_nat c\<rparr>"
  have "set_continuity_counter b c = Some (ts_header_bytes h @ drop 4 b)"
    using assms
    by (simp add: set_continuity_counter_def struct_at_def sizeof_ts_header_t_def h_def struct_put_def
        mem_write_def length_ts_header_bytes)
  moreover have "ts_header_of (ts_header_bytes h @ drop 4 b) = ts_header_norm h"
    by (rule ts_header_s.dec_enc)
  moreover have "ts_header_norm h =
      (ts_header_of b)\<lparr>ts_header_t.continuity_counter := take_bit 4 (word_of_nat c)\<rparr>"
    by (simp add: h_def ts_header_norm_def ts_header_of_def)
  ultimately show ?thesis using assms by (simp add: length_ts_header_bytes)
qed

end
