(* ===== verification/Rewrite_Pat.thy ===== *)
theory Rewrite_Pat
  imports Rewrite
begin

text \<open>
  PAT rewriting, \<^verbatim>\<open>src/src/rewrite_pat.c\<close>: the full PAT is collected from the stream
  (\<^verbatim>\<open>pat_rewrite_new_global_packet\<close>), and for each channel a PAT of one packet is generated that
  announces only the programs of the channel (\<^verbatim>\<open>pat_channel_rewrite\<close>,
  \<^verbatim>\<open>pat_rewrite_new_channel_packet\<close>).

  The lemmas show that the generated packet is always exactly one packet, that its section is
  complete and CRC-correct, and that its programs are those of the full PAT whose PMT PID the
  channel carries and whose number is the service of the channel, as many as fit.
\<close>

section \<open>Versions\<close>

text \<open>Byte 5 of every table holds the version number and the current/next indicator.\<close>

definition tbl_current_next :: "u8 list \<Rightarrow> nat \<Rightarrow> bool option" where
  "tbl_current_next b off = map_option (\<lambda>x. bf_get x 0 1 \<noteq> 0) (rd b (off + 5))"

definition tbl_version :: "u8 list \<Rightarrow> nat \<Rightarrow> int option" where
  "tbl_version b off = map_option (\<lambda>x. int (unat (bf_get x 1 5))) (rd b (off + 5))"

text \<open>The test shared by the rewriters: is the section that begins in this packet a new version?\<close>

definition pat_need_update :: "rewrite_parameters_t \<Rightarrow> u8 list \<Rightarrow> bool option" where
  "pat_need_update r b = do {
     begin \<leftarrow> get_ts_begin b;
     case begin of None \<Rightarrow> Some False
     | Some off \<Rightarrow> do {
         current \<leftarrow> tbl_current_next b off;
         if \<not> current then Some False
         else do {
           v \<leftarrow> tbl_version b off;
           Some (v \<noteq> pat_version r)}}}"

definition update_pat_version :: "mumudvb_ts_packet_t \<Rightarrow> rewrite_parameters_t \<Rightarrow> rewrite_parameters_t option" where
  "update_pat_version pkt r = do {
     v \<leftarrow> tbl_version (data_full pkt) 0;
     Some (r\<lparr>pat_version := v\<rparr>)}"

section \<open>Generating the PAT of a channel\<close>

text \<open>The loop over the PIDs of the channel for one program; \<open>n\<close> PIDs are left from index \<open>i\<close>.\<close>

primrec pat_copy_program ::
  "nat \<Rightarrow> nat \<Rightarrow> nat list \<Rightarrow> nat \<Rightarrow> u8 list \<Rightarrow> nat \<Rightarrow> u8 list \<Rightarrow> nat \<Rightarrow> (u8 list \<times> nat) option" where
  "pat_copy_program 0 i ps prog_pid full delta dest pos = Some (dest, pos)"
| "pat_copy_program (Suc n) i ps prog_pid full delta dest pos = do {
     p \<leftarrow> rd ps i;
     if p = prog_pid then
       if pos + PAT_PROG_LEN + 4 + 1 > TS_PACKET_SIZE then Some (dest, pos)
       else do {
         xs \<leftarrow> mem_read full delta PAT_PROG_LEN;
         dest \<leftarrow> mem_write dest pos xs;
         pat_copy_program n (i + 1) ps prog_pid full delta dest (pos + PAT_PROG_LEN)}
     else pat_copy_program n (i + 1) ps prog_pid full delta dest pos}"

definition prog_number :: "pat_prog_t \<Rightarrow> nat" where
  "prog_number p = HILO (pat_prog_t.program_number_hi p) (pat_prog_t.program_number_lo p)"

definition prog_network_pid :: "pat_prog_t \<Rightarrow> nat" where
  "prog_network_pid p = HILO (pat_prog_t.network_pid_hi p) (pat_prog_t.network_pid_lo p)"

text \<open>The tests on one program before the loop over the PIDs.\<close>

definition pat_copy_entry ::
  "mumudvb_channel_t \<Rightarrow> u8 list \<Rightarrow> nat \<Rightarrow> u8 list \<Rightarrow> nat \<Rightarrow> (u8 list \<times> nat) option" where
  "pat_copy_entry ch full delta dest pos = do {
     prog \<leftarrow> struct_at PAT_PROG_LEN pat_prog_of full delta;
     if prog_number prog \<noteq> 0 \<and> pos + PAT_PROG_LEN + 4 < TS_PACKET_SIZE \<and>
        (mumudvb_channel_t.service_id ch = 0 \<or> mumudvb_channel_t.service_id ch = prog_number prog)
     then pat_copy_program (num_pids (pid_i ch)) 0 (pids (pid_i ch)) (prog_network_pid prog) full delta dest pos
     else Some (dest, pos)}"

function pat_copy_programs ::
  "mumudvb_channel_t \<Rightarrow> u8 list \<Rightarrow> nat \<Rightarrow> nat \<Rightarrow> u8 list \<Rightarrow> nat \<Rightarrow> (u8 list \<times> nat) option" where
  "pat_copy_programs ch full section_length delta dest pos =
     (if delta + PAT_PROG_LEN < section_length then
        (case pat_copy_entry ch full delta dest pos of None \<Rightarrow> None
         | Some (dest, pos) \<Rightarrow> pat_copy_programs ch full section_length (delta + PAT_PROG_LEN) dest pos)
      else Some (dest, pos))"
  by pat_completeness auto
termination
  by (relation "measure (\<lambda>(ch, full, section_length, delta, dest, pos). section_length - delta)")
     (auto simp: PAT_PROG_LEN_def)

declare pat_copy_programs.simps [simp del]

text \<open>
  The end of the function: section length, CRC, stuffing. The CRC runs over the section from its
  table id to the last program.
\<close>

definition pat_finish :: "u8 list \<Rightarrow> nat \<Rightarrow> u8 list option" where
  "pat_finish dest pos = do {
     let new_section_length = pos - TS_HEADER_LEN + 1;
     b1 \<leftarrow> rd dest (1 + TS_HEADER_LEN);
     dest \<leftarrow> wr dest (1 + TS_HEADER_LEN)
       (word_of_nat (drop_bit 8 (new_section_length AND 0x0f00)) OR (0xf0 AND b1));
     dest \<leftarrow> wr dest (2 + TS_HEADER_LEN) (word_of_nat (new_section_length AND 0xff));
     xs \<leftarrow> mem_read dest TS_HEADER_LEN (new_section_length - 1);
     dest \<leftarrow> mem_write dest pos (crc32_bytes64 (crc32_run64 0xffffffff xs));
     mem_write dest (pos + 4) (replicate (TS_PACKET_SIZE - (pos + 4)) 0xff)}"

text \<open>
  The start of the function: the header of the incoming packet is changed in place (it starts a
  section, the pointer is zero) and copied. \<^verbatim>\<open>buf_dest\<close> is a local array, all of it written
  before it is copied out.
\<close>

definition rewrite_ts_header :: "u8 list \<Rightarrow> (u8 list \<times> u8 list) option" where
  "rewrite_ts_header b = do {
     h \<leftarrow> struct_at sizeof_ts_header_t ts_header_of b 0;
     b \<leftarrow> struct_put ts_header_bytes b 0 (h\<lparr>ts_header_t.payload_unit_start_indicator := 1\<rparr>);
     b \<leftarrow> wr b (TS_HEADER_LEN - 1) 0;
     hs \<leftarrow> mem_read b 0 TS_HEADER_LEN;
     dest \<leftarrow> mem_write (replicate TS_PACKET_SIZE 0) 0 hs;
     Some (b, dest)}"

text \<open>
  \<^verbatim>\<open>pat_channel_rewrite\<close>: the result is the full PAT, whose header is changed in place, the
  channel, and the incoming packet, whose header is changed too.
\<close>

definition pat_channel_rewrite ::
  "mumudvb_ts_packet_t \<Rightarrow> mumudvb_channel_t \<Rightarrow> u8 list \<Rightarrow>
   (mumudvb_ts_packet_t \<times> mumudvb_channel_t \<times> u8 list) option" where
  "pat_channel_rewrite pkt ch b = do {
     let full = data_full pkt;
     pat \<leftarrow> struct_at PAT_LEN pat_of full 0;
     let section_length = HILO (pat_t.section_length_hi pat) (pat_t.section_length_lo pat);
     (b, dest) \<leftarrow> rewrite_ts_header b;
     full \<leftarrow> struct_put pat_bytes full 0
       (pat\<lparr>pat_t.current_next_indicator := 1, pat_t.section_number := 0, pat_t.last_section_number := 0\<rparr>);
     ps \<leftarrow> mem_read full 0 PAT_LEN;
     dest \<leftarrow> mem_write dest TS_HEADER_LEN ps;
     (dest, pos) \<leftarrow> pat_copy_programs ch full section_length PAT_LEN dest (TS_HEADER_LEN + PAT_LEN);
     dest \<leftarrow> pat_finish dest pos;
     gen \<leftarrow> mem_write (generated_pat ch) 0 dest;
     Some (pkt\<lparr>data_full := full\<rparr>, ch\<lparr>generated_pat := gen\<rparr>, b)}"

section \<open>The two entry points\<close>

text \<open>The body of the drain loop.\<close>

definition pat_global_body :: "rewrite_parameters_t \<Rightarrow> mumudvb_ts_packet_t \<Rightarrow> rewrite_parameters_t option" where
  "pat_global_body r pkt = do {
     current \<leftarrow> tbl_current_next (data_full pkt) 0;
     if \<not> current then Some r
     else do {
       r \<leftarrow> update_pat_version pkt r;
       Some (r\<lparr>pat_needs_update := False, full_pat_ok := True\<rparr>)}}"

definition pat_rewrite_new_global_packet ::
  "u8 list \<Rightarrow> rewrite_parameters_t \<Rightarrow> rewrite_parameters_t option" where
  "pat_rewrite_new_global_packet ts_packet r = do {
     need \<leftarrow> (if \<not> pat_needs_update r then pat_need_update r ts_packet else Some (pat_needs_update r));
     let r = r\<lparr>pat_needs_update := need\<rparr>;
     r \<leftarrow> (if need then do {
            pkt \<leftarrow> full_pat r;
            (pkt, r) \<leftarrow> ts_while (\<lambda>_. True) pat_global_body ts_packet pkt r;
            Some (r\<lparr>full_pat := Some pkt\<rparr>)}
          else Some r);
     Some (r\<lparr>pat_continuity_counter := (pat_continuity_counter r + 1) mod 16\<rparr>)}"

text \<open>
  The result: 0 or 1 as in the code, the packet to send, and the changed state.
\<close>

definition pat_rewrite_new_channel_packet ::
  "u8 list \<Rightarrow> rewrite_parameters_t \<Rightarrow> mumudvb_channel_t \<Rightarrow>
   (int \<times> u8 list \<times> rewrite_parameters_t \<times> mumudvb_channel_t) option" where
  "pat_rewrite_new_channel_packet ts_packet r ch =
     (if \<not> full_pat_ok r then Some (0, ts_packet, r, ch)
      else do {
        (b, r, ch) \<leftarrow>
          (if \<not> pat_needs_update r \<and> channel_ready ch \<ge> READY \<and> generated_pat_version ch \<noteq> pat_version r
           then do {
             pkt \<leftarrow> full_pat r;
             (pkt, ch, b) \<leftarrow> pat_channel_rewrite pkt ch ts_packet;
             Some (b, r\<lparr>full_pat := Some pkt\<rparr>, ch\<lparr>generated_pat_version := pat_version r\<rparr>)}
           else Some (ts_packet, r, ch));
        if generated_pat_version ch = pat_version r then do {
          b \<leftarrow> mem_write b 0 (generated_pat ch);
          b \<leftarrow> set_continuity_counter b (pat_continuity_counter r);
          Some (1, b, r, ch)}
        else Some (0, b, r, ch)})"

section \<open>What the loops copy\<close>

text \<open>The program entries of the full PAT, each as its four bytes.\<close>

function pat_entries :: "u8 list \<Rightarrow> nat \<Rightarrow> nat \<Rightarrow> u8 list list" where
  "pat_entries full section_length delta =
     (if delta + PAT_PROG_LEN < section_length
      then take PAT_PROG_LEN (drop delta full) # pat_entries full section_length (delta + PAT_PROG_LEN)
      else [])"
  by pat_completeness auto
termination
  by (relation "measure (\<lambda>(full, section_length, delta). section_length - delta)")
     (auto simp: PAT_PROG_LEN_def)

declare pat_entries.simps [simp del]

text \<open>How often an entry is copied: once for each PID of the channel that is its PMT PID.\<close>

definition entry_copies :: "mumudvb_channel_t \<Rightarrow> u8 list \<Rightarrow> u8 list list" where
  "entry_copies ch e =
     (let prog = pat_prog_of e in
      if prog_number prog \<noteq> 0 \<and>
         (mumudvb_channel_t.service_id ch = 0 \<or> mumudvb_channel_t.service_id ch = prog_number prog)
      then replicate (count_list (take (num_pids (pid_i ch)) (pids (pid_i ch))) (prog_network_pid prog)) e
      else [])"

definition room :: "nat \<Rightarrow> nat" where
  "room pos = (183 - pos) div 4"

text \<open>The destination buffer after the copies \<open>ys\<close>.\<close>

definition copied :: "u8 list \<Rightarrow> nat \<Rightarrow> u8 list list \<Rightarrow> u8 list \<Rightarrow> nat \<Rightarrow> bool" where
  "copied dest pos ys dest' pos' \<longleftrightarrow> length dest' = TS_PACKET_SIZE \<and> pos' = pos + 4 * length ys \<and>
     (\<forall>y \<in> set ys. length y = 4) \<and> pos' \<le> 183 \<and> take pos' dest' = take pos dest @ concat ys"

lemma copiedD:
  "copied dest pos ys dest' pos' \<Longrightarrow> length dest' = TS_PACKET_SIZE"
  "copied dest pos ys dest' pos' \<Longrightarrow> pos' \<le> 183"
  "copied dest pos ys dest' pos' \<Longrightarrow> pos' = pos + 4 * length ys"
  "copied dest pos ys dest' pos' \<Longrightarrow> take pos' dest' = take pos dest @ concat ys"
  unfolding copied_def by blast+

lemma copied_refl: "length dest = TS_PACKET_SIZE \<Longrightarrow> pos \<le> 183 \<Longrightarrow> copied dest pos [] dest pos"
  by (simp add: copied_def)

lemma copied_trans:
  "copied d0 p0 xs d1 p1 \<Longrightarrow> copied d1 p1 ys d2 p2 \<Longrightarrow> copied d0 p0 (xs @ ys) d2 p2"
  by (auto simp: copied_def)

lemma copied_one:
  assumes "length dest = TS_PACKET_SIZE" "pos + 9 \<le> TS_PACKET_SIZE" "delta + 4 \<le> length full"
  shows "\<exists>dest'. mem_write dest pos (take 4 (drop delta full)) = Some dest' \<and>
     copied dest pos [take 4 (drop delta full)] dest' (pos + 4)"
proof -
  obtain dest' where w: "mem_write dest pos (take 4 (drop delta full)) = Some dest'"
    using assms by (simp add: mem_write_def TS_PACKET_SIZE_def)
  moreover have "length (take 4 (drop delta full)) = 4" using assms by simp
  then have "take (pos + 4) dest' = take pos dest @ take 4 (drop delta full)"
    using mem_write_prefix [OF w] by simp
  ultimately show ?thesis
    using assms mem_write_length [OF w] by (simp add: copied_def TS_PACKET_SIZE_def)
qed

lemma room_le: "pos + 9 \<le> TS_PACKET_SIZE \<Longrightarrow> room pos = Suc (room (pos + 4))"
  by (simp add: room_def TS_PACKET_SIZE_def)

lemma room_0: "\<not> pos + 9 \<le> TS_PACKET_SIZE \<Longrightarrow> room pos = 0"
  by (simp add: room_def TS_PACKET_SIZE_def)

lemma pat_copy_program_spec:
  "i + n \<le> length ps \<Longrightarrow> delta + 4 \<le> length full \<Longrightarrow> length dest = TS_PACKET_SIZE \<Longrightarrow> pos \<le> 183 \<Longrightarrow>
   \<exists>dest' pos'. pat_copy_program n i ps q full delta dest pos = Some (dest', pos') \<and>
     copied dest pos (take (room pos)
       (replicate (count_list (take n (drop i ps)) q) (take 4 (drop delta full)))) dest' pos'"
proof (induction n arbitrary: i dest pos)
  case 0 then show ?case by (simp add: copied_refl)
next
  case (Suc n)
  have i: "i < length ps" using Suc.prems by simp
  have "drop i ps = ps ! i # drop (Suc i) ps" using i by (simp add: Cons_nth_drop_Suc)
  then have dr: "take (Suc n) (drop i ps) = ps ! i # take n (drop (Suc i) ps)" by simp
  show ?case
  proof (cases "ps ! i = q")
    case False
    then show ?thesis
      using Suc.IH [of "Suc i" dest pos] Suc.prems i by (simp add: mem_simps dr)
  next
    case True
    show ?thesis
    proof (cases "pos + 9 \<le> TS_PACKET_SIZE")
      case fits: False
      then show ?thesis using True i Suc.prems
        by (simp add: mem_simps dr room_0 copied_refl PAT_PROG_LEN_def)
    next
      case fits: True
      obtain d1 where d1: "mem_write dest pos (take 4 (drop delta full)) = Some d1"
          "copied dest pos [take 4 (drop delta full)] d1 (pos + 4)"
        using copied_one fits Suc.prems by blast
      have "length d1 = TS_PACKET_SIZE" "pos + 4 \<le> 183" "Suc i + n \<le> length ps"
        using d1(2) Suc.prems by (simp_all add: copied_def)
      then obtain d2 p2 where 2:
        "pat_copy_program n (Suc i) ps q full delta d1 (pos + 4) = Some (d2, p2)"
        "copied d1 (pos + 4) (take (room (pos + 4))
           (replicate (count_list (take n (drop (Suc i) ps)) q) (take 4 (drop delta full)))) d2 p2"
        using Suc.IH [of "Suc i" d1 "pos + 4"] Suc.prems(2) by blast
      have "take (room pos) (replicate (count_list (take (Suc n) (drop i ps)) q) (take 4 (drop delta full))) =
          [take 4 (drop delta full)] @ take (room (pos + 4))
             (replicate (count_list (take n (drop (Suc i) ps)) q) (take 4 (drop delta full)))"
        unfolding dr room_le [OF fits] using True by simp
      then have "copied dest pos (take (room pos)
           (replicate (count_list (take (Suc n) (drop i ps)) q) (take 4 (drop delta full)))) d2 p2"
        using copied_trans [OF d1(2) 2(2)] by simp
      moreover have "pat_copy_program (Suc n) i ps q full delta dest pos = Some (d2, p2)"
        using 2(1) d1(1) True i Suc.prems(2) fits by (simp add: mem_simps PAT_PROG_LEN_def)
      ultimately show ?thesis by blast
    qed
  qed
qed

lemma copied_room: "copied dest pos xs dest' pos' \<Longrightarrow> room pos' = room pos - length xs"
  by (auto simp: copied_def room_def)

lemma pat_copy_entry_spec:
  assumes "delta + 4 \<le> length full" "pid_i_wf (pid_i ch)" "length dest = TS_PACKET_SIZE" "pos \<le> 183"
  shows "\<exists>dest' pos'. pat_copy_entry ch full delta dest pos = Some (dest', pos') \<and>
     copied dest pos (take (room pos) (entry_copies ch (take 4 (drop delta full)))) dest' pos'"
proof -
  let ?prog = "pat_prog_of (drop delta full)"
  have pe: "pat_prog_of (take 4 (drop delta full)) = ?prog"
    using pat_prog_s.dec_cong [of "drop delta full"] assms(1) by (simp add: PAT_PROG_LEN_def)
  have at: "struct_at PAT_PROG_LEN pat_prog_of full delta = Some ?prog"
    using assms(1) by (simp add: struct_at_def PAT_PROG_LEN_def)
  let ?guard = "prog_number ?prog \<noteq> 0 \<and> pos + PAT_PROG_LEN + 4 < TS_PACKET_SIZE \<and>
     (mumudvb_channel_t.service_id ch = 0 \<or> mumudvb_channel_t.service_id ch = prog_number ?prog)"
  show ?thesis
  proof (cases ?guard)
    case True
    have "0 + num_pids (pid_i ch) \<le> length (pids (pid_i ch))"
      using assms(2) by (simp add: pid_i_wf_def)
    from pat_copy_program_spec [OF this assms(1,3,4), of "prog_network_pid ?prog"] show ?thesis
      using True by (simp add: pat_copy_entry_def at entry_copies_def pe Let_def)
  next
    case False
    then have "take (room pos) (entry_copies ch (take 4 (drop delta full))) = []"
      using room_0 [of pos] by (auto simp: entry_copies_def pe Let_def PAT_PROG_LEN_def)
    moreover have "pat_copy_entry ch full delta dest pos = Some (dest, pos)"
      unfolding pat_copy_entry_def at using False by auto
    ultimately show ?thesis using copied_refl [OF assms(3,4)]
      by (intro exI [of _ dest] exI [of _ pos]) (simp only: simp_thms)
  qed
qed

lemma pat_copy_programs_spec:
  "section_length \<le> length full \<Longrightarrow> pid_i_wf (pid_i ch) \<Longrightarrow> length dest = TS_PACKET_SIZE \<Longrightarrow> pos \<le> 183 \<Longrightarrow>
   \<exists>dest' pos'. pat_copy_programs ch full section_length delta dest pos = Some (dest', pos') \<and>
     copied dest pos (take (room pos)
       (concat (map (entry_copies ch) (pat_entries full section_length delta)))) dest' pos'"
proof (induction "section_length - delta" arbitrary: delta dest pos rule: less_induct)
  case less
  show ?case
  proof (cases "delta + PAT_PROG_LEN < section_length")
    case False
    have "pat_copy_programs ch full section_length delta dest pos = Some (dest, pos)"
      using False by (subst pat_copy_programs.simps) simp
    moreover have "pat_entries full section_length delta = []"
      using False by (subst pat_entries.simps) simp
    ultimately show ?thesis using less.prems by (simp add: copied_refl)
  next
    case True
    let ?e = "take 4 (drop delta full)"
    have d4: "delta + 4 \<le> length full" using True less.prems by (simp add: PAT_PROG_LEN_def)
    obtain d1 p1 where 1: "pat_copy_entry ch full delta dest pos = Some (d1, p1)"
       "copied dest pos (take (room pos) (entry_copies ch ?e)) d1 p1"
      using pat_copy_entry_spec [OF d4 less.prems(2-4)] by blast
    have dec: "section_length - (delta + PAT_PROG_LEN) < section_length - delta"
      using True by (intro diff_less_mono2) (simp_all add: PAT_PROG_LEN_def)
    have d1: "length d1 = TS_PACKET_SIZE" "p1 \<le> 183" by (rule copiedD [OF 1(2)])+
    from less.hyps [OF dec less.prems(1,2) d1] obtain d2 p2 where 2:
      "pat_copy_programs ch full section_length (delta + PAT_PROG_LEN) d1 p1 = Some (d2, p2)"
      "copied d1 p1 (take (room p1)
         (concat (map (entry_copies ch) (pat_entries full section_length (delta + PAT_PROG_LEN))))) d2 p2"
      by blast
    have r: "room p1 = room pos - length (entry_copies ch ?e)"
      using copied_room [OF 1(2)] by simp
    have "pat_entries full section_length delta =
        ?e # pat_entries full section_length (delta + PAT_PROG_LEN)"
      using True by (subst pat_entries.simps) (simp add: PAT_PROG_LEN_def)
    then have ent: "take (room pos) (concat (map (entry_copies ch) (pat_entries full section_length delta))) =
       take (room pos) (entry_copies ch ?e) @ take (room p1)
         (concat (map (entry_copies ch) (pat_entries full section_length (delta + PAT_PROG_LEN))))"
      unfolding r by (simp only: list.map concat.simps take_append)
    have "copied dest pos (take (room pos)
       (concat (map (entry_copies ch) (pat_entries full section_length delta)))) d2 p2"
      unfolding ent by (rule copied_trans [OF 1(2) 2(2)])
    moreover have "pat_copy_programs ch full section_length delta dest pos = Some (d2, p2)"
      by (subst pat_copy_programs.simps) (simp only: True 1(1) 2(1) if_True option.case prod.case)
    ultimately show ?thesis by blast
  qed
qed

section \<open>The generated section\<close>

text \<open>Writing a 12-bit length over the two bytes that hold it, as the rewriters do.\<close>

lemma section_length_write:
  assumes "n < 4096"
  shows "HILO (bf_get (word_of_nat (drop_bit 8 (n AND 0x0f00)) OR (0xf0 AND x)) 0 4)
     (word_of_nat (n AND 0xff)) = n"
proof -
  have m: "(0x0f00 :: nat) = push_bit 8 (mask 4)" "(0xff :: nat) = mask 8" "(0xf0 :: u8) = push_bit 4 (mask 4)"
    by (simp_all add: mask_eq_exp_minus_1 push_bit_eq_mult)
  have hi: "\<not> bit n k" if "12 \<le> k" for k
  proof -
    have "(2 :: nat) ^ 12 \<le> 2 ^ k" using that by (intro power_increasing) simp_all
    then have "n div 2 ^ k = 0" using assms by simp
    then show ?thesis by (simp add: bit_iff_odd)
  qed
  show ?thesis
    unfolding HILO_def m
  proof (rule bit_eqI)
    fix k
    show "bit (push_bit 8 (unat (bf_get (word_of_nat (drop_bit 8 (n AND push_bit 8 (mask 4))) OR
             (push_bit 4 (mask 4) AND x)) 0 4)) OR unat (word_of_nat (n AND mask 8) :: u8)) k = bit n k"
    proof (cases "k < 12")
      case True
      then show ?thesis
        by (auto simp: bit_or_iff bit_push_bit_iff bit_unsigned_iff bit_bf_get bit_word_of_nat
            bit_drop_bit_eq bit_and_iff bit_mask_iff)
    next
      case False
      then show ?thesis using hi [of k]
        by (auto simp: bit_or_iff bit_push_bit_iff bit_unsigned_iff bit_bf_get bit_word_of_nat
            bit_drop_bit_eq bit_and_iff bit_mask_iff)
    qed
  qed
qed

lemma pat_entries_concat:
  "\<forall>y \<in> set ys. length y = 4 \<Longrightarrow>
   pat_entries (h @ concat ys @ rest) (length h + 4 * length ys + 1) (length h) = ys"
proof (induction ys arbitrary: h)
  case Nil
  then show ?case by (subst pat_entries.simps) (simp add: PAT_PROG_LEN_def)
next
  case (Cons y ys)
  then have "pat_entries ((h @ y) @ concat ys @ rest) (length (h @ y) + 4 * length ys + 1) (length (h @ y)) = ys"
    by (intro Cons.IH) simp
  then show ?case using Cons.prems
    by (subst pat_entries.simps) (simp add: PAT_PROG_LEN_def add.commute add.left_commute)
qed

text \<open>
  The section the code leaves in a buffer whose first \<open>pos\<close> bytes are the transport header and
  the bytes \<open>body\<close> of the section: length, CRC and stuffing are filled in.
\<close>

definition sealed_body :: "u8 list \<Rightarrow> u8 list" where
  "sealed_body body = (let n = length body + 1 in
     body[1 := word_of_nat (drop_bit 8 (n AND 0x0f00)) OR (0xf0 AND body ! 1),
          2 := word_of_nat (n AND 0xff)])"

definition sealed :: "u8 list \<Rightarrow> u8 list" where
  "sealed body = sealed_body body @ crc32_bytes64 (crc32_run64 0xffffffff (sealed_body body))"

lemma length_sealed_body [simp]: "length (sealed_body body) = length body"
  by (simp add: sealed_body_def Let_def)

lemma length_sealed [simp]: "length (sealed body) = length body + 4"
  by (simp add: sealed_def crc64.length_bytes)

lemma crc32_run64_residue:
  "crc32_run 0xffffffff (xs @ crc32_bytes64 (crc32_run64 0xffffffff xs)) = 0"
proof -
  have "(ucast (0xffffffff :: u64) :: u32) = 0xffffffff" by simp
  then show ?thesis using crc64.residue [of "0xffffffff" xs] by (simp add: crc32_run64_def)
qed

lemma sealed_section_ok:
  assumes "3 \<le> length body" "length body + 4 \<le> MAX_TS_SIZE"
  shows "section_ok (sealed body)"
proof -
  have n: "length body + 1 < 4096" using assms by (simp add: MAX_TS_SIZE_def)
  have "sealed body ! 1 = word_of_nat (drop_bit 8 ((length body + 1) AND 0x0f00)) OR (0xf0 AND body ! 1)"
    "sealed body ! 2 = word_of_nat ((length body + 1) AND 0xff)"
    using assms by (simp_all add: sealed_def sealed_body_def Let_def nth_append)
  then have "HILO (bf_get (sealed body ! 1) 0 4) (sealed body ! 2) = length body + 1"
    using section_length_write [OF n] by simp
  moreover have "crc32_run 0xffffffff (sealed body) = 0"
    unfolding sealed_def by (rule crc32_run64_residue)
  ultimately show ?thesis using assms by (simp add: section_ok_def BYTES_BFR_SEC_LEN_def)
qed

lemma pat_finish_spec:
  assumes "length dest = TS_PACKET_SIZE" "TS_HEADER_LEN + 3 \<le> pos" "pos + 4 \<le> TS_PACKET_SIZE"
  defines "body \<equiv> take (pos - TS_HEADER_LEN) (drop TS_HEADER_LEN dest)"
  shows "pat_finish dest pos =
    Some (take TS_HEADER_LEN dest @ sealed body @ replicate (TS_PACKET_SIZE - (pos + 4)) 0xff)"
proof -
  have lb: "length body = pos - 5" using assms by (simp add: body_def ts_sizes)
  define n where "n = pos - TS_HEADER_LEN + 1"
  have n: "n = length body + 1" using lb by (simp add: n_def TS_HEADER_LEN_def)
  define a where "a = take 5 dest"
  define rest where "rest = drop pos dest"
  have la: "length a = 5" and lr: "length rest = 188 - pos"
    using assms by (simp_all add: a_def rest_def ts_sizes)
  have pos: "pos = 5 + length body" using lb assms by (simp add: ts_sizes)
  have "drop 5 dest = body @ drop (pos - 5) (drop 5 dest)"
    by (simp only: body_def TS_HEADER_LEN_def append_take_drop_id)
  then have split: "dest = a @ body @ rest"
    using assms(2) unfolding a_def rest_def
    by (metis TS_HEADER_LEN_def add_leD1 append_take_drop_id drop_drop le_add_diff_inverse2)
  define x1 where "x1 = word_of_nat (drop_bit 8 (n AND 0x0f00)) OR (0xf0 AND body ! 1)"
  define x2 where "x2 = (word_of_nat (n AND 0xff) :: u8)"
  define sb where "sb = sealed_body body"
  have sb: "sb = body[1 := x1, 2 := x2]"
    by (simp add: sb_def sealed_body_def x1_def x2_def n Let_def)
  have lsb: "length sb = length body" by (simp add: sb_def)
  define crc where "crc = crc32_bytes64 (crc32_run64 0xffffffff sb)"
  have lc: "length crc = 4" by (simp add: crc_def crc64.length_bytes)
  have l3: "3 \<le> length body" using assms lb by (simp add: ts_sizes)
  have 1: "rd dest (1 + TS_HEADER_LEN) = Some (body ! 1)"
    unfolding split using la l3 by (simp add: rd_def nth_append ts_sizes)
  have 2: "wr dest (1 + TS_HEADER_LEN) x1 = Some (a @ body[1 := x1] @ rest)"
    unfolding split using la l3 by (simp add: wr_def list_update_append ts_sizes)
  have 3: "wr (a @ body[1 := x1] @ rest) (2 + TS_HEADER_LEN) x2 = Some (a @ sb @ rest)"
    unfolding sb using la l3 by (simp add: wr_def list_update_append ts_sizes)
  have 4: "mem_read (a @ sb @ rest) TS_HEADER_LEN (n - 1) = Some sb"
    using la n lsb by (simp add: mem_read_def TS_HEADER_LEN_def)
  have 5: "mem_write (a @ sb @ rest) pos crc = Some (a @ sb @ crc @ drop 4 rest)"
    using la pos lsb lc lr assms(3) by (simp add: mem_write_def ts_sizes)
  have 6: "mem_write (a @ sb @ crc @ drop 4 rest) (pos + 4) (replicate (TS_PACKET_SIZE - (pos + 4)) 0xff) =
      Some (a @ sb @ crc @ replicate (TS_PACKET_SIZE - (pos + 4)) 0xff)"
    using la pos lsb lc lr assms(3) by (simp add: mem_write_def ts_sizes)
  have "pat_finish dest pos = Some (a @ sb @ crc @ replicate (TS_PACKET_SIZE - (pos + 4)) 0xff)"
    unfolding pat_finish_def Let_def n_def [symmetric]
    by (simp only: 1 bind.bind_lunit x1_def [symmetric] 2 x2_def [symmetric] 3 4 crc_def [symmetric] 5 6)
  then show ?thesis
    by (simp add: a_def sealed_def sb_def [symmetric] crc_def [symmetric] TS_HEADER_LEN_def)
qed

lemma pat_entries_cong:
  "drop k a = drop k b \<Longrightarrow> k \<le> delta \<Longrightarrow>
   pat_entries a section_length delta = pat_entries b section_length delta"
proof (induction "section_length - delta" arbitrary: delta rule: less_induct)
  case less
  have "drop delta a = drop delta b"
    using less.prems by (metis drop_drop le_add_diff_inverse2)
  moreover have "pat_entries a section_length (delta + PAT_PROG_LEN) =
      pat_entries b section_length (delta + PAT_PROG_LEN)" if "delta + PAT_PROG_LEN < section_length"
    using that less.prems by (intro less.hyps diff_less_mono2) (simp_all add: PAT_PROG_LEN_def)
  ultimately show ?case
    by (simp add: pat_entries.simps [of a _ delta] pat_entries.simps [of b _ delta])
qed

definition pat_section_length :: "u8 list \<Rightarrow> nat" where
  "pat_section_length full = HILO (pat_t.section_length_hi (pat_of full)) (pat_t.section_length_lo (pat_of full))"

text \<open>The header the code writes: applicable now, the only section.\<close>

definition pat_single :: "pat_t \<Rightarrow> pat_t" where
  "pat_single p = p\<lparr>pat_t.current_next_indicator := 1, pat_t.section_number := 0,
     pat_t.last_section_number := 0\<rparr>"

definition pat_body :: "mumudvb_channel_t \<Rightarrow> u8 list \<Rightarrow> u8 list" where
  "pat_body ch full = pat_bytes (pat_single (pat_of full)) @
     concat (take 42 (concat (map (entry_copies ch) (pat_entries full (pat_section_length full) 8))))"

lemma length_pat_bytes [simp]: "length (pat_bytes p) = 8"
  by (simp add: pat_s.len_enc PAT_LEN_def)

lemma entry_copies_length: "x \<in> set (entry_copies ch e) \<Longrightarrow> x = e"
  by (auto simp: entry_copies_def Let_def split: if_splits)

lemma pat_entries_length:
  "section_length \<le> length full \<Longrightarrow> e \<in> set (pat_entries full section_length delta) \<Longrightarrow> length e = 4"
proof (induction "section_length - delta" arbitrary: delta rule: less_induct)
  case less
  show ?case
  proof (cases "delta + PAT_PROG_LEN < section_length")
    case True
    then have "e \<in> set (pat_entries full section_length (delta + PAT_PROG_LEN)) \<Longrightarrow> length e = 4"
      using less.prems(1) by (intro less.hyps [of "delta + PAT_PROG_LEN"] diff_less_mono2) (simp_all add: PAT_PROG_LEN_def)
    then show ?thesis
      using less.prems True pat_entries.simps [of full section_length delta] by (auto simp: PAT_PROG_LEN_def)
  next
    case False
    then show ?thesis using less.prems pat_entries.simps [of full section_length delta] by simp
  qed
qed

text \<open>The transport header of a rewritten packet, with its pointer.\<close>

definition rewritten_header :: "u8 list \<Rightarrow> u8 list" where
  "rewritten_header b =
     ts_header_bytes ((ts_header_of b)\<lparr>ts_header_t.payload_unit_start_indicator := 1\<rparr>) @ [0]"

lemma length_rewritten_header [simp]: "length (rewritten_header b) = 5"
  by (simp add: rewritten_header_def length_ts_header_bytes)

lemma rewrite_ts_header_spec:
  assumes "TS_HEADER_LEN \<le> length b"
  shows "rewrite_ts_header b =
    Some (rewritten_header b @ drop 5 b, rewritten_header b @ replicate 183 0)"
proof -
  define hb where "hb = ts_header_bytes ((ts_header_of b)\<lparr>ts_header_t.payload_unit_start_indicator := 1\<rparr>)"
  have b5: "5 \<le> length b" using assms by (simp add: TS_HEADER_LEN_def)
  have lhb: "length hb = 4" by (simp add: hb_def length_ts_header_bytes)
  have 2: "struct_at sizeof_ts_header_t ts_header_of b 0 = Some (ts_header_of b)"
    using b5 by (simp add: struct_at_def sizeof_ts_header_t_def)
  have 3: "struct_put ts_header_bytes b 0 ((ts_header_of b)\<lparr>ts_header_t.payload_unit_start_indicator := 1\<rparr>) =
     Some (hb @ drop 4 b)"
    using b5 lhb by (simp add: struct_put_def mem_write_def hb_def)
  have "drop 4 b = b ! 4 # drop 5 b"
    using b5 by (metis Cons_nth_drop_Suc Suc_le_eq Suc_numeral semiring_norm(5))
  then have 4: "wr (hb @ drop 4 b) (TS_HEADER_LEN - 1) 0 = Some (hb @ 0 # drop 5 b)"
    using lhb by (simp add: wr_def list_update_append TS_HEADER_LEN_def)
  have 5: "mem_read (hb @ 0 # drop 5 b) 0 TS_HEADER_LEN = Some (hb @ [0])"
    using lhb by (simp add: mem_read_def TS_HEADER_LEN_def)
  have 6: "mem_write (replicate TS_PACKET_SIZE 0) 0 (hb @ [0]) = Some (hb @ [0] @ replicate 183 0)"
    using lhb by (simp add: mem_write_def TS_PACKET_SIZE_def)
  show ?thesis
    unfolding rewrite_ts_header_def
    by (simp only: 2 3 4 5 6 bind.bind_lunit) (simp add: rewritten_header_def hb_def)
qed

lemma pat_channel_rewrite_result:
  assumes full: "length (data_full pkt) = MAX_TS_SIZE" and ch: "channel_wf ch" and b: "TS_HEADER_LEN \<le> length b"
  shows "\<exists>full' b'. pat_channel_rewrite pkt ch b =
      Some (pkt\<lparr>data_full := full'\<rparr>,
            ch\<lparr>generated_pat := take TS_HEADER_LEN b' @ sealed (pat_body ch (data_full pkt)) @
               replicate (179 - length (pat_body ch (data_full pkt))) 0xff\<rparr>, b') \<and>
     full' = pat_bytes (pat_single (pat_of (data_full pkt))) @ drop 8 (data_full pkt) \<and>
     length b' = length b \<and> length (pat_body ch (data_full pkt)) \<le> 178 \<and>
     take TS_HEADER_LEN b' =
       ts_header_bytes ((ts_header_of b)\<lparr>ts_header_t.payload_unit_start_indicator := 1\<rparr>) @ [0]"
proof -
  define fl where "fl = data_full pkt"
  define sl where "sl = pat_section_length fl"
  define hb where "hb = ts_header_bytes ((ts_header_of b)\<lparr>ts_header_t.payload_unit_start_indicator := 1\<rparr>)"
  define ps where "ps = pat_bytes (pat_single (pat_of fl))"
  define full' where "full' = ps @ drop 8 fl"
  define b' where "b' = hb @ 0 # drop 5 b"
  have lfl: "length fl = 4096" using full by (simp add: fl_def MAX_TS_SIZE_def)
  have lhb: "length hb = 4" by (simp add: hb_def length_ts_header_bytes)
  have lps: "length ps = 8" by (simp add: ps_def)
  have slt: "sl < 4096"
    by (simp add: sl_def pat_section_length_def pat_of_def HILO_get4)
  have b5: "5 \<le> length b" using b by (simp add: TS_HEADER_LEN_def)
  have pw: "pid_i_wf (pid_i ch)" and gl: "length (generated_pat ch) = 188"
    using ch by (simp_all add: channel_wf_def TS_PACKET_SIZE_def)
  have 1: "struct_at PAT_LEN pat_of fl 0 = Some (pat_of fl)"
    using lfl by (simp add: struct_at_def PAT_LEN_def)
  have 2: "rewrite_ts_header b = Some (b', hb @ [0] @ replicate 183 0)"
    using rewrite_ts_header_spec [OF b] lhb by (simp add: rewritten_header_def hb_def b'_def)
  have 7: "struct_put pat_bytes fl 0 (pat_single (pat_of fl)) = Some full'"
    using lfl lps by (simp add: struct_put_def mem_write_def full'_def ps_def)
  have 8: "mem_read full' 0 PAT_LEN = Some ps"
    using lps by (simp add: mem_read_def full'_def PAT_LEN_def)
  define d1 where "d1 = hb @ [0] @ ps @ replicate 175 (0 :: u8)"
  have 9: "mem_write (hb @ [0] @ replicate 183 0) TS_HEADER_LEN ps = Some d1"
    using lhb lps by (simp add: mem_write_def d1_def TS_HEADER_LEN_def)
  have lf': "length full' = 4096" using lfl lps by (simp add: full'_def)
  have ld1: "length d1 = TS_PACKET_SIZE" using lhb lps by (simp add: d1_def TS_PACKET_SIZE_def)
  have slf: "sl \<le> length full'" using slt lf' by simp
  have p13: "TS_HEADER_LEN + PAT_LEN \<le> 183" by (simp add: TS_HEADER_LEN_def PAT_LEN_def)
  obtain d2 pos where 10:
     "pat_copy_programs ch full' sl PAT_LEN d1 (TS_HEADER_LEN + PAT_LEN) = Some (d2, pos)"
     "copied d1 (TS_HEADER_LEN + PAT_LEN) (take (room (TS_HEADER_LEN + PAT_LEN))
        (concat (map (entry_copies ch) (pat_entries full' sl PAT_LEN)))) d2 pos"
    using pat_copy_programs_spec [OF slf pw ld1 p13] by blast
  have d8: "drop 8 full' = drop 8 fl" using lps by (simp add: full'_def)
  define ys where "ys = take 42 (concat (map (entry_copies ch) (pat_entries fl sl 8)))"
  have "take (room (TS_HEADER_LEN + PAT_LEN)) (concat (map (entry_copies ch) (pat_entries full' sl PAT_LEN))) = ys"
    using pat_entries_cong [OF d8, of 8 sl] by (simp add: ys_def room_def TS_HEADER_LEN_def PAT_LEN_def)
  then have cp: "copied d1 13 ys d2 pos" using 10(2) by (simp add: TS_HEADER_LEN_def PAT_LEN_def)
  have d2: "length d2 = TS_PACKET_SIZE" "pos = 13 + 4 * length ys" "pos \<le> 183"
      "take pos d2 = hb @ [0] @ ps @ concat ys"
    using copiedD [OF cp] lhb lps by (simp_all add: d1_def)
  have body: "pat_body ch fl = ps @ concat ys"
    by (simp add: pat_body_def ps_def ys_def sl_def)
  have y4: "\<forall>y \<in> set ys. length y = 4" using cp unfolding copied_def by blast
  have lcy: "length (concat ys) = 4 * length ys"
    using y4 by (induction ys) auto
  have lb: "length (pat_body ch fl) = pos - 5" using d2(2) lps lcy by (simp add: body)
  have t5: "take TS_HEADER_LEN d2 = hb @ [0]"
    using arg_cong [OF d2(4), of "take 5"] d2(2) lhb by (simp add: TS_HEADER_LEN_def)
  have "take (pos - TS_HEADER_LEN) (drop TS_HEADER_LEN d2) = drop 5 (take pos d2)"
    by (simp add: TS_HEADER_LEN_def drop_take)
  also have "\<dots> = pat_body ch fl" using d2(4) lhb by (simp add: body)
  finally have bd: "take (pos - TS_HEADER_LEN) (drop TS_HEADER_LEN d2) = pat_body ch fl" .
  define out where "out = hb @ [0] @ sealed (pat_body ch fl) @ replicate (179 - length (pat_body ch fl)) (0xff :: u8)"
  have 11: "pat_finish d2 pos = Some out"
    using pat_finish_spec [OF d2(1), of pos] d2(2,3) bd t5 lb
    by (simp add: out_def ts_sizes)
  have lout: "length out = 188" using lhb lb d2(2,3) by (simp add: out_def)
  have 12: "mem_write (generated_pat ch) 0 out = Some out"
    using lout gl by (simp add: mem_write_def)
  have "pat_channel_rewrite pkt ch b = Some (pkt\<lparr>data_full := full'\<rparr>, ch\<lparr>generated_pat := out\<rparr>, b')"
    unfolding pat_channel_rewrite_def Let_def fl_def [symmetric] pat_single_def [symmetric]
    by (simp only: 1 2 7 8 9 bind.bind_lunit pat_section_length_def [symmetric] sl_def [symmetric]
        10(1) prod.case 11 12)
  moreover have "take TS_HEADER_LEN b' = hb @ [0]" "length b' = length b"
    using lhb b5 by (simp_all add: b'_def TS_HEADER_LEN_def)
  ultimately show ?thesis
    using lb d2(3) unfolding fl_def [symmetric] hb_def [symmetric] out_def full'_def ps_def
    by (intro exI [of _ "ps @ drop 8 fl"] exI [of _ b']) (simp add: ps_def)
qed

lemma pat_body_split:
  "pat_body ch full = pat_bytes (pat_single (pat_of full)) @
     concat (take 42 (concat (map (entry_copies ch) (pat_entries full (pat_section_length full) 8))))"
  by (simp add: pat_body_def)

lemma pat_section_length_lt: "pat_section_length full < 4096"
  by (simp add: pat_section_length_def pat_of_def HILO_get4)

lemma pat_section_length_ok: "section_ok s \<Longrightarrow> pat_section_length s = length s - 3"
  by (simp add: section_ok_def pat_section_length_def pat_of_def BYTES_BFR_SEC_LEN_def)

lemma sealed_body_append:
  "3 \<le> length h \<Longrightarrow> \<exists>h'. length h' = length h \<and> sealed_body (h @ rest) = h' @ rest \<and>
     (\<forall>i. i \<noteq> 1 \<and> i \<noteq> 2 \<longrightarrow> h' ! i = h ! i)"
  by (intro exI [of _ "h[1 := _, 2 := _]"]) (auto simp: sealed_body_def Let_def list_update_append)

lemma pat_entries_sealed:
  assumes "section_ok (sealed (pat_body ch full))" "length full = MAX_TS_SIZE"
  shows "pat_entries (sealed (pat_body ch full)) (pat_section_length (sealed (pat_body ch full))) 8 =
    take 42 (concat (map (entry_copies ch) (pat_entries full (pat_section_length full) 8)))"
proof -
  define ys where "ys = take 42 (concat (map (entry_copies ch) (pat_entries full (pat_section_length full) 8)))"
  have y4: "\<forall>y \<in> set ys. length y = 4"
    using pat_entries_length [of "pat_section_length full" full] pat_section_length_lt [of full] assms(2)
    by (auto simp: ys_def MAX_TS_SIZE_def dest!: in_set_takeD entry_copies_length)
  have lcy: "length (concat ys) = 4 * length ys" using y4 by (induction ys) auto
  obtain h' where h': "length h' = 8" "sealed_body (pat_body ch full) = h' @ concat ys"
    using sealed_body_append [of "pat_bytes (pat_single (pat_of full))" "concat ys"]
    by (auto simp: pat_body_def ys_def)
  have "length (sealed (pat_body ch full)) = 12 + 4 * length ys"
    using lcy by (simp add: pat_body_def flip: ys_def)
  then have "pat_section_length (sealed (pat_body ch full)) = length h' + 4 * length ys + 1"
    using pat_section_length_ok [OF assms(1)] h' by simp
  then show ?thesis
    using pat_entries_concat [OF y4, of h'] h' by (simp add: sealed_def flip: ys_def)
qed

lemma pat_of_sealed:
  "pat_t.table_id (pat_of (sealed (pat_body ch full))) = pat_t.table_id (pat_of full)"
  "pat_t.version_number (pat_of (sealed (pat_body ch full))) = pat_t.version_number (pat_of full)"
  "pat_t.current_next_indicator (pat_of (sealed (pat_body ch full))) = 1"
  "pat_t.section_number (pat_of (sealed (pat_body ch full))) = 0"
  "pat_t.last_section_number (pat_of (sealed (pat_body ch full))) = 0"
proof -
  define ps where "ps = pat_bytes (pat_single (pat_of full))"
  obtain h' rest where h': "length h' = 8" "sealed (pat_body ch full) = h' @ rest"
      "\<forall>i. i \<noteq> 1 \<and> i \<noteq> 2 \<longrightarrow> h' ! i = ps ! i"
    using sealed_body_append [of ps "concat (take 42 (concat (map (entry_copies ch)
        (pat_entries full (pat_section_length full) 8))))"]
    by (auto simp: pat_body_def sealed_def ps_def)
  have n: "pat_of (ps @ rest) = pat_norm (pat_single (pat_of full))"
    unfolding ps_def by (rule pat_s.dec_enc)
  have nth: "(h' @ rest) ! i = (ps @ rest) ! i" if "i < 8" "i \<noteq> 1" "i \<noteq> 2" for i
    using h' that by (simp add: nth_append ps_def)
  have eq: "pat_t.table_id (pat_of (h' @ rest)) = pat_t.table_id (pat_of (ps @ rest))"
    "pat_t.version_number (pat_of (h' @ rest)) = pat_t.version_number (pat_of (ps @ rest))"
    "pat_t.current_next_indicator (pat_of (h' @ rest)) = pat_t.current_next_indicator (pat_of (ps @ rest))"
    "pat_t.section_number (pat_of (h' @ rest)) = pat_t.section_number (pat_of (ps @ rest))"
    "pat_t.last_section_number (pat_of (h' @ rest)) = pat_t.last_section_number (pat_of (ps @ rest))"
    unfolding pat_of_def using nth [of 0] nth [of 5] nth [of 6] nth [of 7] by simp_all
  show "pat_t.table_id (pat_of (sealed (pat_body ch full))) = pat_t.table_id (pat_of full)"
    "pat_t.version_number (pat_of (sealed (pat_body ch full))) = pat_t.version_number (pat_of full)"
    "pat_t.current_next_indicator (pat_of (sealed (pat_body ch full))) = 1"
    "pat_t.section_number (pat_of (sealed (pat_body ch full))) = 0"
    "pat_t.last_section_number (pat_of (sealed (pat_body ch full))) = 0"
    unfolding h'(2) eq n by (simp_all add: pat_norm_def pat_single_def pat_of_def)
qed

text \<open>
  C4. Functional correctness of the PAT rewriting. Whatever the full PAT holds, the rewritten
  PAT of a channel is one transport packet: five bytes of header, a complete section with a
  correct length and CRC, and stuffing. It is applicable at once, alone, keeps the transport
  stream and the version of the full PAT, and announces exactly the entries of the full PAT that
  belong to the channel, in their order, the first 42 of them.
\<close>

theorem pat_channel_rewrite_correct:
  assumes "length (data_full pkt) = MAX_TS_SIZE" "channel_wf ch" "TS_HEADER_LEN \<le> length b"
  shows "\<exists>pkt' ch' b' s. pat_channel_rewrite pkt ch b = Some (pkt', ch', b') \<and>
     length (generated_pat ch') = TS_PACKET_SIZE \<and>
     generated_pat ch' = take TS_HEADER_LEN b' @ s @ replicate (183 - length s) 0xff \<and>
     section_ok s \<and>
     pat_entries s (pat_section_length s) 8 =
       take 42 (concat (map (entry_copies ch)
         (pat_entries (data_full pkt) (pat_section_length (data_full pkt)) 8))) \<and>
     pat_t.table_id (pat_of s) = pat_t.table_id (pat_of (data_full pkt)) \<and>
     pat_t.version_number (pat_of s) = pat_t.version_number (pat_of (data_full pkt)) \<and>
     pat_t.current_next_indicator (pat_of s) = 1 \<and>
     pat_t.section_number (pat_of s) = 0 \<and> pat_t.last_section_number (pat_of s) = 0"
proof -
  define fl where "fl = data_full pkt"
  define s where "s = sealed (pat_body ch fl)"
  obtain full' b' where r: "pat_channel_rewrite pkt ch b =
      Some (pkt\<lparr>data_full := full'\<rparr>,
            ch\<lparr>generated_pat := take TS_HEADER_LEN b' @ s @ replicate (179 - length (pat_body ch fl)) 0xff\<rparr>, b')"
     "length b' = length b" "length (pat_body ch fl) \<le> 178"
    using pat_channel_rewrite_result [OF assms] unfolding fl_def s_def by blast
  have ls: "length s = length (pat_body ch fl) + 4" by (simp add: s_def)
  have l8: "8 \<le> length (pat_body ch fl)" by (simp add: pat_body_def)
  have ok: "section_ok s"
    unfolding s_def using r(3) l8 by (intro sealed_section_ok) (simp_all add: MAX_TS_SIZE_def)
  have parse: "pat_entries s (pat_section_length s) 8 =
       take 42 (concat (map (entry_copies ch) (pat_entries fl (pat_section_length fl) 8)))"
    unfolding s_def using ok assms(1) by (intro pat_entries_sealed) (simp_all add: s_def fl_def)
  have hdr: "pat_t.table_id (pat_of s) = pat_t.table_id (pat_of fl)"
     "pat_t.version_number (pat_of s) = pat_t.version_number (pat_of fl)"
     "pat_t.current_next_indicator (pat_of s) = 1"
     "pat_t.section_number (pat_of s) = 0" "pat_t.last_section_number (pat_of s) = 0"
    unfolding s_def by (rule pat_of_sealed)+
  show ?thesis
    using r ok parse hdr ls assms(3)
    by (intro exI [of _ "pkt\<lparr>data_full := full'\<rparr>"] exI [of _ "ch\<lparr>generated_pat := take TS_HEADER_LEN b' @
          s @ replicate (179 - length (pat_body ch fl)) 0xff\<rparr>"] exI [of _ b'] exI [of _ s])
       (simp add: fl_def TS_PACKET_SIZE_def TS_HEADER_LEN_def)
qed

section \<open>The entry points\<close>

lemma pat_sealed_not_pes:
  assumes "length (pat_body ch full) \<le> 178"
  shows "sealed (pat_body ch full) ! 1 \<noteq> 1"
proof
  assume 1: "sealed (pat_body ch full) ! 1 = 1"
  define n where "n = length (pat_body ch full) + 1"
  have l: "8 \<le> length (pat_body ch full)" by (simp add: pat_body_def)
  have "drop_bit 8 (n AND 0x0f00) = 0"
  proof (rule bit_eqI)
    fix k
    have "n < 2 ^ (8 + k)"
      using assms power_increasing [of 8 "8 + k" "2 :: nat"] by (simp add: n_def)
    then have "\<not> bit n (8 + k)" by (simp add: bit_iff_odd)
    then show "bit (drop_bit 8 (n AND 0x0f00)) k = bit (0 :: nat) k"
      by (simp add: bit_drop_bit_eq bit_and_iff)
  qed
  then have "sealed (pat_body ch full) ! 1 = 0xf0 AND pat_body ch full ! 1"
    using l by (simp add: sealed_def sealed_body_def Let_def nth_append n_def)
  moreover have "\<not> bit (0xf0 AND x) 0" for x :: u8 by (simp add: bit_and_iff)
  ultimately show False using 1 by (metis bit_1_0)
qed

interpretation pat_client: section_client "\<lambda>_. True" pat_global_body "\<lambda>_. True"
  by unfold_locales
     (auto simp: pat_global_body_def tbl_current_next_def update_pat_version_def tbl_version_def
       mem_simps MAX_TS_SIZE_def)

definition need_bytes :: nat where "need_bytes = TS_PACKET_SIZE + 6"

lemma pat_need_update_total:
  "need_bytes \<le> length b \<Longrightarrow> \<exists>n. pat_need_update r b = Some n"
  using get_ts_begin_total [of b]
  by (fastforce simp: pat_need_update_def tbl_current_next_def tbl_version_def mem_simps need_bytes_def
      split: option.split)

text \<open>
  For every packet, the update of the full PAT returns, keeps the section buffer in its
  invariant and keeps the continuity counter in its four bits. (Six readable bytes after the
  packet are assumed, see \<open>get_ts_begin_overread\<close>.)
\<close>

theorem pat_global_safe:
  assumes "full_pat r = Some pkt" "ts_inv pkt" "need_bytes \<le> length b"
  shows "\<exists>r' pkt'. pat_rewrite_new_global_packet b r = Some r' \<and>
     full_pat r' = Some pkt' \<and> ts_inv pkt' \<and> pat_continuity_counter r' < 16"
proof -
  obtain n where n: "(if \<not> pat_needs_update r then pat_need_update r b else Some (pat_needs_update r)) = Some n"
    using pat_need_update_total [OF assms(3), of r] by (cases "pat_needs_update r") auto
  have "TS_PACKET_SIZE \<le> length b" using assms(3) by (simp add: need_bytes_def)
  then obtain pkt' r' where
    "ts_while (\<lambda>_. True) pat_global_body b pkt (r\<lparr>pat_needs_update := n\<rparr>) = Some (pkt', r')" "ts_inv pkt'"
    using pat_client.while_ok [OF assms(2)] by blast
  then show ?thesis
    unfolding pat_rewrite_new_global_packet_def n bind.bind_lunit Let_def
    using assms(1,2) by (cases n) auto
qed

text \<open>
  The rewritten PAT reaches a receiver: when a channel's PAT is generated and sent in
  place of a packet that carries payload only, a receiver running the same section assembler
  gets, from that one packet, a section whose entries are those of the channel.
\<close>

theorem pat_channel_packet_received:
  assumes r: "full_pat_ok r" "\<not> pat_needs_update r" "full_pat r = Some pkt" "length (data_full pkt) = MAX_TS_SIZE"
    and ch: "channel_wf ch" "channel_ready ch \<ge> READY" "generated_pat_version ch \<noteq> pat_version r"
    and b: "length b = TS_PACKET_SIZE" "ts_header_t.adaptation_field_control (ts_header_of b) = 1"
    and rx: "ts_inv rx" "full_sections rx = []"
  shows "\<exists>b' r' ch' rx1 rx2. pat_rewrite_new_channel_packet b r ch = Some (1, b', r', ch') \<and>
     length b' = TS_PACKET_SIZE \<and>
     get_ts_packet (Some b') rx = Some (False, rx1) \<and> get_ts_packet None rx1 = Some (True, rx2) \<and>
     pat_entries (received_section rx2) (pat_section_length (received_section rx2)) 8 =
       take 42 (concat (map (entry_copies ch)
         (pat_entries (data_full pkt) (pat_section_length (data_full pkt)) 8)))"
proof -
  define fl where "fl = data_full pkt"
  define s where "s = sealed (pat_body ch fl)"
  define hb where "hb = ts_header_bytes ((ts_header_of b)\<lparr>ts_header_t.payload_unit_start_indicator := 1\<rparr>)"
  define g where "g = hb @ [0] @ s @ replicate (179 - length (pat_body ch fl)) 0xff"
  have b5: "TS_HEADER_LEN \<le> length b" using b by (simp add: TS_HEADER_LEN_def TS_PACKET_SIZE_def)
  obtain pkt' b1 where w: "pat_channel_rewrite pkt ch b = Some (pkt', ch\<lparr>generated_pat := g\<rparr>, b1)"
      "length b1 = length b" "length (pat_body ch fl) \<le> 178"
    using pat_channel_rewrite_result [OF r(4) ch(1) b5] unfolding fl_def s_def hb_def g_def
    by (metis append.assoc)
  have lhb: "length hb = 4" by (simp add: hb_def length_ts_header_bytes)
  have ls: "length s = length (pat_body ch fl) + 4" by (simp add: s_def)
  have l8: "8 \<le> length (pat_body ch fl)" by (simp add: pat_body_def)
  have lg: "length g = TS_PACKET_SIZE" using lhb ls w(3) by (simp add: g_def TS_PACKET_SIZE_def)
  have ok: "section_ok s"
    unfolding s_def using w(3) l8 by (intro sealed_section_ok) (simp_all add: MAX_TS_SIZE_def)
  have hg: "ts_header_of g = ts_header_norm ((ts_header_of b)\<lparr>ts_header_t.payload_unit_start_indicator := 1\<rparr>)"
    unfolding g_def hb_def by (rule ts_header_s.dec_enc)
  have "mem_write b1 0 g = Some g" using w(2) b lg by (simp add: mem_write_def)
  moreover obtain b' where b': "set_continuity_counter g (pat_continuity_counter r) = Some b'"
      "length b' = length g" "drop 4 b' = drop 4 g"
      "ts_header_of b' = (ts_header_of g)\<lparr>ts_header_t.continuity_counter :=
         take_bit 4 (word_of_nat (pat_continuity_counter r))\<rparr>"
    using set_continuity_counter_spec [of g "pat_continuity_counter r"] lg by (auto simp: TS_PACKET_SIZE_def)
  ultimately have send: "pat_rewrite_new_channel_packet b r ch = Some (1, b', r\<lparr>full_pat := Some pkt'\<rparr>,
      ch\<lparr>generated_pat := g, generated_pat_version := pat_version r\<rparr>)"
    using r ch w(1) by (simp add: pat_rewrite_new_channel_packet_def)
  have p4: "drop 4 b' = 0 # s @ replicate (183 - length s) 0xff"
    using b'(3) lhb ls by (simp add: g_def)
  have h1: "ts_header_t.adaptation_field_control (ts_header_of b') = 1"
    "ts_header_t.payload_unit_start_indicator (ts_header_of b') \<noteq> 0"
    unfolding b'(4) hg using b(2) by (simp_all add: ts_header_norm_def)
  have "length s - 3 < 256" using ls w(3) by simp
  then have pes: "\<not> (s ! 0 = 0 \<and> s ! 1 = 1)"
    using pat_sealed_not_pes [OF w(3)] by (simp add: s_def)
  have ls183: "length s \<le> 183" using ls w(3) by simp
  have lb': "length b' = TS_PACKET_SIZE" using b' lg by simp
  obtain rx1 rx2 where rxs: "get_ts_packet (Some b') rx = Some (False, rx1)"
     "get_ts_packet None rx1 = Some (True, rx2)" "received_section rx2 = s"
    using ts_feed_single [OF rx ok ls183 lb' h1 p4 pes] by blast
  have "pat_entries s (pat_section_length s) 8 =
       take 42 (concat (map (entry_copies ch) (pat_entries fl (pat_section_length fl) 8)))"
    unfolding s_def using ok r(4) by (intro pat_entries_sealed) (simp_all add: s_def fl_def)
  then show ?thesis
    using send lb' rxs unfolding fl_def
    by (intro exI [of _ b'] exI [of _ "r\<lparr>full_pat := Some pkt'\<rparr>"]
        exI [of _ "ch\<lparr>generated_pat := g, generated_pat_version := pat_version r\<rparr>"]
        exI [of _ rx1] exI [of _ rx2]) simp
qed

subsection \<open>Witnesses\<close>

definition sample_rewrite :: rewrite_parameters_t where
  "sample_rewrite = init_rewr_v\<lparr>rewrite_pat := OPTION_ON, full_pat := Some empty_ts_packet,
     pat_needs_update := False, full_pat_ok := True, pat_version := 3\<rparr>"

definition sample_packet :: "u8 list" where
  "sample_packet = [0x47, 0x40, 0x00, 0x10] @ replicate 184 0"

lemma sample_packet_afc: "ts_header_t.adaptation_field_control (ts_header_of sample_packet) = 1"
  by (simp add: sample_packet_def ts_header_of_def bf_get_def)

theorem pat_channel_rewrite_correct_witness:
  "\<exists>pkt' ch' b' s. pat_channel_rewrite empty_ts_packet zero_channel sample_packet = Some (pkt', ch', b') \<and>
     section_ok s"
proof -
  have l: "length (data_full empty_ts_packet) = MAX_TS_SIZE" by (simp add: empty_ts_packet_def)
  have h: "TS_HEADER_LEN \<le> length sample_packet" by (simp add: sample_packet_def TS_HEADER_LEN_def)
  show ?thesis using pat_channel_rewrite_correct [OF l zero_channel_wf h] by blast
qed

theorem pat_global_safe_witness:
  "\<exists>r' pkt'. pat_rewrite_new_global_packet (replicate 194 0x47) sample_rewrite = Some r' \<and>
     full_pat r' = Some pkt' \<and> ts_inv pkt' \<and> pat_continuity_counter r' < 16"
  by (rule pat_global_safe [OF _ ts_inv_empty])
     (simp_all add: sample_rewrite_def need_bytes_def TS_PACKET_SIZE_def)

theorem pat_channel_packet_received_witness:
  "\<exists>b' r' ch' rx1 rx2. pat_rewrite_new_channel_packet sample_packet sample_rewrite
       (zero_channel\<lparr>channel_ready := READY\<rparr>) = Some (1, b', r', ch') \<and>
     get_ts_packet (Some b') empty_ts_packet = Some (False, rx1) \<and> get_ts_packet None rx1 = Some (True, rx2)"
proof -
  let ?ch = "zero_channel\<lparr>channel_ready := READY\<rparr>"
  have "full_pat_ok sample_rewrite" "\<not> pat_needs_update sample_rewrite"
    "full_pat sample_rewrite = Some empty_ts_packet" "length (data_full empty_ts_packet) = MAX_TS_SIZE"
    "channel_ready ?ch \<ge> READY" "generated_pat_version ?ch \<noteq> pat_version sample_rewrite"
    "length sample_packet = TS_PACKET_SIZE"
    by (simp_all add: sample_rewrite_def zero_channel_def sample_packet_def empty_ts_packet_def TS_PACKET_SIZE_def)
  moreover have "channel_wf ?ch" using zero_channel_wf by (simp add: channel_wf_def)
  ultimately show ?thesis
    using pat_channel_packet_received [OF _ _ _ _ _ _ _ _ sample_packet_afc ts_inv_empty full_sections_empty]
    by blast
qed

end
