(* ===== verification/Unicast_Queue.thy ===== *)
theory Unicast_Queue
  imports Mumudvb
begin

text \<open>
  The queue of unsent packets of an HTTP client, \<^verbatim>\<open>src/src/unicast_queue.c\<close> and
  \<^verbatim>\<open>src/src/unicast_queue.h\<close>: a singly linked list in the heap with a packet count and a byte
  count.

  Pointers are natural numbers, \<^verbatim>\<open>NULL\<close> is 0, and the heap maps the live pointers to the list
  cells and to the packet contents. An operation that dereferences a pointer that is not live, or
  reads a member that was never written, has the result \<open>None\<close>. \<^verbatim>\<open>malloc\<close> is a parameter: the
  operations take the addresses their calls return, \<^verbatim>\<open>NULL\<close> for a failed call.

  The lemmas show that the operations implement a first-in first-out queue of packets
  (\<open>queue_holds\<close>), whatever else is in the heap, and what a failed \<^verbatim>\<open>malloc\<close> leaves behind.
\<close>

section \<open>Data\<close>

type_synonym ptr = nat

definition NULL :: ptr where "NULL = 0"

definition UNICAST_DEFAULT_QUEUE_MAX :: int where "UNICAST_DEFAULT_QUEUE_MAX = 1024 * 512"
definition UNICAST_MULTIPLE_QUEUE_SEND :: nat where "UNICAST_MULTIPLE_QUEUE_SEND = 3"

text \<open>\<open>data_length\<close> is \<open>None\<close> between the allocation of a cell and the first write to the member.\<close>

record unicast_queue_data_t =
  data_length :: "int option"
  data :: ptr
  next_data :: ptr

record unicast_queue_header_t =
  packets_in_queue :: int
  data_bytes_in_queue :: int
  queue_full :: bool
  queue_first :: ptr
  queue_last :: ptr

definition empty_queue :: unicast_queue_header_t where
  "empty_queue = \<lparr>packets_in_queue = 0, data_bytes_in_queue = 0, queue_full = False,
     queue_first = NULL, queue_last = NULL\<rparr>"

record queue_heap =
  cells :: "ptr \<Rightarrow> unicast_queue_data_t option"
  blocks :: "ptr \<Rightarrow> u8 list option"

section \<open>Operations\<close>

text \<open>The addresses are those of the list cell and of the copy of the data.\<close>

definition unicast_queue_add_data ::
  "queue_heap \<Rightarrow> unicast_queue_header_t \<Rightarrow> u8 list \<Rightarrow> ptr \<Rightarrow> ptr \<Rightarrow>
   (int \<times> queue_heap \<times> unicast_queue_header_t) option" where
  "unicast_queue_add_data h q xs cell block = do {
     (h, q) \<leftarrow>
       (if packets_in_queue q = 0 then Some (h, q\<lparr>queue_first := cell\<rparr>)
        else do {
          l \<leftarrow> cells h (queue_last q);
          Some (h\<lparr>cells := (cells h)(queue_last q \<mapsto> l\<lparr>next_data := cell\<rparr>)\<rparr>, q)});
     if cell = NULL then Some (-1, h, q)
     else do {
       let q = q\<lparr>queue_last := cell\<rparr>;
       let c = \<lparr>data_length = None, data = block, next_data = NULL\<rparr>;
       if block = NULL then Some (-1, h\<lparr>cells := (cells h)(cell \<mapsto> c)\<rparr>, q)
       else Some (0,
         h\<lparr>cells := (cells h)(cell \<mapsto> c\<lparr>data_length := Some (int (length xs))\<rparr>),
           blocks := (blocks h)(block \<mapsto> xs)\<rparr>,
         q\<lparr>packets_in_queue := packets_in_queue q + 1,
           data_bytes_in_queue := data_bytes_in_queue q + int (length xs)\<rparr>)}}"

text \<open>The pointer to the data of the first packet and its length, or \<^verbatim>\<open>NULL\<close> for an empty queue.\<close>

definition unicast_queue_get_data ::
  "queue_heap \<Rightarrow> unicast_queue_header_t \<Rightarrow> (ptr \<times> int) option option" where
  "unicast_queue_get_data h q =
     (if packets_in_queue q = 0 then Some None
      else do {
        c \<leftarrow> cells h (queue_first q);
        len \<leftarrow> data_length c;
        Some (Some (data c, len))})"

definition unicast_queue_remove_data ::
  "queue_heap \<Rightarrow> unicast_queue_header_t \<Rightarrow> (int \<times> queue_heap \<times> unicast_queue_header_t) option" where
  "unicast_queue_remove_data h q =
     (if packets_in_queue q = 0 then Some (-1, h, q)
      else do {
        c \<leftarrow> cells h (queue_first q);
        len \<leftarrow> data_length c;
        Some (0,
          h\<lparr>blocks := (blocks h)(data c := None), cells := (cells h)(queue_first q := None)\<rparr>,
          q\<lparr>queue_first := next_data c, packets_in_queue := packets_in_queue q - 1,
            queue_full := False, data_bytes_in_queue := data_bytes_in_queue q - len\<rparr>)})"

lemma unicast_queue_remove_data_count:
  "unicast_queue_remove_data h q = Some (r, h', q') \<Longrightarrow> 0 < packets_in_queue q \<Longrightarrow>
   packets_in_queue q' = packets_in_queue q - 1"
  by (auto simp: unicast_queue_remove_data_def split: Option.bind_splits)

function unicast_queue_clear ::
  "queue_heap \<Rightarrow> unicast_queue_header_t \<Rightarrow> (queue_heap \<times> unicast_queue_header_t) option" where
  "unicast_queue_clear h q =
     (if packets_in_queue q > 0 then
        (case unicast_queue_remove_data h q of None \<Rightarrow> None
         | Some (_, h', q') \<Rightarrow> unicast_queue_clear h' q')
      else Some (h, q))"
  by pat_completeness auto

termination
  by (relation "measure (\<lambda>(h, q). nat (packets_in_queue q))")
     (auto simp: unicast_queue_remove_data_count)

declare unicast_queue_clear.simps [simp del]

text \<open>
  \<open>src\<close> is the pointer \<^verbatim>\<open>data\<close> as a block and an offset in it; \<open>block\<close> is what \<^verbatim>\<open>malloc\<close> returns.
\<close>

definition unicast_queue_requeue ::
  "queue_heap \<Rightarrow> unicast_queue_header_t \<Rightarrow> ptr \<times> nat \<Rightarrow> nat \<Rightarrow> ptr \<Rightarrow>
   (int \<times> queue_heap \<times> unicast_queue_header_t) option" where
  "unicast_queue_requeue h q src len block =
     (if packets_in_queue q = 0 then Some (-1, h, q)
      else if block = NULL then Some (-1, h, q)
      else do {
        bs \<leftarrow> blocks h (fst src);
        xs \<leftarrow> mem_read bs (snd src) len;
        c \<leftarrow> cells h (queue_first q);
        last_pkt_size \<leftarrow> data_length c;
        Some (0,
          h\<lparr>blocks := ((blocks h)(data c := None))(block \<mapsto> xs),
            cells := (cells h)(queue_first q \<mapsto> c\<lparr>data := block, data_length := Some (int len)\<rparr>)\<rparr>,
          q\<lparr>data_bytes_in_queue := data_bytes_in_queue q - last_pkt_size + int len\<rparr>)})"

section \<open>The abstract queue\<close>

text \<open>An entry of the chain: its cell, the block of its data, the data.\<close>

type_synonym queue_entry = "ptr \<times> ptr \<times> u8 list"

abbreviation entry_cell :: "queue_entry \<Rightarrow> ptr" where "entry_cell e \<equiv> fst e"
abbreviation entry_block :: "queue_entry \<Rightarrow> ptr" where "entry_block e \<equiv> fst (snd e)"
abbreviation entry_data :: "queue_entry \<Rightarrow> u8 list" where "entry_data e \<equiv> snd (snd e)"

fun chain :: "queue_heap \<Rightarrow> ptr \<Rightarrow> queue_entry list \<Rightarrow> bool" where
  "chain h p [] \<longleftrightarrow> True"
| "chain h p (e # es) \<longleftrightarrow> p = entry_cell e \<and> p \<noteq> NULL \<and> entry_block e \<noteq> NULL \<and>
     blocks h (entry_block e) = Some (entry_data e) \<and>
     (\<exists>n. cells h p = Some \<lparr>data_length = Some (int (length (entry_data e))), data = entry_block e, next_data = n\<rparr> \<and>
          chain h n es)"

definition queue_rep :: "queue_heap \<Rightarrow> unicast_queue_header_t \<Rightarrow> queue_entry list \<Rightarrow> bool" where
  "queue_rep h q es \<longleftrightarrow> packets_in_queue q = int (length es) \<and>
     data_bytes_in_queue q = int (length (concat (map entry_data es))) \<and>
     chain h (queue_first q) es \<and> distinct (map entry_cell es) \<and> distinct (map entry_block es) \<and>
     (es \<noteq> [] \<longrightarrow> queue_last q = entry_cell (last es))"

text \<open>The contents of a queue and the pointers it owns.\<close>

definition queue_holds :: "queue_heap \<Rightarrow> unicast_queue_header_t \<Rightarrow> u8 list list \<Rightarrow> bool" where
  "queue_holds h q xs \<longleftrightarrow> (\<exists>es. queue_rep h q es \<and> map entry_data es = xs)"

lemma queue_rep_empty [simp]: "queue_rep h empty_queue []"
  by (simp add: queue_rep_def empty_queue_def)

lemma chain_cong:
  "\<forall>e \<in> set es. cells h' (entry_cell e) = cells h (entry_cell e) \<and> blocks h' (entry_block e) = blocks h (entry_block e) \<Longrightarrow>
   chain h' p es = chain h p es"
  by (induction es arbitrary: p) auto

lemma queue_rep_cong:
  assumes "\<forall>e \<in> set es. cells h' (entry_cell e) = cells h (entry_cell e) \<and> blocks h' (entry_block e) = blocks h (entry_block e)"
  shows "queue_rep h' q es = queue_rep h q es"
  by (simp add: queue_rep_def chain_cong [OF assms])

lemma chain_cells: "chain h p es \<Longrightarrow> e \<in> set es \<Longrightarrow>
   entry_cell e \<noteq> NULL \<and> entry_block e \<noteq> NULL \<and> cells h (entry_cell e) \<noteq> None \<and> blocks h (entry_block e) \<noteq> None"
  by (induction es arbitrary: p) auto

lemma distinct_head: "distinct (map g (e # es)) \<Longrightarrow> f \<in> set es \<Longrightarrow> g f \<noteq> g e"
  by (metis distinct.simps(2) imageI list.set_map list.simps(9))

lemma chain_fresh:
  assumes "chain h p es"
  shows "cells h c = None \<Longrightarrow> c \<notin> set (map entry_cell es)" "blocks h b = None \<Longrightarrow> b \<notin> set (map entry_block es)"
  using chain_cells [OF assms] by (metis (no_types, lifting) image_iff list.set_map)+

text \<open>Changing where the last cell points does not change the chain.\<close>

lemma chain_last_next:
  assumes "chain h p es" "es \<noteq> []" "distinct (map entry_cell es)"
  shows "\<exists>c. cells h (entry_cell (last es)) = Some c \<and>
     chain (h\<lparr>cells := (cells h)(entry_cell (last es) \<mapsto> c\<lparr>next_data := n\<rparr>)\<rparr>) p es"
  using assms
proof (induction es arbitrary: p)
  case (Cons e es)
  show ?case
  proof (cases "es = []")
    case True then show ?thesis using Cons.prems(1) by auto
  next
    case False
    obtain m where m: "cells h p = Some \<lparr>data_length = Some (int (length (entry_data e))), data = entry_block e, next_data = m\<rparr>"
        "chain h m es" using Cons.prems(1) by auto
    obtain c where c: "cells h (entry_cell (last es)) = Some c"
        "chain (h\<lparr>cells := (cells h)(entry_cell (last es) \<mapsto> c\<lparr>next_data := n\<rparr>)\<rparr>) m es"
      using Cons.IH [OF m(2) False] Cons.prems(3) by (metis distinct.simps(2) list.simps(9))
    have "entry_cell (last es) \<noteq> entry_cell e" using distinct_head [OF Cons.prems(3), of "last es"] False by simp
    define h1 where "h1 = h\<lparr>cells := (cells h)(entry_cell (last es) \<mapsto> c\<lparr>next_data := n\<rparr>)\<rparr>"
    have "chain h1 m es" "cells h1 (entry_cell e) = cells h (entry_cell e)" "blocks h1 = blocks h"
      using c(2) \<open>entry_cell (last es) \<noteq> entry_cell e\<close> by (simp_all add: h1_def)
    then have "chain h1 p (e # es)" using Cons.prems(1) m by simp
    moreover have "last (e # es) = last es" using False by simp
    ultimately show ?thesis using c(1) unfolding h1_def by metis
  qed
qed simp

lemma chain_append:
  "chain h p es \<Longrightarrow> es \<noteq> [] \<Longrightarrow> cells h (entry_cell (last es)) = Some c \<Longrightarrow> chain h (next_data c) fs \<Longrightarrow>
   chain h p (es @ fs)"
  by (induction es arbitrary: p) (auto split: if_splits)

text \<open>The pointers an operation leaves alone: all but its own and the fresh ones.\<close>

definition heap_frame :: "queue_heap \<Rightarrow> queue_heap \<Rightarrow> ptr set \<Rightarrow> ptr set \<Rightarrow> bool" where
  "heap_frame h h' C B \<longleftrightarrow> (\<forall>p. p \<notin> C \<longrightarrow> cells h' p = cells h p) \<and> (\<forall>p. p \<notin> B \<longrightarrow> blocks h' p = blocks h p)"

definition entry_cells :: "queue_entry list \<Rightarrow> ptr set" where "entry_cells es = set (map entry_cell es)"
definition entry_blocks :: "queue_entry list \<Rightarrow> ptr set" where "entry_blocks es = set (map entry_block es)"

text \<open>What \<^verbatim>\<open>malloc\<close> promises of the addresses it returns.\<close>

definition fresh :: "queue_heap \<Rightarrow> ptr \<Rightarrow> ptr \<Rightarrow> bool" where
  "fresh h cell block \<longleftrightarrow> cell \<noteq> NULL \<and> block \<noteq> NULL \<and> cells h cell = None \<and> blocks h block = None"

lemma queue_add:
  assumes rep: "queue_rep h q es" and f: "fresh h cell block"
  shows "\<exists>h' q'. unicast_queue_add_data h q xs cell block = Some (0, h', q') \<and>
     queue_rep h' q' (es @ [(cell, block, xs)]) \<and> queue_full q' = queue_full q \<and>
     heap_frame h h' (insert cell (entry_cells es)) {block}"
proof -
  have cb: "cell \<noteq> NULL" "block \<noteq> NULL" "cells h cell = None" "blocks h block = None"
    using f by (simp_all add: fresh_def)
  have ch: "chain h (queue_first q) es" and dc: "distinct (map entry_cell es)" and db: "distinct (map entry_block es)"
    using rep by (simp_all add: queue_rep_def)
  have nc: "cell \<notin> set (map entry_cell es)" and nb: "block \<notin> set (map entry_block es)"
    using chain_fresh [OF ch] cb(3,4) by simp_all
  have size: "packets_in_queue q = int (length es)" "data_bytes_in_queue q = int (length (concat (map entry_data es)))"
    using rep by (simp_all add: queue_rep_def)
  define c where "c = \<lparr>data_length = Some (int (length xs)), data = block, next_data = NULL\<rparr>"
  define q' where "q' = q\<lparr>queue_last := cell, packets_in_queue := packets_in_queue q + 1,
       data_bytes_in_queue := data_bytes_in_queue q + int (length xs)\<rparr>"
  show ?thesis
  proof (cases "es = []")
    case True
    then have "queue_rep (h\<lparr>cells := (cells h)(cell \<mapsto> c), blocks := (blocks h)(block \<mapsto> xs)\<rparr>)
        (q\<lparr>queue_first := cell, queue_last := cell, packets_in_queue := packets_in_queue q + 1,
          data_bytes_in_queue := data_bytes_in_queue q + int (length xs)\<rparr>) [(cell, block, xs)]"
      using cb size by (simp add: queue_rep_def q'_def c_def)
    then show ?thesis
      using True cb size by (simp add: unicast_queue_add_data_def Let_def q'_def c_def heap_frame_def)
  next
    case False
    obtain l where l: "cells h (entry_cell (last es)) = Some l"
        "chain (h\<lparr>cells := (cells h)(entry_cell (last es) \<mapsto> l\<lparr>next_data := cell\<rparr>)\<rparr>) (queue_first q) es"
      using chain_last_next [OF ch False dc] by blast
    define h1 where "h1 = h\<lparr>cells := (cells h)(entry_cell (last es) \<mapsto> l\<lparr>next_data := cell\<rparr>)\<rparr>"
    define h2 where "h2 = h1\<lparr>cells := (cells h1)(cell \<mapsto> c), blocks := (blocks h1)(block \<mapsto> xs)\<rparr>"
    have lc: "entry_cell (last es) \<in> set (map entry_cell es)" using False by simp
    have "chain h2 (queue_first q) es"
    proof (subst chain_cong)
      show "\<forall>e \<in> set es. cells h2 (entry_cell e) = cells h1 (entry_cell e) \<and> blocks h2 (entry_block e) = blocks h1 (entry_block e)"
        using nc nb by (auto simp: h2_def)
      show "chain h1 (queue_first q) es" using l(2) by (simp add: h1_def)
    qed
    moreover have "cells h2 (entry_cell (last es)) = Some (l\<lparr>next_data := cell\<rparr>)"
      using lc nc by (auto simp: h2_def h1_def)
    moreover have "chain h2 cell [(cell, block, xs)]"
      using cb by (simp add: h2_def c_def)
    ultimately have "chain h2 (queue_first q) (es @ [(cell, block, xs)])"
      using False by (intro chain_append [where c = "l\<lparr>next_data := cell\<rparr>"]) simp_all
    then have "queue_rep h2 q' (es @ [(cell, block, xs)])"
      using dc db nc nb size by (simp add: queue_rep_def q'_def)
    moreover have "unicast_queue_add_data h q xs cell block = Some (0, h2, q')"
      using False cb size l(1) rep
      by (simp add: unicast_queue_add_data_def queue_rep_def Let_def h2_def h1_def q'_def c_def)
    moreover have "heap_frame h h2 (insert cell (entry_cells es)) {block}"
      using lc by (auto simp: heap_frame_def h2_def h1_def entry_cells_def)
    ultimately show ?thesis by (auto simp: q'_def)
  qed
qed

lemma queue_rep_head:
  assumes "queue_rep h q (e # es)" "g \<in> set es"
  shows "entry_cell g \<noteq> entry_cell e" "entry_block g \<noteq> entry_block e"
  using assms distinct_head [of entry_cell e es g] distinct_head [of entry_block e es g]
  unfolding queue_rep_def by blast+

lemma queue_get:
  assumes "queue_rep h q (e # es)"
  shows "unicast_queue_get_data h q = Some (Some (entry_block e, int (length (entry_data e))))"
    "blocks h (entry_block e) = Some (entry_data e)"
  using assms by (auto simp: queue_rep_def unicast_queue_get_data_def)

lemma queue_get_empty: "queue_rep h q [] \<Longrightarrow> unicast_queue_get_data h q = Some None"
  by (simp add: queue_rep_def unicast_queue_get_data_def)

lemma queue_remove:
  assumes "queue_rep h q (e # es)"
  shows "\<exists>h' q'. unicast_queue_remove_data h q = Some (0, h', q') \<and> queue_rep h' q' es \<and>
     \<not> queue_full q' \<and> blocks h' (entry_block e) = None \<and> cells h' (entry_cell e) = None \<and>
     heap_frame h h' {entry_cell e} {entry_block e}"
proof -
  obtain n where n: "cells h (entry_cell e) =
      Some \<lparr>data_length = Some (int (length (entry_data e))), data = entry_block e, next_data = n\<rparr>"
      "chain h n es" "queue_first q = entry_cell e"
    using assms by (auto simp: queue_rep_def)
  define h' where "h' = h\<lparr>blocks := (blocks h)(entry_block e := None), cells := (cells h)(entry_cell e := None)\<rparr>"
  have dh: "entry_cell g \<noteq> entry_cell e" "entry_block g \<noteq> entry_block e" if "g \<in> set es" for g
    using queue_rep_head [OF assms that] by simp_all
  have "\<forall>f \<in> set es. cells h' (entry_cell f) = cells h (entry_cell f) \<and> blocks h' (entry_block f) = blocks h (entry_block f)"
    using dh by (simp add: h'_def)
  then have "chain h' n es" using n(2) chain_cong by blast
  then show ?thesis
    using n assms
    by (auto simp: unicast_queue_remove_data_def queue_rep_def h'_def heap_frame_def split: if_splits)
qed

lemma queue_remove_empty: "queue_rep h q [] \<Longrightarrow> unicast_queue_remove_data h q = Some (-1, h, q)"
  by (simp add: queue_rep_def unicast_queue_remove_data_def)

lemma queue_clear:
  "queue_rep h q es \<Longrightarrow> \<exists>h' q'. unicast_queue_clear h q = Some (h', q') \<and> queue_rep h' q' [] \<and>
     (\<forall>e \<in> set es. cells h' (entry_cell e) = None \<and> blocks h' (entry_block e) = None) \<and>
     heap_frame h h' (entry_cells es) (entry_blocks es)"
proof (induction es arbitrary: h q)
  case Nil
  then show ?case by (subst unicast_queue_clear.simps) (simp add: queue_rep_def heap_frame_def)
next
  case (Cons e es)
  obtain h1 q1 where 1: "unicast_queue_remove_data h q = Some (0, h1, q1)" "queue_rep h1 q1 es"
     "blocks h1 (entry_block e) = None" "cells h1 (entry_cell e) = None"
     "heap_frame h h1 {entry_cell e} {entry_block e}"
    using queue_remove [OF Cons.prems] by blast
  obtain h2 q2 where 2: "unicast_queue_clear h1 q1 = Some (h2, q2)" "queue_rep h2 q2 []"
     "\<forall>e \<in> set es. cells h2 (entry_cell e) = None \<and> blocks h2 (entry_block e) = None"
     "heap_frame h1 h2 (entry_cells es) (entry_blocks es)"
    using Cons.IH [OF 1(2)] by blast
  have "entry_cell e \<notin> entry_cells es" "entry_block e \<notin> entry_blocks es"
    using Cons.prems by (simp_all add: queue_rep_def entry_cells_def entry_blocks_def)
  then have "cells h2 (entry_cell e) = None" "blocks h2 (entry_block e) = None"
    using 1(3,4) 2(4) by (simp_all add: heap_frame_def)
  moreover have "heap_frame h h2 (entry_cells (e # es)) (entry_blocks (e # es))"
    using 1(5) 2(4) by (simp add: heap_frame_def entry_cells_def entry_blocks_def)
  moreover have "unicast_queue_clear h q = Some (h2, q2)"
    using 1(1) 2(1) Cons.prems by (subst unicast_queue_clear.simps) (simp add: queue_rep_def)
  ultimately show ?case using 2(2,3) by auto
qed

text \<open>Replacing the data of the first packet by \<open>len\<close> bytes of a live block.\<close>

lemma queue_requeue:
  assumes rep: "queue_rep h q (e # es)" and src: "blocks h p = Some bs" "off + len \<le> length bs"
    and f: "block \<noteq> NULL" "blocks h block = None"
  shows "\<exists>h' q'. unicast_queue_requeue h q (p, off) len block = Some (0, h', q') \<and>
     queue_rep h' q' ((entry_cell e, block, take len (drop off bs)) # es)"
proof -
  obtain n where n: "cells h (entry_cell e) =
      Some \<lparr>data_length = Some (int (length (entry_data e))), data = entry_block e, next_data = n\<rparr>"
      "chain h n es" "queue_first q = entry_cell e" "entry_cell e \<noteq> NULL"
    using rep by (auto simp: queue_rep_def)
  define h' where "h' = h\<lparr>blocks := ((blocks h)(entry_block e := None))(block \<mapsto> take len (drop off bs)),
     cells := (cells h)(entry_cell e \<mapsto> \<lparr>data_length = Some (int len), data = block, next_data = n\<rparr>)\<rparr>"
  have nb: "block \<notin> entry_block ` set es" using chain_fresh(2) [OF n(2) f(2)] by simp
  have dh: "entry_cell g \<noteq> entry_cell e" "entry_block g \<noteq> entry_block e" if "g \<in> set es" for g
    using queue_rep_head [OF rep that] by simp_all
  have "\<forall>g \<in> set es. cells h' (entry_cell g) = cells h (entry_cell g) \<and> blocks h' (entry_block g) = blocks h (entry_block g)"
    using dh nb by (simp add: h'_def) blast
  then have "chain h' n es" using n(2) chain_cong by blast
  then show ?thesis
    using n rep src f nb
    by (auto simp: unicast_queue_requeue_def queue_rep_def h'_def mem_read_def)
qed

section \<open>Properties\<close>

text \<open>
  C7. The queue of a client is a first-in first-out queue of packets: on a queue that holds the
  packets \<open>xs\<close>, adding appends the packet, reading gives a live block with the first packet and its length,
  removing drops the first packet, clearing empties the queue; an empty queue refuses removal
  without a change. The byte count is always the sum of the packet lengths.
\<close>

theorem unicast_queue_fifo:
  assumes "queue_holds h q xs"
  shows "data_bytes_in_queue q = int (length (concat xs)) \<and> packets_in_queue q = int (length xs) \<and>
     (fresh h cell block \<longrightarrow> (\<exists>h' q'. unicast_queue_add_data h q x cell block = Some (0, h', q') \<and>
        queue_holds h' q' (xs @ [x]))) \<and>
     (case xs of
        [] \<Rightarrow> unicast_queue_get_data h q = Some None \<and> unicast_queue_remove_data h q = Some (-1, h, q)
      | y # ys \<Rightarrow> (\<exists>p. unicast_queue_get_data h q = Some (Some (p, int (length y))) \<and> blocks h p = Some y) \<and>
          (\<exists>h' q'. unicast_queue_remove_data h q = Some (0, h', q') \<and> queue_holds h' q' ys)) \<and>
     (\<exists>h' q'. unicast_queue_clear h q = Some (h', q') \<and> queue_holds h' q' [])"
proof -
  obtain es where es: "queue_rep h q es" "map entry_data es = xs"
    using assms by (auto simp: queue_holds_def)
  have "data_bytes_in_queue q = int (length (concat xs))" "packets_in_queue q = int (length xs)"
    using es by (auto simp: queue_rep_def)
  moreover have "\<exists>h' q'. unicast_queue_add_data h q x cell block = Some (0, h', q') \<and> queue_holds h' q' (xs @ [x])"
    if f: "fresh h cell block"
  proof -
    obtain h' q' where "unicast_queue_add_data h q x cell block = Some (0, h', q')" "queue_rep h' q' (es @ [(cell, block, x)])"
      using queue_add [OF es(1) f] by blast
    moreover have "map entry_data (es @ [(cell, block, x)]) = xs @ [x]" using es(2) by simp
    ultimately show ?thesis unfolding queue_holds_def by blast
  qed
  moreover have "case xs of
        [] \<Rightarrow> unicast_queue_get_data h q = Some None \<and> unicast_queue_remove_data h q = Some (-1, h, q)
      | y # ys \<Rightarrow> (\<exists>p. unicast_queue_get_data h q = Some (Some (p, int (length y))) \<and> blocks h p = Some y) \<and>
          (\<exists>h' q'. unicast_queue_remove_data h q = Some (0, h', q') \<and> queue_holds h' q' ys)"
  proof (cases es)
    case Nil
    then show ?thesis using es queue_get_empty queue_remove_empty by auto
  next
    case (Cons e es')
    then have xs: "xs = entry_data e # map entry_data es'" using es(2) by simp
    show ?thesis
      using queue_get [of h q e es'] queue_remove [of h q e es'] es(1)
      unfolding xs Cons queue_holds_def by fastforce
  qed
  moreover have "\<exists>h' q'. unicast_queue_clear h q = Some (h', q') \<and> queue_holds h' q' []"
    using queue_clear [OF es(1)] by (auto simp: queue_holds_def)
  ultimately show ?thesis by blast
qed

text \<open>
  A failed allocation corrupts the queue: when the second \<^verbatim>\<open>malloc\<close> of an addition fails, the new
  cell stays linked behind the last packet. The next addition goes behind it, and once
  the packets before it are sent, the cell, whose length was never written, is read as a packet.
\<close>

lemma unicast_queue_add_failure:
  assumes "queue_holds h q [x]" "cell \<noteq> NULL" "cells h cell = None" "cell2 \<noteq> NULL" "block2 \<noteq> NULL" "cell2 \<noteq> cell"
    "cells h cell2 = None"
  shows "\<exists>h1 q1 h2 q2 h3 q3. unicast_queue_add_data h q y cell NULL = Some (-1, h1, q1) \<and> packets_in_queue q1 = 1 \<and>
     unicast_queue_add_data h1 q1 z cell2 block2 = Some (0, h2, q2) \<and> packets_in_queue q2 = 2 \<and>
     unicast_queue_remove_data h2 q2 = Some (0, h3, q3) \<and> packets_in_queue q3 = 1 \<and>
     unicast_queue_get_data h3 q3 = None"
proof -
  obtain e where "queue_rep h q [e]"
    using assms(1) by (auto simp: queue_holds_def)
  then obtain n where e: "packets_in_queue q = 1" "queue_first q = entry_cell e" "queue_last q = entry_cell e"
      "cells h (entry_cell e) = Some \<lparr>data_length = Some (int (length (entry_data e))), data = entry_block e, next_data = n\<rparr>"
    by (auto simp: queue_rep_def)
  have ne: "entry_cell e \<noteq> cell" using assms(3) e(4) by auto
  then show ?thesis
    using e assms(2-7)
    by (auto simp: unicast_queue_add_data_def unicast_queue_remove_data_def unicast_queue_get_data_def NULL_def Let_def)
qed

subsection \<open>Witnesses\<close>

definition sample_heap :: queue_heap where
  "sample_heap = \<lparr>cells = [1 \<mapsto> \<lparr>data_length = Some 2, data = 2, next_data = NULL\<rparr>], blocks = [2 \<mapsto> [7, 8]]\<rparr>"

definition sample_queue :: unicast_queue_header_t where
  "sample_queue = \<lparr>packets_in_queue = 1, data_bytes_in_queue = 2, queue_full = False, queue_first = 1, queue_last = 1\<rparr>"

lemma sample_queue_holds: "queue_holds sample_heap sample_queue [[7, 8]]"
  unfolding queue_holds_def
  by (intro exI [of _ "[(1, 2, [7, 8])]"])
     (simp add: queue_rep_def sample_heap_def sample_queue_def NULL_def)

theorem unicast_queue_fifo_witness:
  "\<exists>h' q'. unicast_queue_add_data sample_heap sample_queue [9] 3 4 = Some (0, h', q') \<and>
     queue_holds h' q' [[7, 8], [9]]"
proof -
  have "fresh sample_heap 3 4" by (simp add: fresh_def sample_heap_def NULL_def)
  then show ?thesis using unicast_queue_fifo [OF sample_queue_holds, of 3 4 "[9]"] by simp
qed

end
