(* ===== verification/Unicast_Clients.thy ===== *)
theory Unicast_Clients
  imports Unicast_Queue "HOL-Library.Multiset"
begin

text \<open>
  The HTTP clients, \<^verbatim>\<open>src/src/unicast_clients.c\<close>, and the closing of a connection,
  \<^verbatim>\<open>unicast_close_connection\<close> of \<^verbatim>\<open>src/src/unicast_http.c\<close>. A client is a cell of two doubly linked
  lists, the list of all clients and the list of the clients of its channel.

  Pointers to clients are natural numbers as in \<open>Unicast_Queue\<close>; the channel of a client is its
  index in the array of channels. Walks along a list are \<open>partial_function\<close>s, which have no
  result on a cyclic list. System calls on the sockets have no effect on the state; the answer to
  the HTTP request is a parameter, as are the addresses that \<^verbatim>\<open>calloc\<close> returns.

  The lemmas show that both lists stay doubly linked lists of exactly the live clients (\<open>clients_inv\<close>),
  so that no operation follows a dangling pointer, and that deleting a client frees its queue.
\<close>

section \<open>Data\<close>

record unicast_client_t =
  Socket :: int
  rx_buffer :: "u8 list option"
  buffersize :: nat
  bufferpos :: nat
  consecutive_errors :: bool
  first_error_time :: int
  chan_ptr :: "nat option"
  askedChannel :: int
  next_client :: ptr
  prev_client :: ptr
  chan_next :: ptr
  chan_prev :: ptr
  queue :: unicast_queue_header_t
  last_write_error :: int

text \<open>
  The state the operations share: the heap of the queues, the live clients, the members
  \<^verbatim>\<open>clients\<close>, \<^verbatim>\<open>client_number\<close>, \<^verbatim>\<open>pfds\<close> and \<^verbatim>\<open>fd_info\<close> of \<^verbatim>\<open>unicast_parameters_t\<close> (of the last two the
  first \<^verbatim>\<open>pfdsnum\<close> entries, with the descriptor and the client) and the array of channels.
\<close>

record unicast_world =
  qheap :: queue_heap
  uclients :: "ptr \<Rightarrow> unicast_client_t option"
  first_client :: ptr
  client_number :: int
  chans :: "mumudvb_channel_t list"
  pfds :: "int list"
  fd_info :: "ptr list"

section \<open>Operations\<close>

definition upd_client :: "unicast_world \<Rightarrow> ptr \<Rightarrow> (unicast_client_t \<Rightarrow> unicast_client_t) \<Rightarrow> unicast_world option" where
  "upd_client w p f = do {
     c \<leftarrow> uclients w p;
     Some (w\<lparr>uclients := (uclients w)(p \<mapsto> f c)\<rparr>)}"

definition upd_chan :: "unicast_world \<Rightarrow> nat \<Rightarrow> (mumudvb_channel_t \<Rightarrow> mumudvb_channel_t) \<Rightarrow> unicast_world option" where
  "upd_chan w i f = do {
     ch \<leftarrow> rd (chans w) i;
     Some (w\<lparr>chans := (chans w)[i := f ch]\<rparr>)}"

text \<open>The walks to the end of a list.\<close>

partial_function (option) last_in_list :: "(ptr \<Rightarrow> unicast_client_t option) \<Rightarrow> (unicast_client_t \<Rightarrow> ptr) \<Rightarrow> ptr \<Rightarrow> ptr option" where
  "last_in_list cs nx p = do {
     c \<leftarrow> cs p;
     if nx c \<noteq> NULL then last_in_list cs nx (nx c) else Some p}"

definition new_client :: "int \<Rightarrow> ptr \<Rightarrow> unicast_client_t" where
  "new_client sock prev = \<lparr>
     Socket = sock, rx_buffer = None, buffersize = 0, bufferpos = 0, consecutive_errors = False,
     first_error_time = 0, chan_ptr = None, askedChannel = -1, next_client = NULL,
     prev_client = prev, chan_next = NULL, chan_prev = NULL, queue = empty_queue, last_write_error = 0\<rparr>"

definition unicast_add_client :: "unicast_world \<Rightarrow> int \<Rightarrow> ptr \<Rightarrow> (ptr \<times> unicast_world) option" where
  "unicast_add_client w sock p = do {
     (prev, w) \<leftarrow>
       (if first_client w = NULL then Some (NULL, w\<lparr>first_client := p\<rparr>)
        else do {
          l \<leftarrow> last_in_list (uclients w) next_client (first_client w);
          w \<leftarrow> upd_client w l (\<lambda>c. c\<lparr>next_client := p\<rparr>);
          Some (l, w)});
     if p = NULL then Some (NULL, w)
     else Some (p, w\<lparr>uclients := (uclients w)(p \<mapsto> new_client sock prev), client_number := client_number w + 1\<rparr>)}"

text \<open>Taking a client out of the list of all clients, and out of the list of its channel.\<close>

definition unlink_client :: "unicast_world \<Rightarrow> ptr \<Rightarrow> unicast_world option" where
  "unlink_client w p = do {
     c \<leftarrow> uclients w p;
     w \<leftarrow> (if prev_client c = NULL then Some (w\<lparr>first_client := next_client c\<rparr>)
          else upd_client w (prev_client c) (\<lambda>d. d\<lparr>next_client := next_client c\<rparr>));
     if next_client c \<noteq> NULL then upd_client w (next_client c) (\<lambda>d. d\<lparr>prev_client := prev_client c\<rparr>)
     else Some w}"

definition unlink_from_channel :: "unicast_world \<Rightarrow> ptr \<Rightarrow> unicast_world option" where
  "unlink_from_channel w p = do {
     c \<leftarrow> uclients w p;
     case chan_ptr c of None \<Rightarrow> Some w
     | Some i \<Rightarrow> do {
         w \<leftarrow> upd_chan w i (\<lambda>ch. ch\<lparr>num_clients := num_clients ch - 1\<rparr>);
         if chan_prev c = NULL then do {
           w \<leftarrow> upd_chan w i (\<lambda>ch. ch\<lparr>clients := chan_next c\<rparr>);
           if chan_next c \<noteq> NULL then upd_client w (chan_next c) (\<lambda>d. d\<lparr>chan_prev := NULL\<rparr>)
           else Some w}
         else do {
           w \<leftarrow> upd_client w (chan_prev c) (\<lambda>d. d\<lparr>chan_next := chan_next c\<rparr>);
           if chan_next c \<noteq> NULL then upd_client w (chan_next c) (\<lambda>d. d\<lparr>chan_prev := chan_prev c\<rparr>)
           else Some w}}}"

definition unicast_del_client :: "unicast_world \<Rightarrow> ptr \<Rightarrow> unicast_world option" where
  "unicast_del_client w p = do {
     w \<leftarrow> unlink_client w p;
     w \<leftarrow> unlink_from_channel w p;
     c \<leftarrow> uclients w p;
     (h, q) \<leftarrow> unicast_queue_clear (qheap w) (queue c);
     Some (w\<lparr>qheap := h, uclients := (uclients w)(p := None), client_number := client_number w - 1\<rparr>)}"

text \<open>\<open>reply_ok\<close>: the answer to the HTTP request was written completely.\<close>

definition channel_add_unicast_client :: "unicast_world \<Rightarrow> ptr \<Rightarrow> nat \<Rightarrow> bool \<Rightarrow> (int \<times> unicast_world) option" where
  "channel_add_unicast_client w p i reply_ok =
     (if \<not> reply_ok then Some (-1, w)
      else do {
        w \<leftarrow> upd_client w p (\<lambda>c. c\<lparr>chan_next := NULL\<rparr>);
        w \<leftarrow> upd_chan w i (\<lambda>ch. ch\<lparr>num_clients := num_clients ch + 1\<rparr>);
        ch \<leftarrow> rd (chans w) i;
        if clients ch = NULL then do {
          w \<leftarrow> upd_chan w i (\<lambda>ch. ch\<lparr>clients := p\<rparr>);
          w \<leftarrow> upd_client w p (\<lambda>c. c\<lparr>chan_prev := NULL\<rparr>);
          Some (0, w)}
        else do {
          l \<leftarrow> last_in_list (uclients w) chan_next (clients ch);
          w \<leftarrow> upd_client w l (\<lambda>c. c\<lparr>chan_next := p\<rparr>);
          w \<leftarrow> upd_client w p (\<lambda>c. c\<lparr>chan_prev := l\<rparr>);
          Some (0, w)}})"

text \<open>The caller, in \<^verbatim>\<open>unicast_handle_message\<close>, records the channel on success.\<close>

definition unicast_join_channel :: "unicast_world \<Rightarrow> ptr \<Rightarrow> nat \<Rightarrow> bool \<Rightarrow> unicast_world option" where
  "unicast_join_channel w p i reply_ok = do {
     (r, w) \<leftarrow> channel_add_unicast_client w p i reply_ok;
     if r = 0 then upd_client w p (\<lambda>c. c\<lparr>chan_ptr := Some i\<rparr>) else Some w}"

partial_function (option) free_clients :: "unicast_world \<Rightarrow> ptr \<Rightarrow> unicast_world option" where
  "free_clients w p =
     (if p = NULL then Some w
      else do {
        c \<leftarrow> uclients w p;
        w \<leftarrow> unicast_del_client w p;
        free_clients w (next_client c)})"

definition unicast_freeing :: "unicast_world \<Rightarrow> unicast_world option" where
  "unicast_freeing w = free_clients w (first_client w)"

text \<open>
  The descriptor is found, the client deleted, and the last descriptor takes its place. (The
  \<^verbatim>\<open>realloc\<close>s shrink their arrays; they are assumed to succeed.)
\<close>

fun find_fd :: "int list \<Rightarrow> int \<Rightarrow> nat" where
  "find_fd [] s = 0"
| "find_fd (x # xs) s = (if x \<noteq> s then Suc (find_fd xs s) else 0)"

definition unicast_close_connection :: "unicast_world \<Rightarrow> int \<Rightarrow> unicast_world option" where
  "unicast_close_connection w sock =
     (let actual_fd = find_fd (pfds w) sock; pfdsnum = length (pfds w) in
      if actual_fd = pfdsnum then Some w
      else do {
        p \<leftarrow> rd (fd_info w) actual_fd;
        w \<leftarrow> unicast_del_client w p;
        last_fd \<leftarrow> rd (pfds w) (pfdsnum - 1);
        last_info \<leftarrow> rd (fd_info w) (pfdsnum - 1);
        Some (w\<lparr>pfds := take (pfdsnum - 1) ((pfds w)[actual_fd := last_fd]),
                fd_info := take (pfdsnum - 1) ((fd_info w)[actual_fd := last_info])\<rparr>)})"

section \<open>Doubly linked lists\<close>

text \<open>\<open>lk p\<close> are the links (previous, next) of the cell \<open>p\<close>.\<close>

fun dll :: "(ptr \<Rightarrow> (ptr \<times> ptr) option) \<Rightarrow> ptr \<Rightarrow> ptr \<Rightarrow> ptr list \<Rightarrow> bool" where
  "dll lk prev p [] \<longleftrightarrow> p = NULL"
| "dll lk prev p (a # as) \<longleftrightarrow> p = a \<and> a \<noteq> NULL \<and> (\<exists>n. lk a = Some (prev, n) \<and> dll lk a n as)"

lemma dll_cong: "\<forall>a \<in> set as. lk' a = lk a \<Longrightarrow> dll lk' prev p as = dll lk prev p as"
  by (induction as arbitrary: prev p) auto

lemma dll_NULL: "dll lk prev p as \<Longrightarrow> (p = NULL) = (as = [])"
  by (cases as) auto

lemma dll_hd: "dll lk prev p as \<Longrightarrow> as \<noteq> [] \<Longrightarrow> p = hd as"
  by (cases as) auto

lemma dll_not_NULL: "dll lk prev p as \<Longrightarrow> a \<in> set as \<Longrightarrow> a \<noteq> NULL \<and> lk a \<noteq> None"
  by (induction as arbitrary: prev p) auto

text \<open>The links of a member, and the list without it.\<close>

lemma dll_delete:
  assumes "dll lk prev p (as @ x # bs)" "distinct (as @ x # bs)"
  defines "pr \<equiv> (if as = [] then prev else last as)" and "nx \<equiv> (if bs = [] then NULL else hd bs)"
  shows "lk x = Some (pr, nx) \<and>
    ((\<forall>a \<in> set as \<union> set bs. lk' a = Some (if bs \<noteq> [] \<and> a = hd bs then pr else fst (the (lk a)),
        if as \<noteq> [] \<and> a = last as then nx else snd (the (lk a)))) \<longrightarrow>
     dll lk' prev (if as = [] then nx else p) (as @ bs))"
  using assms(1,2) unfolding pr_def nx_def
proof (induction as arbitrary: prev p)
  case Nil
  then obtain n where n: "lk x = Some (prev, n)" "dll lk x n bs" "p = x" by auto
  show ?case
  proof (cases bs)
    case Nil then show ?thesis using n by simp
  next
    case (Cons b cs)
    then obtain m where m: "lk b = Some (x, m)" "dll lk b m cs" "n = b" using n(2) by auto
    have b: "b \<notin> set cs" "b \<noteq> NULL" using Nil.prems(2) Cons n(2) by auto
    have "dll lk' prev b (b # cs)"
      if H: "\<forall>a \<in> set bs. lk' a = Some (if a = b then prev else fst (the (lk a)), snd (the (lk a)))"
    proof -
      have "\<forall>a \<in> set cs. lk' a = lk a"
      proof
        fix a assume a: "a \<in> set cs"
        then have "a \<noteq> b" using b by auto
        then show "lk' a = lk a" using H a Cons dll_not_NULL [OF m(2) a] by (cases "lk a") auto
      qed
      then have "dll lk' b m cs" using m(2) dll_cong by blast
      moreover have "lk' b = Some (prev, m)" using H Cons m(1) by simp
      ultimately show ?thesis using b by simp
    qed
    then show ?thesis using n Cons by simp
  qed
next
  case (Cons a as)
  obtain n where n: "lk a = Some (prev, n)" "dll lk a n (as @ x # bs)" "p = a" "a \<noteq> NULL"
    using Cons.prems(1) by auto
  have d: "distinct (as @ x # bs)" "a \<notin> set bs" "a \<notin> set as" using Cons.prems(2) by auto
  have IH: "lk x = Some (if as = [] then a else last as, if bs = [] then NULL else hd bs) \<and>
    ((\<forall>c \<in> set as \<union> set bs. lk' c = Some (if bs \<noteq> [] \<and> c = hd bs then (if as = [] then a else last as) else fst (the (lk c)),
        if as \<noteq> [] \<and> c = last as then (if bs = [] then NULL else hd bs) else snd (the (lk c)))) \<longrightarrow>
     dll lk' a (if as = [] then (if bs = [] then NULL else hd bs) else n) (as @ bs))"
    by (rule Cons.IH [OF n(2) d(1)])
  have l: "(if a # as = [] then prev else last (a # as)) = (if as = [] then a else last as)" by simp
  have "dll lk' prev p ((a # as) @ bs)"
    if H: "\<forall>c \<in> set (a # as) \<union> set bs. lk' c = Some
        (if bs \<noteq> [] \<and> c = hd bs then (if as = [] then a else last as) else fst (the (lk c)),
         if c = last (a # as) then (if bs = [] then NULL else hd bs) else snd (the (lk c)))"
  proof -
    have "\<forall>c \<in> set as \<union> set bs. lk' c = Some
        (if bs \<noteq> [] \<and> c = hd bs then (if as = [] then a else last as) else fst (the (lk c)),
         if as \<noteq> [] \<and> c = last as then (if bs = [] then NULL else hd bs) else snd (the (lk c)))"
    proof
      fix c assume c: "c \<in> set as \<union> set bs"
      then have "c \<noteq> a" using d by auto
      then have e: "(c = last (a # as)) = (as \<noteq> [] \<and> c = last as)" by simp
      have 0: "c \<in> set (a # as) \<union> set bs" using c by auto
      show "lk' c = Some
        (if bs \<noteq> [] \<and> c = hd bs then (if as = [] then a else last as) else fst (the (lk c)),
         if as \<noteq> [] \<and> c = last as then (if bs = [] then NULL else hd bs) else snd (the (lk c)))"
        using bspec [OF H 0] unfolding e .
    qed
    then have D: "dll lk' a (if as = [] then (if bs = [] then NULL else hd bs) else n) (as @ bs)"
      using IH by blast
    have "\<not> (bs \<noteq> [] \<and> a = hd bs)" using d by auto
    then have 1: "fst (the (lk' a)) = prev" "lk' a \<noteq> None" using H n(1) by auto
    have "snd (the (lk' a)) = (if as = [] then (if bs = [] then NULL else hd bs) else n)"
    proof (cases "as = []")
      case False
      then have "a \<noteq> last (a # as)" using d(3) by auto
      then show ?thesis using H n(1) False by simp
    qed (use H in simp)
    with 1 have "lk' a = Some (prev, if as = [] then (if bs = [] then NULL else hd bs) else n)"
      by (cases "lk' a") (simp_all add: prod_eq_iff)
    then show ?thesis using D n(3,4) by simp
  qed
  then show ?case using IH unfolding l by simp
qed


text \<open>Appending a cell.\<close>

lemma dll_append:
  assumes "dll lk prev p as" "x \<notin> set as" "x \<noteq> NULL" "distinct as"
    and "lk' x = Some (if as = [] then prev else last as, NULL)"
    and "\<forall>a \<in> set as. lk' a = Some (fst (the (lk a)), if a = last as then x else snd (the (lk a)))"
  shows "dll lk' prev (if as = [] then x else p) (as @ [x])"
  using assms
proof (induction as arbitrary: prev p)
  case (Cons a as)
  obtain n where n: "lk a = Some (prev, n)" "dll lk a n as" "p = a" "a \<noteq> NULL"
    using Cons.prems(1) by auto
  have "dll lk' a (if as = [] then x else n) (as @ [x])"
    using Cons.prems n by (intro Cons.IH) (auto split: if_splits)
  moreover have "lk' a = Some (prev, if as = [] then x else n)"
  proof (cases "as = []")
    case False
    then have "a \<noteq> last (a # as)" using Cons.prems(4) by auto
    then show ?thesis using Cons.prems(6) n(1) False by simp
  qed (use Cons.prems(6) n(1) in simp)
  ultimately show ?case using n by simp
qed simp

text \<open>The walk to the last cell.\<close>

lemma last_in_list_dll:
  assumes "dll lk prev p as" "as \<noteq> []" "\<forall>a \<in> set as. \<exists>c. cs a = Some c \<and> nx c = snd (the (lk a))"
  shows "last_in_list cs nx p = Some (last as)"
  using assms
proof (induction as arbitrary: prev p)
  case (Cons a as)
  obtain n where n: "lk a = Some (prev, n)" "dll lk a n as" "p = a"
    using Cons.prems(1) by auto
  obtain c where c: "cs a = Some c" "nx c = n" using Cons.prems(3) n(1) by auto
  show ?case
  proof (cases "as = []")
    case True
    then show ?thesis using n c by (subst last_in_list.simps) simp
  next
    case False
    then have "n \<noteq> NULL" using dll_NULL [OF n(2)] by simp
    moreover have "last_in_list cs nx n = Some (last as)"
      using Cons.prems(3) False by (intro Cons.IH [OF n(2)]) simp_all
    ultimately show ?thesis using n c False by (subst last_in_list.simps) simp
  qed
qed simp

section \<open>The invariant\<close>

definition all_links :: "unicast_world \<Rightarrow> ptr \<Rightarrow> (ptr \<times> ptr) option" where
  "all_links w p = map_option (\<lambda>c. (prev_client c, next_client c)) (uclients w p)"

definition chan_links :: "unicast_world \<Rightarrow> ptr \<Rightarrow> (ptr \<times> ptr) option" where
  "chan_links w p = map_option (\<lambda>c. (chan_prev c, chan_next c)) (uclients w p)"

text \<open>The list of all clients holds exactly the live clients.\<close>

definition global_inv :: "unicast_world \<Rightarrow> ptr list \<Rightarrow> bool" where
  "global_inv w gs \<longleftrightarrow> dll (all_links w) NULL (first_client w) gs \<and> distinct gs \<and>
     (\<forall>p. (uclients w p \<noteq> None) = (p \<in> set gs)) \<and> client_number w = int (length gs)"

text \<open>The list of channel \<open>i\<close> holds exactly the clients whose channel is \<open>i\<close>.\<close>

definition chan_of :: "unicast_world \<Rightarrow> ptr \<Rightarrow> nat option option" where
  "chan_of w p = map_option chan_ptr (uclients w p)"

definition chan_inv :: "unicast_world \<Rightarrow> (nat \<Rightarrow> ptr list) \<Rightarrow> bool" where
  "chan_inv w cs \<longleftrightarrow>
     (\<forall>i < length (chans w). dll (chan_links w) NULL (clients (chans w ! i)) (cs i) \<and> distinct (cs i) \<and>
        num_clients (chans w ! i) = int (length (cs i)) \<and>
        (\<forall>p. p \<in> set (cs i) \<longleftrightarrow> chan_of w p = Some (Some i))) \<and>
     (\<forall>p i. chan_of w p = Some (Some i) \<longrightarrow> i < length (chans w))"

text \<open>Every client has a queue of its own.\<close>

definition queues_inv :: "unicast_world \<Rightarrow> (ptr \<Rightarrow> queue_entry list) \<Rightarrow> bool" where
  "queues_inv w qs \<longleftrightarrow>
     (\<forall>p c. uclients w p = Some c \<longrightarrow> queue_rep (qheap w) (queue c) (qs p)) \<and>
     (\<forall>p p'. uclients w p \<noteq> None \<and> uclients w p' \<noteq> None \<and> p \<noteq> p' \<longrightarrow>
        entry_cells (qs p) \<inter> entry_cells (qs p') = {} \<and> entry_blocks (qs p) \<inter> entry_blocks (qs p') = {})"

definition clients_inv :: "unicast_world \<Rightarrow> ptr list \<Rightarrow> (nat \<Rightarrow> ptr list) \<Rightarrow> (ptr \<Rightarrow> queue_entry list) \<Rightarrow> bool" where
  "clients_inv w gs cs qs \<longleftrightarrow> global_inv w gs \<and> chan_inv w cs \<and> queues_inv w qs"

text \<open>A step that changes only some members of the clients.\<close>

definition keeps :: "(unicast_client_t \<Rightarrow> 'a) \<Rightarrow> unicast_world \<Rightarrow> unicast_world \<Rightarrow> bool" where
  "keeps f w w' \<longleftrightarrow> (\<forall>a. map_option f (uclients w' a) = map_option f (uclients w a))"

lemma upd_client_Some: "uclients w p = Some c \<Longrightarrow> upd_client w p f = Some (w\<lparr>uclients := (uclients w)(p \<mapsto> f c)\<rparr>)"
  by (simp add: upd_client_def)

lemma upd_chan_Some: "i < length (chans w) \<Longrightarrow> upd_chan w i f = Some (w\<lparr>chans := (chans w)[i := f (chans w ! i)]\<rparr>)"
  by (simp add: upd_chan_def rd_def)

text \<open>Relinking around a removed cell, as a map of the cells.\<close>

definition relink :: "(ptr \<Rightarrow> 'c option) \<Rightarrow> ('c \<Rightarrow> 'c) \<Rightarrow> ('c \<Rightarrow> 'c) \<Rightarrow> ptr list \<Rightarrow> ptr list \<Rightarrow> ptr \<Rightarrow> 'c option" where
  "relink m set_next set_prev as bs a =
     (if bs \<noteq> [] \<and> a = hd bs then map_option set_prev (m a)
      else if as \<noteq> [] \<and> a = last as then map_option set_next (m a) else m a)"

lemma relink_links:
  assumes lk: "\<And>a. lk a = map_option (\<lambda>c. (gp c, gn c)) (m a)"
    and set: "\<And>c. gp (set_next c) = gp c \<and> gn (set_next c) = nx \<and> gp (set_prev c) = pr \<and> gn (set_prev c) = gn c"
    and d: "distinct (as @ x # bs)" and dl: "dll lk prev p (as @ x # bs)"
    and pr: "pr = (if as = [] then prev else last as)" and nx: "nx = (if bs = [] then NULL else hd bs)"
  shows "dll (\<lambda>a. map_option (\<lambda>c. (gp c, gn c)) (relink m set_next set_prev as bs a)) prev
     (if as = [] then nx else p) (as @ bs)"
proof -
  have dj: "bs \<noteq> [] \<Longrightarrow> as \<noteq> [] \<Longrightarrow> last as \<noteq> hd bs" using d by (cases bs) auto
  have live: "a \<in> set as \<union> set bs \<Longrightarrow> m a \<noteq> None" for a
    using dll_not_NULL [OF dl, of a] lk by auto
  have "\<forall>a \<in> set as \<union> set bs. map_option (\<lambda>c. (gp c, gn c)) (relink m set_next set_prev as bs a) =
      Some (if bs \<noteq> [] \<and> a = hd bs then pr else fst (the (lk a)), if as \<noteq> [] \<and> a = last as then nx else snd (the (lk a)))"
  proof
    fix a assume "a \<in> set as \<union> set bs"
    then obtain c where c: "m a = Some c" using live by blast
    then show "map_option (\<lambda>c. (gp c, gn c)) (relink m set_next set_prev as bs a) =
      Some (if bs \<noteq> [] \<and> a = hd bs then pr else fst (the (lk a)), if as \<noteq> [] \<and> a = last as then nx else snd (the (lk a)))"
      using dj by (auto simp: relink_def lk set)
  qed
  then show ?thesis
    using dll_delete [OF dl d, of "\<lambda>a. map_option (\<lambda>c. (gp c, gn c)) (relink m set_next set_prev as bs a)"]
    unfolding pr [symmetric] nx [symmetric] by blast
qed

lemma relink_upd:
  assumes "as \<noteq> [] \<Longrightarrow> m (last as) = Some d1" "bs \<noteq> [] \<Longrightarrow> m (hd bs) = Some d2" "as \<noteq> [] \<Longrightarrow> bs \<noteq> [] \<Longrightarrow> last as \<noteq> hd bs"
  shows "relink m f g as bs =
     (let m1 = (if as = [] then m else m(last as \<mapsto> f d1)) in if bs = [] then m1 else m1(hd bs \<mapsto> g d2))"
  using assms by (auto simp: relink_def Let_def fun_eq_iff)

lemma relink_keeps:
  assumes "\<And>c. f (set_next c) = f c" "\<And>c. f (set_prev c) = f c"
  shows "map_option f (relink m set_next set_prev as bs a) = map_option f (m a)"
  using assms by (cases "m a") (auto simp: relink_def)

lemma relink_None: "(relink m f g as bs a = None) = (m a = None)"
  by (auto simp: relink_def)

lemma relink_other: "a \<notin> set as \<Longrightarrow> a \<notin> set bs \<Longrightarrow> relink m f g as bs a = m a"
  by (cases bs) (auto simp: relink_def)

lemma keepsD:
  assumes "keeps f w w'"
  shows "map_option (\<lambda>c. g (f c)) (uclients w' a) = map_option (\<lambda>c. g (f c)) (uclients w a)"
proof -
  have "map_option g (map_option f (uclients w' a)) = map_option g (map_option f (uclients w a))"
    using assms by (simp add: keeps_def)
  then show ?thesis by (simp add: option.map_comp comp_def)
qed

lemma keeps_None: "keeps f w w' \<Longrightarrow> (uclients w' a = None) = (uclients w a = None)"
  by (metis keeps_def map_option_is_None)

text \<open>The members of a client that each list step leaves alone.\<close>

definition chan_part :: "unicast_client_t \<Rightarrow> (ptr \<times> ptr) \<times> nat option \<times> unicast_queue_header_t \<times> int" where
  "chan_part c = ((chan_prev c, chan_next c), chan_ptr c, queue c, Socket c)"

definition all_part :: "unicast_client_t \<Rightarrow> (ptr \<times> ptr) \<times> nat option \<times> unicast_queue_header_t \<times> int" where
  "all_part c = ((prev_client c, next_client c), chan_ptr c, queue c, Socket c)"

lemma keeps_chan_part:
  assumes "keeps chan_part w w'"
  shows "chan_links w' a = chan_links w a" "chan_of w' a = chan_of w a"
  using keepsD [OF assms, of fst a] keepsD [OF assms, of "\<lambda>x. fst (snd x)" a]
  by (simp_all add: chan_part_def chan_links_def chan_of_def)

lemma keeps_all_part:
  assumes "keeps all_part w w'"
  shows "all_links w' a = all_links w a" "chan_of w' a = chan_of w a"
  using keepsD [OF assms, of fst a] keepsD [OF assms, of "\<lambda>x. fst (snd x)" a]
  by (simp_all add: all_part_def all_links_def chan_of_def)

lemma chan_inv_cong:
  assumes "keeps chan_part w w'" "chans w' = chans w"
  shows "chan_inv w' cs = chan_inv w cs"
proof -
  have l: "chan_links w' = chan_links w" "chan_of w' = chan_of w"
    using keeps_chan_part [OF assms(1)] by auto
  show ?thesis by (simp only: chan_inv_def l assms(2))
qed

section \<open>Deleting a client\<close>

lemma unlink_client_spec:
  assumes inv: "global_inv w (as @ p # bs)" and c: "uclients w p = Some c"
  defines "m \<equiv> relink (uclients w) (\<lambda>d. d\<lparr>next_client := next_client c\<rparr>) (\<lambda>d. d\<lparr>prev_client := prev_client c\<rparr>) as bs"
  defines "w' \<equiv> w\<lparr>first_client := (if as = [] then next_client c else first_client w), uclients := m\<rparr>"
  shows "unlink_client w p = Some w'" "dll (all_links w') NULL (first_client w') (as @ bs)"
proof -
  have d: "distinct (as @ p # bs)" and dl: "dll (all_links w) NULL (first_client w) (as @ p # bs)"
    using inv by (simp_all add: global_inv_def)
  have "all_links w p = Some (if as = [] then NULL else last as, if bs = [] then NULL else hd bs)"
    using dll_delete [OF dl d] by blast
  then have lp: "prev_client c = (if as = [] then NULL else last as)" "next_client c = (if bs = [] then NULL else hd bs)"
    using c by (simp_all add: all_links_def)
  have live: "a \<in> set as \<union> set bs \<Longrightarrow> \<exists>e. uclients w a = Some e \<and> a \<noteq> NULL" for a
    using dll_not_NULL [OF dl, of a] by (auto simp: all_links_def)
  obtain d1 where d1: "as \<noteq> [] \<Longrightarrow> uclients w (last as) = Some d1 \<and> last as \<noteq> NULL"
    using live [of "last as"] by (cases "as = []") auto
  obtain d2 where d2: "bs \<noteq> [] \<Longrightarrow> uclients w (hd bs) = Some d2 \<and> hd bs \<noteq> NULL"
    using live [of "hd bs"] by (cases "bs = []") auto
  have dj: "as \<noteq> [] \<Longrightarrow> bs \<noteq> [] \<Longrightarrow> last as \<noteq> hd bs" using d by (cases bs) auto
  have m: "m = (let m1 = (if as = [] then uclients w else (uclients w)(last as \<mapsto> d1\<lparr>next_client := next_client c\<rparr>))
      in if bs = [] then m1 else m1(hd bs \<mapsto> d2\<lparr>prev_client := prev_client c\<rparr>))"
    unfolding m_def by (rule relink_upd) (use d1 d2 dj in auto)
  show "unlink_client w p = Some w'"
    using c lp d1 d2 dj
    by (cases "as = []"; cases "bs = []")
       (simp_all add: unlink_client_def upd_client_def w'_def m Let_def)
  have "dll (\<lambda>a. map_option (\<lambda>c. (prev_client c, next_client c)) (m a)) NULL
     (if as = [] then next_client c else first_client w) (as @ bs)"
    unfolding m_def by (rule relink_links [OF _ _ d dl lp]) (simp_all add: all_links_def)
  moreover have "all_links w' = (\<lambda>a. map_option (\<lambda>c. (prev_client c, next_client c)) (m a))"
    by (simp add: fun_eq_iff all_links_def w'_def)
  ultimately show "dll (all_links w') NULL (first_client w') (as @ bs)"
    by (simp add: w'_def)
qed

text \<open>The same for the list of the channel; the channel's count goes down.\<close>

lemma unlink_from_channel_spec:
  assumes c: "uclients w p = Some c" "chan_ptr c = Some i" and i: "i < length (chans w)"
    and d: "distinct (as @ p # bs)" and dl: "dll (chan_links w) NULL (clients (chans w ! i)) (as @ p # bs)"
  defines "m \<equiv> relink (uclients w) (\<lambda>d. d\<lparr>chan_next := chan_next c\<rparr>) (\<lambda>d. d\<lparr>chan_prev := chan_prev c\<rparr>) as bs"
  defines "ch \<equiv> (chans w ! i)\<lparr>num_clients := num_clients (chans w ! i) - 1,
     clients := (if as = [] then chan_next c else clients (chans w ! i))\<rparr>"
  defines "w' \<equiv> w\<lparr>uclients := m, chans := (chans w)[i := ch]\<rparr>"
  shows "unlink_from_channel w p = Some w'"
    "dll (chan_links w') NULL (clients ch) (as @ bs)"
proof -
  have "chan_links w p = Some (if as = [] then NULL else last as, if bs = [] then NULL else hd bs)"
    using dll_delete [OF dl d] by blast
  then have lp: "chan_prev c = (if as = [] then NULL else last as)" "chan_next c = (if bs = [] then NULL else hd bs)"
    using c by (simp_all add: chan_links_def)
  have live: "a \<in> set as \<union> set bs \<Longrightarrow> \<exists>e. uclients w a = Some e \<and> a \<noteq> NULL" for a
    using dll_not_NULL [OF dl, of a] by (auto simp: chan_links_def)
  obtain d1 where d1: "as \<noteq> [] \<Longrightarrow> uclients w (last as) = Some d1 \<and> last as \<noteq> NULL"
    using live [of "last as"] by (cases "as = []") auto
  obtain d2 where d2: "bs \<noteq> [] \<Longrightarrow> uclients w (hd bs) = Some d2 \<and> hd bs \<noteq> NULL"
    using live [of "hd bs"] by (cases "bs = []") auto
  have dj: "as \<noteq> [] \<Longrightarrow> bs \<noteq> [] \<Longrightarrow> last as \<noteq> hd bs" using d by (cases bs) auto
  have m: "m = (let m1 = (if as = [] then uclients w else (uclients w)(last as \<mapsto> d1\<lparr>chan_next := chan_next c\<rparr>))
      in if bs = [] then m1 else m1(hd bs \<mapsto> d2\<lparr>chan_prev := chan_prev c\<rparr>))"
    unfolding m_def by (rule relink_upd) (use d1 d2 dj in auto)
  show "unlink_from_channel w p = Some w'"
    using c lp d1 d2 dj i
    by (cases "as = []"; cases "bs = []")
       (simp_all add: unlink_from_channel_def upd_chan_Some upd_client_def w'_def m Let_def ch_def)
  have "dll (\<lambda>a. map_option (\<lambda>c. (chan_prev c, chan_next c)) (m a)) NULL
     (if as = [] then chan_next c else clients (chans w ! i)) (as @ bs)"
    unfolding m_def by (rule relink_links [OF _ _ d dl lp]) (simp_all add: chan_links_def)
  moreover have "chan_links w' = (\<lambda>a. map_option (\<lambda>c. (chan_prev c, chan_next c)) (m a))"
    by (simp add: fun_eq_iff chan_links_def w'_def)
  ultimately show "dll (chan_links w') NULL (clients ch) (as @ bs)"
    by (simp add: ch_def)
qed

lemma global_unlink:
  assumes inv: "global_inv w gs" and c: "uclients w p = Some c"
  shows "\<exists>w'. unlink_client w p = Some w' \<and> keeps chan_part w w' \<and> uclients w' p = Some c \<and>
     chans w' = chans w \<and> qheap w' = qheap w \<and> client_number w' = client_number w \<and>
     pfds w' = pfds w \<and> fd_info w' = fd_info w \<and>
     dll (all_links w') NULL (first_client w') (remove1 p gs)"
proof -
  have "p \<in> set gs" using inv c by (auto simp: global_inv_def)
  then obtain as bs where g: "gs = as @ p # bs" by (meson split_list)
  then have np: "p \<notin> set as" "p \<notin> set bs" using inv by (auto simp: global_inv_def)
  have i: "global_inv w (as @ p # bs)" using inv g by simp
  define m where "m = relink (uclients w) (\<lambda>d. d\<lparr>next_client := next_client c\<rparr>) (\<lambda>d. d\<lparr>prev_client := prev_client c\<rparr>) as bs"
  define w' where "w' = w\<lparr>first_client := (if as = [] then next_client c else first_client w), uclients := m\<rparr>"
  have "unlink_client w p = Some w'" "dll (all_links w') NULL (first_client w') (as @ bs)"
    unfolding w'_def m_def using unlink_client_spec [OF i c] by blast+
  moreover have "keeps chan_part w w'"
    unfolding keeps_def w'_def m_def by (auto simp: chan_part_def intro!: relink_keeps)
  moreover have "uclients w' p = Some c"
    by (simp add: w'_def m_def relink_other [OF np] c)
  moreover have "remove1 p gs = as @ bs" using np by (simp add: g remove1_append)
  ultimately show ?thesis by (intro exI [of _ w']) (simp add: w'_def)
qed

lemma chan_unlink:
  assumes inv: "chan_inv w cs" and c: "uclients w p = Some c"
  shows "\<exists>w'. unlink_from_channel w p = Some w' \<and> keeps all_part w w' \<and> uclients w' p = Some c \<and>
     length (chans w') = length (chans w) \<and> qheap w' = qheap w \<and> client_number w' = client_number w \<and>
     first_client w' = first_client w \<and> pfds w' = pfds w \<and> fd_info w' = fd_info w \<and>
     (\<forall>j < length (chans w). dll (chan_links w') NULL (clients (chans w' ! j)) (remove1 p (cs j)) \<and>
        num_clients (chans w' ! j) = int (length (remove1 p (cs j))))"
proof (cases "chan_ptr c")
  case None
  then have "p \<notin> set (cs j)" if "j < length (chans w)" for j
    using inv that c by (auto simp: chan_inv_def chan_of_def)
  then show ?thesis
    using None c inv by (intro exI [of _ w]) (auto simp: unlink_from_channel_def keeps_def chan_inv_def remove1_idem)
next
  case (Some i)
  have co: "chan_of w p = Some (Some i)" using c Some by (simp add: chan_of_def)
  then have i: "i < length (chans w)" using inv unfolding chan_inv_def by blast
  have ci: "dll (chan_links w) NULL (clients (chans w ! i)) (cs i)" "distinct (cs i)" "num_clients (chans w ! i) = int (length (cs i))"
    and pi: "p \<in> set (cs i)"
    using inv i co unfolding chan_inv_def by blast+
  then obtain as bs where g: "cs i = as @ p # bs" by (meson split_list)
  have np: "p \<notin> set as" "p \<notin> set bs" using ci(2) g by auto
  define m where "m = relink (uclients w) (\<lambda>d. d\<lparr>chan_next := chan_next c\<rparr>) (\<lambda>d. d\<lparr>chan_prev := chan_prev c\<rparr>) as bs"
  define ch where "ch = (chans w ! i)\<lparr>num_clients := num_clients (chans w ! i) - 1,
     clients := (if as = [] then chan_next c else clients (chans w ! i))\<rparr>"
  define w' where "w' = w\<lparr>uclients := m, chans := (chans w)[i := ch]\<rparr>"
  have d: "distinct (as @ p # bs)" and dl: "dll (chan_links w) NULL (clients (chans w ! i)) (as @ p # bs)"
    using ci g by simp_all
  have 1: "unlink_from_channel w p = Some w'" "dll (chan_links w') NULL (clients ch) (as @ bs)"
    unfolding w'_def m_def ch_def using unlink_from_channel_spec [OF c Some i d dl] by blast+
  have rem: "remove1 p (cs i) = as @ bs" using np by (simp add: g remove1_append)
  have "dll (chan_links w') NULL (clients (chans w' ! j)) (remove1 p (cs j)) \<and>
        num_clients (chans w' ! j) = int (length (remove1 p (cs j)))" if j: "j < length (chans w)" for j
  proof (cases "j = i")
    case True
    then show ?thesis using 1(2) rem i ci(3) g by (simp add: w'_def ch_def)
  next
    case False
    have cj: "dll (chan_links w) NULL (clients (chans w ! j)) (cs j)" "num_clients (chans w ! j) = int (length (cs j))"
      and mem: "\<And>a k. k < length (chans w) \<Longrightarrow> a \<in> set (cs k) \<longleftrightarrow> chan_of w a = Some (Some k)"
      using inv j by (auto simp: chan_inv_def)
    have dj: "a \<notin> set as" "a \<notin> set bs" "a \<noteq> p" if "a \<in> set (cs j)" for a
      using mem [OF j, of a] mem [OF i, of a] that False g by auto
    have "\<forall>a \<in> set (cs j). chan_links w' a = chan_links w a"
      using dj by (simp add: chan_links_def w'_def m_def relink_other)
    then have "dll (chan_links w') NULL (clients (chans w ! j)) (cs j)" using cj(1) dll_cong by blast
    moreover have "p \<notin> set (cs j)" using dj by blast
    ultimately show ?thesis using cj False by (simp add: w'_def remove1_idem)
  qed
  moreover have "keeps all_part w w'"
    unfolding keeps_def w'_def m_def by (auto simp: all_part_def intro!: relink_keeps)
  moreover have "uclients w' p = Some c"
    by (simp add: w'_def m_def relink_other [OF np] c)
  ultimately show ?thesis using 1(1) by (intro exI [of _ w']) (simp add: w'_def)
qed

lemma keeps_queue:
  "keeps chan_part w w' \<Longrightarrow> map_option queue (uclients w' a) = map_option queue (uclients w a)"
  "keeps all_part w w' \<Longrightarrow> map_option queue (uclients w' a) = map_option queue (uclients w a)"
  using keepsD [of chan_part w w' "\<lambda>x. fst (snd (snd x))" a] keepsD [of all_part w w' "\<lambda>x. fst (snd (snd x))" a]
  by (simp_all add: chan_part_def all_part_def)

lemma keeps_Socket:
  "keeps chan_part w w' \<Longrightarrow> map_option Socket (uclients w' a) = map_option Socket (uclients w a)"
  "keeps all_part w w' \<Longrightarrow> map_option Socket (uclients w' a) = map_option Socket (uclients w a)"
  using keepsD [of chan_part w w' "\<lambda>x. snd (snd (snd x))" a] keepsD [of all_part w w' "\<lambda>x. snd (snd (snd x))" a]
  by (simp_all add: chan_part_def all_part_def)

text \<open>The queues of the other clients are not touched when one is cleared.\<close>

lemma queues_clear:
  assumes inv: "queues_inv w qs" and c: "uclients w p = Some c"
  shows "\<exists>h q. unicast_queue_clear (qheap w) (queue c) = Some (h, q) \<and>
     (\<forall>e \<in> set (qs p). cells h (entry_cell e) = None \<and> blocks h (entry_block e) = None) \<and>
     (\<forall>a d. a \<noteq> p \<and> uclients w a = Some d \<longrightarrow> queue_rep h (queue d) (qs a)) \<and>
     (\<forall>x. cells (qheap w) x = None \<longrightarrow> cells h x = None) \<and> (\<forall>x. blocks (qheap w) x = None \<longrightarrow> blocks h x = None)"
proof -
  have rep: "queue_rep (qheap w) (queue c) (qs p)" using inv c by (simp add: queues_inv_def)
  obtain h q where h: "unicast_queue_clear (qheap w) (queue c) = Some (h, q)"
     "\<forall>e \<in> set (qs p). cells h (entry_cell e) = None \<and> blocks h (entry_block e) = None"
     "heap_frame (qheap w) h (entry_cells (qs p)) (entry_blocks (qs p))"
    using queue_clear [OF rep] by blast
  have "queue_rep h (queue d) (qs a)" if a: "a \<noteq> p" "uclients w a = Some d" for a d
  proof -
    have dj: "entry_cells (qs a) \<inter> entry_cells (qs p) = {}" "entry_blocks (qs a) \<inter> entry_blocks (qs p) = {}"
      and ra: "queue_rep (qheap w) (queue d) (qs a)"
      using inv a c unfolding queues_inv_def by blast+
    have "\<forall>e \<in> set (qs a). cells h (entry_cell e) = cells (qheap w) (entry_cell e) \<and>
        blocks h (entry_block e) = blocks (qheap w) (entry_block e)"
    proof
      fix e assume e: "e \<in> set (qs a)"
      then have "entry_cell e \<in> entry_cells (qs a)" "entry_block e \<in> entry_blocks (qs a)"
        by (simp_all add: entry_cells_def entry_blocks_def)
      then have "entry_cell e \<notin> entry_cells (qs p)" "entry_block e \<notin> entry_blocks (qs p)" using dj by blast+
      then show "cells h (entry_cell e) = cells (qheap w) (entry_cell e) \<and> blocks h (entry_block e) = blocks (qheap w) (entry_block e)"
        using h(3) unfolding heap_frame_def by blast
    qed
    then show ?thesis using ra queue_rep_cong by blast
  qed
  moreover have "cells h x = None" if "cells (qheap w) x = None" for x
    using h(2,3) that by (cases "x \<in> entry_cells (qs p)") (auto simp: heap_frame_def entry_cells_def)
  moreover have "blocks h x = None" if "blocks (qheap w) x = None" for x
    using h(2,3) that by (cases "x \<in> entry_blocks (qs p)") (auto simp: heap_frame_def entry_blocks_def)
  ultimately show ?thesis using h(1,2) by blast
qed

lemma del_client_spec:
  assumes inv: "clients_inv w gs cs qs" and p: "p \<in> set gs"
  shows "\<exists>w'. unicast_del_client w p = Some w' \<and>
     clients_inv w' (remove1 p gs) (\<lambda>i. remove1 p (cs i)) qs \<and> uclients w' p = None \<and>
     (\<forall>e \<in> set (qs p). cells (qheap w') (entry_cell e) = None \<and> blocks (qheap w') (entry_block e) = None) \<and>
     length (chans w') = length (chans w) \<and> pfds w' = pfds w \<and> fd_info w' = fd_info w \<and>
     (\<forall>a. a \<noteq> p \<longrightarrow> map_option Socket (uclients w' a) = map_option Socket (uclients w a)) \<and>
     (\<forall>x. cells (qheap w) x = None \<longrightarrow> cells (qheap w') x = None) \<and>
     (\<forall>x. blocks (qheap w) x = None \<longrightarrow> blocks (qheap w') x = None)"
proof -
  have g: "global_inv w gs" and ci: "chan_inv w cs" and qi: "queues_inv w qs"
    using inv by (simp_all add: clients_inv_def)
  obtain c where c: "uclients w p = Some c" using g p unfolding global_inv_def by blast
  obtain w1 where w1: "unlink_client w p = Some w1" "keeps chan_part w w1" "uclients w1 p = Some c"
     "chans w1 = chans w" "qheap w1 = qheap w" "client_number w1 = client_number w" "pfds w1 = pfds w" "fd_info w1 = fd_info w"
     "dll (all_links w1) NULL (first_client w1) (remove1 p gs)"
    using global_unlink [OF g c] by blast
  have ci1: "chan_inv w1 cs" using ci chan_inv_cong [OF w1(2,4)] by simp
  obtain w2 where w2: "unlink_from_channel w1 p = Some w2" "keeps all_part w1 w2" "uclients w2 p = Some c"
     "length (chans w2) = length (chans w1)" "qheap w2 = qheap w1" "client_number w2 = client_number w1"
     "first_client w2 = first_client w1" "pfds w2 = pfds w1" "fd_info w2 = fd_info w1"
     "\<forall>j < length (chans w1). dll (chan_links w2) NULL (clients (chans w2 ! j)) (remove1 p (cs j)) \<and>
        num_clients (chans w2 ! j) = int (length (remove1 p (cs j)))"
    using chan_unlink [OF ci1 w1(3)] by blast
  have live: "(uclients w2 a = None) = (uclients w a = None)" for a
    using keeps_None [OF w1(2), of a] keeps_None [OF w2(2), of a] by simp
  have qu: "map_option queue (uclients w2 a) = map_option queue (uclients w a)" for a
    using keeps_queue(1) [OF w1(2), of a] keeps_queue(2) [OF w2(2), of a] by simp
  have qi2: "queues_inv w2 qs"
  proof -
    have "queue_rep (qheap w2) (queue d) (qs a)" if "uclients w2 a = Some d" for a d
      using qu [of a] that qi w1(5) w2(5) by (cases "uclients w a") (auto simp: queues_inv_def)
    then show ?thesis using qi live unfolding queues_inv_def by simp
  qed
  obtain h q where h: "unicast_queue_clear (qheap w2) (queue c) = Some (h, q)"
     "\<forall>e \<in> set (qs p). cells h (entry_cell e) = None \<and> blocks h (entry_block e) = None"
     "\<forall>a d. a \<noteq> p \<and> uclients w2 a = Some d \<longrightarrow> queue_rep h (queue d) (qs a)"
     "\<forall>x. cells (qheap w2) x = None \<longrightarrow> cells h x = None" "\<forall>x. blocks (qheap w2) x = None \<longrightarrow> blocks h x = None"
    using queues_clear [OF qi2 w2(3)] by blast
  define w' where "w' = w2\<lparr>qheap := h, uclients := (uclients w2)(p := None), client_number := client_number w2 - 1\<rparr>"
  have run: "unicast_del_client w p = Some w'"
    using w1(1) w2(1,3) h(1) by (simp add: unicast_del_client_def w'_def)
  have dg: "distinct gs" using g by (simp add: global_inv_def)
  have "dll (all_links w') NULL (first_client w') (remove1 p gs)"
  proof -
    have "\<forall>a \<in> set (remove1 p gs). all_links w' a = all_links w1 a"
      using dg keeps_all_part(1) [OF w2(2)] by (auto simp: all_links_def w'_def)
    then have "dll (all_links w') NULL (first_client w1) (remove1 p gs)" using w1(9) dll_cong by blast
    then show ?thesis using w2(7) by (simp add: w'_def)
  qed
  moreover have "\<forall>a. (uclients w' a \<noteq> None) = (a \<in> set (remove1 p gs))"
  proof
    fix a
    have "(uclients w a \<noteq> None) = (a \<in> set gs)" using g unfolding global_inv_def by blast
    then show "(uclients w' a \<noteq> None) = (a \<in> set (remove1 p gs))"
      using live [of a] dg by (cases "a = p") (simp_all add: w'_def)
  qed
  moreover have "client_number w' = int (length (remove1 p gs))"
    using g p length_pos_if_in_set [OF p] w1(6) w2(6)
    by (simp add: w'_def global_inv_def length_remove1 Suc_le_eq)
  ultimately have "global_inv w' (remove1 p gs)" using dg by (simp add: global_inv_def)
  moreover have "chan_inv w' (\<lambda>i. remove1 p (cs i))"
  proof -
    have co: "chan_of w' a = (if a = p then None else chan_of w a)" for a
      using keeps_chan_part(2) [OF w1(2), of a] keeps_all_part(2) [OF w2(2), of a]
      by (simp add: chan_of_def w'_def)
    have "dll (chan_links w') NULL (clients (chans w' ! i)) (remove1 p (cs i)) \<and>
        num_clients (chans w' ! i) = int (length (remove1 p (cs i))) \<and> distinct (remove1 p (cs i)) \<and>
        (\<forall>a. a \<in> set (remove1 p (cs i)) \<longleftrightarrow> chan_of w' a = Some (Some i))" if i: "i < length (chans w')" for i
    proof -
      have i1: "i < length (chans w1)" "i < length (chans w)" using i w1(4) w2(4) by (simp_all add: w'_def)
      have di: "distinct (cs i)" and mi: "\<And>a. a \<in> set (cs i) \<longleftrightarrow> chan_of w a = Some (Some i)"
        using ci i1(2) by (simp_all add: chan_inv_def)
      have "\<forall>a \<in> set (remove1 p (cs i)). chan_links w' a = chan_links w2 a"
        using di by (auto simp: chan_links_def w'_def)
      moreover have "dll (chan_links w2) NULL (clients (chans w2 ! i)) (remove1 p (cs i))"
        using w2(10) i1(1) by blast
      ultimately have "dll (chan_links w') NULL (clients (chans w2 ! i)) (remove1 p (cs i))"
        using dll_cong by blast
      then show ?thesis using w2(10) i1 di mi co by (auto simp: w'_def)
    qed
    moreover have "length (chans w') = length (chans w)" using w1(4) w2(4) by (simp add: w'_def)
    ultimately show ?thesis
      using ci co by (auto simp: chan_inv_def split: if_splits)
  qed
  moreover have "queues_inv w' qs"
    using h(3) qi2 unfolding queues_inv_def by (auto simp: w'_def split: if_splits)
  moreover have "map_option Socket (uclients w' a) = map_option Socket (uclients w a)" if "a \<noteq> p" for a
    using keeps_Socket(1) [OF w1(2), of a] keeps_Socket(2) [OF w2(2), of a] that by (simp add: w'_def)
  ultimately show ?thesis
    using run h(2,4,5) w1 w2 by (intro exI [of _ w']) (simp add: clients_inv_def, simp add: w'_def)
qed

section \<open>Adding a client\<close>

lemma last_all:
  assumes "dll (all_links w) prev p as" "as \<noteq> []"
  shows "last_in_list (uclients w) next_client p = Some (last as)"
proof (rule last_in_list_dll [OF assms])
  show "\<forall>a \<in> set as. \<exists>c. uclients w a = Some c \<and> next_client c = snd (the (all_links w a))"
    using dll_not_NULL [OF assms(1)] by (fastforce simp: all_links_def)
qed

lemma last_chan:
  assumes "dll (chan_links w) prev p as" "as \<noteq> []"
  shows "last_in_list (uclients w) chan_next p = Some (last as)"
proof (rule last_in_list_dll [OF assms])
  show "\<forall>a \<in> set as. \<exists>c. uclients w a = Some c \<and> chan_next c = snd (the (chan_links w a))"
    using dll_not_NULL [OF assms(1)] by (fastforce simp: chan_links_def)
qed

lemma add_to_list:
  fixes sock :: int
  assumes inv: "global_inv w gs" and p: "p \<noteq> NULL" "uclients w p = None" and ne: "gs \<noteq> []"
    and d: "uclients w (last gs) = Some d"
  shows "dll (all_links (w\<lparr>uclients := (uclients w)(last gs \<mapsto> d\<lparr>next_client := p\<rparr>, p \<mapsto> new_client sock (last gs))\<rparr>))
     NULL (first_client w) (gs @ [p])"
proof -
  define w' where "w' = w\<lparr>uclients := (uclients w)(last gs \<mapsto> d\<lparr>next_client := p\<rparr>, p \<mapsto> new_client sock (last gs))\<rparr>"
  have np: "p \<notin> set gs" using inv p(2) unfolding global_inv_def by blast
  then have nl: "last gs \<noteq> p" using ne by auto
  have dl: "dll (all_links w) NULL (first_client w) gs" and dg: "distinct gs" using inv by (simp_all add: global_inv_def)
  have "dll (all_links w') NULL (if gs = [] then p else first_client w) (gs @ [p])"
  proof (rule dll_append [OF dl np p(1) dg])
    show "all_links w' p = Some (if gs = [] then NULL else last gs, NULL)"
      using ne by (simp add: all_links_def w'_def new_client_def)
    show "\<forall>a \<in> set gs. all_links w' a = Some (fst (the (all_links w a)), if a = last gs then p else snd (the (all_links w a)))"
    proof
      fix a assume a: "a \<in> set gs"
      then obtain c where "uclients w a = Some c" using inv unfolding global_inv_def by blast
      then show "all_links w' a = Some (fst (the (all_links w a)), if a = last gs then p else snd (the (all_links w a)))"
        using a np d by (auto simp: all_links_def w'_def)
    qed
  qed
  then show ?thesis using ne by (simp add: w'_def)
qed

lemma queues_inv_add:
  assumes "queues_inv w1 qs" "uclients w1 p = None" "uclients w2 = (uclients w1)(p \<mapsto> c)"
    "qheap w2 = qheap w1" "queue c = empty_queue"
  shows "queues_inv w2 (qs(p := []))"
proof -
  have "entry_cells [] = {}" "entry_blocks [] = {}" by (simp_all add: entry_cells_def entry_blocks_def)
  then show ?thesis using assms by (auto simp: queues_inv_def)
qed

text \<open>
  Accepting a client appends it to the list of all clients, in no channel and with an empty
  queue, and keeps the invariant; when the allocation fails nothing changes but the returned
  pointer, which is \<^verbatim>\<open>NULL\<close>.
\<close>

theorem unicast_add_client_ok:
  assumes inv: "clients_inv w gs cs qs" and p: "uclients w p = None"
  shows "\<exists>w'. unicast_add_client w sock p = Some (p, w') \<and>
     (if p = NULL then clients_inv w' gs cs qs \<and> client_number w' = client_number w
      else clients_inv w' (gs @ [p]) cs (qs(p := [])) \<and> chan_of w' p = Some None)"
proof -
  have g: "global_inv w gs" and ci: "chan_inv w cs" and qi: "queues_inv w qs"
    using inv by (simp_all add: clients_inv_def)
  have dl: "dll (all_links w) NULL (first_client w) gs" and dg: "distinct gs"
    and mem: "\<And>a. (uclients w a \<noteq> None) = (a \<in> set gs)" and num: "client_number w = int (length gs)"
    using g unfolding global_inv_def by blast+
  have np: "p \<notin> set gs" using mem p by blast
  define prev where "prev = (if gs = [] then NULL else last gs)"
  obtain d where d: "gs \<noteq> [] \<Longrightarrow> uclients w (last gs) = Some d"
    using mem [of "last gs"] by (cases "gs = []") auto
  have last: "gs \<noteq> [] \<Longrightarrow> last_in_list (uclients w) next_client (first_client w) = Some (last gs)"
    by (rule last_all [OF dl])
  have fc: "(first_client w = NULL) = (gs = [])" by (rule dll_NULL [OF dl])
  define u1 where "u1 = (if gs = [] then uclients w else (uclients w)(last gs \<mapsto> d\<lparr>next_client := p\<rparr>))"
  define w1 where "w1 = w\<lparr>first_client := (if gs = [] then p else first_client w), uclients := u1\<rparr>"
  define w2 where "w2 = w1\<lparr>uclients := u1(p \<mapsto> new_client sock prev), client_number := client_number w + 1\<rparr>"
  have run: "unicast_add_client w sock p = Some (p, if p = NULL then w1 else w2)"
    using fc last d
    by (cases "gs = []") (simp_all add: unicast_add_client_def upd_client_def w1_def w2_def u1_def prev_def)
  have k1: "map_option chan_part (u1 a) = map_option chan_part (uclients w a)" for a
    using d by (cases "gs = []") (auto simp: u1_def chan_part_def)
  have kk: "keeps chan_part w w1" using k1 by (simp add: keeps_def w1_def)
  have live1: "(u1 a = None) = (uclients w a = None)" for a by (metis k1 map_option_is_None)
  have mem1: "(u1 a \<noteq> None) = (a \<in> set gs)" for a using live1 [of a] mem [of a] by simp
  have q1: "map_option queue (u1 a) = map_option queue (uclients w a)" for a
    using keeps_queue(1) [OF kk, of a] by (simp add: w1_def)
  have c1: "chan_inv w1 cs" using ci chan_inv_cong [OF kk] by (simp add: w1_def)
  have qr1: "queue_rep (qheap w) (queue c) (qs a)" if "u1 a = Some c" for a c
    using q1 [of a] that qi by (cases "uclients w a") (auto simp: queues_inv_def)
  show ?thesis
  proof (cases "p = NULL")
    case True
    have "all_links w1 a = all_links w a" for a
    proof (cases "gs = []")
      case False
      have "all_links w (last gs) = Some (if butlast gs = [] then NULL else last (butlast gs), NULL)"
        using dll_delete [of "all_links w" NULL "first_client w" "butlast gs" "last gs" "[]"] dl dg False by simp
      then have "next_client d = NULL" using d False by (simp add: all_links_def)
      then show ?thesis using d False True by (simp add: all_links_def w1_def u1_def)
    qed (simp add: all_links_def w1_def u1_def)
    then have "all_links w1 = all_links w" by blast
    moreover have "first_client w1 = first_client w" using fc True by (cases "gs = []") (simp_all add: w1_def)
    ultimately have "global_inv w1 gs" using g live1 by (simp add: global_inv_def w1_def)
    moreover have "queues_inv w1 qs"
      using qi qr1 live1 by (simp add: queues_inv_def w1_def)
    ultimately show ?thesis using run True c1 by (simp add: clients_inv_def w1_def)
  next
    case False
    have "dll (all_links w2) NULL (first_client w2) (gs @ [p])"
    proof (cases "gs = []")
      case True
      then show ?thesis using False by (simp add: all_links_def w2_def w1_def new_client_def prev_def)
    next
      case ne: False
      have "all_links w2 = all_links (w\<lparr>uclients := (uclients w)(last gs \<mapsto> d\<lparr>next_client := p\<rparr>, p \<mapsto> new_client sock (last gs))\<rparr>)"
        using ne by (simp add: fun_eq_iff all_links_def w2_def u1_def prev_def)
      then show ?thesis using add_to_list [OF g False p ne d [OF ne], of sock] ne by (simp add: w2_def w1_def)
    qed
    then have "global_inv w2 (gs @ [p])"
      using dg np num mem1 [simplified] by (auto simp: global_inv_def w2_def)
    moreover have "chan_inv w2 cs"
    proof -
      have pn: "chan_of w1 p = None" using live1 p by (simp add: chan_of_def w1_def)
      have co: "chan_of w2 a = (if a = p then Some None else chan_of w1 a)" for a
        by (simp add: chan_of_def w2_def w1_def new_client_def)
      have "dll (chan_links w2) NULL (clients (chans w2 ! i)) (cs i) \<and>
         (\<forall>a. a \<in> set (cs i) \<longleftrightarrow> chan_of w2 a = Some (Some i))" if i: "i < length (chans w2)" for i
      proof -
        have i1: "i < length (chans w1)" using i by (simp add: w2_def)
        have di: "dll (chan_links w1) NULL (clients (chans w1 ! i)) (cs i)"
          and mi: "\<And>a. a \<in> set (cs i) \<longleftrightarrow> chan_of w1 a = Some (Some i)"
          using c1 i1 by (simp_all add: chan_inv_def)
        have "p \<notin> set (cs i)" using mi pn by simp
        then have "\<forall>a \<in> set (cs i). chan_links w2 a = chan_links w1 a"
          by (auto simp: chan_links_def w2_def w1_def)
        then have "dll (chan_links w2) NULL (clients (chans w1 ! i)) (cs i)" using di dll_cong by blast
        then show ?thesis using mi co pn by (auto simp: w2_def)
      qed
      then show ?thesis using c1 co by (auto simp: chan_inv_def w2_def split: if_splits)
    qed
    moreover have "queues_inv w2 (qs(p := []))"
    proof (rule queues_inv_add [where c = "new_client sock prev"])
      show "queues_inv w1 qs" using qi qr1 live1 by (simp add: queues_inv_def w1_def)
    qed (use live1 p in \<open>simp_all add: w2_def w1_def new_client_def\<close>)
    ultimately show ?thesis using run False by (simp add: clients_inv_def chan_of_def w2_def new_client_def)
  qed
qed

section \<open>Joining a channel\<close>

lemma join_run:
  assumes ci: "chan_inv w cs" and c: "uclients w p = Some c" "chan_ptr c = None" and i: "i < length (chans w)"
    and l: "cs i \<noteq> [] \<Longrightarrow> uclients w (last (cs i)) = Some d" and p0: "p \<noteq> NULL"
  shows "unicast_join_channel w p i True = Some (w\<lparr>
      uclients := (let c' = c\<lparr>chan_next := NULL, chan_prev := (if cs i = [] then NULL else last (cs i)), chan_ptr := Some i\<rparr> in
        if cs i = [] then (uclients w)(p \<mapsto> c') else (uclients w)(last (cs i) \<mapsto> d\<lparr>chan_next := p\<rparr>, p \<mapsto> c')),
      chans := (chans w)[i := (chans w ! i)\<lparr>num_clients := num_clients (chans w ! i) + 1,
        clients := (if cs i = [] then p else clients (chans w ! i))\<rparr>]\<rparr>)"
proof -
  have di: "dll (chan_links w) NULL (clients (chans w ! i)) (cs i)" using ci i by (simp add: chan_inv_def)
  have "chan_of w p = Some None" using c by (simp add: chan_of_def)
  then have np: "p \<notin> set (cs i)" using ci i by (simp add: chan_inv_def)
  define w1 where "w1 = w\<lparr>uclients := (uclients w)(p \<mapsto> c\<lparr>chan_next := NULL\<rparr>),
     chans := (chans w)[i := (chans w ! i)\<lparr>num_clients := num_clients (chans w ! i) + 1\<rparr>]\<rparr>"
  have "\<forall>a \<in> set (cs i). chan_links w1 a = chan_links w a" using np by (auto simp: chan_links_def w1_def)
  then have d1: "dll (chan_links w1) NULL (clients (chans w ! i)) (cs i)" using di dll_cong by blast
  have last: "cs i \<noteq> [] \<Longrightarrow> last_in_list (uclients w1) chan_next (clients (chans w ! i)) = Some (last (cs i))"
    by (rule last_chan [OF d1])
  have nl: "cs i \<noteq> [] \<Longrightarrow> last (cs i) \<noteq> p" using np by auto
  have fc: "(clients (chans w ! i) = NULL) = (cs i = [])" by (rule dll_NULL [OF di])
  have "unicast_join_channel w p i True = (do {
      (r, w) \<leftarrow> (if cs i = [] then do {
          w \<leftarrow> upd_chan w1 i (\<lambda>ch. ch\<lparr>clients := p\<rparr>);
          w \<leftarrow> upd_client w p (\<lambda>c. c\<lparr>chan_prev := NULL\<rparr>);
          Some (0 :: int, w)}
        else do {
          l \<leftarrow> last_in_list (uclients w1) chan_next (clients (chans w ! i));
          w \<leftarrow> upd_client w1 l (\<lambda>c. c\<lparr>chan_next := p\<rparr>);
          w \<leftarrow> upd_client w p (\<lambda>c. c\<lparr>chan_prev := l\<rparr>);
          Some (0, w)});
      if r = 0 then upd_client w p (\<lambda>c. c\<lparr>chan_ptr := Some i\<rparr>) else Some w})"
    using c i fc
    by (simp add: unicast_join_channel_def channel_add_unicast_client_def upd_client_Some upd_chan_Some rd_def
        w1_def cong: if_cong)
  also have "\<dots> = Some (w\<lparr>
      uclients := (let c' = c\<lparr>chan_next := NULL, chan_prev := (if cs i = [] then NULL else last (cs i)), chan_ptr := Some i\<rparr> in
        if cs i = [] then (uclients w)(p \<mapsto> c') else (uclients w)(last (cs i) \<mapsto> d\<lparr>chan_next := p\<rparr>, p \<mapsto> c')),
      chans := (chans w)[i := (chans w ! i)\<lparr>num_clients := num_clients (chans w ! i) + 1,
        clients := (if cs i = [] then p else clients (chans w ! i))\<rparr>]\<rparr>)"
  proof (cases "cs i = []")
    case True
    then show ?thesis using i by (simp add: upd_client_def upd_chan_Some w1_def)
  next
    case False
    have "(uclients w)(p \<mapsto> x, last (cs i) \<mapsto> y, p \<mapsto> z, p \<mapsto> v) = (uclients w)(last (cs i) \<mapsto> y, p \<mapsto> v)" for x y z v
      using nl [OF False] by (auto simp: fun_eq_iff)
    then show ?thesis
      using False i last [OF False] l [OF False] nl [OF False]
      by (simp add: upd_client_def w1_def)
  qed
  finally show ?thesis .
qed

text \<open>
  A client that asks for a channel becomes the last of the channel's list when the answer could
  be written, and the channel counts it; the invariant is kept, whether it joins or not.
\<close>

theorem unicast_join_channel_ok:
  assumes inv: "clients_inv w gs cs qs" and c: "uclients w p = Some c" "chan_ptr c = None" and i: "i < length (chans w)"
  shows "\<exists>w'. unicast_join_channel w p i reply_ok = Some w' \<and>
     clients_inv w' gs (if reply_ok then cs(i := cs i @ [p]) else cs) qs"
proof (cases reply_ok)
  case False
  then show ?thesis using inv by (simp add: unicast_join_channel_def channel_add_unicast_client_def)
next
  case True
  have g: "global_inv w gs" and ci: "chan_inv w cs" and qi: "queues_inv w qs"
    using inv by (simp_all add: clients_inv_def)
  have di: "dll (chan_links w) NULL (clients (chans w ! i)) (cs i)" and dc: "distinct (cs i)"
    and mi: "\<And>a k. k < length (chans w) \<Longrightarrow> a \<in> set (cs k) \<longleftrightarrow> chan_of w a = Some (Some k)"
    using ci i by (simp_all add: chan_inv_def)
  have cp: "chan_of w p = Some None" using c by (simp add: chan_of_def)
  have np: "k < length (chans w) \<Longrightarrow> p \<notin> set (cs k)" for k using mi cp by simp
  have "p \<in> set gs" using g c(1) unfolding global_inv_def by blast
  then have p0: "p \<noteq> NULL" using g dll_not_NULL unfolding global_inv_def by blast
  obtain d where d: "cs i \<noteq> [] \<Longrightarrow> uclients w (last (cs i)) = Some d"
    using mi [OF i, of "last (cs i)"] by (cases "cs i = []") (auto simp: chan_of_def)
  define pv where "pv = (if cs i = [] then NULL else last (cs i))"
  define c' where "c' = c\<lparr>chan_next := NULL, chan_prev := pv, chan_ptr := Some i\<rparr>"
  define u where "u = (if cs i = [] then (uclients w)(p \<mapsto> c') else (uclients w)(last (cs i) \<mapsto> d\<lparr>chan_next := p\<rparr>, p \<mapsto> c'))"
  define ch where "ch = (chans w ! i)\<lparr>num_clients := num_clients (chans w ! i) + 1,
        clients := (if cs i = [] then p else clients (chans w ! i))\<rparr>"
  define w' where "w' = w\<lparr>uclients := u, chans := (chans w)[i := ch]\<rparr>"
  have run: "unicast_join_channel w p i reply_ok = Some w'"
    using join_run [OF ci c i d p0] True by (simp add: w'_def u_def c'_def pv_def ch_def Let_def)
  have ua: "map_option (\<lambda>c. ((prev_client c, next_client c), queue c)) (u a) =
      map_option (\<lambda>c. ((prev_client c, next_client c), queue c)) (uclients w a)" for a
    using c d by (cases "cs i = []") (auto simp: u_def c'_def)
  have kk: "keeps (\<lambda>c. ((prev_client c, next_client c), queue c)) w w'" using ua by (simp add: keeps_def w'_def)
  have al: "all_links w' = all_links w"
    using keepsD [OF kk, of fst] by (simp add: all_links_def fun_eq_iff)
  have live: "(uclients w' a = None) = (uclients w a = None)" for a by (rule keeps_None [OF kk])
  have qq: "map_option queue (uclients w' a) = map_option queue (uclients w a)" for a
    using keepsD [OF kk, of snd a] by simp
  have "global_inv w' gs" using g al live by (simp add: global_inv_def w'_def)
  moreover have "queues_inv w' qs"
  proof -
    have "queue_rep (qheap w') (queue e) (qs a)" if "uclients w' a = Some e" for a e
      using qq [of a] that qi by (cases "uclients w a") (auto simp: queues_inv_def w'_def)
    then show ?thesis using qi live unfolding queues_inv_def by simp
  qed
  moreover have "chan_inv w' (cs(i := cs i @ [p]))"
  proof -
    have co: "chan_of w' a = (if a = p then Some (Some i) else chan_of w a)" for a
      using d by (cases "cs i = []") (auto simp: chan_of_def w'_def u_def c'_def)
    have other: "chan_links w' a = chan_links w a" if "a \<noteq> p" "cs i = [] \<or> a \<noteq> last (cs i)" for a
      using that by (auto simp: chan_links_def w'_def u_def)
    have li: "dll (chan_links w') NULL (if cs i = [] then p else clients (chans w ! i)) (cs i @ [p])"
    proof (rule dll_append [OF di np [OF i] p0 dc])
      show "chan_links w' p = Some (if cs i = [] then NULL else last (cs i), NULL)"
        by (simp add: chan_links_def w'_def u_def c'_def pv_def)
      show "\<forall>a \<in> set (cs i). chan_links w' a = Some (fst (the (chan_links w a)), if a = last (cs i) then p else snd (the (chan_links w a)))"
      proof
        fix a assume a: "a \<in> set (cs i)"
        then have ne: "cs i \<noteq> []" "a \<noteq> p" using np [OF i] by auto
        show "chan_links w' a = Some (fst (the (chan_links w a)), if a = last (cs i) then p else snd (the (chan_links w a)))"
        proof (cases "a = last (cs i)")
          case True
          then show ?thesis using ne d by (simp add: chan_links_def w'_def u_def)
        next
          case False
          then show ?thesis using other [of a] ne dll_not_NULL [OF di a] by (cases "chan_links w a") auto
        qed
      qed
    qed
    have "dll (chan_links w') NULL (clients (chans w' ! k)) ((cs(i := cs i @ [p])) k) \<and>
       distinct ((cs(i := cs i @ [p])) k) \<and> num_clients (chans w' ! k) = int (length ((cs(i := cs i @ [p])) k)) \<and>
       (\<forall>a. a \<in> set ((cs(i := cs i @ [p])) k) \<longleftrightarrow> chan_of w' a = Some (Some k))" if k: "k < length (chans w)" for k
    proof (cases "k = i")
      case True
      then show ?thesis using li dc np [OF i] mi [OF i] co i ci by (auto simp: w'_def ch_def chan_inv_def)
    next
      case False
      have dk: "dll (chan_links w) NULL (clients (chans w ! k)) (cs k)" "distinct (cs k)"
        "num_clients (chans w ! k) = int (length (cs k))"
        using ci k by (simp_all add: chan_inv_def)
      have "\<forall>a \<in> set (cs k). chan_links w' a = chan_links w a"
      proof
        fix a assume a: "a \<in> set (cs k)"
        have "cs i = [] \<or> a \<noteq> last (cs i)"
          using mi [OF k, of a] a mi [OF i, of a] False by (metis last_in_set option.inject)
        moreover have "a \<noteq> p" using a np [OF k] by auto
        ultimately show "chan_links w' a = chan_links w a" using other by simp
      qed
      then have "dll (chan_links w') NULL (clients (chans w ! k)) (cs k)" using dk(1) dll_cong by blast
      then show ?thesis using dk mi [OF k] co False cp by (auto simp: w'_def)
    qed
    then show ?thesis using co i ci by (auto simp: chan_inv_def w'_def)
  qed
  ultimately show ?thesis using run True by (simp add: clients_inv_def)
qed

section \<open>Properties of the deletion\<close>

text \<open>
  C8. Deleting a client takes it out of the list of all clients and of the list of its channel,
  keeps the invariant, frees the client and everything in its queue, and touches no other client's
  queue.
\<close>

theorem unicast_del_client_ok:
  assumes "clients_inv w gs cs qs" "p \<in> set gs"
  shows "\<exists>w'. unicast_del_client w p = Some w' \<and>
     clients_inv w' (remove1 p gs) (\<lambda>i. remove1 p (cs i)) qs \<and> uclients w' p = None \<and>
     (\<forall>e \<in> set (qs p). cells (qheap w') (entry_cell e) = None \<and> blocks (qheap w') (entry_block e) = None)"
  using del_client_spec [OF assms] by blast

lemma free_clients_ok:
  "clients_inv w gs cs qs \<Longrightarrow>
   \<exists>w'. free_clients w (first_client w) = Some w' \<and> clients_inv w' [] (\<lambda>i. fold remove1 gs (cs i)) qs \<and>
     length (chans w') = length (chans w) \<and>
     (\<forall>p \<in> set gs. \<forall>e \<in> set (qs p). cells (qheap w') (entry_cell e) = None \<and> blocks (qheap w') (entry_block e) = None) \<and>
     (\<forall>x. cells (qheap w) x = None \<longrightarrow> cells (qheap w') x = None) \<and>
     (\<forall>x. blocks (qheap w) x = None \<longrightarrow> blocks (qheap w') x = None)"
proof (induction gs arbitrary: w cs)
  case Nil
  then have "first_client w = NULL" by (simp add: clients_inv_def global_inv_def)
  then have "free_clients w (first_client w) = Some w" by (subst free_clients.simps) simp
  then show ?case using Nil by simp
next
  case (Cons p gs)
  have dl: "dll (all_links w) NULL (first_client w) (p # gs)" "distinct (p # gs)"
    using Cons.prems by (simp_all add: clients_inv_def global_inv_def)
  then obtain n where n: "first_client w = p" "p \<noteq> NULL" "all_links w p = Some (NULL, n)" "dll (all_links w) p n gs" by auto
  then obtain c where c: "uclients w p = Some c" "next_client c = n" by (auto simp: all_links_def)
  obtain w1 where w1: "unicast_del_client w p = Some w1" "clients_inv w1 gs (\<lambda>i. remove1 p (cs i)) qs"
     "\<forall>e \<in> set (qs p). cells (qheap w1) (entry_cell e) = None \<and> blocks (qheap w1) (entry_block e) = None"
     "length (chans w1) = length (chans w)"
     "\<forall>x. cells (qheap w) x = None \<longrightarrow> cells (qheap w1) x = None"
     "\<forall>x. blocks (qheap w) x = None \<longrightarrow> blocks (qheap w1) x = None"
    using del_client_spec [OF Cons.prems, of p] by auto
  have "dll (all_links w1) NULL (first_client w1) gs" using w1(2) by (simp add: clients_inv_def global_inv_def)
  then have nx: "first_client w1 = n" using n(4) by (cases gs) auto
  obtain w2 where w2: "free_clients w1 (first_client w1) = Some w2"
     "clients_inv w2 [] (\<lambda>i. fold remove1 gs (remove1 p (cs i))) qs" "length (chans w2) = length (chans w1)"
     "\<forall>p \<in> set gs. \<forall>e \<in> set (qs p). cells (qheap w2) (entry_cell e) = None \<and> blocks (qheap w2) (entry_block e) = None"
     "\<forall>x. cells (qheap w1) x = None \<longrightarrow> cells (qheap w2) x = None"
     "\<forall>x. blocks (qheap w1) x = None \<longrightarrow> blocks (qheap w2) x = None"
    using Cons.IH [OF w1(2)] by blast
  have "free_clients w p = Some w2"
    using n(2) c w1(1) w2(1) nx by (subst free_clients.simps) simp
  then show ?case using n(1) w1 w2 by simp
qed

text \<open>
  Shutting down returns and leaves no client: no client is live, the lists and counts of all
  channels are empty, and all the queues are freed.
\<close>

theorem unicast_freeing_ok:
  assumes "clients_inv w gs cs qs"
  shows "\<exists>w'. unicast_freeing w = Some w' \<and> first_client w' = NULL \<and> client_number w' = 0 \<and>
     (\<forall>p. uclients w' p = None) \<and>
     (\<forall>i < length (chans w). clients (chans w' ! i) = NULL \<and> num_clients (chans w' ! i) = 0) \<and>
     (\<forall>p \<in> set gs. \<forall>e \<in> set (qs p). cells (qheap w') (entry_cell e) = None \<and> blocks (qheap w') (entry_block e) = None)"
proof -
  obtain w' where w': "free_clients w (first_client w) = Some w'"
     "clients_inv w' [] (\<lambda>i. fold remove1 gs (cs i)) qs" "length (chans w') = length (chans w)"
     "\<forall>p \<in> set gs. \<forall>e \<in> set (qs p). cells (qheap w') (entry_cell e) = None \<and> blocks (qheap w') (entry_block e) = None"
    using free_clients_ok [OF assms] by blast
  have live: "\<forall>p. uclients w' p = None" using w'(2) by (simp add: clients_inv_def global_inv_def)
  have "clients (chans w' ! i) = NULL \<and> num_clients (chans w' ! i) = 0" if i: "i < length (chans w)" for i
  proof -
    define cl where "cl = fold remove1 gs (cs i)"
    have "\<forall>p. p \<in> set cl \<longleftrightarrow> chan_of w' p = Some (Some i)" "dll (chan_links w') NULL (clients (chans w' ! i)) cl"
      "num_clients (chans w' ! i) = int (length cl)"
      using w'(2,3) i by (simp_all add: clients_inv_def chan_inv_def cl_def)
    moreover from this have "cl = []" using live by (cases cl) (auto simp: chan_of_def)
    ultimately show ?thesis by simp
  qed
  then show ?thesis
    using w' live by (simp add: unicast_freeing_def clients_inv_def global_inv_def)
qed

lemma find_fd_in: "s \<in> set xs \<Longrightarrow> find_fd xs s < length xs"
  by (induction xs) auto

lemma find_fd_nth: "find_fd xs s < length xs \<Longrightarrow> xs ! find_fd xs s = s"
  by (induction xs) auto

lemma find_fd_notin: "s \<notin> set xs \<Longrightarrow> find_fd xs s = length xs"
  by (induction xs) auto

lemma mset_swap_remove:
  assumes "k < length xs"
  shows "mset (take (length xs - 1) (xs[k := xs ! (length xs - 1)])) = mset xs - {#xs ! k#}"
proof -
  obtain ys z where xs: "xs = ys @ [z]" using assms by (cases xs rule: rev_cases) auto
  show ?thesis
  proof (cases "k < length ys")
    case True
    then have "mset (ys[k := z]) = add_mset z (mset ys - {#ys ! k#})" by (rule mset_update)
    moreover have "ys ! k \<in># mset ys" using True by simp
    ultimately show ?thesis using True
      by (simp add: xs list_update_append nth_append)
  next
    case False
    then have "k = length ys" using assms xs by simp
    then show ?thesis by (simp add: xs)
  qed
qed

lemma close_connection_spec:
  assumes "clients_inv w gs cs qs" "length (fd_info w) = length (pfds w)"
    and "sock \<in> set (pfds w) \<Longrightarrow> p = fd_info w ! find_fd (pfds w) sock \<and> p \<in> set gs"
  shows "\<exists>w'. unicast_close_connection w sock = Some w' \<and>
     (if sock \<in> set (pfds w)
      then clients_inv w' (remove1 p gs) (\<lambda>i. remove1 p (cs i)) qs \<and> uclients w' p = None \<and>
        mset (zip (pfds w') (fd_info w')) = mset (zip (pfds w) (fd_info w)) - {#(sock, p)#} \<and>
        length (chans w') = length (chans w)
      else w' = w)"
proof (cases "sock \<in> set (pfds w)")
  case False
  then show ?thesis by (simp add: unicast_close_connection_def find_fd_notin)
next
  case True
  define k where "k = find_fd (pfds w) sock"
  define n where "n = length (pfds w)"
  have k: "k < n" using find_fd_in [OF True] by (simp add: k_def n_def)
  have p: "p = fd_info w ! k" "p \<in> set gs" using assms(3) [OF True] unfolding k_def by blast+
  have sock: "pfds w ! k = sock" using k by (simp add: k_def n_def find_fd_nth)
  obtain w1 where w1: "unicast_del_client w p = Some w1"
     "clients_inv w1 (remove1 p gs) (\<lambda>i. remove1 p (cs i)) qs" "uclients w1 p = None"
     "pfds w1 = pfds w" "fd_info w1 = fd_info w" "length (chans w1) = length (chans w)"
    using del_client_spec [OF assms(1) p(2)] by blast
  define w' where "w' = w1\<lparr>pfds := take (n - 1) ((pfds w)[k := pfds w ! (n - 1)]),
     fd_info := take (n - 1) ((fd_info w)[k := fd_info w ! (n - 1)])\<rparr>"
  have "unicast_close_connection w sock = Some w'"
    using k w1(1,4,5) p(1) assms(2)
    by (simp add: unicast_close_connection_def Let_def rd_def w'_def flip: k_def n_def)
  moreover have "clients_inv w' (remove1 p gs) (\<lambda>i. remove1 p (cs i)) qs"
    using w1(2) unfolding clients_inv_def global_inv_def chan_inv_def queues_inv_def
    by (simp add: w'_def all_links_def [abs_def] chan_links_def [abs_def] chan_of_def)
  moreover have "mset (zip (pfds w') (fd_info w')) = mset (zip (pfds w) (fd_info w)) - {#(sock, p)#}"
  proof -
    define z where "z = zip (pfds w) (fd_info w)"
    have lz: "length z = n" using assms(2) by (simp add: z_def n_def)
    have "zip (pfds w') (fd_info w') = take (n - 1) (z[k := z ! (n - 1)])"
      using k assms(2) by (simp add: w'_def z_def zip_update n_def flip: take_zip)
    moreover have "z ! k = (sock, p)" using k sock p(1) assms(2) by (simp add: z_def n_def)
    moreover have "mset (take (n - 1) (z[k := z ! (n - 1)])) = mset z - {#z ! k#}"
      using mset_swap_remove [of k z] k unfolding lz by blast
    ultimately show ?thesis by (simp only: z_def)
  qed
  moreover have "uclients w' p = None" using w1(3) by (simp add: w'_def)
  moreover have "length (chans w') = length (chans w)" using w1(6) by (simp add: w'_def)
  ultimately show ?thesis using True by auto
qed

text \<open>
  Closing the connection of a client deletes exactly that client, and its descriptor leaves the
  poll table while all other descriptors stay, each with its client. A socket that is not in the
  table changes nothing.
\<close>

theorem unicast_close_connection_ok:
  assumes "clients_inv w gs cs qs" "length (fd_info w) = length (pfds w)"
    and "sock \<in> set (pfds w) \<Longrightarrow> p = fd_info w ! find_fd (pfds w) sock \<and> p \<in> set gs"
  shows "\<exists>w'. unicast_close_connection w sock = Some w' \<and>
     (if sock \<in> set (pfds w)
      then clients_inv w' (remove1 p gs) (\<lambda>i. remove1 p (cs i)) qs \<and> uclients w' p = None \<and>
        mset (zip (pfds w') (fd_info w')) = mset (zip (pfds w) (fd_info w)) - {#(sock, p)#}
      else w' = w)"
  using close_connection_spec [OF assms] by auto

subsection \<open>Witnesses\<close>

text \<open>No client, one client, and the client in channel 0.\<close>

definition world0 :: unicast_world where
  "world0 = \<lparr>qheap = \<lparr>cells = \<lambda>_. None, blocks = \<lambda>_. None\<rparr>, uclients = \<lambda>_. None, first_client = NULL,
     client_number = 0, chans = [zero_channel], pfds = [3], fd_info = [NULL]\<rparr>"

lemma world0_inv: "clients_inv world0 [] (\<lambda>_. []) (\<lambda>_. [])"
  by (simp add: clients_inv_def global_inv_def chan_inv_def queues_inv_def world0_def zero_channel_def
      chan_of_def NULL_def)

definition world1 :: unicast_world where
  "world1 = world0\<lparr>uclients := [5 \<mapsto> (new_client 7 NULL)\<lparr>chan_ptr := Some 0\<rparr>], first_client := 5, client_number := 1,
     chans := [zero_channel\<lparr>clients := 5, num_clients := 1\<rparr>], pfds := [3, 7], fd_info := [NULL, 5]\<rparr>"

lemma world1_inv: "clients_inv world1 [5] (\<lambda>i. if i = 0 then [5] else []) (\<lambda>_. [])"
  by (auto simp: clients_inv_def global_inv_def chan_inv_def queues_inv_def world1_def world0_def zero_channel_def
      chan_of_def all_links_def chan_links_def new_client_def NULL_def entry_cells_def entry_blocks_def)

theorem unicast_add_client_ok_witness:
  "\<exists>w'. unicast_add_client world0 7 5 = Some (5, w') \<and> clients_inv w' [5] (\<lambda>_. []) ((\<lambda>_. [])(5 := []))"
proof -
  have "uclients world0 5 = None" "(5 :: ptr) \<noteq> NULL" by (simp_all add: world0_def NULL_def)
  then show ?thesis using unicast_add_client_ok [OF world0_inv, of 5 7] by auto
qed

theorem unicast_join_channel_ok_witness:
  "\<exists>w w'. unicast_add_client world0 7 5 = Some (5, w) \<and> unicast_join_channel w 5 0 True = Some w' \<and>
     clients_inv w' [5] ((\<lambda>_. [])(0 := [5])) (\<lambda>_. [])"
proof -
  define w where "w = world0\<lparr>uclients := [5 \<mapsto> new_client 7 NULL], first_client := 5, client_number := 1\<rparr>"
  have a: "unicast_add_client world0 7 5 = Some (5, w)"
    by (simp add: unicast_add_client_def w_def world0_def NULL_def)
  have i: "clients_inv w [5] (\<lambda>_. []) (\<lambda>_. [])"
    by (auto simp: clients_inv_def global_inv_def chan_inv_def queues_inv_def w_def world0_def zero_channel_def
        chan_of_def all_links_def chan_links_def new_client_def NULL_def)
  have c: "uclients w 5 = Some (new_client 7 NULL)" "chan_ptr (new_client 7 NULL) = None" "0 < length (chans w)"
    by (simp_all add: w_def new_client_def world0_def)
  show ?thesis using unicast_join_channel_ok [OF i c, of True] a by auto
qed

theorem unicast_del_client_ok_witness:
  "\<exists>w'. unicast_del_client world1 5 = Some w' \<and> clients_inv w' [] (\<lambda>i. remove1 5 (if i = 0 then [5] else [])) (\<lambda>_. []) \<and>
     uclients w' 5 = None"
  using unicast_del_client_ok [OF world1_inv, of 5] by simp

theorem unicast_freeing_ok_witness:
  "\<exists>w'. unicast_freeing world1 = Some w' \<and> (\<forall>p. uclients w' p = None) \<and> client_number w' = 0"
  using unicast_freeing_ok [OF world1_inv] by blast

theorem unicast_close_connection_ok_witness:
  "\<exists>w'. unicast_close_connection world1 7 = Some w' \<and> uclients w' 5 = None \<and>
     mset (zip (pfds w') (fd_info w')) = {#(3, NULL)#}"
proof -
  have w: "pfds world1 = [3, 7]" "fd_info world1 = [NULL, 5]" by (simp_all add: world1_def)
  have "mset (zip [3, 7 :: int] [NULL, 5]) - {#(7, 5)#} = {#(3, NULL)#}" by simp
  then show ?thesis using unicast_close_connection_ok [OF world1_inv, of 7 5] unfolding w by simp blast
qed

end
