(* ===== verification/Unicast_Send.thy ===== *)
theory Unicast_Send
  imports Unicast_Clients
begin

text \<open>
  Sending a full buffer to the HTTP clients of a channel, \<^verbatim>\<open>unicast_data_send\<close> of
  \<^verbatim>\<open>src/src/unicast_queue.c\<close>: each client gets the buffer at once or, when data is already waiting,
  behind its queue, of which at most \<^verbatim>\<open>UNICAST_MULTIPLE_QUEUE_SEND\<close> packets are tried.

  What the system calls return is a parameter, \<open>send_env\<close>: the result of \<^verbatim>\<open>send\<close>, \<^verbatim>\<open>errno\<close>, the
  time, and the addresses from \<^verbatim>\<open>malloc\<close>; there is one for each attempt, numbered by the
  attempts that may follow it. The bytes that \<^verbatim>\<open>send\<close> accepted are part of the result, so that the
  stream a client receives can be stated. A read from a freed block, or before the start of the
  channel's buffer, has the result \<open>None\<close>.

  The lemmas show that the stream of a client is kept, in order and without loss, as long as no
  queued packet is written in part; and what happens otherwise.
\<close>

section \<open>Data\<close>

text \<open>
  The configuration in \<^verbatim>\<open>unicast_parameters_t\<close> that is read when data is sent; the client list is in
  \<open>unicast_world\<close>.
\<close>

record unicast_parameters_t =
  consecutive_errors_timeout :: int
  queue_max_size :: int
  flush_on_eagain :: bool
  playlist_ignore_dead :: bool
  playlist_ignore_scrambled_ratio :: nat
  hls :: bool
  hls_rotate_time :: nat
  hls_rotate_count :: nat
  hls_rotate_iframe :: bool
  hls_storage_dir :: string
  hls_playlist_name :: string

text \<open>The defaults set at the start; the two strings are allocated.\<close>

definition init_unicast_v :: unicast_parameters_t where
  "init_unicast_v = \<lparr>
     consecutive_errors_timeout = 5, queue_max_size = UNICAST_DEFAULT_QUEUE_MAX,
     flush_on_eagain = False, playlist_ignore_dead = False, playlist_ignore_scrambled_ratio = 0,
     hls = False, hls_rotate_time = 10, hls_rotate_count = 2, hls_rotate_iframe = False,
     hls_storage_dir = ''/tmp'', hls_playlist_name = ''playlist.m3u8''\<rparr>"

definition EAGAIN :: int where "EAGAIN = 11"

record send_env =
  written_len :: int
  errno :: int
  tv_sec :: int
  new_cell :: ptr
  new_block :: ptr

text \<open>What \<^verbatim>\<open>buffer\<close> and \<^verbatim>\<open>buffer_len\<close> denote: the channel's buffer, or a block of the queue.\<close>

datatype send_buf = Channel_buf | Queue_buf ptr int

definition send_bytes :: "unicast_world \<Rightarrow> nat \<Rightarrow> send_buf \<Rightarrow> u8 list option" where
  "send_bytes w i b = (case b of
     Channel_buf \<Rightarrow> do { ch \<leftarrow> rd (chans w) i; mem_read (buf ch) 0 (nb_bytes ch) }
   | Queue_buf p len \<Rightarrow> do { bs \<leftarrow> blocks (qheap w) p; mem_read bs 0 (nat len) })"

section \<open>Sending\<close>

text \<open>An operation of the queue, run on the queue of a client.\<close>

definition with_queue ::
  "unicast_world \<Rightarrow> ptr \<Rightarrow> (queue_heap \<Rightarrow> unicast_queue_header_t \<Rightarrow> (int \<times> queue_heap \<times> unicast_queue_header_t) option) \<Rightarrow>
   unicast_world option" where
  "with_queue w p f = do {
     c \<leftarrow> uclients w p;
     (r, h, q) \<leftarrow> f (qheap w) (queue c);
     Some (w\<lparr>qheap := h, uclients := (uclients w)(p \<mapsto> c\<lparr>queue := q\<rparr>)\<rparr>)}"

text \<open>
  The first error is recorded with its time; when the errors last, the client is disconnected.
  The result is the client to go on from.
\<close>

definition unicast_send_error ::
  "unicast_parameters_t \<Rightarrow> unicast_world \<Rightarrow> ptr \<Rightarrow> send_env \<Rightarrow> (unicast_world \<times> ptr) option" where
  "unicast_send_error v w p e = do {
     c \<leftarrow> uclients w p;
     if \<not> consecutive_errors c then do {
       w \<leftarrow> upd_client w p (\<lambda>c. c\<lparr>first_error_time := tv_sec e, consecutive_errors := True\<rparr>);
       Some (w, p)}
     else if consecutive_errors_timeout v > 0 \<and> tv_sec e - first_error_time c > consecutive_errors_timeout v then do {
       w \<leftarrow> unicast_close_connection w (Socket c);
       Some (w, chan_next c)}
     else Some (w, p)}"

text \<open>
  Not all was written: what was not is queued, or queued again, or dropped.
\<close>

definition unicast_send_failed ::
  "unicast_parameters_t \<Rightarrow> unicast_world \<Rightarrow> ptr \<Rightarrow> send_buf \<Rightarrow> u8 list \<Rightarrow> send_env \<Rightarrow> (unicast_world \<times> ptr) option" where
  "unicast_send_failed v w p b bytes e = do {
     c \<leftarrow> uclients w p;
     let new_error = (written_len e = -1 \<and> errno e \<noteq> last_write_error c);
     let written = (if new_error then 0 else written_len e);
     w \<leftarrow> (if new_error then upd_client w p (\<lambda>c. c\<lparr>last_write_error := errno e\<rparr>) else Some w);
     w \<leftarrow> (if \<not> (flush_on_eagain v \<and> errno e = EAGAIN) then
            (case b of
               Channel_buf \<Rightarrow>
                 if data_bytes_in_queue (queue c) + int (length bytes) - written < queue_max_size v then
                   if written < 0 then None
                   else with_queue w p (\<lambda>h q. unicast_queue_add_data h q (drop (nat written) bytes) (new_cell e) (new_block e))
                 else Some w
             | Queue_buf d len \<Rightarrow>
                 if written > 0 then do {
                   w \<leftarrow> with_queue w p unicast_queue_remove_data;
                   with_queue w p (\<lambda>h q. unicast_queue_requeue h q (d, nat written) (length bytes - nat written) (new_block e))}
                 else Some w)
          else (case b of
               Channel_buf \<Rightarrow> Some w
             | Queue_buf d len \<Rightarrow> with_queue w p (\<lambda>h q. map_option (\<lambda>(h, q). (0, h, q)) (unicast_queue_clear h q))));
     unicast_send_error v w p e}"

text \<open>The loop over the packets of one client; the first argument is \<^verbatim>\<open>packets_left\<close>.\<close>

fun unicast_send_packets ::
  "nat \<Rightarrow> unicast_parameters_t \<Rightarrow> (nat \<Rightarrow> send_env) \<Rightarrow> unicast_world \<Rightarrow> nat \<Rightarrow> ptr \<Rightarrow> send_buf \<Rightarrow> u8 list \<Rightarrow>
   (unicast_world \<times> ptr \<times> u8 list) option" where
  "unicast_send_packets 0 v env w i p b sent = Some (w, p, sent)"
| "unicast_send_packets (Suc n) v env w i p b sent = do {
     bytes \<leftarrow> send_bytes w i b;
     let e = env n;
     let sent = sent @ take (nat (written_len e)) bytes;
     if written_len e < int (length bytes) then do {
       (w, p) \<leftarrow> unicast_send_failed v w p b bytes e;
       Some (w, p, sent)}
     else do {
       w \<leftarrow> upd_client w p (\<lambda>c. if consecutive_errors c
              then c\<lparr>consecutive_errors := False, last_write_error := 0\<rparr> else c);
       case b of
         Channel_buf \<Rightarrow> unicast_send_packets n v env w i p b sent
       | Queue_buf d len \<Rightarrow> do {
           w \<leftarrow> with_queue w p unicast_queue_remove_data;
           c \<leftarrow> uclients w p;
           if packets_in_queue (queue c) \<noteq> 0 then
             if n \<noteq> 0 then do {
               g \<leftarrow> unicast_queue_get_data (qheap w) (queue c);
               case g of None \<Rightarrow> None
               | Some (d, len) \<Rightarrow> unicast_send_packets n v env w i p (Queue_buf d len) sent}
             else Some (w, p, sent)
           else Some (w, p, sent)}}}"

text \<open>One client: queue the new data behind the old, or send it at once.\<close>

definition unicast_send_client ::
  "unicast_parameters_t \<Rightarrow> (nat \<Rightarrow> send_env) \<Rightarrow> unicast_world \<Rightarrow> nat \<Rightarrow> ptr \<Rightarrow> (unicast_world \<times> ptr \<times> u8 list) option" where
  "unicast_send_client v env w i p = do {
     c \<leftarrow> uclients w p;
     ch \<leftarrow> rd (chans w) i;
     if packets_in_queue (queue c) \<noteq> 0 then do {
       let e = env UNICAST_MULTIPLE_QUEUE_SEND;
       w \<leftarrow> (if data_bytes_in_queue (queue c) + int (nb_bytes ch) < queue_max_size v then do {
               bytes \<leftarrow> mem_read (buf ch) 0 (nb_bytes ch);
               with_queue w p (\<lambda>h q. unicast_queue_add_data h q bytes (new_cell e) (new_block e))}
             else upd_client w p (\<lambda>c. c\<lparr>queue := (queue c)\<lparr>queue_full := True\<rparr>\<rparr>));
       c \<leftarrow> uclients w p;
       g \<leftarrow> unicast_queue_get_data (qheap w) (queue c);
       case g of None \<Rightarrow> None
       | Some (d, len) \<Rightarrow> unicast_send_packets UNICAST_MULTIPLE_QUEUE_SEND v env w i p (Queue_buf d len) []}
     else unicast_send_packets 1 v env w i p Channel_buf []}"

text \<open>
  All the clients of channel \<open>i\<close>. The result lists for each client that was served what it was
  sent. \<open>env p\<close> is the environment of client \<open>p\<close>.
\<close>

partial_function (option) unicast_send_clients ::
  "unicast_parameters_t \<Rightarrow> (ptr \<Rightarrow> nat \<Rightarrow> send_env) \<Rightarrow> unicast_world \<Rightarrow> nat \<Rightarrow> ptr \<Rightarrow> (ptr \<times> u8 list) list \<Rightarrow>
   (unicast_world \<times> (ptr \<times> u8 list) list) option" where
  "unicast_send_clients v env w i p log =
     (if p = NULL then Some (w, log)
      else do {
        (w, p', sent) \<leftarrow> unicast_send_client v (env p) w i p;
        let log = log @ [(p, sent)];
        if p' \<noteq> NULL then do {
          c \<leftarrow> uclients w p';
          unicast_send_clients v env w i (chan_next c) log}
        else Some (w, log)})"

definition unicast_data_send ::
  "unicast_parameters_t \<Rightarrow> (ptr \<Rightarrow> nat \<Rightarrow> send_env) \<Rightarrow> unicast_world \<Rightarrow> nat \<Rightarrow> (unicast_world \<times> (ptr \<times> u8 list) list) option" where
  "unicast_data_send v env w i = do {
     ch \<leftarrow> rd (chans w) i;
     unicast_send_clients v env w i (clients ch) []}"

section \<open>Changing the queue of one client\<close>

text \<open>A client changed in members other than its links and its channel, with its queue rewritten in place or in fresh memory.\<close>

lemma clients_inv_queue:
  assumes inv: "clients_inv w gs cs qs" and c: "uclients w p = Some c"
    and keep: "all_part (c'\<lparr>queue := queue c\<rparr>) = all_part c" "chan_part (c'\<lparr>queue := queue c\<rparr>) = chan_part c"
    and rep: "queue_rep h (queue c') es"
    and fr: "heap_frame (qheap w) h C B"
    and C: "C \<union> entry_cells es \<subseteq> entry_cells (qs p) \<union> {x. cells (qheap w) x = None}"
    and B: "B \<union> entry_blocks es \<subseteq> entry_blocks (qs p) \<union> {x. blocks (qheap w) x = None}"
  shows "clients_inv (w\<lparr>qheap := h, uclients := (uclients w)(p \<mapsto> c')\<rparr>) gs cs (qs(p := es))"
proof -
  define w' where "w' = w\<lparr>qheap := h, uclients := (uclients w)(p \<mapsto> c')\<rparr>"
  have l: "all_links w' = all_links w" "chan_links w' = chan_links w" "chan_of w' = chan_of w"
    using c keep by (auto simp: fun_eq_iff all_links_def chan_links_def chan_of_def w'_def all_part_def chan_part_def)
  have live: "(uclients w' a = None) = (uclients w a = None)" for a using c by (auto simp: w'_def)
  have "global_inv w' gs" "chan_inv w' cs"
    using inv l live by (simp_all add: clients_inv_def global_inv_def chan_inv_def w'_def)
  moreover have "queues_inv w' (qs(p := es))"
  proof -
    have qi: "queues_inv w qs" using inv by (simp add: clients_inv_def)
    have dj: "C \<inter> entry_cells (qs a) = {} \<and> entry_cells es \<inter> entry_cells (qs a) = {} \<and>
        B \<inter> entry_blocks (qs a) = {} \<and> entry_blocks es \<inter> entry_blocks (qs a) = {}"
      if a: "a \<noteq> p" "uclients w a = Some d" for a d
    proof -
      have "queue_rep (qheap w) (queue d) (qs a)" using qi a by (simp add: queues_inv_def)
      then have ch: "chain (qheap w) (queue_first (queue d)) (qs a)" by (simp add: queue_rep_def)
      have nf: "x \<in> entry_cells (qs a) \<Longrightarrow> cells (qheap w) x \<noteq> None" "x \<in> entry_blocks (qs a) \<Longrightarrow> blocks (qheap w) x \<noteq> None" for x
        using chain_fresh [OF ch] unfolding entry_cells_def entry_blocks_def by blast+
      have "entry_cells (qs p) \<inter> entry_cells (qs a) = {}" "entry_blocks (qs p) \<inter> entry_blocks (qs a) = {}"
        using qi a c unfolding queues_inv_def by blast+
      then show ?thesis using C B nf by blast
    qed
    have "queue_rep h (queue d) (qs a)" if a: "a \<noteq> p" "uclients w a = Some d" for a d
    proof -
      have "\<forall>e \<in> set (qs a). cells h (entry_cell e) = cells (qheap w) (entry_cell e) \<and>
          blocks h (entry_block e) = blocks (qheap w) (entry_block e)"
      proof
        fix e assume e: "e \<in> set (qs a)"
        then have "entry_cell e \<in> entry_cells (qs a)" "entry_block e \<in> entry_blocks (qs a)"
          by (simp_all add: entry_cells_def entry_blocks_def)
        then have "entry_cell e \<notin> C" "entry_block e \<notin> B" using dj [OF a] by blast+
        then show "cells h (entry_cell e) = cells (qheap w) (entry_cell e) \<and> blocks h (entry_block e) = blocks (qheap w) (entry_block e)"
          using fr unfolding heap_frame_def by blast
      qed
      moreover have "queue_rep (qheap w) (queue d) (qs a)" using qi a by (simp add: queues_inv_def)
      ultimately show ?thesis using queue_rep_cong by blast
    qed
    then have "\<forall>a d. uclients w' a = Some d \<longrightarrow> queue_rep (qheap w') (queue d) ((qs(p := es)) a)"
      using rep by (simp add: w'_def)
    moreover have "entry_cells ((qs(p := es)) a) \<inter> entry_cells ((qs(p := es)) a') = {} \<and>
        entry_blocks ((qs(p := es)) a) \<inter> entry_blocks ((qs(p := es)) a') = {}"
      if "uclients w' a \<noteq> None" "uclients w' a' \<noteq> None" "a \<noteq> a'" for a a'
    proof -
      have la: "uclients w a \<noteq> None" "uclients w a' \<noteq> None" using that(1,2) live by simp_all
      consider "a = p" | "a' = p" | "a \<noteq> p" "a' \<noteq> p" by blast
      then show ?thesis
      proof cases
        case 1
        then show ?thesis using dj [of a'] la(2) that(3) by auto
      next
        case 2
        then show ?thesis using dj [of a] la(1) that(3) by auto
      next
        case 3
        then show ?thesis using qi la that(3) unfolding queues_inv_def by simp
      qed
    qed
    ultimately show ?thesis unfolding queues_inv_def by blast
  qed
  ultimately show ?thesis by (simp add: clients_inv_def w'_def)
qed

lemma clients_inv_upd:
  assumes inv: "clients_inv w gs cs qs" and c: "uclients w p = Some c"
    and keep: "all_part c' = all_part c" "chan_part c' = chan_part c"
  shows "clients_inv (w\<lparr>uclients := (uclients w)(p \<mapsto> c')\<rparr>) gs cs qs"
proof -
  have q: "queue c' = queue c" using keep by (simp add: all_part_def)
  have "c'\<lparr>queue := queue c\<rparr> = c'" using q by simp
  moreover have "queue_rep (qheap w) (queue c') (qs p)"
    using inv c q by (simp add: clients_inv_def queues_inv_def)
  ultimately have "clients_inv (w\<lparr>qheap := qheap w, uclients := (uclients w)(p \<mapsto> c')\<rparr>) gs cs (qs(p := qs p))"
    using keep by (intro clients_inv_queue [OF inv c, where C = "{}" and B = "{}"]) (auto simp: heap_frame_def)
  then show ?thesis by simp
qed

lemma client_queue_rep: "clients_inv w gs cs qs \<Longrightarrow> uclients w p = Some c \<Longrightarrow> queue_rep (qheap w) (queue c) (qs p)"
  by (simp add: clients_inv_def queues_inv_def)

text \<open>The queue operations on the queue of a client.\<close>

lemma with_queue_remove:
  assumes inv: "clients_inv w gs cs qs" and c: "uclients w p = Some c" and q: "qs p = e # es"
  shows "\<exists>w' q'. with_queue w p unicast_queue_remove_data = Some w' \<and> clients_inv w' gs cs (qs(p := es)) \<and>
     uclients w' p = Some (c\<lparr>queue := q'\<rparr>) \<and> chans w' = chans w \<and> queue_rep (qheap w') q' es \<and>
     blocks (qheap w') (entry_block e) = None"
proof -
  obtain h q' where h: "unicast_queue_remove_data (qheap w) (queue c) = Some (0, h, q')" "queue_rep h q' es"
     "blocks h (entry_block e) = None" "heap_frame (qheap w) h {entry_cell e} {entry_block e}"
    using queue_remove [of "qheap w" "queue c" e es] client_queue_rep [OF inv c] q by auto
  have "clients_inv (w\<lparr>qheap := h, uclients := (uclients w)(p \<mapsto> c\<lparr>queue := q'\<rparr>)\<rparr>) gs cs (qs(p := es))"
    by (rule clients_inv_queue [OF inv c _ _ _ h(4)])
       (use h(2) q in \<open>auto simp: all_part_def chan_part_def entry_cells_def entry_blocks_def\<close>)
  then show ?thesis using c h by (auto simp: with_queue_def)
qed

lemma with_queue_add:
  assumes inv: "clients_inv w gs cs qs" and c: "uclients w p = Some c" and f: "fresh (qheap w) cell block"
  shows "\<exists>w' q'. with_queue w p (\<lambda>h q. unicast_queue_add_data h q xs cell block) = Some w' \<and>
     clients_inv w' gs cs (qs(p := qs p @ [(cell, block, xs)])) \<and>
     uclients w' p = Some (c\<lparr>queue := q'\<rparr>) \<and> chans w' = chans w \<and> pfds w' = pfds w \<and> fd_info w' = fd_info w"
proof -
  obtain h q' where h: "unicast_queue_add_data (qheap w) (queue c) xs cell block = Some (0, h, q')"
     "queue_rep h q' (qs p @ [(cell, block, xs)])" "heap_frame (qheap w) h (insert cell (entry_cells (qs p))) {block}"
    using queue_add [OF client_queue_rep [OF inv c] f] by blast
  have "clients_inv (w\<lparr>qheap := h, uclients := (uclients w)(p \<mapsto> c\<lparr>queue := q'\<rparr>)\<rparr>) gs cs
      (qs(p := qs p @ [(cell, block, xs)]))"
    by (rule clients_inv_queue [OF inv c _ _ _ h(3)])
       (use h(2) f in \<open>auto simp: all_part_def chan_part_def entry_cells_def entry_blocks_def fresh_def\<close>)
  then show ?thesis using c h by (auto simp: with_queue_def)
qed

section \<open>The stream of a client\<close>

text \<open>The client is not disconnected for its errors.\<close>

definition tolerated :: "unicast_parameters_t \<Rightarrow> (nat \<Rightarrow> send_env) \<Rightarrow> unicast_client_t \<Rightarrow> bool" where
  "tolerated v env c \<longleftrightarrow> consecutive_errors_timeout v \<le> 0 \<or> \<not> consecutive_errors c \<or>
     (\<forall>n. tv_sec (env n) - first_error_time c \<le> consecutive_errors_timeout v)"

definition timed_out :: "unicast_parameters_t \<Rightarrow> send_env \<Rightarrow> unicast_client_t \<Rightarrow> bool" where
  "timed_out v e c \<longleftrightarrow> consecutive_errors c \<and> consecutive_errors_timeout v > 0 \<and>
     tv_sec e - first_error_time c > consecutive_errors_timeout v"

lemma tolerated_not_timed_out: "tolerated v env c \<Longrightarrow> \<not> timed_out v (env n) c"
  by (auto simp: tolerated_def timed_out_def not_less)

lemma send_error_tolerated:
  assumes inv: "clients_inv w gs cs qs" and c: "uclients w p = Some c" and t: "\<not> timed_out v e c"
  shows "\<exists>w' c'. unicast_send_error v w p e = Some (w', p) \<and> clients_inv w' gs cs qs \<and> uclients w' p = Some c' \<and>
     chans w' = chans w"
proof (cases "consecutive_errors c")
  case True
  then have "unicast_send_error v w p e = Some (w, p)" using c t by (auto simp: unicast_send_error_def timed_out_def)
  then show ?thesis using inv c by blast
next
  case False
  define c' where "c' = c\<lparr>first_error_time := tv_sec e, consecutive_errors := True\<rparr>"
  have "clients_inv (w\<lparr>uclients := (uclients w)(p \<mapsto> c')\<rparr>) gs cs qs"
    by (rule clients_inv_upd [OF inv c]) (simp_all add: c'_def all_part_def chan_part_def)
  then show ?thesis
    using False c by (auto simp: unicast_send_error_def upd_client_def c'_def)
qed

text \<open>The first part of a failed write, common to all cases: the new error is recorded.\<close>

lemma send_failed_start:
  fixes e :: send_env
  assumes inv: "clients_inv w gs cs qs" and c: "uclients w p = Some c"
  defines "ne \<equiv> written_len e = -1 \<and> errno e \<noteq> last_write_error c"
  defines "c1 \<equiv> (if ne then c\<lparr>last_write_error := errno e\<rparr> else c)"
  shows "\<exists>w1. (if ne then upd_client w p (\<lambda>c. c\<lparr>last_write_error := errno e\<rparr>) else Some w) = Some w1 \<and>
     clients_inv w1 gs cs qs \<and> uclients w1 p = Some c1 \<and> qheap w1 = qheap w \<and> chans w1 = chans w \<and>
     pfds w1 = pfds w \<and> fd_info w1 = fd_info w"
proof (cases ne)
  case True
  have "clients_inv (w\<lparr>uclients := (uclients w)(p \<mapsto> c1)\<rparr>) gs cs qs"
    by (rule clients_inv_upd [OF inv c]) (auto simp: c1_def all_part_def chan_part_def)
  then show ?thesis using True c by (auto simp: upd_client_def c1_def)
next
  case False
  then show ?thesis using inv c by (simp add: c1_def)
qed

text \<open>A failed write of a queued packet, of which nothing was written, changes only the error state.\<close>

lemma send_failed_queue:
  assumes inv: "clients_inv w gs cs qs" and c: "uclients w p = Some c"
    and e: "written_len e \<le> 0" "\<not> (flush_on_eagain v \<and> errno e = EAGAIN)" and t: "\<not> timed_out v e c"
  shows "\<exists>w' c'. unicast_send_failed v w p (Queue_buf d len) bytes e = Some (w', p) \<and>
     clients_inv w' gs cs qs \<and> uclients w' p = Some c' \<and> chans w' = chans w"
proof -
  define ne where "ne = (written_len e = -1 \<and> errno e \<noteq> last_write_error c)"
  define c1 where "c1 = (if ne then c\<lparr>last_write_error := errno e\<rparr> else c)"
  obtain w1 where w1: "(if ne then upd_client w p (\<lambda>c. c\<lparr>last_write_error := errno e\<rparr>) else Some w) = Some w1"
     "clients_inv w1 gs cs qs" "uclients w1 p = Some c1" "chans w1 = chans w"
    using send_failed_start [OF inv c, of e] unfolding ne_def c1_def by blast
  have t1: "\<not> timed_out v e c1" using t by (simp add: timed_out_def c1_def)
  have "unicast_send_failed v w p (Queue_buf d len) bytes e = unicast_send_error v w1 p e"
    using c e w1(1) by (simp add: unicast_send_failed_def Let_def flip: ne_def)
  then show ?thesis using send_error_tolerated [OF w1(2,3) t1] w1(4) by auto
qed

text \<open>
  The loop over the queued packets: what is sent and what stays in the queue make up what was in
  the queue.
\<close>

definition whole_writes :: "(nat \<Rightarrow> send_env) \<Rightarrow> queue_entry list \<Rightarrow> bool" where
  "whole_writes env es \<longleftrightarrow> (\<forall>n. \<forall>e \<in> set es.
     written_len (env n) \<le> 0 \<and> entry_data e \<noteq> [] \<or> int (length (entry_data e)) \<le> written_len (env n))"

lemma send_packets_queue:
  assumes "\<not> flush_on_eagain v" "0 < n" "clients_inv w gs cs qs" "uclients w p = Some c" "qs p = e # es"
    "whole_writes env (e # es)" "tolerated v env c"
  shows "\<exists>w' c' es' out. unicast_send_packets n v env w i p (Queue_buf (entry_block e) (int (length (entry_data e)))) sent =
       Some (w', p, sent @ out) \<and> clients_inv w' gs cs (qs(p := es')) \<and> uclients w' p = Some c' \<and> chans w' = chans w \<and>
     out @ concat (map entry_data es') = concat (map entry_data (e # es))"
  using assms
proof (induction n arbitrary: w qs c e es sent)
  case (Suc n)
  let ?b = "Queue_buf (entry_block e) (int (length (entry_data e)))"
  have rep: "queue_rep (qheap w) (queue c) (e # es)" using client_queue_rep [OF Suc.prems(3,4)] Suc.prems(5) by simp
  have bytes: "send_bytes w i ?b = Some (entry_data e)"
    using queue_get(2) [OF rep] by (simp add: send_bytes_def mem_read_def)
  show ?case
  proof (cases "written_len (env n) < int (length (entry_data e))")
    case True
    then have z: "written_len (env n) \<le> 0" using Suc.prems(6) by (auto simp: whole_writes_def)
    have nf: "\<not> (flush_on_eagain v \<and> errno (env n) = EAGAIN)" using Suc.prems(1) by simp
    obtain w' c' where f: "unicast_send_failed v w p ?b (entry_data e) (env n) = Some (w', p)"
        "clients_inv w' gs cs qs" "uclients w' p = Some c'" "chans w' = chans w"
      using send_failed_queue [OF Suc.prems(3,4) z nf tolerated_not_timed_out [OF Suc.prems(7)]] by blast
    have "unicast_send_packets (Suc n) v env w i p ?b sent = Some (w', p, sent @ [])"
      using True z by (simp add: bytes f(1) Let_def)
    moreover have "clients_inv w' gs cs (qs(p := e # es))" using f(2) Suc.prems(5) by (metis fun_upd_triv)
    moreover have "[] @ concat (map entry_data (e # es)) = concat (map entry_data (e # es))" by simp
    ultimately show ?thesis using f(3,4) by blast
  next
    case False
    define c1 where "c1 = (if consecutive_errors c then c\<lparr>consecutive_errors := False, last_write_error := 0\<rparr> else c)"
    define w1 where "w1 = w\<lparr>uclients := (uclients w)(p \<mapsto> c1)\<rparr>"
    have u: "upd_client w p (\<lambda>c. if consecutive_errors c then c\<lparr>consecutive_errors := False, last_write_error := 0\<rparr> else c) = Some w1"
      using Suc.prems(4) by (simp add: upd_client_def w1_def c1_def)
    have i1: "clients_inv w1 gs cs qs"
      unfolding w1_def by (rule clients_inv_upd [OF Suc.prems(3,4)]) (auto simp: c1_def all_part_def chan_part_def)
    have c1w: "uclients w1 p = Some c1" by (simp add: w1_def)
    obtain w2 q' where w2: "with_queue w1 p unicast_queue_remove_data = Some w2" "clients_inv w2 gs cs (qs(p := es))"
        "uclients w2 p = Some (c1\<lparr>queue := q'\<rparr>)" "chans w2 = chans w1" "queue_rep (qheap w2) q' es"
      using with_queue_remove [OF i1 c1w Suc.prems(5)] by blast
    have sent1: "take (nat (written_len (env n))) (entry_data e) = entry_data e" using False by simp
    have ch2: "chans w2 = chans w" using w2(4) by (simp add: w1_def)
    have t2: "tolerated v env (c1\<lparr>queue := q'\<rparr>)"
      using Suc.prems(7) by (auto simp: tolerated_def c1_def)
    show ?thesis
    proof (cases "es = [] \<or> n = 0")
      case True
      have pk: "packets_in_queue q' = int (length es)" using w2(5) by (simp add: queue_rep_def)
      have "unicast_send_packets (Suc n) v env w i p ?b sent = Some (w2, p, sent @ entry_data e)"
        using False True pk by (auto simp: bytes u w2(1,3) sent1 Let_def)
      moreover have "entry_data e @ concat (map entry_data es) = concat (map entry_data (e # es))" by simp
      ultimately show ?thesis using w2(2,3) ch2 by blast
    next
      case more: False
      then obtain e' es' where es: "es = e' # es'" by (cases es) auto
      have pk: "packets_in_queue q' \<noteq> 0" using w2(5) es by (simp add: queue_rep_def)
      have gd: "unicast_queue_get_data (qheap w2) q' = Some (Some (entry_block e', int (length (entry_data e'))))"
        using queue_get(1) w2(5) es by blast
      have st: "unicast_send_packets (Suc n) v env w i p ?b sent =
          unicast_send_packets n v env w2 i p (Queue_buf (entry_block e') (int (length (entry_data e')))) (sent @ entry_data e)"
        using False more pk gd by (simp add: bytes u w2(1,3) sent1 Let_def)
      have q2: "(qs(p := es)) p = e' # es'" by (simp add: es)
      have ww: "whole_writes env (e' # es')" using Suc.prems(6) by (simp add: whole_writes_def es)
      have n0: "0 < n" using more by simp
      obtain w' c' es'' out where r: "unicast_send_packets n v env w2 i p (Queue_buf (entry_block e') (int (length (entry_data e'))))
            (sent @ entry_data e) = Some (w', p, (sent @ entry_data e) @ out)"
          "clients_inv w' gs cs ((qs(p := es))(p := es''))" "uclients w' p = Some c'" "chans w' = chans w2"
          "out @ concat (map entry_data es'') = concat (map entry_data (e' # es'))"
        using Suc.IH [OF Suc.prems(1) n0 w2(2,3) q2 ww t2, of "sent @ entry_data e"] by blast
      have "unicast_send_packets (Suc n) v env w i p ?b sent = Some (w', p, sent @ (entry_data e @ out))"
        using st r(1) by simp
      moreover have "clients_inv w' gs cs (qs(p := es''))" using r(2) by (simp only: fun_upd_upd)
      moreover have "(entry_data e @ out) @ concat (map entry_data es'') = concat (map entry_data (e # es))"
        using r(5) es by simp
      moreover have "chans w' = chans w" using r(4) ch2 by simp
      ultimately show ?thesis using r(3) by blast
    qed
  qed
qed simp

text \<open>A write of the channel's buffer that falls short: the rest is queued, then the error is handled.\<close>

lemma send_failed_channel_queued:
  assumes inv: "clients_inv w gs cs qs" and c: "uclients w p = Some c" and q: "qs p = []"
    and e: "0 \<le> written_len e \<or> written_len e = -1 \<and> errno e \<noteq> last_write_error c" "written_len e < int (length bytes)"
    and nf: "\<not> flush_on_eagain v" and room: "int (length bytes) < queue_max_size v"
    and fr: "fresh (qheap w) (new_cell e) (new_block e)"
  shows "\<exists>w2 c2. unicast_send_failed v w p Channel_buf bytes e = unicast_send_error v w2 p e \<and>
     clients_inv w2 gs cs (qs(p := [(new_cell e, new_block e, drop (nat (written_len e)) bytes)])) \<and>
     uclients w2 p = Some c2 \<and> timed_out v e c2 = timed_out v e c \<and> chan_part (c2\<lparr>queue := queue c\<rparr>) = chan_part c \<and>
     chans w2 = chans w \<and> pfds w2 = pfds w \<and> fd_info w2 = fd_info w"
proof -
  define ne where "ne = (written_len e = -1 \<and> errno e \<noteq> last_write_error c)"
  define wl where "wl = (if ne then 0 else written_len e)"
  define c1 where "c1 = (if ne then c\<lparr>last_write_error := errno e\<rparr> else c)"
  define f where "f = (\<lambda>h q. unicast_queue_add_data h q (drop (nat wl) bytes) (new_cell e) (new_block e))"
  have wl0: "0 \<le> wl" "drop (nat wl) bytes = drop (nat (written_len e)) bytes"
    using e(1) by (auto simp: wl_def ne_def)
  obtain w1 where w1: "(if ne then upd_client w p (\<lambda>c. c\<lparr>last_write_error := errno e\<rparr>) else Some w) = Some w1"
     "clients_inv w1 gs cs qs" "uclients w1 p = Some c1" "qheap w1 = qheap w" "chans w1 = chans w"
     "pfds w1 = pfds w" "fd_info w1 = fd_info w"
    using send_failed_start [OF inv c, of e] unfolding ne_def c1_def by blast
  have fr1: "fresh (qheap w1) (new_cell e) (new_block e)" using fr w1(4) by simp
  obtain w2 q' where w2: "with_queue w1 p f = Some w2"
      "clients_inv w2 gs cs (qs(p := qs p @ [(new_cell e, new_block e, drop (nat wl) bytes)]))"
      "uclients w2 p = Some (c1\<lparr>queue := q'\<rparr>)" "chans w2 = chans w1" "pfds w2 = pfds w1" "fd_info w2 = fd_info w1"
    unfolding f_def using with_queue_add [OF w1(2,3) fr1] by blast
  have db: "data_bytes_in_queue (queue c) = 0"
    using client_queue_rep [OF inv c] q by (simp add: queue_rep_def)
  have rm: "int (length bytes) - wl < queue_max_size v" using room wl0(1) by simp
  have "unicast_send_failed v w p Channel_buf bytes e = unicast_send_error v w2 p e"
    unfolding unicast_send_failed_def
    using c nf rm db wl0(1) w1(1) w2(1) by (simp add: Let_def flip: ne_def wl_def f_def)
  moreover have "clients_inv w2 gs cs (qs(p := [(new_cell e, new_block e, drop (nat (written_len e)) bytes)]))"
    using w2(2) q wl0(2) by simp
  moreover have "timed_out v e (c1\<lparr>queue := q'\<rparr>) = timed_out v e c" by (simp add: timed_out_def c1_def)
  moreover have "chan_part ((c1\<lparr>queue := q'\<rparr>)\<lparr>queue := queue c\<rparr>) = chan_part c" by (simp add: chan_part_def c1_def)
  ultimately show ?thesis using w2(3-6) w1(5-7) by (metis (no_types, lifting))
qed


section \<open>Partial writes and disconnections\<close>

text \<open>
  C10. A queued packet that is written in part is read after it was freed: the code removes the packet,
  which frees the block the buffer points into, and then copies the unsent rest out of that block
  (it also puts the rest in the place of the next packet, which is lost).
\<close>

theorem unicast_partial_write_frees:
  assumes inv: "clients_inv w gs cs qs" and c: "uclients w p = Some c" and i: "i < length (chans w)"
    and n: "nb_bytes (chans w ! i) \<le> length (buf (chans w ! i))"
    and v: "\<not> flush_on_eagain v" "data_bytes_in_queue (queue c) + int (nb_bytes (chans w ! i)) < queue_max_size v"
    and fr: "\<forall>n. fresh (qheap w) (new_cell (env n)) (new_block (env n))"
    and q: "qs p = e # es"
    and part: "0 < written_len (env 2)" "written_len (env 2) < int (length (entry_data e))"
  shows "unicast_send_client v env w i p = None"
proof -
  define bytes where "bytes = take (nb_bytes (chans w ! i)) (buf (chans w ! i))"
  have rep: "queue_rep (qheap w) (queue c) (qs p)" by (rule client_queue_rep [OF inv c])
  have pk: "packets_in_queue (queue c) \<noteq> 0" using rep q by (simp add: queue_rep_def)
  define en where "en = env UNICAST_MULTIPLE_QUEUE_SEND"
  have fre: "fresh (qheap w) (new_cell en) (new_block en)" using fr by (simp add: en_def)
  define f where "f = (\<lambda>h q. unicast_queue_add_data h q bytes (new_cell en) (new_block en))"
  define qs1 where "qs1 = qs(p := qs p @ [(new_cell en, new_block en, bytes)])"
  define es1 where "es1 = es @ [(new_cell en, new_block en, bytes)]"
  obtain w1 q' where w1: "with_queue w p f = Some w1" "clients_inv w1 gs cs qs1" "uclients w1 p = Some (c\<lparr>queue := q'\<rparr>)"
    unfolding f_def qs1_def using with_queue_add [OF inv c fre] by blast
  have q1: "qs1 p = e # es1" by (simp add: qs1_def es1_def q)
  have rep1: "queue_rep (qheap w1) q' (e # es1)"
    using client_queue_rep [OF w1(2,3)] q1 by simp
  have gd: "unicast_queue_get_data (qheap w1) q' = Some (Some (entry_block e, int (length (entry_data e))))"
    by (rule queue_get(1) [OF rep1])
  let ?b = "Queue_buf (entry_block e) (int (length (entry_data e)))"
  have mr: "mem_read (buf (chans w ! i)) 0 (nb_bytes (chans w ! i)) = Some bytes"
    using n by (simp add: mem_read_def bytes_def)
  have "unicast_send_client v env w i p = unicast_send_packets UNICAST_MULTIPLE_QUEUE_SEND v env w1 i p ?b []"
    using c i pk v(2) w1(1,3) gd mr
    by (simp add: unicast_send_client_def rd_def flip: en_def f_def)
  also have "UNICAST_MULTIPLE_QUEUE_SEND = Suc 2" by (simp add: UNICAST_MULTIPLE_QUEUE_SEND_def)
  also have "unicast_send_packets (Suc 2) v env w1 i p ?b [] = None"
  proof -
    have sb: "send_bytes w1 i ?b = Some (entry_data e)"
      using queue_get(2) [OF rep1] by (simp add: send_bytes_def mem_read_def)
    obtain w2 q2 where w2: "with_queue w1 p unicast_queue_remove_data = Some w2" "uclients w2 p = Some (c\<lparr>queue := q2\<rparr>)"
        "queue_rep (qheap w2) q2 es1" "blocks (qheap w2) (entry_block e) = None"
      using with_queue_remove [OF w1(2,3) q1] by auto
    have "packets_in_queue q2 \<noteq> 0" using w2(3) by (simp add: queue_rep_def es1_def)
    moreover have "new_block (env 2) \<noteq> NULL" using fr by (simp add: fresh_def)
    ultimately have "with_queue w2 p (\<lambda>h q. unicast_queue_requeue h q (entry_block e, nat (written_len (env 2)))
        (length (entry_data e) - nat (written_len (env 2))) (new_block (env 2))) = None"
      using w2(2,4) by (simp add: with_queue_def unicast_queue_requeue_def)
    then have "unicast_send_failed v w1 p ?b (entry_data e) (env 2) = None"
      using part v(1) w1(3) w2(1) by (simp add: unicast_send_failed_def Let_def)
    then show ?thesis using sb part(2)
      by (subst unicast_send_packets.simps(2)) (simp add: Let_def)
  qed
  finally show ?thesis .
qed

text \<open>
  When a client is disconnected because its errors last, the client after it in the channel
  does not get this buffer: the code takes the next client from the disconnected one, and then
  goes on to the one after that.
\<close>

theorem unicast_disconnect_skips_next:
  assumes inv: "clients_inv w gs cs qs" and i: "i < length (chans w)" "cs i = [p, p2]" and c: "uclients w p = Some c"
    and n: "0 < nb_bytes (chans w ! i)" "nb_bytes (chans w ! i) \<le> length (buf (chans w ! i))"
    and v: "\<not> flush_on_eagain v" "int (nb_bytes (chans w ! i)) < queue_max_size v"
    and fr: "fresh (qheap w) (new_cell (env p 0)) (new_block (env p 0))" and q: "qs p = []"
    and e: "written_len (env p 0) = -1" "errno (env p 0) \<noteq> last_write_error c" "timed_out v (env p 0) c"
    and fd: "length (fd_info w) = length (pfds w)" "Socket c \<in> set (pfds w)" "p = fd_info w ! find_fd (pfds w) (Socket c)"
  shows "\<exists>w'. unicast_data_send v env w i = Some (w', [(p, [])]) \<and> clients (chans w' ! i) = p2 \<and> uclients w' p2 \<noteq> None"
proof -
  define bytes where "bytes = take (nb_bytes (chans w ! i)) (buf (chans w ! i))"
  have lb: "length bytes = nb_bytes (chans w ! i)" using n by (simp add: bytes_def)
  have ci: "chan_inv w cs" using inv by (simp add: clients_inv_def)
  then have dl: "dll (chan_links w) NULL (clients (chans w ! i)) [p, p2]" "distinct [p, p2]"
    using i unfolding chan_inv_def by auto
  then have cl: "clients (chans w ! i) = p" "p \<noteq> NULL" "p2 \<noteq> NULL" "chan_next c = p2" "p \<noteq> p2"
    using c by (auto simp: chan_links_def)
  have pg: "p \<in> set gs" using inv c unfolding clients_inv_def global_inv_def by blast
  have rep: "queue_rep (qheap w) (queue c) []" using client_queue_rep [OF inv c] q by simp
  have e0: "0 \<le> written_len (env p 0) \<or> written_len (env p 0) = -1 \<and> errno (env p 0) \<noteq> last_write_error c"
    "written_len (env p 0) < int (length bytes)" using e by simp_all
  have room: "int (length bytes) < queue_max_size v" using v(2) lb by simp
  obtain w2 c2 qs2 where w2: "unicast_send_failed v w p Channel_buf bytes (env p 0) = unicast_send_error v w2 p (env p 0)"
     "clients_inv w2 gs cs qs2" "uclients w2 p = Some c2" "timed_out v (env p 0) c2 = timed_out v (env p 0) c"
     "chan_part (c2\<lparr>queue := queue c\<rparr>) = chan_part c" "chans w2 = chans w" "pfds w2 = pfds w" "fd_info w2 = fd_info w"
    using send_failed_channel_queued [OF inv c q e0 v(1) room fr] by blast
  have c2: "Socket c2 = Socket c" "chan_next c2 = p2" using w2(5) cl(4) by (simp_all add: chan_part_def)
  have fd2: "length (fd_info w2) = length (pfds w2)"
    "Socket c \<in> set (pfds w2) \<Longrightarrow> p = fd_info w2 ! find_fd (pfds w2) (Socket c) \<and> p \<in> set gs"
    using fd w2(7,8) pg by simp_all
  obtain w3 where w3: "unicast_close_connection w2 (Socket c) = Some w3"
     "clients_inv w3 (remove1 p gs) (\<lambda>i. remove1 p (cs i)) qs2" "length (chans w3) = length (chans w2)"
    using close_connection_spec [OF w2(2) fd2] fd(2) w2(7) by auto
  have "unicast_send_error v w2 p (env p 0) = Some (w3, p2)"
    using w2(3,4) e(3) c2 w3(1) by (simp add: unicast_send_error_def timed_out_def)
  then have "unicast_send_client v (env p) w i p = Some (w3, p2, [])"
    using c i rep n e w2(1) lb
    by (simp add: unicast_send_client_def rd_def queue_rep_def send_bytes_def mem_read_def Let_def flip: bytes_def)
  moreover have "clients (chans w3 ! i) = p2" "\<exists>c3. uclients w3 p2 = Some c3 \<and> chan_next c3 = NULL"
  proof -
    have "i < length (chans w3)" using i(1) w2(6) w3(3) by simp
    then have "dll (chan_links w3) NULL (clients (chans w3 ! i)) [p2]"
      using w3(2) i(2) cl(5) unfolding clients_inv_def chan_inv_def by auto
    then show "clients (chans w3 ! i) = p2" "\<exists>c3. uclients w3 p2 = Some c3 \<and> chan_next c3 = NULL"
      by (auto simp: chan_links_def)
  qed
  moreover have "unicast_data_send v env w i = unicast_send_clients v env w i p []"
    using i(1) cl(1) by (simp add: unicast_data_send_def rd_def)
  moreover have "unicast_send_clients v env w3 i NULL log = Some (w3, log)" for log
    by (subst unicast_send_clients.simps) simp
  ultimately show ?thesis
    using cl(2,3) by (auto simp: unicast_send_clients.simps [of v env w i p])
qed

subsection \<open>Witnesses\<close>

text \<open>A channel with a buffer of two bytes and one or two clients.\<close>

definition sample_chan :: mumudvb_channel_t where
  "sample_chan = zero_channel\<lparr>buf := [1, 2, 3], nb_bytes := 2, clients := 5, num_clients := 1\<rparr>"

definition sample_client :: "ptr \<Rightarrow> ptr \<Rightarrow> unicast_client_t" where
  "sample_client prev nxt = (new_client 7 prev)\<lparr>chan_ptr := Some 0, next_client := nxt, chan_prev := prev, chan_next := nxt\<rparr>"

definition sample_world :: unicast_world where
  "sample_world = world0\<lparr>uclients := [5 \<mapsto> sample_client NULL NULL], first_client := 5, client_number := 1,
     chans := [sample_chan]\<rparr>"

lemma sample_world_inv: "clients_inv sample_world [5] (\<lambda>i. if i = 0 then [5] else []) (\<lambda>_. [])"
  by (auto simp: clients_inv_def global_inv_def chan_inv_def queues_inv_def sample_world_def world0_def
      sample_chan_def sample_client_def chan_of_def all_links_def chan_links_def new_client_def NULL_def
      entry_cells_def entry_blocks_def)

definition sample_params :: unicast_parameters_t where
  "sample_params = init_unicast_v\<lparr>queue_max_size := 1000\<rparr>"

definition sample_env :: "int \<Rightarrow> nat \<Rightarrow> send_env" where
  "sample_env written n = \<lparr>written_len = written, errno = EAGAIN, tv_sec = 100, new_cell = 20, new_block = 21\<rparr>"


text \<open>The client with one queued packet of two bytes.\<close>

definition queued_world :: unicast_world where
  "queued_world = sample_world\<lparr>qheap := sample_heap,
     uclients := [5 \<mapsto> (sample_client NULL NULL)\<lparr>queue := sample_queue\<rparr>]\<rparr>"

lemma queued_world_inv:
  "clients_inv queued_world [5] (\<lambda>i. if i = 0 then [5] else []) (\<lambda>p. if p = 5 then [(1, 2, [7, 8])] else [])"
  by (auto simp: clients_inv_def global_inv_def chan_inv_def queues_inv_def queued_world_def sample_world_def world0_def
      sample_chan_def sample_client_def chan_of_def all_links_def chan_links_def new_client_def NULL_def
      entry_cells_def entry_blocks_def queue_rep_def sample_heap_def sample_queue_def)

theorem unicast_partial_write_frees_witness:
  "unicast_send_client sample_params (sample_env 1) queued_world 0 5 = None"
proof -
  let ?c = "(sample_client NULL NULL)\<lparr>queue := sample_queue\<rparr>"
  have w: "chans queued_world = [sample_chan]" "buf sample_chan = [1, 2, 3]" "nb_bytes sample_chan = 2"
    "uclients queued_world 5 = Some ?c" "qheap queued_world = sample_heap"
    by (simp_all add: queued_world_def sample_world_def sample_chan_def)
  have f: "\<forall>n. fresh (qheap queued_world) (new_cell (sample_env 1 n)) (new_block (sample_env 1 n))"
    by (simp add: w fresh_def sample_env_def sample_heap_def NULL_def)
  have d: "data_bytes_in_queue (queue ?c) = 2" by (simp add: sample_queue_def)
  show ?thesis
    by (rule unicast_partial_write_frees [OF queued_world_inv w(4), where e = "(1, 2, [7, 8])" and es = "[]"])
       (use f d in \<open>simp_all add: w sample_params_def init_unicast_v_def sample_env_def\<close>)
qed

text \<open>Two clients, the first of which has had errors since time 0.\<close>

definition two_world :: unicast_world where
  "two_world = world0\<lparr>uclients := [5 \<mapsto> (sample_client NULL 6)\<lparr>consecutive_errors := True\<rparr>, 6 \<mapsto> sample_client 5 NULL],
     first_client := 5, client_number := 2, chans := [sample_chan\<lparr>num_clients := 2\<rparr>], pfds := [7], fd_info := [5]\<rparr>"

lemma two_world_inv: "clients_inv two_world [5, 6] (\<lambda>i. if i = 0 then [5, 6] else []) (\<lambda>_. [])"
  by (auto simp: clients_inv_def global_inv_def chan_inv_def queues_inv_def two_world_def world0_def
      sample_chan_def sample_client_def chan_of_def all_links_def chan_links_def new_client_def NULL_def
      entry_cells_def entry_blocks_def)

theorem unicast_disconnect_skips_next_witness:
  "\<exists>w'. unicast_data_send sample_params (\<lambda>_. sample_env (-1)) two_world 0 = Some (w', [(5, [])]) \<and> uclients w' 6 \<noteq> None"
proof -
  let ?c = "(sample_client NULL 6)\<lparr>consecutive_errors := True\<rparr>"
  have w: "chans two_world = [sample_chan\<lparr>num_clients := 2\<rparr>]" "buf sample_chan = [1, 2, 3]" "nb_bytes sample_chan = 2"
    "uclients two_world 5 = Some ?c" "qheap two_world = qheap world0" "pfds two_world = [7]" "fd_info two_world = [5]"
    by (simp_all add: two_world_def sample_chan_def)
  have f: "fresh (qheap two_world) (new_cell (sample_env (-1) 0)) (new_block (sample_env (-1) 0))"
    by (simp add: w fresh_def sample_env_def world0_def NULL_def)
  have t: "timed_out sample_params (sample_env (-1) 0) ?c"
    by (simp add: timed_out_def sample_params_def init_unicast_v_def sample_env_def sample_client_def new_client_def)
  have l: "errno (sample_env (-1) 0) \<noteq> last_write_error ?c" "Socket ?c = 7"
    by (simp_all add: sample_env_def sample_client_def new_client_def EAGAIN_def)
  have "\<exists>w'. unicast_data_send sample_params (\<lambda>_. sample_env (-1)) two_world 0 = Some (w', [(5, [])]) \<and>
     clients (chans w' ! 0) = 6 \<and> uclients w' 6 \<noteq> None"
    by (rule unicast_disconnect_skips_next [OF two_world_inv _ _ w(4)])
       (use f t l in \<open>simp_all add: w sample_params_def init_unicast_v_def sample_env_def\<close>)
  then show ?thesis by blast
qed

end
