(* ===== verification/Hls.thy ===== *)
theory Hls
  imports Unicast_Send Mumu_Strings
begin

text \<open>
  HTTP live streaming, \<^verbatim>\<open>src/src/hls.c\<close>: the stream of each service is written to a file, the chunk;
  at each rotation a new chunk is started, the oldest one is removed and the playlist is written
  anew.

  The state of the file system is a map from paths to contents; a parameter \<open>can\<close> says which paths
  can be opened for writing. A \<^verbatim>\<open>FILE*\<close> is \<open>No_stream\<close>, an open file, or a file that was closed and
  must not be used any more. The character arrays of an entry keep their size \<^verbatim>\<open>LEN_MAX\<close> and lie
  behind each other, so that a name without a final NUL runs into the next array, as in C. Times and
  counters are \<open>u32\<close>. The result \<open>None\<close> is a run without defined behaviour, or the call of \<^verbatim>\<open>exit\<close>
  when the table of entries is full. Locking, the creation of directories, the metrics file and the
  sleep of the periodic task are left out.
\<close>

section \<open>Data\<close>

definition LEN_MAX :: nat where "LEN_MAX = 64"

definition NUL :: char where "NUL = CHR 0x00"

text \<open>A C string in memory: the characters before the first NUL, if there is one.\<close>

definition cstr :: "string \<Rightarrow> string option" where
  "cstr m = (if NUL \<in> set m then Some (takeWhile (\<lambda>c. c \<noteq> NUL) m) else None)"

text \<open>\<^verbatim>\<open>strncpy (dest, src, LEN_MAX)\<close>, and \<^verbatim>\<open>sprintf\<close> into a zeroed array.\<close>

definition strncpy_len :: "string \<Rightarrow> string" where
  "strncpy_len s = take LEN_MAX (s @ replicate LEN_MAX NUL)"

datatype stream_t = No_stream | Open_stream string | Closed_stream

record hls_open_fds_t =
  service_id :: nat
  has_traffic :: bool
  initialized :: bool
  access_time :: u32
  rotate_time :: u32
  sequence :: u32
  need_rotate :: bool
  name :: string
  path :: string
  name_playlist :: string
  filenames :: "string list"
  filenames_num :: nat
  stream :: stream_t

definition zero_entry :: hls_open_fds_t where
  "zero_entry = \<lparr>service_id = 0, has_traffic = False, initialized = False, access_time = 0, rotate_time = 0,
     sequence = 0, need_rotate = False, name = replicate LEN_MAX NUL, path = replicate LEN_MAX NUL,
     name_playlist = replicate LEN_MAX NUL, filenames = [], filenames_num = 0, stream = No_stream\<rparr>"

text \<open>What \<^verbatim>\<open>%s\<close> prints for the three arrays, which are adjacent.\<close>

definition name_str :: "hls_open_fds_t \<Rightarrow> string option" where
  "name_str e = cstr (name e @ path e @ name_playlist e)"

definition path_str :: "hls_open_fds_t \<Rightarrow> string option" where
  "path_str e = cstr (path e @ name_playlist e)"

definition playlist_str :: "hls_open_fds_t \<Rightarrow> string option" where
  "playlist_str e = cstr (name_playlist e)"

type_synonym file_system = "string \<rightharpoonup> u8 list"

definition text_bytes :: "string \<Rightarrow> u8 list" where
  "text_bytes s = map of_char s"

definition file_path :: "string \<Rightarrow> string \<Rightarrow> string" where
  "file_path dir f = dir @ ''/'' @ f"

text \<open>\<^verbatim>\<open>fclose\<close>, \<^verbatim>\<open>fwrite\<close> and the creation of a file.\<close>

definition fclose :: "stream_t \<Rightarrow> unit option" where
  "fclose s = (case s of Open_stream _ \<Rightarrow> Some () | _ \<Rightarrow> None)"

definition fwrite :: "u8 list \<Rightarrow> stream_t \<Rightarrow> file_system \<Rightarrow> file_system option" where
  "fwrite d s fs = (case s of
     Open_stream p \<Rightarrow> Some (case fs p of None \<Rightarrow> fs | Some c \<Rightarrow> fs(p \<mapsto> c @ d))
   | _ \<Rightarrow> None)"

text \<open>\<^verbatim>\<open>sprintf\<close> into an allocated buffer: the text and its final NUL must fit.\<close>

definition sprintf_buf :: "nat \<Rightarrow> string \<Rightarrow> string option" where
  "sprintf_buf cap s = (if length s < cap then Some s else None)"

section \<open>Random access points\<close>

text \<open>
  The flags of the adaptation field as the little-endian branch of \<^verbatim>\<open>af_header_t\<close> declares them:
  the member \<^verbatim>\<open>random_access_indicator\<close> is the second bit from below.
\<close>

definition af_random_access_indicator :: "u8 \<Rightarrow> u8" where
  "af_random_access_indicator b = bf_get b 1 1"

definition hls_iframe_at :: "u8 list \<Rightarrow> nat \<Rightarrow> bool option" where
  "hls_iframe_at b pos = do {
     b3 \<leftarrow> rd b (pos + 3);
     let afc = bf_get b3 4 2;
     rai \<leftarrow> (if afc > 1 then do { f \<leftarrow> rd b (pos + 5); Some (af_random_access_indicator f \<noteq> 0) } else Some False);
     if rai then Some True
     else if afc = 1 then do {
       h0 \<leftarrow> rd b (pos + 4);
       h1 \<leftarrow> rd b (pos + 5);
       let fragment_type = h0 AND 0x1F;
       let nal_type = h1 AND 0x1F;
       let start_bit = h1 AND 0x80;
       Some (((fragment_type = 28 \<or> fragment_type = 29) \<and> nal_type = 5 \<and> start_bit = 128) \<or> fragment_type = 5)}
     else Some False}"

text \<open>The result \<open>Some None\<close> is the code's -1.\<close>

function hls_find_iframe_from :: "u8 list \<Rightarrow> nat \<Rightarrow> nat \<Rightarrow> nat option option" where
  "hls_find_iframe_from b sz pos =
     (if pos < sz then do {
        found \<leftarrow> hls_iframe_at b pos;
        if found then Some (Some pos) else hls_find_iframe_from b sz (pos + TS_PACKET_SIZE)}
      else Some None)"
  by pat_completeness auto
termination by (relation "measure (\<lambda>(_, sz, pos). sz - pos)") (auto simp: ts_sizes)

declare hls_find_iframe_from.simps [simp del]

definition hls_find_iframe :: "u8 list \<Rightarrow> nat \<Rightarrow> nat option option" where
  "hls_find_iframe b sz = hls_find_iframe_from b sz 0"

section \<open>Entries\<close>

text \<open>The entry of the service, else the first free one; \<open>None\<close> is the call of \<^verbatim>\<open>exit\<close>.\<close>

definition hls_entry_find :: "nat \<Rightarrow> hls_open_fds_t list \<Rightarrow> nat option" where
  "hls_entry_find sid fds =
     (case find (\<lambda>i. initialized (fds ! i) \<and> service_id (fds ! i) = sid) [0..<MAX_CHANNELS] of
        Some i \<Rightarrow> Some i
      | None \<Rightarrow> find (\<lambda>i. \<not> initialized (fds ! i)) [0..<MAX_CHANNELS])"

definition chunk_name :: "nat \<Rightarrow> u32 \<Rightarrow> string" where
  "chunk_name sid t = print_u sid @ ''_'' @ print_u (unat t) @ ''.ts''"

definition hls_entry_initialize ::
  "(string \<Rightarrow> bool) \<Rightarrow> mumudvb_channel_t \<Rightarrow> unicast_parameters_t \<Rightarrow> u32 \<Rightarrow> file_system \<Rightarrow>
   (hls_open_fds_t \<times> file_system) option" where
  "hls_entry_initialize can ch v t fs = do {
     let n = hls_rotate_count v + 2;
     let sid = mumudvb_channel_t.service_id ch;
     let e = zero_entry\<lparr>
       filenames_num := n,
       filenames := (replicate n [])[0 := chunk_name sid t],
       path := strncpy_len (hls_storage_dir v),
       name_playlist := strncpy_len (print_u sid @ ''.m3u8''),
       name := strncpy_len (if user_name ch \<noteq> [] then user_name ch else mumudvb_channel_t.name ch)\<rparr>;
     dir \<leftarrow> path_str e;
     let p = file_path dir (filenames e ! 0);
     if can p then
       Some (e\<lparr>stream := Open_stream p, service_id := sid, access_time := t, rotate_time := t, initialized := True\<rparr>,
         fs(p \<mapsto> []))
     else Some (e\<lparr>stream := No_stream\<rparr>, fs)}"

text \<open>The chunks listed in the playlist: all but the open one and the one to remove, oldest first.\<close>

definition hls_playlist_text :: "unicast_parameters_t \<Rightarrow> hls_open_fds_t \<Rightarrow> string" where
  "hls_playlist_text v e =
     ''#EXTM3U'' @ [CHR 0x0A] @ ''#EXT-X-TARGETDURATION:'' @ print_u (hls_rotate_time v) @ [CHR 0x0A] @
     ''#EXT-X-VERSION:3'' @ [CHR 0x0A] @
     ''#EXT-X-MEDIA-SEQUENCE:'' @ print_u (unat (sequence e)) @ [CHR 0x0A] @
     concat (map (\<lambda>x. if filenames e ! x = [] then []
         else ''#EXTINF:'' @ print_u (hls_rotate_time v) @ ''.0,'' @ [CHR 0x0A] @ filenames e ! x @ [CHR 0x0A])
       (rev [1..<filenames_num e - 1]))"

text \<open>The result is whether the code returns 0.\<close>

definition hls_entry_rotate ::
  "(string \<Rightarrow> bool) \<Rightarrow> hls_open_fds_t \<Rightarrow> unicast_parameters_t \<Rightarrow> u32 \<Rightarrow> file_system \<Rightarrow>
   (bool \<times> hls_open_fds_t \<times> file_system) option" where
  "hls_entry_rotate can e v t fs =
     (if \<not> initialized e then Some (False, e, fs)
      else do {
        e \<leftarrow> (if stream e = No_stream then Some e
             else do { _ \<leftarrow> fclose (stream e); Some (e\<lparr>stream := Closed_stream\<rparr>) });
        let e = e\<lparr>filenames := chunk_name (service_id e) t # butlast (filenames e)\<rparr>;
        dir \<leftarrow> path_str e;
        (ok, fs) \<leftarrow>
          (if sequence e \<ge> word_of_nat (filenames_num e) - 3 then do {
             pl \<leftarrow> playlist_str e;
             out \<leftarrow> sprintf_buf (1024 + filenames_num e * (LEN_MAX + 64)) (hls_playlist_text v e);
             Some (if can (file_path dir pl) then (True, fs(file_path dir pl \<mapsto> text_bytes out)) else (False, fs))}
           else Some (True, fs));
        if \<not> ok then Some (False, e, fs)
        else do {
          let p = file_path dir (filenames e ! 0);
          if can p then do {
            let fs = fs(p \<mapsto> []);
            let d = filenames_num e - 1;
            let (e, fs) = (if filenames e ! d \<noteq> []
               then (e\<lparr>filenames := (filenames e)[d := []]\<rparr>, fs(file_path dir (filenames e ! d) := None))
               else (e, fs));
            Some (True, e\<lparr>stream := Open_stream p, rotate_time := t, need_rotate := False, sequence := sequence e + 1\<rparr>, fs)}
          else Some (False, e\<lparr>stream := No_stream\<rparr>, fs)}})"

section \<open>The master playlist\<close>

definition hls_active :: "unicast_parameters_t \<Rightarrow> hls_open_fds_t \<Rightarrow> bool" where
  "hls_active v e \<longleftrightarrow> initialized e \<and> sequence e > 0 \<and> playlist_str e \<noteq> Some [] \<and>
     (\<not> playlist_ignore_dead v \<or> has_traffic e)"

fun hls_master_lines :: "hls_open_fds_t list \<Rightarrow> nat list \<Rightarrow> string option" where
  "hls_master_lines fds [] = Some []"
| "hls_master_lines fds (i # is) = do {
     nm \<leftarrow> name_str (fds ! i);
     pl \<leftarrow> playlist_str (fds ! i);
     rest \<leftarrow> hls_master_lines fds is;
     Some (''#EXTINF:0,'' @ nm @ [CHR 0x0A] @ pl @ [CHR 0x0A] @ rest)}"

text \<open>
  \<^verbatim>\<open>qsort\<close> orders the entries by service id; two initialised entries never have the same one, so the
  order is determined. The result is the new checksum and whether the code returns 0.
\<close>

definition hls_playlist_master ::
  "(string \<Rightarrow> bool) \<Rightarrow> hls_open_fds_t list \<Rightarrow> unicast_parameters_t \<Rightarrow> u32 \<Rightarrow> file_system \<Rightarrow>
   (bool \<times> u32 \<times> file_system) option" where
  "hls_playlist_master can fds v chk fs = do {
     let active = filter (\<lambda>i. hls_active v (fds ! i)) [0..<MAX_CHANNELS];
     let calc = foldl (\<lambda>c i. c + word_of_nat (i + service_id (fds ! i))) 0 active;
     if chk \<noteq> calc then do {
       body \<leftarrow> hls_master_lines fds (sort_key (\<lambda>i. service_id (fds ! i)) active);
       out \<leftarrow> sprintf_buf ((length active + 1) * (LEN_MAX + 16)) (''#EXTM3U'' @ [CHR 0x0A] @ body);
       let p = file_path (hls_storage_dir v) (hls_playlist_name v);
       Some (if can p then (True, calc, fs(p \<mapsto> text_bytes out)) else (False, calc, fs))}
     else Some (True, chk, fs)}"

section \<open>Removing entries\<close>

definition hls_cleanup_files :: "hls_open_fds_t \<Rightarrow> file_system \<Rightarrow> file_system option" where
  "hls_cleanup_files e fs = do {
     _ \<leftarrow> (if stream e = No_stream then Some () else fclose (stream e));
     dir \<leftarrow> path_str e;
     pl \<leftarrow> playlist_str e;
     let fs = foldl (\<lambda>fs f. if f \<noteq> [] then fs(file_path dir f := None) else fs) fs (filenames e);
     Some (if pl \<noteq> [] then fs(file_path dir pl := None) else fs)}"

definition hls_entry_destroy :: "hls_open_fds_t \<Rightarrow> file_system \<Rightarrow> (hls_open_fds_t \<times> file_system) option" where
  "hls_entry_destroy e fs = do {
     fs \<leftarrow> hls_cleanup_files e fs;
     Some (zero_entry, fs)}"

fun hls_array_cleanup :: "hls_open_fds_t list \<Rightarrow> u32 \<Rightarrow> u32 \<Rightarrow> file_system \<Rightarrow> (hls_open_fds_t list \<times> file_system) option" where
  "hls_array_cleanup [] rot cur fs = Some ([], fs)"
| "hls_array_cleanup (e # es) rot cur fs = do {
     (e, fs) \<leftarrow> (if initialized e \<and> access_time e < cur - rot * 3 then hls_entry_destroy e fs else Some (e, fs));
     (es, fs) \<leftarrow> hls_array_cleanup es rot cur fs;
     Some (e # es, fs)}"

section \<open>Writing the stream\<close>

record hls_world =
  hls_fds :: "hls_open_fds_t list"
  files :: file_system
  master_playlist_checksum :: u32
  master_playlist_timestamp :: u32

definition hls_write_entry ::
  "(string \<Rightarrow> bool) \<Rightarrow> hls_open_fds_t \<Rightarrow> mumudvb_channel_t \<Rightarrow> unicast_parameters_t \<Rightarrow> u32 \<Rightarrow> u8 list \<Rightarrow> file_system \<Rightarrow>
   (hls_open_fds_t \<times> file_system) option" where
  "hls_write_entry can e ch v t outbuf fs = do {
     (e, fs) \<leftarrow> (if \<not> initialized e then hls_entry_initialize can ch v t fs else Some (e, fs));
     let e = e\<lparr>access_time := t, has_traffic := mumudvb_channel_t.has_traffic ch\<rparr>;
     (e, outbuf, fs) \<leftarrow>
       (if need_rotate e then do {
          r \<leftarrow> hls_find_iframe outbuf (length outbuf);
          case r of
            None \<Rightarrow> Some (e, outbuf, fs)
          | Some pos \<Rightarrow> do {
              fs \<leftarrow> fwrite (take pos outbuf) (stream e) fs;
              (_, e, fs) \<leftarrow> hls_entry_rotate can e v t fs;
              Some (e\<lparr>need_rotate := False\<rparr>, drop pos outbuf, fs)}}
        else Some (e, outbuf, fs));
     fs \<leftarrow> fwrite outbuf (stream e) fs;
     Some (e, fs)}"

definition hls_worker_main ::
  "bool \<Rightarrow> (string \<Rightarrow> bool) \<Rightarrow> hls_world \<Rightarrow> mumudvb_channel_t \<Rightarrow> unicast_parameters_t \<Rightarrow> u32 \<Rightarrow> hls_world option" where
  "hls_worker_main dont_send_scrambled can w ch v t =
     (if dont_send_scrambled \<and> scrambled_channel ch = HIGHLY_SCRAMBLED \<or>
         playlist_ignore_scrambled_ratio v \<noteq> 0 \<and> playlist_ignore_scrambled_ratio v \<le> ratio_scrambled ch
      then Some w
      else do {
        outbuf \<leftarrow> mem_read (buf ch) 0 (nb_bytes ch);
        i \<leftarrow> hls_entry_find (mumudvb_channel_t.service_id ch) (hls_fds w);
        e \<leftarrow> rd (hls_fds w) i;
        (e, fs) \<leftarrow> hls_write_entry can e ch v t outbuf (files w);
        Some (w\<lparr>hls_fds := (hls_fds w)[i := e], files := fs\<rparr>)})"

definition hls_data_send ::
  "bool \<Rightarrow> (string \<Rightarrow> bool) \<Rightarrow> hls_world \<Rightarrow> mumudvb_channel_t \<Rightarrow> unicast_parameters_t \<Rightarrow> u64 \<Rightarrow> hls_world option" where
  "hls_data_send dont_send_scrambled can w ch v now =
     hls_worker_main dont_send_scrambled can w ch v (ucast (now div 1000000))"

section \<open>The periodic task\<close>

fun hls_rotate_entries ::
  "(string \<Rightarrow> bool) \<Rightarrow> unicast_parameters_t \<Rightarrow> u32 \<Rightarrow> hls_open_fds_t list \<Rightarrow> file_system \<Rightarrow>
   (hls_open_fds_t list \<times> file_system) option" where
  "hls_rotate_entries can v cur [] fs = Some ([], fs)"
| "hls_rotate_entries can v cur (e # es) fs = do {
     (e, fs) \<leftarrow>
       (if initialized e \<and> rotate_time e < cur - word_of_nat (hls_rotate_time v) then
          if \<not> need_rotate e \<and> hls_rotate_iframe v then Some (e\<lparr>need_rotate := True\<rparr>, fs)
          else do { (_, e, fs) \<leftarrow> hls_entry_rotate can e v cur fs; Some (e, fs) }
        else Some (e, fs));
     (es, fs) \<leftarrow> hls_rotate_entries can v cur es fs;
     Some (e # es, fs)}"

text \<open>One round of the loop.\<close>

definition hls_periodic_task ::
  "(string \<Rightarrow> bool) \<Rightarrow> unicast_parameters_t \<Rightarrow> u32 \<Rightarrow> hls_world \<Rightarrow> hls_world option" where
  "hls_periodic_task can v cur w = do {
     (fds, fs) \<leftarrow> hls_rotate_entries can v cur (hls_fds w) (files w);
     let w = w\<lparr>hls_fds := fds, files := fs\<rparr>;
     if master_playlist_timestamp w < cur - word_of_nat (hls_rotate_time v) then do {
       (fds, fs) \<leftarrow> hls_array_cleanup (hls_fds w) (word_of_nat (hls_rotate_time v)) cur (files w);
       (_, chk, fs) \<leftarrow> hls_playlist_master can fds v (master_playlist_checksum w) fs;
       Some (w\<lparr>hls_fds := fds, files := fs, master_playlist_checksum := chk, master_playlist_timestamp := cur\<rparr>)}
     else Some w}"

definition hls_stop :: "unicast_parameters_t \<Rightarrow> hls_world \<Rightarrow> hls_world option" where
  "hls_stop v w = do {
     (fds, fs) \<leftarrow> hls_array_cleanup (hls_fds w) 0 (- 1) (files w);
     Some (w\<lparr>hls_fds := fds,
       files := fs(file_path (hls_storage_dir v) (hls_playlist_name v) := None, file_path (hls_storage_dir v) ''metrics'' := None)\<rparr>)}"

section \<open>Names\<close>

lemma chunk_name_inj: "chunk_name sid a = chunk_name sid b \<longleftrightarrow> a = b"
  by (simp add: chunk_name_def print_u_inj word_unat_eq_iff)

lemma chunk_name_ne [simp]: "chunk_name sid a \<noteq> []"
  by (simp add: chunk_name_def)

lemma chunk_name_not_playlist: "chunk_name sid a \<noteq> x @ ''.m3u8''"
proof
  assume "chunk_name sid a = x @ ''.m3u8''"
  then have "last (chunk_name sid a) = last (x @ ''.m3u8'')" by simp
  then show False by (simp add: chunk_name_def)
qed

lemma file_path_inj [simp]: "file_path d a = file_path d b \<longleftrightarrow> a = b"
  by (simp add: file_path_def)

lemma print_u32_length: "length (print_u (unat (t :: u32))) \<le> 10"
proof -
  have "unat t < 10 ^ 10" using unsigned_less [of t, where ?'a = nat] by simp
  then show ?thesis by (rule print_u_length) simp
qed

section \<open>Searching for a random access point\<close>

lemma hls_iframe_at_safe: "pos + TS_PACKET_SIZE \<le> length b \<Longrightarrow> hls_iframe_at b pos \<noteq> None"
  by (auto simp: hls_iframe_at_def mem_simps ts_sizes Let_def)

lemma hls_find_iframe_from_safe:
  assumes "pos mod TS_PACKET_SIZE = 0" "sz mod TS_PACKET_SIZE = 0" "sz \<le> length b"
  shows "\<exists>r. hls_find_iframe_from b sz pos = Some r \<and>
     (case r of None \<Rightarrow> True | Some p \<Rightarrow> p < sz \<and> p mod TS_PACKET_SIZE = 0 \<and> hls_iframe_at b p = Some True)"
  using assms
proof (induction b sz pos rule: hls_find_iframe_from.induct)
  case (1 b sz pos)
  show ?case
  proof (cases "pos < sz")
    case True
    obtain a c where ac: "pos = TS_PACKET_SIZE * a" "sz = TS_PACKET_SIZE * c" using 1 by (auto simp: mod_eq_0_iff_dvd dvd_def)
    with True have "a + 1 \<le> c" by simp
    then have "TS_PACKET_SIZE * (a + 1) \<le> TS_PACKET_SIZE * c" by (rule mult_le_mono2)
    then have "pos + TS_PACKET_SIZE \<le> length b" using ac 1 by simp
    then obtain f where f: "hls_iframe_at b pos = Some f" using hls_iframe_at_safe by blast
    show ?thesis
    proof (cases f)
      case True
      then show ?thesis using \<open>pos < sz\<close> f 1 by (subst hls_find_iframe_from.simps) simp
    next
      case False
      have "(pos + TS_PACKET_SIZE) mod TS_PACKET_SIZE = 0" using 1 by simp
      from "1.IH" [OF True f] this False 1 obtain r where
        "hls_find_iframe_from b sz (pos + TS_PACKET_SIZE) = Some r"
        "case r of None \<Rightarrow> True | Some p \<Rightarrow> p < sz \<and> p mod TS_PACKET_SIZE = 0 \<and> hls_iframe_at b p = Some True" by blast
      then show ?thesis using True False f by (subst hls_find_iframe_from.simps) simp
    qed
  qed (subst hls_find_iframe_from.simps, simp)
qed

lemma hls_find_iframe_safe:
  "length b mod TS_PACKET_SIZE = 0 \<Longrightarrow> \<exists>r. hls_find_iframe b (length b) = Some r \<and> (\<forall>p. r = Some p \<longrightarrow> p < length b)"
  using hls_find_iframe_from_safe [of 0 "length b" b] by (fastforce simp: hls_find_iframe_def)

text \<open>
  The declared order of the flags is the reverse of the stream's: a packet whose random access flag
  (the second bit from above) is set, and with it no other flag, is not recognised, and one that
  only announces private data is.
\<close>

lemma hls_rai_misread:
  assumes "length b = TS_PACKET_SIZE" "bf_get (b ! 3) 4 2 > 1"
  shows "b ! 5 = 0x40 \<Longrightarrow> hls_iframe_at b 0 = Some False" "b ! 5 = 0x02 \<Longrightarrow> hls_iframe_at b 0 = Some True"
  using assms by (auto simp: hls_iframe_at_def mem_simps ts_sizes Let_def af_random_access_indicator_def bf_get_def)

section \<open>Chunks\<close>

text \<open>
  An entry that writes in directory \<open>D\<close> and keeps the chunks that were started at the times \<open>ts\<close>,
  the open one first. The last name, of the chunk to remove, is empty between two rotations.
\<close>

definition hls_rep :: "hls_open_fds_t \<Rightarrow> file_system \<Rightarrow> string \<Rightarrow> u32 list \<Rightarrow> bool" where
  "hls_rep e fs D ts \<longleftrightarrow> initialized e \<and> path_str e = Some D \<and> playlist_str e = Some (print_u (service_id e) @ ''.m3u8'') \<and>
     ts \<noteq> [] \<and> distinct ts \<and> length ts < filenames_num e \<and>
     filenames e = map (chunk_name (service_id e)) ts @ replicate (filenames_num e - length ts) [] \<and>
     stream e = Open_stream (file_path D (chunk_name (service_id e) (hd ts))) \<and>
     (\<forall>t \<in> set ts. fs (file_path D (chunk_name (service_id e) t)) \<noteq> None)"

definition chunks :: "hls_open_fds_t \<Rightarrow> file_system \<Rightarrow> string \<Rightarrow> u32 list \<Rightarrow> u8 list list" where
  "chunks e fs D ts = map (\<lambda>t. the (fs (file_path D (chunk_name (service_id e) t)))) ts"

text \<open>What one write promises for the contents of the kept chunks.\<close>

definition hls_spec_write :: "nat \<Rightarrow> nat option \<Rightarrow> u8 list \<Rightarrow> u8 list list \<Rightarrow> u8 list list" where
  "hls_spec_write n at d cs = (case at of
     None \<Rightarrow> (hd cs @ d) # tl cs
   | Some p \<Rightarrow> take (n - 1) (drop p d # (hd cs @ take p d) # tl cs))"

lemma fwrite_rep:
  assumes r: "hls_rep e fs D ts"
  shows "\<exists>fs'. fwrite d (stream e) fs = Some fs' \<and> hls_rep e fs' D ts \<and>
     chunks e fs' D ts = (hd (chunks e fs D ts) @ d) # tl (chunks e fs D ts)"
proof -
  obtain t us where ts: "ts = t # us" using r by (cases ts) (auto simp: hls_rep_def)
  obtain c where c: "fs (file_path D (chunk_name (service_id e) t)) = Some c" using r ts by (auto simp: hls_rep_def)
  have "fwrite d (stream e) fs = Some (fs(file_path D (chunk_name (service_id e) t) \<mapsto> c @ d))"
    using r ts c by (simp add: fwrite_def hls_rep_def)
  moreover have "hls_rep e (fs(file_path D (chunk_name (service_id e) t) \<mapsto> c @ d)) D ts"
    using r by (simp add: hls_rep_def)
  moreover have "t \<notin> set us" using r ts by (simp add: hls_rep_def)
  then have "chunks e (fs(file_path D (chunk_name (service_id e) t) \<mapsto> c @ d)) D ts =
      (hd (chunks e fs D ts) @ d) # tl (chunks e fs D ts)"
    using c ts by (auto simp: chunks_def chunk_name_inj)
  ultimately show ?thesis by blast
qed

subsection \<open>The playlist fits its buffer\<close>

lemma length_concat_le: "(\<And>x. x \<in> set xs \<Longrightarrow> length (f x) \<le> k) \<Longrightarrow> length (concat (map f xs)) \<le> k * length xs"
proof (induction xs)
  case (Cons x xs)
  have "length (f x) \<le> k" "length (concat (map f xs)) \<le> k * length xs" using Cons by auto
  then show ?case by simp
qed simp

lemma rep_filename_length:
  assumes r: "filenames e = map (chunk_name (service_id e)) ts @ replicate m []" and sid: "service_id e < 65536"
    and x: "x < length (filenames e)"
  shows "length (filenames e ! x) \<le> 24"
proof (cases "x < length ts")
  case True
  have "length (print_u (service_id e)) \<le> 5" by (rule print_u_length) (use sid in simp_all)
  then show ?thesis using r True print_u32_length [of "ts ! x"] by (simp add: nth_append chunk_name_def)
next
  case False
  then show ?thesis using r x by (simp add: nth_append)
qed

lemma hls_playlist_fits:
  assumes r: "filenames e = map (chunk_name (service_id e)) ts @ replicate m []" and l: "length (filenames e) = filenames_num e"
    and sid: "service_id e < 65536" and rt: "hls_rotate_time v < 10 ^ 10"
  shows "sprintf_buf (1024 + filenames_num e * (LEN_MAX + 64)) (hls_playlist_text v e) = Some (hls_playlist_text v e)"
proof -
  let ?f = "\<lambda>x. if filenames e ! x = [] then []
     else ''#EXTINF:'' @ print_u (hls_rotate_time v) @ ''.0,'' @ [CHR 0x0A] @ filenames e ! x @ [CHR 0x0A]"
  have rl: "length (print_u (hls_rotate_time v)) \<le> 10" by (rule print_u_length) (use rt in simp_all)
  have "length (?f x) \<le> 128" if "x \<in> set (rev [1..<filenames_num e - 1])" for x
  proof -
    have "x < length (filenames e)" using that l by auto
    from rep_filename_length [OF r sid this] show ?thesis using rl by simp
  qed
  then have "length (concat (map ?f (rev [1..<filenames_num e - 1]))) \<le> 128 * length (rev [1..<filenames_num e - 1])"
    by (rule length_concat_le)
  also have "\<dots> \<le> 128 * filenames_num e" by simp
  finally show ?thesis
    using rl print_u32_length [of "sequence e"] by (simp add: sprintf_buf_def hls_playlist_text_def LEN_MAX_def)
qed

subsection \<open>Rotation\<close>

text \<open>The names after the shift, and the entry that the rotation leaves.\<close>

lemma butlast_names:
  assumes "length ts < n"
  shows "c t # butlast (map c ts @ replicate (n - length ts) []) = map c (t # ts) @ replicate (n - 1 - length ts) []"
  using assms by (cases "n - length ts") (simp_all add: butlast_append replicate_append_same [symmetric])

lemma last_name:
  assumes "length ts < n" "ts \<noteq> []"
  shows "(map c (t # ts) @ replicate (n - 1 - length ts) []) ! (n - 1) = (if length ts = n - 1 then c (last ts) else [])"
  using assms by (auto simp: nth_append last_conv_nth nth_Cons' hd_conv_nth)

lemma replicate_update: "(replicate k x)[j := x] = replicate k x"
  by (cases "j < k") (auto intro!: nth_equalityI simp: nth_list_update)

lemma names_removed:
  assumes l: "length ts < n" "ts \<noteq> []"
  shows "(map c (t # ts) @ replicate (n - 1 - length ts) [])[n - 1 := []] =
     map c (take (n - 1) (t # ts)) @ replicate (n - length (take (n - 1) (t # ts))) []"
proof (cases "length ts = n - 1")
  case True
  obtain us u where ts: "ts = us @ [u]" using l by (metis rev_exhaust)
  then have n: "n = Suc (Suc (length us))" using True l by simp
  show ?thesis by (simp add: ts n list_update_append)
next
  case False
  then have "length ts < n - 1" using l by simp
  then obtain k where "n - 1 = Suc (length ts + k)" using less_imp_Suc_add by blast
  then have k: "n = length ts + 2 + k" by simp
  have "(A @ replicate (Suc k) [])[length A + k := []] = A @ replicate (Suc k) []" for A :: "'b list list"
    by (simp only: list_update_append replicate_update) simp
  from this [of "map c (t # ts)"] show ?thesis by (simp add: k)
qed

lemma hls_entry_rotate_ok:
  assumes r: "hls_rep e fs D ts" and t: "t \<notin> set ts" and can: "\<forall>p. can p"
    and sid: "service_id e < 65536" and rt: "hls_rotate_time v < 10 ^ 10"
  shows "\<exists>e' fs'. hls_entry_rotate can e v t fs = Some (True, e', fs') \<and>
     hls_rep e' fs' D (take (filenames_num e - 1) (t # ts)) \<and>
     chunks e' fs' D (take (filenames_num e - 1) (t # ts)) = take (filenames_num e - 1) ([] # chunks e fs D ts) \<and>
     filenames_num e' = filenames_num e \<and> service_id e' = service_id e \<and> \<not> need_rotate e' \<and> rotate_time e' = t \<and>
     sequence e' = sequence e + 1"
proof -
  let ?n = "filenames_num e" let ?sid = "service_id e" let ?c = "chunk_name ?sid"
  define us where "us = take (?n - 1) (t # ts)"
  define e1 where "e1 = e\<lparr>stream := Closed_stream, filenames := map ?c (t # ts) @ replicate (?n - 1 - length ts) []\<rparr>"
  define fs1 where "fs1 = (if sequence e \<ge> word_of_nat ?n - 3
    then fs(file_path D (print_u ?sid @ ''.m3u8'') \<mapsto> text_bytes (hls_playlist_text v e1)) else fs)"
  define fs2 where "fs2 = fs1(file_path D (?c t) \<mapsto> [])"
  define fs3 where "fs3 = (if length ts = ?n - 1 then fs2(file_path D (?c (last ts)) := None) else fs2)"
  define e3 where "e3 = e1\<lparr>filenames := map ?c us @ replicate (?n - length us) [],
    stream := Open_stream (file_path D (?c t)), rotate_time := t, need_rotate := False, sequence := sequence e + 1\<rparr>"
  have R: "initialized e" "path_str e = Some D" "playlist_str e = Some (print_u ?sid @ ''.m3u8'')" "ts \<noteq> []" "distinct ts"
    "length ts < ?n" "filenames e = map ?c ts @ replicate (?n - length ts) []"
    "stream e = Open_stream (file_path D (?c (hd ts)))" "\<And>u. u \<in> set ts \<Longrightarrow> fs (file_path D (?c u)) \<noteq> None"
    using r unfolding hls_rep_def by blast+
  have l1: "length (filenames e1) = filenames_num e1" using R(6) by (simp add: e1_def)
  have pp: "path_str e1 = Some D" "playlist_str e1 = Some (print_u ?sid @ ''.m3u8'')"
    using R(2,3) by (simp_all add: e1_def path_str_def playlist_str_def)
  have fit: "sprintf_buf (1024 + filenames_num e1 * (LEN_MAX + 64)) (hls_playlist_text v e1) = Some (hls_playlist_text v e1)"
    by (rule hls_playlist_fits [where ts = "t # ts" and m = "?n - 1 - length ts", OF _ l1 _ rt]) (use sid in \<open>simp_all add: e1_def\<close>)
  have step1: "e\<lparr>stream := Closed_stream, filenames := ?c t # butlast (filenames e)\<rparr> = e1"
    using butlast_names [OF R(6), of ?c t] by (simp add: e1_def R(7))
  have f1: "filenames e1 = map ?c (t # ts) @ replicate (?n - 1 - length ts) []" by (simp add: e1_def)
  have names: "filenames e1 ! 0 = ?c t" by (simp add: e1_def)
  have lastn: "filenames e1 ! (?n - 1) = (if length ts = ?n - 1 then ?c (last ts) else [])"
    unfolding f1 by (rule last_name [OF R(6,4)])
  have rem: "(filenames e1)[?n - 1 := []] = map ?c us @ replicate (?n - length us) []"
    unfolding f1 us_def by (rule names_removed [OF R(6,4)])
  have keep: "length ts \<noteq> ?n - 1 \<Longrightarrow> filenames e1 = map ?c us @ replicate (?n - length us) []"
    using R(6) by (simp add: e1_def us_def)
  have fn: "filenames_num e1 = ?n" "sequence e1 = sequence e" "service_id e1 = ?sid" "service_id e = ?sid" by (simp_all add: e1_def)
  have E: "hls_entry_rotate can e v t fs = Some (True, e3, fs3)"
    using R(1,8) can fit pp(1) names lastn rem keep step1 fn
    by (simp add: hls_entry_rotate_def fclose_def pp Let_def fs1_def fs2_def fs3_def e3_def)
  have e3: "path_str e3 = Some D" "playlist_str e3 = Some (print_u ?sid @ ''.m3u8'')" "service_id e3 = ?sid" "filenames_num e3 = ?n"
    "initialized e3" using pp R(1) by (simp_all add: e3_def e1_def path_str_def playlist_str_def)
  have us: "us \<noteq> []" "distinct us" "length us < ?n" "hd us = t"
    using R(4-6) t by (cases ts; cases ?n; simp add: us_def; fail)+
  have inus: "u = t \<or> (u \<in> set ts \<and> \<not> (length ts = ?n - 1 \<and> u = last ts))" if "u \<in> set us" for u
  proof (cases "length ts = ?n - 1")
    case True
    obtain vs w where ts: "ts = vs @ [w]" using R(4) by (metis rev_exhaust)
    have "us = t # vs" using True R(6) ts by (simp add: us_def take_Cons')
    then show ?thesis using that R(5) ts by auto
  next
    case False
    then have "us = t # ts" using R(6) by (simp add: us_def)
    then show ?thesis using that False by auto
  qed
  have look: "fs3 (file_path D (?c u)) = (if u = t then Some [] else fs (file_path D (?c u)))" if "u \<in> set us" for u
    using inus [OF that] t R(4) by (auto simp: fs3_def fs2_def fs1_def chunk_name_inj chunk_name_not_playlist)
  have "hls_rep e3 fs3 D us"
    using e3 us look inus R(9) unfolding hls_rep_def by (auto simp: e3_def)
  moreover have "chunks e3 fs3 D us = take (?n - 1) ([] # chunks e fs D ts)"
  proof -
    have "chunks e3 fs3 D us = map (\<lambda>u. the (if u = t then Some [] else fs (file_path D (?c u)))) us"
      using look by (simp add: chunks_def e3(3))
    also have "\<dots> = take (?n - 1) (map (\<lambda>u. the (if u = t then Some [] else fs (file_path D (?c u)))) (t # ts))"
      by (simp only: us_def take_map)
    also have "map (\<lambda>u. the (if u = t then Some [] else fs (file_path D (?c u)))) (t # ts) = [] # chunks e fs D ts"
      using t by (auto simp: chunks_def)
    finally show ?thesis .
  qed
  ultimately show ?thesis using E e3 unfolding us_def by (auto simp: e3_def)
qed

subsection \<open>Writing\<close>

lemma hls_rep_upd:
  "hls_rep (e\<lparr>access_time := a, has_traffic := b\<rparr>) fs D ts = hls_rep e fs D ts"
  "hls_rep (e\<lparr>need_rotate := c\<rparr>) fs D ts = hls_rep e fs D ts"
  "chunks (e\<lparr>access_time := a, has_traffic := b\<rparr>) fs D ts = chunks e fs D ts"
  "chunks (e\<lparr>need_rotate := c\<rparr>) fs D ts = chunks e fs D ts"
  by (simp_all add: hls_rep_def path_str_def playlist_str_def chunks_def)


text \<open>A new entry writes its first chunk, when the directory name fits its array.\<close>

lemma cstr_strncpy_len: "length s < LEN_MAX \<Longrightarrow> NUL \<notin> set s \<Longrightarrow> cstr (strncpy_len s @ x) = Some s"
proof -
  assume a: "length s < LEN_MAX" "NUL \<notin> set s"
  then obtain k where k: "LEN_MAX - length s = Suc k" by (cases "LEN_MAX - length s") auto
  have "strncpy_len s = s @ replicate (LEN_MAX - length s) NUL" using a(1) by (simp add: strncpy_len_def min_absorb2)
  then have e: "strncpy_len s @ x = s @ NUL # (replicate k NUL @ x)" using k by simp
  have "takeWhile (\<lambda>c. c \<noteq> NUL) (strncpy_len s @ x) = s"
    unfolding e by (subst takeWhile_append2) (use a(2) in auto)
  then show ?thesis unfolding cstr_def using e by simp
qed

lemma playlist_name_fits:
  "n < 65536 \<Longrightarrow> cstr (strncpy_len (print_u n @ ''.m3u8'') @ x) = Some (print_u n @ ''.m3u8'')"
proof -
  assume n: "n < 65536"
  have "length (print_u n) \<le> 5" by (rule print_u_length) (use n in simp_all)
  moreover have "NUL \<notin> set (print_u n)"
  proof
    assume "NUL \<in> set (print_u n)"
    then have "is_digit NUL" using print_u_digits by blast
    then show False by (simp add: is_digit_def NUL_def)
  qed
  ultimately show ?thesis by (intro cstr_strncpy_len) (simp_all add: LEN_MAX_def NUL_def)
qed

lemma hls_entry_initialize_ok:
  assumes can: "\<forall>p. can p" and sid: "mumudvb_channel_t.service_id ch < 65536"
    and dir: "length (hls_storage_dir v) < LEN_MAX" "NUL \<notin> set (hls_storage_dir v)"
  shows "\<exists>e' fs'. hls_entry_initialize can ch v t fs = Some (e', fs') \<and>
     hls_rep e' fs' (hls_storage_dir v) [t] \<and> chunks e' fs' (hls_storage_dir v) [t] = [[]] \<and>
     service_id e' = mumudvb_channel_t.service_id ch"
proof -
  have pl: "cstr (strncpy_len (print_u (mumudvb_channel_t.service_id ch) @ ''.m3u8'')) =
      Some (print_u (mumudvb_channel_t.service_id ch) @ ''.m3u8'')"
    using playlist_name_fits [OF sid, of "[]"] by simp
  show ?thesis
    using can cstr_strncpy_len [OF dir]
    by (auto simp: hls_entry_initialize_def Let_def path_str_def playlist_str_def hls_rep_def chunks_def pl)
qed

section \<open>A failed rotation\<close>

text \<open>
  When the playlist cannot be opened, the rotation returns with the chunk closed and the closed
  stream kept: the next data of the service is written to a closed stream, and the next rotation
  closes it a second time. Both are undefined.
\<close>

theorem hls_rotate_failure:
  assumes r: "hls_rep e fs D ts" and seq: "sequence e \<ge> word_of_nat (filenames_num e) - 3"
    and can: "\<not> can (file_path D (print_u (service_id e) @ ''.m3u8''))"
    and sid: "service_id e < 65536" and rt: "hls_rotate_time v < 10 ^ 10"
  shows "\<exists>e'. hls_entry_rotate can e v t fs = Some (False, e', fs) \<and>
     (\<forall>can' ch t' d. hls_write_entry can' e' ch v t' d fs = None) \<and>
     (\<forall>can' t'. hls_entry_rotate can' e' v t' fs = None)"
proof -
  let ?sid = "service_id e" let ?c = "chunk_name ?sid" let ?n = "filenames_num e"
  define e1 where "e1 = e\<lparr>stream := Closed_stream, filenames := map ?c (t # ts) @ replicate (?n - 1 - length ts) []\<rparr>"
  have R: "initialized e" "path_str e = Some D" "playlist_str e = Some (print_u ?sid @ ''.m3u8'')"
    "length ts < ?n" "filenames e = map ?c ts @ replicate (?n - length ts) []"
    "stream e = Open_stream (file_path D (?c (hd ts)))" using r unfolding hls_rep_def by blast+
  have l1: "length (filenames e1) = filenames_num e1" using R(4) by (simp add: e1_def)
  have fit: "sprintf_buf (1024 + filenames_num e1 * (LEN_MAX + 64)) (hls_playlist_text v e1) = Some (hls_playlist_text v e1)"
    by (rule hls_playlist_fits [where ts = "t # ts" and m = "?n - 1 - length ts", OF _ l1 _ rt]) (use sid in \<open>simp_all add: e1_def\<close>)
  have step1: "e\<lparr>stream := Closed_stream, filenames := ?c t # butlast (filenames e)\<rparr> = e1"
    using butlast_names [OF R(4), of ?c t] by (simp add: e1_def R(5))
  have pp: "path_str e1 = Some D" "playlist_str e1 = Some (print_u ?sid @ ''.m3u8'')"
    using R(2,3) by (simp_all add: e1_def path_str_def playlist_str_def)
  have e1: "initialized e1" "stream e1 = Closed_stream" "filenames_num e1 = ?n" "sequence e1 = sequence e"
    using R(1) by (simp_all add: e1_def)
  have "hls_entry_rotate can e v t fs = Some (False, e1, fs)"
    using R(1,6) seq can fit pp e1 step1 by (simp add: hls_entry_rotate_def fclose_def Let_def)
  moreover have "hls_write_entry can' e1 ch v t' d fs = None" for can' ch t' d
    using e1 by (auto simp: hls_write_entry_def fwrite_def Let_def split: option.splits Option.bind_split)
  moreover have "hls_entry_rotate can' e1 v t' fs = None" for can' t'
    using e1 by (simp add: hls_entry_rotate_def fclose_def)
  ultimately show ?thesis by blast
qed

section \<open>The size of the master playlist\<close>

lemma hls_master_lines_length:
  assumes "\<And>i. i \<in> set is \<Longrightarrow> \<exists>nm pl. name_str (fds ! i) = Some nm \<and> playlist_str (fds ! i) = Some pl \<and> length nm + length pl = k"
  shows "\<exists>s. hls_master_lines fds is = Some s \<and> length s = (12 + k) * length is"
  using assms
proof (induction "is")
  case (Cons i "is")
  obtain nm pl where n: "name_str (fds ! i) = Some nm" "playlist_str (fds ! i) = Some pl" "length nm + length pl = k"
    using Cons.prems by force
  obtain s where s: "hls_master_lines fds is = Some s" "length s = (12 + k) * length is" using Cons by force
  show ?case using n s by simp
qed simp

text \<open>
  The buffer of the master playlist has 80 bytes for each channel and as many for the header,
  but a channel whose name fills its array takes up to 85 bytes: with 14 such channels the playlist
  still fits, with 15 or more it is written past the end of the buffer.
\<close>

theorem hls_master_overflow:
  assumes act: "\<And>i. i < MAX_CHANNELS \<Longrightarrow> hls_active v (fds ! i) \<Longrightarrow>
      \<exists>nm pl. name_str (fds ! i) = Some nm \<and> playlist_str (fds ! i) = Some pl \<and> length nm = 63 \<and> length pl = 10"
    and chk: "chk \<noteq> foldl (\<lambda>c i. c + word_of_nat (i + service_id (fds ! i))) 0 (filter (\<lambda>i. hls_active v (fds ! i)) [0..<MAX_CHANNELS])"
  shows "hls_playlist_master can fds v chk fs = None \<longleftrightarrow> 15 \<le> length (filter (\<lambda>i. hls_active v (fds ! i)) [0..<MAX_CHANNELS])"
proof -
  let ?active = "filter (\<lambda>i. hls_active v (fds ! i)) [0..<MAX_CHANNELS]"
  let ?s = "sort_key (\<lambda>i. service_id (fds ! i)) ?active"
  have "\<exists>nm pl. name_str (fds ! i) = Some nm \<and> playlist_str (fds ! i) = Some pl \<and> length nm + length pl = 73" if "i \<in> set ?s" for i
    using act [of i] that by fastforce
  from hls_master_lines_length [OF this] obtain s where
    s: "hls_master_lines fds ?s = Some s" "length s = (12 + 73) * length ?s" by blast
  then have l: "length s = 85 * length ?active" by simp
  show ?thesis
    using s(1) l chk by (auto simp: hls_playlist_master_def sprintf_buf_def Let_def LEN_MAX_def split: if_splits)
qed

section \<open>Witnesses\<close>

definition sample_hls_params :: unicast_parameters_t where
  "sample_hls_params = init_unicast_v"

definition sample_hls_channel :: mumudvb_channel_t where
  "sample_hls_channel = zero_channel\<lparr>mumudvb_channel_t.service_id := 5\<rparr>"

text \<open>An entry whose rotation is due, with one chunk.\<close>

definition sample_entry :: hls_open_fds_t where
  "sample_entry = zero_entry\<lparr>initialized := True, service_id := 5, path := strncpy_len ''/tmp'',
     name_playlist := strncpy_len (print_u 5 @ ''.m3u8''), filenames_num := 4,
     filenames := [chunk_name 5 100, [], [], []], stream := Open_stream (file_path ''/tmp'' (chunk_name 5 100)),
     need_rotate := True, sequence := 1\<rparr>"

definition sample_files :: file_system where
  "sample_files = [file_path ''/tmp'' (chunk_name 5 100) \<mapsto> [1, 2]]"

lemma sample_entry_rep: "hls_rep sample_entry sample_files ''/tmp'' [100]"
proof -
  have "cstr (strncpy_len ''/tmp'' @ x) = Some ''/tmp''" for x
    by (rule cstr_strncpy_len) (simp_all add: LEN_MAX_def NUL_def)
  moreover have "cstr (strncpy_len (print_u 5 @ ''.m3u8'')) = Some (print_u 5 @ ''.m3u8'')"
    using playlist_name_fits [of 5 "[]"] by simp
  ultimately show ?thesis
    by (simp add: hls_rep_def sample_entry_def sample_files_def path_str_def playlist_str_def zero_entry_def numeral_eq_Suc)
qed

text \<open>A packet of a random access point, as the program recognises it.\<close>

definition sample_iframe :: "u8 list" where
  "sample_iframe = [0x47, 0, 0, 0x30, 1, 2] @ replicate 182 0"


theorem hls_rotate_failure_witness:
  "\<exists>e'. hls_entry_rotate (\<lambda>_. False) sample_entry sample_hls_params 200 sample_files = Some (False, e', sample_files) \<and>
     (\<forall>can' ch t' d. hls_write_entry can' e' ch sample_hls_params t' d sample_files = None) \<and>
     (\<forall>can' t'. hls_entry_rotate can' e' sample_hls_params t' sample_files = None)"
  by (rule hls_rotate_failure [OF sample_entry_rep])
    (simp_all add: sample_entry_def sample_hls_params_def init_unicast_v_def)

text \<open>Fifteen channels with names of 63 characters.\<close>

definition long_entry :: hls_open_fds_t where
  "long_entry = zero_entry\<lparr>initialized := True, sequence := 1, service_id := 50000,
     name := strncpy_len (replicate 63 CHR ''n''), name_playlist := strncpy_len (print_u 50000 @ ''.m3u8'')\<rparr>"

definition long_fds :: "hls_open_fds_t list" where
  "long_fds = map (\<lambda>i. if i < 15 then long_entry else zero_entry) [0..<MAX_CHANNELS]"

theorem hls_master_overflow_witness:
  "\<exists>chk. hls_playlist_master (\<lambda>_. True) long_fds sample_hls_params chk Map.empty = None"
proof -
  let ?calc = "foldl (\<lambda>c i. c + word_of_nat (i + service_id (long_fds ! i))) (0 :: u32)
    (filter (\<lambda>i. hls_active sample_hls_params (long_fds ! i)) [0..<MAX_CHANNELS])"
  have nth: "i < MAX_CHANNELS \<Longrightarrow> long_fds ! i = (if i < 15 then long_entry else zero_entry)" for i by (simp add: long_fds_def)
  have nm: "name_str long_entry = Some (replicate 63 CHR ''n'')"
    unfolding name_str_def long_entry_def using cstr_strncpy_len [of "replicate 63 CHR ''n''"] by (simp add: LEN_MAX_def NUL_def)
  have pl: "playlist_str long_entry = Some (print_u 50000 @ ''.m3u8'')"
    using playlist_name_fits [of 50000 "[]"] by (simp add: playlist_str_def long_entry_def)
  have p5: "length (print_u 50000) = 5" by (simp add: print_u.simps)
  have act: "hls_active sample_hls_params long_entry" "\<not> hls_active sample_hls_params zero_entry"
    using pl by (simp_all add: hls_active_def long_entry_def zero_entry_def sample_hls_params_def init_unicast_v_def)
  have "filter (\<lambda>i. hls_active sample_hls_params (long_fds ! i)) [0..<MAX_CHANNELS] = filter (\<lambda>i. i < 15) [0..<MAX_CHANNELS]"
    by (rule filter_cong) (use nth act in auto)
  also have "length \<dots> = 15" by (simp add: MAX_CHANNELS_def upt_conv_Cons_Cons upt_rec)
  finally have l: "15 \<le> length (filter (\<lambda>i. hls_active sample_hls_params (long_fds ! i)) [0..<MAX_CHANNELS])" by simp
  have "hls_playlist_master (\<lambda>_. True) long_fds sample_hls_params (?calc + 1) Map.empty = None \<longleftrightarrow>
      15 \<le> length (filter (\<lambda>i. hls_active sample_hls_params (long_fds ! i)) [0..<MAX_CHANNELS])"
    by (rule hls_master_overflow) (use nth act nm pl p5 in \<open>auto split: if_splits\<close>)
  with l show ?thesis by blast
qed

end
