(* ===== verification/Output.thy ===== *)
theory Output
  imports Hls
begin

text \<open>
  The way of a packet out of the program: \<^verbatim>\<open>buffer_func\<close> and \<^verbatim>\<open>send_func\<close> of
  \<^verbatim>\<open>src/src/mumudvb_common.c\<close>, the RTP header of \<^verbatim>\<open>src/src/rtp.c\<close>, and the polling of file
  descriptors. Packets are collected in the buffer of the channel; a full buffer is sent as one
  datagram to the multicast group, to the HTTP clients and to the chunk of the channel.

  The datagrams that \<^verbatim>\<open>sendudp\<close> and \<^verbatim>\<open>sendudp6\<close> put on the wire are listed in the world, with the
  socket. The RTP header and the buffer are two adjacent arrays that are sent together. The branch
  of \<^verbatim>\<open>buffer_func\<close> for software descrambling is in the theory of the ring buffer.
\<close>

section \<open>The RTP header\<close>

definition put_bytes :: "u8 list \<Rightarrow> (nat \<times> u8) list \<Rightarrow> u8 list option" where
  "put_bytes b xs = foldl (\<lambda>b (i, x). b \<bind> (\<lambda>b. wr b i x)) (Some b) xs"

text \<open>\<open>r\<close> are the results of \<^verbatim>\<open>rand() % 256\<close>.\<close>

definition init_rtp_header :: "(nat \<Rightarrow> u8) \<Rightarrow> mumudvb_channel_t \<Rightarrow> mumudvb_channel_t option" where
  "init_rtp_header r ch = do {
     h \<leftarrow> put_bytes (buf_with_rtp_header ch)
       [(0, 128), (1, 33), (2, 0), (3, 0), (4, 0), (5, 0), (6, 0), (7, 0), (8, r 0), (9, r 1), (10, r 2), (11, r 3)];
     Some (ch\<lparr>buf_with_rtp_header := h\<rparr>)}"

definition rtp_timestamp :: "u64 \<Rightarrow> u32" where
  "rtp_timestamp time =
     ucast (ucast (ucast (90000 * (time div 1000000)) :: u32) + (9 * (time mod 1000000)) div 100 :: u64)"

definition rtp_update_sequence_number :: "mumudvb_channel_t \<Rightarrow> u64 \<Rightarrow> mumudvb_channel_t option" where
  "rtp_update_sequence_number ch time = do {
     let ts = rtp_timestamp time;
     h \<leftarrow> put_bytes (buf_with_rtp_header ch)
       [(2, word_of_nat (rtp_packet_num ch div 256)), (3, word_of_nat (rtp_packet_num ch)),
        (4, ucast (drop_bit 24 ts)), (5, ucast (drop_bit 16 ts)), (6, ucast (drop_bit 8 ts)), (7, ucast ts)];
     Some (ch\<lparr>buf_with_rtp_header := h, rtp_packet_num := (rtp_packet_num ch + 1) mod 65536\<rparr>)}"

section \<open>Sending a buffer\<close>

text \<open>What the system calls return: the environments of the unicast clients, and the files that can be opened.\<close>

record out_env =
  client_env :: "ptr \<Rightarrow> nat \<Rightarrow> send_env"
  can_open :: "string \<Rightarrow> bool"

record out_world =
  uni :: unicast_world
  hlsw :: hls_world
  datagrams :: "(int \<times> u8 list) list"

definition upd_out_chan :: "out_world \<Rightarrow> nat \<Rightarrow> mumudvb_channel_t \<Rightarrow> out_world" where
  "upd_out_chan w i ch = w\<lparr>uni := (uni w)\<lparr>chans := (chans (uni w))[i := ch]\<rparr>\<rparr>"

definition send_multicast :: "out_world \<Rightarrow> nat \<Rightarrow> u64 \<Rightarrow> out_world option" where
  "send_multicast w i now = do {
     ch \<leftarrow> rd (chans (uni w)) i;
     if socketOut4 ch > 0 \<or> socketOut6 ch > 0 then do {
       ch \<leftarrow> (if rtp ch then rtp_update_sequence_number ch now else Some ch);
       data \<leftarrow> (if rtp ch then mem_read (buf_with_rtp_header ch @ buf ch) 0 (nb_bytes ch + RTP_HEADER_LEN)
               else mem_read (buf ch) 0 (nb_bytes ch));
       let w = upd_out_chan w i ch;
       Some (w\<lparr>datagrams := datagrams w @
         (if socketOut4 ch \<noteq> 0 then [(socketOut4 ch, data)] else []) @
         (if socketOut6 ch \<noteq> 0 then [(socketOut6 ch, data)] else [])\<rparr>)}
     else Some w}"

definition send_func ::
  "bool \<Rightarrow> unicast_parameters_t \<Rightarrow> out_env \<Rightarrow> out_world \<Rightarrow> nat \<Rightarrow> u64 \<Rightarrow> out_world option" where
  "send_func dont_send_scrambled v env w i now = do {
     ch \<leftarrow> rd (chans (uni w)) i;
     let w = upd_out_chan w i
       (ch\<lparr>sent_data := sent_data ch + nb_bytes ch + 20 + 8 + (if rtp ch then RTP_HEADER_LEN else 0)\<rparr>);
     w \<leftarrow> send_multicast w i now;
     (u, _) \<leftarrow> unicast_data_send v (client_env env) (uni w) i;
     let w = w\<lparr>uni := u\<rparr>;
     w \<leftarrow> (if hls v then do {
            ch \<leftarrow> rd (chans (uni w)) i;
            h \<leftarrow> hls_data_send dont_send_scrambled (can_open env) (hlsw w) ch v now;
            Some (w\<lparr>hlsw := h\<rparr>)}
          else Some w);
     ch \<leftarrow> rd (chans (uni w)) i;
     Some (upd_out_chan w i (ch\<lparr>nb_bytes := 0\<rparr>))}"

section \<open>Collecting packets\<close>

text \<open>
  The statistics of a packet: the first entry of the PID table that matches is counted; 8192 stands
  for the whole transponder.
\<close>

definition packet_pid :: "u8 list \<Rightarrow> nat" where
  "packet_pid p = HILO (p ! 1 AND 0x1f) (p ! 2)"

definition ScramblingControl :: "u8 list \<Rightarrow> nat" where
  "ScramblingControl p = unat (drop_bit 6 (p ! 3))"

definition count_entry :: "mumudvb_channel_t \<Rightarrow> nat \<Rightarrow> nat \<Rightarrow> nat \<Rightarrow> mumudvb_channel_t" where
  "count_entry ch k pd scr =
     ch\<lparr>num_scrambled_packets := num_scrambled_packets ch + (if scr > 0 \<and> pd \<noteq> pmt_pid (pid_i ch) then 1 else 0),
        pid_i := (pid_i ch)\<lparr>pids_num_scrambled_packets :=
          (if scr > 0 then (pids_num_scrambled_packets (pid_i ch))[k := pids_num_scrambled_packets (pid_i ch) ! k + 1]
           else pids_num_scrambled_packets (pid_i ch))\<rparr>,
        num_packet := num_packet ch + (if pd \<noteq> pmt_pid (pid_i ch) then 1 else 0)\<rparr>"

function count_packet :: "mumudvb_channel_t \<Rightarrow> nat \<Rightarrow> nat \<Rightarrow> nat \<Rightarrow> mumudvb_channel_t option" where
  "count_packet ch pd scr k =
     (if k < num_pids (pid_i ch) then do {
        q \<leftarrow> rd (pids (pid_i ch)) k;
        if q = pd \<or> q = 8192 then do {
          _ \<leftarrow> rd (pids_num_scrambled_packets (pid_i ch)) k;
          Some (count_entry ch k pd scr)}
        else count_packet ch pd scr (k + 1)}
      else Some ch)"
  by pat_completeness auto
termination by (relation "measure (\<lambda>(ch, _, _, k). num_pids (pid_i ch) - k)") auto

declare count_packet.simps [simp del]

text \<open>The packet is counted and appended to the buffer.\<close>

definition collect_packet :: "bool \<Rightarrow> mumudvb_channel_t \<Rightarrow> u8 list \<Rightarrow> mumudvb_channel_t option" where
  "collect_packet dont_send_scrambled ch p = do {
     let scr = ScramblingControl p;
     ch \<leftarrow> count_packet ch (packet_pid p) scr 0;
     if dont_send_scrambled \<and> scr > 0 \<and> pmt_pid (pid_i ch) \<noteq> 0 then Some ch
     else do {
       b \<leftarrow> mem_write (buf ch) (nb_bytes ch) p;
       Some (ch\<lparr>buf := b, nb_bytes := nb_bytes ch + TS_PACKET_SIZE\<rparr>)}}"

definition buffer_full :: "mumudvb_channel_t \<Rightarrow> bool" where
  "buffer_full ch \<longleftrightarrow>
     \<not> rtp ch \<and> nb_bytes ch + TS_PACKET_SIZE > MAX_UDP_SIZE \<or>
     rtp ch \<and> nb_bytes ch + RTP_HEADER_LEN + TS_PACKET_SIZE > MAX_UDP_SIZE"

text \<open>\<^verbatim>\<open>buffer_func\<close> for a channel that is not descrambled by software; \<open>now\<close> is what \<^verbatim>\<open>get_time\<close> returns.\<close>

definition buffer_channel ::
  "bool \<Rightarrow> unicast_parameters_t \<Rightarrow> out_env \<Rightarrow> out_world \<Rightarrow> nat \<Rightarrow> u8 list \<Rightarrow> u64 \<Rightarrow> out_world option" where
  "buffer_channel dont_send_scrambled v env w i p now = do {
     ch \<leftarrow> rd (chans (uni w)) i;
     ch \<leftarrow> collect_packet dont_send_scrambled ch p;
     let w = upd_out_chan w i ch;
     if buffer_full ch then send_func dont_send_scrambled v env w i now else Some w}"

text \<open>A sequence of packets, each with its time.\<close>

fun buffer_channel_all ::
  "bool \<Rightarrow> unicast_parameters_t \<Rightarrow> out_env \<Rightarrow> out_world \<Rightarrow> nat \<Rightarrow> (u8 list \<times> u64) list \<Rightarrow> out_world option" where
  "buffer_channel_all dss v env w i [] = Some w"
| "buffer_channel_all dss v env w i ((p, now) # ps) = do {
     w \<leftarrow> buffer_channel dss v env w i p now;
     buffer_channel_all dss v env w i ps}"

section \<open>Polling and interruption\<close>

definition EINTR :: int where "EINTR = 4"

text \<open>
  \<open>polls k\<close> is the result of the \<open>k\<close>-th call of \<^verbatim>\<open>poll\<close> and the \<^verbatim>\<open>errno\<close> after it; interrupted calls
  do not count as tries, so the loop need not end.
\<close>

partial_function (option) poll_loop :: "(nat \<Rightarrow> int \<times> int) \<Rightarrow> nat \<Rightarrow> nat \<Rightarrow> (int \<times> int \<times> nat) option" where
  "poll_loop polls k poll_try =
     (let (ret, err) = polls k;
          poll_try = (if ret < 0 \<and> err \<noteq> EINTR then poll_try + 1 else poll_try)
      in if ret < 0 \<and> poll_try < MAX_POLL_TRIES then poll_loop polls (k + 1) poll_try
         else Some (ret, err, poll_try))"

definition mumudvb_poll :: "(nat \<Rightarrow> int \<times> int) \<Rightarrow> int option" where
  "mumudvb_poll polls = do {
     (ret, err, poll_try) \<leftarrow> poll_loop polls 0 0;
     if poll_try = MAX_POLL_TRIES then Some (- (err * 256)) else Some ret}"

text \<open>The first reason to stop is kept.\<close>

definition set_interrupted :: "int \<Rightarrow> int \<Rightarrow> int \<times> int" where
  "set_interrupted interrupted val =
     (if val \<noteq> 0 then (if interrupted = 0 then val else interrupted, val) else (interrupted, val))"

section \<open>The RTP clock\<close>

text \<open>
  The RTP timestamp is the time in microseconds, converted to the 90 kHz clock and rounded
  down, modulo 2 to the 32: computing seconds and the rest apart loses nothing, and no intermediate
  result overflows.
\<close>

theorem rtp_timestamp_90khz:
  "unat (rtp_timestamp time) = (unat time * 90000 div 1000000) mod 2 ^ 32"
proof -
  define s m where "s = unat time div 1000000" and "m = unat time mod 1000000"
  have t: "unat time = 1000000 * s + m" by (simp add: s_def m_def)
  have s: "s < 2 ^ 45" using unsigned_less [of time, where ?'a = nat] t by simp
  have m: "m < 1000000" by (simp add: m_def)
  have a: "unat (90000 * (time div 1000000)) = 90000 * s"
    using s by (simp add: unat_word_ariths unat_div_distrib s_def)
  have b: "unat ((9 * (time mod 1000000)) div 100) = 9 * m div 100"
    using m by (simp add: unat_word_ariths unat_div_distrib unat_mod_distrib m_def)
  have c: "unat (ucast (ucast (90000 * (time div 1000000)) :: u32) :: u64) = 90000 * s mod 2 ^ 32"
    using a by (simp add: unsigned_ucast_eq take_bit_eq_mod unat_mod_distrib)
  have d: "9 * m div 100 < 90000" using m by simp
  have "90000 * s mod 2 ^ 32 < 2 ^ 32" by simp
  then have "unat (ucast (ucast (90000 * (time div 1000000)) :: u32) + (9 * (time mod 1000000)) div 100 :: u64) =
      90000 * s mod 2 ^ 32 + 9 * m div 100"
    using b c d by (simp add: unat_word_ariths)
  then have "unat (rtp_timestamp time) = (90000 * s mod 2 ^ 32 + 9 * m div 100) mod 2 ^ 32"
    by (simp add: rtp_timestamp_def unsigned_ucast_eq take_bit_eq_mod)
  also have "\<dots> = (90000 * s + 9 * m div 100) mod 2 ^ 32" by (simp add: mod_add_left_eq)
  also have "90000 * s + 9 * m div 100 = unat time * 90000 div 1000000"
  proof -
    have "unat time * 90000 div 1000000 = (9 * (1000000 * s + m)) div 100" unfolding t by simp
    then show ?thesis by simp
  qed
  finally show ?thesis .
qed

section \<open>Polling\<close>

definition poll_errors :: "(nat \<Rightarrow> int \<times> int) \<Rightarrow> nat \<Rightarrow> nat \<Rightarrow> nat" where
  "poll_errors polls k n = card {j. k \<le> j \<and> j \<le> n \<and> fst (polls j) < 0 \<and> snd (polls j) \<noteq> EINTR}"

lemma poll_errors_first:
  "k \<le> n \<Longrightarrow> poll_errors polls k n =
     (if fst (polls k) < 0 \<and> snd (polls k) \<noteq> EINTR then 1 else 0) + poll_errors polls (Suc k) n"
proof -
  assume k: "k \<le> n"
  let ?S = "\<lambda>k. {j. k \<le> j \<and> j \<le> n \<and> fst (polls j) < 0 \<and> snd (polls j) \<noteq> EINTR}"
  have f: "finite (?S (Suc k))" by (rule finite_subset [of _ "{..n}"]) auto
  show ?thesis
  proof (cases "fst (polls k) < 0 \<and> snd (polls k) \<noteq> EINTR")
    case True
    then have "?S k = insert k (?S (Suc k))" using k by (auto simp: le_Suc_eq Suc_le_eq)
    moreover have "k \<notin> ?S (Suc k)" by simp
    ultimately show ?thesis using f True unfolding poll_errors_def by simp
  next
    case False
    then have "?S k = ?S (Suc k)" by (auto simp: Suc_le_eq le_neq_implies_less) (metis Suc_leI le_neq_implies_less)+
    then show ?thesis using False unfolding poll_errors_def by simp
  qed
qed

lemma poll_errors_self: "poll_errors polls k k = (if fst (polls k) < 0 \<and> snd (polls k) \<noteq> EINTR then 1 else 0)"
proof -
  have "poll_errors polls (Suc k) k = 0" by (auto simp: poll_errors_def)
  then show ?thesis using poll_errors_first [of k k polls] by simp
qed

lemma poll_loop_Some:
  "poll_loop polls k t = Some r \<Longrightarrow>
     \<exists>n \<ge> k. polls n = (fst r, fst (snd r)) \<and> (fst r \<ge> 0 \<or> MAX_POLL_TRIES \<le> snd (snd r)) \<and>
        snd (snd r) = t + poll_errors polls k n"
proof (induction rule: poll_loop.raw_induct [rotated 1, consumes 1, case_names 1])
  case (1 loop polls k t r)
  obtain ret err where p: "polls k = (ret, err)" by fastforce
  define u where "u = (if ret < 0 \<and> err \<noteq> EINTR then t + 1 else t)"
  show ?case
  proof (cases "ret < 0 \<and> u < MAX_POLL_TRIES")
    case True
    then have "loop polls (k + 1) u = Some r" using 1(2) p by (simp add: u_def Let_def split: if_splits)
    from 1(1) [OF this] obtain n where n: "n \<ge> k + 1" "polls n = (fst r, fst (snd r))"
      "fst r \<ge> 0 \<or> MAX_POLL_TRIES \<le> snd (snd r)" "snd (snd r) = u + poll_errors polls (k + 1) n" by blast
    then have "snd (snd r) = t + poll_errors polls k n"
      using p by (simp add: u_def poll_errors_first [of k n])
    then show ?thesis using n by (intro exI [of _ n]) simp
  next
    case False
    then have "r = (ret, err, u)" using 1(2) p by (auto simp: u_def Let_def split: if_splits)
    moreover have "poll_errors polls k k = (if ret < 0 \<and> err \<noteq> EINTR then 1 else 0)"
      using p by (simp add: poll_errors_self)
    ultimately show ?thesis using p False by (intro exI [of _ k]) (auto simp: u_def)
  qed
qed

lemma poll_loop_stops:
  "k \<le> n \<Longrightarrow> fst (polls n) \<ge> 0 \<or> MAX_POLL_TRIES \<le> t + poll_errors polls k n \<Longrightarrow> poll_loop polls k t \<noteq> None"
proof (induction "n - k" arbitrary: k t)
  case 0
  then have "k = n" by simp
  obtain ret err where p: "polls k = (ret, err)" by fastforce
  have "poll_errors polls k k = (if ret < 0 \<and> err \<noteq> EINTR then 1 else 0)"
    using p by (simp add: poll_errors_self)
  then show ?case using 0 p \<open>k = n\<close> by (subst poll_loop.simps) (auto simp: Let_def split: if_splits)
next
  case (Suc d)
  obtain ret err where p: "polls k = (ret, err)" by fastforce
  define u where "u = (if ret < 0 \<and> err \<noteq> EINTR then t + 1 else t)"
  have "poll_errors polls k n = (if ret < 0 \<and> err \<noteq> EINTR then 1 else 0) + poll_errors polls (Suc k) n"
    using Suc.prems p by (simp add: poll_errors_first)
  then have "fst (polls n) \<ge> 0 \<or> MAX_POLL_TRIES \<le> u + poll_errors polls (Suc k) n"
    using Suc.prems(2) by (auto simp: u_def)
  then have "poll_loop polls (Suc k) u \<noteq> None" using Suc.hyps Suc.prems by (intro Suc.hyps(1)) auto
  then show ?case using p by (subst poll_loop.simps) (auto simp: Let_def u_def split: if_splits)
qed

text \<open>
  \<^verbatim>\<open>mumudvb_poll\<close> returns exactly when some call of \<^verbatim>\<open>poll\<close> succeeds or five calls fail for
  another reason than an interrupted system call; only interruptions can keep it waiting forever.
\<close>

theorem mumudvb_poll_returns:
  "mumudvb_poll polls \<noteq> None \<longleftrightarrow> (\<exists>n. fst (polls n) \<ge> 0 \<or> MAX_POLL_TRIES \<le> poll_errors polls 0 n)"
proof -
  have "mumudvb_poll polls \<noteq> None \<longleftrightarrow> poll_loop polls 0 0 \<noteq> None"
    by (cases "poll_loop polls 0 0") (simp_all add: mumudvb_poll_def split: prod.splits)
  moreover have "poll_loop polls 0 0 \<noteq> None \<longleftrightarrow> (\<exists>n. fst (polls n) \<ge> 0 \<or> MAX_POLL_TRIES \<le> poll_errors polls 0 n)"
  proof
    assume "poll_loop polls 0 0 \<noteq> None"
    then obtain r where "poll_loop polls 0 0 = Some r" by blast
    from poll_loop_Some [OF this] show "\<exists>n. fst (polls n) \<ge> 0 \<or> MAX_POLL_TRIES \<le> poll_errors polls 0 n"
      by (metis add_0 fst_conv)
  next
    assume "\<exists>n. fst (polls n) \<ge> 0 \<or> MAX_POLL_TRIES \<le> poll_errors polls 0 n"
    then show "poll_loop polls 0 0 \<noteq> None" using poll_loop_stops [of 0 _ polls 0] by auto
  qed
  ultimately show ?thesis by simp
qed

section \<open>The stream of datagrams\<close>

text \<open>The bytes that wait in the buffer, and the header of a datagram.\<close>

definition pending :: "mumudvb_channel_t \<Rightarrow> u8 list" where
  "pending ch = take (nb_bytes ch) (buf ch)"

definition rtp_header :: "u8 list \<Rightarrow> nat \<Rightarrow> u32 \<Rightarrow> u8 list" where
  "rtp_header h seq ts = take 2 h @ [word_of_nat (seq div 256), word_of_nat seq,
     ucast (drop_bit 24 ts), ucast (drop_bit 16 ts), ucast (drop_bit 8 ts), ucast ts] @ drop 8 h"

lemma rtp_update_sequence_number_ok:
  assumes "length (buf_with_rtp_header ch) = RTP_HEADER_LEN"
  shows "rtp_update_sequence_number ch time =
     Some (ch\<lparr>buf_with_rtp_header := rtp_header (buf_with_rtp_header ch) (rtp_packet_num ch) (rtp_timestamp time),
       rtp_packet_num := (rtp_packet_num ch + 1) mod 65536\<rparr>)"
proof -
  obtain a b c d e f g h i j k l where "buf_with_rtp_header ch = [a, b, c, d, e, f, g, h, i, j, k, l]"
    using assms by (auto simp: RTP_HEADER_LEN_def numeral_eq_Suc length_Suc_conv)
  then show ?thesis
    by (simp add: rtp_update_sequence_number_def put_bytes_def wr_def Let_def rtp_header_def)
qed

lemma rtp_header_parts:
  assumes "length h = RTP_HEADER_LEN"
  shows "length (rtp_header h n t) = RTP_HEADER_LEN" "take 2 (rtp_header h n t) = take 2 h" "drop 8 (rtp_header h n t) = drop 8 h"
  using assms by (simp_all add: rtp_header_def RTP_HEADER_LEN_def)

text \<open>The counters are all that \<open>count_packet\<close> changes.\<close>

lemma count_packet_ok:
  assumes "pid_i_wf (pid_i ch)"
  shows "\<exists>a b s. count_packet ch pd scr k =
     Some (ch\<lparr>num_packet := a, num_scrambled_packets := b, pid_i := (pid_i ch)\<lparr>pids_num_scrambled_packets := s\<rparr>\<rparr>) \<and>
     length s = MAX_PIDS"
  using assms
proof (induction ch pd scr k rule: count_packet.induct)
  case (1 ch pd scr k)
  show ?case
  proof (cases "k < num_pids (pid_i ch)")
    case True
    then have r: "rd (pids (pid_i ch)) k = Some (pids (pid_i ch) ! k)"
      "rd (pids_num_scrambled_packets (pid_i ch)) k = Some (pids_num_scrambled_packets (pid_i ch) ! k)"
      using 1(2) by (simp_all add: pid_i_wf_def rd_def)
    show ?thesis
    proof (cases "pids (pid_i ch) ! k = pd \<or> pids (pid_i ch) ! k = 8192")
      case m: True
      have "count_packet ch pd scr k = Some (count_entry ch k pd scr)"
        using True r m by (subst count_packet.simps) auto
      define s where "s = (if scr > 0 then (pids_num_scrambled_packets (pid_i ch))[k := pids_num_scrambled_packets (pid_i ch) ! k + 1]
        else pids_num_scrambled_packets (pid_i ch))"
      have "count_entry ch k pd scr = ch\<lparr>num_packet := num_packet ch + (if pd \<noteq> pmt_pid (pid_i ch) then 1 else 0),
          num_scrambled_packets := num_scrambled_packets ch + (if scr > 0 \<and> pd \<noteq> pmt_pid (pid_i ch) then 1 else 0),
          pid_i := (pid_i ch)\<lparr>pids_num_scrambled_packets := s\<rparr>\<rparr>" by (simp add: count_entry_def s_def)
      moreover have "length s = MAX_PIDS" using 1(2) by (simp add: s_def pid_i_wf_def)
      ultimately show ?thesis using \<open>count_packet ch pd scr k = Some (count_entry ch k pd scr)\<close> by metis
    next
      case False
      from "1.IH" [OF True r(1) False 1(2)] show ?thesis using True r False by (subst count_packet.simps) simp
    qed
  next
    case False
    have "ch = ch\<lparr>num_packet := num_packet ch, num_scrambled_packets := num_scrambled_packets ch,
        pid_i := (pid_i ch)\<lparr>pids_num_scrambled_packets := pids_num_scrambled_packets (pid_i ch)\<rparr>\<rparr>" by simp
    moreover have "count_packet ch pd scr k = Some ch" using False by (subst count_packet.simps) simp
    ultimately show ?thesis using 1(2) unfolding pid_i_wf_def by metis
  qed
qed

text \<open>What is fixed about a channel while it streams to its group.\<close>

definition streaming :: "mumudvb_channel_t \<Rightarrow> bool" where
  "streaming ch \<longleftrightarrow> channel_wf ch \<and> clients ch = NULL \<and> socketOut4 ch > 0 \<and> socketOut6 ch = 0 \<and>
     rtp_packet_num ch < 65536 \<and> nb_bytes ch mod TS_PACKET_SIZE = 0 \<and> nb_bytes ch < 7 * TS_PACKET_SIZE"

definition header_len :: "mumudvb_channel_t \<Rightarrow> nat" where
  "header_len ch = (if rtp ch then RTP_HEADER_LEN else 0)"

lemma streaming_lengths:
  "streaming ch \<Longrightarrow> length (buf ch) = 1350 \<and> length (buf_with_rtp_header ch) = 12 \<and> nb_bytes ch \<le> 6 * 188"
proof -
  assume s: "streaming ch"
  then obtain q where "nb_bytes ch = 188 * q" by (auto simp: streaming_def ts_sizes mod_eq_0_iff_dvd dvd_def)
  then show ?thesis using s by (simp add: streaming_def channel_wf_def mumu_sizes)
qed

lemma buffer_full_iff:
  "nb_bytes ch mod TS_PACKET_SIZE = 0 \<Longrightarrow> buffer_full ch \<longleftrightarrow> 7 * TS_PACKET_SIZE \<le> nb_bytes ch"
  by (auto simp: buffer_full_def mumu_sizes mod_eq_0_iff_dvd dvd_def)

lemma collect_packet_ok:
  assumes s: "streaming ch" and p: "length p = TS_PACKET_SIZE"
  shows "\<exists>a b s. collect_packet False ch p = Some (ch\<lparr>num_packet := a, num_scrambled_packets := b,
       pid_i := (pid_i ch)\<lparr>pids_num_scrambled_packets := s\<rparr>,
       buf := pending ch @ p @ drop (nb_bytes ch + TS_PACKET_SIZE) (buf ch), nb_bytes := nb_bytes ch + TS_PACKET_SIZE\<rparr>) \<and>
     length s = MAX_PIDS"
proof -
  have "pid_i_wf (pid_i ch)" using s by (simp add: streaming_def channel_wf_def)
  then obtain a b s where c: "count_packet ch (packet_pid p) (ScramblingControl p) 0 =
      Some (ch\<lparr>num_packet := a, num_scrambled_packets := b, pid_i := (pid_i ch)\<lparr>pids_num_scrambled_packets := s\<rparr>\<rparr>)"
    "length s = MAX_PIDS" using count_packet_ok by blast
  have "mem_write (buf ch) (nb_bytes ch) p = Some (pending ch @ p @ drop (nb_bytes ch + TS_PACKET_SIZE) (buf ch))"
    using streaming_lengths [OF s] p by (simp add: mem_write_def pending_def ts_sizes)
  then show ?thesis using c by (auto simp: collect_packet_def Let_def)
qed

lemma send_func_ok:
  assumes ch: "rd (chans (uni w)) i = Some ch" and wf: "channel_wf ch" and cl: "clients ch = NULL"
    and so: "socketOut4 ch > 0" "socketOut6 ch = 0" and nb: "nb_bytes ch \<le> MAX_UDP_SIZE" and h: "\<not> hls v"
  shows "\<exists>w'. send_func dss v env w i now = Some w' \<and>
     datagrams w' = datagrams w @ [(socketOut4 ch,
       (if rtp ch then rtp_header (buf_with_rtp_header ch) (rtp_packet_num ch) (rtp_timestamp now) else []) @ pending ch)] \<and>
     rd (chans (uni w')) i = Some ((if rtp ch then
         ch\<lparr>buf_with_rtp_header := rtp_header (buf_with_rtp_header ch) (rtp_packet_num ch) (rtp_timestamp now),
            rtp_packet_num := (rtp_packet_num ch + 1) mod 65536\<rparr> else ch)
       \<lparr>sent_data := sent_data ch + nb_bytes ch + 20 + 8 + (if rtp ch then RTP_HEADER_LEN else 0), nb_bytes := 0\<rparr>)"
proof -
  define ch1 where "ch1 = ch\<lparr>sent_data := sent_data ch + nb_bytes ch + 20 + 8 + (if rtp ch then RTP_HEADER_LEN else 0)\<rparr>"
  define ch2 where "ch2 = (if rtp ch then ch1\<lparr>buf_with_rtp_header := rtp_header (buf_with_rtp_header ch) (rtp_packet_num ch) (rtp_timestamp now),
     rtp_packet_num := (rtp_packet_num ch + 1) mod 65536\<rparr> else ch1)"
  have i: "i < length (chans (uni w))" using ch by (simp add: rd_Some_iff)
  have lh: "length (buf_with_rtp_header ch1) = RTP_HEADER_LEN" "length (buf ch) = MAX_UDP_SIZE" "length (buf_with_rtp_header ch) = RTP_HEADER_LEN"
    using wf by (simp_all add: ch1_def channel_wf_def)
  have up: "(if rtp ch1 then rtp_update_sequence_number ch1 now else Some ch1) = Some ch2"
  proof -
    have p1: "buf_with_rtp_header ch1 = buf_with_rtp_header ch" "rtp_packet_num ch1 = rtp_packet_num ch" "rtp ch1 = rtp ch"
      by (simp_all add: ch1_def)
    show ?thesis using rtp_update_sequence_number_ok [OF lh(1), of now] unfolding ch2_def p1 by simp
  qed
  have rd2: "(if rtp ch2 then mem_read (buf_with_rtp_header ch2 @ buf ch2) 0 (nb_bytes ch2 + RTP_HEADER_LEN)
       else mem_read (buf ch2) 0 (nb_bytes ch2)) =
     Some ((if rtp ch then rtp_header (buf_with_rtp_header ch) (rtp_packet_num ch) (rtp_timestamp now) else []) @ pending ch)"
    using nb lh rtp_header_parts(1) [OF lh(3)] by (simp add: ch2_def ch1_def mem_read_def pending_def)
  have c1: "socketOut4 ch1 = socketOut4 ch" "socketOut6 ch1 = 0" using so by (simp_all add: ch1_def)
  have c2: "socketOut4 ch2 = socketOut4 ch" "socketOut6 ch2 = 0" "clients ch2 = NULL" using so cl by (simp_all add: ch2_def ch1_def)
  define w2 where "w2 = (upd_out_chan (upd_out_chan w i ch1) i ch2)\<lparr>datagrams := datagrams w @ [(socketOut4 ch,
    (if rtp ch then rtp_header (buf_with_rtp_header ch) (rtp_packet_num ch) (rtp_timestamp now) else []) @ pending ch)]\<rparr>"
  have m: "send_multicast (upd_out_chan w i ch1) i now = Some w2"
    using i so c2 c1 up rd2 by (simp add: send_multicast_def upd_out_chan_def rd_def w2_def)
  have r2: "rd (chans (uni w2)) i = Some ch2" using i by (simp add: w2_def upd_out_chan_def rd_def)
  have u: "unicast_data_send v (client_env env) (uni w2) i = Some (uni w2, [])"
    using r2 c2(3) by (simp add: unicast_data_send_def unicast_send_clients.simps)
  have "send_func dss v env w i now = Some (upd_out_chan w2 i (ch2\<lparr>nb_bytes := 0\<rparr>))"
    unfolding send_func_def ch Let_def bind.bind_lunit ch1_def [symmetric] using m r2 u h by simp
  moreover have "datagrams (upd_out_chan w2 i (ch2\<lparr>nb_bytes := 0\<rparr>)) = datagrams w2" by (simp add: upd_out_chan_def)
  moreover have "rd (chans (uni (upd_out_chan w2 i (ch2\<lparr>nb_bytes := 0\<rparr>)))) i = Some (ch2\<lparr>nb_bytes := 0\<rparr>)"
    using i by (simp add: w2_def upd_out_chan_def rd_def)
  ultimately show ?thesis by (simp add: w2_def ch2_def ch1_def)
qed

text \<open>One packet: it waits, or it completes a datagram.\<close>

lemma buffer_channel_step:
  assumes ch: "rd (chans (uni w)) i = Some ch" and s: "streaming ch" and p: "length p = TS_PACKET_SIZE" and h: "\<not> hls v"
  shows "\<exists>w' ch'. buffer_channel False v env w i p now = Some w' \<and> rd (chans (uni w')) i = Some ch' \<and> streaming ch' \<and>
     rtp ch' = rtp ch \<and> socketOut4 ch' = socketOut4 ch \<and>
     take 2 (buf_with_rtp_header ch') = take 2 (buf_with_rtp_header ch) \<and> drop 8 (buf_with_rtp_header ch') = drop 8 (buf_with_rtp_header ch) \<and>
     (if nb_bytes ch + TS_PACKET_SIZE < 7 * TS_PACKET_SIZE
      then datagrams w' = datagrams w \<and> pending ch' = pending ch @ p \<and> rtp_packet_num ch' = rtp_packet_num ch
      else datagrams w' = datagrams w @ [(socketOut4 ch,
          (if rtp ch then rtp_header (buf_with_rtp_header ch) (rtp_packet_num ch) (rtp_timestamp now) else []) @ pending ch @ p)] \<and>
        pending ch' = [] \<and> nb_bytes ch + TS_PACKET_SIZE = 7 * TS_PACKET_SIZE \<and>
        (rtp ch \<longrightarrow> rtp_packet_num ch' = (rtp_packet_num ch + 1) mod 65536))"
proof -
  note sl = streaming_lengths [OF s]
  obtain a b q where c: "collect_packet False ch p = Some (ch\<lparr>num_packet := a, num_scrambled_packets := b,
       pid_i := (pid_i ch)\<lparr>pids_num_scrambled_packets := q\<rparr>,
       buf := pending ch @ p @ drop (nb_bytes ch + TS_PACKET_SIZE) (buf ch), nb_bytes := nb_bytes ch + TS_PACKET_SIZE\<rparr>)"
    (is "_ = Some ?c1") and q: "length q = MAX_PIDS" using collect_packet_ok [OF s p] by blast
  define ch1 where "ch1 = ?c1"
  have f1: "rtp ch1 = rtp ch" "socketOut4 ch1 = socketOut4 ch" "socketOut6 ch1 = 0" "clients ch1 = NULL"
    "buf_with_rtp_header ch1 = buf_with_rtp_header ch" "rtp_packet_num ch1 = rtp_packet_num ch" "nb_bytes ch1 = nb_bytes ch + TS_PACKET_SIZE"
    using s by (simp_all add: ch1_def streaming_def)
  have lp: "length (pending ch) = nb_bytes ch" using sl by (simp add: pending_def)
  have wf1: "channel_wf ch1" using s sl p q lp by (simp add: ch1_def streaming_def channel_wf_def pid_i_wf_def mumu_sizes)
  have p1: "pending ch1 = pending ch @ p" using lp p by (simp add: ch1_def pending_def)
  have i: "i < length (chans (uni w))" using ch by (simp add: rd_Some_iff)
  define w1 where "w1 = upd_out_chan w i ch1"
  have r1: "rd (chans (uni w1)) i = Some ch1" and d1: "datagrams w1 = datagrams w" using i by (simp_all add: w1_def upd_out_chan_def rd_def)
  have md: "nb_bytes ch1 mod TS_PACKET_SIZE = 0" using s f1 by (simp add: streaming_def)
  have B: "buffer_channel False v env w i p now = (if buffer_full ch1 then send_func False v env w1 i now else Some w1)"
    using ch c by (simp add: buffer_channel_def ch1_def [symmetric] w1_def Let_def)
  show ?thesis
  proof (cases "nb_bytes ch + TS_PACKET_SIZE < 7 * TS_PACKET_SIZE")
    case True
    then have "\<not> buffer_full ch1" using buffer_full_iff [OF md] f1 by simp
    moreover have "streaming ch1" using s wf1 f1 md True by (simp add: streaming_def)
    ultimately show ?thesis using B r1 d1 f1 p1 True by auto
  next
    case False
    then have full: "buffer_full ch1" "nb_bytes ch + TS_PACKET_SIZE = 7 * TS_PACKET_SIZE"
      using buffer_full_iff [OF md] f1 sl by (auto simp: ts_sizes)
    have nb: "nb_bytes ch1 \<le> MAX_UDP_SIZE" using full(2) f1 by (simp add: mumu_sizes)
    have so: "0 < socketOut4 ch1" using s f1 by (simp add: streaming_def)
    obtain w' where w': "send_func False v env w1 i now = Some w'" "datagrams w' = datagrams w1 @ [(socketOut4 ch1,
       (if rtp ch1 then rtp_header (buf_with_rtp_header ch1) (rtp_packet_num ch1) (rtp_timestamp now) else []) @ pending ch1)]"
     "rd (chans (uni w')) i = Some ((if rtp ch1 then
         ch1\<lparr>buf_with_rtp_header := rtp_header (buf_with_rtp_header ch1) (rtp_packet_num ch1) (rtp_timestamp now),
            rtp_packet_num := (rtp_packet_num ch1 + 1) mod 65536\<rparr> else ch1)
       \<lparr>sent_data := sent_data ch1 + nb_bytes ch1 + 20 + 8 + (if rtp ch1 then RTP_HEADER_LEN else 0), nb_bytes := 0\<rparr>)"
      (is "_ = Some ?c2") using send_func_ok [OF r1 wf1 f1(4) so f1(3) nb h] by blast
    have lh: "length (buf_with_rtp_header ch) = RTP_HEADER_LEN" using s by (simp add: streaming_def channel_wf_def)
    note hp = rtp_header_parts [OF lh, of "rtp_packet_num ch" "rtp_timestamp now"]
    have "streaming ?c2" using s wf1 f1 hp by (simp add: streaming_def channel_wf_def ts_sizes)
    moreover have "pending ?c2 = []" by (simp add: pending_def)
    ultimately show ?thesis using B full w' d1 f1 p1 hp False by (intro exI [of _ w'] exI [of _ ?c2]) simp
  qed
qed

lemma rtp_header_same:
  "take 2 h = take 2 h' \<Longrightarrow> drop 8 h = drop 8 h' \<Longrightarrow> rtp_header h n t = rtp_header h' n t"
  by (simp add: rtp_header_def)

text \<open>
  C18. The multicast stream of a channel without HTTP clients: whatever packets arrive, every
  datagram holds exactly seven of them, behind an RTP header when RTP is on; the datagrams followed
  by what still waits are the packets in their order, none lost, repeated or split; and the RTP
  sequence numbers count up modulo 65536, with the time of some packet. The buffer never overflows.
\<close>

theorem buffer_stream:
  assumes ch: "rd (chans (uni w)) i = Some ch" and s: "streaming ch" and h: "\<not> hls v"
    and ps: "\<forall>(p, now) \<in> set ps. length p = TS_PACKET_SIZE"
  shows "\<exists>w' ch' ds. buffer_channel_all False v env w i ps = Some w' \<and>
     datagrams w' = datagrams w @ map (Pair (socketOut4 ch)) ds \<and>
     rd (chans (uni w')) i = Some ch' \<and> streaming ch' \<and>
     concat (map (drop (header_len ch)) ds) @ pending ch' = pending ch @ concat (map fst ps) \<and>
     (\<forall>k < length ds. length (ds ! k) = header_len ch + 7 * TS_PACKET_SIZE \<and>
        (rtp ch \<longrightarrow> (\<exists>now \<in> snd ` set ps. take RTP_HEADER_LEN (ds ! k) =
           rtp_header (buf_with_rtp_header ch) ((rtp_packet_num ch + k) mod 65536) (rtp_timestamp now))))"
  using ch s ps
proof (induction ps arbitrary: w ch)
  case Nil
  show ?case by (rule exI [of _ w], rule exI [of _ ch], rule exI [of _ "[]"]) (simp add: Nil)
next
  case (Cons a ps)
  obtain p now where a: "a = (p, now)" by fastforce
  have p: "length p = TS_PACKET_SIZE" and ps: "\<forall>(p, now) \<in> set ps. length p = TS_PACKET_SIZE" using Cons.prems(3) a by auto
  obtain w1 c1 where st: "buffer_channel False v env w i p now = Some w1" "rd (chans (uni w1)) i = Some c1" "streaming c1"
    "rtp c1 = rtp ch" "socketOut4 c1 = socketOut4 ch"
    "take 2 (buf_with_rtp_header c1) = take 2 (buf_with_rtp_header ch)" "drop 8 (buf_with_rtp_header c1) = drop 8 (buf_with_rtp_header ch)"
    and out: "if nb_bytes ch + TS_PACKET_SIZE < 7 * TS_PACKET_SIZE
      then datagrams w1 = datagrams w \<and> pending c1 = pending ch @ p \<and> rtp_packet_num c1 = rtp_packet_num ch
      else datagrams w1 = datagrams w @ [(socketOut4 ch,
          (if rtp ch then rtp_header (buf_with_rtp_header ch) (rtp_packet_num ch) (rtp_timestamp now) else []) @ pending ch @ p)] \<and>
        pending c1 = [] \<and> nb_bytes ch + TS_PACKET_SIZE = 7 * TS_PACKET_SIZE \<and>
        (rtp ch \<longrightarrow> rtp_packet_num c1 = (rtp_packet_num ch + 1) mod 65536)"
    using buffer_channel_step [OF Cons.prems(1,2) p h, of env now] by blast
  from Cons.IH [OF st(2,3) ps] obtain w' ch' ds where IH: "buffer_channel_all False v env w1 i ps = Some w'"
    "datagrams w' = datagrams w1 @ map (Pair (socketOut4 c1)) ds" "rd (chans (uni w')) i = Some ch'" "streaming ch'"
    "concat (map (drop (header_len c1)) ds) @ pending ch' = pending c1 @ concat (map fst ps)"
    "\<forall>k < length ds. length (ds ! k) = header_len c1 + 7 * TS_PACKET_SIZE \<and>
        (rtp c1 \<longrightarrow> (\<exists>now \<in> snd ` set ps. take RTP_HEADER_LEN (ds ! k) =
           rtp_header (buf_with_rtp_header c1) ((rtp_packet_num c1 + k) mod 65536) (rtp_timestamp now)))" by blast
  have run: "buffer_channel_all False v env w i (a # ps) = Some w'" using st(1) IH(1) by (simp add: a)
  have hl: "header_len c1 = header_len ch" using st(4) by (simp add: header_len_def)
  have hdr: "rtp_header (buf_with_rtp_header c1) n t = rtp_header (buf_with_rtp_header ch) n t" for n t
    by (rule rtp_header_same [OF st(6,7)])
  have num: "rtp_packet_num ch < 65536" and lh: "length (buf_with_rtp_header ch) = RTP_HEADER_LEN"
    using Cons.prems(2) by (simp_all add: streaming_def channel_wf_def)
  show ?case
  proof (cases "nb_bytes ch + TS_PACKET_SIZE < 7 * TS_PACKET_SIZE")
    case True
    then have o: "datagrams w1 = datagrams w" "pending c1 = pending ch @ p" "rtp_packet_num c1 = rtp_packet_num ch" using out by simp_all
    show ?thesis
      by (rule exI [of _ w'], rule exI [of _ ch'], rule exI [of _ ds]) (use run IH o st(4,5) hl hdr a in force)
  next
    case False
    define d where "d = (if rtp ch then rtp_header (buf_with_rtp_header ch) (rtp_packet_num ch) (rtp_timestamp now) else []) @ pending ch @ p"
    have o: "datagrams w1 = datagrams w @ [(socketOut4 ch, d)]" "pending c1 = []" "nb_bytes ch + TS_PACKET_SIZE = 7 * TS_PACKET_SIZE"
      "rtp ch \<longrightarrow> rtp_packet_num c1 = (rtp_packet_num ch + 1) mod 65536" using out False by (simp_all add: d_def)
    have lp: "length (pending ch) = nb_bytes ch" using streaming_lengths [OF Cons.prems(2)] by (simp add: pending_def)
    have ld: "length d = header_len ch + 7 * TS_PACKET_SIZE" "drop (header_len ch) d = pending ch @ p"
      "rtp ch \<longrightarrow> take RTP_HEADER_LEN d = rtp_header (buf_with_rtp_header ch) (rtp_packet_num ch) (rtp_timestamp now)"
      using lp p o(3) rtp_header_parts(1) [OF lh] by (simp_all add: d_def header_len_def)
    have dg: "datagrams w' = datagrams w @ map (Pair (socketOut4 ch)) (d # ds)" using IH(2) o(1) st(5) by simp
    have cc: "concat (map (drop (header_len ch)) (d # ds)) @ pending ch' = pending ch @ concat (map fst (a # ps))"
      using IH(5) o(2) ld(2) hl by (simp add: a)
    have "length ((d # ds) ! k) = header_len ch + 7 * TS_PACKET_SIZE \<and>
        (rtp ch \<longrightarrow> (\<exists>now \<in> snd ` set (a # ps). take RTP_HEADER_LEN ((d # ds) ! k) =
           rtp_header (buf_with_rtp_header ch) ((rtp_packet_num ch + k) mod 65536) (rtp_timestamp now)))"
      if k: "k < length (d # ds)" for k
    proof (cases k)
      case 0
      then show ?thesis using ld num by (simp add: a)
    next
      case (Suc j)
      then have j: "length (ds ! j) = header_len ch + 7 * TS_PACKET_SIZE"
        "rtp ch \<longrightarrow> (\<exists>now \<in> snd ` set ps. take RTP_HEADER_LEN (ds ! j) =
           rtp_header (buf_with_rtp_header ch) ((rtp_packet_num c1 + j) mod 65536) (rtp_timestamp now))"
        using IH(6) k st(4) hl hdr by auto
      have "rtp ch \<longrightarrow> (rtp_packet_num c1 + j) mod 65536 = (rtp_packet_num ch + k) mod 65536"
        using o(4) Suc by (simp add: mod_add_left_eq)
      then show ?thesis using j Suc by auto
    qed
    then show ?thesis using run dg IH(3,4) cc by blast
  qed
qed

definition sample_out_world :: out_world where
  "sample_out_world = \<lparr>uni = world0\<lparr>chans := [zero_channel\<lparr>rtp := True, socketOut4 := 3, rtp_packet_num := 65535\<rparr>]\<rparr>,
     hlsw = \<lparr>hls_fds = [], files = Map.empty, master_playlist_checksum = 0, master_playlist_timestamp = 0\<rparr>, datagrams = []\<rparr>"

definition sample_out_env :: out_env where
  "sample_out_env = \<lparr>client_env = \<lambda>_. sample_env 0, can_open = \<lambda>_. True\<rparr>"

theorem buffer_stream_witness:
  "\<exists>w' ds. buffer_channel_all False init_unicast_v sample_out_env sample_out_world 0 (replicate 15 (replicate 188 7, 5)) = Some w' \<and>
     datagrams w' = map (Pair 3) ds \<and> (\<forall>k < length ds. length (ds ! k) = 1328)"
proof -
  let ?ch = "zero_channel\<lparr>rtp := True, socketOut4 := 3, rtp_packet_num := 65535\<rparr>"
  have c: "rd (chans (uni sample_out_world)) 0 = Some ?ch" by (simp add: sample_out_world_def rd_def)
  have s: "streaming ?ch"
    using zero_channel_wf by (simp add: streaming_def channel_wf_def zero_channel_def NULL_def ts_sizes)
  have "\<forall>(p, now) \<in> set (replicate 15 (replicate 188 (7 :: u8), 5 :: u64)). length p = TS_PACKET_SIZE"
    by (simp add: ts_sizes)
  from buffer_stream [OF c s _ this, of init_unicast_v sample_out_env] show ?thesis
    by (auto simp: init_unicast_v_def sample_out_world_def header_len_def mumu_sizes)
qed

end
