(* ===== verification/Scam.thy ===== *)
theory Scam
  imports Output
begin

text \<open>
  Software descrambling: the ring buffer of \<^verbatim>\<open>src/src/scam_common.c\<close> and the three threads that share
  it, the packet reader (\<^verbatim>\<open>buffer_func\<close> of \<^verbatim>\<open>src/src/mumudvb_common.c\<close>), the descrambling thread
  (\<^verbatim>\<open>src/src/scam_decsa.c\<close>) and the sending thread (\<^verbatim>\<open>src/src/scam_send.c\<close>); the handling of
  the control words from OSCam (\<^verbatim>\<open>src/src/scam_getcw.c\<close>) and of the request for them
  (\<^verbatim>\<open>src/src/scam_capmt.c\<close>).

  Each section of code that holds the lock of the ring buffer is one step; decryption, which runs
  without the lock, is a step of its own. The steps of the threads interleave freely, as an inductive
  relation. The decryption function of the libdvbcsa library is a parameter \<open>dec\<close> of a key and a
  block; the number of packets it takes at once is the parameter \<open>bs\<close>. Waiting for the time of a
  packet is left out: a step may always be late.
\<close>

section \<open>Data\<close>

definition RING_BUFFER_DEFAULT_SIZE :: nat where "RING_BUFFER_DEFAULT_SIZE = 32768"
definition MAX_STATIC_KEYS :: nat where "MAX_STATIC_KEYS = 24"

text \<open>The data area is the list of its slots of one packet each.\<close>

record ring_buffer_t =
  data :: "u8 list list"
  write_idx :: nat
  time_decsa :: "u64 list"
  to_descramble :: nat
  read_decsa_idx :: nat
  time_send :: "u64 list"
  to_send :: nat
  read_send_idx :: nat

text \<open>The members of a channel for descrambling.\<close>

record scam_channel =
  scam_support :: bool
  scam_support_started :: bool
  camd_socket :: int
  odd_cw :: "u8 list"
  even_cw :: "u8 list"
  got_key_odd :: bool
  got_key_even :: bool
  ca_idx :: u32
  ca_idx_refcnt :: u32
  ring_buffer_size :: nat
  decsa_delay :: u64
  send_delay :: u64

text \<open>\<^verbatim>\<open>round_up\<close>: an \<^verbatim>\<open>int\<close>; on negative numbers all shifts lead to 0, whichever way they fill.\<close>

definition round_up :: "u32 \<Rightarrow> u32" where
  "round_up x = (let x = x - 1;
     x = x OR drop_bit 1 x; x = x OR drop_bit 2 x; x = x OR drop_bit 4 x;
     x = x OR drop_bit 8 x; x = x OR drop_bit 16 x in x + 1)"

text \<open>\<open>old\<close> is what \<^verbatim>\<open>malloc\<close> returned for the packets, which are not cleared.\<close>

definition scam_ring_init :: "nat \<Rightarrow> u8 list list \<Rightarrow> ring_buffer_t" where
  "scam_ring_init sz old = \<lparr>data = old, write_idx = 0, time_decsa = replicate sz 0, to_descramble = 0,
     read_decsa_idx = 0, time_send = replicate sz 0, to_send = 0, read_send_idx = 0\<rparr>"

definition next_idx :: "nat \<Rightarrow> nat \<Rightarrow> nat" where
  "next_idx sz i = ((i + 1) AND (sz - 1))"

section \<open>Writing\<close>

definition scam_ring_write :: "scam_channel \<Rightarrow> ring_buffer_t \<Rightarrow> u8 list \<Rightarrow> u64 \<Rightarrow> ring_buffer_t option" where
  "scam_ring_write sc ring p now = do {
     d \<leftarrow> wr (data ring) (write_idx ring) p;
     ts \<leftarrow> wr (time_send ring) (write_idx ring) (now + send_delay sc);
     td \<leftarrow> wr (time_decsa ring) (write_idx ring) (now + decsa_delay sc);
     Some (ring\<lparr>data := d, time_send := ts, time_decsa := td,
       write_idx := next_idx (ring_buffer_size sc) (write_idx ring), to_descramble := to_descramble ring + 1\<rparr>)}"

text \<open>The whole of \<^verbatim>\<open>buffer_func\<close>; \<open>scam_on\<close> is \<^verbatim>\<open>scam_vars->scam_support\<close>.\<close>

definition buffer_func ::
  "bool \<Rightarrow> bool \<Rightarrow> unicast_parameters_t \<Rightarrow> out_env \<Rightarrow> out_world \<Rightarrow> nat \<Rightarrow> scam_channel \<Rightarrow> ring_buffer_t \<Rightarrow> u8 list \<Rightarrow> u64 \<Rightarrow>
   (out_world \<times> ring_buffer_t) option" where
  "buffer_func dont_send_scrambled scam_on v env w i sc ring p now =
     (if scam_support sc \<and> scam_support_started sc \<and> scam_on then do {
        ring \<leftarrow> scam_ring_write sc ring p now;
        Some (w, ring)}
      else do {
        w \<leftarrow> buffer_channel dont_send_scrambled v env w i p now;
        Some (w, ring)})"

section \<open>Descrambling\<close>

definition ts_packet_get_payload_offset :: "u8 list \<Rightarrow> nat" where
  "ts_packet_get_payload_offset p =
     (if p ! 0 \<noteq> 0x47 then 0
      else
        let adapt_field = drop_bit 5 (p ! 3 AND NOT 0xDF);
            payload_field = drop_bit 4 (p ! 3 AND NOT 0xEF)
        in if payload_field = 0 then 0
           else if adapt_field \<noteq> 0 then
             let adapt_len = p ! 4 in if adapt_len > 182 then 0 else 4 + 1 + unat adapt_len
           else 4)"

datatype decsa_phase = Collecting | Decrypting | Publishing

text \<open>
  The local variables of the thread. A batch is an array of \<open>bs + 1\<close> entries, a slot of the ring and
  the offset of the payload in it, of which the first \<open>idx\<close> are used; \<open>idx\<close> is an \<^verbatim>\<open>unsigned char\<close>.
\<close>

record decsa_state =
  phase :: decsa_phase
  d_ca_idx :: u32
  odd_batch :: "(nat \<times> nat) list"
  even_batch :: "(nat \<times> nat) list"
  odd_batch_idx :: u8
  even_batch_idx :: u8
  nscrambled :: nat
  scrambled :: nat
  odd_key :: "u8 list"
  even_key :: "u8 list"
  got_first_even_key :: bool
  got_first_odd_key :: bool

definition decsa_init :: "nat \<Rightarrow> decsa_state" where
  "decsa_init bs = \<lparr>phase = Collecting, d_ca_idx = 0, odd_batch = replicate (bs + 1) (0, 0),
     even_batch = replicate (bs + 1) (0, 0), odd_batch_idx = 0, even_batch_idx = 0, nscrambled = 0, scrambled = 0,
     odd_key = [], even_key = [], got_first_even_key = False, got_first_odd_key = False\<rparr>"

definition scrambling_of :: "u8 list \<Rightarrow> nat" where
  "scrambling_of p = (let c = ScramblingControl p in if c \<noteq> 0 \<and> ts_packet_get_payload_offset p = 0 then 0 else c)"

text \<open>Sorting one packet into its batch.\<close>

definition decsa_sort :: "nat \<Rightarrow> u8 list \<Rightarrow> decsa_state \<Rightarrow> decsa_state option" where
  "decsa_sort slot p d = (let off = ts_packet_get_payload_offset p in
     if scrambling_of p = 2 then
       if d_ca_idx d \<noteq> 0 \<and> got_first_even_key d then do {
         b \<leftarrow> wr (even_batch d) (unat (even_batch_idx d)) (slot, off);
         Some (d\<lparr>scrambled := scrambled d + 1, even_batch := b, even_batch_idx := even_batch_idx d + 1\<rparr>)}
       else Some (d\<lparr>scrambled := scrambled d + 1\<rparr>)
     else if scrambling_of p = 3 then
       if d_ca_idx d \<noteq> 0 \<and> got_first_odd_key d then do {
         b \<leftarrow> wr (odd_batch d) (unat (odd_batch_idx d)) (slot, off);
         Some (d\<lparr>scrambled := scrambled d + 1, odd_batch := b, odd_batch_idx := odd_batch_idx d + 1\<rparr>)}
       else Some (d\<lparr>scrambled := scrambled d + 1\<rparr>)
     else Some (d\<lparr>nscrambled := nscrambled d + 1\<rparr>))"

text \<open>New keys are loaded when they are ready and the old one is no longer used.\<close>

definition decsa_load_even :: "scam_channel \<Rightarrow> decsa_state \<Rightarrow> scam_channel \<times> decsa_state" where
  "decsa_load_even sc d =
     (if ((odd_batch_idx d \<noteq> 0 \<and> even_batch_idx d = 0) \<or> \<not> got_first_even_key d) \<and> got_key_even sc
      then (sc\<lparr>got_key_even := False\<rparr>, d\<lparr>even_key := even_cw sc, got_first_even_key := True\<rparr>)
      else (sc, d))"

definition decsa_load_odd :: "scam_channel \<Rightarrow> decsa_state \<Rightarrow> scam_channel \<times> decsa_state" where
  "decsa_load_odd sc d =
     (if ((even_batch_idx d \<noteq> 0 \<and> odd_batch_idx d = 0) \<or> \<not> got_first_odd_key d) \<and> got_key_odd sc
      then (sc\<lparr>got_key_odd := False\<rparr>, d\<lparr>odd_key := odd_cw sc, got_first_odd_key := True\<rparr>)
      else (sc, d))"

text \<open>One packet under the lock; a complete batch goes on to decryption.\<close>

definition decsa_take ::
  "nat \<Rightarrow> scam_channel \<Rightarrow> ring_buffer_t \<Rightarrow> decsa_state \<Rightarrow> (scam_channel \<times> ring_buffer_t \<times> decsa_state) option" where
  "decsa_take bs sc ring d = do {
     p \<leftarrow> rd (data ring) (read_decsa_idx ring);
     d \<leftarrow> decsa_sort (read_decsa_idx ring) p d;
     let ring = ring\<lparr>read_decsa_idx := next_idx (ring_buffer_size sc) (read_decsa_idx ring),
       to_descramble := to_descramble ring - 1\<rparr>;
     if scrambled d = bs \<or> nscrambled d = bs then
       let (sc, d) = decsa_load_even sc d; (sc, d) = decsa_load_odd sc d
       in Some (sc, ring, d\<lparr>phase := Decrypting\<rparr>)
     else Some (sc, ring, d)}"

text \<open>The payload is decrypted and the scrambling control field zeroed.\<close>

definition descramble :: "('k \<Rightarrow> u8 list \<Rightarrow> u8 list) \<Rightarrow> 'k \<Rightarrow> nat \<Rightarrow> u8 list \<Rightarrow> u8 list" where
  "descramble dec key off p = (let q = take off p @ dec key (drop off p) in q[3 := q ! 3 AND 0x3f])"

fun decrypt_batch :: "('k \<Rightarrow> u8 list \<Rightarrow> u8 list) \<Rightarrow> 'k \<Rightarrow> (nat \<times> nat) list \<Rightarrow> u8 list list \<Rightarrow> u8 list list option" where
  "decrypt_batch dec key [] ps = Some ps"
| "decrypt_batch dec key ((slot, off) # es) ps = do {
     p \<leftarrow> rd ps slot;
     decrypt_batch dec key es (ps[slot := descramble dec key off p])}"

definition decsa_decrypt ::
  "(u8 list \<Rightarrow> u8 list \<Rightarrow> u8 list) \<Rightarrow> ring_buffer_t \<Rightarrow> decsa_state \<Rightarrow> (ring_buffer_t \<times> decsa_state) option" where
  "decsa_decrypt dec ring d = do {
     ps \<leftarrow> decrypt_batch dec (even_key d) (take (unat (even_batch_idx d)) (even_batch d)) (data ring);
     ps \<leftarrow> decrypt_batch dec (odd_key d) (take (unat (odd_batch_idx d)) (odd_batch d)) ps;
     Some (ring\<lparr>data := ps\<rparr>, d\<lparr>phase := Publishing, even_batch_idx := 0, odd_batch_idx := 0\<rparr>)}"

definition decsa_publish :: "scam_channel \<Rightarrow> ring_buffer_t \<Rightarrow> decsa_state \<Rightarrow> ring_buffer_t \<times> decsa_state" where
  "decsa_publish sc ring d =
     (ring\<lparr>to_send := to_send ring + scrambled d + nscrambled d\<rparr>,
      d\<lparr>phase := Collecting, nscrambled := 0, scrambled := 0, d_ca_idx := ca_idx sc\<rparr>)"

section \<open>Sending\<close>

definition scam_ring_read :: "scam_channel \<Rightarrow> ring_buffer_t \<Rightarrow> (u8 list \<times> ring_buffer_t) option" where
  "scam_ring_read sc ring = do {
     p \<leftarrow> rd (data ring) (read_send_idx ring);
     Some (p, ring\<lparr>read_send_idx := next_idx (ring_buffer_size sc) (read_send_idx ring), to_send := to_send ring - 1\<rparr>)}"

text \<open>One round of the sending thread, when there is something to send.\<close>

definition sendthread_func ::
  "bool \<Rightarrow> unicast_parameters_t \<Rightarrow> out_env \<Rightarrow> out_world \<Rightarrow> nat \<Rightarrow> scam_channel \<Rightarrow> ring_buffer_t \<Rightarrow>
   (out_world \<times> ring_buffer_t) option" where
  "sendthread_func dont_send_scrambled v env w i sc ring = do {
     send_time \<leftarrow> rd (time_send ring) (read_send_idx ring);
     if to_send ring = 0 then Some (w, ring)
     else do {
       (p, ring) \<leftarrow> scam_ring_read sc ring;
       ch \<leftarrow> rd (chans (uni w)) i;
       ch \<leftarrow> collect_packet dont_send_scrambled ch p;
       let w = upd_out_chan w i ch;
       if buffer_full ch then do {
         w \<leftarrow> send_func dont_send_scrambled v env w i send_time;
         Some (w, ring)}
       else Some (w, ring)}}"

section \<open>Control words\<close>

text \<open>The two requests of OSCam; an index of -1 is a removal.\<close>

datatype camd_request = CA_SET_DESCR u32 bool "u8 list" | CA_SET_PID u32 int

definition scam_set_descr :: "scam_channel \<Rightarrow> u32 \<Rightarrow> bool \<Rightarrow> u8 list \<Rightarrow> scam_channel" where
  "scam_set_descr sc idx parity cw =
     (if idx \<noteq> - 1 then
        if parity then sc\<lparr>odd_cw := cw, got_key_odd := True\<rparr> else sc\<lparr>even_cw := cw, got_key_even := True\<rparr>
      else sc)"

definition scam_set_pid :: "scam_channel \<Rightarrow> int \<Rightarrow> scam_channel" where
  "scam_set_pid sc idx =
     (if idx = -1 then
        let sc = (if ca_idx_refcnt sc \<noteq> 0 then sc\<lparr>ca_idx_refcnt := ca_idx_refcnt sc - 1\<rparr> else sc)
        in if ca_idx_refcnt sc = 0 then sc\<lparr>ca_idx := 0\<rparr> else sc
      else
        let sc = (if ca_idx_refcnt sc = 0 then sc\<lparr>ca_idx := word_of_int (idx + 1)\<rparr> else sc)
        in sc\<lparr>ca_idx_refcnt := ca_idx_refcnt sc + 1\<rparr>)"

definition scam_request :: "scam_channel \<Rightarrow> camd_request \<Rightarrow> scam_channel" where
  "scam_request sc r = (case r of
     CA_SET_DESCR idx parity cw \<Rightarrow> scam_set_descr sc idx parity cw
   | CA_SET_PID pd idx \<Rightarrow> scam_set_pid sc idx)"

text \<open>
  One event of the loop of \<^verbatim>\<open>getcwthread_func\<close>: the request that is read from the socket \<open>fd\<close> changes
  the first channel that has this socket. With static keys configured, no channel is looked at.
\<close>

fun getcw_dispatch :: "nat \<Rightarrow> int \<Rightarrow> camd_request \<Rightarrow> scam_channel list \<Rightarrow> scam_channel list" where
  "getcw_dispatch const_key_count fd r [] = []"
| "getcw_dispatch const_key_count fd r (sc # scs) =
     (if const_key_count > 0 then sc # getcw_dispatch const_key_count fd r scs
      else if fd = camd_socket sc then scam_request sc r # scs
      else sc # getcw_dispatch const_key_count fd r scs)"

section \<open>Asking for control words\<close>

text \<open>
  The request of \<^verbatim>\<open>scam_send_capmt\<close>: a buffer of 1024 bytes, the PMT without header and CRC behind 17
  bytes, and the lengths. \<^verbatim>\<open>full\<close> is \<^verbatim>\<open>data_full\<close> of the copy of the PMT, of length \<open>len\<close>.
\<close>

definition capmt_message :: "nat \<Rightarrow> nat \<Rightarrow> u8 list \<Rightarrow> nat \<Rightarrow> u8 list option" where
  "capmt_message sid adapter full len = do {
     f10 \<leftarrow> rd full 10;
     f11 \<leftarrow> rd full 11;
     let c = (replicate 1024 0)[0 := 0x9F, 1 := 0x80, 2 := 0x32, 3 := 0x82, 6 := 0x03,
       7 := word_of_nat (sid div 256), 8 := word_of_nat sid, 9 := 0, 12 := 0x01, 13 := 0x82, 14 := 0x02, 15 := 0x00,
       16 := word_of_nat adapter, 10 := f10, 11 := f11 + 1 + 4];
     pmt \<leftarrow> (if 16 \<le> len then mem_read full 12 (len - 12 - 4) else None);
     c \<leftarrow> mem_write c 17 pmt;
     let length_field = 17 + (len - 11 - 4) - 6;
     let c = c[4 := word_of_nat (length_field div 256), 5 := word_of_nat length_field];
     mem_read c 0 (length_field + 6)}"

text \<open>
  The keys of \<^verbatim>\<open>scam_send_capmt\<close>: with a static key for the service it is used. The search ends at
  \<^verbatim>\<open>const_key_count\<close>, and the entry of that index is read too.
\<close>

definition find_static_key :: "nat list \<Rightarrow> nat \<Rightarrow> nat \<Rightarrow> nat option option" where
  "find_static_key const_sid const_key_count sid = do {
     let chanid = (case find (\<lambda>k. const_sid ! k = sid) [0..<const_key_count] of Some k \<Rightarrow> k | None \<Rightarrow> const_key_count);
     s \<leftarrow> rd const_sid chanid;
     Some (if sid = s \<and> const_key_count > 0 then Some chanid else None)}"

definition scam_use_static_key :: "scam_channel \<Rightarrow> u8 list \<Rightarrow> u8 list \<Rightarrow> u32 \<Rightarrow> scam_channel" where
  "scam_use_static_key sc ocw ecw pid_index =
     (let sc = sc\<lparr>odd_cw := ocw, got_key_odd := True, even_cw := ecw, got_key_even := True, ca_idx := pid_index + 1\<rparr>
      in if ca_idx_refcnt sc = 0 then sc\<lparr>ca_idx_refcnt := 1\<rparr> else sc)"

section \<open>The threads together\<close>

text \<open>
  The state of the three threads. The packets that were written to the ring and those that were taken
  out of it are recorded, to state what the ring promises.
\<close>

record scam_sys =
  chan :: scam_channel
  ring :: ring_buffer_t
  decsa :: decsa_state
  written :: "u8 list list"
  sent :: "u8 list list"

inductive scam_step :: "nat \<Rightarrow> (u8 list \<Rightarrow> u8 list \<Rightarrow> u8 list) \<Rightarrow> scam_sys \<Rightarrow> scam_sys \<Rightarrow> bool"
  for bs :: nat and dec :: "u8 list \<Rightarrow> u8 list \<Rightarrow> u8 list" where
  Write: "length p = TS_PACKET_SIZE \<Longrightarrow> scam_ring_write (chan s) (ring s) p now = Some r \<Longrightarrow>
     scam_step bs dec s (s\<lparr>ring := r, written := written s @ [p]\<rparr>)"
| Take: "phase (decsa s) = Collecting \<Longrightarrow> to_descramble (ring s) \<noteq> 0 \<Longrightarrow>
     decsa_take bs (chan s) (ring s) (decsa s) = Some (sc, r, d) \<Longrightarrow>
     scam_step bs dec s (s\<lparr>chan := sc, ring := r, decsa := d\<rparr>)"
| Decrypt: "phase (decsa s) = Decrypting \<Longrightarrow> decsa_decrypt dec (ring s) (decsa s) = Some (r, d) \<Longrightarrow>
     scam_step bs dec s (s\<lparr>ring := r, decsa := d\<rparr>)"
| Publish: "phase (decsa s) = Publishing \<Longrightarrow> decsa_publish (chan s) (ring s) (decsa s) = (r, d) \<Longrightarrow>
     scam_step bs dec s (s\<lparr>ring := r, decsa := d\<rparr>)"
| Send: "to_send (ring s) \<noteq> 0 \<Longrightarrow> scam_ring_read (chan s) (ring s) = Some (p, r) \<Longrightarrow>
     scam_step bs dec s (s\<lparr>ring := r, sent := sent s @ [p]\<rparr>)"
| Request: "scam_step bs dec s (s\<lparr>chan := scam_request (chan s) q\<rparr>)"

definition scam_start :: "nat \<Rightarrow> scam_channel \<Rightarrow> u8 list list \<Rightarrow> scam_sys" where
  "scam_start bs sc old = \<lparr>chan = sc, ring = scam_ring_init (ring_buffer_size sc) old, decsa = decsa_init bs,
     written = [], sent = []\<rparr>"

text \<open>The packets in flight; the ring is full when they fill it, and nothing in the program prevents more.\<close>

definition in_flight :: "scam_sys \<Rightarrow> nat" where
  "in_flight s = to_send (ring s) + scrambled (decsa s) + nscrambled (decsa s) + to_descramble (ring s)"

text \<open>Runs in which the ring never overflows.\<close>

inductive scam_reach :: "nat \<Rightarrow> (u8 list \<Rightarrow> u8 list \<Rightarrow> u8 list) \<Rightarrow> scam_sys \<Rightarrow> scam_sys \<Rightarrow> bool"
  for bs :: nat and dec :: "u8 list \<Rightarrow> u8 list \<Rightarrow> u8 list" and s0 :: scam_sys where
  Start: "scam_reach bs dec s0 s0"
| Step: "scam_reach bs dec s0 s \<Longrightarrow> scam_step bs dec s s' \<Longrightarrow> in_flight s' \<le> ring_buffer_size (chan s') \<Longrightarrow>
     scam_reach bs dec s0 s'"

section \<open>The size of the ring\<close>

lemma bit_smear:
  fixes x :: u32
  assumes "y = x OR drop_bit n x" "\<And>i. bit x i \<longleftrightarrow> (\<exists>j < n. bit z (i + j))" "0 < n"
  shows "bit y i \<longleftrightarrow> (\<exists>j < 2 * n. bit z (i + j))"
proof -
  have "bit y i \<longleftrightarrow> (\<exists>j < n. bit z (i + j)) \<or> (\<exists>j < n. bit z (i + (n + j)))"
    using assms by (simp add: bit_or_iff bit_drop_bit_eq add.assoc add.left_commute)
  also have "\<dots> \<longleftrightarrow> (\<exists>j < 2 * n. bit z (i + j))"
  proof
    assume "\<exists>j < 2 * n. bit z (i + j)"
    then obtain j where j: "j < 2 * n" "bit z (i + j)" by blast
    show "(\<exists>j < n. bit z (i + j)) \<or> (\<exists>j < n. bit z (i + (n + j)))"
    proof (cases "j < n")
      case False
      then have "j - n < n" "bit z (i + (n + (j - n)))" using j by simp_all
      then show ?thesis by blast
    qed (use j in blast)
  next
    assume "(\<exists>j < n. bit z (i + j)) \<or> (\<exists>j < n. bit z (i + (n + j)))"
    then show "\<exists>j < 2 * n. bit z (i + j)"
    proof (elim disjE exE conjE)
      fix j assume "j < n" "bit z (i + j)"
      then show ?thesis by (intro exI [of _ j]) simp
    next
      fix j assume "j < n" "bit z (i + (n + j))"
      then show ?thesis by (intro exI [of _ "n + j"]) simp
    qed
  qed
  finally show ?thesis .
qed

text \<open>After the five steps every bit below the highest one is set.\<close>

lemma round_up_bits:
  "\<exists>y. round_up x = y + 1 \<and> (\<forall>i. bit y i \<longleftrightarrow> (\<exists>j < 32. bit (x - 1) (i + j)))"
proof -
  define z where "z = x - 1"
  define a where "a = z OR drop_bit 1 z"
  define b where "b = a OR drop_bit 2 a"
  define c where "c = b OR drop_bit 4 b"
  define d where "d = c OR drop_bit 8 c"
  define e where "e = d OR drop_bit 16 d"
  have "bit a i \<longleftrightarrow> (\<exists>j < 2 * 1. bit z (i + j))" for i by (rule bit_smear [OF a_def]) simp_all
  then have "bit b i \<longleftrightarrow> (\<exists>j < 2 * 2. bit z (i + j))" for i by (intro bit_smear [OF b_def]) simp_all
  then have "bit c i \<longleftrightarrow> (\<exists>j < 2 * 4. bit z (i + j))" for i by (intro bit_smear [OF c_def]) simp_all
  then have "bit d i \<longleftrightarrow> (\<exists>j < 2 * 8. bit z (i + j))" for i by (intro bit_smear [OF d_def]) simp_all
  then have "bit e i \<longleftrightarrow> (\<exists>j < 2 * 16. bit z (i + j))" for i by (intro bit_smear [OF e_def]) simp_all
  moreover have "round_up x = e + 1"
    by (simp add: round_up_def Let_def e_def d_def c_def b_def a_def z_def)
  ultimately show ?thesis unfolding z_def by auto
qed

lemma mask_below:
  fixes z :: u32
  assumes "z \<noteq> 0"
  shows "\<exists>k \<le> 32. (\<forall>i. (\<exists>j < 32. bit z (i + j)) \<longleftrightarrow> i < k) \<and> 0 < k \<and> 2 ^ (k - 1) \<le> unat z \<and> unat z < 2 ^ k"
proof -
  obtain m where m: "bit z m" using assms by (auto simp: bit_eq_iff)
  define k where "k = Suc (Max {i. bit z i})"
  have fin: "finite {i. bit z i}" by (rule finite_subset [of _ "{..<32}"]) (auto dest: bit_imp_le_length)
  have top: "bit z (k - 1)" using Max_in [OF fin] m unfolding k_def by auto
  have above: "\<not> bit z i" if "k \<le> i" for i
  proof
    assume "bit z i"
    then have "i \<le> Max {i. bit z i}" by (intro Max_ge fin) simp
    then show False using that by (simp add: k_def)
  qed
  have k32: "k \<le> 32" using bit_imp_le_length [OF top] by (simp add: k_def)
  have "(\<exists>j < 32. bit z (i + j)) \<longleftrightarrow> i < k" for i
  proof
    assume "i < k"
    then have "k - 1 - i < 32" "bit z (i + (k - 1 - i))" using top k32 by simp_all
    then show "\<exists>j < 32. bit z (i + j)" by blast
  qed (use above in \<open>meson add_leD1 not_less trans_le_add1\<close>)
  moreover have "unat z < 2 ^ k"
  proof -
    have "take_bit k z = z" by (rule bit_word_eqI) (use above not_le in \<open>auto simp: bit_take_bit_iff\<close>)
    then have "take_bit k (unat z) = unat z" by (metis unsigned_take_bit_eq)
    then show ?thesis by (metis take_bit_nat_less_exp)
  qed
  moreover have "2 ^ (k - 1) \<le> unat z"
  proof -
    have "bit (unat z) (k - 1)" using top k32 by (simp add: bit_unsigned_iff)
    then have "odd (unat z div 2 ^ (k - 1))" by (simp add: bit_iff_odd)
    then have "unat z div 2 ^ (k - 1) \<noteq> 0" by (rule odd_pos [THEN gr_implies_not0])
    then show ?thesis by (meson div_less not_less)
  qed
  ultimately show ?thesis using k32 by (intro exI [of _ k]) (simp add: k_def)
qed

lemma round_up_ok:
  assumes "0 < unat x" "unat x \<le> 2 ^ 30"
  shows "\<exists>k. unat (round_up x) = 2 ^ k \<and> unat x \<le> 2 ^ k \<and> 2 ^ k < 2 * unat x"
proof -
  obtain y where y: "round_up x = y + 1" "\<And>i. bit y i \<longleftrightarrow> (\<exists>j < 32. bit (x - 1) (i + j))"
    using round_up_bits by blast
  have x0: "x \<noteq> 0" using assms by auto
  then have ux: "unat (x - 1) = unat x - 1" by (simp add: unat_minus_one)
  show ?thesis
  proof (cases "x - 1 = 0")
    case True
    then have "y = 0" using y(2) by (intro bit_word_eqI) simp
    moreover have "unat x = 1" using ux True assms(1) by simp
    ultimately show ?thesis using y(1) by (intro exI [of _ 0]) simp
  next
    case False
    from mask_below [OF False] obtain k where k: "\<And>i. (\<exists>j < 32. bit (x - 1) (i + j)) \<longleftrightarrow> i < k" "0 < k"
      "2 ^ (k - 1) \<le> unat (x - 1)" "unat (x - 1) < 2 ^ k" by blast
    have "(2 :: nat) ^ (k - 1) < 2 ^ 30" using k(3) ux assms by linarith
    then have k30: "k \<le> 30" using power_less_imp_less_exp [of "2 :: nat" "k - 1" 30] by simp
    have "y = mask k" using y(2) k(1) k30 by (intro bit_word_eqI) (simp add: bit_mask_iff)
    then have "round_up x = 2 ^ k" using y(1) by (simp add: mask_eq_exp_minus_1)
    then have "round_up x = word_of_nat (2 ^ k)" by simp
    moreover have "(2 :: nat) ^ k < 2 ^ 32" by (rule power_strict_increasing) (use k30 in simp_all)
    ultimately have "unat (round_up x) = 2 ^ k" by (simp add: unat_of_nat del: of_nat_power)
    moreover have "(2 :: nat) ^ k = 2 * 2 ^ (k - 1)" using k(2) by (metis Suc_diff_1 power_Suc)
    ultimately show ?thesis using k(3,4) ux assms(1) by (intro exI [of _ k]) auto
  qed
qed

lemma next_idx_mod: "sz = 2 ^ k \<Longrightarrow> next_idx sz (n mod sz) = (n + 1) mod sz"
proof -
  assume "sz = 2 ^ k"
  moreover have "x AND (2 ^ k - 1) = x mod 2 ^ k" for x :: nat
    by (metis take_bit_eq_mask take_bit_eq_mod mask_eq_exp_minus_1)
  ultimately have "next_idx sz (n mod sz) = (n mod sz + 1) mod sz" by (simp add: next_idx_def)
  then show ?thesis by (simp add: mod_Suc_eq)
qed

section \<open>The promise of the ring\<close>

text \<open>A packet passes unchanged, or decrypted with some key when it is scrambled and has a payload.\<close>

definition passed :: "(u8 list \<Rightarrow> u8 list \<Rightarrow> u8 list) \<Rightarrow> u8 list \<Rightarrow> u8 list \<Rightarrow> bool" where
  "passed dec p q \<longleftrightarrow> q = p \<or>
     (scrambling_of p \<noteq> 0 \<and> (\<exists>key. q = descramble dec key (ts_packet_get_payload_offset p) p))"

text \<open>The used entries of the two batches.\<close>

definition evens :: "decsa_state \<Rightarrow> (nat \<times> nat) list" where
  "evens d = take (unat (even_batch_idx d)) (even_batch d)"

definition odds :: "decsa_state \<Rightarrow> (nat \<times> nat) list" where
  "odds d = take (unat (odd_batch_idx d)) (odd_batch d)"

text \<open>
  The packets are numbered in the order of writing; packet \<open>n\<close> is in slot \<open>n mod N\<close>. The packets that
  may be sent come first, then those of the batch, then those to descramble.
\<close>

definition batch_start :: "scam_sys \<Rightarrow> nat" where
  "batch_start s = length (sent s) + to_send (ring s)"

definition batch_end :: "scam_sys \<Rightarrow> nat" where
  "batch_end s = batch_start s + scrambled (decsa s) + nscrambled (decsa s)"

definition slot :: "scam_sys \<Rightarrow> nat \<Rightarrow> u8 list" where
  "slot s n = data (ring s) ! (n mod length (data (ring s)))"

definition indices_ok :: "scam_sys \<Rightarrow> bool" where
  "indices_ok s \<longleftrightarrow> (let N = ring_buffer_size (chan s); r = ring s in
     (\<exists>k. N = 2 ^ k) \<and> length (data r) = N \<and> length (time_send r) = N \<and> length (time_decsa r) = N \<and>
     read_send_idx r = length (sent s) mod N \<and> read_decsa_idx r = batch_end s mod N \<and>
     write_idx r = length (written s) mod N \<and>
     length (written s) = batch_end s + to_descramble r \<and> length (written s) \<le> length (sent s) + N)"

definition contents_ok :: "(u8 list \<Rightarrow> u8 list \<Rightarrow> u8 list) \<Rightarrow> scam_sys \<Rightarrow> bool" where
  "contents_ok dec s \<longleftrightarrow> (\<forall>p \<in> set (written s). length p = TS_PACKET_SIZE) \<and>
     (\<forall>n < length (sent s). passed dec (written s ! n) (sent s ! n)) \<and>
     (\<forall>n. length (sent s) \<le> n \<and> n < length (written s) \<longrightarrow>
        (if n < (if phase (decsa s) = Publishing then batch_end s else batch_start s)
         then passed dec (written s ! n) (slot s n) else slot s n = written s ! n))"

definition entry_ok :: "scam_sys \<Rightarrow> nat \<times> nat \<Rightarrow> bool" where
  "entry_ok s e \<longleftrightarrow> (\<exists>n. batch_start s \<le> n \<and> n < batch_end s \<and> fst e = n mod ring_buffer_size (chan s) \<and>
     scrambling_of (written s ! n) \<noteq> 0 \<and> snd e = ts_packet_get_payload_offset (written s ! n))"

definition batches_ok :: "nat \<Rightarrow> scam_sys \<Rightarrow> bool" where
  "batches_ok bs s \<longleftrightarrow> (let d = decsa s in
     length (even_batch d) = bs + 1 \<and> length (odd_batch d) = bs + 1 \<and>
     unat (even_batch_idx d) + unat (odd_batch_idx d) \<le> scrambled d \<and>
     (phase d = Collecting \<longrightarrow> scrambled d < bs \<and> nscrambled d < bs) \<and> scrambled d \<le> bs \<and> nscrambled d \<le> bs \<and>
     (phase d = Publishing \<longrightarrow> even_batch_idx d = 0 \<and> odd_batch_idx d = 0) \<and>
     distinct (map fst (evens d @ odds d)) \<and> (\<forall>e \<in> set (evens d @ odds d). entry_ok s e))"

definition scam_inv :: "nat \<Rightarrow> (u8 list \<Rightarrow> u8 list \<Rightarrow> u8 list) \<Rightarrow> scam_sys \<Rightarrow> bool" where
  "scam_inv bs dec s \<longleftrightarrow> indices_ok s \<and> contents_ok dec s \<and> batches_ok bs s"

lemmas scam_idx_defs = indices_ok_def batch_start_def batch_end_def Let_def

lemma mod_inj_window:
  fixes a b N s :: nat
  assumes "s \<le> a" "a < s + N" "s \<le> b" "b < s + N"
  shows "a mod N = b mod N \<longleftrightarrow> a = b"
proof
  assume e: "a mod N = b mod N"
  show "a = b"
  proof (rule ccontr)
    assume "a \<noteq> b"
    moreover have "False" if "x < y" "x mod N = y mod N" "s \<le> x" "y < s + N" for x y :: nat
    proof -
      have "N dvd y - x" using that(1,2) by (metis mod_eq_dvd_iff_nat less_imp_le_nat)
      then have "N \<le> y - x" using that(1) by (simp add: dvd_imp_le)
      then show False using that by simp
    qed
    ultimately show False using assms e by (metis linorder_neqE_nat)
  qed
qed simp

lemma scam_start_inv:
  assumes "ring_buffer_size sc = 2 ^ k" "length old = ring_buffer_size sc" "0 < bs"
  shows "scam_inv bs dec (scam_start bs sc old)"
  using assms
  by (auto simp: scam_inv_def scam_idx_defs contents_ok_def batches_ok_def scam_start_def scam_ring_init_def decsa_init_def
      evens_def odds_def)

lemma entry_okE:
  assumes "entry_ok s e"
  obtains n where "batch_start s \<le> n" "n < batch_end s" "fst e = n mod ring_buffer_size (chan s)"
    "scrambling_of (written s ! n) \<noteq> 0" "snd e = ts_packet_get_payload_offset (written s ! n)"
  using assms unfolding entry_ok_def by blast

lemma entry_okI:
  "batch_start s \<le> n \<Longrightarrow> n < batch_end s \<Longrightarrow> fst e = n mod ring_buffer_size (chan s) \<Longrightarrow>
   scrambling_of (written s ! n) \<noteq> 0 \<Longrightarrow> snd e = ts_packet_get_payload_offset (written s ! n) \<Longrightarrow> entry_ok s e"
  unfolding entry_ok_def by blast

text \<open>Each step keeps the invariant.\<close>

lemma step_write:
  assumes inv: "scam_inv bs dec s" and p: "length p = TS_PACKET_SIZE"
    and w: "scam_ring_write (chan s) (ring s) p now = Some r"
    and room: "in_flight (s\<lparr>ring := r, written := written s @ [p]\<rparr>) \<le> ring_buffer_size (chan s)"
  shows "scam_inv bs dec (s\<lparr>ring := r, written := written s @ [p]\<rparr>)"
proof -
  let ?N = "ring_buffer_size (chan s)" let ?W = "length (written s)"
  let ?s = "s\<lparr>ring := r, written := written s @ [p]\<rparr>"
  have I: "indices_ok s" "contents_ok dec s" "batches_ok bs s" using inv by (simp_all add: scam_inv_def)
  then obtain k where k: "?N = 2 ^ k" by (auto simp: scam_idx_defs)
  have lens: "length (data (ring s)) = ?N" "write_idx (ring s) = ?W mod ?N" "length (time_send (ring s)) = ?N"
     "length (time_decsa (ring s)) = ?N" using I(1) by (auto simp: scam_idx_defs)
  have r: "data r = (data (ring s))[?W mod ?N := p]" "write_idx r = next_idx ?N (?W mod ?N)"
    "to_descramble r = to_descramble (ring s) + 1" "to_send r = to_send (ring s)"
    "read_send_idx r = read_send_idx (ring s)" "read_decsa_idx r = read_decsa_idx (ring s)"
    "length (time_send r) = ?N" "length (time_decsa r) = ?N"
    using w lens by (auto simp: scam_ring_write_def wr_def split: Option.bind_splits if_splits)
  have be: "batch_start ?s = batch_start s" "batch_end ?s = batch_end s" using r by (simp_all add: batch_start_def batch_end_def)
  have W: "?W = batch_end s + to_descramble (ring s)" using I(1) by (simp add: scam_idx_defs)
  have rm: "?W < length (sent s) + ?N" using room r W by (simp add: in_flight_def batch_end_def batch_start_def)
  have "indices_ok ?s"
    using I(1) r be W rm k next_idx_mod [OF k, of ?W] unfolding indices_ok_def Let_def by (simp add: batch_end_def batch_start_def)
  moreover have sl: "slot ?s n = (if n = ?W then p else slot s n)" if "length (sent s) \<le> n" "n \<le> ?W" for n
  proof -
    have "n mod ?N = ?W mod ?N \<longleftrightarrow> n = ?W" by (rule mod_inj_window [of "length (sent s)"]) (use that rm in auto)
    moreover have "?W mod ?N < ?N" using k by simp
    ultimately show ?thesis using lens r(1) by (auto simp: slot_def)
  qed
  have "contents_ok dec ?s"
  proof -
    have le: "batch_end s \<le> ?W" "length (sent s) \<le> ?W" "batch_start s \<le> ?W" using W by (simp_all add: batch_end_def batch_start_def)
    have "if n < (if phase (decsa s) = Publishing then batch_end s else batch_start s)
         then passed dec ((written s @ [p]) ! n) (slot ?s n) else slot ?s n = (written s @ [p]) ! n"
      if n: "length (sent s) \<le> n" "n < Suc ?W" for n
    proof (cases "n = ?W")
      case True
      then show ?thesis using sl [of n] n le by (auto simp: nth_append)
    next
      case False
      then have "n < ?W" using n by simp
      then show ?thesis using I(2) sl [of n] n by (simp add: contents_ok_def nth_append)
    qed
    then have "\<forall>n. length (sent ?s) \<le> n \<and> n < length (written ?s) \<longrightarrow>
        (if n < (if phase (decsa ?s) = Publishing then batch_end ?s else batch_start ?s)
         then passed dec (written ?s ! n) (slot ?s n) else slot ?s n = written ?s ! n)"
      unfolding be by simp
    moreover have "\<forall>n < length (sent ?s). passed dec (written ?s ! n) (sent ?s ! n)"
      using I(2) le by (simp add: contents_ok_def nth_append)
    moreover have "\<forall>q \<in> set (written ?s). length q = TS_PACKET_SIZE" using I(2) p by (simp add: contents_ok_def)
    ultimately show ?thesis unfolding contents_ok_def by blast
  qed
  moreover have "batches_ok bs ?s"
  proof -
    have "entry_ok ?s e" if en: "entry_ok s e" for e
    proof -
      obtain n where n: "batch_start s \<le> n" "n < batch_end s" "fst e = n mod ?N" "scrambling_of (written s ! n) \<noteq> 0"
        "snd e = ts_packet_get_payload_offset (written s ! n)" using en by (rule entry_okE)
      then have "(written s @ [p]) ! n = written s ! n" using W by (simp add: nth_append)
      then show ?thesis using n unfolding entry_ok_def be by (intro exI [of _ n]) simp
    qed
    then show ?thesis using I(3) unfolding batches_ok_def Let_def by simp
  qed
  ultimately show ?thesis by (simp add: scam_inv_def)
qed

lemma take_append_entry:
  assumes "unat (i :: u8) < 255" "unat i < length b"
  shows "take (unat (i + 1)) (b[unat i := x]) = take (unat i) b @ [x]" "unat (i + 1) = unat i + 1"
proof -
  show "unat (i + 1) = unat i + 1" using assms(1) by (simp add: unat_word_ariths)
  then show "take (unat (i + 1)) (b[unat i := x]) = take (unat i) b @ [x]"
    using assms(2) by (simp add: take_Suc_conv_app_nth)
qed

text \<open>What sorting a packet does to the batches.\<close>

lemma decsa_sort_ok:
  assumes len: "length (even_batch d) = bs + 1" "length (odd_batch d) = bs + 1"
    and idx: "unat (even_batch_idx d) + unat (odd_batch_idx d) \<le> scrambled d" and s: "scrambled d < bs" and bs: "bs \<le> 255"
    and d': "decsa_sort sl p d = Some d'"
  shows "length (even_batch d') = bs + 1 \<and> length (odd_batch d') = bs + 1 \<and> phase d' = phase d \<and>
     unat (even_batch_idx d') + unat (odd_batch_idx d') \<le> scrambled d' \<and>
     scrambled d' + nscrambled d' = scrambled d + nscrambled d + 1 \<and> scrambled d \<le> scrambled d' \<and> nscrambled d \<le> nscrambled d' \<and>
     (evens d' = evens d \<and> odds d' = odds d \<or>
      scrambling_of p \<noteq> 0 \<and> (evens d' = evens d @ [(sl, ts_packet_get_payload_offset p)] \<and> odds d' = odds d \<or>
        evens d' = evens d \<and> odds d' = odds d @ [(sl, ts_packet_get_payload_offset p)]))"
proof -
  have e: "unat (even_batch_idx d) < 255" "unat (odd_batch_idx d) < 255" "unat (even_batch_idx d) < bs + 1" "unat (odd_batch_idx d) < bs + 1"
    using idx s bs by simp_all
  note E = take_append_entry [OF e(1), of "even_batch d"] take_append_entry [OF e(2), of "odd_batch d"]
  consider (even) "scrambling_of p = 2" "d_ca_idx d \<noteq> 0" "got_first_even_key d" | (odd) "scrambling_of p = 3" "d_ca_idx d \<noteq> 0" "got_first_odd_key d"
    | (skip) "scrambling_of p = 2 \<and> \<not> (d_ca_idx d \<noteq> 0 \<and> got_first_even_key d) \<or> scrambling_of p = 3 \<and> \<not> (d_ca_idx d \<noteq> 0 \<and> got_first_odd_key d)"
    | (clear) "scrambling_of p \<noteq> 2" "scrambling_of p \<noteq> 3" by blast
  then show ?thesis
  proof cases
    case even
    then have "d' = d\<lparr>scrambled := scrambled d + 1, even_batch := (even_batch d)[unat (even_batch_idx d) := (sl, ts_packet_get_payload_offset p)],
        even_batch_idx := even_batch_idx d + 1\<rparr>" using d' e len by (simp add: decsa_sort_def wr_def Let_def)
    then show ?thesis using E(1,2) e len idx even by (simp add: evens_def odds_def)
  next
    case odd
    then have "d' = d\<lparr>scrambled := scrambled d + 1, odd_batch := (odd_batch d)[unat (odd_batch_idx d) := (sl, ts_packet_get_payload_offset p)],
        odd_batch_idx := odd_batch_idx d + 1\<rparr>" using d' e len by (simp add: decsa_sort_def wr_def Let_def)
    then show ?thesis using E(3,4) e len idx odd by (simp add: evens_def odds_def)
  next
    case skip
    then have "d' = d\<lparr>scrambled := scrambled d + 1\<rparr>" using d' by (auto simp: decsa_sort_def Let_def)
    then show ?thesis using len idx by (simp add: evens_def odds_def)
  next
    case clear
    then have "d' = d\<lparr>nscrambled := nscrambled d + 1\<rparr>" using d' by (simp add: decsa_sort_def Let_def)
    then show ?thesis using len idx by (simp add: evens_def odds_def)
  qed
qed

lemma decsa_load_same:
  "(sc', d') = decsa_load_even sc d \<Longrightarrow> ring_buffer_size sc' = ring_buffer_size sc \<and>
     even_batch d' = even_batch d \<and> odd_batch d' = odd_batch d \<and> even_batch_idx d' = even_batch_idx d \<and>
     odd_batch_idx d' = odd_batch_idx d \<and> scrambled d' = scrambled d \<and> nscrambled d' = nscrambled d \<and> phase d' = phase d"
  "(sc', d') = decsa_load_odd sc d \<Longrightarrow> ring_buffer_size sc' = ring_buffer_size sc \<and>
     even_batch d' = even_batch d \<and> odd_batch d' = odd_batch d \<and> even_batch_idx d' = even_batch_idx d \<and>
     odd_batch_idx d' = odd_batch_idx d \<and> scrambled d' = scrambled d \<and> nscrambled d' = nscrambled d \<and> phase d' = phase d"
  by (auto simp: decsa_load_even_def decsa_load_odd_def split: if_splits)

text \<open>The result of one round, up to the keys.\<close>

lemma decsa_take_cases:
  assumes "decsa_take bs sc rb d = Some (sc', r, d')"
  shows "\<exists>p d1. rd (data rb) (read_decsa_idx rb) = Some p \<and> decsa_sort (read_decsa_idx rb) p d = Some d1 \<and>
     r = rb\<lparr>read_decsa_idx := next_idx (ring_buffer_size sc) (read_decsa_idx rb), to_descramble := to_descramble rb - 1\<rparr> \<and>
     ring_buffer_size sc' = ring_buffer_size sc \<and> even_batch d' = even_batch d1 \<and> odd_batch d' = odd_batch d1 \<and>
     even_batch_idx d' = even_batch_idx d1 \<and> odd_batch_idx d' = odd_batch_idx d1 \<and>
     scrambled d' = scrambled d1 \<and> nscrambled d' = nscrambled d1 \<and>
     phase d' = (if scrambled d1 = bs \<or> nscrambled d1 = bs then Decrypting else phase d1)"
proof -
  obtain p d1 where p: "rd (data rb) (read_decsa_idx rb) = Some p" "decsa_sort (read_decsa_idx rb) p d = Some d1"
    using assms by (auto simp: decsa_take_def split: Option.bind_splits)
  obtain sc2 d2 where l2: "decsa_load_even sc d1 = (sc2, d2)" by fastforce
  obtain sc3 d3 where l3: "decsa_load_odd sc2 d2 = (sc3, d3)" by fastforce
  note same = decsa_load_same(1) [OF l2 [symmetric]] decsa_load_same(2) [OF l3 [symmetric]]
  show ?thesis
    using assms p l2 l3 same
    by (intro exI [of _ p] exI [of _ d1]) (auto simp: decsa_take_def Let_def split: if_splits)
qed

lemma step_take:
  assumes inv: "scam_inv bs dec s" and ph: "phase (decsa s) = Collecting" and n: "to_descramble (ring s) \<noteq> 0"
    and t: "decsa_take bs (chan s) (ring s) (decsa s) = Some (sc, r, d)" and bs: "bs \<le> 255"
  shows "scam_inv bs dec (s\<lparr>chan := sc, ring := r, decsa := d\<rparr>)"
proof -
  let ?N = "ring_buffer_size (chan s)" let ?s = "s\<lparr>chan := sc, ring := r, decsa := d\<rparr>" let ?n = "batch_end s"
  have I: "indices_ok s" "contents_ok dec s" "batches_ok bs s" using inv by (simp_all add: scam_inv_def)
  then obtain k where k: "?N = 2 ^ k" by (auto simp: scam_idx_defs)
  have rdi: "read_decsa_idx (ring s) = ?n mod ?N" and ld: "length (data (ring s)) = ?N"
    and W: "length (written s) = ?n + to_descramble (ring s)" using I(1) by (auto simp: indices_ok_def Let_def)
  obtain p d1 where P: "rd (data (ring s)) (?n mod ?N) = Some p" "decsa_sort (?n mod ?N) p (decsa s) = Some d1"
    "r = (ring s)\<lparr>read_decsa_idx := next_idx ?N (?n mod ?N), to_descramble := to_descramble (ring s) - 1\<rparr>"
    "ring_buffer_size sc = ?N" "even_batch d = even_batch d1" "odd_batch d = odd_batch d1"
    "even_batch_idx d = even_batch_idx d1" "odd_batch_idx d = odd_batch_idx d1"
    "scrambled d = scrambled d1" "nscrambled d = nscrambled d1"
    "phase d = (if scrambled d1 = bs \<or> nscrambled d1 = bs then Decrypting else phase d1)"
    using decsa_take_cases [OF t] unfolding rdi by blast
  have B: "length (even_batch (decsa s)) = bs + 1" "length (odd_batch (decsa s)) = bs + 1"
    "unat (even_batch_idx (decsa s)) + unat (odd_batch_idx (decsa s)) \<le> scrambled (decsa s)"
    "scrambled (decsa s) < bs" "nscrambled (decsa s) < bs" "distinct (map fst (evens (decsa s) @ odds (decsa s)))"
    "\<And>e. e \<in> set (evens (decsa s) @ odds (decsa s)) \<Longrightarrow> entry_ok s e"
    using I(3) ph unfolding batches_ok_def Let_def by auto
  note S = decsa_sort_ok [OF B(1-4) bs P(2)]
  have eo: "evens d = evens d1" "odds d = odds d1" using P by (simp_all add: evens_def odds_def)
  have be: "batch_start ?s = batch_start s" "batch_end ?s = Suc ?n"
    using P S by (simp_all add: batch_start_def batch_end_def)
  have nW: "?n < length (written s)" using W n by simp
  have sb: "length (sent s) \<le> batch_start s" "batch_start s \<le> ?n" by (simp_all add: batch_start_def batch_end_def)
  have pn: "p = written s ! ?n"
  proof -
    have "slot s ?n = written s ! ?n" using I(2) nW order_trans [OF sb] sb(2) ph unfolding contents_ok_def by simp
    then show ?thesis using P(1) ld by (simp add: rd_Some_iff slot_def)
  qed
  have npub: "phase d \<noteq> Publishing" using P(11) S ph by auto
  have "indices_ok ?s"
    using I(1) P(3,4) be W n next_idx_mod [OF k, of ?n] unfolding indices_ok_def Let_def by simp
  moreover have "contents_ok dec ?s"
  proof -
    have "slot ?s n = slot s n" for n by (simp add: slot_def P(3))
    then show ?thesis using I(2) be npub ph unfolding contents_ok_def by simp
  qed
  moreover have "batches_ok bs ?s"
  proof -
    have old: "entry_ok ?s e" if en: "entry_ok s e" for e
      by (rule entry_okE [OF en], rule entry_okI) (simp_all add: be P(4))
    have new: "entry_ok ?s (?n mod ?N, ts_packet_get_payload_offset p)" if "scrambling_of p \<noteq> 0"
      unfolding entry_ok_def be using that sb pn P(4) by (intro exI [of _ ?n]) simp
    have fresh: "?n mod ?N \<notin> fst ` set (evens (decsa s) @ odds (decsa s))"
    proof
      assume "?n mod ?N \<in> fst ` set (evens (decsa s) @ odds (decsa s))"
      then obtain e where e: "e \<in> set (evens (decsa s) @ odds (decsa s))" "fst e = ?n mod ?N" by fastforce
      from B(7) [OF e(1)] obtain m where m: "batch_start s \<le> m" "m < ?n" "fst e = m mod ?N" unfolding entry_ok_def by blast
      have "length (written s) \<le> length (sent s) + ?N" using I(1) by (simp add: indices_ok_def Let_def)
      then have "m mod ?N = ?n mod ?N \<longleftrightarrow> m = ?n" by (intro mod_inj_window [of "length (sent s)"]) (use m sb nW in auto)
      then show False using m e by simp
    qed
    have "distinct (map fst (evens d @ odds d)) \<and> (\<forall>e \<in> set (evens d @ odds d). entry_ok ?s e)"
      using S B(6,7) old new fresh unfolding eo by (elim conjE disjE) auto
    then show ?thesis using S P(5-11) B(4,5) npub unfolding batches_ok_def Let_def by auto
  qed
  ultimately show ?thesis by (simp add: scam_inv_def)
qed

lemma decrypt_batch_ok:
  "decrypt_batch dec key es ps = Some ps' \<Longrightarrow> distinct (map fst es) \<Longrightarrow>
   length ps' = length ps \<and> (\<forall>j. j \<notin> fst ` set es \<longrightarrow> ps' ! j = ps ! j) \<and>
   (\<forall>j off. (j, off) \<in> set es \<longrightarrow> ps' ! j = descramble dec key off (ps ! j))"
proof (induction dec key es ps rule: decrypt_batch.induct)
  case (2 dec key sl off es ps)
  then have l: "sl < length ps" and r: "decrypt_batch dec key es (ps[sl := descramble dec key off (ps ! sl)]) = Some ps'"
    by (auto simp: rd_Some_iff split: Option.bind_splits)
  have d: "distinct (map fst es)" "sl \<notin> fst ` set es" using "2.prems"(2) by simp_all
  have "rd ps sl = Some (ps ! sl)" using l by (simp add: rd_def)
  from "2.IH" [OF this r d(1)] have IH: "length ps' = length ps"
    "\<And>j. j \<notin> fst ` set es \<Longrightarrow> ps' ! j = ps[sl := descramble dec key off (ps ! sl)] ! j"
    "\<And>j o'. (j, o') \<in> set es \<Longrightarrow> ps' ! j = descramble dec key o' (ps[sl := descramble dec key off (ps ! sl)] ! j)" by auto
  have "ps' ! sl = descramble dec key off (ps ! sl)" using IH(2) [OF d(2)] l by simp
  moreover have "ps' ! j = ps ! j" if "j \<notin> fst ` set ((sl, off) # es)" for j using IH(2) [of j] that by simp
  moreover have "ps' ! j = descramble dec key o' (ps ! j)" if "(j, o') \<in> set es" for j o'
  proof -
    have "j \<noteq> sl" using that d(2) by force
    then show ?thesis using IH(3) [OF that] by simp
  qed
  ultimately show ?case using IH(1) by auto
qed simp

lemma step_decrypt:
  assumes inv: "scam_inv bs dec s" and ph: "phase (decsa s) = Decrypting"
    and t: "decsa_decrypt dec (ring s) (decsa s) = Some (r, d)"
  shows "scam_inv bs dec (s\<lparr>ring := r, decsa := d\<rparr>)"
proof -
  let ?N = "ring_buffer_size (chan s)" let ?s = "s\<lparr>ring := r, decsa := d\<rparr>" let ?d = "decsa s"
  have I: "indices_ok s" "contents_ok dec s" "batches_ok bs s" using inv by (simp_all add: scam_inv_def)
  obtain qs ps where q: "decrypt_batch dec (even_key ?d) (evens ?d) (data (ring s)) = Some qs"
    "decrypt_batch dec (odd_key ?d) (odds ?d) qs = Some ps" and r: "r = (ring s)\<lparr>data := ps\<rparr>"
    and d: "d = ?d\<lparr>phase := Publishing, even_batch_idx := 0, odd_batch_idx := 0\<rparr>"
    using t by (auto simp: decsa_decrypt_def evens_def odds_def split: Option.bind_splits)
  have dist: "distinct (map fst (evens ?d))" "distinct (map fst (odds ?d))" "fst ` set (evens ?d) \<inter> fst ` set (odds ?d) = {}"
    and en: "\<And>e. e \<in> set (evens ?d) \<union> set (odds ?d) \<Longrightarrow> entry_ok s e"
    using I(3) unfolding batches_ok_def Let_def by auto
  note Q = decrypt_batch_ok [OF q(1) dist(1)] and P = decrypt_batch_ok [OF q(2) dist(2)]
  have ld: "length (data (ring s)) = ?N" "length ps = ?N" and win: "length (written s) \<le> length (sent s) + ?N"
    and W: "length (written s) = batch_end s + to_descramble (ring s)"
    using I(1) Q P by (auto simp: indices_ok_def Let_def)
  have be: "batch_start ?s = batch_start s" "batch_end ?s = batch_end s" by (simp_all add: batch_start_def batch_end_def r d)
  have sb: "length (sent s) \<le> batch_start s" "batch_start s \<le> batch_end s" by (simp_all add: batch_start_def batch_end_def)
  have "indices_ok ?s" using I(1) ld be r unfolding indices_ok_def Let_def by simp
  moreover have "contents_ok dec ?s"
  proof -
    have sl: "slot ?s n = ps ! (n mod ?N)" "slot s n = data (ring s) ! (n mod ?N)" for n using ld by (simp_all add: slot_def r)
    have old: "if n < batch_start s then passed dec (written s ! n) (slot s n) else slot s n = written s ! n"
      if "length (sent s) \<le> n" "n < length (written s)" for n
      using I(2) that ph unfolding contents_ok_def by simp
    have "if n < batch_end s then passed dec (written s ! n) (slot ?s n) else slot ?s n = written s ! n"
      if n: "length (sent s) \<le> n" "n < length (written s)" for n
    proof (cases "\<exists>off. (n mod ?N, off) \<in> set (evens ?d) \<union> set (odds ?d)")
      case True
      then obtain off where o: "(n mod ?N, off) \<in> set (evens ?d) \<union> set (odds ?d)" by blast
      from en [OF o] obtain m where m: "batch_start s \<le> m" "m < batch_end s" "n mod ?N = m mod ?N"
        "scrambling_of (written s ! m) \<noteq> 0" "off = ts_packet_get_payload_offset (written s ! m)"
        by (rule entry_okE) auto
      have "n mod ?N = m mod ?N \<longleftrightarrow> n = m" by (rule mod_inj_window [of "length (sent s)"]) (use m sb n W win in auto)
      then have mn: "m = n" using m(3) by simp
      then have eq: "slot s n = written s ! n" using old [OF n] m(1) by simp
      obtain key where "slot ?s n = descramble dec key off (slot s n)"
      proof (cases "(n mod ?N, off) \<in> set (evens ?d)")
        case True
        then have "n mod ?N \<notin> fst ` set (odds ?d)" using dist(3) by force
        then show ?thesis using True Q P sl [of n] that by metis
      next
        case False
        then have "(n mod ?N, off) \<in> set (odds ?d)" using o by blast
        moreover then have "n mod ?N \<notin> fst ` set (evens ?d)" using dist(3) by force
        ultimately show ?thesis using Q P sl [of n] that by metis
      qed
      then have "passed dec (written s ! n) (slot ?s n)" unfolding passed_def eq using m(4,5) mn by blast
      then show ?thesis using m mn by simp
    next
      case False
      then have "n mod ?N \<notin> fst ` set (evens ?d)" "n mod ?N \<notin> fst ` set (odds ?d)" by force+
      then have "slot ?s n = slot s n" using Q P sl [of n] by metis
      then show ?thesis using old [OF n] sb by (auto simp: passed_def split: if_splits)
    qed
    moreover have "phase d = Publishing" by (simp add: d)
    ultimately show ?thesis using I(2) be unfolding contents_ok_def by simp
  qed
  moreover have "batches_ok bs ?s"
    using I(3) ph unfolding batches_ok_def Let_def by (simp add: d evens_def odds_def)
  ultimately show ?thesis by (simp add: scam_inv_def)
qed

lemma step_publish:
  assumes inv: "scam_inv bs dec s" and ph: "phase (decsa s) = Publishing" and bs: "0 < bs"
    and t: "decsa_publish (chan s) (ring s) (decsa s) = (r, d)"
  shows "scam_inv bs dec (s\<lparr>ring := r, decsa := d\<rparr>)"
proof -
  let ?s = "s\<lparr>ring := r, decsa := d\<rparr>"
  have I: "indices_ok s" "contents_ok dec s" "batches_ok bs s" using inv by (simp_all add: scam_inv_def)
  have r: "r = (ring s)\<lparr>to_send := to_send (ring s) + scrambled (decsa s) + nscrambled (decsa s)\<rparr>"
    and d: "d = (decsa s)\<lparr>phase := Collecting, nscrambled := 0, scrambled := 0, d_ca_idx := ca_idx (chan s)\<rparr>"
    using t by (simp_all add: decsa_publish_def)
  have be: "batch_start ?s = batch_end s" "batch_end ?s = batch_end s" by (simp_all add: batch_start_def batch_end_def r d)
  have "indices_ok ?s" using I(1) be unfolding indices_ok_def Let_def by (simp add: r)
  moreover have "slot ?s n = slot s n" for n by (simp add: slot_def r)
  then have "contents_ok dec ?s" using I(2) be ph unfolding contents_ok_def by (simp add: d)
  moreover have "batches_ok bs ?s" using I(3) ph bs unfolding batches_ok_def Let_def by (simp add: d evens_def odds_def)
  ultimately show ?thesis by (simp add: scam_inv_def)
qed

lemma step_send:
  assumes inv: "scam_inv bs dec s" and n: "to_send (ring s) \<noteq> 0" and t: "scam_ring_read (chan s) (ring s) = Some (p, r)"
  shows "scam_inv bs dec (s\<lparr>ring := r, sent := sent s @ [p]\<rparr>)"
proof -
  let ?N = "ring_buffer_size (chan s)" let ?s = "s\<lparr>ring := r, sent := sent s @ [p]\<rparr>" let ?n = "length (sent s)"
  have I: "indices_ok s" "contents_ok dec s" "batches_ok bs s" using inv by (simp_all add: scam_inv_def)
  then obtain k where k: "?N = 2 ^ k" by (auto simp: indices_ok_def Let_def)
  have ix: "read_send_idx (ring s) = ?n mod ?N" "length (data (ring s)) = ?N"
    "length (written s) = batch_end s + to_descramble (ring s)" using I(1) by (auto simp: indices_ok_def Let_def)
  have r: "r = (ring s)\<lparr>read_send_idx := next_idx ?N (?n mod ?N), to_send := to_send (ring s) - 1\<rparr>" and p: "p = slot s ?n"
    using t ix by (auto simp: scam_ring_read_def rd_Some_iff slot_def split: Option.bind_splits)
  have be: "batch_start ?s = batch_start s" "batch_end ?s = batch_end s" using n by (simp_all add: batch_start_def batch_end_def r)
  have lt: "?n < batch_start s" "?n < batch_end s" "?n < length (written s)" using n ix(3) by (simp_all add: batch_start_def batch_end_def)
  have pp: "passed dec (written s ! ?n) p" using I(2) lt unfolding contents_ok_def p by (auto split: if_splits)
  have "indices_ok ?s" using I(1) be next_idx_mod [OF k, of ?n] lt unfolding indices_ok_def Let_def by (simp add: r)
  moreover have "slot ?s m = slot s m" for m by (simp add: slot_def r)
  then have "contents_ok dec ?s" using I(2) be pp unfolding contents_ok_def by (simp add: nth_append less_Suc_eq)
  moreover have "entry_ok ?s e" if en: "entry_ok s e" for e
    by (rule entry_okE [OF en], rule entry_okI) (simp_all add: be)
  then have "batches_ok bs ?s" using I(3) unfolding batches_ok_def Let_def by simp
  ultimately show ?thesis by (simp add: scam_inv_def)
qed

lemma scam_request_size [simp]: "ring_buffer_size (scam_request sc q) = ring_buffer_size sc"
  by (simp add: scam_request_def scam_set_descr_def scam_set_pid_def Let_def split: camd_request.split)

lemma step_request: "scam_inv bs dec s \<Longrightarrow> scam_inv bs dec (s\<lparr>chan := scam_request (chan s) q\<rparr>)"
proof -
  let ?s = "s\<lparr>chan := scam_request (chan s) q\<rparr>"
  have be: "batch_start ?s = batch_start s" "batch_end ?s = batch_end s" by (simp_all add: batch_start_def batch_end_def)
  have sl: "slot ?s n = slot s n" for n by (simp add: slot_def)
  have "entry_ok ?s e = entry_ok s e" for e by (simp add: entry_ok_def be)
  then have "batches_ok bs ?s = batches_ok bs s" by (simp add: batches_ok_def)
  moreover have "indices_ok ?s = indices_ok s" by (simp add: indices_ok_def be)
  moreover have "contents_ok dec ?s = contents_ok dec s" by (simp add: contents_ok_def be sl)
  ultimately show "scam_inv bs dec s \<Longrightarrow> scam_inv bs dec ?s" by (simp add: scam_inv_def)
qed

lemma scam_step_inv:
  assumes "scam_inv bs dec s" "scam_step bs dec s s'" "in_flight s' \<le> ring_buffer_size (chan s')" "0 < bs" "bs \<le> 255"
  shows "scam_inv bs dec s'"
  using assms(2)
proof (cases rule: scam_step.cases)
  case (Write p now r)
  then show ?thesis using step_write [OF assms(1)] assms(3) by simp
next
  case (Take sc r d)
  show ?thesis unfolding Take(1) by (rule step_take [OF assms(1) Take(2-4) assms(5)])
next
  case (Decrypt r d)
  show ?thesis unfolding Decrypt(1) by (rule step_decrypt [OF assms(1) Decrypt(2,3)])
next
  case (Publish r d)
  show ?thesis unfolding Publish(1) by (rule step_publish [OF assms(1) Publish(2) assms(4) Publish(3)])
next
  case (Send p r)
  show ?thesis unfolding Send(1) by (rule step_send [OF assms(1) Send(2,3)])
next
  case (Request q)
  show ?thesis unfolding Request(1) by (rule step_request [OF assms(1)])
qed

lemma scam_reach_inv:
  assumes "scam_reach bs dec (scam_start bs sc old) s" "ring_buffer_size sc = 2 ^ k" "length old = ring_buffer_size sc" "0 < bs" "bs \<le> 255"
  shows "scam_inv bs dec s"
  using assms
proof (induction rule: scam_reach.induct)
  case Start
  then show ?case by (intro scam_start_inv) simp_all
next
  case (Step s s')
  then show ?case using scam_step_inv by blast
qed


text \<open>
  Nothing keeps the writer from a full ring: the next packet then overwrites the oldest one that is
  still to be sent.
\<close>

lemma scam_ring_overflow:
  assumes inv: "scam_inv bs dec s" and full: "in_flight s = ring_buffer_size (chan s)"
  shows "\<exists>r. scam_ring_write (chan s) (ring s) p now = Some r \<and> data r ! read_send_idx (ring s) = p"
proof -
  let ?N = "ring_buffer_size (chan s)"
  have I: "indices_ok s" using inv by (simp add: scam_inv_def)
  then have N: "0 < ?N" by (auto simp: indices_ok_def Let_def)
  have "length (written s) = length (sent s) + ?N"
    using I full by (simp add: indices_ok_def Let_def in_flight_def batch_end_def batch_start_def)
  then have "write_idx (ring s) = read_send_idx (ring s)" "read_send_idx (ring s) < ?N"
    using I N by (simp_all add: indices_ok_def Let_def)
  then show ?thesis using I by (simp add: scam_ring_write_def wr_def indices_ok_def Let_def)
qed

section \<open>Messages\<close>

text \<open>With a static key configured, no request of OSCam reaches any channel, whatever its service.\<close>

lemma getcw_static_keys_block: "0 < n \<Longrightarrow> getcw_dispatch n fd r scs = scs"
  by (induction scs) simp_all

lemma getcw_dispatch_first:
  "fd \<notin> camd_socket ` set as \<Longrightarrow> fd = camd_socket sc \<Longrightarrow>
   getcw_dispatch 0 fd r (as @ sc # bs) = as @ scam_request sc r # bs"
  by (induction as) auto

text \<open>
  A PMT of more than 1022 bytes does not fit the request: its buffer is read or written past its end.
  The message that is sent ends with one byte more than was filled.
\<close>

lemma capmt_message_overflow:
  assumes "16 \<le> len" "len \<le> length full"
  shows "capmt_message sid adapter full len = None \<longleftrightarrow> 1022 < len"
proof -
  have r: "rd full 10 = Some (full ! 10)" "rd full 11 = Some (full ! 11)" using assms by (simp_all add: rd_def)
  have m: "mem_read full 12 (len - 12 - 4) = Some (take (len - 12 - 4) (drop 12 full))" using assms by (simp add: mem_read_def)
  show ?thesis using assms by (auto simp: capmt_message_def r m mem_write_def mem_read_def Let_def)
qed

text \<open>The program info length grows by 5 without carry into its upper byte.\<close>

lemma capmt_message_info_length:
  assumes "capmt_message sid adapter full len = Some c"
  shows "c ! 10 = full ! 10 \<and> c ! 11 = full ! 11 + 5"
proof -
  have l: "16 \<le> len" "len \<le> 1022" "len - 4 \<le> length full" "11 < length full"
    using assms by (auto simp: capmt_message_def mem_write_def mem_read_def rd_def Let_def split: Option.bind_splits if_splits)
  then show ?thesis
    using assms by (auto simp: capmt_message_def mem_write_def mem_read_def rd_def Let_def nth_append nth_list_update add.assoc)
qed

text \<open>With the table of static keys full, the search reads behind it.\<close>

lemma find_static_key_overread:
  "length const_sid = MAX_STATIC_KEYS \<Longrightarrow> sid \<notin> set const_sid \<Longrightarrow> find_static_key const_sid MAX_STATIC_KEYS sid = None"
proof -
  assume a: "length const_sid = MAX_STATIC_KEYS" "sid \<notin> set const_sid"
  then have "find (\<lambda>k. const_sid ! k = sid) [0..<MAX_STATIC_KEYS] = None" by (auto simp: find_None_iff)
  then show ?thesis using a(1) by (simp add: find_static_key_def rd_def)
qed

section \<open>Witness\<close>

definition sample_scam :: scam_channel where
  "sample_scam = \<lparr>scam_support = True, scam_support_started = True, camd_socket = -1, odd_cw = [], even_cw = [],
     got_key_odd = False, got_key_even = False, ca_idx = 0, ca_idx_refcnt = 0, ring_buffer_size = 2, decsa_delay = 0, send_delay = 0\<rparr>"


end
