(* ===== verification/Output_Frame.thy ===== *)
theory Output_Frame
  imports Scam
begin

text \<open>
  What sending leaves alone: however the clients, the sockets and the files behave, \<^verbatim>\<open>buffer_func\<close>
  changes of the channels only their buffers, counters and client lists. The PID tables, the
  configuration and all that the table rewriting keeps in a channel stay as they are, for every
  channel.
\<close>

section \<open>The view of a channel without its output\<close>

definition out_view :: "mumudvb_channel_t \<Rightarrow> mumudvb_channel_t" where
  "out_view ch = ch\<lparr>clients := NULL, num_clients := 0, sent_data := 0, buf_with_rtp_header := [], rtp_packet_num := 0,
     nb_bytes := 0, buf := [], num_packet := 0, num_scrambled_packets := 0,
     pid_i := (pid_i ch)\<lparr>pids_num_scrambled_packets := []\<rparr>\<rparr>"

definition out_views :: "unicast_world \<Rightarrow> mumudvb_channel_t list" where
  "out_views w = map out_view (chans w)"

lemma out_view_fields:
  assumes "out_view a = out_view b"
  shows "eit_cc a = eit_cc b" "eit_section_to_send a = eit_section_to_send b" "eit_table_id_to_send a = eit_table_id_to_send b"
    "mumudvb_channel_t.service_id a = mumudvb_channel_t.service_id b" "channel_ready a = channel_ready b"
    "generated_pat a = generated_pat b" "generated_pat_version a = generated_pat_version b"
    "generated_sdt a = generated_sdt b" "generated_sdt_version a = generated_sdt_version b"
    "sdt_rewrite_skip a = sdt_rewrite_skip b" "generated_pmt a = generated_pmt b"
    "pids (pid_i a) = pids (pid_i b)" "num_pids (pid_i a) = num_pids (pid_i b)" "pmt_pid (pid_i a) = pmt_pid (pid_i b)"
    "pmt_rewrite a = pmt_rewrite b"
  using arg_cong [OF assms, of eit_cc] arg_cong [OF assms, of eit_section_to_send] arg_cong [OF assms, of eit_table_id_to_send]
    arg_cong [OF assms, of mumudvb_channel_t.service_id] arg_cong [OF assms, of channel_ready]
    arg_cong [OF assms, of generated_pat] arg_cong [OF assms, of generated_pat_version]
    arg_cong [OF assms, of generated_sdt] arg_cong [OF assms, of generated_sdt_version]
    arg_cong [OF assms, of sdt_rewrite_skip] arg_cong [OF assms, of generated_pmt]
    arg_cong [OF assms, of "\<lambda>c. pids (pid_i c)"] arg_cong [OF assms, of "\<lambda>c. num_pids (pid_i c)"]
    arg_cong [OF assms, of "\<lambda>c. pmt_pid (pid_i c)"] arg_cong [OF assms, of pmt_rewrite]
  unfolding out_view_def by simp_all

lemma out_views_nth:
  assumes "out_views w' = out_views w" "rd (chans w) i = Some ch"
  shows "\<exists>ch'. rd (chans w') i = Some ch' \<and> out_view ch' = out_view ch"
proof -
  have "length (chans w') = length (chans w)" using arg_cong [OF assms(1), of length] by (simp add: out_views_def)
  moreover have "map out_view (chans w') ! i = map out_view (chans w) ! i" using assms(1) by (simp add: out_views_def)
  ultimately show ?thesis using assms(2) by (auto simp: rd_Some_iff)
qed

section \<open>Operations on clients\<close>

lemma upd_client_views: "upd_client w p f = Some w' \<Longrightarrow> out_views w' = out_views w"
  by (auto simp: upd_client_def out_views_def split: Option.bind_splits)

lemma map_update_same: "i < length xs \<Longrightarrow> f y = f (xs ! i) \<Longrightarrow> map f (xs[i := y]) = map f xs"
  by (metis list_update_id map_update)

lemma upd_chan_views:
  "upd_chan w i f = Some w' \<Longrightarrow> (\<And>c. out_view (f c) = out_view c) \<Longrightarrow> out_views w' = out_views w"
  by (auto simp: upd_chan_def out_views_def rd_Some_iff map_update_same split: Option.bind_splits)

lemma unlink_client_views: "unlink_client w p = Some w' \<Longrightarrow> out_views w' = out_views w"
proof -
  assume u: "unlink_client w p = Some w'"
  then obtain c w1 where c: "uclients w p = Some c"
    "(if prev_client c = NULL then Some (w\<lparr>first_client := next_client c\<rparr>)
          else upd_client w (prev_client c) (\<lambda>d. d\<lparr>next_client := next_client c\<rparr>)) = Some w1"
    "(if next_client c \<noteq> NULL then upd_client w1 (next_client c) (\<lambda>d. d\<lparr>prev_client := prev_client c\<rparr>)
     else Some w1) = Some w'"
    by (auto simp: unlink_client_def split: Option.bind_splits)
  have "out_views (w\<lparr>first_client := x\<rparr>) = out_views w" for x by (simp add: out_views_def)
  then show ?thesis using c(2,3) upd_client_views by (metis option.inject)
qed

lemma unlink_from_channel_views: "unlink_from_channel w p = Some w' \<Longrightarrow> out_views w' = out_views w"
proof -
  assume u: "unlink_from_channel w p = Some w'"
  then obtain c where c: "uclients w p = Some c" by (auto simp: unlink_from_channel_def split: Option.bind_splits)
  have n: "out_view (ch\<lparr>num_clients := x\<rparr>) = out_view ch" "out_view (ch\<lparr>clients := y\<rparr>) = out_view ch" for ch x y
    by (simp_all add: out_view_def)
  show ?thesis using u c
    by (auto simp: unlink_from_channel_def n dest!: upd_client_views upd_chan_views split: Option.bind_splits option.splits if_splits)
qed

lemma unicast_del_client_views: "unicast_del_client w p = Some w' \<Longrightarrow> out_views w' = out_views w"
  by (auto simp: unicast_del_client_def dest!: unlink_client_views unlink_from_channel_views split: Option.bind_splits)
     (simp add: out_views_def)

lemma unicast_close_connection_views: "unicast_close_connection w s = Some w' \<Longrightarrow> out_views w' = out_views w"
  by (auto simp: unicast_close_connection_def Let_def dest!: unicast_del_client_views split: Option.bind_splits if_splits)
     (simp add: out_views_def)

lemma with_queue_views: "with_queue w p f = Some w' \<Longrightarrow> out_views w' = out_views w"
  by (auto simp: with_queue_def out_views_def split: Option.bind_splits)

lemma unicast_send_error_views: "unicast_send_error v w p e = Some (w', p') \<Longrightarrow> out_views w' = out_views w"
  by (auto simp: unicast_send_error_def dest!: upd_client_views unicast_close_connection_views split: Option.bind_splits if_splits)

lemma unicast_send_failed_views: "unicast_send_failed v w p b bytes e = Some (w', p') \<Longrightarrow> out_views w' = out_views w"
  by (cases b)
     (auto simp: unicast_send_failed_def Let_def dest!: upd_client_views with_queue_views unicast_send_error_views
       split: Option.bind_splits if_splits)

lemma unicast_send_packets_views:
  "unicast_send_packets n v env w i p b xs = Some (w', r) \<Longrightarrow> out_views w' = out_views w"
proof (induction n arbitrary: w b xs p)
  case (Suc n)
  then show ?case
    by (cases b)
       (auto simp: Let_def dest!: upd_client_views with_queue_views unicast_send_failed_views Suc.IH
         split: Option.bind_splits if_splits option.splits)
qed simp

lemma unicast_send_client_views: "unicast_send_client v env w i p = Some (w', r) \<Longrightarrow> out_views w' = out_views w"
  by (auto simp: unicast_send_client_def Let_def simp del: unicast_send_packets.simps
      dest!: upd_client_views with_queue_views unicast_send_packets_views split: Option.bind_splits if_splits option.splits)

lemma unicast_send_clients_views:
  "unicast_send_clients v env w i p log = Some r \<Longrightarrow> out_views (fst r) = out_views w"
proof (induction rule: unicast_send_clients.raw_induct [rotated 1, consumes 1, case_names 1])
  case (1 loop v env w i p log r)
  show ?case
  proof (cases "p = NULL")
    case True
    then show ?thesis using 1(2) by auto
  next
    case False
    then obtain w1 p1 xs where c: "unicast_send_client v (env p) w i p = Some (w1, p1, xs)"
      using 1(2) by (auto split: Option.bind_splits)
    show ?thesis using False 1(2) c unicast_send_client_views [OF c]
      by (auto simp: Let_def split: Option.bind_splits if_splits dest!: 1(1))
  qed
qed

lemma unicast_data_send_views: "unicast_data_send v env w i = Some (w', l) \<Longrightarrow> out_views w' = out_views w"
  by (auto simp: unicast_data_send_def dest!: unicast_send_clients_views split: Option.bind_splits)

section \<open>Sending\<close>

lemma upd_out_chan_views:
  "rd (chans (uni w)) i = Some ch \<Longrightarrow> out_view ch' = out_view ch \<Longrightarrow> out_views (uni (upd_out_chan w i ch')) = out_views (uni w)"
  by (simp add: upd_out_chan_def out_views_def rd_Some_iff map_update_same)

lemma rtp_update_view: "rtp_update_sequence_number ch now = Some ch' \<Longrightarrow> out_view ch' = out_view ch"
  by (auto simp: rtp_update_sequence_number_def out_view_def Let_def split: Option.bind_splits)

lemma send_multicast_views: "send_multicast w i now = Some w' \<Longrightarrow> out_views (uni w') = out_views (uni w)"
proof -
  assume s: "send_multicast w i now = Some w'"
  obtain ch where ch: "rd (chans (uni w)) i = Some ch" using s by (auto simp: send_multicast_def split: Option.bind_splits)
  show ?thesis
  proof (cases "socketOut4 ch > 0 \<or> socketOut6 ch > 0")
    case True
    then obtain ch1 ds where c: "(if rtp ch then rtp_update_sequence_number ch now else Some ch) = Some ch1"
      "w' = (upd_out_chan w i ch1)\<lparr>datagrams := ds\<rparr>"
      using s ch by (auto simp: send_multicast_def Let_def split: Option.bind_splits)
    have "out_view ch1 = out_view ch" using c(1) rtp_update_view by (auto split: if_splits)
    then show ?thesis using c(2) upd_out_chan_views [OF ch] by simp
  next
    case False
    then show ?thesis using s ch by (simp add: send_multicast_def)
  qed
qed

lemma count_packet_view: "count_packet ch pd scr k = Some ch' \<Longrightarrow> out_view ch' = out_view ch"
proof (induction "num_pids (pid_i ch) - k" arbitrary: k rule: less_induct)
  case less
  show ?case
  proof (cases "k < num_pids (pid_i ch)")
    case True
    then have "count_packet ch pd scr (k + 1) = Some ch' \<Longrightarrow> out_view ch' = out_view ch" by (intro less.hyps) auto
    moreover have "out_view (count_entry ch k pd scr) = out_view ch" by (simp add: count_entry_def out_view_def)
    ultimately show ?thesis using less.prems True
      by (subst (asm) count_packet.simps) (auto split: Option.bind_splits if_splits)
  next
    case False
    then show ?thesis using less.prems by (subst (asm) count_packet.simps) simp
  qed
qed

lemma collect_packet_view: "collect_packet dss ch p = Some ch' \<Longrightarrow> out_view ch' = out_view ch"
proof -
  assume c: "collect_packet dss ch p = Some ch'"
  then obtain c1 where c1: "count_packet ch (packet_pid p) (ScramblingControl p) 0 = Some c1"
    by (auto simp: collect_packet_def Let_def split: Option.bind_splits)
  have "out_view (c1\<lparr>buf := b, nb_bytes := n\<rparr>) = out_view c1" for b n by (simp add: out_view_def)
  then show ?thesis using c c1 count_packet_view [OF c1]
    by (auto simp: collect_packet_def Let_def split: Option.bind_splits if_splits)
qed

lemma send_func_views: "send_func dss v env w i now = Some w' \<Longrightarrow> out_views (uni w') = out_views (uni w)"
proof -
  assume s: "send_func dss v env w i now = Some w'"
  obtain ch where ch: "rd (chans (uni w)) i = Some ch" using s by (auto simp: send_func_def split: Option.bind_splits)
  define ch0 where "ch0 = ch\<lparr>sent_data := sent_data ch + nb_bytes ch + 20 + 8 + (if rtp ch then RTP_HEADER_LEN else 0)\<rparr>"
  have v0: "out_view ch0 = out_view ch" by (simp add: ch0_def out_view_def)
  obtain w1 where w1: "send_multicast (upd_out_chan w i ch0) i now = Some w1"
    using s ch by (auto simp: send_func_def Let_def ch0_def split: Option.bind_splits)
  obtain u l where u: "unicast_data_send v (client_env env) (uni w1) i = Some (u, l)"
    using s unfolding send_func_def ch Let_def ch0_def [symmetric] bind.bind_lunit w1
    by (cases "unicast_data_send v (client_env env) (uni w1) i") auto
  obtain w2 where w2: "(if hls v then do {
            ch \<leftarrow> rd (chans (uni (w1\<lparr>uni := u\<rparr>))) i;
            h \<leftarrow> hls_data_send dss (can_open env) (hlsw (w1\<lparr>uni := u\<rparr>)) ch v now;
            Some ((w1\<lparr>uni := u\<rparr>)\<lparr>hlsw := h\<rparr>)}
          else Some (w1\<lparr>uni := u\<rparr>)) = Some w2"
    and w': "rd (chans (uni w2)) i \<bind> (\<lambda>ch. Some (upd_out_chan w2 i (ch\<lparr>nb_bytes := 0\<rparr>))) = Some w'"
    using s unfolding send_func_def ch Let_def ch0_def [symmetric] bind.bind_lunit w1 u
    by (simp only: prod.case) (auto split: Option.bind_split_asm)
  have "uni w2 = u" using w2 by (auto split: if_splits Option.bind_splits)
  moreover have "out_view (c\<lparr>nb_bytes := 0\<rparr>) = out_view c" for c by (simp add: out_view_def)
  moreover obtain c where "rd (chans (uni w2)) i = Some c" "w' = upd_out_chan w2 i (c\<lparr>nb_bytes := 0\<rparr>)"
    using w' by (auto split: Option.bind_splits)
  ultimately have "out_views (uni w') = out_views u" using upd_out_chan_views [of w2 i c] by simp
  then show ?thesis
    using unicast_data_send_views [OF u] send_multicast_views [OF w1] upd_out_chan_views [OF ch v0] by simp
qed

text \<open>The frame of \<^verbatim>\<open>buffer_func\<close>.\<close>

lemma buffer_func_views:
  assumes "buffer_func dss scam_on v env w i sc rb p now = Some (w', rb')"
  shows "out_views (uni w') = out_views (uni w)"
proof (cases "scam_support sc \<and> scam_support_started sc \<and> scam_on")
  case True
  then show ?thesis using assms by (auto simp: buffer_func_def split: Option.bind_splits)
next
  case False
  then have b: "buffer_channel dss v env w i p now = Some w'"
    using assms by (auto simp: buffer_func_def split: Option.bind_splits)
  then obtain ch c1 where ch: "rd (chans (uni w)) i = Some ch" "collect_packet dss ch p = Some c1"
    by (auto simp: buffer_channel_def split: Option.bind_splits)
  have "out_views (uni (upd_out_chan w i c1)) = out_views (uni w)"
    using ch collect_packet_view by (intro upd_out_chan_views)
  then show ?thesis using b ch
    by (auto simp: buffer_channel_def Let_def dest!: send_func_views split: if_splits)
qed

end
