(* ===== verification/Rewrite_Eit.thy ===== *)
theory Rewrite_Eit
  imports Rewrite_Pat Output_Frame
begin

text \<open>
  EIT sorting, \<^verbatim>\<open>src/src/rewrite_eit.c\<close>: the sections of the event information tables are stored per
  service and table, and for each channel the sections of its service are sent, one for each EIT
  that begins in the stream.

  The linked list of stored packets is the list \<open>eit_packets\<close>; its elements are never taken out. A
  packet is named by its place in the list.
\<close>

section \<open>The store\<close>

definition eit_next_table_id :: "u8 \<Rightarrow> u8" where
  "eit_next_table_id tid =
     (if tid = 0 then 0x4E else if tid = 0x4E then 0x50 else if tid = 0x5F then 0x4E else tid + 1)"

text \<open>What \<^verbatim>\<open>calloc\<close> returns, and what \<^verbatim>\<open>memset\<close> leaves.\<close>

definition zero_eit_packet :: eit_packet_t where
  "zero_eit_packet = \<lparr>
     eit_packet_t.service_id = 0, eit_packet_t.table_id = 0, eit_packet_t.version = 0,
     eit_packet_t.needs_update = False, eit_packet_t.need_others = False,
     eit_packet_t.last_section_number = 0, sections_stored = replicate 256 False, full_eit_ok = False,
     full_eit_sections = replicate MAX_EIT_SECTIONS None, eit_packet_t.continuity_counter = 0\<rparr>"

definition eit_free_packet_contents :: "eit_packet_t \<Rightarrow> eit_packet_t" where
  "eit_free_packet_contents e = zero_eit_packet"

definition eit_is :: "nat \<Rightarrow> u8 \<Rightarrow> eit_packet_t \<Rightarrow> bool" where
  "eit_is sid tid e \<longleftrightarrow> eit_packet_t.service_id e = sid \<and> eit_packet_t.table_id e = tid"

text \<open>The walk over all elements but the last one.\<close>

fun eit_walk :: "nat \<Rightarrow> u8 \<Rightarrow> eit_packet_t list \<Rightarrow> nat \<Rightarrow> nat option" where
  "eit_walk sid tid (e # e' # es) k = (if eit_is sid tid e then Some k else eit_walk sid tid (e' # es) (k + 1))"
| "eit_walk sid tid es k = None"

text \<open>\<open>ok\<close>: the allocation succeeds. The result is \<open>None\<close> for \<^verbatim>\<open>NULL\<close>.\<close>

definition eit_new_packet :: "bool \<Rightarrow> rewrite_parameters_t \<Rightarrow> nat \<Rightarrow> u8 \<Rightarrow> nat option \<times> rewrite_parameters_t" where
  "eit_new_packet ok r sid tid =
     (case eit_walk sid tid (eit_packets r) 0 of
        Some k \<Rightarrow> (Some k, r)
      | None \<Rightarrow> if ok then (Some (length (eit_packets r)), r\<lparr>eit_packets := eit_packets r @ [zero_eit_packet]\<rparr>)
                else (None, r))"

fun eit_find :: "nat \<Rightarrow> u8 \<Rightarrow> eit_packet_t list \<Rightarrow> eit_packet_t option" where
  "eit_find sid tid [] = None"
| "eit_find sid tid (e # es) = (if eit_is sid tid e then Some e else eit_find sid tid es)"

definition eit_find_by_tsid :: "rewrite_parameters_t \<Rightarrow> nat \<Rightarrow> u8 \<Rightarrow> eit_packet_t option" where
  "eit_find_by_tsid r sid tid = eit_find sid tid (eit_packets r)"

definition eit_table :: "u8 \<Rightarrow> bool" where
  "eit_table tid \<longleftrightarrow> tid = 0x4E \<or> tid AND 0xF0 = 0x50"

section \<open>Storing\<close>

text \<open>The members of the table are read in place, at \<open>off\<close>.\<close>

definition tbl_service_id :: "u8 list \<Rightarrow> nat \<Rightarrow> nat option" where
  "tbl_service_id b off = do { hi \<leftarrow> rd b (off + 3); lo \<leftarrow> rd b (off + 4); Some (HILO hi lo)}"

definition eit_need_update_at :: "rewrite_parameters_t \<Rightarrow> u8 list \<Rightarrow> nat \<Rightarrow> bool option" where
  "eit_need_update_at r b off = do {
     tid \<leftarrow> rd b off;
     if \<not> eit_table tid then Some False
     else do {
       current \<leftarrow> tbl_current_next b off;
       if \<not> current then Some False
       else do {
         sid \<leftarrow> tbl_service_id b off;
         case eit_find_by_tsid r sid tid of None \<Rightarrow> Some True
         | Some e \<Rightarrow> do {
             v \<leftarrow> tbl_version b off;
             if v \<noteq> eit_packet_t.version e then Some True
             else do {
               n \<leftarrow> rd b (off + 6);
               stored \<leftarrow> rd (sections_stored e) (unat n);
               Some (\<not> stored)}}}}}"

definition eit_need_update :: "rewrite_parameters_t \<Rightarrow> u8 list \<Rightarrow> bool \<Rightarrow> bool option" where
  "eit_need_update r b raw = do {
     begin \<leftarrow> (if raw then get_ts_begin b else Some (Some 0));
     case begin of None \<Rightarrow> Some False | Some off \<Rightarrow> eit_need_update_at r b off}"

text \<open>
  The packet of the list after the section in \<open>pkt\<close>, whose header is \<open>h\<close>, is put in its place;
  \<open>ok\<close> says whether its memory can be allocated, and the result whether it is stored.
\<close>

definition eit_store_section :: "bool \<Rightarrow> eit_t \<Rightarrow> mumudvb_ts_packet_t \<Rightarrow> eit_packet_t \<Rightarrow> (bool \<times> eit_packet_t) option" where
  "eit_store_section ok h pkt e = do {
     let n = unat (eit_t.section_number h);
     let e = (if uint (eit_t.version_number h) \<noteq> eit_packet_t.version e then eit_free_packet_contents e else e);
     let e = e\<lparr>eit_packet_t.last_section_number := unat (eit_t.last_section_number h),
       eit_packet_t.version := uint (eit_t.version_number h),
       eit_packet_t.service_id := HILO (eit_t.service_id_hi h) (eit_t.service_id_lo h),
       eit_packet_t.table_id := eit_t.table_id h, full_eit_ok := True\<rparr>;
     old \<leftarrow> rd (full_eit_sections e) n;
     if old = None \<and> \<not> ok then Some (False, e)
     else do {
       s \<leftarrow> wr (full_eit_sections e) n (Some pkt);
       f \<leftarrow> wr (sections_stored e) n True;
       Some (True, e\<lparr>full_eit_sections := s, sections_stored := f\<rparr>)}}"

text \<open>The body of the loop. The state has the result of each coming allocation, and whether the loop goes on.\<close>

definition eit_global_body ::
  "rewrite_parameters_t \<times> (nat \<Rightarrow> bool) \<times> bool \<Rightarrow> mumudvb_ts_packet_t \<Rightarrow> (rewrite_parameters_t \<times> (nat \<Rightarrow> bool) \<times> bool) option" where
  "eit_global_body st pkt = do {
     let (r, ok, _) = st;
     need \<leftarrow> eit_need_update r (data_full pkt) False;
     if \<not> need then Some (r, ok, False)
     else do {
       h \<leftarrow> struct_at EIT_LEN eit_of (data_full pkt) 0;
       let (place, r) = eit_new_packet (ok 0) r (HILO (eit_t.service_id_hi h) (eit_t.service_id_lo h)) (eit_t.table_id h);
       case place of None \<Rightarrow> Some (r, ok, False)
       | Some k \<Rightarrow> do {
           e \<leftarrow> rd (eit_packets r) k;
           (stored, e) \<leftarrow> eit_store_section (ok 1) h pkt e;
           let r = r\<lparr>eit_packets := (eit_packets r)[k := e]\<rparr>;
           if stored then Some (r\<lparr>eit_needs_update := False\<rparr>, \<lambda>i. ok (i + 2), True)
           else Some (r, ok, False)}}}"

definition eit_rewrite_new_global_packet :: "(nat \<Rightarrow> bool) \<Rightarrow> u8 list \<Rightarrow> rewrite_parameters_t \<Rightarrow> rewrite_parameters_t option" where
  "eit_rewrite_new_global_packet ok ts_packet r = do {
     need \<leftarrow> (if \<not> eit_needs_update r then eit_need_update r ts_packet True else Some (eit_needs_update r));
     let r = r\<lparr>eit_needs_update := need\<rparr>;
     if need then do {
       pkt \<leftarrow> full_eit r;
       (pkt, r, _) \<leftarrow> ts_while (\<lambda>st. snd (snd st)) eit_global_body ts_packet pkt (r, ok, True);
       Some (r\<lparr>full_eit := Some pkt\<rparr>)}
     else Some r}"

section \<open>Choosing a section\<close>

text \<open>The search over the tables, from the one to send on.\<close>

partial_function (option) eit_search :: "rewrite_parameters_t \<Rightarrow> nat \<Rightarrow> u8 \<Rightarrow> u8 \<Rightarrow> (eit_packet_t option \<times> u8) option" where
  "eit_search r sid section_start tid =
     (case eit_find_by_tsid r sid tid of
        Some e \<Rightarrow>
          if full_eit_ok e then Some (Some e, tid)
          else if eit_next_table_id tid \<noteq> section_start then eit_search r sid section_start (eit_next_table_id tid)
          else Some (None, eit_next_table_id tid)
      | None \<Rightarrow>
          if eit_next_table_id tid \<noteq> section_start then eit_search r sid section_start (eit_next_table_id tid)
          else Some (None, eit_next_table_id tid))"

text \<open>The search for a stored section, over at most \<open>n\<close> numbers; the array is read before the number is counted up.\<close>

fun eit_next_section :: "eit_packet_t \<Rightarrow> nat \<Rightarrow> nat \<Rightarrow> nat option" where
  "eit_next_section e 0 s = Some s"
| "eit_next_section e (Suc n) s = do {
     f \<leftarrow> rd (sections_stored e) s;
     if \<not> f then eit_next_section e n ((s + 1) mod (eit_packet_t.last_section_number e + 1))
     else Some s}"

section \<open>Sending\<close>

text \<open>
  One packet of the section: the header, and what fits of the \<open>left\<close> bytes from \<open>nsent\<close> on. The
  result has the number of bytes taken.
\<close>

definition eit_send_buf :: "mumudvb_ts_packet_t \<Rightarrow> nat \<Rightarrow> nat \<Rightarrow> nat \<Rightarrow> (u8 list \<times> nat) option" where
  "eit_send_buf pkt left nsent c = do {
     let header_len = (if nsent = 0 then TS_HEADER_LEN else TS_HEADER_LEN - 1);
     b \<leftarrow> struct_put ts_header_bytes (replicate TS_PACKET_SIZE 0) 0 \<lparr>
       ts_header_t.sync_byte = 0x47, ts_header_t.pid_hi = 0, ts_header_t.transport_priority = 0,
       ts_header_t.payload_unit_start_indicator = (if nsent = 0 then 1 else 0),
       ts_header_t.transport_error_indicator = 0, ts_header_t.pid_lo = 18,
       ts_header_t.continuity_counter = word_of_nat c, ts_header_t.adaptation_field_control = 1,
       ts_header_t.transport_scrambling_control = 0\<rparr>;
     if left \<ge> TS_PACKET_SIZE - header_len then do {
       xs \<leftarrow> mem_read (data_full pkt) nsent (TS_PACKET_SIZE - header_len);
       b \<leftarrow> mem_write b header_len xs;
       Some (b, TS_PACKET_SIZE - header_len)}
     else do {
       xs \<leftarrow> mem_read (data_full pkt) nsent left;
       b \<leftarrow> mem_write b header_len xs;
       b \<leftarrow> mem_write b (header_len + left) (replicate (TS_PACKET_SIZE - (header_len + left)) 0xff);
       Some (b, left)}}"

lemma eit_send_buf_progress: "eit_send_buf pkt left nsent c = Some (b, n) \<Longrightarrow> 0 < left \<Longrightarrow> 0 < n"
  by (auto simp: eit_send_buf_def Let_def ts_sizes split: if_splits Option.bind_splits)

text \<open>The packets go out one by one; \<open>clock\<close> gives the times that \<^verbatim>\<open>buffer_func\<close> reads.\<close>

function eit_send_section ::
  "bool \<Rightarrow> bool \<Rightarrow> unicast_parameters_t \<Rightarrow> out_env \<Rightarrow> nat \<Rightarrow> scam_channel \<Rightarrow> (nat \<Rightarrow> u64) \<Rightarrow> mumudvb_ts_packet_t \<Rightarrow>
   nat \<Rightarrow> nat \<Rightarrow> out_world \<Rightarrow> ring_buffer_t \<Rightarrow> (out_world \<times> ring_buffer_t) option" where
  "eit_send_section dss scam_on v env i sc clock pkt left nsent w rb =
     (if left > 0 then
        (case rd (chans (uni w)) i of None \<Rightarrow> None
         | Some ch \<Rightarrow>
           (case eit_send_buf pkt left nsent (eit_cc ch) of None \<Rightarrow> None
            | Some (b, n) \<Rightarrow>
              (case buffer_func dss scam_on v env (upd_out_chan w i (ch\<lparr>eit_cc := (eit_cc ch + 1) mod 16\<rparr>)) i sc rb b (clock 0) of
                 None \<Rightarrow> None
               | Some (w, rb) \<Rightarrow>
                   eit_send_section dss scam_on v env i sc (\<lambda>k. clock (k + 1)) pkt (left - n) (nsent + n) w rb)))
      else Some (w, rb))"
  by pat_completeness auto
termination
  by (relation "measure (\<lambda>(_, _, _, _, _, _, _, _, left, _). left)") (auto dest: eit_send_buf_progress)

declare eit_send_section.simps [simp del]

text \<open>The end of the function: which section comes next.\<close>

definition eit_advance :: "eit_packet_t \<Rightarrow> mumudvb_channel_t \<Rightarrow> mumudvb_channel_t" where
  "eit_advance e ch =
     (let s = (eit_section_to_send ch + 1) mod (eit_packet_t.last_section_number e + 1) in
      ch\<lparr>eit_section_to_send := s,
         eit_table_id_to_send := (if s = 0 then eit_next_table_id (eit_table_id_to_send ch) else eit_table_id_to_send ch)\<rparr>)"

definition eit_rewrite_new_channel_packet ::
  "bool \<Rightarrow> bool \<Rightarrow> unicast_parameters_t \<Rightarrow> out_env \<Rightarrow> nat \<Rightarrow> scam_channel \<Rightarrow> (nat \<Rightarrow> u64) \<Rightarrow> u8 list \<Rightarrow> rewrite_parameters_t \<Rightarrow>
   out_world \<Rightarrow> ring_buffer_t \<Rightarrow> (out_world \<times> ring_buffer_t) option" where
  "eit_rewrite_new_channel_packet dss scam_on v env i sc clock ts_packet r w rb = do {
     ch \<leftarrow> rd (chans (uni w)) i;
     if channel_ready ch < READY then Some (w, rb)
     else do {
       h \<leftarrow> struct_at sizeof_ts_header_t ts_header_of ts_packet 0;
       if ts_header_t.payload_unit_start_indicator h = 0 then Some (w, rb)
       else do {
         let start = (if \<not> eit_table (eit_table_id_to_send ch) then 0x4E else eit_table_id_to_send ch);
         (found, tid) \<leftarrow> eit_search r (mumudvb_channel_t.service_id ch) start start;
         let ch = ch\<lparr>eit_table_id_to_send := tid\<rparr>;
         case found of None \<Rightarrow> Some (upd_out_chan w i ch, rb)
         | Some e \<Rightarrow> do {
             s \<leftarrow> eit_next_section e (eit_packet_t.last_section_number e + 1)
                   (eit_section_to_send ch mod (eit_packet_t.last_section_number e + 1));
             let ch = ch\<lparr>eit_section_to_send := s\<rparr>;
             stored \<leftarrow> rd (sections_stored e) s;
             if \<not> stored then
               Some (upd_out_chan w i (ch\<lparr>eit_table_id_to_send := eit_next_table_id (eit_table_id_to_send ch)\<rparr>), rb)
             else do {
               p \<leftarrow> rd (full_eit_sections e) s;
               pkt \<leftarrow> p;
               (w, rb) \<leftarrow> eit_send_section dss scam_on v env i sc clock pkt (len_full pkt) 0 (upd_out_chan w i ch) rb;
               ch \<leftarrow> rd (chans (uni w)) i;
               Some (upd_out_chan w i (eit_advance e ch), rb)}}}}}"

section \<open>The packets of a section\<close>

text \<open>The header as the code fills it, byte by byte zero but for these members.\<close>

lemma eit_header: "\<lparr>ts_header_t.sync_byte = 0x47, ts_header_t.pid_hi = 0, ts_header_t.transport_priority = 0,
       ts_header_t.payload_unit_start_indicator = x,
       ts_header_t.transport_error_indicator = 0, ts_header_t.pid_lo = 18,
       ts_header_t.continuity_counter = word_of_nat c, ts_header_t.adaptation_field_control = 1,
       ts_header_t.transport_scrambling_control = 0\<rparr> = psi_header x 18 c"
  by (simp add: psi_header_def)

lemma stuffed_short: "length s \<le> n \<Longrightarrow> stuffed n s = s @ replicate (n - length s) 0xff"
  by (simp add: stuffed_def)

lemma stuffed_long: "n \<le> length s \<Longrightarrow> stuffed n s = take n s"
  by (simp add: stuffed_def)

lemma eit_put_header:
  "struct_put ts_header_bytes (replicate TS_PACKET_SIZE 0) 0 h = Some (ts_header_bytes h @ replicate 184 0)"
  by (simp add: struct_put_def mem_write_def length_ts_header_bytes ts_sizes)

lemma eit_send_buf_first:
  assumes "0 < left" "left \<le> length (data_full pkt)"
  shows "eit_send_buf pkt left 0 c =
    Some (ts_header_bytes (psi_header 1 18 c) @ 0 # stuffed 183 (take left (data_full pkt)), min 183 left)"
proof (cases "183 \<le> left")
  case True
  then show ?thesis using assms
    unfolding eit_send_buf_def eit_header eit_put_header
    by (simp add: Let_def ts_sizes mem_read_def mem_write_def length_ts_header_bytes stuffed_long numeral_eq_Suc)
next
  case False
  define hb where "hb = ts_header_bytes (psi_header 1 18 c)"
  define s where "s = take left (data_full pkt)"
  have l: "length hb = 4" "length s = left" using assms by (simp_all add: hb_def s_def length_ts_header_bytes)
  have r: "replicate 184 (0 :: u8) = 0 # replicate 183 0" by (simp add: numeral_eq_Suc)
  have 1: "mem_read (data_full pkt) 0 left = Some s" using assms by (simp add: mem_read_def s_def)
  have 2: "mem_write (hb @ replicate 184 0) 5 s = Some (hb @ 0 # s @ replicate (183 - left) 0)"
    unfolding r using False l by (simp add: mem_write_def)
  have 3: "mem_write (hb @ 0 # s @ replicate (183 - left) 0) (5 + left) (replicate (183 - left) 0xff) =
     Some (hb @ 0 # s @ replicate (183 - left) 0xff)"
    using False l by (simp add: mem_write_def)
  show ?thesis using False l unfolding eit_send_buf_def eit_header eit_put_header
    by (simp add: Let_def ts_sizes 1 2 3 s_def [symmetric] stuffed_short hb_def [symmetric])
qed

lemma eit_send_buf_next:
  assumes "0 < left" "0 < nsent" "nsent + left \<le> length (data_full pkt)"
  shows "eit_send_buf pkt left nsent c =
    Some (ts_header_bytes (psi_header 0 18 c) @ stuffed 184 (take left (drop nsent (data_full pkt))), min 184 left)"
proof (cases "184 \<le> left")
  case True
  then show ?thesis using assms
    unfolding eit_send_buf_def eit_header eit_put_header
    by (simp add: Let_def ts_sizes mem_read_def mem_write_def length_ts_header_bytes stuffed_long)
next
  case False
  define hb where "hb = ts_header_bytes (psi_header 0 18 c)"
  define s where "s = take left (drop nsent (data_full pkt))"
  have l: "length hb = 4" "length s = left" using assms by (simp_all add: hb_def s_def length_ts_header_bytes)
  have 1: "mem_read (data_full pkt) nsent left = Some s" using assms by (simp add: mem_read_def s_def)
  have 2: "mem_write (hb @ replicate 184 0) 4 s = Some (hb @ s @ replicate (184 - left) 0)"
    using False l by (simp add: mem_write_def)
  have 3: "mem_write (hb @ s @ replicate (184 - left) 0) (4 + left) (replicate (184 - left) 0xff) =
     Some (hb @ s @ replicate (184 - left) 0xff)"
    using False l by (simp add: mem_write_def)
  show ?thesis using False l assms(2) unfolding eit_send_buf_def eit_header eit_put_header
    by (simp add: Let_def ts_sizes 1 2 3 s_def [symmetric] stuffed_short hb_def [symmetric])
qed

text \<open>Packets handed to \<^verbatim>\<open>buffer_func\<close> one by one, with the continuity counter of the channel counted up before each.\<close>

fun eit_feed ::
  "bool \<Rightarrow> bool \<Rightarrow> unicast_parameters_t \<Rightarrow> out_env \<Rightarrow> nat \<Rightarrow> scam_channel \<Rightarrow> (nat \<Rightarrow> u64) \<Rightarrow> u8 list list \<Rightarrow>
   out_world \<Rightarrow> ring_buffer_t \<Rightarrow> (out_world \<times> ring_buffer_t) option" where
  "eit_feed dss scam_on v env i sc clock [] w rb = Some (w, rb)"
| "eit_feed dss scam_on v env i sc clock (p # ps) w rb = do {
     ch \<leftarrow> rd (chans (uni w)) i;
     (w, rb) \<leftarrow> buffer_func dss scam_on v env (upd_out_chan w i (ch\<lparr>eit_cc := (eit_cc ch + 1) mod 16\<rparr>)) i sc rb p (clock 0);
     eit_feed dss scam_on v env i sc (\<lambda>k. clock (k + 1)) ps w rb}"

lemma eit_cc_step:
  assumes ch: "rd (chans (uni w)) i = Some ch"
    and b: "buffer_func dss scam_on v env (upd_out_chan w i (ch\<lparr>eit_cc := c\<rparr>)) i sc rb p now = Some (w', rb')"
  shows "\<exists>ch'. rd (chans (uni w')) i = Some ch' \<and> eit_cc ch' = c"
proof -
  have "rd (chans (uni (upd_out_chan w i (ch\<lparr>eit_cc := c\<rparr>)))) i = Some (ch\<lparr>eit_cc := c\<rparr>)"
    using ch by (simp add: upd_out_chan_def rd_Some_iff)
  from out_views_nth [OF buffer_func_views [OF b] this] show ?thesis by (auto dest: out_view_fields)
qed

text \<open>A step of the code and of the reference, when both hand over the same packet.\<close>

lemma eit_send_step:
  assumes ch: "rd (chans (uni w)) i = Some ch" and n: "0 < left" and b: "eit_send_buf pkt left nsent (eit_cc ch) = Some (p, k)"
    and next_eq: "\<And>w' rb' ch'. rd (chans (uni w')) i = Some ch' \<Longrightarrow> eit_cc ch' = (eit_cc ch + 1) mod 16 \<Longrightarrow>
      eit_send_section dss scam_on v env i sc (\<lambda>k. clock (k + 1)) pkt (left - k) (nsent + k) w' rb' =
      eit_feed dss scam_on v env i sc (\<lambda>k. clock (k + 1)) ps w' rb'"
  shows "eit_send_section dss scam_on v env i sc clock pkt left nsent w rb =
    eit_feed dss scam_on v env i sc clock (p # ps) w rb"
proof (cases "buffer_func dss scam_on v env (upd_out_chan w i (ch\<lparr>eit_cc := (eit_cc ch + 1) mod 16\<rparr>)) i sc rb p (clock 0)")
  case None
  then show ?thesis using ch n b by (subst eit_send_section.simps) simp
next
  case (Some r)
  obtain w' rb' where r: "r = (w', rb')" by fastforce
  obtain ch' where "rd (chans (uni w')) i = Some ch'" "eit_cc ch' = (eit_cc ch + 1) mod 16"
    using eit_cc_step [OF ch] Some r by blast
  from next_eq [OF this] show ?thesis using ch n b Some r by (subst eit_send_section.simps) simp
qed

lemma eit_send_continuation:
  "rd (chans (uni w)) i = Some ch \<Longrightarrow> 0 < nsent \<Longrightarrow> nsent + left \<le> length (data_full pkt) \<Longrightarrow>
   eit_send_section dss scam_on v env i sc clock pkt left nsent w rb =
   eit_feed dss scam_on v env i sc clock (continuation_packets 18 (eit_cc ch) (take left (drop nsent (data_full pkt)))) w rb"
proof (induction left arbitrary: clock nsent w rb ch rule: less_induct)
  case (less left)
  show ?case
  proof (cases "left = 0")
    case True
    then show ?thesis by (simp add: eit_send_section.simps continuation_packets.simps)
  next
    case False
    define s where "s = take left (drop nsent (data_full pkt))"
    have s: "s \<noteq> []" using False less.prems by (auto simp: s_def)
    have d: "drop 184 s = take (left - min 184 left) (drop (nsent + min 184 left) (data_full pkt))"
      by (cases "184 \<le> left") (simp_all add: s_def drop_take add.commute)
    have st: "eit_send_section dss scam_on v env i sc (\<lambda>k. clock (k + 1)) pkt (left - min 184 left) (nsent + min 184 left) w' rb' =
      eit_feed dss scam_on v env i sc (\<lambda>k. clock (k + 1)) (continuation_packets 18 ((eit_cc ch + 1) mod 16) (drop 184 s)) w' rb'"
      if c: "rd (chans (uni w')) i = Some ch'" "eit_cc ch' = (eit_cc ch + 1) mod 16" for w' rb' ch'
      unfolding d using less.IH [of "left - min 184 left" w' ch' "nsent + min 184 left" "\<lambda>k. clock (k + 1)" rb'] False less.prems c
      by simp
    have "0 < left" using False by simp
    from eit_send_step [OF less.prems(1) this eit_send_buf_next [OF this less.prems(2,3)] st]
    show ?thesis using s by (subst continuation_packets.simps) (simp add: s_def)
  qed
qed

lemma eit_send_section_feeds:
  assumes ch: "rd (chans (uni w)) i = Some ch" and l: "0 < len_full pkt" "len_full pkt \<le> length (data_full pkt)"
  shows "eit_send_section dss scam_on v env i sc clock pkt (len_full pkt) 0 w rb =
     eit_feed dss scam_on v env i sc clock (section_packets 18 (eit_cc ch) (received_section pkt)) w rb"
proof -
  define n where "n = min 183 (len_full pkt)"
  have d: "drop 183 (received_section pkt) = take (len_full pkt - n) (drop n (data_full pkt))"
    by (cases "183 \<le> len_full pkt") (simp_all add: received_section_def n_def drop_take)
  have n: "0 < n" "n + (len_full pkt - n) \<le> length (data_full pkt)" using l by (simp_all add: n_def)
  have st: "eit_send_section dss scam_on v env i sc (\<lambda>k. clock (k + 1)) pkt (len_full pkt - n) (0 + n) w' rb' =
      eit_feed dss scam_on v env i sc (\<lambda>k. clock (k + 1)) (continuation_packets 18 ((eit_cc ch + 1) mod 16) (drop 183 (received_section pkt))) w' rb'"
    if "rd (chans (uni w')) i = Some ch'" "eit_cc ch' = (eit_cc ch + 1) mod 16" for w' rb' ch'
    unfolding d using eit_send_continuation [OF that(1) n] that(2) by simp
  from eit_send_step [OF ch l(1) eit_send_buf_first [OF l] st [unfolded n_def]]
  show ?thesis by (simp add: section_packets_def received_section_def)
qed

section \<open>The search over the tables\<close>

definition eit_tables :: "u8 list" where
  "eit_tables = [0x4E, 0x50, 0x51, 0x52, 0x53, 0x54, 0x55, 0x56, 0x57, 0x58, 0x59, 0x5A, 0x5B, 0x5C, 0x5D, 0x5E, 0x5F]"

lemma eit_table_bytes: "list_all (\<lambda>n. eit_table (word_of_nat n) = (word_of_nat n \<in> set eit_tables)) [0..<256]"
  by code_simp

lemma eit_table_iff: "eit_table tid \<longleftrightarrow> tid \<in> set eit_tables"
proof -
  have "unat tid < 256" by (rule unat_u8_lt)
  then have "eit_table (word_of_nat (unat tid)) = (word_of_nat (unat tid) \<in> set eit_tables)"
    using eit_table_bytes unfolding list_all_iff by (metis atLeastLessThan_iff le0 set_upt)
  then show ?thesis by simp
qed

text \<open>The tables form a cycle of 17.\<close>

lemma eit_tables_facts: "length eit_tables = 17" "distinct eit_tables"
  by (simp_all add: eit_tables_def)

lemma eit_next_steps: "list_all (\<lambda>k. eit_next_table_id (eit_tables ! k) = eit_tables ! ((k + 1) mod 17)) [0..<17]"
  by code_simp

lemma eit_next: "k < 17 \<Longrightarrow> eit_next_table_id (eit_tables ! k) = eit_tables ! ((k + 1) mod 17)"
  using eit_next_steps by (simp add: list_all_iff)

definition eit_available :: "rewrite_parameters_t \<Rightarrow> nat \<Rightarrow> u8 \<Rightarrow> bool" where
  "eit_available r sid tid \<longleftrightarrow> (\<exists>e. eit_find_by_tsid r sid tid = Some e \<and> full_eit_ok e)"

lemma eit_search_step:
  "eit_search r sid start tid =
     (if eit_available r sid tid then Some (eit_find_by_tsid r sid tid, tid)
      else if eit_next_table_id tid \<noteq> start then eit_search r sid start (eit_next_table_id tid)
      else Some (None, eit_next_table_id tid))"
  by (subst eit_search.simps) (auto simp: eit_available_def split: option.split)

lemma eit_search_from:
  assumes "k < 17"
  shows "j < 17 \<Longrightarrow> \<exists>found tid. eit_search r sid (eit_tables ! k) (eit_tables ! ((k + j) mod 17)) = Some (found, tid) \<and>
     (if \<exists>m. j \<le> m \<and> m < 17 \<and> eit_available r sid (eit_tables ! ((k + m) mod 17))
      then eit_available r sid tid \<and> found = eit_find_by_tsid r sid tid \<and> tid \<in> set eit_tables
      else found = None \<and> tid = eit_tables ! k)"
proof (induction "17 - j" arbitrary: j rule: less_induct)
  case less
  let ?t = "\<lambda>m. eit_tables ! ((k + m) mod 17)"
  have mem: "?t m \<in> set eit_tables" for m using eit_tables_facts(1) by simp
  have nx: "eit_next_table_id (?t j) = ?t (j + 1)"
    using eit_next [of "(k + j) mod 17"] by (simp add: mod_Suc_eq)
  show ?case
  proof (cases "eit_available r sid (?t j)")
    case True
    then have "eit_search r sid (eit_tables ! k) (?t j) = Some (eit_find_by_tsid r sid (?t j), ?t j)"
      by (subst eit_search_step) simp
    moreover have "\<exists>m. j \<le> m \<and> m < 17 \<and> eit_available r sid (?t m)" using True less.prems by blast
    ultimately show ?thesis using True mem by (simp only: if_True) blast
  next
    case False
    have ex: "(\<exists>m. j \<le> m \<and> m < 17 \<and> eit_available r sid (?t m)) \<longleftrightarrow>
        (\<exists>m. j + 1 \<le> m \<and> m < 17 \<and> eit_available r sid (?t m))"
      using False by (metis Suc_eq_plus1 Suc_leD Suc_leI le_neq_implies_less)
    show ?thesis
    proof (cases "j + 1 < 17")
      case more: True
      have "?t (j + 1) \<noteq> eit_tables ! k"
      proof
        assume "?t (j + 1) = eit_tables ! k"
        then have "(k + (j + 1)) mod 17 = k"
          using eit_tables_facts assms nth_eq_iff_index_eq [of eit_tables "(k + (j + 1)) mod 17" k] by simp
        then show False using more assms by (cases "k + (j + 1) < 17") (simp_all add: le_mod_geq)
      qed
      then have "eit_search r sid (eit_tables ! k) (?t j) = eit_search r sid (eit_tables ! k) (?t (j + 1))"
        using False nx by (subst eit_search_step) simp
      then show ?thesis using less.hyps [of "j + 1"] more unfolding ex by simp
    next
      case last: False
      then have j: "j = 16" using less.prems by simp
      then have "?t (j + 1) = eit_tables ! k" using assms by simp
      then have "eit_search r sid (eit_tables ! k) (?t j) = Some (None, eit_tables ! k)"
        using False nx by (subst eit_search_step) simp
      moreover have "\<not> (\<exists>m. j + 1 \<le> m \<and> m < 17 \<and> eit_available r sid (?t m))" using j by simp
      ultimately show ?thesis unfolding ex by auto
    qed
  qed
qed

text \<open>The search returns: a table of the service that has a section, when there is one.\<close>

lemma eit_search_returns:
  assumes "eit_table start"
  shows "\<exists>found tid. eit_search r sid start start = Some (found, tid) \<and>
     (if \<exists>t. eit_table t \<and> eit_available r sid t
      then eit_available r sid tid \<and> found = eit_find_by_tsid r sid tid \<and> eit_table tid
      else found = None \<and> tid = start)"
proof -
  obtain k where k: "k < 17" "start = eit_tables ! k"
    using assms eit_tables_facts(1) by (metis eit_table_iff in_set_conv_nth)
  have "(\<exists>t. eit_table t \<and> eit_available r sid t) \<longleftrightarrow>
      (\<exists>m. 0 \<le> m \<and> m < 17 \<and> eit_available r sid (eit_tables ! ((k + m) mod 17)))"
  proof
    assume "\<exists>t. eit_table t \<and> eit_available r sid t"
    then obtain n where n: "n < 17" "eit_available r sid (eit_tables ! n)"
      using eit_tables_facts(1) by (metis eit_table_iff in_set_conv_nth)
    have "(k + (17 - k + n) mod 17) mod 17 = n" using n k(1) by (simp add: mod_add_right_eq)
    then show "\<exists>m. 0 \<le> m \<and> m < 17 \<and> eit_available r sid (eit_tables ! ((k + m) mod 17))"
      using n(2) by (intro exI [of _ "(17 - k + n) mod 17"]) simp
  next
    assume "\<exists>m. 0 \<le> m \<and> m < 17 \<and> eit_available r sid (eit_tables ! ((k + m) mod 17))"
    then show "\<exists>t. eit_table t \<and> eit_available r sid t"
      using eit_tables_facts(1) by (metis eit_table_iff mod_less_divisor nth_mem zero_less_numeral)
  qed
  then show ?thesis
    using eit_search_from [OF k(1), of 0 r sid] k by (simp add: eit_table_iff if_bool_eq_conj)
qed

section \<open>The invariant of the store\<close>

text \<open>A stored section: it is CRC-correct and its header names the service, the table, the version and its place.\<close>

definition eit_section_of :: "eit_packet_t \<Rightarrow> nat \<Rightarrow> mumudvb_ts_packet_t \<Rightarrow> bool" where
  "eit_section_of e n p \<longleftrightarrow> section_ok (received_section p) \<and> length (data_full p) = MAX_TS_SIZE \<and> len_full p \<le> MAX_TS_SIZE \<and>
     (let h = eit_of (data_full p) in
      HILO (eit_t.service_id_hi h) (eit_t.service_id_lo h) = eit_packet_t.service_id e \<and> eit_t.table_id h = eit_packet_t.table_id e \<and>
      uint (eit_t.version_number h) = eit_packet_t.version e \<and> unat (eit_t.section_number h) = n)"

definition eit_packet_inv :: "eit_packet_t \<Rightarrow> bool" where
  "eit_packet_inv e \<longleftrightarrow> length (sections_stored e) = 256 \<and> length (full_eit_sections e) = 256 \<and>
     eit_packet_t.last_section_number e < 256 \<and>
     (\<forall>n < 256. sections_stored e ! n \<longrightarrow> (\<exists>p. full_eit_sections e ! n = Some p \<and> eit_section_of e n p))"

definition eit_inv :: "rewrite_parameters_t \<Rightarrow> bool" where
  "eit_inv r \<longleftrightarrow> (\<forall>e \<in> set (eit_packets r). eit_packet_inv e)"

lemma zero_eit_packet_inv: "eit_packet_inv zero_eit_packet"
  by (simp add: eit_packet_inv_def zero_eit_packet_def MAX_EIT_SECTIONS_def)

lemma eit_walk_Some: "eit_walk sid tid es k = Some j \<Longrightarrow> k \<le> j \<and> j - k < length es \<and> eit_is sid tid (es ! (j - k))"
proof (induction sid tid es k rule: eit_walk.induct)
  case (1 sid tid e e' es k)
  show ?case
  proof (cases "eit_is sid tid e")
    case True
    then show ?thesis using 1(2) by auto
  next
    case False
    then have "k + 1 \<le> j \<and> j - (k + 1) < length (e' # es) \<and> eit_is sid tid ((e' # es) ! (j - (k + 1)))"
      using 1 by simp
    moreover from this have "j - k = Suc (j - (k + 1))" by linarith
    ultimately show ?thesis by simp
  qed
qed simp_all

lemma eit_find_Some: "eit_find sid tid es = Some e \<Longrightarrow> e \<in> set es \<and> eit_is sid tid e"
  by (induction es) (auto split: if_splits)

text \<open>The packet a section is put into: of the same service and table, or new.\<close>

lemma eit_new_packet_ok:
  assumes "eit_inv r" "eit_new_packet ok r sid tid = (Some k, r')"
  shows "eit_inv r' \<and> (\<exists>e. rd (eit_packets r') k = Some e \<and> (e = zero_eit_packet \<or> eit_is sid tid e)) \<and>
     full_eit r' = full_eit r"
  using assms zero_eit_packet_inv eit_walk_Some [of sid tid "eit_packets r" 0]
  by (auto simp: eit_new_packet_def eit_inv_def rd_Some_iff split: option.splits if_splits)

lemma eit_store_section_ok:
  assumes e: "eit_packet_inv e" "e = zero_eit_packet \<or> eit_is (HILO (eit_t.service_id_hi h) (eit_t.service_id_lo h)) (eit_t.table_id h) e"
    and h: "h = eit_of (data_full pkt)" and p: "section_ok (received_section pkt)" "length (data_full pkt) = MAX_TS_SIZE" "len_full pkt \<le> MAX_TS_SIZE"
  shows "\<exists>b e'. eit_store_section ok h pkt e = Some (b, e') \<and> eit_packet_inv e' \<and>
     eit_is (HILO (eit_t.service_id_hi h) (eit_t.service_id_lo h)) (eit_t.table_id h) e'"
proof -
  define n where "n = unat (eit_t.section_number h)"
  define e1 where "e1 = (if uint (eit_t.version_number h) \<noteq> eit_packet_t.version e then zero_eit_packet else e)
    \<lparr>eit_packet_t.last_section_number := unat (eit_t.last_section_number h),
       eit_packet_t.version := uint (eit_t.version_number h),
       eit_packet_t.service_id := HILO (eit_t.service_id_hi h) (eit_t.service_id_lo h),
       eit_packet_t.table_id := eit_t.table_id h, full_eit_ok := True\<rparr>"
  have n: "n < 256" unfolding n_def by (rule unat_u8_lt)
  have l: "unat (eit_t.last_section_number h) < 256" by (rule unat_u8_lt)
  have e1: "eit_packet_inv e1" "eit_is (HILO (eit_t.service_id_hi h) (eit_t.service_id_lo h)) (eit_t.table_id h) e1"
    using e l by (auto simp: e1_def eit_packet_inv_def zero_eit_packet_def eit_is_def eit_section_of_def MAX_EIT_SECTIONS_def)
  have sec: "eit_section_of e1 n pkt"
    using p h by (simp add: eit_section_of_def e1_def n_def Let_def)
  have len: "length (full_eit_sections e1) = 256" "length (sections_stored e1) = 256"
    using e1(1) by (simp_all add: eit_packet_inv_def)
  obtain old where old: "rd (full_eit_sections e1) n = Some old" using n len by (simp add: mem_simps)
  define e2 where "e2 = e1\<lparr>full_eit_sections := (full_eit_sections e1)[n := Some pkt], sections_stored := (sections_stored e1)[n := True]\<rparr>"
  have "eit_store_section ok h pkt e = Some (if old = None \<and> \<not> ok then (False, e1) else (True, e2))"
    using old n len unfolding eit_store_section_def Let_def eit_free_packet_contents_def e1_def [symmetric] n_def [symmetric]
    by (simp add: e2_def wr_def)
  moreover have "eit_packet_inv e2"
    using e1(1) sec n by (auto simp: eit_packet_inv_def e2_def nth_list_update eit_section_of_def)
  moreover have "eit_is (HILO (eit_t.service_id_hi h) (eit_t.service_id_lo h)) (eit_t.table_id h) e2"
    using e1(2) by (simp add: e2_def eit_is_def)
  ultimately show ?thesis using e1 by (cases "old = None \<and> \<not> ok") auto
qed

lemma eit_need_update_at_total:
  assumes "eit_inv r" "off + 7 \<le> length b"
  shows "\<exists>n. eit_need_update_at r b off = Some n"
proof -
  have "\<And>sid tid e. eit_find_by_tsid r sid tid = Some e \<Longrightarrow> length (sections_stored e) = 256"
    using assms(1) eit_find_Some by (fastforce simp: eit_find_by_tsid_def eit_inv_def eit_packet_inv_def)
  moreover have "unat (b ! (off + 6)) < 256" by (rule unat_u8_lt)
  ultimately show ?thesis using assms(2)
    by (auto simp: eit_need_update_at_def tbl_current_next_def tbl_service_id_def tbl_version_def mem_simps split: option.split)
qed

definition eit_state_inv :: "rewrite_parameters_t \<times> (nat \<Rightarrow> bool) \<times> bool \<Rightarrow> bool" where
  "eit_state_inv st \<longleftrightarrow> eit_inv (fst st)"

interpretation eit_client: section_client "\<lambda>st. snd (snd st)" eit_global_body eit_state_inv
proof
  fix st :: "rewrite_parameters_t \<times> (nat \<Rightarrow> bool) \<times> bool" and pkt :: mumudvb_ts_packet_t
  assume I: "eit_state_inv st" and l: "length (data_full pkt) = MAX_TS_SIZE" "len_full pkt \<le> MAX_TS_SIZE"
    and s: "section_ok (received_section pkt)"
  obtain r ok go where st: "st = (r, ok, go)" by (cases st)
  have inv: "eit_inv r" using I by (simp add: st eit_state_inv_def)
  define h where "h = eit_of (data_full pkt)"
  have h: "struct_at EIT_LEN eit_of (data_full pkt) 0 = Some h"
    using l by (simp add: struct_at_def h_def EIT_LEN_def MAX_TS_SIZE_def eit_of_def)
  obtain need where need: "eit_need_update r (data_full pkt) False = Some need"
    using eit_need_update_at_total [OF inv, of 0 "data_full pkt"] l by (auto simp: eit_need_update_def MAX_TS_SIZE_def)
  obtain place r1 where np: "eit_new_packet (ok 0) r (HILO (eit_t.service_id_hi h) (eit_t.service_id_lo h)) (eit_t.table_id h) = (place, r1)"
    by fastforce
  show "\<exists>st'. eit_global_body st pkt = Some st' \<and> eit_state_inv st'"
  proof (cases "need \<and> place \<noteq> None")
    case False
    have "place = None \<Longrightarrow> r1 = r" using np by (auto simp: eit_new_packet_def split: option.splits if_splits)
    then show ?thesis using False need h np inv by (auto simp: eit_global_body_def st eit_state_inv_def Let_def)
  next
    case True
    then obtain k where k: "place = Some k" by auto
    obtain e where e: "rd (eit_packets r1) k = Some e" "eit_inv r1"
       "e = zero_eit_packet \<or> eit_is (HILO (eit_t.service_id_hi h) (eit_t.service_id_lo h)) (eit_t.table_id h) e"
      using eit_new_packet_ok [OF inv] np k by blast
    have "eit_packet_inv e" using e(1,2) by (auto simp: eit_inv_def rd_Some_iff)
    from eit_store_section_ok [OF this e(3) h_def s l, of "ok 1"] obtain b e'
      where e': "eit_store_section (ok 1) h pkt e = Some (b, e')" "eit_packet_inv e'" by blast
    have "eit_inv (r1\<lparr>eit_packets := (eit_packets r1)[k := e']\<rparr>)"
      using e(2) e'(2) by (auto simp: eit_inv_def dest!: set_update_subset_insert [THEN subsetD])
    moreover have "eit_inv (x\<lparr>eit_needs_update := c\<rparr>) = eit_inv x" for x c by (simp add: eit_inv_def)
    ultimately show ?thesis using True k need h np e(1) e'(1) by (auto simp: eit_global_body_def st eit_state_inv_def Let_def)
  qed
qed

definition eit_need_bytes :: nat where "eit_need_bytes = TS_PACKET_SIZE + 7"


section \<open>Sending the EIT of a channel\<close>

lemma eit_next_section_from:
  assumes "length (sections_stored e) = 256" "eit_packet_t.last_section_number e < 256"
  defines "m \<equiv> eit_packet_t.last_section_number e + 1"
  shows "s < m \<Longrightarrow> \<exists>s'. eit_next_section e n s = Some s' \<and> s' < m \<and>
     ((\<exists>k < n. sections_stored e ! ((s + k) mod m)) \<longrightarrow> sections_stored e ! s')"
proof (induction n arbitrary: s)
  case 0
  then show ?case by simp
next
  case (Suc n)
  have rd: "rd (sections_stored e) s = Some (sections_stored e ! s)"
    using Suc.prems assms(1,2) by (simp add: m_def rd_def)
  show ?case
  proof (cases "sections_stored e ! s")
    case True
    then show ?thesis using rd Suc.prems by simp
  next
    case False
    have "(s + 1) mod m < m" by (simp add: m_def)
    from Suc.IH [OF this] obtain s' where s': "eit_next_section e n ((s + 1) mod m) = Some s'" "s' < m"
      "(\<exists>k < n. sections_stored e ! (((s + 1) mod m + k) mod m)) \<longrightarrow> sections_stored e ! s'" by blast
    have "sections_stored e ! s'" if "k < Suc n" "sections_stored e ! ((s + k) mod m)" for k
    proof (cases k)
      case 0
      then show ?thesis using that False Suc.prems by simp
    next
      case (Suc j)
      then have "((s + 1) mod m + j) mod m = (s + k) mod m" by (simp add: mod_simps)
      then show ?thesis using s'(3) that Suc by (metis Suc_less_eq)
    qed
    then show ?thesis using rd False s'(1,2) by (auto simp: m_def)
  qed
qed

lemma eit_next_section_ok:
  assumes e: "eit_packet_inv e" and j: "j \<le> eit_packet_t.last_section_number e" "sections_stored e ! j"
  shows "\<exists>s. eit_next_section e (eit_packet_t.last_section_number e + 1) (n mod (eit_packet_t.last_section_number e + 1)) = Some s \<and>
     s \<le> eit_packet_t.last_section_number e \<and> sections_stored e ! s"
proof -
  define m where "m = eit_packet_t.last_section_number e + 1"
  define s where "s = n mod m"
  have s: "s < m" by (simp add: s_def m_def)
  have l: "length (sections_stored e) = 256" "eit_packet_t.last_section_number e < 256" using e by (simp_all add: eit_packet_inv_def)
  have "s + (m - s + j) = m + j" "j < m" using s j(1) by (simp_all add: m_def)
  then have "(s + (m - s + j) mod m) mod m = j" by (simp add: mod_add_right_eq)
  then have "\<exists>k < m. sections_stored e ! ((s + k) mod m)"
    using j(2) by (intro exI [of _ "(m - s + j) mod m"]) (simp add: m_def)
  then show ?thesis
    using eit_next_section_from [OF l, of s m] s by (auto simp: s_def m_def less_Suc_eq_le)
qed

text \<open>Some stored packet of a table the channel's service has; each such packet has a section in its range.\<close>

definition eit_ready :: "rewrite_parameters_t \<Rightarrow> nat \<Rightarrow> bool" where
  "eit_ready r sid \<longleftrightarrow> (\<exists>t. eit_table t \<and> eit_available r sid t) \<and>
     (\<forall>e \<in> set (eit_packets r). full_eit_ok e \<longrightarrow> (\<exists>j \<le> eit_packet_t.last_section_number e. sections_stored e ! j))"

text \<open>A section whose packets any idle receiver puts together to the section, unless one looks like a PES start.\<close>

definition arrives_unchanged :: "nat \<Rightarrow> nat \<Rightarrow> u8 list \<Rightarrow> bool" where
  "arrives_unchanged p c s \<longleftrightarrow> (\<forall>rx. ts_inv rx \<and> full_sections rx = [] \<and>
     (\<forall>q \<in> set (section_packets p c s). \<not> looks_like_pes (drop 4 q)) \<longrightarrow>
     (\<exists>rx1 rx2. feed_packets (section_packets p c s) rx = Some rx1 \<and>
        get_ts_packet None rx1 = Some (True, rx2) \<and> received_section rx2 = s))"

lemma section_arrives: "section_ok s \<Longrightarrow> p < 8192 \<Longrightarrow> c < 16 \<Longrightarrow> arrives_unchanged p c s"
  unfolding arrives_unchanged_def received_section_def using feed_section_packets by blast

text \<open>
  C23. The EIT of a channel. When an EIT begins in the stream, one stored section of the service of
  the channel is sent: it is CRC-correct, its table is of this transport stream, and it goes out as
  the packets of the standard segmentation on PID 18, with the continuity counter of the channel. A
  receiver that gets these packets gets the section unchanged (unless a packet looks like the start
  of a PES packet, see the reassembly). Then the next section is up.
\<close>

theorem eit_channel_packet:
  assumes r: "eit_inv r" "eit_ready r (mumudvb_channel_t.service_id ch)"
    and ch: "rd (chans (uni w)) i = Some ch" "READY \<le> channel_ready ch"
    and b: "4 \<le> length b" "ts_header_t.payload_unit_start_indicator (ts_header_of b) \<noteq> 0"
  shows "\<exists>e s p. e \<in> set (eit_packets r) \<and> eit_packet_t.service_id e = mumudvb_channel_t.service_id ch \<and>
     eit_table (eit_packet_t.table_id e) \<and> s \<le> eit_packet_t.last_section_number e \<and>
     full_eit_sections e ! s = Some p \<and> eit_section_of e s p \<and>
     eit_rewrite_new_channel_packet dss scam_on v env i sc clock b r w rb =
       do {
         (w, rb) \<leftarrow> eit_feed dss scam_on v env i sc clock (section_packets 18 (eit_cc ch) (received_section p))
           (upd_out_chan w i (ch\<lparr>eit_table_id_to_send := eit_packet_t.table_id e, eit_section_to_send := s\<rparr>)) rb;
         ch \<leftarrow> rd (chans (uni w)) i;
         Some (upd_out_chan w i (eit_advance e ch), rb)} \<and>
     (eit_cc ch < 16 \<longrightarrow> arrives_unchanged 18 (eit_cc ch) (received_section p))"
proof -
  define start where "start = (if \<not> eit_table (eit_table_id_to_send ch) then 0x4E else eit_table_id_to_send ch)"
  have "eit_table start" by (simp add: start_def eit_table_def)
  from eit_search_returns [OF this, of r "mumudvb_channel_t.service_id ch"] r(2) obtain tid e where
    se: "eit_search r (mumudvb_channel_t.service_id ch) start start = Some (Some e, tid)"
    and av: "eit_find_by_tsid r (mumudvb_channel_t.service_id ch) tid = Some e" "full_eit_ok e" "eit_table tid"
    by (auto simp: eit_ready_def eit_available_def)
  have e: "e \<in> set (eit_packets r)" "eit_packet_t.service_id e = mumudvb_channel_t.service_id ch" "eit_packet_t.table_id e = tid"
    using eit_find_Some av(1) by (auto simp: eit_find_by_tsid_def eit_is_def)
  have inv: "eit_packet_inv e" using r(1) e(1) by (simp add: eit_inv_def)
  obtain j where "j \<le> eit_packet_t.last_section_number e" "sections_stored e ! j"
    using r(2) e(1) av(2) by (auto simp: eit_ready_def)
  from eit_next_section_ok [OF inv this] obtain s where
    s: "eit_next_section e (eit_packet_t.last_section_number e + 1) (eit_section_to_send ch mod (eit_packet_t.last_section_number e + 1)) = Some s"
      "s \<le> eit_packet_t.last_section_number e" "sections_stored e ! s" by blast
  have s256: "s < 256" using s(2) inv by (simp add: eit_packet_inv_def)
  obtain p where p: "full_eit_sections e ! s = Some p" "eit_section_of e s p"
    using inv s(3) s256 by (auto simp: eit_packet_inv_def)
  have rds: "rd (sections_stored e) s = Some True" "rd (full_eit_sections e) s = Some (Some p)"
    using inv s(3) s256 p(1) by (simp_all add: eit_packet_inv_def rd_def)
  define c1 where "c1 = ch\<lparr>eit_table_id_to_send := tid, eit_section_to_send := s\<rparr>"
  have hd: "struct_at sizeof_ts_header_t ts_header_of b 0 = Some (ts_header_of b)"
    using b(1) by (simp add: struct_at_def sizeof_ts_header_t_def)
  have nr: "\<not> channel_ready ch < READY" using ch(2) by (simp add: not_less)
  have run: "eit_rewrite_new_channel_packet dss scam_on v env i sc clock b r w rb = do {
       (w, rb) \<leftarrow> eit_send_section dss scam_on v env i sc clock p (len_full p) 0 (upd_out_chan w i c1) rb;
       ch \<leftarrow> rd (chans (uni w)) i;
       Some (upd_out_chan w i (eit_advance e ch), rb)}"
    unfolding eit_rewrite_new_channel_packet_def ch(1) bind.bind_lunit hd Let_def start_def [symmetric] se
    using nr b(2) s(1) rds by (simp add: c1_def del: eit_next_section.simps)
  have rd1: "rd (chans (uni (upd_out_chan w i c1))) i = Some c1" using ch(1) by (simp add: upd_out_chan_def rd_Some_iff)
  have ok: "section_ok (received_section p)" using p(2) by (simp add: eit_section_of_def)
  have len: "0 < len_full p" "len_full p \<le> length (data_full p)"
    using p(2) by (auto simp: eit_section_of_def section_ok_def received_section_def)
  have feed: "eit_send_section dss scam_on v env i sc clock p (len_full p) 0 (upd_out_chan w i c1) rb =
     eit_feed dss scam_on v env i sc clock (section_packets 18 (eit_cc ch) (received_section p)) (upd_out_chan w i c1) rb"
    using eit_send_section_feeds [OF rd1 len] by (simp add: c1_def)
  have sends: "eit_rewrite_new_channel_packet dss scam_on v env i sc clock b r w rb =
       do {
         (w, rb) \<leftarrow> eit_feed dss scam_on v env i sc clock (section_packets 18 (eit_cc ch) (received_section p))
           (upd_out_chan w i (ch\<lparr>eit_table_id_to_send := eit_packet_t.table_id e, eit_section_to_send := s\<rparr>)) rb;
         ch \<leftarrow> rd (chans (uni w)) i;
         Some (upd_out_chan w i (eit_advance e ch), rb)}"
    unfolding run feed by (simp only: c1_def e(3))
  have arr: "eit_cc ch < 16 \<longrightarrow> arrives_unchanged 18 (eit_cc ch) (received_section p)"
    using section_arrives [OF ok] by simp
  have tb: "eit_table (eit_packet_t.table_id e)" using e(3) av(3) by simp
  show ?thesis
    by (rule exI [of _ e], rule exI [of _ s], rule exI [of _ p]) (intro conjI e(1,2) tb s(2) p sends arr)
qed

section \<open>The last packet of the list\<close>

text \<open>
  The walk never looks at the last packet. A section of its service and table goes into a new packet
  behind it, which no search finds: the section stays unknown until it comes again.
\<close>

lemma eit_walk_skips_last: "\<forall>x \<in> set es. \<not> eit_is sid tid x \<Longrightarrow> eit_walk sid tid (es @ [e]) k = None"
proof (induction es arbitrary: k)
  case (Cons a es)
  then show ?case by (cases "es @ [e]") auto
qed simp

lemma eit_find_first: "\<forall>x \<in> set es. \<not> eit_is sid tid x \<Longrightarrow> eit_is sid tid e \<Longrightarrow> eit_find sid tid (es @ e # xs) = Some e"
  by (induction es) auto

lemma eit_last_packet_duplicated:
  assumes "eit_packets r = es @ [e]" "\<forall>x \<in> set es. \<not> eit_is sid tid x" "eit_is sid tid e"
  shows "eit_new_packet True r sid tid = (Some (length es + 1), r\<lparr>eit_packets := es @ [e, zero_eit_packet]\<rparr>) \<and>
     eit_find sid tid (es @ [e, e']) = Some e"
  using eit_walk_skips_last [OF assms(2), of e 0] eit_find_first [OF assms(2,3)] assms(1) by (simp add: eit_new_packet_def)

section \<open>Witnesses\<close>

definition sample_eit_section :: "u8 list" where
  "sample_eit_section = sealed [0x4E, 0xf0, 0, 0, 7, 0xc3, 0, 0, 0, 1, 0, 1, 0, 0x4E]"

definition sample_eit_pkt :: mumudvb_ts_packet_t where
  "sample_eit_pkt = empty_ts_packet\<lparr>data_full := sample_eit_section @ replicate 4078 0, len_full := 18\<rparr>"

definition sample_eit :: eit_packet_t where
  "sample_eit = zero_eit_packet\<lparr>eit_packet_t.service_id := 7, eit_packet_t.table_id := 0x4E, eit_packet_t.version := 1,
     full_eit_ok := True, sections_stored := True # replicate 255 False, full_eit_sections := Some sample_eit_pkt # replicate 255 None\<rparr>"

definition sample_eit_rewrite :: rewrite_parameters_t where
  "sample_eit_rewrite = init_rewr_v\<lparr>full_eit := Some empty_ts_packet, eit_packets := [sample_eit]\<rparr>"

lemma sample_eit_section_ok: "section_ok sample_eit_section" "length sample_eit_section = 18"
  unfolding sample_eit_section_def by (rule sealed_section_ok) (simp_all add: MAX_TS_SIZE_def)

lemma sample_eit_of: "eit_section_of sample_eit 0 sample_eit_pkt"
proof -
  have "received_section sample_eit_pkt = sample_eit_section"
    using sample_eit_section_ok(2) by (simp add: received_section_def sample_eit_pkt_def)
  moreover have "data_full sample_eit_pkt = sample_eit_section @ replicate 4078 0" by (simp add: sample_eit_pkt_def)
  moreover have "len_full sample_eit_pkt = 18" by (simp add: sample_eit_pkt_def)
  ultimately show ?thesis using sample_eit_section_ok
    by (simp add: eit_section_of_def MAX_TS_SIZE_def Let_def)
      (simp add: eit_of_def sample_eit_section_def sealed_def sealed_body_def Let_def nth_append bf_get_def HILO_def
        sample_eit_def)
qed

lemma sample_eit_inv: "eit_inv sample_eit_rewrite"
proof -
  have "eit_packet_inv sample_eit"
    using sample_eit_of
    by (auto simp: eit_packet_inv_def sample_eit_def zero_eit_packet_def nth_Cons split: nat.splits)
  then show ?thesis by (simp add: eit_inv_def sample_eit_rewrite_def)
qed


definition sample_eit_channel :: mumudvb_channel_t where
  "sample_eit_channel = zero_channel\<lparr>mumudvb_channel_t.service_id := 7, channel_ready := READY\<rparr>"

lemma sample_eit_ready: "eit_ready sample_eit_rewrite 7"
proof -
  have "eit_available sample_eit_rewrite 7 0x4E"
    by (simp add: eit_available_def eit_find_by_tsid_def sample_eit_rewrite_def eit_is_def sample_eit_def)
  moreover have "eit_table 0x4E" by (simp add: eit_table_def)
  moreover have "sections_stored sample_eit ! 0" by (simp add: sample_eit_def)
  ultimately show ?thesis by (auto simp: eit_ready_def sample_eit_rewrite_def)
qed

definition sample_eit_world :: out_world where
  "sample_eit_world = sample_out_world\<lparr>uni := world0\<lparr>chans := [sample_eit_channel]\<rparr>\<rparr>"

theorem eit_channel_packet_witness:
  "\<exists>s p w1. eit_section_of sample_eit s p \<and>
     eit_rewrite_new_channel_packet False False init_unicast_v sample_out_env 0 sample_scam (\<lambda>_. 0) sample_packet sample_eit_rewrite sample_eit_world (scam_ring_init 4 []) =
       do {
         (w, rb) \<leftarrow> eit_feed False False init_unicast_v sample_out_env 0 sample_scam (\<lambda>_. 0) (section_packets 18 0 (received_section p)) w1 (scam_ring_init 4 []);
         ch \<leftarrow> rd (chans (uni w)) 0;
         Some (upd_out_chan w 0 (eit_advance sample_eit ch), rb)} \<and>
     arrives_unchanged 18 0 (received_section p)"
proof -
  have ch: "rd (chans (uni sample_eit_world)) 0 = Some sample_eit_channel" by (simp add: rd_def sample_eit_world_def)
  have rdy: "eit_ready sample_eit_rewrite (mumudvb_channel_t.service_id sample_eit_channel)"
    using sample_eit_ready by (simp add: sample_eit_channel_def)
  have c: "READY \<le> channel_ready sample_eit_channel" "eit_cc sample_eit_channel = 0"
    by (simp_all add: sample_eit_channel_def zero_channel_def)
  have b: "4 \<le> length sample_packet" "ts_header_t.payload_unit_start_indicator (ts_header_of sample_packet) \<noteq> 0"
    by (simp_all add: sample_packet_def ts_header_of_def bf_get_def)
  have es: "set (eit_packets sample_eit_rewrite) = {sample_eit}" by (simp add: sample_eit_rewrite_def)
  from eit_channel_packet [OF sample_eit_inv rdy ch c(1) b, of False False init_unicast_v sample_out_env sample_scam "\<lambda>_. 0" "scam_ring_init 4 []"]
  show ?thesis unfolding es c(2) by auto
qed

end
