(* ===== verification/Rewrite_Sdt.thy ===== *)
theory Rewrite_Sdt
  imports Rewrite_Pat
begin

text \<open>
  SDT rewriting, \<^verbatim>\<open>src/src/rewrite_sdt.c\<close>: the sections of the SDT are collected from the stream
  (\<^verbatim>\<open>sdt_rewrite_new_global_packet\<close>) and for each channel an SDT of one packet is generated that
  announces only the service of the channel, with the descriptors that concern it
  (\<^verbatim>\<open>sdt_channel_rewrite\<close>, \<^verbatim>\<open>sdt_rewrite_new_channel_packet\<close>).

  The descriptor length is read into an 8-bit variable together with the two bytes of its
  header, so a descriptor of 254 payload bytes has length 0: the loop over the descriptors is a
  \<open>partial_function\<close>, whose \<open>None\<close> is that it never returns. The lemmas show that on a section
  whose descriptors avoid this case the generated packet announces exactly the first fitting
  service of the channel, and that the case makes the program hang.
\<close>

section \<open>Versions and sections\<close>

definition sdt_rewrite_all_sections_seen :: "rewrite_parameters_t \<Rightarrow> bool option" where
  "sdt_rewrite_all_sections_seen r = do {
     seen \<leftarrow> mem_read (sdt_section_numbers_seen r) 0 (sdt_last_section_number r + 1);
     Some (list_all id seen)}"

definition sdt_need_update :: "rewrite_parameters_t \<Rightarrow> u8 list \<Rightarrow> bool option" where
  "sdt_need_update r b = do {
     begin \<leftarrow> get_ts_begin b;
     case begin of None \<Rightarrow> Some False
     | Some off \<Rightarrow> do {
         v \<leftarrow> tbl_version b off;
         table_id \<leftarrow> rd b off;
         if v \<noteq> sdt_version r \<and> table_id = 0x42 then tbl_current_next b off
         else Some False}}"

definition update_sdt_version :: "mumudvb_ts_packet_t \<Rightarrow> rewrite_parameters_t \<Rightarrow> rewrite_parameters_t option" where
  "update_sdt_version pkt r = do {
     v \<leftarrow> tbl_version (data_full pkt) 0;
     Some (r\<lparr>sdt_version := v\<rparr>)}"

text \<open>The descriptors that are kept.\<close>

definition sdt_rewrite_copy_descriptor :: "u8 \<Rightarrow> bool" where
  "sdt_rewrite_copy_descriptor tag \<longleftrightarrow> tag \<in> set [0x47, 0x48, 0x50, 0x51, 0x53, 0x5D, 0x6E]"

section \<open>Generating the SDT of a channel\<close>

text \<open>
  The loop over the descriptors of a service: \<open>base\<close> is the position of the first one, \<open>t\<close> the
  buffer \<^verbatim>\<open>t_buffer\<close> and \<open>loop_length\<close> what is already in it. \<^verbatim>\<open>descriptor_len\<close> is an
  \<^verbatim>\<open>unsigned char\<close>.
\<close>

partial_function (option) sdt_copy_descriptors ::
  "u8 list \<Rightarrow> nat \<Rightarrow> nat \<Rightarrow> nat \<Rightarrow> u8 list \<Rightarrow> nat \<Rightarrow> (u8 list \<times> nat) option" where
  "sdt_copy_descriptors full base descriptors_length pos t loop_length =
     (if pos < descriptors_length then do {
        tag \<leftarrow> rd full (base + pos);
        len \<leftarrow> rd full (base + pos + 1);
        (t, loop_length) \<leftarrow>
          (if sdt_rewrite_copy_descriptor tag then do {
             xs \<leftarrow> mem_read full (base + pos) (unat (len + 2));
             t \<leftarrow> mem_write t (SDT_DESCR_LEN + loop_length) xs;
             Some (t, loop_length + unat (len + 2))}
           else Some (t, loop_length));
        sdt_copy_descriptors full base descriptors_length (pos + unat (len + 2)) t loop_length}
      else Some (t, loop_length))"

definition sdt_service_id :: "sdt_descr_t \<Rightarrow> nat" where
  "sdt_service_id d = HILO (sdt_descr_t.service_id_hi d) (sdt_descr_t.service_id_lo d)"

definition sdt_loop_length :: "sdt_descr_t \<Rightarrow> nat" where
  "sdt_loop_length d = HILO (sdt_descr_t.descriptors_loop_length_hi d) (sdt_descr_t.descriptors_loop_length_lo d)"

text \<open>The header of the service in \<^verbatim>\<open>t_buffer\<close> gets its new length and, if asked, the EIT flags.\<close>

definition sdt_set_length :: "nat \<Rightarrow> sdt_descr_t \<Rightarrow> sdt_descr_t" where
  "sdt_set_length n d = d\<lparr>
     sdt_descr_t.descriptors_loop_length_lo := word_of_nat (n AND 0x00FF),
     sdt_descr_t.descriptors_loop_length_hi := word_of_nat (drop_bit 8 (n AND 0xFF00))\<rparr>"

definition sdt_set_eit :: "option_status_t \<Rightarrow> sdt_descr_t \<Rightarrow> sdt_descr_t" where
  "sdt_set_eit force d =
     (if force \<noteq> OPTION_UNDEFINED
      then d\<lparr>sdt_descr_t.eit_present_following_flag := 1, sdt_descr_t.eit_schedule_flag := 1\<rparr> else d)"

text \<open>
  The service at \<open>buffer_pos\<close>, whose number is the channel's. The result is \<open>None\<close> inside for the
  early return of the check after the length is written, else the buffer, the position in it and
  whether the service was copied.
\<close>

definition sdt_copy_service ::
  "option_status_t \<Rightarrow> u8 list \<Rightarrow> nat \<Rightarrow> nat \<Rightarrow> u8 list \<Rightarrow> nat \<Rightarrow> (u8 list \<times> nat \<times> bool) option option" where
  "sdt_copy_service force full buffer_pos descriptors_length dest pos = do {
     hs \<leftarrow> mem_read full buffer_pos SDT_DESCR_LEN;
     t \<leftarrow> mem_write (replicate MAX_TS_SIZE 0) 0 hs;
     (t, loop_length) \<leftarrow> sdt_copy_descriptors full (buffer_pos + SDT_DESCR_LEN) descriptors_length 0 t 0;
     if pos + SDT_DESCR_LEN + loop_length + 4 + 1 > TS_PACKET_SIZE then Some (Some (dest, pos, False))
     else do {
       d \<leftarrow> struct_at SDT_DESCR_LEN sdt_descr_of t 0;
       t \<leftarrow> struct_put sdt_descr_bytes t 0 (sdt_set_length loop_length d);
       d \<leftarrow> struct_at SDT_DESCR_LEN sdt_descr_of t 0;
       if sdt_loop_length d \<noteq> loop_length then Some None
       else do {
         t \<leftarrow> struct_put sdt_descr_bytes t 0 (sdt_set_eit force d);
         xs \<leftarrow> mem_read t 0 (SDT_DESCR_LEN + loop_length);
         dest \<leftarrow> mem_write dest pos xs;
         Some (Some (dest, pos + SDT_DESCR_LEN + loop_length, True))}}}"

text \<open>The loop over the services.\<close>

function sdt_copy_services ::
  "option_status_t \<Rightarrow> nat \<Rightarrow> u8 list \<Rightarrow> nat \<Rightarrow> nat \<Rightarrow> u8 list \<Rightarrow> nat \<Rightarrow> bool \<Rightarrow>
   (u8 list \<times> nat \<times> bool) option option" where
  "sdt_copy_services force sid full section_length buffer_pos dest pos found =
     (if buffer_pos + SDT_DESCR_LEN < section_length \<and> \<not> found then
        (case struct_at SDT_DESCR_LEN sdt_descr_of full buffer_pos of None \<Rightarrow> None
         | Some d \<Rightarrow>
             if sid = sdt_service_id d then
               (case sdt_copy_service force full buffer_pos (sdt_loop_length d) dest pos of
                  None \<Rightarrow> None
                | Some None \<Rightarrow> Some None
                | Some (Some (dest, pos, found)) \<Rightarrow>
                    sdt_copy_services force sid full section_length
                      (buffer_pos + SDT_DESCR_LEN + sdt_loop_length d) dest pos found)
             else sdt_copy_services force sid full section_length
                    (buffer_pos + SDT_DESCR_LEN + sdt_loop_length d) dest pos found)
      else Some (Some (dest, pos, found)))"
  by pat_completeness auto
termination
  by (relation "measure (\<lambda>(force, sid, full, section_length, buffer_pos, dest, pos, found).
       section_length - buffer_pos)") (auto simp: SDT_DESCR_LEN_def)

declare sdt_copy_services.simps [simp del]

text \<open>\<^verbatim>\<open>sdt_channel_rewrite\<close>: its return value and the changed parameters, channel and packet.\<close>

definition sdt_channel_rewrite ::
  "rewrite_parameters_t \<Rightarrow> mumudvb_channel_t \<Rightarrow> u8 list \<Rightarrow>
   (int \<times> rewrite_parameters_t \<times> mumudvb_channel_t \<times> u8 list) option" where
  "sdt_channel_rewrite r ch b =
     (if mumudvb_channel_t.service_id ch = 0 then Some (0, r, ch\<lparr>sdt_rewrite_skip := True\<rparr>, b)
      else do {
        pkt \<leftarrow> full_sdt r;
        let full = data_full pkt;
        sdt \<leftarrow> struct_at SDT_LEN sdt_of full 0;
        let section_length = HILO (sdt_t.section_length_hi sdt) (sdt_t.section_length_lo sdt);
        (b, dest) \<leftarrow> rewrite_ts_header b;
        full \<leftarrow> struct_put sdt_bytes full 0
          (sdt\<lparr>sdt_t.current_next_indicator := 1, sdt_t.section_number := 0, sdt_t.last_section_number := 0\<rparr>);
        let r = r\<lparr>full_sdt := Some (pkt\<lparr>data_full := full\<rparr>)\<rparr>;
        hs \<leftarrow> mem_read full 0 SDT_LEN;
        dest \<leftarrow> mem_write dest TS_HEADER_LEN hs;
        if sdt_t.table_id sdt \<noteq> 0x42 then Some (0, r\<lparr>sdt_needs_update := True\<rparr>, ch, b)
        else do {
          copied \<leftarrow> sdt_copy_services (sdt_force_eit r) (mumudvb_channel_t.service_id ch) full
            section_length SDT_LEN dest (TS_HEADER_LEN + SDT_LEN) False;
          case copied of None \<Rightarrow> Some (0, r, ch, b)
          | Some (dest, pos, found) \<Rightarrow> do {
              dest \<leftarrow> pat_finish dest pos;
              if found then do {
                gen \<leftarrow> mem_write (generated_sdt ch) 0 dest;
                Some (1, r, ch\<lparr>generated_sdt := gen, sdt_rewrite_skip := False,
                               generated_sdt_version := sdt_version r\<rparr>, b)}
              else do {
                all_seen \<leftarrow> sdt_rewrite_all_sections_seen r;
                if all_seen
                then Some (1, r, ch\<lparr>sdt_rewrite_skip := True, generated_sdt_version := sdt_version r\<rparr>, b)
                else Some (0, r\<lparr>sdt_need_others := True\<rparr>, ch, b)}}}})"

section \<open>The two entry points\<close>

text \<open>How the loop over the received sections ends: it goes on, it breaks, or it returns 1.\<close>

datatype sdt_exit = Continue | Break | Return_1

definition sdt_global_body ::
  "rewrite_parameters_t \<times> sdt_exit \<Rightarrow> mumudvb_ts_packet_t \<Rightarrow> (rewrite_parameters_t \<times> sdt_exit) option" where
  "sdt_global_body st pkt = do {
     let r = fst st;
     sdt \<leftarrow> struct_at SDT_LEN sdt_of (data_full pkt) 0;
     if sdt_t.current_next_indicator sdt = 0 then Some (r, Continue)
     else if sdt_t.table_id sdt \<noteq> 0x42 then Some (r\<lparr>sdt_needs_update := True\<rparr>, Break)
     else do {
       let r = r\<lparr>sdt_last_section_number := unat (sdt_t.last_section_number sdt)\<rparr>;
       seen \<leftarrow> wr (sdt_section_numbers_seen r) (unat (sdt_t.section_number sdt)) True;
       r \<leftarrow> update_sdt_version pkt (r\<lparr>sdt_section_numbers_seen := seen\<rparr>);
       let r = r\<lparr>sdt_needs_update := False, full_sdt_ok := True\<rparr>;
       if \<not> sdt_need_others r then Some (r, Return_1)
       else Some (r\<lparr>sdt_need_others := False\<rparr>, Break)}}"

definition sdt_rewrite_new_global_packet ::
  "u8 list \<Rightarrow> rewrite_parameters_t \<Rightarrow> (int \<times> rewrite_parameters_t) option" where
  "sdt_rewrite_new_global_packet ts_packet r = do {
     r \<leftarrow> (if \<not> sdt_needs_update r then do {
            need \<leftarrow> sdt_need_update r ts_packet;
            Some (if need then r\<lparr>sdt_needs_update := True, sdt_section_numbers_seen := replicate 256 False\<rparr>
                  else r)}
          else Some r);
     (r, exit) \<leftarrow> (if sdt_needs_update r \<or> sdt_need_others r then do {
            pkt \<leftarrow> full_sdt r;
            (pkt, r, exit) \<leftarrow> ts_while (\<lambda>st. snd st = Continue) sdt_global_body ts_packet pkt (r, Continue);
            Some (r\<lparr>full_sdt := Some pkt\<rparr>, exit)}
          else Some (r, Continue));
     if exit = Return_1 then Some (1, r)
     else Some (0, r\<lparr>sdt_continuity_counter := (sdt_continuity_counter r + 1) mod 16\<rparr>)}"

definition sdt_rewrite_new_channel_packet ::
  "u8 list \<Rightarrow> rewrite_parameters_t \<Rightarrow> mumudvb_channel_t \<Rightarrow>
   (int \<times> u8 list \<times> rewrite_parameters_t \<times> mumudvb_channel_t) option" where
  "sdt_rewrite_new_channel_packet ts_packet r ch =
     (if \<not> full_sdt_ok r then Some (0, ts_packet, r, ch)
      else do {
        (ok, r, ch, b) \<leftarrow>
          (if \<not> sdt_needs_update r \<and> channel_ready ch \<ge> READY \<and> generated_sdt_version ch \<noteq> sdt_version r
           then sdt_channel_rewrite r ch ts_packet
           else Some (1, r, ch, ts_packet));
        if ok = 0 then Some (0, b, r, ch)
        else if generated_sdt_version ch = sdt_version r then do {
          b \<leftarrow> mem_write b 0 (generated_sdt ch);
          b \<leftarrow> set_continuity_counter b (sdt_continuity_counter r);
          Some (1, b, r, ch)}
        else Some (0, b, r, ch)})"

section \<open>What the loops copy\<close>

text \<open>A descriptor loop split into its descriptors, when it is well formed.\<close>

fun sdt_descriptors :: "u8 list \<Rightarrow> u8 list list option" where
  "sdt_descriptors [] = Some []"
| "sdt_descriptors [_] = None"
| "sdt_descriptors (tag # len # rest) =
     (if unat len \<le> length rest
      then map_option ((#) (tag # len # take (unat len) rest)) (sdt_descriptors (drop (unat len) rest))
      else None)"

definition sdt_kept :: "u8 list list \<Rightarrow> u8 list" where
  "sdt_kept ds = concat (filter (\<lambda>d. sdt_rewrite_copy_descriptor (hd d)) ds)"

lemma sdt_kept_simps [simp]:
  "sdt_kept [] = []"
  "sdt_kept (d # ds) = (if sdt_rewrite_copy_descriptor (hd d) then d @ sdt_kept ds else sdt_kept ds)"
  by (simp_all add: sdt_kept_def)

lemma sdt_descriptors_Nil: "sdt_descriptors xs = Some [] \<Longrightarrow> xs = []"
  by (cases xs rule: sdt_descriptors.cases) (auto split: if_splits)

lemma sdt_descriptors_Cons:
  assumes "sdt_descriptors xs = Some (d # ds)"
  obtains tag len payload rest where "xs = d @ rest" "d = tag # len # payload"
    "length payload = unat len" "sdt_descriptors rest = Some ds"
proof (cases xs rule: sdt_descriptors.cases)
  case (3 tag len rest)
  then show ?thesis
    using assms by (intro that [of "drop (unat len) rest" tag len "take (unat len) rest"])
      (auto split: if_splits)
qed (use assms in auto)

lemma sdt_descriptors_concat: "sdt_descriptors xs = Some ds \<Longrightarrow> concat ds = xs"
proof (induction ds arbitrary: xs)
  case Nil then show ?case by (auto dest: sdt_descriptors_Nil)
next
  case (Cons d ds) then show ?case by (auto elim: sdt_descriptors_Cons)
qed

lemma sdt_kept_le: "length (sdt_kept ds) \<le> length (concat ds)"
  by (induction ds) auto

lemma descriptor_length_no_wrap:
  "unat (len :: u8) + 2 < 256 \<Longrightarrow> unat (len + 2) = unat len + 2"
  by (simp add: unat_word_ariths)

lemma sdt_copy_descriptors_spec:
  "sdt_descriptors xs = Some ds \<Longrightarrow> \<forall>d \<in> set ds. length d \<le> 255 \<Longrightarrow>
   full = pre @ xs @ post \<Longrightarrow> length pre = base + pos \<Longrightarrow> pos + length xs = dl \<Longrightarrow>
   SDT_DESCR_LEN + l + length (sdt_kept ds) \<le> length t \<Longrightarrow>
   \<exists>t'. sdt_copy_descriptors full base dl pos t l = Some (t', l + length (sdt_kept ds)) \<and>
     length t' = length t \<and>
     take (SDT_DESCR_LEN + l + length (sdt_kept ds)) t' = take (SDT_DESCR_LEN + l) t @ sdt_kept ds"
proof (induction ds arbitrary: xs pre pos t l)
  case Nil
  then show ?case by (subst sdt_copy_descriptors.simps) (auto dest: sdt_descriptors_Nil)
next
  case (Cons d ds)
  obtain tag len payload rest where d: "xs = d @ rest" "d = tag # len # payload"
      "length payload = unat len" "sdt_descriptors rest = Some ds"
    using Cons.prems(1) by (rule sdt_descriptors_Cons)
  have n: "unat (len + 2) = unat len + 2"
    using Cons.prems(2) d by (intro descriptor_length_no_wrap) auto
  have ld: "length d = unat (len + 2)" using d n by simp
  have lt: "pos < dl" using Cons.prems(5) d by simp
  have r1: "rd full (base + pos) = Some tag" and r2: "rd full (base + pos + 1) = Some len"
    using Cons.prems(3,4) d by (simp_all add: rd_def nth_append)
  have r3: "mem_read full (base + pos) (unat (len + 2)) = Some d"
    using Cons.prems(3,4) d(1) ld by (simp add: mem_read_def)
  have ds: "\<forall>d \<in> set ds. length d \<le> 255" using Cons.prems(2) by simp
  have full: "full = (pre @ d) @ rest @ post" "length (pre @ d) = base + (pos + unat (len + 2))"
    "pos + unat (len + 2) + length rest = dl"
    using Cons.prems(3-5) d(1) ld by simp_all
  show ?case
  proof (cases "sdt_rewrite_copy_descriptor tag")
    case False
    then have k: "sdt_kept (d # ds) = sdt_kept ds" using d by simp
    have "sdt_copy_descriptors full base dl pos t l =
        sdt_copy_descriptors full base dl (pos + unat (len + 2)) t l"
      using lt False r1 r2 by (subst sdt_copy_descriptors.simps) simp
    then show ?thesis using Cons.IH [OF d(4) ds full, of l t] Cons.prems(6) k by simp
  next
    case True
    then have k: "sdt_kept (d # ds) = d @ sdt_kept ds" using d by simp
    have "SDT_DESCR_LEN + l + length d \<le> length t" using Cons.prems(6) k by simp
    then obtain t1 where t1: "mem_write t (SDT_DESCR_LEN + l) d = Some t1" by (simp add: mem_write_def)
    have l1: "length t1 = length t" by (rule mem_write_length [OF t1])
    have p1: "take (SDT_DESCR_LEN + (l + unat (len + 2))) t1 = take (SDT_DESCR_LEN + l) t @ d"
      using mem_write_prefix [OF t1] ld by (simp add: add.assoc)
    have "sdt_copy_descriptors full base dl pos t l =
        sdt_copy_descriptors full base dl (pos + unat (len + 2)) t1 (l + unat (len + 2))"
      using lt True r1 r2 r3 t1 by (subst sdt_copy_descriptors.simps) simp
    then show ?thesis
      using Cons.IH [OF d(4) ds full, of "l + unat (len + 2)" t1] Cons.prems(6) k ld l1 p1
      by (auto simp: add.assoc)
  qed
qed

text \<open>The bytes a copied service has in the generated section.\<close>

definition sdt_service_bytes :: "option_status_t \<Rightarrow> sdt_descr_t \<Rightarrow> u8 list list \<Rightarrow> u8 list" where
  "sdt_service_bytes force d ds =
     sdt_descr_bytes (sdt_set_eit force (sdt_set_length (length (sdt_kept ds)) d)) @ sdt_kept ds"

lemma length_sdt_descr_bytes [simp]: "length (sdt_descr_bytes d) = 5"
  by (simp add: sdt_descr_s.len_enc SDT_DESCR_LEN_def)

lemma word_mod_2_mod_2 [simp]: "(x :: u8) mod 2 mod 2 = x mod 2"
proof -
  have "take_bit 1 (take_bit 1 x) = take_bit 1 x" by (simp only: take_bit_take_bit min.idem)
  then show ?thesis by simp
qed

lemma sdt_descr_bytes_norm:
  "sdt_descr_bytes (sdt_set_eit force (sdt_descr_norm d)) = sdt_descr_bytes (sdt_set_eit force d)"
  by (simp add: sdt_set_eit_def sdt_descr_bytes_def sdt_descr_norm_def bf_pack_def)

lemma split_byte_pair:
  "n < 4096 \<Longrightarrow> HILO (take_bit 4 (word_of_nat (drop_bit 8 (n AND 0xFF00)))) (word_of_nat (n AND 0x00FF)) = n"
proof -
  assume n: "n < 4096"
  have hi: "\<not> bit n k" if "12 \<le> k" for k
  proof -
    have "(2 :: nat) ^ 12 \<le> 2 ^ k" using that by (intro power_increasing) simp_all
    then have "n div 2 ^ k = 0" using n by simp
    then show ?thesis by (simp add: bit_iff_odd)
  qed
  have m: "(0xFF00 :: nat) = push_bit 8 (mask 8)" "(0x00FF :: nat) = mask 8"
    by (simp_all add: mask_eq_exp_minus_1 push_bit_eq_mult)
  show ?thesis unfolding HILO_def m
  proof (rule bit_eqI)
    fix k
    show "bit (push_bit 8 (unat (take_bit 4 (word_of_nat (drop_bit 8 (n AND push_bit 8 (mask 8)))) :: u8)) OR
        unat (word_of_nat (n AND mask 8) :: u8)) k = bit n k"
      using hi [of k]
      by (cases "k < 12")
         (auto simp: bit_or_iff bit_push_bit_iff bit_unsigned_iff bit_take_bit_iff bit_word_of_nat
            bit_drop_bit_eq bit_and_iff bit_mask_iff)
  qed
qed

lemma sdt_loop_length_set:
  "n < 4096 \<Longrightarrow> sdt_loop_length (sdt_descr_norm (sdt_set_eit force (sdt_set_length n d))) = n"
  using split_byte_pair [of n]
  by (simp add: sdt_loop_length_def sdt_descr_norm_def sdt_set_length_def sdt_set_eit_def)

lemma sdt_loop_length_set':
  "n < 4096 \<Longrightarrow> sdt_loop_length (sdt_descr_norm (sdt_set_length n d)) = n"
  using split_byte_pair [of n]
  by (simp add: sdt_loop_length_def sdt_descr_norm_def sdt_set_length_def)

lemma sdt_copy_service_spec:
  assumes full: "length full = MAX_TS_SIZE" "bpos + SDT_DESCR_LEN + dl \<le> length full"
    and ds: "sdt_descriptors (take dl (drop (bpos + SDT_DESCR_LEN) full)) = Some ds" "\<forall>d \<in> set ds. length d \<le> 255"
    and dest: "length dest = TS_PACKET_SIZE"
  defines "d \<equiv> sdt_descr_of (drop bpos full)" and "k \<equiv> length (sdt_kept ds)"
  shows "if pos + SDT_DESCR_LEN + k + 5 > TS_PACKET_SIZE
    then sdt_copy_service force full bpos dl dest pos = Some (Some (dest, pos, False))
    else \<exists>dest'. sdt_copy_service force full bpos dl dest pos =
           Some (Some (dest', pos + SDT_DESCR_LEN + k, True)) \<and> length dest' = TS_PACKET_SIZE \<and>
         take (pos + SDT_DESCR_LEN + k) dest' = take pos dest @ sdt_service_bytes force d ds"
proof -
  define hs where "hs = take 5 (drop bpos full)"
  define xs where "xs = take dl (drop (bpos + SDT_DESCR_LEN) full)"
  have lhs: "length hs = 5" using full by (simp add: hs_def SDT_DESCR_LEN_def)
  have lxs: "length xs = dl" using full by (simp add: xs_def)
  have "length (concat ds) = dl" using sdt_descriptors_concat [OF ds(1)] lxs by (simp add: xs_def)
  then have k: "5 + k \<le> MAX_TS_SIZE" using sdt_kept_le [of ds] full by (simp add: k_def SDT_DESCR_LEN_def)
  define t0 where "t0 = hs @ replicate 4091 (0 :: u8)"
  have 1: "mem_read full bpos SDT_DESCR_LEN = Some hs"
    using full by (simp add: mem_read_def hs_def SDT_DESCR_LEN_def)
  have 2: "mem_write (replicate MAX_TS_SIZE 0) 0 hs = Some t0"
    using lhs by (simp add: mem_write_def MAX_TS_SIZE_def t0_def)
  have fs: "full = take (bpos + SDT_DESCR_LEN) full @ xs @ drop (bpos + SDT_DESCR_LEN + dl) full"
    unfolding xs_def by (metis append.assoc append_take_drop_id take_add)
  have "\<exists>t'. sdt_copy_descriptors full (bpos + SDT_DESCR_LEN) dl 0 t0 0 = Some (t', 0 + k) \<and>
     length t' = length t0 \<and> take (SDT_DESCR_LEN + 0 + k) t' = take (SDT_DESCR_LEN + 0) t0 @ sdt_kept ds"
    unfolding k_def
    by (rule sdt_copy_descriptors_spec [OF _ ds(2) fs])
       (use ds(1) full lxs k lhs in \<open>simp_all add: xs_def t0_def SDT_DESCR_LEN_def MAX_TS_SIZE_def k_def\<close>)
  then obtain t1 where 3: "sdt_copy_descriptors full (bpos + SDT_DESCR_LEN) dl 0 t0 0 = Some (t1, k)"
      "length t1 = 4096" "take (5 + k) t1 = hs @ sdt_kept ds"
    using lhs by (auto simp: t0_def SDT_DESCR_LEN_def)
  then obtain tl where t1: "t1 = hs @ sdt_kept ds @ tl" by (metis append.assoc append_take_drop_id)
  have dd: "sdt_descr_of t1 = d"
  proof -
    have "sdt_descr_of (take SDT_DESCR_LEN t1) = sdt_descr_of (take SDT_DESCR_LEN (drop bpos full))"
      using t1 lhs by (simp add: SDT_DESCR_LEN_def hs_def)
    then show ?thesis
      using sdt_descr_s.dec_cong [of t1] sdt_descr_s.dec_cong [of "drop bpos full"] 3(2) full
      by (simp add: d_def SDT_DESCR_LEN_def)
  qed
  have 4: "struct_at SDT_DESCR_LEN sdt_descr_of t1 0 = Some d"
    using 3(2) dd by (simp add: struct_at_def SDT_DESCR_LEN_def)
  define e1 where "e1 = sdt_set_length k d"
  have 5: "struct_put sdt_descr_bytes t1 0 e1 = Some (sdt_descr_bytes e1 @ sdt_kept ds @ tl)"
    using t1 lhs by (simp add: struct_put_def mem_write_def)
  have 6: "struct_at SDT_DESCR_LEN sdt_descr_of (sdt_descr_bytes e1 @ sdt_kept ds @ tl) 0 = Some (sdt_descr_norm e1)"
    using sdt_descr_s.dec_enc [of e1] by (simp add: struct_at_def SDT_DESCR_LEN_def)
  have "k < 4096" using k by (simp add: MAX_TS_SIZE_def)
  then have 7: "(sdt_loop_length (sdt_descr_norm e1) \<noteq> k) = False"
    using sdt_loop_length_set' [of k d] by (simp add: e1_def)
  have 8: "struct_put sdt_descr_bytes (sdt_descr_bytes e1 @ sdt_kept ds @ tl) 0 (sdt_set_eit force (sdt_descr_norm e1)) =
      Some (sdt_service_bytes force d ds @ tl)"
    by (simp add: struct_put_def mem_write_def sdt_descr_bytes_norm sdt_service_bytes_def e1_def k_def)
  have ls: "length (sdt_service_bytes force d ds) = 5 + k" by (simp add: sdt_service_bytes_def k_def)
  have 9: "mem_read (sdt_service_bytes force d ds @ tl) 0 (SDT_DESCR_LEN + k) = Some (sdt_service_bytes force d ds)"
    using ls by (simp add: mem_read_def SDT_DESCR_LEN_def)
  show ?thesis
  proof (cases "pos + SDT_DESCR_LEN + k + 5 > TS_PACKET_SIZE")
    case True
    then show ?thesis using 1 2 3(1) by (simp add: sdt_copy_service_def)
  next
    case False
    then obtain dest' where 10: "mem_write dest pos (sdt_service_bytes force d ds) = Some dest'"
      using ls dest by (simp add: mem_write_def SDT_DESCR_LEN_def)
    have g: "(TS_PACKET_SIZE < pos + SDT_DESCR_LEN + k + 4 + 1) = False" using False by simp
    have "sdt_copy_service force full bpos dl dest pos = Some (Some (dest', pos + SDT_DESCR_LEN + k, True))"
      unfolding sdt_copy_service_def
      by (simp only: 1 2 3(1) bind.bind_lunit prod.case g if_False 4 e1_def [symmetric] 5 6 7 8 9 10)
    moreover have "length dest' = TS_PACKET_SIZE" using mem_write_length [OF 10] dest by simp
    moreover have "take (pos + SDT_DESCR_LEN + k) dest' = take pos dest @ sdt_service_bytes force d ds"
      using mem_write_prefix [OF 10] ls by (simp add: SDT_DESCR_LEN_def add.assoc)
    ultimately show ?thesis using False by simp
  qed
qed

text \<open>The services of a section: header and descriptor loop.\<close>

function sdt_services :: "u8 list \<Rightarrow> nat \<Rightarrow> nat \<Rightarrow> (sdt_descr_t \<times> u8 list) list" where
  "sdt_services full section_length off =
     (if off + SDT_DESCR_LEN < section_length then
        let d = sdt_descr_of (drop off full) in
        (d, take (sdt_loop_length d) (drop (off + SDT_DESCR_LEN) full)) #
        sdt_services full section_length (off + SDT_DESCR_LEN + sdt_loop_length d)
      else [])"
  by pat_completeness auto
termination
  by (relation "measure (\<lambda>(full, section_length, off). section_length - off)") (auto simp: SDT_DESCR_LEN_def)

declare sdt_services.simps [simp del]

definition sdt_service_ok :: "nat \<Rightarrow> sdt_descr_t \<times> u8 list \<Rightarrow> bool" where
  "sdt_service_ok sid s \<longleftrightarrow> (sdt_service_id (fst s) = sid \<longrightarrow> length (snd s) = sdt_loop_length (fst s) \<and>
     (case sdt_descriptors (snd s) of None \<Rightarrow> False | Some ds \<Rightarrow> list_all (\<lambda>d. length d \<le> 255) ds))"

definition sdt_kept_of :: "sdt_descr_t \<times> u8 list \<Rightarrow> u8 list list" where
  "sdt_kept_of s = (case sdt_descriptors (snd s) of None \<Rightarrow> [] | Some ds \<Rightarrow> ds)"

text \<open>The service that is announced: the first one of the channel that fits the packet.\<close>

definition sdt_chosen :: "nat \<Rightarrow> nat \<Rightarrow> (sdt_descr_t \<times> u8 list) list \<Rightarrow> (sdt_descr_t \<times> u8 list) option" where
  "sdt_chosen pos sid ss =
     find (\<lambda>s. sdt_service_id (fst s) = sid \<and>
       pos + SDT_DESCR_LEN + length (sdt_kept (sdt_kept_of s)) + 5 \<le> TS_PACKET_SIZE) ss"

lemma sdt_copy_services_found: "sdt_copy_services force sid full sl bpos dest pos True = Some (Some (dest, pos, True))"
  by (subst sdt_copy_services.simps) simp

lemma sdt_copy_services_spec:
  "sl \<le> length full \<Longrightarrow> length full = MAX_TS_SIZE \<Longrightarrow> list_all (sdt_service_ok sid) (sdt_services full sl bpos) \<Longrightarrow>
   length dest = TS_PACKET_SIZE \<Longrightarrow>
   (case sdt_chosen pos sid (sdt_services full sl bpos) of
      None \<Rightarrow> sdt_copy_services force sid full sl bpos dest pos False = Some (Some (dest, pos, False))
    | Some s \<Rightarrow> \<exists>dest' pos'. sdt_copy_services force sid full sl bpos dest pos False = Some (Some (dest', pos', True)) \<and>
        pos' = pos + SDT_DESCR_LEN + length (sdt_kept (sdt_kept_of s)) \<and> pos' + 5 \<le> TS_PACKET_SIZE \<and>
        length dest' = TS_PACKET_SIZE \<and> take pos' dest' = take pos dest @ sdt_service_bytes force (fst s) (sdt_kept_of s))"
proof (induction "sl - bpos" arbitrary: bpos rule: less_induct)
  case less
  show ?case
  proof (cases "bpos + SDT_DESCR_LEN < sl")
    case False
    have "sdt_services full sl bpos = []" using False by (subst sdt_services.simps) simp
    moreover have "sdt_copy_services force sid full sl bpos dest pos False = Some (Some (dest, pos, False))"
      using False by (subst sdt_copy_services.simps) simp
    ultimately show ?thesis by (simp add: sdt_chosen_def)
  next
    case True
    define d where "d = sdt_descr_of (drop bpos full)"
    define s where "s = (d, take (sdt_loop_length d) (drop (bpos + SDT_DESCR_LEN) full))"
    define nx where "nx = bpos + SDT_DESCR_LEN + sdt_loop_length d"
    have srv: "sdt_services full sl bpos = s # sdt_services full sl nx"
      using True by (subst sdt_services.simps) (simp add: d_def s_def nx_def Let_def)
    have at: "struct_at SDT_DESCR_LEN sdt_descr_of full bpos = Some d"
      using True less.prems(1) by (simp add: struct_at_def d_def)
    have IH: "case sdt_chosen pos sid (sdt_services full sl nx) of
      None \<Rightarrow> sdt_copy_services force sid full sl nx dest pos False = Some (Some (dest, pos, False))
    | Some s \<Rightarrow> \<exists>dest' pos'. sdt_copy_services force sid full sl nx dest pos False = Some (Some (dest', pos', True)) \<and>
        pos' = pos + SDT_DESCR_LEN + length (sdt_kept (sdt_kept_of s)) \<and> pos' + 5 \<le> TS_PACKET_SIZE \<and>
        length dest' = TS_PACKET_SIZE \<and> take pos' dest' = take pos dest @ sdt_service_bytes force (fst s) (sdt_kept_of s)"
      using less.prems srv True by (intro less.hyps) (simp_all add: nx_def SDT_DESCR_LEN_def)
    show ?thesis
    proof (cases "sdt_service_id d = sid")
      case False
      have "sdt_copy_services force sid full sl bpos dest pos False =
          sdt_copy_services force sid full sl nx dest pos False"
        using True at False by (subst sdt_copy_services.simps) (simp add: nx_def)
      moreover have "sdt_chosen pos sid (sdt_services full sl bpos) = sdt_chosen pos sid (sdt_services full sl nx)"
        unfolding srv using False by (simp add: sdt_chosen_def s_def)
      ultimately show ?thesis using IH by (simp only:)
    next
      case sid: True
      have "sdt_service_ok sid s" using less.prems(3) srv by simp
      then obtain ds where ds: "sdt_descriptors (snd s) = Some ds" "\<forall>d \<in> set ds. length d \<le> 255"
          and lraw: "length (snd s) = sdt_loop_length d"
        using sid by (auto simp: sdt_service_ok_def s_def list_all_iff split: option.splits)
      have bnd: "bpos + SDT_DESCR_LEN + sdt_loop_length d \<le> length full"
        using lraw True less.prems(1) by (simp add: s_def)
      have ds': "sdt_descriptors (take (sdt_loop_length d) (drop (bpos + SDT_DESCR_LEN) full)) = Some ds"
        using ds(1) by (simp add: s_def)
      have ko: "sdt_kept_of s = ds" using ds by (simp add: sdt_kept_of_def)
      have svc: "if pos + SDT_DESCR_LEN + length (sdt_kept ds) + 5 > TS_PACKET_SIZE
        then sdt_copy_service force full bpos (sdt_loop_length d) dest pos = Some (Some (dest, pos, False))
        else \<exists>dest'. sdt_copy_service force full bpos (sdt_loop_length d) dest pos =
               Some (Some (dest', pos + SDT_DESCR_LEN + length (sdt_kept ds), True)) \<and> length dest' = TS_PACKET_SIZE \<and>
             take (pos + SDT_DESCR_LEN + length (sdt_kept ds)) dest' = take pos dest @ sdt_service_bytes force d ds"
        using sdt_copy_service_spec [OF less.prems(2) bnd ds' ds(2) less.prems(4), of pos force]
        by (simp only: d_def [symmetric])
      show ?thesis
      proof (cases "pos + SDT_DESCR_LEN + length (sdt_kept ds) + 5 > TS_PACKET_SIZE")
        case big: True
        then have "sdt_copy_services force sid full sl bpos dest pos False =
          sdt_copy_services force sid full sl nx dest pos False"
          using svc True at sid by (subst sdt_copy_services.simps) (simp add: nx_def)
        moreover have "sdt_chosen pos sid (sdt_services full sl bpos) = sdt_chosen pos sid (sdt_services full sl nx)"
          unfolding srv using big ko by (simp add: sdt_chosen_def)
        ultimately show ?thesis using IH by (simp only:)
      next
        case fits: False
        then obtain dest' where dest': "sdt_copy_service force full bpos (sdt_loop_length d) dest pos =
               Some (Some (dest', pos + SDT_DESCR_LEN + length (sdt_kept ds), True))" "length dest' = TS_PACKET_SIZE"
             "take (pos + SDT_DESCR_LEN + length (sdt_kept ds)) dest' = take pos dest @ sdt_service_bytes force d ds"
          using svc by auto
        have "sdt_copy_services force sid full sl bpos dest pos False =
            Some (Some (dest', pos + SDT_DESCR_LEN + length (sdt_kept ds), True))"
          using True at sid dest'(1) by (subst sdt_copy_services.simps) (simp add: sdt_copy_services_found)
        moreover have "sdt_chosen pos sid (sdt_services full sl bpos) = Some s"
          unfolding srv using fits ko sid by (simp add: sdt_chosen_def s_def)
        ultimately show ?thesis using dest'(2,3) fits ko by (simp add: s_def)
      qed
    qed
  qed
qed

section \<open>The generated section\<close>

definition sdt_section_length :: "u8 list \<Rightarrow> nat" where
  "sdt_section_length full = HILO (sdt_t.section_length_hi (sdt_of full)) (sdt_t.section_length_lo (sdt_of full))"

definition sdt_single :: "sdt_t \<Rightarrow> sdt_t" where
  "sdt_single p = p\<lparr>sdt_t.current_next_indicator := 1, sdt_t.section_number := 0,
     sdt_t.last_section_number := 0\<rparr>"

definition sdt_body :: "option_status_t \<Rightarrow> u8 list \<Rightarrow> sdt_descr_t \<times> u8 list \<Rightarrow> u8 list" where
  "sdt_body force full s =
     sdt_bytes (sdt_single (sdt_of full)) @ sdt_service_bytes force (fst s) (sdt_kept_of s)"

lemma length_sdt_bytes [simp]: "length (sdt_bytes p) = 11"
  by (simp add: sdt_s.len_enc SDT_LEN_def)

lemma length_sdt_body: "length (sdt_body force full s) = 16 + length (sdt_kept (sdt_kept_of s))"
  by (simp add: sdt_body_def sdt_service_bytes_def)

lemma sealed_nth:
  "i < length body \<Longrightarrow> i \<noteq> 1 \<Longrightarrow> i \<noteq> 2 \<Longrightarrow> sealed body ! i = body ! i"
  by (simp add: sealed_def sealed_body_def Let_def nth_append)

lemma sealed_drop: "3 \<le> n \<Longrightarrow> n \<le> length body \<Longrightarrow>
   \<exists>c. length c = 4 \<and> drop n (sealed body) = drop n body @ c"
  by (intro exI [of _ "crc32_bytes64 (crc32_run64 0xffffffff (sealed_body body))"])
     (simp add: sealed_def sealed_body_def Let_def crc64.length_bytes)

lemma sdt_section_length_ok: "section_ok s \<Longrightarrow> sdt_section_length s = length s - 3"
  by (simp add: section_ok_def sdt_section_length_def sdt_of_def BYTES_BFR_SEC_LEN_def)

lemma sdt_section_length_lt: "sdt_section_length full < 4096"
  by (simp add: sdt_section_length_def sdt_of_def HILO_get4)

lemma sdt_services_cong:
  "drop k a = drop k b \<Longrightarrow> k \<le> off \<Longrightarrow> sdt_services a sl off = sdt_services b sl off"
proof (induction "sl - off" arbitrary: off rule: less_induct)
  case less
  have 1: "drop off a = drop off b" "drop (off + SDT_DESCR_LEN) a = drop (off + SDT_DESCR_LEN) b"
    using less.prems by (metis drop_drop le_add_diff_inverse2, metis drop_drop le_add_diff_inverse2 trans_le_add1)
  have "sdt_services a sl (off + SDT_DESCR_LEN + n) = sdt_services b sl (off + SDT_DESCR_LEN + n)"
    if "off + SDT_DESCR_LEN < sl" for n
    using that less.prems by (intro less.hyps) (simp_all add: SDT_DESCR_LEN_def)
  then show ?case
    by (simp add: sdt_services.simps [of a _ off] sdt_services.simps [of b _ off] 1 Let_def)
qed

lemma sdt_of_sealed:
  "sdt_t.table_id (sdt_of (sealed (sdt_body f full s))) = sdt_t.table_id (sdt_of full)"
  "sdt_t.version_number (sdt_of (sealed (sdt_body f full s))) = sdt_t.version_number (sdt_of full)"
  "sdt_t.current_next_indicator (sdt_of (sealed (sdt_body f full s))) = 1"
  "sdt_t.section_number (sdt_of (sealed (sdt_body f full s))) = 0"
  "sdt_t.last_section_number (sdt_of (sealed (sdt_body f full s))) = 0"
proof -
  define ps where "ps = sdt_bytes (sdt_single (sdt_of full))"
  define rest where "rest = sdt_service_bytes f (fst s) (sdt_kept_of s)"
  have n: "sdt_of (ps @ rest) = sdt_norm (sdt_single (sdt_of full))"
    unfolding ps_def by (rule sdt_s.dec_enc)
  have lb: "length (sdt_body f full s) = length (ps @ rest)" by (simp add: sdt_body_def ps_def rest_def)
  have nth: "sealed (sdt_body f full s) ! i = (ps @ rest) ! i" if "i < 11" "i \<noteq> 1" "i \<noteq> 2" for i
  proof -
    have "i < length (sdt_body f full s)" using that by (simp add: length_sdt_body)
    from sealed_nth [OF this that(2,3)] show ?thesis by (simp add: sdt_body_def ps_def rest_def)
  qed
  have eq: "sdt_t.table_id (sdt_of (sealed (sdt_body f full s))) = sdt_t.table_id (sdt_of (ps @ rest))"
    "sdt_t.version_number (sdt_of (sealed (sdt_body f full s))) = sdt_t.version_number (sdt_of (ps @ rest))"
    "sdt_t.current_next_indicator (sdt_of (sealed (sdt_body f full s))) = sdt_t.current_next_indicator (sdt_of (ps @ rest))"
    "sdt_t.section_number (sdt_of (sealed (sdt_body f full s))) = sdt_t.section_number (sdt_of (ps @ rest))"
    "sdt_t.last_section_number (sdt_of (sealed (sdt_body f full s))) = sdt_t.last_section_number (sdt_of (ps @ rest))"
    unfolding sdt_of_def using nth [of 0] nth [of 5] nth [of 6] nth [of 7] by simp_all
  show "sdt_t.table_id (sdt_of (sealed (sdt_body f full s))) = sdt_t.table_id (sdt_of full)"
    "sdt_t.version_number (sdt_of (sealed (sdt_body f full s))) = sdt_t.version_number (sdt_of full)"
    "sdt_t.current_next_indicator (sdt_of (sealed (sdt_body f full s))) = 1"
    "sdt_t.section_number (sdt_of (sealed (sdt_body f full s))) = 0"
    "sdt_t.last_section_number (sdt_of (sealed (sdt_body f full s))) = 0"
    unfolding eq n by (simp_all add: sdt_norm_def sdt_single_def sdt_of_def)
qed

text \<open>A reader of the generated section sees the one service.\<close>

lemma sdt_services_sealed:
  assumes "length (sdt_body f full s) \<le> 179"
  shows "sdt_services (sealed (sdt_body f full s)) (sdt_section_length (sealed (sdt_body f full s))) SDT_LEN =
    [(sdt_descr_norm (sdt_set_eit f (sdt_set_length (length (sdt_kept (sdt_kept_of s))) (fst s))),
      sdt_kept (sdt_kept_of s))]"
proof -
  define k where "k = sdt_kept (sdt_kept_of s)"
  define d where "d = sdt_set_eit f (sdt_set_length (length k) (fst s))"
  define sec where "sec = sealed (sdt_body f full s)"
  have lb: "length (sdt_body f full s) = 16 + length k" by (simp add: length_sdt_body k_def)
  have "section_ok sec"
    unfolding sec_def using assms lb by (intro sealed_section_ok) (simp_all add: MAX_TS_SIZE_def)
  then have sl: "sdt_section_length sec = 17 + length k"
    using sdt_section_length_ok lb by (simp add: sec_def)
  obtain c where c: "drop 11 sec = sdt_descr_bytes d @ k @ c"
    using sealed_drop [of 11 "sdt_body f full s"] lb
    by (auto simp: sec_def sdt_body_def sdt_service_bytes_def d_def k_def)
  have dd: "sdt_descr_of (drop 11 sec) = sdt_descr_norm d"
    unfolding c by (rule sdt_descr_s.dec_enc)
  have "length k < 4096" using assms lb by simp
  then have ll: "sdt_loop_length (sdt_descr_norm d) = length k"
    unfolding d_def by (rule sdt_loop_length_set)
  have "drop 16 sec = drop 5 (drop 11 sec)" by simp
  then have "drop 16 sec = k @ c" unfolding c by simp
  then have "sdt_services sec (17 + length k) 11 =
     (sdt_descr_norm d, k) # sdt_services sec (17 + length k) (16 + length k)"
    by (subst sdt_services.simps) (simp add: dd ll Let_def SDT_DESCR_LEN_def)
  also have "sdt_services sec (17 + length k) (16 + length k) = []"
    by (subst sdt_services.simps) (simp add: SDT_DESCR_LEN_def)
  finally show ?thesis by (simp add: sl flip: sec_def k_def d_def) (simp add: SDT_LEN_def)
qed

section \<open>Correctness of the rewriting\<close>

text \<open>What the theorem is about: the services of the stored section, and the one announced.\<close>

definition stored_services :: "mumudvb_ts_packet_t \<Rightarrow> (sdt_descr_t \<times> u8 list) list" where
  "stored_services pkt = sdt_services (data_full pkt) (sdt_section_length (data_full pkt)) SDT_LEN"

definition announced :: "mumudvb_ts_packet_t \<Rightarrow> mumudvb_channel_t \<Rightarrow> (sdt_descr_t \<times> u8 list) option" where
  "announced pkt ch =
     sdt_chosen (TS_HEADER_LEN + SDT_LEN) (mumudvb_channel_t.service_id ch) (stored_services pkt)"

text \<open>The stored section after the rewriting: its header is changed in place.\<close>

definition sdt_marked :: "mumudvb_ts_packet_t \<Rightarrow> mumudvb_ts_packet_t" where
  "sdt_marked pkt = pkt\<lparr>data_full := sdt_bytes (sdt_single (sdt_of (data_full pkt))) @ drop 11 (data_full pkt)\<rparr>"

definition generated_packet :: "u8 list \<Rightarrow> u8 list \<Rightarrow> u8 list" where
  "generated_packet b s = rewritten_header b @ s @ replicate (183 - length s) 0xff"

definition sdt_ready_for :: "rewrite_parameters_t \<Rightarrow> mumudvb_ts_packet_t \<Rightarrow> mumudvb_channel_t \<Rightarrow> bool" where
  "sdt_ready_for r pkt ch \<longleftrightarrow> full_sdt r = Some pkt \<and> length (data_full pkt) = MAX_TS_SIZE \<and>
     sdt_t.table_id (sdt_of (data_full pkt)) = 0x42 \<and> channel_wf ch \<and>
     mumudvb_channel_t.service_id ch \<noteq> 0 \<and>
     list_all (sdt_service_ok (mumudvb_channel_t.service_id ch)) (stored_services pkt)"

text \<open>Up to the loop over the services, and what that loop does.\<close>

lemma sdt_channel_rewrite_loop:
  assumes r: "sdt_ready_for r pkt ch" and b: "TS_HEADER_LEN \<le> length b"
  shows "case announced pkt ch of
     None \<Rightarrow> sdt_channel_rewrite r ch b = do {
       all_seen \<leftarrow> sdt_rewrite_all_sections_seen r;
       if all_seen
       then Some (1, r\<lparr>full_sdt := Some (sdt_marked pkt)\<rparr>, ch\<lparr>sdt_rewrite_skip := True,
                  generated_sdt_version := sdt_version r\<rparr>, rewritten_header b @ drop 5 b)
       else Some (0, r\<lparr>full_sdt := Some (sdt_marked pkt), sdt_need_others := True\<rparr>, ch, rewritten_header b @ drop 5 b)}
   | Some s \<Rightarrow> length (sdt_body (sdt_force_eit r) (data_full pkt) s) \<le> 179 \<and>
       sdt_channel_rewrite r ch b = Some (1, r\<lparr>full_sdt := Some (sdt_marked pkt)\<rparr>,
         ch\<lparr>generated_sdt := generated_packet b (sealed (sdt_body (sdt_force_eit r) (data_full pkt) s)),
            sdt_rewrite_skip := False, generated_sdt_version := sdt_version r\<rparr>, rewritten_header b @ drop 5 b)"
proof -
  define fl where "fl = data_full pkt"
  define sl where "sl = sdt_section_length fl"
  define ps where "ps = sdt_bytes (sdt_single (sdt_of fl))"
  define full' where "full' = ps @ drop 11 fl"
  define dest where "dest = rewritten_header b @ ps @ replicate 172 (0 :: u8)"
  define b' where "b' = rewritten_header b @ drop 5 b"
  define r' where "r' = r\<lparr>full_sdt := Some (sdt_marked pkt)\<rparr>"
  define sid where "sid = mumudvb_channel_t.service_id ch"
  have lfl: "length fl = 4096" and fs: "full_sdt r = Some pkt" and tid: "(sdt_t.table_id (sdt_of fl) \<noteq> 0x42) = False"
    and sid0: "(sid = 0) = False" and gl: "length (generated_sdt ch) = 188"
    and ok: "list_all (sdt_service_ok sid) (sdt_services fl sl SDT_LEN)"
    using r by (simp_all add: sdt_ready_for_def fl_def sid_def MAX_TS_SIZE_def channel_wf_def TS_PACKET_SIZE_def
        stored_services_def sl_def)
  have lps: "length ps = 11" by (simp add: ps_def)
  have lf': "length full' = MAX_TS_SIZE" using lfl lps by (simp add: full'_def MAX_TS_SIZE_def)
  have ld: "length dest = TS_PACKET_SIZE" using lps by (simp add: dest_def TS_PACKET_SIZE_def)
  have slt: "sl \<le> length full'" using sdt_section_length_lt [of fl] lf' by (simp add: sl_def MAX_TS_SIZE_def)
  have srv: "sdt_services full' sl SDT_LEN = sdt_services fl sl SDT_LEN"
    using lps by (intro sdt_services_cong [of 11]) (simp_all add: full'_def SDT_LEN_def)
  have mk: "pkt\<lparr>data_full := full'\<rparr> = sdt_marked pkt"
    by (simp add: sdt_marked_def full'_def ps_def fl_def)
  have 1: "struct_at SDT_LEN sdt_of fl 0 = Some (sdt_of fl)"
    using lfl by (simp add: struct_at_def SDT_LEN_def)
  have 2: "rewrite_ts_header b = Some (b', rewritten_header b @ replicate 183 0)"
    using rewrite_ts_header_spec [OF b] by (simp add: b'_def)
  have 3: "struct_put sdt_bytes fl 0 (sdt_single (sdt_of fl)) = Some full'"
    using lfl lps by (simp add: struct_put_def mem_write_def full'_def ps_def)
  have 4: "mem_read full' 0 SDT_LEN = Some ps"
    using lps by (simp add: mem_read_def full'_def SDT_LEN_def)
  have 5: "mem_write (rewritten_header b @ replicate 183 0) TS_HEADER_LEN ps = Some dest"
    using lps by (simp add: mem_write_def dest_def TS_HEADER_LEN_def)
  have pre: "sdt_channel_rewrite r ch b = do {
          copied \<leftarrow> sdt_copy_services (sdt_force_eit r') sid full' sl SDT_LEN dest (TS_HEADER_LEN + SDT_LEN) False;
          case copied of None \<Rightarrow> Some (0, r', ch, b')
          | Some (dest, pos, found) \<Rightarrow> do {
              dest \<leftarrow> pat_finish dest pos;
              if found then do {
                gen \<leftarrow> mem_write (generated_sdt ch) 0 dest;
                Some (1, r', ch\<lparr>generated_sdt := gen, sdt_rewrite_skip := False,
                               generated_sdt_version := sdt_version r'\<rparr>, b')}
              else do {
                all_seen \<leftarrow> sdt_rewrite_all_sections_seen r';
                if all_seen
                then Some (1, r', ch\<lparr>sdt_rewrite_skip := True, generated_sdt_version := sdt_version r'\<rparr>, b')
                else Some (0, r'\<lparr>sdt_need_others := True\<rparr>, ch, b')}}}"
    unfolding sdt_channel_rewrite_def Let_def sid_def [symmetric] sid0 if_False
    by (simp only: fs bind.bind_lunit fl_def [symmetric] 1 2 prod.case sdt_single_def [symmetric] 3 mk
        r'_def [symmetric] 4 5 tid if_False sdt_section_length_def [symmetric] sl_def [symmetric])
  have seen: "sdt_rewrite_all_sections_seen r' = sdt_rewrite_all_sections_seen r" and ver: "sdt_version r' = sdt_version r"
    and force: "sdt_force_eit r' = sdt_force_eit r"
    by (simp_all add: r'_def sdt_rewrite_all_sections_seen_def)
  have spec: "case sdt_chosen (TS_HEADER_LEN + SDT_LEN) sid (sdt_services full' sl SDT_LEN) of
      None \<Rightarrow> sdt_copy_services (sdt_force_eit r) sid full' sl SDT_LEN dest (TS_HEADER_LEN + SDT_LEN) False =
        Some (Some (dest, TS_HEADER_LEN + SDT_LEN, False))
    | Some s \<Rightarrow> \<exists>dest' pos'. sdt_copy_services (sdt_force_eit r) sid full' sl SDT_LEN dest (TS_HEADER_LEN + SDT_LEN) False =
          Some (Some (dest', pos', True)) \<and>
        pos' = TS_HEADER_LEN + SDT_LEN + SDT_DESCR_LEN + length (sdt_kept (sdt_kept_of s)) \<and> pos' + 5 \<le> TS_PACKET_SIZE \<and>
        length dest' = TS_PACKET_SIZE \<and> take pos' dest' =
          take (TS_HEADER_LEN + SDT_LEN) dest @ sdt_service_bytes (sdt_force_eit r) (fst s) (sdt_kept_of s)"
    by (rule sdt_copy_services_spec [OF slt lf' _ ld]) (simp only: srv ok)
  have ann: "announced pkt ch = sdt_chosen (TS_HEADER_LEN + SDT_LEN) sid (sdt_services full' sl SDT_LEN)"
    by (simp only: announced_def stored_services_def fl_def [symmetric] sl_def [symmetric] srv sid_def [symmetric])
  show ?thesis
  proof (cases "announced pkt ch")
    case None
    then have c: "sdt_copy_services (sdt_force_eit r) sid full' sl SDT_LEN dest (TS_HEADER_LEN + SDT_LEN) False =
        Some (Some (dest, TS_HEADER_LEN + SDT_LEN, False))"
      using spec ann by simp
    obtain d where f: "pat_finish dest (TS_HEADER_LEN + SDT_LEN) = Some d"
      using pat_finish_spec [OF ld, of "TS_HEADER_LEN + SDT_LEN"] by (simp add: ts_sizes SDT_LEN_def)
    show ?thesis
      unfolding None option.case r'_def [symmetric] b'_def [symmetric]
      by (simp add: pre c force f seen ver cong: if_cong)
  next
    case (Some s)
    define body where "body = sdt_body (sdt_force_eit r) fl s"
    obtain dest' pos' where c:
      "sdt_copy_services (sdt_force_eit r) sid full' sl SDT_LEN dest (TS_HEADER_LEN + SDT_LEN) False = Some (Some (dest', pos', True))"
      "pos' = TS_HEADER_LEN + SDT_LEN + SDT_DESCR_LEN + length (sdt_kept (sdt_kept_of s))" "pos' + 5 \<le> TS_PACKET_SIZE"
      "length dest' = TS_PACKET_SIZE"
      "take pos' dest' = take (TS_HEADER_LEN + SDT_LEN) dest @ sdt_service_bytes (sdt_force_eit r) (fst s) (sdt_kept_of s)"
      using spec unfolding ann [symmetric] Some option.case by blast
    have tk: "take pos' dest' = rewritten_header b @ body"
      using c(5) lps by (simp add: dest_def body_def sdt_body_def ps_def TS_HEADER_LEN_def SDT_LEN_def)
    have lb: "length body = pos' - 5" "5 \<le> pos'" "length body \<le> 179"
      using c(2,3) by (simp_all add: body_def length_sdt_body ts_sizes SDT_LEN_def SDT_DESCR_LEN_def)
    have "take (pos' - TS_HEADER_LEN) (drop TS_HEADER_LEN dest') = drop 5 (take pos' dest')"
      by (simp add: TS_HEADER_LEN_def drop_take)
    then have bd: "take (pos' - TS_HEADER_LEN) (drop TS_HEADER_LEN dest') = body" unfolding tk by simp
    have "take TS_HEADER_LEN dest' = take 5 (take pos' dest')"
      using lb by (simp add: TS_HEADER_LEN_def min_def)
    then have t5: "take TS_HEADER_LEN dest' = rewritten_header b" unfolding tk by simp
    have out: "pat_finish dest' pos' = Some (generated_packet b (sealed body))"
      using pat_finish_spec [OF c(4), of pos'] c(2,3) bd t5 lb
      by (simp add: generated_packet_def ts_sizes SDT_LEN_def)
    have "length (generated_packet b (sealed body)) = 188"
      using lb by (simp add: generated_packet_def)
    then have wrt: "mem_write (generated_sdt ch) 0 (generated_packet b (sealed body)) = Some (generated_packet b (sealed body))"
      using gl by (simp add: mem_write_def)
    have "sdt_channel_rewrite r ch b = Some (1, r', ch\<lparr>generated_sdt := generated_packet b (sealed body),
            sdt_rewrite_skip := False, generated_sdt_version := sdt_version r\<rparr>, b')"
      by (simp add: pre c(1) force out wrt ver)
    then show ?thesis using Some lb(3) by (simp add: body_def fl_def r'_def b'_def)
  qed
qed

text \<open>
  C5. Functional correctness of the SDT rewriting. When the stored SDT section lists a service of
  the channel that fits, the channel gets one transport packet: header, a complete CRC-correct
  section that is applicable at once, alone, of the same version, and stuffing. A reader of that
  section finds exactly one service, the channel's, with the descriptors that are kept, their
  length and, when asked, the EIT flags set.
\<close>

theorem sdt_channel_rewrite_correct:
  assumes "sdt_ready_for r pkt ch" "TS_HEADER_LEN \<le> length b" "announced pkt ch = Some s"
  shows "\<exists>r' ch' b' sec. sdt_channel_rewrite r ch b = Some (1, r', ch', b') \<and>
     generated_sdt ch' = take TS_HEADER_LEN b' @ sec @ replicate (183 - length sec) 0xff \<and>
     length (generated_sdt ch') = TS_PACKET_SIZE \<and> section_ok sec \<and>
     sdt_services sec (sdt_section_length sec) SDT_LEN =
       [(sdt_descr_norm (sdt_set_eit (sdt_force_eit r)
           (sdt_set_length (length (sdt_kept (sdt_kept_of s))) (fst s))), sdt_kept (sdt_kept_of s))] \<and>
     sdt_t.table_id (sdt_of sec) = 0x42 \<and>
     sdt_t.version_number (sdt_of sec) = sdt_t.version_number (sdt_of (data_full pkt)) \<and>
     sdt_t.current_next_indicator (sdt_of sec) = 1 \<and>
     sdt_t.section_number (sdt_of sec) = 0 \<and> sdt_t.last_section_number (sdt_of sec) = 0 \<and>
     generated_sdt_version ch' = sdt_version r \<and> \<not> sdt_rewrite_skip ch'"
proof -
  define body where "body = sdt_body (sdt_force_eit r) (data_full pkt) s"
  define ch' where "ch' = ch\<lparr>generated_sdt := generated_packet b (sealed body),
            sdt_rewrite_skip := False, generated_sdt_version := sdt_version r\<rparr>"
  define r' where "r' = r\<lparr>full_sdt := Some (sdt_marked pkt)\<rparr>"
  define b' where "b' = rewritten_header b @ drop 5 b"
  have run: "sdt_channel_rewrite r ch b = Some (1, r', ch', b')" and l179: "length body \<le> 179"
    using sdt_channel_rewrite_loop [OF assms(1,2)] assms(3) by (simp_all add: body_def ch'_def r'_def b'_def)
  have l16: "16 \<le> length body" by (simp add: body_def length_sdt_body)
  have ok: "section_ok (sealed body)"
    using l16 l179 by (intro sealed_section_ok) (simp_all add: MAX_TS_SIZE_def)
  have parse: "sdt_services (sealed body) (sdt_section_length (sealed body)) SDT_LEN =
       [(sdt_descr_norm (sdt_set_eit (sdt_force_eit r)
           (sdt_set_length (length (sdt_kept (sdt_kept_of s))) (fst s))), sdt_kept (sdt_kept_of s))]"
    using l179 unfolding body_def by (rule sdt_services_sealed)
  have "generated_sdt ch' = take TS_HEADER_LEN b' @ sealed body @ replicate (183 - length (sealed body)) 0xff"
    by (simp add: ch'_def b'_def generated_packet_def TS_HEADER_LEN_def)
  moreover have "length (generated_sdt ch') = TS_PACKET_SIZE"
    using l179 by (simp add: ch'_def generated_packet_def TS_PACKET_SIZE_def)
  moreover have "sdt_t.table_id (sdt_of (data_full pkt)) = 0x42"
    using assms(1) by (simp add: sdt_ready_for_def)
  ultimately show ?thesis
    using run ok parse sdt_of_sealed [of "sdt_force_eit r" "data_full pkt" s, folded body_def]
    by (intro exI [of _ r'] exI [of _ ch'] exI [of _ b'] exI [of _ "sealed body"]) (simp add: ch'_def)
qed

text \<open>
  When no service of the stored section is the channel's, the channel is given up exactly when
  every section of the table has been seen; until then the rewriter asks for the other sections
  and leaves the channel as it is.
\<close>

theorem sdt_channel_rewrite_searches:
  assumes "sdt_ready_for r pkt ch" "TS_HEADER_LEN \<le> length b" "announced pkt ch = None"
    and "sdt_last_section_number r < length (sdt_section_numbers_seen r)"
  shows "\<exists>r' ch' b'. sdt_channel_rewrite r ch b =
       Some (if \<forall>i \<le> sdt_last_section_number r. sdt_section_numbers_seen r ! i then 1 else 0, r', ch', b') \<and>
     (if \<forall>i \<le> sdt_last_section_number r. sdt_section_numbers_seen r ! i
      then ch' = ch\<lparr>sdt_rewrite_skip := True, generated_sdt_version := sdt_version r\<rparr> \<and>
           sdt_need_others r' = sdt_need_others r
      else ch' = ch \<and> sdt_need_others r')"
proof -
  have "sdt_rewrite_all_sections_seen r =
      Some (\<forall>i \<le> sdt_last_section_number r. sdt_section_numbers_seen r ! i)"
    using assms(4) by (auto simp: sdt_rewrite_all_sections_seen_def mem_read_def list_all_length less_Suc_eq_le)
  then show ?thesis
    using sdt_channel_rewrite_loop [OF assms(1,2)] assms(3) by auto
qed

text \<open>A descriptor whose length byte is 254: the loop stays where it is.\<close>

lemma sdt_copy_descriptors_254:
  "sdt_copy_descriptors full base dl pos t l = Some res \<Longrightarrow>
   \<not> (pos < dl \<and> rd full (base + pos + 1) = Some 254)"
proof (induction rule: sdt_copy_descriptors.raw_induct [rotated 1, consumes 1, case_names 1])
  case (1 f full base dl pos t l res)
  have z: "unat ((254 :: u8) + 2) = 0" by simp
  show ?case
  proof
    assume a: "pos < dl \<and> rd full (base + pos + 1) = Some 254"
    then obtain t' l' where "f full base dl (pos + unat ((254 :: u8) + 2)) t' l' = Some res"
      using 1(2) by (auto split: Option.bind_splits if_splits)
    then have "f full base dl pos t' l' = Some res" unfolding z by simp
    then show False using 1(1) a by blast
  qed
qed

lemma sdt_copy_services_254:
  "find (\<lambda>s. sdt_service_id (fst s) = sid) (sdt_services full sl bpos) = Some (d, tag # 254 # rest) \<Longrightarrow>
   sdt_copy_services force sid full sl bpos dest pos False = None"
proof (induction "sl - bpos" arbitrary: bpos rule: less_induct)
  case less
  define e where "e = sdt_descr_of (drop bpos full)"
  have lt: "bpos + SDT_DESCR_LEN < sl"
    using less.prems by (subst (asm) sdt_services.simps) (auto split: if_splits)
  then have srv: "sdt_services full sl bpos =
      (e, take (sdt_loop_length e) (drop (bpos + SDT_DESCR_LEN) full)) #
      sdt_services full sl (bpos + SDT_DESCR_LEN + sdt_loop_length e)"
    by (subst sdt_services.simps) (simp add: e_def Let_def)
  show ?case
  proof (cases "sdt_service_id e = sid \<and> struct_at SDT_DESCR_LEN sdt_descr_of full bpos = Some e")
    case True
    then have raw: "take (sdt_loop_length e) (drop (bpos + SDT_DESCR_LEN) full) = tag # 254 # rest"
      using less.prems by (auto simp: srv)
    then have "length (take (sdt_loop_length e) (drop (bpos + SDT_DESCR_LEN) full)) = 2 + length rest" by simp
    then have "min (sdt_loop_length e) (length full - (bpos + SDT_DESCR_LEN)) = 2 + length rest"
      by (simp only: length_take length_drop min.commute)
    then have l: "2 \<le> sdt_loop_length e" "bpos + SDT_DESCR_LEN + 2 \<le> length full" by linarith+
    have "full ! (bpos + SDT_DESCR_LEN + 1) = 254"
      using arg_cong [OF raw, of "\<lambda>l. l ! 1"] l by simp
    then have r: "rd full (bpos + SDT_DESCR_LEN + 0 + 1) = Some 254" using l by (simp add: rd_def)
    have "sdt_copy_descriptors full (bpos + SDT_DESCR_LEN) (sdt_loop_length e) 0 t 0 = None" for t
      using sdt_copy_descriptors_254 [of full "bpos + SDT_DESCR_LEN" "sdt_loop_length e" 0 t 0] r l
      by (cases "sdt_copy_descriptors full (bpos + SDT_DESCR_LEN) (sdt_loop_length e) 0 t 0") auto
    then have "sdt_copy_service force full bpos (sdt_loop_length e) dest pos = None"
      by (simp add: sdt_copy_service_def)
    then show ?thesis using lt True by (subst sdt_copy_services.simps) simp
  next
    case False
    show ?thesis
    proof (cases "struct_at SDT_DESCR_LEN sdt_descr_of full bpos")
      case None then show ?thesis using lt by (subst sdt_copy_services.simps) simp
    next
      case (Some d')
      then have d': "d' = e" by (simp add: struct_at_def e_def split: if_splits)
      then have ne: "sdt_service_id e \<noteq> sid" using False Some by simp
      have "sdt_copy_services force sid full sl (bpos + SDT_DESCR_LEN + sdt_loop_length e) dest pos False = None"
        using lt less.prems ne by (intro less.hyps) (simp_all add: srv SDT_DESCR_LEN_def)
      then show ?thesis using lt Some d' ne by (subst sdt_copy_services.simps) simp
    qed
  qed
qed

text \<open>
  C6. A broadcast that stops the program: when the service of the channel begins with a
  descriptor of 254 payload bytes, which is a legal length, its length with header is 0 in the
  8-bit variable and \<^verbatim>\<open>sdt_channel_rewrite\<close> never returns. (Everything it reads on the way is in
  bounds: the descriptor loop of the service lies in the stored section.)
\<close>

theorem sdt_channel_rewrite_hangs:
  assumes "full_sdt r = Some pkt" "sdt_t.table_id (sdt_of (data_full pkt)) = 0x42"
    "mumudvb_channel_t.service_id ch \<noteq> 0" "TS_HEADER_LEN \<le> length b" "length (data_full pkt) = MAX_TS_SIZE"
    "find (\<lambda>s. sdt_service_id (fst s) = mumudvb_channel_t.service_id ch) (stored_services pkt) =
       Some (d, tag # 254 # rest)"
  shows "sdt_channel_rewrite r ch b = None"
proof -
  define fl where "fl = data_full pkt"
  define full' where "full' = sdt_bytes (sdt_single (sdt_of fl)) @ drop 11 fl"
  have lfl: "length fl = 4096" using assms(5) by (simp add: fl_def MAX_TS_SIZE_def)
  have "sdt_services full' (sdt_section_length fl) SDT_LEN = stored_services pkt"
    unfolding stored_services_def fl_def
    by (rule sdt_services_cong [of 11]) (simp_all add: full'_def fl_def SDT_LEN_def)
  then have "sdt_copy_services (sdt_force_eit r) (mumudvb_channel_t.service_id ch) full'
      (sdt_section_length fl) SDT_LEN dest pos False = None" for dest pos
    using assms(6) by (intro sdt_copy_services_254 [of _ _ _ _ d tag rest]) simp
  moreover have "struct_put sdt_bytes fl 0 (sdt_single (sdt_of fl)) = Some full'"
    using lfl by (simp add: struct_put_def mem_write_def full'_def)
  moreover have "struct_at SDT_LEN sdt_of fl 0 = Some (sdt_of fl)"
    using lfl by (simp add: struct_at_def SDT_LEN_def)
  ultimately show ?thesis
    using assms(1-3) rewrite_ts_header_spec [OF assms(4)]
    by (simp add: sdt_channel_rewrite_def Let_def flip: fl_def sdt_single_def sdt_section_length_def)
qed

section \<open>The entry points\<close>

text \<open>
  The rewritten SDT reaches a receiver: from the one packet that is sent, a receiver running
  the same section assembler gets a section with exactly the service of the channel.
\<close>

theorem sdt_channel_packet_received:
  assumes r: "full_sdt_ok r" "\<not> sdt_needs_update r" "sdt_ready_for r pkt ch" "announced pkt ch = Some s"
    and ch: "channel_ready ch \<ge> READY" "generated_sdt_version ch \<noteq> sdt_version r"
    and b: "length b = TS_PACKET_SIZE" "ts_header_t.adaptation_field_control (ts_header_of b) = 1"
    and rx: "ts_inv rx" "full_sections rx = []"
  shows "\<exists>b' r' ch' rx1 rx2. sdt_rewrite_new_channel_packet b r ch = Some (1, b', r', ch') \<and>
     length b' = TS_PACKET_SIZE \<and>
     get_ts_packet (Some b') rx = Some (False, rx1) \<and> get_ts_packet None rx1 = Some (True, rx2) \<and>
     map snd (sdt_services (received_section rx2) (sdt_section_length (received_section rx2)) SDT_LEN) =
       [sdt_kept (sdt_kept_of s)]"
proof -
  define body where "body = sdt_body (sdt_force_eit r) (data_full pkt) s"
  define sec where "sec = sealed body"
  define g where "g = generated_packet b sec"
  define ch' where "ch' = ch\<lparr>generated_sdt := g, sdt_rewrite_skip := False, generated_sdt_version := sdt_version r\<rparr>"
  define r' where "r' = r\<lparr>full_sdt := Some (sdt_marked pkt)\<rparr>"
  have b5: "TS_HEADER_LEN \<le> length b" using b by (simp add: TS_HEADER_LEN_def TS_PACKET_SIZE_def)
  have run: "sdt_channel_rewrite r ch b = Some (1, r', ch', rewritten_header b @ drop 5 b)" and l179: "length body \<le> 179"
    using sdt_channel_rewrite_loop [OF r(3) b5] r(4) by (simp_all add: body_def ch'_def r'_def g_def sec_def)
  have l16: "16 \<le> length body" by (simp add: body_def length_sdt_body)
  have ls: "length sec = length body + 4" by (simp add: sec_def)
  have ok: "section_ok sec"
    unfolding sec_def using l16 l179 by (intro sealed_section_ok) (simp_all add: MAX_TS_SIZE_def)
  have lg: "length g = TS_PACKET_SIZE" using ls l179 by (simp add: g_def generated_packet_def TS_PACKET_SIZE_def)
  have hg: "ts_header_of g = ts_header_norm ((ts_header_of b)\<lparr>ts_header_t.payload_unit_start_indicator := 1\<rparr>)"
    unfolding g_def generated_packet_def rewritten_header_def append.assoc by (rule ts_header_s.dec_enc)
  have "mem_write (rewritten_header b @ drop 5 b) 0 g = Some g"
    using b lg by (simp add: mem_write_def TS_PACKET_SIZE_def)
  moreover obtain b' where b': "set_continuity_counter g (sdt_continuity_counter r) = Some b'"
      "length b' = length g" "drop 4 b' = drop 4 g"
      "ts_header_of b' = (ts_header_of g)\<lparr>ts_header_t.continuity_counter :=
         take_bit 4 (word_of_nat (sdt_continuity_counter r))\<rparr>"
    using set_continuity_counter_spec [of g "sdt_continuity_counter r"] lg by (auto simp: TS_PACKET_SIZE_def)
  moreover have "generated_sdt ch' = g" "generated_sdt_version ch' = sdt_version r"
    "sdt_continuity_counter r' = sdt_continuity_counter r" "sdt_version r' = sdt_version r"
    by (simp_all add: ch'_def r'_def)
  ultimately have send: "sdt_rewrite_new_channel_packet b r ch = Some (1, b', r', ch')"
    using r ch run by (simp add: sdt_rewrite_new_channel_packet_def)
  have p4: "drop 4 b' = 0 # sec @ replicate (183 - length sec) 0xff"
    using b'(3) by (simp add: g_def generated_packet_def rewritten_header_def length_ts_header_bytes)
  have h1: "ts_header_t.adaptation_field_control (ts_header_of b') = 1"
    "ts_header_t.payload_unit_start_indicator (ts_header_of b') \<noteq> 0"
    unfolding b'(4) hg using b(2) by (simp_all add: ts_header_norm_def)
  have "sec ! 0 = sdt_t.table_id (sdt_of sec)" by (simp add: sdt_of_def)
  also have "\<dots> = 0x42" using sdt_of_sealed(1) r(3) by (simp add: sec_def body_def sdt_ready_for_def)
  finally have pes: "\<not> (sec ! 0 = 0 \<and> sec ! 1 = 1)" by simp
  have ls183: "length sec \<le> 183" using ls l179 by simp
  have lb': "length b' = TS_PACKET_SIZE" using b' lg by simp
  obtain rx1 rx2 where rxs: "get_ts_packet (Some b') rx = Some (False, rx1)"
     "get_ts_packet None rx1 = Some (True, rx2)" "received_section rx2 = sec"
    using ts_feed_single [OF rx ok ls183 lb' h1 p4 pes] by blast
  have "map snd (sdt_services sec (sdt_section_length sec) SDT_LEN) = [sdt_kept (sdt_kept_of s)]"
    using sdt_services_sealed [of "sdt_force_eit r" "data_full pkt" s] l179 by (simp add: sec_def body_def)
  then show ?thesis
    using send lb' rxs
    by (intro exI [of _ b'] exI [of _ r'] exI [of _ ch'] exI [of _ rx1] exI [of _ rx2]) simp
qed

text \<open>
  What the collection of the SDT keeps: the array of the section numbers seen has its 256 entries
  and the last section number is an index of it.
\<close>

definition sdt_inv :: "rewrite_parameters_t \<Rightarrow> bool" where
  "sdt_inv r \<longleftrightarrow> length (sdt_section_numbers_seen r) = 256 \<and> sdt_last_section_number r < 256"

definition sdt_exit_inv :: "rewrite_parameters_t \<times> sdt_exit \<Rightarrow> bool" where
  "sdt_exit_inv st \<longleftrightarrow> sdt_inv (fst st) \<and>
     (snd st = Return_1 \<longrightarrow> full_sdt_ok (fst st) \<and> \<not> sdt_needs_update (fst st))"

interpretation sdt_client: section_client "\<lambda>st. snd st = Continue" sdt_global_body sdt_exit_inv
proof
  fix st :: "rewrite_parameters_t \<times> sdt_exit" and pkt :: mumudvb_ts_packet_t
  assume I: "sdt_exit_inv st" "snd st = Continue" and l: "length (data_full pkt) = MAX_TS_SIZE"
  define d where "d = sdt_of (data_full pkt)"
  have 1: "struct_at SDT_LEN sdt_of (data_full pkt) 0 = Some d"
    using l by (simp add: struct_at_def d_def SDT_LEN_def MAX_TS_SIZE_def)
  have 2: "\<exists>v. tbl_version (data_full pkt) 0 = Some v"
    using l by (simp add: tbl_version_def mem_simps MAX_TS_SIZE_def)
  have 3: "unat (sdt_t.section_number d) < 256" "unat (sdt_t.last_section_number d) < 256"
    by (rule unat_u8_lt)+
  show "\<exists>st'. sdt_global_body st pkt = Some st' \<and> sdt_exit_inv st'"
    using I 1 2 3
    by (auto simp: sdt_global_body_def sdt_exit_inv_def sdt_inv_def update_sdt_version_def Let_def mem_simps)
qed

lemma sdt_need_update_total:
  "need_bytes \<le> length b \<Longrightarrow> \<exists>n. sdt_need_update r b = Some n"
  using get_ts_begin_total [of b]
  by (fastforce simp: sdt_need_update_def tbl_current_next_def tbl_version_def mem_simps need_bytes_def
      split: option.split)

text \<open>
  For every packet, the collection of the SDT returns, with the section buffer in its
  invariant and the section numbers in range. When it returns 1, which makes the program
  renew all the channels, a full section is stored and no update is pending; otherwise the
  continuity counter moves on within its four bits.
\<close>

theorem sdt_global_safe:
  assumes "full_sdt r = Some pkt" "ts_inv pkt" "sdt_inv r" "need_bytes \<le> length b"
  shows "\<exists>v r' pkt'. sdt_rewrite_new_global_packet b r = Some (v, r') \<and>
     full_sdt r' = Some pkt' \<and> ts_inv pkt' \<and> sdt_inv r' \<and>
     (if v = 1 then full_sdt_ok r' \<and> \<not> sdt_needs_update r' else v = 0 \<and> sdt_continuity_counter r' < 16)"
proof -
  obtain n where n: "sdt_need_update r b = Some n"
    using sdt_need_update_total [OF assms(4), of r] by auto
  define r1 where "r1 = (if \<not> sdt_needs_update r \<and> n
     then r\<lparr>sdt_needs_update := True, sdt_section_numbers_seen := replicate 256 False\<rparr> else r)"
  have r1: "(if \<not> sdt_needs_update r then do {
            need \<leftarrow> sdt_need_update r b;
            Some (if need then r\<lparr>sdt_needs_update := True, sdt_section_numbers_seen := replicate 256 False\<rparr>
                  else r)}
          else Some r) = Some r1"
    by (simp add: n r1_def)
  have inv: "sdt_exit_inv (r1, Continue)" and fs: "full_sdt r1 = Some pkt"
    using assms(1,3) by (simp_all add: r1_def sdt_exit_inv_def sdt_inv_def)
  have "TS_PACKET_SIZE \<le> length b" using assms(4) by (simp add: need_bytes_def)
  then obtain pkt' r2 exit where w:
    "ts_while (\<lambda>st. snd st = Continue) sdt_global_body b pkt (r1, Continue) = Some (pkt', r2, exit)"
    "ts_inv pkt'" "sdt_exit_inv (r2, exit)"
    using sdt_client.while_ok [OF assms(2) inv] by (metis prod.collapse)
  show ?thesis
  proof (cases "sdt_needs_update r1 \<or> sdt_need_others r1")
    case True
    then show ?thesis
      unfolding sdt_rewrite_new_global_packet_def r1 bind.bind_lunit
      using fs w by (auto simp: sdt_exit_inv_def sdt_inv_def)
  next
    case False
    then show ?thesis
      unfolding sdt_rewrite_new_global_packet_def r1 bind.bind_lunit
      using fs assms(2) inv by (auto simp: sdt_exit_inv_def sdt_inv_def)
  qed
qed

subsection \<open>Witnesses\<close>

text \<open>A section with one service, number 1, whose descriptors are \<open>ds\<close>.\<close>

definition sample_sdt :: "u8 list \<Rightarrow> mumudvb_ts_packet_t" where
  "sample_sdt ds = empty_ts_packet\<lparr>data_full :=
     [0x42, word_of_nat (0xf0 + (17 + length ds) div 256), word_of_nat (17 + length ds), 0, 1, 0xc1, 0, 0, 0, 1, 0xff,
      0, 1, 0xfc, word_of_nat (0x80 + length ds div 256), word_of_nat (length ds)] @ ds @ replicate (4080 - length ds) 0\<rparr>"

definition sample_sdt_rewrite :: "u8 list \<Rightarrow> rewrite_parameters_t" where
  "sample_sdt_rewrite ds = init_rewr_v\<lparr>rewrite_sdt := OPTION_ON, full_sdt := Some (sample_sdt ds),
     sdt_needs_update := False, full_sdt_ok := True, sdt_version := 3, sdt_force_eit := OPTION_ON\<rparr>"

definition sample_sdt_channel :: "nat \<Rightarrow> mumudvb_channel_t" where
  "sample_sdt_channel sid = zero_channel\<lparr>mumudvb_channel_t.service_id := sid, channel_ready := READY\<rparr>"

lemma sample_stored:
  "stored_services (sample_sdt [0x48, 1, 65]) =
     [(sdt_descr_of [0, 1, 0xfc, 0x80, 3], [0x48, 1, 65])]"
proof -
  have sl: "sdt_section_length (data_full (sample_sdt [0x48, 1, 65])) = 20"
    by (simp add: sdt_section_length_def sample_sdt_def sdt_of_def bf_get_def HILO_eq)
  have d: "sdt_descr_of (drop 11 (data_full (sample_sdt [0x48, 1, 65]))) = sdt_descr_of [0, 1, 0xfc, 0x80, 3]"
    by (simp add: sample_sdt_def sdt_descr_of_def)
  have ll: "sdt_loop_length (sdt_descr_of [0, 1, 0xfc, 0x80, 3]) = 3"
    by (simp add: sdt_loop_length_def sdt_descr_of_def bf_get_def HILO_eq)
  have e: "sdt_services (data_full (sample_sdt [0x48, 1, 65])) 20 19 = []"
    by (subst sdt_services.simps) (simp add: SDT_DESCR_LEN_def)
  show ?thesis
    unfolding stored_services_def sl
    by (subst sdt_services.simps)
       (simp add: SDT_LEN_def SDT_DESCR_LEN_def Let_def d ll e, simp add: sample_sdt_def)
qed

lemma sample_sdt_id: "sdt_service_id (sdt_descr_of [0, 1, 0xfc, x, y]) = 1"
  by (simp add: sdt_service_id_def sdt_descr_of_def HILO_eq)

lemma sample_descriptors: "sdt_descriptors [0x48, 1, 65] = Some [[0x48, 1, 65]]"
  by simp

lemma sample_sdt_ready: "sdt_ready_for (sample_sdt_rewrite [0x48, 1, 65]) (sample_sdt [0x48, 1, 65]) (sample_sdt_channel 1)"
proof -
  have "sdt_service_ok 1 (sdt_descr_of [0, 1, 0xfc, 0x80, 3], [0x48, 1, 65])"
    unfolding sdt_service_ok_def snd_conv sample_descriptors
    by (simp add: sdt_loop_length_def sdt_descr_of_def bf_get_def HILO_eq)
  moreover have "channel_wf (sample_sdt_channel 1)"
    using zero_channel_wf by (simp add: channel_wf_def sample_sdt_channel_def)
  ultimately show ?thesis
    unfolding sdt_ready_for_def sample_stored
    by (simp add: sample_sdt_rewrite_def sample_sdt_channel_def)
       (simp add: sample_sdt_def sdt_of_def empty_ts_packet_def MAX_TS_SIZE_def)
qed

lemma sample_announced:
  "announced (sample_sdt [0x48, 1, 65]) (sample_sdt_channel 1) =
     Some (sdt_descr_of [0, 1, 0xfc, 0x80, 3], [0x48, 1, 65])"
  unfolding announced_def sample_stored
  by (simp add: sdt_chosen_def sample_sdt_channel_def sample_sdt_id sdt_kept_of_def
      sdt_rewrite_copy_descriptor_def ts_sizes SDT_LEN_def SDT_DESCR_LEN_def)

theorem sdt_channel_rewrite_correct_witness:
  "\<exists>r' ch' b' sec. sdt_channel_rewrite (sample_sdt_rewrite [0x48, 1, 65]) (sample_sdt_channel 1) sample_packet =
      Some (1, r', ch', b') \<and> section_ok sec \<and>
     map snd (sdt_services sec (sdt_section_length sec) SDT_LEN) = [[0x48, 1, 65]]"
proof -
  have h: "TS_HEADER_LEN \<le> length sample_packet" by (simp add: sample_packet_def TS_HEADER_LEN_def)
  have k: "sdt_kept (sdt_kept_of (d, [0x48, 1, 65])) = [0x48, 1, 65]" for d
    by (simp add: sdt_kept_of_def sdt_rewrite_copy_descriptor_def)
  show ?thesis
    using sdt_channel_rewrite_correct [OF sample_sdt_ready h sample_announced] unfolding k by auto
qed

theorem sdt_channel_rewrite_searches_witness:
  "\<exists>r' b'. sdt_channel_rewrite (init_rewr_v\<lparr>full_sdt := Some (sample_sdt [])\<rparr>) (sample_sdt_channel 7) sample_packet =
     Some (0, r', sample_sdt_channel 7, b') \<and> sdt_need_others r'"
proof -
  let ?r = "init_rewr_v\<lparr>full_sdt := Some (sample_sdt [])\<rparr>"
  have h: "TS_HEADER_LEN \<le> length sample_packet" by (simp add: sample_packet_def TS_HEADER_LEN_def)
  have sl: "sdt_section_length (data_full (sample_sdt [])) = 17"
    by (simp add: sdt_section_length_def sample_sdt_def sdt_of_def bf_get_def HILO_eq)
  define d where "d = sdt_descr_of (drop 11 (data_full (sample_sdt [])))"
  have id: "sdt_service_id d = 1"
    by (simp add: d_def sample_sdt_def sdt_service_id_def sdt_descr_of_def HILO_eq)
  have e: "sdt_services (data_full (sample_sdt [])) 17 (16 + n) = []" for n
    by (subst sdt_services.simps) (simp add: SDT_DESCR_LEN_def)
  have "\<exists>raw. stored_services (sample_sdt []) = [(d, raw)]"
    unfolding stored_services_def sl
    by (subst sdt_services.simps) (simp add: SDT_LEN_def SDT_DESCR_LEN_def Let_def e flip: d_def)
  then obtain raw where st: "stored_services (sample_sdt []) = [(d, raw)]" by blast
  have "channel_wf (sample_sdt_channel 7)"
    using zero_channel_wf by (simp add: channel_wf_def sample_sdt_channel_def)
  then have rd: "sdt_ready_for ?r (sample_sdt []) (sample_sdt_channel 7)"
    unfolding sdt_ready_for_def st
    by (simp add: sample_sdt_channel_def sdt_service_ok_def id)
       (simp add: sample_sdt_def sdt_of_def empty_ts_packet_def MAX_TS_SIZE_def)
  have an: "announced (sample_sdt []) (sample_sdt_channel 7) = None"
    unfolding announced_def st by (simp add: sdt_chosen_def id sample_sdt_channel_def)
  have sn: "sdt_last_section_number ?r < length (sdt_section_numbers_seen ?r)"
    "\<not> (\<forall>i \<le> sdt_last_section_number ?r. sdt_section_numbers_seen ?r ! i)"
    by (simp_all add: init_rewr_v_def)
  show ?thesis
    using sdt_channel_rewrite_searches [OF rd h an sn(1)] unfolding if_not_P [OF sn(2)] by auto
qed

theorem sdt_channel_rewrite_hangs_witness:
  "sdt_channel_rewrite (sample_sdt_rewrite ([0x4d, 254] @ replicate 254 65)) (sample_sdt_channel 1) sample_packet = None"
proof -
  let ?ds = "[0x4d, 254] @ replicate 254 (65 :: u8)"
  have h: "TS_HEADER_LEN \<le> length sample_packet" by (simp add: sample_packet_def TS_HEADER_LEN_def)
  have sl: "sdt_section_length (data_full (sample_sdt ?ds)) = 273"
    by (simp add: sdt_section_length_def sample_sdt_def sdt_of_def bf_get_def HILO_eq)
  define d where "d = sdt_descr_of [0, 1, 0xfc, 0x81, 0]"
  have d: "sdt_descr_of (drop 11 (data_full (sample_sdt ?ds))) = d"
    by (simp add: sample_sdt_def sdt_descr_of_def d_def)
  have ll: "sdt_loop_length d = 256"
    by (simp add: d_def sdt_loop_length_def sdt_descr_of_def bf_get_def HILO_eq)
  have raw: "take 256 (drop 16 (data_full (sample_sdt ?ds))) = 0x4d # 254 # replicate 254 65"
    by (simp add: sample_sdt_def)
  have st: "\<exists>rest. stored_services (sample_sdt ?ds) = (d, 0x4d # 254 # replicate 254 65) # rest"
    unfolding stored_services_def sl
    by (subst sdt_services.simps) (simp add: SDT_LEN_def SDT_DESCR_LEN_def Let_def d [simplified] ll raw [simplified])
  show ?thesis
  proof (rule sdt_channel_rewrite_hangs [OF _ _ _ h])
    show "full_sdt (sample_sdt_rewrite ?ds) = Some (sample_sdt ?ds)" by (simp add: sample_sdt_rewrite_def)
    show "sdt_t.table_id (sdt_of (data_full (sample_sdt ?ds))) = 0x42" by (simp add: sample_sdt_def sdt_of_def)
    show "mumudvb_channel_t.service_id (sample_sdt_channel 1) \<noteq> 0" by (simp add: sample_sdt_channel_def)
    show "length (data_full (sample_sdt ?ds)) = MAX_TS_SIZE"
      by (simp add: sample_sdt_def empty_ts_packet_def MAX_TS_SIZE_def)
    show "find (\<lambda>s. sdt_service_id (fst s) = mumudvb_channel_t.service_id (sample_sdt_channel 1))
        (stored_services (sample_sdt ?ds)) = Some (d, 0x4d # 254 # replicate 254 65)"
      using st by (auto simp: d_def sample_sdt_id sample_sdt_channel_def)
  qed
qed

theorem sdt_channel_packet_received_witness:
  "\<exists>b' r' ch' rx1 rx2. sdt_rewrite_new_channel_packet sample_packet (sample_sdt_rewrite [0x48, 1, 65]) (sample_sdt_channel 1) =
       Some (1, b', r', ch') \<and>
     get_ts_packet (Some b') empty_ts_packet = Some (False, rx1) \<and> get_ts_packet None rx1 = Some (True, rx2)"
proof -
  let ?r = "sample_sdt_rewrite [0x48, 1, 65]"
  have "full_sdt_ok ?r" "\<not> sdt_needs_update ?r" "channel_ready (sample_sdt_channel 1) \<ge> READY"
    "generated_sdt_version (sample_sdt_channel 1) \<noteq> sdt_version ?r" "length sample_packet = TS_PACKET_SIZE"
    by (simp_all add: sample_sdt_rewrite_def sample_sdt_channel_def zero_channel_def sample_packet_def TS_PACKET_SIZE_def)
  then show ?thesis
    using sdt_channel_packet_received [OF _ _ sample_sdt_ready sample_announced _ _ _ sample_packet_afc
        ts_inv_empty full_sections_empty] by blast
qed

theorem sdt_global_safe_witness:
  "\<exists>v r' pkt'. sdt_rewrite_new_global_packet (replicate 194 0x47) (init_rewr_v\<lparr>full_sdt := Some empty_ts_packet\<rparr>) =
       Some (v, r') \<and> full_sdt r' = Some pkt' \<and> ts_inv pkt' \<and> sdt_inv r'"
proof -
  have "sdt_inv (init_rewr_v\<lparr>full_sdt := Some empty_ts_packet\<rparr>)" "need_bytes \<le> length (replicate 194 (0x47 :: u8))"
    "full_sdt (init_rewr_v\<lparr>full_sdt := Some empty_ts_packet\<rparr>) = Some empty_ts_packet"
    by (simp_all add: sdt_inv_def init_rewr_v_def need_bytes_def TS_PACKET_SIZE_def)
  then show ?thesis using sdt_global_safe [OF _ ts_inv_empty] by blast
qed

end
