(* ===== verification/Channels.thy ===== *)
theory Channels
  imports Rewrite_Pat
begin

text \<open>
  The channels, \<^verbatim>\<open>src/src/mumudvb_channels.c\<close>: initialisation of a channel and the collection of
  its PMT (\<^verbatim>\<open>chan_new_pmt\<close>), which starts when a new version is announced and ends when a section
  of the channel has been received. Allocation can fail: \<open>ok\<close> is its result. A use of the PMT
  packet of a channel that has none is \<open>None\<close>, as any other access through \<^verbatim>\<open>NULL\<close>.

  The lemmas show that every received packet is handled whatever it holds, that a queued section of
  the channel ends the update, and that a section of another table makes the channel forget its PMT.
\<close>

section \<open>The channels and the PIDs asked for\<close>

datatype pid_ask_t = PID_NOT_ASKED | PID_ASKED | PID_FILTERED

record mumu_chan_p_t =
  number_of_channels :: nat
  channels :: "mumudvb_channel_t list"
  asked_pid :: "pid_ask_t list"
  t2mi_pid :: nat

definition set_channel :: "mumu_chan_p_t \<Rightarrow> nat \<Rightarrow> mumudvb_channel_t \<Rightarrow> mumu_chan_p_t" where
  "set_channel cp i ch = cp\<lparr>channels := (channels cp)[i := ch]\<rparr>"

section \<open>Initialisation\<close>

text \<open>The search in the PID table: the last index that holds \<open>p\<close>; \<open>n\<close> entries are left from \<open>k\<close>.\<close>

primrec find_pid :: "nat \<Rightarrow> nat \<Rightarrow> nat list \<Rightarrow> nat \<Rightarrow> nat option \<Rightarrow> nat option option" where
  "find_pid 0 k ps p found = Some found"
| "find_pid (Suc n) k ps p found = do {
     q \<leftarrow> rd ps k;
     find_pid n (k + 1) ps p (if q = p then Some k else found)}"

definition add_user_pmt :: "pid_i_t \<Rightarrow> pid_i_t option" where
  "add_user_pmt pi =
     (if pmt_pid_f pi = F_USER then do {
        found \<leftarrow> find_pid (num_pids pi) 0 (pids pi) (pmt_pid pi) None;
        if found = None \<and> num_pids pi < MAX_PIDS - 1 then do {
          ps \<leftarrow> wr (pids pi) (num_pids pi) (pmt_pid pi);
          ts \<leftarrow> wr (pids_type pi) (num_pids pi) PID_PMT;
          Some (pi\<lparr>pids := ps, pids_type := ts, num_pids := num_pids pi + 1\<rparr>)}
        else Some pi}
      else Some pi)"

text \<open>The result is 0 or -1 as in the code.\<close>

definition mumu_init_chan :: "bool \<Rightarrow> mumudvb_channel_t \<Rightarrow> (int \<times> mumudvb_channel_t) option" where
  "mumu_init_chan ok ch = do {
     let ch = ch\<lparr>num_packet := 0, has_traffic := True, num_scrambled_packets := 0,
       scrambled_channel := FULLY_UNSCRAMBLED, generated_pat_version := -1, generated_sdt_version := -1\<rparr>;
     if \<not> pmt_alloc ch \<and> \<not> ok then Some (-1, ch)
     else do {
       let ch = (if pmt_alloc ch then ch else ch\<lparr>pmt_alloc := True, pmt_packet := empty_ts_packet\<rparr>);
       pi \<leftarrow> add_user_pmt (pid_i ch);
       Some (0, ch\<lparr>pid_i := pi\<rparr>)}}"

section \<open>PMT updates\<close>

definition pmt_program_number :: "pmt_t \<Rightarrow> nat" where
  "pmt_program_number h = HILO (pmt_t.program_number_hi h) (pmt_t.program_number_lo h)"

text \<open>Does the section of program \<open>n\<close> belong to another service than that of the channel?\<close>

definition other_service :: "mumudvb_channel_t \<Rightarrow> nat \<Rightarrow> bool" where
  "other_service ch n \<longleftrightarrow> mumudvb_channel_t.service_id ch \<noteq> 0 \<and> mumudvb_channel_t.service_id ch \<noteq> n"

definition chan_pmt_need_update :: "mumudvb_channel_t \<Rightarrow> u8 list \<Rightarrow> mumudvb_channel_t option" where
  "chan_pmt_need_update ch b = do {
     begin \<leftarrow> get_ts_begin b;
     case begin of None \<Rightarrow> Some ch
     | Some off \<Rightarrow> do {
         v \<leftarrow> tbl_version b off;
         tid \<leftarrow> rd b off;
         if v \<noteq> pmt_version ch \<and> tid = 0x02 \<and> \<not> pmt_need_update ch then do {
           current \<leftarrow> tbl_current_next b off;
           if \<not> current then Some ch
           else do {
             hi \<leftarrow> rd b (off + 3);
             lo \<leftarrow> rd b (off + 4);
             if other_service ch (HILO hi lo) then Some ch else Some (ch\<lparr>pmt_need_update := True\<rparr>)}}
         else Some ch}}"

definition chan_pmt_ok :: "mumudvb_channel_t \<Rightarrow> mumudvb_ts_packet_t \<Rightarrow> (bool \<times> mumudvb_channel_t) option" where
  "chan_pmt_ok ch pmt = do {
     h \<leftarrow> struct_at PMT_LEN pmt_of (data_full pmt) 0;
     let v = int (unat (pmt_t.version_number h));
     if pmt_t.table_id h \<noteq> 0x02 then Some (False, ch\<lparr>pid_i := (pid_i ch)\<lparr>pmt_pid := 0\<rparr>\<rparr>)
     else if other_service ch (pmt_program_number h) then Some (False, ch)
     else if v = pmt_version ch \<and> pmt_need_update ch then Some (False, ch\<lparr>pmt_need_update := False\<rparr>)
     else Some (True, ch\<lparr>pmt_version := v\<rparr>)}"

text \<open>The body of the loop over the received sections.\<close>

definition chan_pmt_body :: "mumudvb_channel_t \<Rightarrow> mumudvb_ts_packet_t \<Rightarrow> mumudvb_channel_t option" where
  "chan_pmt_body ch pkt = do {
     (good, ch) \<leftarrow> chan_pmt_ok ch pkt;
     Some (if good then ch\<lparr>pmt_need_update := False, autoconf_pmt_need_update := True,
              need_cam_ask := (if need_cam_ask ch = CAM_ASKED then CAM_NEED_UPDATE else need_cam_ask ch)\<rparr>
           else ch)}"

definition chan_new_pmt_channel :: "u8 list \<Rightarrow> nat \<Rightarrow> mumudvb_channel_t \<Rightarrow> mumudvb_channel_t option" where
  "chan_new_pmt_channel b p ch =
     (if p \<noteq> 0 \<and> pmt_pid (pid_i ch) = p \<and> channel_ready ch \<ge> READY then do {
        ch \<leftarrow> (if \<not> pmt_need_update ch then chan_pmt_need_update ch b else Some ch);
        if \<not> pmt_need_update ch then Some ch
        else if \<not> pmt_alloc ch then None
        else do {
          (pkt, ch) \<leftarrow> ts_while pmt_need_update chan_pmt_body b (pmt_packet ch) ch;
          Some (ch\<lparr>pmt_packet := pkt\<rparr>)}}
      else Some ch)"

definition chan_new_pmt :: "u8 list \<Rightarrow> mumu_chan_p_t \<Rightarrow> nat \<Rightarrow> mumu_chan_p_t option" where
  "chan_new_pmt b cp p = do {
     cs \<leftarrow> those (map (chan_new_pmt_channel b p) (channels cp));
     Some (cp\<lparr>channels := cs\<rparr>)}"

section \<open>Every packet is handled\<close>

text \<open>What the loop may change in a channel.\<close>

definition pmt_set :: "mumudvb_channel_t \<Rightarrow> int \<Rightarrow> bool \<Rightarrow> bool \<Rightarrow> cam_ask_state \<Rightarrow> nat \<Rightarrow> mumudvb_channel_t" where
  "pmt_set ch v n a q p = ch\<lparr>pmt_version := v, pmt_need_update := n, autoconf_pmt_need_update := a, need_cam_ask := q,
     pid_i := (pid_i ch)\<lparr>pmt_pid := p\<rparr>\<rparr>"

definition pmt_step :: "mumudvb_channel_t \<Rightarrow> mumudvb_channel_t \<Rightarrow> bool" where
  "pmt_step ch ch' \<longleftrightarrow> (\<exists>v n a q. \<exists>p \<in> {pmt_pid (pid_i ch), 0}. ch' = pmt_set ch v n a q p)"

lemma pmt_set_upd:
  "(pmt_set ch v n a q p)\<lparr>pmt_version := v'\<rparr> = pmt_set ch v' n a q p"
  "(pmt_set ch v n a q p)\<lparr>pmt_need_update := n'\<rparr> = pmt_set ch v n' a q p"
  "(pmt_set ch v n a q p)\<lparr>autoconf_pmt_need_update := a'\<rparr> = pmt_set ch v n a' q p"
  "(pmt_set ch v n a q p)\<lparr>need_cam_ask := q'\<rparr> = pmt_set ch v n a q' p"
  "(pmt_set ch v n a q p)\<lparr>pid_i := (pid_i (pmt_set ch v n a q p))\<lparr>pmt_pid := p'\<rparr>\<rparr> = pmt_set ch v n a q p'"
  by (simp_all add: pmt_set_def)

lemma pmt_step_set: "pmt_step ch (pmt_set ch v n a q (pmt_pid (pid_i ch)))"
  by (auto simp: pmt_step_def)

lemma pmt_step_refl: "pmt_step ch ch"
proof -
  have "ch = pmt_set ch (pmt_version ch) (pmt_need_update ch) (autoconf_pmt_need_update ch) (need_cam_ask ch) (pmt_pid (pid_i ch))"
    by (simp add: pmt_set_def)
  then show ?thesis by (metis pmt_step_set)
qed

lemma pmt_step_upd [simp]:
  assumes "pmt_step ch c"
  shows "pmt_step ch (c\<lparr>pmt_version := v'\<rparr>)" "pmt_step ch (c\<lparr>pmt_need_update := n'\<rparr>)"
    "pmt_step ch (c\<lparr>autoconf_pmt_need_update := a'\<rparr>)" "pmt_step ch (c\<lparr>need_cam_ask := q'\<rparr>)"
    "pmt_step ch (c\<lparr>pid_i := (pid_i c)\<lparr>pmt_pid := 0\<rparr>\<rparr>)"
proof -
  obtain v n a q p where c: "c = pmt_set ch v n a q p" and p: "p \<in> {pmt_pid (pid_i ch), 0}"
    using assms by (auto simp: pmt_step_def)
  have "pmt_step ch (pmt_set ch w m x y z)" if "z \<in> {pmt_pid (pid_i ch), 0}" for w m x y z
    using that unfolding pmt_step_def by blast
  then show "pmt_step ch (c\<lparr>pmt_version := v'\<rparr>)" "pmt_step ch (c\<lparr>pmt_need_update := n'\<rparr>)"
    "pmt_step ch (c\<lparr>autoconf_pmt_need_update := a'\<rparr>)" "pmt_step ch (c\<lparr>need_cam_ask := q'\<rparr>)"
    "pmt_step ch (c\<lparr>pid_i := (pid_i c)\<lparr>pmt_pid := 0\<rparr>\<rparr>)"
    using p unfolding c pmt_set_upd by blast+
qed

lemma pmt_step_keeps:
  "pmt_step ch c \<Longrightarrow> channel_wf c = channel_wf ch \<and> pmt_alloc c = pmt_alloc ch \<and> pmt_packet c = pmt_packet ch \<and>
     channel_ready c = channel_ready ch \<and> mumudvb_channel_t.service_id c = mumudvb_channel_t.service_id ch"
  by (auto simp: pmt_step_def pmt_set_def channel_wf_def pid_i_wf_def)

lemma chan_pmt_body_step:
  assumes "length (data_full pkt) = MAX_TS_SIZE" "pmt_step ch c"
  shows "\<exists>c'. chan_pmt_body c pkt = Some c' \<and> pmt_step ch c'"
proof -
  have "struct_at PMT_LEN pmt_of (data_full pkt) 0 = Some (pmt_of (data_full pkt))"
    using assms(1) by (simp add: struct_at_def PMT_LEN_def MAX_TS_SIZE_def)
  then show ?thesis using assms(2) by (simp add: chan_pmt_body_def chan_pmt_ok_def Let_def)
qed

interpretation pmt_client: section_client pmt_need_update chan_pmt_body "pmt_step ch" for ch
  by unfold_locales (blast intro: chan_pmt_body_step)

definition chan_pmt_inv :: "mumudvb_channel_t \<Rightarrow> bool" where
  "chan_pmt_inv ch \<longleftrightarrow> channel_wf ch \<and> pmt_alloc ch \<and> ts_inv (pmt_packet ch)"

lemma chan_pmt_need_update_total:
  assumes "need_bytes \<le> length b"
  shows "\<exists>n. chan_pmt_need_update ch b = Some (ch\<lparr>pmt_need_update := n\<rparr>)"
proof -
  have same: "\<exists>n. ch = ch\<lparr>pmt_need_update := n\<rparr>" by (rule exI [of _ "pmt_need_update ch"]) simp
  obtain r where "get_ts_begin b = Some r" "\<forall>off. r = Some off \<longrightarrow> off \<le> TS_PACKET_SIZE"
    using get_ts_begin_total [of b] assms by (auto simp: need_bytes_def)
  then show ?thesis using assms same
    by (auto simp: chan_pmt_need_update_def tbl_version_def tbl_current_next_def mem_simps need_bytes_def
        split: option.split)
qed

lemma chan_new_pmt_channel_ok:
  assumes "chan_pmt_inv ch" "need_bytes \<le> length b"
  shows "\<exists>c pkt. chan_new_pmt_channel b p ch = Some (c\<lparr>pmt_packet := pkt\<rparr>) \<and> pmt_step ch c \<and> ts_inv pkt"
proof (cases "p \<noteq> 0 \<and> pmt_pid (pid_i ch) = p \<and> channel_ready ch \<ge> READY")
  case False
  have "ch = ch\<lparr>pmt_packet := pmt_packet ch\<rparr>" by simp
  then show ?thesis using False assms pmt_step_refl
    by (auto simp: chan_new_pmt_channel_def chan_pmt_inv_def intro!: exI [of _ ch] exI [of _ "pmt_packet ch"])
next
  case True
  obtain n where n: "(if \<not> pmt_need_update ch then chan_pmt_need_update ch b else Some ch) = Some (ch\<lparr>pmt_need_update := n\<rparr>)"
    using chan_pmt_need_update_total [OF assms(2), of ch] that [of True] by (cases "pmt_need_update ch") auto
  define c0 where "c0 = ch\<lparr>pmt_need_update := n\<rparr>"
  have s0: "pmt_step ch c0" by (simp add: c0_def pmt_step_refl)
  have k: "pmt_alloc c0" "ts_inv (pmt_packet c0)" using assms(1) by (simp_all add: c0_def chan_pmt_inv_def)
  have "TS_PACKET_SIZE \<le> length b" using assms(2) by (simp add: need_bytes_def)
  then obtain pkt c where w: "ts_while pmt_need_update chan_pmt_body b (pmt_packet c0) c0 = Some (pkt, c)" "ts_inv pkt" "pmt_step ch c"
    using pmt_client.while_ok [OF k(2) s0] by blast
  show ?thesis
  proof (cases n)
    case False
    then have "chan_new_pmt_channel b p ch = Some (c0\<lparr>pmt_packet := pmt_packet c0\<rparr>)"
      using True n by (simp add: chan_new_pmt_channel_def c0_def split: if_splits)
    then show ?thesis using s0 k by blast
  next
    case True
    then have "chan_new_pmt_channel b p ch = Some (c\<lparr>pmt_packet := pkt\<rparr>)"
      using \<open>p \<noteq> 0 \<and> _\<close> n w k unfolding chan_new_pmt_channel_def by (simp add: c0_def [symmetric]) (simp add: c0_def)
    then show ?thesis using w by blast
  qed
qed

lemma those_map_Some: "(\<And>x. x \<in> set xs \<Longrightarrow> f x = Some (g x)) \<Longrightarrow> those (map f xs) = Some (map g xs)"
  by (induction xs) auto

lemma those_map_list_all2:
  "(\<And>x. x \<in> set xs \<Longrightarrow> \<exists>y. f x = Some y \<and> P x y) \<Longrightarrow> \<exists>ys. those (map f xs) = Some ys \<and> list_all2 P xs ys"
proof (induction xs)
  case (Cons x xs)
  then obtain y ys where "f x = Some y" "P x y" "those (map f xs) = Some ys" "list_all2 P xs ys"
    by (metis list.set_intros)
  then show ?case by simp
qed simp


section \<open>A new PMT arrives\<close>

text \<open>A packet that carries payload only and starts a section with a zero pointer.\<close>

definition starts_section :: "u8 list \<Rightarrow> bool" where
  "starts_section b \<longleftrightarrow> length b = TS_PACKET_SIZE \<and> ts_header_t.adaptation_field_control (ts_header_of b) = 1 \<and>
     ts_header_t.payload_unit_start_indicator (ts_header_of b) \<noteq> 0 \<and> b ! 4 = 0 \<and> \<not> (b ! 5 = 0 \<and> b ! 6 = 1)"

lemma starts_section_header:
  assumes "starts_section b"
  shows "struct_at sizeof_ts_header_t ts_header_of b 0 = Some (ts_header_of b)" "is_pes_start b 4 = Some False" "rd b 4 = Some 0"
  using assms
  by (auto simp: starts_section_def struct_at_def sizeof_ts_header_t_def TS_PACKET_SIZE_def is_pes_start_def mem_simps)

lemma get_ts_begin_starts: "starts_section b \<Longrightarrow> get_ts_begin b = Some (Some 5)"
  using starts_section_header [of b]
  by (simp add: get_ts_begin_def ts_begin_at_def TS_HEADER_LEN_def TS_PACKET_SIZE_def starts_section_def)

text \<open>Such a packet never hides the section that the call hands over.\<close>

lemma get_ts_packet_starts:
  assumes "starts_section b" "ts_inv pkt" "full_sections pkt = s # rest"
  shows "\<exists>pkt'. get_ts_packet (Some b) pkt = Some (True, pkt') \<and> received_section pkt' = s"
proof -
  obtain r pkt0 pkt' where g: "ts_pop_full pkt = Some (True, pkt0)" "get_ts_packet (Some b) pkt = Some (r, pkt')"
     "received_section pkt' = s"
    using get_ts_packet_total [OF assms(2), of "Some b"] assms
    by (auto simp: received_section_def starts_section_def)
  have "ts_payload_offset b (ts_header_of b) = Some (Some 4)"
    using starts_section_header [OF assms(1)] assms(1)
    by (simp add: ts_payload_offset_def TS_HEADER_LEN_def starts_section_def)
  then have "r = True"
    using g(1,2) starts_section_header [OF assms(1)] assms(1)
    by (auto simp: get_ts_packet_def ts_feed_def Let_def starts_section_def split: Option.bind_splits)
  then show ?thesis using g by blast
qed

definition pmt_of_channel :: "mumudvb_channel_t \<Rightarrow> u8 list \<Rightarrow> bool" where
  "pmt_of_channel ch s \<longleftrightarrow> PMT_LEN \<le> length s \<and> pmt_t.table_id (pmt_of s) = 0x02 \<and>
     \<not> other_service ch (pmt_program_number (pmt_of s)) \<and>
     int (unat (pmt_t.version_number (pmt_of s))) \<noteq> pmt_version ch"

lemma chan_pmt_body_ok:
  assumes "pmt_of_channel ch (received_section pkt)" "length (data_full pkt) = MAX_TS_SIZE"
  shows "\<exists>q. chan_pmt_body ch pkt = Some (ch\<lparr>pmt_version := int (unat (pmt_t.version_number (pmt_of (received_section pkt)))),
     pmt_need_update := False, autoconf_pmt_need_update := True, need_cam_ask := q\<rparr>)"
proof -
  define h where "h = pmt_of (received_section pkt)"
  have l: "PMT_LEN \<le> len_full pkt" using assms(1) by (simp add: pmt_of_channel_def received_section_def)
  have tk: "take PMT_LEN (received_section pkt) = take PMT_LEN (data_full pkt)"
    using l by (simp add: received_section_def min_absorb1)
  have "pmt_of (data_full pkt) = pmt_of (take PMT_LEN (data_full pkt))"
    using assms(2) pmt_s.dec_cong [of "data_full pkt"] by (simp add: PMT_LEN_def MAX_TS_SIZE_def)
  also have "\<dots> = h"
    using assms(1) pmt_s.dec_cong [of "received_section pkt"] unfolding tk [symmetric]
    by (simp add: h_def pmt_of_channel_def)
  finally have "struct_at PMT_LEN pmt_of (data_full pkt) 0 = Some h"
    using assms(2) by (simp add: struct_at_def PMT_LEN_def MAX_TS_SIZE_def)
  then have "chan_pmt_ok ch pkt = Some (True, ch\<lparr>pmt_version := int (unat (pmt_t.version_number h))\<rparr>)"
    using assms(1) by (simp add: chan_pmt_ok_def pmt_of_channel_def Let_def flip: h_def)
  then show ?thesis
    by (intro exI) (simp only: chan_pmt_body_def bind.bind_lunit prod.case if_True mumudvb_channel_t.simps, simp flip: h_def)
qed

text \<open>
  A new PMT version is found and taken: when a ready channel waits for nothing and a packet
  brings a current PMT section of its service with another version, the channel asks for it with that very
  packet, and the next packet of the kind (its repetition, say) makes the channel hold exactly this section,
  record its version and tell the autoconfiguration.
\<close>

theorem chan_new_pmt_tracks:
  assumes ch: "chan_pmt_inv ch" "channel_ready ch \<ge> READY" "pmt_pid (pid_i ch) = p" "p \<noteq> 0" "\<not> pmt_need_update ch"
      "full_sections (pmt_packet ch) = []"
    and s: "section_ok s" "length s \<le> 183" "pmt_of_channel ch s" "pmt_t.current_next_indicator (pmt_of s) \<noteq> 0"
    and b: "starts_section b" "drop 4 b = 0 # s @ replicate (183 - length s) 0xff" and b2: "starts_section b2"
  shows "\<exists>ch1 ch2. chan_new_pmt_channel b p ch = Some ch1 \<and> pmt_need_update ch1 \<and>
     autoconf_pmt_need_update ch1 = autoconf_pmt_need_update ch \<and>
     chan_new_pmt_channel b2 p ch1 = Some ch2 \<and> received_section (pmt_packet ch2) = s \<and>
     pmt_version ch2 = int (unat (pmt_t.version_number (pmt_of s))) \<and>
     \<not> pmt_need_update ch2 \<and> autoconf_pmt_need_update ch2"
proof -
  have lb: "length b = 188" using b(1) by (simp add: starts_section_def TS_PACKET_SIZE_def)
  have l12: "12 \<le> length s" using s(3) by (simp add: pmt_of_channel_def PMT_LEN_def)
  have nth: "b ! (5 + i) = s ! i" if "i < length s" for i
    using arg_cong [OF b(2), of "\<lambda>l. l ! (i + 1)"] lb that by (simp add: nth_append add.commute)
  have f: "b ! 5 = pmt_t.table_id (pmt_of s)" "HILO (b ! 8) (b ! 9) = pmt_program_number (pmt_of s)"
     "bf_get (b ! 10) 0 1 = pmt_t.current_next_indicator (pmt_of s)" "bf_get (b ! 10) 1 5 = pmt_t.version_number (pmt_of s)"
    using nth [of 0] nth [of 3] nth [of 4] nth [of 5] l12
    by (cases s; simp add: pmt_of_def pmt_program_number_def)+
  have nu: "chan_pmt_need_update ch b = Some (ch\<lparr>pmt_need_update := True\<rparr>)"
    using get_ts_begin_starts [OF b(1)] f s(3,4) ch(5) lb
    by (simp add: chan_pmt_need_update_def tbl_version_def tbl_current_next_def mem_simps pmt_of_channel_def)
  define pkt where "pkt = pmt_packet ch"
  have inv: "ts_inv pkt" "full_sections pkt = []" "pmt_alloc ch" using ch by (simp_all add: chan_pmt_inv_def pkt_def)
  have "b ! (5 + 0) = s ! 0" "b ! (5 + 1) = s ! 1" by (rule nth, use l12 in linarith)+
  then have ns: "\<not> (s ! 0 = 0 \<and> s ! 1 = 1)" using b(1) by (simp add: starts_section_def)
  obtain pkt1 where g1: "get_ts_packet (Some b) pkt = Some (False, pkt1)" "ts_inv pkt1" "full_sections pkt1 = [s]"
    using ts_feed_single_queued [OF inv(1,2) s(1,2) _ _ _ b(2) ns] b(1) by (auto simp: starts_section_def)
  define ch1 where "ch1 = ch\<lparr>pmt_need_update := True, pmt_packet := pkt1\<rparr>"
  have 1: "chan_new_pmt_channel b p ch = Some ch1"
    using ch nu g1(1) inv(3) by (simp add: chan_new_pmt_channel_def ts_while_def ch1_def pkt_def)
  obtain pkt2 where g2: "get_ts_packet (Some b2) pkt1 = Some (True, pkt2)" "received_section pkt2 = s"
    using get_ts_packet_starts [OF b2 g1(2,3)] by blast
  then have l2: "length (data_full pkt2) = MAX_TS_SIZE"
    using get_ts_packet_delivers [OF g1(2), of "Some b2" pkt2] b2 by (simp add: starts_section_def)
  have "pmt_of_channel ch1 (received_section pkt2)"
    using s(3) by (simp add: g2 ch1_def pmt_of_channel_def other_service_def)
  from chan_pmt_body_ok [OF this l2] obtain q
    where body: "chan_pmt_body ch1 pkt2 = Some (ch1\<lparr>pmt_version := int (unat (pmt_t.version_number (pmt_of s))),
       pmt_need_update := False, autoconf_pmt_need_update := True, need_cam_ask := q\<rparr>)" by (auto simp: g2)
  have c1: "pmt_packet ch1 = pkt1" "pmt_need_update ch1" "pmt_alloc ch1" "pmt_pid (pid_i ch1) = p" "channel_ready ch1 \<ge> READY"
      "autoconf_pmt_need_update ch1 = autoconf_pmt_need_update ch"
    using ch inv by (simp_all add: ch1_def)
  have "chan_new_pmt_channel b2 p ch1 = Some (ch1\<lparr>pmt_version := int (unat (pmt_t.version_number (pmt_of s))),
       pmt_need_update := False, autoconf_pmt_need_update := True, need_cam_ask := q, pmt_packet := pkt2\<rparr>)"
    using c1 ch(4) g2 body by (simp add: chan_new_pmt_channel_def ts_while_def ts_drain.simps)
  then show ?thesis using 1 c1 g2 by auto
qed

text \<open>Once forgotten, the PMT PID stays zero.\<close>

interpretation pmt_forgotten: section_client pmt_need_update chan_pmt_body "\<lambda>c. pmt_pid (pid_i c) = 0"
proof
  fix c :: mumudvb_channel_t and pkt :: mumudvb_ts_packet_t
  assume "pmt_pid (pid_i c) = 0" "length (data_full pkt) = MAX_TS_SIZE"
  moreover from this obtain c' where "chan_pmt_body c pkt = Some c'" "pmt_step c c'"
    using chan_pmt_body_step pmt_step_refl by blast
  ultimately show "\<exists>c'. chan_pmt_body c pkt = Some c' \<and> pmt_pid (pid_i c') = 0"
    by (auto simp: pmt_step_def pmt_set_def)
qed

text \<open>
  A section of another table on the PMT PID makes the channel forget its PMT: the PID is set to
  zero, and from then on no packet changes what the channel knows of its PMT.
\<close>

theorem chan_pmt_forgotten:
  assumes ch: "pmt_alloc ch" "ts_inv (pmt_packet ch)" "channel_ready ch \<ge> READY" "pmt_pid (pid_i ch) = p" "p \<noteq> 0" "pmt_need_update ch"
    and q: "full_sections (pmt_packet ch) = s # rest" "s ! 0 \<noteq> 0x02" and b: "starts_section b"
  shows "\<exists>ch1. chan_new_pmt_channel b p ch = Some ch1 \<and> pmt_pid (pid_i ch1) = 0 \<and>
     (\<forall>b' p'. chan_new_pmt_channel b' p' ch1 = Some ch1)"
proof -
  obtain pkt where g: "get_ts_packet (Some b) (pmt_packet ch) = Some (True, pkt)" "received_section pkt = s"
    using get_ts_packet_starts [OF b ch(2) q(1)] by blast
  then have d: "ts_inv pkt" "section_ok s" "length (data_full pkt) = MAX_TS_SIZE" "len_full pkt \<le> MAX_TS_SIZE"
    using get_ts_packet_delivers [OF ch(2), of "Some b" pkt] b by (simp_all add: starts_section_def)
  have "3 \<le> length s" using d(2) by (simp add: section_ok_def)
  then have "data_full pkt ! 0 = s ! 0" using g(2) d by (auto simp: received_section_def)
  then have body: "chan_pmt_body ch pkt = Some (ch\<lparr>pid_i := (pid_i ch)\<lparr>pmt_pid := 0\<rparr>\<rparr>)"
    using q(2) d(3) by (simp add: chan_pmt_body_def chan_pmt_ok_def struct_at_def PMT_LEN_def MAX_TS_SIZE_def pmt_of_def)
  have "pmt_pid (pid_i (ch\<lparr>pid_i := (pid_i ch)\<lparr>pmt_pid := 0\<rparr>\<rparr>)) = 0" by simp
  from pmt_forgotten.drain_ok [OF d(1) this] obtain pkt' c
    where w: "ts_drain pmt_need_update chan_pmt_body pkt (ch\<lparr>pid_i := (pid_i ch)\<lparr>pmt_pid := 0\<rparr>\<rparr>) = Some (pkt', c)"
      "pmt_pid (pid_i c) = 0" by blast
  have "chan_new_pmt_channel b p ch = Some (c\<lparr>pmt_packet := pkt'\<rparr>)"
    using ch g(1) body w by (simp add: chan_new_pmt_channel_def ts_while_def)
  moreover have "chan_new_pmt_channel b' p' (c\<lparr>pmt_packet := pkt'\<rparr>) = Some (c\<lparr>pmt_packet := pkt'\<rparr>)" for b' p'
    unfolding chan_new_pmt_channel_def by (rule if_not_P) (auto simp: w)
  ultimately show ?thesis using w by auto
qed

section \<open>Witnesses\<close>

definition sample_chan :: mumudvb_channel_t where
  "sample_chan = zero_channel\<lparr>channel_ready := READY, mumudvb_channel_t.service_id := 7, pmt_alloc := True,
     pid_i := zero_pid_i\<lparr>pmt_pid := 256\<rparr>\<rparr>"

lemma sample_chan_inv: "chan_pmt_inv sample_chan"
  using zero_channel_wf
  by (simp add: chan_pmt_inv_def sample_chan_def channel_wf_def pid_i_wf_def zero_pid_i_def zero_channel_def ts_inv_empty)

definition sample_pmt_section :: "u8 list" where
  "sample_pmt_section = sealed [0x02, 0xb0, 0, 0, 7, 0xc3, 0, 0, 0xe0, 0x41, 0xf0, 0]"

lemma sample_pmt_section_ok: "section_ok sample_pmt_section"
  unfolding sample_pmt_section_def by (rule sealed_section_ok) (simp_all add: MAX_TS_SIZE_def)

lemma sample_pmt_section_length: "length sample_pmt_section = 16"
  by (simp add: sample_pmt_section_def)

lemma sample_pmt_section_fields:
  "pmt_t.table_id (pmt_of sample_pmt_section) = 2" "pmt_program_number (pmt_of sample_pmt_section) = 7"
  "pmt_t.version_number (pmt_of sample_pmt_section) = 1" "pmt_t.current_next_indicator (pmt_of sample_pmt_section) = 1"
  by (simp_all add: pmt_of_def pmt_program_number_def sample_pmt_section_def sealed_def sealed_body_def Let_def nth_append
      bf_get_def HILO_def)

definition sample_pmt_packet :: "u8 list" where
  "sample_pmt_packet = [0x47, 0x41, 0x00, 0x10] @ 0 # sample_pmt_section @ replicate 167 0xff"

lemma sample_pmt_packet_starts: "starts_section sample_pmt_packet"
  using sample_pmt_section_length
  by (simp add: starts_section_def sample_pmt_packet_def TS_PACKET_SIZE_def ts_header_of_def bf_get_def nth_append)
    (simp add: sample_pmt_section_def sealed_def sealed_body_def Let_def nth_append)


theorem chan_new_pmt_tracks_witness:
  "\<exists>ch1 ch2. chan_new_pmt_channel sample_pmt_packet 256 sample_chan = Some ch1 \<and>
     chan_new_pmt_channel sample_pmt_packet 256 ch1 = Some ch2 \<and> received_section (pmt_packet ch2) = sample_pmt_section \<and>
     pmt_version ch2 = 1 \<and> autoconf_pmt_need_update ch2"
proof -
  have "pmt_of_channel sample_chan sample_pmt_section"
    by (simp add: pmt_of_channel_def sample_pmt_section_fields sample_pmt_section_length PMT_LEN_def other_service_def
        sample_chan_def zero_channel_def)
  moreover have "channel_ready sample_chan \<ge> READY" "pmt_pid (pid_i sample_chan) = 256" "\<not> pmt_need_update sample_chan"
      "full_sections (pmt_packet sample_chan) = []"
    by (simp_all add: sample_chan_def zero_channel_def full_sections_empty)
  moreover have "drop 4 sample_pmt_packet = 0 # sample_pmt_section @ replicate (183 - length sample_pmt_section) 0xff"
    by (simp add: sample_pmt_section_length sample_pmt_packet_def)
  ultimately show ?thesis
    using chan_new_pmt_tracks [OF sample_chan_inv, of 256 sample_pmt_section sample_pmt_packet sample_pmt_packet]
      sample_pmt_section_ok sample_pmt_packet_starts
    by (auto simp: sample_pmt_section_length sample_pmt_section_fields)
qed

theorem chan_pmt_forgotten_witness:
  "\<exists>ch1. chan_new_pmt_channel sample_pmt_packet 256 (sample_chan\<lparr>pmt_need_update := True, pmt_packet := sample_queued\<rparr>) = Some ch1 \<and>
     pmt_pid (pid_i ch1) = 0"
proof -
  let ?ch = "sample_chan\<lparr>pmt_need_update := True, pmt_packet := sample_queued\<rparr>"
  have "pmt_alloc ?ch" "channel_ready ?ch \<ge> READY" "pmt_pid (pid_i ?ch) = 256" "pmt_need_update ?ch"
    by (simp_all add: sample_chan_def zero_channel_def)
  then show ?thesis
    using chan_pmt_forgotten [of ?ch 256 "[0x72, 0, 0]" "[]" sample_pmt_packet] sample_pmt_packet_starts sample_queued_ok
    by auto
qed

end
