(* ===== verification/Rewrite_Pmt.thy ===== *)
theory Rewrite_Pmt
  imports Rewrite_Pat
begin

text \<open>
  PMT rewriting, \<^verbatim>\<open>src/src/rewrite_pmt.c\<close>: the PMT of a channel is collected from its packets, and a
  PMT that announces only the streams of the channel is generated from it and sent in its place.

  The packet is the memory from its first byte on, since the code copies 188 bytes from the fifth
  byte on. \<^verbatim>\<open>original_pmt\<close> has room for ten packets. The end of \<^verbatim>\<open>pmt_channel_rewrite\<close> is the same code
  as that of \<^verbatim>\<open>pat_channel_rewrite\<close>.
\<close>

section \<open>Collecting the PMT\<close>

definition pmt_length :: "pmt_t \<Rightarrow> nat" where
  "pmt_length pmt = HILO (pmt_t.section_length_hi pmt) (pmt_t.section_length_lo pmt) + 3"

text \<open>The number of packets after the first one, as the code computes it.\<close>

definition pmt_parts :: "nat \<Rightarrow> nat" where
  "pmt_parts len = (if (len + TS_PACKET_SIZE) mod TS_PACKET_SIZE \<noteq> 0 then len div TS_PACKET_SIZE else len div TS_PACKET_SIZE - 1)"

definition pmt_need_update :: "u8 list \<Rightarrow> mumudvb_channel_t \<Rightarrow> (nat \<times> mumudvb_channel_t) option" where
  "pmt_need_update ts_packet ch = do {
     pmt \<leftarrow> struct_at PMT_LEN pmt_of ts_packet TS_HEADER_LEN;
     if pmt_t.table_id pmt = 0x02 then
       if original_pmt_ready ch \<and> uint (pmt_t.version_number pmt) = generated_pmt_version ch then Some (0, ch)
       else do {
         let ch = ch\<lparr>original_pmt_ready := False, pmt_part_num := pmt_parts (pmt_length pmt), pmt_part_count := 0\<rparr>;
         p \<leftarrow> mem_read ts_packet 0 TS_PACKET_SIZE;
         full \<leftarrow> mem_write (original_pmt ch) 0 p;
         let ch = ch\<lparr>original_pmt := full\<rparr>;
         if pmt_part_num ch = 0 then Some (1, ch\<lparr>original_pmt_ready := True\<rparr>) else Some (2, ch)}
     else if \<not> original_pmt_ready ch \<and> pmt_part_num ch > 0 then do {
       let n = pmt_part_count ch + 1;
       p \<leftarrow> mem_read ts_packet 4 TS_PACKET_SIZE;
       full \<leftarrow> mem_write (original_pmt ch) (TS_PACKET_SIZE * n) p;
       let ch = ch\<lparr>pmt_part_count := n, original_pmt := full\<rparr>;
       if n = pmt_part_num ch then Some (1, ch\<lparr>original_pmt_ready := True\<rparr>) else Some (2, ch)}
     else Some (0, ch)}"

section \<open>Generating the PMT\<close>

definition elementary_PID :: "pmt_info_t \<Rightarrow> nat" where
  "elementary_PID e = HILO (pmt_info_t.elementary_PID_hi e) (pmt_info_t.elementary_PID_lo e)"

definition ES_info_length :: "pmt_info_t \<Rightarrow> nat" where
  "ES_info_length e = HILO (pmt_info_t.ES_info_length_hi e) (pmt_info_t.ES_info_length_lo e)"

text \<open>One stream: a copy for each entry of the PID table that has its PID.\<close>

fun pmt_copy_stream :: "nat list \<Rightarrow> nat \<Rightarrow> u8 list \<Rightarrow> u8 list \<Rightarrow> nat \<Rightarrow> (u8 list \<times> nat) option" where
  "pmt_copy_stream [] elem_pid info dest pos = Some (dest, pos)"
| "pmt_copy_stream (q # qs) elem_pid info dest pos =
     (if elem_pid = q then do {
        dest \<leftarrow> mem_write dest pos info;
        pmt_copy_stream qs elem_pid info dest (pos + length info)}
      else pmt_copy_stream qs elem_pid info dest pos)"

text \<open>The loop over the streams; \<open>i\<close> counts from the end of the fixed part of the PMT.\<close>

function pmt_copy_streams :: "mumudvb_channel_t \<Rightarrow> u8 list \<Rightarrow> int \<Rightarrow> nat \<Rightarrow> u8 list \<Rightarrow> nat \<Rightarrow> (u8 list \<times> nat) option" where
  "pmt_copy_streams ch full es_len i dest pos =
     (if int i < es_len then
        (case struct_at PMT_INFO_LEN pmt_info_of full (TS_HEADER_LEN + PMT_LEN + i) of None \<Rightarrow> None
         | Some e \<Rightarrow>
           if pos + PMT_INFO_LEN + ES_info_length e \<ge> TS_PACKET_SIZE - 4 then Some (dest, pos)
           else (case mem_read full (TS_HEADER_LEN + PMT_LEN + i) (PMT_INFO_LEN + ES_info_length e) of None \<Rightarrow> None
             | Some info \<Rightarrow>
               (case pmt_copy_stream (take (num_pids (pid_i ch)) (pids (pid_i ch))) (elementary_PID e) info dest pos of None \<Rightarrow> None
                | Some (dest, pos) \<Rightarrow> pmt_copy_streams ch full es_len (i + PMT_INFO_LEN + ES_info_length e) dest pos)))
      else Some (dest, pos))"
  by pat_completeness auto
termination
  by (relation "measure (\<lambda>(ch, full, es_len, i, dest, pos). nat (es_len - int i))") (auto simp: PMT_INFO_LEN_def)

declare pmt_copy_streams.simps [simp del]

definition pmt_finish :: "u8 list \<Rightarrow> nat \<Rightarrow> u8 list option" where
  "pmt_finish dest pos = pat_finish dest pos"

text \<open>The result is whether the code returns 1.\<close>

definition pmt_channel_rewrite :: "mumudvb_channel_t \<Rightarrow> (bool \<times> mumudvb_channel_t) option" where
  "pmt_channel_rewrite ch = do {
     let full = original_pmt ch;
     pmt \<leftarrow> struct_at PMT_LEN pmt_of full TS_HEADER_LEN;
     if pmt_t.table_id pmt \<noteq> 0x02 then Some (False, ch)
     else do {
       (full, dest) \<leftarrow> rewrite_ts_header full;
       let pmt' = pmt\<lparr>pmt_t.current_next_indicator := 1, pmt_t.section_number := 0, pmt_t.last_section_number := 0\<rparr>;
       full \<leftarrow> struct_put pmt_bytes full TS_HEADER_LEN pmt';
       ps \<leftarrow> mem_read full TS_HEADER_LEN PMT_LEN;
       dest \<leftarrow> mem_write dest TS_HEADER_LEN ps;
       (dest, pos) \<leftarrow> pmt_copy_streams ch full (int (pmt_length pmt) - int PMT_LEN - 4) 0 dest (TS_HEADER_LEN + PMT_LEN);
       dest \<leftarrow> pmt_finish dest pos;
       gen \<leftarrow> mem_write (generated_pmt ch) 0 dest;
       Some (True, ch\<lparr>original_pmt := full, generated_pmt_version := uint (pmt_t.version_number pmt), generated_pmt := gen\<rparr>)}}"

section \<open>Sending\<close>

text \<open>The generated packet with the next continuity counter.\<close>

definition pmt_send_packet :: "u8 list \<Rightarrow> mumudvb_channel_t \<Rightarrow> (u8 list \<times> mumudvb_channel_t) option" where
  "pmt_send_packet pmt_ts_packet ch = do {
     let cc = (pmt_continuity_counter ch + 1) mod 16;
     g \<leftarrow> mem_read (generated_pmt ch) 0 TS_PACKET_SIZE;
     b \<leftarrow> mem_write pmt_ts_packet 0 g;
     b \<leftarrow> set_continuity_counter b cc;
     Some (b, ch\<lparr>pmt_continuity_counter := cc\<rparr>)}"

text \<open>The result: 1 to send the packet buffer and 0 not to, the packet buffer, and the channel.\<close>

definition pmt_rewrite_new_channel_packet ::
  "u8 list \<Rightarrow> u8 list \<Rightarrow> mumudvb_channel_t \<Rightarrow> (nat \<times> u8 list \<times> mumudvb_channel_t) option" where
  "pmt_rewrite_new_channel_packet ts_packet pmt_ts_packet ch =
     (if channel_ready ch \<ge> READY then do {
        (need_update, ch) \<leftarrow> pmt_need_update ts_packet ch;
        if need_update = 0 then do {
          (b, ch) \<leftarrow> pmt_send_packet pmt_ts_packet ch;
          Some (1, b, ch)}
        else if need_update = 1 then do {
          (ok, ch) \<leftarrow> pmt_channel_rewrite ch;
          if \<not> ok then
            if generated_pmt_version ch \<noteq> 0 then do {
              (b, ch) \<leftarrow> pmt_send_packet pmt_ts_packet ch;
              Some (1, b, ch)}
            else Some (0, pmt_ts_packet, ch)
          else Some (1, pmt_ts_packet, ch)}
        else Some (0, pmt_ts_packet, ch)}
      else Some (0, pmt_ts_packet, ch))"

section \<open>What is copied\<close>

text \<open>The descriptions of the streams, one behind the other.\<close>

definition stream_at :: "u8 list \<Rightarrow> nat \<Rightarrow> u8 list" where
  "stream_at full i = (let d = drop (TS_HEADER_LEN + PMT_LEN + i) full in take (PMT_INFO_LEN + ES_info_length (pmt_info_of d)) d)"

function pmt_streams :: "u8 list \<Rightarrow> int \<Rightarrow> nat \<Rightarrow> u8 list list" where
  "pmt_streams full es_len i =
     (if int i < es_len then
        stream_at full i #
        pmt_streams full es_len (i + PMT_INFO_LEN + ES_info_length (pmt_info_of (drop (TS_HEADER_LEN + PMT_LEN + i) full)))
      else [])"
  by pat_completeness auto
termination
  by (relation "measure (\<lambda>(full, es_len, i). nat (es_len - int i))") (auto simp: PMT_INFO_LEN_def)

declare pmt_streams.simps [simp del]

text \<open>The streams of the channel, until one does not fit the packet behind position \<open>pos\<close>.\<close>

fun pmt_chosen :: "nat list \<Rightarrow> nat \<Rightarrow> u8 list list \<Rightarrow> u8 list list" where
  "pmt_chosen qs pos [] = []"
| "pmt_chosen qs pos (e # es) =
     (if pos + length e \<ge> TS_PACKET_SIZE - 4 then []
      else if elementary_PID (pmt_info_of e) \<in> set qs then e # pmt_chosen qs (pos + length e) es
      else pmt_chosen qs pos es)"

lemma pmt_info_of_take: "5 \<le> n \<Longrightarrow> pmt_info_of (take n d) = pmt_info_of d"
  by (simp add: pmt_info_of_def)

lemma pmt_copy_stream_ok:
  assumes "distinct qs" "pos + length info \<le> length dest"
  shows "pmt_copy_stream qs p info dest pos = Some
     (if p \<in> set qs then (take pos dest @ info @ drop (pos + length info) dest, pos + length info) else (dest, pos))"
  using assms
proof (induction qs arbitrary: dest pos)
  case (Cons q qs)
  have no: "p \<notin> set qs \<Longrightarrow> pmt_copy_stream qs p info d k = Some (d, k)" for d k
    by (induction qs arbitrary: d k) auto
  show ?case
  proof (cases "p = q")
    case True
    then have "p \<notin> set qs" using Cons.prems by simp
    then show ?thesis using True Cons.prems no by (simp add: mem_write_def)
  next
    case False
    then show ?thesis using Cons by simp
  qed
qed simp

lemma pmt_copy_streams_ok:
  assumes full: "length full = TS_PACKET_SIZE * 10" and ch: "distinct (take (num_pids (pid_i ch)) (pids (pid_i ch)))"
    and es: "es_len \<le> 1600"
  shows "length dest = TS_PACKET_SIZE \<Longrightarrow> pos \<le> 184 \<Longrightarrow> \<exists>dest'.
     let ys = pmt_chosen (take (num_pids (pid_i ch)) (pids (pid_i ch))) pos (pmt_streams full es_len i) in
     pmt_copy_streams ch full es_len i dest pos = Some (dest', pos + length (concat ys)) \<and>
     length dest' = TS_PACKET_SIZE \<and> pos + length (concat ys) \<le> 184 \<and>
     take (pos + length (concat ys)) dest' = take pos dest @ concat ys"
proof (induction "nat (es_len - int i)" arbitrary: i dest pos rule: less_induct)
  case less
  let ?qs = "take (num_pids (pid_i ch)) (pids (pid_i ch))"
  show ?case
  proof (cases "int i < es_len")
    case False
    then show ?thesis using less.prems by (simp add: pmt_copy_streams.simps pmt_streams.simps Let_def)
  next
    case True
    define d where "d = drop (TS_HEADER_LEN + PMT_LEN + i) full"
    define e where "e = pmt_info_of d"
    define n where "n = PMT_INFO_LEN + ES_info_length e"
    have i: "i < 1600" using True es by simp
    then have ld: "263 \<le> length d" using full by (simp add: d_def ts_sizes PMT_LEN_def)
    have at: "struct_at PMT_INFO_LEN pmt_info_of full (TS_HEADER_LEN + PMT_LEN + i) = Some e"
      using i full by (simp add: struct_at_def e_def d_def ts_sizes PMT_LEN_def PMT_INFO_LEN_def pmt_info_of_take)
    have sa: "stream_at full i = take n d" by (simp add: stream_at_def d_def e_def n_def Let_def)
    have st: "pmt_streams full es_len i = take n d # pmt_streams full es_len (i + PMT_INFO_LEN + ES_info_length e)"
      using True sa by (subst pmt_streams.simps) (simp add: e_def d_def)
    show ?thesis
    proof (cases "pos + n \<ge> 184")
      case big: True
      then have "pos + length (take n d) \<ge> 184" using ld by (simp add: min_def)
      then have "pmt_chosen ?qs pos (pmt_streams full es_len i) = []" by (simp add: st ts_sizes)
      moreover have "pmt_copy_streams ch full es_len i dest pos = Some (dest, pos)"
        using True at big by (subst pmt_copy_streams.simps) (simp add: n_def ts_sizes add.assoc)
      ultimately show ?thesis using less.prems by (simp add: Let_def)
    next
      case False
      then have ln: "length (take n d) = n" using ld by simp
      have rd: "mem_read full (TS_HEADER_LEN + PMT_LEN + i) n = Some (take n d)"
        using False i full by (simp add: mem_read_def d_def ts_sizes PMT_LEN_def)
      have pe: "elementary_PID (pmt_info_of (take n d)) = elementary_PID e"
        by (simp add: n_def pmt_info_of_take e_def PMT_INFO_LEN_def)
      define d1 p1 where "d1 = (if elementary_PID e \<in> set ?qs then take pos dest @ take n d @ drop (pos + n) dest else dest)"
        and "p1 = (if elementary_PID e \<in> set ?qs then pos + n else pos)"
      have cp: "pmt_copy_stream ?qs (elementary_PID e) (take n d) dest pos = Some (d1, p1)"
        using pmt_copy_stream_ok [OF ch, of pos "take n d" dest] False less.prems ln by (simp add: d1_def p1_def ts_sizes)
      have l1: "length d1 = TS_PACKET_SIZE" "p1 \<le> 184" "take p1 d1 = take pos dest @ (if elementary_PID e \<in> set ?qs then take n d else [])"
        using less.prems False ln by (simp_all add: d1_def p1_def ts_sizes)
      define j where "j = i + PMT_INFO_LEN + ES_info_length e"
      have "nat (es_len - int j) < nat (es_len - int i)" using True by (simp add: j_def PMT_INFO_LEN_def)
      from less.hyps [OF this l1(1,2)] obtain dest' where
        IH: "pmt_copy_streams ch full es_len j d1 p1 = Some (dest', p1 + length (concat (pmt_chosen ?qs p1 (pmt_streams full es_len j))))"
        "length dest' = TS_PACKET_SIZE" "p1 + length (concat (pmt_chosen ?qs p1 (pmt_streams full es_len j))) \<le> 184"
        "take (p1 + length (concat (pmt_chosen ?qs p1 (pmt_streams full es_len j)))) dest' =
          take p1 d1 @ concat (pmt_chosen ?qs p1 (pmt_streams full es_len j))" by (auto simp: Let_def)
      have step: "pmt_copy_streams ch full es_len i dest pos = pmt_copy_streams ch full es_len j d1 p1"
        using True at False rd cp by (subst pmt_copy_streams.simps) (simp add: n_def j_def ts_sizes add.assoc)
      have chosen: "concat (pmt_chosen ?qs pos (pmt_streams full es_len i)) =
          (if elementary_PID e \<in> set ?qs then take n d else []) @ concat (pmt_chosen ?qs p1 (pmt_streams full es_len j))"
        using False ln pe by (simp add: st j_def [symmetric] p1_def ts_sizes)
      show ?thesis unfolding Let_def chosen
        by (rule exI [of _ dest']) (use step IH l1(3) ln in \<open>auto simp: p1_def add.assoc\<close>)
    qed
  qed
qed


section \<open>The generated PMT\<close>

definition channel_pids :: "mumudvb_channel_t \<Rightarrow> nat list" where
  "channel_pids ch = take (num_pids (pid_i ch)) (pids (pid_i ch))"

definition pmt_single :: "pmt_t \<Rightarrow> pmt_t" where
  "pmt_single p = p\<lparr>pmt_t.current_next_indicator := 1, pmt_t.section_number := 0, pmt_t.last_section_number := 0\<rparr>"

text \<open>The streams that a section in a packet announces, read as the code reads them.\<close>

definition packet_streams :: "u8 list \<Rightarrow> u8 list list" where
  "packet_streams full = pmt_streams full (int (pmt_length (pmt_of (drop TS_HEADER_LEN full))) - 16) 0"

definition pmt_body :: "mumudvb_channel_t \<Rightarrow> u8 list" where
  "pmt_body ch = pmt_bytes (pmt_single (pmt_of (drop TS_HEADER_LEN (original_pmt ch)))) @
     concat (pmt_chosen (channel_pids ch) 17 (packet_streams (original_pmt ch)))"

lemma length_pmt_bytes [simp]: "length (pmt_bytes p) = 12"
  by (simp add: pmt_s.len_enc PMT_LEN_def)

lemma pmt_streams_cong:
  "drop 17 a = drop 17 b \<Longrightarrow> pmt_streams a es_len i = pmt_streams b es_len i"
proof (induction "nat (es_len - int i)" arbitrary: i rule: less_induct)
  case less
  have d: "drop (17 + i) a = drop (17 + i) b" using less.prems by (metis add.commute drop_drop)
  have "int i < es_len \<Longrightarrow> pmt_streams a es_len (i + 5 + k) = pmt_streams b es_len (i + 5 + k)" for k
    using less.prems by (intro less.hyps) auto
  then show ?case
    using d by (simp add: pmt_streams.simps [of a _ i] pmt_streams.simps [of b _ i] stream_at_def Let_def
        ts_sizes PMT_LEN_def PMT_INFO_LEN_def)
qed

text \<open>A description whose length is the one it states.\<close>

definition stream_ok :: "u8 list \<Rightarrow> bool" where
  "stream_ok e \<longleftrightarrow> 5 \<le> length e \<and> length e = PMT_INFO_LEN + ES_info_length (pmt_info_of e)"

lemma pmt_info_of_append: "5 \<le> length e \<Longrightarrow> pmt_info_of (e @ r) = pmt_info_of e"
  using pmt_info_of_take [of 5 "e @ r"] pmt_info_of_take [of 5 e] by simp

lemma stream_at_ok:
  assumes "length full = TS_PACKET_SIZE * 10" "i \<le> 1600" "length (stream_at full i) < 184"
  shows "stream_ok (stream_at full i)"
proof -
  define d where "d = drop (17 + i) full"
  have "263 \<le> length d" using assms(1,2) by (simp add: d_def ts_sizes)
  moreover have s: "stream_at full i = take (5 + ES_info_length (pmt_info_of d)) d"
    by (simp add: stream_at_def d_def Let_def ts_sizes PMT_LEN_def PMT_INFO_LEN_def)
  ultimately have "length (stream_at full i) = 5 + ES_info_length (pmt_info_of d)" using assms(3) by auto
  moreover have "pmt_info_of (stream_at full i) = pmt_info_of d" by (simp add: s pmt_info_of_take)
  ultimately show ?thesis by (simp add: stream_ok_def PMT_INFO_LEN_def)
qed

lemma pmt_chosen_ok:
  assumes "length full = TS_PACKET_SIZE * 10" "es_len \<le> 1600"
  shows "\<forall>e \<in> set (pmt_chosen qs pos (pmt_streams full es_len i)). stream_ok e"
proof (induction "nat (es_len - int i)" arbitrary: i pos rule: less_induct)
  case less
  show ?case
  proof (cases "int i < es_len")
    case False
    then show ?thesis by (simp add: pmt_streams.simps)
  next
    case True
    define j where "j = i + PMT_INFO_LEN + ES_info_length (pmt_info_of (drop (TS_HEADER_LEN + PMT_LEN + i) full))"
    have "pmt_streams full es_len i = stream_at full i # pmt_streams full es_len j"
      using True by (subst pmt_streams.simps) (simp add: j_def)
    moreover have "\<forall>e \<in> set (pmt_chosen qs k (pmt_streams full es_len j)). stream_ok e" for k
      using True by (intro less.hyps) (simp add: j_def PMT_INFO_LEN_def)
    ultimately show ?thesis
      using stream_at_ok [OF assms(1), of i] True assms(2) by (auto simp: ts_sizes)
  qed
qed

lemma pmt_streams_parse:
  "\<forall>y \<in> set ys. stream_ok y \<Longrightarrow> length h = 17 + i \<Longrightarrow>
   pmt_streams (h @ concat ys @ rest) (int (i + length (concat ys))) i = ys"
proof (induction ys arbitrary: h i)
  case Nil
  then show ?case by (simp add: pmt_streams.simps)
next
  case (Cons y ys)
  have y: "5 \<le> length y" "length y = 5 + ES_info_length (pmt_info_of y)"
    using Cons.prems by (simp_all add: stream_ok_def PMT_INFO_LEN_def)
  have "pmt_streams ((h @ y) @ concat ys @ rest) (int ((i + length y) + length (concat ys))) (i + length y) = ys"
    using Cons.prems by (intro Cons.IH) simp_all
  moreover have "pmt_info_of (y @ concat ys @ rest) = pmt_info_of y" using y by (intro pmt_info_of_append)
  moreover have "stream_at (h @ concat (y # ys) @ rest) i = y"
    using Cons.prems(2) y pmt_info_of_append [OF y(1), of "concat ys @ rest"]
    by (simp add: stream_at_def ts_sizes PMT_LEN_def PMT_INFO_LEN_def Let_def)
  ultimately show ?case using Cons.prems(2) y
    by (subst pmt_streams.simps) (simp add: ts_sizes PMT_LEN_def PMT_INFO_LEN_def add.assoc)
qed

text \<open>What the function leaves in the channel.\<close>

definition pmt_generated :: "mumudvb_channel_t \<Rightarrow> u8 list" where
  "pmt_generated ch = rewritten_header (original_pmt ch) @ sealed (pmt_body ch) @ replicate (179 - length (pmt_body ch)) 0xff"

lemma pmt_channel_rewrite_result:
  assumes wf: "channel_wf ch" and d: "distinct (channel_pids ch)"
    and tid: "pmt_t.table_id (pmt_of (drop TS_HEADER_LEN (original_pmt ch))) = 2"
    and len: "pmt_length (pmt_of (drop TS_HEADER_LEN (original_pmt ch))) \<le> 1616"
  shows "\<exists>full. pmt_channel_rewrite ch = Some (True, ch\<lparr>original_pmt := full,
       generated_pmt_version := uint (pmt_t.version_number (pmt_of (drop TS_HEADER_LEN (original_pmt ch)))),
       generated_pmt := pmt_generated ch\<rparr>) \<and> length full = TS_PACKET_SIZE * 10 \<and>
     12 \<le> length (pmt_body ch) \<and> length (pmt_body ch) \<le> 179"
proof -
  define fl where "fl = original_pmt ch"
  define p where "p = pmt_of (drop 5 fl)"
  define hd where "hd = rewritten_header fl"
  define ps where "ps = pmt_bytes (pmt_single p)"
  define full' where "full' = hd @ ps @ drop 17 fl"
  define es where "es = int (pmt_length p) - 16"
  define ys where "ys = pmt_chosen (channel_pids ch) 17 (pmt_streams full' es 0)"
  have lfl: "length fl = 1880" and gl: "length (generated_pmt ch) = 188"
    using wf by (simp_all add: channel_wf_def fl_def ts_sizes)
  have lh: "length hd = 5" and lps: "length ps = 12" by (simp_all add: hd_def ps_def)
  have lf: "length full' = TS_PACKET_SIZE * 10" using lfl lh lps by (simp add: full'_def ts_sizes)
  have t2: "pmt_t.table_id p = 2" and es16: "es \<le> 1600" using tid len by (simp_all add: p_def fl_def es_def ts_sizes)
  have 1: "struct_at PMT_LEN pmt_of fl TS_HEADER_LEN = Some p"
    using lfl by (simp add: struct_at_def p_def ts_sizes PMT_LEN_def pmt_of_def)
  have 2: "rewrite_ts_header fl = Some (hd @ drop 5 fl, hd @ replicate 183 0)"
    using rewrite_ts_header_spec [of fl] lfl by (simp add: hd_def ts_sizes)
  have 3: "struct_put pmt_bytes (hd @ drop 5 fl) TS_HEADER_LEN (pmt_single p) = Some full'"
    using lfl lh lps by (simp add: struct_put_def mem_write_def full'_def ps_def ts_sizes)
  have 4: "mem_read full' TS_HEADER_LEN PMT_LEN = Some ps"
    using lh lps lfl by (simp add: mem_read_def full'_def ts_sizes PMT_LEN_def)
  define d1 where "d1 = hd @ ps @ replicate 171 (0 :: u8)"
  have 5: "mem_write (hd @ replicate 183 0) TS_HEADER_LEN ps = Some d1"
    using lh lps by (simp add: mem_write_def d1_def ts_sizes)
  have ld1: "length d1 = TS_PACKET_SIZE" using lh lps by (simp add: d1_def ts_sizes)
  have d': "distinct (take (num_pids (pid_i ch)) (pids (pid_i ch)))" using d by (simp add: channel_pids_def)
  obtain d2 where 6: "pmt_copy_streams ch full' es 0 d1 17 = Some (d2, 17 + length (concat ys))"
     "length d2 = TS_PACKET_SIZE" "17 + length (concat ys) \<le> 184" "take (17 + length (concat ys)) d2 = take 17 d1 @ concat ys"
    using pmt_copy_streams_ok [OF lf d' es16 ld1, of 17 0] by (auto simp: Let_def ys_def channel_pids_def)
  have yy: "ys = pmt_chosen (channel_pids ch) 17 (packet_streams fl)"
    using pmt_streams_cong [of full' fl es 0] lh lps by (simp add: ys_def packet_streams_def full'_def es_def p_def ts_sizes)
  have body: "pmt_body ch = ps @ concat ys" by (simp add: pmt_body_def ps_def yy fl_def p_def ts_sizes)
  define pos where "pos = 17 + length (concat ys)"
  have lb: "length (pmt_body ch) = pos - 5" using lps by (simp add: body pos_def)
  have tk: "take pos d2 = hd @ pmt_body ch" using 6(4) lh lps by (simp add: pos_def body d1_def)
  have t5: "take TS_HEADER_LEN d2 = hd"
    using arg_cong [OF tk, of "take 5"] lh by (simp add: ts_sizes pos_def min_def)
  have "take (pos - TS_HEADER_LEN) (drop TS_HEADER_LEN d2) = drop 5 (take pos d2)"
    by (simp add: ts_sizes drop_take)
  also have "\<dots> = pmt_body ch" using tk lh by simp
  finally have bd: "take (pos - TS_HEADER_LEN) (drop TS_HEADER_LEN d2) = pmt_body ch" .
  define out where "out = pmt_generated ch"
  have 7: "pmt_finish d2 pos = Some out"
    using pat_finish_spec [OF 6(2), of pos] 6(3) bd t5 lb
    by (simp add: out_def pmt_generated_def pmt_finish_def fl_def hd_def ts_sizes pos_def)
  have lout: "length out = 188" using lb 6(3) by (simp add: out_def pmt_generated_def pos_def)
  have 8: "mem_write (generated_pmt ch) 0 out = Some out" using lout gl by (simp add: mem_write_def)
  have len17: "TS_HEADER_LEN + PMT_LEN = 17" and es': "int (pmt_length p) - int PMT_LEN - 4 = es"
    by (simp_all add: ts_sizes PMT_LEN_def es_def)
  have "pmt_channel_rewrite ch = Some (True, ch\<lparr>original_pmt := full', generated_pmt_version := uint (pmt_t.version_number p),
      generated_pmt := out\<rparr>)"
    unfolding pmt_channel_rewrite_def Let_def fl_def [symmetric] pmt_single_def [symmetric]
    by (simp add: 1 t2 2 3 4 5 len17 es' 6(1) pos_def [symmetric] 7 8)
  then show ?thesis
    using lf lb 6(3) by (intro exI [of _ full']) (simp add: p_def fl_def out_def pos_def ts_sizes)
qed

lemma pmt_body_sealed:
  "\<exists>h. length h = 12 \<and> sealed_body (pmt_body ch) =
      h @ concat (pmt_chosen (channel_pids ch) 17 (packet_streams (original_pmt ch))) \<and>
    (\<forall>i. i \<noteq> 1 \<and> i \<noteq> 2 \<longrightarrow> h ! i = pmt_bytes (pmt_single (pmt_of (drop TS_HEADER_LEN (original_pmt ch)))) ! i)"
  using sealed_body_append [of "pmt_bytes (pmt_single (pmt_of (drop TS_HEADER_LEN (original_pmt ch))))"
      "concat (pmt_chosen (channel_pids ch) 17 (packet_streams (original_pmt ch)))"]
  unfolding pmt_body_def length_pmt_bytes by simp

lemma pmt_length_ok: "section_ok s \<Longrightarrow> pmt_length (pmt_of s) = length s"
  by (simp add: section_ok_def pmt_length_def pmt_of_def BYTES_BFR_SEC_LEN_def)

lemma pmt_of_append: "12 \<le> length s \<Longrightarrow> pmt_of (s @ r) = pmt_of s"
  by (simp add: pmt_of_def nth_append less_le_trans [of _ 12 "length s"] flip: length_greater_0_conv)

text \<open>The generated packet, parsed.\<close>

lemma pmt_generated_streams:
  assumes "length (original_pmt ch) = TS_PACKET_SIZE * 10"
    and len: "pmt_length (pmt_of (drop TS_HEADER_LEN (original_pmt ch))) \<le> 1616"
    and b: "12 \<le> length (pmt_body ch)" "length (pmt_body ch) \<le> 179"
  shows "packet_streams (pmt_generated ch) = pmt_chosen (channel_pids ch) 17 (packet_streams (original_pmt ch))"
proof -
  define ys where "ys = pmt_chosen (channel_pids ch) 17 (packet_streams (original_pmt ch))"
  define crc where "crc = crc32_bytes64 (crc32_run64 0xffffffff (sealed_body (pmt_body ch)))"
  obtain h where h: "length h = 12" "sealed_body (pmt_body ch) = h @ concat ys"
    using pmt_body_sealed [of ch] unfolding ys_def by blast
  have ok: "section_ok (sealed (pmt_body ch))" using b by (intro sealed_section_ok) (simp_all add: MAX_TS_SIZE_def)
  have lb: "length (pmt_body ch) = 12 + length (concat ys)"
    using arg_cong [OF h(2), of length] h(1) by simp
  have g: "pmt_generated ch = (rewritten_header (original_pmt ch) @ h) @ concat ys @ crc @ replicate (179 - length (pmt_body ch)) 0xff"
    unfolding pmt_generated_def sealed_def h(2) crc_def by simp
  have "pmt_of (drop TS_HEADER_LEN (pmt_generated ch)) = pmt_of (sealed (pmt_body ch))"
    using b by (simp add: pmt_generated_def ts_sizes pmt_of_append)
  then have l: "pmt_length (pmt_of (drop TS_HEADER_LEN (pmt_generated ch))) = 16 + length (concat ys)"
    using pmt_length_ok [OF ok] lb by simp
  have "\<forall>y \<in> set ys. stream_ok y"
    unfolding ys_def packet_streams_def using len by (intro pmt_chosen_ok [OF assms(1)]) simp
  from pmt_streams_parse [OF this, of "rewritten_header (original_pmt ch) @ h" 0] h(1)
  have "packet_streams (pmt_generated ch) = ys" unfolding packet_streams_def l unfolding g by simp
  then show ?thesis by (simp add: ys_def)
qed


section \<open>Sending\<close>

lemma pmt_send_packet_ok:
  assumes "length (generated_pmt ch) = TS_PACKET_SIZE" "length q = TS_PACKET_SIZE"
  shows "\<exists>b. pmt_send_packet q ch = Some (b, ch\<lparr>pmt_continuity_counter := (pmt_continuity_counter ch + 1) mod 16\<rparr>) \<and>
     length b = TS_PACKET_SIZE \<and> drop 4 b = drop 4 (generated_pmt ch) \<and>
     ts_header_of b = (ts_header_of (generated_pmt ch))\<lparr>ts_header_t.continuity_counter :=
       take_bit 4 (word_of_nat ((pmt_continuity_counter ch + 1) mod 16))\<rparr>"
proof -
  obtain b where b: "set_continuity_counter (generated_pmt ch) ((pmt_continuity_counter ch + 1) mod 16) = Some b"
     "length b = TS_PACKET_SIZE" "drop 4 b = drop 4 (generated_pmt ch)"
     "ts_header_of b = (ts_header_of (generated_pmt ch))\<lparr>ts_header_t.continuity_counter :=
       take_bit 4 (word_of_nat ((pmt_continuity_counter ch + 1) mod 16))\<rparr>"
    using set_continuity_counter_spec [of "generated_pmt ch" "(pmt_continuity_counter ch + 1) mod 16"] assms(1)
    by (auto simp: ts_sizes)
  have "mem_read (generated_pmt ch) 0 TS_PACKET_SIZE = Some (generated_pmt ch)"
    using assms(1) by (simp add: mem_read_def)
  moreover have "mem_write q 0 (generated_pmt ch) = Some (generated_pmt ch)"
    using assms by (simp add: mem_write_def)
  ultimately show ?thesis using b by (simp add: pmt_send_packet_def Let_def)
qed

text \<open>The packet on its own holds a PMT.\<close>

definition pmt_packet_ok :: "u8 list \<Rightarrow> bool" where
  "pmt_packet_ok b \<longleftrightarrow> TS_PACKET_SIZE \<le> length b \<and> pmt_t.table_id (pmt_of (drop TS_HEADER_LEN b)) = 2 \<and>
     pmt_length (pmt_of (drop TS_HEADER_LEN b)) \<le> TS_PACKET_SIZE"

definition pmt_collected :: "mumudvb_channel_t \<Rightarrow> u8 list \<Rightarrow> mumudvb_channel_t" where
  "pmt_collected ch b = ch\<lparr>original_pmt_ready := True, pmt_part_num := 0, pmt_part_count := 0,
     original_pmt := take TS_PACKET_SIZE b @ drop TS_PACKET_SIZE (original_pmt ch)\<rparr>"

definition pmt_packet_version :: "u8 list \<Rightarrow> int" where
  "pmt_packet_version b = uint (pmt_t.version_number (pmt_of (drop TS_HEADER_LEN b)))"

lemma pmt_parts_single: "0 < n \<Longrightarrow> n \<le> TS_PACKET_SIZE \<Longrightarrow> pmt_parts n = 0"
  by (cases "n = TS_PACKET_SIZE") (simp_all add: pmt_parts_def ts_sizes)

lemma pmt_of_take: "12 \<le> n \<Longrightarrow> pmt_of (take n d) = pmt_of d"
  by (simp add: pmt_of_def)

lemma pmt_need_update_new:
  assumes "pmt_packet_ok b" "length (original_pmt ch) = TS_PACKET_SIZE * 10"
    and "\<not> (original_pmt_ready ch \<and> pmt_packet_version b = generated_pmt_version ch)"
  shows "Rewrite_Pmt.pmt_need_update b ch = Some (1, pmt_collected ch b)"
proof -
  have at: "struct_at PMT_LEN pmt_of b TS_HEADER_LEN = Some (pmt_of (drop TS_HEADER_LEN b))"
    using assms(1) by (simp add: struct_at_def pmt_packet_ok_def ts_sizes PMT_LEN_def pmt_of_take)
  have "0 < pmt_length (pmt_of (drop TS_HEADER_LEN b))" by (simp add: pmt_length_def)
  then have "pmt_parts (pmt_length (pmt_of (drop TS_HEADER_LEN b))) = 0"
    using assms(1) by (intro pmt_parts_single) (simp_all add: pmt_packet_ok_def)
  moreover have "mem_read b 0 TS_PACKET_SIZE = Some (take TS_PACKET_SIZE b)"
    using assms(1) by (simp add: mem_read_def pmt_packet_ok_def)
  moreover have "mem_write (original_pmt ch) 0 (take TS_PACKET_SIZE b) =
      Some (take TS_PACKET_SIZE b @ drop TS_PACKET_SIZE (original_pmt ch))"
    using assms(1,2) by (auto simp: mem_write_def pmt_packet_ok_def ts_sizes)
  ultimately show ?thesis using assms(1,3)
    by (auto simp: Rewrite_Pmt.pmt_need_update_def at Let_def pmt_collected_def pmt_packet_version_def pmt_packet_ok_def)
qed

text \<open>
  Order of generation and sending. When a packet with a new version of the PMT arrives, the code
  generates the new PMT but returns 1 with the packet buffer untouched: what the buffer still holds
  from an earlier packet, of whichever channel, is sent in place of this one. From the next packet
  of the same version on the buffer gets the generated PMT with a fresh continuity counter.
\<close>

theorem pmt_rewrite_stale_packet:
  assumes ch: "channel_wf ch" "distinct (channel_pids ch)" "channel_ready ch \<ge> READY"
    and b: "pmt_packet_ok b" "\<not> (original_pmt_ready ch \<and> pmt_packet_version b = generated_pmt_version ch)"
    and b2: "pmt_packet_ok b2" "pmt_packet_version b2 = pmt_packet_version b"
    and q2: "length q2 = TS_PACKET_SIZE"
  shows "\<exists>ch1 out ch2. pmt_rewrite_new_channel_packet b q ch = Some (1, q, ch1) \<and>
     generated_pmt ch1 = pmt_generated (pmt_collected ch b) \<and>
     pmt_rewrite_new_channel_packet b2 q2 ch1 = Some (1, out, ch2) \<and>
     length out = TS_PACKET_SIZE \<and> drop 4 out = drop 4 (pmt_generated (pmt_collected ch b)) \<and>
     pmt_continuity_counter ch2 = (pmt_continuity_counter ch + 1) mod 16"
proof -
  define c where "c = pmt_collected ch b"
  have lo: "length (original_pmt ch) = TS_PACKET_SIZE * 10" using ch by (simp add: channel_wf_def)
  have c: "channel_wf c" "distinct (channel_pids c)" "channel_ready c = channel_ready ch"
     "pmt_continuity_counter c = pmt_continuity_counter ch" "original_pmt_ready c"
    using ch b(1) by (simp_all add: c_def pmt_collected_def channel_wf_def channel_pids_def pmt_packet_ok_def ts_sizes min_def)
  have pm: "pmt_of (drop TS_HEADER_LEN (original_pmt c)) = pmt_of (drop TS_HEADER_LEN b)"
  proof -
    have "drop TS_HEADER_LEN (original_pmt c) =
        take 183 (drop TS_HEADER_LEN b) @ drop TS_PACKET_SIZE (original_pmt ch)"
      using b(1) by (simp add: c_def pmt_collected_def pmt_packet_ok_def ts_sizes min_def drop_take)
    moreover have "12 \<le> length (take 183 (drop TS_HEADER_LEN b))" using b(1) by (auto simp: pmt_packet_ok_def ts_sizes)
    ultimately show ?thesis using pmt_of_append pmt_of_take [of 183 "drop TS_HEADER_LEN b"] by simp
  qed
  have tid: "pmt_t.table_id (pmt_of (drop TS_HEADER_LEN (original_pmt c))) = 2"
    and len: "pmt_length (pmt_of (drop TS_HEADER_LEN (original_pmt c))) \<le> 1616"
    unfolding pm using b(1) by (simp_all add: pmt_packet_ok_def TS_PACKET_SIZE_def)
  obtain full where r: "pmt_channel_rewrite c = Some (True, c\<lparr>original_pmt := full,
       generated_pmt_version := pmt_packet_version b, generated_pmt := pmt_generated c\<rparr>)"
     "length (pmt_body c) \<le> 179" "12 \<le> length (pmt_body c)"
    using pmt_channel_rewrite_result [OF c(1,2) tid len] unfolding pm pmt_packet_version_def by blast
  define ch1 where "ch1 = c\<lparr>original_pmt := full, generated_pmt_version := pmt_packet_version b, generated_pmt := pmt_generated c\<rparr>"
  have 1: "pmt_rewrite_new_channel_packet b q ch = Some (1, q, ch1)"
    using ch(3) pmt_need_update_new [OF b(1) lo b(2)] r(1)
    by (simp add: pmt_rewrite_new_channel_packet_def c_def [symmetric] ch1_def)
  have lg: "length (generated_pmt ch1) = TS_PACKET_SIZE" using r(2,3) by (simp add: ch1_def pmt_generated_def ts_sizes)
  have at: "struct_at PMT_LEN pmt_of b2 TS_HEADER_LEN = Some (pmt_of (drop TS_HEADER_LEN b2))"
    using b2(1) by (simp add: struct_at_def pmt_packet_ok_def ts_sizes PMT_LEN_def pmt_of_take)
  have nu: "Rewrite_Pmt.pmt_need_update b2 ch1 = Some (0, ch1)"
    using b2 c(5) by (simp add: Rewrite_Pmt.pmt_need_update_def at ch1_def pmt_packet_ok_def pmt_packet_version_def)
  obtain out where o: "pmt_send_packet q2 ch1 = Some (out, ch1\<lparr>pmt_continuity_counter := (pmt_continuity_counter ch1 + 1) mod 16\<rparr>)"
     "length out = TS_PACKET_SIZE" "drop 4 out = drop 4 (generated_pmt ch1)"
    using pmt_send_packet_ok [OF lg q2] by blast
  have "pmt_rewrite_new_channel_packet b2 q2 ch1 =
      Some (1, out, ch1\<lparr>pmt_continuity_counter := (pmt_continuity_counter ch1 + 1) mod 16\<rparr>)"
    using c(3) ch(3) nu o(1) by (simp add: pmt_rewrite_new_channel_packet_def ch1_def)
  then show ?thesis using 1 o(2,3) c(4) unfolding c_def [symmetric]
    by (intro exI [of _ ch1] exI [of _ out]
        exI [of _ "ch1\<lparr>pmt_continuity_counter := (pmt_continuity_counter ch1 + 1) mod 16\<rparr>"]) (simp add: ch1_def)
qed

section \<open>Witnesses\<close>

text \<open>A PMT of two streams, and a channel that carries the first.\<close>

definition sample_pmt :: "u8 \<Rightarrow> u8 list" where
  "sample_pmt vn = [0x47, 0x40, 0x20, 0x10, 0,
     0x02, 0xb0, 0x17, 0, 1, 0xc1 OR push_bit 1 vn, 0, 0, 0xe0, 0x41, 0xf0, 0,
     0x1b, 0xe0, 0x41, 0xf0, 0, 0x04, 0xe0, 0x42, 0xf0, 0, 1, 2, 3, 4] @ replicate 157 0xff"

definition sample_pmt_channel :: mumudvb_channel_t where
  "sample_pmt_channel = zero_channel\<lparr>channel_ready := READY, original_pmt := sample_pmt 1 @ replicate 1692 0,
     pid_i := zero_pid_i\<lparr>pids := [0x20, 0x41] @ replicate 126 0, num_pids := 2, pmt_pid := 0x20\<rparr>\<rparr>"

lemma sample_pmt_channel_ok: "channel_wf sample_pmt_channel" "distinct (channel_pids sample_pmt_channel)"
  "channel_ready sample_pmt_channel = READY"
  using zero_channel_wf
  by (simp_all add: sample_pmt_channel_def channel_wf_def channel_pids_def sample_pmt_def pid_i_wf_def zero_pid_i_def mumu_sizes)


theorem pmt_rewrite_stale_packet_witness:
  "\<exists>ch1 out ch2. pmt_rewrite_new_channel_packet (sample_pmt 2) sample_packet sample_pmt_channel = Some (1, sample_packet, ch1) \<and>
     pmt_rewrite_new_channel_packet (sample_pmt 2) sample_packet ch1 = Some (1, out, ch2) \<and>
     drop 4 out = drop 4 (generated_pmt ch1)"
proof -
  have b: "pmt_packet_ok (sample_pmt 2)"
    by (simp add: pmt_packet_ok_def sample_pmt_def pmt_of_def pmt_length_def ts_sizes bf_get_def HILO_def)
  have n: "\<not> (original_pmt_ready sample_pmt_channel \<and> pmt_packet_version (sample_pmt 2) = generated_pmt_version sample_pmt_channel)"
    by (simp add: sample_pmt_channel_def zero_channel_def)
  have r: "channel_ready sample_pmt_channel \<ge> READY" by (simp add: sample_pmt_channel_ok)
  have q: "length sample_packet = TS_PACKET_SIZE" by (simp add: sample_packet_def ts_sizes)
  show ?thesis
    using pmt_rewrite_stale_packet [OF sample_pmt_channel_ok(1,2) r b n b refl q, of sample_packet] by metis
qed

end
