(* ===== verification/Card_Filters.thy ===== *)
theory Card_Filters
  imports Channels Rewrite_Pmt
begin

text \<open>
  The PID filters of the card: \<^verbatim>\<open>update_chan_filters\<close> of \<^verbatim>\<open>src/src/mumudvb_channels.c\<close>, which compares
  the PIDs that the channels need with those asked for, and \<^verbatim>\<open>create_card_fd\<close> and \<^verbatim>\<open>set_filters\<close> of
  \<^verbatim>\<open>src/src/dvb.c\<close>, which open a demuxer for each PID and set its filter. The results of \<^verbatim>\<open>open\<close> are
  arguments; the descriptors closed and the filters set (\<^verbatim>\<open>set_ts_filt\<close>, an \<^verbatim>\<open>ioctl\<close>) are recorded in
  order. Path names are left out.

  The lemmas show which PIDs are filtered after an update, that every PID an almost ready channel needs is, and that
  the code that closes the filters no longer needed never runs after the first update.
\<close>

section \<open>Descriptors\<close>

definition NUM_PIDS :: nat where "NUM_PIDS = 8193"

definition PSIP_PID :: nat where "PSIP_PID = 8187"

record fds_t =
  fd_dvr :: int
  fd_demuxer :: "int list"
  fd_closed :: "int list"
  filters :: "(int \<times> nat) list"

text \<open>The loop that opens the demuxers stops at the first failure. \<open>n\<close> PIDs are left from \<open>k\<close>.\<close>

primrec open_demuxers :: "(nat \<Rightarrow> int) \<Rightarrow> nat \<Rightarrow> nat \<Rightarrow> pid_ask_t list \<Rightarrow> int list \<Rightarrow> (bool \<times> int list) option" where
  "open_demuxers op 0 k asked fd = Some (True, fd)"
| "open_demuxers op (Suc n) k asked fd = do {
     a \<leftarrow> rd asked k;
     f \<leftarrow> rd fd k;
     if a \<noteq> PID_NOT_ASKED \<and> f = 0 then do {
       fd \<leftarrow> wr fd k (op k);
       if op k < 0 then Some (False, fd) else open_demuxers op n (k + 1) asked fd}
     else open_demuxers op n (k + 1) asked fd}"

definition create_card_fd :: "(nat \<Rightarrow> int) \<Rightarrow> int \<Rightarrow> pid_ask_t list \<Rightarrow> fds_t \<Rightarrow> (int \<times> fds_t) option" where
  "create_card_fd op op_dvr asked fds = do {
     (ok, fd) \<leftarrow> open_demuxers op NUM_PIDS 0 asked (fd_demuxer fds);
     let fds = fds\<lparr>fd_demuxer := fd\<rparr>;
     if \<not> ok then Some (-1, fds)
     else if fd_dvr fds = 0 then Some (if op_dvr < 0 then -1 else 0, fds\<lparr>fd_dvr := op_dvr\<rparr>)
     else Some (0, fds)}"

primrec set_filters_loop :: "nat \<Rightarrow> nat \<Rightarrow> pid_ask_t list \<Rightarrow> fds_t \<Rightarrow> (pid_ask_t list \<times> fds_t) option" where
  "set_filters_loop 0 k asked fds = Some (asked, fds)"
| "set_filters_loop (Suc n) k asked fds = do {
     a \<leftarrow> rd asked k;
     if a = PID_ASKED then do {
       f \<leftarrow> rd (fd_demuxer fds) k;
       asked \<leftarrow> wr asked k PID_FILTERED;
       set_filters_loop n (k + 1) asked (fds\<lparr>filters := filters fds @ [(f, k)]\<rparr>)}
     else set_filters_loop n (k + 1) asked fds}"

definition set_filters :: "pid_ask_t list \<Rightarrow> fds_t \<Rightarrow> (pid_ask_t list \<times> fds_t) option" where
  "set_filters asked fds = set_filters_loop NUM_PIDS 0 asked fds"

section \<open>Comparing the PIDs\<close>

text \<open>The local array \<^verbatim>\<open>asked_pid\<close>, true for \<^verbatim>\<open>PID_ASKED\<close>: first the PIDs of one channel, \<open>n\<close> left from \<open>k\<close>.\<close>

primrec mark_pids :: "nat \<Rightarrow> nat \<Rightarrow> nat list \<Rightarrow> bool list \<Rightarrow> bool list option" where
  "mark_pids 0 k ps wanted = Some wanted"
| "mark_pids (Suc n) k ps wanted = do {
     p \<leftarrow> rd ps k;
     wanted \<leftarrow> wr wanted p True;
     mark_pids n (k + 1) ps wanted}"

primrec mark_channels :: "nat \<Rightarrow> nat \<Rightarrow> mumudvb_channel_t list \<Rightarrow> bool list \<Rightarrow> bool list option" where
  "mark_channels 0 i cs wanted = Some wanted"
| "mark_channels (Suc n) i cs wanted = do {
     ch \<leftarrow> rd cs i;
     wanted \<leftarrow> (if channel_ready ch \<ge> ALMOST_READY then mark_pids (num_pids (pid_i ch)) 0 (pids (pid_i ch)) wanted
               else Some wanted);
     mark_channels n (i + 1) cs wanted}"

definition wanted_pids :: "mumu_chan_p_t \<Rightarrow> bool list option" where
  "wanted_pids cp = do {
     wanted \<leftarrow> mark_channels (number_of_channels cp) 0 (channels cp) (replicate NUM_PIDS False);
     if t2mi_pid cp > 0 then wr wanted (t2mi_pid cp) True else Some wanted}"

text \<open>The comparison with the PIDs asked for: a PID that is asked for but no longer wanted is closed.\<close>

primrec compare_pids :: "nat \<Rightarrow> nat \<Rightarrow> bool list \<Rightarrow> pid_ask_t list \<Rightarrow> fds_t \<Rightarrow> (pid_ask_t list \<times> fds_t) option" where
  "compare_pids 0 k wanted asked fds = Some (asked, fds)"
| "compare_pids (Suc n) k wanted asked fds = do {
     a \<leftarrow> rd asked k;
     w \<leftarrow> rd wanted k;
     if a = PID_ASKED \<and> \<not> w \<and> k \<noteq> PSIP_PID then do {
       f \<leftarrow> rd (fd_demuxer fds) k;
       fd \<leftarrow> wr (fd_demuxer fds) k 0;
       asked \<leftarrow> wr asked k PID_NOT_ASKED;
       compare_pids n (k + 1) wanted asked (fds\<lparr>fd_demuxer := fd, fd_closed := fd_closed fds @ [f]\<rparr>)}
     else if w \<and> a \<noteq> PID_ASKED \<and> a \<noteq> PID_FILTERED then do {
       asked \<leftarrow> wr asked k PID_ASKED;
       compare_pids n (k + 1) wanted asked fds}
     else compare_pids n (k + 1) wanted asked fds}"

definition update_chan_filters ::
  "(nat \<Rightarrow> int) \<Rightarrow> int \<Rightarrow> mumu_chan_p_t \<Rightarrow> fds_t \<Rightarrow> (mumu_chan_p_t \<times> fds_t) option" where
  "update_chan_filters op op_dvr cp fds = do {
     wanted \<leftarrow> wanted_pids cp;
     (asked, fds) \<leftarrow> compare_pids (NUM_PIDS - MAX_MANDATORY_PID_NUMBER) MAX_MANDATORY_PID_NUMBER wanted (asked_pid cp) fds;
     (_, fds) \<leftarrow> create_card_fd op op_dvr asked fds;
     (asked, fds) \<leftarrow> set_filters asked fds;
     Some (cp\<lparr>asked_pid := asked\<rparr>, fds)}"

section \<open>What the loops do\<close>

lemma open_demuxers_ok:
  "k + n \<le> length asked \<Longrightarrow> k + n \<le> length fd \<Longrightarrow>
   \<exists>ok fd'. open_demuxers op n k asked fd = Some (ok, fd') \<and> length fd' = length fd \<and>
     (ok \<longrightarrow> (\<forall>i < length fd. fd' ! i =
        (if k \<le> i \<and> i < k + n \<and> asked ! i \<noteq> PID_NOT_ASKED \<and> fd ! i = 0 then op i else fd ! i)))"
proof (induction n arbitrary: k fd)
  case (Suc n)
  define fd2 where "fd2 = (if asked ! k \<noteq> PID_NOT_ASKED \<and> fd ! k = 0 then fd[k := op k] else fd)"
  have step: "open_demuxers op (Suc n) k asked fd =
      (if asked ! k \<noteq> PID_NOT_ASKED \<and> fd ! k = 0 \<and> op k < 0 then Some (False, fd2) else open_demuxers op n (k + 1) asked fd2)"
    using Suc.prems by (simp add: mem_simps fd2_def)
  have l: "length fd2 = length fd" by (simp add: fd2_def)
  from Suc.IH [of "k + 1" fd2] Suc.prems l obtain ok fd' where
    1: "open_demuxers op n (k + 1) asked fd2 = Some (ok, fd')" "length fd' = length fd"
      "ok \<longrightarrow> (\<forall>i < length fd. fd' ! i =
        (if k + 1 \<le> i \<and> i < k + 1 + n \<and> asked ! i \<noteq> PID_NOT_ASKED \<and> fd2 ! i = 0 then op i else fd2 ! i))" by auto
  have "fd' ! i = (if k \<le> i \<and> i < k + Suc n \<and> asked ! i \<noteq> PID_NOT_ASKED \<and> fd ! i = 0 then op i else fd ! i)"
    if "ok" "i < length fd" for i
    using 1(3) that by (cases "i = k") (auto simp: fd2_def nth_list_update)
  then show ?case using step 1 l by auto
qed auto

lemma set_filters_loop_ok:
  "k + n \<le> length asked \<Longrightarrow> k + n \<le> length (fd_demuxer fds) \<Longrightarrow>
   \<exists>asked'. set_filters_loop n k asked fds = Some (asked', fds\<lparr>filters := filters fds @
       map (\<lambda>i. (fd_demuxer fds ! i, i)) (filter (\<lambda>i. asked ! i = PID_ASKED) [k..<k + n])\<rparr>) \<and>
     length asked' = length asked \<and>
     (\<forall>i < length asked. asked' ! i = (if k \<le> i \<and> i < k + n \<and> asked ! i = PID_ASKED then PID_FILTERED else asked ! i))"
proof (induction n arbitrary: k asked fds)
  case (Suc n)
  define a2 where "a2 = (if asked ! k = PID_ASKED then asked[k := PID_FILTERED] else asked)"
  define f2 where "f2 = (if asked ! k = PID_ASKED then fds\<lparr>filters := filters fds @ [(fd_demuxer fds ! k, k)]\<rparr> else fds)"
  have step: "set_filters_loop (Suc n) k asked fds = set_filters_loop n (k + 1) a2 f2"
    using Suc.prems by (simp add: mem_simps a2_def f2_def)
  have l: "length a2 = length asked" "fd_demuxer f2 = fd_demuxer fds" by (simp_all add: a2_def f2_def)
  from Suc.IH [of "k + 1" a2 f2] Suc.prems l obtain asked' where
    1: "set_filters_loop n (k + 1) a2 f2 = Some (asked', f2\<lparr>filters := filters f2 @
         map (\<lambda>i. (fd_demuxer fds ! i, i)) (filter (\<lambda>i. a2 ! i = PID_ASKED) [k + 1..<k + 1 + n])\<rparr>)"
      "length asked' = length asked"
      "\<forall>i < length asked. asked' ! i = (if k + 1 \<le> i \<and> i < k + 1 + n \<and> a2 ! i = PID_ASKED then PID_FILTERED else a2 ! i)"
    by auto
  have "filter (\<lambda>i. a2 ! i = PID_ASKED) [k + 1..<k + 1 + n] = filter (\<lambda>i. asked ! i = PID_ASKED) [k + 1..<k + 1 + n]"
    by (rule filter_cong) (auto simp: a2_def nth_list_update)
  moreover have "[k..<k + Suc n] = k # [k + 1..<k + 1 + n]" by (simp add: upt_conv_Cons)
  ultimately have "f2\<lparr>filters := filters f2 @ map (\<lambda>i. (fd_demuxer fds ! i, i)) (filter (\<lambda>i. a2 ! i = PID_ASKED) [k + 1..<k + 1 + n])\<rparr> =
     fds\<lparr>filters := filters fds @ map (\<lambda>i. (fd_demuxer fds ! i, i)) (filter (\<lambda>i. asked ! i = PID_ASKED) [k..<k + Suc n])\<rparr>"
    by (simp add: f2_def)
  moreover have "asked' ! i = (if k \<le> i \<and> i < k + Suc n \<and> asked ! i = PID_ASKED then PID_FILTERED else asked ! i)"
    if "i < length asked" for i
    using 1(3) that by (cases "i = k") (auto simp: a2_def nth_list_update)
  ultimately show ?case using step 1 by auto
qed simp

lemma mark_pids_ok:
  "k + n \<le> length ps \<Longrightarrow> \<forall>p \<in> set (take n (drop k ps)). p < length w \<Longrightarrow>
   \<exists>w'. mark_pids n k ps w = Some w' \<and> length w' = length w \<and>
     (\<forall>p < length w. w' ! p = (w ! p \<or> p \<in> set (take n (drop k ps))))"
proof (induction n arbitrary: k w)
  case (Suc n)
  have tk: "take (Suc n) (drop k ps) = ps ! k # take n (drop (k + 1) ps)"
    using Suc.prems(1) by (simp add: take_Suc_conv_app_nth Cons_nth_drop_Suc [symmetric])
  from Suc.IH [of "k + 1" "w[ps ! k := True]"] Suc.prems tk obtain w' where
    1: "mark_pids n (k + 1) ps (w[ps ! k := True]) = Some w'" "length w' = length w"
      "\<forall>p < length w. w' ! p = (w[ps ! k := True] ! p \<or> p \<in> set (take n (drop (k + 1) ps)))" by auto
  moreover have "mark_pids (Suc n) k ps w = mark_pids n (k + 1) ps (w[ps ! k := True])"
    using Suc.prems tk by (simp add: mem_simps)
  ultimately show ?case using Suc.prems tk by (auto simp: nth_list_update)
qed simp

text \<open>The PIDs that the channels need.\<close>

definition chan_wants :: "mumudvb_channel_t \<Rightarrow> nat \<Rightarrow> bool" where
  "chan_wants ch p \<longleftrightarrow> channel_ready ch \<ge> ALMOST_READY \<and> p \<in> set (channel_pids ch)"

definition pid_wanted :: "mumu_chan_p_t \<Rightarrow> nat \<Rightarrow> bool" where
  "pid_wanted cp p \<longleftrightarrow> (\<exists>ch \<in> set (take (number_of_channels cp) (channels cp)). chan_wants ch p) \<or> t2mi_pid cp = p \<and> 0 < p"

lemma mark_channels_ok:
  "i + n \<le> length cs \<Longrightarrow> \<forall>ch \<in> set cs. pid_i_wf (pid_i ch) \<and> (\<forall>p. chan_wants ch p \<longrightarrow> p < length w) \<Longrightarrow>
   \<exists>w'. mark_channels n i cs w = Some w' \<and> length w' = length w \<and>
     (\<forall>p < length w. w' ! p = (w ! p \<or> (\<exists>ch \<in> set (take n (drop i cs)). chan_wants ch p)))"
proof (induction n arbitrary: i w)
  case (Suc n)
  define ch where "ch = cs ! i"
  have ch: "ch \<in> set cs" "rd cs i = Some ch" using Suc.prems(1) by (auto simp: ch_def mem_simps)
  have tk: "take (Suc n) (drop i cs) = ch # take n (drop (i + 1) cs)"
    using Suc.prems(1) by (simp add: ch_def take_Suc_conv_app_nth Cons_nth_drop_Suc [symmetric])
  have "\<exists>w1. (if channel_ready ch \<ge> ALMOST_READY then mark_pids (num_pids (pid_i ch)) 0 (pids (pid_i ch)) w else Some w) = Some w1 \<and>
      length w1 = length w \<and> (\<forall>p < length w. w1 ! p = (w ! p \<or> chan_wants ch p))"
    using mark_pids_ok [of 0 "num_pids (pid_i ch)" "pids (pid_i ch)" w] Suc.prems(2) ch(1)
    by (auto simp: chan_wants_def channel_pids_def pid_i_wf_def)
  then obtain w1 where w1: "(if channel_ready ch \<ge> ALMOST_READY then mark_pids (num_pids (pid_i ch)) 0 (pids (pid_i ch)) w else Some w) = Some w1"
      "length w1 = length w" "\<forall>p < length w. w1 ! p = (w ! p \<or> chan_wants ch p)" by blast
  have "\<forall>ch \<in> set cs. pid_i_wf (pid_i ch) \<and> (\<forall>p. chan_wants ch p \<longrightarrow> p < length w1)" using Suc.prems(2) w1(2) by simp
  from Suc.IH [OF _ this, of "i + 1"] Suc.prems(1) obtain w' where
    "mark_channels n (i + 1) cs w1 = Some w'" "length w' = length w1"
      "\<forall>p < length w1. w' ! p = (w1 ! p \<or> (\<exists>ch \<in> set (take n (drop (i + 1) cs)). chan_wants ch p))" by auto
  moreover have "mark_channels (Suc n) i cs w = mark_channels n (i + 1) cs w1"
    using ch(2) w1(1) by simp
  ultimately show ?case using w1 tk by auto
qed simp

lemma compare_pids_ok:
  "k + n \<le> length asked \<Longrightarrow> k + n \<le> length w \<Longrightarrow> k + n \<le> length (fd_demuxer fds) \<Longrightarrow>
   \<exists>asked' fd' cl. compare_pids n k w asked fds = Some (asked', fds\<lparr>fd_demuxer := fd', fd_closed := cl\<rparr>) \<and>
     length asked' = length asked \<and> length fd' = length (fd_demuxer fds) \<and>
     (\<forall>i < length asked. asked' ! i = (if k \<le> i \<and> i < k + n then
          if asked ! i = PID_ASKED \<and> \<not> w ! i \<and> i \<noteq> PSIP_PID then PID_NOT_ASKED
          else if w ! i \<and> asked ! i = PID_NOT_ASKED then PID_ASKED else asked ! i
        else asked ! i))"
proof (induction n arbitrary: k asked fds)
  case 0
  then show ?case
    by (intro exI [of _ asked] exI [of _ "fd_demuxer fds"] exI [of _ "fd_closed fds"]) simp
next
  case (Suc n)
  define close where "close \<longleftrightarrow> asked ! k = PID_ASKED \<and> \<not> w ! k \<and> k \<noteq> PSIP_PID"
  define a2 where "a2 = (if close then asked[k := PID_NOT_ASKED]
     else if w ! k \<and> asked ! k = PID_NOT_ASKED then asked[k := PID_ASKED] else asked)"
  define f2 where "f2 = (if close then fds\<lparr>fd_demuxer := (fd_demuxer fds)[k := 0], fd_closed := fd_closed fds @ [fd_demuxer fds ! k]\<rparr> else fds)"
  have "asked ! k \<noteq> PID_ASKED \<and> asked ! k \<noteq> PID_FILTERED \<longleftrightarrow> asked ! k = PID_NOT_ASKED" by (cases "asked ! k") simp_all
  then have step: "compare_pids (Suc n) k w asked fds = compare_pids n (k + 1) w a2 f2"
    using Suc.prems by (simp add: mem_simps a2_def f2_def close_def)
  have l: "length a2 = length asked" "length (fd_demuxer f2) = length (fd_demuxer fds)" by (simp_all add: a2_def f2_def)
  from Suc.IH [of "k + 1" a2 f2] Suc.prems l obtain asked' fd' cl where
    1: "compare_pids n (k + 1) w a2 f2 = Some (asked', f2\<lparr>fd_demuxer := fd', fd_closed := cl\<rparr>)"
      "length asked' = length asked" "length fd' = length (fd_demuxer fds)"
      "\<forall>i < length asked. asked' ! i = (if k + 1 \<le> i \<and> i < k + 1 + n then
          if a2 ! i = PID_ASKED \<and> \<not> w ! i \<and> i \<noteq> PSIP_PID then PID_NOT_ASKED
          else if w ! i \<and> a2 ! i = PID_NOT_ASKED then PID_ASKED else a2 ! i
        else a2 ! i)" by auto
  have "f2\<lparr>fd_demuxer := fd', fd_closed := cl\<rparr> = fds\<lparr>fd_demuxer := fd', fd_closed := cl\<rparr>" by (simp add: f2_def)
  moreover have "asked' ! i = (if k \<le> i \<and> i < k + Suc n then
          if asked ! i = PID_ASKED \<and> \<not> w ! i \<and> i \<noteq> PSIP_PID then PID_NOT_ASKED
          else if w ! i \<and> asked ! i = PID_NOT_ASKED then PID_ASKED else asked ! i
        else asked ! i)" if "i < length asked" for i
    using 1(4) that by (cases "i = k") (auto simp: a2_def close_def nth_list_update)
  ultimately show ?case using step 1 by auto
qed

text \<open>When no PID is in the state \<open>PID_ASKED\<close>, the comparison closes nothing.\<close>

lemma compare_pids_closes_nothing:
  "compare_pids n k w asked fds = Some (asked', fds') \<Longrightarrow> \<forall>i < length asked. k \<le> i \<longrightarrow> asked ! i \<noteq> PID_ASKED \<Longrightarrow>
   fds' = fds \<and> length asked' = length asked \<and> (\<forall>i < length asked. asked ! i = PID_FILTERED \<longrightarrow> asked' ! i = PID_FILTERED)"
proof (induction n arbitrary: k asked)
  case (Suc n)
  have k: "k < length asked" using Suc.prems(1) by (auto simp: rd_Some_iff split: Option.bind_splits)
  define a2 where "a2 = (if w ! k \<and> asked ! k = PID_NOT_ASKED then asked[k := PID_ASKED] else asked)"
  have "asked ! k = PID_NOT_ASKED \<or> asked ! k = PID_FILTERED" using Suc.prems(2) k by (cases "asked ! k") auto
  then have "compare_pids n (k + 1) w a2 fds = Some (asked', fds')"
    using Suc.prems(1) k by (auto simp: a2_def mem_simps rd_Some_iff split: Option.bind_splits if_splits)
  moreover have "length a2 = length asked" "\<forall>i < length a2. k + 1 \<le> i \<longrightarrow> a2 ! i \<noteq> PID_ASKED"
    using Suc.prems(2) by (auto simp: a2_def nth_list_update)
  moreover have "asked ! i = PID_FILTERED \<Longrightarrow> i < length asked \<Longrightarrow> a2 ! i = PID_FILTERED" for i
    by (cases "i = k") (auto simp: a2_def)
  ultimately show ?case using Suc.IH [of "k + 1" a2] by auto
qed auto

lemma set_filters_loop_result:
  "set_filters_loop n k asked fds = Some (asked', fds') \<Longrightarrow>
   length asked' = length asked \<and> fd_closed fds' = fd_closed fds \<and>
   (\<forall>i < length asked. asked' ! i = (if k \<le> i \<and> i < k + n \<and> asked ! i = PID_ASKED then PID_FILTERED else asked ! i)) \<and>
   k + n \<le> length asked + (if n = 0 then k else 0)"
proof (induction n arbitrary: k asked fds)
  case (Suc n)
  define a2 where "a2 = (if asked ! k = PID_ASKED then asked[k := PID_FILTERED] else asked)"
  have k: "k < length asked" using Suc.prems by (auto simp: rd_Some_iff split: Option.bind_splits)
  obtain f2 where f2: "set_filters_loop n (k + 1) a2 f2 = Some (asked', fds')" "fd_closed f2 = fd_closed fds"
    using Suc.prems k by (auto simp: a2_def mem_simps rd_Some_iff split: Option.bind_splits if_splits)
  have "length a2 = length asked" by (simp add: a2_def)
  moreover have "asked' ! i = (if k \<le> i \<and> i < k + Suc n \<and> asked ! i = PID_ASKED then PID_FILTERED else asked ! i)" if "i < length asked" for i
    using Suc.IH [OF f2(1)] that by (cases "i = k") (auto simp: a2_def nth_list_update)
  ultimately show ?case using Suc.IH [OF f2(1)] f2(2) k by (auto split: if_splits)
qed auto

section \<open>An update\<close>

definition filters_wf :: "mumu_chan_p_t \<Rightarrow> fds_t \<Rightarrow> bool" where
  "filters_wf cp fds \<longleftrightarrow> length (asked_pid cp) = NUM_PIDS \<and> length (fd_demuxer fds) = NUM_PIDS \<and>
     number_of_channels cp \<le> length (channels cp) \<and> t2mi_pid cp < NUM_PIDS \<and>
     (\<forall>ch \<in> set (channels cp). pid_i_wf (pid_i ch) \<and> (\<forall>p. chan_wants ch p \<longrightarrow> p < NUM_PIDS))"

lemma wanted_pids_ok:
  assumes "filters_wf cp fds"
  shows "\<exists>w. wanted_pids cp = Some w \<and> length w = NUM_PIDS \<and> (\<forall>p < NUM_PIDS. w ! p = pid_wanted cp p)"
proof -
  obtain w where "mark_channels (number_of_channels cp) 0 (channels cp) (replicate NUM_PIDS False) = Some w"
      "length w = NUM_PIDS" "\<forall>p < NUM_PIDS. w ! p = (\<exists>ch \<in> set (take (number_of_channels cp) (channels cp)). chan_wants ch p)"
    using mark_channels_ok [of 0 "number_of_channels cp" "channels cp" "replicate NUM_PIDS False"] assms
    by (auto simp: filters_wf_def)
  then show ?thesis using assms
    by (auto simp: wanted_pids_def pid_wanted_def filters_wf_def mem_simps nth_list_update)
qed

lemma create_card_fd_runs:
  assumes "length asked = NUM_PIDS" "length (fd_demuxer fds) = NUM_PIDS"
  shows "\<exists>r fds'. create_card_fd op op_dvr asked fds = Some (r, fds') \<and> length (fd_demuxer fds') = NUM_PIDS"
  using open_demuxers_ok [of 0 NUM_PIDS asked "fd_demuxer fds" op] assms
  by (auto simp: create_card_fd_def Let_def)

lemma update_chan_filters_spec:
  assumes wf: "filters_wf cp fds"
  shows "\<exists>asked fds'. update_chan_filters op op_dvr cp fds = Some (cp\<lparr>asked_pid := asked\<rparr>, fds') \<and>
     filters_wf (cp\<lparr>asked_pid := asked\<rparr>) fds' \<and>
     (\<forall>p < NUM_PIDS. asked ! p = (if asked_pid cp ! p = PID_FILTERED \<or>
          asked_pid cp ! p = PID_ASKED \<and> (p < MAX_MANDATORY_PID_NUMBER \<or> p = PSIP_PID) \<or>
          MAX_MANDATORY_PID_NUMBER \<le> p \<and> pid_wanted cp p then PID_FILTERED else PID_NOT_ASKED)) \<and>
     (\<forall>p < NUM_PIDS. asked_pid cp ! p \<noteq> PID_FILTERED \<longrightarrow> asked ! p = PID_FILTERED \<longrightarrow>
        (fd_demuxer fds' ! p, p) \<in> set (filters fds'))"
proof -
  have m: "MAX_MANDATORY_PID_NUMBER + (NUM_PIDS - MAX_MANDATORY_PID_NUMBER) = NUM_PIDS"
    by (simp add: MAX_MANDATORY_PID_NUMBER_def NUM_PIDS_def)
  obtain w where w: "wanted_pids cp = Some w" "length w = NUM_PIDS" "\<forall>p < NUM_PIDS. w ! p = pid_wanted cp p"
    using wanted_pids_ok [OF wf] by blast
  have l: "length (asked_pid cp) = NUM_PIDS" "length (fd_demuxer fds) = NUM_PIDS" using wf by (simp_all add: filters_wf_def)
  obtain a1 fd1 cl where c: "compare_pids (NUM_PIDS - MAX_MANDATORY_PID_NUMBER) MAX_MANDATORY_PID_NUMBER w (asked_pid cp) fds =
        Some (a1, fds\<lparr>fd_demuxer := fd1, fd_closed := cl\<rparr>)"
      "length a1 = NUM_PIDS" "length fd1 = NUM_PIDS"
      "\<forall>i < NUM_PIDS. a1 ! i = (if MAX_MANDATORY_PID_NUMBER \<le> i \<and> i < NUM_PIDS then
          if asked_pid cp ! i = PID_ASKED \<and> \<not> w ! i \<and> i \<noteq> PSIP_PID then PID_NOT_ASKED
          else if w ! i \<and> asked_pid cp ! i = PID_NOT_ASKED then PID_ASKED else asked_pid cp ! i
        else asked_pid cp ! i)"
    using compare_pids_ok [of MAX_MANDATORY_PID_NUMBER "NUM_PIDS - MAX_MANDATORY_PID_NUMBER" "asked_pid cp" w fds] l w(2) m by auto
  define f1 where "f1 = fds\<lparr>fd_demuxer := fd1, fd_closed := cl\<rparr>"
  obtain r f2 where o: "create_card_fd op op_dvr a1 f1 = Some (r, f2)" "length (fd_demuxer f2) = NUM_PIDS"
    using create_card_fd_runs [of a1 f1 op op_dvr] c(2,3) by (auto simp: f1_def)
  obtain asked where s: "set_filters a1 f2 = Some (asked, f2\<lparr>filters := filters f2 @
       map (\<lambda>i. (fd_demuxer f2 ! i, i)) (filter (\<lambda>i. a1 ! i = PID_ASKED) [0..<NUM_PIDS])\<rparr>)"
      "length asked = NUM_PIDS" "\<forall>i < NUM_PIDS. asked ! i = (if a1 ! i = PID_ASKED then PID_FILTERED else a1 ! i)"
    using set_filters_loop_ok [of 0 NUM_PIDS a1 f2] c(2) o(2) by (auto simp: set_filters_def)
  define fds' where "fds' = f2\<lparr>filters := filters f2 @ map (\<lambda>i. (fd_demuxer f2 ! i, i)) (filter (\<lambda>i. a1 ! i = PID_ASKED) [0..<NUM_PIDS])\<rparr>"
  have "update_chan_filters op op_dvr cp fds = Some (cp\<lparr>asked_pid := asked\<rparr>, fds')"
    using w(1) c(1) o(1) s(1) by (simp add: update_chan_filters_def fds'_def f1_def)
  moreover have "filters_wf (cp\<lparr>asked_pid := asked\<rparr>) fds'" using wf s(2) o(2) by (simp add: filters_wf_def fds'_def)
  moreover have asked: "asked ! p = (if asked_pid cp ! p = PID_FILTERED \<or>
          asked_pid cp ! p = PID_ASKED \<and> (p < MAX_MANDATORY_PID_NUMBER \<or> p = PSIP_PID) \<or>
          MAX_MANDATORY_PID_NUMBER \<le> p \<and> pid_wanted cp p then PID_FILTERED else PID_NOT_ASKED)" if "p < NUM_PIDS" for p
    using s(3) c(4) w(3) that by (cases "asked_pid cp ! p") auto
  moreover have "(fd_demuxer fds' ! p, p) \<in> set (filters fds')"
    if "p < NUM_PIDS" "asked_pid cp ! p \<noteq> PID_FILTERED" "asked ! p = PID_FILTERED" for p
  proof -
    have "a1 ! p = PID_ASKED" using s(3) c(4) that by (auto split: if_splits)
    then show ?thesis using that(1) by (auto simp: fds'_def)
  qed
  ultimately show ?thesis by blast
qed


lemma create_card_fd_closed: "create_card_fd op op_dvr asked fds = Some (r, fds') \<Longrightarrow> fd_closed fds' = fd_closed fds"
  by (auto simp: create_card_fd_def Let_def split: Option.bind_splits if_splits)

text \<open>
  No filter is ever closed: every PID that the code asks for has become \<open>PID_FILTERED\<close> at the end of an
  update, and only \<open>PID_ASKED\<close> ones are considered for closing. So after a first update, any further one, whatever
  has become of the channels, closes no descriptor and keeps the filter of every PID that had one.
\<close>

theorem update_chan_filters_never_closes:
  assumes "update_chan_filters op1 dvr1 cp fds = Some (cp1, fds1)" "length (asked_pid cp) = NUM_PIDS"
    and "update_chan_filters op2 dvr2 (cp1\<lparr>number_of_channels := n, channels := cs\<rparr>) fds1 = Some (cp2, fds2)"
  shows "fd_closed fds2 = fd_closed fds1 \<and>
     (\<forall>p < NUM_PIDS. asked_pid cp1 ! p = PID_FILTERED \<longrightarrow> asked_pid cp2 ! p = PID_FILTERED)"
proof -
  have len: "length a' = length a" if "compare_pids m k w a f = Some (a', f')" for m k w a f a' f'
    using that
    by (induction m arbitrary: k a f) (auto simp: wr_Some_iff split: Option.bind_splits if_splits)
  obtain w1 a1 f1 r1 f1' where 1: "compare_pids (NUM_PIDS - MAX_MANDATORY_PID_NUMBER) MAX_MANDATORY_PID_NUMBER w1 (asked_pid cp) fds = Some (a1, f1)"
      "set_filters a1 f1' = Some (asked_pid cp1, fds1)"
    using assms(1) by (auto simp: update_chan_filters_def split: Option.bind_splits)
  have l1: "length a1 = NUM_PIDS" using len [OF 1(1)] assms(2) by simp
  have no: "\<forall>i < NUM_PIDS. asked_pid cp1 ! i \<noteq> PID_ASKED" and l2: "length (asked_pid cp1) = NUM_PIDS"
    using set_filters_loop_result [OF 1(2) [unfolded set_filters_def]] l1 by auto
  obtain w2 a2 f2 r2 f2' where 2: "compare_pids (NUM_PIDS - MAX_MANDATORY_PID_NUMBER) MAX_MANDATORY_PID_NUMBER w2 (asked_pid cp1) fds1 = Some (a2, f2)"
      "create_card_fd op2 dvr2 a2 f2 = Some (r2, f2')" "set_filters a2 f2' = Some (asked_pid cp2, fds2)"
    using assms(3) by (auto simp: update_chan_filters_def split: Option.bind_splits)
  have 3: "f2 = fds1" "length a2 = NUM_PIDS" "\<forall>i < NUM_PIDS. asked_pid cp1 ! i = PID_FILTERED \<longrightarrow> a2 ! i = PID_FILTERED"
    using compare_pids_closes_nothing [OF 2(1)] no l2 by auto
  show ?thesis
    using set_filters_loop_result [OF 2(3) [unfolded set_filters_def]] create_card_fd_closed [OF 2(2)] 3 by auto
qed

text \<open>
  A PID whose demuxer could not be opened is marked as filtered all the same, with the filter set on
  descriptor 0 or -1; it is not set again when a later update opens the descriptor.
\<close>

lemma open_failure_marks_filtered:
  assumes "filters_wf cp fds" "p < NUM_PIDS" "MAX_MANDATORY_PID_NUMBER \<le> p" "pid_wanted cp p"
  shows "\<exists>asked fds'. update_chan_filters (\<lambda>_. -1) dvr cp fds = Some (cp\<lparr>asked_pid := asked\<rparr>, fds') \<and> asked ! p = PID_FILTERED"
proof -
  obtain asked fds' where "update_chan_filters (\<lambda>_. -1) dvr cp fds = Some (cp\<lparr>asked_pid := asked\<rparr>, fds')"
     "\<forall>p < NUM_PIDS. asked ! p = (if asked_pid cp ! p = PID_FILTERED \<or>
          asked_pid cp ! p = PID_ASKED \<and> (p < MAX_MANDATORY_PID_NUMBER \<or> p = PSIP_PID) \<or>
          MAX_MANDATORY_PID_NUMBER \<le> p \<and> pid_wanted cp p then PID_FILTERED else PID_NOT_ASKED)"
    using update_chan_filters_spec [OF assms(1)] by blast
  then show ?thesis using assms by auto
qed

section \<open>Witnesses\<close>

definition sample_cp :: mumu_chan_p_t where
  "sample_cp = \<lparr>number_of_channels = 1, channels = [sample_chan\<lparr>pid_i := (pid_i sample_chan)\<lparr>pids := (replicate MAX_PIDS 0)[0 := 256], num_pids := 1\<rparr>\<rparr>],
     asked_pid = (replicate NUM_PIDS PID_NOT_ASKED)[0 := PID_ASKED], t2mi_pid = 0\<rparr>"

definition sample_fds :: fds_t where
  "sample_fds = \<lparr>fd_dvr = 0, fd_demuxer = replicate NUM_PIDS 0, fd_closed = [], filters = []\<rparr>"

lemma sample_filters_wf: "filters_wf sample_cp sample_fds"
  by (simp add: filters_wf_def sample_cp_def sample_fds_def sample_chan_def pid_i_wf_def zero_pid_i_def chan_wants_def
      channel_pids_def mumu_sizes NUM_PIDS_def take_Suc_conv_app_nth)

lemma sample_pid_wanted: "pid_wanted sample_cp 256"
  by (simp add: pid_wanted_def sample_cp_def chan_wants_def channel_pids_def sample_chan_def zero_pid_i_def mumu_sizes
      less_eq_chan_status_t_def take_Suc_conv_app_nth)


theorem update_chan_filters_never_closes_witness:
  "\<exists>cp1 fds1 cp2 fds2. update_chan_filters (\<lambda>_. 5) 9 sample_cp sample_fds = Some (cp1, fds1) \<and>
     update_chan_filters (\<lambda>_. 5) 9 (cp1\<lparr>number_of_channels := 0, channels := []\<rparr>) fds1 = Some (cp2, fds2) \<and>
     fd_closed fds2 = fd_closed fds1"
proof -
  obtain a1 fds1 where 1: "update_chan_filters (\<lambda>_. 5) 9 sample_cp sample_fds = Some (sample_cp\<lparr>asked_pid := a1\<rparr>, fds1)"
      "filters_wf (sample_cp\<lparr>asked_pid := a1\<rparr>) fds1"
    using update_chan_filters_spec [OF sample_filters_wf, of "\<lambda>_. 5" 9] by blast
  have "filters_wf (sample_cp\<lparr>asked_pid := a1, number_of_channels := 0, channels := []\<rparr>) fds1"
    using 1(2) by (simp add: filters_wf_def)
  from update_chan_filters_spec [OF this, of "\<lambda>_. 5" 9] obtain cp2 fds2
    where 2: "update_chan_filters (\<lambda>_. 5) 9 (sample_cp\<lparr>asked_pid := a1, number_of_channels := 0, channels := []\<rparr>) fds1 = Some (cp2, fds2)"
    by blast
  have "length (asked_pid sample_cp) = NUM_PIDS" by (simp add: sample_cp_def)
  from update_chan_filters_never_closes [OF 1(1) this] 1(1) 2 show ?thesis by (fastforce simp: mumu_chan_p_t.defs)
qed

end
