(* ===== verification/Main_Loop.thy ===== *)
theory Main_Loop
  imports Rewrite_Eit Rewrite_Sdt Card_Filters
begin

text \<open>
  The core of the main loop of \<^verbatim>\<open>src/src/mumudvb.c\<close>: what happens to one transport packet once the
  autoconfiguration has seen it. The tables are collected for the rewriters; then each channel that
  is ready decides whether it wants the packet, rewrites it, filters it and hands it to
  \<^verbatim>\<open>buffer_func\<close>. The model is that of a build without CAM support.

  A packet is the memory from its first byte on; the rewriters of the PAT and the SDT change it in
  place, and the next channel finds it changed. \<open>chan_scam\<close> are the members of the channels for
  software descrambling, with their ring buffers and the PMT kept for OSCam.
\<close>

section \<open>Which packets a channel wants\<close>

definition mandatory_pid :: "bool list" where
  "mandatory_pid = (replicate MAX_MANDATORY_PID_NUMBER False)
     [0 := True, 1 := True, 16 := True, 17 := True, 18 := True, 20 := True]"

text \<open>The loop over the PID table; \<open>n\<close> entries are left from index \<open>k\<close>.\<close>

primrec pid_listed :: "nat \<Rightarrow> nat \<Rightarrow> nat list \<Rightarrow> nat \<Rightarrow> bool option" where
  "pid_listed 0 k ps pd = Some False"
| "pid_listed (Suc n) k ps pd = do {
     q \<leftarrow> rd ps k;
     if q = pd \<or> q = 8192 then Some True else pid_listed n (k + 1) ps pd}"

definition channel_wants :: "bool \<Rightarrow> nat \<Rightarrow> mumudvb_channel_t \<Rightarrow> bool option" where
  "channel_wants atsc pd ch = do {
     mand \<leftarrow> (if pd < MAX_MANDATORY_PID_NUMBER then rd mandatory_pid pd else Some False);
     let send = (mand \<or> pd = PSIP_PID \<and> atsc);
     send \<leftarrow> (if \<not> send then pid_listed (num_pids (pid_i ch)) 0 (pids (pid_i ch)) pd else Some True);
     Some (if pd = TS_PADDING_PID then False else send)}"

text \<open>\<open>filtering\<close>: 0 none, 1 only PAT and CAT, 2 only PAT.\<close>

definition psi_filtered :: "nat \<Rightarrow> nat \<Rightarrow> bool" where
  "psi_filtered filtering pd \<longleftrightarrow> filtering > 0 \<and> pd < 32 \<and> (filtering = 1 \<and> pd > 1 \<or> filtering = 2 \<and> pd > 0)"

section \<open>The state of the loop\<close>

record main_conf =
  is_atsc :: bool
  psi_tables_filtering :: nat
  dont_send :: bool
  scam_on :: bool
  unicast_conf :: unicast_parameters_t

record main_state =
  outw :: out_world
  rewr :: rewrite_parameters_t
  in_packet :: "u8 list"
  pmt_buf :: "u8 list"
  chan_scam :: "(scam_channel \<times> ring_buffer_t \<times> mumudvb_ts_packet_t) list"

definition main_chan :: "main_state \<Rightarrow> nat \<Rightarrow> mumudvb_channel_t option" where
  "main_chan st i = rd (chans (uni (outw st))) i"

definition set_chan :: "main_state \<Rightarrow> nat \<Rightarrow> mumudvb_channel_t \<Rightarrow> main_state" where
  "set_chan st i ch = st\<lparr>outw := upd_out_chan (outw st) i ch\<rparr>"

section \<open>One channel\<close>

text \<open>\<^verbatim>\<open>check_pmt_service_id\<close> and \<^verbatim>\<open>scam_new_packet\<close>: the PMT is copied for OSCam.\<close>

definition check_pmt_service_id :: "mumudvb_ts_packet_t \<Rightarrow> mumudvb_channel_t \<Rightarrow> bool option" where
  "check_pmt_service_id pkt ch = do {
     h \<leftarrow> struct_at PMT_LEN pmt_of (data_full pkt) 0;
     Some (pmt_t.table_id h = 0x02 \<and> pmt_t.current_next_indicator h \<noteq> 0 \<and>
       \<not> (mumudvb_channel_t.service_id ch \<noteq> 0 \<and>
          mumudvb_channel_t.service_id ch \<noteq> HILO (pmt_t.program_number_hi h) (pmt_t.program_number_lo h)))}"

definition scam_new_packet :: "nat \<Rightarrow> mumudvb_channel_t \<Rightarrow> mumudvb_ts_packet_t \<Rightarrow> mumudvb_ts_packet_t option" where
  "scam_new_packet pd ch scam_pmt =
     (if need_scam_ask ch = CAM_NEED_ASK \<and> pmt_pid (pid_i ch) = pd \<and> len_full (pmt_packet ch) > 0 then do {
        ok \<leftarrow> check_pmt_service_id (pmt_packet ch) ch;
        if ok then do {
          p \<leftarrow> mem_read (data_full (pmt_packet ch)) 0 (len_full (pmt_packet ch));
          d \<leftarrow> mem_write (data_full scam_pmt) 0 p;
          Some (scam_pmt\<lparr>len_full := len_full (pmt_packet ch), data_full := d\<rparr>)}
        else Some scam_pmt}
      else Some scam_pmt)"

definition main_scam :: "nat \<Rightarrow> nat \<Rightarrow> main_state \<Rightarrow> main_state option" where
  "main_scam pd i st = do {
     ch \<leftarrow> main_chan st i;
     (sc, rb, pmt) \<leftarrow> rd (chan_scam st) i;
     pmt \<leftarrow> scam_new_packet pd ch pmt;
     Some (st\<lparr>chan_scam := (chan_scam st)[i := (sc, rb, pmt)]\<rparr>)}"

definition main_pmt :: "nat \<Rightarrow> nat \<Rightarrow> bool \<Rightarrow> main_state \<Rightarrow> (bool \<times> main_state) option" where
  "main_pmt pd i send st = do {
     ch \<leftarrow> main_chan st i;
     if send \<and> pd = pmt_pid (pid_i ch) \<and> pmt_pid (pid_i ch) \<noteq> 0 \<and> rewrite_pmt (rewr st) = OPTION_ON \<and> pmt_rewrite ch then do {
       (ret, b, ch) \<leftarrow> pmt_rewrite_new_channel_packet (in_packet st) (pmt_buf st) ch;
       Some (ret = 1, (set_chan st i ch)\<lparr>pmt_buf := b\<rparr>)}
     else Some (send, st)}"

definition main_pat :: "nat \<Rightarrow> nat \<Rightarrow> bool \<Rightarrow> main_state \<Rightarrow> (bool \<times> main_state) option" where
  "main_pat pd i send st = do {
     ch \<leftarrow> main_chan st i;
     if send \<and> pd = 0 \<and> rewrite_pat (rewr st) = OPTION_ON then do {
       (ret, b, r, ch) \<leftarrow> pat_rewrite_new_channel_packet (in_packet st) (rewr st) ch;
       Some (ret = 1, (set_chan st i ch)\<lparr>in_packet := b, rewr := r\<rparr>)}
     else Some (send, st)}"

definition main_sdt :: "nat \<Rightarrow> nat \<Rightarrow> bool \<Rightarrow> main_state \<Rightarrow> (bool \<times> main_state) option" where
  "main_sdt pd i send st = do {
     ch \<leftarrow> main_chan st i;
     if send \<and> pd = 17 \<and> rewrite_sdt (rewr st) = OPTION_ON \<and> \<not> sdt_rewrite_skip ch then do {
       (ret, b, r, ch) \<leftarrow> sdt_rewrite_new_channel_packet (in_packet st) (rewr st) ch;
       Some (ret = 1, (set_chan st i ch)\<lparr>in_packet := b, rewr := r\<rparr>)}
     else Some (send, st)}"

text \<open>A function that sends, run with the descrambling members of channel \<open>i\<close>.\<close>

definition with_ring ::
  "main_state \<Rightarrow> nat \<Rightarrow> (scam_channel \<Rightarrow> out_world \<Rightarrow> ring_buffer_t \<Rightarrow> (out_world \<times> ring_buffer_t) option) \<Rightarrow> main_state option" where
  "with_ring st i f = do {
     (sc, rb, pmt) \<leftarrow> rd (chan_scam st) i;
     (w, rb) \<leftarrow> f sc (outw st) rb;
     Some (st\<lparr>outw := w, chan_scam := (chan_scam st)[i := (sc, rb, pmt)]\<rparr>)}"

definition main_eit ::
  "main_conf \<Rightarrow> out_env \<Rightarrow> (nat \<Rightarrow> u64) \<Rightarrow> nat \<Rightarrow> nat \<Rightarrow> bool \<Rightarrow> main_state \<Rightarrow> (bool \<times> main_state) option" where
  "main_eit cf env clock pd i send st = do {
     ch \<leftarrow> main_chan st i;
     if send \<and> pd = 18 \<and> mumudvb_channel_t.service_id ch \<noteq> 0 \<and> rewrite_eit (rewr st) = OPTION_ON then do {
       st \<leftarrow> with_ring st i (\<lambda>sc w rb. eit_rewrite_new_channel_packet (dont_send cf) (scam_on cf) (unicast_conf cf) env i sc
              clock (in_packet st) (rewr st) w rb);
       Some (False, st)}
     else Some (send, st)}"

text \<open>The packet is handed to \<^verbatim>\<open>buffer_func\<close>; a rewritten PMT is in a buffer of its own.\<close>

definition main_buffer :: "main_conf \<Rightarrow> out_env \<Rightarrow> u64 \<Rightarrow> nat \<Rightarrow> nat \<Rightarrow> main_state \<Rightarrow> main_state option" where
  "main_buffer cf env now pd i st = do {
     ch \<leftarrow> main_chan st i;
     p \<leftarrow> mem_read (if pd = pmt_pid (pid_i ch) \<and> rewrite_pmt (rewr st) = OPTION_ON \<and> pmt_rewrite ch then pmt_buf st
           else in_packet st) 0 TS_PACKET_SIZE;
     with_ring st i (\<lambda>sc w rb. buffer_func (dont_send cf) (scam_on cf) (unicast_conf cf) env w i sc rb p now)}"

definition main_channel :: "main_conf \<Rightarrow> out_env \<Rightarrow> (nat \<Rightarrow> u64) \<Rightarrow> nat \<Rightarrow> nat \<Rightarrow> main_state \<Rightarrow> main_state option" where
  "main_channel cf env clock pd i st = do {
     ch \<leftarrow> main_chan st i;
     if \<not> channel_ready ch \<ge> READY then Some st
     else do {
       send \<leftarrow> channel_wants (is_atsc cf) pd ch;
       st \<leftarrow> (if scam_on cf \<and> send then main_scam pd i st else Some st);
       (send, st) \<leftarrow> main_pmt pd i send st;
       (send, st) \<leftarrow> main_pat pd i send st;
       (send, st) \<leftarrow> main_sdt pd i send st;
       (send, st) \<leftarrow> main_eit cf env clock pd i send st;
       if send \<and> \<not> psi_filtered (psi_tables_filtering cf) pd then main_buffer cf env (clock 0) pd i st
       else Some st}}"

section \<open>All channels\<close>

text \<open>\<open>n\<close> channels from \<open>i\<close> on; the clock of a channel is \<open>clock i\<close>.\<close>

primrec main_channels :: "main_conf \<Rightarrow> out_env \<Rightarrow> (nat \<Rightarrow> nat \<Rightarrow> u64) \<Rightarrow> nat \<Rightarrow> nat \<Rightarrow> nat \<Rightarrow> main_state \<Rightarrow> main_state option" where
  "main_channels cf env clock pd 0 i st = Some st"
| "main_channels cf env clock pd (Suc n) i st = do {
     st \<leftarrow> main_channel cf env (clock i) pd i st;
     main_channels cf env clock pd n (i + 1) st}"

text \<open>The rewriters collect the tables first. \<open>ok\<close> are the results of the allocations for the EIT.\<close>

definition main_collect :: "(nat \<Rightarrow> bool) \<Rightarrow> nat \<Rightarrow> main_state \<Rightarrow> main_state option" where
  "main_collect ok pd st = do {
     r \<leftarrow> (if pd = 0 \<and> rewrite_pat (rewr st) = OPTION_ON then pat_rewrite_new_global_packet (in_packet st) (rewr st)
           else Some (rewr st));
     let st = st\<lparr>rewr := r\<rparr>;
     st \<leftarrow> (if pd = 17 \<and> rewrite_sdt (rewr st) = OPTION_ON then do {
              (v, r) \<leftarrow> sdt_rewrite_new_global_packet (in_packet st) (rewr st);
              let w = uni (outw st);
              let w' = (if v = 1 then w\<lparr>chans := map (\<lambda>ch. ch\<lparr>sdt_rewrite_skip := False\<rparr>) (chans w)\<rparr> else w);
              Some (st\<lparr>rewr := r, outw := (outw st)\<lparr>uni := w'\<rparr>\<rparr>)}
            else Some st);
     r \<leftarrow> (if pd = 18 \<and> (rewrite_eit (rewr st) = OPTION_ON \<or> store_eit (rewr st) = OPTION_ON)
           then eit_rewrite_new_global_packet ok (in_packet st) (rewr st) else Some (rewr st));
     Some (st\<lparr>rewr := r\<rparr>)}"

definition main_packet ::
  "main_conf \<Rightarrow> out_env \<Rightarrow> (nat \<Rightarrow> bool) \<Rightarrow> (nat \<Rightarrow> nat \<Rightarrow> u64) \<Rightarrow> u8 list \<Rightarrow> main_state \<Rightarrow> main_state option" where
  "main_packet cf env ok clock p st = do {
     let st = st\<lparr>in_packet := p\<rparr>;
     st \<leftarrow> main_collect ok (packet_pid p) st;
     main_channels cf env clock (packet_pid p) (length (chans (uni (outw st)))) 0 st}"

section \<open>Channels and packets\<close>

lemma pid_listed_ok:
  "k + n \<le> length ps \<Longrightarrow> pid_listed n k ps pd = Some (pd \<in> set (take n (drop k ps)) \<or> 8192 \<in> set (take n (drop k ps)))"
proof (induction n arbitrary: k)
  case (Suc n)
  then have k: "k < length ps" by simp
  then have "drop k ps = ps ! k # drop (Suc k) ps" by (simp add: Cons_nth_drop_Suc)
  then show ?case using Suc k by (auto simp: rd_def)
qed simp

text \<open>The PIDs that all channels get, and the decision in one formula.\<close>

definition wants_spec :: "bool \<Rightarrow> nat \<Rightarrow> mumudvb_channel_t \<Rightarrow> bool" where
  "wants_spec atsc pd ch \<longleftrightarrow> pd \<noteq> TS_PADDING_PID \<and>
     (pd \<in> {0, 1, 16, 17, 18, 20} \<or> pd = PSIP_PID \<and> atsc \<or> pd \<in> set (channel_pids ch) \<or> 8192 \<in> set (channel_pids ch))"

definition pids_fit :: "mumudvb_channel_t \<Rightarrow> bool" where
  "pids_fit ch \<longleftrightarrow> num_pids (pid_i ch) \<le> length (pids (pid_i ch))"

lemma mandatory_nth: "pd < 32 \<Longrightarrow> rd mandatory_pid pd = Some (pd \<in> {0, 1, 16, 17, 18, 20})"
  by (auto simp: mandatory_pid_def rd_def MAX_MANDATORY_PID_NUMBER_def nth_list_update)

lemma channel_wants_ok:
  assumes "pids_fit ch"
  shows "channel_wants atsc pd ch = Some (wants_spec atsc pd ch)"
proof -
  have "(if pd < MAX_MANDATORY_PID_NUMBER then rd mandatory_pid pd else Some False) = Some (pd \<in> {0, 1, 16, 17, 18, 20})"
    using mandatory_nth [of pd] by (auto simp: MAX_MANDATORY_PID_NUMBER_def)
  moreover have "pid_listed (num_pids (pid_i ch)) 0 (pids (pid_i ch)) pd =
      Some (pd \<in> set (channel_pids ch) \<or> 8192 \<in> set (channel_pids ch))"
    using pid_listed_ok [of 0 "num_pids (pid_i ch)" "pids (pid_i ch)" pd] assms by (simp add: pids_fit_def channel_pids_def)
  ultimately show ?thesis unfolding channel_wants_def Let_def wants_spec_def by auto
qed

text \<open>The channel gets the packet as it came: no rewriter of the channel is for its PID.\<close>

definition plain :: "rewrite_parameters_t \<Rightarrow> nat \<Rightarrow> mumudvb_channel_t \<Rightarrow> bool" where
  "plain r pd ch \<longleftrightarrow> \<not> (pd = 0 \<and> rewrite_pat r = OPTION_ON) \<and> \<not> (pd = 17 \<and> rewrite_sdt r = OPTION_ON) \<and>
     \<not> (pd = 18 \<and> rewrite_eit r = OPTION_ON) \<and> \<not> (pd = pmt_pid (pid_i ch) \<and> rewrite_pmt r = OPTION_ON \<and> pmt_rewrite ch)"

definition gets :: "main_conf \<Rightarrow> nat \<Rightarrow> mumudvb_channel_t \<Rightarrow> bool" where
  "gets cf pd ch \<longleftrightarrow> READY \<le> channel_ready ch \<and> wants_spec (is_atsc cf) pd ch \<and> \<not> psi_filtered (psi_tables_filtering cf) pd"

lemma view_cong:
  assumes "out_view a = out_view b"
  shows "gets cf pd a = gets cf pd b" "plain r pd a = plain r pd b" "pids_fit a = pids_fit b"
  using out_view_fields [OF assms] by (simp_all add: gets_def wants_spec_def channel_pids_def plain_def pids_fit_def)

text \<open>One packet to one channel.\<close>

definition send_to :: "main_conf \<Rightarrow> out_env \<Rightarrow> u64 \<Rightarrow> u8 list \<Rightarrow> nat \<Rightarrow> main_state \<Rightarrow> main_state option" where
  "send_to cf env now p i st =
     with_ring st i (\<lambda>sc w rb. buffer_func (dont_send cf) (scam_on cf) (unicast_conf cf) env w i sc rb p now)"

lemma send_to_frame:
  assumes "send_to cf env now p i st = Some st'"
  shows "out_views (uni (outw st')) = out_views (uni (outw st)) \<and> in_packet st' = in_packet st \<and> rewr st' = rewr st"
  using assms buffer_func_views by (fastforce simp: send_to_def with_ring_def split: Option.bind_splits)

lemma main_chan_view:
  assumes "out_views (uni (outw st')) = out_views (uni (outw st))" "main_chan st i = Some ch"
  shows "\<exists>ch'. main_chan st' i = Some ch' \<and> out_view ch' = out_view ch"
  using out_views_nth [OF assms(1)] assms(2) by (simp add: main_chan_def)

lemma main_channel_plain:
  assumes ch: "main_chan st i = Some ch" "pids_fit ch" "plain (rewr st) pd ch" and p: "TS_PACKET_SIZE \<le> length (in_packet st)"
    and sc: "\<not> scam_on cf"
  shows "main_channel cf env clock pd i st =
    (if gets cf pd ch then send_to cf env (clock 0) (take TS_PACKET_SIZE (in_packet st)) i st else Some st)"
proof -
  define send where "send = wants_spec (is_atsc cf) pd ch"
  have pl: "main_pmt pd i send st = Some (send, st)" "main_pat pd i send st = Some (send, st)"
    "main_sdt pd i send st = Some (send, st)" "main_eit cf env clock pd i send st = Some (send, st)"
    using ch(1,3) by (auto simp: main_pmt_def main_pat_def main_sdt_def main_eit_def plain_def)
  have "mem_read (if pd = pmt_pid (pid_i ch) \<and> rewrite_pmt (rewr st) = OPTION_ON \<and> pmt_rewrite ch then pmt_buf st
           else in_packet st) 0 TS_PACKET_SIZE = Some (take TS_PACKET_SIZE (in_packet st))"
    using ch(3) p by (auto simp: plain_def mem_read_def)
  then have "main_buffer cf env (clock 0) pd i st = send_to cf env (clock 0) (take TS_PACKET_SIZE (in_packet st)) i st"
    unfolding main_buffer_def ch(1) bind.bind_lunit by (simp add: send_to_def)
  moreover have "main_channel cf env clock pd i st =
     (if \<not> channel_ready ch \<ge> READY then Some st
      else if send \<and> \<not> psi_filtered (psi_tables_filtering cf) pd then main_buffer cf env (clock 0) pd i st else Some st)"
    unfolding main_channel_def ch(1) bind.bind_lunit channel_wants_ok [OF ch(2)] send_def [symmetric]
    using pl sc by simp
  ultimately show ?thesis by (simp add: gets_def send_def)
qed

text \<open>A packet to several channels, one after the other.\<close>

fun send_all :: "main_conf \<Rightarrow> out_env \<Rightarrow> (nat \<Rightarrow> nat \<Rightarrow> u64) \<Rightarrow> u8 list \<Rightarrow> nat list \<Rightarrow> main_state \<Rightarrow> main_state option" where
  "send_all cf env clock p [] st = Some st"
| "send_all cf env clock p (i # is) st = do {
     st \<leftarrow> send_to cf env (clock i 0) p i st;
     send_all cf env clock p is st}"

lemma main_channels_plain:
  assumes "\<not> scam_on cf"
  shows "out_views (uni (outw st)) = map out_view chs \<Longrightarrow> rewr st = r \<Longrightarrow> in_packet st = b \<Longrightarrow> TS_PACKET_SIZE \<le> length b \<Longrightarrow>
    i + n = length chs \<Longrightarrow> \<forall>ch \<in> set chs. pids_fit ch \<and> plain r pd ch \<Longrightarrow>
    main_channels cf env clock pd n i st = send_all cf env clock (take TS_PACKET_SIZE b) (filter (\<lambda>k. gets cf pd (chs ! k)) [i..<i + n]) st"
proof (induction n arbitrary: i st)
  case (Suc n)
  have i: "i < length chs" using Suc.prems by simp
  have "length (chans (uni (outw st))) = length chs"
    using arg_cong [OF Suc.prems(1), of length] by (simp add: out_views_def)
  then have ch: "main_chan st i = Some (chans (uni (outw st)) ! i)" using i by (simp add: main_chan_def rd_def)
  have "out_view (chans (uni (outw st)) ! i) = out_view (chs ! i)"
    using arg_cong [OF Suc.prems(1), of "\<lambda>l. l ! i"] i \<open>length (chans (uni (outw st))) = length chs\<close> by (simp add: out_views_def)
  note v = view_cong [OF this]
  have c: "pids_fit (chans (uni (outw st)) ! i)" "plain (rewr st) pd (chans (uni (outw st)) ! i)"
    using v Suc.prems(2,6) i by simp_all
  have step: "main_channel cf env (clock i) pd i st =
      (if gets cf pd (chs ! i) then send_to cf env (clock i 0) (take TS_PACKET_SIZE b) i st else Some st)"
    using main_channel_plain [OF ch c, of cf env "clock i"] Suc.prems(3,4) assms v by simp
  have up: "[i..<i + Suc n] = i # [i + 1..<(i + 1) + n]" by (simp add: upt_conv_Cons)
  have rest: "main_channels cf env clock pd n (i + 1) st' =
      send_all cf env clock (take TS_PACKET_SIZE b) (filter (\<lambda>k. gets cf pd (chs ! k)) [i + 1..<(i + 1) + n]) st'"
    if "out_views (uni (outw st')) = map out_view chs" "rewr st' = r" "in_packet st' = b" for st'
    using that Suc.prems(4,5,6) by (intro Suc.IH) simp_all
  show ?case
  proof (cases "gets cf pd (chs ! i)")
    case False
    then show ?thesis unfolding up using step rest [OF Suc.prems(1-3)] by simp
  next
    case True
    show ?thesis
    proof (cases "send_to cf env (clock i 0) (take TS_PACKET_SIZE b) i st")
      case None
      then show ?thesis unfolding up using step True by simp
    next
      case (Some st')
      then have "out_views (uni (outw st')) = map out_view chs" "rewr st' = r" "in_packet st' = b"
        using send_to_frame [OF Some] Suc.prems(1-3) by simp_all
      from rest [OF this] show ?thesis unfolding up using step True Some by simp
    qed
  qed
qed simp

text \<open>
  C24. Routing. A packet that no rewriter is for goes, as it came and in the order of the channels, to
  exactly the channels that are ready and want it when it arrives: those whose PID table has its PID
  or asks for the whole transponder, all of them for the mandatory PIDs, none for padding or for what
  the PSI filter stops. What sending to one channel does, to clients that fail for example, does
  not change who else gets the packet.
\<close>

theorem main_channels_route:
  assumes "\<not> scam_on cf" "TS_PACKET_SIZE \<le> length (in_packet st)"
    and "\<forall>ch \<in> set (chans (uni (outw st))). pids_fit ch \<and> plain (rewr st) pd ch"
  shows "main_channels cf env clock pd (length (chans (uni (outw st)))) 0 st =
     send_all cf env clock (take TS_PACKET_SIZE (in_packet st))
       (filter (\<lambda>k. gets cf pd (chans (uni (outw st)) ! k)) [0..<length (chans (uni (outw st)))]) st"
  using main_channels_plain [OF assms(1) _ refl refl assms(2), of "chans (uni (outw st))" 0 "length (chans (uni (outw st)))" pd] assms(3)
  by (simp add: out_views_def)

section \<open>What the next channel finds\<close>

text \<open>The packet that a channel with an up-to-date SDT sends, and where it leaves it.\<close>

lemma sdt_current_packet:
  assumes "full_sdt_ok r" "generated_sdt_version ch = sdt_version r" "length (generated_sdt ch) = TS_PACKET_SIZE"
    and b: "TS_PACKET_SIZE \<le> length b"
  shows "\<exists>q. length q = TS_PACKET_SIZE \<and> drop 4 q = drop 4 (generated_sdt ch) \<and>
     sdt_rewrite_new_channel_packet b r ch = Some (1, q @ drop TS_PACKET_SIZE b, r, ch)"
proof -
  define b1 where "b1 = generated_sdt ch @ drop TS_PACKET_SIZE b"
  have w: "mem_write b 0 (generated_sdt ch) = Some b1" using assms(3) b by (simp add: mem_write_def b1_def)
  obtain b2 where b2: "set_continuity_counter b1 (sdt_continuity_counter r) = Some b2" "length b2 = length b1" "drop 4 b2 = drop 4 b1"
    using set_continuity_counter_spec [of b1 "sdt_continuity_counter r"] assms(3) by (auto simp: b1_def ts_sizes)
  define q where "q = take TS_PACKET_SIZE b2"
  have lq: "length q = TS_PACKET_SIZE" using b2(2) assms(3) by (simp add: q_def b1_def)
  have d4: "drop 4 q = drop 4 (generated_sdt ch)"
  proof -
    have "drop 4 q = take 184 (drop 4 b2)" by (simp add: q_def drop_take ts_sizes)
    also have "\<dots> = take 184 (drop 4 (generated_sdt ch) @ drop TS_PACKET_SIZE b)"
      using b2(3) assms(3) by (simp add: b1_def ts_sizes)
    finally show ?thesis using assms(3) by (simp add: ts_sizes)
  qed
  have "drop TS_PACKET_SIZE b2 = drop 184 (drop 4 b2)" by (simp add: ts_sizes)
  also have "\<dots> = drop TS_PACKET_SIZE b" using b2(3) assms(3) by (simp add: b1_def ts_sizes)
  finally have "b2 = q @ drop TS_PACKET_SIZE b" unfolding q_def by (metis append_take_drop_id)
  moreover have "sdt_rewrite_new_channel_packet b r ch = Some (1, b2, r, ch)"
    using assms(1,2) w b2(1) by (simp add: sdt_rewrite_new_channel_packet_def)
  ultimately show ?thesis using lq d4 by auto
qed

lemma set_chan_same: "main_chan st i = Some ch \<Longrightarrow> set_chan st i ch = st"
  by (simp add: set_chan_def upd_out_chan_def main_chan_def rd_Some_iff)

text \<open>A channel that the SDT and the routing concern.\<close>

definition sdt_channel :: "mumudvb_channel_t \<Rightarrow> bool" where
  "sdt_channel ch \<longleftrightarrow> READY \<le> channel_ready ch \<and> pids_fit ch \<and> pmt_pid (pid_i ch) \<noteq> 17"

lemma sdt_channel_run:
  assumes ch: "main_chan st i = Some ch" "sdt_channel ch" and cf: "\<not> scam_on cf" "psi_tables_filtering cf = 0"
    and s: "main_sdt 17 i True st = Some (True, st')" and st': "main_chan st' i = Some ch" "TS_PACKET_SIZE \<le> length (in_packet st')"
  shows "main_channel cf env clock 17 i st = send_to cf env (clock 0) (take TS_PACKET_SIZE (in_packet st')) i st'"
proof -
  have w: "channel_wants (is_atsc cf) 17 ch = Some True"
    using ch(2) channel_wants_ok [of ch "is_atsc cf" 17] by (simp add: sdt_channel_def wants_spec_def TS_PADDING_PID_def)
  have o: "main_pmt 17 i True st = Some (True, st)" "main_pat 17 i True st = Some (True, st)"
    "main_eit cf env clock 17 i True st' = Some (True, st')"
    using ch st'(1) by (auto simp: main_pmt_def main_pat_def main_eit_def sdt_channel_def)
  have "mem_read (in_packet st') 0 TS_PACKET_SIZE = Some (take TS_PACKET_SIZE (in_packet st'))"
    using st'(2) by (simp add: mem_read_def)
  then have "main_buffer cf env (clock 0) 17 i st' = send_to cf env (clock 0) (take TS_PACKET_SIZE (in_packet st')) i st'"
    unfolding main_buffer_def st'(1) bind.bind_lunit using ch(2) by (simp add: send_to_def sdt_channel_def)
  then show ?thesis
    unfolding main_channel_def ch(1) bind.bind_lunit w using o s cf ch(2) by (simp add: sdt_channel_def psi_filtered_def)
qed

text \<open>
  A channel whose SDT could not be generated does not get the SDT of the stream: the rewriter of
  an earlier channel has overwritten the packet in place, and what is sent to it is that other
  channel's SDT, the same packet \<open>q\<close> that the other channel got.
\<close>

theorem main_sdt_of_other_channel:
  assumes i: "main_chan st i = Some ci" "sdt_channel ci" "\<not> sdt_rewrite_skip ci" "length (generated_sdt ci) = TS_PACKET_SIZE"
    and j: "main_chan st j = Some cj" "sdt_channel cj" "sdt_rewrite_skip cj"
    and r: "rewrite_sdt (rewr st) = OPTION_ON" "full_sdt_ok (rewr st)" "generated_sdt_version ci = sdt_version (rewr st)"
    and cf: "\<not> scam_on cf" "psi_tables_filtering cf = 0" and p: "TS_PACKET_SIZE \<le> length (in_packet st)"
  shows "\<exists>q. length q = TS_PACKET_SIZE \<and> drop 4 q = drop 4 (generated_sdt ci) \<and>
     main_channel cf env clock 17 i st = send_to cf env (clock 0) q i (st\<lparr>in_packet := q @ drop TS_PACKET_SIZE (in_packet st)\<rparr>) \<and>
     do {st \<leftarrow> main_channel cf env clock 17 i st; main_channel cf env clock' 17 j st} =
     do {st \<leftarrow> main_channel cf env clock 17 i st; send_to cf env (clock' 0) q j st}"
proof -
  obtain q where q: "length q = TS_PACKET_SIZE" "drop 4 q = drop 4 (generated_sdt ci)"
    "sdt_rewrite_new_channel_packet (in_packet st) (rewr st) ci = Some (1, q @ drop TS_PACKET_SIZE (in_packet st), rewr st, ci)"
    using sdt_current_packet [OF r(2,3) i(4) p] by blast
  define st1 where "st1 = st\<lparr>in_packet := q @ drop TS_PACKET_SIZE (in_packet st)\<rparr>"
  have "main_sdt 17 i True st = Some (True, st1)"
    unfolding main_sdt_def i(1) bind.bind_lunit using i(3) r(1) q(3) set_chan_same [OF i(1)] by (simp add: st1_def)
  moreover have "main_chan st1 i = Some ci" using i(1) by (simp add: st1_def main_chan_def)
  moreover have "take TS_PACKET_SIZE (in_packet st1) = q" "TS_PACKET_SIZE \<le> length (in_packet st1)"
    using q(1) by (simp_all add: st1_def)
  ultimately have mi: "main_channel cf env clock 17 i st = send_to cf env (clock 0) q i st1"
    using sdt_channel_run [OF i(1,2) cf] by simp
  have mj: "main_channel cf env clock' 17 j st2 = send_to cf env (clock' 0) q j st2"
    if s: "send_to cf env (clock 0) q i st1 = Some st2" for st2
  proof -
    have fr: "out_views (uni (outw st2)) = out_views (uni (outw st1))" "in_packet st2 = in_packet st1" "rewr st2 = rewr st1"
      using send_to_frame [OF s] by simp_all
    have "main_chan st1 j = Some cj" using j(1) by (simp add: st1_def main_chan_def)
    then obtain c where c: "main_chan st2 j = Some c" "out_view c = out_view cj" using main_chan_view [OF fr(1)] by blast
    note f = out_view_fields [OF c(2)]
    have "sdt_channel c" using j(2) f by (simp add: sdt_channel_def pids_fit_def)
    moreover have "main_sdt 17 j True st2 = Some (True, st2)"
      unfolding main_sdt_def c(1) bind.bind_lunit using j(3) f by simp
    moreover have "take TS_PACKET_SIZE (in_packet st2) = q" "TS_PACKET_SIZE \<le> length (in_packet st2)"
      using q(1) fr(2) by (simp_all add: st1_def)
    ultimately show ?thesis using sdt_channel_run [OF c(1) _ cf _ c(1)] by simp
  qed
  have "do {st \<leftarrow> main_channel cf env clock 17 i st; main_channel cf env clock' 17 j st} =
     do {st \<leftarrow> main_channel cf env clock 17 i st; send_to cf env (clock' 0) q j st}"
    unfolding mi using mj by (cases "send_to cf env (clock 0) q i st1") simp_all
  then show ?thesis using q(1,2) mi unfolding st1_def by blast
qed

text \<open>
  A channel without PMT PID: the test before the rewriter looks at it, that before the buffer does
  not. With PMT rewriting asked for, such a channel gets in place of each PAT what the PMT buffer
  holds.
\<close>

lemma main_pat_replaced:
  assumes "main_chan st i = Some ch" "pmt_pid (pid_i ch) = 0" "rewrite_pmt (rewr st) = OPTION_ON" "pmt_rewrite ch"
    and "TS_PACKET_SIZE \<le> length (pmt_buf st)"
  shows "main_buffer cf env now 0 i st = send_to cf env now (take TS_PACKET_SIZE (pmt_buf st)) i st"
  using assms by (simp add: main_buffer_def mem_read_def send_to_def)

section \<open>Witnesses\<close>

definition sample_conf :: main_conf where
  "sample_conf = \<lparr>is_atsc = False, psi_tables_filtering = 0, dont_send = False, scam_on = False, unicast_conf = init_unicast_v\<rparr>"

text \<open>Two channels that stream: the SDT of the first is generated, that of the second given up.\<close>

definition sample_main :: main_state where
  "sample_main = \<lparr>outw = sample_out_world\<lparr>uni := world0\<lparr>chans :=
       [zero_channel\<lparr>channel_ready := READY, generated_sdt_version := 3\<rparr>,
        zero_channel\<lparr>channel_ready := READY, sdt_rewrite_skip := True\<rparr>]\<rparr>\<rparr>,
     rewr = init_rewr_v\<lparr>rewrite_sdt := OPTION_ON, full_sdt_ok := True, sdt_version := 3\<rparr>,
     in_packet = replicate 188 0x47, pmt_buf = replicate 188 0, chan_scam = replicate 2 (sample_scam, scam_ring_init 4 [], empty_ts_packet)\<rparr>"

theorem main_channels_route_witness:
  "main_channels sample_conf sample_out_env (\<lambda>_ _. 0) 20 2 0 sample_main =
     send_all sample_conf sample_out_env (\<lambda>_ _. 0) (replicate 188 0x47) [0, 1] sample_main"
proof -
  have c: "\<forall>ch \<in> set (chans (uni (outw sample_main))). pids_fit ch \<and> plain (rewr sample_main) 20 ch"
    by (simp add: sample_main_def pids_fit_def plain_def zero_channel_def zero_pid_i_def init_rewr_v_def)
  have l: "length (chans (uni (outw sample_main))) = 2" by (simp add: sample_main_def)
  have p: "TS_PACKET_SIZE \<le> length (in_packet sample_main)" "take TS_PACKET_SIZE (in_packet sample_main) = replicate 188 0x47"
    by (simp_all add: sample_main_def ts_sizes)
  have g: "filter (\<lambda>k. gets sample_conf 20 (chans (uni (outw sample_main)) ! k)) [0..<2] = [0, 1]"
    by (simp add: upt_conv_Cons numeral_2_eq_2 sample_main_def gets_def wants_spec_def psi_filtered_def sample_conf_def TS_PADDING_PID_def)
  have s: "\<not> scam_on sample_conf" by (simp add: sample_conf_def)
  from main_channels_route [OF s p(1) c, of sample_out_env "\<lambda>_ _. 0"] show ?thesis unfolding l p(2) g .
qed

theorem main_sdt_of_other_channel_witness:
  "\<exists>q. length q = TS_PACKET_SIZE \<and>
     do {st \<leftarrow> main_channel sample_conf sample_out_env (\<lambda>_. 0) 17 0 sample_main; main_channel sample_conf sample_out_env (\<lambda>_. 0) 17 1 st} =
     do {st \<leftarrow> main_channel sample_conf sample_out_env (\<lambda>_. 0) 17 0 sample_main; send_to sample_conf sample_out_env 0 q 1 st}"
proof -
  have i: "main_chan sample_main 0 = Some (zero_channel\<lparr>channel_ready := READY, generated_sdt_version := 3\<rparr>)" (is "_ = Some ?i")
    and j: "main_chan sample_main 1 = Some (zero_channel\<lparr>channel_ready := READY, sdt_rewrite_skip := True\<rparr>)" (is "_ = Some ?j")
    by (simp_all add: main_chan_def sample_main_def rd_def)
  have s: "sdt_channel ?i" "sdt_channel ?j" "\<not> sdt_rewrite_skip ?i" "sdt_rewrite_skip ?j" "length (generated_sdt ?i) = TS_PACKET_SIZE"
    by (simp_all add: sdt_channel_def pids_fit_def zero_channel_def zero_pid_i_def)
  have r: "rewrite_sdt (rewr sample_main) = OPTION_ON" "full_sdt_ok (rewr sample_main)" "generated_sdt_version ?i = sdt_version (rewr sample_main)"
    by (simp_all add: sample_main_def)
  have cf: "\<not> scam_on sample_conf" "psi_tables_filtering sample_conf = 0" "TS_PACKET_SIZE \<le> length (in_packet sample_main)"
    by (simp_all add: sample_conf_def sample_main_def ts_sizes)
  from main_sdt_of_other_channel [OF i s(1,3,5) j s(2,4) r cf] show ?thesis by blast
qed

end
