(* ===== verification/T2mi.thy ===== *)
theory T2mi
  imports Mumudvb
begin

text \<open>
  The T2-MI demultiplexer, \<^verbatim>\<open>processt2\<close> of \<^verbatim>\<open>src/src/t2mi.c\<close>: transport packets of one PID are put
  together to T2-MI packets, and the user packets in the data fields of the selected PLP are written
  to the output, with the sync bytes that the T2 transmission leaves out.

  \<^verbatim>\<open>unsigned int\<close> values are natural numbers below 2 to the 32; where a sum or difference wraps around
  this is written out. Pointers have 64 bits, so an index that has wrapped points behind the buffer.
  Memory accesses are checked. \<^verbatim>\<open>char\<close> is signed, as on the x86 targets.
\<close>

section \<open>Data\<close>

definition T2_SIZE :: nat where "T2_SIZE = TS_PACKET_SIZE * 349"

definition U32 :: nat where "U32 = 2 ^ 32"

record t2_state =
  t2mi_active :: bool
  t2mi_first :: bool
  t2packetpos :: nat
  t2packet :: "u8 list"

definition t2_init :: t2_state where
  "t2_init = \<lparr>t2mi_active = False, t2mi_first = True, t2packetpos = 0, t2packet = replicate T2_SIZE 0\<rparr>"

text \<open>The place of output: the buffer, the offset of the call, its size, and the number of bytes put out.\<close>

record t2_out =
  obuf :: "u8 list"
  ooff :: nat
  osize :: nat
  obytes :: nat

text \<open>The test whether \<open>n\<close> more bytes are beyond the buffer, and copying of \<open>xs\<close>.\<close>

definition out_of_bounds :: "t2_out \<Rightarrow> nat \<Rightarrow> bool" where
  "out_of_bounds q n \<longleftrightarrow> (ooff q + obytes q + n) mod U32 > osize q"

definition put_out :: "t2_out \<Rightarrow> u8 list \<Rightarrow> t2_out option" where
  "put_out q xs = do {
     b \<leftarrow> mem_write (obuf q) (ooff q + obytes q) xs;
     Some (q\<lparr>obuf := b, obytes := (obytes q + length xs) mod U32\<rparr>)}"

section \<open>Extracting the user packets\<close>

text \<open>
  The loop over the full packets: \<open>limit\<close> is \<^verbatim>\<open>upl - 187\<close>, computed without sign. The flag of the
  result tells that the loop was left by \<^verbatim>\<open>goto t2_copy_end\<close>.
\<close>

function t2_copy_full :: "u8 list \<Rightarrow> nat \<Rightarrow> nat \<Rightarrow> nat \<Rightarrow> t2_out \<Rightarrow> (bool \<times> nat \<times> t2_out) option" where
  "t2_copy_full t2 limit dnp pos q =
     (if pos < limit then
        if pos > T2_SIZE - 187 \<or> out_of_bounds q TS_PACKET_SIZE then Some (True, pos, q)
        else do {
          q \<leftarrow> put_out q [TS_SYNC_BYTE];
          d \<leftarrow> mem_read t2 pos 187;
          q \<leftarrow> put_out q d;
          t2_copy_full t2 limit dnp (pos + 187 + dnp) q}
      else Some (False, pos, q))"
  by pat_completeness auto
termination by (relation "measure (\<lambda>(_, _, _, pos, _). T2_SIZE - pos)") (auto simp: T2_SIZE_def ts_sizes)

declare t2_copy_full.simps [simp del]



definition t2_extract :: "u8 list \<Rightarrow> bool \<Rightarrow> t2_out \<Rightarrow> (bool \<times> t2_out) option" where
  "t2_extract t2 first q = do {
     let syncd = HILO (t2 ! 16) (t2 ! 17) div 8;
     let upl = HILO (t2 ! 13) (t2 ! 14) div 8 + 19;
     let dnp = (if bit (t2 ! 9) 2 then 1 else 0);
     if syncd = 0x1FFF then do {
       let maxsync = upl - 19;
       if out_of_bounds q maxsync then Some (first, q)
       else if upl > 19 then do {
         d \<leftarrow> mem_read t2 19 maxsync;
         q \<leftarrow> put_out q d;
         Some (first, q)}
       else Some (first, q)}
     else do {
       (stop, q) \<leftarrow>
         (if \<not> first \<and> syncd > 0 then
            let n = syncd - dnp
            in if n > T2_SIZE - 19 \<or> out_of_bounds q n then Some (True, q)
               else do { d \<leftarrow> mem_read t2 19 n; q \<leftarrow> put_out q d; Some (False, q) }
          else Some (False, q));
       if stop then Some (first, q)
       else do {
         let output_part = (ooff q + obytes q) mod U32 mod TS_PACKET_SIZE;
         let q = (if output_part > 0 then q\<lparr>obytes := (obytes q + U32 - output_part) mod U32\<rparr> else q);
         (stop, pos, q) \<leftarrow> t2_copy_full t2 (if upl < 187 then upl + U32 - 187 else upl - 187) dnp (19 + syncd) q;
         if stop then Some (False, q)
         else if pos < upl then do {
           let part_size = upl - pos;
           if pos > T2_SIZE - (part_size + 1) \<or> out_of_bounds q (part_size + 1) then Some (False, q)
           else do {
             q \<leftarrow> put_out q [TS_SYNC_BYTE];
             d \<leftarrow> mem_read t2 pos part_size;
             q \<leftarrow> put_out q d;
             Some (False, q)}}
         else Some (False, q)}}}"

section \<open>One transport packet\<close>

text \<open>
  \<open>t2packet[7] == plpId\<close> compares a signed with an unsigned character. The result has the output
  buffer and the number of bytes put out.
\<close>

definition t2_flush :: "t2_state \<Rightarrow> u8 \<Rightarrow> t2_out \<Rightarrow> (t2_state \<times> t2_out) option" where
  "t2_flush st plp q = do {
     (first, q) \<leftarrow> (if sint (t2packet st ! 7) = uint plp then t2_extract (t2packet st) (t2mi_first st) q
                   else Some (t2mi_first st, q));
     Some (st\<lparr>t2mi_active := False, t2mi_first := first, t2packet := replicate T2_SIZE 0\<rparr>, q)}"

definition t2_begin :: "t2_state \<Rightarrow> u8 list \<Rightarrow> nat \<Rightarrow> nat \<Rightarrow> nat \<Rightarrow> t2_state option" where
  "t2_begin st inp base len offset = do {
     b \<leftarrow> rd inp (base + offset);
     if b = 0 \<and> len > offset then do {
       d \<leftarrow> mem_read inp (base + offset) (len - offset);
       t \<leftarrow> mem_write (t2packet st) 0 d;
       Some (st\<lparr>t2packet := t, t2packetpos := len - offset, t2mi_active := True\<rparr>)}
     else Some st}"

definition t2_payload :: "t2_state \<Rightarrow> u8 list \<Rightarrow> nat \<Rightarrow> nat \<Rightarrow> bool \<Rightarrow> u8 \<Rightarrow> t2_out \<Rightarrow> (t2_state \<times> t2_out) option" where
  "t2_payload st inp base len pusi plp q =
     (if pusi then do {
        p \<leftarrow> rd inp base;
        let offset = 1 + unat p;
        if t2mi_active st then
          if offset \<ge> 184 then Some (st, q)
          else do {
            st \<leftarrow> (if 1 < offset then do {
                    d \<leftarrow> mem_read inp (base + 1) (offset - 1);
                    t \<leftarrow> mem_write (t2packet st) (t2packetpos st) d;
                    Some (st\<lparr>t2packet := t\<rparr>)}
                  else Some st);
            (st, q) \<leftarrow> t2_flush st plp q;
            st \<leftarrow> t2_begin st inp base len offset;
            Some (st, q)}
        else do {
          st \<leftarrow> t2_begin st inp base len offset;
          Some (st, q)}}
      else if t2mi_active st then do {
        d \<leftarrow> mem_read inp base len;
        t \<leftarrow> mem_write (t2packet st) (t2packetpos st) d;
        Some (st\<lparr>t2packet := t, t2packetpos := t2packetpos st + len\<rparr>, q)}
      else Some (st, q))"

definition processt2 :: "t2_state \<Rightarrow> u8 list \<Rightarrow> nat \<Rightarrow> u8 \<Rightarrow> t2_out \<Rightarrow> (t2_state \<times> t2_out) option" where
  "processt2 st inp inoff plp q = do {
     h1 \<leftarrow> rd inp (inoff + 1);
     h3 \<leftarrow> rd inp (inoff + 3);
     let q = q\<lparr>obytes := 0\<rparr>;
     let afc = bf_get h3 4 2;
     if afc = 2 then Some (st, q)
     else do {
       start \<leftarrow> (if afc = 3 then do { a \<leftarrow> rd inp (inoff + 4); Some (unat a + 1) } else Some 0);
       if start > 183 then Some (st, q)
       else t2_payload st inp (inoff + 4 + start) (TS_PACKET_SIZE - 4 - start) (bit h1 6) plp q}}"

section \<open>What is extracted\<close>

text \<open>The user packets of a data field, each behind a sync byte; the last one may be incomplete.\<close>

function ts_blocks :: "u8 list \<Rightarrow> u8 list" where
  "ts_blocks d = (if d = [] then [] else TS_SYNC_BYTE # take 187 d @ ts_blocks (drop 187 d))"
  by pat_completeness auto
termination by (relation "measure length") auto

declare ts_blocks.simps [simp del]

lemma ts_blocks_short: "d \<noteq> [] \<Longrightarrow> length d \<le> 187 \<Longrightarrow> ts_blocks d = TS_SYNC_BYTE # d"
  by (subst ts_blocks.simps) (simp add: ts_blocks.simps [of "[]"])

text \<open>An output that has room for \<open>n\<close> more bytes.\<close>

definition room :: "t2_out \<Rightarrow> nat \<Rightarrow> bool" where
  "room q n \<longleftrightarrow> ooff q + obytes q + n \<le> osize q \<and> osize q \<le> length (obuf q) \<and> length (obuf q) < U32"

text \<open>\<open>q'\<close> is \<open>q\<close> with \<open>xs\<close> put out.\<close>

definition wrote :: "t2_out \<Rightarrow> u8 list \<Rightarrow> t2_out \<Rightarrow> bool" where
  "wrote q xs q' \<longleftrightarrow> obytes q' = obytes q + length xs \<and> ooff q' = ooff q \<and> osize q' = osize q \<and> length (obuf q') = length (obuf q) \<and>
     take (ooff q + obytes q') (obuf q') = take (ooff q + obytes q) (obuf q) @ xs"

lemma out_of_bounds_room: "room q n \<Longrightarrow> m \<le> n \<Longrightarrow> \<not> out_of_bounds q m"
  by (simp add: room_def out_of_bounds_def)

lemma put_out_room:
  assumes "room q n" "length xs \<le> n"
  shows "\<exists>q'. put_out q xs = Some q' \<and> wrote q xs q' \<and> room q' (n - length xs)"
proof -
  obtain b where b: "mem_write (obuf q) (ooff q + obytes q) xs = Some b"
    using assms by (simp add: mem_write_def room_def)
  have "(obytes q + length xs) mod U32 = obytes q + length xs" using assms by (simp add: room_def)
  moreover have "take (ooff q + obytes q + length xs) b = take (ooff q + obytes q) (obuf q) @ xs" by (rule mem_write_prefix [OF b])
  ultimately show ?thesis using b mem_write_length [OF b] assms by (simp add: put_out_def wrote_def room_def add.assoc)
qed

lemma wrote_trans: "wrote q xs q' \<Longrightarrow> wrote q' ys q'' \<Longrightarrow> wrote q (xs @ ys) q''"
  unfolding wrote_def by (auto simp: add.assoc)

lemma wrote_refl [simp]: "wrote q [] q" by (simp add: wrote_def)

text \<open>The loop and the rest, on the data field from \<open>pos\<close> on.\<close>

lemma t2_copy_full_ok:
  assumes "length t2 = T2_SIZE" "pos \<le> upl" "187 \<le> upl" "upl \<le> T2_SIZE - 188"
    "room q (length (ts_blocks (take (upl - pos) (drop pos t2))))"
  shows "\<exists>pos' q'. t2_copy_full t2 (upl - 187) 0 pos q = Some (False, pos', q') \<and> pos \<le> pos' \<and> pos' \<le> upl \<and> upl - 187 \<le> pos' \<and>
     room q' (length (ts_blocks (take (upl - pos') (drop pos' t2)))) \<and>
     (\<exists>xs. wrote q xs q' \<and> xs @ ts_blocks (take (upl - pos') (drop pos' t2)) = ts_blocks (take (upl - pos) (drop pos t2)))"
  using assms(2,5)
proof (induction "upl - pos" arbitrary: pos q rule: less_induct)
  case less
  show ?case
  proof (cases "pos < upl - 187")
    case True
    let ?d = "take (upl - pos) (drop pos t2)"
    have dl: "length ?d = upl - pos" using assms less.prems by simp
    have blk: "ts_blocks ?d = TS_SYNC_BYTE # take 187 (drop pos t2) @ ts_blocks (take (upl - (pos + 187)) (drop (pos + 187) t2))"
    proof -
      have "?d \<noteq> []" using dl True by auto
      moreover have "take 187 ?d = take 187 (drop pos t2)" using True by (simp add: min_absorb1)
      moreover have "drop 187 ?d = take (upl - (pos + 187)) (drop (pos + 187) t2)" by (simp add: drop_take add.commute)
      ultimately show ?thesis by (subst ts_blocks.simps) simp
    qed
    have l187: "length (take 187 (drop pos t2)) = 187" using True assms by simp
    have rm: "room q (188 + length (ts_blocks (take (upl - (pos + 187)) (drop (pos + 187) t2))))" using less.prems(2) blk l187 by simp
    obtain q1 where q1: "put_out q [TS_SYNC_BYTE] = Some q1" "wrote q [TS_SYNC_BYTE] q1"
      "room q1 (187 + length (ts_blocks (take (upl - (pos + 187)) (drop (pos + 187) t2))))"
      using put_out_room [OF rm, of "[TS_SYNC_BYTE]"] by auto
    obtain q2 where q2: "put_out q1 (take 187 (drop pos t2)) = Some q2" "wrote q1 (take 187 (drop pos t2)) q2"
      "room q2 (length (ts_blocks (take (upl - (pos + 187)) (drop (pos + 187) t2))))"
      using put_out_room [OF q1(3), of "take 187 (drop pos t2)"] l187 by auto
    have "upl - (pos + 187) < upl - pos" "pos + 187 \<le> upl" using True by simp_all
    from less.hyps [OF this q2(3)] obtain pos' q' xs where
      r: "t2_copy_full t2 (upl - 187) 0 (pos + 187) q2 = Some (False, pos', q')" "pos + 187 \<le> pos'" "pos' \<le> upl" "upl - 187 \<le> pos'"
      "room q' (length (ts_blocks (take (upl - pos') (drop pos' t2))))" "wrote q2 xs q'"
      "xs @ ts_blocks (take (upl - pos') (drop pos' t2)) = ts_blocks (take (upl - (pos + 187)) (drop (pos + 187) t2))" by blast
    have step: "t2_copy_full t2 (upl - 187) 0 pos q = Some (False, pos', q')"
      using True q1(1) q2(1) r(1) out_of_bounds_room [OF rm, of TS_PACKET_SIZE] assms
      by (subst t2_copy_full.simps) (simp add: mem_read_def T2_SIZE_def ts_sizes)
    have "wrote q ([TS_SYNC_BYTE] @ take 187 (drop pos t2) @ xs) q'"
      using wrote_trans [OF q1(2) wrote_trans [OF q2(2) r(6)]] by simp
    moreover have "([TS_SYNC_BYTE] @ take 187 (drop pos t2) @ xs) @ ts_blocks (take (upl - pos') (drop pos' t2)) = ts_blocks ?d"
      using r(7) blk by simp
    ultimately show ?thesis using step r by (meson le_add1 order_trans)
  next
    case False
    then show ?thesis using less.prems
      by (subst t2_copy_full.simps) (auto intro!: exI [of _ "[]"])
  qed
qed

text \<open>The data field of a T2-MI packet, its length in bytes, and where the first user packet starts in it.\<close>

definition t2_dfl :: "u8 list \<Rightarrow> nat" where "t2_dfl t2 = HILO (t2 ! 13) (t2 ! 14) div 8"
definition t2_syncd :: "u8 list \<Rightarrow> nat" where "t2_syncd t2 = HILO (t2 ! 16) (t2 ! 17) div 8"
definition t2_data :: "u8 list \<Rightarrow> u8 list" where "t2_data t2 = take (t2_dfl t2) (drop 19 t2)"

text \<open>What is put out: the end of the user packet that the last data field left open, then the others.\<close>

definition t2_stream :: "bool \<Rightarrow> u8 list \<Rightarrow> u8 list" where
  "t2_stream first t2 = (if first then [] else take (t2_syncd t2) (t2_data t2)) @ ts_blocks (drop (t2_syncd t2) (t2_data t2))"

text \<open>A data field that is processed as intended.\<close>

definition t2_regular :: "u8 list \<Rightarrow> bool \<Rightarrow> t2_out \<Rightarrow> bool" where
  "t2_regular t2 first q \<longleftrightarrow> length t2 = T2_SIZE \<and> \<not> bit (t2 ! 9) 2 \<and> 168 \<le> t2_dfl t2 \<and> t2_syncd t2 \<le> t2_dfl t2 \<and>
     t2_syncd t2 < 0x1FFF \<and> (ooff q + obytes q + (if first then 0 else t2_syncd t2)) mod TS_PACKET_SIZE = 0 \<and>
     room q (length (t2_stream first t2))"

lemma t2_extract_ok:
  assumes r: "t2_regular t2 first q"
  shows "\<exists>q'. t2_extract t2 first q = Some (False, q') \<and> wrote q (t2_stream first t2) q'"
proof -
  define upl where "upl = t2_dfl t2 + 19"
  define pos where "pos = 19 + t2_syncd t2"
  define head where "head = (if first then [] else take (t2_syncd t2) (t2_data t2))"
  have R: "length t2 = T2_SIZE" "\<not> bit (t2 ! 9) 2" "168 \<le> t2_dfl t2" "t2_syncd t2 \<le> t2_dfl t2" "t2_syncd t2 \<noteq> 0x1FFF"
    "(ooff q + obytes q + (if first then 0 else t2_syncd t2)) mod TS_PACKET_SIZE = 0" "room q (length (t2_stream first t2))"
    using r by (simp_all add: t2_regular_def)
  have d8: "t2_dfl t2 < 8192" using HILO_u16 [of "t2 ! 13" "t2 ! 14"] by (simp add: t2_dfl_def)
  have up: "pos \<le> upl" "187 \<le> upl" "upl \<le> T2_SIZE - 188" using R(3,4) d8 by (simp_all add: upl_def pos_def T2_SIZE_def ts_sizes)
  have data: "take (upl - pos) (drop pos t2) = drop (t2_syncd t2) (t2_data t2)"
    by (simp add: upl_def pos_def t2_data_def drop_take add.commute)
  have st: "t2_stream first t2 = head @ ts_blocks (take (upl - pos) (drop pos t2))" by (simp add: t2_stream_def head_def data)
  have hd: "head = (if first then [] else take (t2_syncd t2) (drop 19 t2))" using R(4) by (simp add: head_def t2_data_def min_absorb1)
  have lh: "length head = (if first then 0 else t2_syncd t2)" using R(1,4) d8 by (simp add: hd T2_SIZE_def ts_sizes)
  obtain q1 where q1: "put_out q head = Some q1" "wrote q head q1" "room q1 (length (ts_blocks (take (upl - pos) (drop pos t2))))"
    using put_out_room [OF R(7), of head] st by auto
  have no: "\<not> out_of_bounds q (length head)" by (rule out_of_bounds_room [OF R(7)]) (simp add: st)
  have al: "(ooff q1 + obytes q1) mod U32 mod TS_PACKET_SIZE = 0"
    using R(6) q1(2,3) lh by (simp add: wrote_def room_def add.assoc)
  have h1: "(if \<not> first \<and> t2_syncd t2 > 0 then
       let n = t2_syncd t2 - 0 in if n > T2_SIZE - 19 \<or> out_of_bounds q n then Some (True, q)
       else do { d \<leftarrow> mem_read t2 19 n; q \<leftarrow> put_out q d; Some (False, q) } else Some (False, q)) = Some (False, q1)"
  proof (cases "\<not> first \<and> t2_syncd t2 > 0")
    case True
    then have "mem_read t2 19 (t2_syncd t2) = Some head" using R(1,4) d8 hd by (simp add: mem_read_def T2_SIZE_def ts_sizes)
    then show ?thesis using True no lh q1(1) R(4) d8 by (simp add: T2_SIZE_def ts_sizes)
  next
    case False
    then have "head = []" using hd by auto
    then have "q1 = q" using q1 R(7) by (auto simp: put_out_def mem_write_def room_def)
    then show ?thesis using False by auto
  qed
  obtain pos' q2 xs where l: "t2_copy_full t2 (upl - 187) 0 pos q1 = Some (False, pos', q2)" "pos' \<le> upl" "upl - 187 \<le> pos'"
    "room q2 (length (ts_blocks (take (upl - pos') (drop pos' t2))))" "wrote q1 xs q2"
    "xs @ ts_blocks (take (upl - pos') (drop pos' t2)) = ts_blocks (take (upl - pos) (drop pos t2))"
    using t2_copy_full_ok [OF R(1) up q1(3)] by blast
  have w2: "wrote q (head @ xs) q2" by (rule wrote_trans [OF q1(2) l(5)])
  have E: "t2_extract t2 first q = (if pos' < upl then
           let part_size = upl - pos' in
           if pos' > T2_SIZE - (part_size + 1) \<or> out_of_bounds q2 (part_size + 1) then Some (False, q2)
           else do { q \<leftarrow> put_out q2 [TS_SYNC_BYTE]; d \<leftarrow> mem_read t2 pos' part_size; q \<leftarrow> put_out q d; Some (False, q)}
         else Some (False, q2))"
    using h1 l(1) al R(2,5) up(2)
    by (simp add: t2_extract_def t2_syncd_def [symmetric] t2_dfl_def [symmetric] upl_def [symmetric] pos_def [symmetric] Let_def)
  show ?thesis
  proof (cases "pos' < upl")
    case True
    let ?rest = "take (upl - pos') (drop pos' t2)"
    have lr: "length ?rest = upl - pos'" using up R(1) by simp
    have "length ?rest \<le> 187" using lr l(3) by simp
    moreover have "?rest \<noteq> []" using lr True by (metis length_0_conv zero_less_diff less_numeral_extra(3))
    ultimately have b: "ts_blocks ?rest = TS_SYNC_BYTE # ?rest" by (intro ts_blocks_short)
    have rm: "room q2 (Suc (upl - pos'))" using l(4) b lr by simp
    obtain q3 where q3: "put_out q2 [TS_SYNC_BYTE] = Some q3" "wrote q2 [TS_SYNC_BYTE] q3" "room q3 (upl - pos')"
      using put_out_room [OF rm, of "[TS_SYNC_BYTE]"] by auto
    obtain q4 where q4: "put_out q3 ?rest = Some q4" "wrote q3 ?rest q4" using put_out_room [OF q3(3), of ?rest] lr by auto
    have "t2_extract t2 first q = Some (False, q4)"
      using E True q3(1) q4(1) out_of_bounds_room [OF rm, of "upl - pos' + 1"] up R(1) by (simp add: mem_read_def T2_SIZE_def ts_sizes)
    moreover have "wrote q ((head @ xs) @ [TS_SYNC_BYTE] @ ?rest) q4" by (rule wrote_trans [OF w2 wrote_trans [OF q3(2) q4(2)]])
    ultimately show ?thesis using st l(6) b by auto
  next
    case False
    then have "ts_blocks (take (upl - pos') (drop pos' t2)) = []" by (simp add: ts_blocks.simps)
    then show ?thesis using E False w2 st l(6) by simp
  qed
qed

text \<open>A packet with payload only, of which the pointer field says that \<open>n\<close> bytes end the T2-MI packet.\<close>

definition t2_start_packet :: "u8 list \<Rightarrow> nat \<Rightarrow> nat \<Rightarrow> bool" where
  "t2_start_packet inp inoff n \<longleftrightarrow> inoff + TS_PACKET_SIZE \<le> length inp \<and> bf_get (inp ! (inoff + 3)) 4 2 = 1 \<and>
     bit (inp ! (inoff + 1)) 6 \<and> unat (inp ! (inoff + 4)) = n \<and> n < 183"

lemma t2_begin_ok:
  assumes "length (t2packet st) = T2_SIZE" "inoff + TS_PACKET_SIZE \<le> length inp" "offset < 184"
  shows "\<exists>st'. t2_begin st inp (inoff + 4) 184 offset = Some st' \<and> t2mi_first st' = t2mi_first st \<and> length (t2packet st') = T2_SIZE \<and>
     (inp ! (inoff + 4 + offset) = 0 \<longrightarrow> t2mi_active st' \<and> t2packetpos st' = 184 - offset \<and>
        take (184 - offset) (t2packet st') = take (184 - offset) (drop (inoff + 4 + offset) inp)) \<and>
     (inp ! (inoff + 4 + offset) \<noteq> 0 \<longrightarrow> st' = st)"
proof -
  have r: "rd inp (inoff + 4 + offset) = Some (inp ! (inoff + 4 + offset))" using assms by (simp add: rd_def ts_sizes)
  have m: "mem_read inp (inoff + 4 + offset) (184 - offset) = Some (take (184 - offset) (drop (inoff + 4 + offset) inp))"
    using assms by (simp add: mem_read_def ts_sizes)
  show ?thesis using assms by (auto simp: t2_begin_def r m mem_write_def T2_SIZE_def ts_sizes)
qed

text \<open>
  C20. When the packet arrives that completes a T2-MI packet of the selected PLP, its data field goes to
  the output: the end of the user packet that was left open, then every user packet behind a sync
  byte, the last one as far as the field goes. With the field of the next T2-MI packet the stream
  is continued without a gap. The field must be at least 168 bytes long, without deleted null
  packets, and the output has to be aligned so that the open user packet is completed.
\<close>

theorem processt2_extracts:
  assumes act: "t2mi_active st" and len: "length (t2packet st) = T2_SIZE" and p: "t2_start_packet inp inoff n"
    and fit: "t2packetpos st + n \<le> T2_SIZE"
    and t2: "t2 = take (t2packetpos st) (t2packet st) @ take n (drop (inoff + 5) inp) @ drop (t2packetpos st + n) (t2packet st)"
    and plp: "sint (t2 ! 7) = uint plp" and r: "t2_regular t2 (t2mi_first st) (q\<lparr>obytes := 0\<rparr>)"
  shows "\<exists>st' q'. processt2 st inp inoff plp q = Some (st', q') \<and>
     wrote (q\<lparr>obytes := 0\<rparr>) (t2_stream (t2mi_first st) t2) q' \<and> \<not> t2mi_first st' \<and>
     (t2mi_active st' \<longleftrightarrow> inp ! (inoff + 5 + n) = 0)"
proof -
  have P: "inoff + TS_PACKET_SIZE \<le> length inp" "bf_get (inp ! (inoff + 3)) 4 2 = 1" "bit (inp ! (inoff + 1)) 6"
    "unat (inp ! (inoff + 4)) = n" "n < 183" using p by (simp_all add: t2_start_packet_def)
  have rds: "rd inp (inoff + 1) = Some (inp ! (inoff + 1))" "rd inp (inoff + 3) = Some (inp ! (inoff + 3))"
    "rd inp (inoff + 4) = Some (inp ! (inoff + 4))" using P(1) by (simp_all add: rd_def ts_sizes)
  obtain q' where q': "t2_extract t2 (t2mi_first st) (q\<lparr>obytes := 0\<rparr>) = Some (False, q')"
    "wrote (q\<lparr>obytes := 0\<rparr>) (t2_stream (t2mi_first st) t2) q'" using t2_extract_ok [OF r] by blast
  define st1 where "st1 = st\<lparr>t2packet := t2\<rparr>"
  have cp: "n \<noteq> 0 \<Longrightarrow> mem_read inp (5 + inoff) n = Some (take n (drop (inoff + 5) inp)) \<and>
      mem_write (t2packet st) (t2packetpos st) (take n (drop (inoff + 5) inp)) = Some t2"
    using P(1,5) fit len by (simp add: mem_read_def mem_write_def t2 ts_sizes add.commute)
  have cp0: "n = 0 \<Longrightarrow> st1 = st" by (simp add: st1_def t2)
  define st2 where "st2 = st1\<lparr>t2mi_active := False, t2mi_first := False, t2packet := replicate T2_SIZE 0\<rparr>"
  have fl: "t2_flush st1 plp (q\<lparr>obytes := 0\<rparr>) = Some (st2, q')" using plp q'(1) by (simp add: t2_flush_def st1_def st2_def)
  obtain st3 where st3: "t2_begin st2 inp (inoff + 4) 184 (1 + n) = Some st3" "t2mi_first st3 = t2mi_first st2"
    "inp ! (inoff + 4 + (1 + n)) = 0 \<longrightarrow> t2mi_active st3" "inp ! (inoff + 4 + (1 + n)) \<noteq> 0 \<longrightarrow> st3 = st2"
    using t2_begin_ok [of st2 inoff inp "1 + n"] P(1,5) by (auto simp: st2_def)
  have "processt2 st inp inoff plp q = Some (st3, q')"
    using P rds act cp cp0 fl st3(1) by (cases "n = 0") (simp_all add: processt2_def t2_payload_def Let_def ts_sizes st1_def)
  moreover have "t2mi_active st3 \<longleftrightarrow> inp ! (inoff + 5 + n) = 0"
    using st3(3,4) by (auto simp: st2_def add.commute add.left_commute)
  ultimately show ?thesis using q'(2) st3(2) by (auto simp: st2_def)
qed

text \<open>Nothing limits the bytes that are collected: without the start of a packet the buffer is written past its end.\<close>

lemma processt2_collect_overflow:
  assumes "t2mi_active st" "length (t2packet st) = T2_SIZE" "inoff + TS_PACKET_SIZE \<le> length inp"
    and "bf_get (inp ! (inoff + 3)) 4 2 = 1" "\<not> bit (inp ! (inoff + 1)) 6"
  shows "processt2 st inp inoff plp q = None \<longleftrightarrow> T2_SIZE < t2packetpos st + 184"
  using assms by (auto simp: processt2_def t2_payload_def rd_def mem_read_def mem_write_def ts_sizes Let_def)

text \<open>
  When the output of the last call ended inside a user packet, and the T2-MI packet with its end
  is lost, the next one whose data field starts with a user packet makes the byte count of the call
  wrap below zero: the output is written 4 gigabytes behind the buffer.
\<close>

theorem t2_extract_misaligned:
  assumes len: "length t2 = T2_SIZE" and s: "t2_syncd t2 = 0" and d: "188 \<le> t2_dfl t2"
    and q: "obytes q = 0" "ooff q mod TS_PACKET_SIZE \<noteq> 0" "ooff q + TS_PACKET_SIZE \<le> osize q" "osize q \<le> length (obuf q)"
    "length (obuf q) \<le> 2 ^ 31"
  shows "t2_extract t2 False q = None"
proof -
  define part where "part = ooff q mod TS_PACKET_SIZE"
  have p: "0 < part" "part < 188" "part \<le> ooff q" using q(2) by (simp_all add: part_def ts_sizes)
  define q1 where "q1 = q\<lparr>obytes := U32 - part\<rparr>"
  have oo: "ooff q < U32" using q by (simp add: U32_def)
  have mm: "ooff q mod U32 mod TS_PACKET_SIZE = part" using oo by (simp add: part_def)
  have ob: "(obytes q + U32 - part) mod U32 = U32 - part" using p q(1) by (simp add: U32_def)
  have "ooff q1 + obytes q1 + 188 = U32 + (ooff q - part + 188)" using p by (simp add: q1_def U32_def)
  then have "(ooff q1 + obytes q1 + 188) mod U32 = (ooff q - part + 188) mod U32" by (metis mod_add_self1)
  also have "\<dots> = ooff q - part + 188" using q p by (simp add: U32_def ts_sizes)
  finally have nb: "\<not> out_of_bounds q1 TS_PACKET_SIZE" using q(3) p by (simp add: out_of_bounds_def q1_def ts_sizes)
  have put: "put_out q1 [TS_SYNC_BYTE] = None" using p q oo by (simp add: put_out_def mem_write_def q1_def U32_def)
  have lim: "19 < t2_dfl t2 + 19 - 187" using d by simp
  have d8: "t2_dfl t2 < 8192" using HILO_u16 [of "t2 ! 13" "t2 ! 14"] by (simp add: t2_dfl_def)
  have cf: "t2_copy_full t2 (t2_dfl t2 + 19 - 187) dnp 19 q1 = None" for dnp
    using lim nb put by (subst t2_copy_full.simps) (simp add: T2_SIZE_def ts_sizes)
  then have cf': "t2_copy_full t2 (t2_dfl t2 - 168) dnp 19 q1 = None" for dnp by simp
  show ?thesis
    using s d q(1) p(1) mm ob d8
    by (simp add: t2_extract_def t2_syncd_def [symmetric] t2_dfl_def [symmetric] Let_def q1_def [symmetric] cf')
qed

section \<open>Witnesses\<close>

text \<open>A T2-MI packet of PLP 0 with a data field of 374 bytes: two user packets.\<close>

definition sample_t2 :: "u8 list" where
  "sample_t2 = (replicate T2_SIZE 0)[13 := 0x0B, 14 := 0xB0]"

definition sample_t2_state :: t2_state where
  "sample_t2_state = \<lparr>t2mi_active = True, t2mi_first = True, t2packetpos = 400, t2packet = sample_t2\<rparr>"

definition sample_t2_input :: "u8 list" where
  "sample_t2_input = [0x47, 0x40, 0, 0x10, 0, 0xFF] @ replicate 182 0"

definition sample_t2_out :: t2_out where
  "sample_t2_out = \<lparr>obuf = replicate 1000 0, ooff = 0, osize = 1000, obytes = 0\<rparr>"

lemma sample_t2_facts:
  "length sample_t2 = T2_SIZE" "t2_dfl sample_t2 = 374" "t2_syncd sample_t2 = 0" "\<not> bit (sample_t2 ! 9) 2" "sample_t2 ! 7 = 0"
  "t2_data sample_t2 = replicate 374 0"
proof -
  show 1: "length sample_t2 = T2_SIZE" by (simp add: sample_t2_def)
  show 2: "t2_dfl sample_t2 = 374" "t2_syncd sample_t2 = 0" "\<not> bit (sample_t2 ! 9) 2" "sample_t2 ! 7 = 0"
    by (simp_all add: t2_dfl_def t2_syncd_def sample_t2_def T2_SIZE_def ts_sizes HILO_eq nth_list_update)
  show "t2_data sample_t2 = replicate 374 0"
    by (rule nth_equalityI) (simp_all add: t2_data_def 2 1 T2_SIZE_def ts_sizes, simp add: sample_t2_def T2_SIZE_def ts_sizes)
qed

theorem processt2_extracts_witness:
  "\<exists>st' q'. processt2 sample_t2_state sample_t2_input 0 0 sample_t2_out = Some (st', q') \<and>
     obytes q' = 376 \<and> \<not> t2mi_active st'"
proof -
  have b: "ts_blocks (replicate 374 0) = TS_SYNC_BYTE # replicate 187 0 @ TS_SYNC_BYTE # replicate 187 0"
    by (simp add: ts_blocks.simps)
  have st: "t2_stream True sample_t2 = TS_SYNC_BYTE # replicate 187 0 @ TS_SYNC_BYTE # replicate 187 0"
    by (simp add: t2_stream_def sample_t2_facts b)
  have r: "t2_regular sample_t2 True (sample_t2_out\<lparr>obytes := 0\<rparr>)"
    by (simp add: t2_regular_def sample_t2_facts st sample_t2_out_def room_def U32_def)
  have p: "t2_start_packet sample_t2_input 0 0"
    by (simp add: t2_start_packet_def sample_t2_input_def bf_get_def ts_sizes bit_word_iff_drop_bit_and)
  have "\<exists>st' q'. processt2 sample_t2_state sample_t2_input 0 0 sample_t2_out = Some (st', q') \<and>
     wrote (sample_t2_out\<lparr>obytes := 0\<rparr>) (t2_stream (t2mi_first sample_t2_state) sample_t2) q' \<and> \<not> t2mi_first st' \<and>
     (t2mi_active st' \<longleftrightarrow> sample_t2_input ! (0 + 5 + 0) = 0)"
    by (rule processt2_extracts [OF _ _ p]) (use r in \<open>simp_all add: sample_t2_state_def sample_t2_facts T2_SIZE_def ts_sizes\<close>)
  then show ?thesis by (auto simp: wrote_def sample_t2_state_def st sample_t2_input_def)
qed

theorem t2_extract_misaligned_witness:
  "t2_extract sample_t2 False (sample_t2_out\<lparr>ooff := 100\<rparr>) = None"
  by (rule t2_extract_misaligned) (simp_all add: sample_t2_facts sample_t2_out_def ts_sizes)

end
