(* ===== verification/Autoconf.thy ===== *)
theory Autoconf
  imports Channels Mumu_Strings
begin

text \<open>
  The state of the autoconfiguration, \<^verbatim>\<open>src/src/autoconf.h\<close>, its initial values and what the readers
  of the tables share. The members that exist once for each of PAT, CAT, SDT, NIT and PSIP
  (\<^verbatim>\<open>autoconf_temp_pat\<close>, \<^verbatim>\<open>pat_need_update\<close>, \<^verbatim>\<open>pat_version\<close>, \<^verbatim>\<open>pat_sections_seen\<close>,
  \<^verbatim>\<open>pat_all_sections_seen\<close>) are a record \<open>psi_table\<close>, of which there are five.

  The lemmas show that the sections seen are counted right: all sections are seen exactly when
  none up to the last is missing.
\<close>

section \<open>State\<close>

record psi_table =
  temp_packet :: mumudvb_ts_packet_t
  need_update :: bool
  seen_version :: int
  sections_seen :: "bool list"
  all_sections_seen :: bool

record auto_p_t =
  autoconfiguration :: nat
  autoconf_radios :: bool
  autoconf_ip4 :: string
  autoconf_ip6 :: string
  transport_stream_id :: int
  network_id :: int
  original_network_id :: int
  autoconf_scrambled :: bool
  a_pat :: psi_table
  a_cat :: psi_table
  a_sdt :: psi_table
  a_nit :: psi_table
  a_psip :: psi_table
  need_filter_chan_update :: bool
  autoconf_unicast_port :: string
  autoconf_multicast_port :: string
  service_id_list :: "int list"
  num_service_id :: nat
  service_id_list_ignore :: "int list"
  num_service_id_ignore :: nat
  name_template :: string
  ca_system_list :: "(int \<times> nat) list"

definition AUTOCONF_MODE_FULL :: nat where "AUTOCONF_MODE_FULL = 2"

definition init_psi_table :: "int \<Rightarrow> psi_table" where
  "init_psi_table v = \<lparr>temp_packet = empty_ts_packet, need_update = False, seen_version = v,
     sections_seen = replicate 256 False, all_sections_seen = False\<rparr>"

definition init_aconf_v :: auto_p_t where
  "init_aconf_v = \<lparr>autoconfiguration = 0, autoconf_radios = False, autoconf_ip4 = ''239.100.%card.%number'',
     autoconf_ip6 = ''FF15:4242::%server:%card:%number'', transport_stream_id = -1, network_id = -1,
     original_network_id = -1, autoconf_scrambled = False, a_pat = init_psi_table (-1), a_cat = init_psi_table 0,
     a_sdt = init_psi_table (-1), a_nit = init_psi_table (-1), a_psip = init_psi_table 0,
     need_filter_chan_update = False, autoconf_unicast_port = [], autoconf_multicast_port = [],
     service_id_list = replicate MAX_CHANNELS 0, num_service_id = 0,
     service_id_list_ignore = replicate MAX_CHANNELS 0, num_service_id_ignore = 0, name_template = [],
     ca_system_list = replicate MAX_CA_SYSTEMS (0, 0)\<rparr>"

definition autoconf_clear_ca_system_list :: "auto_p_t \<Rightarrow> auto_p_t" where
  "autoconf_clear_ca_system_list a = a\<lparr>ca_system_list := map (\<lambda>(_, pd). (-1, pd)) (ca_system_list a)\<rparr>"

section \<open>Does a table need to be read?\<close>

text \<open>
  The tests on the first packet of a section, for PAT, CAT and SDT alike; \<open>tid\<close> is the table id asked for, if
  any. A wrong need is taken back when all sections have been seen.
\<close>

definition psi_need_update :: "u8 option \<Rightarrow> psi_table \<Rightarrow> u8 list \<Rightarrow> psi_table option" where
  "psi_need_update tid t b = do {
     begin \<leftarrow> get_ts_begin b;
     case begin of None \<Rightarrow> Some t
     | Some off \<Rightarrow> do {
         v \<leftarrow> tbl_version b off;
         i \<leftarrow> rd b off;
         if v \<noteq> seen_version t \<and> (tid = None \<or> tid = Some i) then do {
           current \<leftarrow> tbl_current_next b off;
           if \<not> current then Some t else Some (t\<lparr>need_update := True\<rparr>)}
         else if all_sections_seen t \<and> need_update t then Some (t\<lparr>need_update := False\<rparr>)
         else Some t}}"

definition autoconf_pat_need_update :: "auto_p_t \<Rightarrow> u8 list \<Rightarrow> auto_p_t option" where
  "autoconf_pat_need_update a b = do { t \<leftarrow> psi_need_update None (a_pat a) b; Some (a\<lparr>a_pat := t\<rparr>)}"

definition autoconf_cat_need_update :: "auto_p_t \<Rightarrow> u8 list \<Rightarrow> auto_p_t option" where
  "autoconf_cat_need_update a b = do { t \<leftarrow> psi_need_update None (a_cat a) b; Some (a\<lparr>a_cat := t\<rparr>)}"

definition autoconf_sdt_need_update :: "auto_p_t \<Rightarrow> u8 list \<Rightarrow> auto_p_t option" where
  "autoconf_sdt_need_update a b = do { t \<leftarrow> psi_need_update (Some 0x42) (a_sdt a) b; Some (a\<lparr>a_sdt := t\<rparr>)}"

definition autoconf_nit_need_update :: "auto_p_t \<Rightarrow> u8 list \<Rightarrow> auto_p_t option" where
  "autoconf_nit_need_update a b = do {
     begin \<leftarrow> get_ts_begin b;
     case begin of None \<Rightarrow> Some a
     | Some off \<Rightarrow> do {
         v \<leftarrow> tbl_version b off;
         i \<leftarrow> rd b off;
         if v \<noteq> seen_version (a_nit a) \<and> i = 0x40 \<and> \<not> all_sections_seen (a_nit a) then do {
           current \<leftarrow> tbl_current_next b off;
           if \<not> current then Some a else Some (a\<lparr>a_nit := (a_nit a)\<lparr>need_update := True\<rparr>\<rparr>)}
         else Some a}}"

section \<open>Sections\<close>

text \<open>A new version: no section has been seen.\<close>

definition psi_new_version :: "int \<Rightarrow> psi_table \<Rightarrow> psi_table" where
  "psi_new_version v t = t\<lparr>sections_seen := replicate 256 False, seen_version := v, all_sections_seen := False\<rparr>"

definition psi_seen :: "nat \<Rightarrow> psi_table \<Rightarrow> psi_table" where
  "psi_seen n t = t\<lparr>sections_seen := (sections_seen t)[n := True]\<rparr>"

text \<open>The sections up to \<open>l\<close> that have not been seen.\<close>

definition sections_missing :: "nat \<Rightarrow> psi_table \<Rightarrow> nat" where
  "sections_missing l t = length (filter Not (take (l + 1) (sections_seen t)))"

definition psi_complete :: "psi_table \<Rightarrow> psi_table" where
  "psi_complete t = t\<lparr>all_sections_seen := True, need_update := False\<rparr>"

text \<open>The body of the loops \<open>for(i=0;i<number_of_channels && i<MAX_CHANNELS;i++)\<close>.\<close>

definition for_channels :: "(mumudvb_channel_t \<Rightarrow> mumudvb_channel_t) \<Rightarrow> mumu_chan_p_t \<Rightarrow> mumu_chan_p_t" where
  "for_channels f cp = (let n = min (number_of_channels cp) MAX_CHANNELS in
     cp\<lparr>channels := map f (take n (channels cp)) @ drop n (channels cp)\<rparr>)"

text \<open>The search for a service: the last channel that has the number.\<close>

definition find_service :: "nat \<Rightarrow> mumu_chan_p_t \<Rightarrow> nat option" where
  "find_service sid cp = fold (\<lambda>i found. if mumudvb_channel_t.service_id (channels cp ! i) = sid then Some i else found)
     [0..<min (number_of_channels cp) MAX_CHANNELS] None"

definition psi_wf :: "psi_table \<Rightarrow> bool" where
  "psi_wf t \<longleftrightarrow> length (sections_seen t) = 256 \<and> ts_inv (temp_packet t)"

lemma psi_wf_more [simp]:
  "psi_wf (t\<lparr>need_update := u\<rparr>) = psi_wf t" "psi_wf (t\<lparr>all_sections_seen := m\<rparr>) = psi_wf t"
  "psi_wf (t\<lparr>seen_version := v\<rparr>) = psi_wf t" "psi_wf (psi_complete t) = psi_wf t"
  "psi_wf (psi_seen n t) = psi_wf t" "psi_wf t \<Longrightarrow> psi_wf (psi_new_version v t)"
  by (simp_all add: psi_wf_def psi_complete_def psi_seen_def psi_new_version_def)

lemma psi_wf_init: "psi_wf (init_psi_table v)"
  by (simp add: psi_wf_def init_psi_table_def ts_inv_empty)

lemma sections_missing_0:
  "l < length (sections_seen t) \<Longrightarrow> sections_missing l t = 0 \<longleftrightarrow> (\<forall>i \<le> l. sections_seen t ! i)"
proof -
  assume l: "l < length (sections_seen t)"
  then have "sections_missing l t = 0 \<longleftrightarrow> (\<forall>i < l + 1. take (l + 1) (sections_seen t) ! i)"
    by (simp add: sections_missing_def filter_empty_conv list_all_iff [symmetric] list_all_length)
  also have "\<dots> \<longleftrightarrow> (\<forall>i \<le> l. sections_seen t ! i)" by (auto simp: less_Suc_eq_le)
  finally show ?thesis .
qed

lemma psi_need_update_total:
  assumes "need_bytes \<le> length b"
  shows "\<exists>n. psi_need_update tid t b = Some (t\<lparr>need_update := n\<rparr>)"
proof -
  have same: "\<exists>n. t = t\<lparr>need_update := n\<rparr>" by (rule exI [of _ "need_update t"]) simp
  obtain r where "get_ts_begin b = Some r" "\<forall>off. r = Some off \<longrightarrow> off \<le> TS_PACKET_SIZE"
    using get_ts_begin_total [of b] assms by (auto simp: need_bytes_def)
  then show ?thesis using assms same
    by (auto simp: psi_need_update_def tbl_version_def tbl_current_next_def mem_simps need_bytes_def
        split: option.split)
qed

lemma length_for_channels [simp]: "length (channels (for_channels f cp)) = length (channels cp)"
  by (simp add: for_channels_def Let_def)

lemma nth_for_channels:
  "i < length (channels cp) \<Longrightarrow> channels (for_channels f cp) ! i =
     (if i < number_of_channels cp \<and> i < MAX_CHANNELS then f (channels cp ! i) else channels cp ! i)"
  by (auto simp: for_channels_def Let_def nth_append)

lemma for_channels_number [simp]: "number_of_channels (for_channels f cp) = number_of_channels cp"
  "asked_pid (for_channels f cp) = asked_pid cp" "t2mi_pid (for_channels f cp) = t2mi_pid cp"
  by (simp_all add: for_channels_def Let_def)

lemma fold_find:
  "fold (\<lambda>i found. if P i then Some i else found) xs r =
     (if \<exists>i \<in> set xs. P i then Some (last (filter P xs)) else r)"
proof (induction xs arbitrary: r)
  case (Cons x xs)
  then show ?case by (cases "\<exists>i \<in> set xs. P i") (auto simp: filter_empty_conv)
qed simp

lemma find_service_None:
  "find_service sid cp = None \<longleftrightarrow> (\<forall>i < min (number_of_channels cp) MAX_CHANNELS.
     mumudvb_channel_t.service_id (channels cp ! i) \<noteq> sid)"
  by (auto simp: find_service_def fold_find)

lemma find_service_Some:
  assumes "find_service sid cp = Some i"
  shows "i < number_of_channels cp \<and> i < MAX_CHANNELS \<and> mumudvb_channel_t.service_id (channels cp ! i) = sid"
proof -
  let ?P = "\<lambda>i. mumudvb_channel_t.service_id (channels cp ! i) = sid"
  let ?xs = "[0..<min (number_of_channels cp) MAX_CHANNELS]"
  have "\<exists>i \<in> set ?xs. ?P i" "i = last (filter ?P ?xs)"
    using assms by (auto simp: find_service_def fold_find split: if_splits)
  then have "i \<in> set (filter ?P ?xs)" using last_in_set [of "filter ?P ?xs"] by (auto simp: filter_empty_conv)
  then show ?thesis by auto
qed

end
