(* ===== verification/Descriptors.thy ===== *)
theory Descriptors
  imports Autoconf
begin

text \<open>
  Loops of descriptors, as the tables carry them: a tag, a length and a payload. What a memory
  holds at an offset, the encoding of a list of descriptors, and the search for a descriptor of
  \<^verbatim>\<open>src/src/autoconf_pmt.c\<close> (\<^verbatim>\<open>pmt_find_descriptor\<close>), on which the readers of the tables rest.

  The lemmas show that the search finds the first descriptor of the tag in every encoded list and
  steps from one to the next.
\<close>

section \<open>What the memory holds\<close>

definition holds_at :: "'a list \<Rightarrow> nat \<Rightarrow> 'a list \<Rightarrow> bool" where
  "holds_at b off xs \<longleftrightarrow> mem_read b off (length xs) = Some xs"

lemma holds_at_iff: "holds_at b off xs \<longleftrightarrow> off + length xs \<le> length b \<and> take (length xs) (drop off b) = xs"
  by (auto simp: holds_at_def mem_read_def)

lemma holds_at_ex: "holds_at b off xs \<longleftrightarrow> (\<exists>p s. b = p @ xs @ s \<and> length p = off)"
proof
  assume h: "holds_at b off xs"
  then have "b = take off b @ xs @ drop (off + length xs) b"
    by (metis append_take_drop_id drop_drop holds_at_iff add.commute)
  then show "\<exists>p s. b = p @ xs @ s \<and> length p = off"
    using h by (intro exI [of _ "take off b"] exI [of _ "drop (off + length xs) b"]) (simp add: holds_at_iff)
qed (auto simp: holds_at_iff)

lemma holds_at_append [simp]:
  "holds_at b off (xs @ ys) \<longleftrightarrow> holds_at b off xs \<and> holds_at b (off + length xs) ys"
proof
  assume "holds_at b off (xs @ ys)"
  then obtain p s where b: "b = p @ (xs @ ys) @ s" "length p = off" by (auto simp: holds_at_ex)
  then show "holds_at b off xs \<and> holds_at b (off + length xs) ys" by (auto simp: holds_at_iff)
next
  assume h: "holds_at b off xs \<and> holds_at b (off + length xs) ys"
  then have "take (length xs) (drop off b) = xs" "take (length ys) (drop (length xs) (drop off b)) = ys"
    by (auto simp: holds_at_iff add.commute)
  then have "take (length xs + length ys) (drop off b) = xs @ ys" by (metis take_add)
  then show "holds_at b off (xs @ ys)" using h by (simp add: holds_at_iff)
qed

lemma holds_at_rd:
  assumes "holds_at b off xs" "i < length xs"
  shows "rd b (off + i) = Some (xs ! i)"
proof -
  obtain p s where b: "b = p @ xs @ s" "length p = off" using assms(1) by (auto simp: holds_at_ex)
  have "(p @ xs @ s) ! (length p + i) = xs ! i" using assms(2) by (simp only: nth_append_length_plus nth_append_left)
  then show ?thesis using assms(2) b by (simp add: rd_def)
qed

lemma holds_at_Cons: "holds_at b off (x # xs) \<longleftrightarrow> rd b off = Some x \<and> holds_at b (off + 1) xs"
proof -
  have "holds_at b off [x] \<longleftrightarrow> rd b off = Some x"
    by (auto simp: holds_at_iff rd_def take_Suc_conv_app_nth hd_drop_conv_nth take_Suc)
  then show ?thesis using holds_at_append [of b off "[x]" xs] by simp
qed

lemma holds_at_Nil [simp]: "holds_at b off [] \<longleftrightarrow> off \<le> length b"
  by (simp add: holds_at_iff)

lemma holds_at_prefix: "holds_at (p @ xs @ s) (length p) xs"
  by (auto simp: holds_at_ex)

context c_struct
begin

lemma at_holds:
  assumes "holds_at b off xs" "len \<le> length xs"
  shows "struct_at len dec b off = Some (dec xs)"
proof -
  have x: "take (length xs) (drop off b) = xs" "off + length xs \<le> length b" using assms(1) by (auto simp: holds_at_iff)
  have "take len (drop off b) = take len xs" using x assms(2) by (metis min.absorb1 take_take)
  then have "dec (drop off b) = dec xs" using dec_cong [of "drop off b"] dec_cong [of xs] x assms(2) by simp
  then show ?thesis using x assms(2) by (simp add: struct_at_def)
qed

end

section \<open>Descriptors\<close>

type_synonym descriptor = "u8 \<times> u8 list"

definition descr_bytes :: "descriptor \<Rightarrow> u8 list" where
  "descr_bytes d = fst d # of_nat (length (snd d)) # snd d"

definition descrs_bytes :: "descriptor list \<Rightarrow> u8 list" where
  "descrs_bytes ds = concat (map descr_bytes ds)"

definition descr_ok :: "descriptor \<Rightarrow> bool" where
  "descr_ok d \<longleftrightarrow> length (snd d) < 256"

lemma length_descr_bytes [simp]: "length (descr_bytes d) = length (snd d) + 2"
  by (simp add: descr_bytes_def)

lemma descrs_bytes_simps [simp]:
  "descrs_bytes [] = []" "descrs_bytes (d # ds) = descr_bytes d @ descrs_bytes ds"
  by (simp_all add: descrs_bytes_def)

lemma descrs_bytes_append [simp]: "descrs_bytes (ds @ es) = descrs_bytes ds @ descrs_bytes es"
  by (simp add: descrs_bytes_def)

lemma unat_small: "n < 256 \<Longrightarrow> unat (of_nat n :: u8) = n"
  by (simp add: unat_of_nat take_bit_nat_eq_self)

text \<open>The two bytes at the start of a descriptor.\<close>

lemma descr_start:
  assumes "holds_at b off (descr_bytes d)" "descr_ok d"
  obtains l where "rd b off = Some (fst d)" "rd b (off + 1) = Some l" "unat l = length (snd d)"
proof
  show "rd b off = Some (fst d)" "rd b (off + 1) = Some (of_nat (length (snd d)))"
    using assms(1) by (auto simp: descr_bytes_def holds_at_Cons)
  show "unat (of_nat (length (snd d)) :: u8) = length (snd d)"
    using assms(2) by (simp add: descr_ok_def unat_small)
qed

text \<open>The same, with the length of the whole descriptor computed in an \<^verbatim>\<open>unsigned char\<close>.\<close>

lemma unat_descr_len: "n < 254 \<Longrightarrow> unat ((of_nat n :: u8) + 2) = n + 2"
proof -
  assume n: "n < 254"
  have "(of_nat n :: u8) + 2 = of_nat (n + 2)" by simp
  then show ?thesis using n unat_small [of "n + 2"] by (simp only:)
qed

lemma descr_start_len:
  assumes "holds_at b off (descr_bytes d)" "length (snd d) < 254"
  obtains l where "rd b off = Some (fst d)" "rd b (off + 1) = Some l" "unat (l + 2) = length (snd d) + 2"
  using assms by (auto simp: descr_bytes_def holds_at_Cons unat_descr_len)

lemma descr_payload:
  assumes "holds_at b off (descr_bytes d)" "i < length (snd d)"
  shows "rd b (off + 2 + i) = Some (snd d ! i)"
  using holds_at_rd [OF assms(1), of "i + 2"] assms(2) by (simp add: descr_bytes_def add.assoc add.commute [of i 2])

section \<open>The search for a descriptor\<close>

text \<open>
  The loop starts at \<open>base + pos\<close> and ends when \<open>len\<close> bytes have been passed. The result is the length of
  the descriptor with its first two bytes, or 0, and the position reached; without the argument
  \<^verbatim>\<open>pos\<close> the position is 0 and its new value is not used.
\<close>

function pmt_find_descriptor :: "u8 \<Rightarrow> u8 list \<Rightarrow> nat \<Rightarrow> nat \<Rightarrow> nat \<Rightarrow> (nat \<times> nat) option" where
  "pmt_find_descriptor tag b base len p =
     (if p < len then
        (case rd b (base + p) of None \<Rightarrow> None
         | Some t \<Rightarrow> (case rd b (base + p + 1) of None \<Rightarrow> None
            | Some l \<Rightarrow> if tag = t then Some (unat l + 2, p)
                else pmt_find_descriptor tag b base len (p + (unat l + 2))))
      else Some (0, p))"
  by pat_completeness auto
termination
  by (relation "measure (\<lambda>(tag, b, base, len, p). len - p)") auto

declare pmt_find_descriptor.simps [simp del]

text \<open>In an encoded list: the first descriptor of the tag, behind those that were skipped.\<close>

lemma pmt_find_descriptor_step:
  assumes "holds_at b (base + p) (descr_bytes d)" "descr_ok d" "p < len"
  shows "pmt_find_descriptor tag b base len p =
     (if fst d = tag then Some (length (snd d) + 2, p) else pmt_find_descriptor tag b base len (p + (length (snd d) + 2)))"
proof -
  obtain l where "rd b (base + p) = Some (fst d)" "rd b (base + p + 1) = Some l" "unat l = length (snd d)"
    using descr_start [OF assms(1,2)] by blast
  then show ?thesis using assms(3) by (subst pmt_find_descriptor.simps) auto
qed

lemma pmt_find_descriptor_found:
  "holds_at b (base + p) (descrs_bytes (ds @ d # es)) \<Longrightarrow> \<forall>x \<in> set ds. descr_ok x \<and> fst x \<noteq> tag \<Longrightarrow>
   descr_ok d \<Longrightarrow> fst d = tag \<Longrightarrow> p + length (descrs_bytes (ds @ d # es)) \<le> len \<Longrightarrow>
   pmt_find_descriptor tag b base len p = Some (length (snd d) + 2, p + length (descrs_bytes ds))"
proof (induction ds arbitrary: p)
  case Nil
  then show ?case using pmt_find_descriptor_step [of b base p d len tag] by simp
next
  case (Cons x ds)
  have "pmt_find_descriptor tag b base len (p + (length (snd x) + 2)) =
     Some (length (snd d) + 2, p + (length (snd x) + 2) + length (descrs_bytes ds))"
    using Cons.prems by (intro Cons.IH) (auto simp: add.assoc)
  then show ?case using Cons.prems pmt_find_descriptor_step [of b base p x len tag] by (simp add: add.assoc)
qed

lemma pmt_find_descriptor_none:
  "holds_at b (base + p) (descrs_bytes ds) \<Longrightarrow> \<forall>x \<in> set ds. descr_ok x \<and> fst x \<noteq> tag \<Longrightarrow>
   len = p + length (descrs_bytes ds) \<Longrightarrow> pmt_find_descriptor tag b base len p = Some (0, len)"
proof (induction ds arbitrary: p)
  case Nil
  then show ?case by (subst pmt_find_descriptor.simps) simp
next
  case (Cons x ds)
  have "pmt_find_descriptor tag b base len (p + (length (snd x) + 2)) = Some (0, len)"
    using Cons.prems by (intro Cons.IH) (auto simp: add.assoc)
  then show ?case using Cons.prems pmt_find_descriptor_step [of b base p x len tag] by simp
qed

text \<open>Whether there is one: the search from the start, with its position thrown away.\<close>

definition has_descr :: "u8 \<Rightarrow> descriptor list \<Rightarrow> bool" where
  "has_descr tag ds \<longleftrightarrow> (\<exists>d \<in> set ds. fst d = tag)"

lemma find_split:
  assumes "find (\<lambda>d. fst d = tag) ds = Some d"
  obtains xs ys where "ds = xs @ d # ys" "\<forall>x \<in> set xs. fst x \<noteq> tag" "fst d = tag"
  using assms
proof -
  obtain i where i: "i < length ds" "fst (ds ! i) = tag" "d = ds ! i" "\<forall>j < i. fst (ds ! j) \<noteq> tag"
    using assms by (auto simp: find_Some_iff)
  show ?thesis
    using i by (intro that [of "take i ds" "drop (Suc i) ds"])
      (fastforce simp: id_take_nth_drop [symmetric] in_set_conv_nth)+
qed

lemma pmt_find_descriptor_list:
  assumes h: "holds_at b base (descrs_bytes ds)" and ok: "\<forall>x \<in> set ds. descr_ok x" and len: "len = length (descrs_bytes ds)"
  obtains l p where "pmt_find_descriptor tag b base len 0 = Some (l, p)" "l \<noteq> 0 \<longleftrightarrow> has_descr tag ds"
     "\<And>d. find (\<lambda>d. fst d = tag) ds = Some d \<Longrightarrow> holds_at b (base + p) (descr_bytes d)"
proof (cases "find (\<lambda>d. fst d = tag) ds")
  case None
  then have "\<forall>x \<in> set ds. fst x \<noteq> tag" by (auto simp: find_None_iff)
  then show ?thesis
    using that [of 0 len] pmt_find_descriptor_none [of b base 0 ds tag len] h ok len None by (auto simp: has_descr_def)
next
  case (Some d)
  then obtain xs ys where ds: "ds = xs @ d # ys" "\<forall>x \<in> set xs. fst x \<noteq> tag" "fst d = tag" by (rule find_split)
  then have "pmt_find_descriptor tag b base len 0 = Some (length (snd d) + 2, length (descrs_bytes xs))"
    using pmt_find_descriptor_found [of b base 0 xs d ys tag len] h ok len by simp
  then show ?thesis using that ds Some h by (auto simp: has_descr_def)
qed

end
