(* ===== verification/En300468.thy ===== *)
theory En300468
  imports Descriptors
begin

text \<open>
  The conversion of service names, \<^verbatim>\<open>convert_en300468_string\<close> of \<^verbatim>\<open>src/src/log.c\<close>: the first bytes choose a
  character encoding, control characters are dropped, and the rest is converted by the library iconv,
  which is an argument: what it makes of a text in an encoding, or \<open>None\<close> when it does not know the
  encoding. The build is one with iconv and without ARIB. The array that holds the string is a memory.

  The lemmas show that the temporary buffer is large enough, what is converted, and that names in
  UTF-8 lose bytes.
\<close>

section \<open>The encoding\<close>

text \<open>
  The number of the encoding, an index into \<^verbatim>\<open>encodings_en300468\<close>, and where the text starts. 8 is the default, ISO 8859-9.
\<close>

definition en300468_encoding :: "u8 list \<Rightarrow> (nat \<times> nat) option" where
  "en300468_encoding m = do {
     c \<leftarrow> rd m 0;
     if c < 0x20 then
       if c \<le> 0x0b then Some (unat c + 4 - 1, 1)
       else if c = 0x10 then do {
         d \<leftarrow> rd m 2;
         Some (if 0x01 \<le> d \<and> d \<le> 0x0f then unat d - 1 else 8, 3)}
       else if c = 0x11 then Some (15, 1)
       else if c = 0x13 then Some (16, 1)
       else if c = 0x14 then Some (17, 1)
       else if c = 0x15 then Some (18, 1)
       else if c = 0x1f then Some (8, 2)
       else Some (8, 1)
     else Some (8, 0)}"

section \<open>The text without control characters\<close>

definition plain_char :: "u8 \<Rightarrow> bool" where
  "plain_char c \<longleftrightarrow> c < 0x80 \<or> c > 0x9f"

text \<open>The loop that counts the bytes of the text, up to the final 0.\<close>

function count_chars :: "u8 list \<Rightarrow> nat \<Rightarrow> nat \<Rightarrow> nat option" where
  "count_chars m i n =
     (case rd m i of None \<Rightarrow> None
      | Some c \<Rightarrow> if c = 0 then Some n
          else count_chars m (i + 1) (n + (if plain_char c then 1 else 0) + (if c = 0x8a then 1 else 0)))"
  by pat_completeness auto
termination
  by (relation "measure (\<lambda>(m, i, n). length m - i)") (auto simp: rd_def split: if_splits)

text \<open>The loop that copies them; 0x8a becomes a newline.\<close>

function copy_chars :: "u8 list \<Rightarrow> nat \<Rightarrow> u8 list \<Rightarrow> nat \<Rightarrow> (u8 list \<times> nat) option" where
  "copy_chars m i dest n =
     (case rd m i of None \<Rightarrow> None
      | Some c \<Rightarrow> if c = 0 then Some (dest, n)
          else if plain_char c then (case wr dest n c of None \<Rightarrow> None | Some dest \<Rightarrow> copy_chars m (i + 1) dest (n + 1))
          else if c = 0x8a then (case wr dest n 0x0a of None \<Rightarrow> None | Some dest \<Rightarrow> copy_chars m (i + 1) dest (n + 1))
          else copy_chars m (i + 1) dest n)"
  by pat_completeness auto
termination
  by (relation "measure (\<lambda>(m, i, dest, n). length m - i)") (auto simp: rd_def split: if_splits)

declare count_chars.simps [simp del] copy_chars.simps [simp del]

section \<open>The conversion\<close>

text \<open>
  The result is the number of the encoding. When iconv knows neither the encoding nor ISO 8859-9
  the string stays as it is. The memory of the string has \<^verbatim>\<open>max_len\<close> bytes.
\<close>

definition convert_en300468_string ::
  "(nat \<Rightarrow> u8 list \<Rightarrow> u8 list option) \<Rightarrow> u8 list \<Rightarrow> (nat \<times> u8 list) option" where
  "convert_en300468_string iconv m = do {
     c \<leftarrow> rd m 0;
     if c = 0 then Some (0, m)
     else do {
       (enc, start) \<leftarrow> en300468_encoding m;
       n \<leftarrow> count_chars m start 0;
       (tempbuf, n) \<leftarrow> copy_chars m start (replicate (n + 1) 0) 0;
       tempbuf \<leftarrow> wr tempbuf n 0;
       let text = take n tempbuf;
       case (case iconv enc text of Some out \<Rightarrow> Some out | None \<Rightarrow> iconv 8 text) of
         None \<Rightarrow> Some (enc, m)
       | Some out \<Rightarrow> do {
           m \<leftarrow> mem_write m 0 (out @ [0]);
           Some (enc, m)}}}"

text \<open>What a memory holds as a C string.\<close>

definition c_bytes :: "u8 list \<Rightarrow> u8 list" where
  "c_bytes m = takeWhile (\<lambda>x. x \<noteq> 0) m"

definition string_of :: "u8 list \<Rightarrow> string" where
  "string_of bs = map (\<lambda>x. char_of (unat x)) bs"

section \<open>What is converted\<close>

definition conv_char :: "u8 \<Rightarrow> u8 list" where
  "conv_char c = (if plain_char c then [c] else if c = 0x8a then [0x0a] else [])"

definition en300468_text :: "u8 list \<Rightarrow> u8 list" where
  "en300468_text bs = concat (map conv_char bs)"

lemma holds_at_rd_Cons: "holds_at m i (c # xs) \<Longrightarrow> rd m i = Some c \<and> holds_at m (Suc i) xs"
  by (simp add: holds_at_Cons)

lemma not_plain_8a [simp]: "\<not> plain_char 0x8a"
  by (simp add: plain_char_def)

lemma count_chars_ok:
  "holds_at m i (bs @ [0]) \<Longrightarrow> 0 \<notin> set bs \<Longrightarrow> count_chars m i n = Some (n + length (en300468_text bs))"
proof (induction bs arbitrary: i n)
  case Nil
  then show ?case by (subst count_chars.simps) (simp add: holds_at_Cons en300468_text_def)
next
  case (Cons c bs)
  have r: "rd m i = Some c" "holds_at m (Suc i) (bs @ [0])" using holds_at_rd_Cons [of m i c "bs @ [0]"] Cons.prems(1) by simp_all
  have "c \<noteq> 0" "0 \<notin> set bs" using Cons.prems(2) by auto
  then show ?case using r(1) Cons.IH [OF r(2)]
    by (subst count_chars.simps) (auto simp: en300468_text_def conv_char_def)
qed

lemma copy_chars_ok:
  "holds_at m i (bs @ [0]) \<Longrightarrow> 0 \<notin> set bs \<Longrightarrow> n + length (en300468_text bs) \<le> length dest \<Longrightarrow>
   copy_chars m i dest n = Some (take n dest @ en300468_text bs @ drop (n + length (en300468_text bs)) dest, n + length (en300468_text bs))"
proof (induction bs arbitrary: i n dest)
  case Nil
  then show ?case by (subst copy_chars.simps) (simp add: holds_at_Cons en300468_text_def)
next
  case (Cons c bs)
  have r: "rd m i = Some c" "holds_at m (Suc i) (bs @ [0])" using holds_at_rd_Cons [of m i c "bs @ [0]"] Cons.prems(1) by simp_all
  have c: "c \<noteq> 0" "0 \<notin> set bs" using Cons.prems(2) by auto
  have te: "en300468_text (c # bs) = conv_char c @ en300468_text bs" by (simp add: en300468_text_def)
  show ?case
  proof (cases "conv_char c")
    case Nil
    then have "copy_chars m i dest n = copy_chars m (Suc i) dest n"
      using r(1) c(1) by (subst copy_chars.simps) (auto simp: conv_char_def split: if_splits)
    then show ?thesis using Cons.IH [OF r(2) c(2)] Cons.prems(3) Nil te by simp
  next
    case (Cons x xs)
    then have x: "conv_char c = [x]" by (auto simp: conv_char_def split: if_splits)
    have n: "n < length dest" using Cons.prems(3) te x by simp
    have "copy_chars m i dest n = copy_chars m (Suc i) (dest[n := x]) (n + 1)"
      using r(1) c(1) x n by (subst copy_chars.simps) (auto simp: conv_char_def wr_def split: if_splits)
    moreover have "take (Suc n) (dest[n := x]) = take n dest @ [x]" using n by (simp add: take_Suc_conv_app_nth)
    ultimately show ?thesis using Cons.IH [OF r(2) c(2), of "n + 1" "dest[n := x]"] Cons.prems(3) x te by simp
  qed
qed

text \<open>A name as it is transmitted: its encoding, the offset of its text, and no 0 in the text.\<close>

definition name_ok :: "u8 list \<Rightarrow> nat \<Rightarrow> nat \<Rightarrow> bool" where
  "name_ok bs enc start \<longleftrightarrow> bs \<noteq> [] \<and> hd bs \<noteq> 0 \<and> en300468_encoding bs = Some (enc, start) \<and> start \<le> length bs \<and>
     0 \<notin> set (drop start bs)"

lemma en300468_encoding_mono: "en300468_encoding bs = Some r \<Longrightarrow> en300468_encoding (bs @ xs) = Some r"
proof -
  have "rd bs k = Some v \<Longrightarrow> rd (bs @ xs) k = Some v" for k v by (auto simp: rd_def nth_append split: if_splits)
  then show "en300468_encoding bs = Some r \<Longrightarrow> en300468_encoding (bs @ xs) = Some r"
    by (auto simp: en300468_encoding_def split: Option.bind_splits if_splits)
qed

lemma convert_en300468_string_ok:
  assumes n: "name_ok bs enc start" and i: "iconv enc (en300468_text (drop start bs)) = Some out"
    and l: "length out < length (bs @ 0 # junk)"
  shows "convert_en300468_string iconv (bs @ 0 # junk) = Some (enc, out @ 0 # drop (length out + 1) (bs @ 0 # junk))"
proof -
  let ?m = "bs @ 0 # junk"
  define t where "t = drop start bs"
  have bs: "bs = take start bs @ t" by (simp add: t_def)
  have h: "holds_at ?m start (t @ [0])"
    using n by (subst holds_at_ex, intro exI [of _ "take start bs"] exI [of _ junk]) (auto simp: name_ok_def t_def)
  have c: "rd ?m 0 = Some (hd bs)" "hd bs \<noteq> 0" "0 \<notin> set t" using n by (cases bs; simp add: name_ok_def rd_def t_def)+
  have e: "en300468_encoding ?m = Some (enc, start)" using n en300468_encoding_mono [of bs _ "0 # junk"] by (simp add: name_ok_def)
  define k where "k = length (en300468_text t)"
  have "copy_chars ?m start (replicate (k + 1) 0) 0 = Some (en300468_text t @ [0], k)"
    using copy_chars_ok [OF h c(3), of 0 "replicate (k + 1) 0"] drop_replicate [of k "k + 1" "0 :: u8"]
    by (simp add: k_def del: replicate_Suc) simp
  moreover have "count_chars ?m start 0 = Some k" using count_chars_ok [OF h c(3), of 0] by (simp add: k_def)
  moreover have "mem_write ?m 0 (out @ [0]) = Some (out @ 0 # drop (length out + 1) ?m)" using l by (simp add: mem_write_def)
  ultimately show ?thesis using c(1,2) e i
    by (simp add: convert_en300468_string_def wr_def t_def k_def Let_def)
qed

lemma c_bytes_0: "length (c_bytes (out @ 0 # ys)) \<le> length out" "0 \<notin> set out \<Longrightarrow> c_bytes (out @ 0 # ys) = out"
proof -
  show "0 \<notin> set out \<Longrightarrow> c_bytes (out @ 0 # ys) = out" unfolding c_bytes_def by (subst takeWhile_append2) auto
  show "length (c_bytes (out @ 0 # ys)) \<le> length out" unfolding c_bytes_def by (induction out) auto
qed

lemma en300468_text_plain: "\<forall>x \<in> set bs. plain_char x \<Longrightarrow> en300468_text bs = bs"
  by (induction bs) (auto simp: en300468_text_def conv_char_def)

lemma en300468_text_length: "length (en300468_text bs) \<le> length bs"
  by (induction bs) (auto simp: en300468_text_def conv_char_def)

lemma en300468_text_drops: "\<exists>x \<in> set bs. \<not> plain_char x \<and> x \<noteq> 0x8a \<Longrightarrow> length (en300468_text bs) < length bs"
proof (induction bs)
  case (Cons c bs)
  have "en300468_text (c # bs) = conv_char c @ en300468_text bs" "length (conv_char c) \<le> 1"
    by (simp_all add: en300468_text_def conv_char_def)
  then show ?case using Cons en300468_text_length [of bs] by (auto simp: conv_char_def)
qed simp

text \<open>
  Error: a name in UTF-8 (first byte 0x15), which iconv leaves as it is, is stored as it is when it has no byte from 0x80 to
  0x9f. Such bytes, which are parts of letters in UTF-8 (of a capital E with acute accent, for instance), are
  taken for control characters: a name with one of them, other than 0x8a, is stored as another name, whatever iconv makes of the
  rest, as long as it does not get longer.
\<close>

theorem en300468_utf8_damaged:
  assumes "\<forall>xs. \<exists>out. iconv 18 xs = Some out \<and> length out \<le> length xs" "iconv 18 bs = Some bs" "0 \<notin> set bs"
  shows "\<exists>m. convert_en300468_string iconv (0x15 # bs @ 0 # junk) = Some (18, m) \<and>
    ((\<forall>x \<in> set bs. plain_char x) \<longrightarrow> c_bytes m = bs) \<and> ((\<exists>x \<in> set bs. \<not> plain_char x \<and> x \<noteq> 0x8a) \<longrightarrow> c_bytes m \<noteq> bs)"
proof -
  have n: "name_ok (0x15 # bs) 18 1" using assms(3) by (simp add: name_ok_def en300468_encoding_def rd_def)
  obtain out where out: "iconv 18 (en300468_text bs) = Some out" "length out \<le> length (en300468_text bs)" using assms(1) by blast
  have l: "length out < length ((0x15 # bs) @ 0 # junk)" using out(2) en300468_text_length [of bs] by simp
  have run: "convert_en300468_string iconv ((0x15 # bs) @ 0 # junk) = Some (18, out @ 0 # drop (length out + 1) ((0x15 # bs) @ 0 # junk))"
    using out(1) by (intro convert_en300468_string_ok [OF n _ l]) simp
  have "c_bytes (out @ 0 # ys) = bs" if "\<forall>x \<in> set bs. plain_char x" for ys
    using en300468_text_plain [OF that] out(1) assms(2,3) c_bytes_0(2) by simp
  moreover have "c_bytes (out @ 0 # ys) \<noteq> bs" if "\<exists>x \<in> set bs. \<not> plain_char x \<and> x \<noteq> 0x8a" for ys
    using en300468_text_drops [OF that] out(2) c_bytes_0(1) [of out ys] by auto
  ultimately show ?thesis using run by simp
qed

theorem en300468_utf8_damaged_witness:
  "\<exists>m. convert_en300468_string (\<lambda>_ xs. Some xs) (0x15 # [0xc3, 0x89] @ 0 # replicate 500 0) = Some (18, m) \<and> c_bytes m \<noteq> [0xc3, 0x89]"
  using en300468_utf8_damaged [of "\<lambda>_ xs. Some xs" "[0xc3, 0x89]" "replicate 500 0"]
  by (auto simp: plain_char_def)

end
