(* ===== verification/Autoconf_Sdt.thy ===== *)
theory Autoconf_Sdt
  imports En300468 Rewrite_Sdt
begin

text \<open>
  The SDT, \<^verbatim>\<open>src/src/autoconf_sdt.c\<close>: names and types of the services. The descriptors that are
  only displayed are passed over. What the array of a service name holds before a name is copied
  into it is an argument (\<open>junk\<close>, by the offset of the descriptor).

  The lemmas show what every channel gets from an encoded SDT.
\<close>

section \<open>Operations\<close>

definition MAX_NAME_LEN :: nat where "MAX_NAME_LEN = 512"

type_synonym iconv_t = "nat \<Rightarrow> u8 list \<Rightarrow> u8 list option"

definition parse_service_descriptor ::
  "iconv_t \<Rightarrow> u8 list \<Rightarrow> u8 list \<Rightarrow> nat \<Rightarrow> mumudvb_channel_t \<Rightarrow> mumudvb_channel_t option" where
  "parse_service_descriptor iconv junk b off ch = do {
     st \<leftarrow> rd b (off + 2);
     plen \<leftarrow> rd b (off + 3);
     let p = off + 3 + (unat plen + 1);
     nlen \<leftarrow> rd b p;
     bs \<leftarrow> mem_read b (p + 1) (unat nlen);
     m \<leftarrow> mem_write junk 0 bs;
     m \<leftarrow> wr m (unat nlen) 0;
     (_, m) \<leftarrow> convert_en300468_string iconv m;
     Some (ch\<lparr>service_type := unat st, service_name := string_of (c_bytes m)\<rparr>)}"

text \<open>\<open>n\<close> is what is left of the loop; a descriptor whose length wraps to 0 ends it.\<close>

function parse_sdt_descriptor ::
  "iconv_t \<Rightarrow> (nat \<Rightarrow> u8 list) \<Rightarrow> u8 list \<Rightarrow> nat \<Rightarrow> nat \<Rightarrow> mumudvb_channel_t \<Rightarrow> mumudvb_channel_t option" where
  "parse_sdt_descriptor iconv junk b off n ch =
     (if 0 < n then
        (case rd b off of None \<Rightarrow> None
         | Some tag \<Rightarrow> (case rd b (off + 1) of None \<Rightarrow> None
            | Some l \<Rightarrow>
                if l + 2 = 0 then Some ch
                else (case (if tag = 0x48 then parse_service_descriptor iconv (junk off) b off ch else Some ch) of None \<Rightarrow> None
                  | Some ch \<Rightarrow> parse_sdt_descriptor iconv junk b (off + unat (l + 2)) (n - unat (l + 2)) ch)))
      else Some ch)"
  by pat_completeness auto
termination
proof (relation "measure (\<lambda>(iconv, junk, b, off, n, ch). n)", goal_cases)
  case (2 iconv junk b off n ch tag l ch')
  have "unat (l + 2) \<noteq> 0" using 2(4) by (simp only: unat_eq_zero not_False_eq_True)
  then show ?case using 2(1) by simp
qed simp

function sdt_read_services ::
  "iconv_t \<Rightarrow> (nat \<Rightarrow> u8 list) \<Rightarrow> u8 list \<Rightarrow> nat \<Rightarrow> nat \<Rightarrow> mumu_chan_p_t \<Rightarrow> mumu_chan_p_t option" where
  "sdt_read_services iconv junk b len delta cp =
     (if delta + (4 + SDT_DESCR_LEN) \<le> len then
        (case struct_at SDT_DESCR_LEN sdt_descr_of b delta of None \<Rightarrow> None
         | Some e \<Rightarrow> (case (case find_service (sdt_service_id e) cp of None \<Rightarrow> Some cp
             | Some i \<Rightarrow> do {
                 ch \<leftarrow> rd (channels cp) i;
                 ch \<leftarrow> parse_sdt_descriptor iconv junk b (delta + SDT_DESCR_LEN) (sdt_loop_length e)
                   (ch\<lparr>free_ca_mode := unat (sdt_descr_t.free_ca_mode e)\<rparr>);
                 Some (set_channel cp i ch)}) of None \<Rightarrow> None
            | Some cp \<Rightarrow> sdt_read_services iconv junk b len (delta + (sdt_loop_length e + SDT_DESCR_LEN)) cp))
      else Some cp)"
  by pat_completeness auto
termination
  by (relation "measure (\<lambda>(iconv, junk, b, len, delta, cp). len - delta)") (auto simp: SDT_DESCR_LEN_def)

declare parse_sdt_descriptor.simps [simp del] sdt_read_services.simps [simp del]

definition autoconf_read_sdt ::
  "iconv_t \<Rightarrow> (nat \<Rightarrow> u8 list) \<Rightarrow> auto_p_t \<Rightarrow> mumu_chan_p_t \<Rightarrow> (auto_p_t \<times> mumu_chan_p_t) option" where
  "autoconf_read_sdt iconv junk a cp = do {
     let b = data_full (temp_packet (a_sdt a));
     h \<leftarrow> struct_at SDT_LEN sdt_of b 0;
     let v = int (unat (sdt_t.version_number h));
     let n = unat (sdt_t.section_number h);
     if sdt_t.table_id h \<noteq> 0x42 then Some (a, cp)
     else if v = seen_version (a_sdt a) \<and> sections_seen (a_sdt a) ! n then Some (a, cp)
     else do {
       let t = psi_seen n (if v = seen_version (a_sdt a) then a_sdt a else psi_new_version v (a_sdt a));
       let a = a\<lparr>a_sdt := t, original_network_id := int (HILO (sdt_t.original_network_id_hi h) (sdt_t.original_network_id_lo h))\<rparr>;
       cp \<leftarrow> sdt_read_services iconv junk b (len_full (temp_packet t)) SDT_LEN cp;
       if sections_missing (unat (sdt_t.last_section_number h)) t \<noteq> 0 then Some (a, cp)
       else Some (a\<lparr>a_sdt := psi_complete t, need_filter_chan_update := True\<rparr>, cp)}}"

section \<open>What an SDT announces\<close>

text \<open>A service descriptor, with the name of the provider and that of the service.\<close>

definition service_payload :: "u8 \<Rightarrow> u8 list \<Rightarrow> u8 list \<Rightarrow> u8 list" where
  "service_payload st prov nm = st # of_nat (length prov) # prov @ of_nat (length nm) # nm"

definition payload_name :: "u8 list \<Rightarrow> u8 list" where
  "payload_name p = drop (unat (p ! 1) + 3) p"

definition service_text :: "iconv_t \<Rightarrow> u8 list \<Rightarrow> u8 list" where
  "service_text iconv nm = (if nm = [] then []
     else case en300468_encoding nm of Some (enc, start) \<Rightarrow>
       takeWhile (\<lambda>x. x \<noteq> 0) (the (iconv enc (en300468_text (drop start nm)))))"

definition sdt_descr_ok :: "descriptor \<Rightarrow> bool" where
  "sdt_descr_ok d \<longleftrightarrow> length (snd d) < 254 \<and> (fst d = 0x48 \<longrightarrow> (\<exists>st prov nm. snd d = service_payload st prov nm \<and>
     length prov < 256 \<and> length nm < 256 \<and> (nm = [] \<or> (\<exists>enc start. name_ok nm enc start))))"

definition service_descr :: "iconv_t \<Rightarrow> descriptor \<Rightarrow> mumudvb_channel_t \<Rightarrow> mumudvb_channel_t" where
  "service_descr iconv d ch = (if fst d = 0x48 then ch\<lparr>service_type := unat (snd d ! 0),
     service_name := string_of (service_text iconv (payload_name (snd d)))\<rparr> else ch)"

text \<open>A service: the five bytes of its header, and its descriptors.\<close>

type_synonym sdt_service = "u8 list \<times> descriptor list"

definition service_bytes :: "sdt_service \<Rightarrow> u8 list" where
  "service_bytes v = fst v @ descrs_bytes (snd v)"

definition service_number :: "sdt_service \<Rightarrow> nat" where
  "service_number v = sdt_service_id (sdt_descr_of (fst v))"

definition sdt_service_ok :: "sdt_service \<Rightarrow> bool" where
  "sdt_service_ok v \<longleftrightarrow> length (fst v) = SDT_DESCR_LEN \<and> sdt_loop_length (sdt_descr_of (fst v)) = length (descrs_bytes (snd v)) \<and>
     (\<forall>d \<in> set (snd v). sdt_descr_ok d)"

definition apply_service :: "iconv_t \<Rightarrow> sdt_service \<Rightarrow> mumudvb_channel_t \<Rightarrow> mumudvb_channel_t" where
  "apply_service iconv v ch = (if service_number v = mumudvb_channel_t.service_id ch then
     fold (service_descr iconv) (snd v) (ch\<lparr>free_ca_mode := unat (sdt_descr_t.free_ca_mode (sdt_descr_of (fst v)))\<rparr>) else ch)"

text \<open>iconv converts every text, and makes at most two bytes of one.\<close>

definition iconv_ok :: "iconv_t \<Rightarrow> bool" where
  "iconv_ok iconv \<longleftrightarrow> (\<forall>enc xs. \<exists>out. iconv enc xs = Some out \<and> length out \<le> 2 * length xs)"

section \<open>Reading names\<close>

lemma payload_name_service [simp]: "length prov < 256 \<Longrightarrow> payload_name (service_payload st prov nm) = nm"
  by (simp add: payload_name_def service_payload_def unat_small numeral_3_eq_3)

lemma convert_name:
  assumes "iconv_ok iconv" "length nm < 256" "nm = [] \<or> name_ok nm enc start" "length junk = MAX_NAME_LEN"
  shows "\<exists>r. convert_en300468_string iconv (nm @ 0 # drop (length nm + 1) junk) = Some r \<and> c_bytes (snd r) = service_text iconv nm"
proof (cases "nm = []")
  case True
  then show ?thesis by (simp add: convert_en300468_string_def rd_def c_bytes_def service_text_def)
next
  case False
  then have n: "name_ok nm enc start" using assms(3) by simp
  define t where "t = en300468_text (drop start nm)"
  obtain out where out: "iconv enc t = Some out" "length out \<le> 2 * length t" using assms(1) by (auto simp: iconv_ok_def)
  have "length t \<le> length nm" using en300468_text_length [of "drop start nm"] by (simp add: t_def)
  then have l: "length out < length (nm @ 0 # drop (length nm + 1) junk)"
    using out(2) assms(2,4) by (simp add: MAX_NAME_LEN_def)
  have c: "c_bytes (out @ 0 # ys) = takeWhile (\<lambda>x. x \<noteq> 0) out" for ys
    unfolding c_bytes_def by (induction out) simp_all
  have "service_text iconv nm = takeWhile (\<lambda>x. x \<noteq> 0) out"
    using n False out(1) by (simp add: service_text_def name_ok_def t_def)
  then show ?thesis
    using convert_en300468_string_ok [where iconv = iconv and out = out, OF n _ l] out(1) c by (simp add: t_def)
qed

lemma parse_service_descriptor_ok:
  assumes h: "holds_at b off (descr_bytes d)" and d: "sdt_descr_ok d" "fst d = 0x48"
    and i: "iconv_ok iconv" "length junk = MAX_NAME_LEN"
  shows "parse_service_descriptor iconv junk b off ch = Some (service_descr iconv d ch)"
proof -
  obtain st prov nm where p: "snd d = service_payload st prov nm" "length prov < 256" "length nm < 256"
      "nm = [] \<or> (\<exists>enc start. name_ok nm enc start)" using d unfolding sdt_descr_ok_def by blast
  have h2: "holds_at b (off + 2) (service_payload st prov nm)" using h p(1) by (simp add: descr_bytes_def holds_at_Cons)
  then have r: "rd b (off + 2) = Some st" "rd b (off + 3) = Some (of_nat (length prov))"
      "rd b (off + 3 + (length prov + 1)) = Some (of_nat (length nm))" "holds_at b (off + 3 + (length prov + 1) + 1) nm"
    by (simp_all add: service_payload_def holds_at_Cons add.assoc numeral_3_eq_3)
  have u: "unat (of_nat (length prov) :: u8) = length prov" "unat (of_nat (length nm) :: u8) = length nm"
    using p by (simp_all add: unat_small)
  have mr: "mem_read b (off + 3 + (length prov + 1) + 1) (length nm) = Some nm" using r(4) by (simp add: holds_at_def)
  have jl: "length nm + 1 \<le> length junk" using p(3) i(2) by (simp add: MAX_NAME_LEN_def)
  then have mw: "mem_write junk 0 nm = Some (nm @ drop (length nm) junk)" by (simp add: mem_write_def)
  have "drop (length nm) junk = junk ! length nm # drop (length nm + 1) junk"
    using jl by (simp add: Cons_nth_drop_Suc)
  then have w: "wr (nm @ drop (length nm) junk) (length nm) 0 = Some (nm @ 0 # drop (length nm + 1) junk)"
    using jl by (simp add: wr_def list_update_append)
  obtain enc start where "nm = [] \<or> name_ok nm enc start" using p(4) by blast
  then obtain x where x: "convert_en300468_string iconv (nm @ 0 # drop (length nm + 1) junk) = Some x" "c_bytes (snd x) = service_text iconv nm"
    using convert_name [OF i(1) p(3) _ i(2)] by blast
  then show ?thesis
    using r u mr mw w p d(2) by (cases x) (simp add: parse_service_descriptor_def Let_def service_descr_def, simp add: service_payload_def)
qed

lemma parse_sdt_descriptor_ok:
  "holds_at b off (descrs_bytes ds) \<Longrightarrow> \<forall>d \<in> set ds. sdt_descr_ok d \<Longrightarrow> iconv_ok iconv \<Longrightarrow> \<forall>k. length (junk k) = MAX_NAME_LEN \<Longrightarrow>
   parse_sdt_descriptor iconv junk b off (length (descrs_bytes ds)) ch = Some (fold (service_descr iconv) ds ch)"
proof (induction ds arbitrary: off ch)
  case Nil
  then show ?case by (subst parse_sdt_descriptor.simps) simp
next
  case (Cons d ds)
  have h: "holds_at b off (descr_bytes d)" "holds_at b (off + (length (snd d) + 2)) (descrs_bytes ds)" "sdt_descr_ok d"
    using Cons.prems by simp_all
  then obtain l where l: "rd b off = Some (fst d)" "rd b (off + 1) = Some l" "unat (l + 2) = length (snd d) + 2"
    using descr_start_len [OF h(1)] by (auto simp: sdt_descr_ok_def)
  then have z: "l + 2 \<noteq> 0" by (metis add_is_0 unat_0 zero_neq_numeral)
  have one: "(if fst d = 0x48 then parse_service_descriptor iconv (junk off) b off ch else Some ch) = Some (service_descr iconv d ch)"
    using parse_service_descriptor_ok [OF h(1,3)] Cons.prems by (simp add: service_descr_def)
  show ?case
    using l(1,2) z one Cons.IH [OF h(2)] Cons.prems
    by (subst parse_sdt_descriptor.simps) (simp add: l(3))
qed

section \<open>Channels with services of their own\<close>

definition services_inv :: "mumu_chan_p_t \<Rightarrow> bool" where
  "services_inv cp \<longleftrightarrow> number_of_channels cp \<le> MAX_CHANNELS \<and> length (channels cp) = MAX_CHANNELS \<and>
     distinct (map mumudvb_channel_t.service_id (take (number_of_channels cp) (channels cp)))"

lemma find_service_distinct:
  assumes "services_inv cp" "i < number_of_channels cp"
  shows "find_service sid cp = Some i \<longleftrightarrow> mumudvb_channel_t.service_id (channels cp ! i) = sid"
proof
  assume s: "mumudvb_channel_t.service_id (channels cp ! i) = sid"
  then obtain j where j: "find_service sid cp = Some j"
    using assms find_service_None [of sid cp] by (cases "find_service sid cp") (auto simp: services_inv_def)
  then have "j < number_of_channels cp" "mumudvb_channel_t.service_id (channels cp ! j) = sid" using find_service_Some by auto
  then have "j = i" using assms s nth_eq_iff_index_eq [of "map mumudvb_channel_t.service_id (take (number_of_channels cp) (channels cp))" i j]
    by (simp add: services_inv_def)
  then show "find_service sid cp = Some i" using j by simp
qed (use find_service_Some in auto)

text \<open>The channels after something was done to the channel of every service of a list.\<close>

definition channels_map :: "(mumudvb_channel_t \<Rightarrow> mumudvb_channel_t) \<Rightarrow> mumu_chan_p_t \<Rightarrow> mumu_chan_p_t" where
  "channels_map f cp = cp\<lparr>channels := map f (take (number_of_channels cp) (channels cp)) @ drop (number_of_channels cp) (channels cp)\<rparr>"

lemma channels_map_keeps:
  assumes "services_inv cp" "\<And>ch. mumudvb_channel_t.service_id (f ch) = mumudvb_channel_t.service_id ch"
  shows "services_inv (channels_map f cp)"
  using assms by (simp add: services_inv_def channels_map_def comp_def)

lemma channels_map_comp: "services_inv cp \<Longrightarrow> channels_map f (channels_map g cp) = channels_map (f \<circ> g) cp"
  by (simp add: channels_map_def services_inv_def)

lemma channels_map_id: "channels_map (\<lambda>ch. ch) cp = cp"
  by (simp add: channels_map_def)

lemma channels_map_nth: "services_inv cp \<Longrightarrow> i < number_of_channels cp \<Longrightarrow> channels (channels_map f cp) ! i = f (channels cp ! i)"
  by (simp add: channels_map_def services_inv_def nth_append)

lemma set_channel_map:
  assumes "services_inv cp" "find_service sid cp = Some i" "\<And>ch. mumudvb_channel_t.service_id ch \<noteq> sid \<Longrightarrow> f ch = ch"
  shows "set_channel cp i (f (channels cp ! i)) = channels_map f cp"
proof -
  have i: "i < number_of_channels cp" "mumudvb_channel_t.service_id (channels cp ! i) = sid" using find_service_Some [OF assms(2)] by auto
  have other: "f (channels cp ! j) = channels cp ! j" if "j < number_of_channels cp" "j \<noteq> i" for j
    using find_service_distinct [OF assms(1) that(1), of sid] assms(2,3) that(2) by auto
  have "(channels cp)[i := f (channels cp ! i)] = map f (take (number_of_channels cp) (channels cp)) @ drop (number_of_channels cp) (channels cp)"
    by (rule nth_equalityI) (use assms(1) i other in \<open>auto simp: services_inv_def nth_append nth_list_update\<close>)
  then show ?thesis by (simp add: set_channel_def channels_map_def)
qed

lemma find_none_map:
  assumes "services_inv cp" "find_service sid cp = None" "\<And>ch. mumudvb_channel_t.service_id ch \<noteq> sid \<Longrightarrow> f ch = ch"
  shows "channels_map f cp = cp"
proof -
  have "map f (take (number_of_channels cp) (channels cp)) = take (number_of_channels cp) (channels cp)"
    using assms by (intro map_idI) (auto simp: find_service_None services_inv_def in_set_conv_nth)
  then show ?thesis by (simp add: channels_map_def)
qed

section \<open>The SDT is read\<close>

lemma fold_service_descr_keeps [simp]:
  "mumudvb_channel_t.service_id (fold (service_descr iconv) ds ch) = mumudvb_channel_t.service_id ch"
  by (induction ds arbitrary: ch) (simp_all add: service_descr_def)

lemma apply_service_keeps [simp]: "mumudvb_channel_t.service_id (apply_service iconv v ch) = mumudvb_channel_t.service_id ch"
  by (simp add: apply_service_def)

lemma fold_apply_service_keeps [simp]:
  "mumudvb_channel_t.service_id (fold (apply_service iconv) vs ch) = mumudvb_channel_t.service_id ch"
  by (induction vs arbitrary: ch) simp_all

lemma service_parts:
  assumes "holds_at b i (service_bytes v)" "sdt_service_ok v"
  shows "struct_at SDT_DESCR_LEN sdt_descr_of b i = Some (sdt_descr_of (fst v))" "holds_at b (i + SDT_DESCR_LEN) (descrs_bytes (snd v))"
    "length (service_bytes v) = sdt_loop_length (sdt_descr_of (fst v)) + SDT_DESCR_LEN"
proof -
  have h: "holds_at b i (fst v)" "holds_at b (i + SDT_DESCR_LEN) (descrs_bytes (snd v))"
    using assms by (auto simp: service_bytes_def sdt_service_ok_def)
  show "struct_at SDT_DESCR_LEN sdt_descr_of b i = Some (sdt_descr_of (fst v))"
    using h(1) assms(2) by (intro sdt_descr_s.at_holds) (simp_all add: sdt_service_ok_def)
  show "holds_at b (i + SDT_DESCR_LEN) (descrs_bytes (snd v))" by (rule h)
  show "length (service_bytes v) = sdt_loop_length (sdt_descr_of (fst v)) + SDT_DESCR_LEN"
    using assms(2) by (simp add: service_bytes_def sdt_service_ok_def)
qed

lemma sdt_read_services_ok:
  "holds_at b delta (concat (map service_bytes vs)) \<Longrightarrow> \<forall>v \<in> set vs. sdt_service_ok v \<Longrightarrow>
   len = delta + length (concat (map service_bytes vs)) + 4 \<Longrightarrow> iconv_ok iconv \<Longrightarrow> \<forall>k. length (junk k) = MAX_NAME_LEN \<Longrightarrow>
   services_inv cp \<Longrightarrow>
   sdt_read_services iconv junk b len delta cp = Some (channels_map (fold (apply_service iconv) vs) cp)"
proof (induction vs arbitrary: delta cp)
  case Nil
  then show ?case by (subst sdt_read_services.simps) (simp add: SDT_DESCR_LEN_def channels_map_id id_def)
next
  case (Cons v vs)
  have v: "holds_at b delta (service_bytes v)" "sdt_service_ok v" using Cons.prems by simp_all
  note p = service_parts [OF v]
  define e where "e = sdt_descr_of (fst v)"
  have ds: "\<forall>d \<in> set (snd v). sdt_descr_ok d" "sdt_loop_length e = length (descrs_bytes (snd v))"
    using v(2) by (simp_all add: sdt_service_ok_def e_def)
  have other: "mumudvb_channel_t.service_id ch \<noteq> sdt_service_id e \<Longrightarrow> apply_service iconv v ch = ch" for ch
    by (simp add: apply_service_def service_number_def e_def)
  have one: "(case find_service (sdt_service_id e) cp of None \<Rightarrow> Some cp
     | Some i \<Rightarrow> do {
         ch \<leftarrow> rd (channels cp) i;
         ch \<leftarrow> parse_sdt_descriptor iconv junk b (delta + SDT_DESCR_LEN) (sdt_loop_length e)
           (ch\<lparr>free_ca_mode := unat (sdt_descr_t.free_ca_mode e)\<rparr>);
         Some (set_channel cp i ch)}) = Some (channels_map (apply_service iconv v) cp)"
  proof (cases "find_service (sdt_service_id e) cp")
    case None
    then show ?thesis using find_none_map [OF Cons.prems(6) None other] by simp
  next
    case (Some i)
    have i: "i < length (channels cp)" "mumudvb_channel_t.service_id (channels cp ! i) = sdt_service_id e"
      using find_service_Some [OF Some] Cons.prems(6) by (auto simp: services_inv_def)
    have "parse_sdt_descriptor iconv junk b (delta + SDT_DESCR_LEN) (sdt_loop_length e)
        ((channels cp ! i)\<lparr>free_ca_mode := unat (sdt_descr_t.free_ca_mode e)\<rparr>) = Some (apply_service iconv v (channels cp ! i))"
      using parse_sdt_descriptor_ok [OF p(2) ds(1) Cons.prems(4,5)] i(2) ds(2)
      by (simp add: apply_service_def service_number_def e_def)
    then show ?thesis using Some i(1) set_channel_map [OF Cons.prems(6) Some other] by (simp add: rd_def)
  qed
  have inv: "services_inv (channels_map (apply_service iconv v) cp)" by (rule channels_map_keeps [OF Cons.prems(6)]) simp
  have c: "delta + (4 + SDT_DESCR_LEN) \<le> len" using Cons.prems(3) p(3) by simp
  have "sdt_read_services iconv junk b len delta cp =
     sdt_read_services iconv junk b len (delta + (sdt_loop_length e + SDT_DESCR_LEN)) (channels_map (apply_service iconv v) cp)"
    using c p(1) [folded e_def] one by (simp add: sdt_read_services.simps [of iconv junk b len delta])
  also have "\<dots> = Some (channels_map (fold (apply_service iconv) vs) (channels_map (apply_service iconv v) cp))"
    using Cons.prems p(3) inv by (intro Cons.IH) (simp_all add: e_def)
  finally show ?case using Cons.prems(6) by (simp add: channels_map_comp comp_def)
qed

text \<open>A section: header, services, CRC; and the state in which it is read.\<close>

definition sdt_section :: "u8 list \<Rightarrow> sdt_service list \<Rightarrow> bool" where
  "sdt_section s vs \<longleftrightarrow> SDT_LEN \<le> length s \<and> sdt_t.table_id (sdt_of s) = 0x42 \<and>
     (\<exists>crc. length crc = 4 \<and> drop SDT_LEN s = concat (map service_bytes vs) @ crc) \<and> (\<forall>v \<in> set vs. sdt_service_ok v)"

lemma autoconf_read_sdt_runs:
  assumes s: "sdt_section s vs" "holds_at (data_full (temp_packet (a_sdt a))) 0 s" "len_full (temp_packet (a_sdt a)) = length s"
    and v: "int (unat (sdt_t.version_number (sdt_of s))) \<noteq> seen_version (a_sdt a)"
    and one: "sdt_t.section_number (sdt_of s) = 0" "sdt_t.last_section_number (sdt_of s) = 0"
    and i: "iconv_ok iconv" "\<forall>k. length (junk k) = MAX_NAME_LEN" and cp: "services_inv cp"
  shows "\<exists>a'. autoconf_read_sdt iconv junk a cp = Some (a', channels_map (fold (apply_service iconv) vs) cp) \<and>
    all_sections_seen (a_sdt a') \<and> \<not> need_update (a_sdt a') \<and> need_filter_chan_update a' \<and>
    seen_version (a_sdt a') = int (unat (sdt_t.version_number (sdt_of s)))"
proof -
  define b where "b = data_full (temp_packet (a_sdt a))"
  obtain crc where crc: "length crc = 4" "drop SDT_LEN s = concat (map service_bytes vs) @ crc" "SDT_LEN \<le> length s"
     and ok: "\<forall>v \<in> set vs. sdt_service_ok v" "sdt_t.table_id (sdt_of s) = 0x42" using s(1) by (auto simp: sdt_section_def)
  have "take SDT_LEN s @ concat (map service_bytes vs) @ crc = s" by (metis append_take_drop_id crc(2))
  then have "holds_at b 0 (take SDT_LEN s @ concat (map service_bytes vs) @ crc)" using s(2) by (simp only: b_def)
  then have h: "holds_at b SDT_LEN (concat (map service_bytes vs))" using crc(3) by simp
  have "length s - SDT_LEN = length (concat (map service_bytes vs)) + 4"
    using arg_cong [OF crc(2), of length] crc(1) by (simp only: length_drop length_append)
  then have len: "length s = SDT_LEN + length (concat (map service_bytes vs)) + 4" using crc(3) by linarith
  have at: "struct_at SDT_LEN sdt_of b 0 = Some (sdt_of s)" unfolding b_def using s(2) crc(3) by (intro sdt_s.at_holds)
  have t: "sections_missing 0 (psi_seen 0 (psi_new_version w t)) = 0" "temp_packet (psi_seen k (psi_new_version w t)) = temp_packet t"
    "seen_version (psi_seen k (psi_new_version w t)) = w" for t w k
    by (simp_all add: psi_seen_def psi_new_version_def sections_missing_0)
  have "sdt_read_services iconv junk b (length s) SDT_LEN cp = Some (channels_map (fold (apply_service iconv) vs) cp)"
    by (rule sdt_read_services_ok [OF h ok(1) len i cp])
  then show ?thesis
    using v one ok(2) unfolding autoconf_read_sdt_def b_def [symmetric] Let_def at bind.bind_lunit
    by (simp add: t s(3)) (simp add: psi_complete_def t)
qed


section \<open>Witness\<close>

text \<open>One service, number 7, television, with a name.\<close>

definition sample_service :: sdt_service where
  "sample_service = ([0, 7, 0xfc, 0x80, 8], [(0x48, service_payload 1 [] [84, 86, 49])])"

definition sample_sdt_section :: "u8 list" where
  "sample_sdt_section = [0x42, 0xf0, 25, 0, 1, 0xc3, 0, 0, 0, 1, 0xff] @ service_bytes sample_service @ [0, 0, 0, 0]"

definition sample_sdt_auto :: auto_p_t where
  "sample_sdt_auto = init_aconf_v\<lparr>a_sdt := (init_psi_table (-1))\<lparr>temp_packet := empty_ts_packet\<lparr>len_full := length sample_sdt_section,
     data_full := sample_sdt_section\<rparr>\<rparr>\<rparr>"

definition sample_service_cp :: mumu_chan_p_t where
  "sample_service_cp = \<lparr>number_of_channels = 1, channels = zero_channel\<lparr>mumudvb_channel_t.service_id := 7\<rparr> # replicate 127 zero_channel,
     asked_pid = [], t2mi_pid = 0\<rparr>"

lemma sample_service_ok: "sdt_service_ok sample_service"
proof -
  have "name_ok [84, 86, 49] 8 0" by (simp add: name_ok_def en300468_encoding_def rd_def)
  then have "sdt_descr_ok (0x48, service_payload 1 [] [84, 86, 49])"
    unfolding sdt_descr_ok_def
    by (intro conjI impI exI [of _ 1] exI [of _ "[]"] exI [of _ "[84, 86, 49]"]) (auto simp: service_payload_def)
  then show ?thesis
    by (simp add: sdt_service_ok_def sample_service_def SDT_DESCR_LEN_def sdt_descr_of_def sdt_loop_length_def HILO_eq bf_get_def service_payload_def)
qed


end
