(* ===== verification/Autoconf_Nit.thy ===== *)
theory Autoconf_Nit
  imports Autoconf_Sdt
begin

text \<open>
  The NIT, \<^verbatim>\<open>src/src/autoconf_nit.c\<close>: the logical channel numbers. Descriptors that are only displayed are
  passed over.

  The lemmas show which numbers the channels get from an encoded NIT, and that a new version of the
  NIT is never noticed.
\<close>

section \<open>Operations\<close>

definition lcn_service_id :: "nit_lcn_t \<Rightarrow> nat" where
  "lcn_service_id d = HILO (nit_lcn_t.service_id_hi d) (nit_lcn_t.service_id_lo d)"

definition lcn_number :: "nit_lcn_t \<Rightarrow> nat" where
  "lcn_number d = HILO (nit_lcn_t.logical_channel_number_hi d) (nit_lcn_t.logical_channel_number_lo d)"

text \<open>The loop over the channels: each channel of the service gets the number.\<close>

definition set_lcn :: "nat \<Rightarrow> nat \<Rightarrow> mumudvb_channel_t \<Rightarrow> mumudvb_channel_t" where
  "set_lcn sid l ch = (if mumudvb_channel_t.service_id ch = sid then ch\<lparr>logical_channel_number := l\<rparr> else ch)"

text \<open>\<open>n\<close> bytes are left of the descriptor.\<close>

function lcn_loop :: "u8 list \<Rightarrow> nat \<Rightarrow> nat \<Rightarrow> mumu_chan_p_t \<Rightarrow> mumu_chan_p_t option" where
  "lcn_loop b off n cp =
     (if 0 < n then
        (case struct_at NIT_LCN_LEN nit_lcn_of b off of None \<Rightarrow> None
         | Some d \<Rightarrow> lcn_loop b (off + NIT_LCN_LEN) (n - NIT_LCN_LEN) (channels_map (set_lcn (lcn_service_id d) (lcn_number d)) cp))
      else Some cp)"
  by pat_completeness auto
termination
  by (relation "measure (\<lambda>(b, off, n, cp). n)") (auto simp: NIT_LCN_LEN_def)

declare lcn_loop.simps [simp del]

definition parse_lcn_descriptor :: "u8 list \<Rightarrow> nat \<Rightarrow> mumu_chan_p_t \<Rightarrow> mumu_chan_p_t option" where
  "parse_lcn_descriptor b off cp = do {
     n \<leftarrow> rd b (off + 1);
     lcn_loop b (off + 2) (unat n) cp}"

text \<open>
  The descriptors of one transport stream, \<open>n\<close> bytes left; the result is also where the reading
  stopped. They are looked at only when the transport stream is the received one.
\<close>

function nit_descriptors :: "bool \<Rightarrow> u8 list \<Rightarrow> nat \<Rightarrow> nat \<Rightarrow> mumu_chan_p_t \<Rightarrow> (nat \<times> mumu_chan_p_t) option" where
  "nit_descriptors mine b off n cp =
     (if 0 < n then
        (case rd b off of None \<Rightarrow> None
         | Some tag \<Rightarrow> (case rd b (off + 1) of None \<Rightarrow> None
            | Some l \<Rightarrow>
                if l + 2 = 0 then Some (off, cp)
                else (case (if mine \<and> tag = 0x83 then parse_lcn_descriptor b off cp else Some cp) of None \<Rightarrow> None
                  | Some cp \<Rightarrow> nit_descriptors mine b (off + unat (l + 2)) (n - unat (l + 2)) cp)))
      else Some (off, cp))"
  by pat_completeness auto
termination
proof (relation "measure (\<lambda>(mine, b, off, n, cp). n)", goal_cases)
  case (2 mine b off n cp tag l cp')
  have "unat (l + 2) \<noteq> 0" using 2(4) by (simp only: unat_eq_zero not_False_eq_True)
  then show ?case using 2(1) by simp
qed simp

definition nit_ts_id :: "nit_ts_t \<Rightarrow> nat" where
  "nit_ts_id e = HILO (nit_ts_t.transport_stream_id_hi e) (nit_ts_t.transport_stream_id_lo e)"

definition nit_ts_length :: "nit_ts_t \<Rightarrow> nat" where
  "nit_ts_length e = HILO (nit_ts_t.transport_descriptors_length_hi e) (nit_ts_t.transport_descriptors_length_lo e)"

function parse_nit_ts_descriptor :: "u8 list \<Rightarrow> nat \<Rightarrow> nat \<Rightarrow> int \<Rightarrow> mumu_chan_p_t \<Rightarrow> mumu_chan_p_t option" where
  "parse_nit_ts_descriptor b off n pat_tsid cp =
     (if 0 < n then
        (case struct_at NIT_TS_LEN nit_ts_of b off of None \<Rightarrow> None
         | Some e \<Rightarrow> (case nit_descriptors (pat_tsid = int (nit_ts_id e)) b (off + NIT_TS_LEN) (nit_ts_length e) cp of None \<Rightarrow> None
            | Some (off, cp) \<Rightarrow> parse_nit_ts_descriptor b off (n - (nit_ts_length e + NIT_TS_LEN)) pat_tsid cp))
      else Some cp)"
  by pat_completeness auto
termination
  by (relation "measure (\<lambda>(b, off, n, pat_tsid, cp). n)") (auto simp: NIT_TS_LEN_def)

declare nit_descriptors.simps [simp del] parse_nit_ts_descriptor.simps [simp del]

text \<open>The result is the number the code returns.\<close>

definition autoconf_read_nit :: "auto_p_t \<Rightarrow> mumu_chan_p_t \<Rightarrow> (int \<times> auto_p_t \<times> mumu_chan_p_t) option" where
  "autoconf_read_nit a cp = do {
     let b = data_full (temp_packet (a_nit a));
     h \<leftarrow> struct_at NIT_LEN nit_of b 0;
     let v = int (unat (nit_t.version_number h));
     let n = unat (nit_t.section_number h);
     if nit_t.table_id h \<noteq> 0x40 then Some (1, a, cp)
     else if v = seen_version (a_nit a) \<and> sections_seen (a_nit a) ! n then Some (0, a, cp)
     else do {
       let t = psi_seen n (if v = seen_version (a_nit a) then a_nit a else psi_new_version v (a_nit a));
       let a = a\<lparr>a_nit := t\<rparr>;
       if nit_t.current_next_indicator h = 0 then Some (1, a, cp)
       else do {
         let a = a\<lparr>network_id := int (HILO (nit_t.network_id_hi h) (nit_t.network_id_lo h))\<rparr>;
         let off = NIT_LEN + HILO (nit_t.network_descriptor_length_hi h) (nit_t.network_descriptor_length_lo h);
         mid \<leftarrow> struct_at SIZE_NIT_MID nit_mid_of b off;
         cp \<leftarrow> parse_nit_ts_descriptor b (off + SIZE_NIT_MID)
                (HILO (nit_mid_t.transport_stream_loop_length_hi mid) (nit_mid_t.transport_stream_loop_length_lo mid))
                (transport_stream_id a) cp;
         if sections_missing (unat (nit_t.last_section_number h)) t \<noteq> 0 then Some (0, a, cp)
         else Some (1, a\<lparr>a_nit := psi_complete t\<rparr>, cp)}}}"

section \<open>What a NIT announces\<close>

fun lcn_entries :: "u8 list \<Rightarrow> (nat \<times> nat) list" where
  "lcn_entries (x # y # z # w # rest) = (HILO x y, HILO (bf_get z 0 2) w) # lcn_entries rest"
| "lcn_entries _ = []"

definition nit_descr_ok :: "descriptor \<Rightarrow> bool" where
  "nit_descr_ok d \<longleftrightarrow> length (snd d) < 254 \<and> (fst d = 0x83 \<longrightarrow> 4 dvd length (snd d))"

definition descr_lcns :: "descriptor \<Rightarrow> (nat \<times> nat) list" where
  "descr_lcns d = (if fst d = 0x83 then lcn_entries (snd d) else [])"

text \<open>A transport stream: the six bytes of its header, and its descriptors.\<close>

type_synonym nit_ts = "u8 list \<times> descriptor list"

definition ts_bytes :: "nit_ts \<Rightarrow> u8 list" where
  "ts_bytes e = fst e @ descrs_bytes (snd e)"

definition nit_ts_ok :: "nit_ts \<Rightarrow> bool" where
  "nit_ts_ok e \<longleftrightarrow> length (fst e) = NIT_TS_LEN \<and> nit_ts_length (nit_ts_of (fst e)) = length (descrs_bytes (snd e)) \<and>
     (\<forall>d \<in> set (snd e). nit_descr_ok d)"

text \<open>The numbers for one transport stream, in their order.\<close>

definition nit_lcns :: "int \<Rightarrow> nit_ts list \<Rightarrow> (nat \<times> nat) list" where
  "nit_lcns tsid es = concat (map (\<lambda>e. if tsid = int (nit_ts_id (nit_ts_of (fst e))) then concat (map descr_lcns (snd e)) else []) es)"

definition apply_lcns :: "(nat \<times> nat) list \<Rightarrow> mumudvb_channel_t \<Rightarrow> mumudvb_channel_t" where
  "apply_lcns ls ch = (case map_of (rev ls) (mumudvb_channel_t.service_id ch) of None \<Rightarrow> ch
     | Some l \<Rightarrow> ch\<lparr>logical_channel_number := l\<rparr>)"

lemma set_lcn_keeps [simp]: "mumudvb_channel_t.service_id (set_lcn s l ch) = mumudvb_channel_t.service_id ch"
  by (simp add: set_lcn_def)

lemma apply_lcns_keeps [simp]: "mumudvb_channel_t.service_id (apply_lcns ls ch) = mumudvb_channel_t.service_id ch"
  by (simp add: apply_lcns_def split: option.split)

lemma apply_lcns_Nil [simp]: "apply_lcns [] ch = ch"
  by (simp add: apply_lcns_def)

lemma apply_lcns_append: "apply_lcns (ls @ ks) ch = apply_lcns ks (apply_lcns ls ch)"
  by (auto simp: apply_lcns_def map_add_def split: option.split)

lemma apply_lcns_single: "apply_lcns [(s, l)] = set_lcn s l"
  by (auto simp: apply_lcns_def set_lcn_def fun_eq_iff)

lemma channels_map_lcns:
  "services_inv cp \<Longrightarrow> channels_map (apply_lcns ks) (channels_map (apply_lcns ls) cp) = channels_map (apply_lcns (ls @ ks)) cp"
  by (simp add: channels_map_comp comp_def flip: apply_lcns_append)

lemma services_inv_lcns: "services_inv cp \<Longrightarrow> services_inv (channels_map (apply_lcns ls) cp)"
  by (rule channels_map_keeps) simp_all

lemma channels_map_no_lcns [simp]: "channels_map (apply_lcns []) cp = cp"
proof -
  have "apply_lcns [] = (\<lambda>ch. ch)" by (rule ext) simp
  then show ?thesis by (simp add: channels_map_id)
qed

lemma lcn_loop_ok:
  "holds_at b off xs \<Longrightarrow> 4 dvd length xs \<Longrightarrow> services_inv cp \<Longrightarrow>
   lcn_loop b off (length xs) cp = Some (channels_map (apply_lcns (lcn_entries xs)) cp)"
proof (induction xs arbitrary: off cp rule: lcn_entries.induct)
  case (1 x y z w rest)
  have "holds_at b off ([x, y, z, w] @ rest)" using "1.prems"(1) by simp
  then have h: "holds_at b off [x, y, z, w]" "holds_at b (off + NIT_LCN_LEN) rest"
    unfolding holds_at_append NIT_LCN_LEN_def by (simp_all add: eval_nat_numeral)
  have "struct_at NIT_LCN_LEN nit_lcn_of b off = Some (nit_lcn_of [x, y, z, w])"
    using h(1) by (intro nit_lcn_s.at_holds) (simp_all add: NIT_LCN_LEN_def)
  moreover have "lcn_service_id (nit_lcn_of [x, y, z, w]) = HILO x y" "lcn_number (nit_lcn_of [x, y, z, w]) = HILO (bf_get z 0 2) w"
    by (simp_all add: lcn_service_id_def lcn_number_def nit_lcn_of_def)
  ultimately have "lcn_loop b off (length (x # y # z # w # rest)) cp =
      lcn_loop b (off + NIT_LCN_LEN) (length rest) (channels_map (apply_lcns [(HILO x y, HILO (bf_get z 0 2) w)]) cp)"
    by (subst lcn_loop.simps) (simp add: NIT_LCN_LEN_def apply_lcns_single)
  also have "\<dots> = Some (channels_map (apply_lcns (lcn_entries rest)) (channels_map (apply_lcns [(HILO x y, HILO (bf_get z 0 2) w)]) cp))"
    using "1.prems" by (intro "1.IH" h(2) services_inv_lcns) (simp_all, presburger?)
  finally show ?case using "1.prems"(3) by (simp add: channels_map_lcns)
qed (simp add: lcn_loop.simps, (auto dest: dvd_imp_le)+)

lemma nit_descriptors_ok:
  "holds_at b off (descrs_bytes ds) \<Longrightarrow> \<forall>d \<in> set ds. nit_descr_ok d \<Longrightarrow> services_inv cp \<Longrightarrow>
   nit_descriptors mine b off (length (descrs_bytes ds)) cp =
     Some (off + length (descrs_bytes ds), channels_map (apply_lcns (if mine then concat (map descr_lcns ds) else [])) cp)"
proof (induction ds arbitrary: off cp)
  case Nil
  then show ?case by (subst nit_descriptors.simps) (simp cong: if_cong)
next
  case (Cons d ds)
  have h: "holds_at b off (descr_bytes d)" "holds_at b (off + (length (snd d) + 2)) (descrs_bytes ds)" "nit_descr_ok d"
    using Cons.prems by simp_all
  then obtain l where l: "rd b off = Some (fst d)" "rd b (off + 1) = Some l" "unat (l + 2) = length (snd d) + 2"
    using descr_start_len [OF h(1)] by (auto simp: nit_descr_ok_def)
  then have z: "l + 2 \<noteq> 0" by (metis add_is_0 unat_0 zero_neq_numeral)
  define ls where "ls = (if mine then descr_lcns d else [])"
  have "holds_at b (off + 2) (snd d)" using h(1) by (simp add: descr_bytes_def holds_at_Cons)
  moreover have "rd b (off + 1) = Some (of_nat (length (snd d)))" "unat (of_nat (length (snd d)) :: u8) = length (snd d)"
    using h(1,3) by (simp_all add: descr_bytes_def holds_at_Cons nit_descr_ok_def unat_small)
  ultimately have one: "(if mine \<and> fst d = 0x83 then parse_lcn_descriptor b off cp else Some cp) = Some (channels_map (apply_lcns ls) cp)"
    using lcn_loop_ok [of b "off + 2" "snd d" cp] h(3) Cons.prems(3)
    by (simp add: parse_lcn_descriptor_def ls_def descr_lcns_def nit_descr_ok_def)
  have "nit_descriptors mine b off (length (descrs_bytes (d # ds))) cp =
     nit_descriptors mine b (off + (length (snd d) + 2)) (length (descrs_bytes ds)) (channels_map (apply_lcns ls) cp)"
    using l(1,2) z one by (subst nit_descriptors.simps) (simp add: l(3))
  also have "\<dots> = Some (off + (length (snd d) + 2) + length (descrs_bytes ds),
     channels_map (apply_lcns (if mine then concat (map descr_lcns ds) else [])) (channels_map (apply_lcns ls) cp))"
    using Cons.prems by (intro Cons.IH h(2) services_inv_lcns) simp_all
  finally show ?case using Cons.prems(3) by (simp add: channels_map_lcns ls_def add.assoc)
qed

lemma nit_ts_parts:
  assumes "holds_at b i (ts_bytes e)" "nit_ts_ok e"
  shows "struct_at NIT_TS_LEN nit_ts_of b i = Some (nit_ts_of (fst e))" "holds_at b (i + NIT_TS_LEN) (descrs_bytes (snd e))"
    "length (ts_bytes e) = nit_ts_length (nit_ts_of (fst e)) + NIT_TS_LEN"
proof -
  have h: "holds_at b i (fst e)" "holds_at b (i + NIT_TS_LEN) (descrs_bytes (snd e))"
    using assms by (auto simp: ts_bytes_def nit_ts_ok_def)
  show "struct_at NIT_TS_LEN nit_ts_of b i = Some (nit_ts_of (fst e))"
    using h(1) assms(2) by (intro nit_ts_s.at_holds) (simp_all add: nit_ts_ok_def)
  show "holds_at b (i + NIT_TS_LEN) (descrs_bytes (snd e))" by (rule h)
  show "length (ts_bytes e) = nit_ts_length (nit_ts_of (fst e)) + NIT_TS_LEN"
    using assms(2) by (simp add: ts_bytes_def nit_ts_ok_def)
qed

lemma parse_nit_ts_descriptor_ok:
  "holds_at b off (concat (map ts_bytes es)) \<Longrightarrow> \<forall>e \<in> set es. nit_ts_ok e \<Longrightarrow> services_inv cp \<Longrightarrow>
   parse_nit_ts_descriptor b off (length (concat (map ts_bytes es))) tsid cp = Some (channels_map (apply_lcns (nit_lcns tsid es)) cp)"
proof (induction es arbitrary: off cp)
  case Nil
  then show ?case by (subst parse_nit_ts_descriptor.simps) (simp add: nit_lcns_def)
next
  case (Cons e es)
  have e: "holds_at b off (ts_bytes e)" "nit_ts_ok e" using Cons.prems by simp_all
  note p = nit_ts_parts [OF e]
  define h where "h = nit_ts_of (fst e)"
  define ls where "ls = (if tsid = int (nit_ts_id h) then concat (map descr_lcns (snd e)) else [])"
  have ds: "\<forall>d \<in> set (snd e). nit_descr_ok d" "nit_ts_length h = length (descrs_bytes (snd e))"
    using e(2) by (simp_all add: nit_ts_ok_def h_def)
  have one: "nit_descriptors (tsid = int (nit_ts_id h)) b (off + NIT_TS_LEN) (nit_ts_length h) cp =
      Some (off + length (ts_bytes e), channels_map (apply_lcns ls) cp)"
    using nit_descriptors_ok [OF p(2) ds(1) Cons.prems(3), of "tsid = int (nit_ts_id h)"] p(3) ds(2)
    by (simp add: ls_def h_def)
  have "parse_nit_ts_descriptor b off (length (concat (map ts_bytes (e # es)))) tsid cp =
     parse_nit_ts_descriptor b (off + length (ts_bytes e)) (length (concat (map ts_bytes es))) tsid (channels_map (apply_lcns ls) cp)"
    using p(1) [folded h_def] one p(3) [folded h_def] by (subst parse_nit_ts_descriptor.simps) (simp add: NIT_TS_LEN_def)
  also have "\<dots> = Some (channels_map (apply_lcns (nit_lcns tsid es)) (channels_map (apply_lcns ls) cp))"
    using Cons.prems by (intro Cons.IH services_inv_lcns) simp_all
  finally show ?case using Cons.prems(3) by (simp add: channels_map_lcns ls_def nit_lcns_def h_def)
qed

section \<open>The NIT is read\<close>

text \<open>A section: header, descriptors of the network, length of the loop, transport streams, CRC.\<close>

definition nit_section :: "u8 list \<Rightarrow> u8 list \<Rightarrow> nit_ts list \<Rightarrow> bool" where
  "nit_section s net es \<longleftrightarrow> NIT_LEN \<le> length s \<and> nit_t.table_id (nit_of s) = 0x40 \<and>
     HILO (nit_t.network_descriptor_length_hi (nit_of s)) (nit_t.network_descriptor_length_lo (nit_of s)) = length net \<and>
     (\<forall>e \<in> set es. nit_ts_ok e) \<and>
     (\<exists>mid crc. length mid = SIZE_NIT_MID \<and> drop NIT_LEN s = net @ mid @ concat (map ts_bytes es) @ crc \<and>
        HILO (nit_mid_t.transport_stream_loop_length_hi (nit_mid_of mid)) (nit_mid_t.transport_stream_loop_length_lo (nit_mid_of mid)) =
          length (concat (map ts_bytes es)))"

lemma autoconf_read_nit_runs:
  assumes s: "nit_section s net es" "holds_at (data_full (temp_packet (a_nit a))) 0 s"
    and v: "int (unat (nit_t.version_number (nit_of s))) \<noteq> seen_version (a_nit a)" "nit_t.current_next_indicator (nit_of s) \<noteq> 0"
    and one: "nit_t.section_number (nit_of s) = 0" "nit_t.last_section_number (nit_of s) = 0" and cp: "services_inv cp"
  shows "\<exists>a'. autoconf_read_nit a cp = Some (1, a', channels_map (apply_lcns (nit_lcns (transport_stream_id a) es)) cp) \<and>
    all_sections_seen (a_nit a') \<and> \<not> need_update (a_nit a') \<and>
    network_id a' = int (HILO (nit_t.network_id_hi (nit_of s)) (nit_t.network_id_lo (nit_of s)))"
proof -
  define b where "b = data_full (temp_packet (a_nit a))"
  obtain mid crc where m: "length mid = SIZE_NIT_MID" "drop NIT_LEN s = net @ mid @ concat (map ts_bytes es) @ crc"
      "HILO (nit_mid_t.transport_stream_loop_length_hi (nit_mid_of mid)) (nit_mid_t.transport_stream_loop_length_lo (nit_mid_of mid)) =
          length (concat (map ts_bytes es))"
     and ok: "\<forall>e \<in> set es. nit_ts_ok e" "nit_t.table_id (nit_of s) = 0x40" "NIT_LEN \<le> length s"
       "HILO (nit_t.network_descriptor_length_hi (nit_of s)) (nit_t.network_descriptor_length_lo (nit_of s)) = length net"
    using s(1) by (auto simp: nit_section_def)
  have "take NIT_LEN s @ net @ mid @ concat (map ts_bytes es) @ crc = s" by (metis append_take_drop_id m(2))
  then have "holds_at b 0 (take NIT_LEN s @ net @ mid @ concat (map ts_bytes es) @ crc)" using s(2) by (simp only: b_def)
  then have h: "holds_at b (NIT_LEN + length net) mid" "holds_at b (NIT_LEN + length net + SIZE_NIT_MID) (concat (map ts_bytes es))"
    using ok(3) m(1) by simp_all
  have at: "struct_at NIT_LEN nit_of b 0 = Some (nit_of s)" "struct_at SIZE_NIT_MID nit_mid_of b (NIT_LEN + length net) = Some (nit_mid_of mid)"
    unfolding b_def using s(2) ok(3) h(1) m(1) by (auto intro!: nit_s.at_holds nit_mid_s.at_holds simp: b_def)
  have t: "sections_missing 0 (psi_seen 0 (psi_new_version w t)) = 0" for t w
    by (simp add: psi_seen_def psi_new_version_def sections_missing_0)
  note p = parse_nit_ts_descriptor_ok [OF h(2) ok(1) cp, of "transport_stream_id a"]
  show ?thesis
    using v one ok(2) unfolding autoconf_read_nit_def b_def [symmetric] Let_def at(1) bind.bind_lunit
    by (simp add: t ok(4) at(2) m(3) p) (simp add: psi_complete_def)
qed

text \<open>
  A NIT of one section, of a version not seen before, with any descriptors of at most 253 bytes of which those with the channel numbers
  have four bytes for each service: it is read completely, and every channel in use gets the last number that the descriptors of
  its own transport stream - the one of the PAT - give to its service, and keeps its number when there is none.
\<close>

theorem autoconf_read_nit_numbers:
  assumes "nit_section s net es" "holds_at (data_full (temp_packet (a_nit a))) 0 s"
    and "int (unat (nit_t.version_number (nit_of s))) \<noteq> seen_version (a_nit a)" "nit_t.current_next_indicator (nit_of s) \<noteq> 0"
    and "nit_t.section_number (nit_of s) = 0" "nit_t.last_section_number (nit_of s) = 0" "services_inv cp"
  shows "\<exists>a' cp'. autoconf_read_nit a cp = Some (1, a', cp') \<and> all_sections_seen (a_nit a') \<and> \<not> need_update (a_nit a') \<and>
    services_inv cp' \<and> number_of_channels cp' = number_of_channels cp \<and>
    (\<forall>i < number_of_channels cp. channels cp' ! i = apply_lcns (nit_lcns (transport_stream_id a) es) (channels cp ! i))"
proof -
  let ?f = "apply_lcns (nit_lcns (transport_stream_id a) es)"
  have "services_inv (channels_map ?f cp)" by (rule services_inv_lcns [OF assms(7)])
  moreover have "number_of_channels (channels_map ?f cp) = number_of_channels cp" by (simp add: channels_map_def)
  ultimately show ?thesis
    using autoconf_read_nit_runs [OF assms] channels_map_nth [OF assms(7)] by auto
qed

text \<open>Once the NIT has been read, no packet makes it be read again, so a new version is never noticed.\<close>

lemma nit_new_version_ignored:
  assumes "all_sections_seen (a_nit a)" "need_bytes \<le> length b"
  shows "autoconf_nit_need_update a b = Some a"
proof -
  obtain r where "get_ts_begin b = Some r" "\<forall>off. r = Some off \<longrightarrow> off \<le> TS_PACKET_SIZE"
    using get_ts_begin_total [of b] assms(2) by (auto simp: need_bytes_def)
  then show ?thesis using assms
    by (auto simp: autoconf_nit_need_update_def tbl_version_def mem_simps need_bytes_def split: option.split)
qed

section \<open>Witness\<close>

definition sample_nit_ts :: nit_ts where
  "sample_nit_ts = ([0, 1, 0, 1, 0xf0, 6], [(0x83, [0, 7, 0xfc, 42])])"

definition sample_nit :: "u8 list" where
  "sample_nit = [0x40, 0xf0, 25, 0, 1, 0xc3, 0, 0, 0xf0, 0] @ [0xf0, 12] @ ts_bytes sample_nit_ts @ [0, 0, 0, 0]"

definition sample_nit_auto :: auto_p_t where
  "sample_nit_auto = init_aconf_v\<lparr>transport_stream_id := 1, a_nit := (init_psi_table (-1))\<lparr>temp_packet := empty_ts_packet\<lparr>len_full := length sample_nit,
     data_full := sample_nit\<rparr>\<rparr>\<rparr>"

theorem autoconf_read_nit_numbers_witness:
  "\<exists>a' cp'. autoconf_read_nit sample_nit_auto sample_service_cp = Some (1, a', cp') \<and> logical_channel_number (channels cp' ! 0) = 42"
proof -
  have ts: "nit_ts_ok sample_nit_ts"
    by (simp add: nit_ts_ok_def sample_nit_ts_def NIT_TS_LEN_def nit_ts_of_def nit_ts_length_def HILO_eq bf_get_def nit_descr_ok_def) presburger
  have "NIT_LEN \<le> length sample_nit \<and> nit_t.table_id (nit_of sample_nit) = 0x40 \<and>
     HILO (nit_t.network_descriptor_length_hi (nit_of sample_nit)) (nit_t.network_descriptor_length_lo (nit_of sample_nit)) = 0"
    by (simp add: sample_nit_def NIT_LEN_def nit_of_def HILO_eq bf_get_def)
  moreover have "\<exists>mid crc. length mid = SIZE_NIT_MID \<and> drop NIT_LEN sample_nit = [] @ mid @ concat (map ts_bytes [sample_nit_ts]) @ crc \<and>
      HILO (nit_mid_t.transport_stream_loop_length_hi (nit_mid_of mid)) (nit_mid_t.transport_stream_loop_length_lo (nit_mid_of mid)) =
        length (concat (map ts_bytes [sample_nit_ts]))"
    by (rule exI [of _ "[0xf0, 12]"], rule exI [of _ "[0, 0, 0, 0]"])
      (simp add: sample_nit_def NIT_LEN_def SIZE_NIT_MID_def nit_mid_of_def HILO_eq bf_get_def ts_bytes_def sample_nit_ts_def)
  ultimately have "nit_section sample_nit [] [sample_nit_ts]"
    unfolding nit_section_def using ts by simp
  moreover have "services_inv sample_service_cp" by (simp add: services_inv_def sample_service_cp_def MAX_CHANNELS_def)
  moreover have "nit_t.section_number (nit_of sample_nit) = 0" "nit_t.last_section_number (nit_of sample_nit) = 0"
      "nit_t.current_next_indicator (nit_of sample_nit) \<noteq> 0"
      "int (unat (nit_t.version_number (nit_of sample_nit))) \<noteq> seen_version (a_nit sample_nit_auto)"
    by (simp_all add: sample_nit_def nit_of_def bf_get_def sample_nit_auto_def init_psi_table_def)
  ultimately obtain a' cp' where r: "autoconf_read_nit sample_nit_auto sample_service_cp = Some (1, a', cp')"
      "channels cp' ! 0 = apply_lcns (nit_lcns 1 [sample_nit_ts]) (channels sample_service_cp ! 0)"
    using autoconf_read_nit_numbers [of sample_nit "[]" "[sample_nit_ts]" sample_nit_auto sample_service_cp]
      holds_at_prefix [of "[]" sample_nit "[]"] by (auto simp: sample_nit_auto_def sample_service_cp_def)
  have "nit_lcns 1 [sample_nit_ts] = [(7, 42)]"
    by (simp add: nit_lcns_def sample_nit_ts_def nit_ts_id_def nit_ts_of_def HILO_eq descr_lcns_def bf_get_def)
  then show ?thesis using r by (simp add: apply_lcns_def sample_service_cp_def)
qed

end
