(* ===== verification/Autoconf_Atsc.thy ===== *)
theory Autoconf_Atsc
  imports Autoconf_Sdt
begin

text \<open>
  ATSC, \<^verbatim>\<open>src/src/autoconf_atsc.c\<close>: names and types of the services from the virtual channel table. The
  build is one with iconv and without the library libucsi, so only the short names are read; \<open>utf16\<close> is
  what iconv makes of the 14 bytes of a short name, and \<open>junk\<close> what the array for it holds before.

  The lemmas show what every channel gets from an encoded table.
\<close>

section \<open>Operations\<close>

definition autoconf_psip_need_update :: "auto_p_t \<Rightarrow> u8 list \<Rightarrow> auto_p_t option" where
  "autoconf_psip_need_update a b = do {
     begin \<leftarrow> get_ts_begin b;
     case begin of None \<Rightarrow> Some a
     | Some off \<Rightarrow> do {
         v \<leftarrow> tbl_version b off;
         if v \<noteq> seen_version (a_psip a) \<and> \<not> all_sections_seen (a_psip a) then do {
           current \<leftarrow> tbl_current_next b off;
           if \<not> current then Some a else Some (a\<lparr>a_psip := (a_psip a)\<lparr>need_update := True\<rparr>\<rparr>)}
         else Some a}}"

definition vct_tsid :: "psip_vct_channel_t \<Rightarrow> nat" where
  "vct_tsid c = HILO (psip_vct_channel_t.channel_tsid_hi c) (psip_vct_channel_t.channel_tsid_lo c)"

definition vct_program :: "psip_vct_channel_t \<Rightarrow> nat" where
  "vct_program c = HILO (psip_vct_channel_t.program_number_hi c) (psip_vct_channel_t.program_number_lo c)"

definition vct_length :: "psip_vct_channel_t \<Rightarrow> nat" where
  "vct_length c = PSIP_VCT_LEN + HILO (psip_vct_channel_t.descriptor_length_hi c) (psip_vct_channel_t.descriptor_length_lo c)"

text \<open>The type of the service in DVB.\<close>

definition mpeg2_service_type :: "u8 \<Rightarrow> nat" where
  "mpeg2_service_type t = (if t = 0x02 then 0x01 else if t = 0x03 then 0x02 else if t = 0x04 then 0x0c else 0)"

definition vct_short_name :: "(u8 list \<Rightarrow> u8 list) \<Rightarrow> u8 list \<Rightarrow> psip_vct_channel_t \<Rightarrow> u8 list option" where
  "vct_short_name utf16 junk c = map_option c_bytes (mem_write junk 0 (utf16 (psip_vct_channel_t.short_name c) @ [0]))"

text \<open>The result is the length of the entry.\<close>

definition autoconf_parse_vct_channel ::
  "(u8 list \<Rightarrow> u8 list) \<Rightarrow> u8 list \<Rightarrow> u8 list \<Rightarrow> nat \<Rightarrow> auto_p_t \<Rightarrow> mumu_chan_p_t \<Rightarrow> (nat \<times> mumu_chan_p_t) option" where
  "autoconf_parse_vct_channel utf16 junk b off a cp = do {
     c \<leftarrow> struct_at PSIP_VCT_LEN psip_vct_channel_of b off;
     nm \<leftarrow> vct_short_name utf16 junk c;
     if psip_vct_channel_t.modulation_mode c = 0x01 \<or> int (vct_tsid c) \<noteq> transport_stream_id a \<or>
        psip_vct_channel_t.hidden c \<noteq> 0
     then Some (vct_length c, cp)
     else (case find_service (vct_program c) cp of None \<Rightarrow> Some (vct_length c, cp)
       | Some i \<Rightarrow> do {
           ch \<leftarrow> rd (channels cp) i;
           Some (vct_length c, set_channel cp i (ch\<lparr>service_type := mpeg2_service_type (psip_vct_channel_t.service_type c),
             free_ca_mode := unat (psip_vct_channel_t.access_controlled c), service_name := string_of nm\<rparr>))})}"

primrec psip_channels ::
  "(u8 list \<Rightarrow> u8 list) \<Rightarrow> (nat \<Rightarrow> u8 list) \<Rightarrow> u8 list \<Rightarrow> auto_p_t \<Rightarrow> nat \<Rightarrow> nat \<Rightarrow> mumu_chan_p_t \<Rightarrow> mumu_chan_p_t option" where
  "psip_channels utf16 junk b a 0 delta cp = Some cp"
| "psip_channels utf16 junk b a (Suc n) delta cp = do {
     (l, cp) \<leftarrow> autoconf_parse_vct_channel utf16 (junk delta) b delta a cp;
     psip_channels utf16 junk b a n (delta + l) cp}"

definition autoconf_read_psip ::
  "(u8 list \<Rightarrow> u8 list) \<Rightarrow> (nat \<Rightarrow> u8 list) \<Rightarrow> auto_p_t \<Rightarrow> mumu_chan_p_t \<Rightarrow> (int \<times> auto_p_t \<times> mumu_chan_p_t) option" where
  "autoconf_read_psip utf16 junk a cp = do {
     let b = data_full (temp_packet (a_psip a));
     h \<leftarrow> struct_at PSIP_HEADER_LEN psip_of b 0;
     let v = int (unat (psip_t.version_number h));
     let n = unat (psip_t.section_number h);
     if psip_t.table_id h \<noteq> 0xc8 \<and> psip_t.table_id h \<noteq> 0xc9 then Some (1, a, cp)
     else if transport_stream_id a < 0 then Some (1, a, cp)
     else if int (HILO (psip_t.transport_stream_id_hi h) (psip_t.transport_stream_id_lo h)) \<noteq> transport_stream_id a then Some (1, a, cp)
     else if v = seen_version (a_psip a) \<and> sections_seen (a_psip a) ! n then Some (0, a, cp)
     else do {
       let t = psi_seen n (if v = seen_version (a_psip a) then a_psip a else psi_new_version v (a_psip a));
       let a = a\<lparr>a_psip := t\<rparr>;
       k \<leftarrow> rd b PSIP_HEADER_LEN;
       cp \<leftarrow> psip_channels utf16 junk b a (unat k) (PSIP_HEADER_LEN + 1) cp;
       if sections_missing (unat (psip_t.last_section_number h)) t \<noteq> 0 then Some (0, a, cp)
       else Some (0, a\<lparr>a_psip := psi_complete t, need_filter_chan_update := True\<rparr>, cp)}}"

section \<open>What a table announces\<close>

text \<open>An entry: its 32 bytes, and its descriptors as bytes.\<close>

type_synonym vct_entry = "u8 list \<times> u8 list"

definition vct_head :: "vct_entry \<Rightarrow> psip_vct_channel_t" where
  "vct_head e = psip_vct_channel_of (fst e)"

definition vct_ok :: "vct_entry \<Rightarrow> bool" where
  "vct_ok e \<longleftrightarrow> length (fst e) = PSIP_VCT_LEN \<and> vct_length (vct_head e) = PSIP_VCT_LEN + length (snd e)"

text \<open>What a channel gets from an entry: nothing when the entry is analog, hidden, or of another transport stream.\<close>

definition apply_vct :: "(u8 list \<Rightarrow> u8 list) \<Rightarrow> int \<Rightarrow> vct_entry \<Rightarrow> mumudvb_channel_t \<Rightarrow> mumudvb_channel_t" where
  "apply_vct utf16 tsid e ch = (let c = vct_head e in
     if psip_vct_channel_t.modulation_mode c \<noteq> 0x01 \<and> int (vct_tsid c) = tsid \<and> psip_vct_channel_t.hidden c = 0 \<and>
        vct_program c = mumudvb_channel_t.service_id ch
     then ch\<lparr>service_type := mpeg2_service_type (psip_vct_channel_t.service_type c),
            free_ca_mode := unat (psip_vct_channel_t.access_controlled c),
            service_name := string_of (takeWhile (\<lambda>x. x \<noteq> 0) (utf16 (psip_vct_channel_t.short_name c)))\<rparr>
     else ch)"

lemma apply_vct_keeps [simp]: "mumudvb_channel_t.service_id (apply_vct utf16 tsid e ch) = mumudvb_channel_t.service_id ch"
  by (simp add: apply_vct_def Let_def)

lemma fold_apply_vct_keeps [simp]:
  "mumudvb_channel_t.service_id (fold (apply_vct utf16 tsid) es ch) = mumudvb_channel_t.service_id ch"
  by (induction es arbitrary: ch) simp_all

definition utf16_ok :: "(u8 list \<Rightarrow> u8 list) \<Rightarrow> bool" where
  "utf16_ok utf16 \<longleftrightarrow> (\<forall>xs. length (utf16 xs) \<le> 14)"

lemma vct_short_name_ok:
  assumes "utf16_ok utf16" "length junk = 15"
  shows "vct_short_name utf16 junk c = Some (takeWhile (\<lambda>x. x \<noteq> 0) (utf16 (psip_vct_channel_t.short_name c)))"
proof -
  define out where "out = utf16 (psip_vct_channel_t.short_name c)"
  have "length (out @ [0]) \<le> length junk" using assms by (simp add: utf16_ok_def out_def)
  moreover have "c_bytes (out @ 0 # ys) = takeWhile (\<lambda>x. x \<noteq> 0) out" for ys
    unfolding c_bytes_def by (induction out) simp_all
  ultimately show ?thesis by (simp add: vct_short_name_def mem_write_def out_def)
qed

lemma parse_vct_channel_ok:
  assumes e: "holds_at b off (fst e)" "vct_ok e" and u: "utf16_ok utf16" "length junk = 15" and cp: "services_inv cp"
  shows "autoconf_parse_vct_channel utf16 junk b off a cp =
     Some (PSIP_VCT_LEN + length (snd e), channels_map (apply_vct utf16 (transport_stream_id a) e) cp)"
proof -
  define c where "c = vct_head e"
  have at: "struct_at PSIP_VCT_LEN psip_vct_channel_of b off = Some c"
    unfolding c_def vct_head_def using e by (intro psip_vct_channel_s.at_holds) (simp_all add: vct_ok_def)
  have l: "vct_length c = PSIP_VCT_LEN + length (snd e)" using e(2) by (simp add: vct_ok_def c_def)
  let ?f = "apply_vct utf16 (transport_stream_id a) e"
  show ?thesis
  proof (cases "psip_vct_channel_t.modulation_mode c = 0x01 \<or> int (vct_tsid c) \<noteq> transport_stream_id a \<or> psip_vct_channel_t.hidden c \<noteq> 0")
    case True
    then have "?f = (\<lambda>ch. ch)" by (intro ext) (auto simp: apply_vct_def Let_def c_def)
    then show ?thesis using True at l vct_short_name_ok [OF u] by (auto simp: autoconf_parse_vct_channel_def channels_map_id)
  next
    case False
    have other: "mumudvb_channel_t.service_id ch \<noteq> vct_program c \<Longrightarrow> ?f ch = ch" for ch
      by (simp add: apply_vct_def Let_def c_def)
    show ?thesis
    proof (cases "find_service (vct_program c) cp")
      case None
      then show ?thesis using False at l vct_short_name_ok [OF u] find_none_map [OF cp None other]
        by (simp add: autoconf_parse_vct_channel_def)
    next
      case (Some i)
      have i: "i < length (channels cp)" "mumudvb_channel_t.service_id (channels cp ! i) = vct_program c"
        using find_service_Some [OF Some] cp by (auto simp: services_inv_def)
      have "?f (channels cp ! i) = (channels cp ! i)\<lparr>service_type := mpeg2_service_type (psip_vct_channel_t.service_type c),
            free_ca_mode := unat (psip_vct_channel_t.access_controlled c),
            service_name := string_of (takeWhile (\<lambda>x. x \<noteq> 0) (utf16 (psip_vct_channel_t.short_name c)))\<rparr>"
        using False i(2) by (simp add: apply_vct_def Let_def c_def)
      then show ?thesis using False at l vct_short_name_ok [OF u] Some i(1) set_channel_map [OF cp Some other]
        by (simp add: autoconf_parse_vct_channel_def rd_def)
    qed
  qed
qed

definition vct_bytes :: "vct_entry \<Rightarrow> u8 list" where
  "vct_bytes e = fst e @ snd e"

lemma psip_channels_ok:
  "holds_at b delta (concat (map vct_bytes es)) \<Longrightarrow> \<forall>e \<in> set es. vct_ok e \<Longrightarrow> utf16_ok utf16 \<Longrightarrow> \<forall>k. length (junk k) = 15 \<Longrightarrow>
   services_inv cp \<Longrightarrow>
   psip_channels utf16 junk b a (length es) delta cp = Some (channels_map (fold (apply_vct utf16 (transport_stream_id a)) es) cp)"
proof (induction es arbitrary: delta cp)
  case Nil
  then show ?case by (simp add: channels_map_id id_def)
next
  case (Cons e es)
  have e: "holds_at b delta (fst e)" "vct_ok e" "holds_at b (delta + (PSIP_VCT_LEN + length (snd e))) (concat (map vct_bytes es))"
  proof -
    have l: "length (vct_bytes e) = PSIP_VCT_LEN + length (snd e)" using Cons.prems(2) by (simp add: vct_bytes_def vct_ok_def)
    have "holds_at b delta (vct_bytes e @ concat (map vct_bytes es))" using Cons.prems(1) by simp
    then have h: "holds_at b delta (vct_bytes e)" "holds_at b (delta + (PSIP_VCT_LEN + length (snd e))) (concat (map vct_bytes es))"
      unfolding holds_at_append l by simp_all
    show "holds_at b delta (fst e)" using h(1) unfolding vct_bytes_def holds_at_append by simp
    show "holds_at b (delta + (PSIP_VCT_LEN + length (snd e))) (concat (map vct_bytes es))" by (rule h)
    show "vct_ok e" using Cons.prems(2) by simp
  qed
  have inv: "services_inv (channels_map (apply_vct utf16 (transport_stream_id a) e) cp)"
    by (rule channels_map_keeps [OF Cons.prems(5)]) simp
  show ?case
    using parse_vct_channel_ok [OF e(1,2) Cons.prems(3), of "junk delta" cp a] Cons.IH [OF e(3) _ Cons.prems(3,4) inv] Cons.prems
    by (simp add: channels_map_comp comp_def)
qed

text \<open>A section: header, number of entries, entries, and the rest.\<close>

definition vct_section :: "u8 list \<Rightarrow> vct_entry list \<Rightarrow> bool" where
  "vct_section s es \<longleftrightarrow> PSIP_HEADER_LEN < length s \<and> psip_t.table_id (psip_of s) \<in> {0xc8, 0xc9} \<and> length es < 256 \<and>
     (\<forall>e \<in> set es. vct_ok e) \<and> (\<exists>rest. drop PSIP_HEADER_LEN s = of_nat (length es) # concat (map vct_bytes es) @ rest)"

text \<open>
  A virtual channel table of one section, for the transport stream of the PAT and of a version not seen before: it is read completely,
  the filters are to be updated, and every channel in use has the type, the name and the scrambling flag of the entries for its
  service that are digital, not hidden, and of this transport stream, in their order.
\<close>

theorem autoconf_read_psip_services:
  assumes s: "vct_section s es" "holds_at (data_full (temp_packet (a_psip a))) 0 s"
    and ts: "transport_stream_id a = int (HILO (psip_t.transport_stream_id_hi (psip_of s)) (psip_t.transport_stream_id_lo (psip_of s)))"
    and v: "int (unat (psip_t.version_number (psip_of s))) \<noteq> seen_version (a_psip a)"
    and one: "psip_t.section_number (psip_of s) = 0" "psip_t.last_section_number (psip_of s) = 0"
    and u: "utf16_ok utf16" "\<forall>k. length (junk k) = 15" and cp: "services_inv cp"
  shows "\<exists>a' cp'. autoconf_read_psip utf16 junk a cp = Some (0, a', cp') \<and> all_sections_seen (a_psip a') \<and>
    \<not> need_update (a_psip a') \<and> need_filter_chan_update a' \<and> number_of_channels cp' = number_of_channels cp \<and>
    (\<forall>i < number_of_channels cp. channels cp' ! i = fold (apply_vct utf16 (transport_stream_id a)) es (channels cp ! i))"
proof -
  define b where "b = data_full (temp_packet (a_psip a))"
  obtain rest where r: "drop PSIP_HEADER_LEN s = of_nat (length es) # concat (map vct_bytes es) @ rest"
     and ok: "PSIP_HEADER_LEN < length s" "psip_t.table_id (psip_of s) \<in> {0xc8, 0xc9}" "\<forall>e \<in> set es. vct_ok e" "length es < 256"
    using s(1) by (auto simp: vct_section_def)
  have "take PSIP_HEADER_LEN s @ [of_nat (length es)] @ concat (map vct_bytes es) @ rest = s"
    using r by (metis append_Cons append_Nil append_take_drop_id)
  then have "holds_at b 0 (take PSIP_HEADER_LEN s @ [of_nat (length es)] @ concat (map vct_bytes es) @ rest)" using s(2) by (simp only: b_def)
  then have h: "rd b PSIP_HEADER_LEN = Some (of_nat (length es))" "holds_at b (PSIP_HEADER_LEN + 1) (concat (map vct_bytes es))"
    using ok(1) by (simp_all add: holds_at_Cons)
  have at: "struct_at PSIP_HEADER_LEN psip_of b 0 = Some (psip_of s)" unfolding b_def using s(2) ok(1) by (intro psip_s.at_holds) simp_all
  have t: "sections_missing 0 (psi_seen 0 (psi_new_version w t)) = 0" for t w
    by (simp add: psi_seen_def psi_new_version_def sections_missing_0)
  have "psip_channels utf16 junk b x (length es) (PSIP_HEADER_LEN + 1) cp =
      Some (channels_map (fold (apply_vct utf16 (transport_stream_id x)) es) cp)" for x
    by (rule psip_channels_ok [OF h(2) ok(3) u cp])
  then have "\<exists>a'. autoconf_read_psip utf16 junk a cp = Some (0, a', channels_map (fold (apply_vct utf16 (transport_stream_id a)) es) cp) \<and>
      all_sections_seen (a_psip a') \<and> \<not> need_update (a_psip a') \<and> need_filter_chan_update a'"
    using v one ok(2) ts unfolding autoconf_read_psip_def b_def [symmetric] Let_def at bind.bind_lunit
    by (simp add: t h(1) unat_small [OF ok(4)]) (simp add: psi_complete_def)
  moreover have "number_of_channels (channels_map f cp) = number_of_channels cp" for f by (simp add: channels_map_def)
  ultimately show ?thesis using channels_map_nth [OF cp] by auto
qed

section \<open>Witness\<close>

definition sample_vct_entry :: vct_entry where
  "sample_vct_entry = ([0, 84, 0, 86, 0, 0, 0, 0, 0, 0, 0, 0, 0, 0, 0, 0, 1, 4, 0, 0, 0, 0, 0, 1, 0, 7, 0x20, 2, 0, 1, 0, 0], [])"

definition sample_vct :: "u8 list" where
  "sample_vct = [0xc8, 0xf0, 43, 0, 1, 0xc3, 0, 0, 0, 1] @ vct_bytes sample_vct_entry @ [0, 0, 0, 0, 0, 0]"

definition sample_psip_auto :: auto_p_t where
  "sample_psip_auto = init_aconf_v\<lparr>transport_stream_id := 1, a_psip := (init_psi_table 0)\<lparr>temp_packet := empty_ts_packet\<lparr>len_full := length sample_vct,
     data_full := sample_vct\<rparr>\<rparr>\<rparr>"

theorem autoconf_read_psip_services_witness:
  "\<exists>a' cp'. autoconf_read_psip (\<lambda>_. [84, 86]) (\<lambda>_. replicate 15 9) sample_psip_auto sample_service_cp = Some (0, a', cp') \<and>
     service_name (channels cp' ! 0) = ''TV''"
proof -
  have ent: "vct_ok sample_vct_entry"
    by (simp add: vct_ok_def sample_vct_entry_def PSIP_VCT_LEN_def vct_length_def vct_head_def psip_vct_channel_of_def HILO_eq bf_get_def)
  have "\<exists>rest. drop PSIP_HEADER_LEN sample_vct = of_nat (length [sample_vct_entry]) # concat (map vct_bytes [sample_vct_entry]) @ rest"
    by (rule exI [of _ "[0, 0, 0, 0, 0, 0]"]) (simp add: sample_vct_def PSIP_HEADER_LEN_def)
  then have "vct_section sample_vct [sample_vct_entry]"
    using ent by (simp add: vct_section_def) (simp add: sample_vct_def PSIP_HEADER_LEN_def psip_of_def)
  moreover have "services_inv sample_service_cp" by (simp add: services_inv_def sample_service_cp_def MAX_CHANNELS_def)
  moreover have "psip_t.section_number (psip_of sample_vct) = 0" "psip_t.last_section_number (psip_of sample_vct) = 0"
      "int (unat (psip_t.version_number (psip_of sample_vct))) \<noteq> seen_version (a_psip sample_psip_auto)"
      "transport_stream_id sample_psip_auto = int (HILO (psip_t.transport_stream_id_hi (psip_of sample_vct)) (psip_t.transport_stream_id_lo (psip_of sample_vct)))"
    by (simp_all add: sample_vct_def psip_of_def bf_get_def sample_psip_auto_def init_psi_table_def HILO_eq)
  moreover have "utf16_ok (\<lambda>_. [84, 86])" by (simp add: utf16_ok_def)
  ultimately obtain a' cp' where r: "autoconf_read_psip (\<lambda>_. [84, 86]) (\<lambda>_. replicate 15 9) sample_psip_auto sample_service_cp = Some (0, a', cp')"
      "channels cp' ! 0 = apply_vct (\<lambda>_. [84, 86]) 1 sample_vct_entry (channels sample_service_cp ! 0)"
    using autoconf_read_psip_services [of sample_vct "[sample_vct_entry]" sample_psip_auto "\<lambda>_. [84, 86]" "\<lambda>_. replicate 15 9" sample_service_cp]
      holds_at_prefix [of "[]" sample_vct "[]"] by (auto simp: sample_psip_auto_def sample_service_cp_def)
  have "service_name (channels cp' ! 0) = ''TV''"
    unfolding r(2) by (simp add: apply_vct_def vct_head_def sample_vct_entry_def psip_vct_channel_of_def vct_tsid_def vct_program_def HILO_eq
        bf_get_def sample_service_cp_def string_of_def char_of_def bit_0 Let_def)
  then show ?thesis using r(1) by blast
qed

end
