(* ===== verification/Channel_Net.thy ===== *)
theory Channel_Net
  imports Autoconf_Sdt Output
begin

text \<open>
  What autoconfiguration does with the channels once the tables are read: which of them are streamed
  (\<^verbatim>\<open>autoconf_update_chan_status\<close> of \<^verbatim>\<open>src/src/autoconf.c\<close>), their addresses, ports and sockets, and what
  the CAM is asked for (\<^verbatim>\<open>update_chan_net\<close> and \<^verbatim>\<open>chan_update_CAM\<close> of \<^verbatim>\<open>src/src/mumudvb_channels.c\<close>), in a build
  without SCAM. What the system calls that open sockets return, and the random bytes of the RTP
  header, are arguments. Server, card and tuner numbers are natural numbers below \<^verbatim>\<open>10^9\<close>.

  The lemmas show which address the default template makes, that an address template can overflow the
  address of the channel, and that a channel in use forgets its clients.
\<close>

section \<open>Which channels are streamed\<close>

definition tv_types :: "nat set" where "tv_types = {0x01, 0x11, 0x16, 0x19, 0x1f, 0x20, 0xc0}"

definition radio_types :: "nat set" where "radio_types = {0x02, 0x0a}"

definition chan_status :: "auto_p_t \<Rightarrow> mumudvb_channel_t \<Rightarrow> mumudvb_channel_t option" where
  "chan_status a ch =
     (if channel_ready ch = REMOVED then Some ch
      else if service_id_f ch \<noteq> F_DETECTED then Some ch
      else if \<not> autoconf_scrambled a \<and> free_ca_mode ch \<noteq> 0 then Some (ch\<lparr>channel_ready := NO_STREAMING\<rparr>)
      else if pmt_pid (pid_i ch) = 0 then Some (ch\<lparr>channel_ready := NO_STREAMING\<rparr>)
      else do {
        xs \<leftarrow> mem_read (service_id_list a) 0 (num_service_id a);
        if num_service_id a \<noteq> 0 \<and> int (mumudvb_channel_t.service_id ch) \<notin> set xs
        then Some (ch\<lparr>channel_ready := NO_STREAMING\<rparr>)
        else do {
          ys \<leftarrow> mem_read (service_id_list_ignore a) 0 (num_service_id_ignore a);
          Some (if int (mumudvb_channel_t.service_id ch) \<in> set ys then ch\<lparr>channel_ready := NO_STREAMING\<rparr>
            else if service_type ch \<in> tv_types \<or> service_type ch \<in> radio_types \<and> autoconf_radios a
            then ch\<lparr>channel_ready := ALMOST_READY\<rparr> else ch)}})"

text \<open>A loop over the channels in use, each with its number.\<close>

primrec each_channel :: "(nat \<Rightarrow> mumudvb_channel_t \<Rightarrow> mumudvb_channel_t option) \<Rightarrow> nat \<Rightarrow> nat \<Rightarrow> mumu_chan_p_t \<Rightarrow> mumu_chan_p_t option" where
  "each_channel f 0 i cp = Some cp"
| "each_channel f (Suc n) i cp = do {
     ch \<leftarrow> rd (channels cp) i;
     ch \<leftarrow> f i ch;
     each_channel f n (i + 1) (set_channel cp i ch)}"

definition autoconf_update_chan_status :: "auto_p_t \<Rightarrow> mumu_chan_p_t \<Rightarrow> mumu_chan_p_t option" where
  "autoconf_update_chan_status a cp = each_channel (\<lambda>_. chan_status a) (number_of_channels cp) 0 cp"

section \<open>Templates\<close>

text \<open>Replacements one after the other in a buffer of \<open>len\<close> bytes.\<close>

primrec expand :: "nat \<Rightarrow> (string \<times> string) list \<Rightarrow> string \<Rightarrow> string option" where
  "expand len [] s = Some s"
| "expand len (x # xs) s = do {
     (s, _) \<leftarrow> mumu_string_replace s len False (fst x) (snd x);
     expand len xs s}"

text \<open>Who we are: the configuration that \<^verbatim>\<open>update_chan_net\<close> gets.\<close>

record net_conf =
  server_id :: nat
  card_nr :: nat
  tuner_nr :: nat
  multicast :: bool
  multicast_ipv4 :: bool
  multicast_ipv6 :: bool
  common_port :: int
  auto_join :: bool
  rtp_header :: bool
  unicast_on :: bool

definition common_vars :: "net_conf \<Rightarrow> nat \<Rightarrow> (string \<times> string) list" where
  "common_vars c i = [(''%number'', print_u i), (''%card'', print_u (card_nr c)), (''%tuner'', print_u (tuner_nr c)),
     (''%server'', print_u (server_id c))]"

text \<open>A number in decimal, negative ones too, and a number of 16 bits in four hexadecimal digits.\<close>

definition print_d :: "int \<Rightarrow> string" where
  "print_d n = (if n < 0 then CHR ''-'' # print_u (nat (- n)) else print_u (nat n))"

definition hex_digit :: "nat \<Rightarrow> char" where
  "hex_digit d = (if d < 10 then char_of (48 + d) else char_of (87 + d))"

definition print_04x :: "nat \<Rightarrow> string" where
  "print_04x n = map hex_digit [n div 4096 mod 16, n div 256 mod 16, n div 16 mod 16, n mod 16]"

text \<open>A port: the sum of products that the template says.\<close>

definition template_port :: "nat \<Rightarrow> net_conf \<Rightarrow> nat \<Rightarrow> mumudvb_channel_t \<Rightarrow> string \<Rightarrow> int option" where
  "template_port len c i ch tmpl = do {
     s \<leftarrow> expand len (common_vars c i @ [(''%sid'', print_u (mumudvb_channel_t.service_id ch))]) tmpl;
     Some (string_comput (Some s))}"

text \<open>\<^verbatim>\<open>strtok_r\<close>: the parts between dots that are not empty; the sums in them are computed, a missing part is 0.\<close>

definition strtok_dots :: "string \<Rightarrow> string list" where
  "strtok_dots s = filter (\<lambda>t. t \<noteq> []) (Mumu_Strings.fields (CHR ''.'') s)"

definition tok :: "string list \<Rightarrow> nat \<Rightarrow> string" where
  "tok ts k = print_d (string_comput (if k < length ts then Some (ts ! k) else None))"

text \<open>The IPv4 address, written into an array of 20 bytes.\<close>

definition template_ip4 :: "net_conf \<Rightarrow> nat \<Rightarrow> mumudvb_channel_t \<Rightarrow> string \<Rightarrow> string option" where
  "template_ip4 c i ch tmpl = do {
     s \<leftarrow> expand 80 (common_vars c i @ [(''%sid_hi'', print_u (mumudvb_channel_t.service_id ch div 256 mod 256)),
            (''%sid_lo'', print_u (mumudvb_channel_t.service_id ch mod 256))]) tmpl;
     let ts = strtok_dots s;
     let ip = tok ts 0 @ ''.'' @ tok ts 1 @ ''.'' @ tok ts 2 @ ''.'' @ tok ts 3;
     if length ip + 1 \<le> 20 then Some ip else None}"

definition IPV6_CHAR_LEN :: nat where "IPV6_CHAR_LEN = 64"

definition template_ip6 :: "net_conf \<Rightarrow> nat \<Rightarrow> mumudvb_channel_t \<Rightarrow> string \<Rightarrow> string option" where
  "template_ip6 c i ch tmpl = do {
     s \<leftarrow> expand 80 (common_vars c i @ [(''%sid'', print_04x (mumudvb_channel_t.service_id ch))]) tmpl;
     Some (take (IPV6_CHAR_LEN - 1) s)}"

section \<open>Addresses and sockets\<close>

text \<open>What the system calls return for channel \<open>i\<close>.\<close>

record net_sys =
  rand_byte :: "nat \<Rightarrow> nat \<Rightarrow> u8"
  listen_socket :: "nat \<Rightarrow> int"
  send_socket4 :: "bool \<Rightarrow> nat \<Rightarrow> string \<Rightarrow> int \<Rightarrow> int"
  send_socket6 :: "bool \<Rightarrow> nat \<Rightarrow> string \<Rightarrow> int \<Rightarrow> int"

definition net_unicast :: "net_conf \<Rightarrow> auto_p_t \<Rightarrow> nat \<Rightarrow> mumudvb_channel_t \<Rightarrow> mumudvb_channel_t option" where
  "net_unicast c a i ch = do {
     ch \<leftarrow> (if autoconf_unicast_port a \<noteq> [] \<and> unicast_on c \<and> unicast_port_f ch \<noteq> F_USER then do {
              p \<leftarrow> template_port 256 c i ch (autoconf_unicast_port a);
              Some (ch\<lparr>unicast_port := p\<rparr>)}
            else Some ch);
     Some (ch\<lparr>num_clients := 0\<rparr>)}"

definition net_port :: "net_conf \<Rightarrow> auto_p_t \<Rightarrow> nat \<Rightarrow> mumudvb_channel_t \<Rightarrow> mumudvb_channel_t option" where
  "net_port c a i ch =
     (if autoconfiguration a \<noteq> 0 \<and> autoconf_multicast_port a \<noteq> [] \<and> portOut_f ch \<noteq> F_USER then do {
        p \<leftarrow> template_port 80 c i ch (autoconf_multicast_port a);
        Some (ch\<lparr>portOut := p\<rparr>)}
      else if portOut_f ch \<noteq> F_USER then Some (ch\<lparr>portOut := common_port c\<rparr>)
      else Some ch)"

definition net_ip4 :: "net_conf \<Rightarrow> auto_p_t \<Rightarrow> nat \<Rightarrow> mumudvb_channel_t \<Rightarrow> mumudvb_channel_t option" where
  "net_ip4 c a i ch =
     (if autoconfiguration a \<noteq> 0 \<and> multicast_ipv4 c \<and> ip4Out_f ch \<noteq> F_USER then do {
        ip \<leftarrow> template_ip4 c i ch (autoconf_ip4 a);
        Some (ch\<lparr>ip4Out := ip\<rparr>)}
      else Some ch)"

definition net_ip6 :: "net_conf \<Rightarrow> auto_p_t \<Rightarrow> nat \<Rightarrow> mumudvb_channel_t \<Rightarrow> mumudvb_channel_t option" where
  "net_ip6 c a i ch =
     (if autoconfiguration a \<noteq> 0 \<and> multicast_ipv6 c \<and> ip6Out_f ch \<noteq> F_USER then do {
        ip \<leftarrow> template_ip6 c i ch (autoconf_ip6 a);
        Some (ch\<lparr>ip6Out := ip\<rparr>)}
      else Some ch)"

definition net_multicast :: "net_conf \<Rightarrow> auto_p_t \<Rightarrow> nat \<Rightarrow> mumudvb_channel_t \<Rightarrow> mumudvb_channel_t option" where
  "net_multicast c a i ch =
     (if multicast c then do {
        ch \<leftarrow> net_port c a i (ch\<lparr>rtp := rtp_header c\<rparr>);
        ch \<leftarrow> net_ip4 c a i ch;
        net_ip6 c a i ch}
      else Some ch)"

definition net_sockets :: "net_conf \<Rightarrow> net_sys \<Rightarrow> nat \<Rightarrow> mumudvb_channel_t \<Rightarrow> mumudvb_channel_t" where
  "net_sockets c sys i ch =
     (let ch = (if unicast_port ch \<noteq> 0 \<and> unicast_on c \<and> socketIn ch \<le> 0 then ch\<lparr>socketIn := listen_socket sys i\<rparr> else ch);
          ch = (if multicast c \<and> multicast_ipv4 c \<and> socketOut4 ch \<le> 0
            then ch\<lparr>socketOut4 := send_socket4 sys (auto_join c) i (ip4Out ch) (portOut ch)\<rparr> else ch)
      in if multicast c \<and> multicast_ipv6 c \<and> socketOut6 ch \<le> 0
         then ch\<lparr>socketOut6 := send_socket6 sys (auto_join c) i (ip6Out ch) (portOut ch)\<rparr> else ch)"

definition chan_net :: "net_conf \<Rightarrow> net_sys \<Rightarrow> auto_p_t \<Rightarrow> nat \<Rightarrow> mumudvb_channel_t \<Rightarrow> mumudvb_channel_t option" where
  "chan_net c sys a i ch =
     (if channel_ready ch \<noteq> ALMOST_READY then Some ch
      else do {
        let ch = ch\<lparr>channel_ready := READY\<rparr>;
        v \<leftarrow> rd (buf_with_rtp_header ch) 0;
        ch \<leftarrow> (if v \<noteq> 128 then init_rtp_header (rand_byte sys i) ch else Some ch);
        ch \<leftarrow> net_unicast c a i ch;
        ch \<leftarrow> net_multicast c a i ch;
        Some (net_sockets c sys i ch)})"

definition update_chan_net :: "net_conf \<Rightarrow> net_sys \<Rightarrow> auto_p_t \<Rightarrow> mumu_chan_p_t \<Rightarrow> mumu_chan_p_t option" where
  "update_chan_net c sys a cp = each_channel (chan_net c sys a) (number_of_channels cp) 0 cp"

section \<open>The CAM\<close>

definition chan_CAM :: "auto_p_t \<Rightarrow> mumudvb_channel_t \<Rightarrow> mumudvb_channel_t" where
  "chan_CAM a ch =
     (if channel_ready ch \<noteq> READY then ch
      else if autoconf_scrambled a \<and> free_ca_mode ch \<noteq> 0 then
        ch\<lparr>need_cam_ask := (case need_cam_ask ch of CAM_NO_ASK \<Rightarrow> CAM_NEED_ASK | CAM_ASKED \<Rightarrow> CAM_NEED_UPDATE | s \<Rightarrow> s)\<rparr>
      else ch)"

definition chan_update_CAM :: "mumu_chan_p_t \<Rightarrow> auto_p_t \<Rightarrow> mumu_chan_p_t option" where
  "chan_update_CAM cp a = each_channel (\<lambda>_ ch. Some (chan_CAM a ch)) (number_of_channels cp) 0 cp"

section \<open>Loops over the channels\<close>

lemma each_channel_ok:
  assumes "\<And>j. i \<le> j \<Longrightarrow> j < i + n \<Longrightarrow> f j (channels cp ! j) = Some (g j (channels cp ! j))" "i + n \<le> length (channels cp)"
  shows "each_channel f n i cp = Some (cp\<lparr>channels := take i (channels cp) @ map (\<lambda>j. g j (channels cp ! j)) [i..<i + n] @ drop (i + n) (channels cp)\<rparr>)"
  using assms
proof (induction n arbitrary: i cp)
  case (Suc n)
  define c2 where "c2 = set_channel cp i (g i (channels cp ! i))"
  have l: "i < length (channels cp)" using Suc.prems(2) by simp
  have "rd (channels cp) i = Some (channels cp ! i)" "f i (channels cp ! i) = Some (g i (channels cp ! i))"
    using l Suc.prems(1) [of i] by (simp_all add: rd_def)
  then have "each_channel f (Suc n) i cp = each_channel f n (i + 1) c2" by (simp add: c2_def)
  also have "\<dots> = Some (c2\<lparr>channels := take (i + 1) (channels c2) @ map (\<lambda>j. g j (channels c2 ! j)) [i + 1..<i + 1 + n] @ drop (i + 1 + n) (channels c2)\<rparr>)"
    (is "_ = Some (c2\<lparr>channels := ?l\<rparr>)")
    using Suc.prems by (intro Suc.IH) (simp_all add: c2_def set_channel_def nth_list_update)
  also have "?l = take i (channels cp) @ map (\<lambda>j. g j (channels cp ! j)) [i..<i + Suc n] @ drop (i + Suc n) (channels cp)"
  proof -
    have "take (i + 1) (channels c2) = take i (channels cp) @ [g i (channels cp ! i)]"
      using l by (simp add: c2_def set_channel_def take_Suc_conv_app_nth)
    moreover have "map (\<lambda>j. g j (channels c2 ! j)) [i + 1..<i + 1 + n] = map (\<lambda>j. g j (channels cp ! j)) [i + 1..<i + Suc n]"
      by (intro map_cong) (auto simp: c2_def set_channel_def nth_list_update)
    moreover have "drop (i + 1 + n) (channels c2) = drop (i + Suc n) (channels cp)"
      by (simp add: c2_def set_channel_def)
    moreover have "[i..<i + Suc n] = i # [i + 1..<i + Suc n]" by (simp add: upt_rec del: upt_Suc)
    ultimately show ?thesis by (simp del: upt_Suc)
  qed
  finally show ?case by (simp add: c2_def set_channel_def del: upt_Suc)
qed simp

lemma each_channel_nth:
  assumes "\<And>j. j < number_of_channels cp \<Longrightarrow> f j (channels cp ! j) = Some (g j (channels cp ! j))"
    and "number_of_channels cp \<le> length (channels cp)"
  obtains cp' where "each_channel f (number_of_channels cp) 0 cp = Some cp'" "number_of_channels cp' = number_of_channels cp"
    "length (channels cp') = length (channels cp)" "\<And>j. j < number_of_channels cp \<Longrightarrow> channels cp' ! j = g j (channels cp ! j)"
    "\<And>j. number_of_channels cp \<le> j \<Longrightarrow> j < length (channels cp) \<Longrightarrow> channels cp' ! j = channels cp ! j"
    "cp' = cp\<lparr>channels := channels cp'\<rparr>"
proof -
  have "each_channel f (number_of_channels cp) 0 cp =
     Some (cp\<lparr>channels := map (\<lambda>j. g j (channels cp ! j)) [0..<number_of_channels cp] @ drop (number_of_channels cp) (channels cp)\<rparr>)"
    using each_channel_ok [of 0 "number_of_channels cp" f cp g] assms by simp
  then show ?thesis by (rule that) (use assms(2) in \<open>simp_all add: nth_append\<close>)
qed

section \<open>The default address\<close>

lemma strstr_no_percent [simp]: "CHR ''%'' \<notin> set s \<Longrightarrow> CHR ''%'' \<in> set p \<Longrightarrow> strstr s p = None"
proof (induction s)
  case (Cons c s)
  then have "\<not> prefix p (c # s)" using set_mono_prefix [of p "c # s"] by auto
  with Cons show ?case by auto
qed auto

lemma print_u_chars: "\<not> is_digit c \<Longrightarrow> c \<notin> set (print_u n)"
  using print_u_digits by blast

lemma print_u_plain [simp]:
  "CHR ''%'' \<notin> set (print_u n)" "CHR ''.'' \<notin> set (print_u n)" "CHR ''+'' \<notin> set (print_u n)" "CHR ''*'' \<notin> set (print_u n)"
  by (rule print_u_chars; simp add: is_digit_def)+

lemma string_comput_print_u [simp]: "string_comput (Some (print_u n)) = int n"
  by (simp add: string_comput_def string_comput_str_fields string_mult_fields fields_None atoi_print_u)

lemma print_d_nat [simp]: "print_d (int n) = print_u n"
  by (simp add: print_d_def)

lemma replace_loop_step: "strstr s p = Some i \<Longrightarrow> replace_loop s p r = replace_loop (take i s @ r @ drop (i + length p) s) p r"
  by (subst replace_loop.simps) (simp add: replace_once_def)

lemma replace_loop_done: "strstr s p = None \<Longrightarrow> replace_loop s p r = Some s"
  by (subst replace_loop.simps) (simp add: replace_once_def)

lemma mumu_string_replace_none: "strstr s p = None \<Longrightarrow> mumu_string_replace s len re p r = Some (s, len)"
  by (simp add: mumu_string_replace_def)

lemma mumu_string_replace_one:
  "strstr s p = Some i \<Longrightarrow> strstr (take i s @ r @ drop (i + length p) s) p = None \<Longrightarrow>
     length (take i s @ r @ drop (i + length p) s) < len \<Longrightarrow>
     mumu_string_replace s len False p r = Some (take i s @ r @ drop (i + length p) s, len)"
  by (simp add: mumu_string_replace_def replace_loop_step replace_loop_done Let_def)

lemma template_ip4_default:
  assumes "card_nr c < 10 ^ 9" "i < 10 ^ 9" "length (print_u (card_nr c)) + length (print_u i) \<le> 10"
  shows "template_ip4 c i ch ''239.100.%card.%number'' = Some (''239.100.'' @ print_u (card_nr c) @ ''.'' @ print_u i)"
proof -
  let ?a = "print_u (card_nr c)" and ?n = "print_u i"
  have s1: "mumu_string_replace ''239.100.%card.%number'' 80 False ''%number'' ?n = Some (''239.100.%card.'' @ ?n, 80)"
    using assms(3) by (subst mumu_string_replace_one [of _ _ 14]) simp_all
  have s2: "mumu_string_replace (''239.100.%card.'' @ ?n) 80 False ''%card'' ?a = Some (''239.100.'' @ ?a @ ''.'' @ ?n, 80)"
    using assms(3) by (subst mumu_string_replace_one [of _ _ 8]) simp_all
  have s3: "mumu_string_replace (''239.100.'' @ ?a @ ''.'' @ ?n) 80 False p r = Some (''239.100.'' @ ?a @ ''.'' @ ?n, 80)"
    if "CHR ''%'' \<in> set p" for p r
    by (rule mumu_string_replace_none, rule strstr_no_percent) (use that in simp_all)
  have f: "Mumu_Strings.fields (CHR ''.'') (''239.100.'' @ ?a @ ''.'' @ ?n) = [''239'', ''100'', ?a, ?n]"
    using fields_append [of "CHR ''.''" ?a ?n] by (simp add: fields_None)
  have "string_comput (Some ''239'') = int 239" "string_comput (Some ''100'') = int 100"
    by (simp_all add: string_comput_def string_comput_str_fields string_mult_fields atoi_def is_space_def is_digit_def)
  moreover have "print_u 239 = ''239''" "print_u 100 = ''100''" by (simp add: print_u.simps digit_def, code_simp)+
  ultimately have "tok [''239'', ''100'', ?a, ?n] 0 = ''239''" "tok [''239'', ''100'', ?a, ?n] 1 = ''100''"
      "tok [''239'', ''100'', ?a, ?n] 2 = ?a" "tok [''239'', ''100'', ?a, ?n] 3 = ?n"
    by (simp_all add: tok_def del: of_nat_numeral)
  moreover have "strtok_dots (''239.100.'' @ ?a @ ''.'' @ ?n) = [''239'', ''100'', ?a, ?n]"
    unfolding strtok_dots_def f by simp
  moreover have "expand 80 (common_vars c i @ [(''%sid_hi'', x), (''%sid_lo'', y)]) ''239.100.%card.%number'' = Some (''239.100.'' @ ?a @ ''.'' @ ?n)" for x y
    unfolding common_vars_def using s1 s2 s3 by simp
  ultimately show ?thesis using assms(3)
    unfolding template_ip4_def by simp
qed

lemma template_ip4_plain:
  "template_ip4 c i ch (print_u n1 @ ''.'' @ print_u n2 @ ''.'' @ print_u n3 @ ''.'' @ print_u n4) =
     (if length (print_u n1) + length (print_u n2) + length (print_u n3) + length (print_u n4) \<le> 16
      then Some (print_u n1 @ ''.'' @ print_u n2 @ ''.'' @ print_u n3 @ ''.'' @ print_u n4) else None)"
proof -
  let ?s = "print_u n1 @ ''.'' @ print_u n2 @ ''.'' @ print_u n3 @ ''.'' @ print_u n4"
  have "mumu_string_replace ?s 80 False p r = Some (?s, 80)" if "CHR ''%'' \<in> set p" for p r
    by (rule mumu_string_replace_none, rule strstr_no_percent) (use that in simp_all)
  then have e: "expand 80 (common_vars c i @ [(''%sid_hi'', x), (''%sid_lo'', y)]) ?s = Some ?s" for x y
    unfolding common_vars_def by simp
  have "strtok_dots ?s = [print_u n1, print_u n2, print_u n3, print_u n4]"
    by (simp add: strtok_dots_def fields_append fields_None)
  then show ?thesis unfolding template_ip4_def e by (simp add: tok_def)
qed

section \<open>All channels\<close>

lemma net_port_default:
  "autoconf_multicast_port a = [] \<Longrightarrow> portOut_f ch \<noteq> F_USER \<Longrightarrow> net_port c a i ch = Some (ch\<lparr>portOut := common_port c\<rparr>)"
  by (simp add: net_port_def)

lemma init_rtp_header_ok:
  assumes "length (buf_with_rtp_header ch) = RTP_HEADER_LEN"
  shows "\<exists>h. init_rtp_header r ch = Some (ch\<lparr>buf_with_rtp_header := h\<rparr>)"
  using assms by (simp add: RTP_HEADER_LEN_def init_rtp_header_def put_bytes_def wr_def) blast

text \<open>
  With the default template and no multicast port template, a channel that is almost ready gets the
  common port and an address of its own.
\<close>

definition default_net :: "net_conf \<Rightarrow> auto_p_t \<Rightarrow> bool" where
  "default_net c a \<longleftrightarrow> multicast c \<and> multicast_ipv4 c \<and> \<not> multicast_ipv6 c \<and> autoconfiguration a \<noteq> 0 \<and>
     autoconf_ip4 a = autoconf_ip4 init_aconf_v \<and> autoconf_multicast_port a = [] \<and> autoconf_unicast_port a = []"

definition default_addr :: "net_conf \<Rightarrow> nat \<Rightarrow> string" where
  "default_addr c i = ''239.100.'' @ print_u (card_nr c) @ ''.'' @ print_u i"

lemma default_addr_inj: "default_addr c i = default_addr c j \<longleftrightarrow> i = j"
  by (simp add: default_addr_def print_u_inj)

definition plain_channel :: "mumudvb_channel_t \<Rightarrow> bool" where
  "plain_channel ch \<longleftrightarrow> ip4Out_f ch \<noteq> F_USER \<and> portOut_f ch \<noteq> F_USER \<and> length (buf_with_rtp_header ch) = RTP_HEADER_LEN"

definition addressed :: "net_conf \<Rightarrow> net_sys \<Rightarrow> nat \<Rightarrow> mumudvb_channel_t \<Rightarrow> mumudvb_channel_t \<Rightarrow> bool" where
  "addressed c sys i ch ch' \<longleftrightarrow> channel_ready ch' = READY \<and> mumudvb_channel_t.name ch' = mumudvb_channel_t.name ch \<and> ip4Out ch' = default_addr c i \<and> portOut ch' = common_port c \<and>
     (socketOut4 ch \<le> 0 \<longrightarrow> socketOut4 ch' = send_socket4 sys (auto_join c) i (default_addr c i) (common_port c))"

lemma chan_net_default:
  assumes d: "default_net c a" and "card_nr c < 10 ^ 6" "i < MAX_CHANNELS"
    and ch: "plain_channel ch" and r: "channel_ready ch = ALMOST_READY"
  shows "\<exists>ch'. chan_net c sys a i ch = Some ch' \<and> addressed c sys i ch ch'"
proof -
  define c1 where "c1 = ch\<lparr>channel_ready := READY\<rparr>"
  have l: "length (buf_with_rtp_header c1) = RTP_HEADER_LEN" and p: "ip4Out_f c1 \<noteq> F_USER" "portOut_f c1 \<noteq> F_USER"
    using ch by (simp_all add: c1_def plain_channel_def)
  define v where "v = buf_with_rtp_header c1 ! 0"
  have v: "rd (buf_with_rtp_header c1) 0 = Some v" using l by (simp add: rd_def v_def RTP_HEADER_LEN_def c1_def)
  obtain h where h: "(if v \<noteq> 128 then init_rtp_header (rand_byte sys i) c1 else Some c1) = Some (c1\<lparr>buf_with_rtp_header := h\<rparr>)"
  proof (cases "v = 128")
    case True
    then show ?thesis by (intro that [of "buf_with_rtp_header c1"]) simp
  qed (use init_rtp_header_ok [OF l, of "rand_byte sys i"] that in auto)
  define c2 where "c2 = c1\<lparr>buf_with_rtp_header := h, num_clients := 0, rtp := rtp_header c, portOut := common_port c, ip4Out := default_addr c i\<rparr>"
  have len: "length (print_u (card_nr c)) \<le> 6" "length (print_u i) \<le> 4"
    using assms(2,3) by (auto intro!: print_u_length simp: MAX_CHANNELS_def)
  have "template_ip4 c i x (autoconf_ip4 a) = Some (default_addr c i)" for x
    using d assms(2,3) len unfolding default_addr_def default_net_def
    by (simp add: init_aconf_v_def template_ip4_default MAX_CHANNELS_def)
  then have m: "net_multicast c a i (c1\<lparr>buf_with_rtp_header := h, num_clients := 0\<rparr>) = Some c2"
    using d p unfolding net_multicast_def default_net_def net_port_def net_ip4_def net_ip6_def by (simp add: c2_def)
  have u: "net_unicast c a i (c1\<lparr>buf_with_rtp_header := h\<rparr>) = Some (c1\<lparr>buf_with_rtp_header := h, num_clients := 0\<rparr>)"
    using d by (simp add: net_unicast_def default_net_def)
  have "chan_net c sys a i ch = Some (net_sockets c sys i c2)"
    unfolding chan_net_def using r v h m u by (simp add: Let_def flip: c1_def)
  moreover have "addressed c sys i ch (net_sockets c sys i c2)"
    using d by (simp add: addressed_def net_sockets_def default_net_def Let_def c2_def c1_def)
  ultimately show ?thesis by blast
qed

lemma update_chan_net_spec:
  assumes d: "default_net c a" and card: "card_nr c < 10 ^ 6"
    and n: "number_of_channels cp \<le> MAX_CHANNELS" "length (channels cp) = MAX_CHANNELS"
    and plain: "\<forall>i < number_of_channels cp. plain_channel (channels cp ! i)"
  shows "\<exists>cp'. update_chan_net c sys a cp = Some cp' \<and> cp' = cp\<lparr>channels := channels cp'\<rparr> \<and> length (channels cp') = MAX_CHANNELS \<and>
     (\<forall>i < number_of_channels cp. if channel_ready (channels cp ! i) = ALMOST_READY
        then addressed c sys i (channels cp ! i) (channels cp' ! i) else channels cp' ! i = channels cp ! i)"
proof -
  define g where "g i ch = the (chan_net c sys a i ch)" for i ch
  have r: "chan_net c sys a i (channels cp ! i) = Some (g i (channels cp ! i)) \<and>
      addressed c sys i (channels cp ! i) (g i (channels cp ! i))"
    if "i < number_of_channels cp" "channel_ready (channels cp ! i) = ALMOST_READY" for i
    using chan_net_default [OF d card _ _ that(2), of i sys] that plain n by (auto simp: g_def)
  have q: "chan_net c sys a i (channels cp ! i) = Some (channels cp ! i)"
    if "channel_ready (channels cp ! i) \<noteq> ALMOST_READY" for i
    using that by (simp add: chan_net_def)
  have f: "chan_net c sys a i (channels cp ! i) = Some (g i (channels cp ! i))" if "i < number_of_channels cp" for i
    using r q that by (cases "channel_ready (channels cp ! i) = ALMOST_READY") (simp_all add: g_def)
  obtain cp' where cp': "update_chan_net c sys a cp = Some cp'" "\<And>i. i < number_of_channels cp \<Longrightarrow> channels cp' ! i = g i (channels cp ! i)"
      "cp' = cp\<lparr>channels := channels cp'\<rparr>" "length (channels cp') = MAX_CHANNELS"
    unfolding update_chan_net_def by (rule each_channel_nth [of cp "chan_net c sys a" g]) (use f n in auto)
  have "if channel_ready (channels cp ! i) = ALMOST_READY
        then addressed c sys i (channels cp ! i) (channels cp' ! i) else channels cp' ! i = channels cp ! i"
    if i: "i < number_of_channels cp" for i
    using r [OF i] q [of i] f [OF i] cp'(2) [OF i] by simp
  then show ?thesis using cp' by blast
qed


text \<open>
  An address template of four plain numbers is the address of the channel as it is written, unless it has more
  than 16 digits: then it is written past the 20 bytes of the address.
\<close>

theorem ip4_template_overflow:
  "let ip = print_u n1 @ ''.'' @ print_u n2 @ ''.'' @ print_u n3 @ ''.'' @ print_u n4 in
   template_ip4 c i ch ip = (if length ip \<le> 19 then Some ip else None)"
  unfolding Let_def using template_ip4_plain [of c i ch n1 n2 n3 n4] by simp

section \<open>The clients of a channel in use\<close>

definition stays_up :: "auto_p_t \<Rightarrow> mumudvb_channel_t \<Rightarrow> bool" where
  "stays_up a ch \<longleftrightarrow> channel_ready ch = READY \<and> service_id_f ch = F_DETECTED \<and> free_ca_mode ch = 0 \<and>
     pmt_pid (pid_i ch) \<noteq> 0 \<and> num_service_id a = 0 \<and> num_service_id_ignore a = 0 \<and> service_type ch \<in> tv_types"

lemma chan_status_up: "stays_up a ch \<Longrightarrow> chan_status a ch = Some (ch\<lparr>channel_ready := ALMOST_READY\<rparr>)"
  by (simp add: stays_up_def chan_status_def mem_read_def)

definition same_clients :: "mumudvb_channel_t \<Rightarrow> mumudvb_channel_t \<Rightarrow> bool" where
  "same_clients ch ch' \<longleftrightarrow> channel_ready ch' = channel_ready ch \<and> num_clients ch' = num_clients ch \<and> clients ch' = clients ch"

lemma net_steps_same_clients:
  "init_rtp_header r ch = Some ch' \<Longrightarrow> same_clients ch ch'"
  "net_port c a i ch = Some ch' \<Longrightarrow> same_clients ch ch'"
  "net_ip4 c a i ch = Some ch' \<Longrightarrow> same_clients ch ch'"
  "net_ip6 c a i ch = Some ch' \<Longrightarrow> same_clients ch ch'"
  "same_clients ch (net_sockets c sys i ch)"
  by (auto simp: same_clients_def init_rtp_header_def net_port_def net_ip4_def net_ip6_def net_sockets_def Let_def
      Option.bind_eq_Some_conv split: if_splits)

lemma net_multicast_same_clients:
  assumes "net_multicast c a i ch = Some ch'"
  shows "same_clients ch ch'"
proof (cases "multicast c")
  case True
  then obtain c1 c2 where "net_port c a i (ch\<lparr>rtp := rtp_header c\<rparr>) = Some c1" "net_ip4 c a i c1 = Some c2" "net_ip6 c a i c2 = Some ch'"
    using assms by (auto simp: net_multicast_def Option.bind_eq_Some_conv)
  from this(1) [THEN net_steps_same_clients(2)] this(2) [THEN net_steps_same_clients(3)] this(3) [THEN net_steps_same_clients(4)]
  show ?thesis by (simp add: same_clients_def)
qed (use assms in \<open>simp add: net_multicast_def same_clients_def\<close>)

lemma net_unicast_no_clients:
  "net_unicast c a i ch = Some ch' \<Longrightarrow> num_clients ch' = 0 \<and> clients ch' = clients ch \<and> channel_ready ch' = channel_ready ch"
  by (auto simp: net_unicast_def Option.bind_eq_Some_conv split: if_splits)

lemma chan_net_up:
  assumes "chan_net c sys a i ch = Some ch'" "channel_ready ch = ALMOST_READY"
  shows "channel_ready ch' = READY \<and> num_clients ch' = 0 \<and> clients ch' = clients ch"
proof -
  obtain v :: u8 and c1 c2 c3 where "(if v \<noteq> 128 then init_rtp_header (rand_byte sys i) (ch\<lparr>channel_ready := READY\<rparr>) else Some (ch\<lparr>channel_ready := READY\<rparr>)) = Some c1"
    and c: "net_unicast c a i c1 = Some c2" "net_multicast c a i c2 = Some c3" "ch' = net_sockets c sys i c3"
    using assms that by (auto simp: chan_net_def Let_def Option.bind_eq_Some_conv split del: if_split)
  then have "same_clients (ch\<lparr>channel_ready := READY\<rparr>) c1"
    using net_steps_same_clients(1) by (auto simp: same_clients_def split: if_splits)
  then show ?thesis
    using net_unicast_no_clients [OF c(1)] net_multicast_same_clients [OF c(2)] net_steps_same_clients(5) [of c3 c sys i] c(3)
    by (simp add: same_clients_def)
qed

lemma each_channel_Some:
  assumes "each_channel f n i cp = Some cp'"
  shows "number_of_channels cp' = number_of_channels cp \<and> length (channels cp') = length (channels cp) \<and>
     (\<forall>j. i \<le> j \<and> j < i + n \<longrightarrow> f j (channels cp ! j) = Some (channels cp' ! j)) \<and>
     (\<forall>j. j < i \<or> i + n \<le> j \<longrightarrow> channels cp' ! j = channels cp ! j)"
  using assms
proof (induction n arbitrary: i cp)
  case (Suc n)
  then obtain ch' where l: "i < length (channels cp)" and f: "f i (channels cp ! i) = Some ch'"
    and r: "each_channel f n (i + 1) (set_channel cp i ch') = Some cp'"
    by (auto simp: rd_def Option.bind_eq_Some_conv split: if_splits)
  have "f j (channels cp ! j) = Some (channels cp' ! j)" if "i \<le> j" "j < i + Suc n" for j
    using Suc.IH [OF r] that l f by (cases "j = i") (auto simp: set_channel_def)
  then show ?case using Suc.IH [OF r] l by (auto simp: set_channel_def)
qed auto

lemma chan_links_chans [simp]: "chan_links (w\<lparr>chans := x\<rparr>) = chan_links w"
  by (simp add: chan_links_def fun_eq_iff)

text \<open>
  Autoconfiguration makes every detected service that may be streamed almost ready, the channels in use too, and
  \<^verbatim>\<open>update_chan_net\<close> sets the clients of such a channel to 0 but keeps the list of them: whatever the
  lists are taken to be, the count of a channel with clients is wrong afterwards.
\<close>

theorem clients_forgotten:
  assumes inv: "chan_inv (w\<lparr>chans := channels cp\<rparr>) cs"
    and i: "i < number_of_channels cp" "number_of_channels cp \<le> length (channels cp)"
    and up: "stays_up a (channels cp ! i)" and cs: "cs i \<noteq> []"
    and run: "autoconf_update_chan_status a cp = Some cp1" "update_chan_net c sys a cp1 = Some cp2"
  shows "num_clients (channels cp2 ! i) = 0 \<and> clients (channels cp2 ! i) = hd (cs i) \<and>
     \<not> chan_inv (w\<lparr>chans := channels cp2\<rparr>) cs'"
proof -
  have r1: "number_of_channels cp1 = number_of_channels cp" "length (channels cp1) = length (channels cp)"
      "channels cp1 ! i = (channels cp ! i)\<lparr>channel_ready := ALMOST_READY\<rparr>"
    using each_channel_Some [OF run(1) [unfolded autoconf_update_chan_status_def]] i chan_status_up [OF up] by auto
  have r2: "length (channels cp2) = length (channels cp)" "chan_net c sys a i (channels cp1 ! i) = Some (channels cp2 ! i)"
    using each_channel_Some [OF run(2) [unfolded update_chan_net_def]] i r1 by auto
  have z: "num_clients (channels cp2 ! i) = 0" "clients (channels cp2 ! i) = clients (channels cp ! i)"
    using chan_net_up [OF r2(2)] r1(3) by simp_all
  have d: "dll (chan_links w) NULL (clients (channels cp ! i)) (cs i)"
    using inv i by (simp add: chan_inv_def)
  then have h: "clients (channels cp ! i) = hd (cs i)" "clients (channels cp ! i) \<noteq> NULL"
    using cs dll_hd [OF d] dll_NULL [OF d] by simp_all
  have "\<not> chan_inv (w\<lparr>chans := channels cp2\<rparr>) cs'"
  proof
    assume "chan_inv (w\<lparr>chans := channels cp2\<rparr>) cs'"
    then have "dll (chan_links w) NULL (clients (channels cp2 ! i)) (cs' i)" "num_clients (channels cp2 ! i) = int (length (cs' i))"
      using i r2(1) by (simp_all add: chan_inv_def)
    then show False using z h dll_NULL by auto
  qed
  then show ?thesis using z h by simp
qed

section \<open>Witnesses\<close>

definition sample_net :: net_conf where
  "sample_net = \<lparr>server_id = 1, card_nr = 2, tuner_nr = 0, multicast = True, multicast_ipv4 = True, multicast_ipv6 = False,
     common_port = 1234, auto_join = False, rtp_header = True, unicast_on = True\<rparr>"

definition sample_sys :: net_sys where
  "sample_sys = \<lparr>rand_byte = \<lambda>_ _. 7, listen_socket = \<lambda>_. 10, send_socket4 = \<lambda>_ _ _ _. 11, send_socket6 = \<lambda>_ _ _ _. 12\<rparr>"

definition sample_net_auto :: auto_p_t where
  "sample_net_auto = init_aconf_v\<lparr>autoconfiguration := AUTOCONF_MODE_FULL\<rparr>"

definition sample_net_cp :: mumu_chan_p_t where
  "sample_net_cp = \<lparr>number_of_channels = 1, channels = zero_channel\<lparr>channel_ready := ALMOST_READY\<rparr> # replicate 127 zero_channel,
     asked_pid = [], t2mi_pid = 0\<rparr>"


definition busy_channel :: mumudvb_channel_t where
  "busy_channel = zero_channel\<lparr>channel_ready := READY, service_id_f := F_DETECTED, service_type := 1, pid_i := zero_pid_i\<lparr>pmt_pid := 100\<rparr>,
     buf_with_rtp_header := replicate 12 128, clients := 5, num_clients := 1\<rparr>"

definition busy_cp :: mumu_chan_p_t where
  "busy_cp = \<lparr>number_of_channels = 1, channels = [busy_channel], asked_pid = [], t2mi_pid = 0\<rparr>"

theorem clients_forgotten_witness:
  "\<exists>cp1 cp2. chan_inv (world1\<lparr>chans := channels busy_cp\<rparr>) (\<lambda>i. if i = 0 then [5] else []) \<and>
     autoconf_update_chan_status sample_net_auto busy_cp = Some cp1 \<and>
     update_chan_net (sample_net\<lparr>multicast := False\<rparr>) sample_sys sample_net_auto cp1 = Some cp2 \<and>
     num_clients (channels cp2 ! 0) = 0 \<and> \<not> chan_inv (world1\<lparr>chans := channels cp2\<rparr>) (\<lambda>i. if i = 0 then [5] else [])"
proof -
  let ?n = "sample_net\<lparr>multicast := False\<rparr>" and ?cs = "\<lambda>i :: nat. if i = 0 then [5 :: ptr] else []"
  define ch1 where "ch1 = busy_channel\<lparr>channel_ready := ALMOST_READY\<rparr>"
  define cp1 where "cp1 = busy_cp\<lparr>channels := [ch1]\<rparr>"
  have up: "stays_up sample_net_auto busy_channel"
    by (simp add: stays_up_def busy_channel_def sample_net_auto_def init_aconf_v_def tv_types_def zero_channel_def)
  have s: "autoconf_update_chan_status sample_net_auto busy_cp = Some cp1"
    by (simp add: autoconf_update_chan_status_def busy_cp_def cp1_def ch1_def rd_def chan_status_up [OF up] set_channel_def)
  have "\<exists>ch2. chan_net ?n sample_sys sample_net_auto 0 ch1 = Some ch2"
    by (simp add: chan_net_def ch1_def busy_channel_def rd_def Let_def net_unicast_def net_multicast_def sample_net_auto_def init_aconf_v_def)
  then obtain cp2 where n: "update_chan_net ?n sample_sys sample_net_auto cp1 = Some cp2"
    by (auto simp: update_chan_net_def cp1_def busy_cp_def rd_def)
  have i: "chan_inv (world1\<lparr>chans := channels busy_cp\<rparr>) ?cs"
    using world1_inv by (simp add: clients_inv_def chan_inv_def world1_def busy_cp_def busy_channel_def zero_channel_def chan_of_def chan_links_def)
  have "number_of_channels busy_cp = 1" "channels busy_cp = [busy_channel]" by (simp_all add: busy_cp_def)
  then show ?thesis using clients_forgotten [OF i, of 0 sample_net_auto cp1 ?n sample_sys cp2 ?cs] up s n i by auto
qed

end
