(* ===== verification/Autoconf_Cat.thy ===== *)
theory Autoconf_Cat
  imports Descriptors
begin

text \<open>
  The CAT, \<^verbatim>\<open>src/src/autoconf_cat.c\<close>: which PID carries the management messages of which conditional
  access system. The list of the systems ends at the first entry with id -1.

  The length of a descriptor is computed in an \<^verbatim>\<open>unsigned char\<close>, so the loop over the descriptors
  is \<open>partial_function (option)\<close>: not coming to an end is \<open>None\<close>.

  The lemmas show which PID is found for a system after a CAT was read, and that a descriptor of
  254 bytes stops the program.
\<close>

section \<open>Operations\<close>

text \<open>The entry of a system, \<^verbatim>\<open>NULL\<close> being \<open>None\<close>.\<close>

fun autoconf_get_ca_system :: "(int \<times> nat) list \<Rightarrow> int \<Rightarrow> (int \<times> nat) option" where
  "autoconf_get_ca_system [] x = None"
| "autoconf_get_ca_system (s # ss) x =
     (if fst s = x then Some s else if fst s = -1 then None else autoconf_get_ca_system ss x)"

definition descr_CA_type :: "descr_ca_t \<Rightarrow> nat" where
  "descr_CA_type d = HILO (descr_ca_t.CA_type_hi d) (descr_ca_t.CA_type_lo d)"

definition descr_CA_PID :: "descr_ca_t \<Rightarrow> nat" where
  "descr_CA_PID d = HILO (descr_ca_t.CA_PID_hi d) (descr_ca_t.CA_PID_lo d)"

partial_function (option) cat_descriptors ::
  "u8 list \<Rightarrow> nat \<Rightarrow> nat \<Rightarrow> nat \<Rightarrow> nat \<Rightarrow> (int \<times> nat) list \<Rightarrow> (int \<times> nat) list option" where
  "cat_descriptors bf len section_length delta k ss =
     (if delta + 2 < section_length then do {
        tag \<leftarrow> rd bf delta;
        l \<leftarrow> rd bf (delta + 1);
        let descriptor_len = unat (l + 2);
        if delta + descriptor_len \<ge> len then Some ss
        else if tag = 0x09 then
          if delta + DESCR_CA_LEN \<ge> len then Some ss
          else do {
            d \<leftarrow> struct_at DESCR_CA_LEN descr_ca_of bf delta;
            if k \<ge> MAX_CA_SYSTEMS then Some ss
            else do {
              ss \<leftarrow> wr ss k (int (descr_CA_type d), descr_CA_PID d);
              cat_descriptors bf len section_length (delta + descriptor_len) (k + 1) ss}}
        else cat_descriptors bf len section_length (delta + descriptor_len) k ss}
      else Some ss)"

text \<open>Channels with a CA system read their PMT again.\<close>

definition cat_force_pmt :: "mumudvb_channel_t \<Rightarrow> mumudvb_channel_t" where
  "cat_force_pmt ch = (if ca_sys_id ch ! 0 \<noteq> 0 then ch\<lparr>pmt_version := -1\<rparr> else ch)"

definition autoconf_read_cat :: "auto_p_t \<Rightarrow> mumu_chan_p_t \<Rightarrow> (auto_p_t \<times> mumu_chan_p_t) option" where
  "autoconf_read_cat a cp = do {
     let bf = data_full (temp_packet (a_cat a));
     h \<leftarrow> struct_at CAT_LEN cat_of bf 0;
     let v = int (unat (cat_t.version_number h));
     let n = unat (cat_t.section_number h);
     if v = seen_version (a_cat a) \<and> sections_seen (a_cat a) ! n then Some (a, cp)
     else do {
       let a = (if v = seen_version (a_cat a) then a
         else (let a = a\<lparr>a_cat := psi_new_version v (a_cat a)\<rparr> in a\<lparr>a_sdt := (a_sdt a)\<lparr>seen_version := -1\<rparr>\<rparr>));
       let a = a\<lparr>a_cat := psi_seen n (a_cat a)\<rparr>;
       if cat_t.current_next_indicator h = 0 then Some (a, cp)
       else do {
         let a = autoconf_clear_ca_system_list a;
         ss \<leftarrow> cat_descriptors bf (len_full (temp_packet (a_cat a)))
                 (HILO (cat_t.section_length_hi h) (cat_t.section_length_lo h)) CAT_LEN 0 (ca_system_list a);
         let a = a\<lparr>ca_system_list := ss\<rparr>;
         if sections_missing (unat (cat_t.last_section_number h)) (a_cat a) \<noteq> 0 then Some (a, cp)
         else Some (a\<lparr>a_cat := psi_complete (a_cat a)\<rparr>, for_channels cat_force_pmt cp)}}}"

section \<open>The systems of a CAT\<close>

text \<open>The system and the PID of a CA descriptor.\<close>

definition ca_entry :: "descriptor \<Rightarrow> int \<times> nat" where
  "ca_entry d = (int (HILO (snd d ! 0) (snd d ! 1)), HILO (bf_get (snd d ! 2) 0 5) (snd d ! 3))"

definition cat_systems :: "descriptor list \<Rightarrow> (int \<times> nat) list" where
  "cat_systems ds = map ca_entry (filter (\<lambda>d. fst d = 9) ds)"

text \<open>A descriptor as the standard has it, and not longer than 253 bytes.\<close>

definition cat_descr_ok :: "descriptor \<Rightarrow> bool" where
  "cat_descr_ok d \<longleftrightarrow> length (snd d) < 254 \<and> (fst d = 9 \<longrightarrow> 4 \<le> length (snd d))"

lemma ca_entry_read:
  assumes "holds_at b off (descr_bytes d)" "fst d = 9" "4 \<le> length (snd d)"
  shows "\<exists>x. struct_at DESCR_CA_LEN descr_ca_of b off = Some x \<and> (int (descr_CA_type x), descr_CA_PID x) = ca_entry d"
proof -
  have "struct_at DESCR_CA_LEN descr_ca_of b off = Some (descr_ca_of (descr_bytes d))"
    using assms by (intro descr_ca_s.at_holds) (simp_all add: DESCR_CA_LEN_def)
  then show ?thesis
    by (simp add: descr_ca_of_def descr_bytes_def descr_CA_type_def descr_CA_PID_def ca_entry_def numeral_eq_Suc)
qed

lemma cat_descriptors_ok:
  "holds_at bf delta (descrs_bytes ds) \<Longrightarrow> \<forall>d \<in> set ds. cat_descr_ok d \<Longrightarrow> len = sl + 3 \<Longrightarrow>
   delta + length (descrs_bytes ds) + 1 = sl \<Longrightarrow> length ss = MAX_CA_SYSTEMS \<Longrightarrow> k \<le> MAX_CA_SYSTEMS \<Longrightarrow>
   cat_descriptors bf len sl delta k ss =
     (let xs = take (MAX_CA_SYSTEMS - k) (cat_systems ds) in Some (take k ss @ xs @ drop (k + length xs) ss))"
proof (induction ds arbitrary: delta k ss)
  case Nil
  then show ?case by (subst cat_descriptors.simps) (simp add: cat_systems_def)
next
  case (Cons d ds)
  let ?n = "length (snd d) + 2"
  have d: "holds_at bf delta (descr_bytes d)" "holds_at bf (delta + ?n) (descrs_bytes ds)" "cat_descr_ok d"
    and sl: "delta + ?n + length (descrs_bytes ds) + 1 = sl" using Cons.prems by (simp_all add: add.assoc)
  obtain l where l: "rd bf delta = Some (fst d)" "rd bf (delta + 1) = Some l" "unat (l + 2) = ?n"
    using descr_start_len [OF d(1)] d(3) by (auto simp: cat_descr_ok_def)
  have c: "delta + 2 < sl" "\<not> len \<le> delta + ?n" using sl Cons.prems(3) by auto
  note IH = Cons.IH [OF d(2) _ Cons.prems(3) sl]
  show ?case
  proof (cases "fst d = 9")
    case False
    have "cat_descriptors bf len sl delta k ss = cat_descriptors bf len sl (delta + ?n) k ss"
      using False c l by (subst cat_descriptors.simps) simp
    also have "\<dots> = (let xs = take (MAX_CA_SYSTEMS - k) (cat_systems ds) in Some (take k ss @ xs @ drop (k + length xs) ss))"
      using Cons.prems by (intro IH) simp_all
    finally show ?thesis using False by (simp add: cat_systems_def)
  next
    case True
    obtain x where x: "struct_at DESCR_CA_LEN descr_ca_of bf delta = Some x"
        "(int (descr_CA_type x), descr_CA_PID x) = ca_entry d"
      using ca_entry_read [OF d(1) True] d(3) True by (auto simp: cat_descr_ok_def)
    have n: "\<not> len \<le> delta + DESCR_CA_LEN" using d(3) True c(2) by (simp add: cat_descr_ok_def DESCR_CA_LEN_def)
    show ?thesis
    proof (cases "k < MAX_CA_SYSTEMS")
      case False
      then show ?thesis using True c l x n Cons.prems by (subst cat_descriptors.simps) (simp add: Let_def)
    next
      case k: True
      define s2 where "s2 = ss[k := ca_entry d]"
      have "cat_descriptors bf len sl delta k ss = cat_descriptors bf len sl (delta + ?n) (k + 1) s2"
        using True c l x n k Cons.prems(5) by (subst cat_descriptors.simps) (simp add: s2_def wr_def)
      also have "\<dots> = (let xs = take (MAX_CA_SYSTEMS - (k + 1)) (cat_systems ds) in
           Some (take (k + 1) s2 @ xs @ drop (k + 1 + length xs) s2))"
        using Cons.prems k by (intro IH) (simp_all add: s2_def)
      also have "take (k + 1) s2 = take k ss @ [ca_entry d]"
        using k Cons.prems(5) by (simp add: s2_def take_Suc_conv_app_nth)
      also have "cat_systems (d # ds) = ca_entry d # cat_systems ds" using True by (simp add: cat_systems_def)
      moreover have "MAX_CA_SYSTEMS - k = Suc (MAX_CA_SYSTEMS - (k + 1))" using k by simp
      ultimately show ?thesis by (simp add: s2_def Let_def)
    qed
  qed
qed

text \<open>The entry of a system is its first one; an entry is never -1.\<close>

lemma get_ca_system_found:
  "\<forall>s \<in> set xs. fst s \<noteq> -1 \<Longrightarrow> x \<noteq> -1 \<Longrightarrow>
   autoconf_get_ca_system (xs @ map (\<lambda>(_, p). (-1, p)) ys) x = map_option (Pair x) (map_of xs x)"
proof (induction xs)
  case Nil
  then show ?case by (cases ys) auto
qed auto

text \<open>A section: eight bytes of header, the descriptors, and four bytes for the CRC.\<close>

definition cat_section :: "u8 list \<Rightarrow> descriptor list \<Rightarrow> bool" where
  "cat_section s ds \<longleftrightarrow> CAT_LEN \<le> length s \<and> (\<exists>crc. length crc = 4 \<and> drop CAT_LEN s = descrs_bytes ds @ crc) \<and>
     HILO (cat_t.section_length_hi (cat_of s)) (cat_t.section_length_lo (cat_of s)) + 3 = length s"

lemma cat_section_parts:
  assumes "cat_section s ds" "holds_at b 0 s"
  shows "struct_at CAT_LEN cat_of b 0 = Some (cat_of s)" "holds_at b CAT_LEN (descrs_bytes ds)"
    "CAT_LEN + length (descrs_bytes ds) + 1 = HILO (cat_t.section_length_hi (cat_of s)) (cat_t.section_length_lo (cat_of s))"
proof -
  obtain crc where crc: "length crc = 4" "drop CAT_LEN s = descrs_bytes ds @ crc" "CAT_LEN \<le> length s"
    using assms(1) by (auto simp: cat_section_def)
  have "take CAT_LEN s @ descrs_bytes ds @ crc = s" by (metis append_take_drop_id crc(2))
  then have "holds_at b 0 (take CAT_LEN s @ descrs_bytes ds @ crc)" using assms(2) by (simp only:)
  then show "holds_at b CAT_LEN (descrs_bytes ds)" using crc(3) by simp
  show "struct_at CAT_LEN cat_of b 0 = Some (cat_of s)" using assms(2) crc(3) by (intro cat_s.at_holds)
  have "length s = CAT_LEN + length (descrs_bytes ds) + 4" 
    using arg_cong [OF crc(2), of length] crc(1,3) by (simp only: length_drop length_append)
  then show "CAT_LEN + length (descrs_bytes ds) + 1 = HILO (cat_t.section_length_hi (cat_of s)) (cat_t.section_length_lo (cat_of s))"
    using assms(1) by (simp add: cat_section_def)
qed

text \<open>The state of the table when a section of a new version arrives.\<close>

definition cat_fresh :: "auto_p_t \<Rightarrow> cat_t \<Rightarrow> bool" where
  "cat_fresh a h \<longleftrightarrow> int (unat (cat_t.version_number h)) \<noteq> seen_version (a_cat a) \<and>
     cat_t.current_next_indicator h \<noteq> 0 \<and> length (ca_system_list a) = MAX_CA_SYSTEMS"

lemma autoconf_read_cat_runs:
  assumes "cat_fresh a (cat_of s)" "cat_section s ds" "holds_at (data_full (temp_packet (a_cat a))) 0 s"
    and "len_full (temp_packet (a_cat a)) = length s" "\<forall>d \<in> set ds. cat_descr_ok d"
  shows "\<exists>a' cp'. autoconf_read_cat a cp = Some (a', cp') \<and>
     ca_system_list a' = take MAX_CA_SYSTEMS (cat_systems ds) @
       drop (length (cat_systems ds)) (map (\<lambda>(_, p). (-1, p)) (ca_system_list a))"
proof -
  define b where "b = data_full (temp_packet (a_cat a))"
  define sl where "sl = HILO (cat_t.section_length_hi (cat_of s)) (cat_t.section_length_lo (cat_of s))"
  have h: "struct_at CAT_LEN cat_of b 0 = Some (cat_of s)" "holds_at b CAT_LEN (descrs_bytes ds)"
      "CAT_LEN + length (descrs_bytes ds) + 1 = sl"
    using cat_section_parts [OF assms(2,3)] by (simp_all add: b_def sl_def)
  define ss where "ss = map (\<lambda>(_, p). (-1 :: int, p :: nat)) (ca_system_list a)"
  have v: "int (unat (cat_t.version_number (cat_of s))) \<noteq> seen_version (a_cat a)"
      "cat_t.current_next_indicator (cat_of s) \<noteq> 0" and ls: "length ss = MAX_CA_SYSTEMS"
    using assms(1) by (simp_all add: cat_fresh_def ss_def)
  have len: "length s = sl + 3" using assms(2) by (simp add: cat_section_def sl_def)
  have "cat_descriptors b (length s) sl CAT_LEN 0 ss =
      Some (take MAX_CA_SYSTEMS (cat_systems ds) @ drop (length (cat_systems ds)) ss)"
    using cat_descriptors_ok [OF h(2) assms(5) len h(3) ls, of 0] ls by (auto simp: Let_def min_def)
  then show ?thesis
    using v assms(4)
    by (simp add: autoconf_read_cat_def h(1) b_def [symmetric] autoconf_clear_ca_system_list_def psi_seen_def
        psi_new_version_def sl_def [symmetric] ss_def [symmetric] Let_def)
qed

text \<open>
  A CAT section of a new version, with any descriptors of at most 253 bytes, sets the list of the
  conditional access systems: looking up a system afterwards yields the PID of its first descriptor among the
  first 32 CA descriptors of the section, and nothing when the section does not name the system, whatever the list held
  before - also when what it held came from another section of the same CAT.
\<close>

theorem autoconf_read_cat_systems:
  assumes "cat_fresh a (cat_of s)" "cat_section s ds" "holds_at (data_full (temp_packet (a_cat a))) 0 s"
    and "len_full (temp_packet (a_cat a)) = length s" "\<forall>d \<in> set ds. cat_descr_ok d"
  shows "\<exists>a' cp'. autoconf_read_cat a cp = Some (a', cp') \<and> (\<forall>x \<noteq> -1.
     autoconf_get_ca_system (ca_system_list a') x = map_option (Pair x) (map_of (take MAX_CA_SYSTEMS (cat_systems ds)) x))"
proof -
  have "\<forall>s \<in> set (take MAX_CA_SYSTEMS (cat_systems ds)). fst s \<noteq> -1"
    by (auto simp: cat_systems_def ca_entry_def dest!: in_set_takeD)
  then show ?thesis
    using autoconf_read_cat_runs [OF assms, of cp] get_ca_system_found by (auto simp: drop_map)
qed

section \<open>Descriptors that stop the program\<close>

lemma cat_descriptors_254:
  "cat_descriptors bf len sl delta k ss = Some res \<Longrightarrow>
   \<not> (delta + 2 < sl \<and> delta < len \<and> rd bf delta \<noteq> Some 9 \<and> rd bf (delta + 1) = Some 254)"
proof (induction rule: cat_descriptors.raw_induct [rotated 1, consumes 1, case_names 1])
  case (1 f bf len sl delta k ss res)
  have z: "unat ((254 :: u8) + 2) = 0" by simp
  show ?case
  proof
    assume a: "delta + 2 < sl \<and> delta < len \<and> rd bf delta \<noteq> Some 9 \<and> rd bf (delta + 1) = Some 254"
    then have "f bf len sl (delta + unat ((254 :: u8) + 2)) k ss = Some res"
      using 1(2) by (auto split: Option.bind_splits if_splits)
    then have "f bf len sl delta k ss = Some res" unfolding z by simp
    then show False using 1(1) a by blast
  qed
qed

text \<open>
  A CAT section whose first descriptor is not a CA descriptor and has 254 bytes, a length the standard
  allows, stops the program: in the \<^verbatim>\<open>unsigned char\<close> its length with the first two bytes is 0, and the loop over
  the descriptors never ends.
\<close>

theorem autoconf_read_cat_hangs:
  assumes "cat_fresh a (cat_of s)" "cat_section s (d # ds)" "holds_at (data_full (temp_packet (a_cat a))) 0 s"
    and "len_full (temp_packet (a_cat a)) = length s" "fst d \<noteq> 9" "length (snd d) = 254"
  shows "autoconf_read_cat a cp = None"
proof -
  define b where "b = data_full (temp_packet (a_cat a))"
  define sl where "sl = HILO (cat_t.section_length_hi (cat_of s)) (cat_t.section_length_lo (cat_of s))"
  have h: "struct_at CAT_LEN cat_of b 0 = Some (cat_of s)" "holds_at b CAT_LEN (descrs_bytes (d # ds))"
      "CAT_LEN + length (descrs_bytes (d # ds)) + 1 = sl"
    using cat_section_parts [OF assms(2,3)] by (simp_all add: b_def sl_def)
  have v: "int (unat (cat_t.version_number (cat_of s))) \<noteq> seen_version (a_cat a)"
      "cat_t.current_next_indicator (cat_of s) \<noteq> 0"
    using assms(1) by (simp_all add: cat_fresh_def)
  have len: "length s = sl + 3" using assms(2) by (simp add: cat_section_def sl_def)
  have "rd b CAT_LEN = Some (fst d)" "rd b (CAT_LEN + 1) = Some 254"
    using h(2) assms(6) by (simp_all add: descr_bytes_def holds_at_Cons)
  then have "cat_descriptors b (length s) sl CAT_LEN k ss = None" for k ss
    using cat_descriptors_254 [of b "length s" sl CAT_LEN k ss] h(3) len assms(5)
    by (cases "cat_descriptors b (length s) sl CAT_LEN k ss") auto
  then show ?thesis
    using v assms(4)
    by (simp add: autoconf_read_cat_def h(1) b_def [symmetric] autoconf_clear_ca_system_list_def psi_seen_def
        psi_new_version_def sl_def [symmetric])
qed

section \<open>Witnesses\<close>

definition sample_cat :: "u8 list \<Rightarrow> u8 list" where
  "sample_cat ds = [1, 0xb0 + of_nat ((length ds + 9) div 256), of_nat ((length ds + 9) mod 256), 0xff, 0xff, 0xc3, 0, 0] @ ds @ [0, 0, 0, 0]"

definition sample_cat_auto :: "u8 list \<Rightarrow> auto_p_t" where
  "sample_cat_auto s = init_aconf_v\<lparr>a_cat := (init_psi_table 0)\<lparr>temp_packet := empty_ts_packet\<lparr>len_full := length s,
     data_full := s @ replicate (MAX_TS_SIZE - length s) 0\<rparr>\<rparr>\<rparr>"

lemma sample_cat_section:
  assumes "ds = [(9, [0x06, 0x24, 0xe1, 0x23])] \<or> ds = [(0x80, replicate 254 0)]"
  shows "cat_section (sample_cat (descrs_bytes ds)) ds" "cat_fresh (sample_cat_auto s) (cat_of (sample_cat (descrs_bytes ds)))"
proof -
  show "cat_section (sample_cat (descrs_bytes ds)) ds"
    using assms by (auto simp: cat_section_def sample_cat_def CAT_LEN_def cat_of_def HILO_eq bf_get_def descr_bytes_def)
  show "cat_fresh (sample_cat_auto s) (cat_of (sample_cat (descrs_bytes ds)))"
    using assms by (auto simp: cat_fresh_def sample_cat_auto_def init_psi_table_def cat_of_def sample_cat_def bf_get_def
        init_aconf_v_def)
qed

lemma sample_cat_holds [simp]:
  "holds_at (data_full (temp_packet (a_cat (sample_cat_auto s)))) 0 s"
  "len_full (temp_packet (a_cat (sample_cat_auto s))) = length s"
  using holds_at_prefix [of "[]" s] by (simp_all add: sample_cat_auto_def)

definition sample_cat_cp :: mumu_chan_p_t where
  "sample_cat_cp = \<lparr>number_of_channels = 0, channels = [], asked_pid = [], t2mi_pid = 0\<rparr>"

theorem autoconf_read_cat_systems_witness:
  "\<exists>a' cp'. autoconf_read_cat (sample_cat_auto (sample_cat (descrs_bytes [(9, [0x06, 0x24, 0xe1, 0x23])]))) sample_cat_cp = Some (a', cp') \<and>
     autoconf_get_ca_system (ca_system_list a') 0x624 = Some (0x624, 0x123)"
proof -
  let ?ds = "[(9, [0x06, 0x24, 0xe1, 0x23])] :: descriptor list"
  let ?s = "sample_cat (descrs_bytes ?ds)"
  have "\<forall>d \<in> set ?ds. cat_descr_ok d" by (simp add: cat_descr_ok_def)
  moreover have "map_of (take MAX_CA_SYSTEMS (cat_systems ?ds)) 0x624 = Some 0x123"
    by (simp add: cat_systems_def ca_entry_def HILO_eq bf_get_def mumu_sizes)
  ultimately show ?thesis
    using autoconf_read_cat_systems [of "sample_cat_auto ?s" ?s ?ds sample_cat_cp] sample_cat_section(1) [of ?ds] sample_cat_section(2) [of ?ds ?s] by fastforce
qed

theorem autoconf_read_cat_hangs_witness:
  "autoconf_read_cat (sample_cat_auto (sample_cat (descrs_bytes [(0x80, replicate 254 0)]))) sample_cat_cp = None"
  using sample_cat_section [of "[(0x80, replicate 254 0)]"]
  by (intro autoconf_read_cat_hangs [where s = "sample_cat (descrs_bytes [(0x80, replicate 254 0)])"
        and d = "(0x80, replicate 254 0)" and ds = "[]"]) simp_all

end
