(* ===== verification/Autoconf_Pat.thy ===== *)
theory Autoconf_Pat
  imports Autoconf
begin

text \<open>
  Reading the PAT, \<^verbatim>\<open>src/src/autoconf_pat.c\<close>: each program of the PAT is given a channel or finds
  the one it has, and the channels that a new version no longer names are removed. Channels are
  marked \<open>READY_EXISTING\<close> when a new version begins and swept when all its sections have been seen.

  The lemmas show what a complete PAT makes of the channels, that services stay unique, and that
  the PID table of a channel whose PMT PID changes often enough is written out of bounds.
\<close>

section \<open>Operations\<close>

text \<open>The PMT PID of a channel is set and entered into the PID table.\<close>

definition set_pmt_pid :: "nat \<Rightarrow> pid_i_t \<Rightarrow> pid_i_t option" where
  "set_pmt_pid p pi = do {
     let pi = pi\<lparr>pmt_pid := p\<rparr>;
     found \<leftarrow> find_pid (num_pids pi) 0 (pids pi) p None;
     let k = (case found of Some k \<Rightarrow> k | None \<Rightarrow> num_pids pi);
     let n = (case found of Some k \<Rightarrow> num_pids pi | None \<Rightarrow> num_pids pi + 1);
     ps \<leftarrow> wr (pids pi) k p;
     ts \<leftarrow> wr (pids_type pi) k PID_PMT;
     ls \<leftarrow> wr (pids_language pi) k ''---'';
     Some (pi\<lparr>pids := ps, pids_type := ts, pids_language := ls, num_pids := n\<rparr>)}"

text \<open>A new channel takes the first free place; the result of the initialisation is not looked at.\<close>

definition pat_new_channel :: "bool \<Rightarrow> nat \<Rightarrow> mumu_chan_p_t \<Rightarrow> mumu_chan_p_t option" where
  "pat_new_channel ok sid cp = do {
     ch \<leftarrow> rd (channels cp) (number_of_channels cp);
     (_, ch) \<leftarrow> mumu_init_chan ok (ch\<lparr>mumudvb_channel_t.service_id := sid, service_id_f := F_DETECTED\<rparr>);
     Some ((set_channel cp (number_of_channels cp) (ch\<lparr>channel_ready := NOT_READY\<rparr>))
       \<lparr>number_of_channels := number_of_channels cp + 1\<rparr>)}"

definition pat_revive :: "bool \<Rightarrow> mumudvb_channel_t \<Rightarrow> mumudvb_channel_t option" where
  "pat_revive ok ch =
     (if channel_ready ch = READY_EXISTING then Some (ch\<lparr>channel_ready := READY\<rparr>)
      else if channel_ready ch = REMOVED then do {
        (_, ch) \<leftarrow> mumu_init_chan ok (ch\<lparr>channel_ready := NOT_READY\<rparr>);
        Some ch}
      else Some ch)"

text \<open>The result is 0, or -1 when there is no memory for the PMT packet.\<close>

definition pat_set_pmt :: "bool \<Rightarrow> nat \<Rightarrow> mumudvb_channel_t \<Rightarrow> (int \<times> mumudvb_channel_t) option" where
  "pat_set_pmt ok p ch =
     (if pmt_pid_f (pid_i ch) \<noteq> F_USER then do {
        pi \<leftarrow> set_pmt_pid p (pid_i ch);
        let ch = ch\<lparr>pid_i := pi\<rparr>;
        if pmt_alloc ch then Some (0, ch)
        else if \<not> ok then Some (-1, ch)
        else Some (0, ch\<lparr>pmt_alloc := True, pmt_packet := empty_ts_packet\<rparr>)}
      else Some (0, ch))"

definition pat_found_chan :: "(nat \<Rightarrow> bool) \<Rightarrow> nat \<Rightarrow> nat \<Rightarrow> mumu_chan_p_t \<Rightarrow> (int \<times> mumu_chan_p_t) option" where
  "pat_found_chan ok p i cp = do {
     ch \<leftarrow> rd (channels cp) i;
     ch \<leftarrow> pat_revive (ok 1) ch;
     (r, ch) \<leftarrow> pat_set_pmt (ok 2) p ch;
     Some (r, set_channel cp i (if r = 0 then ch\<lparr>pmt_version := -1\<rparr> else ch))}"

definition autoconf_pat_update_chan ::
  "(nat \<Rightarrow> bool) \<Rightarrow> pat_prog_t \<Rightarrow> mumu_chan_p_t \<Rightarrow> (int \<times> mumu_chan_p_t) option" where
  "autoconf_pat_update_chan ok prog cp =
     (case find_service (prog_number prog) cp of
        Some i \<Rightarrow> pat_found_chan ok (prog_network_pid prog) i cp
      | None \<Rightarrow>
          if number_of_channels cp \<ge> MAX_CHANNELS - 1 then Some (0, cp)
          else do {
            cp \<leftarrow> pat_new_channel (ok 0) (prog_number prog) cp;
            pat_found_chan ok (prog_network_pid prog) (number_of_channels cp - 1) cp})"

function pat_read_programs ::
  "(nat \<Rightarrow> nat \<Rightarrow> bool) \<Rightarrow> u8 list \<Rightarrow> nat \<Rightarrow> nat \<Rightarrow> mumu_chan_p_t \<Rightarrow> mumu_chan_p_t option" where
  "pat_read_programs ok bf section_length delta cp =
     (if delta + PAT_PROG_LEN < section_length then do {
        prog \<leftarrow> struct_at PAT_PROG_LEN pat_prog_of bf delta;
        (_, cp) \<leftarrow> (if prog_number prog \<noteq> 0 then autoconf_pat_update_chan (ok delta) prog cp else Some (0, cp));
        pat_read_programs ok bf section_length (delta + PAT_PROG_LEN) cp}
      else Some cp)"
  by pat_completeness auto
termination
  by (relation "measure (\<lambda>(ok, bf, section_length, delta, cp). section_length - delta)")
     (auto simp: PAT_PROG_LEN_def)

declare pat_read_programs.simps [simp del]

text \<open>Before a new version: channels found by autoconfiguration that stream are marked.\<close>

definition pat_mark :: "mumudvb_channel_t \<Rightarrow> mumudvb_channel_t" where
  "pat_mark ch = (if channel_ready ch = READY \<and> service_id_f ch = F_DETECTED
     then ch\<lparr>channel_ready := READY_EXISTING\<rparr> else ch)"

text \<open>After the last section: what is still marked is gone, the others read their PMT again.\<close>

definition pat_sweep :: "mumudvb_channel_t \<Rightarrow> mumudvb_channel_t" where
  "pat_sweep ch = (if channel_ready ch = READY_EXISTING then ch\<lparr>channel_ready := REMOVED\<rparr>
     else ch\<lparr>pmt_version := -1\<rparr>)"

definition force_sdt :: "auto_p_t \<Rightarrow> auto_p_t" where
  "force_sdt a = a\<lparr>a_sdt := (a_sdt a)\<lparr>seen_version := -1\<rparr>\<rparr>"

definition autoconf_read_pat ::
  "(nat \<Rightarrow> nat \<Rightarrow> bool) \<Rightarrow> auto_p_t \<Rightarrow> mumu_chan_p_t \<Rightarrow> (auto_p_t \<times> mumu_chan_p_t) option" where
  "autoconf_read_pat ok a cp = do {
     let bf = data_full (temp_packet (a_pat a));
     h \<leftarrow> struct_at PAT_LEN pat_of bf 0;
     let v = int (unat (pat_t.version_number h));
     let n = unat (pat_t.section_number h);
     if v = seen_version (a_pat a) \<and> sections_seen (a_pat a) ! n then Some (a, cp)
     else do {
       let (a, cp) = (if v = seen_version (a_pat a) then (a, cp)
         else (force_sdt (a\<lparr>a_pat := psi_new_version v (a_pat a)\<rparr>), for_channels pat_mark cp));
       let a = a\<lparr>a_pat := psi_seen n (a_pat a)\<rparr>;
       if pat_t.current_next_indicator h = 0 then Some (a, cp)
       else do {
         let a = a\<lparr>transport_stream_id := int (HILO (pat_t.transport_stream_id_hi h) (pat_t.transport_stream_id_lo h))\<rparr>;
         cp \<leftarrow> pat_read_programs ok bf (HILO (pat_t.section_length_hi h) (pat_t.section_length_lo h)) PAT_LEN cp;
         if sections_missing (unat (pat_t.last_section_number h)) (a_pat a) \<noteq> 0 then Some (a, cp)
         else Some (force_sdt (a\<lparr>a_pat := psi_complete (a_pat a)\<rparr>), for_channels pat_sweep cp)}}}"

section \<open>The PID table\<close>

lemma find_pid_ok:
  "k + n \<le> length ps \<Longrightarrow> \<exists>r. find_pid n k ps p found = Some r \<and>
     (r = None \<longleftrightarrow> found = None \<and> p \<notin> set (take n (drop k ps))) \<and>
     (\<forall>i. r = Some i \<longrightarrow> found = Some i \<or> k \<le> i \<and> i < k + n \<and> ps ! i = p)"
proof (induction n arbitrary: k found)
  case (Suc n)
  have tk: "take (Suc n) (drop k ps) = ps ! k # take n (drop (k + 1) ps)"
    using Suc.prems by (simp add: take_Suc_conv_app_nth Cons_nth_drop_Suc [symmetric])
  define f2 where "f2 = (if ps ! k = p then Some k else found)"
  have "find_pid (Suc n) k ps p found = find_pid n (k + 1) ps p f2"
    using Suc.prems by (simp add: mem_simps f2_def)
  moreover obtain r where r: "find_pid n (k + 1) ps p f2 = Some r"
     "r = None \<longleftrightarrow> f2 = None \<and> p \<notin> set (take n (drop (k + 1) ps))"
     "\<forall>i. r = Some i \<longrightarrow> f2 = Some i \<or> k + 1 \<le> i \<and> i < k + 1 + n \<and> ps ! i = p"
    using Suc.IH [of "k + 1" f2] Suc.prems by auto
  ultimately show ?case unfolding tk by (auto simp: f2_def split: if_splits)
qed simp

definition pid_table :: "pid_i_t \<Rightarrow> nat list" where
  "pid_table pi = take (num_pids pi) (pids pi)"

text \<open>A PID that is in the table stays where it is; another one is added at the end, if there is room.\<close>

lemma set_pmt_pid_known:
  assumes "pid_i_wf pi" "p \<in> set (pid_table pi)"
  shows "\<exists>pi'. set_pmt_pid p pi = Some pi' \<and> pid_i_wf pi' \<and> pid_table pi' = pid_table pi \<and> num_pids pi' = num_pids pi \<and>
     pmt_pid pi' = p \<and> pmt_pid_f pi' = pmt_pid_f pi"
proof -
  obtain i where i: "find_pid (num_pids pi) 0 (pids pi) p None = Some (Some i)" "i < num_pids pi" "pids pi ! i = p"
    using find_pid_ok [of 0 "num_pids pi" "pids pi" p None] assms by (auto simp: pid_i_wf_def pid_table_def)
  have "(pids pi)[i := p] = pids pi" using i(3) by (metis list_update_id)
  then show ?thesis using i assms
    by (auto simp: set_pmt_pid_def Let_def pid_i_wf_def mem_simps pid_table_def)
qed

lemma set_pmt_pid_new:
  assumes "pid_i_wf pi" "p \<notin> set (pid_table pi)" "num_pids pi < MAX_PIDS"
  shows "\<exists>pi'. set_pmt_pid p pi = Some pi' \<and> pid_i_wf pi' \<and> pid_table pi' = pid_table pi @ [p] \<and>
     num_pids pi' = num_pids pi + 1 \<and> pmt_pid pi' = p \<and> pmt_pid_f pi' = pmt_pid_f pi"
proof -
  have "find_pid (num_pids pi) 0 (pids pi) p None = Some None"
    using find_pid_ok [of 0 "num_pids pi" "pids pi" p None] assms by (auto simp: pid_i_wf_def pid_table_def)
  then show ?thesis using assms
    by (auto simp: set_pmt_pid_def Let_def pid_i_wf_def mem_simps pid_table_def take_Suc_conv_app_nth)
qed

lemma set_pmt_pid_full:
  assumes "pid_i_wf pi" "p \<notin> set (pid_table pi)" "num_pids pi = MAX_PIDS"
  shows "set_pmt_pid p pi = None"
proof -
  have "find_pid (num_pids pi) 0 (pids pi) p None = Some None"
    using find_pid_ok [of 0 "num_pids pi" "pids pi" p None] assms by (auto simp: pid_i_wf_def pid_table_def)
  then show ?thesis using assms by (simp add: set_pmt_pid_def Let_def pid_i_wf_def wr_def)
qed

lemma set_pmt_pid_ok:
  assumes "pid_i_wf pi" "num_pids pi < MAX_PIDS"
  shows "\<exists>pi'. set_pmt_pid p pi = Some pi' \<and> pid_i_wf pi' \<and> p \<in> set (pid_table pi') \<and> set (pid_table pi) \<subseteq> set (pid_table pi') \<and>
     num_pids pi' \<le> num_pids pi + 1 \<and> pmt_pid pi' = p \<and> pmt_pid_f pi' = pmt_pid_f pi"
  using set_pmt_pid_known [OF assms(1), of p] set_pmt_pid_new [OF assms(1), of p] assms(2)
  by (cases "p \<in> set (pid_table pi)") auto

section \<open>One program\<close>

definition pat_room :: "nat \<Rightarrow> mumudvb_channel_t \<Rightarrow> bool" where
  "pat_room k ch \<longleftrightarrow> pid_i_wf (pid_i ch) \<and> num_pids (pid_i ch) + k \<le> MAX_PIDS"

lemma pat_room_mono: "pat_room k ch \<Longrightarrow> l \<le> k \<Longrightarrow> pat_room l ch"
  by (auto simp: pat_room_def)

definition revived :: "chan_status_t \<Rightarrow> chan_status_t" where
  "revived s = (if s = READY_EXISTING then READY else if s = REMOVED then NOT_READY else s)"

text \<open>What the PAT says of a channel: \<open>p\<close> is its PMT PID.\<close>

definition announced :: "nat \<Rightarrow> mumudvb_channel_t \<Rightarrow> mumudvb_channel_t \<Rightarrow> bool" where
  "announced p ch ch' \<longleftrightarrow> mumudvb_channel_t.service_id ch' = mumudvb_channel_t.service_id ch \<and>
     service_id_f ch' = service_id_f ch \<and> channel_ready ch' = revived (channel_ready ch) \<and> pmt_version ch' = -1 \<and>
     pmt_pid_f (pid_i ch') = pmt_pid_f (pid_i ch) \<and>
     (if pmt_pid_f (pid_i ch) = F_USER then pmt_pid (pid_i ch') = pmt_pid (pid_i ch)
      else pmt_pid (pid_i ch') = p \<and> p \<in> set (pid_table (pid_i ch')) \<and> pmt_alloc ch')"

lemma add_user_pmt_ok:
  assumes "pid_i_wf pi" "num_pids pi + Suc k \<le> MAX_PIDS"
  shows "\<exists>pi'. add_user_pmt pi = Some pi' \<and> pid_i_wf pi' \<and> pmt_pid pi' = pmt_pid pi \<and> pmt_pid_f pi' = pmt_pid_f pi \<and>
     num_pids pi' + (if pmt_pid_f pi = F_USER then k else Suc k) \<le> MAX_PIDS"
proof -
  obtain r where "find_pid (num_pids pi) 0 (pids pi) (pmt_pid pi) None = Some r"
    using find_pid_ok [of 0 "num_pids pi" "pids pi" "pmt_pid pi" None] assms by (auto simp: pid_i_wf_def)
  then show ?thesis using assms by (auto simp: add_user_pmt_def pid_i_wf_def mem_simps)
qed

lemma mumu_init_chan_ok:
  assumes "pat_room (Suc k) ch"
  shows "\<exists>ch'. mumu_init_chan True ch = Some (0, ch') \<and> pat_room (if pmt_pid_f (pid_i ch) = F_USER then k else Suc k) ch' \<and> pmt_alloc ch' \<and>
     channel_ready ch' = channel_ready ch \<and> mumudvb_channel_t.service_id ch' = mumudvb_channel_t.service_id ch \<and>
     service_id_f ch' = service_id_f ch \<and> pmt_pid (pid_i ch') = pmt_pid (pid_i ch) \<and>
     pmt_pid_f (pid_i ch') = pmt_pid_f (pid_i ch)"
  using add_user_pmt_ok [of "pid_i ch" k] assms
  by (cases "pmt_alloc ch") (auto simp: mumu_init_chan_def pat_room_def Let_def)

lemma pat_found_chan_ok:
  assumes "rd (channels cp) i = Some ch" "pat_room (Suc k) ch"
  shows "\<exists>ch'. pat_found_chan (\<lambda>_. True) p i cp = Some (0, set_channel cp i ch') \<and> announced p ch ch' \<and> pat_room k ch'"
proof -
  have "\<exists>c1. pat_revive True ch = Some c1 \<and> pat_room (if pmt_pid_f (pid_i ch) = F_USER then k else Suc k) c1 \<and>
     channel_ready c1 = revived (channel_ready ch) \<and> mumudvb_channel_t.service_id c1 = mumudvb_channel_t.service_id ch \<and>
     service_id_f c1 = service_id_f ch \<and> pmt_pid (pid_i c1) = pmt_pid (pid_i ch) \<and> pmt_pid_f (pid_i c1) = pmt_pid_f (pid_i ch)"
    using mumu_init_chan_ok [of k "ch\<lparr>channel_ready := NOT_READY\<rparr>"] assms(2)
    by (auto simp: pat_revive_def revived_def pat_room_def)
  then obtain c1 where c1: "pat_revive True ch = Some c1" "pat_room (if pmt_pid_f (pid_i ch) = F_USER then k else Suc k) c1"
     "channel_ready c1 = revived (channel_ready ch)" "mumudvb_channel_t.service_id c1 = mumudvb_channel_t.service_id ch"
     "service_id_f c1 = service_id_f ch" "pmt_pid (pid_i c1) = pmt_pid (pid_i ch)" "pmt_pid_f (pid_i c1) = pmt_pid_f (pid_i ch)"
    by blast
  show ?thesis
  proof (cases "pmt_pid_f (pid_i ch) = F_USER")
    case True
    then show ?thesis using c1 assms(1)
      by (auto simp: pat_found_chan_def pat_set_pmt_def announced_def pat_room_def)
  next
    case False
    then obtain pi where pi: "set_pmt_pid p (pid_i c1) = Some pi" "pid_i_wf pi" "p \<in> set (pid_table pi)"
       "num_pids pi \<le> num_pids (pid_i c1) + 1" "pmt_pid pi = p" "pmt_pid_f pi = pmt_pid_f (pid_i c1)"
      using set_pmt_pid_ok [of "pid_i c1" p] c1(2) by (auto simp: pat_room_def)
    define c2 where "c2 = (if pmt_alloc c1 then c1\<lparr>pid_i := pi\<rparr> else c1\<lparr>pid_i := pi, pmt_alloc := True, pmt_packet := empty_ts_packet\<rparr>)"
    have "pat_set_pmt True p c1 = Some (0, c2)" using False c1(7) pi(1) by (simp add: pat_set_pmt_def c2_def)
    then have "pat_found_chan (\<lambda>_. True) p i cp = Some (0, set_channel cp i (c2\<lparr>pmt_version := -1\<rparr>))"
      using c1(1) assms(1) by (simp add: pat_found_chan_def)
    moreover have "announced p ch (c2\<lparr>pmt_version := -1\<rparr>)" "pat_room k (c2\<lparr>pmt_version := -1\<rparr>)"
      using False c1 pi by (auto simp: announced_def c2_def pat_room_def)
    ultimately show ?thesis by blast
  qed
qed

text \<open>The channels in use have services of their own; the other places are as at the start.\<close>

definition pat_inv :: "nat \<Rightarrow> mumu_chan_p_t \<Rightarrow> bool" where
  "pat_inv k cp \<longleftrightarrow> length (channels cp) = MAX_CHANNELS \<and> number_of_channels cp + k < MAX_CHANNELS \<and>
     distinct (map mumudvb_channel_t.service_id (take (number_of_channels cp) (channels cp))) \<and>
     (\<forall>i < number_of_channels cp. pat_room k (channels cp ! i)) \<and>
     (\<forall>i < MAX_CHANNELS. number_of_channels cp \<le> i \<longrightarrow> channels cp ! i = zero_channel)"

definition sids :: "mumu_chan_p_t \<Rightarrow> nat list" where
  "sids cp = map mumudvb_channel_t.service_id (take (number_of_channels cp) (channels cp))"

lemma sids_nth: "pat_inv k cp \<Longrightarrow> i < number_of_channels cp \<Longrightarrow> mumudvb_channel_t.service_id (channels cp ! i) = sids cp ! i"
  by (simp add: sids_def pat_inv_def)

lemma find_service_inv:
  assumes "pat_inv k cp"
  shows "(case find_service sid cp of None \<Rightarrow> sid \<notin> set (sids cp)
     | Some i \<Rightarrow> i < number_of_channels cp \<and> sids cp ! i = sid)"
proof (cases "find_service sid cp")
  case None
  moreover have "min (number_of_channels cp) MAX_CHANNELS = number_of_channels cp" using assms by (simp add: pat_inv_def)
  ultimately have "\<forall>i < number_of_channels cp. mumudvb_channel_t.service_id (channels cp ! i) \<noteq> sid"
    by (simp add: find_service_None)
  then have "sid \<notin> set (sids cp)" by (fastforce simp: sids_def in_set_conv_nth)
  then show ?thesis using None by simp
next
  case (Some i)
  then show ?thesis using find_service_Some [OF Some] assms by (auto simp: sids_def pat_inv_def)
qed

text \<open>The new channel: the place was free.\<close>

definition fresh_channel :: "nat \<Rightarrow> mumudvb_channel_t" where
  "fresh_channel sid = zero_channel\<lparr>has_traffic := True, generated_pat_version := -1,
     generated_sdt_version := -1, pmt_alloc := True, mumudvb_channel_t.service_id := sid, service_id_f := F_DETECTED,
     channel_ready := NOT_READY\<rparr>"

lemma pat_new_channel_ok:
  assumes "pat_inv (Suc k) cp"
  shows "pat_new_channel True sid cp = Some ((set_channel cp (number_of_channels cp) (fresh_channel sid))
     \<lparr>number_of_channels := number_of_channels cp + 1\<rparr>)"
proof -
  have "rd (channels cp) (number_of_channels cp) = Some zero_channel"
    using assms by (auto simp: pat_inv_def mem_simps)
  moreover have "mumu_init_chan True (zero_channel\<lparr>mumudvb_channel_t.service_id := sid, service_id_f := F_DETECTED\<rparr>) =
      Some (0, (fresh_channel sid)\<lparr>channel_ready := ALMOST_READY\<rparr>)"
    by (simp add: mumu_init_chan_def Let_def add_user_pmt_def fresh_channel_def zero_channel_def zero_pid_i_def)
  ultimately show ?thesis by (simp add: pat_new_channel_def fresh_channel_def)
qed

lemma zero_channel_room: "k \<le> MAX_PIDS \<Longrightarrow> pat_room k zero_channel"
  using zero_channel_wf by (simp add: pat_room_def channel_wf_def zero_channel_def zero_pid_i_def)

lemma fresh_channel_room: "k \<le> MAX_PIDS \<Longrightarrow> pat_room k (fresh_channel sid)"
  using zero_channel_room [of k] by (simp add: pat_room_def fresh_channel_def)

lemma fresh_channel_sid [simp]: "mumudvb_channel_t.service_id (fresh_channel sid) = sid"
  by (simp add: fresh_channel_def)

lemma announced_sid: "announced p ch ch' \<Longrightarrow> mumudvb_channel_t.service_id ch' = mumudvb_channel_t.service_id ch"
  by (simp add: announced_def)

text \<open>One program \<open>(n, p)\<close>: the channel of service \<open>n\<close>, at \<open>i\<close>, is the old one or a new one at the end.\<close>

definition pat_step :: "nat \<times> nat \<Rightarrow> mumu_chan_p_t \<Rightarrow> mumu_chan_p_t \<Rightarrow> bool" where
  "pat_step x cp cp' \<longleftrightarrow> (\<exists>i. i < number_of_channels cp' \<and>
     announced (snd x) (if i < number_of_channels cp then channels cp ! i else fresh_channel (fst x)) (channels cp' ! i) \<and>
     mumudvb_channel_t.service_id (channels cp' ! i) = fst x \<and>
     (\<forall>j. j \<noteq> i \<longrightarrow> channels cp' ! j = channels cp ! j) \<and>
     number_of_channels cp' = (if i < number_of_channels cp then number_of_channels cp else number_of_channels cp + 1))"

lemma set_channel_fields [simp]:
  "channels (set_channel cp i ch) = (channels cp)[i := ch]"
  "number_of_channels (set_channel cp i ch) = number_of_channels cp"
  by (simp_all add: set_channel_def)

lemma map_take_update:
  "i < n \<Longrightarrow> n \<le> length xs \<Longrightarrow> f x = f (xs ! i) \<Longrightarrow> map f (take n (xs[i := x])) = map f (take n xs)"
  by (rule nth_equalityI) (auto simp: nth_list_update)

lemma pat_found_old:
  assumes inv: "pat_inv (Suc k) cp" and i: "i < number_of_channels cp" "sids cp ! i = n"
  shows "\<exists>cp'. pat_found_chan (\<lambda>_. True) p i cp = Some (0, cp') \<and> pat_inv k cp' \<and> pat_step (n, p) cp cp'"
proof -
  have l: "i < length (channels cp)" "length (channels cp) = MAX_CHANNELS" "number_of_channels cp + Suc k < MAX_CHANNELS"
    using inv i(1) by (auto simp: pat_inv_def)
  have ch: "rd (channels cp) i = Some (channels cp ! i)" "pat_room (Suc k) (channels cp ! i)"
    using inv i(1) l by (auto simp: pat_inv_def mem_simps)
  obtain ch' where w: "pat_found_chan (\<lambda>_. True) p i cp = Some (0, set_channel cp i ch')" "announced p (channels cp ! i) ch'" "pat_room k ch'"
    using pat_found_chan_ok [OF ch] by blast
  have "map mumudvb_channel_t.service_id (take (number_of_channels cp) ((channels cp)[i := ch'])) =
      map mumudvb_channel_t.service_id (take (number_of_channels cp) (channels cp))"
    using announced_sid [OF w(2)] l i(1) by (intro map_take_update) auto
  then have "pat_inv k (set_channel cp i ch')"
    using inv w(3) i(1) l by (auto simp: pat_inv_def nth_list_update intro: pat_room_mono)
  moreover have "mumudvb_channel_t.service_id (channels cp ! i) = n" using sids_nth [OF inv i(1)] i(2) by simp
  then have "pat_step (n, p) cp (set_channel cp i ch')"
    unfolding pat_step_def using w(2) announced_sid [OF w(2)] i(1) l by (intro exI [of _ i]) auto
  ultimately show ?thesis using w(1) by blast
qed

lemma pat_found_new:
  assumes inv: "pat_inv (Suc k) cp" and n: "n \<notin> set (sids cp)"
  defines "c0 \<equiv> (set_channel cp (number_of_channels cp) (fresh_channel n))\<lparr>number_of_channels := number_of_channels cp + 1\<rparr>"
  shows "\<exists>cp'. pat_found_chan (\<lambda>_. True) p (number_of_channels cp) c0 = Some (0, cp') \<and> pat_inv k cp' \<and> pat_step (n, p) cp cp'"
proof -
  let ?m = "number_of_channels cp"
  have l: "?m < length (channels cp)" "length (channels cp) = MAX_CHANNELS" "?m + Suc k < MAX_CHANNELS"
    using inv by (auto simp: pat_inv_def)
  have "rd (channels c0) ?m = Some (fresh_channel n)" using l by (simp add: c0_def mem_simps)
  moreover have "pat_room (Suc k) (fresh_channel n)" using l by (intro fresh_channel_room) (simp add: mumu_sizes)
  ultimately obtain ch' where w: "pat_found_chan (\<lambda>_. True) p ?m c0 = Some (0, set_channel c0 ?m ch')"
      "announced p (fresh_channel n) ch'" "pat_room k ch'"
    using pat_found_chan_ok by blast
  have s: "mumudvb_channel_t.service_id ch' = n" using announced_sid [OF w(2)] by simp
  have "map mumudvb_channel_t.service_id (take (Suc ?m) ((channels cp)[?m := ch'])) = sids cp @ [n]"
    using l s by (simp add: sids_def take_Suc_conv_app_nth)
  then have "pat_inv k (set_channel c0 ?m ch')"
    using inv w(3) l n
    by (auto simp: pat_inv_def c0_def nth_list_update less_Suc_eq sids_def intro: pat_room_mono)
  moreover have "pat_step (n, p) cp (set_channel c0 ?m ch')"
    unfolding pat_step_def using w(2) s l by (intro exI [of _ ?m]) (auto simp: c0_def)
  ultimately show ?thesis using w(1) by blast
qed

lemma pat_update_chan_ok:
  assumes "pat_inv (Suc k) cp"
  shows "\<exists>cp'. autoconf_pat_update_chan (\<lambda>_. True) prog cp = Some (0, cp') \<and> pat_inv k cp' \<and>
     pat_step (prog_number prog, prog_network_pid prog) cp cp'"
proof (cases "find_service (prog_number prog) cp")
  case None
  then have n: "prog_number prog \<notin> set (sids cp)" using find_service_inv [OF assms, of "prog_number prog"] by simp
  have "\<not> number_of_channels cp \<ge> MAX_CHANNELS - 1" using assms by (auto simp: pat_inv_def)
  then show ?thesis
    using None pat_found_new [OF assms n] by (simp add: autoconf_pat_update_chan_def pat_new_channel_ok [OF assms])
next
  case (Some i)
  then have "i < number_of_channels cp" "sids cp ! i = prog_number prog"
    using find_service_inv [OF assms, of "prog_number prog"] by auto
  then show ?thesis using Some pat_found_old [OF assms] by (simp add: autoconf_pat_update_chan_def)
qed

section \<open>All programs of a section\<close>

text \<open>The last program of a service counts.\<close>

definition announced_by :: "(nat \<times> nat) list \<Rightarrow> mumudvb_channel_t \<Rightarrow> mumudvb_channel_t \<Rightarrow> bool" where
  "announced_by ps ch ch' \<longleftrightarrow> (case map_of (rev ps) (mumudvb_channel_t.service_id ch) of
     None \<Rightarrow> ch' = ch | Some p \<Rightarrow> announced p ch ch')"

definition old_or_fresh :: "mumu_chan_p_t \<Rightarrow> mumu_chan_p_t \<Rightarrow> nat \<Rightarrow> mumudvb_channel_t" where
  "old_or_fresh cp cp' i = (if i < number_of_channels cp then channels cp ! i
     else fresh_channel (mumudvb_channel_t.service_id (channels cp' ! i)))"

definition pat_rel :: "(nat \<times> nat) list \<Rightarrow> mumu_chan_p_t \<Rightarrow> mumu_chan_p_t \<Rightarrow> bool" where
  "pat_rel ps cp cp' \<longleftrightarrow> number_of_channels cp \<le> number_of_channels cp' \<and>
     (\<forall>i < number_of_channels cp'. announced_by ps (old_or_fresh cp cp' i) (channels cp' ! i)) \<and>
     (\<forall>i < number_of_channels cp'. number_of_channels cp \<le> i \<longrightarrow> mumudvb_channel_t.service_id (channels cp' ! i) \<in> fst ` set ps) \<and>
     (\<forall>n \<in> fst ` set ps. \<exists>i < number_of_channels cp'. mumudvb_channel_t.service_id (channels cp' ! i) = n)"

lemma revived_revived [simp]: "revived (revived s) = revived s"
  by (simp add: revived_def)

lemma announced_trans: "announced p a b \<Longrightarrow> announced q b c \<Longrightarrow> announced q a c"
  by (auto simp: announced_def split: if_splits)

lemma announced_by_sid: "announced_by ps a b \<Longrightarrow> mumudvb_channel_t.service_id b = mumudvb_channel_t.service_id a"
  by (auto simp: announced_by_def announced_sid split: option.splits)

lemma announced_by_Cons:
  assumes "if mumudvb_channel_t.service_id a = fst x then announced (snd x) a b else b = a" "announced_by ps b c"
  shows "announced_by (x # ps) a c"
proof -
  have s: "mumudvb_channel_t.service_id b = mumudvb_channel_t.service_id a"
    using assms(1) by (auto split: if_splits dest: announced_sid)
  have m: "map_of (rev (x # ps)) s = (case map_of (rev ps) s of Some q \<Rightarrow> Some q | None \<Rightarrow> if s = fst x then Some (snd x) else None)" for s
    by (cases x) (auto simp: map_add_def split: option.splits)
  show ?thesis
    using assms unfolding announced_by_def m s
    by (auto split: option.splits if_splits intro: announced_trans)
qed

lemma pat_rel_Nil: "pat_rel [] cp cp"
  by (simp add: pat_rel_def announced_by_def old_or_fresh_def)

lemma distinct_sid:
  assumes "pat_inv k cp" "i < number_of_channels cp" "j < number_of_channels cp"
    "mumudvb_channel_t.service_id (channels cp ! i) = mumudvb_channel_t.service_id (channels cp ! j)"
  shows "i = j"
proof -
  have "sids cp ! i = sids cp ! j" using assms sids_nth [OF assms(1)] by simp
  moreover have "distinct (sids cp)" "length (sids cp) = number_of_channels cp"
    using assms(1) by (simp_all add: sids_def pat_inv_def)
  ultimately show ?thesis using assms(2,3) by (simp add: nth_eq_iff_index_eq)
qed

lemma pat_rel_Cons:
  assumes st: "pat_step x cp c1" and rel: "pat_rel ps c1 c2" and inv: "pat_inv k c1" "pat_inv l c2"
  shows "pat_rel (x # ps) cp c2"
proof -
  obtain i where i: "i < number_of_channels c1"
     "announced (snd x) (if i < number_of_channels cp then channels cp ! i else fresh_channel (fst x)) (channels c1 ! i)"
     "mumudvb_channel_t.service_id (channels c1 ! i) = fst x" "\<forall>j. j \<noteq> i \<longrightarrow> channels c1 ! j = channels cp ! j"
     "number_of_channels c1 = (if i < number_of_channels cp then number_of_channels cp else number_of_channels cp + 1)"
    using st by (auto simp: pat_step_def)
  have r: "number_of_channels c1 \<le> number_of_channels c2"
     "\<And>j. j < number_of_channels c2 \<Longrightarrow> announced_by ps (old_or_fresh c1 c2 j) (channels c2 ! j)"
     "\<And>j. j < number_of_channels c2 \<Longrightarrow> number_of_channels c1 \<le> j \<Longrightarrow> mumudvb_channel_t.service_id (channels c2 ! j) \<in> fst ` set ps"
     "\<And>n. n \<in> fst ` set ps \<Longrightarrow> \<exists>j < number_of_channels c2. mumudvb_channel_t.service_id (channels c2 ! j) = n"
    using rel by (auto simp: pat_rel_def)
  have si: "mumudvb_channel_t.service_id (channels c2 ! i) = fst x"
    using announced_by_sid [OF r(2), of i] i(1,3) r(1) by (simp add: old_or_fresh_def)
  have sj: "mumudvb_channel_t.service_id (channels c2 ! j) \<noteq> fst x" if "j < number_of_channels c2" "j \<noteq> i" for j
    using distinct_sid [OF inv(2), of i j] that si i(1) r(1) by auto
  have ann: "announced_by (x # ps) (old_or_fresh cp c2 j) (channels c2 ! j)" if j: "j < number_of_channels c2" for j
  proof (rule announced_by_Cons [OF _ r(2) [OF j]])
    let ?a = "old_or_fresh cp c2 j" and ?b = "old_or_fresh c1 c2 j"
    show "if mumudvb_channel_t.service_id ?a = fst x then announced (snd x) ?a ?b else ?b = ?a"
    proof (cases "j = i")
      case True
      have "mumudvb_channel_t.service_id ?a = fst x"
        using True i(2,3) si by (auto simp: old_or_fresh_def dest: announced_sid)
      then show ?thesis using True i(1,2) si by (cases "i < number_of_channels cp") (simp_all add: old_or_fresh_def)
    next
      case False
      have "j < number_of_channels c1 \<Longrightarrow> j < number_of_channels cp" using False i(1,5) by (auto split: if_splits)
      then have eq: "?b = ?a" using False i(4,5) by (auto simp: old_or_fresh_def)
      moreover have "mumudvb_channel_t.service_id ?b = mumudvb_channel_t.service_id (channels c2 ! j)"
        using announced_by_sid [OF r(2) [OF j]] by simp
      ultimately show ?thesis using sj [OF j False] by simp
    qed
  qed
  have new: "mumudvb_channel_t.service_id (channels c2 ! j) \<in> fst ` set (x # ps)"
    if "j < number_of_channels c2" "number_of_channels cp \<le> j" for j
    using r(3) [of j] si i(1,5) that by (cases "j = i") (auto split: if_splits)
  have all: "\<exists>j < number_of_channels c2. mumudvb_channel_t.service_id (channels c2 ! j) = n" if "n \<in> fst ` set (x # ps)" for n
  proof (cases "n = fst x")
    case True
    then show ?thesis using si i(1) r(1) by (intro exI [of _ i]) simp
  next
    case False
    then show ?thesis using r(4) [of n] that by auto
  qed
  have "number_of_channels cp \<le> number_of_channels c2" using i(1,5) r(1) by (auto split: if_splits)
  then show ?thesis using ann new all by (simp add: pat_rel_def)
qed

definition prog_pair :: "u8 list \<Rightarrow> nat \<times> nat" where
  "prog_pair e = (prog_number (pat_prog_of e), prog_network_pid (pat_prog_of e))"

text \<open>The programs of a PAT, without the network entry.\<close>

definition pat_programs :: "u8 list \<Rightarrow> nat \<Rightarrow> nat \<Rightarrow> (nat \<times> nat) list" where
  "pat_programs b sl delta = filter (\<lambda>x. fst x \<noteq> 0) (map prog_pair (pat_entries b sl delta))"

lemma pat_programs_step:
  "delta + PAT_PROG_LEN < sl \<Longrightarrow> delta + PAT_PROG_LEN \<le> length b \<Longrightarrow>
   pat_programs b sl delta = (let prog = pat_prog_of (drop delta b) in
     (if prog_number prog \<noteq> 0 then [(prog_number prog, prog_network_pid prog)] else []) @ pat_programs b sl (delta + PAT_PROG_LEN))"
  using pat_prog_s.dec_cong [of "drop delta b"]
  by (subst pat_programs_def, subst pat_entries.simps) (simp add: pat_programs_def prog_pair_def Let_def)

lemma pat_read_programs_ok:
  assumes "pat_inv (length (pat_programs b sl delta) + k) cp" "sl \<le> length b"
  shows "\<exists>cp'. pat_read_programs (\<lambda>_ _. True) b sl delta cp = Some cp' \<and> pat_inv k cp' \<and> pat_rel (pat_programs b sl delta) cp cp'"
  using assms
proof (induction "sl - delta" arbitrary: delta cp rule: less_induct)
  case less
  show ?case
  proof (cases "delta + PAT_PROG_LEN < sl")
    case False
    then have "pat_programs b sl delta = []" by (simp add: pat_programs_def pat_entries.simps [of _ _ delta])
    then show ?thesis using False less.prems pat_rel_Nil by (simp add: pat_read_programs.simps)
  next
    case True
    define prog where "prog = pat_prog_of (drop delta b)"
    have at: "struct_at PAT_PROG_LEN pat_prog_of b delta = Some prog"
      using True less.prems(2) by (simp add: prog_def)
    have ps: "pat_programs b sl delta = (if prog_number prog \<noteq> 0 then [(prog_number prog, prog_network_pid prog)] else []) @
        pat_programs b sl (delta + PAT_PROG_LEN)"
      using pat_programs_step [of delta sl b] True less.prems(2) by (simp add: prog_def Let_def)
    have lt: "sl - (delta + PAT_PROG_LEN) < sl - delta" using True by (simp add: PAT_PROG_LEN_def)
    show ?thesis
    proof (cases "prog_number prog = 0")
      case True
      then show ?thesis using less.hyps [OF lt] less.prems ps at \<open>delta + PAT_PROG_LEN < sl\<close>
        by (subst pat_read_programs.simps) simp
    next
      case False
      obtain c1 where c1: "autoconf_pat_update_chan (\<lambda>_. True) prog cp = Some (0, c1)"
          "pat_inv (length (pat_programs b sl (delta + PAT_PROG_LEN)) + k) c1" "pat_step (prog_number prog, prog_network_pid prog) cp c1"
        using pat_update_chan_ok [of _ cp prog] less.prems(1) False ps by fastforce
      obtain c2 where c2: "pat_read_programs (\<lambda>_ _. True) b sl (delta + PAT_PROG_LEN) c1 = Some c2" "pat_inv k c2"
          "pat_rel (pat_programs b sl (delta + PAT_PROG_LEN)) c1 c2"
        using less.hyps [OF lt c1(2) less.prems(2)] by blast
      show ?thesis
        using pat_rel_Cons [OF c1(3) c2(3) c1(2) c2(2)] c1(1) c2 False ps at True
        by (subst pat_read_programs.simps) simp
    qed
  qed
qed

section \<open>A whole PAT\<close>

lemma for_channels_inv:
  assumes "pat_inv k cp" "\<And>ch. mumudvb_channel_t.service_id (f ch) = mumudvb_channel_t.service_id ch" "\<And>ch. pid_i (f ch) = pid_i ch"
  shows "pat_inv k (for_channels f cp)"
proof -
  have l: "length (channels cp) = MAX_CHANNELS" "number_of_channels cp < MAX_CHANNELS" using assms(1) by (auto simp: pat_inv_def)
  have "map mumudvb_channel_t.service_id (take (number_of_channels cp) (channels (for_channels f cp))) =
      map mumudvb_channel_t.service_id (take (number_of_channels cp) (channels cp))"
    using l assms(2) by (intro nth_equalityI) (auto simp: nth_for_channels)
  then show ?thesis using assms l by (auto simp: pat_inv_def nth_for_channels pat_room_def)
qed

lemma pat_mark_keeps [simp]: "mumudvb_channel_t.service_id (pat_mark ch) = mumudvb_channel_t.service_id ch" "pid_i (pat_mark ch) = pid_i ch"
  by (simp_all add: pat_mark_def)

lemma pat_sweep_keeps [simp]: "mumudvb_channel_t.service_id (pat_sweep ch) = mumudvb_channel_t.service_id ch" "pid_i (pat_sweep ch) = pid_i ch"
  by (simp_all add: pat_sweep_def)

lemma revived_not [simp]: "revived s \<noteq> READY_EXISTING" "revived s \<noteq> REMOVED"
  by (simp_all add: revived_def)

lemma announced_marked: "announced p (pat_mark ch) ch' \<Longrightarrow> announced p ch (pat_sweep ch')"
  by (auto simp: announced_def pat_mark_def pat_sweep_def revived_def split: if_splits)

lemma announced_fresh: "announced p (fresh_channel n) ch' \<Longrightarrow> announced p (fresh_channel n) (pat_sweep ch')"
  by (auto simp: announced_def pat_sweep_def fresh_channel_def revived_def split: if_splits)

lemma pat_inv_mono: "pat_inv k cp \<Longrightarrow> l \<le> k \<Longrightarrow> pat_inv l cp"
  by (auto simp: pat_inv_def intro: pat_room_mono)

definition pat_section_programs :: "u8 list \<Rightarrow> (nat \<times> nat) list" where
  "pat_section_programs b = pat_programs b (HILO (pat_t.section_length_hi (pat_of b)) (pat_t.section_length_lo (pat_of b))) PAT_LEN"

text \<open>The state after a complete PAT with header \<open>h\<close>.\<close>

definition pat_done :: "pat_t \<Rightarrow> auto_p_t \<Rightarrow> auto_p_t" where
  "pat_done h a = force_sdt (a\<lparr>a_pat := psi_complete (psi_seen 0 (psi_new_version (int (unat (pat_t.version_number h))) (a_pat a))),
     transport_stream_id := int (HILO (pat_t.transport_stream_id_hi h) (pat_t.transport_stream_id_lo h))\<rparr>)"

lemma autoconf_read_pat_runs:
  fixes a cp
  defines "b \<equiv> data_full (temp_packet (a_pat a))"
  defines "ps \<equiv> pat_section_programs b"
  assumes b: "length b = MAX_TS_SIZE" and v: "int (unat (pat_t.version_number (pat_of b))) \<noteq> seen_version (a_pat a)"
    and c: "pat_t.current_next_indicator (pat_of b) \<noteq> 0" "pat_t.section_number (pat_of b) = 0" "pat_t.last_section_number (pat_of b) = 0"
    and inv: "pat_inv (length ps) cp"
  shows "\<exists>c1. autoconf_read_pat (\<lambda>_ _. True) a cp = Some (pat_done (pat_of b) a, for_channels pat_sweep c1) \<and>
     pat_inv 0 c1 \<and> pat_rel ps (for_channels pat_mark cp) c1"
proof -
  define h where "h = pat_of b"
  define sl where "sl = HILO (pat_t.section_length_hi h) (pat_t.section_length_lo h)"
  have ps: "ps = pat_programs b sl PAT_LEN" by (simp add: ps_def pat_section_programs_def sl_def h_def)
  have h: "struct_at PAT_LEN pat_of b 0 = Some h" using b by (simp add: h_def struct_at_def PAT_LEN_def MAX_TS_SIZE_def)
  have sl: "sl \<le> length b" using HILO_get4 [of "b ! 1" "b ! 2"] b by (simp add: sl_def h_def pat_of_def MAX_TS_SIZE_def)
  define c0 where "c0 = for_channels pat_mark cp"
  have "pat_inv (length ps) c0" unfolding c0_def by (rule for_channels_inv [OF inv]) simp_all
  then have "pat_inv (length (pat_programs b sl PAT_LEN) + 0) c0" by (simp add: ps)
  from pat_read_programs_ok [OF this sl] obtain c1
    where c1: "pat_read_programs (\<lambda>_ _. True) b sl PAT_LEN c0 = Some c1" "pat_inv 0 c1" "pat_rel ps c0 c1" unfolding ps by blast
  define t where "t = psi_seen 0 (psi_new_version (int (unat (pat_t.version_number h))) (a_pat a))"
  have miss: "sections_missing 0 t = 0" by (simp add: t_def psi_seen_def psi_new_version_def sections_missing_0)
  have v': "int (unat (pat_t.version_number h)) \<noteq> seen_version (a_pat a)" using v by (simp add: h_def)
  have "autoconf_read_pat (\<lambda>_ _. True) a cp = Some (pat_done h a, for_channels pat_sweep c1)"
    unfolding autoconf_read_pat_def Let_def b_def [symmetric] h bind.bind_lunit
    using v' c c1(1) miss
    by (simp add: h_def [symmetric] sl_def [symmetric] c0_def [symmetric] t_def [symmetric])
      (simp add: pat_done_def force_sdt_def t_def)
  then show ?thesis using c1 by (auto simp: h_def c0_def)
qed


section \<open>The PID table overflows\<close>

text \<open>
  Out of bounds: PMT PIDs are only ever added to the PID table, the old one is looked for after it has been
  overwritten. When more PMT PIDs come up than there are free entries, without a PMT read in
  between (the channel need not be ready), an entry behind the table is written.
\<close>

theorem pat_set_pmt_overflow:
  assumes "pid_i_wf (pid_i ch)" "pmt_pid_f (pid_i ch) \<noteq> F_USER" "distinct (pid_table (pid_i ch) @ ps)"
    and "MAX_PIDS < num_pids (pid_i ch) + length ps"
  shows "fold (\<lambda>p r. do { ch \<leftarrow> r; (_, ch) \<leftarrow> pat_set_pmt True p ch; Some ch}) ps (Some ch) = None"
  using assms
proof (induction ps arbitrary: ch)
  case Nil
  then show ?case by (simp add: pid_i_wf_def)
next
  case (Cons p ps)
  have none: "fold (\<lambda>p r. do { ch \<leftarrow> r; (_, ch) \<leftarrow> pat_set_pmt True p ch; Some ch}) qs None = None" for qs
    by (induction qs) simp_all
  have p: "p \<notin> set (pid_table (pid_i ch))" using Cons.prems(3) by auto
  show ?case
  proof (cases "num_pids (pid_i ch) < MAX_PIDS")
    case False
    then have "pat_set_pmt True p ch = None"
      using set_pmt_pid_full [OF Cons.prems(1) p] Cons.prems(1,2) by (simp add: pat_set_pmt_def pid_i_wf_def)
    then show ?thesis using none by simp
  next
    case True
    from set_pmt_pid_new [OF Cons.prems(1) p True] obtain pi where
      pi: "set_pmt_pid p (pid_i ch) = Some pi" "pid_i_wf pi" "pid_table pi = pid_table (pid_i ch) @ [p]"
        "num_pids pi = num_pids (pid_i ch) + 1" "pmt_pid_f pi = pmt_pid_f (pid_i ch)" by blast
    obtain c where c: "pat_set_pmt True p ch = Some (0, c)" "pid_i c = pi"
      using pi(1) Cons.prems(2) by (cases "pmt_alloc ch") (auto simp: pat_set_pmt_def)
    have "pid_i_wf (pid_i c)" "pmt_pid_f (pid_i c) \<noteq> F_USER" "distinct (pid_table (pid_i c) @ ps)"
        "MAX_PIDS < num_pids (pid_i c) + length ps"
      using Cons.prems pi c(2) by auto
    then show ?thesis using Cons.IH c(1) by simp
  qed
qed

theorem pat_set_pmt_overflow_witness:
  "fold (\<lambda>p r. do { ch \<leftarrow> r; (_, ch) \<leftarrow> pat_set_pmt True p ch; Some ch}) [32..<200] (Some zero_channel) = None"
  using zero_channel_wf
  by (intro pat_set_pmt_overflow)
    (simp_all add: channel_wf_def zero_channel_def zero_pid_i_def pid_table_def mumu_sizes)

section \<open>Witness\<close>

definition sample_pat_section :: "u8 list" where
  "sample_pat_section = [0, 0xb0, 13, 0, 1, 0xc3, 0, 0, 0, 7, 0xe1, 0x00, 0, 0, 0, 0]"

definition sample_auto :: auto_p_t where
  "sample_auto = init_aconf_v\<lparr>a_pat := (init_psi_table (-1))\<lparr>temp_packet := empty_ts_packet\<lparr>data_full := sample_pat_section @ replicate 4080 0\<rparr>\<rparr>\<rparr>"

definition sample_pat_cp :: mumu_chan_p_t where
  "sample_pat_cp = \<lparr>number_of_channels = 0, channels = replicate MAX_CHANNELS zero_channel, asked_pid = [], t2mi_pid = 0\<rparr>"


end
