(* ===== verification/Autoconf_Pmt.thy ===== *)
theory Autoconf_Pmt
  imports Autoconf_Cat Autoconf_Pat Rewrite_Pmt
begin

text \<open>
  The PMT, \<^verbatim>\<open>src/src/autoconf_pmt.c\<close>: the PIDs of a service with their types and languages. The local arrays
  of the code are a record \<open>pmt_pids\<close> with their sizes; what the arrays hold before is an argument.

  The lemmas show that the entries of every encoded PMT are what the standard makes of its
  descriptors and streams, and where the table goes wrong: the PID that carries the clock may be
  entered twice, a PMT PID that changed is lost, and a full table is written out of bounds.
\<close>

section \<open>State\<close>

record pmt_pids =
  p_pids :: "nat list"
  p_types :: "pid_type_t list"
  p_langs :: "string list"
  p_num :: nat
  p_ca :: "nat list"

text \<open>A new entry at the end; the language is left as it is when none is given.\<close>

definition put_pid :: "nat \<Rightarrow> pid_type_t \<Rightarrow> string option \<Rightarrow> pmt_pids \<Rightarrow> pmt_pids option" where
  "put_pid p t l s = do {
     ps \<leftarrow> wr (p_pids s) (p_num s) p;
     ts \<leftarrow> wr (p_types s) (p_num s) t;
     ls \<leftarrow> (case l of None \<Rightarrow> Some (p_langs s) | Some x \<Rightarrow> wr (p_langs s) (p_num s) x);
     Some (s\<lparr>p_pids := ps, p_types := ts, p_langs := ls, p_num := p_num s + 1\<rparr>)}"

section \<open>CA descriptors\<close>

lemma pmt_find_descriptor_bounds:
  "pmt_find_descriptor tag b base len p = Some (l, q) \<Longrightarrow> 0 < l \<Longrightarrow> p \<le> q \<and> q < len"
proof (induction tag b base len p rule: pmt_find_descriptor.induct)
  case (1 tag b base len p)
  show ?case
    using 1 pmt_find_descriptor.simps [of tag b base len p] by (fastforce split: if_splits option.splits)
qed

text \<open>The positions of the CA descriptors of one loop, added to \<open>acc\<close>, an array of 255 entries.\<close>

function ca_in_loop :: "u8 list \<Rightarrow> nat \<Rightarrow> nat \<Rightarrow> nat \<Rightarrow> nat list \<Rightarrow> nat list option" where
  "ca_in_loop b base len p acc =
     (case pmt_find_descriptor 0x09 b base len p of None \<Rightarrow> None
      | Some (l, q) \<Rightarrow>
          if 0 < l then
            if length acc < 255 then ca_in_loop b base len (q + l) (acc @ [base + q]) else None
          else Some acc)"
  by pat_completeness auto
termination
  by (relation "measure (\<lambda>(b, base, len, p, acc). len - p)") (auto dest: pmt_find_descriptor_bounds)

function ca_in_streams :: "u8 list \<Rightarrow> nat \<Rightarrow> nat \<Rightarrow> nat list \<Rightarrow> nat list option" where
  "ca_in_streams b section_len i acc =
     (if i + (PMT_INFO_LEN + 4) \<le> section_len then
        (case struct_at PMT_INFO_LEN pmt_info_of b i of None \<Rightarrow> None
         | Some e \<Rightarrow> (case ca_in_loop b (i + PMT_INFO_LEN) (ES_info_length e) 0 acc of None \<Rightarrow> None
            | Some acc \<Rightarrow> ca_in_streams b section_len (i + (ES_info_length e + PMT_INFO_LEN)) acc))
      else Some acc)"
  by pat_completeness auto
termination
  by (relation "measure (\<lambda>(b, section_len, i, acc). section_len - i)") (auto simp: PMT_INFO_LEN_def)

declare ca_in_loop.simps [simp del] ca_in_streams.simps [simp del]

text \<open>The system is entered at the first free place, unless it is there.\<close>

definition add_ca_sys :: "nat \<Rightarrow> nat list \<Rightarrow> nat list" where
  "add_ca_sys t xs = (let k = length (takeWhile (\<lambda>x. x \<noteq> 0 \<and> x \<noteq> t) (take 32 xs)) in
     if k < 32 \<and> xs ! k = 0 then xs[k := t] else xs)"

definition add_ca_pid :: "(int \<times> nat) list \<Rightarrow> u8 list \<Rightarrow> nat \<Rightarrow> pmt_pids \<Rightarrow> pmt_pids option" where
  "add_ca_pid ss b pos s = do {
     d \<leftarrow> struct_at DESCR_CA_LEN descr_ca_of b pos;
     s \<leftarrow> put_pid (descr_CA_PID d) PID_ECM (Some []) s;
     s \<leftarrow> (case autoconf_get_ca_system ss (int (descr_CA_type d)) of None \<Rightarrow> Some s
          | Some (_, emm) \<Rightarrow> if emm \<in> set (take (p_num s) (p_pids s)) then Some s else put_pid emm PID_EMM None s);
     Some (s\<lparr>p_ca := add_ca_sys (descr_CA_type d) (p_ca s)\<rparr>)}"

primrec add_ca_pids :: "(int \<times> nat) list \<Rightarrow> u8 list \<Rightarrow> nat list \<Rightarrow> pmt_pids \<Rightarrow> pmt_pids option" where
  "add_ca_pids ss b [] s = Some s"
| "add_ca_pids ss b (p # ps) s = do { s \<leftarrow> add_ca_pid ss b p s; add_ca_pids ss b ps s}"

section \<open>Streams\<close>

definition stream_types :: "(u8 \<times> pid_type_t) list" where
  "stream_types = [(0x01, PID_VIDEO_MPEG1), (0x02, PID_VIDEO_MPEG2), (0x10, PID_VIDEO_MPEG4_ASP),
     (0x1b, PID_VIDEO_MPEG4_AVC), (0x24, PID_VIDEO_MPEG4_HEVC), (0x03, PID_AUDIO_MPEG1),
     (0x04, PID_AUDIO_MPEG2), (0x11, PID_AUDIO_AAC_LATM), (0x0f, PID_AUDIO_AAC_ADTS), (0x81, PID_AUDIO_ATSC)]"

text \<open>The descriptors that tell the type of private data, in the order in which they are looked for.\<close>

definition section_descrs :: "(u8 \<times> pid_type_t) list" where
  "section_descrs = [(0x6f, PID_EXTRA_APPLICATION_SIGNALLING)]"

definition private_descrs :: "(u8 \<times> pid_type_t) list" where
  "private_descrs = [(0x45, PID_EXTRA_VBIDATA), (0x46, PID_EXTRA_VBITELETEXT), (0x56, PID_EXTRA_TELETEXT),
     (0x59, PID_EXTRA_SUBTITLE), (0x6a, PID_AUDIO_AC3), (0x7a, PID_AUDIO_EAC3), (0x7b, PID_AUDIO_DTS), (0x7c, PID_AUDIO_AAC)]"

primrec first_descr :: "(u8 \<times> pid_type_t) list \<Rightarrow> u8 list \<Rightarrow> nat \<Rightarrow> nat \<Rightarrow> (pid_type_t \<times> nat) option option" where
  "first_descr [] b base len = Some None"
| "first_descr (x # xs) b base len = do {
     (l, p) \<leftarrow> pmt_find_descriptor (fst x) b base len 0;
     if 0 < l then Some (Some (snd x, p)) else first_descr xs b base len}"

text \<open>Three bytes as a C string.\<close>

definition language_of :: "u8 list \<Rightarrow> string" where
  "language_of xs = map (\<lambda>x. char_of (unat x)) (takeWhile (\<lambda>x. x \<noteq> 0) xs)"

definition read_language :: "u8 list \<Rightarrow> nat \<Rightarrow> string option" where
  "read_language b off = map_option language_of (mem_read b off 3)"

text \<open>The type of a stream and the language found so far; \<open>None\<close> inside: the stream is dropped.\<close>

definition stream_kind :: "u8 list \<Rightarrow> nat \<Rightarrow> pmt_info_t \<Rightarrow> (pid_type_t \<times> string) option option" where
  "stream_kind b base e =
     (case map_of stream_types (pmt_info_t.stream_type e) of Some t \<Rightarrow> Some (Some (t, ''---''))
      | None \<Rightarrow>
          if pmt_info_t.stream_type e \<in> {0x05, 0x06} \<and> ES_info_length e \<noteq> 0 then do {
            r \<leftarrow> first_descr (if pmt_info_t.stream_type e = 0x05 then section_descrs else private_descrs) b base (ES_info_length e);
            case r of None \<Rightarrow> Some None
            | Some (t, p) \<Rightarrow> if t = PID_EXTRA_SUBTITLE then do {
                 l \<leftarrow> read_language b (base + p + 2);
                 Some (Some (t, l))}
               else Some (Some (t, ''---''))}
          else Some None)"

text \<open>A kept stream is entered; the last place of the arrays is used again and again.\<close>

definition keep_stream :: "u8 list \<Rightarrow> nat \<Rightarrow> pmt_info_t \<Rightarrow> pid_type_t \<Rightarrow> string \<Rightarrow> pmt_pids \<Rightarrow> pmt_pids option" where
  "keep_stream b base e t l s = do {
     (n, p) \<leftarrow> pmt_find_descriptor 0x0a b base (ES_info_length e) 0;
     l \<leftarrow> (if 0 < n then read_language b (base + p + 2) else Some l);
     s \<leftarrow> put_pid (elementary_PID e) t (Some l) s;
     Some (if p_num s \<ge> MAX_PIDS then s\<lparr>p_num := p_num s - 1\<rparr> else s)}"

function read_streams :: "u8 list \<Rightarrow> nat \<Rightarrow> nat \<Rightarrow> pmt_pids \<Rightarrow> pmt_pids option" where
  "read_streams b section_len i s =
     (if i + (PMT_INFO_LEN + 4) \<le> section_len then
        (case struct_at PMT_INFO_LEN pmt_info_of b i of None \<Rightarrow> None
         | Some e \<Rightarrow> (case stream_kind b (i + PMT_INFO_LEN) e of None \<Rightarrow> None
            | Some k \<Rightarrow> (case (case k of None \<Rightarrow> Some s | Some (t, l) \<Rightarrow> keep_stream b (i + PMT_INFO_LEN) e t l s) of None \<Rightarrow> None
               | Some s \<Rightarrow> read_streams b section_len (i + (ES_info_length e + PMT_INFO_LEN)) s)))
      else Some s)"
  by pat_completeness auto
termination
  by (relation "measure (\<lambda>(b, section_len, i, s). section_len - i)") (auto simp: PMT_INFO_LEN_def)

declare read_streams.simps [simp del]

section \<open>The PMT\<close>

definition program_info_length :: "pmt_t \<Rightarrow> nat" where
  "program_info_length h = HILO (pmt_t.program_info_length_hi h) (pmt_t.program_info_length_lo h)"

text \<open>All languages are empty at first.\<close>

definition autoconf_get_pmt_pids ::
  "(int \<times> nat) list \<Rightarrow> mumudvb_ts_packet_t \<Rightarrow> nat list \<Rightarrow> pid_type_t list \<Rightarrow> nat list \<Rightarrow> pmt_pids option" where
  "autoconf_get_pmt_pids ss pmt ps ts ca = do {
     let b = data_full pmt;
     h \<leftarrow> struct_at PMT_LEN pmt_of b 0;
     let n = program_info_length h;
     acc \<leftarrow> (if n > 0 then ca_in_loop b PMT_LEN n 0 [] else Some []);
     acc \<leftarrow> ca_in_streams b (len_full pmt) (n + PMT_LEN) acc;
     s \<leftarrow> add_ca_pids ss b acc \<lparr>p_pids = ps, p_types = ts, p_langs = replicate MAX_PIDS [], p_num = 0, p_ca = ca\<rparr>;
     read_streams b (len_full pmt) (n + PMT_LEN) s}"

definition PCR_PID :: "pmt_t \<Rightarrow> nat" where
  "PCR_PID h = HILO (pmt_t.PCR_PID_hi h) (pmt_t.PCR_PID_lo h)"

text \<open>The PID of the clock is looked for in as many entries as the channel had PIDs before.\<close>

definition add_pcr :: "nat \<Rightarrow> nat \<Rightarrow> pmt_pids \<Rightarrow> pmt_pids option" where
  "add_pcr old pcr s = do {
     xs \<leftarrow> mem_read (p_pids s) 0 old;
     if pcr \<in> set xs then Some s else put_pid pcr PID_PCR (Some ''---'') s}"

text \<open>The entries are copied behind the first one, that of the PMT.\<close>

definition set_pids :: "pmt_pids \<Rightarrow> pid_i_t \<Rightarrow> pid_i_t option" where
  "set_pids s pi = do {
     ps \<leftarrow> mem_write (pids pi) 1 (take (p_num s) (p_pids s));
     ts \<leftarrow> mem_write (pids_type pi) 1 (take (p_num s) (p_types s));
     ls \<leftarrow> mem_write (pids_language pi) 1 (take (p_num s) (p_langs s));
     Some (pi\<lparr>pids := ps, pids_type := ts, pids_language := ls, num_pids := p_num s + 1\<rparr>)}"

text \<open>\<open>ps\<close> and \<open>ts\<close> are what the local arrays hold by chance.\<close>

definition autoconf_read_pmt ::
  "nat list \<Rightarrow> pid_type_t list \<Rightarrow> auto_p_t \<Rightarrow> mumudvb_channel_t \<Rightarrow> mumudvb_ts_packet_t \<Rightarrow> (bool \<times> mumudvb_channel_t) option" where
  "autoconf_read_pmt ps ts a ch pmt = do {
     h \<leftarrow> struct_at PMT_LEN pmt_of (data_full pmt) 0;
     if other_service ch (pmt_program_number h) then Some (False, ch)
     else do {
       ps \<leftarrow> wr ps 0 (mumudvb_ts_packet_t.pid pmt);
       s \<leftarrow> autoconf_get_pmt_pids (ca_system_list a) pmt ps ts (replicate 32 0);
       let ch = ch\<lparr>ca_sys_id := p_ca s, pid_i := (pid_i ch)\<lparr>pcr_pid := PCR_PID h\<rparr>\<rparr>;
       s \<leftarrow> add_pcr (num_pids (pid_i ch)) (PCR_PID h) s;
       if pid_f (pid_i ch) \<noteq> F_USER then do {
         pi \<leftarrow> set_pids s (pid_i ch);
         Some (True, ch\<lparr>pid_i := pi\<rparr>)}
       else Some (True, ch)}}"

section \<open>What a PMT announces\<close>

text \<open>A stream: the five bytes of its header, and its descriptors.\<close>

type_synonym stream = "u8 list \<times> descriptor list"

definition stream_bytes :: "stream \<Rightarrow> u8 list" where
  "stream_bytes e = fst e @ descrs_bytes (snd e)"

definition stream_head :: "stream \<Rightarrow> pmt_info_t" where
  "stream_head e = pmt_info_of (fst e)"

text \<open>Descriptors as the standard has them: those that are read are long enough.\<close>

definition pmt_descr_ok :: "descriptor \<Rightarrow> bool" where
  "pmt_descr_ok d \<longleftrightarrow> descr_ok d \<and> (fst d = 0x09 \<longrightarrow> 4 \<le> length (snd d)) \<and> (fst d \<in> {0x0a, 0x59} \<longrightarrow> 3 \<le> length (snd d))"

definition es_ok :: "stream \<Rightarrow> bool" where
  "es_ok e \<longleftrightarrow> length (fst e) = PMT_INFO_LEN \<and> ES_info_length (stream_head e) = length (descrs_bytes (snd e)) \<and>
     (\<forall>d \<in> set (snd e). pmt_descr_ok d)"

type_synonym entry = "nat \<times> pid_type_t \<times> string"

text \<open>One CA descriptor: its own PID, and that of the system unless it is there.\<close>

definition ca_entries :: "(int \<times> nat) list \<Rightarrow> entry list \<Rightarrow> descriptor \<Rightarrow> entry list" where
  "ca_entries ss xs d = (let (t, p) = ca_entry d; xs = xs @ [(p, PID_ECM, [])] in
     case autoconf_get_ca_system ss t of None \<Rightarrow> xs
     | Some (_, emm) \<Rightarrow> if emm \<in> fst ` set xs then xs else xs @ [(emm, PID_EMM, [])])"

definition ca_descrs :: "descriptor list \<Rightarrow> descriptor list" where
  "ca_descrs ds = filter (\<lambda>d. fst d = 0x09) ds"

text \<open>The language of the first descriptor of a tag.\<close>

definition descr_language :: "u8 \<Rightarrow> descriptor list \<Rightarrow> string option" where
  "descr_language tag ds = map_option (\<lambda>d. language_of (take 3 (snd d))) (find (\<lambda>d. fst d = tag) ds)"

definition stream_type_of :: "stream \<Rightarrow> pid_type_t option" where
  "stream_type_of e = (let st = pmt_info_t.stream_type (stream_head e) in
     case map_of stream_types st of Some t \<Rightarrow> Some t
     | None \<Rightarrow> if st = 0x05 \<or> st = 0x06 then
           map_option snd (find (\<lambda>x. has_descr (fst x) (snd e)) (if st = 0x05 then section_descrs else private_descrs))
         else None)"

text \<open>A stream that is kept: the language is that of the language descriptor, if there is one.\<close>

definition stream_entry :: "stream \<Rightarrow> entry option" where
  "stream_entry e = map_option (\<lambda>t. (elementary_PID (stream_head e), t,
     case descr_language 0x0a (snd e) of Some l \<Rightarrow> l
     | None \<Rightarrow> if t = PID_EXTRA_SUBTITLE then the (descr_language 0x59 (snd e)) else ''---'')) (stream_type_of e)"

definition pmt_entries :: "(int \<times> nat) list \<Rightarrow> descriptor list \<Rightarrow> stream list \<Rightarrow> entry list" where
  "pmt_entries ss ds es =
     foldl (ca_entries ss) [] (ca_descrs (ds @ concat (map snd es))) @ List.map_filter stream_entry es"

text \<open>A section: header, descriptors of the program, streams, CRC.\<close>

definition pmt_section :: "u8 list \<Rightarrow> descriptor list \<Rightarrow> stream list \<Rightarrow> bool" where
  "pmt_section s ds es \<longleftrightarrow> PMT_LEN \<le> length s \<and> program_info_length (pmt_of s) = length (descrs_bytes ds) \<and>
     (\<exists>crc. length crc = 4 \<and> drop PMT_LEN s = descrs_bytes ds @ concat (map stream_bytes es) @ crc) \<and>
     (\<forall>d \<in> set ds. pmt_descr_ok d) \<and> (\<forall>e \<in> set es. es_ok e)"

section \<open>The CA descriptors are found\<close>

definition descrs_at :: "u8 list \<Rightarrow> nat list \<Rightarrow> descriptor list \<Rightarrow> bool" where
  "descrs_at b ps ds \<longleftrightarrow> list_all2 (\<lambda>p d. holds_at b p (descr_bytes d)) ps ds"

lemma ca_in_loop_ok:
  "holds_at b (base + p) (descrs_bytes ds) \<Longrightarrow> \<forall>d \<in> set ds. pmt_descr_ok d \<Longrightarrow> len = p + length (descrs_bytes ds) \<Longrightarrow>
   length acc + length (ca_descrs ds) \<le> 255 \<Longrightarrow>
   \<exists>ps. ca_in_loop b base len p acc = Some (acc @ ps) \<and> descrs_at b ps (ca_descrs ds)"
proof (induction "length ds" arbitrary: ds p acc rule: less_induct)
  case less
  have ok: "\<forall>d \<in> set ds. descr_ok d" using less.prems(2) by (simp add: pmt_descr_ok_def)
  show ?case
  proof (cases "find (\<lambda>d. fst d = 9) ds")
    case None
    then have no: "\<forall>x \<in> set ds. fst x \<noteq> 9" by (auto simp: find_None_iff)
    then have "pmt_find_descriptor 9 b base len p = Some (0, len)"
      using less.prems ok by (intro pmt_find_descriptor_none) auto
    then show ?thesis using no by (subst ca_in_loop.simps) (simp add: descrs_at_def ca_descrs_def filter_empty_conv [THEN iffD2])
  next
    case (Some d)
    then obtain xs ys where ds: "ds = xs @ d # ys" "\<forall>x \<in> set xs. fst x \<noteq> 9" "fst d = 9" by (rule find_split)
    define q where "q = p + length (descrs_bytes xs)"
    have f: "pmt_find_descriptor 9 b base len p = Some (length (snd d) + 2, q)"
      using less.prems ok ds unfolding q_def by (intro pmt_find_descriptor_found [where es = ys]) auto
    have ca: "ca_descrs ds = d # ca_descrs ys" using ds by (simp add: ca_descrs_def filter_empty_conv [THEN iffD2])
    have h: "holds_at b (base + q) (descr_bytes d)" "holds_at b (base + (q + (length (snd d) + 2))) (descrs_bytes ys)"
      using less.prems(1) by (simp_all add: ds q_def add.assoc)
    have "\<exists>ps. ca_in_loop b base len (q + (length (snd d) + 2)) (acc @ [base + q]) = Some ((acc @ [base + q]) @ ps) \<and> descrs_at b ps (ca_descrs ys)"
      using less.prems h ca by (intro less.hyps) (auto simp: ds q_def)
    then obtain ps where "ca_in_loop b base len (q + (length (snd d) + 2)) (acc @ [base + q]) = Some ((acc @ [base + q]) @ ps)"
       "descrs_at b ps (ca_descrs ys)" by blast
    then show ?thesis
      using f less.prems(4) ca h(1)
      by (intro exI [of _ "(base + q) # ps"]) (simp add: ca_in_loop.simps [of b base len p] descrs_at_def)
  qed
qed

lemma es_parts:
  assumes "holds_at b i (stream_bytes e)" "es_ok e"
  shows "struct_at PMT_INFO_LEN pmt_info_of b i = Some (stream_head e)" "holds_at b (i + PMT_INFO_LEN) (descrs_bytes (snd e))"
    "length (stream_bytes e) = ES_info_length (stream_head e) + PMT_INFO_LEN"
proof -
  have h: "holds_at b i (fst e)" "holds_at b (i + PMT_INFO_LEN) (descrs_bytes (snd e))"
    using assms by (auto simp: stream_bytes_def es_ok_def)
  show "struct_at PMT_INFO_LEN pmt_info_of b i = Some (stream_head e)"
    unfolding stream_head_def using h(1) assms(2) by (intro pmt_info_s.at_holds) (simp_all add: es_ok_def)
  show "holds_at b (i + PMT_INFO_LEN) (descrs_bytes (snd e))" by (rule h)
  show "length (stream_bytes e) = ES_info_length (stream_head e) + PMT_INFO_LEN"
    using assms(2) by (simp add: stream_bytes_def es_ok_def)
qed

lemma ca_descrs_append [simp]: "ca_descrs (xs @ ys) = ca_descrs xs @ ca_descrs ys"
  by (simp add: ca_descrs_def)

lemma ca_in_streams_ok:
  "holds_at b i (concat (map stream_bytes es)) \<Longrightarrow> \<forall>e \<in> set es. es_ok e \<Longrightarrow>
   len = i + length (concat (map stream_bytes es)) + 4 \<Longrightarrow>
   length acc + length (ca_descrs (concat (map snd es))) \<le> 255 \<Longrightarrow>
   \<exists>ps. ca_in_streams b len i acc = Some (acc @ ps) \<and> descrs_at b ps (ca_descrs (concat (map snd es)))"
proof (induction es arbitrary: i acc)
  case Nil
  then show ?case by (subst ca_in_streams.simps) (simp add: PMT_INFO_LEN_def descrs_at_def ca_descrs_def)
next
  case (Cons e es)
  have h: "holds_at b i (stream_bytes e)" "es_ok e" using Cons.prems by simp_all
  note p = es_parts [OF h]
  define j where "j = i + (ES_info_length (stream_head e) + PMT_INFO_LEN)"
  have ok: "\<forall>d \<in> set (snd e). pmt_descr_ok d" "ES_info_length (stream_head e) = 0 + length (descrs_bytes (snd e))"
    using h(2) by (simp_all add: es_ok_def)
  obtain ps where ps: "ca_in_loop b (i + PMT_INFO_LEN) (ES_info_length (stream_head e)) 0 acc = Some (acc @ ps)"
      "descrs_at b ps (ca_descrs (snd e))"
    using ca_in_loop_ok [OF _ ok, of b "i + PMT_INFO_LEN" acc] p(2) Cons.prems(4) by auto
  have "length ps = length (ca_descrs (snd e))" using ps(2) by (simp add: descrs_at_def list_all2_lengthD)
  then have "\<exists>qs. ca_in_streams b len j (acc @ ps) = Some ((acc @ ps) @ qs) \<and> descrs_at b qs (ca_descrs (concat (map snd es)))"
    using Cons.prems p(3) by (intro Cons.IH) (auto simp: j_def)
  then obtain qs where qs: "ca_in_streams b len j (acc @ ps) = Some ((acc @ ps) @ qs)"
      "descrs_at b qs (ca_descrs (concat (map snd es)))" by blast
  have "i + (PMT_INFO_LEN + 4) \<le> len" using Cons.prems(3) p(3) by simp
  then have "ca_in_streams b len i acc = Some (acc @ (ps @ qs))"
    using p(1) ps(1) qs(1) by (subst ca_in_streams.simps) (simp add: j_def)
  then show ?case using ps(2) qs(2) by (auto simp: descrs_at_def intro: list_all2_appendI)
qed

section \<open>The entries\<close>

definition pp_wf :: "pmt_pids \<Rightarrow> bool" where
  "pp_wf s \<longleftrightarrow> length (p_pids s) = MAX_PIDS \<and> length (p_types s) = MAX_PIDS \<and> length (p_langs s) = MAX_PIDS"

definition entries :: "pmt_pids \<Rightarrow> entry list" where
  "entries s = map (\<lambda>k. (p_pids s ! k, p_types s ! k, p_langs s ! k)) [0..<p_num s]"

text \<open>The languages behind the last entry are still empty.\<close>

definition blank :: "pmt_pids \<Rightarrow> bool" where
  "blank s \<longleftrightarrow> (\<forall>k. p_num s \<le> k \<longrightarrow> k < MAX_PIDS \<longrightarrow> p_langs s ! k = [])"

lemma length_entries [simp]: "length (entries s) = p_num s"
  by (simp add: entries_def)

lemma take_pids: "pp_wf s \<Longrightarrow> k \<le> p_num s \<Longrightarrow> p_num s \<le> MAX_PIDS \<Longrightarrow> take k (p_pids s) = map fst (take k (entries s))"
  by (auto simp: pp_wf_def entries_def list_eq_iff_nth_eq)

lemma put_pid_ok:
  assumes "pp_wf s" "p_num s < MAX_PIDS"
  obtains s' where "put_pid p t l s = Some s'" "pp_wf s'" "p_num s' = p_num s + 1" "p_ca s' = p_ca s"
    "entries s' = entries s @ [(p, t, case l of None \<Rightarrow> p_langs s ! p_num s | Some x \<Rightarrow> x)]" "blank s \<Longrightarrow> blank s'"
proof -
  define ls where "ls = (case l of None \<Rightarrow> p_langs s | Some x \<Rightarrow> (p_langs s)[p_num s := x])"
  define s' where "s' = s\<lparr>p_pids := (p_pids s)[p_num s := p], p_types := (p_types s)[p_num s := t], p_langs := ls, p_num := p_num s + 1\<rparr>"
  have "put_pid p t l s = Some s'"
    using assms by (cases l) (simp_all add: put_pid_def s'_def ls_def wr_def pp_wf_def)
  moreover have "pp_wf s'" using assms by (cases l) (simp_all add: s'_def pp_wf_def ls_def)
  moreover have "p_num s' = p_num s + 1" "p_ca s' = p_ca s" by (simp_all add: s'_def)
  moreover have "entries s' = entries s @ [(p, t, case l of None \<Rightarrow> p_langs s ! p_num s | Some x \<Rightarrow> x)]"
    using assms by (cases l) (simp_all add: s'_def entries_def pp_wf_def ls_def)
  moreover have "blank s \<Longrightarrow> blank s'" by (cases l) (simp_all add: s'_def blank_def ls_def)
  ultimately show ?thesis by (rule that)
qed

lemma ca_entries_length: "length xs < length (ca_entries ss xs d)"
  by (auto simp: ca_entries_def Let_def split: prod.splits option.splits)

lemma foldl_ca_entries_length: "length xs + length ds \<le> length (foldl (ca_entries ss) xs ds)"
proof (induction ds arbitrary: xs)
  case (Cons d ds)
  show ?case using Cons.IH [of "ca_entries ss xs d"] ca_entries_length [of xs ss d] by simp
qed simp

lemma add_ca_pid_ok:
  assumes h: "holds_at b pos (descr_bytes d)" "fst d = 9" "pmt_descr_ok d"
    and s: "pp_wf s" "blank s" and n: "length (ca_entries ss (entries s) d) \<le> MAX_PIDS"
  shows "\<exists>s'. add_ca_pid ss b pos s = Some s' \<and> pp_wf s' \<and> blank s' \<and> entries s' = ca_entries ss (entries s) d"
proof -
  obtain x where x: "struct_at DESCR_CA_LEN descr_ca_of b pos = Some x" "(int (descr_CA_type x), descr_CA_PID x) = ca_entry d"
    using ca_entry_read [OF h(1,2)] h(2,3) by (auto simp: pmt_descr_ok_def)
  have ce: "ca_entry d = (int (descr_CA_type x), descr_CA_PID x)" using x(2) by simp
  have "p_num s < MAX_PIDS" using n ca_entries_length [of "entries s" ss d] by simp
  from put_pid_ok [OF s(1) this, of "descr_CA_PID x" PID_ECM "Some []"] obtain s1 where
    s1: "put_pid (descr_CA_PID x) PID_ECM (Some []) s = Some s1" "pp_wf s1" "p_num s1 = p_num s + 1"
      "entries s1 = entries s @ [(descr_CA_PID x, PID_ECM, [])]" "blank s1" using s(2) by auto
  define g where "g = autoconf_get_ca_system ss (int (descr_CA_type x))"
  have pids: "set (take (p_num s1) (p_pids s1)) = fst ` set (entries s1)"
    using take_pids [OF s1(2), of "p_num s1"] s1(3) \<open>p_num s < MAX_PIDS\<close> by simp
  have "\<exists>s2. (case g of None \<Rightarrow> Some s1 | Some (_, emm) \<Rightarrow>
      if emm \<in> set (take (p_num s1) (p_pids s1)) then Some s1 else put_pid emm PID_EMM None s1) = Some s2 \<and>
      pp_wf s2 \<and> blank s2 \<and> entries s2 = ca_entries ss (entries s) d"
  proof (cases "\<exists>i emm. g = Some (i, emm) \<and> emm \<notin> set (take (p_num s1) (p_pids s1))")
    case False
    then show ?thesis
      using s1 pids by (auto simp: ca_entries_def ce g_def [symmetric] split: option.splits)
  next
    case True
    then obtain i emm where g: "g = Some (i, emm)" "emm \<notin> set (take (p_num s1) (p_pids s1))" by blast
    then have ce2: "ca_entries ss (entries s) d = entries s1 @ [(emm, PID_EMM, [])]"
      using s1(4) pids by (simp add: ca_entries_def ce g_def [symmetric])
    then have "p_num s1 < MAX_PIDS" using n by simp
    from put_pid_ok [OF s1(2) this, of emm PID_EMM None] obtain s2 where
      s2: "put_pid emm PID_EMM None s1 = Some s2" "pp_wf s2" "entries s2 = entries s1 @ [(emm, PID_EMM, p_langs s1 ! p_num s1)]" "blank s2"
      using s1(5) by auto
    moreover have "p_langs s1 ! p_num s1 = []" using s1(5) \<open>p_num s1 < MAX_PIDS\<close> by (simp add: blank_def)
    ultimately show ?thesis using g ce2 by simp
  qed
  then obtain s2 where s2: "(case g of None \<Rightarrow> Some s1 | Some (_, emm) \<Rightarrow>
      if emm \<in> set (take (p_num s1) (p_pids s1)) then Some s1 else put_pid emm PID_EMM None s1) = Some s2"
      "pp_wf s2" "blank s2" "entries s2 = ca_entries ss (entries s) d" by blast
  then show ?thesis using x(1) s1(1)
    by (simp add: add_ca_pid_def g_def pp_wf_def blank_def entries_def)
qed

lemma add_ca_pids_ok:
  "descrs_at b ps ds \<Longrightarrow> \<forall>d \<in> set ds. fst d = 9 \<and> pmt_descr_ok d \<Longrightarrow> pp_wf s \<Longrightarrow> blank s \<Longrightarrow>
   length (foldl (ca_entries ss) (entries s) ds) \<le> MAX_PIDS \<Longrightarrow>
   \<exists>s'. add_ca_pids ss b ps s = Some s' \<and> pp_wf s' \<and> entries s' = foldl (ca_entries ss) (entries s) ds"
proof (induction ds arbitrary: ps s)
  case Nil
  then show ?case by (simp add: descrs_at_def)
next
  case (Cons d ds)
  then obtain p qs where ps: "ps = p # qs" "holds_at b p (descr_bytes d)" "descrs_at b qs ds"
    by (auto simp: descrs_at_def list_all2_Cons2)
  have "length (ca_entries ss (entries s) d) \<le> MAX_PIDS"
    using Cons.prems(5) foldl_ca_entries_length [of "ca_entries ss (entries s) d" ds ss] by simp
  then obtain s1 where s1: "add_ca_pid ss b p s = Some s1" "pp_wf s1" "blank s1" "entries s1 = ca_entries ss (entries s) d"
    using add_ca_pid_ok [OF ps(2) _ _ Cons.prems(3,4)] Cons.prems(2) by auto
  then show ?case using Cons.IH [OF ps(3) _ s1(2,3)] Cons.prems ps(1) by simp
qed

section \<open>The streams\<close>

lemma pos_iff: "0 < (n :: nat) \<longleftrightarrow> n \<noteq> 0"
  by simp

lemma first_descr_ok:
  assumes h: "holds_at b base (descrs_bytes ds)" and ok: "\<forall>d \<in> set ds. descr_ok d" and len: "len = length (descrs_bytes ds)"
  shows "\<exists>r. first_descr xs b base len = Some r \<and> map_option fst r = map_option snd (find (\<lambda>x. has_descr (fst x) ds) xs) \<and>
    (\<forall>x p d. find (\<lambda>x. has_descr (fst x) ds) xs = Some x \<longrightarrow> r = Some (snd x, p) \<longrightarrow> find (\<lambda>d. fst d = fst x) ds = Some d \<longrightarrow>
       holds_at b (base + p) (descr_bytes d))"
proof (induction xs)
  case (Cons x xs)
  obtain l p where f: "pmt_find_descriptor (fst x) b base len 0 = Some (l, p)" "l \<noteq> 0 \<longleftrightarrow> has_descr (fst x) ds"
      "\<And>d. find (\<lambda>d. fst d = fst x) ds = Some d \<Longrightarrow> holds_at b (base + p) (descr_bytes d)"
    using pmt_find_descriptor_list [OF h ok len] by metis
  show ?case
  proof (cases "has_descr (fst x) ds")
    case True
    then have "first_descr (x # xs) b base len = Some (Some (snd x, p))" using f(1,2) by simp
    then show ?thesis using True f(3) by simp
  next
    case False
    then have "first_descr (x # xs) b base len = first_descr xs b base len" using f(1,2) by simp
    then show ?thesis using False Cons by simp
  qed
qed simp

lemma read_language_ok:
  assumes "holds_at b off (descr_bytes d)" "3 \<le> length (snd d)"
  shows "read_language b (off + 2) = Some (language_of (take 3 (snd d)))"
proof -
  have "holds_at b (off + 2) (snd d)" using assms(1) by (simp add: descr_bytes_def holds_at_Cons)
  then have "holds_at b (off + 2) (take 3 (snd d) @ drop 3 (snd d))" by simp
  then have "holds_at b (off + 2) (take 3 (snd d))" by (simp only: holds_at_append)
  then show ?thesis using assms(2) by (simp add: read_language_def holds_at_def)
qed

lemma find_Some_has: "find (\<lambda>d. fst d = t) ds = Some d \<Longrightarrow> d \<in> set ds \<and> fst d = t"
  by (auto simp: find_Some_iff)

lemma has_descr_find: "has_descr t ds \<longleftrightarrow> (\<exists>d. find (\<lambda>d. fst d = t) ds = Some d)"
  by (cases "find (\<lambda>d. fst d = t) ds") (auto simp: has_descr_def find_None_iff find_Some_iff)

lemma private_subtitle:
  "find (\<lambda>x. has_descr (fst x) ds) (if st = 5 then section_descrs else private_descrs) = Some x \<Longrightarrow>
   (snd x = PID_EXTRA_SUBTITLE \<longleftrightarrow> fst x = 0x59) \<and> has_descr (fst x) ds"
  by (auto simp: section_descrs_def private_descrs_def split: if_splits)

text \<open>The type found and the language so far.\<close>

lemma stream_kind_ok:
  assumes h: "holds_at b base (descrs_bytes (snd e))" and e: "es_ok e"
  shows "stream_kind b base (stream_head e) = Some (map_option (\<lambda>t. (t,
     if t = PID_EXTRA_SUBTITLE then the (descr_language 0x59 (snd e)) else ''---'')) (stream_type_of e))"
proof (cases "map_of stream_types (pmt_info_t.stream_type (stream_head e))")
  case (Some t)
  then have "t \<noteq> PID_EXTRA_SUBTITLE" by (auto simp: stream_types_def split: if_splits)
  then show ?thesis using Some by (simp add: stream_kind_def stream_type_of_def)
next
  case None
  define st where "st = pmt_info_t.stream_type (stream_head e)"
  define xs where "xs = (if st = 5 then section_descrs else private_descrs)"
  have ok: "\<forall>d \<in> set (snd e). descr_ok d" and len: "ES_info_length (stream_head e) = length (descrs_bytes (snd e))"
    using e by (simp_all add: es_ok_def pmt_descr_ok_def)
  obtain r where r: "first_descr xs b base (ES_info_length (stream_head e)) = Some r"
      "map_option fst r = map_option snd (find (\<lambda>x. has_descr (fst x) (snd e)) xs)"
      "\<forall>x p d. find (\<lambda>x. has_descr (fst x) (snd e)) xs = Some x \<longrightarrow> r = Some (snd x, p) \<longrightarrow>
         find (\<lambda>d. fst d = fst x) (snd e) = Some d \<longrightarrow> holds_at b (base + p) (descr_bytes d)"
    using first_descr_ok [OF h ok len, of xs] by blast
  show ?thesis
  proof (cases "st = 5 \<or> st = 6")
    case False
    then show ?thesis using None by (simp add: stream_kind_def stream_type_of_def st_def)
  next
    case st: True
    show ?thesis
    proof (cases "find (\<lambda>x. has_descr (fst x) (snd e)) xs")
      case no: None
      then have "r = None" using r(2) by simp
      then show ?thesis using None st r(1) no by (auto simp: stream_kind_def stream_type_of_def st_def [symmetric] xs_def [symmetric] Let_def)
    next
      case (Some x)
      then obtain p where p: "r = Some (snd x, p)" using r(2) by auto
      have sub: "snd x = PID_EXTRA_SUBTITLE \<longleftrightarrow> fst x = 0x59" "has_descr (fst x) (snd e)"
        using private_subtitle [of "snd e" st x] Some by (simp_all add: xs_def)
      then obtain d where d: "find (\<lambda>d. fst d = fst x) (snd e) = Some d" by (auto simp: has_descr_find)
      then have hd: "holds_at b (base + p) (descr_bytes d)" using r(3) Some p by blast
      have "descrs_bytes (snd e) \<noteq> []" using d by (cases "snd e") (auto simp: descr_bytes_def)
      then have ne: "ES_info_length (stream_head e) \<noteq> 0" using len by simp
      have lang: "snd x = PID_EXTRA_SUBTITLE \<Longrightarrow> read_language b (base + p + 2) = Some (the (descr_language 0x59 (snd e)))"
        using read_language_ok [OF hd] find_Some_has [OF d] e sub(1) d by (auto simp: es_ok_def pmt_descr_ok_def descr_language_def)
      show ?thesis
        using None st r(1) p Some ne lang
        by (auto simp: stream_kind_def stream_type_of_def st_def [symmetric] xs_def [symmetric] Let_def)
    qed
  qed
qed

lemma keep_stream_ok:
  assumes h: "holds_at b base (descrs_bytes (snd e))" and e: "es_ok e" and s: "pp_wf s" "p_num s + 1 < MAX_PIDS"
  shows "\<exists>s'. keep_stream b base (stream_head e) t l s = Some s' \<and> pp_wf s' \<and>
    entries s' = entries s @ [(elementary_PID (stream_head e), t, case descr_language 0x0a (snd e) of None \<Rightarrow> l | Some x \<Rightarrow> x)]"
proof -
  have ok: "\<forall>d \<in> set (snd e). descr_ok d" and len: "ES_info_length (stream_head e) = length (descrs_bytes (snd e))"
    using e by (simp_all add: es_ok_def pmt_descr_ok_def)
  obtain n p where f: "pmt_find_descriptor 0x0a b base (ES_info_length (stream_head e)) 0 = Some (n, p)"
      "n \<noteq> 0 \<longleftrightarrow> has_descr 0x0a (snd e)" "\<And>d. find (\<lambda>d. fst d = 0x0a) (snd e) = Some d \<Longrightarrow> holds_at b (base + p) (descr_bytes d)"
    using pmt_find_descriptor_list [OF h ok len] by metis
  define l' where "l' = (case descr_language 0x0a (snd e) of None \<Rightarrow> l | Some x \<Rightarrow> x)"
  have lang: "(if 0 < n then read_language b (base + p + 2) else Some l) = Some l'"
  proof (cases "find (\<lambda>d. fst d = 0x0a) (snd e)")
    case None
    then have "n = 0" using f(2) has_descr_find [of "0x0a" "snd e"] by simp
    then show ?thesis by (simp add: l'_def descr_language_def None)
  next
    case (Some d)
    then have "3 \<le> length (snd d)" using find_Some_has [OF Some] e by (auto simp: es_ok_def pmt_descr_ok_def)
    then show ?thesis
      using read_language_ok [OF f(3) [OF Some]] f(2) Some has_descr_find [of "0x0a" "snd e"] by (auto simp: l'_def descr_language_def)
  qed
  have "p_num s < MAX_PIDS" using s(2) by simp
  from put_pid_ok [OF s(1) this, of "elementary_PID (stream_head e)" t "Some l'"] obtain s1 where
    "put_pid (elementary_PID (stream_head e)) t (Some l') s = Some s1" "pp_wf s1" "p_num s1 = p_num s + 1"
    "entries s1 = entries s @ [(elementary_PID (stream_head e), t, l')]" by auto
  then show ?thesis using f(1) lang s(2) by (simp add: keep_stream_def l'_def)
qed

lemma read_streams_ok:
  "holds_at b i (concat (map stream_bytes es)) \<Longrightarrow> \<forall>e \<in> set es. es_ok e \<Longrightarrow>
   len = i + length (concat (map stream_bytes es)) + 4 \<Longrightarrow> pp_wf s \<Longrightarrow>
   length (entries s @ List.map_filter stream_entry es) < MAX_PIDS \<Longrightarrow>
   \<exists>s'. read_streams b len i s = Some s' \<and> pp_wf s' \<and> entries s' = entries s @ List.map_filter stream_entry es"
proof (induction es arbitrary: i s)
  case Nil
  then show ?case by (subst read_streams.simps) (simp add: PMT_INFO_LEN_def)
next
  case (Cons e es)
  have h: "holds_at b i (stream_bytes e)" "es_ok e" using Cons.prems by simp_all
  note p = es_parts [OF h]
  define j where "j = i + (ES_info_length (stream_head e) + PMT_INFO_LEN)"
  have c: "i + (PMT_INFO_LEN + 4) \<le> len" using Cons.prems(3) p(3) by simp
  note k = stream_kind_ok [OF p(2) h(2)]
  have IH: "\<exists>s'. read_streams b len j s1 = Some s' \<and> pp_wf s' \<and> entries s' = entries s1 @ List.map_filter stream_entry es"
    if "pp_wf s1" "length (entries s1 @ List.map_filter stream_entry es) < MAX_PIDS" for s1
    using Cons.prems p(3) that by (intro Cons.IH) (auto simp: j_def)
  show ?case
  proof (cases "stream_type_of e")
    case None
    then have "read_streams b len i s = read_streams b len j s" "stream_entry e = None"
      using c p(1) k by (simp_all add: read_streams.simps [of b len i] j_def stream_entry_def)
    then show ?thesis using IH [of s] Cons.prems(4,5) by simp
  next
    case (Some t)
    define l where "l = (if t = PID_EXTRA_SUBTITLE then the (descr_language 0x59 (snd e)) else ''---'')"
    obtain x where x: "stream_entry e = Some x" using Some by (simp add: stream_entry_def)
    have "p_num s + 1 < MAX_PIDS" using Cons.prems(5) x by simp
    moreover have "x = (elementary_PID (stream_head e), t, case descr_language 0x0a (snd e) of None \<Rightarrow> l | Some x \<Rightarrow> x)"
      using x Some by (auto simp: stream_entry_def l_def split: option.splits)
    ultimately obtain s1 where s1: "keep_stream b (i + PMT_INFO_LEN) (stream_head e) t l s = Some s1" "pp_wf s1" "entries s1 = entries s @ [x]"
      using keep_stream_ok [OF p(2) h(2) Cons.prems(4), of t l] by auto
    have "read_streams b len i s = read_streams b len j s1"
      using c p(1) k Some s1(1) by (simp add: read_streams.simps [of b len i] j_def l_def)
    moreover have "length (entries s1 @ List.map_filter stream_entry es) < MAX_PIDS"
      using Cons.prems(5) x s1(3) by simp
    ultimately show ?thesis using IH [OF s1(2)] s1(3) x by simp
  qed
qed

section \<open>The PID table of the channel\<close>

lemma autoconf_get_pmt_pids_ok:
  assumes s: "pmt_section s ds es" "holds_at (data_full pmt) 0 s" "len_full pmt = length s"
    and l: "length ps = MAX_PIDS" "length ts = MAX_PIDS" "length (pmt_entries ss ds es) < MAX_PIDS"
  shows "\<exists>r. autoconf_get_pmt_pids ss pmt ps ts ca = Some r \<and> pp_wf r \<and> entries r = pmt_entries ss ds es"
proof -
  define b where "b = data_full pmt"
  define n where "n = length (descrs_bytes ds)"
  obtain crc where crc: "length crc = 4" "drop PMT_LEN s = descrs_bytes ds @ concat (map stream_bytes es) @ crc" "PMT_LEN \<le> length s"
     and n: "program_info_length (pmt_of s) = n" and ok: "\<forall>d \<in> set ds. pmt_descr_ok d" "\<forall>e \<in> set es. es_ok e"
    using s(1) by (auto simp: pmt_section_def n_def)
  have "take PMT_LEN s @ descrs_bytes ds @ concat (map stream_bytes es) @ crc = s" by (metis append_take_drop_id crc(2))
  then have "holds_at b 0 (take PMT_LEN s @ descrs_bytes ds @ concat (map stream_bytes es) @ crc)" using s(2) by (simp only: b_def)
  then have h: "holds_at b PMT_LEN (descrs_bytes ds)" "holds_at b (n + PMT_LEN) (concat (map stream_bytes es))"
    using crc(3) by (simp_all add: n_def add.commute)
  have "length s - PMT_LEN = n + length (concat (map stream_bytes es)) + 4"
    using arg_cong [OF crc(2), of length] crc(1) by (simp only: length_drop length_append n_def add.assoc)
  then have len: "length s = n + PMT_LEN + length (concat (map stream_bytes es)) + 4" using crc(3) by linarith
  have at: "struct_at PMT_LEN pmt_of b 0 = Some (pmt_of s)" unfolding b_def using s(2) crc(3) by (intro pmt_s.at_holds)
  define cas where "cas = ca_descrs (ds @ concat (map snd es))"
  have "length cas \<le> length (pmt_entries ss ds es)"
    using foldl_ca_entries_length [of "[]" cas ss] by (simp add: pmt_entries_def cas_def)
  then have nca: "length (ca_descrs ds) + length (ca_descrs (concat (map snd es))) \<le> 255"
    using l(3) by (simp add: cas_def mumu_sizes)
  obtain p1 where p1: "(if n > 0 then ca_in_loop b PMT_LEN n 0 [] else Some []) = Some p1" "descrs_at b p1 (ca_descrs ds)"
  proof (cases "n > 0")
    case True
    then show ?thesis using that ca_in_loop_ok [of b PMT_LEN 0 ds n "[]"] h(1) ok(1) nca by (auto simp: n_def)
  next
    case False
    then have "ds = []" by (cases ds) (auto simp: n_def)
    then show ?thesis using that False by (simp add: descrs_at_def ca_descrs_def)
  qed
  have "length p1 = length (ca_descrs ds)" using p1(2) by (simp add: descrs_at_def list_all2_lengthD)
  then obtain p2 where p2: "ca_in_streams b (length s) (n + PMT_LEN) p1 = Some (p1 @ p2)" "descrs_at b p2 (ca_descrs (concat (map snd es)))"
    using ca_in_streams_ok [OF h(2) ok(2) len, of p1] nca by auto
  have cas: "descrs_at b (p1 @ p2) cas" using p1(2) p2(2) by (auto simp: cas_def descrs_at_def intro: list_all2_appendI)
  define s0 where "s0 = \<lparr>p_pids = ps, p_types = ts, p_langs = replicate MAX_PIDS [], p_num = 0, p_ca = ca\<rparr>"
  have "pp_wf s0" "blank s0" "entries s0 = []" using l by (simp_all add: s0_def pp_wf_def blank_def entries_def)
  moreover have "\<forall>d \<in> set cas. fst d = 9 \<and> pmt_descr_ok d" using ok by (auto simp: cas_def ca_descrs_def es_ok_def)
  moreover have "length (foldl (ca_entries ss) [] cas) \<le> MAX_PIDS" using l(3) by (simp add: pmt_entries_def cas_def)
  ultimately obtain s1 where s1: "add_ca_pids ss b (p1 @ p2) s0 = Some s1" "pp_wf s1" "entries s1 = foldl (ca_entries ss) [] cas"
    using add_ca_pids_ok [OF cas, of s0 ss] by auto
  then obtain s2 where "read_streams b (length s) (n + PMT_LEN) s1 = Some s2" "pp_wf s2" "entries s2 = pmt_entries ss ds es"
    using read_streams_ok [OF h(2) ok(2) len s1(2)] l(3) by (auto simp: pmt_entries_def cas_def)
  then show ?thesis using at n p1(1) p2(1) s1(1) s(3)
    by (simp add: autoconf_get_pmt_pids_def b_def [symmetric] s0_def [symmetric])
qed

definition pid_entries :: "pid_i_t \<Rightarrow> entry list" where
  "pid_entries pi = map (\<lambda>k. (pids pi ! k, pids_type pi ! k, pids_language pi ! k)) [0..<num_pids pi]"

lemma pid_table_entries: "pid_i_wf pi \<Longrightarrow> pid_table pi = map fst (pid_entries pi)"
  by (auto simp: pid_table_def pid_entries_def pid_i_wf_def list_eq_iff_nth_eq)

text \<open>The first \<open>n\<close> elements of \<open>ys\<close> behind the first one of \<open>xs\<close>.\<close>

definition behind_first :: "nat \<Rightarrow> 'a list \<Rightarrow> 'a list \<Rightarrow> 'a list" where
  "behind_first n xs ys = take 1 xs @ take n ys @ drop (1 + n) xs"

lemma behind_first_ok:
  assumes "length xs = MAX_PIDS" "length ys = MAX_PIDS" "n < MAX_PIDS"
  shows "mem_write xs 1 (take n ys) = Some (behind_first n xs ys)" "length (behind_first n xs ys) = MAX_PIDS"
    "behind_first n xs ys ! 0 = xs ! 0" "k < n \<Longrightarrow> behind_first n xs ys ! (Suc k) = ys ! k"
  using assms by (auto simp: mem_write_def behind_first_def nth_append min_def)

lemma set_pids_ok:
  assumes "pp_wf s" "p_num s < MAX_PIDS" "pid_i_wf pi"
  shows "\<exists>pi'. set_pids s pi = Some pi' \<and> pid_i_wf pi' \<and> pmt_pid pi' = pmt_pid pi \<and>
    pid_entries pi' = (pids pi ! 0, pids_type pi ! 0, pids_language pi ! 0) # entries s"
proof -
  note l = assms(1,3) [unfolded pp_wf_def pid_i_wf_def]
  note up = behind_first_ok [OF _ _ assms(2)]
  define pi' where "pi' = pi\<lparr>pids := behind_first (p_num s) (pids pi) (p_pids s),
     pids_type := behind_first (p_num s) (pids_type pi) (p_types s),
     pids_language := behind_first (p_num s) (pids_language pi) (p_langs s), num_pids := p_num s + 1\<rparr>"
  have "set_pids s pi = Some pi'" using l by (simp add: set_pids_def pi'_def up(1) [unfolded One_nat_def])
  moreover have "pid_i_wf pi'" using l assms(2) by (simp add: pi'_def pid_i_wf_def up(2))
  moreover have "pid_entries pi' = (pids pi ! 0, pids_type pi ! 0, pids_language pi ! 0) # entries s"
  proof (rule nth_equalityI)
    fix k assume "k < length (pid_entries pi')"
    then show "pid_entries pi' ! k = ((pids pi ! 0, pids_type pi ! 0, pids_language pi ! 0) # entries s) ! k"
      using l by (cases k) (simp_all add: pid_entries_def entries_def pi'_def up(3,4) nth_append del: upt_Suc)
  qed (simp add: pid_entries_def pi'_def)
  ultimately show ?thesis by (simp add: pi'_def)
qed

lemma mem_read_0: "n \<le> length xs \<Longrightarrow> mem_read xs 0 n = Some (take n xs)"
  by (simp add: mem_read_def)

definition pcr_entry :: "u8 list \<Rightarrow> entry" where
  "pcr_entry s = (PCR_PID (pmt_of s), PID_PCR, ''---'')"

text \<open>What a PMT, held by the packet of the channel, needs to be read.\<close>

definition pmt_readable :: "auto_p_t \<Rightarrow> mumudvb_channel_t \<Rightarrow> mumudvb_ts_packet_t \<Rightarrow> u8 list \<Rightarrow> descriptor list \<Rightarrow> stream list \<Rightarrow> bool" where
  "pmt_readable a ch pmt s ds es \<longleftrightarrow> pmt_section s ds es \<and> holds_at (data_full pmt) 0 s \<and> len_full pmt = length s \<and>
     pid_i_wf (pid_i ch) \<and> pid_f (pid_i ch) \<noteq> F_USER \<and> \<not> other_service ch (pmt_program_number (pmt_of s)) \<and>
     length (pmt_entries (ca_system_list a) ds es) < MAX_PIDS"

lemma autoconf_read_pmt_runs:
  assumes r: "pmt_readable a ch pmt s ds es" and l: "length ps = MAX_PIDS" "length ts = MAX_PIDS"
  defines "E \<equiv> pmt_entries (ca_system_list a) ds es"
  obtains t c where "pp_wf t" "entries t = E"
    "autoconf_read_pmt ps ts a ch pmt = (do {
       t \<leftarrow> add_pcr (num_pids (pid_i ch)) (PCR_PID (pmt_of s)) t;
       pi \<leftarrow> set_pids t (pid_i c);
       Some (True, c\<lparr>pid_i := pi\<rparr>)})"
    "pid_i c = (pid_i ch)\<lparr>pcr_pid := PCR_PID (pmt_of s)\<rparr>"
proof -
  have p: "pmt_section s ds es" "holds_at (data_full pmt) 0 s" "len_full pmt = length s" "pid_f (pid_i ch) \<noteq> F_USER"
      "\<not> other_service ch (pmt_program_number (pmt_of s))" "length E < MAX_PIDS"
    using r by (simp_all add: pmt_readable_def E_def)
  have at: "struct_at PMT_LEN pmt_of (data_full pmt) 0 = Some (pmt_of s)"
    using p(1,2) by (intro pmt_s.at_holds) (simp_all add: pmt_section_def)
  define qs where "qs = ps[0 := mumudvb_ts_packet_t.pid pmt]"
  have wr: "wr ps 0 (mumudvb_ts_packet_t.pid pmt) = Some qs" "length qs = MAX_PIDS" using l by (simp_all add: wr_def qs_def mumu_sizes)
  obtain t where t: "autoconf_get_pmt_pids (ca_system_list a) pmt qs ts (replicate 32 0) = Some t" "pp_wf t" "entries t = E"
    using autoconf_get_pmt_pids_ok [OF p(1-3) wr(2) l(2), of "ca_system_list a"] p(6) by (auto simp: E_def)
  define c where "c = ch\<lparr>ca_sys_id := p_ca t, pid_i := (pid_i ch)\<lparr>pcr_pid := PCR_PID (pmt_of s)\<rparr>\<rparr>"
  have "autoconf_read_pmt ps ts a ch pmt = (do {
       t \<leftarrow> add_pcr (num_pids (pid_i ch)) (PCR_PID (pmt_of s)) t;
       pi \<leftarrow> set_pids t (pid_i c);
       Some (True, c\<lparr>pid_i := pi\<rparr>)})"
    using at p(4,5) wr t(1) by (simp add: autoconf_read_pmt_def c_def)
  moreover have "pid_i c = (pid_i ch)\<lparr>pcr_pid := PCR_PID (pmt_of s)\<rparr>" by (simp add: c_def)
  ultimately show ?thesis by (rule that [OF t(2,3)])
qed

lemma add_pcr_ok:
  assumes "pp_wf t" "p_num t < MAX_PIDS" "old \<le> MAX_PIDS"
  shows "\<exists>t'. add_pcr old pcr t = Some t' \<and> pp_wf t' \<and> (entries t' = entries t \<or> entries t' = entries t @ [(pcr, PID_PCR, ''---'')]) \<and>
    (old \<le> p_num t \<longrightarrow> entries t' = entries t @ (if pcr \<in> fst ` set (take old (entries t)) then [] else [(pcr, PID_PCR, ''---'')]))"
proof -
  from put_pid_ok [OF assms(1,2), of pcr PID_PCR "Some ''---''"] obtain t1 where
    t1: "put_pid pcr PID_PCR (Some ''---'') t = Some t1" "pp_wf t1" "entries t1 = entries t @ [(pcr, PID_PCR, ''---'')]" by auto
  have "mem_read (p_pids t) 0 old = Some (take old (p_pids t))" using assms(1,3) by (simp add: pp_wf_def mem_read_0)
  moreover have "old \<le> p_num t \<Longrightarrow> set (take old (p_pids t)) = fst ` set (take old (entries t))"
    using take_pids [OF assms(1)] assms(2) by simp
  ultimately show ?thesis using t1 assms(1) by (auto simp: add_pcr_def)
qed

text \<open>The table that results: the entry of the PMT, what the PMT announces, and the PID of the clock.\<close>

lemma autoconf_read_pmt_spec:
  assumes r: "pmt_readable a ch pmt s ds es" and l: "length ps = MAX_PIDS" "length ts = MAX_PIDS"
  defines "E \<equiv> pmt_entries (ca_system_list a) ds es"
  assumes n: "length E + 1 < MAX_PIDS"
  obtains ch' T where "autoconf_read_pmt ps ts a ch pmt = Some (True, ch')" "pid_i_wf (pid_i ch')"
    "pid_entries (pid_i ch') = (pids (pid_i ch) ! 0, pids_type (pid_i ch) ! 0, pids_language (pid_i ch) ! 0) # T"
    "pmt_pid (pid_i ch') = pmt_pid (pid_i ch)" "T = E \<or> T = E @ [pcr_entry s]"
    "num_pids (pid_i ch) \<le> length E \<Longrightarrow> T = E @ (if PCR_PID (pmt_of s) \<in> fst ` set (take (num_pids (pid_i ch)) E) then [] else [pcr_entry s])"
proof -
  obtain t c where t: "pp_wf t" "entries t = E" and c: "pid_i c = (pid_i ch)\<lparr>pcr_pid := PCR_PID (pmt_of s)\<rparr>"
    and run: "autoconf_read_pmt ps ts a ch pmt = (do {
       t \<leftarrow> add_pcr (num_pids (pid_i ch)) (PCR_PID (pmt_of s)) t;
       pi \<leftarrow> set_pids t (pid_i c);
       Some (True, c\<lparr>pid_i := pi\<rparr>)})"
    using autoconf_read_pmt_runs [OF r l] unfolding E_def by metis
  have wf: "pid_i_wf (pid_i ch)" using r by (simp add: pmt_readable_def)
  have pe: "p_num t = length E" using length_entries [of t] t(2) by simp
  have pn: "p_num t < MAX_PIDS" "num_pids (pid_i ch) \<le> MAX_PIDS" using n t(2) wf length_entries [of t] by (simp_all add: pid_i_wf_def)
  obtain t' where t': "add_pcr (num_pids (pid_i ch)) (PCR_PID (pmt_of s)) t = Some t'" "pp_wf t'"
     "entries t' = E \<or> entries t' = E @ [pcr_entry s]"
     "num_pids (pid_i ch) \<le> length E \<Longrightarrow> entries t' = E @ (if PCR_PID (pmt_of s) \<in> fst ` set (take (num_pids (pid_i ch)) E) then [] else [pcr_entry s])"
    using add_pcr_ok [OF t(1) pn, of "PCR_PID (pmt_of s)", folded pcr_entry_def] unfolding t(2) pe by blast
  have "length (entries t') \<le> length E + 1" by (rule disjE [OF t'(3)]) (simp_all del: length_entries)
  then have "p_num t' < MAX_PIDS" using n by simp
  moreover have "pid_i_wf (pid_i c)" using wf by (simp add: c pid_i_wf_def)
  ultimately obtain pi' where pi': "set_pids t' (pid_i c) = Some pi'" "pid_i_wf pi'" "pmt_pid pi' = pmt_pid (pid_i c)"
      "pid_entries pi' = (pids (pid_i c) ! 0, pids_type (pid_i c) ! 0, pids_language (pid_i c) ! 0) # entries t'"
    using set_pids_ok [OF t'(2)] by blast
  have "autoconf_read_pmt ps ts a ch pmt = Some (True, c\<lparr>pid_i := pi'\<rparr>)" using run t'(1) pi'(1) by simp
  then show ?thesis by (rule that [of _ "entries t'"]) (use pi' t'(3,4) in \<open>simp_all add: c\<close>)
qed

text \<open>
  C27. A PMT of a service, with any descriptors and streams of the forms the standard has and room for its PIDs, read for a
  channel that had not more PIDs than it announces: whatever the local arrays held, the PID table is afterwards the entry
  of the PMT, then for every CA descriptor its PID and once that of its system, then the streams that are kept, with the type
  their stream type or descriptors say and the language of the language descriptor, and at last the PID of the clock, unless it
  is among as many of these entries as the channel had PIDs before.
\<close>

theorem autoconf_read_pmt_table:
  assumes "pmt_readable a ch pmt s ds es" "length ps = MAX_PIDS" "length ts = MAX_PIDS"
  defines "E \<equiv> pmt_entries (ca_system_list a) ds es"
  assumes "length E + 1 < MAX_PIDS" "num_pids (pid_i ch) \<le> length E"
  shows "\<exists>ch'. autoconf_read_pmt ps ts a ch pmt = Some (True, ch') \<and> pid_i_wf (pid_i ch') \<and>
    pid_entries (pid_i ch') = (pids (pid_i ch) ! 0, pids_type (pid_i ch) ! 0, pids_language (pid_i ch) ! 0) #
      E @ (if PCR_PID (pmt_of s) \<in> fst ` set (take (num_pids (pid_i ch)) E) then [] else [pcr_entry s])"
  using autoconf_read_pmt_spec [OF assms(1-3) assms(5) [unfolded E_def]] assms(6) unfolding E_def by metis

text \<open>
  Error: after the PAT only the PMT is in the table, so the PID of the clock is compared with the first entry only. When
  the clock comes with another stream its PID is in the table twice.
\<close>

theorem autoconf_read_pmt_pcr_twice:
  assumes "pmt_readable a ch pmt s ds es" "length ps = MAX_PIDS" "length ts = MAX_PIDS"
  defines "E \<equiv> pmt_entries (ca_system_list a) ds es"
  assumes "length E + 1 < MAX_PIDS" "num_pids (pid_i ch) = 1"
    and "0 < k" "k < length E" "fst (E ! k) = PCR_PID (pmt_of s)" "fst (E ! 0) \<noteq> PCR_PID (pmt_of s)"
  shows "\<exists>ch'. autoconf_read_pmt ps ts a ch pmt = Some (True, ch') \<and> \<not> distinct (pid_table (pid_i ch'))"
proof -
  obtain ch' T where ch': "autoconf_read_pmt ps ts a ch pmt = Some (True, ch')" "pid_i_wf (pid_i ch')"
    "pid_entries (pid_i ch') = (pids (pid_i ch) ! 0, pids_type (pid_i ch) ! 0, pids_language (pid_i ch) ! 0) # T"
    "T = E @ (if PCR_PID (pmt_of s) \<in> fst ` set (take (num_pids (pid_i ch)) E) then [] else [pcr_entry s])"
    using autoconf_read_pmt_spec [OF assms(1-3) assms(5) [unfolded E_def]] assms(6,8) unfolding E_def
    by (metis One_nat_def Suc_leI gr_implies_not0 not_gr_zero)
  have "take 1 E = [E ! 0]" using assms(8) by (cases E) auto
  then have "T = E @ [pcr_entry s]" using ch'(4) assms(6,10) by auto
  moreover have "PCR_PID (pmt_of s) \<in> set (map fst E)" 
    unfolding set_map by (rule image_eqI [of _ fst "E ! k"]) (use assms(8,9) in simp_all)
  ultimately show ?thesis using ch' by (auto simp: pid_table_entries pcr_entry_def)
qed

text \<open>
  Error: when the PAT moves the PMT of a service to another PID, reading the PMT throws the new PID out of the PID table again:
  its entry was added at the end, and the PMT is written over everything but the first entry, which is that of the
  old PID. So the channel neither asks the card for its PMT nor streams it.
\<close>

theorem autoconf_pmt_pid_lost:
  assumes "pid_i_wf (pid_i ch)" "pmt_pid_f (pid_i ch) \<noteq> F_USER" "0 < num_pids (pid_i ch)" "num_pids (pid_i ch) < MAX_PIDS"
    and "q \<notin> set (pid_table (pid_i ch))" "pat_set_pmt ok q ch = Some (0, c)"
    and "pmt_readable a c pmt s ds es" "length ps = MAX_PIDS" "length ts = MAX_PIDS"
  defines "E \<equiv> pmt_entries (ca_system_list a) ds es"
  assumes "length E + 1 < MAX_PIDS" "q \<notin> fst ` set E" "q \<noteq> PCR_PID (pmt_of s)"
  shows "pmt_pid (pid_i c) = q \<and> q \<in> set (pid_table (pid_i c)) \<and>
    (\<exists>c'. autoconf_read_pmt ps ts a c pmt = Some (True, c') \<and> pmt_pid (pid_i c') = q \<and> q \<notin> set (pid_table (pid_i c')))"
proof -
  from set_pmt_pid_new [OF assms(1,5,4)] obtain pi where
    pi: "set_pmt_pid q (pid_i ch) = Some pi" "pid_table pi = pid_table (pid_i ch) @ [q]" "pmt_pid pi = q" "pid_i_wf pi" by blast
  have c: "pid_i c = pi" using assms(2,6) pi(1) by (auto simp: pat_set_pmt_def Let_def split: if_splits)
  have "pids pi ! 0 = pids (pid_i ch) ! 0"
  proof -
    have "pid_table pi ! 0 = pid_table (pid_i ch) ! 0" using pi(2) assms(3) assms(1) by (simp add: pid_table_def nth_append pid_i_wf_def)
    moreover have "0 < num_pids pi" using pi(2,4) by (cases "num_pids pi") (auto simp: pid_table_def)
    ultimately show ?thesis using assms(3) by (simp add: pid_table_def)
  qed
  moreover have "pids (pid_i ch) ! 0 \<in> set (pid_table (pid_i ch))"
    using assms(1,3,4) by (auto simp: pid_table_def pid_i_wf_def in_set_conv_nth intro!: exI [of _ 0])
  ultimately have first: "pids (pid_i c) ! 0 \<noteq> q" using assms(5) c by auto
  obtain c' T where c': "autoconf_read_pmt ps ts a c pmt = Some (True, c')" "pid_i_wf (pid_i c')"
    "pid_entries (pid_i c') = (pids (pid_i c) ! 0, pids_type (pid_i c) ! 0, pids_language (pid_i c) ! 0) # T"
    "pmt_pid (pid_i c') = pmt_pid (pid_i c)" "T = E \<or> T = E @ [pcr_entry s]"
    using autoconf_read_pmt_spec [OF assms(7-9) assms(11) [unfolded E_def]] unfolding E_def by metis
  have "q \<notin> fst ` set T" using c'(5) assms(12,13) by (auto simp: pcr_entry_def)
  then have "q \<notin> set (pid_table (pid_i c'))" using c'(2,3) first by (auto simp: pid_table_entries)
  then show ?thesis using c' c pi by simp
qed

text \<open>
  Out of bounds: a PMT with 127 entries, none of them the PID of the clock, which the test for too many PIDs lets pass, makes
  the copy into the PID table of the channel write behind its end.
\<close>

theorem autoconf_read_pmt_overflow:
  assumes "pmt_readable a ch pmt s ds es" "length ps = MAX_PIDS" "length ts = MAX_PIDS"
  defines "E \<equiv> pmt_entries (ca_system_list a) ds es"
  assumes "length E + 1 = MAX_PIDS" "num_pids (pid_i ch) \<le> length E" "PCR_PID (pmt_of s) \<notin> fst ` set E"
  shows "autoconf_read_pmt ps ts a ch pmt = None"
proof -
  obtain t c where t: "pp_wf t" "entries t = E" and c: "pid_i c = (pid_i ch)\<lparr>pcr_pid := PCR_PID (pmt_of s)\<rparr>"
    and run: "autoconf_read_pmt ps ts a ch pmt = (do {
       t \<leftarrow> add_pcr (num_pids (pid_i ch)) (PCR_PID (pmt_of s)) t;
       pi \<leftarrow> set_pids t (pid_i c);
       Some (True, c\<lparr>pid_i := pi\<rparr>)})"
    using autoconf_read_pmt_runs [OF assms(1-3)] unfolding E_def by metis
  have wf: "pid_i_wf (pid_i ch)" using assms(1) by (simp add: pmt_readable_def)
  have pn: "p_num t < MAX_PIDS" "num_pids (pid_i ch) \<le> p_num t" "num_pids (pid_i ch) \<le> MAX_PIDS"
    using assms(5,6) t(2) length_entries [of t] by simp_all
  have "PCR_PID (pmt_of s) \<notin> fst ` set (take (num_pids (pid_i ch)) E)" using assms(7) by (auto dest: in_set_takeD)
  then obtain t' where t': "add_pcr (num_pids (pid_i ch)) (PCR_PID (pmt_of s)) t = Some t'" "pp_wf t'" "entries t' = E @ [pcr_entry s]"
    using add_pcr_ok [OF t(1) pn(1,3), of "PCR_PID (pmt_of s)"] pn(2) t(2) by (auto simp: pcr_entry_def)
  then have "p_num t' = MAX_PIDS" using assms(5) length_entries [of t'] by simp
  then have "set_pids t' (pid_i c) = None"
    using t'(2) wf by (simp add: set_pids_def mem_write_def pp_wf_def pid_i_wf_def c)
  then show ?thesis using run t'(1) by simp
qed

section \<open>Witnesses\<close>

text \<open>Video streams with the PIDs from 256 on.\<close>

definition sample_stream :: "nat \<Rightarrow> stream" where
  "sample_stream k = ([2, 0xe1, of_nat k, 0xf0, 0], [])"

definition sample_streams_pmt :: "u8 \<Rightarrow> nat list \<Rightarrow> u8 list" where
  "sample_streams_pmt c ks = [2, 0xb0, 0, 0, 7, 0xc3, 0, 0, 0xe1, c, 0xf0, 0] @ concat (map (stream_bytes \<circ> sample_stream) ks) @ [0, 0, 0, 0]"

definition sample_pmt_pkt :: "u8 \<Rightarrow> nat list \<Rightarrow> mumudvb_ts_packet_t" where
  "sample_pmt_pkt c ks = empty_ts_packet\<lparr>len_full := length (sample_streams_pmt c ks), data_full := sample_streams_pmt c ks\<rparr>"

definition sample_old_chan :: mumudvb_channel_t where
  "sample_old_chan = zero_channel\<lparr>pid_i := zero_pid_i\<lparr>num_pids := 1\<rparr>\<rparr>"

lemma sample_stream_ok: "es_ok (sample_stream k)"
  by (simp add: es_ok_def sample_stream_def stream_head_def PMT_INFO_LEN_def pmt_info_of_def ES_info_length_def bf_get_def HILO_eq)

lemma sample_stream_entry: "k < 256 \<Longrightarrow> stream_entry (sample_stream k) = Some (256 + k, PID_VIDEO_MPEG2, ''---'')"
  by (simp add: stream_entry_def stream_type_of_def sample_stream_def stream_head_def pmt_info_of_def stream_types_def
      descr_language_def elementary_PID_def HILO_eq bf_get_def unat_small)

lemma sample_entries:
  assumes "\<forall>k \<in> set ks. k < 256"
  shows "pmt_entries ss [] (map sample_stream ks) = map (\<lambda>k. (256 + k, PID_VIDEO_MPEG2, ''---'')) ks"
proof -
  have "concat (map (snd \<circ> sample_stream) ks) = []" by (simp add: sample_stream_def)
  moreover have "List.map_filter stream_entry (map sample_stream ks) = map (\<lambda>k. (256 + k, PID_VIDEO_MPEG2, ''---'')) ks"
    using assms by (induction ks) (simp_all add: sample_stream_entry)
  ultimately show ?thesis by (simp add: pmt_entries_def ca_descrs_def del: concat_eq_Nil_conv)
qed

lemma sample_pmt_of [simp]:
  "PCR_PID (pmt_of (sample_streams_pmt c ks)) = 256 + unat c" "program_info_length (pmt_of (sample_streams_pmt c ks)) = 0"
  "pmt_program_number (pmt_of (sample_streams_pmt c ks)) = 7"
  by (simp_all add: sample_streams_pmt_def pmt_of_def PCR_PID_def program_info_length_def pmt_program_number_def HILO_eq bf_get_def)

lemma sample_pmt_readable:
  assumes "\<forall>k \<in> set ks. k < 256" "length ks < MAX_PIDS" "pid_i_wf (pid_i ch)" "pid_f (pid_i ch) \<noteq> F_USER"
    "mumudvb_channel_t.service_id ch = 0"
  shows "pmt_readable a ch (sample_pmt_pkt c ks) (sample_streams_pmt c ks) [] (map sample_stream ks)"
proof -
  have "pmt_section (sample_streams_pmt c ks) [] (map sample_stream ks)"
    by (simp add: pmt_section_def sample_stream_ok) (simp add: sample_streams_pmt_def PMT_LEN_def)
  then show ?thesis using assms
    by (simp add: pmt_readable_def sample_entries sample_pmt_pkt_def other_service_def holds_at_iff)
qed

lemma sample_old_wf: "pid_i_wf (pid_i sample_old_chan)" "pid_f (pid_i sample_old_chan) \<noteq> F_USER"
    "mumudvb_channel_t.service_id sample_old_chan = 0" "num_pids (pid_i sample_old_chan) = 1"
  by (simp_all add: sample_old_chan_def zero_channel_def zero_pid_i_def pid_i_wf_def MAX_PIDS_def)

theorem autoconf_read_pmt_table_witness:
  "\<exists>ch'. autoconf_read_pmt (replicate MAX_PIDS 9) (replicate MAX_PIDS PID_ECM) init_aconf_v sample_old_chan (sample_pmt_pkt 1 [1, 2]) = Some (True, ch') \<and>
     map fst (pid_entries (pid_i ch')) = [0, 257, 258]"
proof -
  have "\<exists>ch'. autoconf_read_pmt (replicate MAX_PIDS 9) (replicate MAX_PIDS PID_ECM) init_aconf_v sample_old_chan (sample_pmt_pkt 1 [1, 2]) = Some (True, ch') \<and>
     pid_i_wf (pid_i ch') \<and> pid_entries (pid_i ch') = (pids (pid_i sample_old_chan) ! 0, pids_type (pid_i sample_old_chan) ! 0, pids_language (pid_i sample_old_chan) ! 0) #
      [(257, PID_VIDEO_MPEG2, ''---''), (258, PID_VIDEO_MPEG2, ''---'')]"
    using autoconf_read_pmt_table [OF sample_pmt_readable [of "[1, 2]" sample_old_chan init_aconf_v 1],
        of "replicate MAX_PIDS 9" "replicate MAX_PIDS PID_ECM"] sample_old_wf sample_entries [of "[1, 2]" "ca_system_list init_aconf_v"]
    by (simp add: mumu_sizes)
  then show ?thesis by (auto simp: sample_old_chan_def zero_pid_i_def mumu_sizes)
qed

theorem autoconf_read_pmt_pcr_twice_witness:
  "\<exists>ch'. autoconf_read_pmt (replicate MAX_PIDS 9) (replicate MAX_PIDS PID_ECM) init_aconf_v sample_old_chan (sample_pmt_pkt 2 [1, 2]) = Some (True, ch') \<and>
     \<not> distinct (pid_table (pid_i ch'))"
  using sample_old_wf sample_entries [of "[1, 2]" "ca_system_list init_aconf_v"]
  by (intro autoconf_read_pmt_pcr_twice [where s = "sample_streams_pmt 2 [1, 2]" and ds = "[]" and es = "map sample_stream [1, 2]" and k = 1]
      sample_pmt_readable) (simp_all add: mumu_sizes)

theorem autoconf_pmt_pid_lost_witness:
  "\<exists>c c'. pat_set_pmt True 512 sample_old_chan = Some (0, c) \<and>
     autoconf_read_pmt (replicate MAX_PIDS 9) (replicate MAX_PIDS PID_ECM) init_aconf_v c (sample_pmt_pkt 1 [1, 2]) = Some (True, c') \<and>
     512 \<in> set (pid_table (pid_i c)) \<and> 512 \<notin> set (pid_table (pid_i c'))"
proof -
  have t: "pid_table (pid_i sample_old_chan) = [0]" "pmt_pid_f (pid_i sample_old_chan) \<noteq> F_USER"
    by (simp_all add: sample_old_chan_def pid_table_def zero_pid_i_def mumu_sizes)
  obtain pi where pi: "set_pmt_pid 512 (pid_i sample_old_chan) = Some pi" "pid_i_wf pi"
    using set_pmt_pid_new [OF sample_old_wf(1), of 512] t(1) sample_old_wf(4) by (auto simp: mumu_sizes)
  have f: "pid_f pi = F_UNDEF" using pi(1)
    by (auto simp: set_pmt_pid_def Let_def wr_def sample_old_chan_def zero_pid_i_def split: Option.bind_splits if_splits)
  define c where "c = sample_old_chan\<lparr>pid_i := pi, pmt_alloc := True, pmt_packet := empty_ts_packet\<rparr>"
  have c: "pat_set_pmt True 512 sample_old_chan = Some (0, c)" "pid_i_wf (pid_i c)" "pid_f (pid_i c) \<noteq> F_USER"
      "mumudvb_channel_t.service_id c = 0"
    using pi t(2) f sample_old_wf(3) by (simp_all add: pat_set_pmt_def c_def) (simp_all add: sample_old_chan_def zero_channel_def)
  have "pmt_readable init_aconf_v c (sample_pmt_pkt 1 [1, 2]) (sample_streams_pmt 1 [1, 2]) [] (map sample_stream [1, 2])"
    using c by (intro sample_pmt_readable) (simp_all add: mumu_sizes)
  then have "pmt_pid (pid_i c) = 512 \<and> 512 \<in> set (pid_table (pid_i c)) \<and>
      (\<exists>c'. autoconf_read_pmt (replicate MAX_PIDS 9) (replicate MAX_PIDS PID_ECM) init_aconf_v c (sample_pmt_pkt 1 [1, 2]) = Some (True, c') \<and>
         pmt_pid (pid_i c') = 512 \<and> 512 \<notin> set (pid_table (pid_i c')))"
    using sample_old_wf t c sample_entries [of "[1, 2]" "ca_system_list init_aconf_v"]
    by (intro autoconf_pmt_pid_lost [where ch = sample_old_chan and ok = True and s = "sample_streams_pmt 1 [1, 2]" and ds = "[]"
          and es = "map sample_stream [1, 2]"]) (simp_all add: mumu_sizes)
  then show ?thesis using c(1) by blast
qed

theorem autoconf_read_pmt_overflow_witness:
  "autoconf_read_pmt (replicate MAX_PIDS 9) (replicate MAX_PIDS PID_ECM) init_aconf_v sample_old_chan (sample_pmt_pkt 200 [0..<127]) = None"
  using sample_old_wf sample_entries [of "[0..<127]" "ca_system_list init_aconf_v"]
  by (intro autoconf_read_pmt_overflow [where s = "sample_streams_pmt 200 [0..<127]" and ds = "[]" and es = "map sample_stream [0..<127]"]
      sample_pmt_readable) (auto simp: mumu_sizes simp del: upt_Suc)

end
