(* ===== verification/Channel_Names.thy ===== *)
theory Channel_Names
  imports Channel_Net Autoconf_Pmt
begin

text \<open>
  The names of the channels, \<^verbatim>\<open>autoconf_update_chan_name\<close> of \<^verbatim>\<open>src/src/autoconf.c\<close>: the template, the
  name of the service or the name of the configuration, with the variables replaced.

  The lemmas show that the names are made for services without a percent sign in their names, that a service can
  stop the program with its name, and that a scrambled channel loses its language.
\<close>

section \<open>The function\<close>

text \<open>\<^verbatim>\<open>%03d\<close> and \<^verbatim>\<open>%02d\<close>.\<close>

definition print_pad :: "nat \<Rightarrow> nat \<Rightarrow> string" where
  "print_pad k n = replicate (k - length (print_u n)) (CHR ''0'') @ print_u n"

text \<open>The language of the first PID that does not begin with a dash; an empty one does not.\<close>

fun first_language :: "pid_i_t \<Rightarrow> nat \<Rightarrow> nat \<Rightarrow> string option option" where
  "first_language pi 0 i = Some None"
| "first_language pi (Suc n) i = do {
     l \<leftarrow> rd (pids_language pi) i;
     if l = [] \<or> hd l \<noteq> CHR ''-'' then Some (Some l) else first_language pi n (i + 1)}"

definition primary_language :: "pid_i_t \<Rightarrow> string option" where
  "primary_language pi = do {
     l \<leftarrow> first_language pi (num_pids pi) 0;
     (case l of Some l \<Rightarrow> Some l | None \<Rightarrow> rd (pids_language pi) 0)}"

definition base_name :: "auto_p_t \<Rightarrow> mumudvb_channel_t \<Rightarrow> mumudvb_channel_t" where
  "base_name a ch =
     (if name_template a \<noteq> [] \<and> name_f ch \<noteq> F_USER then ch\<lparr>mumudvb_channel_t.name := name_template a, name_f := F_DETECTED\<rparr>
      else if name_f ch \<noteq> F_USER then ch\<lparr>mumudvb_channel_t.name := service_name ch, name_f := F_DETECTED\<rparr>
      else ch\<lparr>mumudvb_channel_t.name := user_name ch\<rparr>)"

definition chan_name :: "auto_p_t \<Rightarrow> nat \<Rightarrow> mumudvb_channel_t \<Rightarrow> mumudvb_channel_t option" where
  "chan_name a i ch = do {
     let ch = base_name a ch;
     s \<leftarrow> expand MAX_NAME_LEN [(''%name'', service_name ch), (''%number'', print_u (i + 1))] (mumudvb_channel_t.name ch);
     let has_lcn = (strstr s ''%lcn'' \<noteq> None \<or> strstr s ''%2lcn'' \<noteq> None);
     let n = logical_channel_number ch;
     s \<leftarrow> expand MAX_NAME_LEN [(''%lcn'', if n \<noteq> 0 then print_pad 3 n else []), (''%2lcn'', if n \<noteq> 0 then print_pad 2 n else [])] s;
     l \<leftarrow> primary_language (pid_i ch);
     s \<leftarrow> expand MAX_NAME_LEN [(''%lang'', l)] s;
     Some (ch\<lparr>mumudvb_channel_t.name := s, sap_need_update := \<not> (has_lcn \<and> \<not> all_sections_seen (a_nit a))\<rparr>)}"

definition autoconf_update_chan_name :: "mumu_chan_p_t \<Rightarrow> auto_p_t \<Rightarrow> mumu_chan_p_t option" where
  "autoconf_update_chan_name cp a = each_channel (chan_name a) (number_of_channels cp) 0 cp"

section \<open>The names are made\<close>

lemma mumu_string_replace_plain:
  assumes "CHR ''%'' \<in> set p" "CHR ''%'' \<notin> set r" "length s < len"
  shows "\<exists>t. mumu_string_replace s len False p r = Some (t, len) \<and> length t < len"
proof (cases "strstr s p = None")
  case False
  then obtain t where "replace_loop s p r = Some t" using replace_loop_returns [OF assms(1,2)] by blast
  then show ?thesis using False assms(3) by (auto simp: mumu_string_replace_def Let_def)
qed (use assms(3) in \<open>simp add: mumu_string_replace_def\<close>)

lemma expand_plain:
  "\<forall>(p, r) \<in> set xs. CHR ''%'' \<in> set p \<and> CHR ''%'' \<notin> set r \<Longrightarrow> length s < len \<Longrightarrow>
   \<exists>t. expand len xs s = Some t \<and> length t < len"
proof (induction xs arbitrary: s)
  case (Cons x xs)
  then obtain t where "mumu_string_replace s len False (fst x) (snd x) = Some (t, len)" "length t < len"
    using mumu_string_replace_plain [of "fst x" "snd x" s len] by (auto split: prod.splits)
  with Cons show ?case by auto
qed simp

lemma expand_no_percent:
  "\<forall>(p, r) \<in> set xs. CHR ''%'' \<in> set p \<Longrightarrow> CHR ''%'' \<notin> set s \<Longrightarrow> expand len xs s = Some s"
  by (induction xs) (auto simp: mumu_string_replace_none)

lemma print_pad_plain [simp]: "CHR ''%'' \<notin> set (print_pad k n)"
  by (simp add: print_pad_def)

lemma first_language_ok:
  "i + n \<le> length (pids_language pi) \<Longrightarrow>
   first_language pi n i = Some (find (\<lambda>l. l = [] \<or> hd l \<noteq> CHR ''-'') (take n (drop i (pids_language pi))))"
proof (induction n arbitrary: i)
  case (Suc n)
  then have "take (Suc n) (drop i (pids_language pi)) = pids_language pi ! i # take n (drop (i + 1) (pids_language pi))"
    by (simp add: Cons_nth_drop_Suc [symmetric])
  then show ?case using Suc by (simp add: rd_def)
qed simp

lemma primary_language_ok:
  assumes "pid_i_wf pi"
  shows "primary_language pi = Some (case find (\<lambda>l. l = [] \<or> hd l \<noteq> CHR ''-'') (take (num_pids pi) (pids_language pi)) of
     Some l \<Rightarrow> l | None \<Rightarrow> pids_language pi ! 0)"
proof -
  have "num_pids pi \<le> length (pids_language pi)" "0 < length (pids_language pi)"
    using assms by (auto simp: pid_i_wf_def MAX_PIDS_def)
  then show ?thesis by (simp add: primary_language_def first_language_ok rd_def split: option.splits)
qed

text \<open>Strings that fit, and no percent sign in what is put in.\<close>

definition name_safe :: "auto_p_t \<Rightarrow> mumudvb_channel_t \<Rightarrow> bool" where
  "name_safe a ch \<longleftrightarrow> pid_i_wf (pid_i ch) \<and> length (name_template a) < MAX_NAME_LEN \<and> length (user_name ch) < MAX_NAME_LEN \<and>
     length (service_name ch) < MAX_NAME_LEN \<and> CHR ''%'' \<notin> set (service_name ch) \<and>
     (\<forall>l \<in> set (pids_language (pid_i ch)). CHR ''%'' \<notin> set l)"

lemma base_name_simps [simp]:
  "service_name (base_name a ch) = service_name ch" "pid_i (base_name a ch) = pid_i ch"
  "logical_channel_number (base_name a ch) = logical_channel_number ch"
  by (simp_all add: base_name_def)

lemma primary_language_plain:
  assumes "name_safe a ch"
  shows "\<exists>l. primary_language (pid_i ch) = Some l \<and> CHR ''%'' \<notin> set l"
proof -
  have wf: "pid_i_wf (pid_i ch)" and l: "\<forall>l \<in> set (pids_language (pid_i ch)). CHR ''%'' \<notin> set l"
    using assms by (simp_all add: name_safe_def)
  have "0 < length (pids_language (pid_i ch))" using wf by (simp add: pid_i_wf_def MAX_PIDS_def)
  then have z: "pids_language (pid_i ch) ! 0 \<in> set (pids_language (pid_i ch))" by simp
  show ?thesis
    unfolding primary_language_ok [OF wf] using z l
    by (auto split: option.splits dest!: find_Some_iff [THEN iffD1] in_set_takeD)
qed

lemma chan_name_ok:
  assumes "name_safe a ch"
  obtains s h where "chan_name a i ch = Some ((base_name a ch)\<lparr>mumudvb_channel_t.name := s, sap_need_update := h\<rparr>)"
    "length s < MAX_NAME_LEN"
    "CHR ''%'' \<notin> set (mumudvb_channel_t.name (base_name a ch)) \<Longrightarrow> s = mumudvb_channel_t.name (base_name a ch) \<and> h"
proof -
  define b where "b = mumudvb_channel_t.name (base_name a ch)"
  define n where "n = logical_channel_number ch"
  define x1 where "x1 = [(''%name'', service_name ch), (''%number'', print_u (i + 1))]"
  define x2 where "x2 = [(''%lcn'', if n \<noteq> 0 then print_pad 3 n else []), (''%2lcn'', if n \<noteq> 0 then print_pad 2 n else [])]"
  obtain l where l: "primary_language (pid_i ch) = Some l" "CHR ''%'' \<notin> set l" using primary_language_plain [OF assms] by blast
  have x: "\<forall>(p, r) \<in> set x1. CHR ''%'' \<in> set p \<and> CHR ''%'' \<notin> set r" "\<forall>(p, r) \<in> set x2. CHR ''%'' \<in> set p \<and> CHR ''%'' \<notin> set r"
      "\<forall>(p, r) \<in> set [(''%lang'', l)]. CHR ''%'' \<in> set p \<and> CHR ''%'' \<notin> set r"
    using assms l(2) by (auto simp: x1_def x2_def name_safe_def)
  have "length b < MAX_NAME_LEN" using assms by (simp add: b_def base_name_def name_safe_def)
  then obtain s1 where s1: "expand MAX_NAME_LEN x1 b = Some s1" "length s1 < MAX_NAME_LEN" using expand_plain [OF x(1)] by blast
  obtain s2 where s2: "expand MAX_NAME_LEN x2 s1 = Some s2" "length s2 < MAX_NAME_LEN" using expand_plain [OF x(2) s1(2)] by blast
  obtain s3 where s3: "expand MAX_NAME_LEN [(''%lang'', l)] s2 = Some s3" "length s3 < MAX_NAME_LEN" using expand_plain [OF x(3) s2(2)] by blast
  define h where "h \<longleftrightarrow> \<not> ((strstr s1 ''%lcn'' \<noteq> None \<or> strstr s1 ''%2lcn'' \<noteq> None) \<and> \<not> all_sections_seen (a_nit a))"
  have "chan_name a i ch = Some ((base_name a ch)\<lparr>mumudvb_channel_t.name := s3, sap_need_update := h\<rparr>)"
    unfolding chan_name_def Let_def base_name_simps x1_def [symmetric] n_def [symmetric] b_def [symmetric]
      x2_def [symmetric] s1(1) Option.bind.bind_lunit s2(1) l(1) s3(1) h_def by simp
  moreover have "s3 = b \<and> h" if "CHR ''%'' \<notin> set b"
  proof -
    have e: "expand MAX_NAME_LEN x1 b = Some b" "expand MAX_NAME_LEN x2 b = Some b"
      using that by (simp_all add: expand_no_percent x1_def x2_def del: expand.simps)
    then have "s1 = b" using s1(1) by simp
    moreover from this have "s2 = b" using s2(1) e(2) by simp
    ultimately show ?thesis using s3(1) expand_no_percent [of "[(''%lang'', l)]" b] that by (auto simp: h_def)
  qed
  ultimately show ?thesis using that s3(2) by (simp add: b_def)
qed

text \<open>
  With service names and languages without a percent sign every channel gets a name that fits the array; without
  a template it is the name of the service, and the announcements of the channel are renewed.
\<close>

theorem update_chan_name_returns:
  assumes "number_of_channels cp \<le> length (channels cp)" "\<forall>i < number_of_channels cp. name_safe a (channels cp ! i)"
  shows "\<exists>cp'. autoconf_update_chan_name cp a = Some cp' \<and> number_of_channels cp' = number_of_channels cp \<and>
     (\<forall>i < number_of_channels cp. let ch = channels cp ! i; ch' = channels cp' ! i in
        length (mumudvb_channel_t.name ch') < MAX_NAME_LEN \<and> service_name ch' = service_name ch \<and>
        (name_template a = [] \<and> name_f ch \<noteq> F_USER \<longrightarrow> mumudvb_channel_t.name ch' = service_name ch \<and> sap_need_update ch'))"
proof -
  define g where "g i ch = the (chan_name a i ch)" for i ch
  have g: "chan_name a i (channels cp ! i) = Some (g i (channels cp ! i)) \<and>
      length (mumudvb_channel_t.name (g i (channels cp ! i))) < MAX_NAME_LEN \<and>
      service_name (g i (channels cp ! i)) = service_name (channels cp ! i) \<and>
      (name_template a = [] \<and> name_f (channels cp ! i) \<noteq> F_USER \<longrightarrow>
         mumudvb_channel_t.name (g i (channels cp ! i)) = service_name (channels cp ! i) \<and> sap_need_update (g i (channels cp ! i)))"
    if i: "i < number_of_channels cp" for i
  proof -
    have s: "name_safe a (channels cp ! i)" using assms(2) i by simp
    show ?thesis
      by (rule chan_name_ok [OF s, of i]) (use s in \<open>auto simp: g_def base_name_def name_safe_def\<close>)
  qed
  obtain cp' where cp': "autoconf_update_chan_name cp a = Some cp'" "number_of_channels cp' = number_of_channels cp"
     "\<And>i. i < number_of_channels cp \<Longrightarrow> channels cp' ! i = g i (channels cp ! i)"
    unfolding autoconf_update_chan_name_def by (rule each_channel_nth [of cp "chan_name a" g]) (use g assms(1) in auto)
  then show ?thesis using g unfolding Let_def by (intro exI [of _ cp']) simp
qed

section \<open>A name that does not end\<close>

lemma mumu_string_replace_hangs:
  assumes "sublist p s" "sublist p r"
  shows "mumu_string_replace s len re p r = None"
proof -
  have "replace_loop s p r = None"
    using replace_loop_no_pattern [of s p r] assms by (cases "replace_loop s p r") auto
  moreover have "strstr s p \<noteq> None" using assms by (simp add: strstr_None_iff)
  ultimately show ?thesis by (simp add: mumu_string_replace_def)
qed

text \<open>
  Autoconfiguration does not return when a service is broadcast with a name that contains \<^verbatim>\<open>%name\<close>, whether there is no
  template or one with the name of the service, unless the user named the channel.
\<close>

theorem update_chan_name_hangs:
  assumes "number_of_channels cp \<le> length (channels cp)" "i < number_of_channels cp"
    and "name_f (channels cp ! i) \<noteq> F_USER" "sublist ''%name'' (service_name (channels cp ! i))"
    and "name_template a = [] \<or> sublist ''%name'' (name_template a)"
  shows "autoconf_update_chan_name cp a = None"
proof -
  have "sublist ''%name'' (mumudvb_channel_t.name (base_name a (channels cp ! i)))"
    using assms(3-5) by (auto simp: base_name_def)
  from mumu_string_replace_hangs [OF this assms(4)] have "chan_name a i (channels cp ! i) = None"
    unfolding chan_name_def Let_def base_name_simps expand.simps fst_conv snd_conv by simp
  then show ?thesis
    using each_channel_Some [of "chan_name a" "number_of_channels cp" 0 cp] assms(2)
    unfolding autoconf_update_chan_name_def by (metis add.commute add.right_neutral not_None_eq option.distinct(1) zero_le)
qed

section \<open>The language of a scrambled channel\<close>

lemma ca_entries_prefix: "prefix xs (ca_entries ss xs d)"
  by (auto simp: ca_entries_def Let_def split: prod.splits option.splits)

lemma ca_entries_foldl_prefix: "prefix xs (foldl (ca_entries ss) xs ds)"
  by (induction ds arbitrary: xs) (auto intro: prefix_order.trans [OF ca_entries_prefix])

lemma ca_entries_head: "\<exists>p ys. ca_entries ss [] d = (p, PID_ECM, []) # ys"
  by (cases "ca_entry d") (auto simp: ca_entries_def Let_def split: option.splits)

lemma scrambled_first_entry:
  assumes "ca_descrs (ds @ concat (map snd es)) \<noteq> []"
  shows "\<exists>p rest. pmt_entries ss ds es = (p, PID_ECM, []) # rest"
proof -
  obtain d cas where d: "ca_descrs (ds @ concat (map snd es)) = d # cas"
    using iffD1 [OF neq_Nil_conv assms] by blast
  obtain p ys where "ca_entries ss [] d = (p, PID_ECM, []) # ys" using ca_entries_head by blast
  then obtain zs where "foldl (ca_entries ss) [] (d # cas) = (p, PID_ECM, []) # zs"
    using ca_entries_foldl_prefix [of "ca_entries ss [] d" ss cas] by (auto simp: prefix_def)
  then show ?thesis unfolding pmt_entries_def d by simp
qed

text \<open>
  Error: once the PMT of a service with a CA descriptor has been read, the language put in the place of \<^verbatim>\<open>%lang\<close> is empty, whatever
  the language descriptors of its streams say: the entry of the ECM comes first, and its empty language
  does not begin with a dash.
\<close>

theorem scrambled_language_lost:
  assumes "pmt_readable a ch pmt s ds es" "length ps = MAX_PIDS" "length ts = MAX_PIDS"
    and "length (pmt_entries (ca_system_list a) ds es) + 1 < MAX_PIDS"
    and "ca_descrs (ds @ concat (map snd es)) \<noteq> []" "pids_language (pid_i ch) ! 0 = ''---''"
  shows "\<exists>ch'. autoconf_read_pmt ps ts a ch pmt = Some (True, ch') \<and> primary_language (pid_i ch') = Some []"
proof -
  obtain p rest where e: "pmt_entries (ca_system_list a) ds es = (p, PID_ECM, []) # rest"
    using scrambled_first_entry [OF assms(5)] by blast
  obtain ch' T where ch': "autoconf_read_pmt ps ts a ch pmt = Some (True, ch')" "pid_i_wf (pid_i ch')"
      "pid_entries (pid_i ch') = (pids (pid_i ch) ! 0, pids_type (pid_i ch) ! 0, pids_language (pid_i ch) ! 0) # T"
      "T = pmt_entries (ca_system_list a) ds es \<or> T = pmt_entries (ca_system_list a) ds es @ [pcr_entry s]"
    by (rule autoconf_read_pmt_spec [OF assms(1-4)]) blast
  then obtain R where "pid_entries (pid_i ch') = (pids (pid_i ch) ! 0, pids_type (pid_i ch) ! 0, ''---'') # (p, PID_ECM, []) # R"
    using e assms(6) by auto
  then have "map (snd \<circ> snd) (pid_entries (pid_i ch')) = ''---'' # [] # map (snd \<circ> snd) R" by simp
  moreover have "map (snd \<circ> snd) (pid_entries (pid_i ch')) = take (num_pids (pid_i ch')) (pids_language (pid_i ch'))"
    using ch'(2) by (auto simp: pid_entries_def pid_i_wf_def list_eq_iff_nth_eq)
  ultimately show ?thesis using ch'(1) primary_language_ok [OF ch'(2)] by simp
qed

section \<open>Witnesses\<close>

definition named_cp :: "string \<Rightarrow> mumu_chan_p_t" where
  "named_cp s = \<lparr>number_of_channels = 1, channels = [zero_channel\<lparr>service_name := s, name_f := F_DETECTED\<rparr>], asked_pid = [], t2mi_pid = 0\<rparr>"

theorem update_chan_name_returns_witness:
  "\<exists>cp'. autoconf_update_chan_name (named_cp ''News'') init_aconf_v = Some cp' \<and> mumudvb_channel_t.name (channels cp' ! 0) = ''News'' \<and>
     sap_need_update (channels cp' ! 0)"
proof -
  have c: "number_of_channels (named_cp s) = 1" "channels (named_cp s) ! 0 = zero_channel\<lparr>service_name := s, name_f := F_DETECTED\<rparr>"
      "length (channels (named_cp s)) = 1" for s by (simp_all add: named_cp_def)
  have "name_safe init_aconf_v (channels (named_cp ''News'') ! 0)"
    by (simp add: c name_safe_def zero_channel_def zero_pid_i_def pid_i_wf_def init_aconf_v_def MAX_NAME_LEN_def)
  moreover have "name_template init_aconf_v = []" by (simp add: init_aconf_v_def)
  ultimately show ?thesis
    using update_chan_name_returns [of "named_cp ''News''" init_aconf_v] c [of "''News''"] unfolding Let_def by auto
qed

theorem update_chan_name_hangs_witness: "autoconf_update_chan_name (named_cp ''a %name'') init_aconf_v = None"
  by (rule update_chan_name_hangs [of _ 0]) (simp_all add: named_cp_def init_aconf_v_def sublist_Cons_right)

definition scrambled_stream :: stream where
  "scrambled_stream = ([2, 0xe1, 1, 0xf0, 6], [(0x0a, [101, 110, 103, 0])])"

definition scrambled_descr :: descriptor where "scrambled_descr = (0x09, [1, 0, 0xe2, 0])"

definition scrambled_pmt :: "u8 list" where
  "scrambled_pmt = [2, 0xb0, 0, 0, 7, 0xc3, 0, 0, 0xe1, 1, 0xf0, 6] @ descr_bytes scrambled_descr @ stream_bytes scrambled_stream @ [0, 0, 0, 0]"

definition scrambled_chan :: mumudvb_channel_t where
  "scrambled_chan = zero_channel\<lparr>pid_i := zero_pid_i\<lparr>num_pids := 1, pids_language := replicate MAX_PIDS ''---''\<rparr>\<rparr>"

theorem scrambled_language_lost_witness:
  "\<exists>ch'. autoconf_read_pmt (replicate MAX_PIDS 9) (replicate MAX_PIDS PID_ECM) init_aconf_v scrambled_chan
      (empty_ts_packet\<lparr>len_full := length scrambled_pmt, data_full := scrambled_pmt\<rparr>) = Some (True, ch') \<and>
     primary_language (pid_i ch') = Some [] \<and> descr_language 0x0a (snd scrambled_stream) = Some ''eng''"
proof -
  note d = scrambled_pmt_def scrambled_descr_def scrambled_stream_def stream_bytes_def descr_bytes_def
  have sec: "pmt_section scrambled_pmt [scrambled_descr] [scrambled_stream]"
  proof -
    have "es_ok scrambled_stream"
      by (simp add: es_ok_def scrambled_stream_def stream_head_def PMT_INFO_LEN_def pmt_info_of_def ES_info_length_def
          bf_get_def HILO_eq pmt_descr_ok_def descr_ok_def descr_bytes_def)
    then show ?thesis
      by (simp add: pmt_section_def) (simp add: d PMT_LEN_def pmt_of_def program_info_length_def bf_get_def HILO_eq
          pmt_descr_ok_def descr_ok_def)
  qed
  have l: "descr_language 0x0a (snd scrambled_stream) = Some ''eng''"
    by (simp add: descr_language_def scrambled_stream_def language_of_def) code_simp
  have g: "autoconf_get_ca_system (replicate n (0, 0)) (int (HILO 1 0)) = None" for n
    by (induction n) (simp_all add: HILO_eq)
  have e: "length (pmt_entries (ca_system_list init_aconf_v) [scrambled_descr] [scrambled_stream]) = 2"
    by (simp add: pmt_entries_def ca_descrs_def scrambled_descr_def scrambled_stream_def ca_entries_def ca_entry_def Let_def
        stream_entry_def stream_type_of_def stream_head_def pmt_info_of_def stream_types_def init_aconf_v_def g)
  have r: "pmt_readable init_aconf_v scrambled_chan (empty_ts_packet\<lparr>len_full := length scrambled_pmt, data_full := scrambled_pmt\<rparr>)
      scrambled_pmt [scrambled_descr] [scrambled_stream]"
    using sec e by (simp add: pmt_readable_def other_service_def holds_at_iff scrambled_chan_def zero_channel_def zero_pid_i_def pid_i_wf_def mumu_sizes)
  have "ca_descrs ([scrambled_descr] @ concat (map snd [scrambled_stream])) \<noteq> []" by (simp add: ca_descrs_def scrambled_descr_def)
  moreover have "pids_language (pid_i scrambled_chan) ! 0 = ''---''" by (simp add: scrambled_chan_def mumu_sizes)
  ultimately show ?thesis
    using scrambled_language_lost [OF r, of "replicate MAX_PIDS 9" "replicate MAX_PIDS PID_ECM"] e l by (simp add: mumu_sizes)
qed

end
