(* ===== verification/Config_Lines.thy ===== *)
theory Config_Lines
  imports Channel_Net
begin

text \<open>
  The words of a configuration line (\<^verbatim>\<open>strtok\<close> and \<^verbatim>\<open>sscanf\<close> as the readers use them) and the reader of
  the multicast options, \<^verbatim>\<open>src/src/multicast.c\<close>.

  A reader gets the keyword of a line and the rest that \<^verbatim>\<open>strtok\<close> has not consumed, and the channel the
  line belongs to, when one has been started. It returns 1 for a line of its own, 0 for one it does not
  know and -1 for an error; \<open>None\<close> when the code uses a word that is missing, the null pointer. The numbers
  in a line fit an \<^verbatim>\<open>int\<close>.
\<close>

section \<open>Words\<close>

definition strtok :: "string \<Rightarrow> string \<Rightarrow> (string \<times> string) option" where
  "strtok delims s =
     (let t = dropWhile (\<lambda>c. c \<in> set delims) s
      in if t = [] then None
         else Some (takeWhile (\<lambda>c. c \<notin> set delims) t, drop 1 (dropWhile (\<lambda>c. c \<notin> set delims) t)))"

definition CONFIG_FILE_SEPARATOR :: string where "CONFIG_FILE_SEPARATOR = '' =''"

text \<open>The next word, and the text up to the next equals sign, for the values that keep their spaces.\<close>

definition arg :: "string \<Rightarrow> string option" where
  "arg rest = map_option fst (strtok CONFIG_FILE_SEPARATOR rest)"

definition arg_text :: "string \<Rightarrow> string option" where
  "arg_text rest = map_option fst (strtok ''='' rest)"

definition arg_int :: "string \<Rightarrow> int option" where
  "arg_int rest = map_option atoi (arg rest)"

text \<open>\<^verbatim>\<open>sscanf\<close> with \<^verbatim>\<open>%s\<close>: the first word without white space; nothing is stored when there is none.\<close>

definition sscanf_s :: "string \<Rightarrow> string \<Rightarrow> string" where
  "sscanf_s old s = (let t = takeWhile (\<lambda>c. \<not> is_space c) (dropWhile is_space s) in if t = [] then old else t)"

text \<open>A buffer of \<open>n\<close> bytes takes a string and its NUL, otherwise the copy leaves it.\<close>

definition store :: "nat \<Rightarrow> string \<Rightarrow> string option" where
  "store n s = (if length s < n then Some s else None)"

lemma store_Some [simp]: "store n s = Some t \<longleftrightarrow> t = s \<and> length s < n"
  by (auto simp: store_def)

lemma strtok_word:
  assumes "k \<noteq> []" "\<forall>c \<in> set k. c \<notin> set delims" "d \<in> set delims"
  shows "strtok delims (k @ d # s) = Some (k, s)"
proof -
  obtain c k' where k: "k = c # k'" using assms(1) by (cases k) auto
  then have "dropWhile (\<lambda>c. c \<in> set delims) (k @ d # s) = k @ d # s" using assms(2) by simp
  moreover have "takeWhile (\<lambda>c. c \<notin> set delims) (k @ d # s) = k"
    using assms(2,3) by (simp add: takeWhile_append)
  moreover have "dropWhile (\<lambda>c. c \<notin> set delims) (k @ d # s) = d # s"
    using assms(2,3) by (subst dropWhile_append2) auto
  ultimately show ?thesis by (simp add: strtok_def Let_def)
qed

lemma strtok_last:
  assumes "k \<noteq> []" "\<forall>c \<in> set k. c \<notin> set delims"
  shows "strtok delims k = Some (k, [])"
proof -
  have "dropWhile (\<lambda>c. c \<in> set delims) k = k" using assms by (cases k) auto
  moreover have "takeWhile (\<lambda>c. c \<notin> set delims) k = k" "dropWhile (\<lambda>c. c \<notin> set delims) k = []" using assms(2) by auto
  ultimately show ?thesis using assms(1)
    by (simp add: strtok_def Let_def del: dropWhile_eq_Nil_conv takeWhile_eq_all_conv)
qed

lemma strtok_skip: "d \<in> set delims \<Longrightarrow> strtok delims (d # s) = strtok delims s"
  by (simp add: strtok_def)

lemma strtok_Some:
  "strtok delims s = Some (k, r) \<Longrightarrow> k \<noteq> [] \<and> (\<forall>c \<in> set k. c \<notin> set delims) \<and> length k + length r \<le> length s"
proof -
  let ?t = "dropWhile (\<lambda>c. c \<in> set delims) s"
  assume "strtok delims s = Some (k, r)"
  then have t: "?t \<noteq> []" "k = takeWhile (\<lambda>c. c \<notin> set delims) ?t" "r = drop 1 (dropWhile (\<lambda>c. c \<notin> set delims) ?t)"
    by (auto simp: strtok_def Let_def split: if_splits)
  have "hd ?t \<notin> set delims" using hd_dropWhile [OF t(1)] by simp
  then have "k \<noteq> []" using t(1,2) by (cases ?t) auto
  moreover have "\<forall>c \<in> set k. c \<notin> set delims" unfolding t(2) by (auto dest: set_takeWhileD)
  moreover have "length k + length r \<le> length s"
  proof -
    have "length ?t = length k + length (dropWhile (\<lambda>c. c \<notin> set delims) ?t)"
      unfolding t(2) by (simp flip: length_append)
    moreover have "length ?t \<le> length s" by (rule length_dropWhile_le)
    ultimately show ?thesis unfolding t(3) by simp
  qed
  ultimately show ?thesis by blast
qed

lemma strtok_shorter: "strtok delims s = Some (k, r) \<Longrightarrow> length r < length s"
  using strtok_Some [of delims s k r] by (cases k) auto

lemma length_sscanf_s: "length (sscanf_s old s) \<le> max (length old) (length s)"
proof -
  have "length (takeWhile P (dropWhile Q s)) \<le> length s" for P Q
    by (metis le_trans length_dropWhile_le length_takeWhile_le)
  then show ?thesis by (simp add: sscanf_s_def Let_def le_max_iff_disj)
qed

section \<open>Multicast options\<close>

record multi_p_t =
  multicast :: int
  multicast_ipv4 :: int
  multicast_ipv6 :: int
  ttl :: int
  common_port :: int
  auto_join :: int
  rtp_header :: int
  iface4 :: string
  iface6 :: string
  num_pack :: nat

definition DEFAULT_TTL :: int where "DEFAULT_TTL = 2"

definition init_multicast_v :: multi_p_t where
  "init_multicast_v = \<lparr> multicast = 1, multicast_ipv4 = 1, multicast_ipv6 = 0, ttl = DEFAULT_TTL, common_port = 1234,
     auto_join = 0, rtp_header = 0, iface4 = [], iface6 = [], num_pack = 0 \<rparr>"

definition IF_NAMESIZE :: nat where "IF_NAMESIZE = 16"

type_synonym chan_opt = "mumudvb_channel_t option"

definition read_multicast_configuration ::
  "multi_p_t \<Rightarrow> chan_opt \<Rightarrow> string \<Rightarrow> string \<Rightarrow> (int \<times> multi_p_t \<times> chan_opt) option" where
  "read_multicast_configuration mp ch key rest =
     (if key = ''common_port'' then map_option (\<lambda>v. (1, mp\<lparr>common_port := v\<rparr>, ch)) (arg_int rest)
      else if key = ''multicast_ttl'' then map_option (\<lambda>v. (1, mp\<lparr>ttl := v\<rparr>, ch)) (arg_int rest)
      else if key = ''multicast_ipv4'' then map_option (\<lambda>v. (1, mp\<lparr>multicast_ipv4 := v\<rparr>, ch)) (arg_int rest)
      else if key = ''multicast_ipv6'' then map_option (\<lambda>v. (1, mp\<lparr>multicast_ipv6 := v\<rparr>, ch)) (arg_int rest)
      else if key = ''multicast_auto_join'' then map_option (\<lambda>v. (1, mp\<lparr>auto_join := v\<rparr>, ch)) (arg_int rest)
      else if key = ''ip'' then
        (case ch of None \<Rightarrow> Some (-1, mp, ch)
         | Some c \<Rightarrow> do {
             v \<leftarrow> arg rest;
             if length v > 19 then Some (-1, mp, ch)
             else do {
               ip \<leftarrow> store 20 (sscanf_s (ip4Out c) v);
               Some (1, mp, Some (c\<lparr>ip4Out := ip, ip4Out_f := F_USER\<rparr>))}})
      else if key = ''ip6'' then
        (case ch of None \<Rightarrow> Some (-1, mp, ch)
         | Some c \<Rightarrow> do {
             v \<leftarrow> arg rest;
             if length v > IPV6_CHAR_LEN - 1 then Some (-1, mp, ch)
             else do {
               ip \<leftarrow> store IPV6_CHAR_LEN (sscanf_s (ip6Out c) v);
               Some (1, mp, Some (c\<lparr>ip6Out := ip, ip6Out_f := F_USER\<rparr>))}})
      else if key = ''port'' then
        (case ch of None \<Rightarrow> Some (-1, mp, ch)
         | Some c \<Rightarrow> map_option (\<lambda>v. (1, mp, Some (c\<lparr>portOut := v, portOut_f := F_USER\<rparr>))) (arg_int rest))
      else if key = ''rtp_header'' then map_option (\<lambda>v. (1, mp\<lparr>rtp_header := v\<rparr>, ch)) (arg_int rest)
      else if key = ''multicast_iface4'' then do {
        v \<leftarrow> arg rest;
        if length v > IF_NAMESIZE then Some (-1, mp, ch)
        else do {s \<leftarrow> store (IF_NAMESIZE + 1) (sscanf_s (iface4 mp) v); Some (1, mp\<lparr>iface4 := s\<rparr>, ch)}}
      else if key = ''multicast_iface6'' then do {
        v \<leftarrow> arg rest;
        if length v > IF_NAMESIZE then Some (-1, mp, ch)
        else do {s \<leftarrow> store (IF_NAMESIZE + 1) (sscanf_s (iface6 mp) v); Some (1, mp\<lparr>iface6 := s\<rparr>, ch)}}
      else Some (0, mp, ch))"

end
