(* ===== verification/Sap.thy ===== *)
theory Sap
  imports Config_Lines Hls Crc
begin

text \<open>
  The session announcements, \<^verbatim>\<open>src/src/sap.c\<close>: their options, the message of a channel (header, SDP text and
  hash) and the periodic function that updates the messages and sends them.

  A channel has an IPv4 message, an IPv6 message or both, after its sockets. What is sent is the list of the
  sockets and bytes given to \<^verbatim>\<open>sendudp\<close>. \<^verbatim>\<open>VERSION\<close>, which the build writes into its configuration header, and
  the bytes that an uninitialised structure holds are arguments. A missing message array, and an access out
  of an array, make the result \<open>None\<close>. The flag that \<^verbatim>\<open>MU_F(sap_group)\<close> sets is left out: nothing reads it.

  The lemmas give the bytes of a message, show when it is sent, and that the IPv6 header holds the wrong half
  of the source address.
\<close>

section \<open>Addresses\<close>

text \<open>\<^verbatim>\<open>inet_pton\<close> for IPv4: four numbers of one to three digits, without leading zeros, below 256.\<close>

definition octet :: "string \<Rightarrow> u8 option" where
  "octet s = (if s \<noteq> [] \<and> length s \<le> 3 \<and> list_all is_digit s \<and> (length s > 1 \<longrightarrow> hd s \<noteq> CHR ''0'') \<and> atoi s < 256
              then Some (word_of_int (atoi s)) else None)"

primrec all_some :: "'a option list \<Rightarrow> 'a list option" where
  "all_some [] = Some []"
| "all_some (x # xs) = do {y \<leftarrow> x; ys \<leftarrow> all_some xs; Some (y # ys)}"

definition inet_pton4 :: "string \<Rightarrow> u8 list option" where
  "inet_pton4 s = (let fs = Mumu_Strings.fields (CHR ''.'') s in if length fs = 4 then all_some (map octet fs) else None)"

text \<open>For IPv6: groups of hexadecimal digits, an IPv4 address in the last place, zeros where the double colon is.\<close>

definition hex_val :: "char \<Rightarrow> int option" where
  "hex_val c = (if is_digit c then Some (of_char c - 48)
     else if 97 \<le> (of_char c :: int) \<and> (of_char c :: int) \<le> 102 then Some (of_char c - 87)
     else if 65 \<le> (of_char c :: int) \<and> (of_char c :: int) \<le> 70 then Some (of_char c - 55) else None)"

definition hex_group :: "string \<Rightarrow> u8 list option" where
  "hex_group s = (if s = [] \<or> 4 < length s then None
     else map_option (\<lambda>ds. let n = foldl (\<lambda>a d. a * 16 + d) 0 ds in [word_of_int (n div 256), word_of_int (n mod 256)])
            (all_some (map hex_val s)))"

definition addr_part :: "bool \<Rightarrow> string \<Rightarrow> u8 list option" where
  "addr_part last_part s =
     (if s = [] then Some []
      else let fs = Mumu_Strings.fields (CHR '':'') s
           in map_option concat (all_some (map hex_group (butlast fs) @
                [if last_part \<and> CHR ''.'' \<in> set (last fs) then inet_pton4 (last fs) else hex_group (last fs)])))"

definition inet_pton6 :: "string \<Rightarrow> u8 list option" where
  "inet_pton6 s =
     (case strstr s ''::'' of
        None \<Rightarrow> do {a \<leftarrow> addr_part True s; if length a = 16 then Some a else None}
      | Some i \<Rightarrow> do {
          a \<leftarrow> addr_part False (take i s);
          b \<leftarrow> addr_part True (drop (i + 2) s);
          if length a + length b \<le> 14 then Some (a @ replicate (16 - length a - length b) 0 @ b) else None})"

text \<open>
  The code converts an IPv6 address into a \<^verbatim>\<open>struct sockaddr_in6\<close> (family, port and flow information, 8 bytes,
  then the address) instead of its \<^verbatim>\<open>sin6_addr\<close>, and reads \<^verbatim>\<open>sin6_addr\<close> afterwards: \<open>junk\<close> are the 8 bytes of
  the structure that the conversion does not write.
\<close>

definition sin6_addr_of :: "u8 list \<Rightarrow> u8 list \<Rightarrow> u8 list" where
  "sin6_addr_of junk a = drop 8 a @ junk"

section \<open>State\<close>

definition SAP_GROUP_LENGTH :: nat where "SAP_GROUP_LENGTH = 20"
definition SAP_HEAD_LEN4 :: nat where "SAP_HEAD_LEN4 = 8"
definition SAP_HEAD_LEN6 :: nat where "SAP_HEAD_LEN6 = 20"

record mumudvb_sap_message_t =
  sap_buf :: "u8 list"
  sap_len :: nat
  sap_version :: int
  to_be_sent :: bool

definition zero_sap_message :: mumudvb_sap_message_t where
  "zero_sap_message = \<lparr> sap_buf = replicate MAX_UDP_SIZE 0, sap_len = 0, sap_version = 0, to_be_sent = False \<rparr>"

record sap_p_t =
  sap_messages4 :: "mumudvb_sap_message_t list option"
  sap_messages6 :: "mumudvb_sap_message_t list option"
  sap_status :: option_status_t
  sap_interval :: int
  sap_sending_ip4 :: string
  sap_sending_ip6 :: string
  sap_default_group :: string
  sap_uri :: string
  sap_organisation :: string
  sap_socketOut4 :: int
  sap_socketOut6 :: int
  sap_serial :: int
  sap_last_time_sent :: int
  sap_ttl :: int

definition init_sap_v :: sap_p_t where
  "init_sap_v = \<lparr> sap_messages4 = None, sap_messages6 = None, sap_status = OPTION_UNDEFINED, sap_interval = 5,
     sap_sending_ip4 = ''0.0.0.0'', sap_sending_ip6 = ''::'', sap_default_group = [], sap_uri = [],
     sap_organisation = ''MuMuDVB'', sap_socketOut4 = 0, sap_socketOut6 = 0, sap_serial = 0,
     sap_last_time_sent = 0, sap_ttl = 255 \<rparr>"

definition read_sap_configuration :: "sap_p_t \<Rightarrow> chan_opt \<Rightarrow> string \<Rightarrow> string \<Rightarrow> (int \<times> sap_p_t \<times> chan_opt) option" where
  "read_sap_configuration p ch key rest =
     (if key = ''sap'' then
        map_option (\<lambda>v. (1, p\<lparr>sap_status := (if v \<noteq> 0 then OPTION_ON else OPTION_OFF)\<rparr>, ch)) (arg_int rest)
      else if key = ''sap_interval'' then map_option (\<lambda>v. (1, p\<lparr>sap_interval := v\<rparr>, ch)) (arg_int rest)
      else if key = ''sap_ttl'' then map_option (\<lambda>v. (1, p\<lparr>sap_ttl := v\<rparr>, ch)) (arg_int rest)
      else if key = ''sap_organisation'' then do {
        t \<leftarrow> arg_text rest;
        (v, _) \<leftarrow> strtok [CHR 0x0A] t;
        Some (1, p\<lparr>sap_organisation := take 254 v\<rparr>, ch)}
      else if key = ''sap_uri'' then do {
        t \<leftarrow> arg_text rest;
        (v, _) \<leftarrow> strtok [CHR 0x0A] t;
        Some (1, p\<lparr>sap_uri := take 254 v\<rparr>, ch)}
      else if key = ''sap_sending_ip4'' then do {
        v \<leftarrow> arg rest;
        if length v > 19 then Some (-1, p, ch)
        else do {s \<leftarrow> store 20 (sscanf_s (sap_sending_ip4 p) v); Some (1, p\<lparr>sap_sending_ip4 := s\<rparr>, ch)}}
      else if key = ''sap_sending_ip6'' then do {
        v \<leftarrow> arg rest;
        if length v > IPV6_CHAR_LEN - 1 then Some (-1, p, ch)
        else do {s \<leftarrow> store IPV6_CHAR_LEN (sscanf_s (sap_sending_ip6 p) v); Some (1, p\<lparr>sap_sending_ip6 := s\<rparr>, ch)}}
      else if key = ''sap_group'' then
        (case ch of None \<Rightarrow> Some (-1, p, ch)
         | Some c \<Rightarrow> do {
             v \<leftarrow> arg_text rest;
             if length v > SAP_GROUP_LENGTH - 1 then Some (-1, p, ch)
             else do {s \<leftarrow> store SAP_GROUP_LENGTH v; Some (1, p, Some (c\<lparr>sap_group := s\<rparr>))}})
      else if key = ''sap_default_group'' then do {
        v \<leftarrow> arg_text rest;
        if length v > SAP_GROUP_LENGTH - 1 then Some (-1, p, ch)
        else do {s \<leftarrow> store SAP_GROUP_LENGTH v; Some (1, p\<lparr>sap_default_group := s\<rparr>, ch)}}
      else Some (0, p, ch))"

text \<open>The sockets that \<^verbatim>\<open>makesocket\<close> opens and the random serial number are arguments; allocation succeeds.\<close>

definition init_sap :: "int \<Rightarrow> int \<Rightarrow> int \<Rightarrow> multi_p_t \<Rightarrow> sap_p_t \<Rightarrow> sap_p_t" where
  "init_sap s4 s6 serial mp p =
     (if sap_status p = OPTION_ON then
        let p = (if multi_p_t.multicast_ipv4 mp \<noteq> 0
                 then p\<lparr>sap_messages4 := Some (replicate MAX_CHANNELS zero_sap_message), sap_socketOut4 := s4\<rparr> else p);
            p = (if multi_p_t.multicast_ipv6 mp \<noteq> 0
                 then p\<lparr>sap_messages6 := Some (replicate MAX_CHANNELS zero_sap_message), sap_socketOut6 := s6\<rparr> else p)
        in p\<lparr>sap_serial := serial, sap_last_time_sent := 0\<rparr>
      else p)"

section \<open>The SDP text\<close>

definition crlf :: string where "crlf = [CHR 0x0D, CHR 0x0A]"

definition simple_service_type_to_str :: "nat \<Rightarrow> string" where
  "simple_service_type_to_str type =
     (if 0x80 \<le> type \<and> type \<le> 0xFE then ''User defined''
      else if type \<in> {0x01, 0x11, 0x16, 0x19, 0x1c} then ''Television''
      else if type \<in> {0x02, 0x07, 0x0a} then ''Radio'' else [])"

text \<open>The group of a channel, once the default has been filled in.\<close>

definition chan_group :: "sap_p_t \<Rightarrow> mumudvb_channel_t \<Rightarrow> string option" where
  "chan_group p ch =
     (if sap_group ch = [] \<and> sap_default_group p \<noteq> []
      then map_option fst (mumu_string_replace (sap_default_group p) SAP_GROUP_LENGTH False ''%type''
             (simple_service_type_to_str (service_type ch)))
      else Some (sap_group ch))"

definition sdp_head :: "sap_p_t \<Rightarrow> string \<Rightarrow> int \<Rightarrow> string \<Rightarrow> string \<Rightarrow> string" where
  "sdp_head p ipv ver ip chan_name =
     ''v=0'' @ crlf @ ''o='' @ sap_organisation p @ '' '' @ print_d (sap_serial p) @ '' '' @ print_d ver @
     '' IN '' @ ipv @ '' '' @ ip @ crlf @ ''s='' @ chan_name @ crlf @
     (if sap_uri p \<noteq> [] then ''u='' @ sap_uri p @ crlf else [])"

definition sdp_time :: "string \<Rightarrow> string" where
  "sdp_time build = ''t=0 0'' @ crlf @ ''a=tool:mumudvb-'' @ build @ crlf @ ''a=type:broadcast'' @ crlf"

definition sdp_group :: "sap_p_t \<Rightarrow> string \<Rightarrow> string \<Rightarrow> string" where
  "sdp_group p old grp =
     (if old \<noteq> [] \<or> sap_default_group p \<noteq> [] then ''a=cat:'' @ grp @ crlf @ ''a=x-plgroup:'' @ grp @ crlf else [])"

definition sdp_media :: "multi_p_t \<Rightarrow> mumudvb_channel_t \<Rightarrow> string" where
  "sdp_media mp ch =
     (if multi_p_t.rtp_header mp = 0 then ''m=video '' @ print_d (portOut ch) @ '' udp 33'' @ crlf
      else ''m=video '' @ print_d (portOut ch) @ '' RTP/AVP 33'' @ crlf @ ''a=rtpmap:33 MP2T/90000'' @ crlf)"

definition payload4 :: "string \<Rightarrow> sap_p_t \<Rightarrow> multi_p_t \<Rightarrow> mumudvb_channel_t \<Rightarrow> int \<Rightarrow> string \<Rightarrow> string" where
  "payload4 build p mp ch ver grp =
     sdp_head p ''IP4'' ver (ip4Out ch) (mumudvb_channel_t.name ch) @
     ''c=IN IP4 '' @ ip4Out ch @ ''/'' @ print_d (ttl mp) @ crlf @ sdp_time build @
     (case inet_pton4 (sap_sending_ip4 p) of
        Some a \<Rightarrow> if \<exists>b \<in> set a. b \<noteq> 0 then ''a=source-filter: incl IN IP4 '' @ ip4Out ch @ '' '' @ sap_sending_ip4 p @ crlf else []
      | None \<Rightarrow> []) @
     sdp_group p (sap_group ch) grp @ sdp_media mp ch"

definition payload6 :: "string \<Rightarrow> u8 list \<Rightarrow> sap_p_t \<Rightarrow> multi_p_t \<Rightarrow> mumudvb_channel_t \<Rightarrow> int \<Rightarrow> string \<Rightarrow> string" where
  "payload6 build junk p mp ch ver grp =
     sdp_head p ''IP6'' ver (ip6Out ch) (mumudvb_channel_t.name ch) @
     ''c=IN IP6 '' @ ip6Out ch @ crlf @ sdp_time build @
     (case inet_pton6 (sap_sending_ip6 p) of
        Some a \<Rightarrow> if \<exists>b \<in> set (sin6_addr_of junk a). b \<noteq> 0
                  then ''a=source-filter: incl IP6 '' @ ip6Out ch @ '' '' @ sap_sending_ip6 p @ crlf else []
      | None \<Rightarrow> []) @
     sdp_group p (sap_group ch) grp @ sdp_media mp ch"

section \<open>The message of a channel\<close>

text \<open>Append the text to the message, unless it would be longer than 1024 bytes.\<close>

definition add_payload :: "string \<Rightarrow> mumudvb_sap_message_t \<Rightarrow> mumudvb_sap_message_t option option" where
  "add_payload payload m =
     (if sap_len m + length payload > 1024 then Some None
      else do {
        b \<leftarrow> mem_write (sap_buf m) (sap_len m) (text_bytes payload);
        Some (Some (m\<lparr>sap_buf := b, sap_len := sap_len m + length payload, to_be_sent := True\<rparr>))})"

text \<open>The messages exist when the channel has the sockets.\<close>

record sap_pair =
  msg4 :: "mumudvb_sap_message_t option"
  msg6 :: "mumudvb_sap_message_t option"

definition sap_add_program ::
  "string \<Rightarrow> u8 list \<Rightarrow> sap_p_t \<Rightarrow> multi_p_t \<Rightarrow> mumudvb_channel_t \<Rightarrow> sap_pair \<Rightarrow> (int \<times> mumudvb_channel_t \<times> sap_pair) option" where
  "sap_add_program build junk p mp ch ms =
     (let ms = \<lparr> msg4 = map_option (to_be_sent_update (\<lambda>_. False)) (msg4 ms),
                 msg6 = map_option (to_be_sent_update (\<lambda>_. False)) (msg6 ms) \<rparr>
      in if channel_ready ch < READY then Some (1, ch, ms)
         else do {
           grp \<leftarrow> chan_group p ch;
           let ch' = ch\<lparr>sap_group := grp\<rparr>;
           r4 \<leftarrow> (case msg4 ms of None \<Rightarrow> Some (Some None)
                   | Some m \<Rightarrow> map_option (map_option Some) (add_payload (payload4 build p mp ch (sap_version m) grp) m));
           case r4 of None \<Rightarrow> Some (1, ch', ms)
           | Some m4 \<Rightarrow> do {
               let ms = ms\<lparr>msg4 := m4\<rparr>;
               r6 \<leftarrow> (case msg6 ms of None \<Rightarrow> Some (Some None)
                   | Some m \<Rightarrow> map_option (map_option Some) (add_payload (payload6 build junk p mp ch (sap_version m) grp) m));
               case r6 of None \<Rightarrow> Some (1, ch', ms)
               | Some m6 \<Rightarrow> Some (0, ch', ms\<lparr>msg6 := m6\<rparr>)}})"

definition mime :: "u8 list" where "mime = text_bytes ''application/sdp''"

text \<open>The cleared message with its first bytes, its source address and its MIME type.\<close>

definition sap_head :: "nat \<Rightarrow> u8 \<Rightarrow> u8 list \<Rightarrow> mumudvb_sap_message_t \<Rightarrow> mumudvb_sap_message_t option" where
  "sap_head head_len byte0 source m = do {
     b \<leftarrow> mem_write (replicate MAX_UDP_SIZE 0) 0 [byte0, 0, 0, 0];
     b \<leftarrow> mem_write b 4 source;
     b \<leftarrow> mem_write b head_len (mime @ [0]);
     Some (m\<lparr>sap_buf := b, sap_len := head_len + length mime + 1,
             sap_version := (sap_version m + 1) mod 16\<rparr>)}"

text \<open>The hash: the CRC-32 of all bytes but the last, folded to 16 bits.\<close>

definition sap_hash :: "mumudvb_sap_message_t \<Rightarrow> mumudvb_sap_message_t option" where
  "sap_hash m = do {
     ds \<leftarrow> mem_read (sap_buf m) 0 (sap_len m - 1);
     let crc = crc32_run64 0xffffffff ds;
     b \<leftarrow> wr (sap_buf m) 2 (ucast (((drop_bit 24 crc AND 0xff) + (drop_bit 16 crc AND 0xff)) AND 0xff));
     b \<leftarrow> wr b 3 (ucast (((drop_bit 8 crc AND 0xff) + (crc AND 0xff)) AND 0xff));
     Some (m\<lparr>sap_buf := b\<rparr>)}"

text \<open>The message number \<open>i\<close> of an array that must exist when the channel has the socket.\<close>

definition msg_at :: "int \<Rightarrow> mumudvb_sap_message_t list option \<Rightarrow> nat \<Rightarrow> mumudvb_sap_message_t option option" where
  "msg_at sock arr i = (if sock = 0 then Some None else do {ms \<leftarrow> arr; m \<leftarrow> rd ms i; Some (Some m)})"

definition msg_put :: "mumudvb_sap_message_t list option \<Rightarrow> nat \<Rightarrow> mumudvb_sap_message_t option \<Rightarrow> mumudvb_sap_message_t list option" where
  "msg_put arr i m = (case m of None \<Rightarrow> arr | Some m \<Rightarrow> map_option (\<lambda>ms. ms[i := m]) arr)"

definition opt_step :: "('a \<Rightarrow> 'a option) \<Rightarrow> 'a option \<Rightarrow> 'a option option" where
  "opt_step f x = (case x of None \<Rightarrow> Some None | Some m \<Rightarrow> map_option Some (f m))"

definition source4 :: "sap_p_t \<Rightarrow> u8 list" where
  "source4 p = (case inet_pton4 (sap_sending_ip4 p) of Some a \<Rightarrow> a | None \<Rightarrow> [0, 0, 0, 0])"

definition source6 :: "u8 list \<Rightarrow> sap_p_t \<Rightarrow> u8 list" where
  "source6 junk p = (case inet_pton6 (sap_sending_ip6 p) of Some a \<Rightarrow> sin6_addr_of junk a | None \<Rightarrow> replicate 16 0)"

definition sap_update ::
  "string \<Rightarrow> u8 list \<Rightarrow> multi_p_t \<Rightarrow> sap_p_t \<Rightarrow> nat \<Rightarrow> mumudvb_channel_t \<Rightarrow> (sap_p_t \<times> mumudvb_channel_t) option" where
  "sap_update build junk mp p i ch = do {
     m4 \<leftarrow> msg_at (socketOut4 ch) (sap_messages4 p) i;
     m6 \<leftarrow> msg_at (socketOut6 ch) (sap_messages6 p) i;
     m4 \<leftarrow> opt_step (sap_head SAP_HEAD_LEN4 0x20 (source4 p)) m4;
     m6 \<leftarrow> opt_step (sap_head SAP_HEAD_LEN6 0x30 (source6 junk p)) m6;
     (_, ch, ms) \<leftarrow> sap_add_program build junk p mp ch \<lparr> msg4 = m4, msg6 = m6 \<rparr>;
     m4 \<leftarrow> opt_step sap_hash (msg4 ms);
     m6 \<leftarrow> opt_step sap_hash (msg6 ms);
     Some (p\<lparr>sap_messages4 := msg_put (sap_messages4 p) i m4, sap_messages6 := msg_put (sap_messages6 p) i m6\<rparr>,
           ch\<lparr>sap_need_update := False\<rparr>)}"

section \<open>Sending\<close>

definition send_one :: "int \<Rightarrow> mumudvb_sap_message_t list option \<Rightarrow> nat \<Rightarrow> (int \<times> u8 list) list option" where
  "send_one sock arr i =
     (case arr of None \<Rightarrow> Some []
      | Some ms \<Rightarrow> do {
          m \<leftarrow> rd ms i;
          if to_be_sent m then do {d \<leftarrow> mem_read (sap_buf m) 0 (sap_len m); Some [(sock, d)]} else Some []})"

primrec sap_send :: "sap_p_t \<Rightarrow> nat \<Rightarrow> nat \<Rightarrow> (int \<times> u8 list) list option" where
  "sap_send p 0 i = Some []"
| "sap_send p (Suc n) i = do {
     a \<leftarrow> send_one (sap_socketOut4 p) (sap_messages4 p) i;
     b \<leftarrow> send_one (sap_socketOut6 p) (sap_messages6 p) i;
     c \<leftarrow> sap_send p n (i + 1);
     Some (a @ b @ c)}"

text \<open>Update the messages of the channels that are streamed and satisfy a condition.\<close>

primrec update_loop ::
  "(mumudvb_channel_t \<Rightarrow> bool) \<Rightarrow> string \<Rightarrow> u8 list \<Rightarrow> multi_p_t \<Rightarrow> nat \<Rightarrow> nat \<Rightarrow> sap_p_t \<Rightarrow> mumudvb_channel_t list \<Rightarrow>
     (sap_p_t \<times> mumudvb_channel_t list) option" where
  "update_loop c build junk mp 0 i p chs = Some (p, chs)"
| "update_loop c build junk mp (Suc n) i p chs = do {
     ch \<leftarrow> rd chs i;
     (p, ch) \<leftarrow> (if c ch \<and> READY \<le> channel_ready ch then sap_update build junk mp p i ch else Some (p, ch));
     update_loop c build junk mp n (i + 1) p (chs[i := ch])}"

definition sap_poll ::
  "string \<Rightarrow> u8 list \<Rightarrow> multi_p_t \<Rightarrow> int \<Rightarrow> nat \<Rightarrow> sap_p_t \<Rightarrow> mumudvb_channel_t list \<Rightarrow>
     ((int \<times> u8 list) list \<times> sap_p_t \<times> mumudvb_channel_t list) option" where
  "sap_poll build junk mp now num p chs =
     (if sap_messages4 p = None \<and> sap_messages6 p = None then Some ([], p, chs)
      else if sap_status p \<noteq> OPTION_ON then Some ([], p, chs)
      else do {
        (p, chs) \<leftarrow> (if sap_last_time_sent p = 0
          then map_option (\<lambda>(p, chs). (p\<lparr>sap_last_time_sent := now - sap_interval p - 1\<rparr>, chs))
                 (update_loop (\<lambda>_. True) build junk mp num 0 p chs)
          else Some (p, chs));
        (p, chs) \<leftarrow> update_loop sap_need_update build junk mp num 0 p chs;
        if now - sap_last_time_sent p \<ge> sap_interval p then do {
          out \<leftarrow> sap_send p num 0;
          Some (out, p\<lparr>sap_last_time_sent := now\<rparr>, chs)}
        else Some ([], p, chs)})"

section \<open>The message, in one piece\<close>

lemma all_some_length: "all_some xs = Some ys \<Longrightarrow> length ys = length xs"
  by (induction xs arbitrary: ys) (auto simp: Option.bind_eq_Some_conv)

lemma length_inet_pton4: "inet_pton4 s = Some a \<Longrightarrow> length a = 4"
  by (auto simp: inet_pton4_def Let_def all_some_length split: if_splits)

lemma length_inet_pton6: "inet_pton6 s = Some a \<Longrightarrow> length a = 16"
  by (auto simp: inet_pton6_def Option.bind_eq_Some_conv split: option.splits if_splits)

lemma length_source4 [simp]: "length (source4 p) = 4"
  by (auto simp: source4_def length_inet_pton4 split: option.split)

lemma length_source6 [simp]: "length junk = 8 \<Longrightarrow> length (source6 junk p) = 16"
  by (auto simp: source6_def sin6_addr_of_def length_inet_pton6 split: option.split)

lemma length_mime [simp]: "length mime = 15"
  by (simp add: mime_def text_bytes_def)

lemma length_text_bytes [simp]: "length (text_bytes s) = length s"
  by (simp add: text_bytes_def)

text \<open>The bytes before the text, the hash put into a message, and the whole message.\<close>

definition sap_prefix :: "u8 \<Rightarrow> u8 list \<Rightarrow> u8 list" where
  "sap_prefix byte0 source = [byte0, 0, 0, 0] @ source @ mime @ [0]"

definition hash_hi :: "u64 \<Rightarrow> u8" where
  "hash_hi crc = ucast (((drop_bit 24 crc AND 0xff) + (drop_bit 16 crc AND 0xff)) AND 0xff)"

definition hash_lo :: "u64 \<Rightarrow> u8" where
  "hash_lo crc = ucast (((drop_bit 8 crc AND 0xff) + (crc AND 0xff)) AND 0xff)"

definition with_hash :: "u8 list \<Rightarrow> u8 list" where
  "with_hash bs = (let crc = crc32_run64 0xffffffff (butlast bs) in bs[2 := hash_hi crc, 3 := hash_lo crc])"

lemma length_with_hash [simp]: "length (with_hash bs) = length bs"
  by (simp add: with_hash_def Let_def)

lemma length_sap_prefix [simp]: "length (sap_prefix byte0 source) = length source + 20"
  by (simp add: sap_prefix_def)

definition padded :: "u8 list \<Rightarrow> u8 list" where
  "padded bs = bs @ replicate (MAX_UDP_SIZE - length bs) 0"

lemma length_padded: "length bs \<le> MAX_UDP_SIZE \<Longrightarrow> length (padded bs) = MAX_UDP_SIZE"
  by (simp add: padded_def)

lemma take_padded [simp]: "take (length bs) (padded bs) = bs"
  by (simp add: padded_def)

text \<open>A text that fits, or none.\<close>

definition announced :: "u8 \<Rightarrow> u8 list \<Rightarrow> string \<Rightarrow> bool \<Rightarrow> mumudvb_sap_message_t \<Rightarrow> mumudvb_sap_message_t" where
  "announced byte0 source payload fits m =
     (let bs = sap_prefix byte0 source @ (if fits then text_bytes payload else [])
      in m\<lparr>sap_buf := padded (with_hash bs), sap_len := length bs,
           sap_version := (sap_version m + 1) mod 16, to_be_sent := fits\<rparr>)"

lemma mem_write_padded:
  "length bs + length xs \<le> MAX_UDP_SIZE \<Longrightarrow> mem_write (padded bs) (length bs) xs = Some (padded (bs @ xs))"
  by (simp add: mem_write_def padded_def)

lemma sap_head_eq:
  assumes "head_len = length source + 4" "length source \<le> 16"
  shows "sap_head head_len byte0 source m =
    Some (m\<lparr>sap_buf := padded (sap_prefix byte0 source), sap_len := length (sap_prefix byte0 source),
            sap_version := (sap_version m + 1) mod 16\<rparr>)"
proof -
  have s: "length source + 20 \<le> MAX_UDP_SIZE" using assms(2) by (simp add: MAX_UDP_SIZE_def)
  have a: "mem_write (replicate MAX_UDP_SIZE 0) 0 [byte0, 0, 0, 0] = Some (padded [byte0, 0, 0, 0])"
    using mem_write_padded [of "[]" "[byte0, 0, 0, 0]"] s by (simp add: padded_def)
  have b: "mem_write (padded [byte0, 0, 0, 0]) 4 source = Some (padded ([byte0, 0, 0, 0] @ source))"
    using mem_write_padded [of "[byte0, 0, 0, 0]" source] s by (simp add: numeral_eq_Suc)
  have c: "mem_write (padded ([byte0, 0, 0, 0] @ source)) head_len (mime @ [0]) = Some (padded (([byte0, 0, 0, 0] @ source) @ mime @ [0]))"
    using mem_write_padded [of "[byte0, 0, 0, 0] @ source" "mime @ [0]"] s assms(1) by (simp add: numeral_eq_Suc)
  show ?thesis using a b c assms(1) by (simp add: sap_head_def sap_prefix_def)
qed

lemma add_payload_eq:
  assumes "sap_buf m = padded bs" "sap_len m = length bs"
  shows "add_payload payload m =
    (if length bs + length payload > 1024 then Some None
     else Some (Some (m\<lparr>sap_buf := padded (bs @ text_bytes payload), sap_len := length bs + length payload, to_be_sent := True\<rparr>)))"
  using assms mem_write_padded [of bs "text_bytes payload"]
  by (simp add: add_payload_def MAX_UDP_SIZE_def)

lemma sap_hash_eq:
  assumes "sap_buf m = padded bs" "sap_len m = length bs" "4 \<le> length bs" "length bs \<le> MAX_UDP_SIZE"
  shows "sap_hash m = Some (m\<lparr>sap_buf := padded (with_hash bs)\<rparr>)"
proof -
  have "mem_read (padded bs) 0 (length bs - 1) = Some (butlast bs)"
    using assms(3,4) by (simp add: mem_read_def length_padded) (simp add: padded_def butlast_conv_take)
  moreover have "(padded bs)[2 := x, 3 := y] = padded (bs[2 := x, 3 := y])" for x y
    using assms(3) by (simp add: padded_def list_update_append)
  ultimately show ?thesis using assms
    by (simp add: sap_hash_def wr_in length_padded with_hash_def hash_hi_def hash_lo_def Let_def MAX_UDP_SIZE_def)
qed

lemma text_bytes_append: "text_bytes (a @ b) = text_bytes a @ text_bytes b"
  by (simp add: text_bytes_def)

text \<open>Each message of the pair that \<^verbatim>\<open>sap_update\<close> makes, \<open>None\<close> for a socket that the channel has not.\<close>

definition fits4 :: "string \<Rightarrow> mumudvb_sap_message_t option \<Rightarrow> bool" where
  "fits4 payload m \<longleftrightarrow> (m \<noteq> None \<longrightarrow> 24 + length payload \<le> 1024)"

definition fits6 :: "string \<Rightarrow> mumudvb_sap_message_t option \<Rightarrow> bool" where
  "fits6 payload m \<longleftrightarrow> (m \<noteq> None \<longrightarrow> 36 + length payload \<le> 1024)"

definition next_version :: "mumudvb_sap_message_t option \<Rightarrow> int" where
  "next_version m = (case m of None \<Rightarrow> 0 | Some m \<Rightarrow> (sap_version m + 1) mod 16)"

definition headed :: "u8 \<Rightarrow> u8 list \<Rightarrow> mumudvb_sap_message_t \<Rightarrow> mumudvb_sap_message_t" where
  "headed byte0 source m = m\<lparr>sap_buf := padded (sap_prefix byte0 source), sap_len := length (sap_prefix byte0 source),
     sap_version := (sap_version m + 1) mod 16\<rparr>"

lemma sap_head4: "sap_head SAP_HEAD_LEN4 b (source4 p) m = Some (headed b (source4 p) m)"
  by (simp add: sap_head_eq headed_def SAP_HEAD_LEN4_def)

lemma sap_head6: "length junk = 8 \<Longrightarrow> sap_head SAP_HEAD_LEN6 b (source6 junk p) m = Some (headed b (source6 junk p) m)"
  by (simp add: sap_head_eq headed_def SAP_HEAD_LEN6_def)

lemma add_payload_headed:
  "add_payload payload ((headed b src m)\<lparr>to_be_sent := False\<rparr>) =
     (if length src + 20 + length payload > 1024 then Some None
      else Some (Some ((headed b src m)\<lparr>sap_buf := padded (sap_prefix b src @ text_bytes payload),
             sap_len := length src + 20 + length payload, to_be_sent := True\<rparr>)))"
  by (subst add_payload_eq [of _ "sap_prefix b src"]) (simp_all add: headed_def)

lemma sap_hash_sent:
  assumes "length src \<le> 16" "\<not> 1024 < length src + 20 + length payload"
  shows "sap_hash ((headed b src m)\<lparr>sap_buf := padded (sap_prefix b src @ text_bytes payload),
             sap_len := length src + 20 + length payload, to_be_sent := True\<rparr>) = Some (announced b src payload True m)"
  using assms by (subst sap_hash_eq [of _ "sap_prefix b src @ text_bytes payload"])
    (simp_all add: headed_def announced_def Let_def MAX_UDP_SIZE_def)

lemma announced_False:
  "announced b src payload False m = m\<lparr>sap_buf := padded (with_hash (sap_prefix b src)), sap_len := length (sap_prefix b src),
     sap_version := (sap_version m + 1) mod 16, to_be_sent := False\<rparr>"
  by (simp add: announced_def)

lemma sap_hash_unsent:
  assumes "length src \<le> 16"
  shows "sap_hash ((headed b src m)\<lparr>to_be_sent := False\<rparr>) =
     Some (m\<lparr>sap_buf := padded (with_hash (sap_prefix b src)), sap_len := length (sap_prefix b src),
     sap_version := (sap_version m + 1) mod 16, to_be_sent := False\<rparr>)"
  using assms by (subst sap_hash_eq [of _ "sap_prefix b src"])
    (simp_all add: headed_def MAX_UDP_SIZE_def)

lemmas sap_hash_sent4 = sap_hash_sent [of "source4 p" for p, simplified]

lemma sap_hash_sent6:
  "length junk = 8 \<Longrightarrow> \<not> 988 < length payload \<Longrightarrow> sap_hash ((headed b (source6 junk p) m)\<lparr>sap_buf := padded (sap_prefix b (source6 junk p) @ text_bytes payload),
             sap_len := 36 + length payload, to_be_sent := True\<rparr>) = Some (announced b (source6 junk p) payload True m)"
  using sap_hash_sent [of "source6 junk p" payload b m] by simp

lemma headed_version [simp]: "sap_version (headed b src m) = (sap_version m + 1) mod 16"
  by (simp add: headed_def)

text \<open>A message is sent when it fits and, for the IPv6 one, when the IPv4 one fits too.\<close>

lemma sap_update_spec:
  assumes "READY \<le> channel_ready ch" "length junk = 8"
    and m: "msg_at (socketOut4 ch) (sap_messages4 p) i = Some m4" "msg_at (socketOut6 ch) (sap_messages6 p) i = Some m6"
    and grp: "chan_group p ch = Some grp"
    and t: "t4 = payload4 build p mp ch (next_version m4) grp" "t6 = payload6 build junk p mp ch (next_version m6) grp"
  shows "sap_update build junk mp p i ch =
    Some (p\<lparr>sap_messages4 := msg_put (sap_messages4 p) i (map_option (announced 0x20 (source4 p) t4 (fits4 t4 m4)) m4),
            sap_messages6 := msg_put (sap_messages6 p) i
              (map_option (announced 0x30 (source6 junk p) t6 (fits4 t4 m4 \<and> fits6 t6 m6)) m6)\<rparr>,
          ch\<lparr>sap_group := grp, sap_need_update := False\<rparr>)"
proof -
  have nr: "\<not> channel_ready ch < READY" using assms(1) by simp
  have s6: "length (source6 junk p) = 16" using assms(2) by simp
  note simps = sap_update_def sap_add_program_def sap_head4 sap_head6 assms(2) m grp nr Let_def
    add_payload_headed s6 next_version_def opt_step_def sap_hash_sent4 sap_hash_sent6 sap_hash_unsent announced_False fits4_def fits6_def
  show ?thesis
  proof (cases m4)
    case None
    show ?thesis
    proof (cases m6)
      case None then show ?thesis using \<open>m4 = None\<close> by (simp add: simps)
    next
      case (Some m)
      show ?thesis using \<open>m4 = None\<close> Some by (simp add: simps t)
    qed
  next
    case (Some a)
    show ?thesis
    proof (cases m6)
      case None then show ?thesis using Some by (simp add: simps t)
    next
      case (Some b)
      show ?thesis using \<open>m4 = Some a\<close> Some by (simp add: simps t)
    qed
  qed
qed

section \<open>The periodic function\<close>

definition msg_ok :: "mumudvb_sap_message_t \<Rightarrow> bool" where
  "msg_ok m \<longleftrightarrow> length (sap_buf m) = MAX_UDP_SIZE \<and> sap_len m \<le> 1024"

definition arr_ok :: "nat \<Rightarrow> mumudvb_sap_message_t list option \<Rightarrow> bool" where
  "arr_ok n arr \<longleftrightarrow> (case arr of None \<Rightarrow> True | Some ms \<Rightarrow> n \<le> length ms \<and> (\<forall>m \<in> set ms. msg_ok m))"

definition sap_ok :: "nat \<Rightarrow> sap_p_t \<Rightarrow> bool" where
  "sap_ok n p \<longleftrightarrow> arr_ok n (sap_messages4 p) \<and> arr_ok n (sap_messages6 p)"

text \<open>A channel has sockets of the families that are announced.\<close>

definition has_arrays :: "sap_p_t \<Rightarrow> mumudvb_channel_t \<Rightarrow> bool" where
  "has_arrays p ch \<longleftrightarrow> (socketOut4 ch \<noteq> 0 \<longrightarrow> sap_messages4 p \<noteq> None) \<and> (socketOut6 ch \<noteq> 0 \<longrightarrow> sap_messages6 p \<noteq> None)"

lemma announced_ok: "length src \<le> 16 \<Longrightarrow> (fits \<Longrightarrow> length src + 20 + length payload \<le> 1024) \<Longrightarrow> msg_ok (announced b src payload fits m)"
  by (cases fits) (simp_all add: msg_ok_def announced_def length_padded MAX_UDP_SIZE_def)

lemma msg_at_ok:
  "arr_ok n arr \<Longrightarrow> i < n \<Longrightarrow> (sock \<noteq> 0 \<longrightarrow> arr \<noteq> None) \<Longrightarrow> \<exists>m. msg_at sock arr i = Some m \<and> (m \<noteq> None \<longrightarrow> arr \<noteq> None)"
  by (auto simp: msg_at_def arr_ok_def rd_def split: option.splits)

lemma arr_ok_put: "arr_ok n arr \<Longrightarrow> (\<And>x. m = Some x \<Longrightarrow> msg_ok x) \<Longrightarrow> arr_ok n (msg_put arr i m)"
  by (auto simp: arr_ok_def msg_put_def split: option.splits dest!: set_update_subset_insert [THEN subsetD])

lemma chan_group_ok: "\<exists>g. chan_group p ch = Some g"
proof -
  have "CHR ''%'' \<notin> set (simple_service_type_to_str t)" for t by (simp add: simple_service_type_to_str_def)
  then obtain t where "replace_loop (sap_default_group p) ''%type'' (simple_service_type_to_str (service_type ch)) = Some t"
    using replace_loop_returns [of "CHR ''%''" "''%type''"] by fastforce
  then show ?thesis by (auto simp: chan_group_def mumu_string_replace_def Let_def)
qed

text \<open>The messages of the other channels.\<close>

definition same_msgs :: "nat \<Rightarrow> sap_p_t \<Rightarrow> sap_p_t \<Rightarrow> bool" where
  "same_msgs j p q \<longleftrightarrow> map_option (\<lambda>ms. ms ! j) (sap_messages4 p) = map_option (\<lambda>ms. ms ! j) (sap_messages4 q) \<and>
     map_option (\<lambda>ms. ms ! j) (sap_messages6 p) = map_option (\<lambda>ms. ms ! j) (sap_messages6 q)"

text \<open>What an update leaves as it is.\<close>

definition sap_frame :: "sap_p_t \<Rightarrow> sap_p_t \<Rightarrow> bool" where
  "sap_frame p q \<longleftrightarrow> sap_status q = sap_status p \<and> sap_interval q = sap_interval p \<and> sap_last_time_sent q = sap_last_time_sent p \<and>
     sap_socketOut4 q = sap_socketOut4 p \<and> sap_socketOut6 q = sap_socketOut6 p \<and>
     (sap_messages4 q = None \<longleftrightarrow> sap_messages4 p = None) \<and> (sap_messages6 q = None \<longleftrightarrow> sap_messages6 p = None)"

lemma sap_frame_refl [simp]: "sap_frame p p"
  by (simp add: sap_frame_def)

lemma sap_frame_trans: "sap_frame p q \<Longrightarrow> sap_frame q r \<Longrightarrow> sap_frame p r"
  by (simp add: sap_frame_def)

lemma has_arrays_frame: "sap_frame p q \<Longrightarrow> has_arrays q ch = has_arrays p ch"
  by (simp add: sap_frame_def has_arrays_def)

lemma msg_put_None [simp]: "msg_put arr i m = None \<longleftrightarrow> arr = None"
  by (simp add: msg_put_def split: option.split)

lemma msg_put_other: "j \<noteq> i \<Longrightarrow> map_option (\<lambda>ms. ms ! j) (msg_put arr i m) = map_option (\<lambda>ms. ms ! j) arr"
  by (auto simp: msg_put_def option.map_comp comp_def split: option.split)

lemma sap_update_ok:
  assumes "READY \<le> channel_ready ch" "length junk = 8" "sap_ok n p" "i < n" "has_arrays p ch"
  shows "\<exists>q g. sap_update build junk mp p i ch = Some (q, ch\<lparr>sap_group := g, sap_need_update := False\<rparr>) \<and>
    sap_ok n q \<and> sap_frame p q \<and> (\<forall>j. j \<noteq> i \<longrightarrow> same_msgs j p q)"
proof -
  have arrs: "arr_ok n (sap_messages4 p)" "arr_ok n (sap_messages6 p)" using assms(3) by (simp_all add: sap_ok_def)
  obtain m4 where m4: "msg_at (socketOut4 ch) (sap_messages4 p) i = Some m4"
    using msg_at_ok arrs(1) assms(4,5) by (metis has_arrays_def)
  obtain m6 where m6: "msg_at (socketOut6 ch) (sap_messages6 p) i = Some m6"
    using msg_at_ok arrs(2) assms(4,5) by (metis has_arrays_def)
  obtain g where g: "chan_group p ch = Some g" using chan_group_ok by blast
  note u = sap_update_spec [OF assms(1,2) m4 m6 g refl refl, of build mp]
  have "arr_ok n (msg_put (sap_messages4 p) i (map_option (announced b (source4 p) t (fits4 t m4)) m4))" for b t
    by (intro arr_ok_put arrs) (auto intro!: announced_ok simp: fits4_def)
  moreover have "arr_ok n (msg_put (sap_messages6 p) i (map_option (announced b (source6 junk p) t (f \<and> fits6 t m6)) m6))" for b t f
    by (intro arr_ok_put arrs) (auto intro!: announced_ok simp: fits6_def assms(2))
  ultimately show ?thesis unfolding u
    by (auto simp: sap_ok_def sap_frame_def same_msgs_def msg_put_other)
qed

definition same_state :: "mumudvb_channel_t \<Rightarrow> mumudvb_channel_t \<Rightarrow> bool" where
  "same_state a b \<longleftrightarrow> channel_ready b = channel_ready a \<and> socketOut4 b = socketOut4 a \<and> socketOut6 b = socketOut6 a"

lemma update_loop_ok:
  assumes "length junk = 8" "sap_ok n p" "i + k \<le> n" "n \<le> length chs" "\<forall>ch \<in> set chs. has_arrays p ch"
  shows "\<exists>q chs'. update_loop c build junk mp k i p chs = Some (q, chs') \<and> sap_ok n q \<and> sap_frame p q \<and>
    list_all2 same_state chs chs' \<and> (\<forall>j. j < length chs \<longrightarrow> \<not> READY \<le> channel_ready (chs ! j) \<longrightarrow> same_msgs j p q)"
  using assms(2-)
proof (induction k arbitrary: i p chs)
  case 0
  then show ?case by (simp add: same_msgs_def list_all2_conv_all_nth same_state_def)
next
  case (Suc k)
  let ?ch = "chs ! i"
  have i: "i < n" "i < length chs" using Suc.prems by simp_all
  obtain q ch' where step: "(if c ?ch \<and> READY \<le> channel_ready ?ch then sap_update build junk mp p i ?ch else Some (p, ?ch)) = Some (q, ch')"
    and q: "sap_ok n q" "sap_frame p q" "same_state ?ch ch'"
      "\<forall>j. j < length chs \<longrightarrow> \<not> READY \<le> channel_ready (chs ! j) \<longrightarrow> same_msgs j p q"
  proof (cases "c ?ch \<and> READY \<le> channel_ready ?ch")
    case True
    then obtain q g where u: "sap_update build junk mp p i ?ch = Some (q, ?ch\<lparr>sap_group := g, sap_need_update := False\<rparr>)"
      "sap_ok n q" "sap_frame p q" "\<forall>j. j \<noteq> i \<longrightarrow> same_msgs j p q"
      using sap_update_ok assms(1) Suc.prems(1,4) i by (metis nth_mem)
    show thesis by (rule that [of q "?ch\<lparr>sap_group := g, sap_need_update := False\<rparr>"]) (use u True in \<open>auto simp: same_state_def\<close>)
  next
    case False
    show thesis by (rule that [of p ?ch]) (use Suc.prems(1) False in \<open>auto simp: same_state_def same_msgs_def\<close>)
  qed
  have "\<forall>ch \<in> set (chs[i := ch']). has_arrays q ch"
  proof
    fix ch assume "ch \<in> set (chs[i := ch'])"
    then have "ch = ch' \<or> ch \<in> set chs" by (auto dest: set_update_subset_insert [THEN subsetD])
    moreover have "has_arrays p ch'" using q(3) Suc.prems(4) i by (auto simp: same_state_def has_arrays_def)
    ultimately show "has_arrays q ch" using Suc.prems(4) has_arrays_frame [OF q(2)] by auto
  qed
  then obtain r chs' where r: "update_loop c build junk mp k (i + 1) q (chs[i := ch']) = Some (r, chs')" "sap_ok n r"
      "sap_frame q r" "list_all2 same_state (chs[i := ch']) chs'"
      "\<forall>j. j < length chs \<longrightarrow> \<not> READY \<le> channel_ready (chs[i := ch'] ! j) \<longrightarrow> same_msgs j q r"
    using Suc.IH [of q "i + 1" "chs[i := ch']"] Suc.prems(2,3) q(1) by auto
  have l: "list_all2 same_state chs chs'"
  proof -
    have "list_all2 same_state chs (chs[i := ch'])"
      using q(3) i(2) by (auto simp: list_all2_conv_all_nth nth_list_update same_state_def)
    then show ?thesis using r(4)
      by (auto simp: list_all2_conv_all_nth same_state_def)
  qed
  have rdy: "channel_ready (chs[i := ch'] ! j) = channel_ready (chs ! j)" if "j < length chs" for j
    using that q(3) i(2) by (simp add: nth_list_update same_state_def)
  have "update_loop c build junk mp (Suc k) i p chs = Some (r, chs')"
    using step r(1) i by (simp add: rd_in)
  then show ?case using r(2,3) q(2,4) l r(5) rdy
    by (auto intro: sap_frame_trans simp: same_msgs_def)
qed

text \<open>What is sent for a channel.\<close>

definition outgoing :: "int \<Rightarrow> mumudvb_sap_message_t list option \<Rightarrow> nat \<Rightarrow> (int \<times> u8 list) list" where
  "outgoing sock arr i =
     (case arr of None \<Rightarrow> []
      | Some ms \<Rightarrow> if to_be_sent (ms ! i) then [(sock, take (sap_len (ms ! i)) (sap_buf (ms ! i)))] else [])"

lemma send_one_ok:
  assumes "arr_ok n arr" "i < n"
  shows "send_one sock arr i = Some (outgoing sock arr i)"
proof (cases arr)
  case None then show ?thesis by (simp add: send_one_def outgoing_def)
next
  case (Some ms)
  then have l: "i < length ms" "msg_ok (ms ! i)" using assms by (auto simp: arr_ok_def)
  then have "sap_len (ms ! i) \<le> length (sap_buf (ms ! i))" by (simp add: msg_ok_def MAX_UDP_SIZE_def)
  then show ?thesis using Some l(1) by (simp add: send_one_def outgoing_def rd_in mem_read_def)
qed

definition all_outgoing :: "sap_p_t \<Rightarrow> nat \<Rightarrow> (int \<times> u8 list) list" where
  "all_outgoing p i = outgoing (sap_socketOut4 p) (sap_messages4 p) i @ outgoing (sap_socketOut6 p) (sap_messages6 p) i"

lemma sap_send_ok: "sap_ok n p \<Longrightarrow> i + k \<le> n \<Longrightarrow> sap_send p k i = Some (concat (map (all_outgoing p) [i..<i + k]))"
proof (induction k arbitrary: i)
  case 0 then show ?case by simp
next
  case (Suc k)
  have "[i..<i + Suc k] = i # [i + 1..<(i + 1) + k]" by (simp add: upt_conv_Cons)
  moreover have "send_one sock (sap_messages4 p) i = Some (outgoing sock (sap_messages4 p) i)"
      "send_one sock (sap_messages6 p) i = Some (outgoing sock (sap_messages6 p) i)" for sock
    using Suc.prems by (auto simp: sap_ok_def intro: send_one_ok)
  moreover have "sap_send p k (i + 1) = Some (concat (map (all_outgoing p) [i + 1..<(i + 1) + k]))"
    using Suc.IH [of "i + 1"] Suc.prems by simp
  ultimately show ?case by (simp add: all_outgoing_def [of p i] del: upt_Suc)
qed

text \<open>One call of the periodic function.\<close>

definition sap_started :: "nat \<Rightarrow> sap_p_t \<Rightarrow> mumudvb_channel_t list \<Rightarrow> bool" where
  "sap_started n p chs \<longleftrightarrow> sap_status p = OPTION_ON \<and> (sap_messages4 p \<noteq> None \<or> sap_messages6 p \<noteq> None) \<and> sap_ok n p \<and>
     n \<le> length chs \<and> (\<forall>ch \<in> set chs. has_arrays p ch)"

definition silent :: "mumudvb_channel_t \<Rightarrow> bool" where
  "silent ch \<longleftrightarrow> \<not> READY \<le> channel_ready ch"

lemma list_all2_same_state:
  "list_all2 same_state a b \<Longrightarrow> \<forall>ch \<in> set a. has_arrays p ch \<Longrightarrow> \<forall>ch \<in> set b. has_arrays p ch"
  by (induction rule: list_all2_induct) (auto simp: same_state_def has_arrays_def)

lemma sap_poll_spec:
  assumes "length junk = 8" "sap_started n p chs"
  shows "\<exists>out q chs'. sap_poll build junk mp now n p chs = Some (out, q, chs') \<and> sap_started n q chs' \<and>
    (if sap_last_time_sent p = 0 \<or> now - sap_last_time_sent p \<ge> sap_interval p
     then out = concat (map (all_outgoing q) [0..<n]) \<and> sap_last_time_sent q = now
     else out = [] \<and> sap_last_time_sent q = sap_last_time_sent p) \<and>
    (\<forall>j < length chs. silent (chs ! j) \<longrightarrow> same_msgs j p q) \<and>
    sap_socketOut4 q = sap_socketOut4 p \<and> sap_socketOut6 q = sap_socketOut6 p"
proof -
  have st: "sap_status p = OPTION_ON" "\<not> (sap_messages4 p = None \<and> sap_messages6 p = None)" "sap_ok n p" "n \<le> length chs"
      "\<forall>ch \<in> set chs. has_arrays p ch"
    using assms(2) by (auto simp: sap_started_def)
  define t where "t = (if sap_last_time_sent p = 0 then now - sap_interval p - 1 else sap_last_time_sent p)"
  obtain p1 chs1 where 1: "(if sap_last_time_sent p = 0
          then map_option (\<lambda>(p, chs). (p\<lparr>sap_last_time_sent := now - sap_interval p - 1\<rparr>, chs))
                 (update_loop (\<lambda>_. True) build junk mp n 0 p chs)
          else Some (p, chs)) = Some (p1, chs1)"
      "sap_ok n p1" "sap_frame (p\<lparr>sap_last_time_sent := t\<rparr>) p1" "list_all2 same_state chs chs1"
      "\<forall>j. j < length chs \<longrightarrow> silent (chs ! j) \<longrightarrow> same_msgs j p p1"
  proof (cases "sap_last_time_sent p = 0")
    case True
    obtain q chs' where q: "update_loop (\<lambda>_. True) build junk mp n 0 p chs = Some (q, chs')" "sap_ok n q" "sap_frame p q"
        "list_all2 same_state chs chs'" "\<forall>j. j < length chs \<longrightarrow> \<not> READY \<le> channel_ready (chs ! j) \<longrightarrow> same_msgs j p q"
      using update_loop_ok [OF assms(1) st(3) _ st(4,5), of 0 n "\<lambda>_. True" build mp] by auto
    show thesis by (rule that [of "q\<lparr>sap_last_time_sent := t\<rparr>" chs'])
      (use True q in \<open>auto simp: t_def sap_frame_def sap_ok_def silent_def same_msgs_def\<close>)
  next
    case False
    show thesis by (rule that [of p chs])
      (use False st in \<open>auto simp: t_def same_msgs_def sap_frame_def list_all2_conv_all_nth same_state_def\<close>)
  qed
  have "\<forall>ch \<in> set chs1. has_arrays p1 ch"
    using list_all2_same_state [OF 1(4)] st(5) 1(3) by (auto simp: has_arrays_def sap_frame_def)
  then obtain q chs' where q: "update_loop sap_need_update build junk mp n 0 p1 chs1 = Some (q, chs')" "sap_ok n q" "sap_frame p1 q"
        "list_all2 same_state chs1 chs'" "\<forall>j. j < length chs1 \<longrightarrow> \<not> READY \<le> channel_ready (chs1 ! j) \<longrightarrow> same_msgs j p1 q"
    using update_loop_ok [OF assms(1) 1(2), of 0 n chs1 sap_need_update build mp] st(4) 1(4)
    by (auto simp: list_all2_conv_all_nth)
  have f: "sap_interval q = sap_interval p" "sap_last_time_sent q = t" "sap_status q = OPTION_ON"
      "sap_messages4 q = None \<longleftrightarrow> sap_messages4 p = None" "sap_messages6 q = None \<longleftrightarrow> sap_messages6 p = None"
      "sap_socketOut4 q = sap_socketOut4 p" "sap_socketOut6 q = sap_socketOut6 p"
    using 1(3) q(3) st(1) by (simp_all add: sap_frame_def)
  have "has_arrays q = has_arrays p" using f(4,5) by (simp add: has_arrays_def fun_eq_iff)
  then have a: "\<forall>ch \<in> set chs'. has_arrays q ch"
    using list_all2_same_state [OF q(4) list_all2_same_state [OF 1(4)]] st(5) by metis
  have len: "n \<le> length chs'" using st(4) 1(4) q(4) by (simp add: list_all2_conv_all_nth)
  have s: "same_msgs j p q" if "j < length chs" "silent (chs ! j)" for j
    using that 1(4,5) q(5) by (auto simp: list_all2_conv_all_nth same_state_def silent_def same_msgs_def)
  have out: "sap_send q n 0 = Some (concat (map (all_outgoing q) [0..<n]))"
    using sap_send_ok [OF q(2), of 0 n] by simp
  have due: "now - t \<ge> sap_interval p \<longleftrightarrow> sap_last_time_sent p = 0 \<or> now - sap_last_time_sent p \<ge> sap_interval p"
    by (simp add: t_def)
  have "sap_poll build junk mp now n p chs = (if now - t \<ge> sap_interval p
      then Some (concat (map (all_outgoing q) [0..<n]), q\<lparr>sap_last_time_sent := now\<rparr>, chs') else Some ([], q, chs'))"
    unfolding sap_poll_def 1(1) if_not_P [OF st(2)] using st(1) q(1) f out by simp
  moreover have "all_outgoing (q\<lparr>sap_last_time_sent := now\<rparr>) = all_outgoing q" by (rule ext) (simp add: all_outgoing_def)
  moreover have "sap_started n q chs'" "sap_started n (q\<lparr>sap_last_time_sent := now\<rparr>) chs'"
    using f a len q(2) st(2) by (auto simp: sap_started_def sap_ok_def has_arrays_def)
  ultimately show ?thesis using due s f(2,6,7)
    by (auto simp: t_def same_msgs_def split: if_splits)
qed

section \<open>Properties\<close>

lemma drop_with_hash: "drop 4 (with_hash bs) = drop 4 bs"
  by (simp add: with_hash_def Let_def)


text \<open>
  C31. The periodic function never leaves the arrays: once the announcements are started, each call returns, keeps
  the state that this rests on, and sends exactly the messages marked to be sent, of all channels in order, when
  the interval has passed or on the first call, and nothing otherwise.
\<close>

theorem sap_poll_sends:
  assumes "length junk = 8" "sap_started n p chs"
  shows "\<exists>out q chs'. sap_poll build junk mp now n p chs = Some (out, q, chs') \<and> sap_started n q chs' \<and>
    (if sap_last_time_sent p = 0 \<or> now - sap_last_time_sent p \<ge> sap_interval p
     then out = concat (map (all_outgoing q) [0..<n]) \<and> sap_last_time_sent q = now
     else out = [] \<and> sap_last_time_sent q = sap_last_time_sent p)"
  using sap_poll_spec [OF assms, of build mp now] by blast

text \<open>
  A channel that has been removed is still announced: only the messages of channels that are ready are
  updated, and sending does not look at the channel, so the last message of the channel goes out at every interval.
\<close>

theorem removed_still_announced:
  assumes "length junk = 8" "sap_started n p chs" "j < n" "channel_ready (chs ! j) = REMOVED"
    and "sap_messages4 p = Some ms" "to_be_sent (ms ! j)" "now - sap_last_time_sent p \<ge> sap_interval p"
  shows "\<exists>out q chs'. sap_poll build junk mp now n p chs = Some (out, q, chs') \<and>
    (sap_socketOut4 p, take (sap_len (ms ! j)) (sap_buf (ms ! j))) \<in> set out"
proof -
  obtain out q chs' where q: "sap_poll build junk mp now n p chs = Some (out, q, chs')"
      "out = concat (map (all_outgoing q) [0..<n])" "\<forall>j < length chs. silent (chs ! j) \<longrightarrow> same_msgs j p q"
      "sap_socketOut4 q = sap_socketOut4 p"
    using sap_poll_spec [OF assms(1,2), of build mp now] assms(7) by auto
  have "same_msgs j p q" using q(3) assms(2-4) by (simp add: sap_started_def silent_def READY_le)
  then obtain ms' where "sap_messages4 q = Some ms'" "ms' ! j = ms ! j" using assms(5)
    by (cases "sap_messages4 q") (auto simp: same_msgs_def)
  then have "(sap_socketOut4 p, take (sap_len (ms ! j)) (sap_buf (ms ! j))) \<in> set (all_outgoing q j)"
    using assms(6) q(4) by (simp add: all_outgoing_def outgoing_def)
  then show ?thesis using q(1,2) assms(3) by auto
qed

text \<open>
  The IPv6 announcement names the wrong source: the 16 bytes after the first four are the last eight bytes of
  the configured address and eight bytes that nothing has written, so the network prefix is lost.
\<close>

theorem sap_source6_wrong:
  assumes "READY \<le> channel_ready ch" "length junk = 8" "socketOut4 ch = 0" "socketOut6 ch \<noteq> 0"
    and "sap_messages6 p = Some ms" "i < length ms" "inet_pton6 (sap_sending_ip6 p) = Some a"
  shows "\<exists>m q ch'. sap_update build junk mp p i ch = Some (q, ch') \<and> sap_messages6 q = Some (ms[i := m]) \<and>
    take 16 (drop 4 (sap_buf m)) = drop 8 a @ junk"
proof -
  obtain grp where g: "chan_group p ch = Some grp" using chan_group_ok by blast
  have m: "msg_at (socketOut4 ch) (sap_messages4 p) i = Some None" "msg_at (socketOut6 ch) (sap_messages6 p) i = Some (Some (ms ! i))"
    using assms(3-6) by (simp_all add: msg_at_def rd_in)
  have src: "source6 junk p = drop 8 a @ junk" using assms(7) by (simp add: source6_def sin6_addr_of_def)
  have 16: "length (drop 8 a @ junk) = 16" using length_inet_pton6 [OF assms(7)] assms(2) by simp
  have "take 16 (drop 4 (sap_buf (announced b (drop 8 a @ junk) t f m))) = drop 8 a @ junk" for b t f m
  proof -
    let ?bs = "sap_prefix b (drop 8 a @ junk) @ (if f then text_bytes t else [])"
    have "drop 4 (sap_buf (announced b (drop 8 a @ junk) t f m)) = drop 4 (with_hash ?bs) @ replicate (MAX_UDP_SIZE - length ?bs) 0"
      unfolding announced_def Let_def padded_def by (simp del: length_drop)
    also have "drop 4 (with_hash ?bs) = (drop 8 a @ junk) @ mime @ [0] @ (if f then text_bytes t else [])"
      unfolding drop_with_hash by (simp add: sap_prefix_def)
    finally show ?thesis using 16 by simp
  qed
  then show ?thesis using sap_update_spec [OF assms(1,2) m g refl refl, of build mp] assms(5)
    by (simp add: src msg_put_def) blast
qed

section \<open>Examples\<close>

definition sample_sap :: sap_p_t where
  "sample_sap = init_sap_v\<lparr>sap_status := OPTION_ON, sap_messages4 := Some [zero_sap_message], sap_messages6 := Some [zero_sap_message],
     sap_sending_ip4 := ''192.168.1.1'', sap_sending_ip6 := ''2001:db8::1'', sap_last_time_sent := 100\<rparr>"

definition sample_sap_chan :: mumudvb_channel_t where
  "sample_sap_chan = zero_channel\<lparr>channel_ready := READY, mumudvb_channel_t.name := ''News'', ip4Out := ''239.100.0.1'',
     portOut := 1234, socketOut4 := 5\<rparr>"


definition sent_message :: mumudvb_sap_message_t where
  "sent_message = zero_sap_message\<lparr>sap_len := 2, to_be_sent := True\<rparr>"

definition started_sap :: sap_p_t where
  "started_sap = sample_sap\<lparr>sap_messages4 := Some [sent_message], sap_messages6 := None, sap_socketOut4 := 9\<rparr>"

definition removed_chan :: mumudvb_channel_t where
  "removed_chan = zero_channel\<lparr>channel_ready := REMOVED\<rparr>"

lemma sample_started: "sap_started 1 started_sap [removed_chan]"
  by (simp add: sap_started_def started_sap_def sample_sap_def sap_ok_def arr_ok_def has_arrays_def removed_chan_def
      zero_channel_def sent_message_def zero_sap_message_def msg_ok_def)

theorem sap_poll_sends_witness:
  "\<exists>out q chs'. sap_poll ''2'' (replicate 8 0) init_multicast_v 104 1 started_sap [removed_chan] = Some (out, q, chs') \<and> out = []"
  using sap_poll_sends [OF _ sample_started, of "replicate 8 0" "''2''" init_multicast_v 104]
  by (auto simp: started_sap_def sample_sap_def init_sap_v_def)

theorem removed_still_announced_witness:
  "\<exists>out q chs'. sap_poll ''2'' (replicate 8 0) init_multicast_v 105 1 started_sap [removed_chan] = Some (out, q, chs') \<and>
     (9, [0, 0]) \<in> set out"
proof -
  have "sap_messages4 started_sap = Some [sent_message]" "sap_socketOut4 started_sap = 9" "channel_ready removed_chan = REMOVED"
      "105 - sap_last_time_sent started_sap \<ge> sap_interval started_sap"
    by (simp_all add: started_sap_def sample_sap_def init_sap_v_def removed_chan_def)
  moreover have "take (sap_len sent_message) (sap_buf sent_message) = [0, 0]" "to_be_sent sent_message"
    by (simp_all add: sent_message_def zero_sap_message_def MAX_UDP_SIZE_def numeral_eq_Suc)
  ultimately show ?thesis
    using removed_still_announced [OF _ sample_started, of "replicate 8 0" 0 "[sent_message]" 105 "''2''" init_multicast_v] by simp
qed

definition sample_sap_chan6 :: mumudvb_channel_t where
  "sample_sap_chan6 = sample_sap_chan\<lparr>socketOut4 := 0, socketOut6 := 5, ip6Out := ''ff15::1''\<rparr>"

theorem sap_source6_wrong_witness:
  "inet_pton6 ''2001:db8::1'' = Some [0x20, 1, 0x0d, 0xb8, 0, 0, 0, 0, 0, 0, 0, 0, 0, 0, 0, 1] \<and>
   (\<exists>m q ch'. sap_update ''2'' (replicate 8 0xff) init_multicast_v sample_sap 0 sample_sap_chan6 = Some (q, ch') \<and>
     sap_messages6 q = Some [m] \<and>
     take 16 (drop 4 (sap_buf m)) = [0, 0, 0, 0, 0, 0, 0, 1, 0xff, 0xff, 0xff, 0xff, 0xff, 0xff, 0xff, 0xff])"
proof -
  have a: "inet_pton6 ''2001:db8::1'' = Some [0x20, 1, 0x0d, 0xb8, 0, 0, 0, 0, 0, 0, 0, 0, 0, 0, 0, 1]" by code_simp
  have c: "READY \<le> channel_ready sample_sap_chan6" "socketOut4 sample_sap_chan6 = 0" "socketOut6 sample_sap_chan6 \<noteq> 0"
      "sap_messages6 sample_sap = Some [zero_sap_message]" "sap_sending_ip6 sample_sap = ''2001:db8::1''"
    by (simp_all add: sample_sap_chan6_def sample_sap_chan_def sample_sap_def READY_le)
  show ?thesis
    using sap_source6_wrong [OF c(1) _ c(2,3,4), of "replicate 8 0xff" 0 _ "''2''" init_multicast_v] a c(5) by (simp add: numeral_eq_Suc)
qed

end
