(* ===== verification/Tune_Params.thy ===== *)
theory Tune_Params
  imports Config_Lines Complex_Main
begin

text \<open>
  The tuning parameters and the reader of their options, \<^verbatim>\<open>src/src/tune.h\<close> and \<^verbatim>\<open>src/src/tune.c\<close>, in a build with
  version 5.8 or later of the DVB API. The enumerations are those of the kernel header, with the names that the
  code uses. Which names the header defines as macros, so that \<^verbatim>\<open>#ifdef\<close> sees them, is an argument.

  A frequency is a rational number instead of a \<^verbatim>\<open>double\<close>: the code scales it by 1000 at most, and only a fraction
  that a \<^verbatim>\<open>double\<close> rounds can differ. A decimal number has no exponent.
\<close>

section \<open>Parameters\<close>

datatype fe_type_t = FE_QPSK | FE_QAM | FE_OFDM | FE_ATSC

datatype fe_modulation_t = QPSK | QAM_16 | QAM_32 | QAM_64 | QAM_128 | QAM_256 | QAM_AUTO | VSB_8 | VSB_16 |
  PSK_8 | APSK_16 | APSK_32 | DQPSK

datatype fe_code_rate_t = FEC_NONE | FEC_1_2 | FEC_2_3 | FEC_3_4 | FEC_4_5 | FEC_5_6 | FEC_6_7 | FEC_7_8 | FEC_8_9 |
  FEC_AUTO | FEC_3_5 | FEC_9_10

datatype fe_transmit_mode_t = TRANSMISSION_MODE_2K | TRANSMISSION_MODE_8K | TRANSMISSION_MODE_AUTO |
  TRANSMISSION_MODE_4K | TRANSMISSION_MODE_16K | TRANSMISSION_MODE_32K

datatype fe_guard_interval_t = GUARD_INTERVAL_1_32 | GUARD_INTERVAL_1_16 | GUARD_INTERVAL_1_8 | GUARD_INTERVAL_1_4 |
  GUARD_INTERVAL_AUTO | GUARD_INTERVAL_1_128 | GUARD_INTERVAL_19_128 | GUARD_INTERVAL_19_256

datatype fe_bandwidth_t = BANDWIDTH_8_MHZ | BANDWIDTH_7_MHZ | BANDWIDTH_6_MHZ | BANDWIDTH_AUTO |
  BANDWIDTH_5_MHZ | BANDWIDTH_10_MHZ | BANDWIDTH_1_712_MHZ

datatype fe_hierarchy_t = HIERARCHY_NONE

datatype fe_delivery_system_t = SYS_UNDEFINED | SYS_DVBC_ANNEX_AC | SYS_DVBC_ANNEX_B | SYS_DVBT | SYS_DSS | SYS_DVBS |
  SYS_DVBS2 | SYS_DVBH | SYS_ISDBT | SYS_ISDBS | SYS_ISDBC | SYS_ATSC | SYS_ATSCMH | SYS_DMBTH | SYS_CMMB | SYS_DAB |
  SYS_DVBT2

datatype fe_rolloff_t = ROLLOFF_35 | ROLLOFF_20 | ROLLOFF_25 | ROLLOFF_AUTO

datatype pls_type_t = PLS_ROOT | PLS_GOLD | PLS_COMMON

datatype lnb_type_t = LNB_UNIVERSAL | LNB_STANDARD

record tune_p_t =
  card :: int
  tuner :: int
  card_dev_path :: string
  card_tuned :: bool
  tuning_timeout :: int
  freq :: rat
  srate :: nat
  pol :: char
  lnb_type :: lnb_type_t
  lnb_lof_standard :: nat
  lnb_slof :: nat
  lnb_lof_low :: nat
  lnb_lof_high :: nat
  lnb_voltage_off :: int
  sat_number :: nat
  switch_no :: int
  pin_no :: int
  switch_type :: char
  diseqc_repeat :: int
  diseqc_time :: int
  uni_freq :: nat
  modulation :: fe_modulation_t
  modulation_set :: bool
  HP_CodeRate :: fe_code_rate_t
  LP_CodeRate :: fe_code_rate_t
  TransmissionMode :: fe_transmit_mode_t
  guardInterval :: fe_guard_interval_t
  bandwidth :: fe_bandwidth_t
  hier :: fe_hierarchy_t
  display_strenght :: int
  tune_check_status :: int
  fe_type :: fe_type_t
  delivery_system :: fe_delivery_system_t
  rolloff :: fe_rolloff_t
  stream_id :: int
  pls_code :: int
  pls_type :: pls_type_t
  read_file_path :: string
  source_addr :: string
  source_port :: nat
  isdbt_layer :: nat

definition init_tune_v :: tune_p_t where
  "init_tune_v = \<lparr> card = -1, tuner = 0, card_dev_path = ''/dev/dvb/adapter%card'', card_tuned = False, tuning_timeout = 60,
     freq = 0, srate = 0, pol = CHR 0x00, lnb_type = LNB_UNIVERSAL, lnb_lof_standard = 10750000, lnb_slof = 11700000,
     lnb_lof_low = 9750000, lnb_lof_high = 10600000, lnb_voltage_off = 0, sat_number = 0, switch_no = -1, pin_no = -1,
     switch_type = CHR ''C'', diseqc_repeat = 0, diseqc_time = 15, uni_freq = 0, modulation = QPSK, modulation_set = False,
     HP_CodeRate = FEC_AUTO, LP_CodeRate = FEC_NONE, TransmissionMode = TRANSMISSION_MODE_AUTO,
     guardInterval = GUARD_INTERVAL_AUTO, bandwidth = BANDWIDTH_8_MHZ, hier = HIERARCHY_NONE, display_strenght = 0,
     tune_check_status = 1, fe_type = FE_QPSK, delivery_system = SYS_UNDEFINED, rolloff = ROLLOFF_35, stream_id = 0,
     pls_code = 0, pls_type = PLS_ROOT, read_file_path = [], source_addr = [], source_port = 0, isdbt_layer = 0 \<rparr>"

section \<open>Numbers\<close>

text \<open>\<^verbatim>\<open>atof\<close>, conversion to \<^verbatim>\<open>int\<close>, and the conversions to unsigned integers of a width.\<close>

fun fraction :: "rat \<Rightarrow> string \<Rightarrow> rat" where
  "fraction u [] = 0"
| "fraction u (c # cs) = (if is_digit c then of_int (of_char c - 48) * u + fraction (u / 10) cs else 0)"

definition decimal :: "string \<Rightarrow> rat" where
  "decimal s = of_int (atoi_digits 0 s) +
     (case dropWhile is_digit s of c # cs \<Rightarrow> if c = CHR ''.'' then fraction (1 / 10) cs else 0 | [] \<Rightarrow> 0)"

definition atof :: "string \<Rightarrow> rat" where
  "atof s = (case dropWhile is_space s of
       [] \<Rightarrow> 0
     | c # cs \<Rightarrow> if c = CHR ''-'' then - decimal cs else if c = CHR ''+'' then decimal cs else decimal (c # cs))"

definition trunc :: "rat \<Rightarrow> int" where
  "trunc x = (if x < 0 then - \<lfloor>- x\<rfloor> else \<lfloor>x\<rfloor>)"

definition to_u :: "nat \<Rightarrow> int \<Rightarrow> nat" where
  "to_u w x = nat (x mod 2 ^ w)"

definition tolower :: "char \<Rightarrow> char" where
  "tolower c = (if 65 \<le> (of_char c :: nat) \<and> (of_char c :: nat) \<le> 90 then char_of (of_char c + 32 :: nat) else c)"

section \<open>Reading the options\<close>

record dvb_header =
  modes_4k_16k_32k :: "bool \<times> bool \<times> bool"
  bandwidths_5_10_1712 :: "bool \<times> bool \<times> bool"
  guards_1_128_19_128_19_256 :: "bool \<times> bool \<times> bool"

definition trans_modes :: "dvb_header \<Rightarrow> (string \<times> fe_transmit_mode_t) list" where
  "trans_modes h = (case modes_4k_16k_32k h of (a, b, c) \<Rightarrow>
     [(''2k'', TRANSMISSION_MODE_2K), (''8k'', TRANSMISSION_MODE_8K), (''auto'', TRANSMISSION_MODE_AUTO)] @
     (if a then [(''4k'', TRANSMISSION_MODE_4K)] else []) @ (if b then [(''16k'', TRANSMISSION_MODE_16K)] else []) @
     (if c then [(''32k'', TRANSMISSION_MODE_32K)] else []))"

definition bandwidths :: "dvb_header \<Rightarrow> (string \<times> fe_bandwidth_t) list" where
  "bandwidths h = (case bandwidths_5_10_1712 h of (a, b, c) \<Rightarrow>
     [(''8MHz'', BANDWIDTH_8_MHZ), (''7MHz'', BANDWIDTH_7_MHZ), (''6MHz'', BANDWIDTH_6_MHZ), (''auto'', BANDWIDTH_AUTO)] @
     (if a then [(''5MHz'', BANDWIDTH_5_MHZ)] else []) @ (if b then [(''10MHz'', BANDWIDTH_10_MHZ)] else []) @
     (if c then [(''1.712MHz'', BANDWIDTH_1_712_MHZ)] else []))"

definition guard_intervals :: "dvb_header \<Rightarrow> (string \<times> fe_guard_interval_t) list" where
  "guard_intervals h = (case guards_1_128_19_128_19_256 h of (a, b, c) \<Rightarrow>
     [(''1/32'', GUARD_INTERVAL_1_32), (''1/16'', GUARD_INTERVAL_1_16), (''1/8'', GUARD_INTERVAL_1_8),
      (''1/4'', GUARD_INTERVAL_1_4), (''auto'', GUARD_INTERVAL_AUTO)] @
     (if a then [(''1/128'', GUARD_INTERVAL_1_128)] else []) @ (if b then [(''19/128'', GUARD_INTERVAL_19_128)] else []) @
     (if c then [(''19/256'', GUARD_INTERVAL_19_256)] else []))"

definition code_rates :: "(string \<times> fe_code_rate_t) list" where
  "code_rates = [(''none'', FEC_NONE), (''1/2'', FEC_1_2), (''2/3'', FEC_2_3), (''3/4'', FEC_3_4), (''4/5'', FEC_4_5),
     (''5/6'', FEC_5_6), (''6/7'', FEC_6_7), (''7/8'', FEC_7_8), (''8/9'', FEC_8_9), (''auto'', FEC_AUTO),
     (''3/5'', FEC_3_5), (''9/10'', FEC_9_10)]"

definition delivery_systems :: "(string \<times> fe_delivery_system_t) list" where
  "delivery_systems = [(''DVBC_ANNEX_AC'', SYS_DVBC_ANNEX_AC), (''DVB-C'', SYS_DVBC_ANNEX_AC), (''DVBC'', SYS_DVBC_ANNEX_AC),
     (''DVBC_ANNEX_B'', SYS_DVBC_ANNEX_B), (''DVBT'', SYS_DVBT), (''DVB-T'', SYS_DVBT), (''DVBT2'', SYS_DVBT2),
     (''DVB-T2'', SYS_DVBT2), (''DSS'', SYS_DSS), (''DVBS'', SYS_DVBS), (''DVB-S'', SYS_DVBS), (''DVBS2'', SYS_DVBS2),
     (''DVB-S2'', SYS_DVBS2), (''DVBH'', SYS_DVBH), (''DVB-H'', SYS_DVBH), (''ISDBT'', SYS_ISDBT), (''ISDBS'', SYS_ISDBS),
     (''ISDBC'', SYS_ISDBC), (''ATSC'', SYS_ATSC), (''ATSCMH'', SYS_ATSCMH), (''DMBTH'', SYS_DMBTH), (''CMMB'', SYS_CMMB),
     (''DAB'', SYS_DAB)]"

definition rolloffs :: "(string \<times> fe_rolloff_t) list" where
  "rolloffs = [(''35'', ROLLOFF_35), (''20'', ROLLOFF_20), (''25'', ROLLOFF_25), (''auto'', ROLLOFF_AUTO)]"

definition modulations :: "(string \<times> fe_modulation_t) list" where
  "modulations = [(''QPSK'', QPSK), (''QAM16'', QAM_16), (''QAM32'', QAM_32), (''QAM64'', QAM_64), (''QAM128'', QAM_128),
     (''QAM256'', QAM_256), (''QAMAUTO'', QAM_AUTO), (''VSB8'', VSB_8), (''VSB16'', VSB_16), (''8PSK'', PSK_8),
     (''16APSK'', APSK_16), (''32APSK'', APSK_32), (''DQPSK'', DQPSK)]"

text \<open>A value from a list of names: 1 and the parameters with it, or the error.\<close>

definition pick :: "tune_p_t \<Rightarrow> (string \<times> 'a) list \<Rightarrow> ('a \<Rightarrow> tune_p_t) \<Rightarrow> string \<Rightarrow> int \<times> tune_p_t" where
  "pick t names set_to v = (case map_of names v of Some x \<Rightarrow> (1, set_to x) | None \<Rightarrow> (-1, t))"

text \<open>The options of a satellite dish, the card and the numbers; \<open>0\<close> for any other option.\<close>

definition read_sat_option :: "tune_p_t \<Rightarrow> string \<Rightarrow> string \<Rightarrow> (int \<times> tune_p_t) option" where
  "read_sat_option t key rest =
     (if key = ''sat_number'' then
        map_option (\<lambda>v. let t = t\<lparr>sat_number := to_u 8 v\<rparr> in (if sat_number t > 4 then -1 else 1, t)) (arg_int rest)
      else if key = ''switch_input'' then
        map_option (\<lambda>v. (if v > 31 then -1 else 1, t\<lparr>switch_no := v\<rparr>)) (arg_int rest)
      else if key = ''pin_number'' then
        map_option (\<lambda>v. (1, t\<lparr>pin_no := (if v > 255 \<or> v < 0 then -1 else v)\<rparr>)) (arg_int rest)
      else if key = ''freq'' then
        map_option (\<lambda>v. (1, t\<lparr>freq := (if atof v < 1000000 then atof v * 1000 else atof v)\<rparr>)) (arg rest)
      else if key = ''uni_freq'' then map_option (\<lambda>v. (1, t\<lparr>uni_freq := to_u 32 (trunc (atof v))\<rparr>)) (arg rest)
      else if key = ''pol'' then
        map_option (pick t [(''v'', CHR ''V''), (''h'', CHR ''H''), (''l'', CHR ''L''), (''r'', CHR ''R'')]
          (\<lambda>c. t\<lparr>pol := c\<rparr>) \<circ> (\<lambda>v. [tolower (hd v)])) (arg rest)
      else if key = ''lnb_voltage_off'' then map_option (\<lambda>v. (1, t\<lparr>lnb_voltage_off := v\<rparr>)) (arg_int rest)
      else if key = ''lnb_type'' then
        map_option (pick t [(''universal'', LNB_UNIVERSAL), (''standard'', LNB_STANDARD)] (\<lambda>x. t\<lparr>lnb_type := x\<rparr>)) (arg rest)
      else if key = ''lnb_lof_standard'' then map_option (\<lambda>v. (1, t\<lparr>lnb_lof_standard := to_u 32 (v * 1000)\<rparr>)) (arg_int rest)
      else if key = ''lnb_slof'' then map_option (\<lambda>v. (1, t\<lparr>lnb_slof := to_u 32 (v * 1000)\<rparr>)) (arg_int rest)
      else if key = ''lnb_lof_high'' then map_option (\<lambda>v. (1, t\<lparr>lnb_lof_high := to_u 32 (v * 1000)\<rparr>)) (arg_int rest)
      else if key = ''lnb_lof_low'' then map_option (\<lambda>v. (1, t\<lparr>lnb_lof_low := to_u 32 (v * 1000)\<rparr>)) (arg_int rest)
      else if key = ''srate'' then map_option (\<lambda>v. (1, t\<lparr>srate := to_u 32 (v * 1000)\<rparr>)) (arg_int rest)
      else if key = ''card'' then map_option (\<lambda>v. (1, if card t \<noteq> -1 then t else t\<lparr>card := v\<rparr>)) (arg_int rest)
      else if key = ''check_status'' then map_option (\<lambda>v. (1, t\<lparr>tune_check_status := v\<rparr>)) (arg_int rest)
      else if key = ''tuner'' then map_option (\<lambda>v. (1, t\<lparr>tuner := v\<rparr>)) (arg_int rest)
      else if key = ''card_dev_path'' then do {
        v \<leftarrow> arg rest;
        if length v > 255 then Some (-1, t) else do {s \<leftarrow> store 256 v; Some (1, t\<lparr>card_dev_path := s\<rparr>)}}
      else Some (0, t))"

text \<open>The options of the modulation.\<close>

definition read_signal_option :: "dvb_header \<Rightarrow> tune_p_t \<Rightarrow> string \<Rightarrow> string \<Rightarrow> (int \<times> tune_p_t) option" where
  "read_signal_option h t key rest =
     (let word = map_option (\<lambda>v. sscanf_s v v) (arg rest)
      in if key = ''trans_mode'' then map_option (pick t (trans_modes h) (\<lambda>x. t\<lparr>TransmissionMode := x\<rparr>)) word
      else if key = ''bandwidth'' then map_option (pick t (bandwidths h) (\<lambda>x. t\<lparr>bandwidth := x\<rparr>)) word
      else if key = ''guardinterval'' then map_option (pick t (guard_intervals h) (\<lambda>x. t\<lparr>guardInterval := x\<rparr>)) word
      else if key = ''coderate'' then
        map_option (pick t code_rates (\<lambda>x. t\<lparr>HP_CodeRate := x, LP_CodeRate := x\<rparr>)) word
      else if key = ''delivery_system'' then
        map_option (pick t delivery_systems (\<lambda>x. t\<lparr>delivery_system := x\<rparr>)) word
      else if key = ''rolloff'' then map_option (pick t rolloffs (\<lambda>x. t\<lparr>rolloff := x\<rparr>)) word
      else if key = ''modulation'' then
        map_option (pick (t\<lparr>modulation_set := False\<rparr>) modulations (\<lambda>x. t\<lparr>modulation := x, modulation_set := True\<rparr>)) (arg rest)
      else Some (0, t))"

text \<open>The remaining options, and the function: the first group that knows the keyword.\<close>

definition read_other_option :: "tune_p_t \<Rightarrow> string \<Rightarrow> string \<Rightarrow> (int \<times> tune_p_t) option" where
  "read_other_option t key rest =
     (if key = ''timeout_accord'' \<or> key = ''tuning_timeout'' then map_option (\<lambda>v. (1, t\<lparr>tuning_timeout := v\<rparr>)) (arg_int rest)
      else if key = ''switch_type'' then
        map_option (pick t [(''u'', CHR ''U''), (''c'', CHR ''C''), (''b'', CHR ''B''), (''n'', CHR ''N''), (''j'', CHR ''J'')]
          (\<lambda>c. t\<lparr>switch_type := c\<rparr>) \<circ> (\<lambda>v. [tolower (hd v)])) (arg rest)
      else if key = ''diseqc_repeat'' then map_option (\<lambda>v. (1, t\<lparr>diseqc_repeat := v\<rparr>)) (arg_int rest)
      else if key = ''diseqc_timing'' then map_option (\<lambda>v. (1, t\<lparr>diseqc_time := (if v < 0 then 15 else v)\<rparr>)) (arg_int rest)
      else if key = ''stream_id'' then map_option (\<lambda>v. (1, t\<lparr>stream_id := (if v < 0 then 0 else v)\<rparr>)) (arg_int rest)
      else if key = ''pls_code'' then map_option (\<lambda>v. (1, t\<lparr>pls_code := (if v < 0 then 0 else v)\<rparr>)) (arg_int rest)
      else if key = ''pls_type'' then
        map_option (\<lambda>v. (1, if v = ''root'' then t\<lparr>pls_type := PLS_ROOT\<rparr> else if v = ''gold'' then t\<lparr>pls_type := PLS_GOLD\<rparr>
          else if v = ''common'' then t\<lparr>pls_type := PLS_COMMON\<rparr> else t)) (arg rest)
      else if key = ''read_file_path'' then do {
        s \<leftarrow> arg_text rest;
        (v, _) \<leftarrow> strtok [CHR 0x0A] s;
        Some (1, t\<lparr>read_file_path := take 255 v\<rparr>)}
      else if key = ''source_addr'' then do {
        v \<leftarrow> arg rest;
        if length v > 46 then Some (-1, t)
        else do {s \<leftarrow> store 64 (sscanf_s (source_addr t) v); Some (1, t\<lparr>source_addr := s\<rparr>)}}
      else if key = ''source_port'' then map_option (\<lambda>v. (1, t\<lparr>source_port := to_u 16 v\<rparr>)) (arg_int rest)
      else if key = ''isdbt_layer'' then do {
        v \<leftarrow> map_option (\<lambda>v. sscanf_s v v) (arg rest);
        (if v = ''A'' \<or> v = ''a'' then Some (1, t\<lparr>isdbt_layer := or (isdbt_layer t) 1\<rparr>)
          else if v = ''B'' \<or> v = ''b'' then Some (1, t\<lparr>isdbt_layer := or (isdbt_layer t) 2\<rparr>)
          else if v = ''C'' \<or> v = ''c'' then Some (1, t\<lparr>isdbt_layer := or (isdbt_layer t) 4\<rparr>)
          else if v = ''ALL'' \<or> v = ''all'' then Some (1, t\<lparr>isdbt_layer := 7\<rparr>)
          else Some (-1, t))}
      else Some (0, t))"

definition read_tuning_configuration :: "dvb_header \<Rightarrow> tune_p_t \<Rightarrow> string \<Rightarrow> string \<Rightarrow> (int \<times> tune_p_t) option" where
  "read_tuning_configuration h t key rest = do {
     (r, t') \<leftarrow> read_sat_option t key rest;
     if r \<noteq> 0 then Some (r, t')
     else do {
       (r, t') \<leftarrow> read_signal_option h t key rest;
       if r \<noteq> 0 then Some (r, t') else read_other_option t key rest}}"

end
