(* ===== verification/Config_Readers.thy ===== *)
theory Config_Readers
  imports Sap Tune_Params Rewrite
begin

text \<open>
  The readers of the remaining options: HTTP unicast and HLS (\<^verbatim>\<open>src/src/unicast_http.c\<close>), autoconfiguration
  (\<^verbatim>\<open>src/src/autoconf.c\<close>), the CAM (\<^verbatim>\<open>src/src/cam.c\<close>) and the log (\<^verbatim>\<open>src/src/log.c\<close>). They have the form that
  \<^verbatim>\<open>Config_Lines\<close> describes. Where a reader leaves the program with the error code itself, it returns -1, which makes
  the caller do the same.
\<close>

section \<open>Unicast\<close>

record unicast_conf =
  unicast :: int
  ipOut :: string
  portOut :: int
  portOut_str :: "string option"
  consecutive_errors_timeout :: int
  max_clients :: int
  queue_max_size :: int
  socket_sendbuf_size :: int
  flush_on_eagain :: int
  playlist_ignore_dead :: int
  playlist_ignore_scrambled_ratio :: int
  hls :: int
  hls_rotate_time :: int
  hls_rotate_count :: int
  hls_rotate_iframe :: int
  hls_storage_dir :: string
  hls_playlist_name :: string

definition init_unicast_conf :: unicast_conf where
  "init_unicast_conf = \<lparr> unicast = 0, ipOut = ''0.0.0.0'', portOut = 4242, portOut_str = None, consecutive_errors_timeout = 5,
     max_clients = -1, queue_max_size = 1024 * 512, socket_sendbuf_size = 0, flush_on_eagain = 0, playlist_ignore_dead = 0,
     playlist_ignore_scrambled_ratio = 0, hls = 0, hls_rotate_time = 10, hls_rotate_count = 2, hls_rotate_iframe = 0,
     hls_storage_dir = ''/tmp'', hls_playlist_name = ''playlist.m3u8'' \<rparr>"

definition INET6_ADDRSTRLEN :: nat where "INET6_ADDRSTRLEN = 46"

definition MAX_NAME_LEN :: nat where "MAX_NAME_LEN = 512"

text \<open>
  The port: the spaces are taken out of the text up to an equals sign, and when nothing is left, which happens when
  spaces come before the equals sign, the text after it is taken as it is.
\<close>

definition port_text :: "string \<Rightarrow> string option" where
  "port_text rest = do {
     (s, rest') \<leftarrow> strtok ''='' rest;
     (t, _) \<leftarrow> mumu_string_replace s (length s + 1) True '' '' [];
     if t = [] then map_option fst (strtok ''='' rest') else Some t}"

definition read_http_option :: "unicast_conf \<Rightarrow> chan_opt \<Rightarrow> string \<Rightarrow> string \<Rightarrow> (int \<times> unicast_conf \<times> chan_opt) option" where
  "read_http_option u ch key rest =
     (if key = ''ip_http'' then do {
        v \<leftarrow> arg rest;
        if length v > INET6_ADDRSTRLEN then Some (-1, u, ch)
        else do {
          s \<leftarrow> store INET6_ADDRSTRLEN (sscanf_s (ipOut u) v);
          let u = u\<lparr>ipOut := s\<rparr>;
          Some (1, if s \<noteq> [] \<and> unicast u = 0 then u\<lparr>unicast := 1\<rparr> else u, ch)}}
      else if key = ''unicast'' then map_option (\<lambda>v. (1, u\<lparr>unicast := v\<rparr>, ch)) (arg_int rest)
      else if key = ''unicast_consecutive_errors_timeout'' then
        map_option (\<lambda>v. (1, u\<lparr>consecutive_errors_timeout := v\<rparr>, ch)) (arg_int rest)
      else if key = ''unicast_max_clients'' then map_option (\<lambda>v. (1, u\<lparr>max_clients := v\<rparr>, ch)) (arg_int rest)
      else if key = ''unicast_queue_size'' then map_option (\<lambda>v. (1, u\<lparr>queue_max_size := v\<rparr>, ch)) (arg_int rest)
      else if key = ''port_http'' then
        map_option (\<lambda>s. (1, if CHR ''*'' \<in> set s \<or> CHR ''+'' \<in> set s \<or> CHR ''%'' \<in> set s
          then u\<lparr>portOut_str := Some s\<rparr> else u\<lparr>portOut := atoi s\<rparr>, ch)) (port_text rest)
      else if key = ''unicast_port'' then
        (case ch of None \<Rightarrow> Some (-1, u, ch)
         | Some c \<Rightarrow> map_option (\<lambda>v. (1, u, Some (c\<lparr>unicast_port := v, unicast_port_f := F_USER\<rparr>))) (arg_int rest))
      else if key = ''socket_sendbuf_size'' then map_option (\<lambda>v. (1, u\<lparr>socket_sendbuf_size := v\<rparr>, ch)) (arg_int rest)
      else if key = ''flush_on_eagain'' then map_option (\<lambda>v. (1, u\<lparr>flush_on_eagain := v\<rparr>, ch)) (arg_int rest)
      else if key = ''playlist_ignore_dead'' then map_option (\<lambda>v. (1, u\<lparr>playlist_ignore_dead := v\<rparr>, ch)) (arg_int rest)
      else if key = ''playlist_ignore_scrambled_ratio'' then
        map_option (\<lambda>v. (1, u\<lparr>playlist_ignore_scrambled_ratio := min v 100\<rparr>, ch)) (arg_int rest)
      else Some (0, u, ch))"

definition read_hls_option :: "unicast_conf \<Rightarrow> string \<Rightarrow> string \<Rightarrow> (int \<times> unicast_conf) option" where
  "read_hls_option u key rest =
     (if key = ''hls'' then map_option (\<lambda>v. (1, u\<lparr>hls := v\<rparr>)) (arg_int rest)
      else if key = ''hls_rotate_time'' then map_option (\<lambda>v. (1, u\<lparr>hls_rotate_time := max v 1\<rparr>)) (arg_int rest)
      else if key = ''hls_rotate_count'' then map_option (\<lambda>v. (1, u\<lparr>hls_rotate_count := max v 1\<rparr>)) (arg_int rest)
      else if key = ''hls_rotate_iframe'' then map_option (\<lambda>v. (1, u\<lparr>hls_rotate_iframe := max v 0\<rparr>)) (arg_int rest)
      else if key = ''hls_storage_dir'' then do {
        t \<leftarrow> arg rest;
        (v, _) \<leftarrow> strtok [CHR 0x0A] t;
        Some (1, u\<lparr>hls_storage_dir := take (MAX_NAME_LEN - 1) v\<rparr>)}
      else if key = ''hls_playlist_name'' then do {
        t \<leftarrow> arg rest;
        (v, _) \<leftarrow> strtok [CHR 0x0A] t;
        Some (1, u\<lparr>hls_playlist_name := take (MAX_NAME_LEN - 1) v\<rparr>)}
      else Some (0, u))"

definition read_unicast_configuration ::
  "unicast_conf \<Rightarrow> chan_opt \<Rightarrow> string \<Rightarrow> string \<Rightarrow> (int \<times> unicast_conf \<times> chan_opt) option" where
  "read_unicast_configuration u ch key rest = do {
     (r, u', ch') \<leftarrow> read_http_option u ch key rest;
     if r \<noteq> 0 then Some (r, u', ch')
     else do {(r, u') \<leftarrow> read_hls_option u key rest; Some (r, u', ch)}}"

section \<open>Autoconfiguration\<close>

text \<open>The numbers of a list option, into an array of \<open>MAX_CHANNELS\<close> entries of which \<open>n\<close> are in use.\<close>

function read_sid_list :: "int list \<Rightarrow> nat \<Rightarrow> string \<Rightarrow> (int \<times> int list \<times> nat) option" where
  "read_sid_list ids n rest =
     (case strtok CONFIG_FILE_SEPARATOR rest of
        None \<Rightarrow> Some (1, ids, n)
      | Some (v, rest') \<Rightarrow>
          if n \<ge> MAX_CHANNELS then Some (-1, ids, n)
          else (case wr ids n (atoi v) of None \<Rightarrow> None | Some ids' \<Rightarrow> read_sid_list ids' (n + 1) rest'))"
  by pat_completeness auto
termination
  by (relation "measure (\<lambda>(_, _, rest). length rest)") (auto dest: strtok_shorter)

declare read_sid_list.simps [simp del]

definition read_autoconf_option :: "auto_p_t \<Rightarrow> string \<Rightarrow> string \<Rightarrow> (int \<times> auto_p_t) option" where
  "read_autoconf_option a key rest =
     (if key = ''autoconf_scrambled'' then map_option (\<lambda>v. (1, a\<lparr>autoconf_scrambled := (v \<noteq> 0)\<rparr>)) (arg_int rest)
      else if key = ''autoconfiguration'' then
        map_option (\<lambda>v.
          let m = (if atoi v = 1 \<or> v = ''full'' then AUTOCONF_MODE_FULL else if v = ''none'' then 0 else autoconfiguration a)
          in (1, a\<lparr>autoconfiguration := (if m = AUTOCONF_MODE_FULL then m else 0)\<rparr>)) (arg rest)
      else if key = ''autoconf_radios'' then map_option (\<lambda>v. (1, a\<lparr>autoconf_radios := (v \<noteq> 0)\<rparr>)) (arg_int rest)
      else if key = ''autoconf_ip4'' then do {
        v \<leftarrow> arg rest;
        if length v > 79 then Some (-1, a)
        else do {s \<leftarrow> store 80 (sscanf_s (autoconf_ip4 a) v); Some (1, a\<lparr>autoconf_ip4 := s\<rparr>)}}
      else if key = ''autoconf_ip6'' then do {
        v \<leftarrow> arg rest;
        if length v > 79 then Some (-1, a)
        else do {s \<leftarrow> store 80 (sscanf_s (autoconf_ip6 a) v); Some (1, a\<lparr>autoconf_ip6 := s\<rparr>)}}
      else if key = ''autoconf_unicast_start_port'' then
        map_option (\<lambda>v. (1, a\<lparr>autoconf_unicast_port := print_d v @ '' +%number''\<rparr>)) (arg_int rest)
      else if key = ''autoconf_unicast_port'' then do {
        v \<leftarrow> arg_text rest;
        if length v > 255 then Some (-1, a)
        else do {s \<leftarrow> store 256 v; Some (1, a\<lparr>autoconf_unicast_port := s\<rparr>)}}
      else if key = ''autoconf_multicast_port'' then do {
        v \<leftarrow> arg_text rest;
        if length v > 255 then Some (-1, a)
        else do {s \<leftarrow> store 256 v; Some (1, a\<lparr>autoconf_multicast_port := s\<rparr>)}}
      else Some (0, a))"

definition read_autoconfiguration_configuration :: "auto_p_t \<Rightarrow> string \<Rightarrow> string \<Rightarrow> (int \<times> auto_p_t) option" where
  "read_autoconfiguration_configuration a key rest =
     (if key = ''autoconf_sid_list'' then
        map_option (\<lambda>(r, ids, n). (r, a\<lparr>service_id_list := ids, num_service_id := n\<rparr>))
          (read_sid_list (service_id_list a) (num_service_id a) rest)
      else if key = ''autoconf_sid_list_ignore'' then
        map_option (\<lambda>(r, ids, n). (r, a\<lparr>service_id_list_ignore := ids, num_service_id_ignore := n\<rparr>))
          (read_sid_list (service_id_list_ignore a) (num_service_id_ignore a) rest)
      else if key = ''autoconf_name_template'' then do {
        t \<leftarrow> arg_text rest;
        (v, _) \<leftarrow> strtok [CHR 0x0A] t;
        Some (1, a\<lparr>name_template := take (MAX_NAME_LEN - 1) v\<rparr>)}
      else read_autoconf_option a key rest)"

section \<open>CAM\<close>

record cam_conf =
  cam_support :: int
  cam_number :: int
  cam_reask_interval :: int
  timeout_no_cam_init :: int
  reset_interval :: int
  cam_delay_pmt_send :: int
  cam_interval_pmt_send :: int
  cam_pmt_follow :: int

definition init_cam_v :: cam_conf where
  "init_cam_v = \<lparr> cam_support = 0, cam_number = 0, cam_reask_interval = 0, timeout_no_cam_init = 30, reset_interval = 30,
     cam_delay_pmt_send = 0, cam_interval_pmt_send = 3, cam_pmt_follow = 1 \<rparr>"

definition read_cam_configuration :: "cam_conf \<Rightarrow> chan_opt \<Rightarrow> string \<Rightarrow> string \<Rightarrow> (int \<times> cam_conf \<times> chan_opt) option" where
  "read_cam_configuration c ch key rest =
     (if key = ''cam_support'' then map_option (\<lambda>v. (1, c\<lparr>cam_support := v\<rparr>, ch)) (arg_int rest)
      else if key = ''cam_reask_interval'' then map_option (\<lambda>v. (1, c\<lparr>cam_reask_interval := v\<rparr>, ch)) (arg_int rest)
      else if key = ''cam_reset_interval'' then
        map_option (\<lambda>v. (1, c\<lparr>reset_interval := v, timeout_no_cam_init := v\<rparr>, ch)) (arg_int rest)
      else if key = ''cam_number'' then map_option (\<lambda>v. (1, c\<lparr>cam_number := v\<rparr>, ch)) (arg_int rest)
      else if key = ''cam_delay_pmt_send'' then map_option (\<lambda>v. (1, c\<lparr>cam_delay_pmt_send := v\<rparr>, ch)) (arg_int rest)
      else if key = ''cam_interval_pmt_send'' then map_option (\<lambda>v. (1, c\<lparr>cam_interval_pmt_send := v\<rparr>, ch)) (arg_int rest)
      else if key = ''cam_pmt_follow'' then map_option (\<lambda>v. (1, c\<lparr>cam_pmt_follow := v\<rparr>, ch)) (arg_int rest)
      else if key = ''cam_ask'' then
        Some (case ch of None \<Rightarrow> (-1, c, ch)
          | Some x \<Rightarrow> (1, c, Some (x\<lparr>need_cam_ask := CAM_NEED_ASK, need_cam_ask_f := F_USER\<rparr>)))
      else if key = ''cam_no_ask'' then
        Some (case ch of None \<Rightarrow> (-1, c, ch)
          | Some x \<Rightarrow> (1, c, Some (x\<lparr>need_cam_ask := CAM_NO_ASK, need_cam_ask_f := F_USER\<rparr>)))
      else Some (0, c, ch))"

section \<open>Statistics and log\<close>

record stats_infos_t =
  show_buffer_stats :: int
  show_buffer_stats_interval :: int
  show_traffic :: int
  show_traffic_interval :: int
  compute_traffic_interval :: int
  up_threshold :: int
  down_threshold :: int
  debug_updown :: int

definition init_stats_v :: stats_infos_t where
  "init_stats_v = \<lparr> show_buffer_stats = 0, show_buffer_stats_interval = 120, show_traffic = 0, show_traffic_interval = 10,
     compute_traffic_interval = 10, up_threshold = 80, down_threshold = 30, debug_updown = 0 \<rparr>"

record log_params_t =
  log_console :: bool
  log_syslog :: bool
  log_file_path :: "string option"
  log_header :: "string option"
  log_flush_interval :: rat

definition init_log_params :: log_params_t where
  "init_log_params = \<lparr> log_console = False, log_syslog = False, log_file_path = None, log_header = None,
     log_flush_interval = -1 \<rparr>"

definition read_logging_configuration ::
  "stats_infos_t \<Rightarrow> log_params_t \<Rightarrow> string \<Rightarrow> string \<Rightarrow> (int \<times> stats_infos_t \<times> log_params_t) option" where
  "read_logging_configuration s l key rest =
     (if key = ''show_traffic_interval'' then map_option (\<lambda>v. (1, s\<lparr>show_traffic_interval := max v 1\<rparr>, l)) (arg_int rest)
      else if key = ''compute_traffic_interval'' then
        map_option (\<lambda>v. (1, s\<lparr>compute_traffic_interval := max v 1\<rparr>, l)) (arg_int rest)
      else if key = ''up_threshold'' then map_option (\<lambda>v. (1, s\<lparr>up_threshold := v\<rparr>, l)) (arg_int rest)
      else if key = ''down_threshold'' then map_option (\<lambda>v. (1, s\<lparr>down_threshold := v\<rparr>, l)) (arg_int rest)
      else if key = ''debug_updown'' then map_option (\<lambda>v. (1, s\<lparr>debug_updown := v\<rparr>, l)) (arg_int rest)
      else if key = ''log_type'' then
        map_option (\<lambda>v. (1, s, if v = ''console'' then l\<lparr>log_console := True\<rparr>
          else if v = ''syslog'' then l\<lparr>log_syslog := True\<rparr> else l)) (arg rest)
      else if key = ''log_file'' then map_option (\<lambda>v. (1, s, l\<lparr>log_file_path := Some v\<rparr>)) (arg rest)
      else if key = ''log_header'' then map_option (\<lambda>v. (1, s, l\<lparr>log_header := Some v\<rparr>)) (arg_text rest)
      else if key = ''log_flush_interval'' then map_option (\<lambda>v. (1, s, l\<lparr>log_flush_interval := atof v\<rparr>)) (arg rest)
      else Some (0, s, l))"

section \<open>Properties\<close>

text \<open>
  An address of \<open>INET6_ADDRSTRLEN\<close> characters passes the check of its length and does not fit with its NUL.
\<close>

lemma ip_http_overflow:
  assumes "length v = INET6_ADDRSTRLEN" "\<forall>c \<in> set v. c \<notin> set CONFIG_FILE_SEPARATOR \<and> \<not> is_space c"
  shows "read_unicast_configuration u ch ''ip_http'' v = None"
proof -
  have ne: "v \<noteq> []" using assms(1) by (auto simp: INET6_ADDRSTRLEN_def)
  have a: "arg v = Some v" using strtok_last [OF ne, of CONFIG_FILE_SEPARATOR] assms(2) by (simp add: arg_def)
  have d: "dropWhile is_space v = v" using assms(2) ne by (cases v) auto
  have t: "takeWhile (\<lambda>c. \<not> is_space c) v = v" using assms(2) by simp
  have "sscanf_s (ipOut u) v = v" unfolding sscanf_s_def d t Let_def using ne by simp
  then show ?thesis using a assms(1) by (simp add: read_unicast_configuration_def read_http_option_def store_def)
qed

text \<open>A list of services never leaves its array.\<close>

lemma read_sid_list_ok:
  "length ids = MAX_CHANNELS \<Longrightarrow> n \<le> MAX_CHANNELS \<Longrightarrow>
     \<exists>r ids' n'. read_sid_list ids n rest = Some (r, ids', n') \<and> length ids' = MAX_CHANNELS \<and> n' \<le> MAX_CHANNELS"
proof (induction ids n rest rule: read_sid_list.induct)
  case (1 ids n rest)
  show ?case
  proof (cases "strtok CONFIG_FILE_SEPARATOR rest")
    case None then show ?thesis using "1.prems" by (simp add: read_sid_list.simps [of ids n rest])
  next
    case (Some x)
    obtain v rest' where x: "x = (v, rest')" by (cases x)
    show ?thesis
    proof (cases "n \<ge> MAX_CHANNELS")
      case True then show ?thesis unfolding read_sid_list.simps [of ids n rest] using "1.prems" Some x by simp
    next
      case False
      then have w: "wr ids n (atoi v) = Some (ids[n := atoi v])" using "1.prems" by (simp add: wr_in)
      then show ?thesis using "1.IH" [OF Some x [symmetric] False w] "1.prems" False Some x
        by (simp add: read_sid_list.simps [of ids n rest])
    qed
  qed
qed

end
