(* ===== verification/Config.thy ===== *)
theory Config
  imports Config_Readers
begin

text \<open>
  Reading the configuration in \<^verbatim>\<open>main\<close> of \<^verbatim>\<open>src/src/mumudvb.c\<close>, in a build with CAM and without SCAM support: the
  lines of the file, then the options \<^verbatim>\<open>-o\<close> of the command line, then the values that depend on one another.

  A line has its NUL removed; \<open>Inl\<close> is the code the program ends with. \<open>None\<close> is a null pointer or an access out of an
  array. Numbers that the model keeps as naturals (service identifiers) are not negative.
\<close>

section \<open>State\<close>

record config =
  cfg_tune :: tune_p_t
  cfg_auto :: auto_p_t
  cfg_sap :: sap_p_t
  cfg_cam :: cam_conf
  cfg_unic :: unicast_conf
  cfg_multi :: multi_p_t
  cfg_rewr :: rewrite_parameters_t
  cfg_stats :: stats_infos_t
  cfg_log :: log_params_t
  cfg_channels :: "mumudvb_channel_t list"
  ichan :: int
  timeout_no_diff :: int
  tuning_no_diff :: int
  dont_send_scrambled :: int
  filter_transport_error :: int
  psi_tables_filtering :: nat
  dvr_buffer_size :: int
  threaded_read :: int
  max_thread_buffer_size :: int
  cfg_server_id :: int
  filename_pid :: string
  check_cc :: nat
  cfg_t2mi_pid :: int
  t2mi_plp :: nat

text \<open>The values before the file is read.\<close>

definition init_config :: config where
  "init_config = \<lparr> cfg_tune = init_tune_v, cfg_auto = init_aconf_v, cfg_sap = init_sap_v, cfg_cam = init_cam_v,
     cfg_unic = init_unicast_conf, cfg_multi = init_multicast_v, cfg_rewr = init_rewr_v, cfg_stats = init_stats_v,
     cfg_log = init_log_params, cfg_channels = replicate MAX_CHANNELS zero_channel, ichan = -1, timeout_no_diff = 600,
     tuning_no_diff = 0, dont_send_scrambled = 0, filter_transport_error = 0, psi_tables_filtering = 0,
     dvr_buffer_size = 20, threaded_read = 0, max_thread_buffer_size = 5000, cfg_server_id = 0,
     filename_pid = ''/var/run/mumudvb/mumudvb_adapter%card_tuner%tuner.pid'', check_cc = 0, cfg_t2mi_pid = 0, t2mi_plp = 0 \<rparr>"

type_synonym outcome = "int + config"

definition ERROR_CONF :: int where "ERROR_CONF = 3"
definition ERROR_TOO_CHANNELS :: int where "ERROR_TOO_CHANNELS = 4"

text \<open>The channel that the line belongs to, and putting it back.\<close>

definition cur_chan :: "config \<Rightarrow> chan_opt option" where
  "cur_chan c = (if ichan c < 0 then Some None else map_option Some (rd (cfg_channels c) (nat (ichan c))))"

definition put_chan :: "chan_opt \<Rightarrow> config \<Rightarrow> config" where
  "put_chan ch c = (case ch of None \<Rightarrow> c | Some x \<Rightarrow> c\<lparr>cfg_channels := (cfg_channels c)[nat (ichan c) := x]\<rparr>)"

section \<open>The options of the main program\<close>

text \<open>The PIDs of a channel.\<close>

function read_pids :: "nat list \<Rightarrow> nat \<Rightarrow> string \<Rightarrow> (int + nat list \<times> nat) option" where
  "read_pids ps n rest =
     (case strtok CONFIG_FILE_SEPARATOR rest of
        None \<Rightarrow> Some (Inr (ps, n))
      | Some (v, rest') \<Rightarrow>
          (case wr ps n (nat (atoi v)) of None \<Rightarrow> None
           | Some ps' \<Rightarrow>
               if atoi v < 10 \<or> atoi v \<ge> 8193 then Some (Inl ERROR_CONF)
               else if n + 1 \<ge> MAX_PIDS then Some (Inl ERROR_CONF)
               else read_pids ps' (n + 1) rest'))"
  by pat_completeness auto
termination
  by (relation "measure (\<lambda>(_, _, rest). length rest)") (auto dest: strtok_shorter)

declare read_pids.simps [simp del]

text \<open>The options of a channel; \<open>None\<close> in the sum's place for a keyword that is not one of them.\<close>

definition channel_option :: "config \<Rightarrow> mumudvb_channel_t \<Rightarrow> string \<Rightarrow> string \<Rightarrow> (int + mumudvb_channel_t) option" where
  "channel_option c ch key rest =
     (if key = ''service_id'' \<or> key = ''ts_id'' then
        map_option (\<lambda>v. Inr (ch\<lparr>mumudvb_channel_t.service_id := nat v\<rparr>)) (arg_int rest)
      else if key = ''pids'' then
        map_option (\<lambda>r. case r of Inl e \<Rightarrow> Inl e
          | Inr (ps, n) \<Rightarrow> Inr (ch\<lparr>pid_i := (pid_i ch)\<lparr>pid_f := F_USER, pids := ps, num_pids := n\<rparr>, pmt_rewrite := True\<rparr>))
          (read_pids (pids (pid_i ch)) 0 rest)
      else if key = ''pmt_pid'' then
        map_option (\<lambda>v. if v < 10 \<or> v > 8191 then Inl (-1)
          else Inr (ch\<lparr>pid_i := (pid_i ch)\<lparr>pmt_pid := nat v, pmt_pid_f := F_USER\<rparr>\<rparr>)) (arg_int rest)
      else do {
        t \<leftarrow> arg_text rest;
        (v, _) \<leftarrow> strtok [CHR 0x0A] t;
        Some (Inr (ch\<lparr>user_name := take (MAX_NAME_LEN - 1) v, mumudvb_channel_t.name := take (MAX_NAME_LEN - 1) v, name_f := F_USER\<rparr>))})"

definition channel_keys :: "string list" where
  "channel_keys = [''service_id'', ''ts_id'', ''pids'', ''pmt_pid'', ''name'']"

definition no_channel_error :: "string \<Rightarrow> int" where
  "no_channel_error key = (if key = ''pmt_pid'' then -1 else ERROR_CONF)"

text \<open>The options with one number or word; the inner \<open>None\<close> is a keyword that is not known.\<close>

definition global_option :: "config \<Rightarrow> string \<Rightarrow> string \<Rightarrow> config option option" where
  "global_option c key rest =
     (if key = ''timeout_no_diff'' then map_option (\<lambda>v. Some (c\<lparr>timeout_no_diff := v\<rparr>)) (arg_int rest)
      else if key = ''tuning_no_diff'' then map_option (\<lambda>v. Some (c\<lparr>tuning_no_diff := v\<rparr>)) (arg_int rest)
      else if key = ''dont_send_scrambled'' then map_option (\<lambda>v. Some (c\<lparr>dont_send_scrambled := v\<rparr>)) (arg_int rest)
      else if key = ''filter_transport_error'' then map_option (\<lambda>v. Some (c\<lparr>filter_transport_error := v\<rparr>)) (arg_int rest)
      else if key = ''psi_tables_filtering'' then
        map_option (\<lambda>v. Some (if v = ''pat'' then c\<lparr>psi_tables_filtering := 2\<rparr> else if v = ''pat_cat'' then c\<lparr>psi_tables_filtering := 1\<rparr>
          else if v = ''none'' then c\<lparr>psi_tables_filtering := 0\<rparr> else c)) (arg rest)
      else if key = ''dvr_buffer_size'' then
        map_option (\<lambda>v. Some (c\<lparr>dvr_buffer_size := (if v \<le> 0 then 1 else v), cfg_stats := (cfg_stats c)\<lparr>show_buffer_stats := 1\<rparr>\<rparr>)) (arg_int rest)
      else if key = ''dvr_thread'' then map_option (\<lambda>v. Some (c\<lparr>threaded_read := v\<rparr>)) (arg_int rest)
      else if key = ''dvr_thread_buffer_size'' then map_option (\<lambda>v. Some (c\<lparr>max_thread_buffer_size := v\<rparr>)) (arg_int rest)
      else if key = ''server_id'' then map_option (\<lambda>v. Some (c\<lparr>cfg_server_id := v\<rparr>)) (arg_int rest)
      else if key = ''filename_pid'' then
        map_option (\<lambda>v. Some (if length v \<ge> 256 then c else c\<lparr>filename_pid := v\<rparr>)) (arg rest)
      else if key = ''check_cc'' then map_option (\<lambda>v. Some (c\<lparr>check_cc := to_u 8 v\<rparr>)) (arg_int rest)
      else if key = ''t2mi_pid'' then
        map_option (\<lambda>v. Some (c\<lparr>cfg_t2mi_pid := (if v < 1 \<or> v > 8192 then 4096 else v)\<rparr>)) (arg_int rest)
      else if key = ''t2mi_plp'' then map_option (\<lambda>v. Some (c\<lparr>t2mi_plp := to_u 8 v\<rparr>)) (arg_int rest)
      else Some None)"

text \<open>The check on the number of channels, made after the line has been used.\<close>

definition check_channels :: "config \<Rightarrow> outcome" where
  "check_channels c = (if ichan c > int MAX_CHANNELS then Inl ERROR_TOO_CHANNELS else Inr c)"

definition main_option :: "config \<Rightarrow> chan_opt \<Rightarrow> string \<Rightarrow> string \<Rightarrow> outcome option" where
  "main_option c ch key rest =
     (if key = ''new_channel'' then do {
        let i = ichan c + 1;
        x \<leftarrow> rd (cfg_channels c) (nat i);
        Some (check_channels (c\<lparr>cfg_channels := (cfg_channels c)[nat i := x\<lparr>channel_ready := ALMOST_READY\<rparr>], ichan := i\<rparr>))}
      else if key \<in> set channel_keys then
        (case ch of None \<Rightarrow> Some (Inl (no_channel_error key))
         | Some x \<Rightarrow> do {
             r \<leftarrow> channel_option c x key rest;
             Some (case r of Inl e \<Rightarrow> Inl e | Inr x \<Rightarrow> check_channels (put_chan (Some x) c))})
      else map_option (\<lambda>r. case r of None \<Rightarrow> Inr c | Some c \<Rightarrow> check_channels c) (global_option c key rest))"

section \<open>A line\<close>

text \<open>What follows a reader that has taken the line.\<close>

definition taken :: "int \<Rightarrow> config \<Rightarrow> outcome" where
  "taken r c = (if r = -1 then Inl ERROR_CONF else check_channels c)"

definition read_option :: "dvb_header \<Rightarrow> config \<Rightarrow> string \<Rightarrow> string \<Rightarrow> outcome option" where
  "read_option h c key rest = do {
     ch \<leftarrow> cur_chan c;
     (r, t) \<leftarrow> read_tuning_configuration h (cfg_tune c) key rest;
     if r \<noteq> 0 then Some (taken r (c\<lparr>cfg_tune := t\<rparr>)) else do {
     (r, a) \<leftarrow> read_autoconfiguration_configuration (cfg_auto c) key rest;
     if r \<noteq> 0 then Some (taken r (c\<lparr>cfg_auto := a\<rparr>)) else do {
     (r, s, x) \<leftarrow> read_sap_configuration (cfg_sap c) ch key rest;
     if r \<noteq> 0 then Some (taken r (put_chan x (c\<lparr>cfg_sap := s\<rparr>))) else do {
     (r, m, x) \<leftarrow> read_cam_configuration (cfg_cam c) ch key rest;
     if r \<noteq> 0 then Some (taken r (put_chan x (c\<lparr>cfg_cam := m\<rparr>))) else do {
     (r, u, x) \<leftarrow> read_unicast_configuration (cfg_unic c) ch key rest;
     if r \<noteq> 0 then Some (taken r (put_chan x (c\<lparr>cfg_unic := u\<rparr>))) else do {
     (r, mp, x) \<leftarrow> read_multicast_configuration (cfg_multi c) ch key rest;
     if r \<noteq> 0 then Some (taken r (put_chan x (c\<lparr>cfg_multi := mp\<rparr>))) else do {
     (r, w) \<leftarrow> read_rewrite_configuration (cfg_rewr c) key (arg rest);
     if r \<noteq> 0 then Some (taken r (c\<lparr>cfg_rewr := w\<rparr>)) else do {
     (r, st, l) \<leftarrow> read_logging_configuration (cfg_stats c) (cfg_log c) key rest;
     if r \<noteq> 0 then Some (taken r (c\<lparr>cfg_stats := st, cfg_log := l\<rparr>))
     else main_option c ch key rest}}}}}}}}"

definition strip_eol :: "string \<Rightarrow> string" where
  "strip_eol l = (if last l = CHR 0x0D \<or> last l = CHR 0x0A then butlast l else l)"

definition config_line :: "dvb_header \<Rightarrow> config \<Rightarrow> string \<Rightarrow> outcome option" where
  "config_line h c l =
     (if l = [] then None
      else (let l = strip_eol l in
        case strtok CONFIG_FILE_SEPARATOR l of
          None \<Rightarrow> Some (Inr c)
        | Some (key, rest) \<Rightarrow>
            if CHR ''='' \<notin> set l \<and> key \<noteq> ''new_channel'' then Some (Inr c)
            else if hd l = CHR ''#'' \<or> hd key = CHR ''#'' then Some (Inr c)
            else read_option h c key rest))"

text \<open>
  What the line's buffer holds afterwards, as a string: \<^verbatim>\<open>strtok\<close> has put a NUL after the keyword, except for a
  comment with an equals sign, which is left before that.
\<close>

definition after_line :: "string \<Rightarrow> string" where
  "after_line l =
     (let l = strip_eol l
      in if CHR ''='' \<in> set l \<and> hd l = CHR ''#'' then l
         else (case strtok CONFIG_FILE_SEPARATOR l of None \<Rightarrow> l
               | Some (key, _) \<Rightarrow> takeWhile (\<lambda>x. x \<in> set CONFIG_FILE_SEPARATOR) l @ key))"

section \<open>All lines\<close>

primrec config_lines :: "dvb_header \<Rightarrow> config \<Rightarrow> string list \<Rightarrow> outcome option" where
  "config_lines h c [] = Some (Inr c)"
| "config_lines h c (l # ls) = do {
     r \<leftarrow> config_line h c l;
     case r of Inl e \<Rightarrow> Some (Inl e) | Inr c \<Rightarrow> config_lines h c ls}"

text \<open>The lines that \<^verbatim>\<open>fgets\<close> reads, with their end of line, at most 511 characters.\<close>

definition CONF_LINELEN :: nat where "CONF_LINELEN = 512"

definition fgets :: "string \<Rightarrow> string" where
  "fgets s = (let l = takeWhile (\<lambda>x. x \<noteq> CHR 0x0A) s
     in if length l < CONF_LINELEN - 1 then take (length l + 1) s else take (CONF_LINELEN - 1) s)"

lemma fgets_length: "s \<noteq> [] \<Longrightarrow> 0 < length (fgets s)"
  by (simp add: fgets_def Let_def CONF_LINELEN_def)

function fgets_lines :: "string \<Rightarrow> string list" where
  "fgets_lines s = (if s = [] then [] else fgets s # fgets_lines (drop (length (fgets s)) s))"
  by pat_completeness auto
termination
proof (relation "measure length")
  fix s :: string
  assume "s \<noteq> []"
  then show "(drop (length (fgets s)) s, s) \<in> measure length" using fgets_length [of s] by simp
qed simp

declare fgets_lines.simps [simp del]

text \<open>The arguments after \<^verbatim>\<open>-o\<close>, copied into the buffer of the lines.\<close>

fun overrides :: "string list \<Rightarrow> string list" where
  "overrides (a # b # rest) = (if a = ''-o'' then [b] else []) @ overrides (b # rest)"
| "overrides _ = []"

text \<open>
  At the end of the file \<^verbatim>\<open>fgets\<close> returns a null pointer, and the loop's condition, that pointer plus one, holds
  once more: the body runs on what the last line has left. The buffer of a file without lines is not initialised.
\<close>

definition config_read :: "dvb_header \<Rightarrow> config \<Rightarrow> string \<Rightarrow> string list \<Rightarrow> outcome option" where
  "config_read h c file argv =
     (let ls = fgets_lines file
      in if ls = [] \<or> (\<exists>v \<in> set (overrides argv). CONF_LINELEN \<le> length v) then None
         else config_lines h c (ls @ [after_line (last ls)] @ overrides argv))"

section \<open>Values that depend on others\<close>

text \<open>A number is printed into an array of 10 bytes before it replaces a variable.\<close>

definition number :: "int \<Rightarrow> string option" where
  "number v = store 10 (print_d v)"

definition template :: "(string \<times> int) list \<Rightarrow> string \<Rightarrow> string option" where
  "template vars s = foldl (\<lambda>s (p, v). do {
     s \<leftarrow> s; n \<leftarrow> number v; map_option fst (mumu_string_replace s (length s + 1) True p n)}) (Some s) vars"

lemma template_overflow: "(p, v) \<in> set vars \<Longrightarrow> 10 \<le> length (print_d v) \<Longrightarrow> template vars s = None"
proof -
  let ?f = "\<lambda>s (p, v). do {s \<leftarrow> s; n \<leftarrow> number v; map_option fst (mumu_string_replace s (length s + 1) True p n)}"
  have none: "foldl ?f None vs = None" for vs by (induction vs) auto
  show "(p, v) \<in> set vars \<Longrightarrow> 10 \<le> length (print_d v) \<Longrightarrow> template vars s = None"
    unfolding template_def
  proof (induction vars arbitrary: s)
    case (Cons x vars)
    then show ?case using none by (cases "?f (Some s) x") (auto simp: number_def store_def)
  qed simp
qed

definition config_defaults :: "config \<Rightarrow> config" where
  "config_defaults c =
     (let c = (if card (cfg_tune c) = -1 then c\<lparr>cfg_tune := (cfg_tune c)\<lparr>card := 0\<rparr>\<rparr> else c);
          auto = (autoconfiguration (cfg_auto c) \<noteq> 0);
          c = (if auto \<and> sap_status (cfg_sap c) = OPTION_UNDEFINED \<and> multi_p_t.multicast (cfg_multi c) \<noteq> 0
               then c\<lparr>cfg_sap := (cfg_sap c)\<lparr>sap_status := OPTION_ON\<rparr>\<rparr> else c);
          c = (if auto \<and> rewrite_pat (cfg_rewr c) = OPTION_UNDEFINED then c\<lparr>cfg_rewr := (cfg_rewr c)\<lparr>rewrite_pat := OPTION_ON\<rparr>\<rparr> else c);
          c = (if auto \<and> rewrite_sdt (cfg_rewr c) = OPTION_UNDEFINED then c\<lparr>cfg_rewr := (cfg_rewr c)\<lparr>rewrite_sdt := OPTION_ON\<rparr>\<rparr> else c);
          c = (if cfg_t2mi_pid c > 0 \<and> dvr_buffer_size c < 20 then c\<lparr>dvr_buffer_size := 20\<rparr> else c)
      in if max_thread_buffer_size c < dvr_buffer_size c then c\<lparr>max_thread_buffer_size := dvr_buffer_size c\<rparr> else c)"

definition config_templates :: "config \<Rightarrow> config option" where
  "config_templates c = do {
     let t = cfg_tune c;
     let vars = [(''%card'', card t), (''%tuner'', tuner t), (''%server'', cfg_server_id c)];
     n \<leftarrow> number (card t);
     (path, _) \<leftarrow> mumu_string_replace (card_dev_path t) 256 False ''%card'' n;
     let c = c\<lparr>cfg_tune := t\<lparr>card_dev_path := path\<rparr>\<rparr>;
     c \<leftarrow> (case portOut_str (cfg_unic c) of None \<Rightarrow> Some c
       | Some s \<Rightarrow> do {s \<leftarrow> template vars s;
           Some (c\<lparr>cfg_unic := (cfg_unic c)\<lparr>portOut_str := Some s, portOut := string_comput (Some s)\<rparr>\<rparr>)});
     (case log_file_path (cfg_log c) of None \<Rightarrow> Some c
       | Some s \<Rightarrow> do {s \<leftarrow> template vars s; Some (c\<lparr>cfg_log := (cfg_log c)\<lparr>log_file_path := Some s\<rparr>\<rparr>)})}"

text \<open>Without a time to live there is no multicast, and without multicast no RTP header and no announcements.\<close>

definition config_multicast :: "config \<Rightarrow> outcome" where
  "config_multicast c =
     (let m = cfg_multi c;
          m = (if ttl m = 0 then m\<lparr>multi_p_t.multicast := 0\<rparr> else m);
          off = (multi_p_t.multicast m = 0);
          m = (if off \<and> multi_p_t.rtp_header m \<noteq> 0 then m\<lparr>multi_p_t.rtp_header := 0\<rparr> else m);
          s = (if off \<and> sap_status (cfg_sap c) = OPTION_ON then (cfg_sap c)\<lparr>sap_status := OPTION_OFF\<rparr> else cfg_sap c)
      in if off \<and> unicast (cfg_unic c) = 0 \<and> hls (cfg_unic c) = 0 then Inl ERROR_CONF
         else Inr (c\<lparr>cfg_multi := m, cfg_sap := s\<rparr>))"

definition main_config :: "dvb_header \<Rightarrow> config \<Rightarrow> string \<Rightarrow> string list \<Rightarrow> (int + nat \<times> config) option" where
  "main_config h c file argv = do {
     r \<leftarrow> config_read h c file argv;
     case r of Inl e \<Rightarrow> Some (Inl e)
     | Inr c \<Rightarrow> do {
         c \<leftarrow> config_templates (config_defaults c);
         Some (case config_multicast c of Inl e \<Rightarrow> Inl e | Inr c \<Rightarrow> Inr (nat (ichan c + 1), c))}}"

end
