(* ===== verification/Config_Ok.thy ===== *)
theory Config_Ok
  imports Config
begin

text \<open>
  What reading the configuration guarantees: the sizes of the strings and arrays and the ranges of the numbers after
  every accepted line, and what the loop over the lines does at the end of the file and with too many channels.
\<close>

section \<open>The values after a line\<close>

definition switch_ok :: "char \<Rightarrow> bool" where
  "switch_ok c \<longleftrightarrow> c \<in> {CHR ''U'', CHR ''C'', CHR ''B'', CHR ''N'', CHR ''J''}"

lemma switch_ok_chars [simp]:
  "switch_ok CHR ''U''" "switch_ok CHR ''C''" "switch_ok CHR ''B''" "switch_ok CHR ''N''" "switch_ok CHR ''J''"
  by (simp_all add: switch_ok_def)

definition tune_ok :: "tune_p_t \<Rightarrow> bool" where
  "tune_ok t \<longleftrightarrow> sat_number t \<le> 4 \<and> switch_no t \<le> 31 \<and> -1 \<le> pin_no t \<and> pin_no t \<le> 255 \<and> 0 \<le> diseqc_time t \<and>
     0 \<le> stream_id t \<and> 0 \<le> pls_code t \<and> length (card_dev_path t) < 256 \<and> length (source_addr t) < 64 \<and>
     length (read_file_path t) < 256 \<and> source_port t < 2 ^ 16 \<and> srate t < 2 ^ 32 \<and> uni_freq t < 2 ^ 32 \<and>
     switch_ok (switch_type t)"

definition auto_ok :: "auto_p_t \<Rightarrow> bool" where
  "auto_ok a \<longleftrightarrow> length (service_id_list a) = MAX_CHANNELS \<and> num_service_id a \<le> MAX_CHANNELS \<and>
     length (service_id_list_ignore a) = MAX_CHANNELS \<and> num_service_id_ignore a \<le> MAX_CHANNELS \<and>
     length (autoconf_ip4 a) < 80 \<and> length (autoconf_ip6 a) < 80 \<and> length (autoconf_multicast_port a) < 256 \<and>
     length (name_template a) < MAX_NAME_LEN \<and> autoconfiguration a \<in> {0, AUTOCONF_MODE_FULL}"

definition sap_conf_ok :: "sap_p_t \<Rightarrow> bool" where
  "sap_conf_ok p \<longleftrightarrow> length (sap_sending_ip4 p) < 20 \<and> length (sap_sending_ip6 p) < IPV6_CHAR_LEN \<and>
     length (sap_default_group p) < SAP_GROUP_LENGTH \<and> length (sap_uri p) < 255 \<and> length (sap_organisation p) < 255"

definition unic_ok :: "unicast_conf \<Rightarrow> bool" where
  "unic_ok u \<longleftrightarrow> length (ipOut u) < INET6_ADDRSTRLEN \<and> playlist_ignore_scrambled_ratio u \<le> 100 \<and> 1 \<le> hls_rotate_time u \<and>
     1 \<le> hls_rotate_count u \<and> 0 \<le> hls_rotate_iframe u \<and> length (hls_storage_dir u) < MAX_NAME_LEN \<and>
     length (hls_playlist_name u) < MAX_NAME_LEN"

definition multi_ok :: "multi_p_t \<Rightarrow> bool" where
  "multi_ok m \<longleftrightarrow> length (iface4 m) \<le> IF_NAMESIZE \<and> length (iface6 m) \<le> IF_NAMESIZE"

definition stats_ok :: "stats_infos_t \<Rightarrow> bool" where
  "stats_ok s \<longleftrightarrow> 1 \<le> show_traffic_interval s \<and> 1 \<le> compute_traffic_interval s"

definition chan_ok :: "mumudvb_channel_t \<Rightarrow> bool" where
  "chan_ok ch \<longleftrightarrow> length (ip4Out ch) < 20 \<and> length (ip6Out ch) < IPV6_CHAR_LEN \<and> length (sap_group ch) < SAP_GROUP_LENGTH \<and>
     length (mumudvb_channel_t.name ch) < MAX_NAME_LEN \<and> length (user_name ch) < MAX_NAME_LEN \<and>
     length (pids (pid_i ch)) = MAX_PIDS \<and> num_pids (pid_i ch) < MAX_PIDS \<and>
     (\<forall>i < num_pids (pid_i ch). 10 \<le> pids (pid_i ch) ! i \<and> pids (pid_i ch) ! i \<le> 8192) \<and> pmt_pid (pid_i ch) \<le> 8191"

definition opt_ok :: "chan_opt \<Rightarrow> bool" where
  "opt_ok ch \<longleftrightarrow> (case ch of None \<Rightarrow> True | Some c \<Rightarrow> chan_ok c)"

lemma opt_ok_simps [simp]: "opt_ok None" "opt_ok (Some c) = chan_ok c"
  by (simp_all add: opt_ok_def)

text \<open>A reader's result has a property, unless it is the error; rules for the shapes that readers have.\<close>

definition gives :: "('a \<Rightarrow> bool) \<Rightarrow> (int \<times> 'a) option \<Rightarrow> bool" where
  "gives P x \<longleftrightarrow> (case x of None \<Rightarrow> True | Some (r, y) \<Rightarrow> r \<noteq> -1 \<longrightarrow> P y)"

named_theorems gives_intros "the property of a reader's result, by the shape of the reader"

lemma gives_if [gives_intros]: "(c \<Longrightarrow> gives P x) \<Longrightarrow> (\<not> c \<Longrightarrow> gives P y) \<Longrightarrow> gives P (if c then x else y)"
  by simp

lemma gives_Some [gives_intros]: "(r \<noteq> -1 \<Longrightarrow> P y) \<Longrightarrow> gives P (Some (r, y))"
  by (simp add: gives_def)

lemma gives_bind [gives_intros]: "(\<And>v. gives P (f v)) \<Longrightarrow> gives P (Option.bind x f)"
  by (cases x) (simp_all add: gives_def)

lemma gives_map_pair [gives_intros]: "(\<And>v. r v \<noteq> -1 \<Longrightarrow> P (y v)) \<Longrightarrow> gives P (map_option (\<lambda>v. (r v, y v)) x)"
  by (cases x) (simp_all add: gives_def)

lemma gives_case_pair [gives_intros]: "(\<And>a b. gives P (f a b)) \<Longrightarrow> gives P (case x of (a, b) \<Rightarrow> f a b)"
  by (cases x) simp

lemma gives_chan [gives_intros]:
  "gives P x \<Longrightarrow> (\<And>c. ch = Some c \<Longrightarrow> gives P (f c)) \<Longrightarrow> gives P (case ch of None \<Rightarrow> x | Some c \<Rightarrow> f c)"
  by (cases ch) simp_all

lemma gives_pick [gives_intros]: "(\<And>x. x \<in> snd ` set names \<Longrightarrow> P (f x)) \<Longrightarrow> gives P (map_option (pick t names f) v)"
  by (cases v) (auto simp: gives_def pick_def dest!: map_of_SomeD split: option.splits, metis image_eqI snd_conv)

lemma gives_pick_comp [gives_intros]: "(\<And>x. x \<in> snd ` set names \<Longrightarrow> P (f x)) \<Longrightarrow> gives P (map_option (pick t names f \<circ> g) v)"
  using gives_pick [of names P f t "map_option g v"] by (simp add: option.map_comp)

lemma gives_store: "(length s < n \<Longrightarrow> gives P (f s)) \<Longrightarrow> gives P (Option.bind (store n s) f)"
  by (simp add: store_def gives_def)

lemma givesD: "gives P x \<Longrightarrow> x = Some (r, y) \<Longrightarrow> r \<noteq> -1 \<Longrightarrow> P y"
  by (simp add: gives_def)

lemma to_u_less: "to_u w x < 2 ^ w"
  by (simp add: to_u_def nat_less_iff)

lemmas to_u_8_16_32 = to_u_less [of 16, simplified] to_u_less [of 32, simplified]

lemma read_sat_ok: "tune_ok t \<Longrightarrow> gives tune_ok (read_sat_option t key rest)"
  unfolding read_sat_option_def Let_def
  by (intro gives_intros gives_store) (auto simp: tune_ok_def to_u_8_16_32 split: if_splits)

lemma read_signal_ok: "tune_ok t \<Longrightarrow> gives tune_ok (read_signal_option h t key rest)"
  unfolding read_signal_option_def Let_def
  by (intro gives_intros) (simp_all add: tune_ok_def)

lemma read_other_ok: "tune_ok t \<Longrightarrow> gives tune_ok (read_other_option t key rest)"
  unfolding read_other_option_def Let_def
  by (intro gives_intros gives_store) (auto simp: tune_ok_def to_u_8_16_32 split: if_splits)

lemma gives_orelse:
  "gives P x \<Longrightarrow> gives P y \<Longrightarrow> gives P (Option.bind x (\<lambda>(r, t). if r \<noteq> 0 then Some (r, t) else y))"
  by (cases x) (auto simp: gives_def)

lemma read_tuning_ok: "tune_ok t \<Longrightarrow> gives tune_ok (read_tuning_configuration h t key rest)"
  unfolding read_tuning_configuration_def
  by (intro gives_orelse read_sat_ok read_signal_ok read_other_ok)

lemma read_autoconf_option_ok: "auto_ok a \<Longrightarrow> gives auto_ok (read_autoconf_option a key rest)"
  unfolding read_autoconf_option_def Let_def
  by (intro gives_intros gives_store) (auto simp: auto_ok_def split: if_splits)

lemma read_sid_list_gives:
  "auto_ok a \<Longrightarrow> gives auto_ok (map_option (\<lambda>(r, ids, n). (r, a\<lparr>service_id_list := ids, num_service_id := n\<rparr>))
     (read_sid_list (service_id_list a) (num_service_id a) rest))"
  "auto_ok a \<Longrightarrow> gives auto_ok (map_option (\<lambda>(r, ids, n). (r, a\<lparr>service_id_list_ignore := ids, num_service_id_ignore := n\<rparr>))
     (read_sid_list (service_id_list_ignore a) (num_service_id_ignore a) rest))"
  using read_sid_list_ok [of "service_id_list a" "num_service_id a" rest]
    read_sid_list_ok [of "service_id_list_ignore a" "num_service_id_ignore a" rest]
  by (auto simp: auto_ok_def gives_def)

lemma read_autoconfiguration_ok: "auto_ok a \<Longrightarrow> gives auto_ok (read_autoconfiguration_configuration a key rest)"
  unfolding read_autoconfiguration_configuration_def
  by (intro gives_if read_sid_list_gives read_autoconf_option_ok gives_bind gives_case_pair gives_Some)
    (auto simp: auto_ok_def MAX_NAME_LEN_def)

lemma read_sap_ok:
  "sap_conf_ok p \<Longrightarrow> opt_ok ch \<Longrightarrow> gives (\<lambda>(p, ch). sap_conf_ok p \<and> opt_ok ch) (read_sap_configuration p ch key rest)"
  unfolding read_sap_configuration_def
  by (intro gives_intros gives_store) (auto simp: sap_conf_ok_def chan_ok_def)

lemma read_cam_ok: "opt_ok ch \<Longrightarrow> gives (\<lambda>(c, ch). opt_ok ch) (read_cam_configuration c ch key rest)"
  unfolding read_cam_configuration_def
  by (intro gives_intros) (auto simp: chan_ok_def gives_def split: option.splits)

lemma read_http_ok:
  "unic_ok u \<Longrightarrow> opt_ok ch \<Longrightarrow> gives (\<lambda>(u, ch). unic_ok u \<and> opt_ok ch) (read_http_option u ch key rest)"
  unfolding read_http_option_def Let_def
  by (intro gives_intros gives_store) (auto simp: unic_ok_def chan_ok_def)

lemma read_hls_ok: "unic_ok u \<Longrightarrow> gives unic_ok (read_hls_option u key rest)"
  unfolding read_hls_option_def
  by (intro gives_intros) (auto simp: unic_ok_def MAX_NAME_LEN_def)

lemma read_unicast_ok:
  "unic_ok u \<Longrightarrow> opt_ok ch \<Longrightarrow> gives (\<lambda>(u, ch). unic_ok u \<and> opt_ok ch) (read_unicast_configuration u ch key rest)"
  using read_http_ok [of u ch key rest] read_hls_ok [of u key rest]
  by (auto simp: read_unicast_configuration_def gives_def split: option.splits if_splits)

lemma read_multicast_ok:
  "multi_ok m \<Longrightarrow> opt_ok ch \<Longrightarrow> gives (\<lambda>(m, ch). multi_ok m \<and> opt_ok ch) (read_multicast_configuration m ch key rest)"
  unfolding read_multicast_configuration_def
  by (intro gives_intros gives_store) (auto simp: multi_ok_def chan_ok_def)

lemma read_logging_ok: "stats_ok s \<Longrightarrow> gives (\<lambda>(s, l). stats_ok s) (read_logging_configuration s l key rest)"
  unfolding read_logging_configuration_def
  by (intro gives_intros) (auto simp: stats_ok_def)

section \<open>The whole configuration\<close>

definition config_ok :: "config \<Rightarrow> bool" where
  "config_ok c \<longleftrightarrow> tune_ok (cfg_tune c) \<and> auto_ok (cfg_auto c) \<and> sap_conf_ok (cfg_sap c) \<and> unic_ok (cfg_unic c) \<and>
     multi_ok (cfg_multi c) \<and> stats_ok (cfg_stats c) \<and> length (cfg_channels c) = MAX_CHANNELS \<and>
     (\<forall>ch \<in> set (cfg_channels c). chan_ok ch) \<and> -1 \<le> ichan c \<and> ichan c < int MAX_CHANNELS \<and>
     1 \<le> dvr_buffer_size c \<and> length (filename_pid c) < 256 \<and> check_cc c < 256 \<and> t2mi_plp c < 256 \<and>
     0 \<le> cfg_t2mi_pid c \<and> cfg_t2mi_pid c \<le> 8192 \<and> psi_tables_filtering c \<le> 2"

lemma config_ok_updates:
  assumes "config_ok c"
  shows "tune_ok t \<Longrightarrow> config_ok (c\<lparr>cfg_tune := t\<rparr>)" "auto_ok a \<Longrightarrow> config_ok (c\<lparr>cfg_auto := a\<rparr>)"
    "sap_conf_ok p \<Longrightarrow> config_ok (c\<lparr>cfg_sap := p\<rparr>)" "config_ok (c\<lparr>cfg_cam := m\<rparr>)" "unic_ok u \<Longrightarrow> config_ok (c\<lparr>cfg_unic := u\<rparr>)"
    "multi_ok mp \<Longrightarrow> config_ok (c\<lparr>cfg_multi := mp\<rparr>)" "config_ok (c\<lparr>cfg_rewr := w\<rparr>)"
    "stats_ok st \<Longrightarrow> config_ok (c\<lparr>cfg_stats := st, cfg_log := l\<rparr>)"
  using assms by (simp_all add: config_ok_def)

lemma config_ok_put: "config_ok c \<Longrightarrow> opt_ok x \<Longrightarrow> config_ok (put_chan x c)"
  by (cases x) (auto simp: config_ok_def put_chan_def dest!: set_update_subset_insert [THEN subsetD])

lemma cur_chan_ok:
  assumes "config_ok c"
  obtains ch where "cur_chan c = Some ch" "opt_ok ch"
proof (cases "ichan c < 0")
  case True then show thesis by (intro that [of None]) (simp_all add: cur_chan_def)
next
  case False
  then have i: "nat (ichan c) < length (cfg_channels c)" using assms by (simp add: config_ok_def nat_less_iff)
  then have "chan_ok (cfg_channels c ! nat (ichan c))" using assms by (simp add: config_ok_def)
  then show thesis using False i by (intro that [of "Some (cfg_channels c ! nat (ichan c))"]) (simp_all add: cur_chan_def rd_in)
qed

lemma check_channels_Inr: "check_channels c = Inr c' \<Longrightarrow> c' = c"
  by (simp add: check_channels_def split: if_splits)

lemma taken_Inr: "taken r c = Inr c' \<Longrightarrow> c' = c \<and> r \<noteq> -1"
  by (auto simp: taken_def dest: check_channels_Inr split: if_splits)

text \<open>One reader of the chain.\<close>

lemma chain_step:
  assumes "Option.bind x (\<lambda>(r, t). if r \<noteq> 0 then Some (taken r (upd t)) else rest) = Some (Inr c')" "gives P x"
    and "\<And>t. P t \<Longrightarrow> config_ok (upd t)" "rest = Some (Inr c') \<Longrightarrow> config_ok c'"
  shows "config_ok c'"
  using assms by (cases x) (auto simp: gives_def dest!: taken_Inr split: if_splits)

lemma chain_step3:
  assumes "Option.bind x (\<lambda>(r, s, t). if r \<noteq> 0 then Some (taken r (upd s t)) else rest) = Some (Inr c')" "gives P x"
    and "\<And>s t. P (s, t) \<Longrightarrow> config_ok (upd s t)" "rest = Some (Inr c') \<Longrightarrow> config_ok c'"
  shows "config_ok c'"
  using assms by (cases x) (auto simp: gives_def dest!: taken_Inr split: if_splits)

lemma read_pids_ok:
  "length ps = MAX_PIDS \<Longrightarrow> n < MAX_PIDS \<Longrightarrow> \<forall>i < n. 10 \<le> ps ! i \<and> ps ! i \<le> 8192 \<Longrightarrow>
     \<exists>r. read_pids ps n rest = Some r \<and> (\<forall>ps' n'. r = Inr (ps', n') \<longrightarrow>
       length ps' = MAX_PIDS \<and> n' < MAX_PIDS \<and> (\<forall>i < n'. 10 \<le> ps' ! i \<and> ps' ! i \<le> 8192))"
proof (induction ps n rest rule: read_pids.induct)
  case (1 ps n rest)
  show ?case
  proof (cases "strtok CONFIG_FILE_SEPARATOR rest")
    case None then show ?thesis unfolding read_pids.simps [of ps n rest] using "1.prems" by simp
  next
    case (Some x)
    obtain v rest' where x: "x = (v, rest')" by (cases x)
    let ?ps = "ps[n := nat (atoi v)]"
    have w: "wr ps n (nat (atoi v)) = Some ?ps" using "1.prems" by (simp add: wr_in)
    show ?thesis
    proof (cases "atoi v < 10 \<or> atoi v \<ge> 8193 \<or> n + 1 \<ge> MAX_PIDS")
      case True then show ?thesis unfolding read_pids.simps [of ps n rest] using Some x w by auto
    next
      case False
      have "\<forall>i < n + 1. 10 \<le> ?ps ! i \<and> ?ps ! i \<le> 8192"
        using "1.prems" False by (auto simp: nth_list_update less_Suc_eq)
      then show ?thesis unfolding read_pids.simps [of ps n rest]
        using "1.IH" [OF Some x [symmetric] w] "1.prems" False Some x w by simp
    qed
  qed
qed

lemma channel_option_ok:
  "channel_option c ch key rest = Some (Inr ch') \<Longrightarrow> chan_ok ch \<Longrightarrow> chan_ok ch'"
proof -
  assume a: "channel_option c ch key rest = Some (Inr ch')" and ch: "chan_ok ch"
  have "\<exists>r. read_pids (pids (pid_i ch)) 0 rest = Some r \<and> (\<forall>ps' n'. r = Inr (ps', n') \<longrightarrow>
       length ps' = MAX_PIDS \<and> n' < MAX_PIDS \<and> (\<forall>i < n'. 10 \<le> ps' ! i \<and> ps' ! i \<le> 8192))"
    by (rule read_pids_ok) (use ch in \<open>simp_all add: chan_ok_def MAX_PIDS_def\<close>)
  then show "chan_ok ch'" using a ch
    by (auto simp: channel_option_def Option.bind_eq_Some_conv chan_ok_def MAX_NAME_LEN_def split: if_splits sum.splits)
qed

lemma config_ok_numbers:
  assumes "config_ok c"
  shows "config_ok (c\<lparr>timeout_no_diff := v\<rparr>)" "config_ok (c\<lparr>tuning_no_diff := v\<rparr>)" "config_ok (c\<lparr>dont_send_scrambled := v\<rparr>)"
    "config_ok (c\<lparr>filter_transport_error := v\<rparr>)" "k \<le> 2 \<Longrightarrow> config_ok (c\<lparr>psi_tables_filtering := k\<rparr>)"
    "1 \<le> v \<Longrightarrow> config_ok (c\<lparr>dvr_buffer_size := v, cfg_stats := (cfg_stats c)\<lparr>show_buffer_stats := x\<rparr>\<rparr>)"
    "config_ok (c\<lparr>threaded_read := v\<rparr>)" "config_ok (c\<lparr>max_thread_buffer_size := v\<rparr>)" "config_ok (c\<lparr>cfg_server_id := v\<rparr>)"
    "length s < 256 \<Longrightarrow> config_ok (c\<lparr>filename_pid := s\<rparr>)" "config_ok (c\<lparr>check_cc := to_u 8 v\<rparr>)"
    "0 \<le> v \<Longrightarrow> v \<le> 8192 \<Longrightarrow> config_ok (c\<lparr>cfg_t2mi_pid := v\<rparr>)" "config_ok (c\<lparr>t2mi_plp := to_u 8 v\<rparr>)"
  using assms to_u_less [of 8 v] by (simp_all add: config_ok_def stats_ok_def)

text \<open>The option that is returned has a property.\<close>

definition sets :: "(config \<Rightarrow> bool) \<Rightarrow> config option option \<Rightarrow> bool" where
  "sets P x \<longleftrightarrow> (\<forall>c. x = Some (Some c) \<longrightarrow> P c)"

lemma sets_rules:
  "(c \<Longrightarrow> sets P x) \<Longrightarrow> (\<not> c \<Longrightarrow> sets P y) \<Longrightarrow> sets P (if c then x else y)"
  "(\<And>v. P (f v)) \<Longrightarrow> sets P (map_option (\<lambda>v. Some (f v)) z)"
  "sets P (Some None)"
  by (auto simp: sets_def)

lemma global_option_ok: "config_ok c \<Longrightarrow> sets config_ok (global_option c key rest)"
  unfolding global_option_def
  by (intro sets_rules) (auto intro: config_ok_numbers)

lemma case_sum_Inr:
  "(case y of Inl e \<Rightarrow> Inl e | Inr x \<Rightarrow> f x) = Inr z \<longleftrightarrow> (\<exists>x. y = Inr x \<and> f x = Inr z)"
  "(case y of Inl e \<Rightarrow> Some (Inl e) | Inr x \<Rightarrow> g x) = Some (Inr z) \<longleftrightarrow> (\<exists>x. y = Inr x \<and> g x = Some (Inr z))"
  by (cases y; simp)+

lemma new_channel_ok:
  assumes "config_ok c" "rd (cfg_channels c) (nat (ichan c + 1)) = Some x"
  shows "config_ok (c\<lparr>cfg_channels := (cfg_channels c)[nat (ichan c + 1) := x\<lparr>channel_ready := ALMOST_READY\<rparr>], ichan := ichan c + 1\<rparr>)"
proof -
  have "x \<in> set (cfg_channels c)" "nat (ichan c + 1) < MAX_CHANNELS"
    using assms by (auto simp: rd_Some_iff config_ok_def)
  then have "chan_ok x" "ichan c + 1 < int MAX_CHANNELS" using assms(1) by (auto simp: config_ok_def)
  then show ?thesis using assms(1)
    by (auto simp: config_ok_def chan_ok_def dest!: set_update_subset_insert [THEN subsetD])
qed

lemma main_option_ok:
  assumes "main_option c ch key rest = Some (Inr c')" "config_ok c" "opt_ok ch"
  shows "config_ok c'"
proof -
  consider "key = ''new_channel''" | "key \<noteq> ''new_channel''" "key \<in> set channel_keys" | "key \<noteq> ''new_channel''" "key \<notin> set channel_keys" by blast
  then show ?thesis
  proof cases
    case 1 then show ?thesis using assms
      by (auto simp: main_option_def Option.bind_eq_Some_conv Let_def dest!: check_channels_Inr intro: new_channel_ok)
  next
    case 2
    then obtain x y where x: "ch = Some x" "channel_option c x key rest = Some (Inr y)" "c' = put_chan (Some y) c"
      using assms(1) by (auto simp: main_option_def Option.bind_eq_Some_conv case_sum_Inr split: option.splits dest!: check_channels_Inr)
    then have "opt_ok (Some y)" using channel_option_ok assms(3) by auto
    then show ?thesis using x(3) config_ok_put assms(2) by blast
  next
    case 3
    then obtain x where x: "global_option c key rest = Some x" "(case x of None \<Rightarrow> Inr c | Some c \<Rightarrow> check_channels c) = Inr c'"
      using assms(1) by (auto simp: main_option_def)
    then show ?thesis using assms(2) global_option_ok [OF assms(2), of key rest]
      by (auto simp: sets_def split: option.splits dest!: check_channels_Inr)
  qed
qed

lemma read_option_ok:
  assumes "config_ok c" "read_option h c key rest = Some (Inr c')"
  shows "config_ok c'"
proof -
  obtain ch where ch: "cur_chan c = Some ch" "opt_ok ch" using cur_chan_ok [OF assms(1)] by blast
  have parts: "tune_ok (cfg_tune c)" "auto_ok (cfg_auto c)" "sap_conf_ok (cfg_sap c)" "unic_ok (cfg_unic c)"
      "multi_ok (cfg_multi c)" "stats_ok (cfg_stats c)" using assms(1) by (simp_all add: config_ok_def)
  have rw: "gives (\<lambda>_. True) x" for x :: "(int \<times> rewrite_parameters_t) option" by (simp add: gives_def split: option.split)
  note upd = config_ok_updates [OF assms(1)]
  show ?thesis
    using assms(2) unfolding read_option_def ch(1) Option.bind.simps
    apply (elim chain_step [where P = tune_ok and upd = "\<lambda>t. c\<lparr>cfg_tune := t\<rparr>"])
      apply (rule read_tuning_ok [OF parts(1)])
     apply (erule upd(1))
    apply (erule chain_step [where P = auto_ok and upd = "\<lambda>t. c\<lparr>cfg_auto := t\<rparr>"])
      apply (rule read_autoconfiguration_ok [OF parts(2)])
     apply (erule upd(2))
    apply (erule chain_step3 [where P = "\<lambda>(p, ch). sap_conf_ok p \<and> opt_ok ch" and upd = "\<lambda>s x. put_chan x (c\<lparr>cfg_sap := s\<rparr>)"])
      apply (rule read_sap_ok [OF parts(3) ch(2)])
     apply (force intro: config_ok_put upd)
    apply (erule chain_step3 [where P = "\<lambda>(c, ch). opt_ok ch" and upd = "\<lambda>m x. put_chan x (c\<lparr>cfg_cam := m\<rparr>)"])
      apply (rule read_cam_ok [OF ch(2)])
     apply (force intro: config_ok_put upd)
    apply (erule chain_step3 [where P = "\<lambda>(u, ch). unic_ok u \<and> opt_ok ch" and upd = "\<lambda>u x. put_chan x (c\<lparr>cfg_unic := u\<rparr>)"])
      apply (rule read_unicast_ok [OF parts(4) ch(2)])
     apply (force intro: config_ok_put upd)
    apply (erule chain_step3 [where P = "\<lambda>(m, ch). multi_ok m \<and> opt_ok ch" and upd = "\<lambda>mp x. put_chan x (c\<lparr>cfg_multi := mp\<rparr>)"])
      apply (rule read_multicast_ok [OF parts(5) ch(2)])
     apply (force intro: config_ok_put upd)
    apply (erule chain_step [where P = "\<lambda>_. True" and upd = "\<lambda>w. c\<lparr>cfg_rewr := w\<rparr>"])
      apply (rule rw)
     apply (rule upd(7))
    apply (erule chain_step3 [where P = "\<lambda>(s, l). stats_ok s" and upd = "\<lambda>st l. c\<lparr>cfg_stats := st, cfg_log := l\<rparr>"])
      apply (rule read_logging_ok [OF parts(6)])
     apply (force intro: upd)
    apply (erule main_option_ok [OF _ assms(1) ch(2)])
    done
qed

lemma config_line_ok: "config_ok c \<Longrightarrow> config_line h c l = Some (Inr c') \<Longrightarrow> config_ok c'"
  by (auto simp: config_line_def Let_def split: if_splits option.splits prod.splits dest: read_option_ok)

lemma config_lines_ok: "config_ok c \<Longrightarrow> config_lines h c ls = Some (Inr c') \<Longrightarrow> config_ok c'"
  by (induction ls arbitrary: c) (auto simp: Option.bind_eq_Some_conv case_sum_Inr dest: config_line_ok)


section \<open>New channels and the end of the file\<close>

lemma read_option_new_channel:
  "cur_chan c = Some ch \<Longrightarrow> read_option h c ''new_channel'' rest = main_option c ch ''new_channel'' rest"
  by (simp add: read_option_def read_tuning_configuration_def read_sat_option_def read_signal_option_def read_other_option_def
      read_autoconfiguration_configuration_def read_autoconf_option_def read_sap_configuration_def read_cam_configuration_def
      read_unicast_configuration_def read_http_option_def read_hls_option_def read_multicast_configuration_def
      read_rewrite_configuration_def read_logging_configuration_def Let_def)

lemma new_channel_text: "strtok CONFIG_FILE_SEPARATOR ''new_channel'' = Some (''new_channel'', [])"
  by (rule strtok_last) (simp_all add: CONFIG_FILE_SEPARATOR_def)

definition started_channel :: "config \<Rightarrow> config" where
  "started_channel c = c\<lparr>cfg_channels := (cfg_channels c)
      [nat (ichan c + 1) := (cfg_channels c ! nat (ichan c + 1))\<lparr>channel_ready := ALMOST_READY\<rparr>], ichan := ichan c + 1\<rparr>"

lemma new_channel_main:
  assumes "config_ok c"
  shows "main_option c ch ''new_channel'' rest = (if ichan c + 1 < int MAX_CHANNELS then Some (Inr (started_channel c)) else None)"
  using assms by (auto simp: main_option_def rd_def config_ok_def check_channels_def started_channel_def nat_less_iff Let_def)

lemma new_channel_line:
  assumes "config_ok c" "strip_eol l = ''new_channel''" "l \<noteq> []"
  shows "config_line h c l = (if ichan c + 1 < int MAX_CHANNELS then Some (Inr (started_channel c)) else None)"
proof -
  obtain ch where ch: "cur_chan c = Some ch" using cur_chan_ok [OF assms(1)] by blast
  show ?thesis using assms(2,3)
    by (simp add: config_line_def new_channel_text read_option_new_channel [OF ch] new_channel_main [OF assms(1)] Let_def)
qed

lemma strip_new_channel: "strip_eol (''new_channel'' @ [CHR 0x0A]) = ''new_channel''" "strip_eol ''new_channel'' = ''new_channel''"
  by (simp_all add: strip_eol_def)

text \<open>
  The check on the number of channels comes too late: with 128 channels started, the next \<^verbatim>\<open>new_channel\<close>
  writes past the array of channels before the program would stop, and so does every line after 128 of them.
\<close>

theorem too_many_channels:
  assumes "config_ok c" "ichan c = int MAX_CHANNELS - 1"
  shows "config_lines h c ((''new_channel'' @ [CHR 0x0A]) # ls) = None"
  using new_channel_line [OF assms(1) strip_new_channel(1)] assms(2) by simp

lemma config_lines_append:
  "config_lines h c (xs @ ys) = Option.bind (config_lines h c xs) (\<lambda>r. case r of Inl e \<Rightarrow> Some (Inl e) | Inr c \<Rightarrow> config_lines h c ys)"
proof (induction xs arbitrary: c)
  case Nil then show ?case by simp
next
  case (Cons x xs)
  show ?case by (cases "config_line h c x") (auto simp: Cons split: sum.split)
qed

lemma after_new_channel: "after_line (''new_channel'' @ [CHR 0x0A]) = ''new_channel''"
  unfolding after_line_def strip_new_channel Let_def new_channel_text by (simp add: CONFIG_FILE_SEPARATOR_def)

text \<open>
  The loop runs once more at the end of the file, on what the last line has left in the buffer: a file that
  ends with a line \<^verbatim>\<open>new_channel\<close> gets a channel that it does not ask for.
\<close>

theorem eof_starts_channel:
  assumes "config_ok c" "config_lines h c (fgets_lines content) = Some (Inr c1)" "content \<noteq> []"
    and "last (fgets_lines content) = ''new_channel'' @ [CHR 0x0A]" "ichan c1 + 1 < int MAX_CHANNELS"
  shows "\<exists>c2. config_read h c content [] = Some (Inr c2) \<and> ichan c2 = ichan c1 + 1"
proof -
  have ok: "config_ok c1" using config_lines_ok [OF assms(1,2)] .
  have ne: "fgets_lines content \<noteq> []" using assms(3) by (simp add: fgets_lines.simps [of content])
  have "config_read h c content [] = config_line h c1 ''new_channel'' \<bind> (\<lambda>r. case r of Inl e \<Rightarrow> Some (Inl e) | Inr c \<Rightarrow> Some (Inr c))"
    using assms(2,4) ne
    by (simp add: config_read_def config_lines_append after_new_channel [simplified] Let_def cong: sum.case_cong)
  also have "\<dots> = Some (Inr (started_channel c1))"
    using new_channel_line [OF ok strip_new_channel(2)] assms(5) by simp
  finally show ?thesis by (simp add: started_channel_def)
qed

text \<open>A file that ends with an empty line makes the code read before the start of the buffer.\<close>

lemma eof_empty_line:
  assumes "config_lines h c (fgets_lines content) = Some (Inr c1)" "content \<noteq> []" "last (fgets_lines content) = [CHR 0x0A]"
  shows "config_read h c content argv = None"
proof -
  have ne: "fgets_lines content \<noteq> []" using assms(2) by (simp add: fgets_lines.simps [of content])
  have "after_line [CHR 0x0A] = []" by (simp add: after_line_def strip_eol_def strtok_def)
  then show ?thesis using assms(1,3) ne by (simp add: config_read_def config_lines_append config_line_def Let_def)
qed

definition bare_keys :: "string list" where
  "bare_keys = [''freq'', ''srate'', ''card'', ''autoconf_radios'', ''sap'', ''cam_support'', ''unicast'', ''hls'',
     ''common_port'', ''rewrite_pmt'', ''up_threshold'', ''server_id'', ''check_cc'', ''t2mi_pid'']"

lemma bare_option:
  assumes "config_ok c" "key \<in> set bare_keys"
  shows "read_option h c key [] = None"
proof -
  obtain ch where ch: "cur_chan c = Some ch" using cur_chan_ok [OF assms(1)] by blast
  have "arg [] = None" "arg_int [] = None" by (simp_all add: arg_def arg_int_def strtok_def)
  note readers = read_option_def read_tuning_configuration_def read_sat_option_def read_signal_option_def read_other_option_def
      read_autoconfiguration_configuration_def read_autoconf_option_def read_sap_configuration_def read_cam_configuration_def
      read_unicast_configuration_def read_http_option_def read_hls_option_def read_multicast_configuration_def
      read_rewrite_configuration_def read_logging_configuration_def main_option_def global_option_def channel_keys_def ch this Let_def
  show ?thesis using assms(2) unfolding bare_keys_def list.set
    by (elim insertE emptyE) (simp_all add: readers)
qed

text \<open>
  A numeric option without its value ends the program by a null pointer, in every reader of the chain, instead
  of an error message.
\<close>

theorem bare_line:
  assumes "config_ok c" "key \<in> set bare_keys"
  shows "config_line h c (key @ ''='' @ [CHR 0x0A]) = None"
proof -
  have k: "key \<noteq> []" "\<forall>x \<in> set key. x \<notin> set CONFIG_FILE_SEPARATOR" "hd (key @ ''='') \<noteq> CHR ''#''" "hd key \<noteq> CHR ''#''"
    using assms(2) unfolding bare_keys_def list.set by (auto simp: CONFIG_FILE_SEPARATOR_def)
  have "strtok CONFIG_FILE_SEPARATOR (key @ ''='') = Some (key, [])"
    using strtok_word [OF k(1,2), of "CHR ''=''" "[]"] by (simp add: CONFIG_FILE_SEPARATOR_def)
  moreover have "strip_eol (key @ ''='' @ [CHR 0x0A]) = key @ ''=''" by (simp add: strip_eol_def butlast_append)
  ultimately show ?thesis using k bare_option [OF assms] by (simp add: config_line_def Let_def)
qed

section \<open>Small files\<close>

lemma init_config_ok: "config_ok init_config"
  by (simp add: config_ok_def init_config_def tune_ok_def init_tune_v_def auto_ok_def init_aconf_v_def sap_conf_ok_def
      init_sap_v_def unic_ok_def init_unicast_conf_def multi_ok_def init_multicast_v_def stats_ok_def init_stats_v_def
      chan_ok_def zero_channel_def zero_pid_i_def mumu_sizes IF_NAMESIZE_def INET6_ADDRSTRLEN_def MAX_NAME_LEN_def
      SAP_GROUP_LENGTH_def IPV6_CHAR_LEN_def AUTOCONF_MODE_FULL_def)

definition new_header :: dvb_header where
  "new_header = \<lparr> modes_4k_16k_32k = (True, True, True), bandwidths_5_10_1712 = (True, True, True),
     guards_1_128_19_128_19_256 = (True, True, True) \<rparr>"

lemma one_line: "fgets_lines (''new_channel'' @ [CHR 0x0A]) = [''new_channel'' @ [CHR 0x0A]]"
  by (simp add: fgets_lines.simps fgets_def CONF_LINELEN_def Let_def)

lemma first_channel: "config_lines h init_config [''new_channel'' @ [CHR 0x0A]] = Some (Inr (started_channel init_config))"
  using new_channel_line [OF init_config_ok strip_new_channel(1)] by (simp add: init_config_def mumu_sizes)

theorem eof_starts_channel_witness:
  "ichan (started_channel init_config) = 0 \<and>
   (\<exists>c2. config_read new_header init_config (''new_channel'' @ [CHR 0x0A]) [] = Some (Inr c2) \<and> ichan c2 = 1)"
  using eof_starts_channel [OF init_config_ok first_channel [folded one_line], of new_header]
  by (simp add: started_channel_def init_config_def mumu_sizes one_line [simplified])

theorem too_many_channels_witness:
  "config_ok (init_config\<lparr>ichan := 127\<rparr>) \<and>
   config_lines new_header (init_config\<lparr>ichan := 127\<rparr>) [''new_channel'' @ [CHR 0x0A]] = None"
proof -
  have ok: "config_ok (init_config\<lparr>ichan := 127\<rparr>)" using init_config_ok by (simp add: config_ok_def mumu_sizes)
  have "ichan (init_config\<lparr>ichan := 127\<rparr>) = int MAX_CHANNELS - 1" by (simp add: mumu_sizes)
  then show ?thesis using ok too_many_channels [OF ok, of new_header "[]"] by blast
qed

theorem bare_line_witness: "config_line new_header init_config (''freq'' @ ''='' @ [CHR 0x0A]) = None"
  by (rule bare_line [OF init_config_ok]) (simp add: bare_keys_def)

lemma comment_read: "config_read h init_config (''# a'' @ [CHR 0x0A]) [] = Some (Inr init_config)"
  by (simp add: config_read_def fgets_lines.simps fgets_def CONF_LINELEN_def Let_def config_line_def strip_eol_def
      after_line_def strtok_def CONFIG_FILE_SEPARATOR_def)


end
