(* ===== verification/Tune.thy ===== *)
theory Tune
  imports Tune_Params
begin

text \<open>
  Tuning the card, \<^verbatim>\<open>src/src/tune.c\<close>: the DiSEqC and unicable commands for a satellite dish and \<^verbatim>\<open>tune_it\<close>.

  What the code does to the card is the list of its \<^verbatim>\<open>ioctl\<close> requests. The environment says which of them succeed
  (by their number in the list), the type of the frontend, and what \<^verbatim>\<open>check_status\<close> returns, which waits for a lock.
  Draining the event queue, pauses and allocation failures are left out. \<open>None\<close> is a write past an array, a use
  of uninitialised memory or a conversion to an integer that cannot hold the number.

  The lemmas show what the messages carry and that no message is sent while the tone is on, and which
  configurations break the tuning.
\<close>

section \<open>Requests\<close>

datatype fe_sec_voltage_t = SEC_VOLTAGE_13 | SEC_VOLTAGE_18 | SEC_VOLTAGE_OFF

datatype fe_sec_mini_cmd_t = SEC_MINI_A | SEC_MINI_B

datatype fe_spectral_inversion_t = INVERSION_OFF | INVERSION_AUTO

datatype dtv_property = DTV_CLEAR | DTV_TUNE | DTV_DELIVERY_SYSTEM fe_delivery_system_t | DTV_FREQUENCY nat |
  DTV_MODULATION fe_modulation_t | DTV_SYMBOL_RATE nat | DTV_INNER_FEC fe_code_rate_t |
  DTV_INVERSION fe_spectral_inversion_t | DTV_ROLLOFF fe_rolloff_t | DTV_PILOT_AUTO | DTV_STREAM_ID int |
  DTV_BANDWIDTH_HZ int | DTV_CODE_RATE_HP fe_code_rate_t | DTV_CODE_RATE_LP fe_code_rate_t |
  DTV_GUARD_INTERVAL fe_guard_interval_t | DTV_TRANSMISSION_MODE fe_transmit_mode_t | DTV_HIERARCHY fe_hierarchy_t |
  DTV_ISDBT_PARTIAL_RECEPTION nat | DTV_ISDBT_SOUND_BROADCASTING nat | DTV_ISDBT_LAYER_ENABLED nat |
  DTV_ISDBT_SB_SUBCHANNEL_ID nat | DTV_ISDBT_SB_SEGMENT_IDX nat | DTV_ISDBT_SB_SEGMENT_COUNT nat

text \<open>The parameters of version 3 of the API, with the member of the union that is set.\<close>

datatype fe_union =
    U_ofdm fe_bandwidth_t fe_code_rate_t fe_code_rate_t fe_modulation_t fe_transmit_mode_t fe_guard_interval_t fe_hierarchy_t
  | U_qpsk nat fe_code_rate_t
  | U_qam nat fe_code_rate_t fe_modulation_t
  | U_vsb fe_modulation_t

record fe_parameters =
  frequency :: nat
  inversion :: fe_spectral_inversion_t
  fe_u :: fe_union

datatype fe_request = FE_GET_INFO | FE_SET_TONE bool | FE_SET_VOLTAGE fe_sec_voltage_t |
  FE_DISEQC_SEND_MASTER_CMD "u8 list" | FE_DISEQC_SEND_BURST fe_sec_mini_cmd_t |
  FE_SET_FRONTEND fe_parameters | FE_SET_PROPERTY "dtv_property list"

record fe_env =
  replies :: "nat \<Rightarrow> bool"
  first_type :: fe_type_t
  second_type :: fe_type_t
  lock_status :: int

text \<open>Requests one after the other, up to the first that fails.\<close>

primrec run_requests :: "fe_env \<Rightarrow> fe_request list \<Rightarrow> fe_request list \<Rightarrow> bool \<times> fe_request list" where
  "run_requests e [] done_reqs = (True, done_reqs)"
| "run_requests e (r # rs) done_reqs =
     (if replies e (length done_reqs) then run_requests e rs (done_reqs @ [r]) else (False, done_reqs @ [r]))"

section \<open>DiSEqC\<close>

definition diseqc_send_msg :: "fe_env \<Rightarrow> fe_sec_voltage_t \<Rightarrow> u8 list \<Rightarrow> bool \<Rightarrow> fe_sec_mini_cmd_t \<Rightarrow> fe_request list \<Rightarrow> bool \<times> fe_request list" where
  "diseqc_send_msg e v cmd t b rs =
     run_requests e [FE_SET_TONE False, FE_SET_VOLTAGE v, FE_DISEQC_SEND_MASTER_CMD cmd, FE_DISEQC_SEND_BURST b, FE_SET_TONE t] rs"

definition unicable_send_msg :: "fe_env \<Rightarrow> u8 list \<Rightarrow> fe_request list \<Rightarrow> bool \<times> fe_request list" where
  "unicable_send_msg e cmd rs =
     run_requests e [FE_SET_TONE False, FE_SET_VOLTAGE SEC_VOLTAGE_18, FE_DISEQC_SEND_MASTER_CMD cmd, FE_SET_VOLTAGE SEC_VOLTAGE_13] rs"

text \<open>The data byte of a committed switch: position, polarisation, band.\<close>

definition switch_byte :: "nat \<Rightarrow> int \<Rightarrow> bool \<Rightarrow> bool \<Rightarrow> u8" where
  "switch_byte sat_no switch_nb pol_v_r hi_lo =
     (if switch_nb \<noteq> -1 then or 0xf0 (and (word_of_int switch_nb) 0x0f)
      else or 0xf0 (or (or (and (word_of_int ((int sat_no - 1) * 4)) 0x0f) (if pol_v_r then 0 else 2)) (if hi_lo then 1 else 0)))"

definition do_diseqc ::
  "fe_env \<Rightarrow> nat \<Rightarrow> int \<Rightarrow> char \<Rightarrow> bool \<Rightarrow> bool \<Rightarrow> int \<Rightarrow> int \<Rightarrow> fe_request list \<Rightarrow> bool \<times> fe_request list" where
  "do_diseqc e sat_no switch_nb type pol_v_r hi_lo voltage_off repeat rs =
     (let voltage = (if voltage_off \<noteq> 0 then SEC_VOLTAGE_OFF else if pol_v_r then SEC_VOLTAGE_13 else SEC_VOLTAGE_18);
          burst = (if sat_no mod 2 = 1 then SEC_MINI_B else SEC_MINI_A);
          cmd = (\<lambda>framing. [framing, 0x10, if type = CHR ''U'' then 0x39 else 0x38, switch_byte sat_no switch_nb pol_v_r hi_lo])
      in if type = CHR ''N'' \<or> type = CHR ''J'' then (False, rs)
         else if type = CHR ''B'' \<or> type = CHR ''U'' \<or> type = CHR ''C'' then
           (let (ret, rs) = diseqc_send_msg e voltage (cmd 0xe0) hi_lo burst rs
            in if repeat \<noteq> 0 then diseqc_send_msg e voltage (cmd 0xe1) hi_lo burst rs else (ret, rs))
         else run_requests e [FE_SET_VOLTAGE voltage, FE_SET_TONE hi_lo] rs)"

section \<open>Unicable\<close>

text \<open>The tuning word of EN 50494: \<^verbatim>\<open>(uint16_t) ROUND(...)\<close> of a quotient minus 350, computed as a \<^verbatim>\<open>double\<close>.\<close>

definition tuning_word :: "nat \<Rightarrow> nat \<Rightarrow> nat option" where
  "tuning_word fefrequency ufreq =
     (let q = ((fefrequency div 1000 + ufreq + 2) mod 2 ^ 32) div 4
      in if q < 349 \<or> q - 350 \<ge> 2 ^ 16 then None else Some (q - 350))"

definition unicable_byte1 :: "nat \<Rightarrow> int \<Rightarrow> bool \<Rightarrow> bool \<Rightarrow> nat \<Rightarrow> u8" where
  "unicable_byte1 sat_no switch_nb pol_v_r hi_lo t =
     or (or (or (or (push_bit 5 (word_of_int switch_nb)) (if sat_no \<noteq> 1 then push_bit 4 1 else 0))
       (if pol_v_r then 0 else push_bit 3 1)) (if hi_lo then push_bit 2 1 else 0)) (and (word_of_nat (t div 256)) 0x03)"

definition unicable_msg :: "u8 \<Rightarrow> nat \<Rightarrow> int \<Rightarrow> int \<Rightarrow> bool \<Rightarrow> bool \<Rightarrow> nat \<Rightarrow> u8 list" where
  "unicable_msg framing sat_no switch_nb pin pol_v_r hi_lo t =
     (let b1 = unicable_byte1 sat_no switch_nb pol_v_r hi_lo t; b2 = word_of_nat t
      in if pin > 0 then [framing, 0x10, 0x5c, b1, b2, word_of_int pin] else [framing, 0x10, 0x5a, b1, b2])"

definition unicable_frequency :: "nat \<Rightarrow> nat \<Rightarrow> nat" where
  "unicable_frequency fefrequency t =
     to_u 32 (int (to_u 32 ((int t + 350) * 4 - int (fefrequency div 1000))) * 1000)"

text \<open>EN 50607: the frequency in MHz minus 100.\<close>

definition jess_msg :: "nat \<Rightarrow> int \<Rightarrow> int \<Rightarrow> bool \<Rightarrow> bool \<Rightarrow> nat \<Rightarrow> u8 list" where
  "jess_msg sat_no switch_nb pin pol_v_r hi_lo fefrequency =
     (let t = to_u 16 (int (fefrequency div 1000) - 100);
          b1 = or (push_bit 3 (and (word_of_int switch_nb) 0x1f)) (and (word_of_nat (t div 256)) 0x7);
          b2 = word_of_nat t;
          b3 = or (or (push_bit 2 (and (word_of_int (int sat_no - 1)) 0x3f)) (if pol_v_r then 0 else push_bit 1 1)) (if hi_lo then 1 else 0)
      in if pin > 0 then [0x71, b1, b2, b3, word_of_int pin] else [0x70, b1, b2, b3])"

text \<open>The frequency that the card has to be tuned to is part of the result.\<close>

definition send_twice :: "fe_env \<Rightarrow> u8 list \<times> u8 list \<Rightarrow> int \<Rightarrow> fe_request list \<Rightarrow> bool \<times> fe_request list" where
  "send_twice e cmds repeat rs =
     (case unicable_send_msg e (fst cmds) rs of (ret, rs) \<Rightarrow>
        if repeat \<noteq> 0 then unicable_send_msg e (snd cmds) rs else (ret, rs))"

definition do_unicable ::
  "fe_env \<Rightarrow> nat \<Rightarrow> int \<Rightarrow> int \<Rightarrow> char \<Rightarrow> bool \<Rightarrow> bool \<Rightarrow> int \<Rightarrow> nat \<Rightarrow> nat \<Rightarrow> fe_request list \<Rightarrow> (bool \<times> nat \<times> fe_request list) option" where
  "do_unicable e sat_no switch_nb pin type pol_v_r hi_lo repeat fefrequency ufreq rs = do {
     (cmds, f) \<leftarrow> (if type = CHR ''N'' then do {
         t \<leftarrow> tuning_word fefrequency ufreq;
         Some ((unicable_msg 0xe0 sat_no switch_nb pin pol_v_r hi_lo t, unicable_msg 0xe1 sat_no switch_nb pin pol_v_r hi_lo t),
               unicable_frequency fefrequency t)}
       else if type = CHR ''J'' then
         (let m = jess_msg sat_no switch_nb pin pol_v_r hi_lo fefrequency in Some ((m, m), to_u 32 (int ufreq * 1000)))
       else None);
     (case send_twice e cmds repeat rs of (ret, rs) \<Rightarrow> Some (ret, f, rs))}"

section \<open>The parameters of the frontend\<close>

definition change_deliv :: "fe_type_t \<Rightarrow> fe_delivery_system_t \<Rightarrow> bool" where
  "change_deliv type ds =
     (ds \<noteq> SYS_UNDEFINED \<and> (case type of
        FE_OFDM \<Rightarrow> ds \<noteq> SYS_DVBT \<and> ds \<noteq> SYS_ISDBT \<and> ds \<noteq> SYS_DVBT2
      | FE_QPSK \<Rightarrow> ds \<noteq> SYS_DVBS \<and> ds \<noteq> SYS_DVBS2
      | FE_QAM \<Rightarrow> ds \<noteq> SYS_DVBC_ANNEX_AC \<and> ds \<noteq> SYS_DVBC_ANNEX_B
      | FE_ATSC \<Rightarrow> ds \<noteq> SYS_ATSC))"

definition to_s32 :: "int \<Rightarrow> int" where
  "to_s32 x = (x + 2 ^ 31) mod 2 ^ 32 - 2 ^ 31"

definition default_modulation :: "fe_modulation_t \<Rightarrow> tune_p_t \<Rightarrow> tune_p_t" where
  "default_modulation m t = (if modulation_set t then t else t\<lparr>modulation := m\<rparr>)"

definition scale_freq :: "tune_p_t \<Rightarrow> tune_p_t" where
  "scale_freq t = (if freq t < 1000000 then t\<lparr>freq := freq t * 1000\<rparr> else t)"

definition freq_u :: "tune_p_t \<Rightarrow> nat" where
  "freq_u t = to_u 32 (trunc (freq t))"

definition dvbt_bandwidth :: "fe_bandwidth_t \<Rightarrow> int" where
  "dvbt_bandwidth b = (case b of BANDWIDTH_8_MHZ \<Rightarrow> 8000000 | BANDWIDTH_7_MHZ \<Rightarrow> 7000000 | BANDWIDTH_6_MHZ \<Rightarrow> 6000000 | _ \<Rightarrow> 0)"

text \<open>The local oscillator and the band of the dish.\<close>

definition lo_band :: "tune_p_t \<Rightarrow> nat \<times> bool" where
  "lo_band t = (case lnb_type t of
       LNB_UNIVERSAL \<Rightarrow> if freq t < of_nat (lnb_slof t) then (lnb_lof_low t, False) else (lnb_lof_high t, True)
     | LNB_STANDARD \<Rightarrow> (lnb_lof_standard t, False))"

text \<open>
  The dish: what is left of the tuning when it fails is the parameters and the requests; the frequency, the
  intermediate one, when it succeeds.
\<close>

definition sat_setup :: "fe_env \<Rightarrow> tune_p_t \<Rightarrow> fe_request list \<Rightarrow> (nat option \<times> tune_p_t \<times> fe_request list) option" where
  "sat_setup e t rs =
     (let (lo, hi) = lo_band t;
          f = to_u 32 \<bar>to_s32 (trunc (freq t)) - to_s32 (int lo)\<bar>;
          v_r = (pol t = CHR ''V'' \<or> pol t = CHR ''R'')
      in if uni_freq t > 0 then do {
           (ok, f, rs) \<leftarrow> do_unicable e (sat_number t) (switch_no t) (pin_no t) (switch_type t) v_r hi (diseqc_repeat t) f (uni_freq t) rs;
           Some (if ok then Some f else None, t, rs)}
         else
           (let (ok, t, rs) =
              (if switch_type t = CHR ''B'' then
                 (case do_diseqc e (sat_number t) (switch_no t) CHR ''U'' v_r hi (lnb_voltage_off t) (diseqc_repeat t) rs of
                    (ok, rs) \<Rightarrow> (ok, t\<lparr>switch_type := (if ok then CHR ''C'' else CHR ''U'')\<rparr>, rs))
               else (True, t, rs))
            in if \<not> ok then Some (None, t, rs)
               else (case do_diseqc e (sat_number t) (switch_no t) (switch_type t) v_r hi (lnb_voltage_off t) (diseqc_repeat t) rs of
                  (ok, rs) \<Rightarrow> Some (if ok then Some f else None, t, rs))))"

definition fe_setup :: "fe_env \<Rightarrow> tune_p_t \<Rightarrow> fe_request list \<Rightarrow> (fe_parameters option \<times> tune_p_t \<times> fe_request list) option" where
  "fe_setup e t rs =
     (case fe_type t of
        FE_OFDM \<Rightarrow>
          (let t = default_modulation QAM_AUTO (scale_freq t)
           in Some (Some \<lparr> frequency = freq_u t, inversion = INVERSION_AUTO,
                fe_u = U_ofdm (bandwidth t) (HP_CodeRate t) (LP_CodeRate t) (modulation t) (TransmissionMode t) (guardInterval t) (hier t) \<rparr>, t, rs))
      | FE_QPSK \<Rightarrow> do {
          (f, t, rs) \<leftarrow> sat_setup e (default_modulation QPSK t) rs;
          Some (map_option (\<lambda>f. \<lparr> frequency = f, inversion = INVERSION_AUTO, fe_u = U_qpsk (srate t) (HP_CodeRate t) \<rparr>) f, t, rs)}
      | FE_QAM \<Rightarrow>
          (let t = default_modulation QAM_AUTO (scale_freq t)
           in Some (Some \<lparr> frequency = freq_u t, inversion = INVERSION_OFF, fe_u = U_qam (srate t) (HP_CodeRate t) (modulation t) \<rparr>, t, rs))
      | FE_ATSC \<Rightarrow>
          (let t = default_modulation VSB_8 (scale_freq t)
           in Some (Some \<lparr> frequency = freq_u t, inversion = INVERSION_AUTO, fe_u = U_vsb (modulation t) \<rparr>, t, rs)))"

definition tune_stream_id :: "tune_p_t \<Rightarrow> int" where
  "tune_stream_id t =
     (let s = (if pls_code t \<noteq> 0 then stream_id t + push_bit 8 (and (pls_code t) 0x3FFFF) else stream_id t)
      in if pls_type t = PLS_GOLD then or s (push_bit 26 1) else s)"

definition stream_props :: "tune_p_t \<Rightarrow> dtv_property list" where
  "stream_props t = (if stream_id t \<noteq> 0 then [DTV_STREAM_ID (tune_stream_id t)] else [])"

text \<open>The properties of version 5 of the API, \<open>None\<close> for a delivery system that is not supported.\<close>

definition dtv_props :: "tune_p_t \<Rightarrow> fe_parameters \<Rightarrow> int \<Rightarrow> (tune_p_t \<times> dtv_property list) option" where
  "dtv_props t fp bw =
     (let ds = delivery_system t
      in if ds = SYS_DVBS \<or> ds = SYS_DVBS2 then
        Some (t, [DTV_DELIVERY_SYSTEM ds, DTV_FREQUENCY (frequency fp), DTV_MODULATION (modulation t), DTV_SYMBOL_RATE (srate t),
          DTV_INNER_FEC (HP_CodeRate t), DTV_INVERSION INVERSION_AUTO, DTV_ROLLOFF (rolloff t), DTV_PILOT_AUTO] @
          stream_props t @ [DTV_TUNE])
      else if ds = SYS_DVBT \<or> ds = SYS_DVBT2 then
        Some (t, [DTV_DELIVERY_SYSTEM ds, DTV_FREQUENCY (frequency fp), DTV_BANDWIDTH_HZ bw, DTV_CODE_RATE_HP (HP_CodeRate t),
          DTV_CODE_RATE_LP (LP_CodeRate t), DTV_MODULATION (modulation t), DTV_GUARD_INTERVAL (guardInterval t),
          DTV_TRANSMISSION_MODE (TransmissionMode t), DTV_HIERARCHY (hier t)] @ stream_props t @ [DTV_TUNE])
      else if ds = SYS_ISDBT then
        (let partial = (if isdbt_layer t \<noteq> 0 \<and> isdbt_layer t \<noteq> 7 then 1 else 0);
             t = (if isdbt_layer t = 0 then t\<lparr>isdbt_layer := 7\<rparr> else t)
         in Some (t, [DTV_DELIVERY_SYSTEM ds, DTV_FREQUENCY (frequency fp), DTV_ISDBT_PARTIAL_RECEPTION partial,
          DTV_ISDBT_SOUND_BROADCASTING 0, DTV_ISDBT_LAYER_ENABLED (isdbt_layer t), DTV_BANDWIDTH_HZ 6000000,
          DTV_INVERSION INVERSION_AUTO, DTV_GUARD_INTERVAL GUARD_INTERVAL_AUTO, DTV_TRANSMISSION_MODE TRANSMISSION_MODE_AUTO,
          DTV_ISDBT_SB_SUBCHANNEL_ID 0, DTV_ISDBT_SB_SEGMENT_IDX 0, DTV_ISDBT_SB_SEGMENT_COUNT 0, DTV_TUNE]))
      else if ds = SYS_DVBC_ANNEX_AC \<or> ds = SYS_DVBC_ANNEX_B then
        Some (t, [DTV_DELIVERY_SYSTEM ds, DTV_FREQUENCY (frequency fp), DTV_MODULATION (modulation t), DTV_SYMBOL_RATE (srate t),
          DTV_INVERSION INVERSION_OFF, DTV_INNER_FEC (HP_CodeRate t), DTV_TUNE])
      else if ds = SYS_ATSC then
        Some (t, [DTV_DELIVERY_SYSTEM ds, DTV_FREQUENCY (frequency fp), DTV_MODULATION (modulation t), DTV_TUNE])
      else None)"

definition MAX_CMDSEQ_PROPS_NUM :: nat where "MAX_CMDSEQ_PROPS_NUM = 12"

section \<open>Tuning\<close>

text \<open>The result: what is returned, the parameters, the requests, and whether the program is told to stop.\<close>

type_synonym tune_result = "int \<times> tune_p_t \<times> fe_request list \<times> bool"

definition tune_set :: "fe_env \<Rightarrow> tune_p_t \<Rightarrow> fe_parameters \<Rightarrow> int \<Rightarrow> fe_request list \<Rightarrow> tune_result option" where
  "tune_set e t fp bw rs =
     (if delivery_system t = SYS_UNDEFINED then
        (case run_requests e [FE_SET_FRONTEND fp] rs of
           (ok, rs) \<Rightarrow> Some (if ok then (lock_status e, t, rs, False) else (-1, t, rs, True)))
      else
        (case dtv_props t fp bw of
           None \<Rightarrow> Some (-1, t, rs, True)
         | Some (t, ps) \<Rightarrow>
             if length ps > MAX_CMDSEQ_PROPS_NUM then None
             else (case run_requests e [FE_SET_PROPERTY [DTV_CLEAR], FE_SET_PROPERTY ps] rs of
               (ok, rs) \<Rightarrow> Some (if ok then (lock_status e, t, rs, False) else (-1, t, rs, True)))))"

definition tune_frontend :: "fe_env \<Rightarrow> tune_p_t \<Rightarrow> fe_request list \<Rightarrow> tune_result option" where
  "tune_frontend e t rs = do {
     (fp, t', rs) \<leftarrow> fe_setup e t rs;
     case fp of None \<Rightarrow> Some (-1, t', rs, False)
     | Some fp \<Rightarrow> tune_set e t' fp (if fe_type t = FE_OFDM then dvbt_bandwidth (bandwidth t) else 0) rs}"

definition tune_it :: "fe_env \<Rightarrow> tune_p_t \<Rightarrow> tune_result option" where
  "tune_it e t =
     (case run_requests e [FE_GET_INFO] [] of (ok, rs) \<Rightarrow>
        if \<not> ok then Some (-1, t, rs, False)
        else (let t = t\<lparr>fe_type := first_type e\<rparr>
          in if change_deliv (fe_type t) (delivery_system t) then
               (case run_requests e [FE_SET_PROPERTY [DTV_CLEAR], FE_SET_PROPERTY [DTV_DELIVERY_SYSTEM (delivery_system t)]] rs of
                  (ok, rs) \<Rightarrow>
                    if \<not> ok then Some (-1, t, rs, True)
                    else (case run_requests e [FE_GET_INFO] rs of (ok, rs) \<Rightarrow>
                      if \<not> ok then Some (-1, t, rs, False) else tune_frontend e (t\<lparr>fe_type := second_type e\<rparr>) rs))
             else tune_frontend e t rs))"

section \<open>No command while the tone is on\<close>

text \<open>
  Whether every DiSEqC command of a list of requests is sent with the tone off, from a given state of the tone.
  A tone request that fails ends its sequence, so the state it asked for is not used.
\<close>

primrec quiet :: "bool \<Rightarrow> fe_request list \<Rightarrow> bool" where
  "quiet on [] = True"
| "quiet on (r # rs) =
     (case r of FE_SET_TONE b \<Rightarrow> quiet b rs | FE_DISEQC_SEND_MASTER_CMD _ \<Rightarrow> \<not> on \<and> quiet on rs | _ \<Rightarrow> quiet on rs)"

primrec tone_after :: "bool \<Rightarrow> fe_request list \<Rightarrow> bool" where
  "tone_after on [] = on"
| "tone_after on (r # rs) = tone_after (case r of FE_SET_TONE b \<Rightarrow> b | _ \<Rightarrow> on) rs"

lemma quiet_append: "quiet on (xs @ ys) \<longleftrightarrow> quiet on xs \<and> quiet (tone_after on xs) ys"
  by (induction xs arbitrary: on) (auto split: fe_request.splits)

lemma quiet_take: "quiet on xs \<Longrightarrow> quiet on (take k xs)"
  using quiet_append [of on "take k xs" "drop k xs"] by simp

lemma run_requests_take: "\<exists>k. snd (run_requests e rs ds) = ds @ take k rs"
proof (induction rs arbitrary: ds)
  case Nil then show ?case by simp
next
  case (Cons r rs)
  obtain k where "snd (run_requests e rs (ds @ [r])) = (ds @ [r]) @ take k rs" using Cons by blast
  then have "snd (run_requests e (r # rs) ds) = ds @ take (if replies e (length ds) then Suc k else 1) (r # rs)" by simp
  then show ?case by blast
qed

declare run_requests.simps [simp del]

definition harmless :: "fe_request list \<Rightarrow> bool" where
  "harmless rs \<longleftrightarrow> (\<forall>on. quiet on rs)"

lemma quiet_run: "run_requests e rs ds = (b, ds') \<Longrightarrow> harmless rs \<Longrightarrow> quiet True ds \<Longrightarrow> quiet True ds'"
  using run_requests_take [of e rs ds] by (auto simp: quiet_append quiet_take harmless_def)

lemma harmless_requests [simp]:
  "harmless [FE_GET_INFO]" "harmless [FE_SET_FRONTEND p]" "harmless [FE_SET_PROPERTY x, FE_SET_PROPERTY y]"
  "harmless [FE_SET_VOLTAGE v, FE_SET_TONE t]"
  "harmless [FE_SET_TONE False, FE_SET_VOLTAGE v, FE_DISEQC_SEND_MASTER_CMD cmd, FE_DISEQC_SEND_BURST b, FE_SET_TONE t]"
  "harmless [FE_SET_TONE False, FE_SET_VOLTAGE v, FE_DISEQC_SEND_MASTER_CMD cmd, FE_SET_VOLTAGE w]"
  by (simp_all add: harmless_def)

lemma quiet_diseqc_send: "diseqc_send_msg e v cmd t b rs = (ok, rs') \<Longrightarrow> quiet True rs \<Longrightarrow> quiet True rs'"
  unfolding diseqc_send_msg_def by (erule quiet_run) simp_all

lemma quiet_unicable_send: "unicable_send_msg e cmd rs = (ok, rs') \<Longrightarrow> quiet True rs \<Longrightarrow> quiet True rs'"
  unfolding unicable_send_msg_def by (erule quiet_run) simp_all

lemma quiet_send_twice: "send_twice e cmds rep rs = (ok, rs') \<Longrightarrow> quiet True rs \<Longrightarrow> quiet True rs'"
  by (auto simp: send_twice_def split: prod.splits if_splits dest: quiet_unicable_send)

lemma quiet_do_diseqc: "do_diseqc e sat sw ty v hi off rep rs = (ok, rs') \<Longrightarrow> quiet True rs \<Longrightarrow> quiet True rs'"
  by (auto simp: do_diseqc_def Let_def split: if_splits prod.splits dest: quiet_run quiet_diseqc_send)

lemma quiet_do_unicable:
  assumes "do_unicable e sat sw pin ty v hi rep f u rs = Some (ok, f', rs')" "quiet True rs"
  shows "quiet True rs'"
proof -
  obtain cmds g where "(case send_twice e cmds rep rs of (ret, rs) \<Rightarrow> Some (ret, g :: nat, rs)) = Some (ok, f', rs')"
    using assms(1) by (auto simp: do_unicable_def Option.bind_eq_Some_conv)
  then show ?thesis using assms(2) by (auto split: prod.splits dest: quiet_send_twice)
qed

lemma quiet_sat_setup: "sat_setup e t rs = Some (f, t', rs') \<Longrightarrow> quiet True rs \<Longrightarrow> quiet True rs'"
  by (auto simp: sat_setup_def Option.bind_eq_Some_conv Let_def split: if_splits prod.splits
      dest!: quiet_do_unicable quiet_do_diseqc)

lemma quiet_fe_setup: "fe_setup e t rs = Some (fp, t', rs') \<Longrightarrow> quiet True rs \<Longrightarrow> quiet True rs'"
  by (auto simp: fe_setup_def Option.bind_eq_Some_conv Let_def split: fe_type_t.splits dest: quiet_sat_setup)

lemma quiet_tune_set: "tune_set e t fp bw rs = Some (r, t', rs', i) \<Longrightarrow> quiet True rs \<Longrightarrow> quiet True rs'"
  by (auto simp: tune_set_def split: if_splits option.splits prod.splits dest!: quiet_run)

lemma quiet_tune_frontend: "tune_frontend e t rs = Some (r, t', rs', i) \<Longrightarrow> quiet True rs \<Longrightarrow> quiet True rs'"
  by (auto simp: tune_frontend_def Option.bind_eq_Some_conv split: option.splits dest: quiet_fe_setup quiet_tune_set)

text \<open>
  C32. A DiSEqC or unicable command is never sent while the 22 kHz tone is on: in all requests that \<^verbatim>\<open>tune_it\<close>
  makes, whichever of them fail, the last request for the tone before a command asks for it to be off.
\<close>

theorem tune_it_quiet:
  assumes "tune_it e t = Some (r, t', rs, stop)"
  shows "quiet True rs"
  using assms by (auto simp: tune_it_def Let_def split: prod.splits if_splits dest!: quiet_run quiet_tune_frontend)

section \<open>What is sent for a dish\<close>

lemma run_requests_all: "(\<And>n. replies e n) \<Longrightarrow> run_requests e rs ds = (True, ds @ rs)"
  by (induction rs arbitrary: ds) (simp_all add: run_requests.simps)

text \<open>
  The tuning of a dish behind a committed DiSEqC switch, when every request succeeds: tone off, voltage by the
  polarisation, the switch command, the burst, the tone by the band, then the intermediate frequency, the distance
  of the frequency from the local oscillator of its band.
\<close>

lemma tune_satellite_spec:
  assumes "\<And>n. replies e n" "first_type e = FE_QPSK" "delivery_system t = SYS_UNDEFINED" "switch_type t = CHR ''C''"
    and "uni_freq t = 0" "diseqc_repeat t = 0" "lnb_voltage_off t = 0"
  shows "tune_it e t =
    (let (lo, hi) = lo_band t; v = (pol t = CHR ''V'' \<or> pol t = CHR ''R'')
     in Some (lock_status e, default_modulation QPSK (t\<lparr>fe_type := FE_QPSK\<rparr>),
       [FE_GET_INFO, FE_SET_TONE False, FE_SET_VOLTAGE (if v then SEC_VOLTAGE_13 else SEC_VOLTAGE_18),
        FE_DISEQC_SEND_MASTER_CMD [0xe0, 0x10, 0x38, switch_byte (sat_number t) (switch_no t) v hi],
        FE_DISEQC_SEND_BURST (if sat_number t mod 2 = 1 then SEC_MINI_B else SEC_MINI_A), FE_SET_TONE hi,
        FE_SET_FRONTEND \<lparr> frequency = to_u 32 \<bar>to_s32 (trunc (freq t)) - to_s32 (int lo)\<bar>, inversion = INVERSION_AUTO,
          fe_u = U_qpsk (srate t) (HP_CodeRate t) \<rparr>], False))"
proof -
  let ?t = "default_modulation QPSK (t\<lparr>fe_type := FE_QPSK\<rparr>)"
  note run = run_requests_all [of e, OF assms(1)]
  have same: "sat_number ?t = sat_number t" "switch_no ?t = switch_no t" "switch_type ?t = CHR ''C''" "uni_freq ?t = 0"
      "diseqc_repeat ?t = 0" "lnb_voltage_off ?t = 0" "lo_band ?t = lo_band t" "freq ?t = freq t" "pol ?t = pol t"
      "srate ?t = srate t" "HP_CodeRate ?t = HP_CodeRate t" "delivery_system ?t = SYS_UNDEFINED"
    using assms by (simp_all add: default_modulation_def lo_band_def split: lnb_type_t.split)
  show ?thesis using assms(2,3)
    by (cases "lo_band t") (simp add: tune_it_def run change_deliv_def tune_frontend_def fe_setup_def sat_setup_def same Let_def
        do_diseqc_def diseqc_send_msg_def tune_set_def)
qed

text \<open>The position is two bits: a switch that is not configured is told to take the last one.\<close>

lemma switch_byte_position:
  "sat_no \<le> 4 \<Longrightarrow> switch_byte sat_no (-1) v hi = word_of_nat (0xf0 + 4 * ((sat_no + 3) mod 4) + (if v then 0 else 2) + (if hi then 1 else 0))"
proof -
  assume "sat_no \<le> 4"
  then consider "sat_no = 0" | "sat_no = 1" | "sat_no = 2" | "sat_no = 3" | "sat_no = 4" by linarith
  then show ?thesis by cases (cases v; cases hi; simp add: switch_byte_def)+
qed

text \<open>
  A dish without a DiSEqC switch is switched all the same: the satellite number 0, the default, which the
  documentation of the parameter reserves for hardware without DiSEqC, sends the command that the number 4 sends.
\<close>

theorem default_dish_switched:
  assumes "\<And>n. replies e n" "first_type e = FE_QPSK" "delivery_system t = SYS_UNDEFINED" "switch_type t = CHR ''C''"
    and "uni_freq t = 0" "diseqc_repeat t = 0" "lnb_voltage_off t = 0" "sat_number t = 0" "switch_no t = -1"
  shows "\<exists>r t' rs. tune_it e t = Some (r, t', rs, False) \<and>
    FE_DISEQC_SEND_MASTER_CMD [0xe0, 0x10, 0x38, switch_byte 4 (-1) (pol t = CHR ''V'' \<or> pol t = CHR ''R'') (snd (lo_band t))] \<in> set rs"
proof -
  have b: "switch_byte 0 (-1) v hi = switch_byte 4 (-1) v hi" for v hi by (simp add: switch_byte_position)
  obtain lo hi where l: "lo_band t = (lo, hi)" by (cases "lo_band t")
  show ?thesis using tune_satellite_spec [OF assms(1-7)] assms(8,9) by (simp add: l b Let_def)
qed

section \<open>Unicable\<close>

lemma unicable_byte1_bits:
  assumes "t < 1024"
  shows "unat (and (unicable_byte1 sat sw v hi t) 3) = t div 256"
proof -
  have "and (unicable_byte1 sat sw v hi t) 3 = (word_of_nat (t div 256) :: u8)"
  proof (rule bit_word_eqI)
    fix n assume n: "n < LENGTH(8)"
    have hi_zero: "\<not> bit (t div 256) n" if "2 \<le> n"
    proof -
      have "t div 256 < 2 ^ 2" using assms by simp
      also have "(2 :: nat) ^ 2 \<le> 2 ^ n" using that by (intro power_increasing) simp_all
      finally show ?thesis by (simp add: bit_iff_odd)
    qed
    consider "n = 0" | "n = 1" | "2 \<le> n" by linarith
    then show "bit (and (unicable_byte1 sat sw v hi t) 3) n = bit (word_of_nat (t div 256) :: u8) n"
    proof cases
      case 3
      have m: "(3 :: u8) = mask 2" by (simp add: mask_eq_exp_minus_1)
      have "\<not> bit (3 :: u8) n" unfolding m bit_mask_iff using 3 by simp
      then show ?thesis using hi_zero [OF 3] by (simp add: bit_and_iff bit_word_of_nat)
    qed (simp_all add: unicable_byte1_def bit_simps bit_numeral_rec)
  qed
  moreover have "t div 256 < 2 ^ 8" using assms by simp
  ultimately show ?thesis by (simp add: unat_of_nat)
qed

lemma to_u_int: "n < 2 ^ w \<Longrightarrow> to_u w (int n) = n"
  by (simp add: to_u_def)

lemma tuning_word_nearest:
  assumes "1400 \<le> f div 1000 + u + 2" "f div 1000 + u + 2 < 5496"
  shows "\<exists>t. tuning_word f u = Some t \<and> t < 1024 \<and> 4 * (t + 350) + (f div 1000 + u + 2) mod 4 = f div 1000 + u + 2"
proof -
  let ?s = "f div 1000 + u + 2"
  have q: "?s mod 2 ^ 32 = ?s" "350 \<le> ?s div 4" "?s div 4 < 1374" using assms by simp_all
  have "tuning_word f u = Some (?s div 4 - 350)"
    unfolding tuning_word_def q(1) Let_def using q(2,3) by simp
  moreover have "4 * (?s div 4 - 350 + 350) + ?s mod 4 = ?s" using q(2) by simp
  moreover have "?s div 4 - 350 < 1024" using q(2,3) by linarith
  ultimately show ?thesis by blast
qed


section \<open>Configurations that break\<close>

text \<open>
  C34. ISDB-T tuning writes past the array of properties, whatever the frequency and the layers: it makes 13
  properties and the array has room for 12.
\<close>

theorem isdbt_overflow:
  assumes "delivery_system t = SYS_ISDBT" "first_type e = FE_OFDM" "replies e 0"
  shows "tune_it e t = None"
  using assms by (simp add: tune_it_def run_requests.simps change_deliv_def tune_frontend_def fe_setup_def tune_set_def dtv_props_def
      default_modulation_def scale_freq_def Let_def MAX_CMDSEQ_PROPS_NUM_def)

text \<open>A user band frequency with the default switch type sends a command that has not been written.\<close>

lemma unicable_default_switch:
  assumes "first_type e = FE_QPSK" "replies e 0" "delivery_system t = SYS_UNDEFINED" "switch_type t = CHR ''C''" "0 < uni_freq t"
  shows "tune_it e t = None"
  using assms by (simp add: tune_it_def run_requests.simps change_deliv_def tune_frontend_def fe_setup_def sat_setup_def do_unicable_def
      default_modulation_def Let_def split: prod.split)

text \<open>The commands in a list of requests all have one command byte.\<close>

definition only_command :: "u8 \<Rightarrow> fe_request list \<Rightarrow> bool" where
  "only_command b rs \<longleftrightarrow> (\<forall>cmd. FE_DISEQC_SEND_MASTER_CMD cmd \<in> set rs \<longrightarrow> cmd ! 2 = b)"

lemma only_command_run: "run_requests e rs ds = (ok, ds') \<Longrightarrow> only_command b rs \<Longrightarrow> only_command b ds \<Longrightarrow> only_command b ds'"
  using run_requests_take [of e rs ds] unfolding only_command_def by (metis UnE in_set_takeD set_append snd_conv)

lemma only_command_send: "diseqc_send_msg e v [x, y, b, z] t bu rs = (ok, rs') \<Longrightarrow> only_command b rs \<Longrightarrow> only_command b rs'"
  unfolding diseqc_send_msg_def by (erule only_command_run) (auto simp: only_command_def)

lemma only_command_diseqc:
  assumes "do_diseqc e sat sw ty v hi off rep rs = (ok, rs')" "ty \<noteq> CHR ''B''" "only_command (if ty = CHR ''U'' then 0x39 else 0x38) rs"
  shows "only_command (if ty = CHR ''U'' then 0x39 else 0x38) rs'"
proof -
  have "only_command b [FE_SET_VOLTAGE x, FE_SET_TONE hi]" for b x by (simp add: only_command_def)
  then show ?thesis using assms
    by (auto simp: do_diseqc_def Let_def split: if_splits prod.splits dest: only_command_run only_command_send)
qed

lemma sat_setup_type:
  assumes "sat_setup e t rs = Some (f, t', rs')" "uni_freq t = 0" "switch_type t = CHR ''B''"
  shows "switch_type t' = CHR ''U'' \<or> switch_type t' = CHR ''C''"
  using assms by (auto simp: sat_setup_def Let_def split: prod.splits if_splits)

lemma sat_setup_commands:
  assumes "sat_setup e t rs = Some (f, t', rs')" "uni_freq t = 0" "switch_type t \<noteq> CHR ''B''"
    and "only_command (if switch_type t = CHR ''U'' then 0x39 else 0x38) rs"
  shows "only_command (if switch_type t = CHR ''U'' then 0x39 else 0x38) rs'"
  using assms by (auto simp: sat_setup_def Let_def split: prod.splits if_splits dest!: only_command_diseqc)

lemma tune_set_switch: "tune_set e t fp bw rs = Some (r, t', rs', stop) \<Longrightarrow> switch_type t' = switch_type t \<and> uni_freq t' = uni_freq t \<and> delivery_system t' = delivery_system t"
  by (auto simp: tune_set_def dtv_props_def Let_def split: if_splits option.splits prod.splits)

text \<open>One tuning of a dish without version 5 of the API.\<close>

lemma tune_dish:
  assumes "tune_it e t = Some (r, t', rs, stop)" "replies e 0" "first_type e = FE_QPSK" "delivery_system t = SYS_UNDEFINED" "uni_freq t = 0"
  shows "\<exists>f t1 rs1. sat_setup e (default_modulation QPSK (t\<lparr>fe_type := FE_QPSK\<rparr>)) [FE_GET_INFO] = Some (f, t1, rs1) \<and> t' = t1 \<and>
    (rs = rs1 \<or> (\<exists>fp. rs = rs1 @ [FE_SET_FRONTEND fp]))"
proof -
  have i: "run_requests e [FE_GET_INFO] [] = (True, [FE_GET_INFO])" using assms(2) by (simp add: run_requests.simps)
  have "tune_frontend e (t\<lparr>fe_type := FE_QPSK\<rparr>) [FE_GET_INFO] = Some (r, t', rs, stop)"
    using assms i by (simp add: tune_it_def change_deliv_def)
  then obtain f t1 rs1 where s: "sat_setup e (default_modulation QPSK (t\<lparr>fe_type := FE_QPSK\<rparr>)) [FE_GET_INFO] = Some (f, t1, rs1)"
    "(case f of None \<Rightarrow> Some (-1, t1, rs1, False)
      | Some f \<Rightarrow> tune_set e t1 \<lparr> frequency = f, inversion = INVERSION_AUTO, fe_u = U_qpsk (srate t1) (HP_CodeRate t1) \<rparr> 0 rs1) = Some (r, t', rs, stop)"
    by (auto simp: tune_frontend_def fe_setup_def Option.bind_eq_Some_conv split: option.splits)
  have d: "delivery_system t1 = SYS_UNDEFINED"
    using s(1) assms(4,5) by (auto simp: sat_setup_def default_modulation_def Let_def split: prod.splits if_splits)
  have "t' = t1 \<and> (rs = rs1 \<or> (\<exists>fp. rs = rs1 @ [FE_SET_FRONTEND fp]))"
    using s(2) d by (auto simp: tune_set_def run_requests.simps split: option.splits if_splits)
  then show ?thesis using s(1) by blast
qed

text \<open>
  Behind two cascaded switches (\<^verbatim>\<open>switch_type=b\<close>) only the first tuning commands both. The type of the
  parameters is overwritten while the commands are sent, so when the card is tuned again, after a loss of the signal,
  every command is for the same kind of switch, and the other one is left as it is.
\<close>

theorem cascade_lost:
  assumes "tune_it e t = Some (r, t', rs, stop)" "replies e 0" "first_type e = FE_QPSK"
    and "delivery_system t = SYS_UNDEFINED" "uni_freq t = 0" "switch_type t = CHR ''B''"
    and "tune_it e2 t' = Some (r2, t2, rs2, stop2)" "replies e2 0" "first_type e2 = FE_QPSK"
  shows "only_command 0x38 rs2 \<or> only_command 0x39 rs2"
proof -
  obtain f rs1 where 1: "sat_setup e (default_modulation QPSK (t\<lparr>fe_type := FE_QPSK\<rparr>)) [FE_GET_INFO] = Some (f, t', rs1)"
    using tune_dish [OF assms(1-5)] by blast
  have same: "uni_freq t' = 0" "delivery_system t' = SYS_UNDEFINED"
    using 1 assms(4,5) by (auto simp: sat_setup_def default_modulation_def Let_def split: prod.splits if_splits)
  have ty: "switch_type t' = CHR ''U'' \<or> switch_type t' = CHR ''C''"
    by (rule sat_setup_type [OF 1]) (use assms(5,6) in \<open>simp_all add: default_modulation_def\<close>)
  obtain f2 rs3 where 2: "sat_setup e2 (default_modulation QPSK (t'\<lparr>fe_type := FE_QPSK\<rparr>)) [FE_GET_INFO] = Some (f2, t2, rs3)"
      "rs2 = rs3 \<or> (\<exists>fp. rs2 = rs3 @ [FE_SET_FRONTEND fp])"
    using tune_dish [OF assms(7-9) same(2,1)] by blast
  have "only_command (if switch_type t' = CHR ''U'' then 0x39 else 0x38) rs3"
    using sat_setup_commands [OF 2(1)] ty same(1) by (auto simp: default_modulation_def only_command_def)
  then show ?thesis using 2(2) ty by (auto simp: only_command_def)
qed

section \<open>Examples\<close>

definition sample_fe :: fe_env where
  "sample_fe = \<lparr> replies = (\<lambda>_. True), first_type = FE_QPSK, second_type = FE_QPSK, lock_status = 0 \<rparr>"

definition sample_dish :: tune_p_t where
  "sample_dish = init_tune_v\<lparr>freq := 11778000, pol := CHR ''V'', srate := 27500000\<rparr>"

lemma sample_fe_simps: "replies sample_fe n" "first_type sample_fe = FE_QPSK"
  by (simp_all add: sample_fe_def)

lemma sample_dish_simps: "delivery_system sample_dish = SYS_UNDEFINED" "switch_type sample_dish = CHR ''C''"
  "uni_freq sample_dish = 0" "diseqc_repeat sample_dish = 0" "lnb_voltage_off sample_dish = 0" "sat_number sample_dish = 0"
  "switch_no sample_dish = -1"
  by (simp_all add: sample_dish_def init_tune_v_def)

lemma sat_setup_returns:
  "uni_freq t = 0 \<Longrightarrow> \<exists>f t' rs'. sat_setup e t rs = Some (f, t', rs') \<and> delivery_system t' = delivery_system t"
  by (simp add: sat_setup_def Let_def split: prod.split)

lemma tune_dish_returns:
  assumes "first_type e = FE_QPSK" "delivery_system t = SYS_UNDEFINED" "uni_freq t = 0"
  shows "\<exists>r t' rs stop. tune_it e t = Some (r, t', rs, stop)"
proof -
  have d: "delivery_system (default_modulation QPSK (t\<lparr>fe_type := FE_QPSK\<rparr>)) = SYS_UNDEFINED"
    "uni_freq (default_modulation QPSK (t\<lparr>fe_type := FE_QPSK\<rparr>)) = 0" using assms by (simp_all add: default_modulation_def)
  have "\<exists>r t' rs' stop. tune_frontend e (t\<lparr>fe_type := FE_QPSK\<rparr>) rs = Some (r, t', rs', stop)" for rs
  proof -
    obtain f t1 rs1 where "sat_setup e (default_modulation QPSK (t\<lparr>fe_type := FE_QPSK\<rparr>)) rs = Some (f, t1, rs1)"
      "delivery_system t1 = SYS_UNDEFINED" using sat_setup_returns [OF d(2)] d(1) by metis
    then show ?thesis by (cases f) (auto simp: tune_frontend_def fe_setup_def tune_set_def split: prod.split)
  qed
  then show ?thesis using assms by (auto simp: tune_it_def change_deliv_def split: prod.split)
qed

theorem tune_it_quiet_witness: "\<exists>r t' rs stop. tune_it sample_fe sample_dish = Some (r, t', rs, stop) \<and> quiet True rs"
proof -
  obtain r t' rs stop where "tune_it sample_fe sample_dish = Some (r, t', rs, stop)"
    using tune_dish_returns sample_fe_simps(2) sample_dish_simps(1,3) by blast
  then show ?thesis using tune_it_quiet by blast
qed

theorem default_dish_switched_witness:
  "\<exists>r t' rs. tune_it sample_fe sample_dish = Some (r, t', rs, False) \<and> FE_DISEQC_SEND_MASTER_CMD [0xe0, 0x10, 0x38, 0xfd] \<in> set rs"
proof -
  have "snd (lo_band sample_dish)" "pol sample_dish = CHR ''V''"
    by (simp_all add: lo_band_def sample_dish_def init_tune_v_def)
  moreover have "switch_byte 4 (-1) True True = 0xfd" by (simp add: switch_byte_position)
  ultimately show ?thesis
    using default_dish_switched [OF sample_fe_simps sample_dish_simps(1,2,3,4,5,6,7)] by simp
qed


theorem isdbt_overflow_witness:
  "tune_it (sample_fe\<lparr>first_type := FE_OFDM\<rparr>) (init_tune_v\<lparr>delivery_system := SYS_ISDBT, freq := 500000000\<rparr>) = None"
  by (rule isdbt_overflow) (simp_all add: sample_fe_def)

theorem cascade_lost_witness:
  "\<exists>r t' rs stop r2 t2 rs2 stop2. tune_it sample_fe (sample_dish\<lparr>switch_type := CHR ''B''\<rparr>) = Some (r, t', rs, stop) \<and>
     tune_it sample_fe t' = Some (r2, t2, rs2, stop2) \<and> (only_command 0x38 rs2 \<or> only_command 0x39 rs2)"
proof -
  let ?t = "sample_dish\<lparr>switch_type := CHR ''B''\<rparr>"
  have t: "delivery_system ?t = SYS_UNDEFINED" "uni_freq ?t = 0" "switch_type ?t = CHR ''B''" using sample_dish_simps by simp_all
  obtain r t' rs stop where 1: "tune_it sample_fe ?t = Some (r, t', rs, stop)"
    using tune_dish_returns [OF sample_fe_simps(2) t(1,2)] by blast
  have "delivery_system t' = SYS_UNDEFINED" "uni_freq t' = 0"
    using tune_dish [OF 1 sample_fe_simps t(1,2)] t
    by (auto simp: sat_setup_def default_modulation_def Let_def split: prod.splits if_splits)
  then obtain r2 t2 rs2 stop2 where 2: "tune_it sample_fe t' = Some (r2, t2, rs2, stop2)"
    using tune_dish_returns [OF sample_fe_simps(2)] by blast
  show ?thesis using 1 2 cascade_lost [OF 1 sample_fe_simps t(1,2,3) 2 sample_fe_simps] by blast
qed

end
