(* ===== verification/Monitor.thy ===== *)
theory Monitor
  imports Config Tune
begin

text \<open>
  The monitoring thread, \<^verbatim>\<open>monitor_func\<close> of \<^verbatim>\<open>src/src/mumudvb_mon.c\<close>, in a build without SCAM support: the signals,
  the announcements, the traffic of the channels, their scrambling and whether they are up, and what is done when no
  channel has been up for a long time. One pass of its loop is a function; a run is passes in the order of time, with
  the other threads in between, which change the channels, the announcements, the options and the counters of reads.

  The clock is a parameter of a pass, in whole seconds: the code adds the microseconds divided by 1000000 as integers,
  which is 0. Floating point numbers are rational. Messages are left out; the file of the streamed channels is a text.
\<close>

section \<open>Channels\<close>

definition scrambled_ratio :: "nat \<Rightarrow> nat \<Rightarrow> nat" where
  "scrambled_ratio packets scrambled = (if packets > 0 \<and> scrambled > 10 then scrambled * 100 div packets else 0)"

definition scrambling :: "nat \<Rightarrow> scrambling_state \<Rightarrow> scrambling_state" where
  "scrambling ratio s =
     (let s = (if ratio < 2 \<and> s \<noteq> FULLY_UNSCRAMBLED then FULLY_UNSCRAMBLED else s);
          s = (if 5 \<le> ratio \<and> ratio \<le> 75 \<and> s \<noteq> PARTIALLY_UNSCRAMBLED then PARTIALLY_UNSCRAMBLED else s)
      in if ratio > 80 \<and> s \<noteq> HIGHLY_SCRAMBLED then HIGHLY_SCRAMBLED else s)"

text \<open>The PIDs of a channel: scrambled when a scrambled packet came since the last pass.\<close>

primrec pid_states :: "nat \<Rightarrow> nat \<Rightarrow> pid_i_t \<Rightarrow> pid_i_t option" where
  "pid_states 0 k p = Some p"
| "pid_states (Suc n) k p = do {
     x \<leftarrow> rd (pids_num_scrambled_packets p) k;
     s \<leftarrow> wr (pids_scrambled p) k (x > 0);
     c \<leftarrow> wr (pids_num_scrambled_packets p) k 0;
     pid_states n (k + 1) (p\<lparr>pids_num_scrambled_packets := c, pids_scrambled := s\<rparr>)}"

definition scrambling_check :: "mumudvb_channel_t \<Rightarrow> mumudvb_channel_t option" where
  "scrambling_check ch =
     (if channel_ready ch < READY then Some ch
      else do {
        let r = scrambled_ratio (num_packet ch) (num_scrambled_packets ch);
        p \<leftarrow> pid_states (num_pids (pid_i ch)) 0 (pid_i ch);
        Some (ch\<lparr>ratio_scrambled := r, scrambled_channel := scrambling r (scrambled_channel ch), pid_i := p\<rparr>)})"

definition packets_per_sec :: "bool \<Rightarrow> int \<Rightarrow> int \<Rightarrow> mumudvb_channel_t \<Rightarrow> rat" where
  "packets_per_sec no_scrambled last_check now ch =
     (if now > last_check
      then of_int (int (num_packet ch) - (if no_scrambled then int (num_scrambled_packets ch) else 0)) / of_int (now - last_check)
      else 0)"

definition updown :: "int \<Rightarrow> int \<Rightarrow> rat \<Rightarrow> bool \<Rightarrow> bool" where
  "updown up down rate on =
     (if rate \<ge> of_int up \<and> \<not> on then True else if on \<and> rate < of_int down then False else on)"

definition updown_check :: "bool \<Rightarrow> stats_infos_t \<Rightarrow> int \<Rightarrow> int \<Rightarrow> mumudvb_channel_t \<Rightarrow> mumudvb_channel_t" where
  "updown_check no_scrambled st last_check now ch =
     (if channel_ready ch < READY then ch
      else ch\<lparr>mumudvb_channel_t.has_traffic := updown (up_threshold st) (down_threshold st) (packets_per_sec no_scrambled last_check now ch) (mumudvb_channel_t.has_traffic ch)\<rparr>)"

definition reset_counters :: "mumudvb_channel_t \<Rightarrow> mumudvb_channel_t" where
  "reset_counters ch = (if channel_ready ch < READY then ch else ch\<lparr>num_packet := 0, num_scrambled_packets := 0\<rparr>)"

definition is_active :: "mumudvb_channel_t \<Rightarrow> bool" where
  "is_active ch \<longleftrightarrow> mumudvb_channel_t.has_traffic ch \<and> READY \<le> channel_ready ch"

definition count_active :: "mumu_chan_p_t \<Rightarrow> nat" where
  "count_active cp = length (filter is_active (take (number_of_channels cp) (channels cp)))"

text \<open>The lists of the channels, \<^verbatim>\<open>gen_file_streamed_channels\<close> of \<^verbatim>\<open>src/src/log.c\<close>, when both files can be opened.\<close>

definition channel_entry :: "mumudvb_channel_t \<Rightarrow> string" where
  "channel_entry ch = ip4Out ch @ '':'' @ print_d (mumudvb_channel_t.portOut ch) @ '':'' @ mumudvb_channel_t.name ch @ '':'' @ print_d (int (service_type ch))"

definition streamed_entry :: "mumudvb_channel_t \<Rightarrow> string" where
  "streamed_entry ch = channel_entry ch @
     (case scrambled_channel ch of FULLY_UNSCRAMBLED \<Rightarrow> '':FullyUnscrambled'' | PARTIALLY_UNSCRAMBLED \<Rightarrow> '':PartiallyUnscrambled''
      | HIGHLY_SCRAMBLED \<Rightarrow> '':HighlyScrambled'') @ [CHR 0x0A]"

definition gen_file_streamed_channels :: "mumu_chan_p_t \<Rightarrow> string \<times> string" where
  "gen_file_streamed_channels cp =
     (let chs = take (number_of_channels cp) (channels cp)
      in (concat (map streamed_entry (filter is_active chs)),
          concat (map (\<lambda>ch. channel_entry ch @ [CHR 0x0A]) (filter (\<lambda>ch. \<not> is_active ch) chs))))"

section \<open>State\<close>

datatype signal = NO_SIGNAL | SIGUSR1 | SIGUSR2 | SIGHUP

record monitor_input =
  i_now :: int
  i_signal :: signal
  i_fe :: fe_env
  i_junk :: "u8 list"
  i_log_file :: bool

record monitor_state =
  m_sap :: sap_p_t
  m_chan :: mumu_chan_p_t
  m_stats :: stats_infos_t
  m_tune :: tune_p_t
  stats_num_packets_received :: int
  stats_num_reads :: int
  show_buffer_stats_time :: int
  compute_traffic_time :: int
  m_traffic :: "rat list"
  last_updown_check :: int
  last_flush_time :: int
  time_no_diff :: int
  num_big_buffer_show :: nat
  m_interrupted :: int

definition ERROR_NO_DIFF :: int where "ERROR_NO_DIFF = 8"
definition ERROR_TUNE :: int where "ERROR_TUNE = 7"

text \<open>The first reason to stop is kept.\<close>

definition set_interrupted :: "int \<Rightarrow> int \<Rightarrow> int" where
  "set_interrupted v i = (if v \<noteq> 0 \<and> i = 0 then v else i)"

section \<open>The parts of a pass\<close>

definition handle_signal :: "signal \<Rightarrow> monitor_state \<Rightarrow> monitor_state" where
  "handle_signal s st =
     (case s of
        SIGUSR1 \<Rightarrow> st\<lparr>m_tune := (m_tune st)\<lparr>display_strenght := (if display_strenght (m_tune st) \<noteq> 0 then 0 else 1)\<rparr>\<rparr>
      | SIGUSR2 \<Rightarrow> st\<lparr>m_stats := (m_stats st)\<lparr>show_traffic := (if show_traffic (m_stats st) \<noteq> 0 then 0 else 1)\<rparr>\<rparr>
      | _ \<Rightarrow> st)"

definition announce :: "string \<Rightarrow> config \<Rightarrow> monitor_input \<Rightarrow> monitor_state \<Rightarrow> ((int \<times> u8 list) list \<times> monitor_state) option" where
  "announce build c i st = do {
     (out, p, chs) \<leftarrow> sap_poll build (i_junk i) (cfg_multi c) (i_now i) (number_of_channels (m_chan st)) (m_sap st) (channels (m_chan st));
     Some (out, st\<lparr>m_sap := p, m_chan := (m_chan st)\<lparr>channels := chs\<rparr>\<rparr>)}"

definition traffic_of :: "int \<Rightarrow> mumudvb_channel_t \<Rightarrow> rat" where
  "traffic_of interval ch = (if interval \<noteq> 0 then of_nat (sent_data ch) / of_int interval * 1 / 1000 else 0)"

definition measure_traffic :: "int \<Rightarrow> monitor_state \<Rightarrow> monitor_state option" where
  "measure_traffic now st =
     (let st = (if compute_traffic_time st = 0 then st\<lparr>compute_traffic_time := now\<rparr> else st);
          interval = now - compute_traffic_time st; cp = m_chan st; n = number_of_channels cp
      in if interval \<ge> compute_traffic_interval (m_stats st) then do {
           cp' \<leftarrow> each_channel (\<lambda>_ ch. Some (ch\<lparr>sent_data := 0\<rparr>)) n 0 cp;
           Some (st\<lparr>m_chan := cp', compute_traffic_time := now,
             m_traffic := map (traffic_of interval) (take n (channels cp)) @ drop n (m_traffic st)\<rparr>)}
         else Some st)"

definition show_buffer :: "int \<Rightarrow> monitor_state \<Rightarrow> monitor_state" where
  "show_buffer now st =
     (if show_buffer_stats (m_stats st) \<noteq> 0 then
        (let st = (if show_buffer_stats_time st = 0 then st\<lparr>show_buffer_stats_time := now\<rparr> else st)
         in if now - show_buffer_stats_time st \<ge> show_buffer_stats_interval (m_stats st) then
              (let st = st\<lparr>stats_num_packets_received := 0, stats_num_reads := 0, show_buffer_stats_time := now,
                 num_big_buffer_show := num_big_buffer_show st + 1\<rparr>
               in if num_big_buffer_show st = 10 then st\<lparr>m_stats := (m_stats st)\<lparr>show_buffer_stats := 0\<rparr>\<rparr> else st)
            else st)
      else st)"

definition flush_logs :: "config \<Rightarrow> monitor_input \<Rightarrow> monitor_state \<Rightarrow> monitor_state" where
  "flush_logs c i st =
     (if i_log_file i \<and> log_flush_interval (cfg_log c) \<noteq> -1 then
        (let st = (if last_flush_time st = 0 then st\<lparr>last_flush_time := i_now i\<rparr> else st)
         in if of_int (i_now i - last_flush_time st) \<ge> log_flush_interval (cfg_log c)
            then st\<lparr>last_flush_time := i_now i\<rparr> else st)
      else st)"

definition check_channels_state :: "config \<Rightarrow> int \<Rightarrow> monitor_state \<Rightarrow> monitor_state option" where
  "check_channels_state c now st = do {
     let n = number_of_channels (m_chan st);
     cp \<leftarrow> each_channel (\<lambda>_. scrambling_check) n 0 (m_chan st);
     cp \<leftarrow> (if last_updown_check st \<noteq> 0
             then each_channel (\<lambda>_ ch. Some (updown_check (dont_send_scrambled c \<noteq> 0) (m_stats st) (last_updown_check st) now ch)) n 0 cp
             else Some cp);
     cp \<leftarrow> each_channel (\<lambda>_ ch. Some (reset_counters ch)) n 0 cp;
     Some (st\<lparr>m_chan := cp, last_updown_check := now\<rparr>)}"

text \<open>What follows from the number of channels that are up.\<close>

definition no_diff :: "nat \<Rightarrow> int \<Rightarrow> int \<Rightarrow> int" where
  "no_diff active now since = (if active \<noteq> 0 then 0 else if since = 0 then now else since)"

definition is_over :: "int \<Rightarrow> int \<Rightarrow> int \<Rightarrow> bool" where
  "is_over limit now since \<longleftrightarrow> limit \<noteq> 0 \<and> since \<noteq> 0 \<and> now - since > limit"

definition no_data :: "config \<Rightarrow> monitor_input \<Rightarrow> monitor_state \<Rightarrow> (fe_request list \<times> monitor_state) option" where
  "no_data c i st =
     (let now = i_now i;
          st = st\<lparr>time_no_diff := no_diff (count_active (m_chan st)) now (time_no_diff st)\<rparr>;
          st = (if is_over (timeout_no_diff c) now (time_no_diff st)
                then st\<lparr>m_interrupted := set_interrupted (ERROR_NO_DIFF * 256) (m_interrupted st)\<rparr> else st)
      in if is_over (tuning_no_diff c) now (time_no_diff st) \<and> read_file_path (m_tune st) = [] then do {
           (_, t, rs, stop) \<leftarrow> tune_it (i_fe i) (m_tune st);
           Some (rs, st\<lparr>m_tune := t, time_no_diff := 0,
             m_interrupted := (if stop then set_interrupted (ERROR_TUNE * 256) (m_interrupted st) else m_interrupted st)\<rparr>)}
         else Some ([], st))"

section \<open>A pass\<close>

record monitor_output =
  datagrams :: "(int \<times> u8 list) list"
  requests :: "fe_request list"
  lists :: "string \<times> string"

definition monitor_pass :: "string \<Rightarrow> config \<Rightarrow> monitor_input \<Rightarrow> monitor_state \<Rightarrow> (monitor_output \<times> monitor_state) option" where
  "monitor_pass build c i st = do {
     (out, st) \<leftarrow> announce build c i (handle_signal (i_signal i) st);
     st \<leftarrow> measure_traffic (i_now i) st;
     st \<leftarrow> check_channels_state c (i_now i) (flush_logs c i (show_buffer (i_now i) st));
     (rs, st) \<leftarrow> no_data c i st;
     Some (\<lparr> datagrams = out, requests = rs, lists = gen_file_streamed_channels (m_chan st) \<rparr>, st)}"

section \<open>What a pass leaves alone\<close>

lemma handle_signal_kept [simp]:
  "m_chan (handle_signal g st) = m_chan st" "m_sap (handle_signal g st) = m_sap st"
  "time_no_diff (handle_signal g st) = time_no_diff st" "m_interrupted (handle_signal g st) = m_interrupted st"
  "last_updown_check (handle_signal g st) = last_updown_check st"
  "read_file_path (m_tune (handle_signal g st)) = read_file_path (m_tune st)"
  "up_threshold (m_stats (handle_signal g st)) = up_threshold (m_stats st)"
  "down_threshold (m_stats (handle_signal g st)) = down_threshold (m_stats st)"
  by (simp_all add: handle_signal_def split: signal.split)

lemma show_buffer_kept [simp]:
  "m_chan (show_buffer now st) = m_chan st" "m_sap (show_buffer now st) = m_sap st"
  "time_no_diff (show_buffer now st) = time_no_diff st" "m_interrupted (show_buffer now st) = m_interrupted st"
  "last_updown_check (show_buffer now st) = last_updown_check st" "m_tune (show_buffer now st) = m_tune st"
  "up_threshold (m_stats (show_buffer now st)) = up_threshold (m_stats st)"
  "down_threshold (m_stats (show_buffer now st)) = down_threshold (m_stats st)"
  by (simp_all add: show_buffer_def Let_def)

lemma flush_logs_kept [simp]:
  "m_chan (flush_logs c i st) = m_chan st" "m_sap (flush_logs c i st) = m_sap st" "m_stats (flush_logs c i st) = m_stats st"
  "time_no_diff (flush_logs c i st) = time_no_diff st" "m_interrupted (flush_logs c i st) = m_interrupted st"
  "last_updown_check (flush_logs c i st) = last_updown_check st" "m_tune (flush_logs c i st) = m_tune st"
  by (simp_all add: flush_logs_def Let_def)

lemma measure_traffic_kept:
  "measure_traffic now st = Some st' \<Longrightarrow> m_sap st' = m_sap st \<and> m_stats st' = m_stats st \<and> m_tune st' = m_tune st \<and>
     time_no_diff st' = time_no_diff st \<and> m_interrupted st' = m_interrupted st \<and> last_updown_check st' = last_updown_check st"
  by (auto simp: measure_traffic_def Let_def Option.bind_eq_Some_conv split: if_splits)

lemma check_channels_kept:
  "check_channels_state c now st = Some st' \<Longrightarrow> m_sap st' = m_sap st \<and> m_stats st' = m_stats st \<and> m_tune st' = m_tune st \<and>
     time_no_diff st' = time_no_diff st \<and> m_interrupted st' = m_interrupted st"
  by (auto simp: check_channels_state_def Let_def Option.bind_eq_Some_conv)

lemma announce_kept:
  "announce build c i st = Some (out, st') \<Longrightarrow> m_stats st' = m_stats st \<and> m_tune st' = m_tune st \<and>
     time_no_diff st' = time_no_diff st \<and> m_interrupted st' = m_interrupted st \<and> last_updown_check st' = last_updown_check st"
  by (auto simp: announce_def Option.bind_eq_Some_conv)

lemma monitor_pass_no_data:
  assumes "monitor_pass build c i st = Some (out, st')"
  obtains st1 rs where "no_data c i st1 = Some (rs, st')" "time_no_diff st1 = time_no_diff st"
    "m_interrupted st1 = m_interrupted st" "read_file_path (m_tune st1) = read_file_path (m_tune st)"
  using assms by (fastforce simp: monitor_pass_def Option.bind_eq_Some_conv
      dest!: announce_kept measure_traffic_kept check_channels_kept intro: that)

lemma sat_setup_file: "sat_setup e t rs = Some (f, t', rs') \<Longrightarrow> read_file_path t' = read_file_path t"
  by (auto simp: sat_setup_def Let_def Option.bind_eq_Some_conv split: prod.splits if_splits)

lemma fe_setup_file: "fe_setup e t rs = Some (fp, t', rs') \<Longrightarrow> read_file_path t' = read_file_path t"
  by (auto simp: fe_setup_def default_modulation_def scale_freq_def Let_def Option.bind_eq_Some_conv
      split: fe_type_t.splits dest!: sat_setup_file split: if_splits)

lemma dtv_props_file: "dtv_props t fp bw = Some (t', ps) \<Longrightarrow> read_file_path t' = read_file_path t"
  by (simp add: dtv_props_def Let_def split: if_splits) auto

lemma tune_set_file: "tune_set e t fp bw rs = Some (r, t', rs', stop) \<Longrightarrow> read_file_path t' = read_file_path t"
  by (auto simp: tune_set_def split: prod.splits if_splits option.splits dest!: dtv_props_file)

lemma tune_frontend_file: "tune_frontend e t rs = Some (r, t', rs', stop) \<Longrightarrow> read_file_path t' = read_file_path t"
  by (auto simp: tune_frontend_def Option.bind_eq_Some_conv split: option.splits dest!: fe_setup_file tune_set_file)

lemma tune_it_file: "tune_it e t = Some (r, t', rs, stop) \<Longrightarrow> read_file_path t' = read_file_path t"
  by (auto simp: tune_it_def Let_def split: prod.splits if_splits dest!: tune_frontend_file)

text \<open>What the last part does, by the number of active channels.\<close>

definition waiting_since :: "config \<Rightarrow> monitor_input \<Rightarrow> nat \<Rightarrow> monitor_state \<Rightarrow> int" where
  "waiting_since c i active st =
     (let since = no_diff active (i_now i) (time_no_diff st)
      in if is_over (tuning_no_diff c) (i_now i) since \<and> read_file_path (m_tune st) = [] then 0 else since)"

lemma no_data_spec:
  assumes "no_data c i st = Some (rs, st')"
  shows "m_chan st' = m_chan st" "time_no_diff st' = waiting_since c i (count_active (m_chan st)) st"
    "read_file_path (m_tune st') = read_file_path (m_tune st)"
    "is_over (timeout_no_diff c) (i_now i) (no_diff (count_active (m_chan st)) (i_now i) (time_no_diff st)) \<Longrightarrow> m_interrupted st' \<noteq> 0"
    "m_interrupted st \<noteq> 0 \<Longrightarrow> m_interrupted st' = m_interrupted st"
    "m_interrupted st' = ERROR_NO_DIFF * 256 \<Longrightarrow> m_interrupted st = ERROR_NO_DIFF * 256 \<or>
       is_over (timeout_no_diff c) (i_now i) (no_diff (count_active (m_chan st)) (i_now i) (time_no_diff st))"
  using assms
  by (auto simp: no_data_def waiting_since_def Let_def Option.bind_eq_Some_conv set_interrupted_def ERROR_NO_DIFF_def ERROR_TUNE_def
      dest!: tune_it_file split: if_splits)

lemma pass_spec:
  assumes "monitor_pass build c i st = Some (out, st')"
  shows "time_no_diff st' = waiting_since c i (count_active (m_chan st')) st"
    "read_file_path (m_tune st') = read_file_path (m_tune st)"
    "is_over (timeout_no_diff c) (i_now i) (no_diff (count_active (m_chan st')) (i_now i) (time_no_diff st)) \<Longrightarrow> m_interrupted st' \<noteq> 0"
    "m_interrupted st \<noteq> 0 \<Longrightarrow> m_interrupted st' = m_interrupted st"
    "m_interrupted st' = ERROR_NO_DIFF * 256 \<Longrightarrow> m_interrupted st = ERROR_NO_DIFF * 256 \<or>
       is_over (timeout_no_diff c) (i_now i) (no_diff (count_active (m_chan st')) (i_now i) (time_no_diff st))"
proof -
  obtain st1 rs where n: "no_data c i st1 = Some (rs, st')" "time_no_diff st1 = time_no_diff st"
      "m_interrupted st1 = m_interrupted st" "read_file_path (m_tune st1) = read_file_path (m_tune st)"
    using monitor_pass_no_data [OF assms] by blast
  note spec = no_data_spec [OF n(1)]
  show "time_no_diff st' = waiting_since c i (count_active (m_chan st')) st"
    using spec(1,2) n(2,4) by (simp add: waiting_since_def)
  show "read_file_path (m_tune st') = read_file_path (m_tune st)" using spec(3) n(4) by simp
  show "is_over (timeout_no_diff c) (i_now i) (no_diff (count_active (m_chan st')) (i_now i) (time_no_diff st)) \<Longrightarrow> m_interrupted st' \<noteq> 0"
    using spec(1,4) n(2) by simp
  show "m_interrupted st \<noteq> 0 \<Longrightarrow> m_interrupted st' = m_interrupted st" using spec(5) n(3) by simp
  show "m_interrupted st' = ERROR_NO_DIFF * 256 \<Longrightarrow> m_interrupted st = ERROR_NO_DIFF * 256 \<or>
       is_over (timeout_no_diff c) (i_now i) (no_diff (count_active (m_chan st')) (i_now i) (time_no_diff st))"
    using spec(1,6) n(2,3) by simp
qed

section \<open>Runs\<close>

text \<open>
  The other threads may change anything but the variables of this one and the path of the input file, and stop the
  program for another reason. The history has the time of each pass and the number of channels that were up, the last
  pass first.
\<close>

definition others :: "monitor_state \<Rightarrow> monitor_state \<Rightarrow> bool" where
  "others st st' \<longleftrightarrow> last_updown_check st' = last_updown_check st \<and> last_flush_time st' = last_flush_time st \<and>
     time_no_diff st' = time_no_diff st \<and> num_big_buffer_show st' = num_big_buffer_show st \<and>
     read_file_path (m_tune st') = read_file_path (m_tune st) \<and>
     (\<exists>v. v \<noteq> ERROR_NO_DIFF * 256 \<and> m_interrupted st' = set_interrupted v (m_interrupted st))"

inductive runs :: "string \<Rightarrow> config \<Rightarrow> monitor_state \<Rightarrow> (int \<times> nat) list \<Rightarrow> bool" for build c where
  start: "last_updown_check st = 0 \<Longrightarrow> last_flush_time st = 0 \<Longrightarrow> time_no_diff st = 0 \<Longrightarrow> num_big_buffer_show st = 0 \<Longrightarrow>
    m_interrupted st = 0 \<Longrightarrow> runs build c st []"
| other: "runs build c st h \<Longrightarrow> others st st' \<Longrightarrow> runs build c st' h"
| pass: "runs build c st h \<Longrightarrow> 0 \<le> i_now i \<Longrightarrow> \<forall>(t, _) \<in> set h. t \<le> i_now i \<Longrightarrow> monitor_pass build c i st = Some (out, st') \<Longrightarrow>
    runs build c st' ((i_now i, count_active (m_chan st')) # h)"

definition idle :: "(int \<times> nat) list \<Rightarrow> bool" where
  "idle h \<longleftrightarrow> h \<noteq> [] \<and> (\<forall>p \<in> set h. snd p = 0)"

lemma others_kept:
  "others st st' \<Longrightarrow> time_no_diff st' = time_no_diff st" "others st st' \<Longrightarrow> read_file_path (m_tune st') = read_file_path (m_tune st)"
  "others st st' \<Longrightarrow> m_interrupted st \<noteq> 0 \<Longrightarrow> m_interrupted st' = m_interrupted st"
  "others st st' \<Longrightarrow> m_interrupted st' = ERROR_NO_DIFF * 256 \<Longrightarrow> m_interrupted st = ERROR_NO_DIFF * 256"
  by (auto simp: others_def set_interrupted_def ERROR_NO_DIFF_def split: if_splits)

lemma run_times: "runs build c st h \<Longrightarrow> \<forall>(t, n) \<in> set h. 0 \<le> t"
  by (induction rule: runs.induct) auto

text \<open>The time without channels began with a pass, and no channel was up in the passes since.\<close>

lemma waiting_idle:
  assumes "runs build c st h" "time_no_diff st \<noteq> 0"
  shows "\<exists>h1 h2. h = h1 @ h2 \<and> idle h1 \<and> fst (last h1) = time_no_diff st"
  using assms
proof (induction)
  case (other st h st') then show ?case by (simp add: others_kept)
next
  case (pass st h i out st')
  let ?n = "count_active (m_chan st')"
  have w: "waiting_since c i ?n st \<noteq> 0" "time_no_diff st' = waiting_since c i ?n st"
    using pass_spec(1) [OF pass.hyps(4)] pass.prems by simp_all
  then have z: "?n = 0" by (auto simp: waiting_since_def no_diff_def Let_def split: if_splits)
  show ?case
  proof (cases "time_no_diff st = 0")
    case True
    then have "time_no_diff st' = i_now i" using w z by (auto simp: waiting_since_def no_diff_def Let_def split: if_splits)
    then show ?thesis using z by (intro exI [of _ "[(i_now i, ?n)]"] exI [of _ h]) (simp add: idle_def)
  next
    case False
    then obtain h1 h2 where h: "h = h1 @ h2" "idle h1" "fst (last h1) = time_no_diff st" using pass.IH by blast
    have "time_no_diff st' = time_no_diff st" using w z False by (auto simp: waiting_since_def no_diff_def Let_def split: if_splits)
    then show ?thesis using h z by (intro exI [of _ "(i_now i, ?n) # h1"] exI [of _ h2]) (auto simp: idle_def)
  qed
qed simp

lemma exit_idle:
  assumes "runs build c st h" "m_interrupted st = ERROR_NO_DIFF * 256"
  shows "timeout_no_diff c \<noteq> 0 \<and> (\<exists>h2 h1 h0. h = h2 @ h1 @ h0 \<and> idle h1 \<and> fst (hd h1) - fst (last h1) > timeout_no_diff c)"
  using assms
proof (induction)
  case (other st h st') then show ?case using others_kept(4) by blast
next
  case (pass st h i out st')
  let ?n = "count_active (m_chan st')" and ?e = "(i_now i, count_active (m_chan st'))"
  consider "m_interrupted st = ERROR_NO_DIFF * 256" | "is_over (timeout_no_diff c) (i_now i) (no_diff ?n (i_now i) (time_no_diff st))"
    using pass_spec(5) [OF pass.hyps(4) pass.prems] by blast
  then show ?case
  proof cases
    case 1
    then obtain h2 h1 h0 where "timeout_no_diff c \<noteq> 0" "h = h2 @ h1 @ h0" "idle h1" "fst (hd h1) - fst (last h1) > timeout_no_diff c"
      using pass.IH by blast
    then show ?thesis by (intro conjI exI [of _ "?e # h2"] exI [of _ h1] exI [of _ h0]) simp_all
  next
    case 2
    then have z: "?n = 0" and o: "timeout_no_diff c \<noteq> 0" by (auto simp: is_over_def no_diff_def split: if_splits)
    show ?thesis
    proof (cases "time_no_diff st = 0")
      case True
      then have "timeout_no_diff c < 0" using 2 z by (simp add: is_over_def no_diff_def)
      then show ?thesis using z o by (intro conjI exI [of _ "[]"] exI [of _ "[?e]"] exI [of _ h]) (simp_all add: idle_def)
    next
      case False
      then obtain h1 h0 where h: "h = h1 @ h0" "idle h1" "fst (last h1) = time_no_diff st"
        using waiting_idle [OF pass.hyps(1)] by blast
      have "i_now i - time_no_diff st > timeout_no_diff c" using 2 z False by (simp add: is_over_def no_diff_def)
      then show ?thesis using h z o
        by (intro conjI exI [of _ "[]"] exI [of _ "?e # h1"] exI [of _ h0]) (auto simp: idle_def)
    qed
  qed
qed (simp add: ERROR_NO_DIFF_def)

text \<open>
  C36. The program is stopped for want of data only when it should be: there was a time longer than
  \<^verbatim>\<open>timeout_no_diff\<close> between two passes of the monitor such that no channel was up in any pass from the one to the
  other, whatever the other threads did in between.
\<close>

theorem monitor_exit_justified:
  assumes "runs build c st h" "m_interrupted st = ERROR_NO_DIFF * 256"
  shows "timeout_no_diff c \<noteq> 0 \<and> (\<exists>h2 h1 h0. h = h2 @ h1 @ h0 \<and> idle h1 \<and> fst (hd h1) - fst (last h1) > timeout_no_diff c)"
  using assms by (rule exit_idle)

text \<open>While nothing is up, the time that is kept is at most that of the first pass without channels.\<close>

lemma idle_waiting:
  assumes "runs build c st h" "tuning_no_diff c = 0" "h = h1 @ h0" "idle h1" "0 < fst (last h1)"
  shows "0 < time_no_diff st \<and> time_no_diff st \<le> fst (last h1)"
  using assms
proof (induction arbitrary: h1)
  case (start st) then show ?case by (simp add: idle_def)
next
  case (other st h st') then show ?case by (simp add: others_kept)
next
  case (pass st h i out st')
  obtain h2 where h1: "h1 = (i_now i, count_active (m_chan st')) # h2" "h = h2 @ h0"
    using pass.prems(2,3) by (cases h1) (auto simp: idle_def)
  have z: "count_active (m_chan st') = 0" using pass.prems(3) h1 by (simp add: idle_def)
  have w: "time_no_diff st' = (if time_no_diff st = 0 then i_now i else time_no_diff st)"
    using pass_spec(1) [OF pass.hyps(4)] z pass.prems(1) by (simp add: waiting_since_def no_diff_def is_over_def Let_def)
  have pos: "0 \<le> time_no_diff st" "time_no_diff st \<le> i_now i" if nz: "time_no_diff st \<noteq> 0"
  proof -
    obtain g1 g0 where g: "h = g1 @ g0" "idle g1" "fst (last g1) = time_no_diff st" using waiting_idle [OF pass.hyps(1) nz] by blast
    then have "last g1 \<in> set h" by (simp add: idle_def)
    then show "time_no_diff st \<le> i_now i" using pass.hyps(3) g(3) by (cases "last g1") auto
    show "0 \<le> time_no_diff st" using g run_times [OF pass.hyps(1)] \<open>last g1 \<in> set h\<close> by (cases "last g1") auto
  qed
  show ?case
  proof (cases "h2 = []")
    case True
    then show ?thesis using w h1 pos pass.prems(4) by (cases "time_no_diff st = 0") auto
  next
    case False
    then have "idle h2" using pass.prems(3) h1 by (simp add: idle_def)
    then show ?thesis using pass.IH [OF pass.prems(1) h1(2)] w h1 False pass.prems(4) by simp
  qed
qed

lemma over_stops:
  assumes "runs build c st h" "h \<noteq> []" "is_over (timeout_no_diff c) (fst (hd h)) (time_no_diff st)"
  shows "m_interrupted st \<noteq> 0"
  using assms
proof (induction)
  case (other st h st')
  then have "m_interrupted st \<noteq> 0" using others_kept(1) [OF other.hyps(2)] by simp
  then show ?case using others_kept(3) [OF other.hyps(2)] by simp
next
  case (pass st h i out st')
  have "time_no_diff st' \<noteq> 0" using pass.prems by (simp add: is_over_def)
  then have "time_no_diff st' = no_diff (count_active (m_chan st')) (i_now i) (time_no_diff st)"
    using pass_spec(1) [OF pass.hyps(4)] by (simp add: waiting_since_def Let_def split: if_splits)
  then show ?case using pass_spec(3) [OF pass.hyps(4)] pass.prems by simp
qed simp


fun gaps :: "int \<Rightarrow> (int \<times> nat) list \<Rightarrow> bool" where
  "gaps d (x # y # h) \<longleftrightarrow> fst x - fst y \<le> d \<and> gaps d (y # h)"
| "gaps d _ \<longleftrightarrow> True"

lemma starved:
  assumes "runs build c st h" "0 < tuning_no_diff c" "tuning_no_diff c < timeout_no_diff c"
    and "read_file_path (m_tune st) = []" "gaps (timeout_no_diff c - tuning_no_diff c) h"
  shows "m_interrupted st \<noteq> ERROR_NO_DIFF * 256 \<and> (time_no_diff st \<noteq> 0 \<longrightarrow> h \<noteq> [] \<and> fst (hd h) - time_no_diff st \<le> tuning_no_diff c)"
  using assms
proof (induction)
  case (start st) then show ?case by (simp add: ERROR_NO_DIFF_def)
next
  case (other st h st')
  then have IH: "m_interrupted st \<noteq> ERROR_NO_DIFF * 256 \<and> (time_no_diff st \<noteq> 0 \<longrightarrow> h \<noteq> [] \<and> fst (hd h) - time_no_diff st \<le> tuning_no_diff c)"
    by (simp add: others_kept)
  then show ?case using others_kept(1,4) [OF other.hyps(2)] by auto
next
  case (pass st h i out st')
  let ?n = "count_active (m_chan st')"
  have g: "gaps (timeout_no_diff c - tuning_no_diff c) h" using pass.prems(4) by (cases h) auto
  have f: "read_file_path (m_tune st) = []" using pass.prems(3) pass_spec(2) [OF pass.hyps(4)] by simp
  note IH = pass.IH [OF pass.prems(1,2) f g]
  have now: "i_now i - time_no_diff st \<le> timeout_no_diff c" if nz: "time_no_diff st \<noteq> 0"
  proof -
    obtain x h' where h: "h = x # h'" "fst x - time_no_diff st \<le> tuning_no_diff c" using IH nz by (cases h) auto
    then have "i_now i - fst x \<le> timeout_no_diff c - tuning_no_diff c" using pass.prems(4) by simp
    then show ?thesis using h(2) by linarith
  qed
  have "\<not> is_over (timeout_no_diff c) (i_now i) (no_diff ?n (i_now i) (time_no_diff st))"
    using now pass.prems(1,2) by (auto simp: is_over_def no_diff_def split: if_splits)
  then have "m_interrupted st' \<noteq> ERROR_NO_DIFF * 256" using pass_spec(5) [OF pass.hyps(4)] IH by blast
  moreover have "time_no_diff st' = 0 \<or> i_now i - time_no_diff st' \<le> tuning_no_diff c"
    using pass_spec(1) [OF pass.hyps(4)] f pass.prems(1) by (auto simp: waiting_since_def is_over_def Let_def split: if_splits)
  ultimately show ?case by auto
qed

text \<open>
  With a tuning loop the program does not stop: when \<^verbatim>\<open>tuning_no_diff\<close> is less than \<^verbatim>\<open>timeout_no_diff\<close> and the
  passes are not further apart than the difference, tuning begins the time anew before it is over, so that a card
  without a signal is never given up, against the documentation of \<^verbatim>\<open>timeout_no_diff\<close>.
\<close>

theorem monitor_exit_starved:
  assumes "runs build c st h" "0 < tuning_no_diff c" "tuning_no_diff c < timeout_no_diff c"
    and "read_file_path (m_tune st) = []" "gaps (timeout_no_diff c - tuning_no_diff c) h"
  shows "m_interrupted st \<noteq> ERROR_NO_DIFF * 256"
  using starved [OF assms] by blast

section \<open>What a pass makes of the channels\<close>

lemma pid_states_ok:
  assumes "k + n \<le> length (pids_num_scrambled_packets p)" "k + n \<le> length (pids_scrambled p)"
  shows "\<exists>c s. pid_states n k p = Some (p\<lparr>pids_num_scrambled_packets := c, pids_scrambled := s\<rparr>) \<and>
    length c = length (pids_num_scrambled_packets p) \<and> length s = length (pids_scrambled p) \<and>
    (\<forall>j. k \<le> j \<and> j < k + n \<longrightarrow> s ! j = (0 < pids_num_scrambled_packets p ! j) \<and> c ! j = 0) \<and>
    (\<forall>j. j < k \<longrightarrow> s ! j = pids_scrambled p ! j \<and> c ! j = pids_num_scrambled_packets p ! j)"
  using assms
proof (induction n arbitrary: k p)
  case 0
  then show ?case by (intro exI [of _ "pids_num_scrambled_packets p"] exI [of _ "pids_scrambled p"]) auto
next
  case (Suc n)
  let ?x = "pids_num_scrambled_packets p ! k"
  let ?p = "p\<lparr>pids_num_scrambled_packets := (pids_num_scrambled_packets p)[k := 0], pids_scrambled := (pids_scrambled p)[k := ?x > 0]\<rparr>"
  have "pid_states (Suc n) k p = pid_states n (k + 1) ?p" using Suc.prems by (simp add: rd_in wr_in)
  moreover obtain c s where cs: "pid_states n (k + 1) ?p = Some (?p\<lparr>pids_num_scrambled_packets := c, pids_scrambled := s\<rparr>)"
      "length c = length (pids_num_scrambled_packets p)" "length s = length (pids_scrambled p)"
      "\<forall>j. k + 1 \<le> j \<and> j < k + 1 + n \<longrightarrow> s ! j = (0 < pids_num_scrambled_packets ?p ! j) \<and> c ! j = 0"
      "\<forall>j. j < k + 1 \<longrightarrow> s ! j = pids_scrambled ?p ! j \<and> c ! j = pids_num_scrambled_packets ?p ! j"
    using Suc.IH [of "k + 1" ?p] Suc.prems by auto
  ultimately show ?case using Suc.prems cs(2-5)
    by (intro exI [of _ c] exI [of _ s]) (auto simp: le_Suc_eq Suc_le_eq nth_list_update split: if_splits)
qed

text \<open>The three updates of a channel that is streamed, as one function.\<close>

definition checked :: "config \<Rightarrow> int \<Rightarrow> monitor_state \<Rightarrow> mumudvb_channel_t \<Rightarrow> mumudvb_channel_t \<Rightarrow> bool" where
  "checked c now st ch ch' \<longleftrightarrow>
     channel_ready ch' = channel_ready ch \<and>
     (if channel_ready ch < READY
      then num_packet ch' = num_packet ch \<and> num_scrambled_packets ch' = num_scrambled_packets ch \<and>
        mumudvb_channel_t.has_traffic ch' = mumudvb_channel_t.has_traffic ch \<and> scrambled_channel ch' = scrambled_channel ch
      else (let r = scrambled_ratio (num_packet ch) (num_scrambled_packets ch);
                rate = packets_per_sec (dont_send_scrambled c \<noteq> 0) (last_updown_check st) now ch
        in num_packet ch' = 0 \<and> num_scrambled_packets ch' = 0 \<and> ratio_scrambled ch' = r \<and>
          scrambled_channel ch' = (if r < 2 then FULLY_UNSCRAMBLED else if 5 \<le> r \<and> r \<le> 75 then PARTIALLY_UNSCRAMBLED
            else if 80 < r then HIGHLY_SCRAMBLED else scrambled_channel ch) \<and>
          (\<forall>k < num_pids (pid_i ch). pids_scrambled (pid_i ch') ! k = (0 < pids_num_scrambled_packets (pid_i ch) ! k)) \<and>
          (if last_updown_check st = 0 then mumudvb_channel_t.has_traffic ch' = mumudvb_channel_t.has_traffic ch
           else mumudvb_channel_t.has_traffic ch' = (if mumudvb_channel_t.has_traffic ch then of_int (down_threshold (m_stats st)) \<le> rate
             else of_int (up_threshold (m_stats st)) \<le> rate))))"

lemma scrambling_eq:
  "scrambling r s = (if r < 2 then FULLY_UNSCRAMBLED else if 5 \<le> r \<and> r \<le> 75 then PARTIALLY_UNSCRAMBLED
     else if 80 < r then HIGHLY_SCRAMBLED else s)"
  by (simp add: scrambling_def)

lemma updown_eq: "updown up down rate on = (if on then of_int down \<le> rate else of_int up \<le> rate)"
  by (simp add: updown_def not_less)

definition wf_chan :: "mumudvb_channel_t \<Rightarrow> bool" where
  "wf_chan ch \<longleftrightarrow> pid_i_wf (pid_i ch)"

lemma scrambling_check_ok:
  assumes "wf_chan ch"
  shows "\<exists>p. scrambling_check ch = Some (if channel_ready ch < READY then ch else
      ch\<lparr>ratio_scrambled := scrambled_ratio (num_packet ch) (num_scrambled_packets ch),
         scrambled_channel := scrambling (scrambled_ratio (num_packet ch) (num_scrambled_packets ch)) (scrambled_channel ch), pid_i := p\<rparr>) \<and>
    pid_i_wf p \<and> (\<forall>k < num_pids (pid_i ch). pids_scrambled p ! k = (0 < pids_num_scrambled_packets (pid_i ch) ! k))"
proof -
  let ?p = "pid_i ch"
  have "num_pids ?p \<le> length (pids_num_scrambled_packets ?p)" "num_pids ?p \<le> length (pids_scrambled ?p)"
    using assms by (simp_all add: wf_chan_def pid_i_wf_def)
  then obtain c s where "pid_states (num_pids ?p) 0 ?p = Some (?p\<lparr>pids_num_scrambled_packets := c, pids_scrambled := s\<rparr>)"
      "length c = length (pids_num_scrambled_packets ?p)" "length s = length (pids_scrambled ?p)"
      "\<forall>j. j < num_pids ?p \<longrightarrow> s ! j = (0 < pids_num_scrambled_packets ?p ! j)"
    using pid_states_ok [of 0 "num_pids ?p" ?p] by auto
  then show ?thesis using assms
    by (intro exI [of _ "?p\<lparr>pids_num_scrambled_packets := c, pids_scrambled := s\<rparr>"])
      (simp add: scrambling_check_def Let_def wf_chan_def pid_i_wf_def)
qed

lemma check_channels_ok:
  assumes "number_of_channels (m_chan st) \<le> length (channels (m_chan st))" "\<forall>ch \<in> set (channels (m_chan st)). wf_chan ch"
  shows "\<exists>st'. check_channels_state c now st = Some st' \<and> last_updown_check st' = now \<and>
    number_of_channels (m_chan st') = number_of_channels (m_chan st) \<and> length (channels (m_chan st')) = length (channels (m_chan st)) \<and>
    (\<forall>ch \<in> set (channels (m_chan st')). wf_chan ch) \<and>
    (\<forall>j < number_of_channels (m_chan st). checked c now st (channels (m_chan st) ! j) (channels (m_chan st') ! j) \<and>
       socketOut4 (channels (m_chan st') ! j) = socketOut4 (channels (m_chan st) ! j) \<and>
       socketOut6 (channels (m_chan st') ! j) = socketOut6 (channels (m_chan st) ! j)) \<and>
    (\<forall>j. number_of_channels (m_chan st) \<le> j \<and> j < length (channels (m_chan st)) \<longrightarrow> channels (m_chan st') ! j = channels (m_chan st) ! j)"
proof -
  let ?cp = "m_chan st" and ?n = "number_of_channels (m_chan st)"
  let ?upd = "updown_check (dont_send_scrambled c \<noteq> 0) (m_stats st) (last_updown_check st) now"
  define g where "g = (\<lambda>j. the (scrambling_check (channels ?cp ! j)))"
  have wf: "wf_chan (channels ?cp ! j)" if "j < ?n" for j using that assms by (meson less_le_trans nth_mem)
  have g: "scrambling_check (channels ?cp ! j) = Some (g j)" if "j < ?n" for j
    using scrambling_check_ok [OF wf [OF that]] by (auto simp: g_def)
  obtain cp1 where 1: "each_channel (\<lambda>_. scrambling_check) ?n 0 ?cp = Some cp1" "number_of_channels cp1 = ?n"
      "length (channels cp1) = length (channels ?cp)" "\<And>j. j < ?n \<Longrightarrow> channels cp1 ! j = g j"
      "\<And>j. ?n \<le> j \<Longrightarrow> j < length (channels ?cp) \<Longrightarrow> channels cp1 ! j = channels ?cp ! j"
    by (rule each_channel_nth [of ?cp "\<lambda>_. scrambling_check" "\<lambda>j _. g j"]) (use g assms(1) in auto)
  obtain cp2 where 2: "(if last_updown_check st \<noteq> 0 then each_channel (\<lambda>_ ch. Some (?upd ch)) ?n 0 cp1 else Some cp1) = Some cp2"
      "number_of_channels cp2 = ?n" "length (channels cp2) = length (channels ?cp)"
      "\<And>j. j < ?n \<Longrightarrow> channels cp2 ! j = (if last_updown_check st \<noteq> 0 then ?upd (g j) else g j)"
      "\<And>j. ?n \<le> j \<Longrightarrow> j < length (channels ?cp) \<Longrightarrow> channels cp2 ! j = channels ?cp ! j"
  proof (cases "last_updown_check st = 0")
    case True then show thesis using that [of cp1] 1 by simp
  next
    case False
    show thesis by (rule each_channel_nth [of cp1 "\<lambda>_ ch. Some (?upd ch)" "\<lambda>_. ?upd"])
      (use that 1 False assms(1) in \<open>auto\<close>)
  qed
  obtain cp3 where 3: "each_channel (\<lambda>_ ch. Some (reset_counters ch)) ?n 0 cp2 = Some cp3" "number_of_channels cp3 = ?n"
      "length (channels cp3) = length (channels ?cp)"
      "\<And>j. j < ?n \<Longrightarrow> channels cp3 ! j = reset_counters (if last_updown_check st \<noteq> 0 then ?upd (g j) else g j)"
      "\<And>j. ?n \<le> j \<Longrightarrow> j < length (channels ?cp) \<Longrightarrow> channels cp3 ! j = channels ?cp ! j"
    by (rule each_channel_nth [of cp2 "\<lambda>_ ch. Some (reset_counters ch)" "\<lambda>_. reset_counters"])
      (use 2 assms(1) in auto)
  have run: "check_channels_state c now st = Some (st\<lparr>m_chan := cp3, last_updown_check := now\<rparr>)"
    using 1(1) 2(1) 3(1) by (simp add: check_channels_state_def Let_def)
  have chk: "checked c now st (channels ?cp ! j) (channels cp3 ! j) \<and> socketOut4 (channels cp3 ! j) = socketOut4 (channels ?cp ! j) \<and>
      socketOut6 (channels cp3 ! j) = socketOut6 (channels ?cp ! j) \<and> wf_chan (channels cp3 ! j)" if j: "j < ?n" for j
  proof -
    let ?ch = "channels ?cp ! j"
    obtain p where p: "g j = (if channel_ready ?ch < READY then ?ch else
        ?ch\<lparr>ratio_scrambled := scrambled_ratio (num_packet ?ch) (num_scrambled_packets ?ch),
          scrambled_channel := scrambling (scrambled_ratio (num_packet ?ch) (num_scrambled_packets ?ch)) (scrambled_channel ?ch), pid_i := p\<rparr>)"
        "pid_i_wf p" "\<forall>k < num_pids (pid_i ?ch). pids_scrambled p ! k = (0 < pids_num_scrambled_packets (pid_i ?ch) ! k)"
      using scrambling_check_ok [OF wf [OF j]] unfolding g [OF j] option.inject by (elim exE conjE)
    show ?thesis
    proof (cases "channel_ready ?ch < READY")
      case True
      then show ?thesis using p(1) 3(4) [OF j] wf [OF j] by (simp add: checked_def reset_counters_def updown_check_def)
    next
      case False
      then show ?thesis using p 3(4) [OF j]
        by (simp add: checked_def reset_counters_def updown_check_def Let_def scrambling_eq updown_eq packets_per_sec_def wf_chan_def)
    qed
  qed
  have "wf_chan (channels cp3 ! j)" if "j < length (channels ?cp)" for j
    using chk [of j] 3(5) [of j] that assms(2) by (cases "j < ?n") auto
  then have "\<forall>ch \<in> set (channels cp3). wf_chan ch" using 3(3) by (auto simp: in_set_conv_nth)
  then show ?thesis using run chk 3(2,3,5) by simp
qed

text \<open>The announcements change only their members of the channels.\<close>

definition but_sap :: "mumudvb_channel_t \<Rightarrow> mumudvb_channel_t \<Rightarrow> bool" where
  "but_sap ch ch' \<longleftrightarrow> ch' = ch\<lparr>sap_group := sap_group ch', sap_need_update := sap_need_update ch'\<rparr>"

lemma but_sap_refl: "but_sap ch ch"
  by (simp add: but_sap_def)

lemma but_sap_I [simp]: "but_sap ch (ch\<lparr>sap_group := g, sap_need_update := u\<rparr>)" "but_sap ch (ch\<lparr>sap_group := g\<rparr>)"
  by (simp_all add: but_sap_def)

lemma but_sap_E:
  assumes "but_sap ch ch'"
  obtains g u where "ch' = ch\<lparr>sap_group := g, sap_need_update := u\<rparr>"
  using assms unfolding but_sap_def by (rule that)

lemma but_sap_trans: "but_sap a b \<Longrightarrow> but_sap b c \<Longrightarrow> but_sap a c"
  by (elim but_sap_E) simp

lemma but_sap_done: "but_sap a b \<Longrightarrow> but_sap a (b\<lparr>sap_need_update := u\<rparr>)"
  by (elim but_sap_E) simp

lemma sap_add_program_frame: "sap_add_program build junk p mp ch ms = Some (r, ch', ms') \<Longrightarrow> but_sap ch ch'"
  by (auto simp: sap_add_program_def Let_def Option.bind_eq_Some_conv but_sap_refl split: if_splits option.splits)

lemma sap_update_frame: "sap_update build junk mp p i ch = Some (q, ch') \<Longrightarrow> but_sap ch ch'"
  by (auto simp: sap_update_def Option.bind_eq_Some_conv dest!: sap_add_program_frame intro: but_sap_done)

lemma update_loop_frame: "update_loop c build junk mp n i p chs = Some (q, chs') \<Longrightarrow> list_all2 but_sap chs chs'"
proof (induction n arbitrary: i p chs)
  case 0 then show ?case by (simp add: list_all2_conv_all_nth but_sap_refl)
next
  case (Suc n)
  from Suc.prems obtain ch p1 ch1 where 1: "rd chs i = Some ch"
      "(if c ch \<and> READY \<le> channel_ready ch then sap_update build junk mp p i ch else Some (p, ch)) = Some (p1, ch1)"
      "update_loop c build junk mp n (i + 1) p1 (chs[i := ch1]) = Some (q, chs')"
    by (auto simp: Option.bind_eq_Some_conv)
  have "but_sap ch ch1" using 1(2) by (auto split: if_splits intro: sap_update_frame but_sap_refl)
  then have "list_all2 but_sap chs (chs[i := ch1])"
    using 1(1) by (auto simp: list_all2_conv_all_nth nth_list_update rd_Some_iff but_sap_refl)
  then show ?case using Suc.IH [OF 1(3)] by (auto simp: list_all2_conv_all_nth intro: but_sap_trans)
qed

lemma sap_poll_frame: "sap_poll build junk mp now n p chs = Some (out, q, chs') \<Longrightarrow> list_all2 but_sap chs chs'"
proof -
  have r: "list_all2 but_sap chs chs" by (simp add: list_all2_conv_all_nth but_sap_refl)
  have t: "list_all2 but_sap a b \<Longrightarrow> list_all2 but_sap b d \<Longrightarrow> list_all2 but_sap a d" for a b d
    unfolding list_all2_conv_all_nth by (metis but_sap_trans)
  show "sap_poll build junk mp now n p chs = Some (out, q, chs') \<Longrightarrow> list_all2 but_sap chs chs'"
    using r by (auto simp: sap_poll_def Option.bind_eq_Some_conv split: if_splits dest!: update_loop_frame intro: t)
qed

text \<open>The announcements are off, or they have been started for these channels.\<close>

definition monitor_ok :: "monitor_state \<Rightarrow> bool" where
  "monitor_ok st \<longleftrightarrow>
     (let cp = m_chan st; n = number_of_channels cp; p = m_sap st
      in n \<le> length (channels cp) \<and> (\<forall>ch \<in> set (channels cp). wf_chan ch) \<and>
         (sap_status p \<noteq> OPTION_ON \<or> sap_messages4 p = None \<and> sap_messages6 p = None \<or> sap_started n p (channels cp)))"

lemma sap_poll_returns:
  assumes "length junk = 8" "sap_status p \<noteq> OPTION_ON \<or> sap_messages4 p = None \<and> sap_messages6 p = None \<or> sap_started n p chs"
  shows "\<exists>out q chs'. sap_poll build junk mp now n p chs = Some (out, q, chs') \<and> list_all2 but_sap chs chs' \<and>
    (sap_status q \<noteq> OPTION_ON \<or> sap_messages4 q = None \<and> sap_messages6 q = None \<or> sap_started n q chs')"
proof (cases "sap_started n p chs")
  case True
  then obtain out q chs' where "sap_poll build junk mp now n p chs = Some (out, q, chs')" "sap_started n q chs'"
    using sap_poll_spec [OF assms(1)] by blast
  then show ?thesis using sap_poll_frame by blast
next
  case False
  then have "sap_poll build junk mp now n p chs = Some ([], p, chs)" using assms(2) by (auto simp: sap_poll_def)
  then show ?thesis using sap_poll_frame assms(2) by blast
qed

lemma but_sap_kept:
  assumes "but_sap ch ch'"
  shows "wf_chan ch' = wf_chan ch" "checked c now st ch' ch2 = checked c now st ch ch2" "sent_data ch' = sent_data ch"
    "socketOut4 ch' = socketOut4 ch" "socketOut6 ch' = socketOut6 ch"
  using assms by (elim but_sap_E, simp add: wf_chan_def checked_def packets_per_sec_def)+

text \<open>The measure of the traffic.\<close>

definition no_sent :: "mumudvb_channel_t \<Rightarrow> mumudvb_channel_t \<Rightarrow> bool" where
  "no_sent ch ch' \<longleftrightarrow> ch' = ch\<lparr>sent_data := sent_data ch'\<rparr>"

lemma no_sent_kept:
  assumes "no_sent ch ch'"
  shows "wf_chan ch' = wf_chan ch" "checked c now st ch' ch2 = checked c now st ch ch2"
    "socketOut4 ch' = socketOut4 ch" "socketOut6 ch' = socketOut6 ch"
proof -
  obtain x where "ch' = ch\<lparr>sent_data := x\<rparr>" using assms unfolding no_sent_def by (rule that)
  then show "wf_chan ch' = wf_chan ch" "checked c now st ch' ch2 = checked c now st ch ch2"
    "socketOut4 ch' = socketOut4 ch" "socketOut6 ch' = socketOut6 ch"
    by (simp_all add: wf_chan_def checked_def packets_per_sec_def)
qed

lemma no_sent_refl: "no_sent ch ch"
  by (simp add: no_sent_def)

lemma measure_traffic_ok:
  assumes "number_of_channels (m_chan st) \<le> length (channels (m_chan st))"
  shows "\<exists>st'. measure_traffic now st = Some st' \<and> number_of_channels (m_chan st') = number_of_channels (m_chan st) \<and>
    list_all2 no_sent (channels (m_chan st)) (channels (m_chan st'))"
proof -
  let ?cp = "m_chan st"
  define z :: "mumudvb_channel_t \<Rightarrow> mumudvb_channel_t" where "z = sent_data_update (\<lambda>_. 0)"
  obtain cp' where cp': "each_channel (\<lambda>_ ch. Some (z ch)) (number_of_channels ?cp) 0 ?cp = Some cp'"
      "number_of_channels cp' = number_of_channels ?cp" "length (channels cp') = length (channels ?cp)"
      "\<And>j. j < number_of_channels ?cp \<Longrightarrow> channels cp' ! j = z (channels ?cp ! j)"
      "\<And>j. number_of_channels ?cp \<le> j \<Longrightarrow> j < length (channels ?cp) \<Longrightarrow> channels cp' ! j = channels ?cp ! j"
    by (rule each_channel_nth [of ?cp "\<lambda>_ ch. Some (z ch)" "\<lambda>_. z"]) (use assms in auto)
  have "no_sent (channels ?cp ! j) (channels cp' ! j)" if "j < length (channels ?cp)" for j
  proof (cases "j < number_of_channels ?cp")
    case True
    have "no_sent ch (z ch)" for ch by (simp add: no_sent_def z_def)
    then show ?thesis unfolding cp'(4) [OF True] .
  next
    case False
    then show ?thesis using cp'(5) [OF _ that] no_sent_refl by simp
  qed
  then have "list_all2 no_sent (channels ?cp) (channels cp')" using cp'(3) by (simp add: list_all2_conv_all_nth)
  moreover have "list_all2 no_sent (channels ?cp) (channels ?cp)" by (simp add: list_all2_conv_all_nth no_sent_refl)
  ultimately show ?thesis using cp'(1,2) unfolding z_def measure_traffic_def Let_def by (cases "compute_traffic_time st = 0") simp_all
qed


section \<open>Examples\<close>

definition no_card :: fe_env where
  "no_card = \<lparr> replies = (\<lambda>_. False), first_type = FE_QPSK, second_type = FE_QPSK, lock_status = -1 \<rparr>"

definition at_time :: "int \<Rightarrow> monitor_input" where
  "at_time t = \<lparr> i_now = t, i_signal = NO_SIGNAL, i_fe = no_card, i_junk = replicate 8 0, i_log_file = False \<rparr>"

definition monitor_start :: "mumu_chan_p_t \<Rightarrow> monitor_state" where
  "monitor_start cp = \<lparr> m_sap = init_sap_v, m_chan = cp, m_stats = init_stats_v, m_tune = init_tune_v,
     stats_num_packets_received = 0, stats_num_reads = 0, show_buffer_stats_time = 0, compute_traffic_time = 0, m_traffic = [],
     last_updown_check = 0, last_flush_time = 0, time_no_diff = 0, num_big_buffer_show = 0, m_interrupted = 0 \<rparr>"

definition no_channels :: mumu_chan_p_t where
  "no_channels = \<lparr> number_of_channels = 0, channels = [], asked_pid = [], t2mi_pid = 0 \<rparr>"

definition idle_state :: "int \<Rightarrow> int \<Rightarrow> int \<Rightarrow> int \<Rightarrow> monitor_state" where
  "idle_state measured checked_at since reason = (monitor_start no_channels)\<lparr>compute_traffic_time := measured,
     last_updown_check := checked_at, time_no_diff := since, m_interrupted := reason\<rparr>"

text \<open>The stages of a pass, evaluated one after the other.\<close>

lemmas stage1 = monitor_pass_def announce_def handle_signal_def sap_poll_def measure_traffic_def at_time_def idle_state_def
  monitor_start_def no_channels_def init_sap_v_def init_stats_v_def

lemmas stage2 = show_buffer_def flush_logs_def check_channels_state_def

lemmas stage3 = no_data_def is_over_def no_diff_def count_active_def Let_def set_interrupted_def ERROR_NO_DIFF_def

lemma first_pass: "monitor_pass b init_config (at_time 1) (monitor_start no_channels) =
    Some (\<lparr> datagrams = [], requests = [], lists = ([], []) \<rparr>, idle_state 1 1 1 0)"
  by (simp add: stage1, simp add: stage2, simp add: stage3, simp add: init_config_def, simp add: gen_file_streamed_channels_def)

lemma last_pass: "monitor_pass b init_config (at_time 602) (idle_state 1 1 1 0) =
    Some (\<lparr> datagrams = [], requests = [], lists = ([], []) \<rparr>, idle_state 602 602 1 2048)"
  by (simp add: stage1, simp add: stage2, simp add: stage3, simp add: init_config_def, simp add: gen_file_streamed_channels_def)

lemma started_run: "runs b c (monitor_start no_channels) []"
  by (rule runs.start) (simp_all add: monitor_start_def)

lemma idle_count [simp]: "count_active (m_chan (idle_state a d e g)) = 0"
  by (simp add: count_active_def idle_state_def monitor_start_def no_channels_def)

lemma idle_run: "runs b init_config (idle_state 602 602 1 2048) [(602, 0), (1, 0)]"
proof -
  have "runs b init_config (idle_state 1 1 1 0) [(1, 0)]"
    using runs.pass [OF started_run _ _ first_pass] by (simp add: at_time_def)
  then show ?thesis using runs.pass [OF _ _ _ last_pass] by (simp add: at_time_def)
qed

theorem monitor_exit_justified_witness:
  "timeout_no_diff init_config = 600 \<and> (\<exists>h2 h1 h0. [(602, 0), (1, 0)] = h2 @ h1 @ h0 \<and> idle h1 \<and> fst (hd h1) - fst (last h1) > 600)"
  using monitor_exit_justified [OF idle_run [of "[]"]] by (simp add: idle_state_def monitor_start_def ERROR_NO_DIFF_def init_config_def)


definition retuning :: config where
  "retuning = init_config\<lparr>tuning_no_diff := 10\<rparr>"

lemma no_card_tunes: "tune_it no_card t = Some (-1, t, [FE_GET_INFO], False)"
  by (simp add: tune_it_def no_card_def run_requests.simps)

lemma retuning_passes:
  "monitor_pass b retuning (at_time 1) (monitor_start no_channels) =
     Some (\<lparr> datagrams = [], requests = [], lists = ([], []) \<rparr>, idle_state 1 1 1 0)"
  "monitor_pass b retuning (at_time 12) (idle_state 1 1 1 0) =
     Some (\<lparr> datagrams = [], requests = [FE_GET_INFO], lists = ([], []) \<rparr>, idle_state 12 12 0 0)"
  by (simp add: stage1, simp add: stage2, simp add: stage3, simp add: retuning_def init_config_def,
      simp add: gen_file_streamed_channels_def init_tune_v_def no_card_tunes)+

theorem monitor_exit_starved_witness:
  "runs [] retuning (idle_state 12 12 0 0) [(12, 0), (1, 0)] \<and> m_interrupted (idle_state 12 12 0 0) \<noteq> ERROR_NO_DIFF * 256"
proof -
  have "runs [] retuning (idle_state 1 1 1 0) [(1, 0)]"
    using runs.pass [OF started_run _ _ retuning_passes(1)] by (simp add: at_time_def)
  then have r: "runs [] retuning (idle_state 12 12 0 0) [(12, 0), (1, 0)]"
    using runs.pass [OF _ _ _ retuning_passes(2)] by (simp add: at_time_def)
  show ?thesis using r monitor_exit_starved [OF r]
    by (simp add: retuning_def init_config_def idle_state_def monitor_start_def init_tune_v_def)
qed

definition scrambled_chan :: mumudvb_channel_t where
  "scrambled_chan = zero_channel\<lparr>channel_ready := READY, num_packet := 1000, num_scrambled_packets := 900\<rparr>"

definition one_scrambled :: mumu_chan_p_t where
  "one_scrambled = \<lparr> number_of_channels = 1, channels = [scrambled_chan], asked_pid = [], t2mi_pid = 0 \<rparr>"


text \<open>The state of a channel sticks in the gaps: with 3 % of scrambled packets a channel stays highly scrambled.\<close>

lemma scrambling_sticks: "2 \<le> r \<Longrightarrow> r < 5 \<Longrightarrow> scrambling r HIGHLY_SCRAMBLED = HIGHLY_SCRAMBLED"
  by (simp add: scrambling_eq)

text \<open>Few packets are never scrambled: up to ten of them since the last pass count as none.\<close>

lemma few_scrambled_ignored: "n \<le> 10 \<Longrightarrow> scrambling (scrambled_ratio n n) s = FULLY_UNSCRAMBLED"
  by (simp add: scrambling_eq scrambled_ratio_def)

end
