(* ===== verification/Http_Reply.thy ===== *)
theory Http_Reply
  imports Unicast_Send Channel_Net
begin

text \<open>
  The answers to HTTP requests, \<^verbatim>\<open>src/src/unicast_http.c\<close>: the buffers that an answer is written into, sending it,
  and the text of the list of channels, of the playlists and of the index.

  A buffer has the length that was allocated and the text in it; its allocation succeeds. What \<^verbatim>\<open>write\<close> returns is a
  parameter, one result for each call, and the text that the socket has taken is part of the result of sending. The
  address of the server is a parameter of the playlists.

  The lemmas show that a text always fits the buffer, that the client gets the header and the body with its length,
  and that sending does not end while the socket takes nothing.
\<close>

section \<open>Buffers\<close>

definition REPLY_SIZE_STEP :: int where "REPLY_SIZE_STEP = 256"

record reply_part =
  part_length :: int
  part_used :: int
  part_text :: string

record unicast_reply =
  reply_header :: reply_part
  reply_body :: reply_part
  in_header :: bool

definition empty_part :: reply_part where
  "empty_part = \<lparr> part_length = REPLY_SIZE_STEP, part_used = 0, part_text = [] \<rparr>"

definition unicast_reply_init :: unicast_reply where
  "unicast_reply_init = \<lparr> reply_header = empty_part, reply_body = empty_part, in_header = False \<rparr>"

text \<open>Grow the buffer until the text and a NUL fit.\<close>

function grow_length :: "int \<Rightarrow> int \<Rightarrow> int \<Rightarrow> int" where
  "grow_length len used n = (if len - used < n + 1 then grow_length (len + REPLY_SIZE_STEP) used n else len)"
  by pat_completeness auto
termination
  by (relation "measure (\<lambda>(len, used, n). nat (n + 1 - (len - used)))") (auto simp: REPLY_SIZE_STEP_def)

declare grow_length.simps [simp del]

text \<open>\<^verbatim>\<open>vsnprintf\<close> writes the text as far as it fits, and returns its whole length.\<close>

definition part_write :: "reply_part \<Rightarrow> string \<Rightarrow> reply_part" where
  "part_write p s =
     (let len = grow_length (part_length p) (part_used p) (int (length s))
      in p\<lparr>part_length := len, part_used := part_used p + int (length s),
           part_text := part_text p @ take (nat (len - part_used p - 1)) s\<rparr>)"

definition unicast_reply_write :: "unicast_reply \<Rightarrow> string \<Rightarrow> unicast_reply" where
  "unicast_reply_write r s =
     (if in_header r then r\<lparr>reply_header := part_write (reply_header r) s\<rparr>
      else r\<lparr>reply_body := part_write (reply_body r) s\<rparr>)"

section \<open>Sending\<close>

datatype write_result = Wrote nat | Try_again | Write_error

text \<open>
  The loop of \<^verbatim>\<open>write\<close>s: what it returns and what the socket has taken. \<open>w k c\<close> is the result of call \<open>k\<close>, with
  \<open>c\<close> characters to write.
\<close>

partial_function (option) send_loop :: "(nat \<Rightarrow> nat \<Rightarrow> write_result) \<Rightarrow> nat \<Rightarrow> string \<Rightarrow> nat \<Rightarrow> (int \<times> string) option" where
  "send_loop w k s pos =
     (if pos < length s then
        (case w k (length s - pos) of
           Wrote n \<Rightarrow> do {
             (r, t) \<leftarrow> send_loop w (k + 1) s (pos + n);
             Some (r, take n (drop pos s) @ t)}
         | Try_again \<Rightarrow> send_loop w (k + 1) s pos
         | Write_error \<Rightarrow> Some (-1, []))
      else Some (int pos, []))"

definition newline :: string where "newline = [CHR 0x0D, CHR 0x0A]"

definition unicast_reply_send :: "string \<Rightarrow> (nat \<Rightarrow> nat \<Rightarrow> write_result) \<Rightarrow> unicast_reply \<Rightarrow> int \<Rightarrow> string \<Rightarrow> (int \<times> string) option" where
  "unicast_reply_send build w r code content_type =
     (let r = unicast_reply_write (r\<lparr>in_header := True\<rparr>) ''HTTP/1.0 ''
      in if code \<noteq> 200 \<and> code \<noteq> 404 then Some (0, [])
         else
           (let r = unicast_reply_write r (if code = 200 then ''200 OK'' @ newline else ''404 Not found'' @ newline);
                r = unicast_reply_write r (''Access-Control-Allow-Origin: *'' @ newline);
                r = unicast_reply_write r (''Server: mumudvb/'' @ build @ newline);
                r = unicast_reply_write r (''Content-type: '' @ content_type @ ''; charset=utf-8'' @ newline);
                r = unicast_reply_write r (''Content-length: '' @ print_d (part_used (reply_body r)) @ newline);
                r = unicast_reply_write r newline
            in send_loop w 0 (part_text (reply_header r) @ part_text (reply_body r)) 0))"

section \<open>Pages\<close>

definition html_head :: "string \<Rightarrow> string" where
  "html_head title =
     ''<!DOCTYPE html PUBLIC \"-//W3C//DTD XHTML 1.0 Strict//EN\" \"http://www.w3.org/TR/xhtml10/DTD/xhtml10strict.dtd\">'' @ newline @
     ''<html lang=\"en\">'' @ newline @ ''<head>'' @ newline @ ''<title>'' @ title @ ''</title>'' @ newline @ ''</head>'' @ newline @
     ''<body>'' @ newline"

definition HTTP_404_REPLY_HTML :: "string \<Rightarrow> string" where
  "HTTP_404_REPLY_HTML build = html_head ''Not found'' @ ''   <h1>404 Not found</h1>'' @ newline @ ''<hr />'' @ newline @
     ''<a href=\"http://mumudvb.net/\">MuMuDVB</a> version '' @ build @ newline @ ''</body>'' @ newline @ ''</html>'' @ newline @ newline"

definition html_end :: string where
  "html_end = ''<hr />'' @ newline @ ''See <a href=\"http://mumudvb.net/\">MuMuDVB</a> website for more details.'' @ newline @
     ''</body>'' @ newline @ ''</html>'' @ newline @ newline"

definition HTTP_CHANNELS_REPLY_START :: string where
  "HTTP_CHANNELS_REPLY_START = html_head ''Channels list'' @ ''   <h1>Channel list</h1>'' @ newline @ ''<hr />'' @ newline @
     ''This is the list of actually streamed channels by the MuMuDVB server. To open a channel copy the link to your client or use multicast.'' @
     newline @ ''<hr />'' @ newline"

text \<open>The body, written piece by piece.\<close>

definition body_of :: "string list \<Rightarrow> unicast_reply" where
  "body_of ss = foldl unicast_reply_write unicast_reply_init ss"

text \<open>The channels that are listed, with their numbers.\<close>

definition listed :: "(mumudvb_channel_t \<Rightarrow> bool) \<Rightarrow> nat \<Rightarrow> mumudvb_channel_t list \<Rightarrow> (nat \<times> mumudvb_channel_t) list" where
  "listed c n chs = filter (\<lambda>(i, ch). READY \<le> channel_ready ch \<and> c ch) (zip [0..<n] chs)"

definition list_entry :: "string option \<Rightarrow> nat \<times> mumudvb_channel_t \<Rightarrow> string" where
  "list_entry host = (\<lambda>(i, ch). (case host of
       Some h \<Rightarrow> (let link = ''http://'' @ h @ ''/bysid/'' @ print_d (int (mumudvb_channel_t.service_id ch)) in
         ''Channel number '' @ print_d (int i + 1) @ '' : '' @ mumudvb_channel_t.name ch @ ''<br>Unicast link : <a href=\"'' @ link @ ''\">'' @ link @
         ''</a><br>Multicast ip : '' @ ip4Out ch @ '':'' @ print_d (portOut ch) @ ''<br><br>'' @ newline)
     | None \<Rightarrow> ''Channel number '' @ print_d (int i + 1) @ '' : \"'' @ mumudvb_channel_t.name ch @ ''\"<br>Multicast ip : '' @ ip4Out ch @ '':'' @
         print_d (portOut ch) @ ''<br><br>'' @ newline))"

definition unicast_send_streamed_channels_list :: "nat \<Rightarrow> mumudvb_channel_t list \<Rightarrow> string option \<Rightarrow> unicast_reply" where
  "unicast_send_streamed_channels_list n chs host =
     body_of ([HTTP_CHANNELS_REPLY_START] @ map (list_entry host) (listed (\<lambda>_. True) n chs) @ [html_end])"

definition HTTP_INDEX_REPLY_START :: string where
  "HTTP_INDEX_REPLY_START = html_head ''MuMuDVB Server index'' @ ''   <h1>available URLs</h1>'' @ newline @ ''<hr />'' @ newline @
     ''This is the list of the implemented URLs'' @ newline @ ''<hr />'' @ newline"

definition index_link :: "string \<Rightarrow> string \<Rightarrow> string" where
  "index_link p what = ''<br>  <a href=\"'' @ p @ ''\">'' @ what @ ''</a><br><br>'' @ newline"

definition unicast_send_index_page :: unicast_reply where
  "unicast_send_index_page = body_of
     [HTTP_INDEX_REPLY_START,
      ''<br>Channels by number : /bynumber/[channel number]<br><br>'' @ newline,
      ''<br>Channels by service identifier : /bysid/[channel sid]<br><br>'' @ newline,
      ''<br>Channels by number : /byname/[channel name]<br><br>'' @ newline,
      index_link ''/channels_list.html'' ''Channels list'',
      index_link ''/playlist.m3u'' ''Playlist (m3u)'',
      index_link ''/playlist_port.m3u'' ''Playlist by port(m3u)'',
      index_link ''/playlist_multicast.m3u'' ''Playlist multicast (m3u)'',
      index_link ''/playlist_multicast_vlc.m3u'' ''Playlist multicast for VLC(m3u)'',
      index_link ''/channels_list.json'' ''Channels list (json)'',
      index_link ''/monitor/signal_power.json'' ''Signal strength (json)'',
      index_link ''/monitor/channels_traffic.json'' ''Channels traffic (json)'',
      index_link ''/monitor/state.xml'' ''Server state : channel list, pids, traffic (XML)'',
      index_link ''/monitor/state.json'' ''Server state : channel list, pids, traffic (json)'',
      index_link ''/monitor/EIT.json'' ''Contents of the EIT tables (json)'',
      index_link ''/cam/menu.xml'' ''CAM menu'',
      ''<br> make an action on the cam menu : /cam/action.xml?key=<br><br>'' @ newline,
      html_end]"

text \<open>\<open>server\<close>: the address the client is connected to, and whether it is an IPv6 address.\<close>

definition http_host :: "string \<times> bool \<Rightarrow> string" where
  "http_host server = take (IPV6_CHAR_LEN - 1) (if snd server then ''['' @ fst server @ '']'' else fst server)"

definition in_playlist :: "unicast_parameters_t \<Rightarrow> mumudvb_channel_t \<Rightarrow> bool" where
  "in_playlist v ch \<longleftrightarrow> (mumudvb_channel_t.has_traffic ch \<or> \<not> playlist_ignore_dead v) \<and>
     (ratio_scrambled ch < playlist_ignore_scrambled_ratio v \<or> playlist_ignore_scrambled_ratio v = 0)"

definition extinf :: "mumudvb_channel_t \<Rightarrow> string" where
  "extinf ch = ''#EXTINF:0,'' @ mumudvb_channel_t.name ch @ newline"

definition unicast_send_play_list_unicast ::
  "nat \<Rightarrow> mumudvb_channel_t list \<Rightarrow> string \<times> bool \<Rightarrow> int \<Rightarrow> bool \<Rightarrow> unicast_parameters_t \<Rightarrow> unicast_reply" where
  "unicast_send_play_list_unicast n chs server port_http perport v =
     body_of ([''#EXTM3U'' @ newline] @ concat (map (\<lambda>(_, ch).
       if \<not> perport then [extinf ch @ ''http://'' @ http_host server @ '':'' @ print_d port_http @ ''/bysid/'' @
         print_d (int (mumudvb_channel_t.service_id ch)) @ newline]
       else if unicast_port ch \<noteq> 0 then [extinf ch @ ''http://'' @ http_host server @ '':'' @ print_d (unicast_port ch) @ ''/'' @ newline]
       else []) (listed (in_playlist v) n chs)))"

definition unicast_send_play_list_multicast :: "nat \<Rightarrow> mumudvb_channel_t list \<Rightarrow> bool \<Rightarrow> unicast_parameters_t \<Rightarrow> unicast_reply" where
  "unicast_send_play_list_multicast n chs vlc v =
     body_of ([''#EXTM3U'' @ newline] @ map (\<lambda>(_, ch).
       extinf ch @ (if rtp ch then ''rtp'' else ''udp'') @ ''://'' @ (if vlc then ''@'' else []) @ ip4Out ch @ '':'' @ print_d (portOut ch) @ newline)
       (listed (\<lambda>ch. mumudvb_channel_t.has_traffic ch \<or> \<not> playlist_ignore_dead v) n chs))"

section \<open>The text of an answer\<close>

text \<open>A buffer is long enough for its text and a NUL.\<close>

definition part_ok :: "reply_part \<Rightarrow> bool" where
  "part_ok p \<longleftrightarrow> part_used p = int (length (part_text p)) \<and> part_used p < part_length p"

lemma grow_length_fits: "n + 1 \<le> grow_length len used n - used"
  by (induction len used n rule: grow_length.induct) (subst grow_length.simps, simp)

lemma part_write_ok: "part_ok p \<Longrightarrow> part_ok (part_write p s) \<and> part_text (part_write p s) = part_text p @ s"
  using grow_length_fits [of "int (length s)" "part_length p" "part_used p"] by (simp add: part_write_def part_ok_def Let_def)

definition reply_ok :: "unicast_reply \<Rightarrow> bool" where
  "reply_ok r \<longleftrightarrow> part_ok (reply_header r) \<and> part_ok (reply_body r)"

lemma init_ok [simp]: "reply_ok unicast_reply_init"
  by (simp add: reply_ok_def unicast_reply_init_def part_ok_def empty_part_def REPLY_SIZE_STEP_def)

lemma reply_write_ok:
  assumes "reply_ok r"
  shows "reply_ok (unicast_reply_write r s)" "in_header (unicast_reply_write r s) = in_header r"
    "in_header r \<Longrightarrow> part_text (reply_header (unicast_reply_write r s)) = part_text (reply_header r) @ s \<and>
       reply_body (unicast_reply_write r s) = reply_body r"
    "\<not> in_header r \<Longrightarrow> part_text (reply_body (unicast_reply_write r s)) = part_text (reply_body r) @ s \<and>
       reply_header (unicast_reply_write r s) = reply_header r"
  using assms part_write_ok by (auto simp: unicast_reply_write_def reply_ok_def)

lemma body_of_text:
  "reply_ok (body_of ss) \<and> \<not> in_header (body_of ss) \<and> part_text (reply_body (body_of ss)) = concat ss \<and>
     reply_header (body_of ss) = empty_part"
proof -
  have "reply_ok (foldl unicast_reply_write r ss) \<and> \<not> in_header (foldl unicast_reply_write r ss) \<and>
      part_text (reply_body (foldl unicast_reply_write r ss)) = part_text (reply_body r) @ concat ss \<and>
      reply_header (foldl unicast_reply_write r ss) = reply_header r"
    if "reply_ok r" "\<not> in_header r" for r
    using that
  proof (induction ss arbitrary: r)
    case (Cons s ss)
    note w = reply_write_ok [OF Cons.prems(1), of s]
    show ?case using Cons.IH [OF w(1)] Cons.prems w(2,4) by simp
  qed simp
  moreover have "\<not> in_header unicast_reply_init" "part_text (reply_body unicast_reply_init) = []"
    "reply_header unicast_reply_init = empty_part" by (simp_all add: unicast_reply_init_def empty_part_def)
  ultimately show ?thesis using init_ok by (simp add: body_of_def)
qed


section \<open>Sending is complete\<close>

text \<open>
  A socket that takes at most what it is given and never fails, and again and again takes something.
\<close>

definition writes_on :: "(nat \<Rightarrow> nat \<Rightarrow> write_result) \<Rightarrow> bool" where
  "writes_on w \<longleftrightarrow> (\<forall>k c. w k c \<noteq> Write_error \<and> (\<forall>n. w k c = Wrote n \<longrightarrow> n \<le> c)) \<and>
     (\<forall>k. \<exists>j\<ge>k. \<forall>c>0. \<exists>n>0. w j c = Wrote n)"

lemma send_loop_complete:
  assumes w: "writes_on w" and pos: "pos \<le> length s"
  shows "send_loop w k s pos = Some (int (length s), drop pos s)"
  using pos
proof (induction "length s - pos" arbitrary: k pos rule: less_induct)
  case less
  obtain j where j: "k \<le> j" "\<forall>c>0. \<exists>n>0. w j c = Wrote n" using w unfolding writes_on_def by blast
  from j(1) show ?case
  proof (induction rule: inc_induct)
    case base
    show ?case
    proof (cases "pos < length s")
      case True
      then obtain n where n: "w j (length s - pos) = Wrote n" "0 < n" using j(2) by (meson zero_less_diff)
      then have "n \<le> length s - pos" using w unfolding writes_on_def by blast
      then show ?thesis using less.hyps [of "pos + n" "Suc j"] n True
        by (subst send_loop.simps) (simp add: add.commute flip: drop_drop)
    qed (use less.prems in \<open>subst send_loop.simps, simp\<close>)
  next
    case (step i)
    show ?case
    proof (cases "pos < length s")
      case True
      show ?thesis
      proof (cases "w i (length s - pos)")
        case (Wrote n)
        then have n: "n \<le> length s - pos" using w unfolding writes_on_def by blast
        show ?thesis
        proof (cases "n = 0")
          case True
          then show ?thesis using Wrote step.IH \<open>pos < length s\<close> by (subst send_loop.simps) simp
        next
          case False
          then show ?thesis using less.hyps [of "pos + n" "Suc i"] n Wrote True
            by (subst send_loop.simps) (simp add: add.commute flip: drop_drop)
        qed
      next
        case Try_again
        then show ?thesis using step.IH True by (subst send_loop.simps) simp
      next
        case Write_error
        then show ?thesis using w by (simp add: writes_on_def)
      qed
    qed (use less.prems in \<open>subst send_loop.simps, simp\<close>)
  qed
qed

lemma send_loop_stuck:
  assumes "send_loop w k s pos = Some y" "\<forall>k c. w k c = Try_again"
  shows "length s \<le> pos"
  using assms
proof (induction rule: send_loop.raw_induct [rotated 1, consumes 1, case_names 1])
  case (1 f w k s pos y)
  then show ?case by (fastforce split: if_splits)
qed

text \<open>The header of an answer.\<close>

definition header_text :: "string \<Rightarrow> int \<Rightarrow> string \<Rightarrow> int \<Rightarrow> string" where
  "header_text build code content_type len =
     ''HTTP/1.0 '' @ (if code = 200 then ''200 OK'' else ''404 Not found'') @ newline @
     ''Access-Control-Allow-Origin: *'' @ newline @ ''Server: mumudvb/'' @ build @ newline @
     ''Content-type: '' @ content_type @ ''; charset=utf-8'' @ newline @ ''Content-length: '' @ print_d len @ newline @ newline"

lemma header_write:
  assumes "reply_ok r" "in_header r"
  shows "reply_ok (unicast_reply_write r s)" "in_header (unicast_reply_write r s)"
    "part_text (reply_header (unicast_reply_write r s)) = part_text (reply_header r) @ s"
    "reply_body (unicast_reply_write r s) = reply_body r"
  using reply_write_ok [OF assms(1), of s] assms(2) by auto

lemma unicast_reply_send_text:
  assumes r: "reply_ok r" "part_text (reply_header r) = []" and code: "code = 200 \<or> code = 404"
  shows "unicast_reply_send build w r code content_type =
    send_loop w 0 (header_text build code content_type (int (length (part_text (reply_body r)))) @ part_text (reply_body r)) 0"
proof -
  have 0: "reply_ok (r\<lparr>in_header := True\<rparr>)" "in_header (r\<lparr>in_header := True\<rparr>)" using r by (simp_all add: reply_ok_def)
  have l: "part_used (reply_body r) = int (length (part_text (reply_body r)))" using r by (simp add: reply_ok_def part_ok_def)
  show ?thesis using 0 r(2) code
    by (auto simp: unicast_reply_send_def Let_def header_write header_text_def l)
qed

text \<open>
  C15. An answer is complete: while the socket takes something again and again, the client gets the header of the answer
  and then all pieces of the body, with the length of the body in the header, and the call returns how much it has
  sent.
\<close>

theorem http_answer_complete:
  assumes "writes_on w" "code = 200 \<or> code = 404"
  shows "unicast_reply_send build w (body_of ss) code content_type =
    Some (int (length (header_text build code content_type (int (length (concat ss))) @ concat ss)),
      header_text build code content_type (int (length (concat ss))) @ concat ss)"
  using unicast_reply_send_text [OF _ _ assms(2), of "body_of ss" build w content_type] body_of_text [of ss]
    send_loop_complete [OF assms(1), of 0 _ 0] by (simp add: empty_part_def)

theorem http_answer_complete_witness:
  "unicast_reply_send ''2'' (\<lambda>k c. if even k then Try_again else Wrote (min 40 c)) (body_of [''a'', ''bc'']) 404 ''text/html'' =
    Some (int (length (header_text ''2'' 404 ''text/html'' 3 @ ''abc'')), header_text ''2'' 404 ''text/html'' 3 @ ''abc'')"
proof -
  have w: "writes_on (\<lambda>k c. if even k then Try_again else Wrote (min 40 c))"
    unfolding writes_on_def
  proof (intro conjI allI)
    fix k :: nat
    show "\<exists>j\<ge>k. \<forall>c>0. \<exists>n>0. (if even j then Try_again else Wrote (min 40 c)) = Wrote n"
      by (rule exI [of _ "2 * k + 1"]) auto
  qed auto
  show ?thesis using http_answer_complete [OF w, of 404 "''2''" "[''a'', ''bc'']" "''text/html''"] by simp
qed

text \<open>
  C16. The program hangs in an answer that the socket does not take: as long as \<^verbatim>\<open>write\<close> on the non-blocking socket
  answers that the client has to be tried again, the loop does not end, so a client that asks for a page and does not
  read it stops the streaming to everybody.
\<close>

theorem http_answer_hangs:
  assumes "\<forall>k c. w k c = Try_again" "code = 200 \<or> code = 404"
  shows "unicast_reply_send build w (body_of ss) code content_type = None"
proof (rule ccontr)
  assume "unicast_reply_send build w (body_of ss) code content_type \<noteq> None"
  then obtain y where "send_loop w 0 (header_text build code content_type (int (length (concat ss))) @ concat ss) 0 = Some y"
    using unicast_reply_send_text [OF _ _ assms(2), of "body_of ss" build w content_type] body_of_text [of ss]
    by (auto simp: empty_part_def)
  from send_loop_stuck [OF this assms(1)] show False by (simp add: header_text_def)
qed

theorem http_answer_hangs_witness:
  "unicast_reply_send ''2'' (\<lambda>_ _. Try_again) unicast_send_index_page 200 ''text/html'' = None"
  using http_answer_hangs [of "\<lambda>_ _. Try_again" 200 "''2''" _ "''text/html''"] by (simp add: unicast_send_index_page_def)

end
