(* ===== verification/Http.thy ===== *)
theory Http
  imports Http_Reply Unicast_Clients Config_Lines Tune_Params
begin

text \<open>
  The messages of the HTTP clients, \<^verbatim>\<open>src/src/unicast_http.c\<close>: receiving into the buffer of a client, recognising the
  request, and joining a channel.

  The bytes that \<^verbatim>\<open>recv\<close> returns are a parameter, as is whether the header of a stream could be written. The page that
  is sent is a result; the pages of \<open>Http_Reply\<close> have their text, those of the monitoring and of the CAM have not. The
  byte behind a grown buffer is taken as zero; the code writes it before it reads it. A string ends before its first
  zero byte. \<open>None\<close> is an access outside an array.

  The lemmas show that a message keeps the invariant of the clients, exactly which request makes the code leave the
  array of channels, which channel a request gets, and what becomes of a client that uses another method.
\<close>

section \<open>The buffer\<close>

definition RECV_BUFFER_MULTIPLE :: nat where "RECV_BUFFER_MULTIPLE = 100"

datatype received = Received "u8 list" | Recv_closed | Recv_failed

definition rx_grow :: "unicast_client_t \<Rightarrow> unicast_client_t" where
  "rx_grow c =
     (if buffersize c < bufferpos c + RECV_BUFFER_MULTIPLE
      then c\<lparr>rx_buffer := Some (take (buffersize c) (case rx_buffer c of None \<Rightarrow> [] | Some b \<Rightarrow> b) @
               replicate RECV_BUFFER_MULTIPLE 0 @ [0]),
             buffersize := buffersize c + RECV_BUFFER_MULTIPLE\<rparr>
      else c)"

text \<open>Storing what was received, and the zero at the end.\<close>

definition rx_store :: "u8 list \<Rightarrow> unicast_client_t \<Rightarrow> unicast_client_t option" where
  "rx_store xs c = do {
     b \<leftarrow> rx_buffer c;
     b \<leftarrow> mem_write b (bufferpos c) xs;
     b \<leftarrow> wr b (buffersize c) 0;
     Some (c\<lparr>rx_buffer := Some b, bufferpos := bufferpos c + length xs\<rparr>)}"

definition rx_text :: "unicast_client_t \<Rightarrow> string" where
  "rx_text c = (case rx_buffer c of None \<Rightarrow> [] | Some b \<Rightarrow> string_of (takeWhile (\<lambda>x. x \<noteq> 0) b))"

definition rx_free :: "unicast_client_t \<Rightarrow> unicast_client_t" where
  "rx_free c = c\<lparr>rx_buffer := None, bufferpos := 0, buffersize := 0\<rparr>"

text \<open>\<^verbatim>\<open>strtok\<close> ends the first word of the buffer with a zero.\<close>

definition strtok_cut :: "u8 list \<Rightarrow> u8 list" where
  "strtok_cut b =
     (let s = takeWhile (\<lambda>x. x \<noteq> 0) b;
          a = length (takeWhile (\<lambda>x. x = 32) s);
          e = a + length (takeWhile (\<lambda>x. x \<noteq> 32) (drop a s))
      in if e < length s then b[e := 0] else b)"

section \<open>Requests\<close>

text \<open>White space around the name goes, white space inside becomes a dash.\<close>

definition process_channel_name :: "string \<Rightarrow> string" where
  "process_channel_name s =
     map (\<lambda>c. if is_space c then CHR ''-'' else c) (rev (dropWhile is_space (rev (dropWhile is_space s))))"

definition strcasecmp_eq :: "string \<Rightarrow> string \<Rightarrow> bool" where
  "strcasecmp_eq a b \<longleftrightarrow> map tolower a = map tolower b"

text \<open>The number of the last channel that fits, 0 when none does.\<close>

fun last_match :: "(mumudvb_channel_t \<Rightarrow> bool) \<Rightarrow> int \<Rightarrow> int \<Rightarrow> mumudvb_channel_t list \<Rightarrow> int" where
  "last_match P k r [] = r"
| "last_match P k r (ch # chs) = last_match P (k + 1) (if P ch then k + 1 else r) chs"

datatype http_answer = Page_404 | Reply_501 | Channels_list "string option" | Playlist bool | Playlist_multicast bool |
  Index_page | Channels_js | State_json | Signal_js | Traffic_js | State_xml | EIT_json | Cam_menu | Cam_action string |
  Prometheus | Stream_header

datatype http_request = Ask_channel int | Answer http_answer

definition by_number :: "nat \<Rightarrow> string \<Rightarrow> http_request" where
  "by_number n s = (case strtok '' '' s of None \<Rightarrow> Answer Page_404
     | Some (t, _) \<Rightarrow> (let k = atoi t in if k \<noteq> 0 \<and> k \<le> int n then Ask_channel k else Answer Page_404))"

definition ask_found :: "int \<Rightarrow> http_request" where
  "ask_found k = (if k \<noteq> 0 then Ask_channel k else Answer Page_404)"

definition by_sid :: "nat \<Rightarrow> mumudvb_channel_t list \<Rightarrow> string \<Rightarrow> http_request" where
  "by_sid n chs s = (case strtok '' '' s of None \<Rightarrow> Answer Page_404
     | Some (t, _) \<Rightarrow> ask_found (last_match (\<lambda>ch. int (mumudvb_channel_t.service_id ch) = atoi t) 0 0 (take n chs)))"

definition by_name :: "nat \<Rightarrow> mumudvb_channel_t list \<Rightarrow> string \<Rightarrow> http_request" where
  "by_name n chs s = (case strstr s '' HTTP'' of None \<Rightarrow> Answer Page_404
     | Some e \<Rightarrow>
         (let nm = process_channel_name (take (MAX_NAME_LEN - 1) (take e s))
          in ask_found (last_match (\<lambda>ch. strcasecmp_eq (process_channel_name (mumudvb_channel_t.name ch)) nm) 0 0 (take n chs))))"

definition host_of :: "string \<Rightarrow> string option" where
  "host_of s = (case strstr s ''Host: '' of None \<Rightarrow> None
     | Some i \<Rightarrow> map_option fst (strtok [CHR 0x0D] (drop (i + 6) s)))"

definition page_of :: "string \<Rightarrow> string \<Rightarrow> http_answer" where
  "page_of s url =
     (if prefix ''/channels_list.html '' url then Channels_list (host_of s)
      else if prefix ''/playlist.m3u '' url then Playlist False
      else if prefix ''/playlist_port.m3u '' url then Playlist True
      else if prefix ''/playlist_multicast.m3u '' url then Playlist_multicast False
      else if prefix ''/playlist_multicast_vlc.m3u '' url then Playlist_multicast True
      else if prefix ''/channels_list.json '' url then Channels_js
      else if prefix ''/monitor/state.json '' url then State_json
      else if prefix ''/monitor/signal_power.json '' url then Signal_js
      else if prefix ''/monitor/channels_traffic.json '' url then Traffic_js
      else if prefix ''/monitor/state.xml '' url then State_xml
      else if prefix ''/monitor/EIT.json '' url then EIT_json
      else if prefix ''/cam/menu.xml '' url then Cam_menu
      else if prefix ''/cam/action.xml?key='' url then Cam_action (drop 20 url)
      else if prefix ''/index.html'' url \<or> prefix ''/index.htm'' url \<or> prefix ''/ '' url then Index_page
      else if prefix ''/metrics'' url then Prometheus
      else Page_404)"

text \<open>A request with the method GET. \<open>streams\<close>: the client has a channel.\<close>

definition http_get :: "nat \<Rightarrow> mumudvb_channel_t list \<Rightarrow> bool \<Rightarrow> int \<Rightarrow> string \<Rightarrow> http_request" where
  "http_get n chs streams asked s =
     (let url = drop 4 s
      in if asked \<noteq> -1 then Ask_channel (asked + 1)
         else if prefix ''/bynumber/'' url then (if streams then Answer Reply_501 else by_number n (drop 10 url))
         else if prefix ''/bysid/'' url then (if streams then Answer Reply_501 else by_sid n chs (drop 7 url))
         else if prefix ''/byname/'' url then (if streams then Answer Reply_501 else by_name n chs (drop 8 url))
         else Answer (page_of s url))"

definition request_complete :: "string \<Rightarrow> bool" where
  "request_complete s \<longleftrightarrow> 5 < length s \<and> strstr s [CHR 0x0A, CHR 0x0D, CHR 0x0A] \<noteq> None"

section \<open>Messages\<close>

definition put_client :: "unicast_world \<Rightarrow> ptr \<Rightarrow> unicast_client_t \<Rightarrow> unicast_world" where
  "put_client w p c = w\<lparr>uclients := (uclients w)(p \<mapsto> c)\<rparr>"

text \<open>The client joins a channel, and its buffer is given back.\<close>

definition http_join :: "unicast_world \<Rightarrow> ptr \<Rightarrow> int \<Rightarrow> bool \<Rightarrow> (int \<times> http_answer option \<times> unicast_world) option" where
  "http_join w p k header_ok =
     (if k < 1 \<or> int (length (chans w)) < k then None
      else do {
        (r, w) \<leftarrow> channel_add_unicast_client w p (nat (k - 1)) header_ok;
        if r = 0 then do {
          w \<leftarrow> upd_client w p (\<lambda>c. c\<lparr>chan_ptr := Some (nat (k - 1))\<rparr>);
          w \<leftarrow> upd_client w p rx_free;
          Some (0, Some Stream_header, w)}
        else Some (-2, None, w)})"

definition unicast_handle_message ::
  "unicast_world \<Rightarrow> ptr \<Rightarrow> nat \<Rightarrow> received \<Rightarrow> bool \<Rightarrow> (int \<times> http_answer option \<times> unicast_world) option" where
  "unicast_handle_message w p n rcv header_ok = do {
     c0 \<leftarrow> uclients w p;
     let c = rx_grow c0;
     case rcv of
       Recv_failed \<Rightarrow> Some (-1, None, put_client w p c)
     | Recv_closed \<Rightarrow> Some (-2, None, put_client w p c)
     | Received xs \<Rightarrow> do {
         c \<leftarrow> rx_store xs c;
         let s = rx_text c;
         if \<not> request_complete s then Some (0, None, put_client w p c)
         else if prefix ''GET '' s then
           (let w' = put_client w p (c\<lparr>askedChannel := -1\<rparr>)
            in case http_get n (chans w) (chan_ptr c \<noteq> None) (askedChannel c) s of
                 Ask_channel k \<Rightarrow> http_join w' p k header_ok
               | Answer a \<Rightarrow> Some (-2, Some a, w'))
         else (let c' = c\<lparr>rx_buffer := map_option strtok_cut (rx_buffer c)\<rparr>
               in Some (if chan_ptr c = None then -2 else 0, Some Reply_501, put_client w p c'))}}"

text \<open>The text of the pages of the program itself.\<close>

definition http_page :: "string \<Rightarrow> nat \<Rightarrow> mumudvb_channel_t list \<Rightarrow> string \<times> bool \<Rightarrow> int \<Rightarrow> unicast_parameters_t \<Rightarrow> http_answer \<Rightarrow>
    (int \<times> string \<times> unicast_reply) option" where
  "http_page build n chs server port_http v a = (case a of
       Page_404 \<Rightarrow> Some (404, ''text/html'', body_of [HTTP_404_REPLY_HTML build])
     | Channels_list host \<Rightarrow> Some (200, ''text/html'', unicast_send_streamed_channels_list n chs host)
     | Playlist perport \<Rightarrow> Some (200, ''audio/x-mpegurl'', unicast_send_play_list_unicast n chs server port_http perport v)
     | Playlist_multicast vlc \<Rightarrow> Some (200, ''audio/x-mpegurl'', unicast_send_play_list_multicast n chs vlc v)
     | Index_page \<Rightarrow> Some (200, ''text/html'', unicast_send_index_page)
     | _ \<Rightarrow> None)"

section \<open>The clients and their buffers\<close>

definition rx_ok :: "unicast_client_t \<Rightarrow> bool" where
  "rx_ok c \<longleftrightarrow> bufferpos c \<le> buffersize c \<and>
     (case rx_buffer c of None \<Rightarrow> buffersize c = 0 | Some b \<Rightarrow> length b = buffersize c + 1)"

text \<open>The channel of a listening socket is one of the \<open>n\<close> channels, and is asked for once, by a client without channel.\<close>

definition client_ok :: "nat \<Rightarrow> unicast_client_t \<Rightarrow> bool" where
  "client_ok n c \<longleftrightarrow> rx_ok c \<and> (askedChannel c \<noteq> -1 \<longrightarrow> 0 \<le> askedChannel c \<and> askedChannel c < int n \<and> chan_ptr c = None)"

lemma rx_grow_ok:
  assumes "rx_ok c"
  shows "rx_ok (rx_grow c) \<and> bufferpos (rx_grow c) + RECV_BUFFER_MULTIPLE \<le> buffersize (rx_grow c) \<and>
    (\<exists>b. rx_buffer (rx_grow c) = Some b \<and> length b = buffersize (rx_grow c) + 1)"
  using assms by (auto simp: rx_ok_def rx_grow_def RECV_BUFFER_MULTIPLE_def split: option.splits)

lemma rx_store_ok:
  assumes "rx_ok c" "length xs \<le> RECV_BUFFER_MULTIPLE"
  shows "\<exists>c'. rx_store xs (rx_grow c) = Some c' \<and> rx_ok c' \<and> rx_buffer c' \<noteq> None"
  using rx_grow_ok [OF assms(1)] assms(2)
  by (auto simp: rx_store_def rx_ok_def mem_simps wr_def)

text \<open>A step that leaves the links, the channel and the queue of a client.\<close>

definition links_part :: "unicast_client_t \<Rightarrow> (ptr \<times> ptr) \<times> (ptr \<times> ptr) \<times> nat option \<times> unicast_queue_header_t \<times> int" where
  "links_part c = ((prev_client c, next_client c), (chan_prev c, chan_next c), chan_ptr c, queue c, Socket c)"

lemma links_simps [simp]:
  "links_part (rx_grow c) = links_part c" "askedChannel (rx_grow c) = askedChannel c"
  "links_part (rx_free c) = links_part c" "askedChannel (rx_free c) = askedChannel c"
  "links_part (c\<lparr>askedChannel := k\<rparr>) = links_part c" "links_part (c\<lparr>rx_buffer := x\<rparr>) = links_part c"
  by (simp_all add: links_part_def rx_grow_def rx_free_def)

lemma links_store: "rx_store xs c = Some c' \<Longrightarrow> links_part c' = links_part c \<and> askedChannel c' = askedChannel c"
  by (auto simp: rx_store_def links_part_def bind_eq_Some_conv)

lemma put_client_inv:
  assumes "clients_inv w gs cs qs" "uclients w p = Some c" "links_part c' = links_part c"
  shows "clients_inv (put_client w p c') gs cs qs"
proof -
  have "all_links (put_client w p c') = all_links w" "chan_links (put_client w p c') = chan_links w"
    "chan_of (put_client w p c') = chan_of w"
    using assms(2,3) by (auto simp: fun_eq_iff all_links_def chan_links_def chan_of_def put_client_def links_part_def)
  moreover have "queue c' = queue c" using assms(3) by (simp add: links_part_def)
  ultimately show ?thesis
    using assms(1,2) unfolding clients_inv_def global_inv_def chan_inv_def queues_inv_def
    by (auto simp: put_client_def)
qed

text \<open>What every message leaves: the other clients, the table of descriptors and the number of channels.\<close>

definition same_frame :: "ptr \<Rightarrow> unicast_world \<Rightarrow> unicast_world \<Rightarrow> bool" where
  "same_frame p w w' \<longleftrightarrow> pfds w' = pfds w \<and> fd_info w' = fd_info w \<and> length (chans w') = length (chans w) \<and>
     map_option Socket (uclients w' p) = map_option Socket (uclients w p) \<and>
     (\<forall>a. a \<noteq> p \<longrightarrow> map_option (\<lambda>c. (Socket c, rx_buffer c, buffersize c, bufferpos c, askedChannel c, chan_ptr c)) (uclients w' a) =
        map_option (\<lambda>c. (Socket c, rx_buffer c, buffersize c, bufferpos c, askedChannel c, chan_ptr c)) (uclients w a))"

lemma same_frame_trans: "same_frame p w w1 \<Longrightarrow> same_frame p w1 w2 \<Longrightarrow> same_frame p w w2"
  by (simp add: same_frame_def)

lemma same_frame_put: "uclients w p = Some c \<Longrightarrow> links_part c' = links_part c \<Longrightarrow> same_frame p w (put_client w p c')"
  by (simp add: same_frame_def put_client_def links_part_def)

lemma same_frame_clients:
  assumes "same_frame p w w'" "\<forall>a c. uclients w a = Some c \<longrightarrow> client_ok n c" "\<forall>c. uclients w' p = Some c \<longrightarrow> client_ok n c"
  shows "\<forall>a c. uclients w' a = Some c \<longrightarrow> client_ok n c"
proof (intro allI impI)
  fix a c assume c: "uclients w' a = Some c"
  show "client_ok n c"
  proof (cases "a = p")
    case False
    then obtain d where d: "uclients w a = Some d" "(rx_buffer c, buffersize c, bufferpos c, askedChannel c, chan_ptr c) =
        (rx_buffer d, buffersize d, bufferpos d, askedChannel d, chan_ptr d)"
      using assms(1) c False by (cases "uclients w a") (auto simp: same_frame_def)
    then have "client_ok n d" using assms(2) by blast
    then show ?thesis using d(2) by (auto simp: client_ok_def rx_ok_def split: option.splits)
  qed (use assms(3) c in blast)
qed

lemma channel_add_result: "channel_add_unicast_client w p i True = Some (r, w') \<Longrightarrow> r = 0"
  by (auto simp: channel_add_unicast_client_def bind_eq_Some_conv split: if_splits)

lemma http_join_run:
  assumes "1 \<le> k" "k \<le> int (length (chans w))"
  shows "http_join w p k True = do {
      w \<leftarrow> unicast_join_channel w p (nat (k - 1)) True;
      w \<leftarrow> upd_client w p rx_free;
      Some (0, Some Stream_header, w)}"
    "http_join w p k False = Some (-2, None, w)"
proof -
  show "http_join w p k True = do {
      w \<leftarrow> unicast_join_channel w p (nat (k - 1)) True;
      w \<leftarrow> upd_client w p rx_free;
      Some (0, Some Stream_header, w)}"
    using assms channel_add_result [of w p "nat (k - 1)"]
    by (cases "channel_add_unicast_client w p (nat (k - 1)) True") (auto simp: http_join_def unicast_join_channel_def)
qed (use assms in \<open>simp add: http_join_def channel_add_unicast_client_def\<close>)

lemma join_frame:
  assumes inv: "clients_inv w gs cs qs" and c: "uclients w p = Some c" "chan_ptr c = None" and i: "i < length (chans w)"
  shows "\<exists>w'. unicast_join_channel w p i True = Some w' \<and> clients_inv w' gs (cs(i := cs i @ [p])) qs \<and> same_frame p w w' \<and>
    (\<exists>c'. uclients w' p = Some c' \<and> chan_ptr c' = Some i \<and> rx_buffer c' = rx_buffer c \<and> buffersize c' = buffersize c \<and>
       bufferpos c' = bufferpos c \<and> askedChannel c' = askedChannel c)"
proof -
  obtain w' where w': "unicast_join_channel w p i True = Some w'" "clients_inv w' gs (cs(i := cs i @ [p])) qs"
    using unicast_join_channel_ok [OF inv c i, of True] by auto
  have g: "global_inv w gs" and ci: "chan_inv w cs" using inv by (simp_all add: clients_inv_def)
  have di: "dll (chan_links w) NULL (clients (chans w ! i)) (cs i)" using ci i by (simp add: chan_inv_def)
  have p: "p \<in> set gs" using g c by (auto simp: global_inv_def)
  have "p \<noteq> NULL" using g p dll_not_NULL unfolding global_inv_def by blast
  moreover obtain d where d: "cs i \<noteq> [] \<Longrightarrow> uclients w (last (cs i)) = Some d"
    using dll_not_NULL [OF di] last_in_set by (cases "cs i = []") (fastforce simp: chan_links_def)+
  moreover have "last (cs i) \<noteq> p" if "cs i \<noteq> []"
  proof -
    have "last (cs i) \<in> set (cs i)" using that by simp
    then have "chan_of w (last (cs i)) = Some (Some i)" using ci i by (simp add: chan_inv_def)
    then show ?thesis using c by (auto simp: chan_of_def)
  qed
  ultimately have "same_frame p w w' \<and> (\<exists>c'. uclients w' p = Some c' \<and> chan_ptr c' = Some i \<and> rx_buffer c' = rx_buffer c \<and>
      buffersize c' = buffersize c \<and> bufferpos c' = bufferpos c \<and> askedChannel c' = askedChannel c)"
    using join_run [OF ci c i, of d] w'(1) c d
    by (auto simp: same_frame_def Let_def)
  then show ?thesis using w' by blast
qed

section \<open>Messages keep the invariant\<close>

text \<open>The request that makes the code read before the array of channels.\<close>

definition asks_negative :: "unicast_client_t \<Rightarrow> bool" where
  "asks_negative c \<longleftrightarrow> request_complete (rx_text c) \<and> prefix ''GET /bynumber/'' (rx_text c) \<and>
     askedChannel c = -1 \<and> chan_ptr c = None \<and>
     (case strtok '' '' (drop 14 (rx_text c)) of None \<Rightarrow> False | Some (t, _) \<Rightarrow> atoi t < 0)"

definition received_negative :: "received \<Rightarrow> unicast_client_t \<Rightarrow> bool" where
  "received_negative rcv c = (case rcv of
       Received xs \<Rightarrow> (case rx_store xs (rx_grow c) of None \<Rightarrow> False | Some c' \<Rightarrow> asks_negative c')
     | _ \<Rightarrow> False)"

lemma last_match_bounds:
  "last_match P k r chs = k' \<Longrightarrow> k' = r \<or> k < k' \<and> k' \<le> k + int (length chs)"
  by (induction chs arbitrary: k r) (fastforce split: if_splits)+

lemma ask_found_bounds: "ask_found (last_match P 0 0 (take n chs)) = Ask_channel k \<Longrightarrow> 1 \<le> k \<and> k \<le> int n"
  using last_match_bounds [of P 0 0 "take n chs" k] by (auto simp: ask_found_def split: if_splits)

text \<open>The channel that a GET asks for is one of the \<open>n\<close> channels, unless the number is negative.\<close>

lemma http_get_bounds:
  assumes "http_get n chs streams asked s = Ask_channel k" "asked \<noteq> -1 \<longrightarrow> 0 \<le> asked \<and> asked < int n \<and> \<not> streams"
  shows "\<not> streams \<and> k \<le> int n \<and>
    (1 \<le> k \<or> asked = -1 \<and> prefix ''/bynumber/'' (drop 4 s) \<and>
       (\<exists>t r. strtok '' '' (drop 14 s) = Some (t, r) \<and> atoi t = k \<and> k < 0))"
proof -
  have "by_sid n chs u = Ask_channel k \<Longrightarrow> 1 \<le> k \<and> k \<le> int n"
    "by_name n chs u = Ask_channel k \<Longrightarrow> 1 \<le> k \<and> k \<le> int n" for u
    by (auto simp: by_sid_def by_name_def Let_def split: option.splits dest: ask_found_bounds)
  then show ?thesis using assms
    by (fastforce simp: http_get_def by_number_def Let_def split: if_splits option.splits)
qed

lemma prefix_GET: "prefix ''GET /bynumber/'' s \<longleftrightarrow> prefix ''GET '' s \<and> prefix ''/bynumber/'' (drop 4 s)"
  by (auto simp: prefix_def append_eq_conv_conj)

text \<open>Conversely, a negative number is asked for.\<close>

lemma http_get_negative:
  assumes "asks_negative c"
  shows "\<exists>k < 0. http_get n chs (chan_ptr c \<noteq> None) (askedChannel c) (rx_text c) = Ask_channel k"
  using assms by (auto simp: asks_negative_def prefix_GET http_get_def by_number_def Let_def split: option.splits)

lemma http_join_ok:
  assumes inv: "clients_inv w gs cs qs" and c: "uclients w p = Some c" "chan_ptr c = None" "rx_ok c" "askedChannel c = -1"
    and k: "1 \<le> k" "k \<le> int (length (chans w))"
  shows "\<exists>r a w'. http_join w p k ok = Some (r, a, w') \<and> r \<in> {0, -2} \<and> (\<exists>cs'. clients_inv w' gs cs' qs) \<and> same_frame p w w' \<and>
    (\<forall>c'. uclients w' p = Some c' \<longrightarrow> client_ok n c')"
proof (cases ok)
  case False
  then show ?thesis using http_join_run(2) [OF k] inv c
    by (fastforce simp: same_frame_def client_ok_def)
next
  case True
  have i: "nat (k - 1) < length (chans w)" using k by linarith
  obtain w1 c1 where w1: "unicast_join_channel w p (nat (k - 1)) True = Some w1"
    "clients_inv w1 gs (cs(nat (k - 1) := cs (nat (k - 1)) @ [p])) qs" "same_frame p w w1" "uclients w1 p = Some c1"
    "askedChannel c1 = askedChannel c"
    using join_frame [OF inv c(1,2) i] by blast
  have "http_join w p k ok = Some (0, Some Stream_header, put_client w1 p (rx_free c1))"
    using True w1(1,4) by (simp add: http_join_run(1) [OF k] upd_client_Some put_client_def)
  moreover have "client_ok n (rx_free c1)" using c(4) w1(5) by (simp add: client_ok_def rx_ok_def rx_free_def)
  moreover have "clients_inv (put_client w1 p (rx_free c1)) gs (cs(nat (k - 1) := cs (nat (k - 1)) @ [p])) qs"
    by (rule put_client_inv [OF w1(2,4)]) simp
  moreover have "same_frame p w (put_client w1 p (rx_free c1))"
    by (rule same_frame_trans [OF w1(3) same_frame_put [OF w1(4)]]) simp
  ultimately show ?thesis by (auto simp: put_client_def)
qed

lemma strtok_cut_length: "length (strtok_cut b) = length b"
  by (simp add: strtok_cut_def Let_def)

text \<open>The steps of a message after what was received has been stored.\<close>

definition message_result :: "nat \<Rightarrow> ptr \<Rightarrow> (nat \<Rightarrow> ptr list) \<Rightarrow> ptr list \<Rightarrow> (ptr \<Rightarrow> queue_entry list) \<Rightarrow> unicast_world \<Rightarrow>
    (int \<times> http_answer option \<times> unicast_world) option \<Rightarrow> bool" where
  "message_result n p cs gs qs w res \<longleftrightarrow> (\<exists>r a w'. res = Some (r, a, w') \<and> r \<in> {0, -1, -2} \<and>
     (\<exists>cs'. clients_inv w' gs cs' qs) \<and> same_frame p w w' \<and> (\<forall>q c. uclients w' q = Some c \<longrightarrow> client_ok n c))"

lemma message_put:
  assumes "clients_inv w gs cs qs" "uclients w p = Some c0" "\<forall>q c. uclients w q = Some c \<longrightarrow> client_ok n c"
    and "links_part c = links_part c0" "client_ok n c" "r \<in> {0, -1, -2}"
  shows "message_result n p cs gs qs w (Some (r, a, put_client w p c))"
proof -
  have f: "same_frame p w (put_client w p c)" by (rule same_frame_put [OF assms(2,4)])
  have "\<forall>q d. uclients (put_client w p c) q = Some d \<longrightarrow> client_ok n d"
    using same_frame_clients [OF f assms(3)] assms(5) by (simp add: put_client_def)
  then show ?thesis using put_client_inv [OF assms(1,2,4)] f assms(6) unfolding message_result_def by blast
qed

lemma handle_message_spec:
  assumes inv: "clients_inv w gs cs qs" and p: "uclients w p = Some c" and ok: "\<forall>q c. uclients w q = Some c \<longrightarrow> client_ok n c"
    and n: "n \<le> length (chans w)" and len: "\<And>xs. rcv = Received xs \<Longrightarrow> length xs \<le> RECV_BUFFER_MULTIPLE"
  shows "if received_negative rcv c then unicast_handle_message w p n rcv header_ok = None
    else message_result n p cs gs qs w (unicast_handle_message w p n rcv header_ok)"
proof -
  have c: "client_ok n c" using ok p by blast
  have g: "client_ok n (rx_grow c)" using c rx_grow_ok [of c] by (auto simp: client_ok_def rx_grow_def)
  show ?thesis
  proof (cases rcv)
    case Recv_closed
    then show ?thesis using message_put [OF inv p ok _ g, of "-2"] p
      by (simp add: unicast_handle_message_def received_negative_def)
  next
    case Recv_failed
    then show ?thesis using message_put [OF inv p ok _ g, of "-1"] p
      by (simp add: unicast_handle_message_def received_negative_def)
  next
    case (Received xs)
    obtain d where d: "rx_store xs (rx_grow c) = Some d" "rx_ok d" "rx_buffer d \<noteq> None"
      using rx_store_ok [of c xs] c len [OF Received] by (auto simp: client_ok_def)
    have ld: "links_part d = links_part c" "askedChannel d = askedChannel c" using links_store [OF d(1)] by simp_all
    then have cd: "chan_ptr d = chan_ptr c" by (simp add: links_part_def)
    have dok: "client_ok n d" using c d(2) ld cd by (simp add: client_ok_def)
    define s where "s = rx_text d"
    define w1 where "w1 = put_client w p (d\<lparr>askedChannel := -1\<rparr>)"
    have run: "unicast_handle_message w p n rcv header_ok =
        (if \<not> request_complete s then Some (0, None, put_client w p d)
         else if prefix ''GET '' s then
           (case http_get n (chans w) (chan_ptr d \<noteq> None) (askedChannel d) s of
              Ask_channel k \<Rightarrow> http_join w1 p k header_ok
            | Answer a \<Rightarrow> Some (-2, Some a, w1))
         else Some (if chan_ptr d = None then -2 else 0, Some Reply_501,
            put_client w p (d\<lparr>rx_buffer := map_option strtok_cut (rx_buffer d)\<rparr>)))"
      using p Received d(1) unfolding w1_def s_def by (simp add: unicast_handle_message_def Let_def)
    have neg: "received_negative rcv c = asks_negative d" using Received d(1) by (simp add: received_negative_def)
    have d1: "client_ok n (d\<lparr>askedChannel := -1\<rparr>)" "links_part (d\<lparr>askedChannel := -1\<rparr>) = links_part c"
      using dok ld(1) by (auto simp: client_ok_def rx_ok_def split: option.splits)
    have frame1: "message_result n p cs gs qs w (Some (-2, a, w1))" for a
      unfolding w1_def using d1 by (intro message_put [OF inv p ok]) auto
    consider (more) "\<not> request_complete s" | (get) "request_complete s" "prefix ''GET '' s"
      | (other) "request_complete s" "\<not> prefix ''GET '' s" by blast
    then show ?thesis
    proof cases
      case more
      then show ?thesis using message_put [OF inv p ok ld(1) dok, of 0 None] neg
        by (simp add: run asks_negative_def s_def)
    next
      case other
      have "client_ok n (d\<lparr>rx_buffer := map_option strtok_cut (rx_buffer d)\<rparr>)"
        using dok by (auto simp: client_ok_def rx_ok_def strtok_cut_length split: option.splits)
      then have "message_result n p cs gs qs w (Some (if chan_ptr d = None then -2 else 0, Some Reply_501,
          put_client w p (d\<lparr>rx_buffer := map_option strtok_cut (rx_buffer d)\<rparr>)))"
        using ld(1) by (intro message_put [OF inv p ok]) auto
      then show ?thesis using other neg by (simp add: run asks_negative_def s_def prefix_GET)
    next
      case get
      show ?thesis
      proof (cases "http_get n (chans w) (chan_ptr d \<noteq> None) (askedChannel d) s")
        case (Answer a)
        then have "\<not> asks_negative d" using http_get_negative [of d n "chans w"] by (auto simp: s_def)
        then show ?thesis using get Answer frame1 neg by (simp add: run)
      next
        case (Ask_channel k)
        have b: "chan_ptr d = None" "k \<le> int n" "1 \<le> k \<or> askedChannel d = -1 \<and> prefix ''/bynumber/'' (drop 4 s) \<and>
            (\<exists>t r. strtok '' '' (drop 14 s) = Some (t, r) \<and> atoi t = k \<and> k < 0)"
          using http_get_bounds [OF Ask_channel] dok by (auto simp: client_ok_def)
        show ?thesis
        proof (cases "1 \<le> k")
          case False
          then have "asks_negative d" using b get by (auto simp: asks_negative_def prefix_GET s_def)
          moreover have "http_join w1 p k header_ok = None" using False by (simp add: http_join_def)
          ultimately show ?thesis using get Ask_channel neg by (simp add: run)
        next
          case True
          then have "\<not> asks_negative d" using http_get_negative [of d n "chans w"] Ask_channel by (auto simp: s_def)
          moreover have "message_result n p cs gs qs w (http_join w1 p k header_ok)"
          proof -
            have i1: "clients_inv w1 gs cs qs" unfolding w1_def by (rule put_client_inv [OF inv p d1(2)])
            have f1: "same_frame p w w1" unfolding w1_def by (rule same_frame_put [OF p d1(2)])
            have u1: "uclients w1 p = Some (d\<lparr>askedChannel := -1\<rparr>)" by (simp add: w1_def put_client_def)
            have k1: "k \<le> int (length (chans w1))" using b(2) n by (simp add: w1_def put_client_def)
            obtain r a w2 cs2 where j: "http_join w1 p k header_ok = Some (r, a, w2)" "r \<in> {0, -2}"
              "clients_inv w2 gs cs2 qs" "same_frame p w1 w2" "\<forall>c'. uclients w2 p = Some c' \<longrightarrow> client_ok n c'"
              using http_join_ok [OF i1 u1 _ _ _ True k1, of header_ok n] b(1) d1(1) by (auto simp: client_ok_def)
            have f2: "same_frame p w w2" by (rule same_frame_trans [OF f1 j(4)])
            show ?thesis using j(1-3) f2 same_frame_clients [OF f2 ok j(5)] unfolding message_result_def by blast
          qed
          ultimately show ?thesis using get Ask_channel neg by (simp add: run)
        qed
      qed
    qed
  qed
qed

section \<open>Which channel a request gets\<close>

lemma last_match_none: "\<forall>ch \<in> set chs. \<not> P ch \<Longrightarrow> last_match P k r chs = r"
  by (induction chs arbitrary: k) auto

lemma last_match_append: "last_match P k r (as @ bs) = last_match P (k + int (length as)) (last_match P k r as) bs"
  by (induction as arbitrary: k r) (auto simp: algebra_simps)

lemma last_match_last:
  assumes "i < length chs" "P (chs ! i)" "\<And>j. i < j \<Longrightarrow> j < length chs \<Longrightarrow> \<not> P (chs ! j)"
  shows "last_match P 0 0 chs = int i + 1"
proof -
  have "chs = take i chs @ chs ! i # drop (Suc i) chs" using assms(1) by (simp add: id_take_nth_drop)
  moreover have later: "\<forall>ch \<in> set (drop (Suc i) chs). \<not> P ch"
  proof
    fix ch assume "ch \<in> set (drop (Suc i) chs)"
    then obtain j where "j < length chs - Suc i" "ch = chs ! (Suc i + j)" by (auto simp: in_set_conv_nth)
    then show "\<not> P ch" using assms(3) [of "Suc i + j"] by simp
  qed
  moreover have "last_match P (int i + 1) (int i + 1) (drop (Suc i) chs) = int i + 1" by (rule last_match_none [OF later])
  then have "last_match P 0 0 (take i chs @ chs ! i # drop (Suc i) chs) = int i + 1"
    using assms(1,2) by (simp add: last_match_append)
  ultimately show ?thesis by simp
qed

lemma is_digit_facts: "is_digit c \<Longrightarrow> c \<noteq> CHR '' '' \<and> c \<noteq> CHR ''-'' \<and> c \<noteq> CHR ''+'' \<and> \<not> is_space c"
  by (auto simp: is_digit_def is_space_def)

lemma strtok_blank: "w \<noteq> [] \<Longrightarrow> CHR '' '' \<notin> set w \<Longrightarrow> strtok '' '' (w @ CHR '' '' # r) = Some (w, r)"
  by (rule strtok_word) auto

lemma strstr_blank: "CHR '' '' \<notin> set nm \<Longrightarrow> strstr (nm @ '' HTTP'' @ r) '' HTTP'' = Some (length nm)"
  by (induction nm) auto

lemma processed: "\<not> is_space c" if "c \<in> set (process_channel_name s)"
  using that by (auto simp: process_channel_name_def is_space_def split: if_splits)

lemma dropWhile_none: "\<forall>c \<in> set s. \<not> is_space c \<Longrightarrow> dropWhile is_space s = s"
  by (cases s) simp_all

lemma process_idem: "process_channel_name (process_channel_name s) = process_channel_name s"
proof -
  have n: "\<forall>c \<in> set (process_channel_name s). \<not> is_space c" using processed by blast
  then have "dropWhile is_space (process_channel_name s) = process_channel_name s"
    "dropWhile is_space (rev (process_channel_name s)) = rev (process_channel_name s)"
    by (simp_all add: dropWhile_none)
  then show ?thesis using n unfolding process_channel_name_def [of "process_channel_name s"] by (simp add: map_idI)
qed

text \<open>
  C13. A client gets the channel it asks for: by a number from 1, by the service identifier or by the name as it is
  shown with dashes for spaces. When several channels fit, the request gets the last one.
\<close>

theorem http_finds_channel:
  assumes n: "n \<le> length chs" "i < n"
  shows "http_get n chs False (-1) (''GET /bynumber/'' @ print_u (i + 1) @ '' '' @ r) = Ask_channel (int i + 1) \<and>
    ((\<forall>j. i < j \<and> j < n \<longrightarrow> mumudvb_channel_t.service_id (chs ! j) \<noteq> mumudvb_channel_t.service_id (chs ! i)) \<longrightarrow>
      http_get n chs False (-1) (''GET /bysid/'' @ print_u (mumudvb_channel_t.service_id (chs ! i)) @ '' '' @ r) =
        Ask_channel (int i + 1)) \<and>
    (\<forall>nm. nm = process_channel_name (mumudvb_channel_t.name (chs ! i)) \<and> length nm < MAX_NAME_LEN \<and>
        (\<forall>j. i < j \<and> j < n \<longrightarrow> \<not> strcasecmp_eq (process_channel_name (mumudvb_channel_t.name (chs ! j))) nm) \<longrightarrow>
      http_get n chs False (-1) (''GET /byname/'' @ nm @ '' HTTP'' @ r) = Ask_channel (int i + 1))"
proof (intro conjI impI allI)
  have digits: "CHR '' '' \<notin> set (print_u k)" for k using print_u_digits [of k] is_digit_facts by blast
  have word: "strtok '' '' (print_u k @ '' '' @ r) = Some (print_u k, r)" for k
    using strtok_blank [OF print_u_ne digits] by simp
  show "http_get n chs False (-1) (''GET /bynumber/'' @ print_u (i + 1) @ '' '' @ r) = Ask_channel (int i + 1)"
    using word [of "i + 1"] n(2) by (simp add: http_get_def by_number_def atoi_print_u)
  show "http_get n chs False (-1) (''GET /bysid/'' @ print_u (mumudvb_channel_t.service_id (chs ! i)) @ '' '' @ r) =
        Ask_channel (int i + 1)"
    if "\<forall>j. i < j \<and> j < n \<longrightarrow> mumudvb_channel_t.service_id (chs ! j) \<noteq> mumudvb_channel_t.service_id (chs ! i)"
    using word [of "mumudvb_channel_t.service_id (chs ! i)"] n that
      last_match_last [of i "take n chs" "\<lambda>ch. mumudvb_channel_t.service_id ch = mumudvb_channel_t.service_id (chs ! i)"]
    by (simp add: http_get_def by_sid_def atoi_print_u ask_found_def)
  fix nm
  assume a: "nm = process_channel_name (mumudvb_channel_t.name (chs ! i)) \<and> length nm < MAX_NAME_LEN \<and>
        (\<forall>j. i < j \<and> j < n \<longrightarrow> \<not> strcasecmp_eq (process_channel_name (mumudvb_channel_t.name (chs ! j))) nm)"
  have "CHR '' '' \<notin> set nm" using a processed by (auto simp: is_space_def)
  then have e: "strstr (nm @ '' HTTP'' @ r) '' HTTP'' = Some (length nm)" by (rule strstr_blank)
  have p: "process_channel_name nm = nm" "take (MAX_NAME_LEN - Suc 0) nm = nm" using a process_idem by auto
  have "last_match (\<lambda>ch. strcasecmp_eq (process_channel_name (mumudvb_channel_t.name ch)) nm) 0 0 (take n chs) = int i + 1"
    using a n by (intro last_match_last) (auto simp: strcasecmp_eq_def)
  then have "by_name n chs (nm @ '' HTTP'' @ r) = Ask_channel (int i + 1)"
    unfolding by_name_def e by (simp add: p Let_def ask_found_def)
  then show "http_get n chs False (-1) (''GET /byname/'' @ nm @ '' HTTP'' @ r) = Ask_channel (int i + 1)"
    by (simp add: http_get_def)
qed

theorem http_finds_channel_witness:
  "http_get 1 [zero_channel\<lparr>mumudvb_channel_t.name := '' Das Erste '', mumudvb_channel_t.service_id := 7\<rparr>] False (-1) ''GET /byname/Das-Erste HTTP/1.0'' = Ask_channel 1"
proof -
  have "process_channel_name '' Das Erste '' = ''Das-Erste''" by (simp add: process_channel_name_def is_space_def)
  then show ?thesis
    using http_finds_channel [of 1 "[zero_channel\<lparr>mumudvb_channel_t.name := '' Das Erste '', mumudvb_channel_t.service_id := 7\<rparr>]" 0 "''/1.0''"]
    by (simp add: MAX_NAME_LEN_def)
qed

section \<open>Other methods\<close>

text \<open>A zero in the middle of the buffer hides what is received later.\<close>

definition rx_stuck :: "unicast_client_t \<Rightarrow> bool" where
  "rx_stuck c \<longleftrightarrow> rx_ok c \<and> chan_ptr c \<noteq> None \<and> length (rx_text c) < bufferpos c \<and> \<not> request_complete (rx_text c)"

lemma string_of_length: "length (string_of b) = length b"
  by (simp add: string_of_def)

lemma text_prefix:
  assumes "take k b' = take k b" "length (takeWhile (\<lambda>x. x \<noteq> (0 :: u8)) b) < k" "k \<le> length b"
  shows "takeWhile (\<lambda>x. x \<noteq> 0) b' = takeWhile (\<lambda>x. x \<noteq> 0) b"
proof -
  have e: "\<exists>x \<in> set (take k b). \<not> x \<noteq> 0"
  proof (rule ccontr)
    assume "\<not> (\<exists>x \<in> set (take k b). \<not> x \<noteq> 0)"
    then have "takeWhile (\<lambda>x. x \<noteq> 0) (take k b @ drop k b) = take k b @ takeWhile (\<lambda>x. x \<noteq> 0) (drop k b)"
      by (intro takeWhile_append2) auto
    then show False using assms(2,3) by simp
  qed
  then obtain x where "x \<in> set (take k b)" "\<not> x \<noteq> 0" by blast
  then have "takeWhile (\<lambda>x. x \<noteq> 0) (take k b @ d) = takeWhile (\<lambda>x. x \<noteq> 0) (take k b)" for d
    by (rule takeWhile_append1)
  from this [of "drop k b"] this [of "drop k b'"] show ?thesis using assms(1) by (metis append_take_drop_id)
qed

lemma stuck_step:
  assumes c: "rx_stuck c" and xs: "length xs \<le> RECV_BUFFER_MULTIPLE"
  shows "\<exists>c'. rx_store xs (rx_grow c) = Some c' \<and> rx_stuck c' \<and> bufferpos c' = bufferpos c + length xs"
proof -
  have r: "rx_ok c" using c by (simp add: rx_stuck_def)
  obtain b where b: "rx_buffer c = Some b" "length b = buffersize c + 1" "bufferpos c \<le> buffersize c"
    using c by (auto simp: rx_stuck_def rx_ok_def rx_text_def split: option.splits)
  obtain b1 where b1: "rx_buffer (rx_grow c) = Some b1" "length b1 = buffersize (rx_grow c) + 1"
    "bufferpos (rx_grow c) + RECV_BUFFER_MULTIPLE \<le> buffersize (rx_grow c)"
    using rx_grow_ok [OF r] by blast
  have t1: "take (bufferpos c) b1 = take (bufferpos c) b" and p1: "bufferpos (rx_grow c) = bufferpos c"
    "chan_ptr (rx_grow c) = chan_ptr c"
    using b b1(1) by (auto simp: rx_grow_def split: if_splits)
  define b2 where "b2 = (take (bufferpos c) b1 @ xs @ drop (bufferpos c + length xs) b1)[buffersize (rx_grow c) := 0]"
  have l: "bufferpos c + length xs \<le> length b1" using b1(2,3) xs p1 by simp
  have s: "rx_store xs (rx_grow c) = Some ((rx_grow c)\<lparr>rx_buffer := Some b2, bufferpos := bufferpos c + length xs\<rparr>)"
    using b1 l p1 by (simp add: rx_store_def mem_simps wr_def b2_def)
  have "take (bufferpos c) b2 = take (bufferpos c) b"
    using t1 b b1(2,3) p1(1) l by (simp add: b2_def)
  then have "takeWhile (\<lambda>x. x \<noteq> 0) b2 = takeWhile (\<lambda>x. x \<noteq> 0) b"
    using c b by (intro text_prefix [of "bufferpos c"]) (auto simp: rx_stuck_def rx_text_def string_of_length)
  then have t: "rx_text ((rx_grow c)\<lparr>rx_buffer := Some b2, bufferpos := bufferpos c + length xs\<rparr>) = rx_text c"
    using b by (simp add: rx_text_def)
  have "rx_ok ((rx_grow c)\<lparr>rx_buffer := Some b2, bufferpos := bufferpos c + length xs\<rparr>)"
    using rx_store_ok [OF r xs] s by simp
  then show ?thesis using s t c p1(2) by (simp add: rx_stuck_def)
qed

text \<open>The messages that a client sends one after the other, and their answers.\<close>

fun handle_messages :: "unicast_world \<Rightarrow> ptr \<Rightarrow> nat \<Rightarrow> u8 list list \<Rightarrow> ((int \<times> http_answer option) list \<times> unicast_world) option" where
  "handle_messages w p n [] = Some ([], w)"
| "handle_messages w p n (xs # xss) = do {
     (r, a, w) \<leftarrow> unicast_handle_message w p n (Received xs) True;
     (as, w) \<leftarrow> handle_messages w p n xss;
     Some ((r, a) # as, w)}"

lemma stuck_message:
  assumes "uclients w p = Some c" "rx_stuck c" "length xs \<le> RECV_BUFFER_MULTIPLE"
  shows "\<exists>c'. unicast_handle_message w p n (Received xs) ok = Some (0, None, put_client w p c') \<and> rx_stuck c' \<and>
    bufferpos c' = bufferpos c + length xs"
  using stuck_step [OF assms(2,3)] assms(1) by (auto simp: unicast_handle_message_def rx_stuck_def)

lemma stuck_messages:
  assumes "uclients w p = Some c" "rx_stuck c" "\<forall>xs \<in> set xss. length xs \<le> RECV_BUFFER_MULTIPLE"
  shows "\<exists>w' c'. handle_messages w p n xss = Some (map (\<lambda>_. (0, None)) xss, w') \<and> uclients w' p = Some c' \<and>
    bufferpos c' = bufferpos c + length (concat xss)"
  using assms
proof (induction xss arbitrary: w c)
  case (Cons xs xss)
  obtain c1 where c1: "unicast_handle_message w p n (Received xs) True = Some (0, None, put_client w p c1)" "rx_stuck c1"
    "bufferpos c1 = bufferpos c + length xs"
    using stuck_message [OF Cons.prems(1,2), of xs n True] Cons.prems(3) by auto
  have u: "uclients (put_client w p c1) p = Some c1" by (simp add: put_client_def)
  show ?case using Cons.IH [OF u c1(2)] Cons.prems(3) c1(1,3) by fastforce
qed simp

text \<open>The answer to another method leaves the first word of the request, without the end of a request.\<close>

lemma strtok_cut_word:
  assumes "m \<noteq> []" "\<forall>x \<in> set m. x \<noteq> 0 \<and> x \<noteq> 32"
  shows "takeWhile (\<lambda>x. x \<noteq> 0) (strtok_cut (m @ 32 # u)) = m"
proof -
  define s where "s = takeWhile (\<lambda>x. x \<noteq> 0) (m @ 32 # u)"
  have s: "s = m @ 32 # takeWhile (\<lambda>x. x \<noteq> 0) u" using assms(2) by (simp add: s_def)
  have a: "takeWhile (\<lambda>x. x = 32) s = []" using assms by (cases m) (auto simp: s)
  have "takeWhile (\<lambda>x. x \<noteq> 32) s = m" using assms(2) by (simp add: s)
  then have "strtok_cut (m @ 32 # u) = (m @ 32 # u)[length m := 0]"
    using a by (simp add: strtok_cut_def Let_def flip: s_def) (simp add: s)
  then show ?thesis using assms(2) by simp
qed

lemma strstr_set: "strstr s pat \<noteq> None \<Longrightarrow> set pat \<subseteq> set s"
  proof (induction s)
  case (Cons c cs)
  then show ?case using set_mono_prefix [of pat "c # cs"] by (fastforce split: if_splits)
qed (simp split: if_splits)

lemma first_word_incomplete:
  assumes "10 \<notin> set (m :: u8 list)"
  shows "\<not> request_complete (string_of m)"
proof
  assume "request_complete (string_of m)"
  then have "CHR 0x0A \<in> set (string_of m)" using strstr_set by (fastforce simp: request_complete_def)
  then obtain x :: u8 where x: "x \<in> set m" "char_of (unat x) = CHR 0x0A" by (auto simp: string_of_def)
  then have "unat x mod 256 = of_char (CHR 0x0A :: char)" by (metis of_char_of)
  moreover have "unat x < 256" using unsigned_less [of x] by simp
  ultimately have "unat x = unat (10 :: u8)" by simp
  then have "x = 10" by (rule unsigned_word_eqI)
  then show False using x(1) assms by simp
qed

text \<open>The first message of a client whose buffer is free.\<close>

lemma first_message:
  assumes c: "rx_buffer c = None" "bufferpos c = 0" "buffersize c = 0" and xs: "length xs \<le> RECV_BUFFER_MULTIPLE" "0 \<notin> set xs"
  shows "rx_store xs (rx_grow c) = Some (c\<lparr>rx_buffer := Some (xs @ replicate (101 - length xs) 0), buffersize := 100, bufferpos := length xs\<rparr>) \<and>
    rx_text (c\<lparr>rx_buffer := Some (xs @ replicate (101 - length xs) 0), buffersize := 100, bufferpos := length xs\<rparr>) = string_of xs"
proof
  have l: "length xs \<le> 100" using xs(1) by (simp add: RECV_BUFFER_MULTIPLE_def)
  have z: "replicate 100 0 @ [0 :: u8] = replicate 101 0" by (simp add: replicate_append_same flip: replicate_Suc)
  have "(xs @ replicate (101 - length xs) 0)[100 := 0 :: u8] = xs @ replicate (101 - length xs) 0"
    using l by (simp add: list_update_append list_update_same_conv)
  then show "rx_store xs (rx_grow c) = Some (c\<lparr>rx_buffer := Some (xs @ replicate (101 - length xs) 0), buffersize := 100, bufferpos := length xs\<rparr>)"
    using c l by (simp add: rx_store_def rx_grow_def RECV_BUFFER_MULTIPLE_def z mem_write_def wr_def)
  have "takeWhile (\<lambda>x. x \<noteq> 0) (xs @ replicate (101 - length xs) 0) = xs"
    using xs(2) l by (subst takeWhile_append2) (auto simp: Suc_diff_le)
  then show "rx_text (c\<lparr>rx_buffer := Some (xs @ replicate (101 - length xs) 0), buffersize := 100, bufferpos := length xs\<rparr>) = string_of xs"
    by (simp add: rx_text_def)
qed

text \<open>
  C14. A client that gets a stream and sends a request with another method than GET is not heard any more: it gets the
  answer that the method is not implemented, and whatever it sends after that is kept in its buffer, which grows as long
  as the connection lasts, and is never answered, because the search for the method has put a zero behind the first word.
\<close>

theorem http_method_mutes:
  assumes c: "uclients w p = Some c" "chan_ptr c \<noteq> None" "rx_buffer c = None" "bufferpos c = 0" "buffersize c = 0"
    and xs: "xs = m @ 32 # u" "m \<noteq> []" "0 \<notin> set xs" "32 \<notin> set m" "10 \<notin> set m" "\<not> prefix ''GET '' (string_of xs)"
      "request_complete (string_of xs)" "length xs \<le> RECV_BUFFER_MULTIPLE"
    and later: "\<forall>ys \<in> set xss. length ys \<le> RECV_BUFFER_MULTIPLE"
  shows "\<exists>w' c'. handle_messages w p n (xs # xss) = Some ((0, Some Reply_501) # map (\<lambda>_. (0, None)) xss, w') \<and>
    uclients w' p = Some c' \<and> bufferpos c' = length (concat (xs # xss))"
proof -
  define b where "b = xs @ replicate (101 - length xs) (0 :: u8)"
  define d where "d = c\<lparr>rx_buffer := Some b, buffersize := 100, bufferpos := length xs\<rparr>"
  define e where "e = d\<lparr>rx_buffer := Some (strtok_cut b)\<rparr>"
  have d: "rx_store xs (rx_grow c) = Some d" "rx_text d = string_of xs"
    using first_message [OF c(3-5) xs(8,3)] by (simp_all add: d_def b_def)
  have run: "unicast_handle_message w p n (Received xs) True = Some (0, Some Reply_501, put_client w p e)"
    using c(1,2) d xs(6,7) by (auto simp: unicast_handle_message_def Let_def e_def) (auto simp: d_def)
  have "takeWhile (\<lambda>x. x \<noteq> 0) (strtok_cut (m @ 32 # (u @ replicate (101 - length xs) 0))) = m"
    using xs(1-4) by (intro strtok_cut_word) auto
  then have t: "rx_text e = string_of m" by (simp add: e_def rx_text_def b_def xs(1))
  have "rx_stuck e"
    unfolding rx_stuck_def t
  proof (intro conjI)
    show "rx_ok e" using xs(8) by (simp add: rx_ok_def e_def d_def b_def strtok_cut_length RECV_BUFFER_MULTIPLE_def)
    show "chan_ptr e \<noteq> None" using c(2) by (simp add: e_def d_def)
    show "length (string_of m) < bufferpos e" by (simp add: e_def d_def string_of_length xs(1))
    show "\<not> request_complete (string_of m)" by (rule first_word_incomplete [OF xs(5)])
  qed
  from stuck_messages [OF _ this later, of "put_client w p e" p n]
  obtain w' c' where "handle_messages (put_client w p e) p n xss = Some (map (\<lambda>_. (0, None)) xss, w')" "uclients w' p = Some c'"
    "bufferpos c' = bufferpos e + length (concat xss)" by (auto simp: put_client_def)
  then show ?thesis using run by (auto simp: e_def d_def)
qed


subsection \<open>Witnesses\<close>

definition request :: "string \<Rightarrow> u8 list" where
  "request s = map of_char s @ [13, 10, 13, 10]"

text \<open>A client without a channel.\<close>

definition world_idle :: unicast_world where
  "world_idle = world0\<lparr>uclients := [5 \<mapsto> new_client 7 NULL], first_client := 5, client_number := 1\<rparr>"

lemma world_idle_inv: "clients_inv world_idle [5] (\<lambda>_. []) (\<lambda>_. [])"
  by (auto simp: clients_inv_def global_inv_def chan_inv_def queues_inv_def world_idle_def world0_def zero_channel_def
      chan_of_def all_links_def chan_links_def new_client_def NULL_def)

lemma idle_negative: "received_negative (Received (request ''GET /bynumber/-1 HTTP/1.0'')) (new_client 7 NULL)"
  by code_simp


theorem http_method_mutes_witness:
  "\<exists>w' c'. handle_messages world1 5 1 [request ''POST / HTTP/1.0'', request ''GET / HTTP/1.0''] = Some ([(0, Some Reply_501), (0, None)], w') \<and>
    uclients w' 5 = Some c' \<and> bufferpos c' = 37"
proof -
  define c where "c = (new_client 7 NULL)\<lparr>chan_ptr := Some 0\<rparr>"
  have c: "uclients world1 5 = Some c" "chan_ptr c \<noteq> None" "rx_buffer c = None" "bufferpos c = 0" "buffersize c = 0"
    by (simp_all add: world1_def c_def new_client_def)
  have r: "request ''POST / HTTP/1.0'' = [80, 79, 83, 84] @ 32 # [47, 32, 72, 84, 84, 80, 47, 49, 46, 48, 13, 10, 13, 10]"
    by code_simp
  have "\<not> prefix ''GET '' (string_of (request ''POST / HTTP/1.0''))" "request_complete (string_of (request ''POST / HTTP/1.0''))"
    "0 \<notin> set (request ''POST / HTTP/1.0'')"
    by code_simp+
  moreover have "length (request ''POST / HTTP/1.0'') = 19" "length (request ''GET / HTTP/1.0'') = 18" by (simp_all add: request_def)
  ultimately show ?thesis
    using http_method_mutes [OF c r, of "[request ''GET / HTTP/1.0'']" 1]
    by (simp add: RECV_BUFFER_MULTIPLE_def del: handle_messages.simps)
qed

end
