(* ===== verification/Http_Events.thy ===== *)
theory Http_Events
  imports Http
begin

text \<open>
  The events on the sockets of the HTTP server, \<^verbatim>\<open>src/src/unicast_http.c\<close>: listening sockets, accepting a connection, and
  the loop over the descriptors that \<^verbatim>\<open>poll\<close> has marked.

  The state is that of \<open>Unicast_Clients\<close> with, for each descriptor, its type and channel and the events of the last
  \<^verbatim>\<open>poll\<close>. What the calls on the sockets and \<^verbatim>\<open>calloc\<close> return are parameters, one result for each round of the loop;
  \<^verbatim>\<open>accept\<close> returns a descriptor, and \<^verbatim>\<open>calloc\<close> an address, that is not in use.

  The lemmas show that the table stays in step with the list of the clients, and that the loop ends.
\<close>

section \<open>The table of the descriptors\<close>

datatype fd_type = UNICAST_MASTER | UNICAST_LISTEN_CHANNEL | UNICAST_CLIENT

type_synonym u16 = "16 word"

definition POLLIN :: u16 where "POLLIN = 1"
definition POLLPRI :: u16 where "POLLPRI = 2"
definition POLLERR :: u16 where "POLLERR = 8"
definition POLLHUP :: u16 where "POLLHUP = 16"

record http_state =
  hw :: unicast_world
  kinds :: "(fd_type \<times> int) list"
  revents :: "u16 list"

definition fd_count :: "http_state \<Rightarrow> nat" where
  "fd_count s = length (pfds (hw s))"

definition push_fd :: "http_state \<Rightarrow> int \<Rightarrow> fd_type \<Rightarrow> int \<Rightarrow> ptr \<Rightarrow> http_state" where
  "push_fd s sock ty ch p = s\<lparr>hw := (hw s)\<lparr>pfds := pfds (hw s) @ [sock], fd_info := fd_info (hw s) @ [p]\<rparr>,
     kinds := kinds s @ [(ty, ch)], revents := revents s @ [0]\<rparr>"

text \<open>\<open>sock\<close> is what \<^verbatim>\<open>makeTCPclientsocket\<close> returns.\<close>

definition unicast_create_listening_socket :: "fd_type \<Rightarrow> int \<Rightarrow> int \<Rightarrow> http_state \<Rightarrow> int \<times> http_state" where
  "unicast_create_listening_socket ty ch sock s = (if 0 < sock then (0, push_fd s sock ty ch NULL) else (-1, s))"

text \<open>The entry behind the last one has no events. An index before the first one is outside the array.\<close>

definition event_at :: "http_state \<Rightarrow> int \<Rightarrow> u16 option" where
  "event_at s k = (if k < 0 then None else if nat k = fd_count s then Some 0 else rd (revents s) (nat k))"

definition swap_remove :: "nat \<Rightarrow> 'a list \<Rightarrow> 'a list option" where
  "swap_remove k xs = do {
     l \<leftarrow> rd xs (length xs - 1);
     Some (take (length xs - 1) (xs[k := l]))}"

text \<open>Closing a connection also moves the type, the channel and the events of the last descriptor.\<close>

definition close_fd :: "http_state \<Rightarrow> int \<Rightarrow> http_state option" where
  "close_fd s sock =
     (let k = find_fd (pfds (hw s)) sock
      in if k = fd_count s then Some s
         else do {
           w \<leftarrow> unicast_close_connection (hw s) sock;
           ks \<leftarrow> swap_remove k (kinds s);
           rs \<leftarrow> swap_remove k (revents s);
           Some (s\<lparr>hw := w, kinds := ks, revents := rs\<rparr>)})"

section \<open>Accepting\<close>

record accept_env =
  accepted :: int
  sockname_ok :: bool
  nonblocking_ok :: bool
  allocated :: ptr

text \<open>The client, \<open>NULL\<close> when there is none, and whether the answer 503 was sent.\<close>

definition unicast_accept_connection :: "int \<Rightarrow> accept_env \<Rightarrow> unicast_world \<Rightarrow> (ptr \<times> bool \<times> unicast_world) option" where
  "unicast_accept_connection max_cl e w =
     (if accepted e < 0 \<or> \<not> sockname_ok e \<or> \<not> nonblocking_ok e then Some (NULL, False, w)
      else if 0 < max_cl \<and> max_cl \<le> client_number w then Some (NULL, True, w)
      else do {
        (p, w) \<leftarrow> unicast_add_client w (accepted e) (allocated e);
        Some (p, False, w)})"

definition accept_fd :: "int \<Rightarrow> accept_env \<Rightarrow> nat \<Rightarrow> http_state \<Rightarrow> http_state option" where
  "accept_fd max_cl e k s = do {
     (p, busy, w) \<leftarrow> unicast_accept_connection max_cl e (hw s);
     if p = NULL then Some (s\<lparr>hw := w\<rparr>)
     else do {
       c \<leftarrow> uclients w p;
       let s' = push_fd (s\<lparr>hw := w\<rparr>) (Socket c) UNICAST_CLIENT (-1) p;
       (ty, ch) \<leftarrow> rd (kinds s') k;
       if ty = UNICAST_LISTEN_CHANNEL then do {
         w \<leftarrow> upd_client (hw s') p (\<lambda>c. c\<lparr>askedChannel := ch\<rparr>);
         Some (s'\<lparr>hw := w\<rparr>)}
       else Some s'}}"

section \<open>The loop\<close>

record poll_env =
  rcv :: "nat \<Rightarrow> received"
  header_written :: "nat \<Rightarrow> bool"
  acc :: "http_state \<Rightarrow> nat \<Rightarrow> accept_env"

text \<open>After a connection is closed, the index goes back when the descriptor that took its place has events.\<close>

definition close_at :: "http_state \<Rightarrow> nat \<Rightarrow> (http_state \<times> int) option" where
  "close_at s k = do {
     sock \<leftarrow> rd (pfds (hw s)) k;
     s \<leftarrow> close_fd s sock;
     r \<leftarrow> event_at s (int k);
     Some (s, if r \<noteq> 0 then int k - 1 else int k)}"

text \<open>A client that has hung up.\<close>

definition hangup_step :: "http_state \<Rightarrow> nat \<Rightarrow> (http_state \<times> int) option" where
  "hangup_step s k = do {
     r \<leftarrow> event_at s (int k);
     (ty, ch) \<leftarrow> rd (kinds s) k;
     if (r AND POLLHUP \<noteq> 0 \<or> r AND POLLERR \<noteq> 0) \<and> ty = UNICAST_CLIENT then close_at s k
     else Some (s, int k)}"

text \<open>Something to read, for the descriptor that the index is at now.\<close>

definition input_step :: "nat \<Rightarrow> int \<Rightarrow> poll_env \<Rightarrow> nat \<Rightarrow> http_state \<Rightarrow> int \<Rightarrow> (http_state \<times> int) option" where
  "input_step n max_cl e t s k = do {
     r \<leftarrow> event_at s k;
     if r AND POLLIN \<noteq> 0 \<or> r AND POLLPRI \<noteq> 0 then do {
       (ty, ch) \<leftarrow> rd (kinds s) (nat k);
       if ty \<noteq> UNICAST_CLIENT then do {
         s \<leftarrow> accept_fd max_cl (acc e s t) (nat k) s;
         Some (s, k)}
       else do {
         p \<leftarrow> rd (fd_info (hw s)) (nat k);
         (ret, a, w) \<leftarrow> unicast_handle_message (hw s) p n (rcv e t) (header_written e t);
         if ret = -2 then close_at (s\<lparr>hw := w\<rparr>) (nat k) else Some (s\<lparr>hw := w\<rparr>, k)}}
     else Some (s, k)}"

definition fd_step :: "nat \<Rightarrow> int \<Rightarrow> poll_env \<Rightarrow> nat \<Rightarrow> http_state \<Rightarrow> nat \<Rightarrow> (http_state \<times> nat) option" where
  "fd_step n max_cl e t s k = do {
     (s, i) \<leftarrow> hangup_step s k;
     (s, i) \<leftarrow> input_step n max_cl e t s i;
     Some (s, nat (i + 1))}"

text \<open>\<open>t\<close> counts the rounds.\<close>

partial_function (option) fd_loop :: "nat \<Rightarrow> int \<Rightarrow> poll_env \<Rightarrow> nat \<Rightarrow> http_state \<Rightarrow> nat \<Rightarrow> http_state option" where
  "fd_loop n max_cl e t s k =
     (if k < fd_count s then do {
        (s, k) \<leftarrow> fd_step n max_cl e t s k;
        fd_loop n max_cl e (t + 1) s k}
      else Some s)"

definition unicast_handle_fd_event :: "nat \<Rightarrow> int \<Rightarrow> poll_env \<Rightarrow> http_state \<Rightarrow> http_state option" where
  "unicast_handle_fd_event n max_cl e s = fd_loop n max_cl e 0 s 0"

section \<open>What closing leaves of the other clients\<close>

definition rx_part :: "unicast_client_t \<Rightarrow> int \<times> u8 list option \<times> nat \<times> nat \<times> int \<times> nat option" where
  "rx_part c = (Socket c, rx_buffer c, buffersize c, bufferpos c, askedChannel c, chan_ptr c)"

lemma rx_part_links [simp]:
  "rx_part (c\<lparr>next_client := q\<rparr>) = rx_part c" "rx_part (c\<lparr>prev_client := q\<rparr>) = rx_part c"
  "rx_part (c\<lparr>chan_next := q\<rparr>) = rx_part c" "rx_part (c\<lparr>chan_prev := q\<rparr>) = rx_part c"
  by (simp_all add: rx_part_def)

lemma client_ok_rx: "rx_part c = rx_part d \<Longrightarrow> client_ok n c = client_ok n d"
  by (auto simp: rx_part_def client_ok_def rx_ok_def split: option.splits)

lemma keeps_refl: "uclients w' = uclients w \<Longrightarrow> keeps g w w'"
  by (simp add: keeps_def)

lemma keeps_trans: "keeps g w w1 \<Longrightarrow> keeps g w1 w2 \<Longrightarrow> keeps g w w2"
  by (simp add: keeps_def)

lemma upd_client_rx: "upd_client w p f = Some w' \<Longrightarrow> (\<And>c. rx_part (f c) = rx_part c) \<Longrightarrow> keeps rx_part w w'"
  by (auto simp: upd_client_def keeps_def bind_eq_Some_conv)

lemma upd_chan_rx: "upd_chan w i f = Some w' \<Longrightarrow> keeps rx_part w w'"
  by (auto simp: upd_chan_def bind_eq_Some_conv intro: keeps_refl)

lemma unlink_client_rx: "unlink_client w p = Some w' \<Longrightarrow> keeps rx_part w w'"
  by (auto simp: unlink_client_def bind_eq_Some_conv split: if_splits
      intro: keeps_refl dest!: upd_client_rx)
    (auto simp: keeps_def)

lemma unlink_from_channel_rx: "unlink_from_channel w p = Some w' \<Longrightarrow> keeps rx_part w w'"
  by (auto simp: unlink_from_channel_def bind_eq_Some_conv split: if_splits option.splits
      intro: keeps_refl dest!: upd_client_rx upd_chan_rx)
    (auto simp: keeps_def)

lemma del_client_rx:
  assumes "unicast_del_client w p = Some w'" "a \<noteq> p"
  shows "map_option rx_part (uclients w' a) = map_option rx_part (uclients w a)"
  using assms by (auto simp: unicast_del_client_def bind_eq_Some_conv keeps_def dest!: unlink_client_rx unlink_from_channel_rx)

lemma upd_table: "upd_client w p f = Some w' \<Longrightarrow> pfds w' = pfds w \<and> fd_info w' = fd_info w"
    "upd_chan w i g = Some w' \<Longrightarrow> pfds w' = pfds w \<and> fd_info w' = fd_info w"
  by (auto simp: upd_client_def upd_chan_def bind_eq_Some_conv)

lemma unlink_table: "unlink_client w p = Some w' \<Longrightarrow> pfds w' = pfds w \<and> fd_info w' = fd_info w"
  by (auto simp: unlink_client_def bind_eq_Some_conv split: if_splits dest!: upd_table)

lemma unlink_from_channel_table: "unlink_from_channel w p = Some w' \<Longrightarrow> pfds w' = pfds w \<and> fd_info w' = fd_info w"
  by (auto simp: unlink_from_channel_def bind_eq_Some_conv split: if_splits option.splits dest!: upd_table)

lemma del_client_table: "unicast_del_client w p = Some w' \<Longrightarrow> pfds w' = pfds w \<and> fd_info w' = fd_info w"
  by (auto simp: unicast_del_client_def bind_eq_Some_conv dest!: unlink_table unlink_from_channel_table)

definition swapped :: "nat \<Rightarrow> 'a list \<Rightarrow> 'a list" where
  "swapped k xs = take (length xs - 1) (xs[k := xs ! (length xs - 1)])"

lemma swap_remove_run: "k < length xs \<Longrightarrow> swap_remove k xs = Some (swapped k xs)"
  by (auto simp: swap_remove_def rd_def swapped_def)

lemma swapped_length [simp]: "length (swapped k xs) = length xs - 1"
  by (simp add: swapped_def)

lemma swapped_nth: "j < length xs - 1 \<Longrightarrow> k < length xs \<Longrightarrow> swapped k xs ! j = (if j = k then xs ! (length xs - 1) else xs ! j)"
  by (simp add: swapped_def nth_list_update)

lemma swapped_mset: "k < length xs \<Longrightarrow> mset (swapped k xs) = mset xs - {#xs ! k#}"
  unfolding swapped_def by (rule mset_swap_remove)

text \<open>The place that an element of the list, other than the removed one, has afterwards.\<close>

definition new_index :: "nat \<Rightarrow> nat \<Rightarrow> nat \<Rightarrow> nat" where
  "new_index m k i = (if i = m - 1 then k else i)"

lemma new_index:
  "i < m \<Longrightarrow> i \<noteq> k \<Longrightarrow> k < m \<Longrightarrow> new_index m k i < m - 1"
  "i < length xs \<Longrightarrow> i \<noteq> k \<Longrightarrow> k < length xs \<Longrightarrow> swapped k xs ! new_index (length xs) k i = xs ! i"
  by (auto simp: new_index_def swapped_nth)

text \<open>And where an element of the list afterwards has been before.\<close>

definition old_index :: "nat \<Rightarrow> nat \<Rightarrow> nat \<Rightarrow> nat" where
  "old_index m k j = (if j = k then m - 1 else j)"

lemma old_index:
  "j < m - 1 \<Longrightarrow> old_index m k j < m \<and> (k < m \<longrightarrow> old_index m k j \<noteq> k)"
  "j < length xs - 1 \<Longrightarrow> k < length xs \<Longrightarrow> swapped k xs ! j = xs ! old_index (length xs) k j"
  by (auto simp: old_index_def swapped_nth)

lemma close_connection_lists:
  assumes "unicast_close_connection w sock = Some w'" "find_fd (pfds w) sock = k" "k < length (pfds w)"
    "length (fd_info w) = length (pfds w)"
  shows "pfds w' = swapped k (pfds w)" "fd_info w' = swapped k (fd_info w)"
    "a \<noteq> fd_info w ! k \<Longrightarrow> map_option rx_part (uclients w' a) = map_option rx_part (uclients w a)"
proof -
  obtain w1 where w1: "unicast_del_client w (fd_info w ! k) = Some w1"
    "w' = w1\<lparr>pfds := take (length (pfds w) - 1) ((pfds w1)[k := pfds w1 ! (length (pfds w) - 1)]),
      fd_info := take (length (pfds w) - 1) ((fd_info w1)[k := fd_info w1 ! (length (pfds w) - 1)])\<rparr>"
    "length (pfds w) - 1 < length (pfds w1)" "length (pfds w) - 1 < length (fd_info w1)"
    using assms by (auto simp: unicast_close_connection_def Let_def rd_def bind_eq_Some_conv split: if_splits)
  have "pfds w1 = pfds w \<and> fd_info w1 = fd_info w"
    by (rule del_client_table [OF w1(1)])
  then show "pfds w' = swapped k (pfds w)" "fd_info w' = swapped k (fd_info w)"
    using w1(2) assms(4) by (simp_all add: swapped_def)
  show "map_option rx_part (uclients w' a) = map_option rx_part (uclients w a)" if "a \<noteq> fd_info w ! k"
    using del_client_rx [OF w1(1) that] w1(2) by simp
qed

section \<open>The invariant\<close>

text \<open>
  A row of the table: a client is live and has the descriptor as its socket, a socket of a channel belongs to one of the
  \<open>n\<close> channels.
\<close>

definition row_ok :: "nat \<Rightarrow> (ptr \<Rightarrow> unicast_client_t option) \<Rightarrow> fd_type \<times> int \<Rightarrow> int \<Rightarrow> ptr \<Rightarrow> bool" where
  "row_ok n cl kd sock p \<longleftrightarrow> (fst kd = UNICAST_CLIENT \<longrightarrow> map_option Socket (cl p) = Some sock) \<and>
     (fst kd = UNICAST_LISTEN_CHANNEL \<longrightarrow> 0 \<le> snd kd \<and> snd kd < int n)"

text \<open>The first descriptor listens, no descriptor is in the table twice, and every client has its row.\<close>

definition table_ok :: "nat \<Rightarrow> http_state \<Rightarrow> bool" where
  "table_ok n s \<longleftrightarrow> length (fd_info (hw s)) = fd_count s \<and> length (kinds s) = fd_count s \<and> length (revents s) = fd_count s \<and>
     distinct (pfds (hw s)) \<and>
     (\<forall>k < fd_count s. row_ok n (uclients (hw s)) (kinds s ! k) (pfds (hw s) ! k) (fd_info (hw s) ! k)) \<and>
     (\<forall>p. uclients (hw s) p \<noteq> None \<longrightarrow> (\<exists>k < fd_count s. fst (kinds s ! k) = UNICAST_CLIENT \<and> fd_info (hw s) ! k = p)) \<and>
     (0 < fd_count s \<longrightarrow> fst (kinds s ! 0) \<noteq> UNICAST_CLIENT)"

definition http_inv :: "nat \<Rightarrow> http_state \<Rightarrow> bool" where
  "http_inv n s \<longleftrightarrow> (\<exists>gs cs qs. clients_inv (hw s) gs cs qs) \<and> (\<forall>p c. uclients (hw s) p = Some c \<longrightarrow> client_ok n c) \<and>
     n \<le> length (chans (hw s)) \<and> table_ok n s"

lemma row_client:
  assumes "table_ok n s" "k < fd_count s" "fst (kinds s ! k) = UNICAST_CLIENT"
  shows "\<exists>c. uclients (hw s) (fd_info (hw s) ! k) = Some c \<and> Socket c = pfds (hw s) ! k"
  using assms unfolding table_ok_def row_ok_def by auto

lemma find_fd_distinct: "distinct xs \<Longrightarrow> k < length xs \<Longrightarrow> find_fd xs (xs ! k) = k"
proof (induction xs arbitrary: k)
  case (Cons x xs)
  then show ?case by (cases k) auto
qed simp

lemma rows_distinct:
  assumes "table_ok n s" "k < fd_count s" "j < fd_count s" "k \<noteq> j"
    "fst (kinds s ! k) = UNICAST_CLIENT" "fst (kinds s ! j) = UNICAST_CLIENT"
  shows "fd_info (hw s) ! k \<noteq> fd_info (hw s) ! j"
proof
  assume "fd_info (hw s) ! k = fd_info (hw s) ! j"
  then have "pfds (hw s) ! k = pfds (hw s) ! j"
    using row_client [OF assms(1,2,5)] row_client [OF assms(1,3,6)] by auto
  then show False using assms(1-4) by (simp add: table_ok_def fd_count_def nth_eq_iff_index_eq)
qed

text \<open>Closing the connection of a client.\<close>

lemma distinct_swapped: "distinct xs \<Longrightarrow> k < length xs \<Longrightarrow> distinct (swapped k xs)"
  using swapped_mset [of k xs] by (metis (no_types, lifting) mset_remove1 distinct_remove1 mset_eq_imp_distinct_iff)

lemma close_fd_ok:
  assumes inv: "http_inv n s" and k: "k < fd_count s" "fst (kinds s ! k) = UNICAST_CLIENT"
  shows "\<exists>s'. close_fd s (pfds (hw s) ! k) = Some s' \<and> http_inv n s' \<and> fd_count s' = fd_count s - 1 \<and>
    kinds s' = swapped k (kinds s) \<and> revents s' = swapped k (revents s) \<and> client_number (hw s') \<le> client_number (hw s)"
proof -
  obtain gs cs qs where ci: "clients_inv (hw s) gs cs qs" using inv unfolding http_inv_def by blast
  have t: "table_ok n s" and ok: "\<forall>p c. uclients (hw s) p = Some c \<longrightarrow> client_ok n c"
    and n: "n \<le> length (chans (hw s))" using inv by (simp_all add: http_inv_def)
  define m where "m = fd_count s"
  define p where "p = fd_info (hw s) ! k"
  have len: "length (pfds (hw s)) = m" "length (fd_info (hw s)) = m" "length (kinds s) = m" "length (revents s) = m"
    using t by (simp_all add: table_ok_def m_def) (simp add: fd_count_def)
  have km: "k < m" using k(1) by (simp add: m_def)
  have dist: "distinct (pfds (hw s))" using t by (simp add: table_ok_def)
  have f: "find_fd (pfds (hw s)) (pfds (hw s) ! k) = k" using find_fd_distinct [OF dist] km len by simp
  have pg: "p \<in> set gs" using row_client [OF t k] ci by (auto simp: p_def clients_inv_def global_inv_def)
  have sk: "pfds (hw s) ! k \<in> set (pfds (hw s))" using km len by simp
  obtain w where w: "unicast_close_connection (hw s) (pfds (hw s) ! k) = Some w"
    "clients_inv w (remove1 p gs) (\<lambda>i. remove1 p (cs i)) qs" "uclients w p = None" "length (chans w) = length (chans (hw s))"
  proof -
    have "length (fd_info (hw s)) = length (pfds (hw s))" "p = fd_info (hw s) ! find_fd (pfds (hw s)) (pfds (hw s) ! k) \<and> p \<in> set gs"
      using len f pg by (simp_all add: p_def)
    from close_connection_spec [OF ci this] show thesis using sk that by auto
  qed
  note l = close_connection_lists [OF w(1) f, unfolded len, OF km refl]
  define s' where "s' = s\<lparr>hw := w, kinds := swapped k (kinds s), revents := swapped k (revents s)\<rparr>"
  have run: "close_fd s (pfds (hw s) ! k) = Some s'"
    using f km len w(1) by (simp add: close_fd_def Let_def swap_remove_run s'_def flip: m_def)
  have m': "fd_count s' = m - 1" using l(1) len by (simp add: fd_count_def s'_def)
  have same: "a \<noteq> p \<Longrightarrow> map_option rx_part (uclients w a) = map_option rx_part (uclients (hw s) a)" for a
    using l(3) by (simp add: p_def)
  have ok': "client_ok n c" if u: "uclients w a = Some c" for a c
  proof -
    have "a \<noteq> p" using u w(3) by auto
    then obtain d where "uclients (hw s) a = Some d" "rx_part c = rx_part d" using same [of a] u by (cases "uclients (hw s) a") auto
    then show ?thesis using ok client_ok_rx by blast
  qed
  have row: "row_ok n (uclients w) (swapped k (kinds s) ! j) (swapped k (pfds (hw s)) ! j) (swapped k (fd_info (hw s)) ! j)"
    if j: "j < m - 1" for j
  proof -
    define i where "i = old_index m k j"
    have i: "i < m" "i \<noteq> k" "swapped k (kinds s) ! j = kinds s ! i" "swapped k (pfds (hw s)) ! j = pfds (hw s) ! i"
      "swapped k (fd_info (hw s)) ! j = fd_info (hw s) ! i"
      using old_index(1) [OF j, of k] old_index(2) [of j "kinds s" k] old_index(2) [of j "pfds (hw s)" k]
        old_index(2) [of j "fd_info (hw s)" k] j km len by (simp_all add: i_def)
    have r: "row_ok n (uclients (hw s)) (kinds s ! i) (pfds (hw s) ! i) (fd_info (hw s) ! i)"
      using t i(1) by (simp add: table_ok_def m_def)
    have "map_option Socket (uclients w (fd_info (hw s) ! i)) = map_option Socket (uclients (hw s) (fd_info (hw s) ! i))"
      if c: "fst (kinds s ! i) = UNICAST_CLIENT"
    proof -
      have "fd_info (hw s) ! i \<noteq> p" using rows_distinct [OF t _ k(1) i(2) c k(2)] i(1) by (simp add: p_def m_def)
      then have "map_option fst (map_option rx_part (uclients w (fd_info (hw s) ! i))) =
          map_option fst (map_option rx_part (uclients (hw s) (fd_info (hw s) ! i)))" using same by simp
      then show ?thesis by (simp add: option.map_comp comp_def rx_part_def)
    qed
    then show ?thesis using r i(3-5) by (simp add: row_ok_def)
  qed
  have all: "\<exists>j < m - 1. fst (swapped k (kinds s) ! j) = UNICAST_CLIENT \<and> swapped k (fd_info (hw s)) ! j = a"
    if a: "uclients w a \<noteq> None" for a
  proof -
    have ap: "a \<noteq> p" using a w(3) by auto
    then have "uclients (hw s) a \<noteq> None" using same [OF ap] a by (metis map_option_is_None)
    then obtain i where i: "i < m" "fst (kinds s ! i) = UNICAST_CLIENT" "fd_info (hw s) ! i = a"
      using t by (auto simp: table_ok_def m_def)
    have "i \<noteq> k" using i(3) ap by (auto simp: p_def)
    then show ?thesis
      using i km len new_index(1) [of i m k] new_index(2) [of i "kinds s" k] new_index(2) [of i "fd_info (hw s)" k]
      by (intro exI [of _ "new_index m k i"]) simp
  qed
  have k0: "k \<noteq> 0"
  proof
    assume "k = 0"
    then show False using t k by (simp add: table_ok_def)
  qed
  have "table_ok n s'"
    unfolding table_ok_def m'
  proof (intro conjI)
    show "distinct (pfds (hw s'))" using l(1) distinct_swapped [OF dist] km len by (simp add: s'_def)
    show "\<forall>j < m - 1. row_ok n (uclients (hw s')) (kinds s' ! j) (pfds (hw s') ! j) (fd_info (hw s') ! j)"
      using row l(1,2) by (simp add: s'_def)
    show "\<forall>a. uclients (hw s') a \<noteq> None \<longrightarrow> (\<exists>j < m - 1. fst (kinds s' ! j) = UNICAST_CLIENT \<and> fd_info (hw s') ! j = a)"
      using all l(2) by (simp add: s'_def)
    show "0 < m - 1 \<longrightarrow> fst (kinds s' ! 0) \<noteq> UNICAST_CLIENT"
      using t k0 km len by (simp add: s'_def swapped_nth table_ok_def m_def)
  qed (use len l(1,2) in \<open>simp_all add: s'_def\<close>)
  then have "http_inv n s'"
    unfolding http_inv_def using w(2) ok' n w(4) by (auto simp: s'_def)
  moreover have "client_number w \<le> client_number (hw s)"
    using ci w(2) by (simp add: clients_inv_def global_inv_def length_remove1)
  ultimately show ?thesis using run m' by (simp add: s'_def m_def)
qed

text \<open>Any step that leaves the table, the sockets and the number of channels.\<close>

lemma http_inv_frame:
  assumes "http_inv n s" "clients_inv w gs cs qs" "\<forall>p c. uclients w p = Some c \<longrightarrow> client_ok n c"
    "pfds w = pfds (hw s)" "fd_info w = fd_info (hw s)" "length (chans w) = length (chans (hw s))"
    "\<And>p. map_option Socket (uclients w p) = map_option Socket (uclients (hw s) p)"
  shows "http_inv n (s\<lparr>hw := w\<rparr>) \<and> fd_count (s\<lparr>hw := w\<rparr>) = fd_count s"
proof -
  have "(uclients w p \<noteq> None) = (uclients (hw s) p \<noteq> None)" for p by (metis assms(7) map_option_is_None)
  then have "table_ok n (s\<lparr>hw := w\<rparr>)"
    using assms(1,4,5,7) unfolding http_inv_def table_ok_def row_ok_def by (simp add: fd_count_def)
  then show ?thesis using assms unfolding http_inv_def by (auto simp: fd_count_def)
qed

lemma message_inv:
  assumes inv: "http_inv n s" and k: "k < fd_count s" "fst (kinds s ! k) = UNICAST_CLIENT" and p: "p = fd_info (hw s) ! k"
    and len: "\<And>xs. r = Received xs \<Longrightarrow> length xs \<le> RECV_BUFFER_MULTIPLE"
  shows "(\<exists>c. uclients (hw s) p = Some c \<and> received_negative r c) \<and> unicast_handle_message (hw s) p n r ok = None \<or>
    (\<exists>ret a w. unicast_handle_message (hw s) p n r ok = Some (ret, a, w) \<and> http_inv n (s\<lparr>hw := w\<rparr>) \<and> pfds w = pfds (hw s) \<and>
      client_number w = client_number (hw s))"
proof -
  obtain gs cs qs where ci: "clients_inv (hw s) gs cs qs" using inv unfolding http_inv_def by blast
  have t: "table_ok n s" using inv by (simp add: http_inv_def)
  obtain c where c: "uclients (hw s) p = Some c" using row_client [OF t k] p by blast
  have hok: "\<forall>q c. uclients (hw s) q = Some c \<longrightarrow> client_ok n c" "n \<le> length (chans (hw s))"
    using inv by (simp_all add: http_inv_def)
  have spec: "if received_negative r c then unicast_handle_message (hw s) p n r ok = None
    else message_result n p cs gs qs (hw s) (unicast_handle_message (hw s) p n r ok)"
    by (rule handle_message_spec [OF ci c hok]) (rule len)
  show ?thesis
  proof (cases "received_negative r c")
    case True
    then show ?thesis using spec c by auto
  next
    case False
    then obtain ret a w cs' where m: "unicast_handle_message (hw s) p n r ok = Some (ret, a, w)" "clients_inv w gs cs' qs"
      "same_frame p (hw s) w" "\<forall>q c. uclients w q = Some c \<longrightarrow> client_ok n c"
      using spec by (auto simp: message_result_def)
    have "map_option Socket (uclients w q) = map_option Socket (uclients (hw s) q)" for q
    proof (cases "q = p")
      case True
      then show ?thesis using m(3) by (simp add: same_frame_def)
    next
      case False
      then have "map_option fst (map_option (\<lambda>c. (Socket c, rx_buffer c, buffersize c, bufferpos c, askedChannel c, chan_ptr c)) (uclients w q)) =
          map_option fst (map_option (\<lambda>c. (Socket c, rx_buffer c, buffersize c, bufferpos c, askedChannel c, chan_ptr c)) (uclients (hw s) q))"
        using m(3) by (simp add: same_frame_def)
      then show ?thesis by (simp add: option.map_comp comp_def)
    qed
    then have "http_inv n (s\<lparr>hw := w\<rparr>)"
      using http_inv_frame [OF inv m(2,4)] m(3) by (simp add: same_frame_def)
    moreover have "client_number w = client_number (hw s)" using ci m(2) by (simp add: clients_inv_def global_inv_def)
    ultimately show ?thesis using m by (auto simp: same_frame_def)
  qed
qed

text \<open>What \<^verbatim>\<open>accept\<close> and \<^verbatim>\<open>calloc\<close> return is not in use.\<close>

definition accept_ok :: "http_state \<Rightarrow> accept_env \<Rightarrow> bool" where
  "accept_ok s e \<longleftrightarrow> accepted e \<notin> set (pfds (hw s)) \<and> uclients (hw s) (allocated e) = None"

lemma add_client_frame:
  assumes "unicast_add_client w sock p = Some (p, w')" "uclients w p = None"
  shows "pfds w' = pfds w \<and> fd_info w' = fd_info w \<and> chans w' = chans w \<and>
    (\<forall>a. a \<noteq> p \<longrightarrow> map_option rx_part (uclients w' a) = map_option rx_part (uclients w a)) \<and>
    (if p = NULL then uclients w' NULL = None else \<exists>prev. uclients w' p = Some (new_client sock prev))"
proof -
  obtain prev w1 where f: "(if first_client w = NULL then Some (NULL, w\<lparr>first_client := p\<rparr>)
        else do {
          l \<leftarrow> last_in_list (uclients w) next_client (first_client w);
          w \<leftarrow> upd_client w l (\<lambda>c. c\<lparr>next_client := p\<rparr>);
          Some (l, w)}) = Some (prev, w1)"
    and w': "w' = (if p = NULL then w1
      else w1\<lparr>uclients := (uclients w1)(p \<mapsto> new_client sock prev), client_number := client_number w1 + 1\<rparr>)"
    using assms(1) unfolding unicast_add_client_def bind_eq_Some_conv [of _ _ "(p, w')" for p w']
    by (elim exE conjE) (auto split: prod.splits if_splits)
  have "keeps rx_part w w1 \<and> pfds w1 = pfds w \<and> fd_info w1 = fd_info w \<and> chans w1 = chans w"
    using f by (auto simp: keeps_def upd_client_def bind_eq_Some_conv rx_part_def split: if_splits)
  note w1 = this [THEN conjunct1] this w'
  then show ?thesis using assms(2) keeps_None [OF w1(1), of p] by (auto simp: keeps_def)
qed

lemma clients_inv_table: "clients_inv (w\<lparr>pfds := a, fd_info := b\<rparr>) gs cs qs = clients_inv w gs cs qs"
  by (simp add: clients_inv_def global_inv_def chan_inv_def queues_inv_def all_links_def [abs_def] chan_links_def [abs_def] chan_of_def)

text \<open>A row for a new client.\<close>

lemma push_table:
  assumes t: "table_ok n s" and ne: "0 < fd_count s"
    and w: "pfds w = pfds (hw s)" "fd_info w = fd_info (hw s)"
    and c: "uclients w p = Some c" "uclients (hw s) p = None" "Socket c \<notin> set (pfds (hw s))"
    and same: "\<And>a. a \<noteq> p \<Longrightarrow> map_option Socket (uclients w a) = map_option Socket (uclients (hw s) a)"
  shows "table_ok n (push_fd (s\<lparr>hw := w\<rparr>) (Socket c) UNICAST_CLIENT (-1) p)"
proof -
  define m where "m = fd_count s"
  define s' where "s' = push_fd (s\<lparr>hw := w\<rparr>) (Socket c) UNICAST_CLIENT (-1) p"
  have len: "length (pfds (hw s)) = m" "length (fd_info (hw s)) = m" "length (kinds s) = m" "length (revents s) = m"
    using t by (simp_all add: table_ok_def m_def) (simp add: fd_count_def)
  have f: "pfds (hw s') = pfds (hw s) @ [Socket c]" "fd_info (hw s') = fd_info (hw s) @ [p]"
    "kinds s' = kinds s @ [(UNICAST_CLIENT, -1)]" "revents s' = revents s @ [0]" "uclients (hw s') = uclients w"
    using w by (simp_all add: s'_def push_fd_def)
  have m': "fd_count s' = Suc m" using len by (simp add: fd_count_def f)
  have "table_ok n s'"
    unfolding table_ok_def m'
  proof (intro conjI)
    show "distinct (pfds (hw s'))" using t c(3) by (simp add: f table_ok_def)
    show "\<forall>j < Suc m. row_ok n (uclients (hw s')) (kinds s' ! j) (pfds (hw s') ! j) (fd_info (hw s') ! j)"
    proof (intro allI impI)
      fix j assume j: "j < Suc m"
      show "row_ok n (uclients (hw s')) (kinds s' ! j) (pfds (hw s') ! j) (fd_info (hw s') ! j)"
      proof (cases "j < m")
        case True
        have r: "row_ok n (uclients (hw s)) (kinds s ! j) (pfds (hw s) ! j) (fd_info (hw s) ! j)"
          using t True by (simp add: table_ok_def m_def)
        have "fst (kinds s ! j) = UNICAST_CLIENT \<Longrightarrow> fd_info (hw s) ! j \<noteq> p"
          using row_client [OF t, of j] True c(2) by (auto simp: m_def)
        then show ?thesis using r True len same by (simp add: row_ok_def f nth_append)
      next
        case False
        then have "j = m" using j by simp
        then show ?thesis using len c(1) by (simp add: row_ok_def f nth_append)
      qed
    qed
    show "\<forall>a. uclients (hw s') a \<noteq> None \<longrightarrow> (\<exists>j < Suc m. fst (kinds s' ! j) = UNICAST_CLIENT \<and> fd_info (hw s') ! j = a)"
    proof (intro allI impI)
      fix a assume a: "uclients (hw s') a \<noteq> None"
      show "\<exists>j < Suc m. fst (kinds s' ! j) = UNICAST_CLIENT \<and> fd_info (hw s') ! j = a"
      proof (cases "a = p")
        case True
        then show ?thesis using len by (intro exI [of _ m]) (simp add: f nth_append)
      next
        case False
        then have "uclients (hw s) a \<noteq> None" using a same [OF False] by (simp add: f) (metis map_option_is_None not_None_eq)
        then obtain j where "j < m" "fst (kinds s ! j) = UNICAST_CLIENT" "fd_info (hw s) ! j = a"
          using t by (auto simp: table_ok_def m_def)
        then show ?thesis using len by (intro exI [of _ j]) (simp add: f nth_append)
      qed
    qed
    show "0 < Suc m \<longrightarrow> fst (kinds s' ! 0) \<noteq> UNICAST_CLIENT"
      using t ne len by (simp add: f nth_append table_ok_def m_def)
  qed (simp_all add: f len)
  then show ?thesis by (simp add: s'_def)
qed

definition accept_shape :: "http_state \<Rightarrow> http_state \<Rightarrow> bool" where
  "accept_shape s s' \<longleftrightarrow> kinds s' = kinds s \<and> revents s' = revents s \<and> fd_count s' = fd_count s \<or>
     kinds s' = kinds s @ [(UNICAST_CLIENT, -1)] \<and> revents s' = revents s @ [0] \<and> fd_count s' = fd_count s + 1"

lemma rx_Socket:
  assumes "map_option rx_part x = map_option rx_part y"
  shows "map_option Socket x = map_option Socket y"
  using assms by (cases x; cases y) (auto simp: rx_part_def)

lemma accept_fd_ok:
  assumes inv: "http_inv n s" and k: "k < fd_count s" and e: "accept_ok s e"
  shows "\<exists>s'. accept_fd max_cl e k s = Some s' \<and> http_inv n s' \<and> accept_shape s s' \<and>
    (0 < max_cl \<and> client_number (hw s) \<le> max_cl \<longrightarrow> client_number (hw s') \<le> max_cl)"
proof -
  obtain gs cs qs where ci: "clients_inv (hw s) gs cs qs" using inv unfolding http_inv_def by blast
  have t: "table_ok n s" and hok: "\<forall>p c. uclients (hw s) p = Some c \<longrightarrow> client_ok n c"
    and n: "n \<le> length (chans (hw s))" using inv by (simp_all add: http_inv_def)
  define p where "p = allocated e"
  have free: "uclients (hw s) p = None" "accepted e \<notin> set (pfds (hw s))" using e by (simp_all add: accept_ok_def p_def)
  obtain w where w: "unicast_add_client (hw s) (accepted e) p = Some (p, w)"
    "if p = NULL then clients_inv w gs cs qs else clients_inv w (gs @ [p]) cs (qs(p := []))"
    using unicast_add_client_ok [OF ci free(1), of "accepted e"] by (auto split: if_splits)
  have acc: "unicast_accept_connection max_cl e (hw s) =
      (if accepted e < 0 \<or> \<not> sockname_ok e \<or> \<not> nonblocking_ok e then Some (NULL, False, hw s)
       else if 0 < max_cl \<and> max_cl \<le> client_number (hw s) then Some (NULL, True, hw s) else Some (p, False, w))"
    using w(1) unfolding unicast_accept_connection_def p_def by simp
  consider (refused) busy where "unicast_accept_connection max_cl e (hw s) = Some (NULL, busy, hw s)"
    | (added) "unicast_accept_connection max_cl e (hw s) = Some (p, False, w)" "0 < max_cl \<longrightarrow> client_number (hw s) < max_cl"
    using acc by (auto split: if_splits)
  then show ?thesis
  proof cases
    case refused
    then show ?thesis using inv by (auto simp: accept_fd_def accept_shape_def)
  next
    case added
    note fr = add_client_frame [OF w(1) free(1)]
    have num: "client_number w \<le> client_number (hw s) + 1"
      using ci w(2) by (auto simp: clients_inv_def global_inv_def split: if_splits)
    have same: "a \<noteq> p \<Longrightarrow> map_option rx_part (uclients w a) = map_option rx_part (uclients (hw s) a)" for a using fr by blast
    have others: "client_ok n c" if u: "uclients w a = Some c" "a \<noteq> p" for a c
    proof -
      obtain d where "uclients (hw s) a = Some d" "rx_part c = rx_part d"
        using same [OF u(2)] u(1) by (cases "uclients (hw s) a") auto
      then show ?thesis using hok client_ok_rx by blast
    qed
    show ?thesis
    proof (cases "p = NULL")
      case True
      have u0: "uclients w p = None" using fr True by simp
      have "map_option Socket (uclients w a) = map_option Socket (uclients (hw s) a)" for a
        using rx_Socket [OF same, of a] u0 free(1) by (cases "a = p") auto
      moreover have "\<forall>a c. uclients w a = Some c \<longrightarrow> client_ok n c" using others u0 by (metis option.distinct(1))
      ultimately have "http_inv n (s\<lparr>hw := w\<rparr>) \<and> fd_count (s\<lparr>hw := w\<rparr>) = fd_count s"
        using fr w(2) True by (intro http_inv_frame [OF inv, of w gs cs qs]) auto
      then show ?thesis using added True num by (auto simp: accept_fd_def accept_shape_def)
    next
      case False
      then obtain prev where c: "uclients w p = Some (new_client (accepted e) prev)" using fr by auto
      define c0 where "c0 = new_client (accepted e) prev"
      define s1 where "s1 = push_fd (s\<lparr>hw := w\<rparr>) (Socket c0) UNICAST_CLIENT (-1) p"
      have sock: "Socket c0 = accepted e" by (simp add: c0_def new_client_def)
      have shape: "accept_shape s s1" by (simp add: accept_shape_def s1_def push_fd_def fd_count_def fr)
      have t1: "table_ok n s1"
        unfolding s1_def using k fr c free sock same
        by (intro push_table [OF t]) (auto simp: c0_def [symmetric] intro: rx_Socket)
      have i1: "clients_inv (hw s1) (gs @ [p]) cs (qs(p := []))"
        using w(2) False by (simp add: s1_def push_fd_def clients_inv_table)
      have u1: "uclients (hw s1) p = Some c0" using c by (simp add: s1_def push_fd_def c0_def)
      have "client_ok n c0" by (simp add: c0_def client_ok_def rx_ok_def new_client_def)
      then have "client_ok n d" if d: "uclients w a = Some d" for a d using others d c by (cases "a = p") (auto simp: c0_def)
      moreover have "uclients (hw s1) = uclients w" "chans (hw s1) = chans (hw s)" using fr by (simp_all add: s1_def push_fd_def)
      ultimately have inv1: "http_inv n s1" using i1 t1 n unfolding http_inv_def by auto
      have kk: "kinds s1 ! k = kinds s ! k" "rd (kinds s1) k = Some (kinds s ! k)"
        using k t by (simp_all add: s1_def push_fd_def table_ok_def nth_append rd_def)
      obtain ty ch where ty: "kinds s ! k = (ty, ch)" by fastforce
      have run: "accept_fd max_cl e k s = (if ty = UNICAST_LISTEN_CHANNEL
          then Some (s1\<lparr>hw := put_client (hw s1) p (c0\<lparr>askedChannel := ch\<rparr>)\<rparr>) else Some s1)"
        using added(1) False c kk ty u1
        by (simp add: accept_fd_def s1_def [symmetric] c0_def [symmetric] upd_client_Some put_client_def)
      show ?thesis
      proof (cases "ty = UNICAST_LISTEN_CHANNEL")
        case False
        then show ?thesis using run inv1 shape num added(2) by (auto simp: s1_def push_fd_def)
      next
        case True
        define w2 where "w2 = put_client (hw s1) p (c0\<lparr>askedChannel := ch\<rparr>)"
        have ch: "0 \<le> ch" "ch < int n" using t k True ty unfolding table_ok_def row_ok_def by (metis fst_conv snd_conv)+
        have "clients_inv w2 (gs @ [p]) cs (qs(p := []))"
          unfolding w2_def by (rule put_client_inv [OF i1 u1]) simp
        moreover have "client_ok n (c0\<lparr>askedChannel := ch\<rparr>)"
          using ch by (simp add: client_ok_def rx_ok_def c0_def new_client_def)
        then have "\<forall>a c. uclients w2 a = Some c \<longrightarrow> client_ok n c"
          using inv1 by (auto simp: w2_def put_client_def http_inv_def)
        moreover have "map_option Socket (uclients w2 a) = map_option Socket (uclients (hw s1) a)" for a
          using u1 by (simp add: w2_def put_client_def)
        ultimately have "http_inv n (s1\<lparr>hw := w2\<rparr>) \<and> fd_count (s1\<lparr>hw := w2\<rparr>) = fd_count s1"
          by (intro http_inv_frame [OF inv1]) (auto simp: w2_def put_client_def)
        moreover have "client_number w2 = client_number w" by (simp add: w2_def put_client_def s1_def push_fd_def)
        ultimately show ?thesis using run True shape num added(2) by (auto simp: w2_def accept_shape_def)
      qed
    qed
  qed
qed

section \<open>A round of the loop\<close>

text \<open>
  The loop ends because each round either closes a connection that had events, or passes a listening socket, or goes on
  to the next descriptor.
\<close>

definition busy_fds :: "http_state \<Rightarrow> nat" where
  "busy_fds s = length (filter (\<lambda>r. r \<noteq> 0) (revents s))"

definition listeners_from :: "nat \<Rightarrow> http_state \<Rightarrow> nat" where
  "listeners_from k s = length (filter (\<lambda>kd. fst kd \<noteq> UNICAST_CLIENT) (drop k (kinds s)))"

lemma filter_swapped:
  assumes "k < length xs"
  shows "length (filter P (swapped k xs)) = length (filter P xs) - (if P (xs ! k) then 1 else 0)"
    and "P (xs ! k) \<Longrightarrow> 0 < length (filter P xs)"
proof -
  have "length (filter P ys) = size (filter_mset P (mset ys))" for ys by (simp flip: mset_filter)
  then show "length (filter P (swapped k xs)) = length (filter P xs) - (if P (xs ! k) then 1 else 0)"
    using assms by (simp add: swapped_mset size_Diff_singleton)
  show "0 < length (filter P xs)" if "P (xs ! k)" using that assms by (auto simp: filter_empty_conv)
qed

definition fewer_clients :: "int \<Rightarrow> http_state \<Rightarrow> http_state \<Rightarrow> bool" where
  "fewer_clients max_cl s s' \<longleftrightarrow> (0 < max_cl \<and> client_number (hw s) \<le> max_cl \<longrightarrow> client_number (hw s') \<le> max_cl)"

lemma close_at_ok:
  assumes inv: "http_inv n s" and k: "k < fd_count s" "fst (kinds s ! k) = UNICAST_CLIENT" and r: "revents s ! k \<noteq> 0"
  shows "\<exists>s' i. close_at s k = Some (s', i) \<and> http_inv n s' \<and> fewer_clients max_cl s s' \<and> busy_fds s' < busy_fds s \<and>
    0 \<le> i \<and> i \<le> int (fd_count s')"
proof -
  have t: "table_ok n s" using inv by (simp add: http_inv_def)
  obtain s' where s': "close_fd s (pfds (hw s) ! k) = Some s'" "http_inv n s'" "fd_count s' = fd_count s - 1"
    "revents s' = swapped k (revents s)" "client_number (hw s') \<le> client_number (hw s)"
    using close_fd_ok [OF inv k] by blast
  have len: "length (revents s) = fd_count s" "length (revents s') = fd_count s'" using t s'(2) by (simp_all add: table_ok_def http_inv_def)
  have "event_at s' (int k) \<noteq> None" using s'(3) k(1) len by (auto simp: event_at_def rd_def)
  then obtain e where e: "event_at s' (int k) = Some e" by blast
  have k0: "1 \<le> k"
  proof (rule ccontr)
    assume "\<not> 1 \<le> k"
    then have "k = 0" by simp
    then show False using t k by (simp add: table_ok_def)
  qed
  have "close_at s k = Some (s', if e \<noteq> 0 then int k - 1 else int k)"
    using k(1) s'(1) e by (simp add: close_at_def rd_def fd_count_def)
  moreover have "busy_fds s' < busy_fds s"
    using filter_swapped [of k "revents s" "\<lambda>r. r \<noteq> 0"] r k(1) len by (simp add: busy_fds_def s'(4))
  ultimately show ?thesis using s' k0 k(1) by (auto simp: fewer_clients_def)
qed

lemma hangup_ok:
  assumes inv: "http_inv n s" and k: "k < fd_count s"
  shows "\<exists>s' i. hangup_step s k = Some (s', i) \<and> http_inv n s' \<and> fewer_clients max_cl s s' \<and>
    0 \<le> i \<and> i \<le> int (fd_count s') \<and> (s' = s \<and> i = int k \<or> busy_fds s' < busy_fds s)"
proof -
  have t: "table_ok n s" using inv by (simp add: http_inv_def)
  have e: "event_at s (int k) = Some (revents s ! k)" "rd (kinds s) k = Some (kinds s ! k)"
    using k t by (simp_all add: event_at_def rd_def table_ok_def)
  show ?thesis
  proof (cases "(revents s ! k AND POLLHUP \<noteq> 0 \<or> revents s ! k AND POLLERR \<noteq> 0) \<and> fst (kinds s ! k) = UNICAST_CLIENT")
    case True
    then have r: "revents s ! k \<noteq> 0" by auto
    have "hangup_step s k = close_at s k" using True e by (simp add: hangup_step_def split_beta)
    then show ?thesis using close_at_ok [OF inv k _ r, of max_cl] True by fastforce
  next
    case False
    then have "hangup_step s k = Some (s, int k)" using e by (auto simp: hangup_step_def split_beta)
    then show ?thesis using inv k by (auto simp: fewer_clients_def)
  qed
qed

text \<open>The round gets a request with a negative number.\<close>

definition negative_input :: "poll_env \<Rightarrow> nat \<Rightarrow> http_state \<Rightarrow> int \<Rightarrow> bool" where
  "negative_input e t s i \<longleftrightarrow> (\<exists>p c. rd (fd_info (hw s)) (nat i) = Some p \<and> uclients (hw s) p = Some c \<and> received_negative (rcv e t) c)"

definition env_ok :: "nat \<Rightarrow> poll_env \<Rightarrow> bool" where
  "env_ok n e \<longleftrightarrow> (\<forall>t xs. rcv e t = Received xs \<longrightarrow> length xs \<le> RECV_BUFFER_MULTIPLE) \<and>
     (\<forall>s t. http_inv n s \<longrightarrow> accept_ok s (acc e s t))"

definition input_progress :: "http_state \<Rightarrow> nat \<Rightarrow> http_state \<Rightarrow> bool" where
  "input_progress s k s' \<longleftrightarrow> busy_fds s' < busy_fds s \<or>
     busy_fds s' = busy_fds s \<and> kinds s' = kinds s \<and> fd_count s' = fd_count s \<or>
     busy_fds s' = busy_fds s \<and> k < length (kinds s) \<and> fst (kinds s ! k) \<noteq> UNICAST_CLIENT \<and> kinds s' = kinds s @ [(UNICAST_CLIENT, -1)]"

lemma input_ok:
  assumes inv: "http_inv n s" and i: "0 \<le> i" "i \<le> int (fd_count s)" and e: "env_ok n e"
  shows "negative_input e t s i \<and> input_step n max_cl e t s i = None \<or>
    (\<exists>s' j. input_step n max_cl e t s i = Some (s', j) \<and> http_inv n s' \<and> fewer_clients max_cl s s' \<and> -1 \<le> j \<and>
       input_progress s (nat i) s' \<and> (busy_fds s' < busy_fds s \<or> j = i))"
proof -
  define k where "k = nat i"
  have t0: "table_ok n s" using inv by (simp add: http_inv_def)
  have len: "length (revents s) = fd_count s" "length (kinds s) = fd_count s" "length (fd_info (hw s)) = fd_count s"
    using t0 by (simp_all add: table_ok_def)
  obtain r where r: "event_at s i = Some r" "k < fd_count s \<Longrightarrow> r = revents s ! k" "\<not> k < fd_count s \<Longrightarrow> r = 0"
  proof -
    have "k = fd_count s" if "\<not> k < fd_count s" using that i by (simp add: k_def)
    then have "event_at s i = Some (if k < fd_count s then revents s ! k else 0)"
      using i len by (auto simp: event_at_def rd_def simp flip: k_def)
    then show thesis using that by simp
  qed
  show ?thesis
  proof (cases "r AND POLLIN \<noteq> 0 \<or> r AND POLLPRI \<noteq> 0")
    case False
    then have "input_step n max_cl e t s i = Some (s, i)" using r(1) by (simp add: input_step_def)
    then show ?thesis using inv i by (auto simp: fewer_clients_def input_progress_def)
  next
    case True
    have rn: "r \<noteq> 0" using True by auto
    then have k: "k < fd_count s" "revents s ! k = r" using r by auto
    have kd: "rd (kinds s) (nat i) = Some (kinds s ! k)" "rd (fd_info (hw s)) (nat i) = Some (fd_info (hw s) ! k)"
      using k(1) len by (simp_all add: rd_def k_def)
    show ?thesis
    proof (cases "fst (kinds s ! k) = UNICAST_CLIENT")
      case False
      have "accept_ok s (acc e s t)" using e inv by (simp add: env_ok_def)
      from accept_fd_ok [OF inv k(1) this, of max_cl]
      obtain s' where s': "accept_fd max_cl (acc e s t) k s = Some s'" "http_inv n s'" "accept_shape s s'" "fewer_clients max_cl s s'"
        unfolding fewer_clients_def by blast
      have "input_step n max_cl e t s i = Some (s', i)"
        using r(1) True kd False s'(1) by (simp add: input_step_def split_beta k_def)
      moreover have "input_progress s (nat i) s'"
        using s'(3) False k(1) len by (auto simp: input_progress_def accept_shape_def busy_fds_def k_def)
      ultimately show ?thesis using s'(2,4) i by auto
    next
      case True2: True
      have l: "\<And>xs. rcv e t = Received xs \<Longrightarrow> length xs \<le> RECV_BUFFER_MULTIPLE" using e by (simp add: env_ok_def)
      have run: "input_step n max_cl e t s i = do {
          (ret, a, w) \<leftarrow> unicast_handle_message (hw s) (fd_info (hw s) ! k) n (rcv e t) (header_written e t);
          if ret = -2 then close_at (s\<lparr>hw := w\<rparr>) k else Some (s\<lparr>hw := w\<rparr>, i)}"
        using r(1) True kd True2 unfolding k_def by (simp add: input_step_def split_beta)
      have "(\<exists>c. uclients (hw s) (fd_info (hw s) ! k) = Some c \<and> received_negative (rcv e t) c) \<and>
          unicast_handle_message (hw s) (fd_info (hw s) ! k) n (rcv e t) (header_written e t) = None \<or>
        (\<exists>ret a w. unicast_handle_message (hw s) (fd_info (hw s) ! k) n (rcv e t) (header_written e t) = Some (ret, a, w) \<and>
          http_inv n (s\<lparr>hw := w\<rparr>) \<and> pfds w = pfds (hw s) \<and> client_number w = client_number (hw s))"
        by (rule message_inv [OF inv k(1) True2 refl]) (rule l)
      then show ?thesis
      proof (elim disjE exE conjE)
        fix c
        assume "uclients (hw s) (fd_info (hw s) ! k) = Some c" "received_negative (rcv e t) c"
          "unicast_handle_message (hw s) (fd_info (hw s) ! k) n (rcv e t) (header_written e t) = None"
        then show ?thesis using kd(2) by (auto simp: run negative_input_def)
      next
        fix ret a w
        assume m: "unicast_handle_message (hw s) (fd_info (hw s) ! k) n (rcv e t) (header_written e t) = Some (ret, a, w)"
          "http_inv n (s\<lparr>hw := w\<rparr>)" "pfds w = pfds (hw s)" "client_number w = client_number (hw s)"
        define s1 where "s1 = s\<lparr>hw := w\<rparr>"
        have s1: "http_inv n s1" "k < fd_count s1" "fst (kinds s1 ! k) = UNICAST_CLIENT" "revents s1 ! k \<noteq> 0"
          "busy_fds s1 = busy_fds s" "kinds s1 = kinds s" "fd_count s1 = fd_count s" "client_number (hw s1) = client_number (hw s)"
          using m True2 k rn by (simp_all add: s1_def fd_count_def busy_fds_def)
        show ?thesis
        proof (cases "ret = -2")
          case True
          then have "input_step n max_cl e t s i = close_at s1 k" using run m(1) by (simp add: s1_def)
          then show ?thesis using close_at_ok [OF s1(1-4), of max_cl] s1(5,8)
            by (fastforce simp: fewer_clients_def input_progress_def)
        next
          case False
          then have "input_step n max_cl e t s i = Some (s1, i)" using run m(1) by (simp add: s1_def)
          then show ?thesis using s1 i by (auto simp: fewer_clients_def input_progress_def)
        qed
      qed
    qed
  qed
qed

section \<open>The whole loop\<close>

text \<open>The rounds that the loop goes through from a state: state, index and number of the round.\<close>

inductive fd_reach :: "nat \<Rightarrow> int \<Rightarrow> poll_env \<Rightarrow> http_state \<Rightarrow> nat \<Rightarrow> nat \<Rightarrow> http_state \<Rightarrow> nat \<Rightarrow> nat \<Rightarrow> bool"
  for n max_cl e s0 k0 t0 where
  start: "fd_reach n max_cl e s0 k0 t0 s0 k0 t0"
| round: "fd_reach n max_cl e s0 k0 t0 s k t \<Longrightarrow> k < fd_count s \<Longrightarrow> fd_step n max_cl e t s k = Some (s', k') \<Longrightarrow>
    fd_reach n max_cl e s0 k0 t0 s' k' (t + 1)"

lemma fd_reach_first:
  assumes "fd_reach n max_cl e s1 k1 (t + 1) s' k' t'" "fd_step n max_cl e t s k = Some (s1, k1)" "k < fd_count s"
  shows "fd_reach n max_cl e s k t s' k' t'"
  using assms
proof (induction rule: fd_reach.induct)
  case start
  then show ?case using fd_reach.round [OF fd_reach.start] by blast
next
  case (round s2 k2 t2 s3 k3)
  then show ?case using fd_reach.round by blast
qed

definition negative_round :: "poll_env \<Rightarrow> nat \<Rightarrow> http_state \<Rightarrow> nat \<Rightarrow> bool" where
  "negative_round e t s k \<longleftrightarrow> (\<exists>s' i. hangup_step s k = Some (s', i) \<and> negative_input e t s' i)"

definition round_less :: "((nat \<times> nat \<times> nat) \<times> (nat \<times> nat \<times> nat)) set" where
  "round_less = less_than <*lex*> (less_than <*lex*> less_than)"

definition round_measure :: "http_state \<Rightarrow> nat \<Rightarrow> nat \<times> nat \<times> nat" where
  "round_measure s k = (busy_fds s, listeners_from k s, fd_count s - k)"

lemma wf_round_less: "wf round_less"
  by (simp add: round_less_def wf_lex_prod)

lemma listeners_step:
  "listeners_from (Suc k) s \<le> listeners_from k s"
  "k < length (kinds s) \<Longrightarrow> fst (kinds s ! k) \<noteq> UNICAST_CLIENT \<Longrightarrow> kinds s' = kinds s @ [(UNICAST_CLIENT, -1)] \<Longrightarrow>
     listeners_from (Suc k) s' < listeners_from k s"
proof -
  have "drop (Suc k) (kinds s) = tl (drop k (kinds s))" by (simp add: drop_Suc tl_drop)
  then show "listeners_from (Suc k) s \<le> listeners_from k s"
    by (cases "drop k (kinds s)") (simp_all add: listeners_from_def)
  show "listeners_from (Suc k) s' < listeners_from k s"
    if "k < length (kinds s)" "fst (kinds s ! k) \<noteq> UNICAST_CLIENT" "kinds s' = kinds s @ [(UNICAST_CLIENT, -1)]"
    using that by (simp add: listeners_from_def Cons_nth_drop_Suc [symmetric])
qed

lemma fd_step_ok:
  assumes inv: "http_inv n s" and k: "k < fd_count s" and e: "env_ok n e"
  shows "negative_round e t s k \<or>
    (\<exists>s' k'. fd_step n max_cl e t s k = Some (s', k') \<and> http_inv n s' \<and> fewer_clients max_cl s s' \<and>
       (round_measure s' k', round_measure s k) \<in> round_less)"
proof -
  obtain s1 i where h: "hangup_step s k = Some (s1, i)" "http_inv n s1" "fewer_clients max_cl s s1" "0 \<le> i" "i \<le> int (fd_count s1)"
    "s1 = s \<and> i = int k \<or> busy_fds s1 < busy_fds s"
    using hangup_ok [OF inv k] by blast
  show ?thesis
  proof (cases "negative_input e t s1 i")
    case True
    then show ?thesis using h(1) by (auto simp: negative_round_def)
  next
    case False
    then obtain s2 j where j: "input_step n max_cl e t s1 i = Some (s2, j)" "http_inv n s2" "fewer_clients max_cl s1 s2" "-1 \<le> j"
      "input_progress s1 (nat i) s2" "busy_fds s2 < busy_fds s1 \<or> j = i"
      using input_ok [OF h(2,4,5) e, of t max_cl] by blast
    have run: "fd_step n max_cl e t s k = Some (s2, nat (j + 1))" using h(1) j(1) by (simp add: fd_step_def)
    have cl: "fewer_clients max_cl s s2" using h(3) j(3) by (simp add: fewer_clients_def)
    have le: "busy_fds s2 \<le> busy_fds s1" using j(5) by (auto simp: input_progress_def)
    have "(round_measure s2 (nat (j + 1)), round_measure s k) \<in> round_less"
    proof (cases "busy_fds s2 < busy_fds s")
      case True
      then show ?thesis by (simp add: round_less_def round_measure_def)
    next
      case False
      then have s1: "s1 = s" "i = int k" "\<not> busy_fds s2 < busy_fds s" "j = int k" using le h(6) j(6) by auto
      then consider "kinds s2 = kinds s" "fd_count s2 = fd_count s" "busy_fds s2 = busy_fds s"
        | "k < length (kinds s)" "fst (kinds s ! k) \<noteq> UNICAST_CLIENT" "kinds s2 = kinds s @ [(UNICAST_CLIENT, -1)]" "busy_fds s2 = busy_fds s"
        using j(5) by (auto simp: input_progress_def)
      then show ?thesis
      proof cases
        case 1
        have "listeners_from (Suc k) s2 = listeners_from (Suc k) s" using 1 by (simp add: listeners_from_def)
        then show ?thesis using listeners_step(1) [of k s] 1 s1 k by (auto simp: round_less_def round_measure_def nat_add_distrib)
      next
        case 2
        then show ?thesis using listeners_step(2) [OF 2(1-3)] s1 by (simp add: round_less_def round_measure_def nat_add_distrib)
      qed
    qed
    then show ?thesis using run j(2) cl by blast
  qed
qed

lemma fd_loop_ok:
  assumes "http_inv n s" "env_ok n e"
  shows "(\<exists>s'. fd_loop n max_cl e t s k = Some s' \<and> http_inv n s' \<and> fewer_clients max_cl s s') \<or>
    (\<exists>s1 k1 t1. fd_reach n max_cl e s k t s1 k1 t1 \<and> k1 < fd_count s1 \<and> negative_round e t1 s1 k1)"
  using assms
proof (induction "round_measure s k" arbitrary: s k t rule: wf_induct_rule [OF wf_round_less])
  case 1
  show ?case
  proof (cases "k < fd_count s")
    case False
    then show ?thesis using 1 by (subst fd_loop.simps) (auto simp: fewer_clients_def)
  next
    case True
    consider "negative_round e t s k"
      | s1 k1 where "fd_step n max_cl e t s k = Some (s1, k1)" "http_inv n s1" "fewer_clients max_cl s s1"
        "(round_measure s1 k1, round_measure s k) \<in> round_less"
      using fd_step_ok [OF 1(2) True 1(3), of t max_cl] by blast
    then show ?thesis
    proof cases
      case 1
      then show ?thesis using True fd_reach.start by blast
    next
      case 2
      have l: "fd_loop n max_cl e t s k = fd_loop n max_cl e (t + 1) s1 k1" using True 2(1) by (subst fd_loop.simps) simp
      from "1.hyps" [OF 2(4,2) 1(3), of "t + 1"] show ?thesis
        unfolding l using 2(3) fd_reach_first [OF _ 2(1) True] by (auto simp: fewer_clients_def)
    qed
  qed
qed

text \<open>Opening a listening socket.\<close>

lemma listening_socket_ok:
  assumes inv: "http_inv n s" and sock: "0 < sock \<Longrightarrow> sock \<notin> set (pfds (hw s))" and ty: "ty \<noteq> UNICAST_CLIENT"
    and ch: "ty = UNICAST_LISTEN_CHANNEL \<Longrightarrow> 0 \<le> ch \<and> ch < int n"
  shows "http_inv n (snd (unicast_create_listening_socket ty ch sock s))"
proof (cases "0 < sock")
  case False
  then show ?thesis using inv by (simp add: unicast_create_listening_socket_def)
next
  case True
  define s' where "s' = push_fd s sock ty ch NULL"
  have t: "table_ok n s" using inv by (simp add: http_inv_def)
  have len: "length (pfds (hw s)) = fd_count s" "length (fd_info (hw s)) = fd_count s" "length (kinds s) = fd_count s"
    "length (revents s) = fd_count s" using t by (simp_all add: table_ok_def) (simp add: fd_count_def)
  have f: "pfds (hw s') = pfds (hw s) @ [sock]" "fd_info (hw s') = fd_info (hw s) @ [NULL]" "kinds s' = kinds s @ [(ty, ch)]"
    "revents s' = revents s @ [0]" "uclients (hw s') = uclients (hw s)" "chans (hw s') = chans (hw s)"
    by (simp_all add: s'_def push_fd_def)
  have m: "fd_count s' = Suc (fd_count s)" by (simp add: fd_count_def f)
  have "table_ok n s'"
    unfolding table_ok_def m
  proof (intro conjI)
    show "distinct (pfds (hw s'))" using t sock True by (simp add: f table_ok_def)
    show "\<forall>k < Suc (fd_count s). row_ok n (uclients (hw s')) (kinds s' ! k) (pfds (hw s') ! k) (fd_info (hw s') ! k)"
      using t len ty ch by (auto simp: f table_ok_def nth_append row_ok_def less_Suc_eq)
    show "\<forall>p. uclients (hw s') p \<noteq> None \<longrightarrow> (\<exists>k < Suc (fd_count s). fst (kinds s' ! k) = UNICAST_CLIENT \<and> fd_info (hw s') ! k = p)"
    proof (intro allI impI)
      fix p assume "uclients (hw s') p \<noteq> None"
      then obtain k where "k < fd_count s" "fst (kinds s ! k) = UNICAST_CLIENT" "fd_info (hw s) ! k = p"
        using t by (auto simp: f table_ok_def)
      then show "\<exists>k < Suc (fd_count s). fst (kinds s' ! k) = UNICAST_CLIENT \<and> fd_info (hw s') ! k = p"
        using len by (intro exI [of _ k]) (simp add: f nth_append)
    qed
    show "0 < Suc (fd_count s) \<longrightarrow> fst (kinds s' ! 0) \<noteq> UNICAST_CLIENT"
      using t ty len by (auto simp: f nth_append table_ok_def)
  qed (simp_all add: f len)
  moreover have "clients_inv (hw s') gs cs qs = clients_inv (hw s) gs cs qs" for gs cs qs
    by (simp add: s'_def push_fd_def clients_inv_table)
  ultimately have "http_inv n s'" using inv by (simp add: http_inv_def f)
  then show ?thesis using True by (simp add: unicast_create_listening_socket_def s'_def)
qed


text \<open>A new connection and, at the same time, a client that has hung up.\<close>

definition http_sample :: http_state where
  "http_sample = \<lparr>hw = world_idle\<lparr>pfds := [3, 7], fd_info := [NULL, 5]\<rparr>, kinds = [(UNICAST_MASTER, -1), (UNICAST_CLIENT, -1)],
     revents = [1, 16]\<rparr>"

definition poll_sample :: poll_env where
  "poll_sample = \<lparr>rcv = \<lambda>_. Recv_closed, header_written = \<lambda>_. True,
     acc = \<lambda>s _. \<lparr>accepted = 1 + sum_list (map abs (pfds (hw s))), sockname_ok = True, nonblocking_ok = True,
       allocated = (if uclients (hw s) 6 = None then 6 else NULL)\<rparr>\<rparr>"

lemma http_sample_inv: "http_inv 1 http_sample"
  unfolding http_inv_def
proof (intro conjI)
  have "clients_inv (hw http_sample) [5] (\<lambda>_. []) (\<lambda>_. [])"
    using world_idle_inv by (simp add: http_sample_def clients_inv_table)
  then show "\<exists>gs cs qs. clients_inv (hw http_sample) gs cs qs" by blast
  show "table_ok 1 http_sample"
    by (auto simp: table_ok_def fd_count_def http_sample_def world_idle_def new_client_def row_ok_def less_Suc_eq NULL_def
        world0_def split: if_splits)
qed (auto simp: http_sample_def world_idle_def world0_def client_ok_def rx_ok_def new_client_def split: if_splits)

lemma member_le_sum_abs: "x \<in> set xs \<Longrightarrow> x \<le> sum_list (map abs (xs :: int list))"
proof -
  assume "x \<in> set xs"
  then have "\<bar>x\<bar> \<le> sum_list (map abs xs)" by (intro member_le_sum_list) auto
  then show ?thesis by linarith
qed

lemma poll_sample_ok: "env_ok 1 poll_sample"
  unfolding env_ok_def
proof (intro conjI allI impI)
  fix s t assume inv: "http_inv 1 s"
  obtain gs cs qs where "clients_inv (hw s) gs cs qs" using inv unfolding http_inv_def by blast
  then have "uclients (hw s) NULL = None"
    using dll_not_NULL unfolding clients_inv_def global_inv_def by blast
  moreover have "1 + sum_list (map abs (pfds (hw s))) \<notin> set (pfds (hw s))" using member_le_sum_abs by fastforce
  ultimately show "accept_ok s (acc poll_sample s t)" by (simp add: accept_ok_def poll_sample_def)
qed (simp add: poll_sample_def)


end
