(* ===== verification/Spec2Isabelle.thy ===== *)
theory Spec2Isabelle
  imports Main_Loop T2mi Autoconf_Main Config_Ok Monitor Http_Events
begin

text \<open>
  A verification library of MuMuDVB, the program that receives a DVB transponder and streams its
  channels to multicast groups, HTTP clients and HLS files. All paths are under \<^verbatim>\<open>src/src/\<close>.

  \<^bold>\<open>The program.\<close> \<^verbatim>\<open>main\<close> (\<^verbatim>\<open>mumudvb.c\<close>) reads the configuration, a line at a time, through the readers of
  the components, tunes the card (\<^verbatim>\<open>tune.c\<close>) and starts the threads. The card (or a T2-MI stream,
  \<^verbatim>\<open>t2mi.c\<close>) delivers transport packets of 188 bytes. The main loop collects the tables out of the packets
  with the section assembler (\<^verbatim>\<open>ts.c\<close>, CRC in \<^verbatim>\<open>crc32.c\<close>). Autoconfiguration (\<^verbatim>\<open>autoconf*.c\<close>) reads the
  tables into the list of channels, and \<^verbatim>\<open>mumudvb_channels.c\<close> gives the channels their filters, addresses and
  sockets. The rewriters (\<^verbatim>\<open>rewrite_pat.c\<close>, \<^verbatim>\<open>rewrite_sdt.c\<close>, \<^verbatim>\<open>rewrite_pmt.c\<close>, \<^verbatim>\<open>rewrite_eit.c\<close>) replace the tables
  by ones that announce only the channel. \<^verbatim>\<open>buffer_func\<close> (\<^verbatim>\<open>mumudvb_common.c\<close>) puts the packets of a channel
  together to datagrams, or first into a ring buffer when the channel is descrambled in software
  (\<^verbatim>\<open>scam_*.c\<close>); \<^verbatim>\<open>send_func\<close> sends a full buffer to the multicast group with an RTP header
  (\<^verbatim>\<open>rtp.c\<close>), to the HTTP clients with a queue each (\<^verbatim>\<open>unicast_queue.c\<close>, \<^verbatim>\<open>unicast_clients.c\<close>), and to the
  chunk files of HLS (\<^verbatim>\<open>hls.c\<close>). The HTTP server (\<^verbatim>\<open>unicast_http.c\<close>) accepts the clients and reads their
  requests between the packets. The monitoring thread (\<^verbatim>\<open>mumudvb_mon.c\<close>) looks at the channels every few seconds,
  sends the announcements (\<^verbatim>\<open>sap.c\<close>) and stops the program or tunes again when nothing comes.

  \<^bold>\<open>The theories.\<close> Foundations:
  \<^item> \<^verbatim>\<open>Mumu_Prelude\<close>: memory as lists with checked reads and writes (\<open>None\<close> is an access out of
    bounds), bit fields, \<^verbatim>\<open>HILO\<close>.
  \<^item> \<^verbatim>\<open>Crc\<close>: the table of \<^verbatim>\<open>crc32.c\<close> and the two loops over it, shown equal to the serial CRC; single
    bursts of errors are found.
  \<^item> \<^verbatim>\<open>Ts_Headers\<close>: the packed structures of \<^verbatim>\<open>ts.h\<close> as records, with a decoder and an encoder that
    are inverse to each other (locale \<^verbatim>\<open>c_struct\<close>).
  \<^item> \<^verbatim>\<open>Ts_Assembler\<close>, \<^verbatim>\<open>Ts_Reassembly\<close>: \<^verbatim>\<open>get_ts_packet\<close> and its helpers; the invariant of the section
    buffer, its refinement to a queue of CRC-correct sections, the round trip of segmentation, and the
    contract of its clients (locale \<^verbatim>\<open>section_client\<close>, interpreted by the three collectors).
  \<^item> \<^verbatim>\<open>Mumudvb\<close>: the shared data of \<^verbatim>\<open>mumudvb.h\<close>; \<^verbatim>\<open>Mumu_Strings\<close>: the string functions of
    \<^verbatim>\<open>mumudvb_common.c\<close>.

  From the card to the receivers:
  \<^item> \<^verbatim>\<open>Rewrite\<close>, \<^verbatim>\<open>Rewrite_Pat\<close>, \<^verbatim>\<open>Rewrite_Sdt\<close>, \<^verbatim>\<open>Rewrite_Pmt\<close>, \<^verbatim>\<open>Rewrite_Eit\<close>: the rewriters. Generated
    packets are proved to be one packet with a complete, CRC-correct section that announces exactly what
    it should; stored EIT sections reach a receiver unchanged.
  \<^item> \<^verbatim>\<open>Unicast_Queue\<close>, \<^verbatim>\<open>Unicast_Clients\<close>, \<^verbatim>\<open>Unicast_Send\<close>: the heap of the HTTP clients (an explicit store
    of cells, blocks and client structures), the invariant of the two linked lists and the queues, and
    what a client is sent.
  \<^item> \<^verbatim>\<open>Hls\<close>: chunks, playlists and their rotation over a model of the files.
  \<^item> \<^verbatim>\<open>Output\<close>, \<^verbatim>\<open>Output_Frame\<close>: datagrams and RTP, polling, and the frame of \<^verbatim>\<open>buffer_func\<close>: sending
    changes only buffers, counters and client lists.
  \<^item> \<^verbatim>\<open>Scam\<close>: the ring buffer as a transition system of the main, descrambling, sending and control word
    threads, with its invariant over all interleavings; CA PMT messages and keys.
  \<^item> \<^verbatim>\<open>T2mi\<close>: \<^verbatim>\<open>processt2\<close> over its static buffers.
  \<^item> \<^verbatim>\<open>Main_Loop\<close>: the way of one packet from the rewriters to the channels, composed of all the above.

  Channels and autoconfiguration:
  \<^item> \<^verbatim>\<open>Channels\<close> (initialisation, collection of the PMT), \<^verbatim>\<open>Card_Filters\<close> (the PID filters of the card).
  \<^item> \<^verbatim>\<open>Autoconf\<close> (the state), \<^verbatim>\<open>Descriptors\<close> (loops of descriptors), \<^verbatim>\<open>Autoconf_Pat\<close>, \<^verbatim>\<open>Autoconf_Cat\<close>,
    \<^verbatim>\<open>Autoconf_Pmt\<close>, \<^verbatim>\<open>Autoconf_Sdt\<close> with \<^verbatim>\<open>En300468\<close> (the conversion of names), \<^verbatim>\<open>Autoconf_Nit\<close> and
    \<^verbatim>\<open>Autoconf_Atsc\<close>: the readers of the tables, each against an encoding of the table by the standard.
  \<^item> \<^verbatim>\<open>Channel_Net\<close> (status, addresses, sockets), \<^verbatim>\<open>Channel_Names\<close> (names), and \<^verbatim>\<open>Autoconf_Main\<close>, the composition
    of the readers and the updates: what a full update makes of every service.

  Configuration, tuning and supervision:
  \<^item> \<^verbatim>\<open>Config_Lines\<close>, \<^verbatim>\<open>Config_Readers\<close>, \<^verbatim>\<open>Config\<close>, \<^verbatim>\<open>Config_Ok\<close>: the words of a line, the readers of the components
    and the loop of \<^verbatim>\<open>main\<close> over the lines; a configuration that is accepted is well formed.
  \<^item> \<^verbatim>\<open>Tune_Params\<close>, \<^verbatim>\<open>Tune\<close>: the options of the tuning and \<^verbatim>\<open>tune_it\<close>, with the DiSEqC and unicable commands, as
    the list of the requests to the card.
  \<^item> \<^verbatim>\<open>Sap\<close>: the bytes of the announcements and when they are sent.
  \<^item> \<^verbatim>\<open>Monitor\<close>: a pass of the monitoring thread and its runs among the other threads.

  The HTTP server:
  \<^item> \<^verbatim>\<open>Http_Reply\<close>: the buffers of an answer, sending it, and the pages of the server itself.
  \<^item> \<^verbatim>\<open>Http\<close>: a message of a client, the recognition of the request, joining a channel.
  \<^item> \<^verbatim>\<open>Http_Events\<close>: the table of the descriptors, accepting, and the loop over the events, which ends and keeps the
    table in step with the lists of \<^verbatim>\<open>Unicast_Clients\<close>.

  \<^bold>\<open>Conventions.\<close> A byte is an \<open>8 word\<close>, a byte array a list of its C size, an \<^verbatim>\<open>int\<close> that is a count or an
  index is \<open>nat\<close>, other integers are \<open>int\<close> or words of their width where wrapping matters. An operation that
  may access memory out of bounds returns an option, and \<open>None\<close> means that it does; loops that may not
  end are \<^verbatim>\<open>partial_function\<close>, and \<open>None\<close> also means that they do not end. A pointer to a packet is
  the memory from its first byte on. Results of system calls, times, random numbers and allocations
  are arguments, as are the functions of libraries (\<^verbatim>\<open>iconv\<close>). No fuel is used: loops either have a termination
  proof, or their termination is a theorem, or its failure is.

  \<^bold>\<open>Not modelled.\<close> The rest of \<^verbatim>\<open>main\<close> (the options of the command line other than \<^verbatim>\<open>-o\<close>, the threads, the closing
  of the program) and of \<^verbatim>\<open>dvb.c\<close> (opening and reading the card) only makes system calls, as do the functions of
  \<^verbatim>\<open>network.c\<close>; the datagrams they send are lists here. The CAM (\<^verbatim>\<open>cam.c\<close>) is a client of the library libdvben50221, with
  call-backs into it; its options are modelled, and the main loop is that of a build without it. Logging
  (\<^verbatim>\<open>log.c\<close>) is output, but for the conversion of names, its options and the file of the streamed channels, which are
  modelled. The pages of the monitoring (\<^verbatim>\<open>unicast_monit.c\<close>, \<^verbatim>\<open>unicast_EIT.c\<close>) print the state. The
  Windows port replaces system calls. \<^verbatim>\<open>check_status\<close> of \<^verbatim>\<open>tune.c\<close> waits for the lock, and is an argument. The parts
  of the monitor under \<^verbatim>\<open>ENABLE_SCAM_SUPPORT\<close> are left out. Mutexes are left out where the code of a thread runs under
  them as a whole; the threads of the ring buffer are modelled with steps that are atomic under its lock, and
  the other threads of the monitor come between its passes.
\<close>

end
